(* ===== verification/Ugdr_Prelude.thy ===== *)
theory Ugdr_Prelude
  imports Main "HOL-Library.Word"
begin

text \<open>
  Shared vocabulary of the development: the machine integer types of the C++ code, the errno
  values its status codes use, the collections of simplification facts the component theories
  fill, and the generic list, option and word lemmas they share.

  Conventions used by every component theory:
  \<^item> \<open>std::uint8_t\<close>, \<open>std::uint16_t\<close>, \<open>std::uint32_t\<close> and \<open>std::uint64_t\<close> are words of that
    width, so that additions and subtractions wrap as they do in the code; \<open>std::size_t\<close> is a
    64-bit word wherever the code does arithmetic that could overflow, and a \<open>nat\<close> where it is
    the length of a container;
  \<^item> a status returned by the code is an \<open>int\<close> holding 0 or an errno value;
  \<^item> an out-parameter of the code is a component of the result of the model; the code's test of
    such a pointer against \<open>nullptr\<close> is modelled where a caller can pass a null pointer (the ring
    operations and the public entry points) and has no counterpart elsewhere.
\<close>

section \<open>Machine integers\<close>

type_synonym u8 = "8 word"
type_synonym u16 = "16 word"
type_synonym u32 = "32 word"
type_synonym u64 = "64 word"
type_synonym bytes = "u8 list"

section \<open>Status codes\<close>

abbreviation (input) OK :: int where "OK \<equiv> 0"
abbreviation (input) ENOENT :: int where "ENOENT \<equiv> 2"
abbreviation (input) EIO :: int where "EIO \<equiv> 5"
abbreviation (input) EBADF :: int where "EBADF \<equiv> 9"
abbreviation (input) EAGAIN :: int where "EAGAIN \<equiv> 11"
abbreviation (input) ENOMEM :: int where "ENOMEM \<equiv> 12"
abbreviation (input) EACCES :: int where "EACCES \<equiv> 13"
abbreviation (input) EBUSY :: int where "EBUSY \<equiv> 16"
abbreviation (input) EINVAL :: int where "EINVAL \<equiv> 22"
abbreviation (input) ENOSPC :: int where "ENOSPC \<equiv> 28"
abbreviation (input) EPROTO :: int where "EPROTO \<equiv> 71"
abbreviation (input) EOVERFLOW :: int where "EOVERFLOW \<equiv> 75"
abbreviation (input) EMSGSIZE :: int where "EMSGSIZE \<equiv> 90"
abbreviation (input) EPROTONOSUPPORT :: int where "EPROTONOSUPPORT \<equiv> 93"
abbreviation (input) EOPNOTSUPP :: int where "EOPNOTSUPP \<equiv> 95"

section \<open>Collections of facts\<close>

named_theorems wire_simps \<open>reading and appending scalars\<close>
named_theorems layout_defs \<open>definitions of the wire layouts\<close>
named_theorems inv_defs \<open>definitions of the component invariants\<close>

section \<open>Lists\<close>

lemma drop_append_exact [simp]: "length xs = n \<Longrightarrow> drop n (xs @ ys) = ys"
  by auto

lemma take_append_exact [simp]: "length xs = n \<Longrightarrow> take n (xs @ ys) = xs"
  by auto

lemma nth_eq_map_upt: "xs = map (\<lambda>i. xs ! i) [0..<length xs]"
  by (simp add: map_nth)

lemma distinct_butlast_last: "xs \<noteq> [] \<Longrightarrow> distinct xs \<Longrightarrow> last xs \<notin> set (butlast xs)"
  by (metis append_butlast_last_id distinct_append disjoint_iff list.set_intros(1))

lemma set_butlast_last: "xs \<noteq> [] \<Longrightarrow> set xs = insert (last xs) (set (butlast xs))"
  by (metis append_butlast_last_id Un_insert_right list.set(1) list.simps(15) set_append sup_bot.right_neutral)

lemma length_filter_update:
  assumes "i < length xs"
  shows "length (filter P (xs[i := x])) + (if P (xs ! i) then 1 else 0)
       = length (filter P xs) + (if P x then 1 else 0)"
  using assms
proof (induction xs arbitrary: i)
  case Nil
  then show ?case by simp
next
  case (Cons y ys)
  show ?case
  proof (cases i)
    case 0
    then show ?thesis by simp
  next
    case (Suc j)
    with Cons.IH [of j] Cons.prems show ?thesis by simp
  qed
qed

lemma nth_list_update_lt: "j < length xs \<Longrightarrow> xs[i := x] ! j = (if i = j then x else xs ! j)"
  by (cases "i < length xs") (simp_all add: nth_list_update list_update_beyond)

section \<open>Words\<close>

lemma unat_less_mod: "unat (x mod y) = unat x mod unat y"
  by (rule unat_mod)

lemma word_neq_0_unat: "(x :: 'a::len word) \<noteq> 0 \<longleftrightarrow> 0 < unat x"
  by (simp add: unat_gt_0)

lemma unat_u32_bound: "unat (x :: u32) < 4294967296"
  using unsigned_less [of x] by simp

lemma unat_u64_bound: "unat (x :: u64) < 18446744073709551616"
  using unsigned_less [of x] by simp

lemma unat_u16_bound: "unat (x :: u16) < 65536"
  using unsigned_less [of x] by simp

lemma unat_ucast_u32_u64 [simp]: "unat (ucast (x :: u32) :: u64) = unat x"
  by (simp add: unsigned_ucast_eq take_bit_nat_eq_self unat_u32_bound less_trans [OF unat_u32_bound])

lemma of_nat_unat_u32_u64: "(of_nat (unat (x :: u32)) :: u64) = ucast x"
  by simp

lemma unat_of_nat_u32: "n < 4294967296 \<Longrightarrow> unat (of_nat n :: u32) = n"
  by (simp add: unat_of_nat take_bit_eq_mod)

lemma unat_of_nat_u64: "n < 18446744073709551616 \<Longrightarrow> unat (of_nat n :: u64) = n"
  by (simp add: unat_of_nat take_bit_eq_mod)

lemma unat_of_nat_u16: "n < 65536 \<Longrightarrow> unat (of_nat n :: u16) = n"
  by (simp add: unat_of_nat take_bit_eq_mod)

lemma unat_max_minus: "unat (- 1 - (x :: u64)) = 18446744073709551615 - unat x"
proof -
  have "x \<le> - 1" by (simp add: word_le_nat_alt unsigned_minus_1_eq_mask mask_numeral)
      (use unat_u64_bound [of x] in linarith)
  then show ?thesis by (simp add: unat_sub unsigned_minus_1_eq_mask mask_numeral)
qed

lemma unat_add_u64: "unat x + unat y < 18446744073709551616 \<Longrightarrow> unat (x + y :: u64) = unat x + unat y"
  by (simp add: unat_word_ariths)

end
