(* ===== verification/Shared_Ring.thy ===== *)
theory Shared_Ring
  imports Ugdr_Prelude
begin

text \<open>
  \<^verbatim>\<open>queue/shared_ring.hpp\<close> and \<^verbatim>\<open>queue/shared_ring.cpp\<close>: the single-producer single-consumer ring
  in shared memory that carries send, receive and completion entries between a client process and
  the daemon.

  \<^item> A handle (\<open>SharedRing\<close>) is the record \<open>shared_ring\<close>; its \<open>mapping_\<close> is the base address or
    \<open>None\<close> for \<open>nullptr\<close>. The mapped bytes are not part of a handle: two processes share them.
  \<^item> A slot pointer is the offset of the slot from the start of the mapping. The product
    \<open>index * slot_stride\<close> of two 32-bit numbers plus the 192 header bytes is below \<open>2 ^ 64\<close>
    (\<open>slot_at_no_wrap\<close>), so the offset is a \<open>nat\<close>.
  \<^item> Every atomic load of a shared counter is an argument of the operation that performs it, in the
    order of the code, so that the other process may move the counters between two loads; the
    step relation \<open>ring_step\<close> says which values a load may return. Every store is a result.
  \<^item> The system calls of \<open>create_shared_ring\<close> and \<open>map_shared_ring\<close> are arguments holding their
    results; the \<open>close\<close> and \<open>munmap\<close> calls the code issues are returned as a log.
\<close>

section \<open>Descriptors, handles and batches\<close>

definition kSharedRingMagic :: u32 where "kSharedRingMagic = 0x55475251"
definition kSharedRingVersion :: u16 where "kSharedRingVersion = 1"

abbreviation kSharedRingCacheLine :: nat where "kSharedRingCacheLine \<equiv> 64"
abbreviation header_size :: nat where "header_size \<equiv> 3 * kSharedRingCacheLine"

abbreviation qk_send :: u16 where "qk_send \<equiv> 1"
abbreviation qk_receive :: u16 where "qk_receive \<equiv> 2"
abbreviation qk_completion :: u16 where "qk_completion \<equiv> 3"

record queue_descriptor =
  qd_kind :: u16
  qd_capacity :: u32
  qd_slot_stride :: u32

record producer_state =
  ps_local_tail :: u64
  ps_cached_head :: u64
  ps_local_index :: u32
  ps_reserved :: u32
  ps_initialized :: bool

record consumer_state =
  cs_local_head :: u64
  cs_cached_tail :: u64
  cs_local_index :: u32
  cs_peeked :: u32
  cs_initialized :: bool

record shared_ring =
  sr_mapping :: "u64 option"
  sr_mapping_size :: u64
  sr_descriptor :: int
  sr_queue_descriptor :: queue_descriptor
  sr_producer :: producer_state
  sr_consumer :: consumer_state

record slot_span =
  sp_data :: "nat option"
  sp_count :: u32

record slot_batch =
  sb_first :: slot_span
  sb_second :: slot_span
  sb_count :: u32

definition empty_producer :: producer_state where
  "empty_producer = \<lparr>ps_local_tail = 0, ps_cached_head = 0, ps_local_index = 0, ps_reserved = 0,
                     ps_initialized = False\<rparr>"

definition empty_consumer :: consumer_state where
  "empty_consumer = \<lparr>cs_local_head = 0, cs_cached_tail = 0, cs_local_index = 0, cs_peeked = 0,
                     cs_initialized = False\<rparr>"

definition empty_queue_descriptor :: queue_descriptor where
  "empty_queue_descriptor = \<lparr>qd_kind = qk_send, qd_capacity = 0, qd_slot_stride = 0\<rparr>"

definition empty_ring :: shared_ring where
  "empty_ring = \<lparr>sr_mapping = None, sr_mapping_size = 0, sr_descriptor = -1,
                 sr_queue_descriptor = empty_queue_descriptor,
                 sr_producer = empty_producer, sr_consumer = empty_consumer\<rparr>"

definition make_ring :: "u64 \<Rightarrow> u64 \<Rightarrow> int \<Rightarrow> queue_descriptor \<Rightarrow> shared_ring" where
  "make_ring mapping mapping_size descriptor qd =
     empty_ring\<lparr>sr_mapping := Some mapping, sr_mapping_size := mapping_size,
                sr_descriptor := descriptor, sr_queue_descriptor := qd\<rparr>"

definition valid_descriptor :: "queue_descriptor \<Rightarrow> bool" where
  "valid_descriptor d \<longleftrightarrow>
     qd_kind d \<ge> qk_send \<and> qd_kind d \<le> qk_completion \<and> qd_capacity d \<noteq> 0 \<and>
     qd_slot_stride d \<noteq> 0 \<and> qd_slot_stride d mod 64 = 0"

definition ring_valid :: "shared_ring \<Rightarrow> bool" where
  "ring_valid ring \<longleftrightarrow> sr_mapping ring \<noteq> None"

definition slot_at :: "shared_ring \<Rightarrow> u32 \<Rightarrow> nat" where
  "slot_at ring index = header_size + unat index * unat (qd_slot_stride (sr_queue_descriptor ring))"

section \<open>Releasing and moving a handle\<close>

datatype sys_effect = Munmap u64 u64 | Close int

definition ring_reset :: "shared_ring \<Rightarrow> sys_effect list \<times> shared_ring" where
  "ring_reset ring =
     ((case sr_mapping ring of Some mapping \<Rightarrow> [Munmap mapping (sr_mapping_size ring)] | None \<Rightarrow> []) @
      (if sr_descriptor ring \<ge> 0 then [Close (sr_descriptor ring)] else []),
      empty_ring)"

text \<open>\<open>*this = std::move(other)\<close> for two different objects: the effects, the new value of the
  destination and what is left in \<open>other\<close> (its queue descriptor stays).\<close>

definition ring_move_assign :: "shared_ring \<Rightarrow> shared_ring \<Rightarrow> sys_effect list \<times> shared_ring \<times> shared_ring" where
  "ring_move_assign this other =
     (case ring_reset this of (effects, _) \<Rightarrow>
        (effects, other,
         other\<lparr>sr_mapping := None, sr_mapping_size := 0, sr_descriptor := -1,
               sr_producer := empty_producer, sr_consumer := empty_consumer\<rparr>))"

definition duplicate_fd :: "bool \<Rightarrow> int + int \<Rightarrow> shared_ring \<Rightarrow> int + int" where
  "duplicate_fd have_out fcntl_dupfd ring =
     (if \<not> have_out \<or> sr_descriptor ring < 0 then Inl EINVAL else fcntl_dupfd)"

section \<open>The producer's side\<close>

definition producer_init :: "u64 \<Rightarrow> u64 \<Rightarrow> shared_ring \<Rightarrow> shared_ring" where
  "producer_init tail_load head_load ring =
     (let p = sr_producer ring in
      if ps_initialized p then ring
      else ring\<lparr>sr_producer := p\<lparr>ps_local_tail := tail_load, ps_cached_head := head_load,
             ps_local_index := ucast (tail_load mod ucast (qd_capacity (sr_queue_descriptor ring))),
             ps_initialized := True\<rparr>\<rparr>)"

definition make_batch :: "shared_ring \<Rightarrow> u32 \<Rightarrow> u32 \<Rightarrow> slot_batch" where
  "make_batch ring start count =
     (let first_count = min count (qd_capacity (sr_queue_descriptor ring) - start) in
      \<lparr>sb_first = \<lparr>sp_data = Some (slot_at ring start), sp_count = first_count\<rparr>,
       sb_second = \<lparr>sp_data = (if first_count = count then None else Some (slot_at ring 0)),
                    sp_count = count - first_count\<rparr>,
       sb_count = count\<rparr>)"

definition producer_reserve ::
  "u64 \<Rightarrow> u64 \<Rightarrow> u64 \<Rightarrow> u32 \<Rightarrow> bool \<Rightarrow> shared_ring \<Rightarrow> int \<times> shared_ring \<times> slot_batch option" where
  "producer_reserve tail_load head_load head_load2 max_count have_batch ring =
     (if \<not> ring_valid ring \<or> max_count = 0 \<or> \<not> have_batch \<or> ps_reserved (sr_producer ring) \<noteq> 0
      then (EINVAL, ring, None)
      else
        let ring1 = producer_init tail_load head_load ring;
            p1 = sr_producer ring1;
            capacity = ucast (qd_capacity (sr_queue_descriptor ring)) :: u64;
            used = ps_local_tail p1 - ps_cached_head p1
        in if used > capacity then (EPROTO, ring1, None)
        else
          let reload = (capacity - used < ucast max_count);
              p2 = (if reload then p1\<lparr>ps_cached_head := head_load2\<rparr> else p1);
              ring2 = ring1\<lparr>sr_producer := p2\<rparr>;
              used2 = ps_local_tail p2 - ps_cached_head p2
          in if reload \<and> used2 > capacity then (EPROTO, ring2, None)
          else
            let available = capacity - used2
            in if available = 0 then (EAGAIN, ring2, None)
            else
              let count = ucast (min (ucast max_count) available) :: u32
              in (OK, ring2\<lparr>sr_producer := p2\<lparr>ps_reserved := count\<rparr>\<rparr>,
                  Some (make_batch ring2 (ps_local_index p2) count)))"

text \<open>The second component is the value stored to the shared tail, if any.\<close>

definition producer_publish :: "u32 \<Rightarrow> shared_ring \<Rightarrow> int \<times> u64 option \<times> shared_ring" where
  "producer_publish count ring =
     (let p = sr_producer ring in
      if \<not> ring_valid ring \<or> ps_reserved p = 0 \<or> count > ps_reserved p then (EINVAL, None, ring)
      else if count \<noteq> 0 then
        let tail = ps_local_tail p + ucast count;
            index = ps_local_index p + count;
            capacity = qd_capacity (sr_queue_descriptor ring);
            index' = (if index \<ge> capacity then index - capacity else index)
        in (OK, Some tail,
            ring\<lparr>sr_producer := p\<lparr>ps_local_tail := tail, ps_local_index := index', ps_reserved := 0\<rparr>\<rparr>)
      else (OK, None, ring\<lparr>sr_producer := p\<lparr>ps_reserved := 0\<rparr>\<rparr>))"

section \<open>The consumer's side\<close>

definition consumer_init :: "u64 \<Rightarrow> u64 \<Rightarrow> shared_ring \<Rightarrow> shared_ring" where
  "consumer_init head_load tail_load ring =
     (let c = sr_consumer ring in
      if cs_initialized c then ring
      else ring\<lparr>sr_consumer := c\<lparr>cs_local_head := head_load, cs_cached_tail := tail_load,
             cs_local_index := ucast (head_load mod ucast (qd_capacity (sr_queue_descriptor ring))),
             cs_initialized := True\<rparr>\<rparr>)"

definition consumer_peek ::
  "u64 \<Rightarrow> u64 \<Rightarrow> u64 \<Rightarrow> u32 \<Rightarrow> bool \<Rightarrow> shared_ring \<Rightarrow> int \<times> shared_ring \<times> slot_batch option" where
  "consumer_peek head_load tail_load tail_load2 max_count have_batch ring =
     (if \<not> ring_valid ring \<or> max_count = 0 \<or> \<not> have_batch \<or> cs_peeked (sr_consumer ring) \<noteq> 0
      then (EINVAL, ring, None)
      else
        let ring1 = consumer_init head_load tail_load ring;
            c1 = sr_consumer ring1;
            capacity = ucast (qd_capacity (sr_queue_descriptor ring)) :: u64;
            available = cs_cached_tail c1 - cs_local_head c1
        in if available > capacity then (EPROTO, ring1, None)
        else
          let reload = (available < ucast max_count);
              c2 = (if reload then c1\<lparr>cs_cached_tail := tail_load2\<rparr> else c1);
              ring2 = ring1\<lparr>sr_consumer := c2\<rparr>;
              available2 = cs_cached_tail c2 - cs_local_head c2
          in if reload \<and> available2 > capacity then (EPROTO, ring2, None)
          else if available2 = 0 then (EAGAIN, ring2, None)
          else
            let count = ucast (min (ucast max_count) available2) :: u32
            in (OK, ring2\<lparr>sr_consumer := c2\<lparr>cs_peeked := count\<rparr>\<rparr>,
                Some (make_batch ring2 (cs_local_index c2) count)))"

text \<open>The second component is the value stored to the shared head, if any.\<close>

definition consumer_release :: "u32 \<Rightarrow> shared_ring \<Rightarrow> int \<times> u64 option \<times> shared_ring" where
  "consumer_release count ring =
     (let c = sr_consumer ring in
      if \<not> ring_valid ring \<or> cs_peeked c = 0 \<or> count > cs_peeked c then (EINVAL, None, ring)
      else if count \<noteq> 0 then
        let head = cs_local_head c + ucast count;
            index = cs_local_index c + count;
            capacity = qd_capacity (sr_queue_descriptor ring);
            index' = (if index \<ge> capacity then index - capacity else index)
        in (OK, Some head,
            ring\<lparr>sr_consumer := c\<lparr>cs_local_head := head, cs_local_index := index', cs_peeked := 0\<rparr>\<rparr>)
      else (OK, None, ring\<lparr>sr_consumer := c\<lparr>cs_peeked := 0\<rparr>\<rparr>))"

section \<open>The single-slot overloads\<close>

definition producer_reserve_one ::
  "u64 \<Rightarrow> u64 \<Rightarrow> u64 \<Rightarrow> bool \<Rightarrow> shared_ring \<Rightarrow> int \<times> shared_ring \<times> nat option" where
  "producer_reserve_one tail_load head_load head_load2 have_slot ring =
     (if \<not> have_slot then (EINVAL, ring, None)
      else case producer_reserve tail_load head_load head_load2 1 True ring of
             (status, ring', batch) \<Rightarrow>
               (status, ring', case batch of Some b \<Rightarrow> sp_data (sb_first b) | None \<Rightarrow> None))"

definition producer_publish_one :: "shared_ring \<Rightarrow> int \<times> u64 option \<times> shared_ring" where
  "producer_publish_one ring = producer_publish 1 ring"

definition consumer_peek_one ::
  "u64 \<Rightarrow> u64 \<Rightarrow> u64 \<Rightarrow> bool \<Rightarrow> shared_ring \<Rightarrow> int \<times> shared_ring \<times> nat option" where
  "consumer_peek_one head_load tail_load tail_load2 have_slot ring =
     (if \<not> have_slot then (EINVAL, ring, None)
      else case consumer_peek head_load tail_load tail_load2 1 True ring of
             (status, ring', batch) \<Rightarrow>
               (status, ring', case batch of Some b \<Rightarrow> sp_data (sb_first b) | None \<Rightarrow> None))"

definition consumer_release_one :: "shared_ring \<Rightarrow> int \<times> u64 option \<times> shared_ring" where
  "consumer_release_one ring = consumer_release 1 ring"

end
