(* ===== verification/Ring_System.thy ===== *)
theory Ring_System
  imports Shared_Ring
begin

text \<open>
  The ring as its two users run it: one process produces, another consumes, both through handles
  on the same memory. The state \<open>ring_sys\<close> holds the two handles and the shared words and slots;
  \<open>ring_step\<close> interleaves the operations of \<^verbatim>\<open>queue/shared_ring.cpp\<close> with the stores the producer
  makes into the slots it has reserved. A load of the other side's counter may return any value
  that counter has had since this side last looked (\<open>load_ok\<close>), which is what the acquire loads
  of the code guarantee. The contract \<open>fifo_channel\<close> is what the posting, completion and worker
  code relies on, and the ring satisfies it.
\<close>

section \<open>The contract of a FIFO channel\<close>

datatype 'a chan_event = Sent "'a list" | Taken "'a list" | Silent

fun sent_of :: "'a chan_event \<Rightarrow> 'a list" where
  "sent_of (Sent xs) = xs"
| "sent_of _ = []"

fun taken_of :: "'a chan_event \<Rightarrow> 'a list" where
  "taken_of (Taken xs) = xs"
| "taken_of _ = []"

inductive chan_run :: "('s \<Rightarrow> 'e \<Rightarrow> 's \<Rightarrow> bool) \<Rightarrow> 's \<Rightarrow> 'e list \<Rightarrow> 's \<Rightarrow> bool"
  for step :: "'s \<Rightarrow> 'e \<Rightarrow> 's \<Rightarrow> bool" where
  run_nil: "chan_run step s [] s"
| run_snoc: "chan_run step s es t \<Longrightarrow> step t e u \<Longrightarrow> chan_run step s (es @ [e]) u"

locale fifo_channel =
  fixes inv :: "'s \<Rightarrow> bool"
    and contents :: "'s \<Rightarrow> 'a list"
    and bound :: "'s \<Rightarrow> nat"
    and step :: "'s \<Rightarrow> 'a chan_event \<Rightarrow> 's \<Rightarrow> bool"
  assumes inv_step: "inv s \<Longrightarrow> step s e t \<Longrightarrow> inv t"
    and contents_step: "inv s \<Longrightarrow> step s e t \<Longrightarrow> contents s @ sent_of e = taken_of e @ contents t"
    and bound_step: "inv s \<Longrightarrow> step s e t \<Longrightarrow> bound t = bound s"
    and contents_bound: "inv s \<Longrightarrow> length (contents s) \<le> bound s"
begin

lemma run_inv:
  assumes "chan_run step s es t" and "inv s"
  shows "inv t \<and> bound t = bound s"
  using assms by induction (auto dest: inv_step bound_step)

lemma run_fifo:
  assumes "chan_run step s es t" and "inv s"
  shows "contents s @ concat (map sent_of es) = concat (map taken_of es) @ contents t"
  using assms
proof induction
  case (run_nil s)
  then show ?case by simp
next
  case (run_snoc s es t e u)
  then have "inv t" using run_inv by blast
  then have "contents t @ sent_of e = taken_of e @ contents u"
    using run_snoc.hyps(2) contents_step by blast
  then have "contents s @ concat (map sent_of es) @ sent_of e
           = concat (map taken_of es) @ taken_of e @ contents u"
    using run_snoc.IH [OF run_snoc.prems] by (metis append_assoc)
  then show ?case by simp
qed

lemma run_in_flight_bounded:
  assumes "chan_run step s es t" and "inv s"
  shows "length (concat (map sent_of es)) + length (contents s)
           \<le> length (concat (map taken_of es)) + bound s"
proof -
  have "length (contents t) \<le> bound s"
    using run_inv [OF assms] contents_bound by fastforce
  moreover have "length (contents s) + length (concat (map sent_of es))
               = length (concat (map taken_of es)) + length (contents t)"
    using arg_cong [OF run_fifo [OF assms], of length] by simp
  ultimately show ?thesis by linarith
qed

end

section \<open>The two users of a ring\<close>

record 'a ring_sys =
  rs_producer :: shared_ring
  rs_consumer :: shared_ring
  rs_tail :: u64
  rs_head :: u64
  rs_slots :: "nat \<Rightarrow> 'a"
  rs_map_tail :: u64
  rs_map_head :: u64

abbreviation ring_desc :: "'a ring_sys \<Rightarrow> queue_descriptor" where
  "ring_desc s \<equiv> sr_queue_descriptor (rs_producer s)"

abbreviation ring_cap :: "'a ring_sys \<Rightarrow> nat" where
  "ring_cap s \<equiv> unat (qd_capacity (ring_desc s))"

definition ring_start :: "queue_descriptor \<Rightarrow> u64 \<Rightarrow> u64 \<Rightarrow> (nat \<Rightarrow> 'a) \<Rightarrow> 'a ring_sys" where
  "ring_start d head tail slots =
     \<lparr>rs_producer = make_ring 0 0 (-1) d, rs_consumer = make_ring 0 0 (-1) d,
      rs_tail = tail, rs_head = head, rs_slots = slots, rs_map_tail = tail, rs_map_head = head\<rparr>"

text \<open>The last value of the other side's counter each side has seen.\<close>

definition seen_head :: "'a ring_sys \<Rightarrow> u64" where
  "seen_head s = (let p = sr_producer (rs_producer s) in
                  if ps_initialized p then ps_cached_head p else rs_map_head s)"

definition seen_tail :: "'a ring_sys \<Rightarrow> u64" where
  "seen_tail s = (let c = sr_consumer (rs_consumer s) in
                  if cs_initialized c then cs_cached_tail c else rs_map_tail s)"

definition load_ok :: "u64 \<Rightarrow> u64 \<Rightarrow> u64 \<Rightarrow> bool" where
  "load_ok prev cur v \<longleftrightarrow> v - prev \<le> cur - prev"

definition prod_index :: "'a ring_sys \<Rightarrow> nat" where
  "prod_index s = (let p = sr_producer (rs_producer s) in
     if ps_initialized p then unat (ps_local_index p) else unat (rs_tail s) mod ring_cap s)"

definition cons_index :: "'a ring_sys \<Rightarrow> nat" where
  "cons_index s = (let c = sr_consumer (rs_consumer s) in
     if cs_initialized c then unat (cs_local_index c) else unat (rs_head s) mod ring_cap s)"

definition ring_used :: "'a ring_sys \<Rightarrow> nat" where
  "ring_used s = unat (rs_tail s - rs_head s)"

definition span_offsets :: "nat \<Rightarrow> slot_span \<Rightarrow> nat list" where
  "span_offsets stride sp =
     (case sp_data sp of None \<Rightarrow> [] | Some base \<Rightarrow> map (\<lambda>i. base + i * stride) [0..<unat (sp_count sp)])"

definition batch_offsets :: "nat \<Rightarrow> slot_batch \<Rightarrow> nat list" where
  "batch_offsets stride b = span_offsets stride (sb_first b) @ span_offsets stride (sb_second b)"

definition reserved_offsets :: "shared_ring \<Rightarrow> nat list" where
  "reserved_offsets r = batch_offsets (unat (qd_slot_stride (sr_queue_descriptor r)))
     (make_batch r (ps_local_index (sr_producer r)) (ps_reserved (sr_producer r)))"

definition peeked_offsets :: "shared_ring \<Rightarrow> nat list" where
  "peeked_offsets r = batch_offsets (unat (qd_slot_stride (sr_queue_descriptor r)))
     (make_batch r (cs_local_index (sr_consumer r)) (cs_peeked (sr_consumer r)))"

inductive ring_step :: "'a ring_sys \<Rightarrow> 'a chan_event \<Rightarrow> 'a ring_sys \<Rightarrow> bool" where
  step_reserve:
    "producer_reserve (rs_tail s) h1 h2 max_count have_batch (rs_producer s) = (status, r, batch) \<Longrightarrow>
     load_ok (seen_head s) (rs_head s) h1 \<Longrightarrow>
     load_ok (if ps_initialized (sr_producer (rs_producer s)) then seen_head s else h1) (rs_head s) h2 \<Longrightarrow>
     ring_step s Silent (s\<lparr>rs_producer := r\<rparr>)"
| step_write:
    "off \<in> set (reserved_offsets (rs_producer s)) \<Longrightarrow>
     ring_step s Silent (s\<lparr>rs_slots := (rs_slots s)(off := v)\<rparr>)"
| step_publish:
    "producer_publish n (rs_producer s) = (status, store, r) \<Longrightarrow>
     xs = (if status = OK then map (rs_slots s) (take (unat n) (reserved_offsets (rs_producer s))) else []) \<Longrightarrow>
     ring_step s (Sent xs)
       (s\<lparr>rs_producer := r, rs_tail := (case store of Some v \<Rightarrow> v | None \<Rightarrow> rs_tail s)\<rparr>)"
| step_peek:
    "consumer_peek (rs_head s) t1 t2 max_count have_batch (rs_consumer s) = (status, r, batch) \<Longrightarrow>
     load_ok (seen_tail s) (rs_tail s) t1 \<Longrightarrow>
     load_ok (if cs_initialized (sr_consumer (rs_consumer s)) then seen_tail s else t1) (rs_tail s) t2 \<Longrightarrow>
     ring_step s Silent (s\<lparr>rs_consumer := r\<rparr>)"
| step_release:
    "consumer_release n (rs_consumer s) = (status, store, r) \<Longrightarrow>
     xs = (if status = OK then map (rs_slots s) (take (unat n) (peeked_offsets (rs_consumer s))) else []) \<Longrightarrow>
     ring_step s (Taken xs)
       (s\<lparr>rs_consumer := r, rs_head := (case store of Some v \<Rightarrow> v | None \<Rightarrow> rs_head s)\<rparr>)"

inductive_cases ring_stepE: "ring_step s e t"

section \<open>Offsets and batches\<close>

definition slot_off :: "queue_descriptor \<Rightarrow> nat \<Rightarrow> nat" where
  "slot_off d i = header_size + i * unat (qd_slot_stride d)"

definition window :: "queue_descriptor \<Rightarrow> nat \<Rightarrow> nat \<Rightarrow> nat list" where
  "window d start n = map (\<lambda>i. slot_off d ((start + i) mod unat (qd_capacity d))) [0..<n]"

definition ring_contents :: "'a ring_sys \<Rightarrow> 'a list" where
  "ring_contents s = map (rs_slots s) (window (ring_desc s) (cons_index s) (ring_used s))"

definition ring_inv :: "'a ring_sys \<Rightarrow> bool" where
  "ring_inv s \<longleftrightarrow>
     (let r = rs_producer s; p = sr_producer r; q = rs_consumer s; c = sr_consumer q in
      ring_valid r \<and> ring_valid q \<and> sr_queue_descriptor q = ring_desc s \<and>
      0 < ring_cap s \<and> ring_cap s \<le> 2 ^ 31 \<and> qd_slot_stride (ring_desc s) \<noteq> 0 \<and>
      (ps_initialized p \<longrightarrow> ps_local_tail p = rs_tail s) \<and>
      (\<not> ps_initialized p \<longrightarrow> ps_reserved p = 0) \<and>
      ring_used s + unat (rs_head s - seen_head s) + unat (ps_reserved p) \<le> ring_cap s \<and>
      (cs_initialized c \<longrightarrow> cs_local_head c = rs_head s) \<and>
      (\<not> cs_initialized c \<longrightarrow> cs_peeked c = 0) \<and>
      unat (seen_tail s - rs_head s) \<le> ring_used s \<and>
      unat (cs_peeked c) \<le> unat (seen_tail s - rs_head s) \<and>
      prod_index s < ring_cap s \<and> cons_index s < ring_cap s \<and>
      prod_index s = (cons_index s + ring_used s) mod ring_cap s)"

lemma length_window [simp]: "length (window d start n) = n"
  by (simp add: window_def)

lemma window_append: "window d start (m + n) = window d start m @ window d (start + m) n"
proof -
  have "[0..<m + n] = [0..<m] @ map (\<lambda>i. i + m) [0..<n]"
    using upt_add_eq_append [of 0 m n] map_add_upt [of m n] by (simp add: add.commute)
  then show ?thesis by (simp add: window_def comp_def ac_simps)
qed

lemma window_mod: "window d (start mod unat (qd_capacity d)) n = window d start n"
  by (simp add: window_def mod_add_left_eq)

lemma take_window: "m \<le> n \<Longrightarrow> take m (window d start n) = window d start m"
  using window_append [of d start m "n - m"] by simp

lemma slot_off_inject: "qd_slot_stride d \<noteq> 0 \<Longrightarrow> slot_off d i = slot_off d j \<longleftrightarrow> i = j"
  by (simp add: slot_off_def unat_eq_0)

lemma mod_offset_inject:
  assumes "(i :: nat) < c" "j < c" "(s + i) mod c = (s + j) mod c"
  shows "i = j"
proof -
  have "i = j" if "i \<le> j" "j < c" "(s + i) mod c = (s + j) mod c" for i j :: nat
  proof -
    have "c dvd (s + j) - (s + i)"
      using mod_eq_dvd_iff_nat [of "s + i" "s + j" c] that by simp
    then have "c dvd j - i" by simp
    moreover have "j - i < c" using that by simp
    ultimately have "j - i = 0" using dvd_imp_le [of c "j - i"] by (cases "j - i = 0") auto
    then show ?thesis using \<open>i \<le> j\<close> by simp
  qed
  from this [of i j] this [of j i] assms show ?thesis by (cases "i \<le> j") auto
qed

lemma distinct_window:
  assumes "n \<le> unat (qd_capacity d)" "qd_slot_stride d \<noteq> 0"
  shows "distinct (window d start n)"
  using assms
  by (auto simp: window_def distinct_map inj_on_def slot_off_inject dest!: mod_offset_inject
           intro: mod_offset_inject [of _ "unat (qd_capacity d)" _ start])

lemma unat_min_word: "unat (min a b) = min (unat a) (unat (b :: 'a::len word))"
  by (simp add: min_def word_le_nat_alt)

lemma batch_offsets_window:
  assumes d: "sr_queue_descriptor r = d" and start: "unat start < unat (qd_capacity d)"
    and count: "unat count \<le> unat (qd_capacity d)"
  shows "batch_offsets (unat (qd_slot_stride d)) (make_batch r start count) = window d (unat start) (unat count)"
proof -
  define cap where "cap = unat (qd_capacity d)"
  define k where "k = min (unat count) (cap - unat start)"
  have lt: "start \<le> qd_capacity d" using start by (simp add: word_le_nat_alt)
  have fc: "unat (min count (qd_capacity d - start)) = k"
    using lt by (simp add: unat_min_word unat_sub k_def cap_def)
  have kle: "k \<le> unat count" by (simp add: k_def)
  have le: "min count (qd_capacity d - start) \<le> count" by simp
  have sc: "unat (count - min count (qd_capacity d - start)) = unat count - k"
    using fc by (simp add: unat_sub [OF le])
  have eq: "min count (qd_capacity d - start) = count \<longleftrightarrow> k = unat count"
    using fc by (metis word_unat_eq_iff)
  have one: "window d (unat start) k = map (\<lambda>i. slot_off d (unat start + i)) [0..<k]"
    using start by (auto simp: window_def k_def cap_def)
  have two: "window d (unat start + k) (unat count - k) = map (slot_off d) [0..<unat count - k]"
  proof (cases "k = unat count")
    case True
    then show ?thesis by (simp add: window_def)
  next
    case False
    then have k: "unat start + k = cap" using start by (auto simp: k_def cap_def)
    show ?thesis using count
      by (auto simp: window_def k cap_def [symmetric])
  qed
  have "window d (unat start) (unat count) = window d (unat start) k @ window d (unat start + k) (unat count - k)"
    using window_append [of d "unat start" k "unat count - k"] kle by simp
  then show ?thesis
    by (simp add: one two batch_offsets_def span_offsets_def make_batch_def Let_def fc sc eq d slot_at_def)
       (auto simp: slot_off_def algebra_simps)
qed

section \<open>Counter distances\<close>

lemma unat_dist_add:
  assumes "unat (a - b) + unat (b - c) < 18446744073709551616"
  shows "unat (a - c :: u64) = unat (a - b) + unat (b - c)"
proof -
  have "a - c = (a - b) + (b - c)" by simp
  moreover have "unat ((a - b) + (b - c)) = unat (a - b) + unat (b - c)"
    using assms by (subst unat_add_lem [symmetric]) simp
  ultimately show ?thesis by (simp only:)
qed

lemma load_ok_dist:
  assumes "load_ok prev cur v"
  shows "unat (cur - v) + unat (v - prev) = unat (cur - prev)"
proof -
  have "cur - v = (cur - prev) - (v - prev)" by simp
  then have "unat (cur - v) = unat (cur - prev) - unat (v - prev)"
    using assms by (simp only: load_ok_def unat_sub)
  with assms show ?thesis by (simp add: load_ok_def word_le_nat_alt)
qed

lemma load_ok_trans_dist: "load_ok prev cur v \<Longrightarrow> unat (cur - v) \<le> unat (cur - prev)"
  using load_ok_dist by fastforce

lemma unat_ucast_down: "x \<le> (ucast (c :: u32) :: u64) \<Longrightarrow> unat (ucast x :: u32) = unat x"
proof -
  assume "x \<le> ucast c"
  then have "unat x \<le> unat c" by (simp add: word_le_nat_alt)
  then have "unat x < 4294967296" using unat_u32_bound [of c] by linarith
  then show ?thesis by (simp add: unsigned_ucast_eq take_bit_nat_eq_self)
qed

lemma index_after_init:
  "c \<noteq> 0 \<Longrightarrow> unat (ucast (x mod ucast c :: u64) :: u32) = unat x mod unat (c :: u32)"
proof -
  assume "c \<noteq> 0"
  then have "unat (x mod ucast c :: u64) < unat c" by (simp add: unat_mod unat_gt_0)
  then have "x mod ucast c \<le> (ucast c :: u64)" by (simp add: word_le_nat_alt)
  then show ?thesis by (simp add: unat_ucast_down unat_mod)
qed

text \<open>Advancing an index by a count, as \<open>producer_publish\<close> and \<open>consumer_release\<close> do it in 32 bits.\<close>

lemma index_advance:
  fixes i n c :: u32
  assumes "unat i < unat c" "unat n \<le> unat c" "unat c \<le> 2 ^ 31"
  shows "unat (if i + n \<ge> c then i + n - c else i + n) = (unat i + unat n) mod unat c"
proof -
  have "unat i + unat n < 4294967296" using assms by simp
  then have sum: "unat (i + n) = unat i + unat n" by (simp add: unat_add_lem [THEN iffD1])
  show ?thesis
  proof (cases "i + n \<ge> c")
    case True
    then have "unat (i + n - c) = unat i + unat n - unat c" by (simp add: unat_sub sum)
    moreover have "unat i + unat n \<ge> unat c" "unat i + unat n < 2 * unat c"
      using True assms sum by (simp_all add: word_le_nat_alt)
    ultimately show ?thesis using True by (simp add: le_mod_geq)
  next
    case False
    then have "unat i + unat n < unat c" using sum by (simp add: word_le_nat_alt)
    then show ?thesis using False sum by simp
  qed
qed

section \<open>The invariant\<close>

lemma ring_invD:
  assumes "ring_inv s"
  shows "ring_valid (rs_producer s)" "ring_valid (rs_consumer s)"
    "sr_queue_descriptor (rs_consumer s) = ring_desc s"
    "0 < ring_cap s" "ring_cap s \<le> 2 ^ 31" "qd_slot_stride (ring_desc s) \<noteq> 0"
    "ring_used s + unat (rs_head s - seen_head s) + unat (ps_reserved (sr_producer (rs_producer s))) \<le> ring_cap s"
    "unat (seen_tail s - rs_head s) \<le> ring_used s"
    "unat (cs_peeked (sr_consumer (rs_consumer s))) \<le> unat (seen_tail s - rs_head s)"
    "prod_index s < ring_cap s" "cons_index s < ring_cap s"
    "prod_index s = (cons_index s + ring_used s) mod ring_cap s"
  using assms by (simp_all add: ring_inv_def Let_def)

lemma ring_inv_producer_update:
  assumes inv: "ring_inv s"
    and p: "ps_initialized p" "ps_local_tail p = rs_tail s" "unat (ps_local_index p) = prod_index s"
    and room: "ring_used s + unat (rs_head s - ps_cached_head p) + unat (ps_reserved p) \<le> ring_cap s"
  shows "ring_inv (s\<lparr>rs_producer := (rs_producer s)\<lparr>sr_producer := p\<rparr>\<rparr>) \<and>
         ring_contents (s\<lparr>rs_producer := (rs_producer s)\<lparr>sr_producer := p\<rparr>\<rparr>) = ring_contents s"
proof -
  define t where "t = s\<lparr>rs_producer := (rs_producer s)\<lparr>sr_producer := p\<rparr>\<rparr>"
  have idx: "ring_used t = ring_used s" "prod_index t = prod_index s" "cons_index t = cons_index s"
    "ring_desc t = ring_desc s" "rs_slots t = rs_slots s"
    using assms by (simp_all add: t_def ring_used_def prod_index_def cons_index_def Let_def)
  have seen: "seen_head t = ps_cached_head p" "seen_tail t = seen_tail s"
    using assms by (simp_all add: t_def seen_head_def seen_tail_def Let_def)
  have "ring_inv t"
    using assms
    by (simp add: ring_inv_def Let_def idx seen) (simp add: t_def ring_valid_def)
  moreover have "ring_contents t = ring_contents s"
    by (simp add: ring_contents_def idx)
  ultimately show ?thesis by (simp add: t_def)
qed

lemma ring_inv_consumer_update:
  assumes inv: "ring_inv s"
    and c: "cs_initialized c" "cs_local_head c = rs_head s" "unat (cs_local_index c) = cons_index s"
    and seen: "unat (cs_cached_tail c - rs_head s) \<le> ring_used s"
    and peeked: "unat (cs_peeked c) \<le> unat (cs_cached_tail c - rs_head s)"
  shows "ring_inv (s\<lparr>rs_consumer := (rs_consumer s)\<lparr>sr_consumer := c\<rparr>\<rparr>) \<and>
         ring_contents (s\<lparr>rs_consumer := (rs_consumer s)\<lparr>sr_consumer := c\<rparr>\<rparr>) = ring_contents s"
proof -
  define t where "t = s\<lparr>rs_consumer := (rs_consumer s)\<lparr>sr_consumer := c\<rparr>\<rparr>"
  have idx: "ring_used t = ring_used s" "prod_index t = prod_index s" "cons_index t = cons_index s"
    "ring_desc t = ring_desc s" "rs_slots t = rs_slots s"
    using assms by (simp_all add: t_def ring_used_def prod_index_def cons_index_def Let_def)
  have seen: "seen_head t = seen_head s" "seen_tail t = cs_cached_tail c"
    using assms by (simp_all add: t_def seen_head_def seen_tail_def Let_def)
  have "ring_inv t"
    using assms
    by (simp add: ring_inv_def Let_def idx seen) (simp add: t_def ring_valid_def)
  moreover have "ring_contents t = ring_contents s"
    by (simp add: ring_contents_def idx)
  ultimately show ?thesis by (simp add: t_def)
qed

lemma ring_inv_start:
  assumes "valid_descriptor d" "unat (qd_capacity d) \<le> 2 ^ 31" "head \<le> tail"
    "unat (tail - head) \<le> unat (qd_capacity d)"
  shows "ring_inv (ring_start d head tail slots)"
proof -
  have "unat tail = unat head + unat (tail - head)"
    using assms(3) by (simp add: unat_sub word_le_nat_alt)
  then have "unat tail mod unat (qd_capacity d)
     = (unat head mod unat (qd_capacity d) + unat (tail - head)) mod unat (qd_capacity d)"
    by (simp add: mod_add_left_eq)
  then show ?thesis
    using assms
    by (simp add: ring_inv_def Let_def ring_start_def make_ring_def empty_ring_def empty_producer_def
      empty_consumer_def ring_valid_def ring_used_def seen_head_def seen_tail_def prod_index_def
      cons_index_def valid_descriptor_def unat_gt_0)
qed

section \<open>Reserving\<close>

lemma make_batch_cong:
  "sr_queue_descriptor r = sr_queue_descriptor q \<Longrightarrow> make_batch r start count = make_batch q start count"
  by (simp add: make_batch_def slot_at_def Let_def)

lemma unat_capacity_sub:
  "unat (x :: u64) \<le> unat (c :: u32) \<Longrightarrow> unat (ucast c - x) = unat c - unat x"
  by (simp add: unat_sub word_le_nat_alt)

lemma unat_batch_count:
  "unat (x :: u64) \<le> unat (c :: u32) \<Longrightarrow>
   unat (ucast (min (ucast (m :: u32)) (ucast c - x :: u64)) :: u32) = min (unat m) (unat c - unat x)"
proof -
  assume x: "unat x \<le> unat c"
  have "min (ucast m) (ucast c - x) \<le> (ucast m :: u64)" by simp
  then have "unat (ucast (min (ucast m) (ucast c - x :: u64)) :: u32) = unat (min (ucast m) (ucast c - x) :: u64)"
    by (rule unat_ucast_down)
  then show ?thesis using x by (simp add: unat_min_word unat_capacity_sub)
qed

lemma producer_init_state:
  assumes inv: "ring_inv s" and load: "load_ok (seen_head s) (rs_head s) h1"
  defines "p \<equiv> sr_producer (producer_init (rs_tail s) h1 (rs_producer s))"
  shows "ps_initialized p" "ps_local_tail p = rs_tail s" "unat (ps_local_index p) = prod_index s"
    "ps_reserved p = ps_reserved (sr_producer (rs_producer s))"
    "ps_cached_head p = (if ps_initialized (sr_producer (rs_producer s)) then seen_head s else h1)"
    "ring_used s + unat (rs_head s - ps_cached_head p) + unat (ps_reserved p) \<le> ring_cap s"
    "producer_init (rs_tail s) h1 (rs_producer s) = (rs_producer s)\<lparr>sr_producer := p\<rparr>"
proof -
  have c: "qd_capacity (ring_desc s) \<noteq> 0" using ring_invD(4) [OF inv] by auto
  show res: "ps_reserved p = ps_reserved (sr_producer (rs_producer s))"
    by (simp add: p_def producer_init_def Let_def)
  show "ps_initialized p" "ps_local_tail p = rs_tail s"
    using inv by (simp_all add: p_def producer_init_def Let_def ring_inv_def)
  show "unat (ps_local_index p) = prod_index s"
    using c by (simp add: p_def producer_init_def Let_def prod_index_def index_after_init)
  show "ps_cached_head p = (if ps_initialized (sr_producer (rs_producer s)) then seen_head s else h1)"
    by (simp add: p_def producer_init_def Let_def seen_head_def)
  then have "unat (rs_head s - ps_cached_head p) \<le> unat (rs_head s - seen_head s)"
    using load_ok_trans_dist [OF load] by simp
  then show "ring_used s + unat (rs_head s - ps_cached_head p) + unat (ps_reserved p) \<le> ring_cap s"
    using ring_invD(7) [OF inv] by (simp add: res)
  show "producer_init (rs_tail s) h1 (rs_producer s) = (rs_producer s)\<lparr>sr_producer := p\<rparr>"
    by (simp add: p_def producer_init_def Let_def)
qed

lemma tail_distance:
  assumes "ring_used s + unat (rs_head s - x) \<le> ring_cap s"
  shows "unat (rs_tail s - x) = ring_used s + unat (rs_head s - x)"
proof -
  have "ring_used s + unat (rs_head s - x) < 18446744073709551616"
    using assms unat_u32_bound [of "qd_capacity (ring_desc s)"] by linarith
  then show ?thesis unfolding ring_used_def by (rule unat_dist_add)
qed

lemma reserve_spec:
  assumes inv: "ring_inv s"
    and eq: "producer_reserve (rs_tail s) h1 h2 m hb (rs_producer s) = (st, r, b)"
    and load1: "load_ok (seen_head s) (rs_head s) h1"
    and load2: "load_ok (if ps_initialized (sr_producer (rs_producer s)) then seen_head s else h1) (rs_head s) h2"
  shows "ring_inv (s\<lparr>rs_producer := r\<rparr>) \<and> ring_contents (s\<lparr>rs_producer := r\<rparr>) = ring_contents s \<and>
    (st = EINVAL \<and> b = None \<and> r = rs_producer s \<and>
       (m = 0 \<or> \<not> hb \<or> ps_reserved (sr_producer (rs_producer s)) \<noteq> 0) \<or>
     st = EAGAIN \<and> b = None \<and> unat (rs_tail s - h2) = ring_cap s \<or>
     st = OK \<and> b = Some (make_batch r (ps_local_index (sr_producer r)) (ps_reserved (sr_producer r))) \<and>
       0 < unat (ps_reserved (sr_producer r)) \<and> ps_reserved (sr_producer r) \<le> m \<and>
       min (unat m) (ring_cap s - unat (rs_tail s - h2)) \<le> unat (ps_reserved (sr_producer r)))"
proof (cases "m = 0 \<or> \<not> hb \<or> ps_reserved (sr_producer (rs_producer s)) \<noteq> 0")
  case True
  then have "st = EINVAL \<and> b = None \<and> r = rs_producer s"
    using eq by (auto simp: producer_reserve_def)
  then show ?thesis using inv True by auto
next
  case False
  let ?R = "rs_producer s"
  define p1 where "p1 = sr_producer (producer_init (rs_tail s) h1 ?R)"
  define c where "c = qd_capacity (ring_desc s)"
  note p1 = producer_init_state [OF inv load1, folded p1_def]
  have nz: "ps_reserved p1 = 0" using False p1(4) by simp
  have u1: "unat (rs_tail s - ps_cached_head p1) \<le> unat c"
    "unat (rs_tail s - ps_cached_head p1) = ring_used s + unat (rs_head s - ps_cached_head p1)"
    using tail_distance [of s "ps_cached_head p1"] p1(6) by (simp_all add: c_def)
  define reload where "reload = (ucast c - (ps_local_tail p1 - ps_cached_head p1) < ucast m)"
  define p2 where "p2 = (if reload then p1\<lparr>ps_cached_head := h2\<rparr> else p1)"
  have l2: "unat (rs_head s - h2) \<le> unat (rs_head s - ps_cached_head p1)"
    using load_ok_trans_dist [OF load2] p1(5) by simp
  have p2: "ps_initialized p2" "ps_local_tail p2 = rs_tail s" "unat (ps_local_index p2) = prod_index s"
    "ps_reserved p2 = 0"
    using p1 nz by (simp_all add: p2_def)
  have room2: "ring_used s + unat (rs_head s - ps_cached_head p2) \<le> ring_cap s"
    using p1(6) l2 by (simp add: p2_def)
  have u2: "unat (rs_tail s - ps_cached_head p2) \<le> unat c"
    "unat (rs_tail s - ps_cached_head p2) = ring_used s + unat (rs_head s - ps_cached_head p2)"
    using tail_distance [OF room2] room2 by (simp_all add: c_def)
  have lt1: "\<not> ps_local_tail p1 - ps_cached_head p1 > ucast c"
    using u1(1) p1(2) by (simp add: word_less_nat_alt)
  have lt2: "\<not> ps_local_tail p2 - ps_cached_head p2 > ucast c"
    using u2(1) p2(2) by (simp add: word_less_nat_alt)
  define avail where "avail = ucast c - (ps_local_tail p2 - ps_cached_head p2)"
  define count where "count = (ucast (min (ucast m) avail) :: u32)"
  have valid: "ring_valid ?R" using ring_invD(1) [OF inv] by simp
  have res: "producer_reserve (rs_tail s) h1 h2 m hb ?R =
    (if avail = 0 then (EAGAIN, ?R\<lparr>sr_producer := p2\<rparr>, None)
     else (OK, ?R\<lparr>sr_producer := p2\<lparr>ps_reserved := count\<rparr>\<rparr>,
           Some (make_batch ?R (ps_local_index p2) count)))"
    using False valid lt1 lt2
    by (cases reload)
       (simp_all add: producer_reserve_def Let_def p1_def [symmetric] p1(7) c_def [symmetric]
          reload_def [symmetric] p2_def avail_def count_def
          make_batch_cong [of "?R\<lparr>sr_producer := _\<rparr>" ?R])
  have av: "unat avail = ring_cap s - unat (rs_tail s - ps_cached_head p2)"
    using u2(1) p2(2) by (simp add: avail_def unat_capacity_sub c_def)
  have dist2: "unat (rs_tail s - h2) \<le> unat c \<and> unat (rs_tail s - h2) \<le> unat (rs_tail s - ps_cached_head p1)"
    using tail_distance [of s h2] l2 u1 by (simp add: c_def)
  have rl: "\<not> reload \<Longrightarrow> unat m \<le> ring_cap s - unat (rs_tail s - ps_cached_head p1)"
    using u1(1) p1(2) by (simp add: reload_def word_less_nat_alt unat_capacity_sub c_def)
  show ?thesis
  proof (cases "avail = 0")
    case True
    with av u2(1) have full: "unat (rs_tail s - ps_cached_head p2) = ring_cap s" by (simp add: c_def)
    have "reload" using rl full False by (cases reload) (auto simp: p2_def word_neq_0_unat)
    then have "unat (rs_tail s - h2) = ring_cap s" using full by (simp add: p2_def)
    then show ?thesis
      using ring_inv_producer_update [OF inv p2(1-3)] room2 p2(4) res True eq
      by simp
  next
    case nz2: False
    have cnt: "unat count = min (unat m) (unat avail)"
      using u2(1) p2(2) by (simp add: count_def avail_def unat_batch_count unat_capacity_sub)
    have pos: "0 < unat count" using cnt nz2 False by (simp add: word_neq_0_unat)
    have le: "count \<le> m" using cnt by (simp add: word_le_nat_alt)
    have room3: "ring_used s + unat (rs_head s - ps_cached_head p2) + unat count \<le> ring_cap s"
      using cnt av u2(2) room2 by simp
    have enough: "min (unat m) (ring_cap s - unat (rs_tail s - h2)) \<le> unat count"
      using cnt av rl by (cases reload) (auto simp: p2_def)
    show ?thesis
      using ring_inv_producer_update [OF inv, of "p2\<lparr>ps_reserved := count\<rparr>"] p2 room3 res nz2 eq pos le enough
      by (auto simp: make_batch_cong [of "(rs_producer s)\<lparr>sr_producer := _\<rparr>" "rs_producer s"])
  qed
qed

section \<open>Peeking\<close>

lemma consumer_init_state:
  assumes inv: "ring_inv s" and load: "load_ok (seen_tail s) (rs_tail s) t1"
  defines "c \<equiv> sr_consumer (consumer_init (rs_head s) t1 (rs_consumer s))"
  shows "cs_initialized c" "cs_local_head c = rs_head s" "unat (cs_local_index c) = cons_index s"
    "cs_peeked c = cs_peeked (sr_consumer (rs_consumer s))"
    "cs_cached_tail c = (if cs_initialized (sr_consumer (rs_consumer s)) then seen_tail s else t1)"
    "consumer_init (rs_head s) t1 (rs_consumer s) = (rs_consumer s)\<lparr>sr_consumer := c\<rparr>"
proof -
  have nz: "qd_capacity (ring_desc s) \<noteq> 0" using ring_invD(4) [OF inv] by auto
  show "cs_peeked c = cs_peeked (sr_consumer (rs_consumer s))"
    by (simp add: c_def consumer_init_def Let_def)
  show "cs_initialized c" "cs_local_head c = rs_head s"
    using inv by (simp_all add: c_def consumer_init_def Let_def ring_inv_def)
  show "unat (cs_local_index c) = cons_index s"
    using nz ring_invD(3) [OF inv]
    by (simp add: c_def consumer_init_def Let_def cons_index_def index_after_init)
  show "cs_cached_tail c = (if cs_initialized (sr_consumer (rs_consumer s)) then seen_tail s else t1)"
    by (simp add: c_def consumer_init_def Let_def seen_tail_def)
  show "consumer_init (rs_head s) t1 (rs_consumer s) = (rs_consumer s)\<lparr>sr_consumer := c\<rparr>"
    by (simp add: c_def consumer_init_def Let_def)
qed

text \<open>A tail value loaded after \<open>prev\<close> lies between \<open>prev\<close> and the tail, seen from the head.\<close>

lemma load_tail_bounds:
  assumes load: "load_ok prev (rs_tail s) v" and prev: "unat (prev - rs_head s) \<le> ring_used s"
  shows "unat (v - rs_head s) \<le> ring_used s" "unat (prev - rs_head s) \<le> unat (v - rs_head s)"
proof -
  let ?h = "rs_head s" and ?t = "rs_tail s"
  have "load_ok ?h ?t prev" using prev by (simp add: load_ok_def ring_used_def word_le_nat_alt)
  note d1 = load_ok_dist [OF this] and d2 = load_ok_dist [OF load]
  have le: "unat (v - prev) + unat (prev - ?h) \<le> ring_used s"
    using d1 d2 by (simp add: ring_used_def)
  have "ring_used s < 18446744073709551616"
    unfolding ring_used_def by (rule unat_u64_bound)
  with le have sum: "unat (v - ?h) = unat (v - prev) + unat (prev - ?h)"
    by (intro unat_dist_add) linarith
  show "unat (v - ?h) \<le> ring_used s" "unat (prev - ?h) \<le> unat (v - ?h)"
    using le by (simp_all only: sum le_add2)
qed

lemma peek_spec:
  assumes inv: "ring_inv s"
    and eq: "consumer_peek (rs_head s) t1 t2 m hb (rs_consumer s) = (st, r, b)"
    and load1: "load_ok (seen_tail s) (rs_tail s) t1"
    and load2: "load_ok (if cs_initialized (sr_consumer (rs_consumer s)) then seen_tail s else t1) (rs_tail s) t2"
  shows "ring_inv (s\<lparr>rs_consumer := r\<rparr>) \<and> ring_contents (s\<lparr>rs_consumer := r\<rparr>) = ring_contents s \<and>
    (st = EINVAL \<and> b = None \<and> r = rs_consumer s \<and>
       (m = 0 \<or> \<not> hb \<or> cs_peeked (sr_consumer (rs_consumer s)) \<noteq> 0) \<or>
     st = EAGAIN \<and> b = None \<and> t2 = rs_head s \<or>
     st = OK \<and> b = Some (make_batch r (cs_local_index (sr_consumer r)) (cs_peeked (sr_consumer r))) \<and>
       0 < unat (cs_peeked (sr_consumer r)) \<and> cs_peeked (sr_consumer r) \<le> m \<and>
       min (unat m) (unat (t2 - rs_head s)) \<le> unat (cs_peeked (sr_consumer r)))"
proof (cases "m = 0 \<or> \<not> hb \<or> cs_peeked (sr_consumer (rs_consumer s)) \<noteq> 0")
  case True
  then have "st = EINVAL \<and> b = None \<and> r = rs_consumer s"
    using eq by (auto simp: consumer_peek_def)
  then show ?thesis using inv True by auto
next
  case False
  let ?R = "rs_consumer s"
  define c1 where "c1 = sr_consumer (consumer_init (rs_head s) t1 ?R)"
  define c where "c = qd_capacity (ring_desc s)"
  note c1 = consumer_init_state [OF inv load1, folded c1_def]
  have used: "ring_used s \<le> unat c" using ring_invD(7) [OF inv] by (simp add: c_def)
  have desc: "qd_capacity (sr_queue_descriptor ?R) = c" using ring_invD(3) [OF inv] by (simp add: c_def)
  have s1: "unat (cs_cached_tail c1 - rs_head s) \<le> ring_used s"
    using load_tail_bounds(1) [OF load1 ring_invD(8) [OF inv]] ring_invD(8) [OF inv] c1(5) by simp
  have l2: "load_ok (cs_cached_tail c1) (rs_tail s) t2" using load2 c1(5) by simp
  note t2 = load_tail_bounds [OF l2 s1]
  define reload where "reload = (cs_cached_tail c1 - cs_local_head c1 < ucast m)"
  define c2 where "c2 = (if reload then c1\<lparr>cs_cached_tail := t2\<rparr> else c1)"
  have c2: "cs_initialized c2" "cs_local_head c2 = rs_head s" "unat (cs_local_index c2) = cons_index s"
    "cs_peeked c2 = 0"
    using c1 False by (simp_all add: c2_def)
  have s2: "unat (cs_cached_tail c2 - rs_head s) \<le> ring_used s"
    using s1 t2 by (simp add: c2_def)
  define avail where "avail = cs_cached_tail c2 - cs_local_head c2"
  have av: "unat avail = unat (cs_cached_tail c2 - rs_head s)" "unat avail \<le> unat c"
    using s2 used c2(2) by (simp_all add: avail_def)
  have lt1: "\<not> cs_cached_tail c1 - cs_local_head c1 > ucast c"
    using s1 used c1(2) by (simp add: word_less_nat_alt)
  have lt2: "\<not> avail > ucast c" using av by (simp add: word_less_nat_alt)
  define count where "count = (ucast (min (ucast m) avail) :: u32)"
  have valid: "ring_valid ?R" using ring_invD(2) [OF inv] by simp
  have res: "consumer_peek (rs_head s) t1 t2 m hb ?R =
    (if avail = 0 then (EAGAIN, ?R\<lparr>sr_consumer := c2\<rparr>, None)
     else (OK, ?R\<lparr>sr_consumer := c2\<lparr>cs_peeked := count\<rparr>\<rparr>,
           Some (make_batch ?R (cs_local_index c2) count)))"
    using False valid lt1 lt2
    by (cases reload)
       (simp_all add: consumer_peek_def Let_def c1_def [symmetric] c1(6) desc
          reload_def [symmetric] c2_def avail_def count_def
          make_batch_cong [of "?R\<lparr>sr_consumer := _\<rparr>" ?R])
  have rl: "\<not> reload \<Longrightarrow> unat m \<le> unat (cs_cached_tail c1 - rs_head s)"
    using c1(2) by (simp add: reload_def word_less_nat_alt)
  show ?thesis
  proof (cases "avail = 0")
    case True
    have reload using rl av(1) True False by (cases reload) (auto simp: c2_def word_neq_0_unat)
    then have "t2 = rs_head s" using True c1(2) by (simp add: avail_def c2_def)
    then show ?thesis
      using ring_inv_consumer_update [OF inv c2(1-3) s2] c2(4) res True eq by simp
  next
    case nz: False
    have "min (ucast m) avail \<le> (ucast m :: u64)" by simp
    then have cnt: "unat count = min (unat m) (unat avail)"
      using unat_ucast_down [of "min (ucast m) avail" m] by (simp add: count_def unat_min_word)
    have pos: "0 < unat count" using cnt nz False by (simp add: word_neq_0_unat)
    have le: "count \<le> m" using cnt by (simp add: word_le_nat_alt)
    have enough: "min (unat m) (unat (t2 - rs_head s)) \<le> unat count"
      using cnt av rl by (cases reload) (auto simp: c2_def)
    show ?thesis
      using ring_inv_consumer_update [OF inv, of "c2\<lparr>cs_peeked := count\<rparr>"] c2 s2 av(1) cnt res nz eq pos le enough
      by (auto simp: make_batch_cong [of "(rs_consumer s)\<lparr>sr_consumer := _\<rparr>" "rs_consumer s"])
  qed
qed

section \<open>Publishing, writing and releasing\<close>

lemma reserved_window:
  assumes inv: "ring_inv s"
  shows "reserved_offsets (rs_producer s)
       = window (ring_desc s) (cons_index s + ring_used s) (unat (ps_reserved (sr_producer (rs_producer s))))"
proof (cases "ps_initialized (sr_producer (rs_producer s))")
  case True
  let ?p = "sr_producer (rs_producer s)"
  have idx: "unat (ps_local_index ?p) = prod_index s" using True by (simp add: prod_index_def Let_def)
  have "reserved_offsets (rs_producer s) = window (ring_desc s) (prod_index s) (unat (ps_reserved ?p))"
    using batch_offsets_window [of "rs_producer s" "ring_desc s" "ps_local_index ?p" "ps_reserved ?p"]
      ring_invD(7,10) [OF inv] by (simp add: reserved_offsets_def idx)
  then show ?thesis by (simp only: ring_invD(12) [OF inv] window_mod)
next
  case False
  then have z: "ps_reserved (sr_producer (rs_producer s)) = 0"
    using inv by (simp add: ring_inv_def Let_def)
  have "min 0 x = 0" for x :: u32 by (simp add: min_def)
  then show ?thesis
    by (simp add: z reserved_offsets_def batch_offsets_def span_offsets_def make_batch_def window_def Let_def)
qed

lemma peeked_window:
  assumes inv: "ring_inv s"
  shows "peeked_offsets (rs_consumer s)
       = window (ring_desc s) (cons_index s) (unat (cs_peeked (sr_consumer (rs_consumer s))))"
proof (cases "cs_initialized (sr_consumer (rs_consumer s))")
  case True
  let ?c = "sr_consumer (rs_consumer s)"
  have idx: "unat (cs_local_index ?c) = cons_index s" using True by (simp add: cons_index_def Let_def)
  show ?thesis
    using batch_offsets_window [of "rs_consumer s" "ring_desc s" "cs_local_index ?c" "cs_peeked ?c"]
      ring_invD(3,7,8,9,11) [OF inv] by (simp add: peeked_offsets_def idx)
next
  case False
  then have z: "cs_peeked (sr_consumer (rs_consumer s)) = 0"
    using inv by (simp add: ring_inv_def Let_def)
  have "min 0 x = 0" for x :: u32 by (simp add: min_def)
  then show ?thesis
    by (simp add: z peeked_offsets_def batch_offsets_def span_offsets_def make_batch_def window_def Let_def)
qed

lemma write_spec:
  fixes v :: 'a
  assumes inv: "ring_inv s" and off: "off \<in> set (reserved_offsets (rs_producer s))"
  defines "t \<equiv> s\<lparr>rs_slots := (rs_slots s)(off := v)\<rparr>"
  shows "ring_inv t \<and> ring_contents t = ring_contents s"
proof -
  let ?d = "ring_desc s" and ?n = "unat (ps_reserved (sr_producer (rs_producer s)))"
  have "distinct (window ?d (cons_index s) (ring_used s + ?n))"
    using ring_invD(6,7) [OF inv] by (intro distinct_window) simp_all
  then have "off \<notin> set (window ?d (cons_index s) (ring_used s))"
    using off by (auto simp: reserved_window [OF inv] window_append)
  then have "map (rs_slots t) (window ?d (cons_index s) (ring_used s))
           = map (rs_slots s) (window ?d (cons_index s) (ring_used s))"
    by (auto simp: t_def)
  moreover have idx: "cons_index t = cons_index s" "ring_used t = ring_used s" "ring_desc t = ?d"
    "prod_index t = prod_index s" "seen_head t = seen_head s" "seen_tail t = seen_tail s"
    "rs_producer t = rs_producer s" "rs_consumer t = rs_consumer s" "rs_tail t = rs_tail s"
    "rs_head t = rs_head s"
    by (simp_all add: t_def cons_index_def ring_used_def prod_index_def seen_head_def seen_tail_def Let_def)
  moreover have "ring_inv t"
    using inv by (simp add: ring_inv_def Let_def idx)
  ultimately show ?thesis by (simp add: ring_contents_def)
qed

lemma unat_add_count:
  fixes x :: u64 and n :: u32
  assumes "unat x + unat n < 18446744073709551616"
  shows "unat (x + ucast n) = unat x + unat n"
proof -
  have "unat (x + ucast n) = unat x + unat (ucast n :: u64)"
    using assms by (subst unat_add_lem [symmetric]) simp
  then show ?thesis by simp
qed

lemma publish_spec:
  assumes inv: "ring_inv s"
    and eq: "producer_publish n (rs_producer s) = (st, store, r)"
  defines "t \<equiv> s\<lparr>rs_producer := r, rs_tail := (case store of Some v \<Rightarrow> v | None \<Rightarrow> rs_tail s)\<rparr>"
  shows "ring_inv t \<and>
    (st = EINVAL \<and> ring_contents t = ring_contents s \<or>
     st = OK \<and> ring_contents t = ring_contents s @
       map (rs_slots s) (take (unat n) (reserved_offsets (rs_producer s))))"
proof -
  let ?R = "rs_producer s"
  let ?p = "sr_producer ?R"
  note D = ring_invD [OF inv]
  show ?thesis
  proof (cases "ps_reserved ?p = 0 \<or> n > ps_reserved ?p")
    case True
    then have "st = EINVAL \<and> store = None \<and> r = ?R"
      using eq D(1) by (auto simp: producer_publish_def Let_def)
    then show ?thesis using inv by (simp add: t_def)
  next
    case False
    then have init: "ps_initialized ?p" using inv by (auto simp: ring_inv_def Let_def)
    have lt: "ps_local_tail ?p = rs_tail s" using inv init by (simp add: ring_inv_def Let_def)
    have n: "unat n \<le> unat (ps_reserved ?p)" using False by (simp add: not_less word_le_nat_alt)
    define p' where "p' = ?p\<lparr>ps_local_tail := rs_tail s + ucast n,
       ps_local_index := (if ps_local_index ?p + n \<ge> qd_capacity (ring_desc s)
          then ps_local_index ?p + n - qd_capacity (ring_desc s) else ps_local_index ?p + n),
       ps_reserved := 0\<rparr>"
    have idx: "unat (ps_local_index ?p) = prod_index s" using init by (simp add: prod_index_def Let_def)
    have small: "\<not> qd_capacity (ring_desc s) \<le> ps_local_index ?p"
      using D(10) idx by (simp add: word_le_nat_alt)
    have st: "st = OK \<and> r = ?R\<lparr>sr_producer := p'\<rparr> \<and> rs_tail t = rs_tail s + ucast n"
      using eq D(1) False small
      by (cases "n = 0") (auto simp: producer_publish_def Let_def p'_def t_def lt [symmetric])
    have idx': "unat (ps_local_index p') = (prod_index s + unat n) mod ring_cap s"
      using index_advance [of "ps_local_index ?p" "qd_capacity (ring_desc s)" n] D(5,7,10) n idx
      by (simp add: p'_def)
    have lt64: "ring_used s + unat n < 18446744073709551616"
      using D(7) n unat_u32_bound [of "qd_capacity (ring_desc s)"] by linarith
    have rst: "rs_tail t = rs_tail s + ucast n" "rs_head t = rs_head s" "rs_consumer t = rs_consumer s"
      "rs_slots t = rs_slots s" "rs_map_tail t = rs_map_tail s" "rs_map_head t = rs_map_head s"
      "rs_producer t = ?R\<lparr>sr_producer := p'\<rparr>"
      using st by (simp_all add: t_def)
    have used: "ring_used t = ring_used s + unat n"
    proof -
      have "rs_tail t - rs_head t = (rs_tail s - rs_head s) + ucast n" by (simp add: rst)
      then show ?thesis using lt64 unfolding ring_used_def by (simp add: unat_add_count)
    qed
    have ci: "cons_index t = cons_index s" "seen_tail t = seen_tail s"
      by (simp_all add: cons_index_def seen_tail_def rst Let_def)
    have pi: "prod_index t = (prod_index s + unat n) mod ring_cap s" "seen_head t = seen_head s"
      using init idx' by (simp_all add: prod_index_def seen_head_def rst p'_def Let_def)
    have p': "ps_initialized p'" "ps_local_tail p' = rs_tail s + ucast n" "ps_reserved p' = 0"
      using init by (simp_all add: p'_def)
    have pidx: "(prod_index s + unat n) mod ring_cap s = (cons_index s + (ring_used s + unat n)) mod ring_cap s"
      by (simp only: D(12) mod_add_left_eq add.assoc)
    have "ring_inv t"
      using inv n p' pidx D(4)
      by (simp add: ring_inv_def Let_def rst used ci pi ring_valid_def)
    moreover have "ring_contents t = ring_contents s @ map (rs_slots s) (take (unat n) (reserved_offsets ?R))"
      using n by (simp add: ring_contents_def used ci rst window_append reserved_window [OF inv] take_window)
    ultimately show ?thesis using st by blast
  qed
qed

lemma release_spec:
  assumes inv: "ring_inv s"
    and eq: "consumer_release n (rs_consumer s) = (st, store, r)"
  defines "t \<equiv> s\<lparr>rs_consumer := r, rs_head := (case store of Some v \<Rightarrow> v | None \<Rightarrow> rs_head s)\<rparr>"
  shows "ring_inv t \<and>
    (st = EINVAL \<and> ring_contents t = ring_contents s \<or>
     st = OK \<and> ring_contents s =
       map (rs_slots s) (take (unat n) (peeked_offsets (rs_consumer s))) @ ring_contents t)"
proof -
  let ?R = "rs_consumer s"
  let ?c = "sr_consumer ?R"
  note D = ring_invD [OF inv]
  show ?thesis
  proof (cases "cs_peeked ?c = 0 \<or> n > cs_peeked ?c")
    case True
    then have "st = EINVAL \<and> store = None \<and> r = ?R"
      using eq D(2) by (auto simp: consumer_release_def Let_def)
    then show ?thesis using inv by (simp add: t_def)
  next
    case False
    then have init: "cs_initialized ?c" using inv by (auto simp: ring_inv_def Let_def)
    have lh: "cs_local_head ?c = rs_head s" using inv init by (simp add: ring_inv_def Let_def)
    have n: "unat n \<le> unat (cs_peeked ?c)" using False by (simp add: not_less word_le_nat_alt)
    define c' where "c' = ?c\<lparr>cs_local_head := rs_head s + ucast n,
       cs_local_index := (if cs_local_index ?c + n \<ge> qd_capacity (ring_desc s)
          then cs_local_index ?c + n - qd_capacity (ring_desc s) else cs_local_index ?c + n),
       cs_peeked := 0\<rparr>"
    have idx: "unat (cs_local_index ?c) = cons_index s" using init by (simp add: cons_index_def Let_def)
    have small: "\<not> qd_capacity (ring_desc s) \<le> cs_local_index ?c"
      using D(11) idx by (simp add: word_le_nat_alt)
    have st: "st = OK \<and> r = ?R\<lparr>sr_consumer := c'\<rparr> \<and> rs_head t = rs_head s + ucast n"
      using eq D(2,3) False small
      by (cases "n = 0") (auto simp: consumer_release_def Let_def c'_def t_def lh [symmetric])
    have ncap: "unat n \<le> ring_used s" "ring_used s \<le> ring_cap s" using n D(7,8,9) by linarith+
    have idx': "unat (cs_local_index c') = (cons_index s + unat n) mod ring_cap s"
      using index_advance [of "cs_local_index ?c" "qd_capacity (ring_desc s)" n] D(5,11) ncap idx
      by (simp add: c'_def)
    have rst: "rs_head t = rs_head s + ucast n" "rs_tail t = rs_tail s" "rs_producer t = rs_producer s"
      "rs_slots t = rs_slots s" "rs_map_tail t = rs_map_tail s" "rs_map_head t = rs_map_head s"
      "rs_consumer t = ?R\<lparr>sr_consumer := c'\<rparr>"
      using st by (simp_all add: t_def)
    have shift: "unat n \<le> unat (x - rs_head s) \<Longrightarrow>
        unat (x - (rs_head s + ucast n)) = unat (x - rs_head s) - unat n" for x
    proof -
      assume "unat n \<le> unat (x - rs_head s)"
      then have "ucast n \<le> x - rs_head s" by (simp add: word_le_nat_alt)
      then have "unat (x - rs_head s - ucast n) = unat (x - rs_head s) - unat n"
        by (simp add: unat_sub)
      then show ?thesis by (simp add: diff_diff_eq)
    qed
    have used: "ring_used t = ring_used s - unat n"
      using shift [of "rs_tail s"] ncap by (simp add: ring_used_def rst)
    have seen: "unat (seen_tail s - rs_head t) = unat (seen_tail s - rs_head s) - unat n"
      using shift [of "seen_tail s"] n D(9) by (simp add: rst)
    have hd: "unat (rs_head t - seen_head s) = unat (rs_head s - seen_head s) + unat n"
    proof -
      have "unat (rs_head s - seen_head s) + unat n < 18446744073709551616"
        using D(7) ncap unat_u32_bound [of "qd_capacity (ring_desc s)"] by linarith
      moreover have "rs_head t - seen_head s = (rs_head s - seen_head s) + ucast n" by (simp add: rst)
      ultimately show ?thesis by (simp only: unat_add_count)
    qed
    have ci: "cons_index t = (cons_index s + unat n) mod ring_cap s" "seen_tail t = seen_tail s"
      using init idx' by (simp_all add: cons_index_def seen_tail_def rst c'_def Let_def)
    have pi: "prod_index t = prod_index s" "seen_head t = seen_head s"
      by (simp_all add: prod_index_def seen_head_def rst Let_def)
    have c': "cs_initialized c'" "cs_local_head c' = rs_head s + ucast n" "cs_peeked c' = 0"
      using init by (simp_all add: c'_def)
    have pidx: "prod_index s = ((cons_index s + unat n) mod ring_cap s + (ring_used s - unat n)) mod ring_cap s"
    proof -
      have "cons_index s + ring_used s = cons_index s + unat n + (ring_used s - unat n)"
        using ncap by simp
      then show ?thesis by (simp only: D(12) mod_add_left_eq)
    qed
    have room: "ring_used t + unat (rs_head t - seen_head s) + unat (ps_reserved (sr_producer (rs_producer s))) \<le> ring_cap s"
      using D(7) ncap by (simp add: used hd)
    have "ring_inv t"
      using inv c' pidx room seen n D(4,8,9,10)
      by (simp add: ring_inv_def Let_def rst used ci pi ring_valid_def)
    moreover have "ring_contents s = map (rs_slots s) (take (unat n) (peeked_offsets ?R)) @ ring_contents t"
    proof -
      have "window (ring_desc s) (cons_index s) (ring_used s)
        = window (ring_desc s) (cons_index s) (unat n)
          @ window (ring_desc s) (cons_index s + unat n) (ring_used s - unat n)"
        using window_append [of "ring_desc s" "cons_index s" "unat n" "ring_used s - unat n"] ncap by simp
      then show ?thesis
        using n by (simp add: ring_contents_def used ci rst window_mod peeked_window [OF inv] take_window)
    qed
    ultimately show ?thesis using st by blast
  qed
qed

section \<open>The ring is a FIFO channel\<close>

lemma ring_step_desc: "ring_step s e t \<Longrightarrow> ring_inv s \<Longrightarrow> ring_cap t = ring_cap s"
  by (erule ring_stepE)
     (auto simp: producer_reserve_def producer_publish_def consumer_peek_def consumer_release_def
        producer_init_def Let_def split: if_splits)

lemma ring_step_fifo:
  assumes "ring_step s e t" and inv: "ring_inv s"
  shows "ring_inv t \<and> ring_contents s @ sent_of e = taken_of e @ ring_contents t"
  using assms(1)
proof cases
  case (step_reserve h1 h2 max_count have_batch status r batch)
  then show ?thesis using reserve_spec [OF inv step_reserve(3-5)] by simp
next
  case (step_write off v)
  then show ?thesis using write_spec [OF inv] by simp
next
  case (step_publish n status store r xs)
  then show ?thesis using publish_spec [OF inv step_publish(3)] by auto
next
  case (step_peek t1 t2 max_count have_batch status r batch)
  then show ?thesis using peek_spec [OF inv step_peek(3-5)] by simp
next
  case (step_release n status store r xs)
  then show ?thesis using release_spec [OF inv step_release(3)] by auto
qed

lemma ring_contents_bound: "ring_inv s \<Longrightarrow> length (ring_contents s) \<le> ring_cap s"
  using ring_invD(7) [of s] by (simp add: ring_contents_def)

interpretation ring: fifo_channel ring_inv ring_contents "\<lambda>s. ring_cap s" ring_step
  by unfold_locales (auto dest: ring_step_fifo ring_step_desc ring_contents_bound)

section \<open>Properties of every interleaving\<close>

lemmas ring_eval =
  ring_start_def make_ring_def empty_ring_def empty_producer_def empty_consumer_def ring_valid_def
  producer_reserve_def producer_init_def producer_publish_def consumer_peek_def consumer_init_def
  consumer_release_def make_batch_def slot_at_def Let_def

lemma ring_run_inv:
  assumes "chan_run ring_step s es t" "ring_inv s"
  shows "ring_inv t"
  using ring.run_inv [OF assms] by blast

text \<open>A concrete run over the wrap of the 64-bit counters, for the witnesses: a ring of three slots
  mapped when both counters are \<open>2 ^ 64 - 1\<close>; one entry is reserved, written, published, peeked
  and released.\<close>

definition demo_desc :: queue_descriptor where
  "demo_desc = \<lparr>qd_kind = 1, qd_capacity = 3, qd_slot_stride = 64\<rparr>"

definition demo_start :: "nat ring_sys" where
  "demo_start = ring_start demo_desc 18446744073709551615 18446744073709551615 (\<lambda>_. 0)"

definition demo_end :: "nat ring_sys" where
  "demo_end = demo_start
     \<lparr>rs_producer := (make_ring 0 0 (-1) demo_desc)\<lparr>sr_producer :=
        \<lparr>ps_local_tail = 0, ps_cached_head = 18446744073709551615, ps_local_index = 1,
         ps_reserved = 0, ps_initialized = True\<rparr>\<rparr>,
      rs_consumer := (make_ring 0 0 (-1) demo_desc)\<lparr>sr_consumer :=
        \<lparr>cs_local_head = 0, cs_cached_tail = 0, cs_local_index = 1, cs_peeked = 0,
         cs_initialized = True\<rparr>\<rparr>,
      rs_tail := 0, rs_head := 0, rs_slots := (\<lambda>_. 0)(192 := 7)\<rparr>"

definition demo_mid :: "nat ring_sys" where
  "demo_mid = demo_end
     \<lparr>rs_head := 18446744073709551615, rs_consumer := (make_ring 0 0 (-1) demo_desc)\<lparr>sr_consumer :=
        \<lparr>cs_local_head = 18446744073709551615, cs_cached_tail = 0, cs_local_index = 0, cs_peeked = 1,
         cs_initialized = True\<rparr>\<rparr>\<rparr>"

lemmas demo_eval = ring_eval demo_desc_def demo_start_def demo_end_def demo_mid_def seen_head_def seen_tail_def
  load_ok_def reserved_offsets_def peeked_offsets_def batch_offsets_def span_offsets_def
  word_le_nat_alt word_less_nat_alt

lemma demo_run_mid: "chan_run ring_step demo_start [Silent, Silent, Sent [7], Silent] demo_mid"
proof -
  let ?m = "18446744073709551615 :: u64"
  define s1 where "s1 = demo_start\<lparr>rs_producer := (make_ring 0 0 (-1) demo_desc)\<lparr>sr_producer :=
     \<lparr>ps_local_tail = ?m, ps_cached_head = ?m, ps_local_index = 0, ps_reserved = 1, ps_initialized = True\<rparr>\<rparr>\<rparr>"
  define s2 where "s2 = s1\<lparr>rs_slots := (\<lambda>_. 0)(192 := 7)\<rparr>"
  define s3 where "s3 = s2\<lparr>rs_producer := rs_producer demo_end, rs_tail := 0\<rparr>"
  note S = s1_def s2_def s3_def demo_eval
  have 1: "ring_step demo_start Silent s1"
    using ring_step.step_reserve [of demo_start ?m ?m 1 True OK "rs_producer s1" "Some (make_batch (rs_producer s1) 0 1)"]
    by (simp add: S)
  have 2: "ring_step s1 Silent s2"
    using ring_step.step_write [of 192 s1 7] by (simp add: S)
  have 3: "ring_step s2 (Sent [7]) s3"
    using ring_step.step_publish [of 1 s2 OK "Some 0" "rs_producer s3" "[7]"] by (simp add: S)
  have 4: "ring_step s3 Silent demo_mid"
    using ring_step.step_peek [of s3 0 0 1 True OK "rs_consumer demo_mid" "Some (make_batch (rs_consumer demo_mid) 0 1)"]
    by (simp add: S)
  have "chan_run ring_step demo_start [] demo_start" by (rule run_nil)
  from run_snoc [OF run_snoc [OF this 1] 2]
  have "chan_run ring_step demo_start [Silent, Silent] s2" by simp
  from run_snoc [OF run_snoc [OF this 3] 4] show ?thesis by simp
qed

lemma demo_run: "chan_run ring_step demo_start [Silent, Silent, Sent [7], Silent, Taken [7]] demo_end"
proof -
  have "ring_step demo_mid (Taken [7]) demo_end"
    using ring_step.step_release [of 1 demo_mid OK "Some 0" "rs_consumer demo_end" "[7]"] by (simp add: demo_eval)
  from run_snoc [OF demo_run_mid this] show ?thesis by simp
qed

text \<open>C1. Whatever the interleaving of the producer's reserve, write and publish calls with the
  consumer's peek and release calls, and however stale the counters each side loads, the entries
  the consumer has taken followed by the entries still in the ring are exactly the entries the
  ring held at the start followed by the ones the producer has published, in that order: nothing
  is lost, duplicated, reordered or overwritten, also after the 64-bit counters have wrapped. The ring starts with at most as
  many entries as it has slots, and it has at most \<open>2 ^ 31\<close> slots, above which the 32-bit slot index overflows.\<close>

theorem ring_delivers_fifo:
  assumes "valid_descriptor d" "unat (qd_capacity d) \<le> 2 ^ 31"
    and "head \<le> tail" "unat (tail - head) \<le> unat (qd_capacity d)"
    and "chan_run ring_step (ring_start d head tail slots) es t"
  shows "ring_contents (ring_start d head tail slots) @ concat (map sent_of es)
       = concat (map taken_of es) @ ring_contents t \<and>
    length (ring_contents t) \<le> unat (qd_capacity d)"
proof -
  let ?s = "ring_start d head tail slots"
  have inv: "ring_inv ?s" using assms by (intro ring_inv_start)
  have "ring_cap ?s = unat (qd_capacity d)" by (simp add: ring_start_def make_ring_def empty_ring_def)
  with ring.run_fifo [OF assms(5) inv] ring.run_inv [OF assms(5) inv] ring_contents_bound [of t]
  show ?thesis by simp
qed

theorem ring_delivers_fifo_witness:
  "valid_descriptor demo_desc \<and>
   chan_run ring_step (ring_start demo_desc 18446744073709551615 18446744073709551615 (\<lambda>_. 0))
     [Silent, Silent, Sent [7], Silent, Taken [7]] demo_end \<and>
   [7] = [7 :: nat] @ ring_contents demo_end"
  using ring_delivers_fifo [OF _ _ _ _ demo_run [unfolded demo_start_def]] demo_run
  by (simp add: valid_descriptor_def demo_desc_def demo_start_def ring_contents_def window_def
      ring_used_def ring_start_def)

text \<open>C34. In every state the two sides can reach, a reserve or peek returns 0, \<open>EAGAIN\<close> or
  \<open>EINVAL\<close> and never \<open>EPROTO\<close>, which the code keeps for corrupted counters; \<open>EINVAL\<close> only for a
  null batch, a zero count or a batch that is still outstanding; and \<open>EAGAIN\<close> only when the
  counter value it loaded last shows a full ring (to the producer) or an empty one (to the
  consumer).\<close>

theorem ring_status_exact:
  assumes "valid_descriptor d" "unat (qd_capacity d) \<le> 2 ^ 31"
    and "head \<le> tail" "unat (tail - head) \<le> unat (qd_capacity d)"
    and "chan_run ring_step (ring_start d head tail slots) es s"
  shows
    "(\<forall>h1 h2 m hb st r b.
        load_ok (seen_head s) (rs_head s) h1 \<longrightarrow>
        load_ok (if ps_initialized (sr_producer (rs_producer s)) then seen_head s else h1) (rs_head s) h2 \<longrightarrow>
        producer_reserve (rs_tail s) h1 h2 m hb (rs_producer s) = (st, r, b) \<longrightarrow>
          st = OK \<and> b \<noteq> None \<or>
          st = EAGAIN \<and> unat (rs_tail s - h2) = ring_cap s \<or>
          st = EINVAL \<and> (m = 0 \<or> \<not> hb \<or> ps_reserved (sr_producer (rs_producer s)) \<noteq> 0)) \<and>
     (\<forall>t1 t2 m hb st r b.
        load_ok (seen_tail s) (rs_tail s) t1 \<longrightarrow>
        load_ok (if cs_initialized (sr_consumer (rs_consumer s)) then seen_tail s else t1) (rs_tail s) t2 \<longrightarrow>
        consumer_peek (rs_head s) t1 t2 m hb (rs_consumer s) = (st, r, b) \<longrightarrow>
          st = OK \<and> b \<noteq> None \<or>
          st = EAGAIN \<and> t2 = rs_head s \<or>
          st = EINVAL \<and> (m = 0 \<or> \<not> hb \<or> cs_peeked (sr_consumer (rs_consumer s)) \<noteq> 0))"
proof -
  have inv: "ring_inv s" using ring_run_inv [OF assms(5) ring_inv_start] assms by blast
  show ?thesis
    by (intro conjI allI impI; drule (2) reserve_spec [OF inv, rotated] peek_spec [OF inv, rotated]; blast)
qed

theorem ring_status_exact_witness:
  "consumer_peek 0 0 0 1 True (rs_consumer demo_end) = (EAGAIN, rs_consumer demo_end, None) \<and>
   chan_run ring_step (ring_start demo_desc 18446744073709551615 18446744073709551615 (\<lambda>_. 0))
     [Silent, Silent, Sent [7], Silent, Taken [7]] demo_end \<and> (0 :: u64) = rs_head demo_end"
proof -
  have eq: "consumer_peek 0 0 0 1 True (rs_consumer demo_end) = (EAGAIN, rs_consumer demo_end, None)"
    by (simp add: demo_eval)
  have "valid_descriptor demo_desc" "unat (qd_capacity demo_desc) \<le> 2 ^ 31"
    by (simp_all add: valid_descriptor_def demo_desc_def)
  from ring_status_exact [OF this _ _ demo_run [unfolded demo_start_def]] eq
  have "(0 :: u64) = rs_head demo_end"
    by (simp add: demo_eval)
  with eq demo_run show ?thesis by (simp add: demo_start_def)
qed

lemma window_in_mapping:
  assumes "0 < qd_capacity d" "off \<in> set (window d start n)"
  shows "header_size \<le> off \<and>
    off + unat (qd_slot_stride d) \<le> header_size + unat (qd_capacity d) * unat (qd_slot_stride d)"
proof -
  from assms(2) obtain i where off: "off = slot_off d ((start + i) mod unat (qd_capacity d))"
    by (auto simp: window_def)
  have "(start + i) mod unat (qd_capacity d) < unat (qd_capacity d)"
    using assms(1) by (simp add: word_less_nat_alt)
  then have "Suc ((start + i) mod unat (qd_capacity d)) * unat (qd_slot_stride d)
      \<le> unat (qd_capacity d) * unat (qd_slot_stride d)" by (intro mult_le_mono1) simp
  then show ?thesis by (simp add: off slot_off_def)
qed

text \<open>C33. In every reachable state the slots a producer may write (its reserved batch) and the
  slots a consumer may read (its peeked batch) lie inside the mapping behind the header, are
  pairwise different, and are disjoint from each other, so no read races with a write.\<close>

theorem ring_batches_safe:
  assumes "valid_descriptor d" "unat (qd_capacity d) \<le> 2 ^ 31"
    and "head \<le> tail" "unat (tail - head) \<le> unat (qd_capacity d)"
    and "chan_run ring_step (ring_start d head tail slots) es s"
  shows "distinct (peeked_offsets (rs_consumer s) @ reserved_offsets (rs_producer s)) \<and>
    list_all (\<lambda>off. header_size \<le> off \<and> off + unat (qd_slot_stride (ring_desc s))
        \<le> header_size + ring_cap s * unat (qd_slot_stride (ring_desc s)))
      (peeked_offsets (rs_consumer s) @ reserved_offsets (rs_producer s))"
proof -
  have inv: "ring_inv s" using ring_run_inv [OF assms(5) ring_inv_start] assms by blast
  note D = ring_invD [OF inv]
  let ?d = "ring_desc s" and ?n = "unat (ps_reserved (sr_producer (rs_producer s)))"
    and ?k = "unat (cs_peeked (sr_consumer (rs_consumer s)))"
  have k: "?k \<le> ring_used s" using D(8,9) by linarith
  have whole: "distinct (window ?d (cons_index s) (ring_used s + ?n))"
    using D(6,7) by (intro distinct_window) simp_all
  have "distinct (window ?d (cons_index s) ?k @ window ?d (cons_index s + ring_used s) ?n)"
  proof -
    have "window ?d (cons_index s) (ring_used s)
        = window ?d (cons_index s) ?k @ window ?d (cons_index s + ?k) (ring_used s - ?k)"
      using window_append [of ?d "cons_index s" ?k "ring_used s - ?k"] k by simp
    with whole show ?thesis by (auto simp: window_append)
  qed
  moreover have "qd_capacity ?d > 0" using D(4) by (simp add: word_less_nat_alt)
  ultimately show ?thesis
    using window_in_mapping [of ?d]
    by (auto simp: peeked_window [OF inv] reserved_window [OF inv] list_all_iff)
qed

theorem ring_batches_safe_witness:
  "chan_run ring_step (ring_start demo_desc 18446744073709551615 18446744073709551615 (\<lambda>_. 0))
     [Silent, Silent, Sent [7], Silent] demo_mid \<and>
   peeked_offsets (rs_consumer demo_mid) = [192] \<and> (header_size :: nat) \<le> 192 \<and>
   distinct (peeked_offsets (rs_consumer demo_mid) @ reserved_offsets (rs_producer demo_mid))"
proof -
  have "valid_descriptor demo_desc" "unat (qd_capacity demo_desc) \<le> 2 ^ 31"
    by (simp_all add: valid_descriptor_def demo_desc_def)
  note safe = ring_batches_safe [OF this _ _ demo_run_mid [unfolded demo_start_def]]
  have "peeked_offsets (rs_consumer demo_mid) = [192]" by (simp add: demo_eval)
  with safe demo_run_mid show ?thesis by (simp add: demo_start_def)
qed

end
