(* ===== verification/Ring_Clients.thy ===== *)
theory Ring_Clients
  imports Ring_System
begin

text \<open>
  What the producers of a ring have in common (\<^verbatim>\<open>api/wr_posting.cpp\<close>, \<^verbatim>\<open>queue/completion_queue.cpp\<close>):
  they reserve a batch, fill its slots in order and publish what they filled, while the consumer
  goes on in its own process. The consumer's progress before each reserve, and the counter values
  that reserve loads, are an argument \<open>env\<close> of the producer's code.
\<close>

section \<open>Interference of the consumer\<close>

type_synonym 'a ring_env = "nat \<Rightarrow> 'a ring_sys \<Rightarrow> 'a ring_sys \<times> u64 \<times> u64"

definition consumer_step :: "'a ring_sys \<Rightarrow> 'a chan_event \<Rightarrow> 'a ring_sys \<Rightarrow> bool" where
  "consumer_step s e t \<longleftrightarrow>
     ring_step s e t \<and> sent_of e = [] \<and> rs_producer t = rs_producer s \<and> rs_tail t = rs_tail s \<and>
     rs_slots t = rs_slots s"

definition env_ok :: "'a ring_env \<Rightarrow> bool" where
  "env_ok env \<longleftrightarrow>
     (\<forall>k s. ring_inv s \<longrightarrow>
        (case env k s of (s', h1, h2) \<Rightarrow>
           (\<exists>es. chan_run consumer_step s es s') \<and> load_ok (seen_head s') (rs_head s') h1 \<and>
           load_ok (if ps_initialized (sr_producer (rs_producer s')) then seen_head s' else h1)
             (rs_head s') h2))"

text \<open>The consumer that does nothing while the producer works, and whose counter is always read
  afresh.\<close>

definition quiet_env :: "'a ring_env" where
  "quiet_env k s = (s, rs_head s, rs_head s)"

lemma load_ok_refl [simp]: "load_ok prev cur cur"
  by (simp add: load_ok_def)

lemma quiet_env_ok: "env_ok quiet_env"
  by (auto simp: env_ok_def quiet_env_def intro: run_nil)

lemma env_okD:
  assumes "env_ok env" "ring_inv s" "env k s = (s', h1, h2)"
  shows "\<exists>es. chan_run consumer_step s es s'" "load_ok (seen_head s') (rs_head s') h1"
    "load_ok (if ps_initialized (sr_producer (rs_producer s')) then seen_head s' else h1) (rs_head s') h2"
proof -
  note assms(1) [unfolded env_ok_def, THEN spec [of _ k], THEN spec [of _ s], THEN mp, OF assms(2)]
  then show "\<exists>es. chan_run consumer_step s es s'" "load_ok (seen_head s') (rs_head s') h1"
    "load_ok (if ps_initialized (sr_producer (rs_producer s')) then seen_head s' else h1) (rs_head s') h2"
    using assms(3) by (simp_all only: prod.case simp_thms)
qed

lemma chan_run_append:
  assumes "chan_run step s es t" and "chan_run step t fs u"
  shows "chan_run step s (es @ fs) u"
  using assms(2,1)
proof induction
  case (run_nil t)
  then show ?case by simp
next
  case (run_snoc t fs u e v)
  then have "chan_run step s ((es @ fs) @ [e]) v" by (blast intro: chan_run.run_snoc)
  then show ?case by simp
qed

lemma chan_run_one: "step s e t \<Longrightarrow> chan_run step s [e] t"
  using run_snoc [OF run_nil, of step s e t] by simp

lemma consumer_run_ring:
  assumes "chan_run consumer_step s es t"
  shows "chan_run ring_step s es t \<and> concat (map sent_of es) = [] \<and> rs_producer t = rs_producer s \<and>
    rs_tail t = rs_tail s \<and> rs_slots t = rs_slots s"
  using assms by induction (auto simp: consumer_step_def intro: run_nil run_snoc)

section \<open>Filling a batch\<close>

text \<open>The loop over the slots of a span: stop at the end of the span or of the input, or at the
  first entry that is not valid. The result is whether every entry looked at was valid, how many
  were stored, the entries left and the memory.\<close>

fun fill_slots ::
  "('w \<Rightarrow> bool) \<Rightarrow> ('a \<Rightarrow> 'w \<Rightarrow> 'a) \<Rightarrow> nat list \<Rightarrow> 'w list \<Rightarrow> (nat \<Rightarrow> 'a) \<Rightarrow> bool \<times> nat \<times> 'w list \<times> (nat \<Rightarrow> 'a)" where
  "fill_slots valid enc [] ws slots = (True, 0, ws, slots)"
| "fill_slots valid enc (off # offs) [] slots = (True, 0, [], slots)"
| "fill_slots valid enc (off # offs) (w # ws) slots =
     (if \<not> valid w then (False, 0, w # ws, slots)
      else case fill_slots valid enc offs ws (slots(off := enc (slots off) w)) of
             (ok, n, rest, slots') \<Rightarrow> (ok, Suc n, rest, slots'))"

definition fill_batch ::
  "('w \<Rightarrow> bool) \<Rightarrow> ('a \<Rightarrow> 'w \<Rightarrow> 'a) \<Rightarrow> nat \<Rightarrow> slot_batch \<Rightarrow> 'w list \<Rightarrow> (nat \<Rightarrow> 'a) \<Rightarrow> bool \<times> nat \<times> 'w list \<times> (nat \<Rightarrow> 'a)" where
  "fill_batch valid enc stride b ws slots =
     (case fill_slots valid enc (span_offsets stride (sb_first b)) ws slots of
        (first_valid, n1, rest1, slots1) \<Rightarrow>
          if \<not> first_valid then (False, n1, rest1, slots1)
          else case fill_slots valid enc (span_offsets stride (sb_second b)) rest1 slots1 of
                 (second_valid, n2, rest2, slots2) \<Rightarrow> (second_valid, n1 + n2, rest2, slots2))"

lemma fill_slots_append:
  "fill_slots valid enc (xs @ ys) ws slots =
     (case fill_slots valid enc xs ws slots of
        (ok, n, rest, slots1) \<Rightarrow>
          if \<not> ok then (False, n, rest, slots1)
          else case fill_slots valid enc ys rest slots1 of (ok2, n2, rest2, slots2) \<Rightarrow> (ok2, n + n2, rest2, slots2))"
proof (induction valid enc xs ws slots rule: fill_slots.induct)
  case (1 valid enc ws slots)
  then show ?case by (auto split: prod.splits)
next
  case (2 valid enc off offs slots)
  have "fill_slots valid enc ys [] slots = (True, 0, [], slots)" by (cases ys) auto
  then show ?case by simp
next
  case (3 valid enc off offs w ws slots)
  then show ?case
    by (cases "valid w") (simp_all split: prod.split del: fun_upd_apply)
qed

lemma fill_batch_offsets:
  "fill_batch valid enc stride b ws slots = fill_slots valid enc (batch_offsets stride b) ws slots"
  by (simp add: fill_batch_def batch_offsets_def fill_slots_append)

lemma fill_slots_spec:
  assumes "fill_slots valid enc offs ws slots = (ok, n, rest, slots')" and "distinct offs"
  shows "n \<le> length offs \<and> n \<le> length ws \<and> rest = drop n ws \<and> list_all valid (take n ws) \<and>
    (ok \<longrightarrow> n = min (length offs) (length ws)) \<and>
    (\<not> ok \<longrightarrow> rest \<noteq> [] \<and> \<not> valid (hd rest)) \<and>
    map slots' (take n offs) = map2 (\<lambda>off w. enc (slots off) w) (take n offs) (take n ws) \<and>
    (\<forall>off. off \<notin> set (take n offs) \<longrightarrow> slots' off = slots off)"
  using assms
proof (induction valid enc offs ws slots arbitrary: ok n rest slots' rule: fill_slots.induct)
  case (3 valid enc off offs w ws slots)
  show ?case
  proof (cases "valid w")
    case False
    then show ?thesis using 3 by auto
  next
    case True
    then obtain m where m: "fill_slots valid enc offs ws (slots(off := enc (slots off) w)) = (ok, m, rest, slots')"
      and n: "n = Suc m"
      using 3(2) by (auto split: prod.splits)
    note IH = 3(1) [OF _ m] 
    have d: "distinct offs" "off \<notin> set offs" using 3(3) by auto
    have t: "off \<notin> set (take m offs)" using d(2) by (meson in_set_takeD)
    have "map2 (\<lambda>o' w'. enc ((slots(off := enc (slots off) w)) o') w') (take m offs) (take m ws)
        = map2 (\<lambda>o' w'. enc (slots o') w') (take m offs) (take m ws)"
    proof (rule map_cong [OF refl])
      fix p assume "p \<in> set (zip (take m offs) (take m ws))"
      then have "fst p \<in> set (take m offs)" by (metis in_set_zipE prod.collapse)
      then have "fst p \<noteq> off" using t by blast
      then show "(case p of (o', w') \<Rightarrow> enc ((slots(off := enc (slots off) w)) o') w')
        = (case p of (o', w') \<Rightarrow> enc (slots o') w')" by (auto split: prod.splits)
    qed
    then show ?thesis using IH True d t by (auto simp: n)
  qed
qed auto

lemma reserve_none_keeps_reserved:
  "producer_reserve t h1 h2 m hb ring = (st, r, None) \<Longrightarrow>
   ps_reserved (sr_producer r) = ps_reserved (sr_producer ring)"
proof -
  have "case producer_reserve t h1 h2 m hb ring of
      (st, r, b) \<Rightarrow> b = None \<longrightarrow> ps_reserved (sr_producer r) = ps_reserved (sr_producer ring)"
    by (simp add: producer_reserve_def producer_init_def Let_def)
  then show "producer_reserve t h1 h2 m hb ring = (st, r, None) \<Longrightarrow> ?thesis" by simp
qed

lemma reserve_keeps_descriptor:
  "producer_reserve t h1 h2 m hb ring = (st, r, b) \<Longrightarrow> sr_queue_descriptor r = sr_queue_descriptor ring"
proof -
  have "case producer_reserve t h1 h2 m hb ring of (st, r, b) \<Rightarrow> sr_queue_descriptor r = sr_queue_descriptor ring"
    by (simp add: producer_reserve_def producer_init_def Let_def)
  then show "producer_reserve t h1 h2 m hb ring = (st, r, b) \<Longrightarrow> ?thesis" by simp
qed

lemma peek_keeps_descriptor:
  "consumer_peek t h1 h2 m hb ring = (st, r, b) \<Longrightarrow> sr_queue_descriptor r = sr_queue_descriptor ring"
proof -
  have "case consumer_peek t h1 h2 m hb ring of (st, r, b) \<Rightarrow> sr_queue_descriptor r = sr_queue_descriptor ring"
    by (simp add: consumer_peek_def consumer_init_def Let_def)
  then show "consumer_peek t h1 h2 m hb ring = (st, r, b) \<Longrightarrow> ?thesis" by simp
qed

section \<open>One reserve, fill and publish\<close>

lemma fill_run:
  assumes "fill_slots valid enc offs ws slots = (ok, n, rest, slots')"
    and "set offs \<subseteq> set (reserved_offsets (rs_producer s))"
  shows "chan_run ring_step (s\<lparr>rs_slots := slots\<rparr>) (replicate n Silent) (s\<lparr>rs_slots := slots'\<rparr>)"
  using assms
proof (induction valid enc offs ws slots arbitrary: ok n rest slots' rule: fill_slots.induct)
  case (3 valid enc off offs w ws slots)
  show ?case
  proof (cases "valid w")
    case False
    then show ?thesis using 3(2) by (auto intro: run_nil)
  next
    case True
    let ?slots = "slots(off := enc (slots off) w)"
    from True obtain m where m: "fill_slots valid enc offs ws ?slots = (ok, m, rest, slots')"
      and n: "n = Suc m"
      using 3(2) by (auto split: prod.splits)
    have "ring_step (s\<lparr>rs_slots := slots\<rparr>) Silent ((s\<lparr>rs_slots := slots\<rparr>)\<lparr>rs_slots := ?slots\<rparr>)"
      using 3(3) step_write [of off "s\<lparr>rs_slots := slots\<rparr>"] by simp
    then have "chan_run ring_step (s\<lparr>rs_slots := slots\<rparr>) [Silent] (s\<lparr>rs_slots := ?slots\<rparr>)"
      by (intro chan_run_one) simp
    from chan_run_append [OF this 3(1) [OF _ m]] True 3(3) show ?thesis by (simp add: n)
  qed
qed (auto intro: run_nil)

lemma sent_replicate_Silent [simp]: "concat (map sent_of (replicate n Silent)) = []"
  by (induction n) auto

text \<open>What every producer of a ring gets from the ring: a batch reserved, filled with \<open>n\<close> entries and
  published is a run of the ring that sends exactly those entries.\<close>

lemma batch_transaction:
  assumes inv: "ring_inv s"
    and res: "producer_reserve (rs_tail s) h1 h2 m True (rs_producer s) = (OK, r, Some b)"
    and loads: "load_ok (seen_head s) (rs_head s) h1"
      "load_ok (if ps_initialized (sr_producer (rs_producer s)) then seen_head s else h1) (rs_head s) h2"
    and fill: "fill_batch valid enc (unat (qd_slot_stride (ring_desc s))) b ws (rs_slots s) = (ok, n, rest, slots')"
    and pub: "producer_publish (of_nat n) r = (st, store, r')"
  defines "t \<equiv> s\<lparr>rs_producer := r', rs_slots := slots', rs_tail := (case store of Some v \<Rightarrow> v | None \<Rightarrow> rs_tail s)\<rparr>"
  shows "\<exists>offs es. length offs = unat (ps_reserved (sr_producer r)) \<and> distinct offs \<and>
     fill_slots valid enc offs ws (rs_slots s) = (ok, n, rest, slots') \<and>
     st = OK \<and> ring_inv t \<and> ps_reserved (sr_producer r') = 0 \<and>
     chan_run ring_step s es t \<and> concat (map sent_of es) = map slots' (take n offs)"
proof -
  define s1 where "s1 = s\<lparr>rs_producer := r\<rparr>"
  have step1: "ring_step s Silent s1"
    unfolding s1_def by (rule step_reserve [OF res loads])
  note spec = reserve_spec [OF inv res loads]
  have inv1: "ring_inv s1" using spec by (simp add: s1_def)
  have b: "b = make_batch r (ps_local_index (sr_producer r)) (ps_reserved (sr_producer r))"
    and pos: "0 < unat (ps_reserved (sr_producer r))" using spec by auto
  have dq: "sr_queue_descriptor r = ring_desc s"
    by (rule reserve_keeps_descriptor [OF res])
  define offs where "offs = reserved_offsets r"
  have bo: "batch_offsets (unat (qd_slot_stride (ring_desc s))) b = offs"
    by (simp add: offs_def reserved_offsets_def b dq)
  have offs: "offs = window (ring_desc s1) (cons_index s1 + ring_used s1) (unat (ps_reserved (sr_producer r)))"
    using reserved_window [OF inv1] by (simp add: offs_def s1_def)
  have len: "length offs = unat (ps_reserved (sr_producer r))" by (simp add: offs)
  have dist: "distinct offs"
    unfolding offs using ring_invD(6,7) [OF inv1] by (intro distinct_window) (simp_all add: s1_def)
  have fs: "fill_slots valid enc offs ws (rs_slots s) = (ok, n, rest, slots')"
    using fill by (simp add: fill_batch_offsets bo)
  have nle: "n \<le> length offs" using fill_slots_spec [OF fs dist] by blast
  then have un: "unat (of_nat n :: u32) = n"
    using len unat_u32_bound [of "ps_reserved (sr_producer r)"] by (intro unat_of_nat_u32) linarith
  define s2 where "s2 = s1\<lparr>rs_slots := slots'\<rparr>"
  have run2: "chan_run ring_step s1 (replicate n Silent) s2"
    using fill_run [OF fs, of s1] by (simp add: s1_def s2_def offs_def)
  have inv2: "ring_inv s2" by (rule ring_run_inv [OF run2 inv1])
  have r2: "rs_producer s2 = r" "rs_slots s2 = slots'" "rs_tail s2 = rs_tail s" by (simp_all add: s2_def s1_def)
  have ok: "st = OK"
    using pub pos nle len un ring_invD(1) [OF inv2] r2(1)
    by (auto simp: producer_publish_def Let_def word_less_nat_alt split: if_splits)
  have "ring_step s2 (Sent (map slots' (take n offs))) t"
  proof -
    have "ring_step s2 (Sent (map slots' (take n offs)))
        (s2\<lparr>rs_producer := r', rs_tail := (case store of Some v \<Rightarrow> v | None \<Rightarrow> rs_tail s2)\<rparr>)"
      by (rule step_publish [of "of_nat n" s2 st]) (simp_all add: r2 pub ok un offs_def)
    moreover have "s2\<lparr>rs_producer := r', rs_tail := (case store of Some v \<Rightarrow> v | None \<Rightarrow> rs_tail s2)\<rparr> = t"
      by (rule ring_sys.equality) (simp_all add: t_def s2_def s1_def split: option.split)
    ultimately show ?thesis by simp
  qed
  then have run: "chan_run ring_step s ([Silent] @ replicate n Silent @ [Sent (map slots' (take n offs))]) t"
    using chan_run_append [OF chan_run_one [of ring_step, OF step1] chan_run_append [OF run2 chan_run_one]] by blast
  have "ring_inv t" by (rule ring_run_inv [OF run inv])
  moreover have "ps_reserved (sr_producer r') = 0"
    using pub ok by (auto simp: producer_publish_def Let_def split: if_splits)
  moreover have "concat (map sent_of ([Silent] @ replicate n Silent @ [Sent (map slots' (take n offs))])) = map slots' (take n offs)"
    using sent_replicate_Silent [of n] by (simp del: sent_replicate_Silent)
  ultimately show ?thesis using run len dist fs ok by blast
qed

section \<open>Interference of the producer, and one peek and release\<close>

definition producer_env_ok :: "'a ring_env \<Rightarrow> bool" where
  "producer_env_ok env \<longleftrightarrow>
     (\<forall>k s. ring_inv s \<longrightarrow>
        (case env k s of (s', t1, t2) \<Rightarrow>
           (\<exists>es. chan_run ring_step s es s' \<and> concat (map taken_of es) = []) \<and>
           rs_consumer s' = rs_consumer s \<and> rs_head s' = rs_head s \<and>
           load_ok (seen_tail s') (rs_tail s') t1 \<and>
           load_ok (if cs_initialized (sr_consumer (rs_consumer s')) then seen_tail s' else t1)
             (rs_tail s') t2))"

definition quiet_producer_env :: "'a ring_env" where
  "quiet_producer_env k s = (s, rs_tail s, rs_tail s)"

lemma quiet_producer_env_ok: "producer_env_ok quiet_producer_env"
  unfolding producer_env_ok_def quiet_producer_env_def
  by (auto intro!: exI [of _ "[]"] run_nil)

lemma producer_env_okD:
  assumes "producer_env_ok env" "ring_inv s" "env k s = (s', t1, t2)"
  shows "\<exists>es. chan_run ring_step s es s' \<and> concat (map taken_of es) = []"
    "rs_consumer s' = rs_consumer s" "rs_head s' = rs_head s" "load_ok (seen_tail s') (rs_tail s') t1"
    "load_ok (if cs_initialized (sr_consumer (rs_consumer s')) then seen_tail s' else t1) (rs_tail s') t2"
proof -
  note assms(1) [unfolded producer_env_ok_def, THEN spec [of _ k], THEN spec [of _ s], THEN mp, OF assms(2)]
  then show "\<exists>es. chan_run ring_step s es s' \<and> concat (map taken_of es) = []"
    "rs_consumer s' = rs_consumer s" "rs_head s' = rs_head s" "load_ok (seen_tail s') (rs_tail s') t1"
    "load_ok (if cs_initialized (sr_consumer (rs_consumer s')) then seen_tail s' else t1) (rs_tail s') t2"
    unfolding assms(3) prod.case by blast+
qed

text \<open>What every consumer of a ring gets from the ring: a batch peeked and released as a whole is a run
  of the ring that takes exactly the entries the batch shows.\<close>

lemma take_transaction:
  assumes inv: "ring_inv s"
    and peek: "consumer_peek (rs_head s) t1 t2 m True (rs_consumer s) = (OK, r, Some b)"
    and loads: "load_ok (seen_tail s) (rs_tail s) t1"
      "load_ok (if cs_initialized (sr_consumer (rs_consumer s)) then seen_tail s else t1) (rs_tail s) t2"
    and rel: "consumer_release (sb_count b) r = (st, store, r')"
  defines "t \<equiv> s\<lparr>rs_consumer := r', rs_head := (case store of Some v \<Rightarrow> v | None \<Rightarrow> rs_head s)\<rparr>"
    and "xs \<equiv> map (rs_slots s) (batch_offsets (unat (qd_slot_stride (sr_queue_descriptor r))) b)"
  shows "st = OK \<and> chan_run ring_step s [Silent, Taken xs] t \<and> length xs = unat (sb_count b) \<and>
    0 < length xs \<and> length xs \<le> unat m \<and> cs_peeked (sr_consumer r') = 0"
proof -
  define s1 where "s1 = s\<lparr>rs_consumer := r\<rparr>"
  note spec = peek_spec [OF inv peek loads]
  have inv1: "ring_inv s1" using spec by (simp add: s1_def)
  have b: "b = make_batch r (cs_local_index (sr_consumer r)) (cs_peeked (sr_consumer r))"
    "0 < unat (cs_peeked (sr_consumer r))" "cs_peeked (sr_consumer r) \<le> m" using spec by auto
  have cnt: "sb_count b = cs_peeked (sr_consumer r)" by (simp add: b(1) make_batch_def Let_def)
  have po: "batch_offsets (unat (qd_slot_stride (sr_queue_descriptor r))) b = peeked_offsets r"
    by (simp add: peeked_offsets_def b(1))
  have win: "peeked_offsets r = window (ring_desc s1) (cons_index s1) (unat (cs_peeked (sr_consumer r)))"
    using peeked_window [OF inv1] by (simp add: s1_def)
  have st: "st = OK"
    using rel b(2) ring_invD(2) [OF inv1] cnt
    by (auto simp: consumer_release_def Let_def s1_def split: if_splits)
  have xs: "xs = map (rs_slots s1) (take (unat (sb_count b)) (peeked_offsets (rs_consumer s1)))"
    by (simp add: xs_def po s1_def cnt win)
  have "ring_step s Silent s1" unfolding s1_def by (rule step_peek [OF peek loads])
  moreover have "ring_step s1 (Taken xs) t"
  proof -
    have "ring_step s1 (Taken xs) (s1\<lparr>rs_consumer := r', rs_head := (case store of Some v \<Rightarrow> v | None \<Rightarrow> rs_head s1)\<rparr>)"
      by (rule step_release [of "sb_count b" s1 st]) (simp_all add: rel st xs, simp add: s1_def rel st)
    moreover have "s1\<lparr>rs_consumer := r', rs_head := (case store of Some v \<Rightarrow> v | None \<Rightarrow> rs_head s1)\<rparr> = t"
      by (rule ring_sys.equality) (simp_all add: t_def s1_def split: option.split)
    ultimately show ?thesis by simp
  qed
  ultimately have "chan_run ring_step s [Silent, Taken xs] t"
    using chan_run_append [OF chan_run_one chan_run_one, of ring_step s Silent s1 "Taken xs" t] by simp
  moreover have "cs_peeked (sr_consumer r') = 0"
    using rel st by (auto simp: consumer_release_def Let_def split: if_splits)
  moreover have "length xs = unat (sb_count b)" by (simp add: xs_def po win cnt)
  ultimately show ?thesis using st b(2,3) cnt by (simp add: word_le_nat_alt)
qed

end
