(* ===== verification/Descriptors.thy ===== *)
theory Descriptors
  imports Ugdr_Prelude
begin

unbundle bit_operations_syntax

text \<open>
  \<^verbatim>\<open>queue/descriptors.hpp\<close>: the entries that travel through the rings and the size of the slot each
  of them needs. A send or receive slot is its header followed by an array of \<open>SharedSge\<close>; the
  array is a function from index to entry, since the code addresses it as \<open>header + 1\<close> without a
  length, and \<open>slot_stride\<close> is what bounds the indices (\<open>slot_stride_holds_sges\<close>); posting
  writes no entry outside its slot when the stride was computed for the queue (\<open>valid_send_fits\<close> of \<open>Wr_Posting\<close>).
\<close>

record shared_sge =
  sge_address :: u64
  sge_length :: u32
  sge_lkey :: u32

record send_wqe_header =
  sh_wr_id :: u64
  sh_remote_address :: u64
  sh_rkey :: u32
  sh_opcode :: u32
  sh_send_flags :: u32
  sh_immediate_data :: u32
  sh_sge_count :: u32
  sh_reserved :: u32

record receive_wqe_header =
  rh_wr_id :: u64
  rh_sge_count :: u32
  rh_reserved :: u32

record completion_entry =
  ce_wr_id :: u64
  ce_status :: u32
  ce_opcode :: u32
  ce_byte_length :: u32
  ce_immediate_data :: u32
  ce_qp_num :: u32
  ce_flags :: u32

record send_slot =
  ss_header :: send_wqe_header
  ss_sges :: "nat \<Rightarrow> shared_sge"

record receive_slot =
  rs_header :: receive_wqe_header
  rs_sges :: "nat \<Rightarrow> shared_sge"

abbreviation sizeof_shared_sge :: nat where "sizeof_shared_sge \<equiv> 16"
abbreviation sizeof_send_wqe_header :: nat where "sizeof_send_wqe_header \<equiv> 40"
abbreviation sizeof_receive_wqe_header :: nat where "sizeof_receive_wqe_header \<equiv> 16"
abbreviation sizeof_completion_entry :: nat where "sizeof_completion_entry \<equiv> 32"
abbreviation kSlotAlignment :: u64 where "kSlotAlignment \<equiv> 64"

text \<open>\<open>~(kSlotAlignment - 1U)\<close> is computed in \<open>std::uint32_t\<close> and zero-extended by the conjunction
  with the \<open>std::size_t\<close> operand.\<close>

definition aligned_slot_stride :: "u64 \<Rightarrow> u32 \<Rightarrow> bool \<Rightarrow> int + u32" where
  "aligned_slot_stride header_bytes max_sge have_out =
     (if \<not> have_out then Inl EINVAL
      else if ucast max_sge > (- 1 - header_bytes) div of_nat sizeof_shared_sge then Inl EOVERFLOW
      else
        let raw = header_bytes + ucast max_sge * of_nat sizeof_shared_sge
        in if raw > - 1 - (kSlotAlignment - 1) then Inl EOVERFLOW
           else
             let aligned = (raw + kSlotAlignment - 1) AND ucast (NOT (64 - 1) :: u32)
             in if aligned > 0xffffffff then Inl EOVERFLOW else Inr (ucast aligned))"

definition send_slot_stride :: "u32 \<Rightarrow> bool \<Rightarrow> int + u32" where
  "send_slot_stride max_sge have_out = aligned_slot_stride (of_nat sizeof_send_wqe_header) max_sge have_out"

definition receive_slot_stride :: "u32 \<Rightarrow> bool \<Rightarrow> int + u32" where
  "receive_slot_stride max_sge have_out = aligned_slot_stride (of_nat sizeof_receive_wqe_header) max_sge have_out"

definition completion_slot_stride :: u32 where
  "completion_slot_stride = 64"

section \<open>What the alignment mask does\<close>

lemma align_mask_value: "(ucast (NOT (64 - 1) :: u32) :: u64) = push_bit 6 (mask 26)"
  by (simp add: mask_numeral)

lemma align_mask: "(x :: u64) AND ucast (NOT (64 - 1) :: u32) = push_bit 6 (take_bit 26 (drop_bit 6 x))"
  unfolding align_mask_value
  by (rule bit_word_eqI) (auto simp: bit_simps)

lemma unat_align_mask: "unat ((x :: u64) AND ucast (NOT (64 - 1) :: u32)) = unat x div 64 mod 2 ^ 26 * 64"
proof -
  have "unat (drop_bit 6 x) = unat x div 64"
    by (simp add: drop_bit_eq_div unat_div)
  then have t: "unat (take_bit 26 (drop_bit 6 x)) = unat x div 64 mod 2 ^ 26"
    by (simp add: take_bit_eq_mod unat_mod)
  have "push_bit 6 (take_bit 26 (drop_bit 6 x)) = of_nat (unat (take_bit 26 (drop_bit 6 x)) * 64)"
    by (simp add: push_bit_eq_mult)
  moreover have "unat (take_bit 26 (drop_bit 6 x)) * 64 < 18446744073709551616"
    unfolding t using mod_less_divisor [of "2 ^ 26" "unat x div 64"] by simp
  ultimately have "unat (push_bit 6 (take_bit 26 (drop_bit 6 x))) = unat (take_bit 26 (drop_bit 6 x)) * 64"
    by (simp only: unat_of_nat_u64)
  then show ?thesis by (simp only: align_mask t)
qed

lemma aligned_slot_stride_value:
  assumes h: "unat h \<le> 64"
  shows "aligned_slot_stride h m True =
    Inr (of_nat ((unat h + unat m * 16 + 63) div 64 mod 2 ^ 26 * 64))"
proof -
  let ?raw = "h + ucast m * of_nat sizeof_shared_sge"
  have raw: "unat ?raw = unat h + unat m * 16"
  proof -
    have "?raw = of_nat (unat h + unat m * 16)" by simp
    then show ?thesis using h unat_u32_bound [of m] by (simp only: unat_of_nat_u64)
  qed
  have c1: "\<not> ucast m > (- 1 - h) div of_nat sizeof_shared_sge"
  proof -
    have "unat (- 1 - h) = 18446744073709551615 - unat h"
      by (subst unat_sub) (simp_all add: unsigned_minus_1_eq_mask mask_numeral)
    then have "unat ((- 1 - h) div of_nat sizeof_shared_sge) = (18446744073709551615 - unat h) div 16"
      by (simp add: unat_div)
    then show ?thesis using h unat_u32_bound [of m] by (simp add: word_less_nat_alt)
  qed
  have c2: "\<not> ?raw > - 1 - (kSlotAlignment - 1)"
    using raw h unat_u32_bound [of m] by (simp add: word_less_nat_alt)
  have sum: "unat (?raw + kSlotAlignment - 1) = unat h + unat m * 16 + 63"
  proof -
    have "?raw + kSlotAlignment - 1 = of_nat (unat h + unat m * 16 + 63)" by simp
    then show ?thesis using h unat_u32_bound [of m] by (simp only: unat_of_nat_u64)
  qed
  define al where "al = (?raw + kSlotAlignment - 1) AND ucast (NOT (64 - 1) :: u32)"
  have al: "unat al = (unat h + unat m * 16 + 63) div 64 mod 2 ^ 26 * 64"
    unfolding al_def by (simp only: unat_align_mask sum)
  have "(unat h + unat m * 16 + 63) div 64 mod 2 ^ 26 < 2 ^ 26" by simp
  then have small: "unat al \<le> 4294967232" unfolding al by simp
  have c3: "\<not> al > 0xffffffff" using small by (simp add: word_less_nat_alt)
  have "aligned_slot_stride h m True = Inr (ucast al)"
    unfolding aligned_slot_stride_def Let_def al_def [symmetric] using c1 c2 c3 by (simp only: if_False simp_thms)
  moreover have "(ucast al :: u32) = of_nat (unat al)" by simp
  ultimately show ?thesis by (simp only: al)
qed

section \<open>Properties\<close>

text \<open>A slot is large enough for what the posting code writes into it: for up to
  \<open>2 ^ 28 - 7\<close> scatter/gather entries the strides of send and receive slots are multiples of 64
  that hold the header followed by \<open>max_sge\<close> entries of 16 bytes, with less than 64 bytes unused.\<close>

theorem slot_stride_holds_sges:
  assumes "unat max_sge \<le> 268435449"
  shows "\<exists>s r. send_slot_stride max_sge True = Inr s \<and> receive_slot_stride max_sge True = Inr r \<and>
    unat s mod 64 = 0 \<and> sizeof_send_wqe_header + unat max_sge * sizeof_shared_sge \<le> unat s \<and>
    unat s < sizeof_send_wqe_header + unat max_sge * sizeof_shared_sge + 64 \<and>
    unat r mod 64 = 0 \<and> sizeof_receive_wqe_header + unat max_sge * sizeof_shared_sge \<le> unat r \<and>
    unat r < sizeof_receive_wqe_header + unat max_sge * sizeof_shared_sge + 64"
proof -
  have fit: "\<exists>w. aligned_slot_stride h max_sge True = Inr w \<and> unat w mod 64 = 0 \<and>
      unat h + unat max_sge * 16 \<le> unat w \<and> unat w < unat h + unat max_sge * 16 + 64"
    if h: "unat h \<le> 40" for h
  proof -
    define n where "n = (unat h + unat max_sge * 16 + 63) div 64"
    have n: "n < 2 ^ 26" using h assms unfolding n_def by (simp add: div_less_iff_less_mult)
    have "aligned_slot_stride h max_sge True = Inr (of_nat (n * 64))"
      using aligned_slot_stride_value [of h max_sge] h n by (simp add: n_def)
    moreover have "unat (of_nat (n * 64) :: u32) = n * 64" using n by (intro unat_of_nat_u32) simp
    moreover have "unat h + unat max_sge * 16 \<le> n * 64" "n * 64 < unat h + unat max_sge * 16 + 64"
      unfolding n_def by linarith+
    ultimately show ?thesis by (intro exI [of _ "of_nat (n * 64)"]) simp
  qed
  from fit [of "of_nat sizeof_send_wqe_header"] fit [of "of_nat sizeof_receive_wqe_header"]
  show ?thesis by (auto simp: send_slot_stride_def receive_slot_stride_def)
qed

theorem slot_stride_holds_sges_witness:
  "unat (4 :: u32) \<le> 268435449 \<and> (\<exists>s. send_slot_stride 4 True = Inr s \<and> 40 + 4 * 16 \<le> unat s)"
  using slot_stride_holds_sges [of 4] by auto

text \<open>The overflow test of \<open>aligned_slot_stride\<close> never fires: the mask
  \<open>~(kSlotAlignment - 1U)\<close> is a 32-bit value, so the upper half of the rounded size is cleared
  before it is compared with the 32-bit maximum. Asking for \<open>2 ^ 28\<close> entries yields a stride of
  64 bytes, which holds one.\<close>

theorem slot_stride_overflow_undetected:
  "(\<forall>max_sge. \<exists>s r. send_slot_stride max_sge True = Inr s \<and> receive_slot_stride max_sge True = Inr r) \<and>
   send_slot_stride 268435456 True = Inr 64"
  by (simp add: send_slot_stride_def receive_slot_stride_def aligned_slot_stride_value)

end
