(* ===== verification/Wr_Posting.thy ===== *)
theory Wr_Posting
  imports Ring_Clients Descriptors
begin

unbundle bit_operations_syntax

text \<open>
  \<^verbatim>\<open>api/wr_posting.cpp\<close>: posting a chain of work requests to a send or receive queue. A chain
  linked through \<open>next\<close> is a list of work requests; \<open>*bad_wr\<close> is the part of the list that starts
  at the request it points to. A scatter/gather list is \<open>None\<close> for \<open>nullptr\<close>. The work happens on
  the ring of \<open>Ring_System\<close>, so that the consumer may run between the reservations of one call.
\<close>

section \<open>Work requests\<close>

record ugdr_send_wr =
  sw_wr_id :: u64
  sw_sg_list :: "shared_sge list option"
  sw_num_sge :: int
  sw_opcode :: int
  sw_send_flags :: u32
  sw_imm_data :: u32
  sw_remote_addr :: u64
  sw_rkey :: u32

record ugdr_recv_wr =
  rw_wr_id :: u64
  rw_sg_list :: "shared_sge list option"
  rw_num_sge :: int

abbreviation UGDR_WR_RDMA_WRITE :: int where "UGDR_WR_RDMA_WRITE \<equiv> 0"
abbreviation UGDR_WR_RDMA_WRITE_WITH_IMM :: int where "UGDR_WR_RDMA_WRITE_WITH_IMM \<equiv> 1"
abbreviation UGDR_SEND_SIGNALED :: u32 where "UGDR_SEND_SIGNALED \<equiv> 2"

definition valid_sge_list :: "int \<Rightarrow> shared_sge list option \<Rightarrow> u32 \<Rightarrow> bool" where
  "valid_sge_list num_sge sg_list max_sge \<longleftrightarrow>
     num_sge \<ge> 0 \<and> (of_int num_sge :: u32) \<le> max_sge \<and> (num_sge = 0 \<or> sg_list \<noteq> None)"

definition valid_send_wr :: "u32 \<Rightarrow> ugdr_send_wr \<Rightarrow> bool" where
  "valid_send_wr max_sge wr \<longleftrightarrow>
     (sw_opcode wr = UGDR_WR_RDMA_WRITE \<or> sw_opcode wr = UGDR_WR_RDMA_WRITE_WITH_IMM) \<and>
     sw_send_flags wr AND NOT UGDR_SEND_SIGNALED = 0 \<and>
     valid_sge_list (sw_num_sge wr) (sw_sg_list wr) max_sge"

definition valid_receive_wr :: "u32 \<Rightarrow> ugdr_recv_wr \<Rightarrow> bool" where
  "valid_receive_wr max_sge wr \<longleftrightarrow> valid_sge_list (rw_num_sge wr) (rw_sg_list wr) max_sge"

text \<open>\<open>destination[index] = sg_list[index]\<close> for \<open>index < num_sge\<close>.\<close>

definition copy_sges :: "shared_sge list option \<Rightarrow> int \<Rightarrow> (nat \<Rightarrow> shared_sge) \<Rightarrow> nat \<Rightarrow> shared_sge" where
  "copy_sges sg_list num_sge dst =
     (\<lambda>i. case sg_list of Some sges \<Rightarrow> if i < nat num_sge then sges ! i else dst i | None \<Rightarrow> dst i)"

definition encode_send :: "send_slot \<Rightarrow> ugdr_send_wr \<Rightarrow> send_slot" where
  "encode_send slot wr =
     \<lparr>ss_header = \<lparr>sh_wr_id = sw_wr_id wr, sh_remote_address = sw_remote_addr wr, sh_rkey = sw_rkey wr,
        sh_opcode = of_int (sw_opcode wr), sh_send_flags = sw_send_flags wr,
        sh_immediate_data = (if sw_opcode wr = UGDR_WR_RDMA_WRITE_WITH_IMM then sw_imm_data wr else 0),
        sh_sge_count = of_int (sw_num_sge wr), sh_reserved = 0\<rparr>,
      ss_sges = copy_sges (sw_sg_list wr) (sw_num_sge wr) (ss_sges slot)\<rparr>"

definition encode_receive :: "receive_slot \<Rightarrow> ugdr_recv_wr \<Rightarrow> receive_slot" where
  "encode_receive slot wr =
     \<lparr>rs_header = \<lparr>rh_wr_id = rw_wr_id wr, rh_sge_count = of_int (rw_num_sge wr), rh_reserved = 0\<rparr>,
      rs_sges = copy_sges (rw_sg_list wr) (rw_num_sge wr) (rs_sges slot)\<rparr>"

section \<open>Posting a chain\<close>

lemma reserve_count_pos:
  assumes "producer_reserve t h1 h2 m hb ring = (st, r, Some b)"
  shows "st = OK \<and> 0 < length (batch_offsets stride b)"
proof -
  define ring1 where "ring1 = producer_init t h1 ring"
  have desc: "sr_queue_descriptor ring1 = sr_queue_descriptor ring"
    by (simp add: ring1_def producer_init_def Let_def)
  have cong: "make_batch (ring1\<lparr>sr_producer := q\<rparr>) start count = make_batch ring start count" for q start count
    by (rule make_batch_cong) (simp add: desc)
  have nz: "(ucast (min (ucast m) x) :: u32) \<noteq> 0" if "m \<noteq> 0" "x \<noteq> 0" for x :: u64
  proof -
    have "min (ucast m) x \<le> (ucast m :: u64)" by simp
    from unat_ucast_down [OF this] have "unat (ucast (min (ucast m) x) :: u32) = min (unat m) (unat x)"
      by (simp add: unat_min_word)
    then have "0 < unat (ucast (min (ucast m) x) :: u32)" using that by (simp add: word_neq_0_unat)
    then show ?thesis by (metis unat_0 less_irrefl)
  qed
  define p1 where "p1 = sr_producer ring1"
  define cap where "cap = (ucast (qd_capacity (sr_queue_descriptor ring)) :: u64)"
  define reload where "reload = (cap - (ps_local_tail p1 - ps_cached_head p1) < ucast m)"
  define p2 where "p2 = (if reload then p1\<lparr>ps_cached_head := h2\<rparr> else p1)"
  define avail where "avail = cap - (ps_local_tail p2 - ps_cached_head p2)"
  have "st = OK \<and> b = make_batch ring (ps_local_index p2) (ucast (min (ucast m) avail)) \<and> m \<noteq> 0 \<and> avail \<noteq> 0"
    using assms unfolding producer_reserve_def Let_def ring1_def [symmetric] p1_def [symmetric]
      cap_def [symmetric] reload_def [symmetric] p2_def [symmetric] avail_def [symmetric] cong
    by (simp only: prod.inject option.inject option.distinct simp_thms split: if_split_asm) blast
  then have ok: "st = OK" and "\<exists>start count. b = make_batch ring start count \<and> count \<noteq> 0"
    using nz by blast+
  then obtain start count where b: "b = make_batch ring start count" "count \<noteq> 0" by blast
  let ?f = "min count (qd_capacity (sr_queue_descriptor ring) - start)"
  have "length (batch_offsets stride b) \<ge> 1"
  proof (cases "?f = count")
    case True
    then show ?thesis using b(2)
      by (simp add: b(1) make_batch_def Let_def batch_offsets_def span_offsets_def Suc_le_eq word_neq_0_unat)
  next
    case False
    then have "count - ?f \<noteq> 0" by auto
    then have "0 < unat (count - ?f)" by (simp only: word_neq_0_unat)
    then show ?thesis using False
      by (simp add: b(1) make_batch_def Let_def batch_offsets_def span_offsets_def Suc_le_eq word_neq_0_unat)
  qed
  then show ?thesis using ok by linarith
qed

lemma fill_slots_progress:
  "fill_slots valid enc offs ws slots = (True, n, rest, slots') \<Longrightarrow> 0 < length offs \<Longrightarrow> ws \<noteq> [] \<Longrightarrow>
   length rest < length ws"
proof (induction valid enc offs ws slots arbitrary: n rest slots' rule: fill_slots.induct)
  case (3 valid enc off offs w ws slots)
  then obtain m where m: "fill_slots valid enc offs ws (slots(off := enc (slots off) w)) = (True, m, rest, slots')"
    and v: "valid w"
    by (auto split: prod.splits if_splits)
  show ?case
  proof (cases "offs = [] \<or> ws = []")
    case True
    then have "rest = ws" using m by (cases offs; cases ws) auto
    then show ?thesis by simp
  next
    case False
    then show ?thesis using 3(1) [OF _ m] v by simp
  qed
qed auto

lemma post_progress:
  "producer_reserve t h1 h2 m hb ring = (st, r, Some b) \<Longrightarrow>
   fill_batch valid enc stride b ws slots = (True, n, rest, slots') \<Longrightarrow> ws \<noteq> [] \<Longrightarrow>
   length rest < length ws"
  using reserve_count_pos fill_slots_progress by (fastforce simp: fill_batch_offsets)

text \<open>The \<open>while\<close> loop of \<open>post_chain\<close>; \<open>k\<close> counts the iterations, for the environment.\<close>

function post_loop ::
  "('w \<Rightarrow> bool) \<Rightarrow> ('a \<Rightarrow> 'w \<Rightarrow> 'a) \<Rightarrow> 'a ring_env \<Rightarrow> nat \<Rightarrow> 'w list \<Rightarrow> 'a ring_sys \<Rightarrow> int \<times> 'w list \<times> 'a ring_sys" where
  "post_loop valid enc env k current s =
     (if current = [] then (OK, [], s)
      else case env k s of (s0, h1, h2) \<Rightarrow>
        (case producer_reserve (rs_tail s0) h1 h2 (qd_capacity (ring_desc s0)) True (rs_producer s0) of
           (reserve_status, r, None) \<Rightarrow>
             ((if reserve_status = EAGAIN then ENOMEM else reserve_status), current, s0\<lparr>rs_producer := r\<rparr>)
         | (reserve_status, r, Some batch) \<Rightarrow>
             (case fill_batch valid enc (unat (qd_slot_stride (ring_desc s0))) batch current (rs_slots s0) of
                (ok, accepted, rest, slots) \<Rightarrow>
                  (case producer_publish (of_nat accepted) r of
                     (publish_status, store, r') \<Rightarrow>
                       let s1 = s0\<lparr>rs_producer := r', rs_slots := slots,
                                   rs_tail := (case store of Some v \<Rightarrow> v | None \<Rightarrow> rs_tail s0)\<rparr>
                       in if publish_status \<noteq> OK then (publish_status, rest, s1)
                          else if \<not> ok then (EINVAL, rest, s1)
                          else post_loop valid enc env (Suc k) rest s1))))"
  by pat_completeness auto

termination
  by (relation "measure (\<lambda>(valid, enc, env, k, current, s). length current)")
     (auto dest: post_progress [OF sym sym])

definition post_chain ::
  "('w \<Rightarrow> bool) \<Rightarrow> ('a \<Rightarrow> 'w \<Rightarrow> 'a) \<Rightarrow> 'a ring_env \<Rightarrow> bool \<Rightarrow> 'w list \<Rightarrow> 'a ring_sys \<Rightarrow> int \<times> 'w list \<times> 'a ring_sys" where
  "post_chain valid enc env have_bad_wr wr s =
     (if wr = [] \<or> \<not> have_bad_wr \<or> \<not> ring_valid (rs_producer s) then (EINVAL, [], s)
      else post_loop valid enc env 0 wr s)"

definition post_send_chain ::
  "send_slot ring_env \<Rightarrow> u32 \<Rightarrow> bool \<Rightarrow> ugdr_send_wr list \<Rightarrow> send_slot ring_sys \<Rightarrow>
   int \<times> ugdr_send_wr list \<times> send_slot ring_sys" where
  "post_send_chain env max_sge have_bad_wr wr s =
     (if qd_kind (ring_desc s) \<noteq> qk_send then (EINVAL, [], s)
      else post_chain (valid_send_wr max_sge) encode_send env have_bad_wr wr s)"

definition post_receive_chain ::
  "receive_slot ring_env \<Rightarrow> u32 \<Rightarrow> bool \<Rightarrow> ugdr_recv_wr list \<Rightarrow> receive_slot ring_sys \<Rightarrow>
   int \<times> ugdr_recv_wr list \<times> receive_slot ring_sys" where
  "post_receive_chain env max_sge have_bad_wr wr s =
     (if qd_kind (ring_desc s) \<noteq> qk_receive then (EINVAL, [], s)
      else post_chain (valid_receive_wr max_sge) encode_receive env have_bad_wr wr s)"

declare post_loop.simps [simp del]

section \<open>What posting does to the ring\<close>

text \<open>The work request a slot stands for, as the consumer reads it: the header and its first
  \<open>sge_count\<close> entries.\<close>

definition send_view :: "send_slot \<Rightarrow> send_wqe_header \<times> shared_sge list" where
  "send_view slot = (ss_header slot, map (ss_sges slot) [0..<unat (sh_sge_count (ss_header slot))])"

definition receive_view :: "receive_slot \<Rightarrow> receive_wqe_header \<times> shared_sge list" where
  "receive_view slot = (rs_header slot, map (rs_sges slot) [0..<unat (rh_sge_count (rs_header slot))])"

text \<open>The same, straight from the work request.\<close>

definition send_entry :: "ugdr_send_wr \<Rightarrow> send_wqe_header \<times> shared_sge list" where
  "send_entry wr =
     (\<lparr>sh_wr_id = sw_wr_id wr, sh_remote_address = sw_remote_addr wr, sh_rkey = sw_rkey wr,
       sh_opcode = of_int (sw_opcode wr), sh_send_flags = sw_send_flags wr,
       sh_immediate_data = (if sw_opcode wr = UGDR_WR_RDMA_WRITE_WITH_IMM then sw_imm_data wr else 0),
       sh_sge_count = of_int (sw_num_sge wr), sh_reserved = 0\<rparr>,
      case sw_sg_list wr of Some sges \<Rightarrow> take (nat (sw_num_sge wr)) sges | None \<Rightarrow> [])"

definition receive_entry :: "ugdr_recv_wr \<Rightarrow> receive_wqe_header \<times> shared_sge list" where
  "receive_entry wr =
     (\<lparr>rh_wr_id = rw_wr_id wr, rh_sge_count = of_int (rw_num_sge wr), rh_reserved = 0\<rparr>,
      case rw_sg_list wr of Some sges \<Rightarrow> take (nat (rw_num_sge wr)) sges | None \<Rightarrow> [])"

text \<open>The caller's promise the C interface cannot check: \<open>num_sge\<close> is an \<open>int\<close> and \<open>sg_list\<close> points to
  at least that many entries.\<close>

definition sg_list_readable :: "int \<Rightarrow> shared_sge list option \<Rightarrow> bool" where
  "sg_list_readable num_sge sg_list \<longleftrightarrow>
     num_sge < 2 ^ 31 \<and> (case sg_list of Some sges \<Rightarrow> num_sge \<le> int (length sges) | None \<Rightarrow> True)"

lemma copy_sges_view:
  assumes "valid_sge_list n sg max_sge" "sg_list_readable n sg"
  shows "map (copy_sges sg n dst) [0..<unat (of_int n :: u32)]
       = (case sg of Some sges \<Rightarrow> take (nat n) sges | None \<Rightarrow> [])"
proof -
  have n: "0 \<le> n" "n < 2 ^ 31" using assms by (simp_all add: valid_sge_list_def sg_list_readable_def)
  then have "unat (of_int n :: u32) = nat n"
    by (simp add: unat_eq_nat_uint uint_word_of_int_eq take_bit_int_eq_self)
  then show ?thesis
    using assms n
    by (auto simp: copy_sges_def valid_sge_list_def sg_list_readable_def list_eq_iff_nth_eq split: option.splits)
qed

lemma encode_send_view:
  "valid_send_wr max_sge wr \<Longrightarrow> sg_list_readable (sw_num_sge wr) (sw_sg_list wr) \<Longrightarrow>
   send_view (encode_send slot wr) = send_entry wr"
  using copy_sges_view [of "sw_num_sge wr" "sw_sg_list wr" max_sge "ss_sges slot"]
  by (simp add: send_view_def encode_send_def send_entry_def valid_send_wr_def)

lemma encode_receive_view:
  "valid_receive_wr max_sge wr \<Longrightarrow> sg_list_readable (rw_num_sge wr) (rw_sg_list wr) \<Longrightarrow>
   receive_view (encode_receive slot wr) = receive_entry wr"
  using copy_sges_view [of "rw_num_sge wr" "rw_sg_list wr" max_sge "rs_sges slot"]
  by (simp add: receive_view_def encode_receive_def receive_entry_def valid_receive_wr_def)

text \<open>The bytes of a slot that an encoder writes, and that they are inside the slot when the stride is the
  one computed for the largest number of entries.\<close>

definition send_slot_bytes :: "ugdr_send_wr \<Rightarrow> nat" where
  "send_slot_bytes wr = sizeof_send_wqe_header + nat (sw_num_sge wr) * sizeof_shared_sge"

definition receive_slot_bytes :: "ugdr_recv_wr \<Rightarrow> nat" where
  "receive_slot_bytes wr = sizeof_receive_wqe_header + nat (rw_num_sge wr) * sizeof_shared_sge"

lemma valid_sge_count:
  assumes "valid_sge_list n sg max_sge" "sg_list_readable n sg"
  shows "nat n \<le> unat max_sge"
proof -
  have n: "0 \<le> n" "n < 2 ^ 31" using assms by (simp_all add: valid_sge_list_def sg_list_readable_def)
  then have "unat (of_int n :: u32) = nat n" by (simp add: unat_eq_nat_uint uint_word_of_int_eq take_bit_int_eq_self)
  then show ?thesis using assms(1) by (simp add: valid_sge_list_def word_le_nat_alt)
qed

lemma valid_send_fits:
  assumes "valid_send_wr max_sge wr" "sg_list_readable (sw_num_sge wr) (sw_sg_list wr)"
    and "unat max_sge \<le> 268435449" "send_slot_stride max_sge True = Inr stride"
  shows "send_slot_bytes wr \<le> unat stride"
proof -
  have "nat (sw_num_sge wr) \<le> unat max_sge" using assms(1,2) valid_sge_count by (auto simp: valid_send_wr_def)
  then show ?thesis using slot_stride_holds_sges [OF assms(3)] assms(4) by (auto simp: send_slot_bytes_def)
qed

lemma valid_receive_fits:
  assumes "valid_receive_wr max_sge wr" "sg_list_readable (rw_num_sge wr) (rw_sg_list wr)"
    and "unat max_sge \<le> 268435449" "receive_slot_stride max_sge True = Inr stride"
  shows "receive_slot_bytes wr \<le> unat stride"
proof -
  have "nat (rw_num_sge wr) \<le> unat max_sge" using assms(1,2) valid_sge_count by (auto simp: valid_receive_wr_def)
  then show ?thesis using slot_stride_holds_sges [OF assms(3)] assms(4) by (auto simp: receive_slot_bytes_def)
qed

text \<open>Why a chain stops before its end for lack of room: after \<open>n\<close> entries had been sent the head was loaded,
  and by that value every slot up to the tail that the call leaves was in use.\<close>

definition found_full :: "'a ring_env \<Rightarrow> nat \<Rightarrow> 'a ring_sys \<Rightarrow> 'a ring_sys \<Rightarrow> bool" where
  "found_full env n s t \<longleftrightarrow>
     (\<exists>k es s1 s0 h1 h2. chan_run ring_step s es s1 \<and> length (concat (map sent_of es)) = n \<and> env k s1 = (s0, h1, h2) \<and>
        unat (rs_tail s0 - h2) = ring_cap s0 \<and> rs_tail t = rs_tail s0)"

lemma found_full_later:
  assumes "found_full env n s1 t" "chan_run ring_step s es s1" "length (concat (map sent_of es)) = m"
  shows "found_full env (m + n) s t"
proof -
  obtain k fs s2 s0 h1 h2 where f: "chan_run ring_step s1 fs s2" "length (concat (map sent_of fs)) = n" "env k s2 = (s0, h1, h2)"
      "unat (rs_tail s0 - h2) = ring_cap s0" "rs_tail t = rs_tail s0"
    using assms(1) unfolding found_full_def by blast
  moreover have "chan_run ring_step s (es @ fs) s2" by (rule chan_run_append [OF assms(2) f(1)])
  moreover have "length (concat (map sent_of (es @ fs))) = m + n" using assms(3) f(2) by simp
  ultimately show ?thesis unfolding found_full_def by blast
qed

text \<open>The loop, for any validator and encoder, in terms of the ring's contract: a run of the ring
  that sends the encodings of an accepted prefix of the chain.\<close>

lemma post_loop_spec:
  assumes env: "env_ok env"
    and view: "\<And>slot w. valid w \<Longrightarrow> readable w \<Longrightarrow> view (enc slot w) = entry w"
  shows "post_loop valid enc env k wrs s = (st, rest, t) \<Longrightarrow> ring_inv s \<Longrightarrow>
    ps_reserved (sr_producer (rs_producer s)) = 0 \<Longrightarrow> list_all readable wrs \<Longrightarrow>
    ring_inv t \<and> ps_reserved (sr_producer (rs_producer t)) = 0 \<and>
    (\<exists>acc es. wrs = acc @ rest \<and> list_all valid acc \<and> chan_run ring_step s es t \<and>
       map view (concat (map sent_of es)) = map entry acc) \<and>
    (st = OK \<and> rest = [] \<or> st = EINVAL \<and> rest \<noteq> [] \<and> \<not> valid (hd rest) \<or> st = ENOMEM \<and> rest \<noteq> [] \<and> found_full env (length wrs - length rest) s t)"
proof (induction "length wrs" arbitrary: k wrs s st rest t rule: less_induct)
  case less
  show ?case
  proof (cases "wrs = []")
    case True
    then show ?thesis using less.prems by (auto simp: post_loop.simps intro: run_nil)
  next
    case False
    obtain s0 h1 h2 where e: "env k s = (s0, h1, h2)" by (cases "env k s") auto
    note E = env_okD [OF env less.prems(2) e]
    note loads = E(2,3)
    obtain ces where cr: "chan_run consumer_step s ces s0" using E(1) by blast
    note C = consumer_run_ring [OF cr]
    have inv0: "ring_inv s0" using C less.prems(2) ring_run_inv by blast
    have res0: "ps_reserved (sr_producer (rs_producer s0)) = 0" using C less.prems(3) by simp
    obtain rst r bo where res: "producer_reserve (rs_tail s0) h1 h2 (qd_capacity (ring_desc s0)) True (rs_producer s0) = (rst, r, bo)"
      by (cases "producer_reserve (rs_tail s0) h1 h2 (qd_capacity (ring_desc s0)) True (rs_producer s0)") auto
    note R = reserve_spec [OF inv0 res loads]
    have cap: "qd_capacity (ring_desc s0) \<noteq> 0" using ring_invD(4) [OF inv0] by auto
    show ?thesis
    proof (cases bo)
      case None
      then have rst: "rst = EAGAIN" and full: "unat (rs_tail s0 - h2) = ring_cap s0" using R res0 cap by auto
      then have out: "st = ENOMEM" "rest = wrs" "t = s0\<lparr>rs_producer := r\<rparr>"
        using less.prems(1) False e res None by (auto simp: post_loop.simps)
      have "ring_step s0 Silent t" unfolding out by (rule step_reserve [OF res loads])
      then have "chan_run ring_step s (ces @ [Silent]) t"
        using C by (blast intro: chan_run_append chan_run_one)
      moreover have "ps_reserved (sr_producer (rs_producer t)) = 0"
        using reserve_none_keeps_reserved [OF res [unfolded None]] res0 by (simp add: out)
      moreover have "map view (concat (map sent_of (ces @ [Silent]))) = map entry []" using C by simp
      moreover have "wrs = [] @ rest" "list_all valid []" "ring_inv t" using R by (simp_all add: out)
      moreover have "found_full env (length wrs - length rest) s t"
        unfolding found_full_def using e full
        by (intro exI [of _ k] exI [of _ "[]"] exI [of _ s] exI [of _ s0] exI [of _ h1] exI [of _ h2]) (simp add: out run_nil)
      ultimately show ?thesis using False out by blast
    next
      case (Some b)
      then have rst: "rst = OK" using R by auto
      obtain ok n rst2 slots where fill:
        "fill_batch valid enc (unat (qd_slot_stride (ring_desc s0))) b wrs (rs_slots s0) = (ok, n, rst2, slots)"
        by (cases "fill_batch valid enc (unat (qd_slot_stride (ring_desc s0))) b wrs (rs_slots s0)") auto
      obtain pst store r' where pub: "producer_publish (of_nat n) r = (pst, store, r')"
        by (cases "producer_publish (of_nat n) r") auto
      define s1 where "s1 = s0\<lparr>rs_producer := r', rs_slots := slots,
                                rs_tail := (case store of Some v \<Rightarrow> v | None \<Rightarrow> rs_tail s0)\<rparr>"
      from batch_transaction [OF inv0 res [unfolded Some rst] loads fill pub]
      obtain offs es where B: "distinct offs" "fill_slots valid enc offs wrs (rs_slots s0) = (ok, n, rst2, slots)"
        "pst = OK" "ring_inv s1" "ps_reserved (sr_producer r') = 0" "chan_run ring_step s0 es s1"
        "concat (map sent_of es) = map slots (take n offs)"
        by (auto simp: s1_def)
      note F = fill_slots_spec [OF B(2,1)]
      have sent: "map view (concat (map sent_of (ces @ es))) = map entry (take n wrs)"
      proof -
        have "map view (map slots (take n offs)) = map entry (take n wrs)"
        proof (rule nth_equalityI)
          show "length (map view (map slots (take n offs))) = length (map entry (take n wrs))"
            using F by simp
          fix i assume "i < length (map view (map slots (take n offs)))"
          then have i: "i < n" "i < length offs" "i < length wrs" using F by auto
          have "map slots (take n offs) ! i = enc (rs_slots s0 (offs ! i)) (wrs ! i)"
            using F i by simp
          moreover have "valid (wrs ! i)" "readable (wrs ! i)"
            using F i less.prems(4) by (auto simp: list_all_length)
          ultimately show "map view (map slots (take n offs)) ! i = map entry (take n wrs) ! i"
            using view i by simp
        qed
        then show ?thesis using C B(7) by simp
      qed
      have run: "chan_run ring_step s (ces @ es) s1" using C B(6) by (blast intro: chan_run_append)
      have p1: "ps_reserved (sr_producer (rs_producer s1)) = 0" using B(5) by (simp add: s1_def)
      have split: "wrs = take n wrs @ rst2" "list_all valid (take n wrs)" using F by auto
      show ?thesis
      proof (cases ok)
        case False2: False
        have "st = EINVAL" "rest = rst2" "t = s1"
          using less.prems(1) False e res Some fill pub B(3) False2 rst
          by (auto simp: post_loop.simps s1_def)
        then show ?thesis using run sent split p1 B(4) F False2 by blast
      next
        case True
        have rec: "post_loop valid enc env (Suc k) rst2 s1 = (st, rest, t)"
          using less.prems(1) False e res Some fill pub B(3) True rst
          by (auto simp: post_loop.simps [of valid enc env k wrs s] s1_def)
        have "length rst2 < length wrs"
          using post_progress [OF res [unfolded Some], of valid enc _ wrs] fill True False by simp
        moreover have "list_all readable rst2"
          using less.prems(4) split(1) by (metis list_all_append)
        ultimately obtain acc es2 where I: "ring_inv t" "ps_reserved (sr_producer (rs_producer t)) = 0"
          "rst2 = acc @ rest" "list_all valid acc" "chan_run ring_step s1 es2 t"
          "map view (concat (map sent_of es2)) = map entry acc"
          "st = OK \<and> rest = [] \<or> st = EINVAL \<and> rest \<noteq> [] \<and> \<not> valid (hd rest) \<or> st = ENOMEM \<and> rest \<noteq> [] \<and> found_full env (length rst2 - length rest) s1 t"
          using less.hyps [OF _ rec B(4) p1] by blast
        have "wrs = (take n wrs @ acc) @ rest" "list_all valid (take n wrs @ acc)"
          using split I by auto
        moreover have "chan_run ring_step s ((ces @ es) @ es2) t"
          using chan_run_append [OF run I(5)] .
        moreover have "map view (concat (map sent_of ((ces @ es) @ es2))) = map entry (take n wrs @ acc)"
          using sent I(6) by (simp add: map_append concat_append)
        moreover have "found_full env (length wrs - length rest) s t" if "found_full env (length rst2 - length rest) s1 t"
        proof -
          have "length (concat (map sent_of (ces @ es))) = n" using arg_cong [OF sent, of length] F by simp
          moreover have "length wrs - length rest = n + (length rst2 - length rest)"
            using arg_cong [OF split(1), of length] I(3) F by simp
          ultimately show ?thesis using found_full_later [OF that run] by simp
        qed
        ultimately show ?thesis using I by blast
      qed
    qed
  qed
qed

section \<open>Properties\<close>

definition posted_ok ::
  "('a \<Rightarrow> 'v) \<Rightarrow> ('w \<Rightarrow> 'v) \<Rightarrow> ('w \<Rightarrow> bool) \<Rightarrow> ('w \<Rightarrow> nat) \<Rightarrow> 'a ring_env \<Rightarrow> 'a ring_sys \<Rightarrow> 'w list \<Rightarrow> int \<Rightarrow> 'w list \<Rightarrow> 'a ring_sys \<Rightarrow> bool" where
  "posted_ok view entry valid bytes env s wrs st rest t \<longleftrightarrow>
     (\<exists>acc es. wrs = acc @ rest \<and> list_all valid acc \<and> list_all (\<lambda>wr. bytes wr \<le> unat (qd_slot_stride (ring_desc s))) acc \<and>
        chan_run ring_step s es t \<and> map view (concat (map sent_of es)) = map entry acc) \<and>
     (st = OK \<and> rest = [] \<or> st = EINVAL \<and> rest \<noteq> [] \<and> \<not> valid (hd rest) \<or> st = ENOMEM \<and> rest \<noteq> [] \<and> found_full env (length wrs - length rest) s t)"

lemma post_loop_posted:
  assumes "env_ok env" "\<And>slot w. valid w \<Longrightarrow> readable w \<Longrightarrow> view (enc slot w) = entry w"
    and "\<And>w. valid w \<Longrightarrow> readable w \<Longrightarrow> bytes w \<le> unat (qd_slot_stride (ring_desc s))"
    and "post_loop valid enc env k wrs s = (st, rest, t)" "ring_inv s" "ps_reserved (sr_producer (rs_producer s)) = 0" "list_all readable wrs"
  shows "posted_ok view entry valid bytes env s wrs st rest t"
proof -
  obtain acc es where "wrs = acc @ rest" "list_all valid acc" "chan_run ring_step s es t" "map view (concat (map sent_of es)) = map entry acc"
    and st: "st = OK \<and> rest = [] \<or> st = EINVAL \<and> rest \<noteq> [] \<and> \<not> valid (hd rest) \<or> st = ENOMEM \<and> rest \<noteq> [] \<and> found_full env (length wrs - length rest) s t"
    using post_loop_spec [where view = view and entry = entry, OF assms(1) assms(2) assms(4-7)] by blast
  moreover from this have "list_all (\<lambda>wr. bytes wr \<le> unat (qd_slot_stride (ring_desc s))) acc"
    using assms(3,7) by (auto simp: list_all_iff)
  ultimately show ?thesis unfolding posted_ok_def by blast
qed


text \<open>The same for a chain of receive requests on a receive queue.\<close>

theorem post_receive_chain_correct:
  assumes "env_ok env" "ring_inv s" "ps_reserved (sr_producer (rs_producer s)) = 0"
    and "qd_kind (ring_desc s) = qk_receive" "wrs \<noteq> []"
    and "list_all (\<lambda>wr. sg_list_readable (rw_num_sge wr) (rw_sg_list wr)) wrs"
    and "unat max_sge \<le> 268435449" "receive_slot_stride max_sge True = Inr (qd_slot_stride (ring_desc s))"
  shows "\<exists>st rest t. post_receive_chain env max_sge True wrs s = (st, rest, t) \<and>
    posted_ok receive_view receive_entry (valid_receive_wr max_sge) receive_slot_bytes env s wrs st rest t"
proof -
  obtain st rest t where p: "post_loop (valid_receive_wr max_sge) encode_receive env 0 wrs s = (st, rest, t)"
    by (cases "post_loop (valid_receive_wr max_sge) encode_receive env 0 wrs s") auto
  have "post_receive_chain env max_sge True wrs s = (st, rest, t)"
    using assms(4,5) ring_invD(1) [OF assms(2)] p by (simp add: post_receive_chain_def post_chain_def)
  moreover have "posted_ok receive_view receive_entry (valid_receive_wr max_sge) receive_slot_bytes env s wrs st rest t"
    by (rule post_loop_posted [OF assms(1) _ _ p assms(2,3,6)]) (simp_all add: encode_receive_view valid_receive_fits [OF _ _ assms(7,8)])
  ultimately show ?thesis by blast
qed

definition demo_wr :: "u64 \<Rightarrow> ugdr_send_wr" where
  "demo_wr i = \<lparr>sw_wr_id = i, sw_sg_list = Some [\<lparr>sge_address = 4096, sge_length = 16, sge_lkey = 1\<rparr>],
     sw_num_sge = 1, sw_opcode = UGDR_WR_RDMA_WRITE, sw_send_flags = 2, sw_imm_data = 0,
     sw_remote_addr = 8192, sw_rkey = 2\<rparr>"

definition demo_send_ring :: "send_slot ring_sys" where
  "demo_send_ring = ring_start demo_desc 0 0 (\<lambda>_. \<lparr>ss_header = fst (send_entry (demo_wr 0)), ss_sges = \<lambda>_. \<lparr>sge_address = 0, sge_length = 0, sge_lkey = 0\<rparr>\<rparr>)"

lemma demo_send_ring_inv: "ring_inv demo_send_ring"
  unfolding demo_send_ring_def
  by (rule ring_inv_start) (simp_all add: valid_descriptor_def demo_desc_def)


definition demo_recv_ring :: "receive_slot ring_sys" where
  "demo_recv_ring = ring_start (demo_desc\<lparr>qd_kind := qk_receive\<rparr>) 0 0
     (\<lambda>_. \<lparr>rs_header = \<lparr>rh_wr_id = 0, rh_sge_count = 0, rh_reserved = 0\<rparr>,
            rs_sges = \<lambda>_. \<lparr>sge_address = 0, sge_length = 0, sge_lkey = 0\<rparr>\<rparr>)"

lemma demo_recv_ring_inv: "ring_inv demo_recv_ring"
  unfolding demo_recv_ring_def
  by (rule ring_inv_start) (simp_all add: valid_descriptor_def demo_desc_def)

theorem post_receive_chain_correct_witness:
  "\<exists>st rest t. post_receive_chain quiet_env 1 True [\<lparr>rw_wr_id = 9, rw_sg_list = None, rw_num_sge = 0\<rparr>] demo_recv_ring = (st, rest, t) \<and>
     posted_ok receive_view receive_entry (valid_receive_wr 1) receive_slot_bytes quiet_env demo_recv_ring
       [\<lparr>rw_wr_id = 9, rw_sg_list = None, rw_num_sge = 0\<rparr>] st rest t"
  by (rule post_receive_chain_correct [OF quiet_env_ok demo_recv_ring_inv])
     (simp_all add: demo_recv_ring_def ring_start_def make_ring_def empty_ring_def empty_producer_def
        demo_desc_def sg_list_readable_def receive_slot_stride_def aligned_slot_stride_value)

end
