(* ===== verification/Completion_Queue.thy ===== *)
theory Completion_Queue
  imports Ring_Clients Descriptors
begin

text \<open>
  \<^verbatim>\<open>queue/completion_queue.cpp\<close> (the worker's side) and \<open>poll_cq\<close> of \<^verbatim>\<open>api/api.cpp\<close> (the client's
  side) of a completion queue. Both run on the ring of \<open>Ring_System\<close>; the other side's progress
  before the call, and the counter values the call loads, come from an environment.
\<close>

section \<open>Producing completions\<close>

fun copy_entries ::
  "nat list \<Rightarrow> completion_entry list \<Rightarrow> nat \<Rightarrow> (nat \<Rightarrow> completion_entry) \<Rightarrow> nat \<times> (nat \<Rightarrow> completion_entry)" where
  "copy_entries [] entries offset slots = (offset, slots)"
| "copy_entries (off # offs) entries offset slots =
     copy_entries offs entries (Suc offset) (slots(off := entries ! offset))"

definition produce_completions ::
  "completion_entry ring_env \<Rightarrow> completion_entry list option \<Rightarrow> int \<Rightarrow> completion_entry ring_sys \<Rightarrow>
   int \<times> completion_entry ring_sys" where
  "produce_completions env entries num_entries s =
     (if num_entries < 0 \<or> num_entries > 0 \<and> entries = None then (- EINVAL, s)
      else if num_entries = 0 then (0, s)
      else if \<not> ring_valid (rs_producer s) \<or> qd_kind (ring_desc s) \<noteq> qk_completion \<or>
              qd_slot_stride (ring_desc s) \<noteq> completion_slot_stride then (- EINVAL, s)
      else case env 0 s of (s0, h1, h2) \<Rightarrow>
        (case producer_reserve (rs_tail s0) h1 h2 (of_int num_entries) True (rs_producer s0) of
           (reserve_status, r, None) \<Rightarrow>
             ((if reserve_status = EAGAIN then 0 else - reserve_status), s0\<lparr>rs_producer := r\<rparr>)
         | (reserve_status, r, Some batch) \<Rightarrow>
             (let stride = unat (qd_slot_stride (ring_desc s0));
                  c1 = copy_entries (span_offsets stride (sb_first batch)) (the entries) 0 (rs_slots s0);
                  c2 = copy_entries (span_offsets stride (sb_second batch)) (the entries) (fst c1) (snd c1)
              in case producer_publish (sb_count batch) r of
                   (publish_status, store, r') \<Rightarrow>
                     ((if publish_status = OK then int (unat (sb_count batch)) else - publish_status),
                      s0\<lparr>rs_producer := r', rs_slots := snd c2,
                         rs_tail := (case store of Some v \<Rightarrow> v | None \<Rightarrow> rs_tail s0)\<rparr>))))"

section \<open>Polling\<close>

record ugdr_wc =
  wc_wr_id :: u64
  wc_status :: u32
  wc_opcode :: u32
  wc_vendor_err :: u32
  wc_byte_len :: u32
  wc_imm_data :: u32
  wc_qp_num :: u32
  wc_src_qp :: u32
  wc_flags :: u32
  wc_pkey_index :: u16
  wc_slid :: u16
  wc_sl :: u8
  wc_dlid_path_bits :: u8

definition wc_of_entry :: "completion_entry \<Rightarrow> ugdr_wc" where
  "wc_of_entry entry =
     \<lparr>wc_wr_id = ce_wr_id entry, wc_status = ce_status entry, wc_opcode = ce_opcode entry,
      wc_vendor_err = 0, wc_byte_len = ce_byte_length entry, wc_imm_data = ce_immediate_data entry,
      wc_qp_num = ce_qp_num entry, wc_src_qp = 0, wc_flags = ce_flags entry, wc_pkey_index = 0,
      wc_slid = 0, wc_sl = 0, wc_dlid_path_bits = 0\<rparr>"

text \<open>\<open>known\<close> says whether \<open>cqs_\<close> holds the pointer and \<open>live\<close> is the queue's flag; the result is the
  return value, what is stored in the output array and the queue.\<close>

definition poll_cq ::
  "completion_entry ring_env \<Rightarrow> bool \<Rightarrow> bool \<Rightarrow> int \<Rightarrow> bool \<Rightarrow> completion_entry ring_sys \<Rightarrow>
   int \<times> ugdr_wc list \<times> completion_entry ring_sys" where
  "poll_cq env known live num_entries have_wc s =
     (if num_entries < 0 \<or> num_entries > 0 \<and> \<not> have_wc \<or> \<not> known \<or> \<not> live then (- EINVAL, [], s)
      else if num_entries = 0 then (0, [], s)
      else case env 0 s of (s0, t1, t2) \<Rightarrow>
        (case consumer_peek (rs_head s0) t1 t2 (of_int num_entries) True (rs_consumer s0) of
           (peek_status, r, None) \<Rightarrow>
             ((if peek_status = EAGAIN then 0 else - peek_status), [], s0\<lparr>rs_consumer := r\<rparr>)
         | (peek_status, r, Some batch) \<Rightarrow>
             (let offs = batch_offsets (unat (qd_slot_stride (sr_queue_descriptor r))) batch
              in case consumer_release (sb_count batch) r of
                   (release_status, store, r') \<Rightarrow>
                     ((if release_status = OK then int (unat (sb_count batch)) else - release_status),
                      map (\<lambda>off. wc_of_entry (rs_slots s0 off)) offs,
                      s0\<lparr>rs_consumer := r', rs_head := (case store of Some v \<Rightarrow> v | None \<Rightarrow> rs_head s0)\<rparr>))))"

section \<open>What producing does to the ring\<close>

lemma copy_entries_append:
  "copy_entries (xs @ ys) entries k slots =
     (case copy_entries xs entries k slots of (k', slots') \<Rightarrow> copy_entries ys entries k' slots')"
  by (induction xs arbitrary: k slots) simp_all

lemma copy_entries_fill:
  "k + length offs \<le> length entries \<Longrightarrow>
   fill_slots (\<lambda>_. True) (\<lambda>_ w. w) offs (drop k entries) slots
     = (True, length offs, drop (k + length offs) entries, snd (copy_entries offs entries k slots))"
proof (induction offs arbitrary: k slots)
  case Nil
  then show ?case by simp
next
  case (Cons off offs)
  then have "drop k entries = entries ! k # drop (Suc k) entries" by (simp add: Cons_nth_drop_Suc)
  with Cons.IH [of "Suc k" "slots(off := entries ! k)"] Cons.prems show ?case
    by (simp del: fun_upd_apply)
qed

lemma batch_copy_fill:
  assumes "length (batch_offsets stride b) \<le> length entries"
  shows "fill_batch (\<lambda>_. True) (\<lambda>_ w. w) stride b entries slots =
    (let c1 = copy_entries (span_offsets stride (sb_first b)) entries 0 slots;
         c2 = copy_entries (span_offsets stride (sb_second b)) entries (fst c1) (snd c1)
     in (True, length (batch_offsets stride b), drop (length (batch_offsets stride b)) entries, snd c2))"
  using copy_entries_fill [of 0 "batch_offsets stride b" entries slots] assms
  by (simp add: fill_batch_offsets batch_offsets_def copy_entries_append Let_def case_prod_unfold)

lemma map2_snd: "length xs = length ys \<Longrightarrow> map2 (\<lambda>x y. y) xs ys = ys"
  by (induction xs ys rule: list_induct2) auto

lemma of_int_count: "0 < n \<Longrightarrow> n < 2 ^ 31 \<Longrightarrow> unat (of_int n :: u32) = nat n"
  by (simp add: unat_eq_nat_uint uint_word_of_int_eq take_bit_int_eq_self)

lemma produce_completions_spec:
  assumes env: "env_ok env" and inv: "ring_inv s"
    and res0: "ps_reserved (sr_producer (rs_producer s)) = 0"
    and kind: "qd_kind (ring_desc s) = qk_completion" "qd_slot_stride (ring_desc s) = completion_slot_stride"
    and n: "0 < n" "n < 2 ^ 31" "n \<le> int (length entries)"
    and out: "produce_completions env (Some entries) n s = (result, t)"
  shows "\<exists>es. chan_run ring_step s es t \<and> 0 \<le> result \<and> result \<le> n \<and>
    concat (map sent_of es) = take (nat result) entries \<and>
    ps_reserved (sr_producer (rs_producer t)) = 0 \<and>
    (result = 0 \<longrightarrow> (\<exists>s0 h1 h2. env 0 s = (s0, h1, h2) \<and> unat (rs_tail s0 - h2) = ring_cap s0))"
proof -
  obtain s0 h1 h2 where e: "env 0 s = (s0, h1, h2)" by (cases "env 0 s") auto
  note E = env_okD [OF env inv e]
  note loads = E(2,3)
  obtain ces where cr: "chan_run consumer_step s ces s0" using E(1) by blast
  note C = consumer_run_ring [OF cr]
  have inv0: "ring_inv s0" using C inv ring_run_inv by blast
  have r0: "ps_reserved (sr_producer (rs_producer s0)) = 0" using C res0 by simp
  have m: "(of_int n :: u32) \<noteq> 0" "unat (of_int n :: u32) = nat n"
    using of_int_count [OF n(1,2)] n(1) by auto
  obtain rst r bo where res: "producer_reserve (rs_tail s0) h1 h2 (of_int n) True (rs_producer s0) = (rst, r, bo)"
    by (cases "producer_reserve (rs_tail s0) h1 h2 (of_int n) True (rs_producer s0)") auto
  note R = reserve_spec [OF inv0 res loads]
  have valid: "ring_valid (rs_producer s)" using ring_invD(1) [OF inv] .
  show ?thesis
  proof (cases bo)
    case None
    then have rst: "rst = EAGAIN" "unat (rs_tail s0 - h2) = ring_cap s0" using R r0 m(1) by auto
    then have o: "result = 0" "t = s0\<lparr>rs_producer := r\<rparr>"
      using out n kind valid e res None by (auto simp: produce_completions_def)
    have "ring_step s0 Silent t" unfolding o by (rule step_reserve [OF res loads])
    then have "chan_run ring_step s (ces @ [Silent]) t" using C by (blast intro: chan_run_append chan_run_one)
    moreover have "concat (map sent_of (ces @ [Silent])) = take (nat result) entries" using C by (simp add: o)
    moreover have "ps_reserved (sr_producer (rs_producer t)) = 0"
      using reserve_none_keeps_reserved [OF res [unfolded None]] r0 by (simp add: o)
    ultimately show ?thesis using o n(1) e rst by (intro exI [of _ "ces @ [Silent]"]) auto
  next
    case (Some b)
    have b: "rst = OK" "b = make_batch r (ps_local_index (sr_producer r)) (ps_reserved (sr_producer r))"
      "0 < unat (ps_reserved (sr_producer r))" "ps_reserved (sr_producer r) \<le> of_int n"
      using R Some by auto
    define cnt where "cnt = ps_reserved (sr_producer r)"
    have sc: "sb_count b = cnt" by (simp add: b(2) make_batch_def Let_def cnt_def)
    let ?st = "unat (qd_slot_stride (ring_desc s0))"
    have inv1: "ring_inv (s0\<lparr>rs_producer := r\<rparr>)" using R by blast
    have dq: "sr_queue_descriptor r = ring_desc s0"
      by (rule reserve_keeps_descriptor [OF res])
    have len: "length (batch_offsets ?st b) = unat cnt"
      using reserved_window [OF inv1] by (simp add: reserved_offsets_def b(2) dq cnt_def)
    have cn: "unat cnt \<le> nat n" using b(4) m(2) by (simp add: word_le_nat_alt cnt_def)
    then have "length (batch_offsets ?st b) \<le> length entries" using n(3) len by linarith
    note fill0 = batch_copy_fill [OF this, of "rs_slots s0"]
    define slots where "slots = snd (copy_entries (span_offsets ?st (sb_second b)) entries
        (fst (copy_entries (span_offsets ?st (sb_first b)) entries 0 (rs_slots s0)))
        (snd (copy_entries (span_offsets ?st (sb_first b)) entries 0 (rs_slots s0))))"
    have fill: "fill_batch (\<lambda>_. True) (\<lambda>_ w. w) ?st b entries (rs_slots s0) = (True, unat cnt, drop (unat cnt) entries, slots)"
      using fill0 by (simp add: Let_def slots_def len)
    obtain pst store r' where pub: "producer_publish cnt r = (pst, store, r')"
      by (cases "producer_publish cnt r") auto
    then have pub': "producer_publish (of_nat (unat cnt)) r = (pst, store, r')" by simp
    from batch_transaction [OF inv0 res [unfolded Some b(1)] loads fill pub']
    obtain offs es where B: "length offs = unat cnt" "distinct offs"
      "fill_slots (\<lambda>_. True) (\<lambda>_ w. w) offs entries (rs_slots s0) = (True, unat cnt, drop (unat cnt) entries, slots)"
      "pst = OK" "ps_reserved (sr_producer r') = 0"
      "chan_run ring_step s0 es (s0\<lparr>rs_producer := r', rs_slots := slots, rs_tail := (case store of Some v \<Rightarrow> v | None \<Rightarrow> rs_tail s0)\<rparr>)"
      "concat (map sent_of es) = map slots (take (unat cnt) offs)"
      by (auto simp: cnt_def)
    have o: "result = int (unat cnt)"
      "t = s0\<lparr>rs_producer := r', rs_slots := slots, rs_tail := (case store of Some v \<Rightarrow> v | None \<Rightarrow> rs_tail s0)\<rparr>"
      using out n(1) kind valid e res Some pub B(4) sc
      by (auto simp: produce_completions_def Let_def slots_def)
    have "map slots (take (unat cnt) offs) = take (unat cnt) entries"
      using fill_slots_spec [OF B(3,2)] map2_snd [of "take (unat cnt) offs" "take (unat cnt) entries"] B(1) n(3) cn
      by simp
    then have "concat (map sent_of (ces @ es)) = take (nat result) entries" using C B(7) by (simp add: o)
    moreover have "chan_run ring_step s (ces @ es) t" using C B(6) o by (blast intro: chan_run_append)
    moreover have "0 < result" "result \<le> n" using b(3) cn n(1) unfolding o(1) cnt_def by linarith+
    ultimately show ?thesis using B(5) o by (intro exI [of _ "ces @ es"]) auto
  qed
qed

section \<open>What polling does to the ring\<close>

lemma poll_cq_spec:
  assumes env: "producer_env_ok env" and inv: "ring_inv s"
    and free: "cs_peeked (sr_consumer (rs_consumer s)) = 0"
    and n: "0 < n" "n < 2 ^ 31"
    and out: "poll_cq env True True n True s = (result, wcs, t)"
  shows "\<exists>es. chan_run ring_step s es t \<and> 0 \<le> result \<and> result \<le> n \<and> int (length wcs) = result \<and>
    wcs = map wc_of_entry (concat (map taken_of es)) \<and> cs_peeked (sr_consumer (rs_consumer t)) = 0 \<and>
    (result = 0 \<longrightarrow> (\<exists>s0 t1. env 0 s = (s0, t1, rs_head s)))"
proof -
  obtain s0 t1 t2 where e: "env 0 s = (s0, t1, t2)" by (cases "env 0 s") auto
  note E = producer_env_okD [OF env inv e]
  note loads = E(4,5)
  obtain pes where pr: "chan_run ring_step s pes s0" "concat (map taken_of pes) = []" using E(1) by blast
  have inv0: "ring_inv s0" by (rule ring_run_inv [OF pr(1) inv])
  have free0: "cs_peeked (sr_consumer (rs_consumer s0)) = 0" using E(2) free by simp
  have m: "(of_int n :: u32) \<noteq> 0" "unat (of_int n :: u32) = nat n"
    using of_int_count [OF n] n(1) by auto
  obtain pst r bo where peek: "consumer_peek (rs_head s0) t1 t2 (of_int n) True (rs_consumer s0) = (pst, r, bo)"
    by (cases "consumer_peek (rs_head s0) t1 t2 (of_int n) True (rs_consumer s0)") auto
  note P = peek_spec [OF inv0 peek loads]
  show ?thesis
  proof (cases bo)
    case None
    then have pst: "pst = EAGAIN" "t2 = rs_head s" using P free0 m(1) E(3) by auto
    then have o: "result = 0" "wcs = []" "t = s0\<lparr>rs_consumer := r\<rparr>"
      using out n e peek None by (auto simp: poll_cq_def)
    have "ring_step s0 Silent t" unfolding o by (rule step_peek [OF peek loads])
    then have "chan_run ring_step s (pes @ [Silent]) t" using pr by (blast intro: chan_run_append chan_run_one)
    moreover have "cs_peeked (sr_consumer r) = 0"
    proof -
      have "case consumer_peek (rs_head s0) t1 t2 (of_int n) True (rs_consumer s0) of (st, r, b) \<Rightarrow>
          b = None \<longrightarrow> cs_peeked (sr_consumer r) = cs_peeked (sr_consumer (rs_consumer s0))"
        by (simp add: consumer_peek_def consumer_init_def Let_def)
      then show ?thesis using peek None free0 by simp
    qed
    ultimately show ?thesis using o n(1) e pst pr(2) by (intro exI [of _ "pes @ [Silent]"]) auto
  next
    case (Some b)
    then have ok: "pst = OK" using P by auto
    obtain rst store r' where rel: "consumer_release (sb_count b) r = (rst, store, r')"
      by (cases "consumer_release (sb_count b) r") auto
    define xs where "xs = map (rs_slots s0) (batch_offsets (unat (qd_slot_stride (sr_queue_descriptor r))) b)"
    from take_transaction [OF inv0 peek [unfolded Some ok] loads rel, folded xs_def]
    have T: "rst = OK" "length xs = unat (sb_count b)" "0 < length xs" "length xs \<le> nat n"
      "chan_run ring_step s0 [Silent, Taken xs] (s0\<lparr>rs_consumer := r', rs_head := (case store of Some v \<Rightarrow> v | None \<Rightarrow> rs_head s0)\<rparr>)"
      "cs_peeked (sr_consumer r') = 0"
      unfolding m(2) by blast+
    have o: "result = int (unat (sb_count b))" "wcs = map wc_of_entry xs"
      "t = s0\<lparr>rs_consumer := r', rs_head := (case store of Some v \<Rightarrow> v | None \<Rightarrow> rs_head s0)\<rparr>"
      using out n(1) e peek Some rel T(1) by (auto simp: poll_cq_def Let_def xs_def)
    have res: "result = int (length xs)" using o(1) T(2) by simp
    have "chan_run ring_step s (pes @ [Silent, Taken xs]) t" using pr(1) T(5) o(3) by (blast intro: chan_run_append)
    moreover have "concat (map taken_of (pes @ [Silent, Taken xs])) = xs" using pr(2) by simp
    moreover have "0 < result" "result \<le> n" using T(3,4) n(1) unfolding res by linarith+
    ultimately show ?thesis using o(2,3) T(6) res by (intro exI [of _ "pes @ [Silent, Taken xs]"]) simp
  qed
qed

section \<open>Properties\<close>

text \<open>C37. Producing completions: for a positive number of entries on a completion ring, whatever the
  client does meanwhile, the call returns how many entries it appended to the queue, which are
  the first ones of the caller's array in order; it returns 0 only when the ring is full by the
  head it loaded last, and never an error.\<close>

theorem produce_completions_correct:
  assumes "env_ok env" "ring_inv s" "ps_reserved (sr_producer (rs_producer s)) = 0"
    and "qd_kind (ring_desc s) = qk_completion" "qd_slot_stride (ring_desc s) = completion_slot_stride"
    and "0 < n" "n < 2 ^ 31" "n \<le> int (length entries)"
  shows "\<exists>result t es. produce_completions env (Some entries) n s = (result, t) \<and>
    chan_run ring_step s es t \<and> 0 \<le> result \<and> result \<le> n \<and>
    concat (map sent_of es) = take (nat result) entries \<and>
    ps_reserved (sr_producer (rs_producer t)) = 0 \<and>
    (result = 0 \<longrightarrow> (\<exists>s0 h1 h2. env 0 s = (s0, h1, h2) \<and> unat (rs_tail s0 - h2) = ring_cap s0))"
proof -
  obtain result t where p: "produce_completions env (Some entries) n s = (result, t)"
    by (cases "produce_completions env (Some entries) n s") auto
  from produce_completions_spec [OF assms p] p show ?thesis by blast
qed

text \<open>C38. Polling: for a live queue and a positive number of entries, whatever the worker does
  meanwhile, \<open>poll_cq\<close> returns the number of work completions it stored, at most \<open>num_entries\<close>,
  which are the oldest entries of the queue in order, and removes exactly these; it returns 0 only
  when the tail it loaded last equals the head, and never an error.\<close>

theorem poll_cq_correct:
  assumes "producer_env_ok env" "ring_inv s" "cs_peeked (sr_consumer (rs_consumer s)) = 0"
    and "0 < n" "n < 2 ^ 31"
  shows "\<exists>result wcs t es. poll_cq env True True n True s = (result, wcs, t) \<and>
    chan_run ring_step s es t \<and> 0 \<le> result \<and> result \<le> n \<and> int (length wcs) = result \<and>
    wcs = map wc_of_entry (concat (map taken_of es)) \<and>
    wcs = take (nat result) (map wc_of_entry (ring_contents s @ concat (map sent_of es))) \<and>
    cs_peeked (sr_consumer (rs_consumer t)) = 0 \<and>
    (result = 0 \<longrightarrow> (\<exists>s0 t1. env 0 s = (s0, t1, rs_head s)))"
proof -
  obtain result wcs t where p: "poll_cq env True True n True s = (result, wcs, t)"
    by (cases "poll_cq env True True n True s") auto
  from poll_cq_spec [OF assms p] obtain es where S: "chan_run ring_step s es t" "int (length wcs) = result"
    "wcs = map wc_of_entry (concat (map taken_of es))" "0 \<le> result" "result \<le> n"
    "cs_peeked (sr_consumer (rs_consumer t)) = 0"
    "result = 0 \<longrightarrow> (\<exists>s0 t1. env 0 s = (s0, t1, rs_head s))" by blast
  have len: "nat result = length (map wc_of_entry (concat (map taken_of es)))" using S(2,3) by auto
  have "take (nat result) (map wc_of_entry (ring_contents s @ concat (map sent_of es))) = wcs"
    unfolding ring.run_fifo [OF S(1) assms(2)] map_append len S(3) by simp
  with p S show ?thesis by metis
qed

definition demo_cq :: "completion_entry ring_sys" where
  "demo_cq = ring_start (demo_desc\<lparr>qd_kind := qk_completion\<rparr>) 0 0
     (\<lambda>_. \<lparr>ce_wr_id = 0, ce_status = 0, ce_opcode = 0, ce_byte_length = 0, ce_immediate_data = 0,
            ce_qp_num = 0, ce_flags = 0\<rparr>)"

lemma demo_cq_inv: "ring_inv demo_cq"
  unfolding demo_cq_def by (rule ring_inv_start) (simp_all add: valid_descriptor_def demo_desc_def)

theorem produce_completions_correct_witness:
  "\<exists>result t es. produce_completions quiet_env (Some [rs_slots demo_cq 0]) 1 demo_cq = (result, t) \<and>
     chan_run ring_step demo_cq es t \<and> 0 \<le> result \<and> result \<le> 1"
  using produce_completions_correct [OF quiet_env_ok demo_cq_inv, of 1 "[rs_slots demo_cq 0]"]
  by (auto simp: demo_cq_def ring_start_def make_ring_def empty_ring_def empty_producer_def demo_desc_def
      completion_slot_stride_def)

theorem poll_cq_correct_witness:
  "\<exists>result wcs t es. poll_cq quiet_producer_env True True 4 True demo_cq = (result, wcs, t) \<and>
     chan_run ring_step demo_cq es t \<and> int (length wcs) = result"
  using poll_cq_correct [OF quiet_producer_env_ok demo_cq_inv, of 4]
  by (auto simp: demo_cq_def ring_start_def make_ring_def empty_ring_def empty_consumer_def)

end
