(* ===== verification/Object_Registry.thy ===== *)
theory Object_Registry
  imports Ugdr_Prelude
begin

unbundle bit_operations_syntax

text \<open>
  \<^verbatim>\<open>control/object_identity.cpp\<close> and \<^verbatim>\<open>control/object_registry.hpp\<close>: the 64-bit object identities the
  daemon hands out (8 bits of type, 32 bits of generation, 24 bits of slot) and the
  \<open>GenerationRegistry\<close> template that maps them to records. A registry is the record
  \<open>registry\<close>; its operations take the template argument \<open>Type\<close> first. The locale
  \<open>handle_table\<close> is what the services rely on: a registry is a finite partial map from
  identities to owned records, and its interpretation \<open>reg\<close> discharges that contract.
\<close>

section \<open>Object identities\<close>

abbreviation ot_invalid :: u8 where "ot_invalid \<equiv> 0"
abbreviation ot_context :: u8 where "ot_context \<equiv> 1"
abbreviation ot_pd :: u8 where "ot_pd \<equiv> 2"
abbreviation ot_mr :: u8 where "ot_mr \<equiv> 3"
abbreviation ot_cq :: u8 where "ot_cq \<equiv> 4"
abbreviation ot_qp :: u8 where "ot_qp \<equiv> 5"

definition kMaxObjectSlot :: u32 where
  "kMaxObjectSlot = 0x00ffffff"

record object_identity_parts =
  oip_type :: u8
  oip_generation :: u32
  oip_slot :: u32

definition encode_object_identity :: "object_identity_parts \<Rightarrow> u64 option" where
  "encode_object_identity parts =
     (if oip_type parts = ot_invalid \<or> oip_generation parts = 0 \<or> oip_slot parts > kMaxObjectSlot
      then None
      else Some (push_bit 56 (ucast (oip_type parts)) OR
                 push_bit 24 (ucast (oip_generation parts)) OR ucast (oip_slot parts)))"

definition decode_object_identity :: "u64 \<Rightarrow> object_identity_parts option" where
  "decode_object_identity identity =
     (if identity = 0 then None
      else
        let parts = \<lparr>oip_type = ucast (drop_bit 56 identity),
                     oip_generation = ucast (drop_bit 24 identity),
                     oip_slot = ucast (identity AND ucast kMaxObjectSlot)\<rparr>
        in if oip_type parts = ot_invalid \<or> oip_generation parts = 0 then None else Some parts)"

lemma kMaxObjectSlot_mask: "kMaxObjectSlot = mask 24"
  by (simp add: kMaxObjectSlot_def mask_numeral)

lemma slot_fits_iff: "s \<le> kMaxObjectSlot \<longleftrightarrow> take_bit 24 s = s"
proof
  assume "s \<le> kMaxObjectSlot"
  then have "unat s < 2 ^ 24"
    by (simp add: word_le_nat_alt kMaxObjectSlot_def)
  then show "take_bit 24 s = s"
    by (simp add: word_unat_eq_iff unsigned_take_bit_eq take_bit_nat_eq_self)
next
  assume *: "take_bit 24 s = s"
  have "take_bit 24 s \<le> mask 24"
    by (simp add: take_bit_eq_mask word_and_le1)
  with * show "s \<le> kMaxObjectSlot" by (simp add: kMaxObjectSlot_mask)
qed

lemma bit_kMaxObjectSlot: "bit kMaxObjectSlot n \<longleftrightarrow> n < 24"
  by (auto simp: kMaxObjectSlot_mask bit_simps)

lemma pack_type: "(ucast (drop_bit 56 (push_bit 56 (ucast t) OR push_bit 24 (ucast (g :: u32)) OR ucast (s :: u32) :: u64)) :: u8) = t"
  by (rule bit_word_eqI) (auto simp: bit_simps dest: bit_imp_le_length)

lemma pack_generation:
  assumes "s \<le> kMaxObjectSlot"
  shows "(ucast (drop_bit 24 (push_bit 56 (ucast (t :: u8)) OR push_bit 24 (ucast g) OR ucast s :: u64)) :: u32) = g"
proof (rule bit_word_eqI)
  fix n assume n: "n < LENGTH(32)"
  have "bit s (24 + n) \<longleftrightarrow> bit (take_bit 24 s) (24 + n)"
    using assms by (simp add: slot_fits_iff)
  then have "\<not> bit s (24 + n)" by (simp add: bit_simps)
  with n show "bit (ucast (drop_bit 24 (push_bit 56 (ucast t) OR push_bit 24 (ucast g) OR ucast s :: u64)) :: u32) n
    \<longleftrightarrow> bit g n"
    by (auto simp: bit_simps)
qed

lemma pack_slot:
  assumes "s \<le> kMaxObjectSlot"
  shows "(ucast ((push_bit 56 (ucast (t :: u8)) OR push_bit 24 (ucast (g :: u32)) OR ucast s :: u64)
            AND ucast kMaxObjectSlot) :: u32) = s"
proof (rule bit_word_eqI)
  fix n assume n: "n < LENGTH(32)"
  have "bit s n \<longleftrightarrow> bit (take_bit 24 s) n"
    using assms by (simp add: slot_fits_iff)
  then have "bit s n \<longleftrightarrow> n < 24 \<and> bit s n" by (simp add: bit_simps)
  with n show "bit (ucast ((push_bit 56 (ucast t) OR push_bit 24 (ucast g) OR ucast s :: u64)
            AND ucast kMaxObjectSlot) :: u32) n \<longleftrightarrow> bit s n"
    by (auto simp: bit_simps bit_kMaxObjectSlot)
qed

lemma unpack_pack:
  "push_bit 56 (ucast (ucast (drop_bit 56 identity) :: u8)) OR
   push_bit 24 (ucast (ucast (drop_bit 24 identity) :: u32)) OR
   ucast (ucast (identity AND ucast kMaxObjectSlot) :: u32) = (identity :: u64)"
proof (rule bit_word_eqI)
  fix n assume "n < LENGTH(64)"
  then show "bit (push_bit 56 (ucast (ucast (drop_bit 56 identity) :: u8)) OR
   push_bit 24 (ucast (ucast (drop_bit 24 identity) :: u32)) OR
   ucast (ucast (identity AND ucast kMaxObjectSlot) :: u32) :: u64) n \<longleftrightarrow> bit identity n"
    by (cases "n < 24"; cases "n < 56") (auto simp: bit_simps bit_kMaxObjectSlot)
qed

lemma decode_encode_identity:
  assumes "encode_object_identity p = Some i"
  shows "decode_object_identity i = Some p"
proof -
  from assms have p: "oip_type p \<noteq> 0" "oip_generation p \<noteq> 0" "oip_slot p \<le> kMaxObjectSlot"
    and i: "i = push_bit 56 (ucast (oip_type p)) OR push_bit 24 (ucast (oip_generation p))
                OR ucast (oip_slot p)"
    by (auto simp: encode_object_identity_def split: if_splits)
  have t: "(ucast (drop_bit 56 i) :: u8) = oip_type p" by (simp only: i pack_type)
  with p have "i \<noteq> 0" by auto
  moreover have "(ucast (drop_bit 24 i) :: u32) = oip_generation p"
    by (simp only: i pack_generation [OF p(3)])
  moreover have "(ucast (i AND ucast kMaxObjectSlot) :: u32) = oip_slot p"
    by (simp only: i pack_slot [OF p(3)])
  ultimately show ?thesis
    using p t by (simp add: decode_object_identity_def Let_def)
qed

lemma encode_decode_identity:
  assumes "decode_object_identity i = Some p"
  shows "encode_object_identity p = Some i"
proof -
  from assms have p: "p = \<lparr>oip_type = ucast (drop_bit 56 i), oip_generation = ucast (drop_bit 24 i),
                     oip_slot = ucast (i AND ucast kMaxObjectSlot)\<rparr>"
    and nz: "(ucast (drop_bit 56 i) :: u8) \<noteq> 0" "(ucast (drop_bit 24 i) :: u32) \<noteq> 0"
    by (auto simp: decode_object_identity_def Let_def split: if_splits)
  have "take_bit 24 (ucast (i AND ucast kMaxObjectSlot) :: u32) = ucast (i AND ucast kMaxObjectSlot)"
    by (rule bit_word_eqI) (auto simp: bit_simps bit_kMaxObjectSlot)
  then have "(ucast (i AND ucast kMaxObjectSlot) :: u32) \<le> kMaxObjectSlot"
    by (simp add: slot_fits_iff)
  with p nz show ?thesis
    by (simp add: encode_object_identity_def unpack_pack not_less [symmetric])
qed

lemma encode_identity_total:
  "oip_type p \<noteq> 0 \<Longrightarrow> oip_generation p \<noteq> 0 \<Longrightarrow> oip_slot p \<le> kMaxObjectSlot \<Longrightarrow>
   \<exists>i. encode_object_identity p = Some i"
  by (simp add: encode_object_identity_def not_less [symmetric])

lemma decode_identity_slot: "decode_object_identity i = Some p \<Longrightarrow> oip_slot p \<le> kMaxObjectSlot"
  using encode_decode_identity [of i p]
  by (auto simp: encode_object_identity_def split: if_splits)

lemma decode_identity_nonzero: "decode_object_identity i = Some p \<Longrightarrow> i \<noteq> 0"
  by (auto simp: decode_object_identity_def)

section \<open>The generation registry\<close>

record 'r reg_slot =
  sl_generation :: u32
  sl_owner_session :: u64
  sl_value :: "'r option"
  sl_retired :: bool

record 'r registry =
  reg_initial_generation :: u32
  reg_slots :: "'r reg_slot list"
  reg_free_slots :: "u32 list"
  reg_live_count :: nat

definition new_registry :: "u32 \<Rightarrow> 'r registry" where
  "new_registry initial_generation =
     \<lparr>reg_initial_generation = (if initial_generation = 0 then 1 else initial_generation),
      reg_slots = [], reg_free_slots = [], reg_live_count = 0\<rparr>"

definition new_slot :: "u32 \<Rightarrow> 'r reg_slot" where
  "new_slot initial_generation =
     \<lparr>sl_generation = initial_generation, sl_owner_session = 0, sl_value = None, sl_retired = False\<rparr>"

definition slot_set :: "'r registry \<Rightarrow> u32 \<Rightarrow> 'r reg_slot \<Rightarrow> 'r registry" where
  "slot_set reg index slot = reg\<lparr>reg_slots := (reg_slots reg)[unat index := slot]\<rparr>"

definition pick_slot :: "'r registry \<Rightarrow> (u32 \<times> 'r registry) option" where
  "pick_slot reg =
     (if reg_free_slots reg \<noteq> [] then
        Some (last (reg_free_slots reg), reg\<lparr>reg_free_slots := butlast (reg_free_slots reg)\<rparr>)
      else if length (reg_slots reg) > unat kMaxObjectSlot then None
      else Some (of_nat (length (reg_slots reg)),
                 reg\<lparr>reg_slots := reg_slots reg @ [new_slot (reg_initial_generation reg)]\<rparr>))"

definition reg_insert :: "u8 \<Rightarrow> u64 \<Rightarrow> 'r \<Rightarrow> 'r registry \<Rightarrow> u64 option \<times> 'r registry" where
  "reg_insert ty owner_session rec reg =
     (case pick_slot reg of
        None \<Rightarrow> (None, reg)
      | Some (slot_index, reg1) \<Rightarrow>
          (let slot = (reg_slots reg1 ! unat slot_index)
                        \<lparr>sl_owner_session := owner_session, sl_value := Some rec\<rparr>
           in case encode_object_identity
                     \<lparr>oip_type = ty, oip_generation = sl_generation slot, oip_slot = slot_index\<rparr> of
                None \<Rightarrow>
                  (None, slot_set reg1 slot_index
                           (slot\<lparr>sl_value := None, sl_owner_session := 0, sl_retired := True\<rparr>))
              | Some identity \<Rightarrow>
                  (Some identity, (slot_set reg1 slot_index slot)
                                    \<lparr>reg_live_count := Suc (reg_live_count reg1)\<rparr>)))"

definition reg_resolve :: "u8 \<Rightarrow> u64 \<Rightarrow> u64 \<Rightarrow> 'r registry \<Rightarrow> 'r option" where
  "reg_resolve ty owner_session identity reg =
     (case decode_object_identity identity of
        None \<Rightarrow> None
      | Some parts \<Rightarrow>
          if oip_type parts \<noteq> ty \<or> unat (oip_slot parts) \<ge> length (reg_slots reg) then None
          else
            let slot = reg_slots reg ! unat (oip_slot parts)
            in if sl_retired slot \<or> sl_value slot = None \<or> sl_owner_session slot \<noteq> owner_session \<or>
                  sl_generation slot \<noteq> oip_generation parts
               then None else sl_value slot)"

definition reg_resolve_any :: "u8 \<Rightarrow> u64 \<Rightarrow> 'r registry \<Rightarrow> 'r option" where
  "reg_resolve_any ty identity reg =
     (case decode_object_identity identity of
        None \<Rightarrow> None
      | Some parts \<Rightarrow>
          if oip_type parts \<noteq> ty \<or> unat (oip_slot parts) \<ge> length (reg_slots reg) then None
          else
            let slot = reg_slots reg ! unat (oip_slot parts)
            in if sl_retired slot \<or> sl_value slot = None \<or> sl_generation slot \<noteq> oip_generation parts
               then None else sl_value slot)"

definition reg_release :: "u32 \<Rightarrow> 'r registry \<Rightarrow> 'r registry" where
  "reg_release index reg =
     (let slot = (reg_slots reg ! unat index)\<lparr>sl_value := None, sl_owner_session := 0\<rparr>;
          reg1 = reg\<lparr>reg_live_count := reg_live_count reg - 1\<rparr>
      in if sl_generation slot = - 1 then slot_set reg1 index (slot\<lparr>sl_retired := True\<rparr>)
         else (slot_set reg1 index (slot\<lparr>sl_generation := sl_generation slot + 1\<rparr>))
                \<lparr>reg_free_slots := reg_free_slots reg @ [index]\<rparr>)"

definition reg_erase :: "u8 \<Rightarrow> u64 \<Rightarrow> u64 \<Rightarrow> 'r registry \<Rightarrow> int \<times> 'r registry" where
  "reg_erase ty owner_session identity reg =
     (case decode_object_identity identity of
        None \<Rightarrow> (EINVAL, reg)
      | Some parts \<Rightarrow>
          if reg_resolve ty owner_session identity reg = None then (EINVAL, reg)
          else (OK, reg_release (oip_slot parts) reg))"

fun erase_session_from :: "nat list \<Rightarrow> u64 \<Rightarrow> nat \<times> 'r registry \<Rightarrow> nat \<times> 'r registry" where
  "erase_session_from [] owner_session (erased, reg) = (erased, reg)"
| "erase_session_from (index # rest) owner_session (erased, reg) =
     (let slot = reg_slots reg ! index
      in if sl_value slot \<noteq> None \<and> sl_owner_session slot = owner_session
         then erase_session_from rest owner_session (Suc erased, reg_release (of_nat index) reg)
         else erase_session_from rest owner_session (erased, reg))"

definition reg_erase_session :: "u64 \<Rightarrow> 'r registry \<Rightarrow> nat \<times> 'r registry" where
  "reg_erase_session owner_session reg =
     erase_session_from [0..<length (reg_slots reg)] owner_session (0, reg)"

definition reg_for_each_session :: "u8 \<Rightarrow> u64 \<Rightarrow> 'r registry \<Rightarrow> (u64 \<times> 'r) list" where
  "reg_for_each_session ty owner_session reg =
     List.map_filter
       (\<lambda>index. let slot = reg_slots reg ! index
                in if \<not> sl_retired slot \<and> sl_owner_session slot = owner_session
                   then (case sl_value slot of
                           None \<Rightarrow> None
                         | Some v \<Rightarrow>
                             (case encode_object_identity
                                     \<lparr>oip_type = ty, oip_generation = sl_generation slot,
                                      oip_slot = of_nat index\<rparr> of
                                None \<Rightarrow> None
                              | Some identity \<Rightarrow> Some (identity, v)))
                   else None)
       [0..<length (reg_slots reg)]"

text \<open>A write through the pointer \<open>resolve\<close> returned.\<close>

definition reg_update :: "u64 \<Rightarrow> ('r \<Rightarrow> 'r) \<Rightarrow> 'r registry \<Rightarrow> 'r registry" where
  "reg_update identity f reg =
     (case decode_object_identity identity of
        None \<Rightarrow> reg
      | Some parts \<Rightarrow>
          let slot = reg_slots reg ! unat (oip_slot parts)
          in slot_set reg (oip_slot parts) (slot\<lparr>sl_value := map_option f (sl_value slot)\<rparr>))"

abbreviation reg_size :: "'r registry \<Rightarrow> nat" where
  "reg_size \<equiv> reg_live_count"

section \<open>The invariant and the abstract table\<close>

definition reg_inv :: "'r registry \<Rightarrow> bool" where
  "reg_inv reg \<longleftrightarrow>
     length (reg_slots reg) \<le> Suc (unat kMaxObjectSlot) \<and>
     reg_initial_generation reg \<noteq> 0 \<and>
     distinct (reg_free_slots reg) \<and>
     (\<forall>i \<in> set (reg_free_slots reg). unat i < length (reg_slots reg)) \<and>
     (\<forall>i < length (reg_slots reg).
        let slot = reg_slots reg ! i
        in sl_generation slot \<noteq> 0 \<and>
           (sl_value slot \<noteq> None \<longrightarrow> \<not> sl_retired slot) \<and>
           (of_nat i \<in> set (reg_free_slots reg) \<longleftrightarrow> sl_value slot = None \<and> \<not> sl_retired slot)) \<and>
     reg_live_count reg = length (filter (\<lambda>slot. sl_value slot \<noteq> None) (reg_slots reg))"

definition reg_entries :: "u8 \<Rightarrow> 'r registry \<Rightarrow> u64 \<rightharpoonup> u64 \<times> 'r" where
  "reg_entries ty reg identity =
     (case decode_object_identity identity of
        None \<Rightarrow> None
      | Some parts \<Rightarrow>
          if oip_type parts \<noteq> ty \<or> unat (oip_slot parts) \<ge> length (reg_slots reg) then None
          else
            let slot = reg_slots reg ! unat (oip_slot parts)
            in if sl_retired slot \<or> sl_generation slot \<noteq> oip_generation parts then None
               else map_option (Pair (sl_owner_session slot)) (sl_value slot))"

definition slot_entry :: "u32 \<Rightarrow> 'r reg_slot \<Rightarrow> (u64 \<times> 'r) option" where
  "slot_entry generation slot =
     (if sl_retired slot \<or> sl_generation slot \<noteq> generation then None
      else map_option (Pair (sl_owner_session slot)) (sl_value slot))"

lemma reg_entries_decoded:
  "decode_object_identity i = Some p \<Longrightarrow>
   reg_entries ty reg i =
     (if oip_type p = ty \<and> unat (oip_slot p) < length (reg_slots reg)
      then slot_entry (oip_generation p) (reg_slots reg ! unat (oip_slot p)) else None)"
  by (auto simp: reg_entries_def slot_entry_def Let_def)

lemma reg_entries_undecoded: "decode_object_identity i = None \<Longrightarrow> reg_entries ty reg i = None"
  by (simp add: reg_entries_def)

lemma reg_resolve_entries:
  "reg_resolve ty s i reg = (case reg_entries ty reg i of
     None \<Rightarrow> None | Some (s', r) \<Rightarrow> if s' = s then Some r else None)"
  by (auto simp: reg_resolve_def reg_entries_def Let_def split: option.splits if_splits)

lemma reg_resolve_any_entries:
  "reg_resolve_any ty i reg = map_option snd (reg_entries ty reg i)"
  by (auto simp: reg_resolve_any_def reg_entries_def Let_def option.map_comp comp_def
      split: option.splits if_splits)

lemma slot_set_sel [simp]:
  "reg_slots (slot_set reg i s) = (reg_slots reg)[unat i := s]"
  "reg_free_slots (slot_set reg i s) = reg_free_slots reg"
  "reg_live_count (slot_set reg i s) = reg_live_count reg"
  "reg_initial_generation (slot_set reg i s) = reg_initial_generation reg"
  by (simp_all add: slot_set_def)

lemma slot_index_roundtrip:
  "i < length (reg_slots reg) \<Longrightarrow> reg_inv reg \<Longrightarrow> unat (of_nat i :: u32) = i"
  by (simp add: reg_inv_def kMaxObjectSlot_def unat_of_nat_u32)

lemma reg_entries_slot_set:
  assumes "unat idx < length (reg_slots reg)" and "decode_object_identity i = Some p"
  shows "reg_entries ty (slot_set reg idx s) i =
     (if oip_type p = ty \<and> oip_slot p = idx then slot_entry (oip_generation p) s
      else reg_entries ty reg i)"
  using assms by (auto simp: reg_entries_decoded nth_list_update word_unat_eq_iff)

lemma reg_entries_slots_cong:
  assumes "reg_slots reg = reg_slots reg'"
  shows "reg_entries ty reg = reg_entries ty reg'"
  unfolding fun_eq_iff reg_entries_def assms by simp

subsection \<open>Choosing a slot\<close>

definition reg_inv_but :: "nat set \<Rightarrow> 'r registry \<Rightarrow> bool" where
  "reg_inv_but B reg \<longleftrightarrow>
     length (reg_slots reg) \<le> Suc (unat kMaxObjectSlot) \<and>
     reg_initial_generation reg \<noteq> 0 \<and>
     distinct (reg_free_slots reg) \<and>
     (\<forall>i \<in> set (reg_free_slots reg). unat i < length (reg_slots reg)) \<and>
     (\<forall>i < length (reg_slots reg).
        let slot = reg_slots reg ! i
        in sl_generation slot \<noteq> 0 \<and>
           (sl_value slot \<noteq> None \<longrightarrow> \<not> sl_retired slot) \<and>
           (of_nat i \<in> set (reg_free_slots reg) \<longleftrightarrow>
              i \<notin> B \<and> sl_value slot = None \<and> \<not> sl_retired slot)) \<and>
     reg_live_count reg = length (filter (\<lambda>slot. sl_value slot \<noteq> None) (reg_slots reg))"

lemma reg_inv_but_empty: "reg_inv_but {} reg = reg_inv reg"
  by (simp add: reg_inv_but_def reg_inv_def)

lemma reg_inv_slot:
  assumes "reg_inv reg" and "i < length (reg_slots reg)"
  shows "sl_generation (reg_slots reg ! i) \<noteq> 0"
    and "sl_value (reg_slots reg ! i) \<noteq> None \<Longrightarrow> \<not> sl_retired (reg_slots reg ! i)"
    and "of_nat i \<in> set (reg_free_slots reg) \<longleftrightarrow>
           sl_value (reg_slots reg ! i) = None \<and> \<not> sl_retired (reg_slots reg ! i)"
  using assms by (auto simp: reg_inv_def Let_def)

lemma u32_of_nat_eq_iff:
  "i < 4294967296 \<Longrightarrow> (of_nat i :: u32) = x \<longleftrightarrow> i = unat x"
  by (metis of_nat_unat unat_of_nat_u32 ucast_id)

lemma pick_slot_free:
  assumes inv: "reg_inv reg" and ne: "reg_free_slots reg \<noteq> []"
    and reg1: "reg1 = reg\<lparr>reg_free_slots := butlast (reg_free_slots reg)\<rparr>"
    and idx: "idx = last (reg_free_slots reg)"
  shows "unat idx < length (reg_slots reg1)" and "reg_inv_but {unat idx} reg1"
    and "sl_value (reg_slots reg1 ! unat idx) = None"
    and "\<not> sl_retired (reg_slots reg1 ! unat idx)"
proof -
  have in_free: "idx \<in> set (reg_free_slots reg)" using ne idx by simp
  then have lt: "unat idx < length (reg_slots reg)" using inv by (auto simp: reg_inv_def)
  then show "unat idx < length (reg_slots reg1)" by (simp add: reg1)
  from reg_inv_slot(3) [OF inv lt] in_free
  show "sl_value (reg_slots reg1 ! unat idx) = None" "\<not> sl_retired (reg_slots reg1 ! unat idx)"
    by (auto simp: reg1)
  have len: "length (reg_slots reg) \<le> 16777216"
    using inv by (simp add: reg_inv_def kMaxObjectSlot_def)
  have sets: "x \<in> set (butlast (reg_free_slots reg)) \<longleftrightarrow> x \<in> set (reg_free_slots reg) \<and> x \<noteq> idx" for x
    using ne inv distinct_butlast_last [OF ne] set_butlast_last [OF ne]
    by (auto simp: reg_inv_def idx)
  have d: "distinct (butlast (reg_free_slots reg))"
    using inv by (simp add: reg_inv_def distinct_butlast)
  have eq: "(of_nat i :: u32) = idx \<longleftrightarrow> i = unat idx" if "i < length (reg_slots reg)" for i
    using that len by (intro u32_of_nat_eq_iff) linarith
  show "reg_inv_but {unat idx} reg1"
    using inv d eq by (auto simp: reg_inv_but_def reg_inv_def reg1 sets Let_def)
qed

lemma pick_slot_grow:
  assumes inv: "reg_inv reg" and nf: "reg_free_slots reg = []"
    and lt: "length (reg_slots reg) \<le> unat kMaxObjectSlot"
    and reg1: "reg1 = reg\<lparr>reg_slots := reg_slots reg @ [new_slot (reg_initial_generation reg)]\<rparr>"
    and idx: "idx = (of_nat (length (reg_slots reg)) :: u32)"
  shows "unat idx = length (reg_slots reg)" and "reg_inv_but {unat idx} reg1"
    and "sl_value (reg_slots reg1 ! unat idx) = None"
    and "\<not> sl_retired (reg_slots reg1 ! unat idx)"
proof -
  have "length (reg_slots reg) < 4294967296"
    using lt by (simp add: kMaxObjectSlot_def)
  then show i: "unat idx = length (reg_slots reg)" by (simp add: idx unat_of_nat_u32)
  show "sl_value (reg_slots reg1 ! unat idx) = None" "\<not> sl_retired (reg_slots reg1 ! unat idx)"
    by (simp_all only: i) (simp_all add: reg1 new_slot_def)
  show "reg_inv_but {unat idx} reg1"
    unfolding i using inv nf lt
    by (auto simp: reg_inv_but_def reg_inv_def reg1 Let_def nth_append new_slot_def less_Suc_eq)
qed

lemma pick_slot_some:
  assumes inv: "reg_inv reg" and pick: "pick_slot reg = Some (idx, reg1)"
  shows "unat idx < length (reg_slots reg1)" and "reg_inv_but {unat idx} reg1"
    and "sl_value (reg_slots reg1 ! unat idx) = None"
    and "\<not> sl_retired (reg_slots reg1 ! unat idx)"
    and "reg_entries ty reg1 = reg_entries ty reg"
proof -
  consider (free) "reg_free_slots reg \<noteq> []" "idx = last (reg_free_slots reg)"
      "reg1 = reg\<lparr>reg_free_slots := butlast (reg_free_slots reg)\<rparr>"
    | (grow) "reg_free_slots reg = []" "length (reg_slots reg) \<le> unat kMaxObjectSlot"
      "idx = of_nat (length (reg_slots reg))"
      "reg1 = reg\<lparr>reg_slots := reg_slots reg @ [new_slot (reg_initial_generation reg)]\<rparr>"
    using pick by (auto simp: pick_slot_def split: if_splits)
  then have "unat idx < length (reg_slots reg1) \<and> reg_inv_but {unat idx} reg1 \<and>
    sl_value (reg_slots reg1 ! unat idx) = None \<and> \<not> sl_retired (reg_slots reg1 ! unat idx) \<and>
    reg_entries ty reg1 = reg_entries ty reg"
  proof cases
    case free
    have "reg_entries ty reg1 = reg_entries ty reg"
      by (rule reg_entries_slots_cong) (simp add: free)
    with pick_slot_free [OF inv free(1,3,2)] show ?thesis by blast
  next
    case grow
    note g = pick_slot_grow [OF inv grow(1,2,4,3)]
    have "reg_entries ty reg1 i = reg_entries ty reg i" for i
      by (cases "decode_object_identity i")
        (auto simp: reg_entries_undecoded reg_entries_decoded grow(4) nth_append less_Suc_eq
          slot_entry_def new_slot_def)
    moreover have "unat idx < length (reg_slots reg1)"
      by (simp only: g(1)) (simp add: grow(4))
    ultimately show ?thesis using g by blast
  qed
  then show "unat idx < length (reg_slots reg1)" "reg_inv_but {unat idx} reg1"
    "sl_value (reg_slots reg1 ! unat idx) = None" "\<not> sl_retired (reg_slots reg1 ! unat idx)"
    "reg_entries ty reg1 = reg_entries ty reg"
    by blast+
qed

subsection \<open>Insertion\<close>

lemma slot_set_live_inv:
  assumes inv: "reg_inv_but {unat idx} reg" and lt: "unat idx < length (reg_slots reg)"
    and old: "sl_value (reg_slots reg ! unat idx) = None"
    and new: "sl_value s \<noteq> None" "\<not> sl_retired s" "sl_generation s \<noteq> 0"
  shows "reg_inv ((slot_set reg idx s)\<lparr>reg_live_count := Suc (reg_live_count reg)\<rparr>)"
proof -
  have "length (filter (\<lambda>slot. sl_value slot \<noteq> None) ((reg_slots reg)[unat idx := s]))
      = Suc (reg_live_count reg)"
    using length_filter_update [OF lt, of "\<lambda>slot. sl_value slot \<noteq> None" s] old new inv
    by (simp add: reg_inv_but_def)
  then show ?thesis
    using inv new lt by (simp add: reg_inv_but_def reg_inv_def Let_def nth_list_update)
qed

lemma slot_set_retired_inv:
  assumes inv: "reg_inv_but {unat idx} reg" and lt: "unat idx < length (reg_slots reg)"
    and old: "sl_value (reg_slots reg ! unat idx) = None"
    and new: "sl_value s = None" "sl_retired s" "sl_generation s \<noteq> 0"
  shows "reg_inv (slot_set reg idx s)"
proof -
  have "length (filter (\<lambda>slot. sl_value slot \<noteq> None) ((reg_slots reg)[unat idx := s]))
      = reg_live_count reg"
    using length_filter_update [OF lt, of "\<lambda>slot. sl_value slot \<noteq> None" s] old new inv
    by (simp add: reg_inv_but_def)
  then show ?thesis
    using inv new lt by (simp add: reg_inv_but_def reg_inv_def Let_def nth_list_update)
qed

lemma reg_inv_but_generation:
  "reg_inv_but B reg \<Longrightarrow> i < length (reg_slots reg) \<Longrightarrow> sl_generation (reg_slots reg ! i) \<noteq> 0"
  by (auto simp: reg_inv_but_def Let_def)

lemma reg_insert_inv:
  assumes inv: "reg_inv reg"
  shows "reg_inv (snd (reg_insert ty owner r reg))"
proof (cases "pick_slot reg")
  case None
  with inv show ?thesis by (simp add: reg_insert_def)
next
  case (Some ir)
  obtain idx reg1 where ir: "ir = (idx, reg1)" by force
  note p = pick_slot_some [OF inv Some [unfolded ir]]
  note g = reg_inv_but_generation [OF p(2) p(1)]
  show ?thesis
    using p g slot_set_live_inv [OF p(2,1,3)] slot_set_retired_inv [OF p(2,1,3)]
    by (simp add: reg_insert_def Some ir Let_def split: option.split)
qed

lemma reg_insert_some:
  assumes inv: "reg_inv reg" and ins: "reg_insert ty owner r reg = (Some i, reg')"
  shows "reg_entries ty reg i = None"
    and "reg_entries ty reg' = (reg_entries ty reg)(i \<mapsto> (owner, r))"
proof -
  from ins obtain idx reg1 where pick: "pick_slot reg = Some (idx, reg1)"
    by (auto simp: reg_insert_def split: option.splits)
  note p = pick_slot_some [OF inv pick]
  define s where "s = (reg_slots reg1 ! unat idx)\<lparr>sl_owner_session := owner, sl_value := Some r\<rparr>"
  define parts where "parts = \<lparr>oip_type = ty, oip_generation = sl_generation s, oip_slot = idx\<rparr>"
  from ins have enc: "encode_object_identity parts = Some i"
    and reg': "reg' = (slot_set reg1 idx s)\<lparr>reg_live_count := Suc (reg_live_count reg1)\<rparr>"
    by (auto simp: reg_insert_def pick Let_def s_def parts_def split: option.splits)
  note dec = decode_encode_identity [OF enc]
  show none: "reg_entries ty reg i = None"
    by (simp add: p(5) [symmetric] reg_entries_decoded [OF dec] slot_entry_def parts_def p(1,3,4))
  have e': "reg_entries ty reg' = reg_entries ty (slot_set reg1 idx s)"
    by (rule reg_entries_slots_cong) (simp add: reg')
  show "reg_entries ty reg' = (reg_entries ty reg)(i \<mapsto> (owner, r))"
  proof
    fix j
    show "reg_entries ty reg' j = ((reg_entries ty reg)(i \<mapsto> (owner, r))) j"
    proof (cases "decode_object_identity j")
      case None
      then have "j \<noteq> i" using dec by auto
      with None show ?thesis by (simp add: reg_entries_undecoded)
    next
      case (Some q)
      have old: "reg_entries ty reg j = reg_entries ty reg1 j" by (simp add: p(5))
      show ?thesis
      proof (cases "oip_type q = ty \<and> oip_slot q = idx")
        case True
        have eq: "oip_generation q = sl_generation s \<longleftrightarrow> j = i"
        proof
          assume "oip_generation q = sl_generation s"
          then have "q = parts" using True by (simp add: parts_def)
          then show "j = i" using encode_decode_identity [OF Some] enc by simp
        next
          assume "j = i"
          then show "oip_generation q = sl_generation s" using dec Some by (auto simp: parts_def)
        qed
        have "reg_entries ty reg1 j = None"
          using True p(1,3,4) by (simp add: reg_entries_decoded [OF Some] slot_entry_def)
        then show ?thesis
          using True eq p(1,3,4)
          by (auto simp: e' reg_entries_slot_set [OF p(1) Some] old slot_entry_def s_def)
      next
        case False
        then have "j \<noteq> i" using Some dec by (auto simp: parts_def)
        with False show ?thesis by (auto simp: e' reg_entries_slot_set [OF p(1) Some] old)
      qed
    qed
  qed
qed

lemma reg_insert_none:
  assumes inv: "reg_inv reg" and ins: "reg_insert ty owner r reg = (None, reg')"
  shows "reg_entries ty' reg' = reg_entries ty' reg"
proof (cases "pick_slot reg")
  case None
  with ins show ?thesis by (simp add: reg_insert_def)
next
  case (Some ir)
  obtain idx reg1 where ir: "ir = (idx, reg1)" by force
  note p = pick_slot_some [OF inv Some [unfolded ir]]
  define s where "s = (reg_slots reg1 ! unat idx)\<lparr>sl_value := None, sl_owner_session := 0, sl_retired := True\<rparr>"
  from ins have s: "sl_retired s" "reg' = slot_set reg1 idx s"
    by (auto simp: reg_insert_def Some ir Let_def s_def split: option.splits)
  show ?thesis
  proof
    fix j
    show "reg_entries ty' reg' j = reg_entries ty' reg j"
    proof (cases "decode_object_identity j")
      case None
      then show ?thesis by (simp add: reg_entries_undecoded)
    next
      case (Some q)
      have "oip_slot q = idx \<Longrightarrow> reg_entries ty' reg1 j = None"
        using p(1,3,4) by (simp add: reg_entries_decoded [OF Some] slot_entry_def)
      then show ?thesis
        by (auto simp: s reg_entries_slot_set [OF p(1) Some] p(5) [symmetric] slot_entry_def)
    qed
  qed
qed

subsection \<open>Release and erasure\<close>

lemma reg_release_sel [simp]:
  "length (reg_slots (reg_release idx reg)) = length (reg_slots reg)"
  "reg_initial_generation (reg_release idx reg) = reg_initial_generation reg"
  by (simp_all add: reg_release_def Let_def)

lemma word_succ_nonzero: "(g :: 'a::len word) \<noteq> - 1 \<Longrightarrow> g + 1 \<noteq> 0"
  by (metis add_cancel_right_left add_diff_cancel diff_0)

lemma reg_release_inv:
  assumes inv: "reg_inv reg" and lt: "unat idx < length (reg_slots reg)"
    and live: "sl_value (reg_slots reg ! unat idx) \<noteq> None"
  shows "reg_inv (reg_release idx reg)"
proof -
  let ?s = "reg_slots reg ! unat idx"
  have count: "length (filter (\<lambda>slot. sl_value slot \<noteq> None) ((reg_slots reg)[unat idx := s]))
      = reg_live_count reg - 1" if "sl_value s = None" for s
    using length_filter_update [OF lt, of "\<lambda>slot. sl_value slot \<noteq> None" s] live that inv
    by (simp add: reg_inv_def)
  have len: "length (reg_slots reg) \<le> 16777216"
    using inv by (simp add: reg_inv_def kMaxObjectSlot_def)
  have notfree: "idx \<notin> set (reg_free_slots reg)"
    using reg_inv_slot(3) [OF inv lt] live by simp
  have eq: "(of_nat i :: u32) = idx \<longleftrightarrow> i = unat idx" if "i < length (reg_slots reg)" for i
    using that len by (intro u32_of_nat_eq_iff) linarith
  note g = reg_inv_slot(1) [OF inv lt]
  show ?thesis
  proof (cases "sl_generation ?s = - 1")
    case True
    with inv lt live notfree g count eq show ?thesis
      by (auto simp: reg_release_def reg_inv_def Let_def nth_list_update)
  next
    case False
    with inv lt live notfree g count eq word_succ_nonzero [OF False] show ?thesis
      by (auto simp: reg_release_def reg_inv_def Let_def nth_list_update)
  qed
qed

lemma reg_entries_release:
  assumes "unat idx < length (reg_slots reg)" and "decode_object_identity j = Some q"
  shows "reg_entries ty (reg_release idx reg) j =
           (if oip_slot q = idx then None else reg_entries ty reg j)"
  using assms
  by (auto simp: reg_entries_decoded reg_release_def Let_def slot_entry_def nth_list_update
      word_unat_eq_iff)

lemma reg_erase_some:
  assumes inv: "reg_inv reg" and res: "reg_resolve ty owner i reg \<noteq> None"
  shows "fst (reg_erase ty owner i reg) = OK"
    and "reg_inv (snd (reg_erase ty owner i reg))"
    and "reg_entries ty (snd (reg_erase ty owner i reg)) = (reg_entries ty reg)(i := None)"
proof -
  from res obtain p where dec: "decode_object_identity i = Some p"
    and p: "oip_type p = ty" "unat (oip_slot p) < length (reg_slots reg)"
      "sl_value (reg_slots reg ! unat (oip_slot p)) \<noteq> None"
      "sl_generation (reg_slots reg ! unat (oip_slot p)) = oip_generation p"
    by (auto simp: reg_resolve_def Let_def split: option.splits if_splits)
  have er: "reg_erase ty owner i reg = (OK, reg_release (oip_slot p) reg)"
    using res by (simp add: reg_erase_def dec)
  show "fst (reg_erase ty owner i reg) = OK" by (simp add: er)
  show "reg_inv (snd (reg_erase ty owner i reg))"
    using reg_release_inv [OF inv p(2,3)] by (simp add: er)
  show "reg_entries ty (snd (reg_erase ty owner i reg)) = (reg_entries ty reg)(i := None)"
  proof
    fix j
    show "reg_entries ty (snd (reg_erase ty owner i reg)) j = ((reg_entries ty reg)(i := None)) j"
    proof (cases "decode_object_identity j")
      case None
      then show ?thesis by (simp add: reg_entries_undecoded)
    next
      case (Some q)
      have same: "j = i" if "oip_slot q = oip_slot p" "oip_type q = ty" "oip_generation q = oip_generation p"
      proof -
        have "q = p" using that p by simp
        then show ?thesis
          using encode_decode_identity [OF Some] encode_decode_identity [OF dec] by simp
      qed
      have lhs: "reg_entries ty (snd (reg_erase ty owner i reg)) j =
          (if oip_slot q = oip_slot p then None else reg_entries ty reg j)"
        by (simp add: er reg_entries_release [OF p(2) Some])
      show ?thesis
      proof (cases "oip_slot q = oip_slot p")
        case True
        have "reg_entries ty reg j = None" if "j \<noteq> i"
          using that same True p(4) by (auto simp: reg_entries_decoded [OF Some, of ty reg] slot_entry_def)
        with True lhs show ?thesis by simp
      next
        case False
        then have "j \<noteq> i" using dec Some by auto
        with False lhs show ?thesis by simp
      qed
    qed
  qed
qed

lemma reg_erase_none:
  "reg_resolve ty owner i reg = None \<Longrightarrow> reg_erase ty owner i reg = (EINVAL, reg)"
  by (simp add: reg_erase_def split: option.split)

lemma reg_entries_owner:
  assumes "reg_entries ty reg i = Some (s, r)" and "decode_object_identity i = Some p"
  shows "unat (oip_slot p) < length (reg_slots reg)"
    and "sl_value (reg_slots reg ! unat (oip_slot p)) = Some r"
    and "sl_owner_session (reg_slots reg ! unat (oip_slot p)) = s"
  using assms by (auto simp: reg_entries_decoded slot_entry_def split: if_splits)

definition drop_session :: "u64 \<Rightarrow> nat set \<Rightarrow> (u64 \<rightharpoonup> u64 \<times> 'r) \<Rightarrow> (u64 \<rightharpoonup> u64 \<times> 'r)" where
  "drop_session s I m = (\<lambda>i. case decode_object_identity i of None \<Rightarrow> None
     | Some p \<Rightarrow> (case m i of None \<Rightarrow> None
        | Some (s', r) \<Rightarrow> if s' = s \<and> unat (oip_slot p) \<in> I then None else Some (s', r)))"

lemma erase_session_from_spec:
  assumes "reg_inv reg" and "distinct idxs" and "set idxs \<subseteq> {..<length (reg_slots reg)}"
    and "erase_session_from idxs s (n, reg) = (n', reg')"
  shows "reg_inv reg' \<and> length (reg_slots reg') = length (reg_slots reg) \<and>
         reg_entries ty reg' = drop_session s (set idxs) (reg_entries ty reg)"
  using assms
proof (induction idxs arbitrary: reg n)
  case Nil
  have "reg_entries ty reg = drop_session s {} (reg_entries ty reg)"
    by (rule ext) (auto simp: drop_session_def reg_entries_undecoded split: option.splits)
  with Nil show ?case by simp
next
  case (Cons k idxs)
  let ?slot = "reg_slots reg ! k"
  have k: "k < length (reg_slots reg)" using Cons.prems(3) by simp
  have uk: "unat (of_nat k :: u32) = k" using slot_index_roundtrip [OF k Cons.prems(1)] .
  show ?case
  proof (cases "sl_value ?slot \<noteq> None \<and> sl_owner_session ?slot = s")
    case True
    let ?reg = "reg_release (of_nat k) reg"
    have i: "reg_inv ?reg"
      using reg_release_inv [of reg "of_nat k"] Cons.prems(1) k True by (simp add: uk)
    have "erase_session_from idxs s (Suc n, ?reg) = (n', reg')"
      using Cons.prems(4) True by (simp add: Let_def)
    from Cons.IH [OF i _ _ this] Cons.prems
    have IH: "reg_inv reg'" "length (reg_slots reg') = length (reg_slots reg)"
      "reg_entries ty reg' = drop_session s (set idxs) (reg_entries ty ?reg)" by auto
    have "drop_session s (set idxs) (reg_entries ty ?reg) j
        = drop_session s (set (k # idxs)) (reg_entries ty reg) j" for j
    proof (cases "decode_object_identity j")
      case None
      then show ?thesis by (simp add: drop_session_def)
    next
      case (Some q)
      have e: "reg_entries ty ?reg j = (if unat (oip_slot q) = k then None else reg_entries ty reg j)"
        using reg_entries_release [of "of_nat k" reg j q ty] k uk Some
        by (auto simp: word_unat_eq_iff)
      show ?thesis
        using True by (auto simp: drop_session_def Some e reg_entries_decoded [OF Some, of ty reg]
            slot_entry_def split: option.splits)
    qed
    with IH show ?thesis by auto
  next
    case False
    have "erase_session_from idxs s (n, reg) = (n', reg')"
      using Cons.prems(4) False by (auto simp: Let_def split: if_splits)
    from Cons.IH [OF Cons.prems(1) _ _ this] Cons.prems
    have IH: "reg_inv reg'" "length (reg_slots reg') = length (reg_slots reg)"
      "reg_entries ty reg' = drop_session s (set idxs) (reg_entries ty reg)" by auto
    have "drop_session s (set idxs) (reg_entries ty reg) j
        = drop_session s (set (k # idxs)) (reg_entries ty reg) j" for j
      using False
      by (cases "decode_object_identity j")
        (auto simp: drop_session_def reg_entries_decoded slot_entry_def split: option.splits)
    with IH show ?thesis by auto
  qed
qed

lemma reg_erase_session_spec:
  assumes inv: "reg_inv reg"
  shows "reg_inv (snd (reg_erase_session s reg))"
    and "reg_entries ty (snd (reg_erase_session s reg)) =
           (\<lambda>i. case reg_entries ty reg i of None \<Rightarrow> None
                | Some (s', r) \<Rightarrow> if s' = s then None else Some (s', r))"
proof -
  obtain n' reg' where e: "erase_session_from [0..<length (reg_slots reg)] s (0, reg) = (n', reg')"
    by force
  note sp = erase_session_from_spec [OF inv _ _ e, of ty]
  have all: "drop_session s {0..<length (reg_slots reg)} (reg_entries ty reg) =
      (\<lambda>i. case reg_entries ty reg i of None \<Rightarrow> None
                | Some (s', r) \<Rightarrow> if s' = s then None else Some (s', r))"
  proof
    fix j
    show "drop_session s {0..<length (reg_slots reg)} (reg_entries ty reg) j =
        (case reg_entries ty reg j of None \<Rightarrow> None
                | Some (s', r) \<Rightarrow> if s' = s then None else Some (s', r))"
      by (cases "decode_object_identity j")
        (auto simp: drop_session_def reg_entries_undecoded split: option.splits
          dest: reg_entries_owner(1))
  qed
  have i: "reg_inv reg'" and
    d: "reg_entries ty reg' = drop_session s {0..<length (reg_slots reg)} (reg_entries ty reg)"
    using sp by (auto simp: atLeast_upt)
  show "reg_inv (snd (reg_erase_session s reg))"
    by (simp add: reg_erase_session_def e i)
  show "reg_entries ty (snd (reg_erase_session s reg)) =
           (\<lambda>i. case reg_entries ty reg i of None \<Rightarrow> None
                | Some (s', r) \<Rightarrow> if s' = s then None else Some (s', r))"
    by (simp only: reg_erase_session_def e snd_conv d all)
qed

subsection \<open>Writes, finiteness and the live count\<close>

lemma reg_update_spec:
  assumes inv: "reg_inv reg" and e: "reg_entries ty reg i = Some (s, r)"
  shows "reg_inv (reg_update i f reg)"
    and "reg_entries ty (reg_update i f reg) = (reg_entries ty reg)(i \<mapsto> (s, f r))"
proof -
  from e obtain p where dec: "decode_object_identity i = Some p"
    by (auto simp: reg_entries_def split: option.splits)
  note o = reg_entries_owner [OF e dec]
  from e dec have ty: "oip_type p = ty" and nr: "\<not> sl_retired (reg_slots reg ! unat (oip_slot p))"
    and g: "sl_generation (reg_slots reg ! unat (oip_slot p)) = oip_generation p"
    by (auto simp: reg_entries_decoded slot_entry_def split: if_splits)
  let ?s = "(reg_slots reg ! unat (oip_slot p))\<lparr>sl_value := Some (f r)\<rparr>"
  have up: "reg_update i f reg = slot_set reg (oip_slot p) ?s"
    by (simp add: reg_update_def dec o Let_def)
  have "length (filter (\<lambda>slot. sl_value slot \<noteq> None) ((reg_slots reg)[unat (oip_slot p) := ?s]))
      = reg_live_count reg"
    using length_filter_update [OF o(1), of "\<lambda>slot. sl_value slot \<noteq> None" ?s] o inv
    by (simp add: reg_inv_def)
  then show "reg_inv (reg_update i f reg)"
    using inv o nr reg_inv_slot [OF inv o(1)]
    by (auto simp: up reg_inv_def Let_def nth_list_update)
  show "reg_entries ty (reg_update i f reg) = (reg_entries ty reg)(i \<mapsto> (s, f r))"
  proof
    fix j
    show "reg_entries ty (reg_update i f reg) j = ((reg_entries ty reg)(i \<mapsto> (s, f r))) j"
    proof (cases "decode_object_identity j")
      case None
      then show ?thesis using dec by (auto simp: reg_entries_undecoded)
    next
      case (Some q)
      have same: "j = i" if "oip_slot q = oip_slot p" "oip_type q = ty" "oip_generation q = oip_generation p"
      proof -
        have "q = p" using that ty by simp
        then show ?thesis
          using encode_decode_identity [OF Some] encode_decode_identity [OF dec] by simp
      qed
      have old: "reg_entries ty reg j = None"
        if "oip_type q = ty" "oip_slot q = oip_slot p" "oip_generation q \<noteq> oip_generation p"
        using that g by (auto simp: reg_entries_decoded [OF Some] slot_entry_def)
      have new: "reg_entries ty (reg_update i f reg) j =
          (if oip_type q = ty \<and> oip_slot q = oip_slot p then slot_entry (oip_generation q) ?s
           else reg_entries ty reg j)"
        by (simp add: up reg_entries_slot_set [OF o(1) Some])
      show ?thesis
      proof (cases "oip_type q = ty \<and> oip_slot q = oip_slot p")
        case True
        show ?thesis
        proof (cases "oip_generation q = oip_generation p")
          case True
          with same \<open>oip_type q = ty \<and> oip_slot q = oip_slot p\<close> have "j = i" by blast
          moreover have "reg_entries ty (reg_update i f reg) j = Some (s, f r)"
            using True \<open>oip_type q = ty \<and> oip_slot q = oip_slot p\<close> o(3) nr g
            by (simp add: new slot_entry_def)
          ultimately show ?thesis by simp
        next
          case False
          then have "j \<noteq> i" using dec Some by auto
          with False True old g show ?thesis by (simp add: new slot_entry_def)
        qed
      next
        case False
        then have "j \<noteq> i" using dec Some ty by auto
        with False show ?thesis by (auto simp: new)
      qed
    qed
  qed
qed

lemma reg_entries_dom_slots:
  assumes inv: "reg_inv reg" and ty: "ty \<noteq> ot_invalid"
  shows "bij_betw (\<lambda>i. unat (oip_slot (the (decode_object_identity i)))) (dom (reg_entries ty reg))
           {k. k < length (reg_slots reg) \<and> sl_value (reg_slots reg ! k) \<noteq> None}"
    (is "bij_betw ?f ?D ?S")
proof (rule bij_betwI')
  fix i j assume i: "i \<in> ?D" and j: "j \<in> ?D"
  from i obtain p where p: "decode_object_identity i = Some p" "oip_type p = ty"
      "sl_generation (reg_slots reg ! unat (oip_slot p)) = oip_generation p"
    by (auto simp: reg_entries_def Let_def split: option.splits if_splits)
  from j obtain q where q: "decode_object_identity j = Some q" "oip_type q = ty"
      "sl_generation (reg_slots reg ! unat (oip_slot q)) = oip_generation q"
    by (auto simp: reg_entries_def Let_def split: option.splits if_splits)
  show "?f i = ?f j \<longleftrightarrow> i = j"
  proof
    assume "?f i = ?f j"
    then have "oip_slot p = oip_slot q" using p q by (simp add: word_unat_eq_iff)
    then have "p = q" using p q by simp
    then show "i = j"
      using encode_decode_identity [OF p(1)] encode_decode_identity [OF q(1)] by simp
  qed simp
next
  fix i assume "i \<in> ?D"
  then show "?f i \<in> ?S"
    by (auto simp: reg_entries_def Let_def split: option.splits if_splits)
next
  fix k assume k: "k \<in> ?S"
  then have lt: "k < length (reg_slots reg)" by simp
  have len: "k \<le> unat kMaxObjectSlot" using inv lt by (simp add: reg_inv_def)
  have uk: "unat (of_nat k :: u32) = k" using slot_index_roundtrip [OF lt inv] .
  let ?p = "\<lparr>oip_type = ty, oip_generation = sl_generation (reg_slots reg ! k), oip_slot = of_nat k\<rparr>"
  have "(of_nat k :: u32) \<le> kMaxObjectSlot" using len uk by (simp add: word_le_nat_alt)
  then obtain i where enc: "encode_object_identity ?p = Some i"
    using encode_identity_total [of ?p] ty reg_inv_slot(1) [OF inv lt] by auto
  from decode_encode_identity [OF enc] k reg_inv_slot(2) [OF inv lt]
  have "i \<in> ?D" and "?f i = k"
    by (auto simp: reg_entries_decoded slot_entry_def uk)
  then show "\<exists>x \<in> ?D. k = ?f x" by blast
qed

lemma length_filter_card: "length (filter P xs) = card {k. k < length xs \<and> P (xs ! k)}"
  by (rule length_filter_conv_card)

lemma reg_entries_finite: "reg_inv reg \<Longrightarrow> ty \<noteq> ot_invalid \<Longrightarrow> finite (dom (reg_entries ty reg))"
  using bij_betw_finite [OF reg_entries_dom_slots] by auto

lemma reg_live_count_card:
  assumes "reg_inv reg" and "ty \<noteq> ot_invalid"
  shows "reg_live_count reg = card (dom (reg_entries ty reg))"
proof -
  have "reg_live_count reg = card {k. k < length (reg_slots reg) \<and> sl_value (reg_slots reg ! k) \<noteq> None}"
    using assms by (simp add: reg_inv_def length_filter_card)
  with bij_betw_same_card [OF reg_entries_dom_slots [OF assms]] show ?thesis by simp
qed

lemma new_registry_inv: "reg_inv (new_registry g)"
  by (simp add: reg_inv_def new_registry_def)

lemma new_registry_entries: "reg_entries ty (new_registry g) = Map.empty"
  by (rule ext) (auto simp: reg_entries_def new_registry_def split: option.splits)

section \<open>The contract of a handle table\<close>

locale handle_table =
  fixes inv :: "'t \<Rightarrow> bool"
    and entries :: "'t \<Rightarrow> u64 \<rightharpoonup> u64 \<times> 'r"
    and ins :: "u64 \<Rightarrow> 'r \<Rightarrow> 't \<Rightarrow> u64 option \<times> 't"
    and res :: "u64 \<Rightarrow> u64 \<Rightarrow> 't \<Rightarrow> 'r option"
    and era :: "u64 \<Rightarrow> u64 \<Rightarrow> 't \<Rightarrow> int \<times> 't"
    and era_session :: "u64 \<Rightarrow> 't \<Rightarrow> nat \<times> 't"
    and upd :: "u64 \<Rightarrow> ('r \<Rightarrow> 'r) \<Rightarrow> 't \<Rightarrow> 't"
  assumes finite_entries: "inv t \<Longrightarrow> finite (dom (entries t))"
    and ins_inv: "inv t \<Longrightarrow> inv (snd (ins s r t))"
    and ins_some: "inv t \<Longrightarrow> ins s r t = (Some i, t') \<Longrightarrow>
          entries t i = None \<and> entries t' = (entries t)(i \<mapsto> (s, r))"
    and ins_none: "inv t \<Longrightarrow> ins s r t = (None, t') \<Longrightarrow> entries t' = entries t"
    and res_entries: "inv t \<Longrightarrow> res s i t = Some r \<longleftrightarrow> entries t i = Some (s, r)"
    and era_ok: "inv t \<Longrightarrow> entries t i = Some (s, r) \<Longrightarrow>
          fst (era s i t) = OK \<and> inv (snd (era s i t)) \<and>
          entries (snd (era s i t)) = (entries t)(i := None)"
    and era_bad: "inv t \<Longrightarrow> res s i t = None \<Longrightarrow> era s i t = (EINVAL, t)"
    and session_inv: "inv t \<Longrightarrow> inv (snd (era_session s t))"
    and session_entries: "inv t \<Longrightarrow> entries (snd (era_session s t)) =
          (\<lambda>i. case entries t i of None \<Rightarrow> None
               | Some (s', r) \<Rightarrow> if s' = s then None else Some (s', r))"
    and upd_ok: "inv t \<Longrightarrow> entries t i = Some (s, r) \<Longrightarrow>
          inv (upd i f t) \<and> entries (upd i f t) = (entries t)(i \<mapsto> (s, f r))"
begin

lemma res_none: "inv t \<Longrightarrow> res s i t = None \<longleftrightarrow> (\<forall>r. entries t i \<noteq> Some (s, r))"
  using res_entries [of t s i] by (metis not_None_eq)

lemma res_owner_unique: "inv t \<Longrightarrow> res s i t = Some r \<Longrightarrow> res s' i t = Some r' \<Longrightarrow> s = s' \<and> r = r'"
  by (simp add: res_entries)

lemma ins_then_res:
  "inv t \<Longrightarrow> ins s r t = (Some i, t') \<Longrightarrow> res s i t' = Some r \<and> res s i t = None"
  using ins_some [of t s r i t'] ins_inv [of t s r]
  by (simp add: res_entries res_none)

lemma ins_frame:
  "inv t \<Longrightarrow> ins s r t = (Some i, t') \<Longrightarrow> j \<noteq> i \<Longrightarrow> res s' j t' = res s' j t"
proof -
  assume a: "inv t" "ins s r t = (Some i, t')" "j \<noteq> i"
  then have "entries t' j = entries t j" using ins_some [of t s r i t'] by simp
  moreover have "inv t'" using ins_inv [of t s r] a by simp
  ultimately show "res s' j t' = res s' j t"
    using a by (metis not_None_eq res_entries)
qed

lemma session_gone: "inv t \<Longrightarrow> res s i (snd (era_session s t)) = None"
  by (auto simp: res_none session_inv session_entries split: option.splits prod.splits)

lemma session_frame:
  "inv t \<Longrightarrow> s' \<noteq> s \<Longrightarrow> res s' i (snd (era_session s t)) = res s' i t"
proof -
  assume a: "inv t" "s' \<noteq> s"
  have "res s' i (snd (era_session s t)) = Some r \<longleftrightarrow> res s' i t = Some r" for r
    using a by (auto simp: res_entries session_inv session_entries split: option.splits prod.splits if_splits)
  then show ?thesis by (metis not_None_eq)
qed

end

lemma reg_handle_table:
  assumes "ty \<noteq> ot_invalid"
  shows "handle_table reg_inv (reg_entries ty) (reg_insert ty) (reg_resolve ty) (reg_erase ty)
           reg_erase_session reg_update"
proof (unfold_locales, goal_cases)
  case (1 t) then show ?case using assms by (rule reg_entries_finite)
next
  case (2 t s r) then show ?case by (rule reg_insert_inv)
next
  case (3 t s r i t') then show ?case using reg_insert_some [of t ty s r i t'] by simp
next
  case (4 t s r t') then show ?case by (rule reg_insert_none)
next
  case (5 t s i r) then show ?case by (auto simp: reg_resolve_entries split: option.splits)
next
  case (6 t i s r)
  then have "reg_resolve ty s i t \<noteq> None" by (simp add: reg_resolve_entries)
  then show ?case using reg_erase_some [OF 6(1)] by blast
next
  case (7 t s i) then show ?case by (simp add: reg_erase_none)
next
  case (8 t s) then show ?case by (rule reg_erase_session_spec)
next
  case (9 t s) then show ?case by (rule reg_erase_session_spec)
next
  case (10 t i s r f) then show ?case using reg_update_spec [of t ty i s r f] by simp
qed

interpretation ctx_reg: handle_table reg_inv "reg_entries ot_context" "reg_insert ot_context"
  "reg_resolve ot_context" "reg_erase ot_context" reg_erase_session reg_update
  by (rule reg_handle_table) simp

interpretation pd_reg: handle_table reg_inv "reg_entries ot_pd" "reg_insert ot_pd"
  "reg_resolve ot_pd" "reg_erase ot_pd" reg_erase_session reg_update
  by (rule reg_handle_table) simp

interpretation mr_reg: handle_table reg_inv "reg_entries ot_mr" "reg_insert ot_mr"
  "reg_resolve ot_mr" "reg_erase ot_mr" reg_erase_session reg_update
  by (rule reg_handle_table) simp

interpretation cq_reg: handle_table reg_inv "reg_entries ot_cq" "reg_insert ot_cq"
  "reg_resolve ot_cq" "reg_erase ot_cq" reg_erase_session reg_update
  by (rule reg_handle_table) simp

interpretation qp_reg: handle_table reg_inv "reg_entries ot_qp" "reg_insert ot_qp"
  "reg_resolve ot_qp" "reg_erase ot_qp" reg_erase_session reg_update
  by (rule reg_handle_table) simp

section \<open>Handles over a whole run\<close>

datatype 'r reg_op =
    Op_insert u64 'r
  | Op_erase u64 u64
  | Op_erase_session u64
  | Op_write u64 "'r \<Rightarrow> 'r"

fun reg_step :: "u8 \<Rightarrow> 'r reg_op \<Rightarrow> 'r registry \<Rightarrow> u64 option \<times> 'r registry" where
  "reg_step ty (Op_insert s r) reg = reg_insert ty s r reg"
| "reg_step ty (Op_erase s i) reg = (None, snd (reg_erase ty s i reg))"
| "reg_step ty (Op_erase_session s) reg = (None, snd (reg_erase_session s reg))"
| "reg_step ty (Op_write i f) reg =
     (None, if reg_resolve_any ty i reg = None then reg else reg_update i f reg)"

fun reg_run :: "u8 \<Rightarrow> 'r reg_op list \<Rightarrow> 'r registry \<Rightarrow> u64 list \<times> 'r registry" where
  "reg_run ty [] reg = ([], reg)"
| "reg_run ty (opn # ops) reg =
     (let (issued, reg1) = reg_step ty opn reg; (rest, reg2) = reg_run ty ops reg1
      in (case issued of None \<Rightarrow> rest | Some i \<Rightarrow> i # rest, reg2))"

definition dead_slot :: "u32 \<Rightarrow> 'r reg_slot \<Rightarrow> bool" where
  "dead_slot g s \<longleftrightarrow> g < sl_generation s \<or> sl_retired s"

definition seen_slot :: "u32 \<Rightarrow> 'r reg_slot \<Rightarrow> bool" where
  "seen_slot g s \<longleftrightarrow> dead_slot g s \<or> sl_generation s = g \<and> sl_value s \<noteq> None"

definition in_slot :: "(u32 \<Rightarrow> 'r reg_slot \<Rightarrow> bool) \<Rightarrow> u8 \<Rightarrow> u64 \<Rightarrow> 'r registry \<Rightarrow> bool" where
  "in_slot P ty i reg \<longleftrightarrow> (\<exists>p. decode_object_identity i = Some p \<and> oip_type p = ty \<and>
     unat (oip_slot p) < length (reg_slots reg) \<and>
     P (oip_generation p) (reg_slots reg ! unat (oip_slot p)))"

definition reg_evolves :: "'r registry \<Rightarrow> 'r registry \<Rightarrow> bool" where
  "reg_evolves reg reg' \<longleftrightarrow> length (reg_slots reg) \<le> length (reg_slots reg') \<and>
     (\<forall>k < length (reg_slots reg). \<forall>g.
        (dead_slot g (reg_slots reg ! k) \<longrightarrow> dead_slot g (reg_slots reg' ! k)) \<and>
        (seen_slot g (reg_slots reg ! k) \<longrightarrow> seen_slot g (reg_slots reg' ! k)))"

lemma reg_evolves_refl [simp]: "reg_evolves reg reg"
  by (simp add: reg_evolves_def)

lemma reg_evolves_trans: "reg_evolves a b \<Longrightarrow> reg_evolves b c \<Longrightarrow> reg_evolves a c"
  unfolding reg_evolves_def by (metis (no_types, opaque_lifting) order_trans order_less_le_trans)

lemma word_less_succ: "(g :: 'a::len word) \<noteq> - 1 \<Longrightarrow> h \<le> g \<Longrightarrow> h < g + 1"
  using word_succ_nonzero [of g] unatSuc [of g]
  by (simp add: word_le_nat_alt word_less_nat_alt add.commute)

lemma reg_evolves_slot_set:
  assumes "\<And>g. dead_slot g (reg_slots reg ! unat idx) \<Longrightarrow> dead_slot g s"
    and "\<And>g. seen_slot g (reg_slots reg ! unat idx) \<Longrightarrow> seen_slot g s"
    and "reg_slots reg' = (reg_slots reg)[unat idx := s]"
  shows "reg_evolves reg reg'"
  using assms by (auto simp: reg_evolves_def nth_list_update_lt)

lemma reg_evolves_release:
  "sl_value (reg_slots reg ! unat idx) \<noteq> None \<Longrightarrow> reg_evolves reg (reg_release idx reg)"
proof -
  let ?s = "reg_slots reg ! unat idx"
  show ?thesis
  proof (cases "sl_generation ?s = - 1")
    case True
    show ?thesis
      by (rule reg_evolves_slot_set [where idx = idx and
            s = "?s\<lparr>sl_value := None, sl_owner_session := 0, sl_retired := True\<rparr>"])
        (auto simp: dead_slot_def seen_slot_def reg_release_def True Let_def)
  next
    case False
    show ?thesis
      by (rule reg_evolves_slot_set [where idx = idx and
            s = "?s\<lparr>sl_value := None, sl_owner_session := 0, sl_generation := sl_generation ?s + 1\<rparr>"])
        (auto simp: dead_slot_def seen_slot_def reg_release_def False Let_def
          intro: word_less_succ [OF False] order_less_imp_le)
  qed
qed

lemma reg_evolves_session:
  "erase_session_from idxs s (n, reg) = (n', reg') \<Longrightarrow> reg_inv reg \<Longrightarrow> distinct idxs \<Longrightarrow>
   set idxs \<subseteq> {..<length (reg_slots reg)} \<Longrightarrow> reg_evolves reg reg'"
proof (induction idxs arbitrary: n reg)
  case Nil
  then show ?case by simp
next
  case (Cons k idxs)
  have uk: "unat (of_nat k :: u32) = k"
    using slot_index_roundtrip [of k reg] Cons.prems by simp
  show ?case
  proof (cases "sl_value (reg_slots reg ! k) \<noteq> None \<and> sl_owner_session (reg_slots reg ! k) = s")
    case True
    let ?reg = "reg_release (of_nat k) reg"
    have i: "reg_inv ?reg"
      using reg_release_inv [of reg "of_nat k"] Cons.prems True by (simp add: uk)
    have "erase_session_from idxs s (Suc n, ?reg) = (n', reg')"
      using Cons.prems(1) True by (simp add: Let_def)
    from Cons.IH [OF this i] Cons.prems have "reg_evolves ?reg reg'" by simp
    moreover have "reg_evolves reg ?reg"
      by (rule reg_evolves_release) (use True uk in simp)
    ultimately show ?thesis using reg_evolves_trans by blast
  next
    case False
    have "erase_session_from idxs s (n, reg) = (n', reg')"
      using Cons.prems(1) False by (auto simp: Let_def split: if_splits)
    from Cons.IH [OF this] Cons.prems show ?thesis by simp
  qed
qed

lemma reg_evolves_pick:
  assumes "reg_inv reg" and "pick_slot reg = Some (idx, reg1)"
  shows "reg_evolves reg reg1"
  using assms
  by (auto simp: pick_slot_def reg_evolves_def nth_append split: if_splits)

lemma reg_step_evolves:
  assumes inv: "reg_inv reg"
  shows "reg_evolves reg (snd (reg_step ty opn reg))"
proof (cases opn)
  case (Op_insert s r)
  show ?thesis
  proof (cases "pick_slot reg")
    case None
    then show ?thesis by (simp add: Op_insert reg_insert_def)
  next
    case (Some ir)
    obtain idx reg1 where ir: "ir = (idx, reg1)" by force
    note p = pick_slot_some [OF inv Some [unfolded ir]]
    have "reg_evolves reg1 (snd (reg_insert ty s r reg))"
      using p(3,4)
      by (auto simp: reg_insert_def Some ir Let_def reg_evolves_def nth_list_update_lt dead_slot_def
          seen_slot_def split: option.splits)
    with reg_evolves_pick [OF inv Some [unfolded ir]] show ?thesis
      by (auto simp: Op_insert intro: reg_evolves_trans)
  qed
next
  case (Op_erase s i)
  show ?thesis
    by (auto simp: Op_erase reg_erase_def reg_resolve_def Let_def split: option.splits if_splits
        intro: reg_evolves_release)
next
  case (Op_erase_session s)
  obtain n' reg' where e: "erase_session_from [0..<length (reg_slots reg)] s (0, reg) = (n', reg')"
    by force
  have "reg_evolves reg reg'" by (rule reg_evolves_session [OF e inv]) auto
  then show ?thesis by (simp add: Op_erase_session reg_erase_session_def e)
next
  case (Op_write i f)
  show ?thesis
    by (auto simp: Op_write reg_update_def reg_evolves_def Let_def nth_list_update_lt dead_slot_def
        seen_slot_def split: option.splits)
qed

lemma reg_step_inv:
  assumes inv: "reg_inv reg"
  shows "reg_inv (snd (reg_step ty opn reg))"
proof (cases opn)
  case (Op_erase s i)
  then show ?thesis
    using inv reg_erase_some(2) [OF inv] reg_erase_none [of ty s i reg]
    by (cases "reg_resolve ty s i reg") auto
next
  case (Op_write i f)
  show ?thesis
  proof (cases "reg_entries ty reg i")
    case None
    then show ?thesis using inv by (simp add: Op_write reg_resolve_any_entries)
  next
    case (Some sr)
    obtain s r where "sr = (s, r)" by force
    with Some reg_update_spec(1) [OF inv, of ty i s r f] show ?thesis
      by (simp add: Op_write reg_resolve_any_entries)
  qed
qed (simp_all add: inv reg_insert_inv reg_erase_session_spec)

lemma reg_run_spec:
  "reg_inv reg \<Longrightarrow> reg_inv (snd (reg_run ty ops reg)) \<and> reg_evolves reg (snd (reg_run ty ops reg))"
proof (induction ops arbitrary: reg)
  case Nil
  then show ?case by simp
next
  case (Cons opn ops)
  obtain iss reg1 where st: "reg_step ty opn reg = (iss, reg1)" by force
  have r1: "reg_inv reg1" "reg_evolves reg reg1"
    using reg_step_inv [OF Cons.prems, of ty opn] reg_step_evolves [OF Cons.prems, of ty opn]
    by (simp_all add: st)
  with Cons.IH [OF r1(1)] show ?case
    by (auto simp: st Let_def split: prod.split intro: reg_evolves_trans)
qed

lemma in_slot_evolves:
  "reg_evolves reg reg' \<Longrightarrow> in_slot dead_slot ty i reg \<Longrightarrow> in_slot dead_slot ty i reg'"
  "reg_evolves reg reg' \<Longrightarrow> in_slot seen_slot ty i reg \<Longrightarrow> in_slot seen_slot ty i reg'"
  unfolding in_slot_def reg_evolves_def by (metis order_less_le_trans)+

lemma dead_unresolvable: "in_slot dead_slot ty i reg \<Longrightarrow> reg_entries ty reg i = None"
  by (auto simp: in_slot_def dead_slot_def reg_entries_decoded slot_entry_def)

lemma erase_dead:
  assumes res: "reg_resolve ty s i reg \<noteq> None"
  shows "in_slot dead_slot ty i (snd (reg_erase ty s i reg))"
proof -
  from res obtain p where dec: "decode_object_identity i = Some p"
    and p: "oip_type p = ty" "unat (oip_slot p) < length (reg_slots reg)"
      "sl_generation (reg_slots reg ! unat (oip_slot p)) = oip_generation p"
    by (auto simp: reg_resolve_def Let_def split: option.splits if_splits)
  have "dead_slot (oip_generation p) (reg_slots (reg_release (oip_slot p) reg) ! unat (oip_slot p))"
    using p by (auto simp: reg_release_def Let_def dead_slot_def intro: word_less_succ)
  with p dec res show ?thesis
    by (auto simp: in_slot_def reg_erase_def)
qed

lemma insert_issues_unseen:
  assumes inv: "reg_inv reg" and ins: "reg_insert ty s r reg = (Some i, reg')"
  shows "\<not> in_slot seen_slot ty i reg" and "in_slot seen_slot ty i reg'"
proof -
  from ins obtain idx reg1 where pick: "pick_slot reg = Some (idx, reg1)"
    by (auto simp: reg_insert_def split: option.splits)
  note p = pick_slot_some [OF inv pick]
  from ins have enc: "encode_object_identity \<lparr>oip_type = ty,
      oip_generation = sl_generation (reg_slots reg1 ! unat idx), oip_slot = idx\<rparr> = Some i"
    and reg': "reg_slots reg' = (reg_slots reg1)[unat idx :=
      (reg_slots reg1 ! unat idx)\<lparr>sl_owner_session := s, sl_value := Some r\<rparr>]"
    by (auto simp: reg_insert_def pick Let_def split: option.splits)
  note dec = decode_encode_identity [OF enc]
  have same: "reg_slots reg ! k = reg_slots reg1 ! k" if "k < length (reg_slots reg)" for k
    using pick that by (auto simp: pick_slot_def nth_append split: if_splits)
  show "\<not> in_slot seen_slot ty i reg"
    using p(3,4) same by (auto simp: in_slot_def dec seen_slot_def dead_slot_def)
  show "in_slot seen_slot ty i reg'"
    using p(1) by (simp add: in_slot_def dec seen_slot_def reg')
qed

lemma reg_run_issued:
  assumes "reg_inv reg"
  shows "distinct (fst (reg_run ty ops reg)) \<and>
         (\<forall>i \<in> set (fst (reg_run ty ops reg)). \<not> in_slot seen_slot ty i reg)"
  using assms
proof (induction ops arbitrary: reg)
  case Nil
  then show ?case by simp
next
  case (Cons opn ops)
  obtain iss reg1 where st: "reg_step ty opn reg = (iss, reg1)" by force
  have r1: "reg_inv reg1" "reg_evolves reg reg1"
    using reg_step_inv [OF Cons.prems, of ty opn] reg_step_evolves [OF Cons.prems, of ty opn]
    by (simp_all add: st)
  note IH = Cons.IH [OF r1(1)]
  have old: "\<not> in_slot seen_slot ty i reg" if "i \<in> set (fst (reg_run ty ops reg1))" for i
    using IH that in_slot_evolves(2) [OF r1(2)] by blast
  show ?case
  proof (cases iss)
    case None
    with IH old show ?thesis by (simp add: st split: prod.split)
  next
    case (Some i)
    with st obtain s r where "opn = Op_insert s r" by (cases opn) auto
    then have "reg_insert ty s r reg = (Some i, reg1)" using st Some by simp
    note n = insert_issues_unseen [OF Cons.prems this]
    have "i \<notin> set (fst (reg_run ty ops reg1))" using IH n(2) by blast
    moreover obtain rest reg2 where "reg_run ty ops reg1 = (rest, reg2)" by force
    ultimately show ?thesis using IH old n(1) by (simp add: st Some)
  qed
qed

lemmas registry_eval = reg_insert_def reg_erase_def reg_resolve_def reg_release_def pick_slot_def
  slot_set_def new_slot_def new_registry_def encode_object_identity_def decode_object_identity_def
  kMaxObjectSlot_def Let_def

section \<open>Properties\<close>

text \<open>
  Object identities: \<open>decode_object_identity\<close> is the exact inverse of
  \<open>encode_object_identity\<close>. Every identity the encoder produces decodes to the parts it was
  made of, and every 64-bit value that decodes at all is the encoding of what it decodes to, so
  no two identities name the same type, generation and slot.
\<close>

theorem identity_roundtrip:
  "decode_object_identity i = Some p \<longleftrightarrow> encode_object_identity p = Some i"
  using decode_encode_identity encode_decode_identity by blast

text \<open>
  C2. No use after free through a handle: once \<open>erase\<close> of a registry has succeeded for an
  identity, no sequence of later insertions, erasures, session clean-ups and record writes
  makes that identity resolve again, although its slot is reused.
\<close>

theorem erased_identity_never_resolves:
  assumes "fst (reg_erase ty s i (snd (reg_run ty before (new_registry g)))) = OK"
  shows "reg_resolve_any ty i
           (snd (reg_run ty later (snd (reg_erase ty s i (snd (reg_run ty before (new_registry g))))))) = None"
proof -
  let ?reg = "snd (reg_run ty before (new_registry g))"
  have inv: "reg_inv ?reg" using reg_run_spec [OF new_registry_inv] by blast
  have res: "reg_resolve ty s i ?reg \<noteq> None"
  proof
    assume "reg_resolve ty s i ?reg = None"
    from reg_erase_none [OF this] assms show False by simp
  qed
  have "reg_evolves (snd (reg_erase ty s i ?reg))
          (snd (reg_run ty later (snd (reg_erase ty s i ?reg))))"
    using reg_run_spec [OF reg_erase_some(2) [OF inv res]] by blast
  then have "in_slot dead_slot ty i (snd (reg_run ty later (snd (reg_erase ty s i ?reg))))"
    using in_slot_evolves(1) erase_dead [OF res] by blast
  then show ?thesis by (simp add: reg_resolve_any_entries dead_unresolvable)
qed

theorem erased_identity_never_resolves_witness:
  "fst (reg_erase ot_pd 7 144115188092633088 (snd (reg_run ot_pd [Op_insert 7 True] (new_registry 1)))) = OK \<and>
   reg_resolve_any ot_pd 144115188092633088 (snd (reg_run ot_pd [Op_insert 8 False]
     (snd (reg_erase ot_pd 7 144115188092633088 (snd (reg_run ot_pd [Op_insert 7 True] (new_registry 1))))))) = None"
proof -
  have h: "fst (reg_erase ot_pd 7 144115188092633088
             (snd (reg_run ot_pd [Op_insert 7 True] (new_registry 1)))) = OK"
    by (simp add: registry_eval)
  show ?thesis using h erased_identity_never_resolves [OF h, of "[Op_insert 8 False]"] by blast
qed

text \<open>
  C14. Freshness: over any sequence of operations on a new registry, the identities \<open>insert\<close>
  returns are pairwise distinct: an identity is never handed out twice, in particular not when a
  slot is reused or when a slot's generation counter reaches its maximum and the slot is retired.
\<close>

theorem issued_identities_distinct: "distinct (fst (reg_run ty ops (new_registry g)))"
  using reg_run_issued [OF new_registry_inv] by blast

text \<open>
  C32. The registry is a finite map: in every reachable registry, a successful \<open>insert\<close> adds
  exactly one binding under an identity that was unbound, a successful \<open>erase\<close> removes exactly
  the binding of its identity, \<open>erase_session\<close> removes exactly the bindings the session owns,
  and \<open>size\<close> is the number of bindings.
\<close>

theorem registry_refines_map:
  assumes "ty \<noteq> ot_invalid" and "reg = snd (reg_run ty ops (new_registry g))"
  shows "reg_size reg = card (dom (reg_entries ty reg)) \<and>
    (case reg_insert ty s r reg of
       (None, reg') \<Rightarrow> reg_entries ty reg' = reg_entries ty reg
     | (Some i, reg') \<Rightarrow> i \<notin> dom (reg_entries ty reg) \<and>
         reg_entries ty reg' = (reg_entries ty reg)(i \<mapsto> (s, r))) \<and>
    (case reg_erase ty s j reg of (st, reg') \<Rightarrow>
       if st = OK then reg_entries ty reg' = (reg_entries ty reg)(j := None) \<and>
                       (\<exists>v. reg_entries ty reg j = Some (s, v))
       else reg' = reg) \<and>
    reg_entries ty (snd (reg_erase_session s reg)) =
      reg_entries ty reg |` {i. \<forall>v. reg_entries ty reg i \<noteq> Some (s, v)}"
proof -
  have inv: "reg_inv reg" using reg_run_spec [OF new_registry_inv] assms(2) by blast
  have ins: "case reg_insert ty s r reg of
       (None, reg') \<Rightarrow> reg_entries ty reg' = reg_entries ty reg
     | (Some i, reg') \<Rightarrow> i \<notin> dom (reg_entries ty reg) \<and>
         reg_entries ty reg' = (reg_entries ty reg)(i \<mapsto> (s, r))"
    using reg_insert_none [OF inv] reg_insert_some [OF inv]
    by (auto split: prod.split option.split)
  have er: "case reg_erase ty s j reg of (st, reg') \<Rightarrow>
       if st = OK then reg_entries ty reg' = (reg_entries ty reg)(j := None) \<and>
                       (\<exists>v. reg_entries ty reg j = Some (s, v))
       else reg' = reg"
  proof (cases "reg_resolve ty s j reg")
    case None
    then show ?thesis by (simp add: reg_erase_none)
  next
    case (Some v)
    then have ne: "reg_resolve ty s j reg \<noteq> None" by simp
    have "reg_entries ty reg j = Some (s, v)"
      using Some by (auto simp: reg_resolve_entries split: option.splits if_splits)
    with reg_erase_some [OF inv ne] show ?thesis by (auto simp: case_prod_beta)
  qed
  have se: "reg_entries ty (snd (reg_erase_session s reg)) =
      reg_entries ty reg |` {i. \<forall>v. reg_entries ty reg i \<noteq> Some (s, v)}"
    unfolding reg_erase_session_spec(2) [OF inv]
    by (rule ext) (auto simp: restrict_map_def split: option.splits)
  show ?thesis using reg_live_count_card [OF inv assms(1)] ins er se by blast
qed

theorem registry_refines_map_witness:
  "reg_size (snd (reg_run ot_cq [Op_insert 3 True, Op_insert 4 False] (new_registry 1))) =
   card (dom (reg_entries ot_cq (snd (reg_run ot_cq [Op_insert 3 True, Op_insert 4 False] (new_registry 1)))))"
  by (rule conjunct1 [OF registry_refines_map]) (simp, rule refl)

end
