(* ===== verification/Wire.thy ===== *)
theory Wire
  imports Ugdr_Prelude "HOL-Library.Monad_Syntax"
begin

unbundle bit_operations_syntax

text \<open>
  The scalar layer of every payload the daemon and its clients exchange: the file-local helpers
  \<open>append\<close>, \<open>read\<close>, \<open>host_to_network64\<close> and \<open>network_to_host64\<close> that
  \<^verbatim>\<open>ipc/protocol.cpp\<close>, \<^verbatim>\<open>control/ipc_adapter.cpp\<close>, \<^verbatim>\<open>control/device_context.cpp\<close>,
  \<^verbatim>\<open>control/pd_mr_cq.cpp\<close>, \<^verbatim>\<open>control/qp.cpp\<close> and \<^verbatim>\<open>control/queue_descriptor.hpp\<close> repeat.
  The host is little-endian (the first branch of the code's \<open>__BYTE_ORDER__\<close> test): the object
  representation of a scalar is its list of bytes, least significant first, and \<open>htons\<close> and
  \<open>htonl\<close> of the C library reverse it.
  The locale \<open>wire_codec\<close> is the contract of an encoder with its decoder.
\<close>

section \<open>Object representations\<close>

fun object_bytes :: "nat \<Rightarrow> 'a::len word \<Rightarrow> bytes" where
  "object_bytes 0 w = []"
| "object_bytes (Suc n) w = ucast w # object_bytes n (drop_bit 8 w)"

fun value_of :: "bytes \<Rightarrow> 'a::len word" where
  "value_of [] = 0"
| "value_of (b # bs) = ucast b OR push_bit 8 (value_of bs)"

lemma length_object_bytes [simp]: "length (object_bytes n w) = n"
  by (induction n arbitrary: w) auto

lemma bit_object_bytes:
  "k < n \<Longrightarrow> bit (object_bytes n w ! k) j \<longleftrightarrow> j < 8 \<and> bit w (8 * k + j)"
proof (induction n arbitrary: w k)
  case 0
  then show ?case by simp
next
  case (Suc n)
  show ?case
  proof (cases k)
    case 0
    then show ?thesis by (auto simp: bit_simps)
  next
    case (Suc k')
    with Suc.IH [of k' "drop_bit 8 w"] Suc.prems show ?thesis
      by (simp add: bit_simps algebra_simps)
  qed
qed

lemma bit_value_of:
  "bit (value_of bs :: 'a::len word) i \<longleftrightarrow>
     i < LENGTH('a) \<and> i < 8 * length bs \<and> bit (bs ! (i div 8)) (i mod 8)"
proof (induction bs arbitrary: i)
  case Nil
  then show ?case by simp
next
  case (Cons b bs)
  show ?case
  proof (cases "i < 8")
    case True
    then show ?thesis by (auto simp: bit_simps)
  next
    case False
    then obtain j where i: "i = 8 + j" by (metis le_Suc_ex not_less)
    have d: "(8 + j) div 8 = Suc (j div 8)" "(8 + j) mod 8 = j mod 8" by simp_all
    show ?thesis
      using Cons.IH [of j]
      by (auto simp: i d bit_simps dest: bit_imp_le_length)
  qed
qed

lemma value_of_object_bytes [wire_simps]:
  "LENGTH('a) \<le> 8 * n \<Longrightarrow> value_of (object_bytes n w) = (w :: 'a::len word)"
proof (rule bit_word_eqI)
  fix i
  assume le: "LENGTH('a) \<le> 8 * n" and i: "i < LENGTH('a)"
  then have "i div 8 < n" by linarith
  then have "bit (object_bytes n w ! (i div 8)) (i mod 8) \<longleftrightarrow> bit w i"
    by (simp add: bit_object_bytes)
  with le i show "bit (value_of (object_bytes n w) :: 'a word) i \<longleftrightarrow> bit w i"
    by (simp add: bit_value_of)
qed

lemma object_bytes_value_of [wire_simps]:
  assumes "length bs = n" and "8 * n \<le> LENGTH('a)"
  shows "object_bytes n (value_of bs :: 'a::len word) = bs"
proof (rule nth_equalityI)
  show "length (object_bytes n (value_of bs :: 'a word)) = length bs" by (simp add: assms)
  fix k assume "k < length (object_bytes n (value_of bs :: 'a word))"
  then have k: "k < n" by simp
  show "object_bytes n (value_of bs :: 'a word) ! k = bs ! k"
  proof (rule bit_word_eqI)
    fix j assume "j < LENGTH(8)"
    then have j: "j < 8" by simp
    with k assms have "8 * k + j < LENGTH('a)" "8 * k + j < 8 * length bs" by linarith+
    moreover have "(8 * k + j) div 8 = k" "(8 * k + j) mod 8 = j" using j by auto
    ultimately show "bit (object_bytes n (value_of bs :: 'a word) ! k) j \<longleftrightarrow> bit (bs ! k) j"
      using k j by (simp add: bit_object_bytes bit_value_of)
  qed
qed

section \<open>Network byte order\<close>

definition htons :: "u16 \<Rightarrow> u16" where
  "htons v = value_of (rev (object_bytes 2 v))"

definition htonl :: "u32 \<Rightarrow> u32" where
  "htonl v = value_of (rev (object_bytes 4 v))"

abbreviation ntohs :: "u16 \<Rightarrow> u16" where "ntohs \<equiv> htons"
abbreviation ntohl :: "u32 \<Rightarrow> u32" where "ntohl \<equiv> htonl"

definition host_to_network64 :: "u64 \<Rightarrow> u64" where
  "host_to_network64 v =
     push_bit 32 (ucast (htonl (ucast v))) OR ucast (htonl (ucast (drop_bit 32 v)))"

definition network_to_host64 :: "u64 \<Rightarrow> u64" where
  "network_to_host64 v = host_to_network64 v"

lemma object_bytes_htons [wire_simps]: "object_bytes 2 (htons v) = rev (object_bytes 2 v)"
  by (simp add: htons_def object_bytes_value_of)

lemma object_bytes_htonl [wire_simps]: "object_bytes 4 (htonl v) = rev (object_bytes 4 v)"
  by (simp add: htonl_def object_bytes_value_of)

lemma ntohs_htons [simp]: "ntohs (htons v) = v"
  by (subst htons_def) (simp add: wire_simps)

lemma ntohl_htonl [simp]: "ntohl (htonl v) = v"
  by (subst htonl_def) (simp add: wire_simps)

lemma htons_inject [simp]: "htons x = htons y \<longleftrightarrow> x = y"
  by (metis ntohs_htons)

lemma htonl_inject [simp]: "htonl x = htonl y \<longleftrightarrow> x = y"
  by (metis ntohl_htonl)

lemma bit_htonl:
  assumes "i < 32"
  shows "bit (htonl v) i \<longleftrightarrow> bit v (8 * (3 - i div 8) + i mod 8)"
proof -
  have k: "i div 8 < 4" using assms by linarith
  then have "rev (object_bytes 4 v) ! (i div 8) = object_bytes 4 v ! (3 - i div 8)"
    by (simp add: rev_nth)
  with k assms show ?thesis
    by (simp add: htonl_def bit_value_of bit_object_bytes)
qed

lemma object_bytes_hton64 [wire_simps]:
  "object_bytes 8 (host_to_network64 v) = rev (object_bytes 8 v)"
proof (rule nth_equalityI)
  show "length (object_bytes 8 (host_to_network64 v)) = length (rev (object_bytes 8 v))" by simp
  fix k assume "k < length (object_bytes 8 (host_to_network64 v))"
  then have k: "k < 8" by simp
  show "object_bytes 8 (host_to_network64 v) ! k = rev (object_bytes 8 v) ! k"
  proof (rule bit_word_eqI)
    fix j assume "j < LENGTH(8)"
    then have j: "j < 8" by simp
    have r: "rev (object_bytes 8 v) ! k = object_bytes 8 v ! (7 - k)"
      using k by (simp add: rev_nth)
    show "bit (object_bytes 8 (host_to_network64 v) ! k) j \<longleftrightarrow> bit (rev (object_bytes 8 v) ! k) j"
    proof (cases "k < 4")
      case True
      have e: "32 + (8 * (3 - k) + j) = 8 * (7 - k) + j" "8 * (3 - k) + j < 32"
        using True j by linarith+
      show ?thesis
        using True j
        by (simp add: r k e bit_object_bytes host_to_network64_def bit_simps bit_htonl)
    next
      case False
      define i where "i = 8 * k + j - 32"
      have i: "i < 32" "8 * k + j = 32 + i" "i div 8 = k - 4" "i mod 8 = j"
        using False k j by (auto simp: i_def div_nat_eqI mod_nat_eqI)
      have e: "8 * (3 - i div 8) + i mod 8 = 8 * (7 - k) + j"
        using i False k by simp
      have lt: "8 * (7 - k) + j < 32" using False k j by linarith
      have hi: "\<not> bit (w :: u32) (32 + i)" for w by (auto dest: bit_imp_le_length)
      show ?thesis
        using i e lt j k hi
        by (simp add: r bit_object_bytes host_to_network64_def bit_simps bit_htonl)
    qed
  qed
qed

lemma host_to_network64_involution [simp]: "host_to_network64 (host_to_network64 v) = v"
proof -
  have "object_bytes 8 (host_to_network64 (host_to_network64 v)) = object_bytes 8 v"
    by (simp add: wire_simps)
  then have "(value_of (object_bytes 8 (host_to_network64 (host_to_network64 v))) :: u64)
           = value_of (object_bytes 8 v)" by simp
  then show ?thesis by (simp add: value_of_object_bytes)
qed

lemma network_to_host64_inverse [simp]: "network_to_host64 (host_to_network64 v) = v"
  by (simp add: network_to_host64_def)

section \<open>Appending and reading scalars\<close>

definition append8 :: "bytes \<Rightarrow> u8 \<Rightarrow> bytes" where
  "append8 bs v = bs @ object_bytes 1 v"

definition append16 :: "bytes \<Rightarrow> u16 \<Rightarrow> bytes" where
  "append16 bs v = bs @ object_bytes 2 v"

definition append32 :: "bytes \<Rightarrow> u32 \<Rightarrow> bytes" where
  "append32 bs v = bs @ object_bytes 4 v"

definition append64 :: "bytes \<Rightarrow> u64 \<Rightarrow> bytes" where
  "append64 bs v = bs @ object_bytes 8 v"

lemmas append_defs [layout_defs] = append8_def append16_def append32_def append64_def

definition read_scalar :: "nat \<Rightarrow> bytes \<Rightarrow> nat \<Rightarrow> ('a::len word \<times> nat) option" where
  "read_scalar n bs off =
     (if off > length bs \<or> length bs - off < n then None
      else Some (value_of (take n (drop off bs)), off + n))"

definition read8 :: "bytes \<Rightarrow> nat \<Rightarrow> (u8 \<times> nat) option" where "read8 = read_scalar 1"
definition read16 :: "bytes \<Rightarrow> nat \<Rightarrow> (u16 \<times> nat) option" where "read16 = read_scalar 2"
definition read32 :: "bytes \<Rightarrow> nat \<Rightarrow> (u32 \<times> nat) option" where "read32 = read_scalar 4"
definition read64 :: "bytes \<Rightarrow> nat \<Rightarrow> (u64 \<times> nat) option" where "read64 = read_scalar 8"

lemmas read_defs [layout_defs] = read8_def read16_def read32_def read64_def read_scalar_def

lemma read_scalar_length: "read_scalar n bs off = Some (v, off') \<Longrightarrow> off' = off + n \<and> off' \<le> length bs"
  by (auto simp: read_scalar_def split: if_splits)

lemma read_scalar_total: "off + n \<le> length bs \<Longrightarrow> read_scalar n bs off \<noteq> None"
  by (auto simp: read_scalar_def)

section \<open>The contract of an encoder and its decoder\<close>

locale wire_codec =
  fixes encode :: "'a \<Rightarrow> int + 'm"
    and decode :: "'m \<Rightarrow> int + 'a"
  assumes decode_encode: "encode x = Inr bs \<Longrightarrow> decode bs = Inr x"
begin

lemma encode_inject: "encode x = Inr bs \<Longrightarrow> encode y = Inr bs \<Longrightarrow> x = y"
  using decode_encode [of x bs] decode_encode [of y bs] by simp

lemma decode_error_not_encoded: "decode bs = Inl e \<Longrightarrow> encode x \<noteq> Inr bs"
  using decode_encode [of x bs] by auto

end

end
