(* ===== verification/Ipc_Protocol.thy ===== *)
theory Ipc_Protocol
  imports Wire
begin

unbundle bit_operations_syntax

text \<open>
  \<^verbatim>\<open>ipc/ipc.hpp\<close> and \<^verbatim>\<open>ipc/protocol.cpp\<close>: the message frame of the Unix socket protocol. A file
  descriptor is its number; \<open>UniqueFd\<close> is a number that is negative when the object is empty. What
  \<open>sendmsg\<close> is given is a \<open>packet\<close>; what \<open>recvmsg\<close> delivers is an argument (\<open>recv_outcome\<close>). A
  status (\<open>std::int32_t\<close>) is an \<open>int\<close>, converted to its 32-bit pattern on the wire.
\<close>

definition kProtocolMagic :: u32 where "kProtocolMagic = 0x49504331"
definition kProtocolMajor :: u16 where "kProtocolMajor = 1"
definition kProtocolMinor :: u16 where "kProtocolMinor = 0"
definition kResponseFlag :: u32 where "kResponseFlag = 1"
definition kAllowedFlags :: u32 where "kAllowedFlags = kResponseFlag"
abbreviation kWireHeaderSize :: nat where "kWireHeaderSize \<equiv> 36"
abbreviation kMaxPayloadSize :: nat where "kMaxPayloadSize \<equiv> 1048576"
abbreviation kMaxFileDescriptors :: nat where "kMaxFileDescriptors \<equiv> 16"

record envelope =
  env_magic :: u32
  env_version_major :: u16
  env_version_minor :: u16
  env_method :: u32
  env_flags :: u32
  env_request_id :: u64
  env_status :: int
  env_payload_length :: u32
  env_fd_count :: u32

record ipc_message =
  msg_envelope :: envelope
  msg_payload :: bytes
  msg_fds :: "int list"

definition new_envelope :: envelope where
  "new_envelope = \<lparr>env_magic = kProtocolMagic, env_version_major = kProtocolMajor,
     env_version_minor = kProtocolMinor, env_method = 0, env_flags = 0, env_request_id = 0,
     env_status = 0, env_payload_length = 0, env_fd_count = 0\<rparr>"

definition new_message :: ipc_message where
  "new_message = \<lparr>msg_envelope = new_envelope, msg_payload = [], msg_fds = []\<rparr>"

section \<open>The header\<close>

definition encode_header :: "envelope \<Rightarrow> bytes" where
  "encode_header e =
     append32 (append32 (append32 (append64 (append32 (append32 (append16 (append16 (append32 []
       (htonl (env_magic e))) (htons (env_version_major e))) (htons (env_version_minor e)))
       (htonl (env_method e))) (htonl (env_flags e))) (host_to_network64 (env_request_id e)))
       (htonl (of_int (env_status e)))) (htonl (env_payload_length e))) (htonl (env_fd_count e))"

text \<open>The header's scalars are read at fixed offsets, without a bounds check: the caller has
  received at least 36 bytes.\<close>

definition scalar_at :: "nat \<Rightarrow> bytes \<Rightarrow> nat \<Rightarrow> 'a::len word" where
  "scalar_at n buffer off = value_of (take n (drop off buffer))"

definition decode_header :: "bytes \<Rightarrow> envelope" where
  "decode_header buffer =
     \<lparr>env_magic = ntohl (scalar_at 4 buffer 0), env_version_major = ntohs (scalar_at 2 buffer 4),
      env_version_minor = ntohs (scalar_at 2 buffer 6), env_method = ntohl (scalar_at 4 buffer 8),
      env_flags = ntohl (scalar_at 4 buffer 12),
      env_request_id = network_to_host64 (scalar_at 8 buffer 16),
      env_status = sint (ntohl (scalar_at 4 buffer 24)),
      env_payload_length = ntohl (scalar_at 4 buffer 28), env_fd_count = ntohl (scalar_at 4 buffer 32)\<rparr>"

lemma length_encode_header [simp]: "length (encode_header e) = kWireHeaderSize"
  by (simp add: encode_header_def append_defs)

definition int32 :: "int \<Rightarrow> bool" where
  "int32 n \<longleftrightarrow> - 2147483648 \<le> n \<and> n < 2147483648"

lemma sint_of_int32: "int32 n \<Longrightarrow> sint (of_int n :: u32) = n"
  by (simp add: int32_def sint_sbintrunc' signed_take_bit_int_eq_self_iff)

lemma decode_encode_header:
  assumes "int32 (env_status e)"
  shows "decode_header (encode_header e @ rest) = e"
  using assms
  by (simp add: decode_header_def encode_header_def append_defs scalar_at_def value_of_object_bytes sint_of_int32)

section \<open>Sending\<close>

record packet =
  pk_bytes :: bytes
  pk_fds :: "int list"

text \<open>\<open>sendmsg\<close> is the result of the system call on the packet: \<open>Inl\<close> errno or \<open>Inr\<close> the number of
  bytes sent. The second component of the result is the packet handed to it, if any.\<close>

definition send_message :: "(packet \<Rightarrow> int + int) \<Rightarrow> int \<Rightarrow> ipc_message \<Rightarrow> int \<times> packet option" where
  "send_message sendmsg socket_fd m =
     (if socket_fd < 0 \<or> length (msg_payload m) > kMaxPayloadSize \<or>
         length (msg_fds m) > kMaxFileDescriptors \<or> length (msg_payload m) > 0xffffffff
      then (- EINVAL, None)
      else if \<not> list_all (\<lambda>fd. fd \<ge> 0) (msg_fds m) then (- EBADF, None)
      else
        let e = (msg_envelope m)\<lparr>env_payload_length := of_nat (length (msg_payload m)),
                                 env_fd_count := of_nat (length (msg_fds m))\<rparr>;
            packet = \<lparr>pk_bytes = encode_header e @ msg_payload m, pk_fds = msg_fds m\<rparr>
        in case sendmsg packet of
             Inl err \<Rightarrow> (- err, Some packet)
           | Inr sent \<Rightarrow>
               ((if sent = int (kWireHeaderSize + length (msg_payload m)) then OK else - EIO), Some packet))"

section \<open>Receiving\<close>

record control_message =
  cm_level_type_ok :: bool
  cm_len :: nat
  cm_values :: "int list"

datatype recv_outcome =
    Recv_eof
  | Recv_error int
  | Recv_data (recv_bytes: bytes) (recv_truncated: bool) (recv_control: "control_message list")

datatype receive_result =
    Rr_message ipc_message
  | Rr_eof
  | Rr_error int

abbreviation cmsg_len_0 :: nat where "cmsg_len_0 \<equiv> 16"

text \<open>The loop over the control messages: the descriptors collected so far and whether the control
  data is invalid. Descriptors are collected even from a message that is invalid, so that they
  are closed.\<close>

fun collect_fds :: "control_message list \<Rightarrow> int list \<Rightarrow> bool \<Rightarrow> int list \<times> bool" where
  "collect_fds [] descriptors invalid = (descriptors, invalid)"
| "collect_fds (c # cs) descriptors invalid =
     (if \<not> cm_level_type_ok c \<or> cm_len c < cmsg_len_0 then collect_fds cs descriptors True
      else
        let data_size = cm_len c - cmsg_len_0;
            count = data_size div 4
        in collect_fds cs (descriptors @ take count (cm_values c))
             (invalid \<or> data_size mod 4 \<noteq> 0 \<or> length descriptors + count > kMaxFileDescriptors))"

text \<open>The second component lists the descriptors that are closed because the result does not hold
  them.\<close>

definition receive_message :: "recv_outcome \<Rightarrow> int \<Rightarrow> receive_result \<times> int list" where
  "receive_message recvmsg socket_fd =
     (if socket_fd < 0 then (Rr_error EBADF, [])
      else case recvmsg of
        Recv_eof \<Rightarrow> (Rr_eof, [])
      | Recv_error err \<Rightarrow> (Rr_error err, [])
      | Recv_data bs truncated control \<Rightarrow>
          (case collect_fds control [] truncated of
             (descriptors, invalid_control) \<Rightarrow>
               if invalid_control \<or> length bs < kWireHeaderSize then (Rr_error EMSGSIZE, descriptors)
               else
                 let e = decode_header bs; payload = drop kWireHeaderSize bs
                 in if env_magic e \<noteq> kProtocolMagic \<or> env_version_major e \<noteq> kProtocolMajor \<or>
                       env_version_minor e > kProtocolMinor
                    then (Rr_error EPROTONOSUPPORT, descriptors)
                    else if env_flags e AND NOT kAllowedFlags \<noteq> 0 \<or>
                            unat (env_payload_length e) \<noteq> length payload \<or>
                            unat (env_fd_count e) \<noteq> length descriptors
                    then (Rr_error EPROTO, descriptors)
                    else (Rr_message \<lparr>msg_envelope = e, msg_payload = payload, msg_fds = descriptors\<rparr>, [])))"

text \<open>A sequenced-packet socket delivers a packet whole, with its descriptors (renumbered by the
  kernel) in one \<open>SCM_RIGHTS\<close> message if there are any.\<close>

definition deliver :: "packet \<Rightarrow> int list \<Rightarrow> recv_outcome" where
  "deliver p fds = Recv_data (pk_bytes p) False
     (if fds = [] then [] else [\<lparr>cm_level_type_ok = True, cm_len = cmsg_len_0 + 4 * length fds, cm_values = fds\<rparr>])"

lemma collect_deliver: "length fds \<le> kMaxFileDescriptors \<Longrightarrow>
  collect_fds (recv_control (deliver p fds)) [] False = (fds, False)"
  by (simp add: deliver_def)

lemma receive_sent:
  assumes m: "send_message sendmsg sfd m = (st, Some p)"
    and e: "env_magic (msg_envelope m) = kProtocolMagic" "env_version_major (msg_envelope m) = kProtocolMajor"
      "env_version_minor (msg_envelope m) = kProtocolMinor" "env_flags (msg_envelope m) AND NOT kAllowedFlags = 0"
      "int32 (env_status (msg_envelope m))"
    and fds: "length fds = length (msg_fds m)" and sock: "rfd \<ge> 0"
  shows "receive_message (deliver p fds) rfd =
    (Rr_message (m\<lparr>msg_envelope := (msg_envelope m)\<lparr>env_payload_length := of_nat (length (msg_payload m)),
       env_fd_count := of_nat (length (msg_fds m))\<rparr>, msg_fds := fds\<rparr>), [])"
proof -
  let ?e = "(msg_envelope m)\<lparr>env_payload_length := of_nat (length (msg_payload m)), env_fd_count := of_nat (length (msg_fds m))\<rparr>"
  have lim: "length (msg_payload m) \<le> kMaxPayloadSize" "length (msg_fds m) \<le> kMaxFileDescriptors"
    and p: "p = \<lparr>pk_bytes = encode_header ?e @ msg_payload m, pk_fds = msg_fds m\<rparr>"
    using m by (auto simp: send_message_def Let_def split: if_splits sum.splits)
  have dec: "decode_header (encode_header ?e @ msg_payload m) = ?e"
    by (rule decode_encode_header) (simp add: e)
  have u: "unat (of_nat (length (msg_payload m)) :: u32) = length (msg_payload m)"
    "unat (of_nat (length (msg_fds m)) :: u32) = length (msg_fds m)"
    using lim by (simp_all add: unat_of_nat_u32)
  have "collect_fds (recv_control (deliver p fds)) [] False = (fds, False)"
    using lim(2) fds by (intro collect_deliver) simp
  then show ?thesis
    using sock e fds u by (simp add: receive_message_def deliver_def p dec Let_def)
qed

end
