(* ===== verification/Ipc_Adapter.thy ===== *)
theory Ipc_Adapter
  imports Ipc_Protocol
begin

unbundle bit_operations_syntax

text \<open>
  \<^verbatim>\<open>control/ipc_adapter.cpp\<close>: control requests and responses as payloads of IPC messages, and
  \<^verbatim>\<open>control/control.cpp\<close>: the handler that decodes a request, lets a control service answer it and
  encodes the answer. Encoders and decoders return \<open>Inl\<close> of the negative errno or \<open>Inr\<close> of what
  they store through their out-parameter.
\<close>

section \<open>Requests and responses\<close>

abbreviation kControlPayloadVersion :: u16 where "kControlPayloadVersion \<equiv> 1"
abbreviation kRequestFixedSize :: nat where "kRequestFixedSize \<equiv> 32"
abbreviation kResponseFixedSize :: nat where "kResponseFixedSize \<equiv> 20"

record control_request =
  rq_method :: u32
  rq_object_identity :: u64
  rq_length :: u64
  rq_access :: u32
  rq_opaque :: bytes
  rq_fd_indices :: "u32 list"

record control_response =
  rp_method :: u32
  rp_status :: int
  rp_object_identity :: u64
  rp_opaque :: bytes
  rp_fd_indices :: "u32 list"

definition new_response :: control_response where
  "new_response = \<lparr>rp_method = 0, rp_status = 0, rp_object_identity = 0, rp_opaque = [], rp_fd_indices = []\<rparr>"

definition valid_indices :: "u32 list \<Rightarrow> nat \<Rightarrow> bool" where
  "valid_indices indices descriptor_count \<longleftrightarrow> list_all (\<lambda>i. unat i < descriptor_count) indices"

definition validate_lengths :: "nat \<Rightarrow> nat \<Rightarrow> nat \<Rightarrow> int" where
  "validate_lengths opaque_size index_count fixed_size =
     (if opaque_size > 0xffffffff \<or> index_count > 0xffffffff \<or>
         index_count > (kMaxPayloadSize - fixed_size) div 4 then - EMSGSIZE
      else if opaque_size > kMaxPayloadSize - fixed_size - index_count * 4 then - EMSGSIZE
      else OK)"

definition append_indices :: "bytes \<Rightarrow> u32 list \<Rightarrow> bytes" where
  "append_indices payload indices = foldl (\<lambda>p i. append32 p (htonl i)) payload indices"

fun read_indices :: "bytes \<Rightarrow> nat \<Rightarrow> nat \<Rightarrow> u32 list option" where
  "read_indices payload off 0 = Some []"
| "read_indices payload off (Suc n) =
     (case read32 payload off of
        None \<Rightarrow> None
      | Some (wire_value, off') \<Rightarrow> map_option ((#) (ntohl wire_value)) (read_indices payload off' n))"

definition encode_request :: "control_request \<Rightarrow> int list \<Rightarrow> int + ipc_message" where
  "encode_request r fds =
     (if rq_method r = 0 \<or> length fds > kMaxFileDescriptors \<or> \<not> valid_indices (rq_fd_indices r) (length fds)
      then Inl (- EINVAL)
      else
        let length_status = validate_lengths (length (rq_opaque r)) (length (rq_fd_indices r)) kRequestFixedSize
        in if length_status \<noteq> 0 then Inl length_status
           else
             let p1 = append32 (append32 (append32 (append64 (append64 (append16 (append16 []
                        (htons kControlPayloadVersion)) 0) (host_to_network64 (rq_object_identity r)))
                        (host_to_network64 (rq_length r))) (htonl (rq_access r)))
                        (htonl (of_nat (length (rq_opaque r))))) (htonl (of_nat (length (rq_fd_indices r))));
                 payload = append_indices (p1 @ rq_opaque r) (rq_fd_indices r)
             in Inr \<lparr>msg_envelope = new_envelope\<lparr>env_method := rq_method r,
                       env_payload_length := of_nat (length payload), env_fd_count := of_nat (length fds)\<rparr>,
                     msg_payload = payload, msg_fds = fds\<rparr>)"

text \<open>The fixed part of a request: its scalars as they are on the wire, and the offset behind them.\<close>

definition read_request_header :: "bytes \<Rightarrow> (u16 \<times> u16 \<times> u64 \<times> u64 \<times> u32 \<times> u32 \<times> u32 \<times> nat) option" where
  "read_request_header payload =
     do { (version, off) \<leftarrow> read16 payload 0; (reserved, off) \<leftarrow> read16 payload off;
          (identity, off) \<leftarrow> read64 payload off; (len, off) \<leftarrow> read64 payload off;
          (access, off) \<leftarrow> read32 payload off; (opaque_size, off) \<leftarrow> read32 payload off;
          (index_count, off) \<leftarrow> read32 payload off;
          Some (version, reserved, identity, len, access, opaque_size, index_count, off) }"

definition decode_request :: "ipc_message \<Rightarrow> int + (control_request \<times> int list)" where
  "decode_request m =
     (let e = msg_envelope m; payload = msg_payload m in
      if env_method e = 0 \<or> env_flags e AND kResponseFlag \<noteq> 0 then Inl (- EINVAL)
      else if length (msg_fds m) > kMaxFileDescriptors \<or> unat (env_fd_count e) \<noteq> length (msg_fds m) \<or>
              unat (env_payload_length e) \<noteq> length payload \<or> length payload < kRequestFixedSize
      then Inl (- EPROTO)
      else case read_request_header payload of
          None \<Rightarrow> Inl (- EPROTO)
        | Some (version, reserved, identity, len, access, opaque_size, index_count, off) \<Rightarrow>
            if ntohs version \<noteq> kControlPayloadVersion \<or> reserved \<noteq> 0 then Inl (- EPROTONOSUPPORT)
            else
              let opq = unat (ntohl opaque_size); idx = unat (ntohl index_count)
              in if opq > length payload - off \<or> length payload - off - opq \<noteq> idx * 4 then Inl (- EPROTO)
                 else case read_indices payload (off + opq) idx of
                     None \<Rightarrow> Inl (- EPROTO)
                   | Some indices \<Rightarrow>
                       if \<not> valid_indices indices (length (msg_fds m)) then Inl (- EPROTO)
                       else Inr (\<lparr>rq_method = env_method e, rq_object_identity = network_to_host64 identity,
                                  rq_length = network_to_host64 len, rq_access = ntohl access,
                                  rq_opaque = take opq (drop off payload), rq_fd_indices = indices\<rparr>,
                                 msg_fds m))"

definition encode_response :: "control_response \<Rightarrow> int list \<Rightarrow> int + ipc_message" where
  "encode_response r fds =
     (if rp_method r = 0 \<or> length fds > kMaxFileDescriptors \<or> \<not> valid_indices (rp_fd_indices r) (length fds)
      then Inl (- EINVAL)
      else
        let length_status = validate_lengths (length (rp_opaque r)) (length (rp_fd_indices r)) kResponseFixedSize
        in if length_status \<noteq> 0 then Inl length_status
           else
             let p1 = append32 (append32 (append64 (append16 (append16 []
                        (htons kControlPayloadVersion)) 0) (host_to_network64 (rp_object_identity r)))
                        (htonl (of_nat (length (rp_opaque r))))) (htonl (of_nat (length (rp_fd_indices r))));
                 payload = append_indices (p1 @ rp_opaque r) (rp_fd_indices r)
             in Inr \<lparr>msg_envelope = new_envelope\<lparr>env_method := rp_method r, env_flags := kResponseFlag,
                       env_status := rp_status r, env_payload_length := of_nat (length payload),
                       env_fd_count := of_nat (length fds)\<rparr>,
                     msg_payload = payload, msg_fds = fds\<rparr>)"

definition read_response_header :: "bytes \<Rightarrow> (u16 \<times> u16 \<times> u64 \<times> u32 \<times> u32 \<times> nat) option" where
  "read_response_header payload =
     do { (version, off) \<leftarrow> read16 payload 0; (reserved, off) \<leftarrow> read16 payload off;
          (identity, off) \<leftarrow> read64 payload off; (opaque_size, off) \<leftarrow> read32 payload off;
          (index_count, off) \<leftarrow> read32 payload off;
          Some (version, reserved, identity, opaque_size, index_count, off) }"

definition decode_response :: "ipc_message \<Rightarrow> int + (control_response \<times> int list)" where
  "decode_response m =
     (let e = msg_envelope m; payload = msg_payload m in
      if env_method e = 0 \<or> env_flags e AND kResponseFlag = 0 then Inl (- EINVAL)
      else if length (msg_fds m) > kMaxFileDescriptors \<or> unat (env_fd_count e) \<noteq> length (msg_fds m) \<or>
              unat (env_payload_length e) \<noteq> length payload \<or> length payload < kResponseFixedSize
      then Inl (- EPROTO)
      else case read_response_header payload of
          None \<Rightarrow> Inl (- EPROTO)
        | Some (version, reserved, identity, opaque_size, index_count, off) \<Rightarrow>
            if ntohs version \<noteq> kControlPayloadVersion \<or> reserved \<noteq> 0 then Inl (- EPROTONOSUPPORT)
            else
              let opq = unat (ntohl opaque_size); idx = unat (ntohl index_count)
              in if opq > length payload - off \<or> length payload - off - opq \<noteq> idx * 4 then Inl (- EPROTO)
                 else case read_indices payload (off + opq) idx of
                     None \<Rightarrow> Inl (- EPROTO)
                   | Some indices \<Rightarrow>
                       if \<not> valid_indices indices (length (msg_fds m)) then Inl (- EPROTO)
                       else Inr (\<lparr>rp_method = env_method e, rp_status = env_status e,
                                  rp_object_identity = network_to_host64 identity,
                                  rp_opaque = take opq (drop off payload), rp_fd_indices = indices\<rparr>,
                                 msg_fds m))"

section \<open>Round trips\<close>

definition index_bytes :: "u32 list \<Rightarrow> bytes" where
  "index_bytes indices = concat (map (\<lambda>i. object_bytes 4 (htonl i)) indices)"

lemma append_indices_eq: "append_indices payload indices = payload @ index_bytes indices"
  unfolding append_indices_def index_bytes_def
  by (induction indices arbitrary: payload) (simp_all add: append32_def)

lemma length_index_bytes [simp]: "length (index_bytes is) = 4 * length is"
  by (induction "is") (simp_all add: index_bytes_def)

lemma read_indices_append:
  "read_indices (pre @ index_bytes is) (length pre) (length is) = Some is"
proof (induction "is" arbitrary: pre)
  case Nil
  then show ?case by simp
next
  case (Cons i "is")
  have "read32 (pre @ index_bytes (i # is)) (length pre) = Some (htonl i, length pre + 4)"
    by (simp add: read32_def read_scalar_def index_bytes_def value_of_object_bytes)
  moreover have "pre @ index_bytes (i # is) = (pre @ object_bytes 4 (htonl i)) @ index_bytes is"
    by (simp add: index_bytes_def)
  ultimately show ?case using Cons [of "pre @ object_bytes 4 (htonl i)"] by simp
qed

lemma validate_lengths_OK:
  assumes "validate_lengths n k fixed = 0" "fixed \<le> 32"
  shows "fixed + n + 4 * k \<le> kMaxPayloadSize" "n < 4294967296" "k < 4294967296"
  using assms by (auto simp: validate_lengths_def split: if_splits)

lemma decode_encode_request:
  assumes "encode_request r fds = Inr m"
  shows "decode_request m = Inr (r, fds)"
proof -
  let ?head = "object_bytes 2 (htons kControlPayloadVersion) @ object_bytes 2 (0 :: u16) @
     object_bytes 8 (host_to_network64 (rq_object_identity r)) @ object_bytes 8 (host_to_network64 (rq_length r)) @
     object_bytes 4 (htonl (rq_access r)) @ object_bytes 4 (htonl (of_nat (length (rq_opaque r)))) @
     object_bytes 4 (htonl (of_nat (length (rq_fd_indices r))))"
  from assms have g: "rq_method r \<noteq> 0" "length fds \<le> kMaxFileDescriptors"
    "valid_indices (rq_fd_indices r) (length fds)"
    "validate_lengths (length (rq_opaque r)) (length (rq_fd_indices r)) kRequestFixedSize = 0"
    by (auto simp: encode_request_def Let_def not_less split: if_splits)
  note len = validate_lengths_OK [OF g(4) order_refl]
  define payload where "payload = ?head @ rq_opaque r @ index_bytes (rq_fd_indices r)"
  have m: "m = \<lparr>msg_envelope = new_envelope\<lparr>env_method := rq_method r,
        env_payload_length := of_nat (length payload), env_fd_count := of_nat (length fds)\<rparr>,
      msg_payload = payload, msg_fds = fds\<rparr>"
    using assms g by (simp add: encode_request_def append_indices_eq append_defs payload_def Let_def)
  have plen: "length payload = 32 + length (rq_opaque r) + 4 * length (rq_fd_indices r)"
    by (simp add: payload_def)
  have rd: "read16 payload 0 = Some (htons kControlPayloadVersion, 2)" "read16 payload 2 = Some (0, 4)"
    "read64 payload 4 = Some (host_to_network64 (rq_object_identity r), 12)"
    "read64 payload 12 = Some (host_to_network64 (rq_length r), 20)"
    "read32 payload 20 = Some (htonl (rq_access r), 24)"
    "read32 payload 24 = Some (htonl (of_nat (length (rq_opaque r))), 28)"
    "read32 payload 28 = Some (htonl (of_nat (length (rq_fd_indices r))), 32)"
    by (simp_all add: read_defs payload_def value_of_object_bytes)
  have sz: "length payload < 4294967296" "\<not> length payload < 32"
    "\<not> length payload - 32 < length (rq_opaque r)"
    "length payload - 32 - length (rq_opaque r) = length (rq_fd_indices r) * 4"
    using plen len by simp_all
  have ri: "read_indices payload (32 + length (rq_opaque r)) (length (rq_fd_indices r)) = Some (rq_fd_indices r)"
    using read_indices_append [of "?head @ rq_opaque r"] by (simp add: payload_def)
  have u: "unat (of_nat (length (rq_opaque r)) :: u32) = length (rq_opaque r)"
    "unat (of_nat (length (rq_fd_indices r)) :: u32) = length (rq_fd_indices r)"
    "unat (of_nat (length payload) :: u32) = length payload" "unat (of_nat (length fds) :: u32) = length fds"
    using len g(2) sz(1) by (simp_all add: unat_of_nat_u32)
  have opq: "take (length (rq_opaque r)) (drop 32 payload) = rq_opaque r" by (simp add: payload_def)
  show ?thesis
    using g rd ri u opq sz by (simp add: decode_request_def read_request_header_def m Let_def new_envelope_def)
qed

lemma decode_encode_response:
  assumes "encode_response r fds = Inr m"
  shows "decode_response m = Inr (r, fds)"
proof -
  let ?head = "object_bytes 2 (htons kControlPayloadVersion) @ object_bytes 2 (0 :: u16) @
     object_bytes 8 (host_to_network64 (rp_object_identity r)) @
     object_bytes 4 (htonl (of_nat (length (rp_opaque r)))) @
     object_bytes 4 (htonl (of_nat (length (rp_fd_indices r))))"
  from assms have g: "rp_method r \<noteq> 0" "length fds \<le> kMaxFileDescriptors"
    "valid_indices (rp_fd_indices r) (length fds)"
    "validate_lengths (length (rp_opaque r)) (length (rp_fd_indices r)) kResponseFixedSize = 0"
    by (auto simp: encode_response_def Let_def not_less split: if_splits)
  have "kResponseFixedSize \<le> 32" by simp
  note len = validate_lengths_OK [OF g(4) this]
  define payload where "payload = ?head @ rp_opaque r @ index_bytes (rp_fd_indices r)"
  have m: "m = \<lparr>msg_envelope = new_envelope\<lparr>env_method := rp_method r, env_flags := kResponseFlag,
        env_status := rp_status r, env_payload_length := of_nat (length payload), env_fd_count := of_nat (length fds)\<rparr>,
      msg_payload = payload, msg_fds = fds\<rparr>"
    using assms g by (simp add: encode_response_def append_indices_eq append_defs payload_def Let_def)
  have plen: "length payload = 20 + length (rp_opaque r) + 4 * length (rp_fd_indices r)"
    by (simp add: payload_def)
  have rd: "read16 payload 0 = Some (htons kControlPayloadVersion, 2)" "read16 payload 2 = Some (0, 4)"
    "read64 payload 4 = Some (host_to_network64 (rp_object_identity r), 12)"
    "read32 payload 12 = Some (htonl (of_nat (length (rp_opaque r))), 16)"
    "read32 payload 16 = Some (htonl (of_nat (length (rp_fd_indices r))), 20)"
    by (simp_all add: read_defs payload_def value_of_object_bytes)
  have sz: "length payload < 4294967296" "\<not> length payload < 20"
    "\<not> length payload - 20 < length (rp_opaque r)"
    "length payload - 20 - length (rp_opaque r) = length (rp_fd_indices r) * 4"
    using plen len by simp_all
  have ri: "read_indices payload (20 + length (rp_opaque r)) (length (rp_fd_indices r)) = Some (rp_fd_indices r)"
    using read_indices_append [of "?head @ rp_opaque r"] by (simp add: payload_def)
  have u: "unat (of_nat (length (rp_opaque r)) :: u32) = length (rp_opaque r)"
    "unat (of_nat (length (rp_fd_indices r)) :: u32) = length (rp_fd_indices r)"
    "unat (of_nat (length payload) :: u32) = length payload" "unat (of_nat (length fds) :: u32) = length fds"
    using len g(2) sz(1) by (simp_all add: unat_of_nat_u32)
  have opq: "take (length (rp_opaque r)) (drop 20 payload) = rp_opaque r" by (simp add: payload_def)
  have fl: "kResponseFlag AND kResponseFlag \<noteq> 0" by (simp add: kResponseFlag_def)
  show ?thesis
    using g rd ri u opq sz fl by (simp add: decode_response_def read_response_header_def m Let_def new_envelope_def)
qed

interpretation request_codec: wire_codec "\<lambda>(r, fds). encode_request r fds" decode_request
  by unfold_locales (auto dest: decode_encode_request)

interpretation response_codec: wire_codec "\<lambda>(r, fds). encode_response r fds" decode_response
  by unfold_locales (auto dest: decode_encode_response)

section \<open>The control handler\<close>

text \<open>A control service is an argument: from its state, a session and a decoded request it makes a
  response with descriptors, and a new state.\<close>

type_synonym 's control_service =
  "'s \<Rightarrow> u64 \<Rightarrow> control_request \<times> int list \<Rightarrow> (control_response \<times> int list) \<times> 's"

definition unsupported_handle :: "'s control_service" where
  "unsupported_handle st session_id request =
     ((new_response\<lparr>rp_method := rq_method (fst request), rp_status := EOPNOTSUPP,
        rp_object_identity := rq_object_identity (fst request)\<rparr>, []), st)"

definition control_ipc_handle :: "'s control_service \<Rightarrow> 's \<Rightarrow> u64 \<Rightarrow> ipc_message \<Rightarrow> ipc_message option \<times> 's" where
  "control_ipc_handle service st session_id request =
     (let method = env_method (msg_envelope request) in
      case decode_request request of
        Inl decode_status \<Rightarrow>
          (Some (new_message\<lparr>msg_envelope := new_envelope\<lparr>env_method := method, env_status := - decode_status\<rparr>\<rparr>), st)
      | Inr decoded \<Rightarrow>
          (case service st session_id decoded of
             ((response, fds), st') \<Rightarrow>
               (case encode_response (response\<lparr>rp_method := method\<rparr>) fds of
                  Inr m \<Rightarrow> (Some m, st')
                | Inl encode_status \<Rightarrow>
                    (Some (new_message\<lparr>msg_envelope := new_envelope\<lparr>env_method := method,
                       env_status := - encode_status\<rparr>\<rparr>), st'))))"

section \<open>Properties\<close>

text \<open>C39. Control messages survive the wire: what \<open>encode_request\<close> or \<open>encode_response\<close> produces is
  decoded to the same fields, opaque bytes, descriptor indices and descriptors, for every size the
  encoder accepts.\<close>

theorem control_codec_roundtrip:
  "(encode_request r fds = Inr m \<longrightarrow> decode_request m = Inr (r, fds)) \<and>
   (encode_response p gds = Inr n \<longrightarrow> decode_response n = Inr (p, gds))"
  using request_codec.decode_encode [of "(r, fds)"] response_codec.decode_encode [of "(p, gds)"] by auto

definition demo_request :: control_request where
  "demo_request = \<lparr>rq_method = 3, rq_object_identity = 5, rq_length = 0, rq_access = 1, rq_opaque = [7],
     rq_fd_indices = [0]\<rparr>"

theorem control_codec_roundtrip_witness:
  "\<exists>m n. encode_request demo_request [6] = Inr m \<and> decode_request m = Inr (demo_request, [6]) \<and>
     encode_response (new_response\<lparr>rp_method := 3\<rparr>) [] = Inr n \<and>
     decode_response n = Inr (new_response\<lparr>rp_method := 3\<rparr>, [])"
proof -
  obtain m where m: "encode_request demo_request [6] = Inr m"
    by (simp add: encode_request_def demo_request_def valid_indices_def validate_lengths_def Let_def)
  obtain n where n: "encode_response (new_response\<lparr>rp_method := 3\<rparr>) [] = Inr n"
    by (simp add: encode_response_def new_response_def valid_indices_def validate_lengths_def Let_def)
  show ?thesis
    using m n control_codec_roundtrip [of demo_request "[6]" m "new_response\<lparr>rp_method := 3\<rparr>" "[]" n] by blast
qed

text \<open>C40. Decoding never trusts the peer: a request the decoder accepts has only descriptor indices
  below the number of descriptors received, its opaque bytes lie inside the payload, and the
  declared sizes account for every byte of it.\<close>

theorem decode_request_sound:
  assumes "decode_request m = Inr (r, fds)"
  shows "fds = msg_fds m \<and> length fds \<le> kMaxFileDescriptors \<and>
    list_all (\<lambda>i. unat i < length fds) (rq_fd_indices r) \<and>
    rq_opaque r = take (length (rq_opaque r)) (drop kRequestFixedSize (msg_payload m)) \<and>
    kRequestFixedSize + length (rq_opaque r) + 4 * length (rq_fd_indices r) = length (msg_payload m)"
proof -
  have len: "read_indices p off n = Some is \<Longrightarrow> length is = n" for p off n "is"
    by (induction p off n arbitrary: "is" rule: read_indices.induct) (auto split: option.splits)
  have off: "read_request_header p = Some (a, b, c, d, e, f, g, off) \<Longrightarrow> off = kRequestFixedSize" for p a b c d e f g off
    by (auto simp: read_request_header_def read_defs split: if_splits)
  show ?thesis
    using assms
    by (auto simp: decode_request_def Let_def valid_indices_def dest!: len off
        split: if_splits option.splits)
qed

theorem decode_request_sound_witness:
  "\<exists>m. decode_request m = Inr (demo_request, [6]) \<and>
     kRequestFixedSize + length (rq_opaque demo_request) + 4 * length (rq_fd_indices demo_request) = length (msg_payload m)"
proof -
  obtain m where m: "encode_request demo_request [6] = Inr m"
    by (simp add: encode_request_def demo_request_def valid_indices_def validate_lengths_def Let_def)
  have "decode_request m = Inr (demo_request, [6])" by (rule decode_encode_request [OF m])
  from this decode_request_sound [OF this] show ?thesis by blast
qed

end
