(* ===== verification/Ipc_Session.thy ===== *)
theory Ipc_Session
  imports Ipc_Protocol
begin

unbundle bit_operations_syntax

text \<open>
  \<^verbatim>\<open>ipc/client.cpp\<close> and \<^verbatim>\<open>ipc/server.cpp\<close>: the two ends of the control socket. The results of the
  system calls are arguments. The server's handler is an argument too: \<open>handle\<close> answers a request
  (\<open>None\<close> when it throws) and \<open>on_disc\<close> is its \<open>on_disconnect\<close>, both on the handler's state, which
  the server's record carries. \<open>connections_\<close> is an association list in the order the code's map
  is iterated in.
\<close>

abbreviation (input) EINTR :: int where "EINTR \<equiv> 4"
abbreviation (input) ENAMETOOLONG :: int where "ENAMETOOLONG \<equiv> 36"
abbreviation (input) EADDRINUSE :: int where "EADDRINUSE \<equiv> 98"
abbreviation (input) ECONNRESET :: int where "ECONNRESET \<equiv> 104"
abbreviation (input) EISCONN :: int where "EISCONN \<equiv> 106"
abbreviation (input) ENOTCONN :: int where "ENOTCONN \<equiv> 107"
abbreviation (input) EALREADY :: int where "EALREADY \<equiv> 114"
abbreviation sun_path_size :: nat where "sun_path_size \<equiv> 108"

section \<open>The client\<close>

record ipc_client =
  ic_socket :: int
  ic_next_request_id :: u64

definition new_client :: ipc_client where
  "new_client = \<lparr>ic_socket = -1, ic_next_request_id = 1\<rparr>"

definition client_connect :: "int + int \<Rightarrow> int option \<Rightarrow> string \<Rightarrow> ipc_client \<Rightarrow> int \<times> ipc_client" where
  "client_connect socket_call connect_call socket_path c =
     (if ic_socket c \<ge> 0 then (- EISCONN, c)
      else if socket_path = '''' \<or> length socket_path \<ge> sun_path_size then (- ENAMETOOLONG, c)
      else case socket_call of
        Inl err \<Rightarrow> (- err, c)
      | Inr candidate \<Rightarrow>
          (case connect_call of
             Some err \<Rightarrow> (- err, c)
           | None \<Rightarrow> (OK, \<lparr>ic_socket = candidate, ic_next_request_id = 1\<rparr>)))"

text \<open>The result is the status, the client, the packet handed to \<open>sendmsg\<close> and the response.\<close>

definition client_call ::
  "(packet \<Rightarrow> int + int) \<Rightarrow> recv_outcome \<Rightarrow> u32 \<Rightarrow> bytes \<Rightarrow> int list \<Rightarrow> bool \<Rightarrow> ipc_client \<Rightarrow>
   int \<times> ipc_client \<times> packet option \<times> ipc_message option" where
  "client_call sendmsg recvmsg call_method payload fds have_response c =
     (if ic_socket c < 0 then (- ENOTCONN, c, None, None)
      else if call_method = 0 \<or> \<not> have_response then (- EINVAL, c, None, None)
      else
        let request_id = ic_next_request_id c;
            next_id = (if request_id + 1 = 0 then 1 else request_id + 1);
            c' = c\<lparr>ic_next_request_id := next_id\<rparr>;
            request = \<lparr>msg_envelope = new_envelope\<lparr>env_method := call_method, env_request_id := request_id\<rparr>,
                       msg_payload = payload, msg_fds = fds\<rparr>
        in case send_message sendmsg (ic_socket c) request of
             (send_status, pkt) \<Rightarrow>
               if send_status \<noteq> OK then (send_status, c', pkt, None)
               else case fst (receive_message recvmsg (ic_socket c)) of
                   Rr_eof \<Rightarrow> (- ECONNRESET, c', pkt, None)
                 | Rr_error err \<Rightarrow> (- err, c', pkt, None)
                 | Rr_message m \<Rightarrow>
                     if env_flags (msg_envelope m) AND kResponseFlag = 0 \<or>
                        env_request_id (msg_envelope m) \<noteq> request_id \<or> env_method (msg_envelope m) \<noteq> call_method
                     then (- EPROTO, c', pkt, None)
                     else (OK, c', pkt, Some m))"

definition client_close :: "ipc_client \<Rightarrow> ipc_client" where
  "client_close c = c\<lparr>ic_socket := -1\<rparr>"

section \<open>The server\<close>

record 'h ipc_server =
  sv_handler :: 'h
  sv_listener :: int
  sv_connections :: "(int \<times> u64) list"
  sv_socket_path :: string
  sv_socket_device :: u64
  sv_socket_inode :: u64
  sv_next_session_id :: u64
  sv_owns_socket_path :: bool

definition new_server :: "'h \<Rightarrow> 'h ipc_server" where
  "new_server h = \<lparr>sv_handler = h, sv_listener = -1, sv_connections = [], sv_socket_path = '''',
     sv_socket_device = 0, sv_socket_inode = 0, sv_next_session_id = 1, sv_owns_socket_path = False\<rparr>"

text \<open>A \<open>stat\<close> of the socket path: whether it is a socket, its device and inode.\<close>

record path_stat =
  ps_is_socket :: bool
  ps_device :: u64
  ps_inode :: u64

text \<open>\<open>remove_socket_path\<close>; the first component says whether the path is unlinked.\<close>

definition remove_socket_path :: "path_stat option \<Rightarrow> 'h ipc_server \<Rightarrow> bool \<times> 'h ipc_server" where
  "remove_socket_path lstat sv =
     ((case lstat of
         None \<Rightarrow> False
       | Some st \<Rightarrow> sv_owns_socket_path sv \<and> sv_socket_path sv \<noteq> '''' \<and> ps_is_socket st \<and>
           ps_device st = sv_socket_device sv \<and> ps_inode st = sv_socket_inode sv),
      sv\<lparr>sv_owns_socket_path := False, sv_socket_path := '''', sv_socket_device := 0, sv_socket_inode := 0\<rparr>)"

text \<open>The system calls of \<open>start\<close>: \<open>st_lstat\<close> is \<open>None\<close> when the path exists and \<open>Some errno\<close> when
  the call fails; the other options hold the errno of a failing call.\<close>

record start_calls =
  st_lstat :: "int option"
  st_socket :: "int + int"
  st_bind :: "int option"
  st_bound_lstat :: "path_stat option"
  st_listen :: "int option"
  st_remove_lstat :: "path_stat option"

definition server_start :: "start_calls \<Rightarrow> string \<Rightarrow> 'h ipc_server \<Rightarrow> int \<times> bool \<times> 'h ipc_server" where
  "server_start sys socket_path sv =
     (if sv_listener sv \<ge> 0 then (- EALREADY, False, sv)
      else if socket_path = '''' \<or> length socket_path \<ge> sun_path_size then (- ENAMETOOLONG, False, sv)
      else case st_lstat sys of
        None \<Rightarrow> (- EADDRINUSE, False, sv)
      | Some err \<Rightarrow>
         if err \<noteq> ENOENT then (- err, False, sv)
         else case st_socket sys of
           Inl err \<Rightarrow> (- err, False, sv)
         | Inr listener \<Rightarrow>
            (case st_bind sys of
               Some err \<Rightarrow> (- err, False, sv)
             | None \<Rightarrow>
                (case st_bound_lstat sys of
                   None \<Rightarrow> (- EIO, False, sv)
                 | Some st \<Rightarrow>
                    if \<not> ps_is_socket st then (- EIO, False, sv)
                    else
                      let sv1 = sv\<lparr>sv_owns_socket_path := True, sv_socket_path := socket_path,
                                   sv_socket_device := ps_device st, sv_socket_inode := ps_inode st\<rparr>
                      in case st_listen sys of
                           Some err \<Rightarrow>
                             (case remove_socket_path (st_remove_lstat sys) sv1 of
                                (unlinked, sv2) \<Rightarrow> (- err, unlinked, sv2))
                         | None \<Rightarrow> (OK, False, sv1\<lparr>sv_listener := listener, sv_next_session_id := 1\<rparr>))))"

text \<open>The loop of \<open>accept_ready_connections\<close> over the outcomes of \<open>accept4\<close>; the list ends where the
  call would block.\<close>

fun accept_ready_connections :: "(int + int) list \<Rightarrow> 'h ipc_server \<Rightarrow> int \<times> 'h ipc_server" where
  "accept_ready_connections [] sv = (OK, sv)"
| "accept_ready_connections (Inl err # rest) sv =
     (if err = EAGAIN then (OK, sv)
      else if err = EINTR then accept_ready_connections rest sv
      else (- err, sv))"
| "accept_ready_connections (Inr accepted # rest) sv =
     (let sid = sv_next_session_id sv;
          next_id = (if sid + 1 = 0 then 1 else sid + 1)
      in accept_ready_connections rest
           (sv\<lparr>sv_connections := sv_connections sv @
                 (if accepted \<in> fst ` set (sv_connections sv) then [] else [(accepted, sid)]),
               sv_next_session_id := next_id\<rparr>))"

definition close_session :: "(u64 \<Rightarrow> 'h \<Rightarrow> 'h) \<Rightarrow> int \<Rightarrow> 'h ipc_server \<Rightarrow> 'h ipc_server" where
  "close_session on_disc socket_fd sv =
     (case map_of (sv_connections sv) socket_fd of
        None \<Rightarrow> sv
      | Some sid \<Rightarrow>
          sv\<lparr>sv_connections := filter (\<lambda>c. fst c \<noteq> socket_fd) (sv_connections sv),
             sv_handler := on_disc sid (sv_handler sv)\<rparr>)"

record conn_io =
  io_pollin :: bool
  io_error :: bool
  io_hangup :: bool
  io_recv :: recv_outcome
  io_sendmsg :: "packet \<Rightarrow> int + int"

text \<open>The body of the loop over the ready descriptors. The last component is the response handed to
  \<open>sendmsg\<close>, if any.\<close>

definition serve_connection ::
  "('h \<Rightarrow> u64 \<Rightarrow> ipc_message \<Rightarrow> ipc_message option \<times> 'h) \<Rightarrow> (u64 \<Rightarrow> 'h \<Rightarrow> 'h) \<Rightarrow> conn_io \<Rightarrow> int \<Rightarrow>
   'h ipc_server \<Rightarrow> 'h ipc_server \<times> packet option" where
  "serve_connection handle on_disc io fd sv =
     (case map_of (sv_connections sv) fd of
        None \<Rightarrow> (sv, None)
      | Some sid \<Rightarrow>
          (let (sv1, close1, sent) =
             (if \<not> io_pollin io then (sv, io_error io, None)
              else case fst (receive_message (io_recv io) fd) of
                  Rr_eof \<Rightarrow> (sv, True, None)
                | Rr_error err \<Rightarrow> (sv, io_error io \<or> err \<noteq> EAGAIN, None)
                | Rr_message request \<Rightarrow>
                    (case handle (sv_handler sv) sid request of
                       (answer, h) \<Rightarrow>
                         let response = (case answer of Some m \<Rightarrow> m
                               | None \<Rightarrow> new_message\<lparr>msg_envelope := new_envelope\<lparr>env_status := EIO\<rparr>\<rparr>);
                             framed = response\<lparr>msg_envelope := (msg_envelope response)
                               \<lparr>env_magic := kProtocolMagic, env_version_major := kProtocolMajor,
                                env_version_minor := kProtocolMinor,
                                env_method := env_method (msg_envelope request),
                                env_flags := kResponseFlag,
                                env_request_id := env_request_id (msg_envelope request)\<rparr>\<rparr>
                         in case send_message (io_sendmsg io) fd framed of
                              (st, pkt) \<Rightarrow> (sv\<lparr>sv_handler := h\<rparr>, io_error io \<or> st \<noteq> OK, pkt)))
           in (if close1 \<or> io_hangup io then close_session on_disc fd sv1 else sv1, sent)))"

fun serve_all ::
  "('h \<Rightarrow> u64 \<Rightarrow> ipc_message \<Rightarrow> ipc_message option \<times> 'h) \<Rightarrow> (u64 \<Rightarrow> 'h \<Rightarrow> 'h) \<Rightarrow> (int \<Rightarrow> conn_io) \<Rightarrow>
   int list \<Rightarrow> 'h ipc_server \<Rightarrow> 'h ipc_server" where
  "serve_all handle on_disc io [] sv = sv"
| "serve_all handle on_disc io (fd # fds) sv =
     serve_all handle on_disc io fds (fst (serve_connection handle on_disc (io fd) fd sv))"

record poll_calls =
  pl_ready :: "int + int"
  pl_listener_ready :: bool
  pl_accepts :: "(int + int) list"
  pl_io :: "int \<Rightarrow> conn_io"

definition poll_once ::
  "('h \<Rightarrow> u64 \<Rightarrow> ipc_message \<Rightarrow> ipc_message option \<times> 'h) \<Rightarrow> (u64 \<Rightarrow> 'h \<Rightarrow> 'h) \<Rightarrow> poll_calls \<Rightarrow>
   'h ipc_server \<Rightarrow> int \<times> 'h ipc_server" where
  "poll_once handle on_disc sys sv =
     (if sv_listener sv < 0 then (- ENOTCONN, sv)
      else
        let descriptors = map fst (sv_connections sv)
        in case pl_ready sys of
             Inl err \<Rightarrow> ((if err = EINTR then OK else - err), sv)
           | Inr ready \<Rightarrow>
               if ready = 0 then (OK, sv)
               else case (if pl_listener_ready sys then accept_ready_connections (pl_accepts sys) sv
                          else (OK, sv)) of
                      (accept_status, sv1) \<Rightarrow>
                        if accept_status \<noteq> OK then (accept_status, sv1)
                        else (OK, serve_all handle on_disc (pl_io sys) descriptors sv1))"

fun close_all :: "(u64 \<Rightarrow> 'h \<Rightarrow> 'h) \<Rightarrow> int list \<Rightarrow> 'h ipc_server \<Rightarrow> 'h ipc_server" where
  "close_all on_disc [] sv = sv"
| "close_all on_disc (fd # fds) sv = close_all on_disc fds (close_session on_disc fd sv)"

definition server_close :: "(u64 \<Rightarrow> 'h \<Rightarrow> 'h) \<Rightarrow> path_stat option \<Rightarrow> 'h ipc_server \<Rightarrow> bool \<times> 'h ipc_server" where
  "server_close on_disc lstat sv =
     remove_socket_path lstat
       ((close_all on_disc (map fst (sv_connections sv)) sv)\<lparr>sv_listener := -1\<rparr>)"

section \<open>Sessions of a server\<close>

definition session_ids :: "'h ipc_server \<Rightarrow> u64 set" where
  "session_ids sv = snd ` set (sv_connections sv)"

definition server_inv :: "'h ipc_server \<Rightarrow> bool" where
  "server_inv sv \<longleftrightarrow>
     distinct (map fst (sv_connections sv)) \<and> distinct (map snd (sv_connections sv)) \<and>
     (\<forall>sid \<in> session_ids sv. 0 < sid \<and> sid < sv_next_session_id sv) \<and> 0 < sv_next_session_id sv"

lemma close_all_none: "sv_connections (close_all on_disc (map fst (sv_connections sv)) sv) = []"
proof -
  have "set (sv_connections (close_all on_disc fds sv)) = {c \<in> set (sv_connections sv). fst c \<notin> set fds}"
    for fds and sv :: "'a ipc_server"
  proof (induction fds arbitrary: sv)
    case (Cons fd fds)
    have "set (sv_connections (close_session on_disc fd sv)) = {c \<in> set (sv_connections sv). fst c \<noteq> fd}"
      by (auto simp: close_session_def map_of_eq_None_iff split: option.split)
    then show ?case using Cons by auto
  qed simp
  from this [of "map fst (sv_connections sv)" sv] have "set (sv_connections (close_all on_disc (map fst (sv_connections sv)) sv)) = {}" by auto
  then show ?thesis by simp
qed

text \<open>What the server relies on of its handler, and gives to it: \<open>hinv S h\<close> says that the handler's
  state \<open>h\<close> holds nothing of sessions outside \<open>S\<close>.\<close>

locale session_handler =
  fixes hinv :: "u64 set \<Rightarrow> 'h \<Rightarrow> bool"
    and handle :: "'h \<Rightarrow> u64 \<Rightarrow> ipc_message \<Rightarrow> ipc_message option \<times> 'h"
    and on_disc :: "u64 \<Rightarrow> 'h \<Rightarrow> 'h"
  assumes hinv_handle: "hinv S h \<Longrightarrow> sid \<in> S \<Longrightarrow> hinv S (snd (handle h sid m))"
    and hinv_disc: "hinv S h \<Longrightarrow> hinv (S - {sid}) (on_disc sid h)"
    and hinv_mono: "hinv S h \<Longrightarrow> S \<subseteq> T \<Longrightarrow> hinv T h"
begin

definition sinv :: "'h ipc_server \<Rightarrow> bool" where
  "sinv sv \<longleftrightarrow> server_inv sv \<and> hinv (session_ids sv) (sv_handler sv)"

lemma close_session_inv:
  assumes "sinv sv"
  shows "sinv (close_session on_disc fd sv)"
proof (cases "map_of (sv_connections sv) fd")
  case None
  then show ?thesis using assms by (simp add: close_session_def)
next
  case (Some sid)
  let ?cs = "sv_connections sv" and ?t = "close_session on_disc fd sv"
  have d: "distinct (map fst ?cs)" "distinct (map snd ?cs)" using assms by (auto simp: sinv_def server_inv_def)
  have mem: "(fd, sid) \<in> set ?cs" using Some by (rule map_of_SomeD)
  have ids: "session_ids ?t = session_ids sv - {sid}"
  proof -
    have "snd c \<noteq> sid \<longleftrightarrow> fst c \<noteq> fd" if "c \<in> set ?cs" for c
      using that mem d by (metis distinct_map eq_key_imp_eq_value fst_conv inj_onD prod.collapse snd_conv)
    then show ?thesis using Some by (auto simp: session_ids_def close_session_def image_iff)
  qed
  have "distinct (map fst (sv_connections ?t))" "distinct (map snd (sv_connections ?t))"
    using d Some by (simp_all add: close_session_def distinct_map_filter)
  moreover have "hinv (session_ids ?t) (sv_handler ?t)"
    using hinv_disc [of "session_ids sv" "sv_handler sv" sid] assms Some ids
    by (simp add: sinv_def close_session_def)
  moreover have "sv_next_session_id ?t = sv_next_session_id sv" by (simp add: close_session_def split: option.split)
  ultimately show ?thesis using assms ids by (auto simp: sinv_def server_inv_def)
qed

lemma serve_connection_inv:
  assumes "sinv sv"
  shows "sinv (fst (serve_connection handle on_disc io fd sv))"
proof (cases "map_of (sv_connections sv) fd")
  case None
  then show ?thesis using assms by (simp add: serve_connection_def)
next
  case (Some sid)
  then have sid: "sid \<in> session_ids sv" by (force simp: session_ids_def dest: map_of_SomeD)
  have upd: "sinv (sv\<lparr>sv_handler := snd (handle (sv_handler sv) sid m)\<rparr>)" for m
    using hinv_handle [of "session_ids sv" "sv_handler sv" sid m] assms sid
    by (simp add: sinv_def server_inv_def session_ids_def)
  show ?thesis
    using assms upd close_session_inv
    by (auto simp: serve_connection_def Some Let_def split: receive_result.split prod.split)
       (metis snd_conv)+
qed

lemma serve_all_inv: "sinv sv \<Longrightarrow> sinv (serve_all handle on_disc io fds sv)"
  by (induction fds arbitrary: sv) (simp_all add: serve_connection_inv)

lemma close_all_inv: "sinv sv \<Longrightarrow> sinv (close_all on_disc fds sv)"
  by (induction fds arbitrary: sv) (simp_all add: close_session_inv)

lemma accept_inv:
  assumes "sinv sv" "unat (sv_next_session_id sv) + length outcomes < 18446744073709551616"
  shows "sinv (snd (accept_ready_connections outcomes sv))"
  using assms
proof (induction outcomes sv rule: accept_ready_connections.induct)
  case (3 accepted rest sv)
  let ?n = "sv_next_session_id sv"
  have n: "unat (?n + 1) = unat ?n + 1"
    using 3(3) by (subst unat_add_lem [THEN iffD1]) simp_all
  then have nz: "?n + 1 \<noteq> 0" by (metis Suc_eq_plus1 unat_0 nat.distinct(1))
  have lt: "?n < ?n + 1" using n by (simp add: word_less_nat_alt)
  define sv' where "sv' = sv\<lparr>sv_connections := sv_connections sv @
     (if accepted \<in> fst ` set (sv_connections sv) then [] else [(accepted, ?n)]), sv_next_session_id := ?n + 1\<rparr>"
  have "?n \<notin> session_ids sv" using 3(2) by (auto simp: sinv_def server_inv_def)
  then have "server_inv sv'"
    using 3(2) lt by (auto simp: sinv_def server_inv_def sv'_def session_ids_def)
  moreover have "hinv (session_ids sv') (sv_handler sv')"
  proof -
    have "session_ids sv \<subseteq> session_ids sv'" "sv_handler sv' = sv_handler sv"
      by (auto simp: sv'_def session_ids_def)
    then show ?thesis using 3(2) hinv_mono unfolding sinv_def by metis
  qed
  ultimately have "sinv sv'" by (simp add: sinv_def)
  then show ?case using 3(1) [OF refl refl] 3(3) nz n by (simp add: Let_def sv'_def)
qed simp_all

lemma poll_once_inv:
  assumes "sinv sv" "unat (sv_next_session_id sv) + length (pl_accepts sys) < 18446744073709551616"
  shows "sinv (snd (poll_once handle on_disc sys sv))"
proof -
  obtain st sv1 where a: "(if pl_listener_ready sys then accept_ready_connections (pl_accepts sys) sv else (OK, sv)) = (st, sv1)"
    by (cases "if pl_listener_ready sys then accept_ready_connections (pl_accepts sys) sv else (OK, sv)") auto
  have "sinv sv1" using accept_inv [OF assms] a assms(1) by (auto split: if_splits)
  then show ?thesis using assms(1) serve_all_inv unfolding poll_once_def Let_def a
    by (simp split: sum.split)
qed

lemma server_close_inv:
  assumes "sinv sv"
  shows "sinv (snd (server_close on_disc lstat sv)) \<and> hinv {} (sv_handler (snd (server_close on_disc lstat sv)))"
proof -
  let ?cs = "sv_connections sv"
  have inv: "sinv (close_all on_disc (map fst ?cs) sv)" by (rule close_all_inv [OF assms])
  moreover have "sv_connections (close_all on_disc (map fst ?cs) sv) = []" by (rule close_all_none)
  ultimately show ?thesis
    by (auto simp: server_close_def remove_socket_path_def sinv_def server_inv_def session_ids_def)
qed

end

section \<open>A call through the socket\<close>

definition full_send :: "packet \<Rightarrow> int + int" where
  "full_send p = Inr (int (length (pk_bytes p)))"

definition sendable :: "bytes \<Rightarrow> int list \<Rightarrow> bool" where
  "sendable payload fds \<longleftrightarrow>
     length payload \<le> kMaxPayloadSize \<and> length fds \<le> kMaxFileDescriptors \<and> list_all (\<lambda>fd. fd \<ge> 0) fds"

lemma send_full:
  assumes "sendable (msg_payload m) (msg_fds m)" "sfd \<ge> 0"
  obtains p where "send_message full_send sfd m = (OK, Some p)"
  using assms by (auto simp: send_message_def sendable_def full_send_def Let_def)

lemma flags_allowed [simp]: "0 AND NOT kAllowedFlags = 0" "kResponseFlag AND NOT kAllowedFlags = 0"
  "kResponseFlag \<noteq> 0"
  by (simp_all add: kAllowedFlags_def kResponseFlag_def)

text \<open>The request a call puts on the socket, and the response as the server frames it.\<close>

definition call_request :: "ipc_client \<Rightarrow> u32 \<Rightarrow> bytes \<Rightarrow> int list \<Rightarrow> ipc_message" where
  "call_request c call_method payload fds =
     \<lparr>msg_envelope = new_envelope\<lparr>env_method := call_method, env_request_id := ic_next_request_id c,
        env_payload_length := of_nat (length payload), env_fd_count := of_nat (length fds)\<rparr>,
      msg_payload = payload, msg_fds = fds\<rparr>"

definition framed_response :: "ipc_message \<Rightarrow> ipc_message \<Rightarrow> int list \<Rightarrow> ipc_message" where
  "framed_response request m fds =
     \<lparr>msg_envelope = new_envelope\<lparr>env_method := env_method (msg_envelope request), env_flags := kResponseFlag,
        env_request_id := env_request_id (msg_envelope request), env_status := env_status (msg_envelope m),
        env_payload_length := of_nat (length (msg_payload m)), env_fd_count := of_nat (length (msg_fds m))\<rparr>,
      msg_payload = msg_payload m, msg_fds = fds\<rparr>"

lemma server_answers:
  assumes conn: "map_of (sv_connections sv) fd = Some sid" "fd \<ge> 0"
    and io: "io_pollin io" "\<not> io_error io" "\<not> io_hangup io" "io_sendmsg io = full_send"
    and recv: "receive_message (io_recv io) fd = (Rr_message request, [])"
    and handle: "handle (sv_handler sv) sid request = (Some m, h)"
    and m: "sendable (msg_payload m) (msg_fds m)" "int32 (env_status (msg_envelope m))"
    and fds: "length fds = length (msg_fds m)" "cfd \<ge> 0"
  shows "\<exists>p. serve_connection handle on_disc io fd sv = (sv\<lparr>sv_handler := h\<rparr>, Some p) \<and>
    receive_message (deliver p fds) cfd = (Rr_message (framed_response request m fds), [])"
proof -
  define framed where "framed = m\<lparr>msg_envelope := (msg_envelope m)
     \<lparr>env_magic := kProtocolMagic, env_version_major := kProtocolMajor, env_version_minor := kProtocolMinor,
      env_method := env_method (msg_envelope request), env_flags := kResponseFlag,
      env_request_id := env_request_id (msg_envelope request)\<rparr>\<rparr>"
  obtain p where p: "send_message full_send fd framed = (OK, Some p)"
    using send_full [of framed fd] m(1) conn(2) by (auto simp: framed_def)
  have "serve_connection handle on_disc io fd sv = (sv\<lparr>sv_handler := h\<rparr>, Some p)"
    using p by (simp add: serve_connection_def conn io recv handle framed_def Let_def)
  moreover have "receive_message (deliver p fds) cfd = (Rr_message (framed_response request m fds), [])"
    using receive_sent [OF p, of fds cfd] m(2) fds
    by (simp add: framed_def framed_response_def new_envelope_def)
  ultimately show ?thesis by blast
qed

lemma client_request_sent:
  assumes "sendable payload fds" "ic_socket c \<ge> 0" "length sfds = length fds" "fd \<ge> 0"
  obtains p where
    "\<And>recvmsg. call_method \<noteq> 0 \<Longrightarrow> fst (snd (snd (client_call full_send recvmsg call_method payload fds True c))) = Some p"
    "receive_message (deliver p sfds) fd = (Rr_message (call_request c call_method payload sfds), [])"
    "send_message full_send (ic_socket c)
       \<lparr>msg_envelope = new_envelope\<lparr>env_method := call_method, env_request_id := ic_next_request_id c\<rparr>,
        msg_payload = payload, msg_fds = fds\<rparr> = (OK, Some p)"
proof -
  define request where "request = \<lparr>msg_envelope = new_envelope\<lparr>env_method := call_method,
     env_request_id := ic_next_request_id c\<rparr>, msg_payload = payload, msg_fds = fds\<rparr>"
  obtain p where p: "send_message full_send (ic_socket c) request = (OK, Some p)"
    using send_full [of request "ic_socket c"] assms by (auto simp: request_def)
  have r: "receive_message (deliver p sfds) fd = (Rr_message (call_request c call_method payload sfds), [])"
    using receive_sent [OF p, of sfds fd] assms(3,4)
    by (simp add: request_def new_envelope_def call_request_def int32_def)
  have "fst (snd (snd (client_call full_send recvmsg call_method payload fds True c))) = Some p" if "call_method \<noteq> 0" for recvmsg
    using assms(2) p that
    by (simp add: client_call_def Let_def request_def split: receive_result.split)
  with p r show ?thesis using that by (simp add: request_def)
qed

section \<open>Properties\<close>

text \<open>A control call works end to end: when the client sends a request within the protocol's
  limits, the packet is delivered, the server's handler answers it within the limits and that
  packet is delivered, then the handler is given exactly the method, payload and descriptors of
  the call, and \<open>IpcClient::call\<close> returns 0 with exactly the handler's payload, status and
  descriptors; it accepts the answer because the server copied the request identifier and method.\<close>

theorem ipc_call_roundtrip:
  assumes "sendable payload fds" "ic_socket c \<ge> 0" "call_method \<noteq> 0" "length sfds = length fds"
    and "map_of (sv_connections sv) fd = Some sid" "fd \<ge> 0"
    and "handle (sv_handler sv) sid (call_request c call_method payload sfds) = (Some m, h)"
    and "sendable (msg_payload m) (msg_fds m)" "int32 (env_status (msg_envelope m))"
    and "length cfds = length (msg_fds m)"
  shows "\<exists>p1 p2 c'.
    serve_connection handle on_disc
        \<lparr>io_pollin = True, io_error = False, io_hangup = False, io_recv = deliver p1 sfds, io_sendmsg = full_send\<rparr> fd sv
      = (sv\<lparr>sv_handler := h\<rparr>, Some p2) \<and>
    client_call full_send (deliver p2 cfds) call_method payload fds True c
      = (OK, c', Some p1, Some (framed_response (call_request c call_method payload sfds) m cfds))"
proof -
  let ?req = "call_request c call_method payload sfds"
  obtain p1 where p1: "receive_message (deliver p1 sfds) fd = (Rr_message ?req, [])"
    "send_message full_send (ic_socket c)
       \<lparr>msg_envelope = new_envelope\<lparr>env_method := call_method, env_request_id := ic_next_request_id c\<rparr>,
        msg_payload = payload, msg_fds = fds\<rparr> = (OK, Some p1)"
    using client_request_sent [OF assms(1,2,4,6), of call_method] by blast
  let ?io = "\<lparr>io_pollin = True, io_error = False, io_hangup = False, io_recv = deliver p1 sfds, io_sendmsg = full_send\<rparr>"
  have "io_pollin ?io" "\<not> io_error ?io" "\<not> io_hangup ?io" "io_sendmsg ?io = full_send"
    "receive_message (io_recv ?io) fd = (Rr_message ?req, [])" using p1(1) by simp_all
  from server_answers [where handle = handle, OF assms(5,6) this assms(7-10,2)]
  obtain p2 where p2: "serve_connection handle on_disc ?io fd sv = (sv\<lparr>sv_handler := h\<rparr>, Some p2)"
    "receive_message (deliver p2 cfds) (ic_socket c) = (Rr_message (framed_response ?req m cfds), [])" by blast
  have "\<exists>c'. client_call full_send (deliver p2 cfds) call_method payload fds True c
      = (OK, c', Some p1, Some (framed_response ?req m cfds))"
    using assms(2,3) p1(2) p2(2)
    by (simp add: client_call_def Let_def framed_response_def call_request_def)
  with p2(1) show ?thesis by blast
qed

definition echo_handle :: "nat \<Rightarrow> u64 \<Rightarrow> ipc_message \<Rightarrow> ipc_message option \<times> nat" where
  "echo_handle n sid m = (Some m, Suc n)"

theorem ipc_call_roundtrip_witness:
  "\<exists>p1 p2 c'.
    serve_connection echo_handle (\<lambda>_ n. n)
        \<lparr>io_pollin = True, io_error = False, io_hangup = False, io_recv = deliver p1 [9], io_sendmsg = full_send\<rparr> 5
        ((new_server 0)\<lparr>sv_connections := [(5, 1)]\<rparr>)
      = ((new_server 1)\<lparr>sv_connections := [(5, 1)]\<rparr>, Some p2) \<and>
    client_call full_send (deliver p2 [4]) 3 [1, 2] [8] True \<lparr>ic_socket = 7, ic_next_request_id = 1\<rparr>
      = (OK, c', Some p1, Some (framed_response (call_request \<lparr>ic_socket = 7, ic_next_request_id = 1\<rparr> 3 [1, 2] [9])
          (call_request \<lparr>ic_socket = 7, ic_next_request_id = 1\<rparr> 3 [1, 2] [9]) [4]))"
proof -
  let ?c = "\<lparr>ic_socket = 7, ic_next_request_id = 1\<rparr>" and ?sv = "(new_server (0 :: nat))\<lparr>sv_connections := [(5, 1)]\<rparr>"
  have "sendable [1, 2] [8]" "ic_socket ?c \<ge> 0" "(3 :: u32) \<noteq> 0" "length [9 :: int] = length [8 :: int]"
    "map_of (sv_connections ?sv) 5 = Some 1" "(5 :: int) \<ge> 0"
    "echo_handle (sv_handler ?sv) 1 (call_request ?c 3 [1, 2] [9]) = (Some (call_request ?c 3 [1, 2] [9]), 1)"
    "sendable (msg_payload (call_request ?c 3 [1, 2] [9])) (msg_fds (call_request ?c 3 [1, 2] [9]))"
    "int32 (env_status (msg_envelope (call_request ?c 3 [1, 2] [9])))"
    "length [4 :: int] = length (msg_fds (call_request ?c 3 [1, 2] [9]))"
    by (simp_all add: sendable_def call_request_def int32_def echo_handle_def new_envelope_def new_server_def)
  from ipc_call_roundtrip [where handle = echo_handle and on_disc = "\<lambda>_ n. n", OF this] show ?thesis
    by (simp add: new_server_def)
qed

end
