(* ===== verification/Device_Context.thy ===== *)
theory Device_Context
  imports Object_Registry Ipc_Adapter Ipc_Session
begin

unbundle bit_operations_syntax

text \<open>
  \<^verbatim>\<open>control/device_context.cpp\<close>: the device list and its encoding, the service that creates and
  destroys contexts, and the client side of the control protocol. A name (\<open>std::string\<close>) is its
  bytes. A client call has the socket's behaviour as an argument: what \<open>sendmsg\<close> returns and what
  \<open>recvmsg\<close> delivers.
\<close>

section \<open>Methods and requests\<close>

definition cm_list_devices :: u32 where "cm_list_devices = 1"
definition cm_create_context :: u32 where "cm_create_context = 2"
definition cm_destroy_context :: u32 where "cm_destroy_context = 3"
definition cm_create_pd :: u32 where "cm_create_pd = 4"
definition cm_destroy_pd :: u32 where "cm_destroy_pd = 5"
definition cm_register_mr :: u32 where "cm_register_mr = 6"
definition cm_deregister_mr :: u32 where "cm_deregister_mr = 7"
definition cm_create_cq :: u32 where "cm_create_cq = 8"
definition cm_destroy_cq :: u32 where "cm_destroy_cq = 9"
definition cm_create_qp :: u32 where "cm_create_qp = 10"
definition cm_destroy_qp :: u32 where "cm_destroy_qp = 11"
definition cm_query_qp :: u32 where "cm_query_qp = 12"
definition cm_modify_qp :: u32 where "cm_modify_qp = 13"
definition cm_query_qp_conn_info :: u32 where "cm_query_qp_conn_info = 14"
definition cm_connect_qp :: u32 where "cm_connect_qp = 15"

lemmas control_method_defs = cm_list_devices_def cm_create_context_def cm_destroy_context_def
  cm_create_pd_def cm_destroy_pd_def cm_register_mr_def cm_deregister_mr_def cm_create_cq_def
  cm_destroy_cq_def cm_create_qp_def cm_destroy_qp_def cm_query_qp_def cm_modify_qp_def
  cm_query_qp_conn_info_def cm_connect_qp_def

definition new_request :: control_request where
  "new_request = \<lparr>rq_method = 0, rq_object_identity = 0, rq_length = 0, rq_access = 0, rq_opaque = [],
     rq_fd_indices = []\<rparr>"

definition make_list_devices_request :: control_request where
  "make_list_devices_request = new_request\<lparr>rq_method := cm_list_devices\<rparr>"

definition make_create_context_request :: "u64 \<Rightarrow> control_request" where
  "make_create_context_request device_identity =
     new_request\<lparr>rq_method := cm_create_context, rq_object_identity := device_identity\<rparr>"

definition make_destroy_context_request :: "u64 \<Rightarrow> control_request" where
  "make_destroy_context_request context_identity =
     new_request\<lparr>rq_method := cm_destroy_context, rq_object_identity := context_identity\<rparr>"

section \<open>The device list\<close>

record device_descriptor =
  dd_identity :: u64
  dd_name :: bytes

abbreviation kMaxDeviceNameLength :: nat where "kMaxDeviceNameLength \<equiv> 255"

text \<open>The first loop of \<open>encode_device_list\<close>: the status, for the size reached so far.\<close>

fun device_list_size :: "device_descriptor list \<Rightarrow> nat \<Rightarrow> int" where
  "device_list_size [] n = OK"
| "device_list_size (d # ds) n =
     (if dd_identity d = 0 \<or> length (dd_name d) > kMaxDeviceNameLength then EINVAL
      else let n' = n + 8 + 2 + length (dd_name d)
           in if n' > kMaxPayloadSize then EMSGSIZE else device_list_size ds n')"

fun append_devices :: "bytes \<Rightarrow> device_descriptor list \<Rightarrow> bytes" where
  "append_devices bs [] = bs"
| "append_devices bs (d # ds) =
     append_devices (append16 (append64 bs (host_to_network64 (dd_identity d)))
       (htons (of_nat (length (dd_name d)))) @ dd_name d) ds"

definition encode_device_list :: "device_descriptor list \<Rightarrow> int + bytes" where
  "encode_device_list devices =
     (if length devices > 0xffffffff then Inl EINVAL
      else
        let status = device_list_size devices 4
        in if status \<noteq> OK then Inl status
           else Inr (append_devices (append32 [] (htonl (of_nat (length devices)))) devices))"

fun read_devices :: "bytes \<Rightarrow> nat \<Rightarrow> nat \<Rightarrow> (device_descriptor list \<times> nat) option" where
  "read_devices bs off 0 = Some ([], off)"
| "read_devices bs off (Suc n) =
     (case read64 bs off of None \<Rightarrow> None | Some (wire_identity, off1) \<Rightarrow>
      (case read16 bs off1 of None \<Rightarrow> None | Some (wire_name_length, off2) \<Rightarrow>
        let name_length = unat (ntohs wire_name_length); identity = network_to_host64 wire_identity
        in if identity = 0 \<or> name_length > length bs - off2 then None
           else map_option (\<lambda>(ds, off'). (\<lparr>dd_identity = identity, dd_name = take name_length (drop off2 bs)\<rparr> # ds, off'))
                  (read_devices bs (off2 + name_length) n)))"

definition decode_device_list :: "bytes \<Rightarrow> int + device_descriptor list" where
  "decode_device_list bs =
     (case read32 bs 0 of
        None \<Rightarrow> Inl EPROTO
      | Some (wire_count, off) \<Rightarrow>
          let count = unat (ntohl wire_count)
          in if count > (length bs - off) div 10 then Inl EPROTO
             else case read_devices bs off count of
                 None \<Rightarrow> Inl EPROTO
               | Some (devices, off') \<Rightarrow> if off' \<noteq> length bs then Inl EPROTO else Inr devices)"

definition catalog_contains :: "device_descriptor list \<Rightarrow> u64 \<Rightarrow> bool" where
  "catalog_contains devices identity \<longleftrightarrow> list_ex (\<lambda>d. dd_identity d = identity) devices"

definition default_catalog :: "device_descriptor list" where
  "default_catalog = [\<lparr>dd_identity = 1, dd_name = map (\<lambda>c. of_nat (of_char c)) ''ugdr0''\<rparr>]"

section \<open>The context service\<close>

text \<open>\<open>PdMrCqService\<close> and \<open>QpService\<close> derive from this class: their records extend this one and its
  operations are polymorphic in the extension.\<close>

record context_record =
  ctx_device_identity :: u64
  ctx_child_count :: nat

record device_context_service =
  dc_catalog :: "device_descriptor list"
  dc_contexts :: "context_record registry"

definition request_shape_is_empty :: "control_request \<times> int list \<Rightarrow> bool" where
  "request_shape_is_empty request \<longleftrightarrow>
     rq_length (fst request) = 0 \<and> rq_access (fst request) = 0 \<and> rq_opaque (fst request) = [] \<and>
     rq_fd_indices (fst request) = [] \<and> snd request = []"

definition error_response :: "control_request \<times> int list \<Rightarrow> int \<Rightarrow> control_response \<times> int list" where
  "error_response request status =
     (new_response\<lparr>rp_method := rq_method (fst request), rp_status := status\<rparr>, [])"

definition device_context_handle :: "'a device_context_service_scheme control_service" where
  "device_context_handle s session_id request =
     (let method = rq_method (fst request); identity = rq_object_identity (fst request);
          result = new_response\<lparr>rp_method := method\<rparr>
      in if \<not> request_shape_is_empty request then (error_response request EINVAL, s)
         else if method = cm_list_devices then
           ((if identity \<noteq> 0 then result\<lparr>rp_status := EINVAL\<rparr>
             else case encode_device_list (dc_catalog s) of
                    Inl e \<Rightarrow> result\<lparr>rp_status := e\<rparr>
                  | Inr bs \<Rightarrow> result\<lparr>rp_opaque := bs\<rparr>, []), s)
         else if method = cm_create_context then
           (if \<not> catalog_contains (dc_catalog s) identity then ((result\<lparr>rp_status := EINVAL\<rparr>, []), s)
            else case reg_insert ot_context session_id
                        \<lparr>ctx_device_identity = identity, ctx_child_count = 0\<rparr> (dc_contexts s) of
                   (None, contexts) \<Rightarrow> ((result\<lparr>rp_status := ENOSPC\<rparr>, []), s\<lparr>dc_contexts := contexts\<rparr>)
                 | (Some i, contexts) \<Rightarrow> ((result\<lparr>rp_object_identity := i\<rparr>, []), s\<lparr>dc_contexts := contexts\<rparr>))
         else if method = cm_destroy_context then
           (case reg_resolve ot_context session_id identity (dc_contexts s) of
              None \<Rightarrow> ((result\<lparr>rp_status := EINVAL\<rparr>, []), s)
            | Some context \<Rightarrow>
                if ctx_child_count context \<noteq> 0 then ((result\<lparr>rp_status := EBUSY\<rparr>, []), s)
                else case reg_erase ot_context session_id identity (dc_contexts s) of
                       (status, contexts) \<Rightarrow>
                         ((result\<lparr>rp_status := status\<rparr>, []), s\<lparr>dc_contexts := contexts\<rparr>))
         else ((result\<lparr>rp_status := EOPNOTSUPP\<rparr>, []), s))"

definition device_context_on_disconnect ::
  "u64 \<Rightarrow> 'a device_context_service_scheme \<Rightarrow> 'a device_context_service_scheme" where
  "device_context_on_disconnect session_id s =
     s\<lparr>dc_contexts := snd (reg_erase_session session_id (dc_contexts s))\<rparr>"

section \<open>The control client\<close>

record control_client =
  cc_client :: ipc_client
  cc_epoch :: u64

definition new_control_client :: control_client where
  "new_control_client = \<lparr>cc_client = new_client, cc_epoch = 0\<rparr>"

type_synonym socket_io = "(packet \<Rightarrow> int + int) \<times> recv_outcome"

definition control_connect :: "int + int \<Rightarrow> int option \<Rightarrow> string \<Rightarrow> control_client \<Rightarrow> int \<times> control_client" where
  "control_connect socket_call connect_call socket_path cc =
     (case client_connect socket_call connect_call socket_path (cc_client cc) of
        (status, c) \<Rightarrow>
          if status = OK
          then (OK, \<lparr>cc_client = c, cc_epoch = (if cc_epoch cc + 1 = 0 then 1 else cc_epoch cc + 1)\<rparr>)
          else (- status, cc\<lparr>cc_client := c\<rparr>))"

definition control_close :: "control_client \<Rightarrow> control_client" where
  "control_close cc = cc\<lparr>cc_client := client_close (cc_client cc)\<rparr>"

text \<open>\<open>Impl::call\<close> with a decoded response: \<open>Inl\<close> of the status, or \<open>Inr\<close> of the response and the
  descriptors that came with it.\<close>

definition control_call_decoded ::
  "socket_io \<Rightarrow> control_request \<Rightarrow> control_client \<Rightarrow> (int + (control_response \<times> int list)) \<times> control_client" where
  "control_call_decoded io request cc =
     (case encode_request request [] of
        Inl encode_status \<Rightarrow> (Inl (- encode_status), cc)
      | Inr encoded \<Rightarrow>
          (case client_call (fst io) (snd io) (rq_method request) (msg_payload encoded) (msg_fds encoded) True (cc_client cc) of
             (call_status, c, _, wire_response) \<Rightarrow>
               (let cc1 = cc\<lparr>cc_client := c\<rparr> in
                case wire_response of
                  None \<Rightarrow> (Inl (- call_status), control_close cc1)
                | Some m \<Rightarrow>
                    (case decode_response m of
                       Inl decode_status \<Rightarrow> (Inl (- decode_status), control_close cc1)
                     | Inr (response, fds) \<Rightarrow>
                         if rp_method response \<noteq> rq_method request \<or> rp_status response < 0
                         then (Inl EPROTO, control_close cc1)
                         else (Inr (response, fds), cc1)))))"

definition control_call :: "socket_io \<Rightarrow> control_request \<Rightarrow> control_client \<Rightarrow> (int + control_response) \<times> control_client" where
  "control_call io request cc =
     (case control_call_decoded io request cc of
        (Inl status, cc') \<Rightarrow> (Inl status, cc')
      | (Inr (response, fds), cc') \<Rightarrow>
          if fds \<noteq> [] then (Inl EPROTO, control_close cc') else (Inr response, cc'))"

definition cc_list_devices :: "socket_io \<Rightarrow> control_client \<Rightarrow> (int + device_descriptor list) \<times> control_client" where
  "cc_list_devices io cc =
     (case control_call io make_list_devices_request cc of
        (Inl status, cc') \<Rightarrow> (Inl status, cc')
      | (Inr response, cc') \<Rightarrow>
          if rp_status response \<noteq> 0 then (Inl (rp_status response), cc')
          else (decode_device_list (rp_opaque response), cc'))"

definition cc_create_context :: "socket_io \<Rightarrow> u64 \<Rightarrow> control_client \<Rightarrow> (int + u64) \<times> control_client" where
  "cc_create_context io device_identity cc =
     (if device_identity = 0 then (Inl EINVAL, cc)
      else case control_call io (make_create_context_request device_identity) cc of
        (Inl status, cc') \<Rightarrow> (Inl status, cc')
      | (Inr response, cc') \<Rightarrow>
          if rp_status response \<noteq> 0 then (Inl (rp_status response), cc')
          else case decode_object_identity (rp_object_identity response) of
                 None \<Rightarrow> (Inl EPROTO, cc')
               | Some parts \<Rightarrow>
                   if oip_type parts \<noteq> ot_context then (Inl EPROTO, cc')
                   else (Inr (rp_object_identity response), cc'))"

definition cc_destroy_context :: "socket_io \<Rightarrow> u64 \<Rightarrow> control_client \<Rightarrow> int \<times> control_client" where
  "cc_destroy_context io context_identity cc =
     (if context_identity = 0 then (EINVAL, cc)
      else case control_call io (make_destroy_context_request context_identity) cc of
        (Inl status, cc') \<Rightarrow> (status, cc')
      | (Inr response, cc') \<Rightarrow> (rp_status response, cc'))"

section \<open>The device list survives the wire\<close>

definition device_bytes :: "device_descriptor \<Rightarrow> bytes" where
  "device_bytes d = object_bytes 8 (host_to_network64 (dd_identity d)) @
     object_bytes 2 (htons (of_nat (length (dd_name d)))) @ dd_name d"

lemma append_devices_eq: "append_devices bs ds = bs @ concat (map device_bytes ds)"
  by (induction bs ds rule: append_devices.induct) (simp_all add: append_defs device_bytes_def)

lemma device_list_size_OK:
  assumes "device_list_size ds n = OK"
  shows "list_all (\<lambda>d. dd_identity d \<noteq> 0 \<and> length (dd_name d) \<le> kMaxDeviceNameLength) ds"
  using assms by (induction ds n rule: device_list_size.induct) (auto simp: Let_def split: if_splits)

lemma read_devices_append:
  assumes "list_all (\<lambda>d. dd_identity d \<noteq> 0 \<and> length (dd_name d) \<le> kMaxDeviceNameLength) ds"
  shows "read_devices (pre @ concat (map device_bytes ds)) (length pre) (length ds)
       = Some (ds, length (pre @ concat (map device_bytes ds)))"
  using assms
proof (induction ds arbitrary: pre)
  case Nil
  then show ?case by simp
next
  case (Cons d ds)
  let ?bs = "pre @ concat (map device_bytes (d # ds))"
  have l: "unat (of_nat (length (dd_name d)) :: u16) = length (dd_name d)"
    using Cons.prems by (intro unat_of_nat_u16) simp
  have r1: "read64 ?bs (length pre) = Some (host_to_network64 (dd_identity d), length pre + 8)"
    by (simp add: read_defs device_bytes_def value_of_object_bytes)
  have r2: "read16 ?bs (length pre + 8) = Some (htons (of_nat (length (dd_name d))), length pre + 10)"
    by (simp add: read_defs device_bytes_def value_of_object_bytes)
  have nm: "take (length (dd_name d)) (drop (length pre + 10) ?bs) = dd_name d"
    by (simp add: device_bytes_def)
  have E1: "?bs = (pre @ device_bytes d) @ concat (map device_bytes ds)" by simp
  have E2: "length pre + 10 + length (dd_name d) = length (pre @ device_bytes d)"
    by (simp add: device_bytes_def)
  have "read_devices ?bs (length pre + 10 + length (dd_name d)) (length ds) = Some (ds, length ?bs)"
    unfolding E1 E2 by (rule Cons.IH) (use Cons.prems in simp)
  moreover have "length (dd_name d) \<le> length ?bs - (length pre + 10)" by (simp add: device_bytes_def)
  ultimately show ?case
    using r1 r2 nm l Cons.prems by (simp add: Let_def del: concat.simps map_append)
qed

lemma length_device_bytes: "length (device_bytes d) = 10 + length (dd_name d)"
  by (simp add: device_bytes_def)

lemma device_count_fits: "length ds \<le> length (concat (map device_bytes ds)) div 10"
proof -
  have "10 * length ds \<le> length (concat (map device_bytes ds))"
    by (induction ds) (simp_all add: length_device_bytes)
  then show ?thesis by linarith
qed

lemma decode_encode_device_list:
  assumes "encode_device_list ds = Inr bs"
  shows "decode_device_list bs = Inr ds"
proof -
  let ?h = "object_bytes 4 (htonl (of_nat (length ds)))"
  have g: "length ds \<le> 0xffffffff" "device_list_size ds 4 = OK" and bs: "bs = ?h @ concat (map device_bytes ds)"
    using assms by (auto simp: encode_device_list_def Let_def append_devices_eq append_defs split: if_splits)
  have rd: "read32 bs 0 = Some (htonl (of_nat (length ds)), 4)"
    by (simp add: read_defs bs value_of_object_bytes)
  have u: "unat (of_nat (length ds) :: u32) = length ds" using g(1) by (intro unat_of_nat_u32) simp
  have "read_devices bs 4 (length ds) = Some (ds, length bs)"
    using read_devices_append [OF device_list_size_OK [OF g(2)], of ?h] by (simp add: bs)
  moreover have "\<not> length ds > (length bs - 4) div 10"
    using device_count_fits [of ds] by (simp add: bs)
  ultimately show ?thesis by (simp add: decode_device_list_def rd u Let_def)
qed

interpretation device_list_codec: wire_codec encode_device_list decode_device_list
  by unfold_locales (rule decode_encode_device_list)

end
