(* ===== verification/Queue_Codec.thy ===== *)
theory Queue_Codec
  imports Wire Shared_Ring
begin

text \<open>
  \<^verbatim>\<open>control/queue_descriptor.hpp\<close>: the list of queue descriptors that travels beside the memfds of
  the rings when a completion queue or a queue pair is created. The decoder is where a process
  decides what it maps, so what it accepts is what \<open>valid_descriptor\<close> accepts.
\<close>

abbreviation kQueueDescriptorPayloadVersion :: u16 where "kQueueDescriptorPayloadVersion \<equiv> 1"
abbreviation kQueueDescriptorWireSize :: nat where "kQueueDescriptorWireSize \<equiv> 16"

fun append_descriptors :: "bytes \<Rightarrow> queue_descriptor list \<Rightarrow> bytes" where
  "append_descriptors bs [] = bs"
| "append_descriptors bs (d # ds) =
     append_descriptors (append32 (append32 (append32 (append32 bs (htonl (ucast (qd_kind d))))
       (htonl (qd_capacity d))) (htonl (qd_slot_stride d))) 0) ds"

definition encode_queue_descriptors :: "queue_descriptor list \<Rightarrow> int + bytes" where
  "encode_queue_descriptors descriptors =
     (if descriptors = [] \<or> length descriptors > 0xffff then Inl EINVAL
      else Inr (append_descriptors (append16 (append16 [] (htons kQueueDescriptorPayloadVersion))
                  (htons (of_nat (length descriptors)))) descriptors))"

fun read_descriptors :: "bytes \<Rightarrow> nat \<Rightarrow> nat \<Rightarrow> queue_descriptor list option" where
  "read_descriptors bs off 0 = Some []"
| "read_descriptors bs off (Suc n) =
     do { (kind, off) \<leftarrow> read32 bs off; (capacity, off) \<leftarrow> read32 bs off; (stride, off) \<leftarrow> read32 bs off;
          (reserved, off) \<leftarrow> read32 bs off;
          (if reserved \<noteq> 0 \<or> ntohl kind < 1 \<or> ntohl kind > 3 \<or> ntohl capacity = 0 \<or> ntohl stride = 0 \<or>
              ntohl stride mod 64 \<noteq> 0 then None
           else map_option ((#) \<lparr>qd_kind = ucast (ntohl kind), qd_capacity = ntohl capacity,
                                  qd_slot_stride = ntohl stride\<rparr>) (read_descriptors bs off n)) }"

definition decode_queue_descriptors :: "bytes \<Rightarrow> int + queue_descriptor list" where
  "decode_queue_descriptors bs =
     (if length bs < 4 then Inl EPROTO
      else case do { (version, off) \<leftarrow> read16 bs 0; (count, off) \<leftarrow> read16 bs off; Some (version, count, off) } of
          None \<Rightarrow> Inl EPROTO
        | Some (version, count, off) \<Rightarrow>
            if ntohs version \<noteq> kQueueDescriptorPayloadVersion then Inl EPROTONOSUPPORT
            else
              let n = unat (ntohs count)
              in if n = 0 \<or> length bs \<noteq> 4 + n * kQueueDescriptorWireSize then Inl EPROTO
                 else case read_descriptors bs off n of None \<Rightarrow> Inl EPROTO | Some ds \<Rightarrow> Inr ds)"

section \<open>Round trip\<close>

definition descriptor_bytes :: "queue_descriptor \<Rightarrow> bytes" where
  "descriptor_bytes d = object_bytes 4 (htonl (ucast (qd_kind d))) @ object_bytes 4 (htonl (qd_capacity d)) @
     object_bytes 4 (htonl (qd_slot_stride d)) @ object_bytes 4 (0 :: u32)"

lemma append_descriptors_eq: "append_descriptors bs ds = bs @ concat (map descriptor_bytes ds)"
  by (induction bs ds rule: append_descriptors.induct) (simp_all add: append_defs descriptor_bytes_def)

lemma length_descriptor_bytes: "length (concat (map descriptor_bytes ds)) = 16 * length ds"
  by (induction ds) (simp_all add: descriptor_bytes_def)

lemma ucast_kind [simp]: "(ucast (ucast (k :: u16) :: u32) :: u16) = k"
  by (rule bit_word_eqI) (auto simp: bit_simps)

lemma kind_range: "1 \<le> k \<Longrightarrow> k \<le> 3 \<Longrightarrow> \<not> (ucast (k :: u16) :: u32) < 1 \<and> \<not> (ucast k :: u32) > 3"
  by (simp add: word_less_nat_alt word_le_nat_alt unsigned_ucast_eq take_bit_nat_eq_self
      less_trans [OF unat_u16_bound])

lemma read_descriptors_append:
  assumes "list_all valid_descriptor ds"
  shows "read_descriptors (pre @ concat (map descriptor_bytes ds)) (length pre) (length ds) = Some ds"
  using assms
proof (induction ds arbitrary: pre)
  case Nil
  then show ?case by simp
next
  case (Cons d ds)
  let ?bs = "pre @ concat (map descriptor_bytes (d # ds))"
  have r: "read32 ?bs (length pre) = Some (htonl (ucast (qd_kind d)), length pre + 4)"
    "read32 ?bs (length pre + 4) = Some (htonl (qd_capacity d), length pre + 8)"
    "read32 ?bs (length pre + 8) = Some (htonl (qd_slot_stride d), length pre + 12)"
    "read32 ?bs (length pre + 12) = Some (0, length pre + 16)"
    by (simp_all add: read_defs descriptor_bytes_def value_of_object_bytes)
  have E1: "?bs = (pre @ descriptor_bytes d) @ concat (map descriptor_bytes ds)" by simp
  have E2: "length pre + 16 = length (pre @ descriptor_bytes d)" by (simp add: descriptor_bytes_def)
  have IH: "read_descriptors ?bs (length pre + 16) (length ds) = Some ds"
    unfolding E1 E2 by (rule Cons.IH) (use Cons.prems in simp)
  have v: "valid_descriptor d" using Cons.prems by simp
  then have "\<not> (ucast (qd_kind d) :: u32) < 1 \<and> \<not> (ucast (qd_kind d) :: u32) > 3"
    by (intro kind_range) (simp_all add: valid_descriptor_def)
  then show ?case
    using r IH v by (simp add: valid_descriptor_def del: concat.simps map_append)
qed

lemma decode_encode_queue_descriptors:
  assumes "encode_queue_descriptors ds = Inr bs" "list_all valid_descriptor ds"
  shows "decode_queue_descriptors bs = Inr ds"
proof -
  let ?h = "object_bytes 2 (htons kQueueDescriptorPayloadVersion) @ object_bytes 2 (htons (of_nat (length ds)))"
  have g: "ds \<noteq> []" "length ds \<le> 0xffff" and bs: "bs = ?h @ concat (map descriptor_bytes ds)"
    using assms(1) by (auto simp: encode_queue_descriptors_def append_descriptors_eq append_defs split: if_splits)
  have rd: "read16 bs 0 = Some (htons kQueueDescriptorPayloadVersion, 2)"
    "read16 bs 2 = Some (htons (of_nat (length ds)), 4)"
    by (simp_all add: read_defs bs value_of_object_bytes)
  have u: "unat (of_nat (length ds) :: u16) = length ds" using g(2) by (intro unat_of_nat_u16) simp
  have "length bs = 4 + length ds * 16" by (simp add: bs length_descriptor_bytes)
  moreover have "read_descriptors bs 4 (length ds) = Some ds"
    using read_descriptors_append [OF assms(2), of ?h] by (simp add: bs)
  ultimately show ?thesis using g(1) by (simp add: decode_queue_descriptors_def rd u Let_def)
qed

lemma wire_descriptor_valid:
  assumes "\<not> (k < 1 \<or> k > 3)" "capacity \<noteq> 0" "stride \<noteq> 0" "stride mod 64 = 0"
  shows "valid_descriptor \<lparr>qd_kind = ucast (k :: u32), qd_capacity = capacity, qd_slot_stride = stride\<rparr>"
proof -
  have "unat k = 1 \<or> unat k = 2 \<or> unat k = 3" using assms(1) by (auto simp: word_less_nat_alt not_less)
  then have "k = 1 \<or> k = 2 \<or> k = 3" by (auto simp: word_unat_eq_iff)
  then show ?thesis using assms by (auto simp: valid_descriptor_def)
qed

lemma read_descriptors_valid:
  "read_descriptors bs off n = Some ds \<Longrightarrow> list_all valid_descriptor ds \<and> length ds = n"
proof (induction n arbitrary: off ds)
  case (Suc n)
  then show ?case
    by (auto simp: bind_eq_Some_conv del: mod_0_imp_dvd
        intro!: wire_descriptor_valid dest!: Suc.IH split: if_splits)
qed simp

interpretation queue_codec: wire_codec
  "\<lambda>ds. if list_all valid_descriptor ds then encode_queue_descriptors ds else Inl EINVAL" decode_queue_descriptors
  by unfold_locales (auto dest: decode_encode_queue_descriptors split: if_splits)

text \<open>The descriptors of a ring survive the wire, and the decoder lets nothing through that
  \<open>create_shared_ring\<close> and \<open>map_shared_ring\<close> would not accept: every list of valid descriptors is
  decoded to itself, and everything the decoder accepts is a non-empty list of valid descriptors.\<close>

theorem queue_descriptors_roundtrip:
  "(encode_queue_descriptors ds = Inr bs \<and> list_all valid_descriptor ds \<longrightarrow> decode_queue_descriptors bs = Inr ds) \<and>
   (decode_queue_descriptors cs = Inr es \<longrightarrow> es \<noteq> [] \<and> list_all valid_descriptor es)"
  using queue_codec.decode_encode [of ds bs]
  by (auto simp: decode_queue_descriptors_def Let_def dest: read_descriptors_valid
      split: if_splits option.splits)

theorem queue_descriptors_roundtrip_witness:
  "\<exists>bs. encode_queue_descriptors [\<lparr>qd_kind = 3, qd_capacity = 8, qd_slot_stride = 64\<rparr>] = Inr bs \<and>
     decode_queue_descriptors bs = Inr [\<lparr>qd_kind = 3, qd_capacity = 8, qd_slot_stride = 64\<rparr>]"
  using queue_descriptors_roundtrip [of "[\<lparr>qd_kind = 3, qd_capacity = 8, qd_slot_stride = 64\<rparr>]"]
  by (auto simp: encode_queue_descriptors_def valid_descriptor_def)

end
