(* ===== verification/Ring_Mapping.thy ===== *)
theory Ring_Mapping
  imports Ring_System
begin

text \<open>
  The life cycle of a ring's memory in \<^verbatim>\<open>queue/shared_ring.cpp\<close>: the size of the mapping, creating
  the memfd and its header, and mapping a descriptor received from the other process. The header
  \<open>SharedRingHeader\<close> is a record; the system calls' results are arguments (\<open>ring_syscalls\<close>): an
  \<open>Inl\<close> holds the errno of a failed call.
\<close>

record shared_ring_header =
  md_magic :: u32
  md_version :: u16
  md_kind :: u16
  md_header_bytes :: u32
  md_reserved0 :: u32
  md_mapping_bytes :: u64
  md_capacity :: u32
  md_slot_stride :: u32
  md_reserved :: "u64 list"
  tail_value :: u64
  tail_reserved :: "u64 list"
  head_value :: u64
  head_reserved :: "u64 list"

record ring_syscalls =
  sy_sysconf :: int
  sy_sysconf_errno :: int
  sy_memfd :: "int + int"
  sy_ftruncate :: "int option"
  sy_mmap :: "int + u64"
  sy_seal :: "int option"
  sy_fstat :: "int + int"

definition system_page_size :: "ring_syscalls \<Rightarrow> int + u64" where
  "system_page_size sys =
     (if sy_sysconf sys \<le> 0 then Inl (if sy_sysconf_errno sys = 0 then EINVAL else sy_sysconf_errno sys)
      else Inr (of_int (sy_sysconf sys)))"

definition zero_header :: shared_ring_header where
  "zero_header = \<lparr>md_magic = 0, md_version = 0, md_kind = 0, md_header_bytes = 0, md_reserved0 = 0,
     md_mapping_bytes = 0, md_capacity = 0, md_slot_stride = 0, md_reserved = replicate 4 0,
     tail_value = 0, tail_reserved = replicate 7 0, head_value = 0, head_reserved = replicate 7 0\<rparr>"

definition reserved_is_zero :: "shared_ring_header \<Rightarrow> bool" where
  "reserved_is_zero h \<longleftrightarrow>
     md_reserved0 h = 0 \<and> list_all (\<lambda>v. v = 0) (md_reserved h) \<and>
     list_all (\<lambda>v. v = 0) (tail_reserved h) \<and> list_all (\<lambda>v. v = 0) (head_reserved h)"

definition shared_ring_mapping_size :: "queue_descriptor \<Rightarrow> u64 \<Rightarrow> bool \<Rightarrow> int + u64" where
  "shared_ring_mapping_size d page_size have_out =
     (if \<not> have_out \<or> page_size = 0 \<or> \<not> valid_descriptor d then Inl EINVAL
      else if ucast (qd_capacity d) > (- 1 - of_nat header_size) div (ucast (qd_slot_stride d) :: u64)
      then Inl EOVERFLOW
      else
        let raw = of_nat header_size + ucast (qd_capacity d) * ucast (qd_slot_stride d) :: u64;
            remainder = raw mod page_size
        in if remainder \<noteq> 0 \<and> raw > - 1 - (page_size - remainder) then Inl EOVERFLOW
           else Inr (if remainder = 0 then raw else raw + page_size - remainder))"

definition create_shared_ring ::
  "ring_syscalls \<Rightarrow> queue_descriptor \<Rightarrow> bool \<Rightarrow> shared_ring \<Rightarrow>
   int \<times> sys_effect list \<times> shared_ring \<times> shared_ring_header option" where
  "create_shared_ring sys d have_ring ring =
     (if \<not> have_ring \<or> ring_valid ring then (EINVAL, [], ring, None)
      else case (case system_page_size sys of Inl e \<Rightarrow> Inl e
                 | Inr page_size \<Rightarrow> shared_ring_mapping_size d page_size True) of
        Inl e \<Rightarrow> (e, [], ring, None)
      | Inr mapping_size \<Rightarrow>
          if mapping_size > 0x7fffffffffffffff then (EOVERFLOW, [], ring, None)
          else case sy_memfd sys of
            Inl e \<Rightarrow> (e, [], ring, None)
          | Inr fd \<Rightarrow>
            (case sy_ftruncate sys of
               Some e \<Rightarrow> (e, [Close fd], ring, None)
             | None \<Rightarrow>
               (case sy_mmap sys of
                  Inl e \<Rightarrow> (e, [Close fd], ring, None)
                | Inr mapping \<Rightarrow>
                  let header = zero_header\<lparr>md_magic := kSharedRingMagic,
                        md_version := kSharedRingVersion, md_kind := qd_kind d,
                        md_header_bytes := of_nat header_size, md_mapping_bytes := mapping_size,
                        md_capacity := qd_capacity d, md_slot_stride := qd_slot_stride d\<rparr>
                  in case sy_seal sys of
                       Some e \<Rightarrow> (e, [Munmap mapping mapping_size, Close fd], ring, None)
                     | None \<Rightarrow>
                         (OK, fst (ring_reset ring), make_ring mapping mapping_size fd d, Some header))))"

text \<open>The checks of \<open>map_shared_ring\<close> on a mapped header.\<close>

definition validate_header ::
  "ring_syscalls \<Rightarrow> queue_descriptor \<Rightarrow> u64 \<Rightarrow> shared_ring_header \<Rightarrow> int" where
  "validate_header sys expected mapping_size h =
     (if md_magic h = kSharedRingMagic \<and> md_version h \<noteq> kSharedRingVersion then EPROTONOSUPPORT
      else if md_magic h \<noteq> kSharedRingMagic \<or> md_kind h \<noteq> qd_kind expected \<or>
              md_header_bytes h \<noteq> of_nat header_size \<or> md_mapping_bytes h \<noteq> mapping_size \<or>
              md_capacity h \<noteq> qd_capacity expected \<or> md_slot_stride h \<noteq> qd_slot_stride expected \<or>
              \<not> reserved_is_zero h then EPROTO
      else case system_page_size sys of Inl e \<Rightarrow> e
      | Inr page_size \<Rightarrow>
         (case shared_ring_mapping_size expected page_size True of Inl e \<Rightarrow> e
          | Inr expected_size \<Rightarrow> if expected_size \<noteq> mapping_size then EPROTO else OK))"

definition map_shared_ring ::
  "ring_syscalls \<Rightarrow> shared_ring_header \<Rightarrow> int \<Rightarrow> queue_descriptor \<Rightarrow> bool \<Rightarrow> shared_ring \<Rightarrow>
   int \<times> sys_effect list \<times> shared_ring" where
  "map_shared_ring sys header descriptor_fd expected have_ring ring =
     (if descriptor_fd < 0 \<or> \<not> have_ring \<or> ring_valid ring \<or> \<not> valid_descriptor expected
      then (EINVAL, [], ring)
      else case sy_fstat sys of
        Inl e \<Rightarrow> (e, [], ring)
      | Inr st_size \<Rightarrow>
          if st_size < int header_size \<or> st_size > 0xffffffffffffffff then (EPROTO, [], ring)
          else case sy_mmap sys of
            Inl e \<Rightarrow> (e, [], ring)
          | Inr mapping \<Rightarrow>
              let mapping_size = of_int st_size :: u64;
                  validation = validate_header sys expected mapping_size header
              in if validation \<noteq> OK then (validation, [Munmap mapping mapping_size], ring)
                 else (OK, fst (ring_reset ring), make_ring mapping mapping_size (-1) expected))"

section \<open>The size of a mapping\<close>

lemma capacity_stride_bound:
  "header_size + unat (c :: u32) * unat (s :: u32) < 18446744073709551616"
proof -
  have "unat c * unat s \<le> 4294967295 * 4294967295"
    using unat_u32_bound [of c] unat_u32_bound [of s] by (intro mult_le_mono) simp_all
  then show ?thesis by simp
qed

lemma slot_at_no_wrap: "slot_at ring index < 2 ^ 64"
  using capacity_stride_bound by (simp add: slot_at_def)

lemma unat_raw_size:
  "unat (of_nat header_size + ucast (c :: u32) * ucast (s :: u32) :: u64) = header_size + unat c * unat s"
proof -
  have "of_nat header_size + ucast c * ucast s = (of_nat (header_size + unat c * unat s) :: u64)"
    by simp
  then show ?thesis using capacity_stride_bound [of c s] by (simp only: unat_of_nat_u64)
qed

lemma capacity_check_passes:
  assumes "s \<noteq> 0"
  shows "\<not> ucast (c :: u32) > (- 1 - of_nat header_size) div (ucast (s :: u32) :: u64)"
proof -
  have "unat c * unat s \<le> 18446744073709551615 - 192" using capacity_stride_bound [of c s] by simp
  then have "unat c \<le> (18446744073709551615 - 192) div unat s"
    using assms by (simp add: less_eq_div_iff_mult_less_eq unat_gt_0)
  moreover have "unat ((- 1 - of_nat header_size) div (ucast s :: u64)) = (18446744073709551615 - 192) div unat s"
    by (simp add: unat_div)
  ultimately show ?thesis by (simp add: word_less_nat_alt)
qed

lemma mapping_size_cases:
  assumes d: "valid_descriptor d" and p: "page_size \<noteq> 0"
  defines "raw \<equiv> header_size + unat (qd_capacity d) * unat (qd_slot_stride d)"
  defines "pages \<equiv> (raw + unat page_size - 1) div unat page_size"
  shows "shared_ring_mapping_size d page_size True =
     (if pages * unat page_size < 2 ^ 64 then Inr (of_nat (pages * unat page_size)) else Inl EOVERFLOW)"
proof -
  define rw where "rw = (of_nat header_size + ucast (qd_capacity d) * ucast (qd_slot_stride d) :: u64)"
  have rw': "192 + ucast (qd_capacity d) * ucast (qd_slot_stride d) = rw" by (simp add: rw_def)
  define P where "P = unat page_size"
  define m where "m = raw mod P"
  have rw: "unat rw = raw" unfolding rw_def raw_def by (rule unat_raw_size)
  have P: "0 < P" using p by (simp add: P_def unat_gt_0)
  have rem: "unat (rw mod page_size) = m" by (simp add: unat_mod rw P_def m_def)
  have rem0: "rw mod page_size = 0 \<longleftrightarrow> m = 0" using rem by (simp add: unat_eq_0 [symmetric])
  have mP: "m < P" using P by (simp add: m_def)
  have raw: "raw = raw div P * P + m" by (simp add: m_def)
  have d0: "qd_slot_stride d \<noteq> 0" using d by (simp add: valid_descriptor_def)
  note check = capacity_check_passes [OF d0, of "qd_capacity d"]
  show ?thesis
  proof (cases "m = 0")
    case True
    then have "pages = raw div P"
    proof -
      have "(raw div P * P + (P - 1)) div P = raw div P" using P by (intro div_nat_eqI) (simp_all add: mult.commute)
      then show ?thesis using raw True P by (simp add: pages_def P_def)
    qed
    then have eq: "pages * P = raw" using raw True by simp
    have "raw < 2 ^ 64" using rw unat_u64_bound [of rw] by simp
    moreover have "of_nat raw = rw" by (simp add: rw [symmetric])
    ultimately show ?thesis
      using check d p rem0 True eq
      by (simp add: shared_ring_mapping_size_def Let_def rw' P_def)
  next
    case False
    have pages: "pages = Suc (raw div P)"
    proof -
      have "raw + P - 1 = Suc (raw div P) * P + (m - 1)" using raw False by simp
      moreover have "(Suc (raw div P) * P + (m - 1)) div P = Suc (raw div P)"
        using mP by (intro div_nat_eqI) (auto simp: algebra_simps)
      ultimately show ?thesis by (simp add: pages_def P_def)
    qed
    then have eq: "pages * P = raw + (P - m)" using raw mP by simp
    have le: "rw mod page_size \<le> page_size" using rem mP by (simp add: word_le_nat_alt P_def)
    then have gap: "unat (page_size - rw mod page_size) = P - m" by (simp add: unat_sub rem P_def)
    have "unat (- 1 - (page_size - rw mod page_size)) = 18446744073709551615 - (P - m)"
      by (subst unat_sub) (simp_all add: gap unsigned_minus_1_eq_mask mask_numeral)
    then have over: "rw > - 1 - (page_size - rw mod page_size) \<longleftrightarrow> \<not> pages * P < 2 ^ 64"
      using gap unat_u64_bound [of "page_size - rw mod page_size"] by (simp add: word_less_nat_alt rw eq) linarith
    have "rw + page_size - rw mod page_size = of_nat (pages * P)"
    proof -
      have "rw + (page_size - rw mod page_size) = of_nat (unat rw + unat (page_size - rw mod page_size))"
        by simp
      then show ?thesis by (simp only: rw gap eq) (simp add: algebra_simps)
    qed
    then show ?thesis
      using check d p rem0 False over
      by (simp add: shared_ring_mapping_size_def Let_def rw' P_def)
  qed
qed

section \<open>Properties\<close>

text \<open>The mapping a ring asks for holds the 192 header bytes and \<open>capacity\<close> slots of
  \<open>slot_stride\<close> bytes, rounded up to whole pages, and the code reports \<open>EOVERFLOW\<close> exactly when
  that rounded size does not fit in 64 bits: no intermediate product or sum wraps.\<close>

theorem mapping_size_exact:
  assumes "valid_descriptor d" "page_size \<noteq> 0"
  shows "shared_ring_mapping_size d page_size True =
    (let raw = header_size + unat (qd_capacity d) * unat (qd_slot_stride d);
         pages = (raw + unat page_size - 1) div unat page_size
     in if pages * unat page_size < 2 ^ 64 then Inr (of_nat (pages * unat page_size)) else Inl EOVERFLOW)"
  using mapping_size_cases [OF assms] by (simp only: Let_def)

theorem mapping_size_exact_witness:
  "valid_descriptor demo_desc \<and> shared_ring_mapping_size demo_desc 4096 True = Inr 4096"
proof -
  have "valid_descriptor demo_desc" by (simp add: valid_descriptor_def demo_desc_def)
  with mapping_size_exact [of demo_desc 4096] show ?thesis
    by (simp add: demo_desc_def Let_def)
qed

lemma create_ok_cases:
  assumes "create_shared_ring sys d have_ring ring = (OK, effects, ring', Some h)"
  obtains page size mapping fd where
    "system_page_size sys = Inr page" "shared_ring_mapping_size d page True = Inr size"
    "size \<le> 0x7fffffffffffffff" "sy_memfd sys = Inr fd" "sy_mmap sys = Inr mapping"
    "\<not> ring_valid ring" "ring' = make_ring mapping size fd d" "effects = fst (ring_reset ring)"
    "h = zero_header\<lparr>md_magic := kSharedRingMagic, md_version := kSharedRingVersion, md_kind := qd_kind d,
           md_header_bytes := of_nat header_size, md_mapping_bytes := size,
           md_capacity := qd_capacity d, md_slot_stride := qd_slot_stride d\<rparr>"
  using assms
  by (auto simp: create_shared_ring_def Let_def not_less split: if_splits sum.splits option.splits)

text \<open>C35. A ring that \<open>create_shared_ring\<close> made is accepted by \<open>map_shared_ring\<close> in the process that
  receives its descriptor, whatever the counters have become since, if that process names the
  same queue descriptor; and it is refused with \<open>EPROTO\<close>, and unmapped again, if the process
  names any other valid descriptor.\<close>

theorem create_map_roundtrip:
  assumes "create_shared_ring sys d True empty_ring = (OK, effects, ring, Some h)"
    and "sy_sysconf sys' = sy_sysconf sys" and "sy_fstat sys' = Inr (uint (sr_mapping_size ring))"
    and "sy_mmap sys' = Inr mapping" and "0 \<le> fd"
    and "h' = h\<lparr>tail_value := tv, head_value := hv\<rparr>" and "valid_descriptor e"
  shows "map_shared_ring sys' h' fd e True empty_ring =
    (if e = d then (OK, [], make_ring mapping (sr_mapping_size ring) (-1) d)
     else (EPROTO, [Munmap mapping (sr_mapping_size ring)], empty_ring))"
proof -
  from assms(1) obtain page size m fd0 where c: "system_page_size sys = Inr page"
    "shared_ring_mapping_size d page True = Inr size" "ring = make_ring m size fd0 d"
    and h: "h = zero_header\<lparr>md_magic := kSharedRingMagic, md_version := kSharedRingVersion, md_kind := qd_kind d,
           md_header_bytes := of_nat header_size, md_mapping_bytes := size,
           md_capacity := qd_capacity d, md_slot_stride := qd_slot_stride d\<rparr>"
    by (rule create_ok_cases)
  have sz: "sr_mapping_size ring = size" by (simp add: c make_ring_def empty_ring_def)
  have page: "system_page_size sys' = Inr page"
    using c(1) assms(2) by (auto simp: system_page_size_def split: if_splits)
  have vd: "valid_descriptor d" and pz: "page \<noteq> 0"
    using c(2) by (auto simp: shared_ring_mapping_size_def split: if_splits)
  have big: "header_size \<le> unat size"
  proof -
    let ?raw = "header_size + unat (qd_capacity d) * unat (qd_slot_stride d)"
    let ?n = "(?raw + unat page - 1) div unat page"
    define k where "k = ?n * unat page"
    have "shared_ring_mapping_size d page True = (if k < 2 ^ 64 then Inr (of_nat k) else Inl EOVERFLOW)"
      unfolding k_def by (rule mapping_size_cases [OF vd pz])
    then have "k < 18446744073709551616" "size = of_nat k"
      using c(2) by (simp_all split: if_splits)
    then have "unat size = k" by (simp add: unat_of_nat_u64)
    then have sz: "unat size = ?n * unat page" unfolding k_def .
    have "?raw \<le> ?n * unat page"
    proof -
      have "(?raw + unat page - 1) mod unat page < unat page" using pz by (simp add: unat_gt_0)
      moreover have "?n * unat page + (?raw + unat page - 1) mod unat page = ?raw + unat page - 1"
        by (rule div_mult_mod_eq)
      ultimately show ?thesis by linarith
    qed
    with sz show ?thesis by linarith
  qed
  have u: "int header_size \<le> uint size"
    using big unfolding uint_nat by (simp only: of_nat_le_iff)
  have u2: "uint size < 18446744073709551616" using uint_lt2p [of size] by simp
  have rz: "reserved_is_zero h'"
    by (simp add: assms(6) h reserved_is_zero_def zero_header_def list_all_iff)
  have hf: "md_magic h' = kSharedRingMagic" "md_version h' = kSharedRingVersion" "md_kind h' = qd_kind d"
    "md_header_bytes h' = of_nat header_size" "md_mapping_bytes h' = size"
    "md_capacity h' = qd_capacity d" "md_slot_stride h' = qd_slot_stride d"
    by (simp_all add: assms(6) h)
  have val: "validate_header sys' e size h' = (if e = d then OK else EPROTO)"
  proof (cases "e = d")
    case True
    then show ?thesis using c(2) rz by (simp add: validate_header_def hf page)
  next
    case False
    then have "\<not> (qd_kind d = qd_kind e \<and> qd_capacity d = qd_capacity e \<and> qd_slot_stride d = qd_slot_stride e)"
      by (cases e, cases d) auto
    then show ?thesis using False rz by (auto simp: validate_header_def hf)
  qed
  show ?thesis
    using assms(3-5,7) u u2 val sz vd
    by (auto simp: map_shared_ring_def ring_valid_def empty_ring_def Let_def ring_reset_def)
qed

definition demo_sys :: ring_syscalls where
  "demo_sys = \<lparr>sy_sysconf = 4096, sy_sysconf_errno = 0, sy_memfd = Inr 5, sy_ftruncate = None,
     sy_mmap = Inr 8192, sy_seal = None, sy_fstat = Inr 4096\<rparr>"

lemma demo_mapping_size: "shared_ring_mapping_size demo_desc 4096 True = Inr 4096"
  using mapping_size_cases [of demo_desc 4096] by (simp add: demo_desc_def valid_descriptor_def)

theorem create_map_roundtrip_witness:
  "\<exists>effects ring h. create_shared_ring demo_sys demo_desc True empty_ring = (OK, effects, ring, Some h) \<and>
     map_shared_ring demo_sys h 7 demo_desc True empty_ring = (OK, [], make_ring 8192 4096 (-1) demo_desc)"
proof -
  obtain effects ring h where c: "create_shared_ring demo_sys demo_desc True empty_ring = (OK, effects, ring, Some h)"
    and sz: "sr_mapping_size ring = 4096"
    by (simp add: create_shared_ring_def demo_sys_def system_page_size_def demo_mapping_size ring_valid_def
        empty_ring_def make_ring_def Let_def word_less_nat_alt)
  have "sy_sysconf demo_sys = sy_sysconf demo_sys" "sy_fstat demo_sys = Inr (uint (sr_mapping_size ring))"
    "sy_mmap demo_sys = Inr 8192" "(0 :: int) \<le> 7" "valid_descriptor demo_desc"
    by (simp_all add: demo_sys_def sz valid_descriptor_def demo_desc_def)
  note r = create_map_roundtrip [OF c this(1-4) _ this(5), of _ "head_value h" "tail_value h"]
  have "map_shared_ring demo_sys h 7 demo_desc True empty_ring = (OK, [], make_ring 8192 4096 (-1) demo_desc)"
    using r [OF refl] by (simp add: sz)
  with c show ?thesis by blast
qed

definition acquired :: "ring_syscalls \<Rightarrow> queue_descriptor \<Rightarrow> sys_effect list" where
  "acquired sys d =
     (case system_page_size sys of Inl _ \<Rightarrow> []
      | Inr page_size \<Rightarrow>
         (case shared_ring_mapping_size d page_size True of Inl _ \<Rightarrow> []
          | Inr mapping_size \<Rightarrow>
             if mapping_size > 0x7fffffffffffffff then []
             else case sy_memfd sys of Inl _ \<Rightarrow> []
             | Inr fd \<Rightarrow>
                (case (sy_ftruncate sys, sy_mmap sys) of
                   (None, Inr mapping) \<Rightarrow> [Munmap mapping mapping_size, Close fd]
                 | _ \<Rightarrow> [Close fd])))"

text \<open>\<open>create_shared_ring\<close> leaks nothing: for any outcome of its system calls (a failing call
  reporting a non-zero errno), a failure leaves the caller's ring as it was and closes and unmaps
  exactly the descriptor and mapping it had acquired, and a success hands both to the ring.\<close>

theorem create_shared_ring_no_leak:
  assumes "create_shared_ring sys d True ring = (status, effects, ring', header)"
    and "\<not> ring_valid ring" "sr_descriptor ring < 0"
    and "sy_memfd sys \<noteq> Inl 0" "sy_ftruncate sys \<noteq> Some 0" "sy_mmap sys \<noteq> Inl 0" "sy_seal sys \<noteq> Some 0"
    and "case sy_memfd sys of Inr fd \<Rightarrow> fd \<ge> 0 | Inl _ \<Rightarrow> True"
  shows "(status = OK \<longrightarrow> effects = [] \<and> fst (ring_reset ring') = acquired sys d \<and> header \<noteq> None) \<and>
         (status \<noteq> OK \<longrightarrow> effects = acquired sys d \<and> ring' = ring \<and> header = None)"
  using assms
  by (auto simp: create_shared_ring_def acquired_def ring_valid_def ring_reset_def make_ring_def Let_def
        system_page_size_def shared_ring_mapping_size_def
      split: if_splits sum.splits option.splits)

theorem create_shared_ring_no_leak_witness:
  "\<exists>effects ring header.
     create_shared_ring (demo_sys\<lparr>sy_seal := Some EINVAL\<rparr>) demo_desc True empty_ring = (EINVAL, effects, ring, header) \<and>
     effects = [Munmap 8192 4096, Close 5] \<and> ring = empty_ring"
proof -
  let ?sys = "demo_sys\<lparr>sy_seal := Some EINVAL\<rparr>"
  have c: "create_shared_ring ?sys demo_desc True empty_ring
      = (EINVAL, [Munmap 8192 4096, Close 5], empty_ring, None)"
    by (simp add: create_shared_ring_def demo_sys_def system_page_size_def demo_mapping_size ring_valid_def
        empty_ring_def Let_def word_less_nat_alt)
  have h: "\<not> ring_valid empty_ring" "sr_descriptor empty_ring < 0" "sy_memfd ?sys \<noteq> Inl 0"
    "sy_ftruncate ?sys \<noteq> Some 0" "sy_mmap ?sys \<noteq> Inl 0" "sy_seal ?sys \<noteq> Some 0"
    "case sy_memfd ?sys of Inr fd \<Rightarrow> fd \<ge> 0 | Inl _ \<Rightarrow> True"
    by (simp_all add: ring_valid_def empty_ring_def demo_sys_def)
  from create_shared_ring_no_leak [OF c h]
  have "[Munmap 8192 4096, Close 5] = acquired ?sys demo_desc" by simp
  with c show ?thesis by blast
qed

text \<open>The capacity bound of the previous properties is needed: \<open>valid_descriptor\<close> accepts a
  ring of \<open>2 ^ 32 - 1\<close> slots, and in it publishing a full reservation that starts at the last slot
  overflows the 32-bit sum \<open>local_index + count\<close>, so the producer continues at a slot that is not
  its tail modulo the capacity.\<close>

theorem publish_index_overflows:
  "\<exists>d p. valid_descriptor d \<and> qd_capacity d = 4294967295 \<and> ps_local_index p < qd_capacity d \<and>
     ps_reserved p \<le> qd_capacity d \<and> ps_local_tail p mod ucast (qd_capacity d) = ucast (ps_local_index p) \<and>
     (case producer_publish (ps_reserved p) ((make_ring 0 0 (-1) d)\<lparr>sr_producer := p\<rparr>) of
        (status, store, ring) \<Rightarrow>
          status = OK \<and>
          (\<exists>tail. store = Some tail \<and>
             tail mod ucast (qd_capacity d) \<noteq> ucast (ps_local_index (sr_producer ring))))"
  by (rule exI [of _ "\<lparr>qd_kind = 1, qd_capacity = 4294967295, qd_slot_stride = 64\<rparr>"],
      rule exI [of _ "\<lparr>ps_local_tail = 4294967294, ps_cached_head = 4294967294,
         ps_local_index = 4294967294, ps_reserved = 4294967295, ps_initialized = True\<rparr>"])
     (simp add: valid_descriptor_def producer_publish_def make_ring_def empty_ring_def ring_valid_def Let_def
        word_le_nat_alt word_less_nat_alt)

end
