(* ===== verification/Pd_Mr_Cq.thy ===== *)
theory Pd_Mr_Cq
  imports Device_Context Queue_Codec Ring_Mapping Descriptors
begin

unbundle bit_operations_syntax

text \<open>
  \<^verbatim>\<open>control/pd_mr_cq.cpp\<close>: protection domains, memory regions and completion queues. This theory has the
  registration payloads, the service and the client calls; the service's invariant is in
  \<open>Control_Objects\<close>. The service record extends the context service's, as the class derives from it.

  What a request depends on outside the program is the \<open>control_world\<close> it runs in: the answers of
  the memory backend (\<open>CudaIpcMemoryBackend\<close>, a virtual interface), of the system calls behind the
  rings, and how many of the insertions into the hash tables succeed before one throws. The backend
  itself is the sequence of calls made on it.
\<close>

section \<open>Exported memory and its encoding\<close>

definition kMrPayloadVersion :: u16 where "kMrPayloadVersion = 1"
definition kAccessLocalWrite :: u32 where "kAccessLocalWrite = 1"
definition kAccessRemoteWrite :: u32 where "kAccessRemoteWrite = 2"

abbreviation kGpuUuidSize :: nat where "kGpuUuidSize \<equiv> 16"
abbreviation kMaxCudaIpcHandleSize :: nat where "kMaxCudaIpcHandleSize \<equiv> 256"
abbreviation kMrRegistrationFixedSize :: nat where "kMrRegistrationFixedSize \<equiv> 48"
abbreviation kMrRegistrationResultSize :: nat where "kMrRegistrationResultSize \<equiv> 28"

text \<open>\<open>GpuUuid\<close> is a fixed array of 16 bytes: lists of that length.\<close>

record exported_cuda_memory =
  em_gpu_uuid :: bytes
  em_client_address :: u64
  em_allocation_size :: u64
  em_allocation_offset :: u64
  em_length :: u64
  em_ipc_handle :: bytes

record cuda_ipc_mapping =
  im_gpu_uuid :: bytes
  im_daemon_base_address :: u64

record mr_registration_result =
  rr_client_address :: u64
  rr_length :: u64
  rr_lkey :: u32
  rr_rkey :: u32

definition uuid_is_zero :: "bytes \<Rightarrow> bool" where
  "uuid_is_zero uuid \<longleftrightarrow> list_all (\<lambda>v. v = 0) uuid"

definition valid_memory :: "exported_cuda_memory \<Rightarrow> bool" where
  "valid_memory m \<longleftrightarrow>
     \<not> (uuid_is_zero (em_gpu_uuid m) \<or> em_client_address m = 0 \<or> em_length m = 0 \<or>
        em_allocation_size m = 0 \<or> em_allocation_offset m > em_allocation_size m \<or>
        em_length m > em_allocation_size m - em_allocation_offset m \<or>
        em_client_address m < em_allocation_offset m \<or> em_ipc_handle m = [] \<or>
        length (em_ipc_handle m) > kMaxCudaIpcHandleSize)"

definition valid_access :: "u32 \<Rightarrow> bool" where
  "valid_access access \<longleftrightarrow>
     access AND NOT (kAccessLocalWrite OR kAccessRemoteWrite) = 0 \<and>
     (access AND kAccessRemoteWrite = 0 \<or> access AND kAccessLocalWrite \<noteq> 0)"

definition encode_mr_registration :: "exported_cuda_memory \<Rightarrow> int + bytes" where
  "encode_mr_registration m =
     (if \<not> valid_memory m then Inl EINVAL
      else
        let e1 = append16 (append16 [] (htons kMrPayloadVersion)) 0 @ em_gpu_uuid m;
            e2 = append64 e1 (host_to_network64 (em_client_address m));
            e3 = append64 e2 (host_to_network64 (em_allocation_size m));
            e4 = append64 e3 (host_to_network64 (em_allocation_offset m));
            e5 = append32 e4 (htonl (of_nat (length (em_ipc_handle m))))
        in Inr (e5 @ em_ipc_handle m))"

definition read_mr_fields :: "bytes \<Rightarrow> nat \<Rightarrow> (u64 \<times> u64 \<times> u64 \<times> u32 \<times> nat) option" where
  "read_mr_fields bs off =
     do { (client_address, off) \<leftarrow> read64 bs off; (allocation_size, off) \<leftarrow> read64 bs off;
          (allocation_offset, off) \<leftarrow> read64 bs off; (handle_size, off) \<leftarrow> read32 bs off;
          Some (client_address, allocation_size, allocation_offset, handle_size, off) }"

definition read_mr_version :: "bytes \<Rightarrow> (u16 \<times> u16 \<times> nat) option" where
  "read_mr_version bs =
     do { (version, off) \<leftarrow> read16 bs 0; (reserved, off) \<leftarrow> read16 bs off; Some (version, reserved, off) }"

definition decode_mr_registration :: "bytes \<Rightarrow> u64 \<Rightarrow> int + exported_cuda_memory" where
  "decode_mr_registration bs len =
     (if length bs < kMrRegistrationFixedSize then Inl EPROTO
      else case read_mr_version bs of
        None \<Rightarrow> Inl EPROTO
      | Some (version, reserved, off) \<Rightarrow>
          if ntohs version \<noteq> kMrPayloadVersion then Inl EPROTONOSUPPORT
          else if reserved \<noteq> 0 then Inl EPROTO
          else case read_mr_fields bs (off + kGpuUuidSize) of
            None \<Rightarrow> Inl EPROTO
          | Some (client_address, allocation_size, allocation_offset, handle_size, off') \<Rightarrow>
              let n = unat (ntohl handle_size)
              in if n = 0 \<or> n > kMaxCudaIpcHandleSize \<or> n \<noteq> length bs - off' then Inl EPROTO
                 else
                   let decoded = \<lparr>em_gpu_uuid = take kGpuUuidSize (drop off bs),
                         em_client_address = network_to_host64 client_address,
                         em_allocation_size = network_to_host64 allocation_size,
                         em_allocation_offset = network_to_host64 allocation_offset,
                         em_length = len, em_ipc_handle = drop off' bs\<rparr>
                   in if \<not> valid_memory decoded then Inl EINVAL else Inr decoded)"

definition encode_mr_registration_result :: "mr_registration_result \<Rightarrow> int + bytes" where
  "encode_mr_registration_result r =
     (if rr_client_address r = 0 \<or> rr_length r = 0 \<or> rr_lkey r = 0 \<or> rr_rkey r = 0 then Inl EINVAL
      else Inr (append32 (append32 (append64 (append64 (append16 (append16 []
              (htons kMrPayloadVersion)) 0) (host_to_network64 (rr_client_address r)))
              (host_to_network64 (rr_length r))) (htonl (rr_lkey r))) (htonl (rr_rkey r))))"

definition read_mr_result :: "bytes \<Rightarrow> (u16 \<times> u16 \<times> u64 \<times> u64 \<times> u32 \<times> u32) option" where
  "read_mr_result bs =
     do { (version, off) \<leftarrow> read16 bs 0; (reserved, off) \<leftarrow> read16 bs off;
          (client_address, off) \<leftarrow> read64 bs off; (len, off) \<leftarrow> read64 bs off;
          (lkey, off) \<leftarrow> read32 bs off; (rkey, off) \<leftarrow> read32 bs off;
          Some (version, reserved, client_address, len, lkey, rkey) }"

definition decode_mr_registration_result :: "bytes \<Rightarrow> int + mr_registration_result" where
  "decode_mr_registration_result bs =
     (if length bs \<noteq> kMrRegistrationResultSize then Inl EPROTO
      else case read_mr_result bs of
        None \<Rightarrow> Inl EPROTO
      | Some (version, reserved, client_address, len, lkey, rkey) \<Rightarrow>
          if ntohs version \<noteq> kMrPayloadVersion \<or> reserved \<noteq> 0 then Inl EPROTO
          else
            let decoded = \<lparr>rr_client_address = network_to_host64 client_address,
                  rr_length = network_to_host64 len, rr_lkey = ntohl lkey, rr_rkey = ntohl rkey\<rparr>
            in if rr_client_address decoded = 0 \<or> rr_length decoded = 0 \<or> rr_lkey decoded = 0 \<or>
                  rr_rkey decoded = 0 then Inl EPROTO
               else Inr decoded)"

section \<open>Requests\<close>

definition make_create_pd_request :: "u64 \<Rightarrow> control_request" where
  "make_create_pd_request context_identity =
     new_request\<lparr>rq_method := cm_create_pd, rq_object_identity := context_identity\<rparr>"

definition make_destroy_pd_request :: "u64 \<Rightarrow> control_request" where
  "make_destroy_pd_request pd_identity =
     new_request\<lparr>rq_method := cm_destroy_pd, rq_object_identity := pd_identity\<rparr>"

definition make_register_mr_request :: "u64 \<Rightarrow> exported_cuda_memory \<Rightarrow> u32 \<Rightarrow> control_request" where
  "make_register_mr_request pd_identity memory access =
     new_request\<lparr>rq_method := cm_register_mr, rq_object_identity := pd_identity,
       rq_length := em_length memory, rq_access := access,
       rq_opaque := (case encode_mr_registration memory of Inl _ \<Rightarrow> [] | Inr bs \<Rightarrow> bs)\<rparr>"

definition make_deregister_mr_request :: "u64 \<Rightarrow> control_request" where
  "make_deregister_mr_request mr_identity =
     new_request\<lparr>rq_method := cm_deregister_mr, rq_object_identity := mr_identity\<rparr>"

definition make_create_cq_request :: "u64 \<Rightarrow> u32 \<Rightarrow> control_request" where
  "make_create_cq_request context_identity cqe =
     new_request\<lparr>rq_method := cm_create_cq, rq_object_identity := context_identity, rq_length := ucast cqe\<rparr>"

definition make_destroy_cq_request :: "u64 \<Rightarrow> control_request" where
  "make_destroy_cq_request cq_identity =
     new_request\<lparr>rq_method := cm_destroy_cq, rq_object_identity := cq_identity\<rparr>"

section \<open>The service\<close>

record pd_record =
  pd_context_identity :: u64
  pd_mr_identities :: "u64 set"
  pd_local_key_index :: "u32 \<rightharpoonup> u64"
  pd_remote_key_index :: "u32 \<rightharpoonup> u64"
  pd_qp_count :: nat

record mr_record =
  mr_context_identity :: u64
  mr_pd_identity :: u64
  mr_gpu_uuid :: bytes
  mr_client_address :: u64
  mr_allocation_size :: u64
  mr_allocation_offset :: u64
  mr_daemon_address :: u64
  mr_length :: u64
  mr_access :: u32
  mr_lkey :: u32
  mr_rkey :: u32
  mr_work_request_references :: nat
  mr_mapping :: cuda_ipc_mapping

record cq_record =
  cq_context_identity :: u64
  cq_cqe :: u32
  cq_qp_references :: nat
  cq_completions :: shared_ring

text \<open>The calls made on the memory backend, with what they returned.\<close>

datatype backend_call =
    OpenCall exported_cuda_memory "int + cuda_ipc_mapping"
  | CloseCall cuda_ipc_mapping int

record pd_mr_cq_service = device_context_service +
  pm_memory_backend :: "backend_call list"
  pm_pds :: "pd_record registry"
  pm_mrs :: "mr_record registry"
  pm_cqs :: "cq_record registry"
  pm_next_key :: u64

record control_world =
  cw_open :: "exported_cuda_memory \<Rightarrow> int + cuda_ipc_mapping"
  cw_close :: "cuda_ipc_mapping \<Rightarrow> int"
  cw_index_inserts :: nat
  cw_ring :: ring_syscalls
  cw_dup :: "int + int"
  cw_ring2 :: ring_syscalls
  cw_dup2 :: "int + int"

definition empty_shape :: "control_request \<times> int list \<Rightarrow> bool" where
  "empty_shape request \<longleftrightarrow>
     rq_length (fst request) = 0 \<and> rq_access (fst request) = 0 \<and> rq_opaque (fst request) = [] \<and>
     rq_fd_indices (fst request) = [] \<and> snd request = []"

definition response_for :: "control_request \<times> int list \<Rightarrow> int \<Rightarrow> control_response \<times> int list" where
  "response_for request status =
     (new_response\<lparr>rp_method := rq_method (fst request), rp_status := status\<rparr>, [])"

definition identity_response :: "control_request \<times> int list \<Rightarrow> u64 \<Rightarrow> control_response \<times> int list" where
  "identity_response request identity =
     (fst (response_for request OK)\<lparr>rp_object_identity := identity\<rparr>, [])"

definition allocate_keys :: "u64 \<Rightarrow> (u32 \<times> u32) option \<times> u64" where
  "allocate_keys next_key =
     (if next_key = 0 \<or> next_key > 0xffffffff - 1 then (None, next_key)
      else (Some (ucast next_key, ucast (next_key + 1)), next_key + 2))"

definition backend_close ::
  "control_world \<Rightarrow> cuda_ipc_mapping \<Rightarrow> 'a pd_mr_cq_service_scheme \<Rightarrow> int \<times> 'a pd_mr_cq_service_scheme" where
  "backend_close w mapping s =
     (cw_close w mapping, s\<lparr>pm_memory_backend := pm_memory_backend s @ [CloseCall mapping (cw_close w mapping)]\<rparr>)"

definition add_child :: "u64 \<Rightarrow> 'a device_context_service_scheme \<Rightarrow> 'a device_context_service_scheme" where
  "add_child i s = s\<lparr>dc_contexts := reg_update i (\<lambda>c. c\<lparr>ctx_child_count := ctx_child_count c + 1\<rparr>) (dc_contexts s)\<rparr>"

definition drop_child :: "u64 \<Rightarrow> 'a device_context_service_scheme \<Rightarrow> 'a device_context_service_scheme" where
  "drop_child i s = s\<lparr>dc_contexts := reg_update i (\<lambda>c. c\<lparr>ctx_child_count := ctx_child_count c - 1\<rparr>) (dc_contexts s)\<rparr>"

definition handle_create_pd :: "'a pd_mr_cq_service_scheme control_service" where
  "handle_create_pd s session_id request =
     (let ctx = rq_object_identity (fst request) in
      if \<not> empty_shape request then (response_for request EINVAL, s)
      else case reg_resolve ot_context session_id ctx (dc_contexts s) of
        None \<Rightarrow> (response_for request EINVAL, s)
      | Some context \<Rightarrow>
          (case reg_insert ot_pd session_id \<lparr>pd_context_identity = ctx, pd_mr_identities = {},
                  pd_local_key_index = Map.empty, pd_remote_key_index = Map.empty, pd_qp_count = 0\<rparr> (pm_pds s) of
             (None, pds) \<Rightarrow> (response_for request ENOSPC, s\<lparr>pm_pds := pds\<rparr>)
           | (Some identity, pds) \<Rightarrow> (identity_response request identity, add_child ctx (s\<lparr>pm_pds := pds\<rparr>))))"

definition handle_destroy_pd :: "'a pd_mr_cq_service_scheme control_service" where
  "handle_destroy_pd s session_id request =
     (let i = rq_object_identity (fst request) in
      if \<not> empty_shape request then (response_for request EINVAL, s)
      else case reg_resolve ot_pd session_id i (pm_pds s) of
        None \<Rightarrow> (response_for request EINVAL, s)
      | Some pd \<Rightarrow>
          if pd_mr_identities pd \<noteq> {} \<or> pd_qp_count pd \<noteq> 0 then (response_for request EBUSY, s)
          else case reg_resolve ot_context session_id (pd_context_identity pd) (dc_contexts s) of
            None \<Rightarrow> (response_for request EINVAL, s)
          | Some context \<Rightarrow>
              if ctx_child_count context = 0 then (response_for request EINVAL, s)
              else (case reg_erase ot_pd session_id i (pm_pds s) of
                  (status, pds) \<Rightarrow>
                    (response_for request status,
                     if status = OK then drop_child (pd_context_identity pd) (s\<lparr>pm_pds := pds\<rparr>)
                     else s\<lparr>pm_pds := pds\<rparr>)))"

text \<open>Lines 415 to 421: the three insertions, of which the first \<open>n\<close> happen before one throws.\<close>

definition index_mr :: "nat \<Rightarrow> u64 \<Rightarrow> u32 \<Rightarrow> u32 \<Rightarrow> pd_record \<Rightarrow> bool \<times> pd_record" where
  "index_mr n identity lkey rkey pd =
     (let relation_added = 1 \<le> n \<and> identity \<notin> pd_mr_identities pd;
          pd1 = (if 1 \<le> n then pd\<lparr>pd_mr_identities := insert identity (pd_mr_identities pd)\<rparr> else pd);
          local_added = 2 \<le> n \<and> pd_local_key_index pd1 lkey = None;
          pd2 = (if local_added then pd1\<lparr>pd_local_key_index := (pd_local_key_index pd1)(lkey \<mapsto> identity)\<rparr> else pd1);
          remote_added = 3 \<le> n \<and> pd_remote_key_index pd2 rkey = None;
          pd3 = (if remote_added then pd2\<lparr>pd_remote_key_index := (pd_remote_key_index pd2)(rkey \<mapsto> identity)\<rparr> else pd2)
      in (relation_added \<and> local_added \<and> remote_added, pd3))"

definition unindex_mr :: "u64 \<Rightarrow> u32 \<Rightarrow> u32 \<Rightarrow> pd_record \<Rightarrow> pd_record" where
  "unindex_mr identity lkey rkey pd =
     pd\<lparr>pd_mr_identities := pd_mr_identities pd - {identity},
        pd_local_key_index := (pd_local_key_index pd)(lkey := None),
        pd_remote_key_index := (pd_remote_key_index pd)(rkey := None)\<rparr>"

definition new_mr :: "pd_record \<Rightarrow> u64 \<Rightarrow> u32 \<Rightarrow> exported_cuda_memory \<Rightarrow> cuda_ipc_mapping \<Rightarrow> u32 \<Rightarrow> u32 \<Rightarrow> mr_record" where
  "new_mr pd pd_identity access memory mapping lkey rkey =
     \<lparr>mr_context_identity = pd_context_identity pd, mr_pd_identity = pd_identity,
      mr_gpu_uuid = em_gpu_uuid memory, mr_client_address = em_client_address memory,
      mr_allocation_size = em_allocation_size memory, mr_allocation_offset = em_allocation_offset memory,
      mr_daemon_address = im_daemon_base_address mapping + em_allocation_offset memory,
      mr_length = em_length memory, mr_access = access, mr_lkey = lkey, mr_rkey = rkey,
      mr_work_request_references = 0, mr_mapping = mapping\<rparr>"

text \<open>\<open>handle_register_mr\<close> from line 389 on, where the mapping is open and accepted.\<close>

definition register_mapped_mr ::
  "control_world \<Rightarrow> pd_record \<Rightarrow> exported_cuda_memory \<Rightarrow> cuda_ipc_mapping \<Rightarrow> 'a pd_mr_cq_service_scheme control_service" where
  "register_mapped_mr w pd memory mapping s session_id request =
     (let pd_identity = rq_object_identity (fst request) in
      case allocate_keys (pm_next_key s) of
        (None, _) \<Rightarrow> (response_for request ENOSPC, snd (backend_close w mapping s))
      | (Some (lkey, rkey), next_key) \<Rightarrow>
          let s = s\<lparr>pm_next_key := next_key\<rparr>;
              accepted = \<lparr>rr_client_address = em_client_address memory, rr_length = em_length memory,
                           rr_lkey = lkey, rr_rkey = rkey\<rparr>
          in case encode_mr_registration_result accepted of
            Inl encode_status \<Rightarrow> (response_for request encode_status, snd (backend_close w mapping s))
          | Inr encoded_result \<Rightarrow>
              (case reg_insert ot_mr session_id
                      (new_mr pd pd_identity (rq_access (fst request)) memory mapping lkey rkey) (pm_mrs s) of
                 (None, mrs) \<Rightarrow> (response_for request ENOSPC, snd (backend_close w mapping (s\<lparr>pm_mrs := mrs\<rparr>)))
               | (Some identity, mrs) \<Rightarrow>
                   let s = s\<lparr>pm_mrs := mrs\<rparr>;
                       (added, pd') = index_mr (cw_index_inserts w) identity lkey rkey pd
                   in if \<not> added
                      then (response_for request ENOMEM, snd (backend_close w mapping
                              (s\<lparr>pm_pds := reg_update pd_identity (\<lambda>_. unindex_mr identity lkey rkey pd') (pm_pds s),
                                 pm_mrs := snd (reg_erase ot_mr session_id identity (pm_mrs s))\<rparr>)))
                      else ((fst (identity_response request identity)\<lparr>rp_opaque := encoded_result\<rparr>, []),
                            s\<lparr>pm_pds := reg_update pd_identity (\<lambda>_. pd') (pm_pds s)\<rparr>)))"

definition handle_register_mr :: "control_world \<Rightarrow> 'a pd_mr_cq_service_scheme control_service" where
  "handle_register_mr w s session_id request =
     (if rq_fd_indices (fst request) \<noteq> [] \<or> snd request \<noteq> [] \<or> \<not> valid_access (rq_access (fst request))
      then (response_for request EINVAL, s)
      else case reg_resolve ot_pd session_id (rq_object_identity (fst request)) (pm_pds s) of
        None \<Rightarrow> (response_for request EINVAL, s)
      | Some pd \<Rightarrow>
          (case decode_mr_registration (rq_opaque (fst request)) (rq_length (fst request)) of
             Inl decode_status \<Rightarrow> (response_for request decode_status, s)
           | Inr memory \<Rightarrow>
               let s = s\<lparr>pm_memory_backend := pm_memory_backend s @ [OpenCall memory (cw_open w memory)]\<rparr>
               in case cw_open w memory of
                 Inl open_status \<Rightarrow> (response_for request open_status, s)
               | Inr mapping \<Rightarrow>
                   if im_daemon_base_address mapping = 0 \<or> im_gpu_uuid mapping \<noteq> em_gpu_uuid memory \<or>
                      im_daemon_base_address mapping > - 1 - em_allocation_offset memory
                   then (response_for request EPROTO, snd (backend_close w mapping s))
                   else register_mapped_mr w pd memory mapping s session_id request))"

definition handle_deregister_mr :: "control_world \<Rightarrow> 'a pd_mr_cq_service_scheme control_service" where
  "handle_deregister_mr w s session_id request =
     (let i = rq_object_identity (fst request) in
      if \<not> empty_shape request then (response_for request EINVAL, s)
      else case reg_resolve ot_mr session_id i (pm_mrs s) of
        None \<Rightarrow> (response_for request EINVAL, s)
      | Some mr \<Rightarrow>
          if mr_work_request_references mr \<noteq> 0 then (response_for request EBUSY, s)
          else case backend_close w (mr_mapping mr) s of
            (close_status, s) \<Rightarrow>
              if close_status \<noteq> OK then (response_for request close_status, s)
              else case reg_resolve ot_pd session_id (mr_pd_identity mr) (pm_pds s) of
                None \<Rightarrow> (response_for request EINVAL, s)
              | Some pd \<Rightarrow>
                  (case reg_erase ot_mr session_id i (pm_mrs s) of
                     (status, mrs) \<Rightarrow>
                       (response_for request status,
                        s\<lparr>pm_pds := reg_update (mr_pd_identity mr) (unindex_mr i (mr_lkey mr) (mr_rkey mr)) (pm_pds s),
                          pm_mrs := mrs\<rparr>)))"

definition cq_descriptor :: "u64 \<Rightarrow> queue_descriptor" where
  "cq_descriptor len = \<lparr>qd_kind = qk_completion, qd_capacity = ucast len, qd_slot_stride = completion_slot_stride\<rparr>"

definition handle_create_cq :: "control_world \<Rightarrow> 'a pd_mr_cq_service_scheme control_service" where
  "handle_create_cq w s session_id request =
     (let ctx = rq_object_identity (fst request); len = rq_length (fst request) in
      if len = 0 \<or> len > 0xffffffff \<or> rq_access (fst request) \<noteq> 0 \<or> rq_opaque (fst request) \<noteq> [] \<or>
         rq_fd_indices (fst request) \<noteq> [] \<or> snd request \<noteq> [] then (response_for request EINVAL, s)
      else case reg_resolve ot_context session_id ctx (dc_contexts s) of
        None \<Rightarrow> (response_for request EINVAL, s)
      | Some context \<Rightarrow>
          (case create_shared_ring (cw_ring w) (cq_descriptor len) True empty_ring of
             (create_status, _, completions, _) \<Rightarrow>
               if create_status \<noteq> OK then (response_for request create_status, s)
               else case duplicate_fd True (cw_dup w) completions of
                 Inl duplicate_status \<Rightarrow> (response_for request duplicate_status, s)
               | Inr response_fd \<Rightarrow>
                   (case encode_queue_descriptors [cq_descriptor len] of
                      Inl encode_status \<Rightarrow> (response_for request encode_status, s)
                    | Inr encoded_descriptor \<Rightarrow>
                        (case reg_insert ot_cq session_id \<lparr>cq_context_identity = ctx, cq_cqe = ucast len,
                                cq_qp_references = 0, cq_completions = completions\<rparr> (pm_cqs s) of
                           (None, cqs) \<Rightarrow> (response_for request ENOSPC, s\<lparr>pm_cqs := cqs\<rparr>)
                         | (Some identity, cqs) \<Rightarrow>
                             ((fst (identity_response request identity)\<lparr>rp_opaque := encoded_descriptor,
                                 rp_fd_indices := [0]\<rparr>, [response_fd]),
                              add_child ctx (s\<lparr>pm_cqs := cqs\<rparr>))))))"

definition handle_destroy_cq :: "'a pd_mr_cq_service_scheme control_service" where
  "handle_destroy_cq s session_id request =
     (let i = rq_object_identity (fst request) in
      if \<not> empty_shape request then (response_for request EINVAL, s)
      else case reg_resolve ot_cq session_id i (pm_cqs s) of
        None \<Rightarrow> (response_for request EINVAL, s)
      | Some cq \<Rightarrow>
          if cq_qp_references cq \<noteq> 0 then (response_for request EBUSY, s)
          else case reg_resolve ot_context session_id (cq_context_identity cq) (dc_contexts s) of
            None \<Rightarrow> (response_for request EINVAL, s)
          | Some context \<Rightarrow>
              if ctx_child_count context = 0 then (response_for request EINVAL, s)
              else (case reg_erase ot_cq session_id i (pm_cqs s) of
                  (status, cqs) \<Rightarrow>
                    (response_for request status,
                     if status = OK then drop_child (cq_context_identity cq) (s\<lparr>pm_cqs := cqs\<rparr>)
                     else s\<lparr>pm_cqs := cqs\<rparr>)))"

definition pd_mr_cq_handle :: "control_world \<Rightarrow> 'a pd_mr_cq_service_scheme control_service" where
  "pd_mr_cq_handle w s session_id request =
     (let method = rq_method (fst request) in
      if method = cm_create_pd then handle_create_pd s session_id request
      else if method = cm_destroy_pd then handle_destroy_pd s session_id request
      else if method = cm_register_mr then handle_register_mr w s session_id request
      else if method = cm_deregister_mr then handle_deregister_mr w s session_id request
      else if method = cm_create_cq then handle_create_cq w s session_id request
      else if method = cm_destroy_cq then handle_destroy_cq s session_id request
      else device_context_handle s session_id request)"

definition pd_mr_cq_on_disconnect ::
  "control_world \<Rightarrow> u64 \<Rightarrow> 'a pd_mr_cq_service_scheme \<Rightarrow> 'a pd_mr_cq_service_scheme" where
  "pd_mr_cq_on_disconnect w session_id s =
     (let s = fold (\<lambda>(_, mr). snd \<circ> backend_close w (mr_mapping mr))
                (reg_for_each_session ot_mr session_id (pm_mrs s)) s
      in device_context_on_disconnect session_id
           (s\<lparr>pm_mrs := snd (reg_erase_session session_id (pm_mrs s)),
              pm_cqs := snd (reg_erase_session session_id (pm_cqs s)),
              pm_pds := snd (reg_erase_session session_id (pm_pds s))\<rparr>))"

text \<open>\<open>Inl\<close> of the status, or \<open>Inr\<close> of the address stored through \<open>daemon_address\<close>.\<close>

definition resolve_key ::
  "u64 \<Rightarrow> u64 \<Rightarrow> u32 \<Rightarrow> u64 \<Rightarrow> u64 \<Rightarrow> bool \<Rightarrow> 'a pd_mr_cq_service_scheme \<Rightarrow> int + u64" where
  "resolve_key session_id pd_identity key address len remote s =
     (if key = 0 \<or> len = 0 then Inl EINVAL
      else case reg_resolve ot_pd session_id pd_identity (pm_pds s) of
        None \<Rightarrow> Inl EINVAL
      | Some pd \<Rightarrow>
          (case (if remote then pd_remote_key_index pd else pd_local_key_index pd) key of
             None \<Rightarrow> Inl EINVAL
           | Some found \<Rightarrow>
               (case reg_resolve ot_mr session_id found (pm_mrs s) of
                  None \<Rightarrow> Inl EINVAL
                | Some mr \<Rightarrow>
                    if mr_pd_identity mr \<noteq> pd_identity then Inl EINVAL
                    else if remote \<and> mr_access mr AND kAccessRemoteWrite = 0 then Inl EACCES
                    else if address < mr_client_address mr \<or> address > - 1 - len \<or>
                            mr_client_address mr > - 1 - mr_length mr \<or>
                            address + len > mr_client_address mr + mr_length mr then Inl EINVAL
                    else let offset = address - mr_client_address mr
                         in if mr_daemon_address mr > - 1 - offset then Inl EINVAL
                            else Inr (mr_daemon_address mr + offset))))"

definition resolve_lkey :: "u64 \<Rightarrow> u64 \<Rightarrow> u32 \<Rightarrow> u64 \<Rightarrow> u64 \<Rightarrow> 'a pd_mr_cq_service_scheme \<Rightarrow> int + u64" where
  "resolve_lkey session_id pd_identity lkey address len s =
     resolve_key session_id pd_identity lkey address len False s"

definition resolve_rkey :: "u64 \<Rightarrow> u64 \<Rightarrow> u32 \<Rightarrow> u64 \<Rightarrow> u64 \<Rightarrow> 'a pd_mr_cq_service_scheme \<Rightarrow> int + u64" where
  "resolve_rkey session_id pd_identity rkey address len s =
     resolve_key session_id pd_identity rkey address len True s"

section \<open>The client's calls\<close>

definition validate_identity :: "u64 \<Rightarrow> u8 \<Rightarrow> int" where
  "validate_identity identity ty =
     (case decode_object_identity identity of
        None \<Rightarrow> EPROTO
      | Some parts \<Rightarrow> if oip_type parts = ty then OK else EPROTO)"

definition call_identity ::
  "socket_io \<Rightarrow> control_request \<Rightarrow> u8 \<Rightarrow> control_client \<Rightarrow> (int + u64) \<times> control_client" where
  "call_identity io request ty cc =
     (case control_call io request cc of
        (Inl status, cc') \<Rightarrow> (Inl status, cc')
      | (Inr response, cc') \<Rightarrow>
          if rp_status response \<noteq> OK then (Inl (rp_status response), cc')
          else if validate_identity (rp_object_identity response) ty \<noteq> OK \<or> rp_opaque response \<noteq> [] \<or>
                  rp_fd_indices response \<noteq> [] then (Inl EPROTO, cc')
          else (Inr (rp_object_identity response), cc'))"

definition call_destroy :: "socket_io \<Rightarrow> control_request \<Rightarrow> control_client \<Rightarrow> int \<times> control_client" where
  "call_destroy io request cc =
     (case control_call io request cc of
        (Inl status, cc') \<Rightarrow> (status, cc')
      | (Inr response, cc') \<Rightarrow>
          if rp_status response = OK \<and> (rp_object_identity response \<noteq> 0 \<or> rp_opaque response \<noteq> [] \<or>
             rp_fd_indices response \<noteq> []) then (EPROTO, cc')
          else (rp_status response, cc'))"

definition client_create_pd :: "socket_io \<Rightarrow> u64 \<Rightarrow> control_client \<Rightarrow> (int + u64) \<times> control_client" where
  "client_create_pd io context_identity cc =
     (if context_identity = 0 then (Inl EINVAL, cc)
      else call_identity io (make_create_pd_request context_identity) ot_pd cc)"

definition client_destroy_pd :: "socket_io \<Rightarrow> u64 \<Rightarrow> control_client \<Rightarrow> int \<times> control_client" where
  "client_destroy_pd io pd_identity cc =
     (if pd_identity = 0 then (EINVAL, cc) else call_destroy io (make_destroy_pd_request pd_identity) cc)"

definition client_register_mr ::
  "socket_io \<Rightarrow> u64 \<Rightarrow> exported_cuda_memory \<Rightarrow> u32 \<Rightarrow> control_client \<Rightarrow>
   (int + (u64 \<times> mr_registration_result)) \<times> control_client" where
  "client_register_mr io pd_identity memory access cc =
     (if pd_identity = 0 \<or> \<not> valid_memory memory \<or> \<not> valid_access access then (Inl EINVAL, cc)
      else
        let request = make_register_mr_request pd_identity memory access
        in if rq_opaque request = [] then (Inl EINVAL, cc)
           else case control_call io request cc of
             (Inl status, cc') \<Rightarrow> (Inl status, cc')
           | (Inr response, cc') \<Rightarrow>
               if rp_status response \<noteq> OK then (Inl (rp_status response), cc')
               else if validate_identity (rp_object_identity response) ot_mr \<noteq> OK \<or> rp_fd_indices response \<noteq> []
               then (Inl EPROTO, cc')
               else case decode_mr_registration_result (rp_opaque response) of
                 Inl decode_status \<Rightarrow> (Inl EPROTO, cc')
               | Inr decoded \<Rightarrow>
                   if rr_client_address decoded \<noteq> em_client_address memory \<or> rr_length decoded \<noteq> em_length memory
                   then (Inl EPROTO, cc')
                   else (Inr (rp_object_identity response, decoded), cc'))"

definition client_deregister_mr :: "socket_io \<Rightarrow> u64 \<Rightarrow> control_client \<Rightarrow> int \<times> control_client" where
  "client_deregister_mr io mr_identity cc =
     (if mr_identity = 0 then (EINVAL, cc) else call_destroy io (make_deregister_mr_request mr_identity) cc)"

definition client_destroy_cq :: "socket_io \<Rightarrow> u64 \<Rightarrow> control_client \<Rightarrow> int \<times> control_client" where
  "client_destroy_cq io cq_identity cc =
     (if cq_identity = 0 then (EINVAL, cc) else call_destroy io (make_destroy_cq_request cq_identity) cc)"

text \<open>The socket's behaviour during the call that creates the queue, then during the call that destroys
  it again when the answer is not acceptable; the system calls and the header \<open>map_shared_ring\<close> finds.\<close>

definition client_create_cq ::
  "socket_io \<Rightarrow> socket_io \<Rightarrow> ring_syscalls \<Rightarrow> shared_ring_header \<Rightarrow> u64 \<Rightarrow> u32 \<Rightarrow> shared_ring \<Rightarrow>
   control_client \<Rightarrow> (int + (u64 \<times> shared_ring)) \<times> control_client" where
  "client_create_cq io io' sys header context_identity cqe completions cc =
     (if context_identity = 0 \<or> cqe = 0 \<or> ring_valid completions then (Inl EINVAL, cc)
      else case control_call_decoded io (make_create_cq_request context_identity cqe) cc of
        (Inl status, cc') \<Rightarrow> (Inl status, cc')
      | (Inr (response, fds), cc') \<Rightarrow>
          let i = rp_object_identity response; undo = (\<lambda>status. (Inl status, snd (client_destroy_cq io' i cc')));
              expected = \<lparr>qd_kind = qk_completion, qd_capacity = cqe, qd_slot_stride = completion_slot_stride\<rparr>
          in if rp_status response \<noteq> OK then (Inl (rp_status response), cc')
             else if validate_identity i ot_cq \<noteq> OK then (Inl EPROTO, cc')
             else if rp_fd_indices response \<noteq> [0] \<or> length fds \<noteq> 1 then undo EPROTO
             else case decode_queue_descriptors (rp_opaque response) of
               Inl decode_status \<Rightarrow> undo (if decode_status = EPROTONOSUPPORT then decode_status else EPROTO)
             | Inr descriptors \<Rightarrow>
                 if descriptors \<noteq> [expected] then undo EPROTO
                 else case map_shared_ring sys header (List.hd fds) expected True empty_ring of
                   (map_status, _, mapped) \<Rightarrow>
                     if map_status \<noteq> OK then undo map_status else (Inr (i, mapped), cc'))"

section \<open>The payloads survive the wire\<close>

lemma decode_encode_mr_registration:
  assumes "encode_mr_registration m = Inr bs" "length (em_gpu_uuid m) = kGpuUuidSize"
  shows "decode_mr_registration bs (em_length m) = Inr m"
proof -
  let ?pre = "object_bytes 2 (htons kMrPayloadVersion) @ object_bytes 2 (0 :: u16) @ em_gpu_uuid m @
    object_bytes 8 (host_to_network64 (em_client_address m)) @
    object_bytes 8 (host_to_network64 (em_allocation_size m)) @
    object_bytes 8 (host_to_network64 (em_allocation_offset m)) @
    object_bytes 4 (htonl (of_nat (length (em_ipc_handle m))))"
  have v: "valid_memory m" and bs: "bs = ?pre @ em_ipc_handle m"
    using assms(1) by (auto simp: encode_mr_registration_def append_defs Let_def split: if_splits)
  have h: "em_ipc_handle m \<noteq> []" "length (em_ipc_handle m) \<le> 256" using v by (auto simp: valid_memory_def)
  have u: "unat (of_nat (length (em_ipc_handle m)) :: u32) = length (em_ipc_handle m)"
    using h by (intro unat_of_nat_u32) simp
  have len: "length bs = 48 + length (em_ipc_handle m)" using assms(2) by (simp add: bs)
  have r1: "read_mr_version bs = Some (htons kMrPayloadVersion, 0, 4)"
    by (simp add: read_mr_version_def read_defs bs value_of_object_bytes)
  have r2: "read_mr_fields bs 20 = Some (host_to_network64 (em_client_address m),
      host_to_network64 (em_allocation_size m), host_to_network64 (em_allocation_offset m),
      htonl (of_nat (length (em_ipc_handle m))), 48)"
    using assms(2) by (simp add: read_mr_fields_def read_defs bs value_of_object_bytes)
  have uuid: "take 16 (drop 4 bs) = em_gpu_uuid m" using assms(2) by (simp add: bs)
  have hnd: "drop 48 bs = em_ipc_handle m" using assms(2) by (simp add: bs)
  show ?thesis
    using h v by (simp add: decode_mr_registration_def r1 r2 uuid hnd u len Let_def valid_memory_def)
qed

lemma decode_encode_mr_result:
  assumes "encode_mr_registration_result r = Inr bs"
  shows "decode_mr_registration_result bs = Inr r"
proof -
  have g: "rr_client_address r \<noteq> 0" "rr_length r \<noteq> 0" "rr_lkey r \<noteq> 0" "rr_rkey r \<noteq> 0"
    and bs: "bs = object_bytes 2 (htons kMrPayloadVersion) @ object_bytes 2 (0 :: u16) @
      object_bytes 8 (host_to_network64 (rr_client_address r)) @ object_bytes 8 (host_to_network64 (rr_length r)) @
      object_bytes 4 (htonl (rr_lkey r)) @ object_bytes 4 (htonl (rr_rkey r))"
    using assms by (auto simp: encode_mr_registration_result_def append_defs split: if_splits)
  have "read_mr_result bs = Some (htons kMrPayloadVersion, 0, host_to_network64 (rr_client_address r),
      host_to_network64 (rr_length r), htonl (rr_lkey r), htonl (rr_rkey r))"
    by (simp add: read_mr_result_def read_defs bs value_of_object_bytes)
  moreover have "length bs = 28" by (simp add: bs)
  ultimately show ?thesis using g by (simp add: decode_mr_registration_result_def Let_def)
qed

interpretation mr_codec: wire_codec
  "\<lambda>m. if length (em_gpu_uuid m) = kGpuUuidSize then map_sum id (\<lambda>bs. (bs, em_length m)) (encode_mr_registration m)
       else Inl EINVAL"
  "\<lambda>(bs, len). decode_mr_registration bs len"
  by unfold_locales (auto intro: decode_encode_mr_registration simp: map_sum_def split: if_splits sum.splits)

interpretation mr_result_codec: wire_codec encode_mr_registration_result decode_mr_registration_result
  by unfold_locales (rule decode_encode_mr_result)

section \<open>Translating an address\<close>

lemma within_region:
  "\<not> (a < c \<or> a > - 1 - l \<or> c > - 1 - m \<or> a + l > c + m) \<longleftrightarrow>
   unat c \<le> unat a \<and> unat a + unat l < 2 ^ 64 \<and> unat c + unat m < 2 ^ 64 \<and>
   unat a + unat l \<le> unat c + unat (m :: u64)"
proof -
  show ?thesis
    using unat_add_u64 [of a l] unat_add_u64 [of c m] unat_u64_bound [of l] unat_u64_bound [of m]
    by (auto simp: word_less_nat_alt unat_max_minus not_less)
qed

end
