(* ===== verification/Qp.thy ===== *)
theory Qp
  imports Pd_Mr_Cq
begin

unbundle bit_operations_syntax

text \<open>
  \<^verbatim>\<open>control/qp.cpp\<close>: the queue pair payloads, the service the daemon runs (\<open>QpService\<close>, whose record extends
  the PD, MR and CQ service's), the view the worker gets of a queue pair, and the client calls.
\<close>

section \<open>Attributes\<close>

definition kQpPayloadVersion :: u16 where "kQpPayloadVersion = 1"
definition kQpTypeRc :: u32 where "kQpTypeRc = 2"
definition kQpStateReset :: u32 where "kQpStateReset = 0"
definition kQpStateInit :: u32 where "kQpStateInit = 1"
definition kQpStateRtr :: u32 where "kQpStateRtr = 2"
definition kQpStateRts :: u32 where "kQpStateRts = 3"
definition kQpStateSqd :: u32 where "kQpStateSqd = 4"
definition kQpStateSqe :: u32 where "kQpStateSqe = 5"
definition kQpStateErr :: u32 where "kQpStateErr = 6"
definition kQpAccessRemoteWrite :: u32 where "kQpAccessRemoteWrite = 2"
definition kQpMaskState :: u32 where "kQpMaskState = 1"
definition kQpMaskCurrentState :: u32 where "kQpMaskCurrentState = 2"
definition kQpMaskAccess :: u32 where "kQpMaskAccess = 8"
definition kQpMaskTimeout :: u32 where "kQpMaskTimeout = 0x200"
definition kQpMaskRetryCount :: u32 where "kQpMaskRetryCount = 0x400"
definition kQpMaskRnrRetry :: u32 where "kQpMaskRnrRetry = 0x800"
definition kQpMaskMinRnrTimer :: u32 where "kQpMaskMinRnrTimer = 0x8000"
definition kQpConnectMask :: u32 where
  "kQpConnectMask = kQpMaskTimeout OR kQpMaskRetryCount OR kQpMaskRnrRetry OR kQpMaskMinRnrTimer"

lemmas qp_state_defs = kQpStateReset_def kQpStateInit_def kQpStateRtr_def kQpStateRts_def kQpStateSqd_def
  kQpStateSqe_def kQpStateErr_def
lemmas qp_mask_defs = kQpMaskState_def kQpMaskCurrentState_def kQpMaskAccess_def kQpMaskTimeout_def
  kQpMaskRetryCount_def kQpMaskRnrRetry_def kQpMaskMinRnrTimer_def kQpConnectMask_def kQpAccessRemoteWrite_def

record qp_create_attributes =
  qa_send_cq_identity :: u64
  qa_recv_cq_identity :: u64
  qa_max_send_wr :: u32
  qa_max_recv_wr :: u32
  qa_max_send_sge :: u32
  qa_max_recv_sge :: u32
  qa_qp_type :: u32
  qa_sq_sig_all :: u32

record queue_metadata =
  qm_max_wr :: u32
  qm_max_sge :: u32

record qp_attributes =
  at_state :: u32
  at_current_state :: u32
  at_access_flags :: u32
  at_timeout :: u8
  at_retry_count :: u8
  at_rnr_retry :: u8
  at_min_rnr_timer :: u8

definition new_attributes :: qp_attributes where
  "new_attributes = \<lparr>at_state = kQpStateReset, at_current_state = kQpStateReset, at_access_flags = 0,
     at_timeout = 0, at_retry_count = 0, at_rnr_retry = 0, at_min_rnr_timer = 0\<rparr>"

record qp_snapshot =
  sn_creation :: qp_create_attributes
  sn_attributes :: qp_attributes
  sn_qp_num :: u32

record qp_record =
  qp_owner_session :: u64
  qp_context_identity :: u64
  qp_pd_identity :: u64
  qp_send_cq_identity :: u64
  qp_recv_cq_identity :: u64
  qp_sq :: queue_metadata
  qp_rq :: queue_metadata
  qp_qp_type :: u32
  qp_sq_sig_all :: u32
  qp_state :: u32
  qp_access_flags :: u32
  qp_qp_num :: u32
  qp_peer_qp_num :: u32
  qp_peer_identity :: u64
  qp_timeout :: u8
  qp_retry_count :: u8
  qp_rnr_retry :: u8
  qp_min_rnr_timer :: u8
  qp_send_queue :: shared_ring
  qp_receive_queue :: shared_ring

record worker_qp_view =
  wv_session_id :: u64
  wv_pd_identity :: u64
  wv_qp_num :: u32
  wv_peer_qp_num :: u32
  wv_max_send_sge :: u32
  wv_max_recv_sge :: u32
  wv_sq_sig_all :: u32
  wv_send_queue :: shared_ring
  wv_receive_queue :: shared_ring
  wv_send_cq :: shared_ring
  wv_receive_cq :: shared_ring

section \<open>Payloads\<close>

definition append_header :: "bytes \<Rightarrow> bytes" where
  "append_header bs = append16 (append16 bs (htons kQpPayloadVersion)) 0"

text \<open>\<open>read_header\<close>: \<open>Inl\<close> of the status, or \<open>Inr\<close> of the offset after the header.\<close>

definition read_header :: "bytes \<Rightarrow> nat \<Rightarrow> int + nat" where
  "read_header bs expected_size =
     (if length bs \<noteq> expected_size then Inl EPROTO
      else case do { (version, off) \<leftarrow> read16 bs 0; (reserved, off) \<leftarrow> read16 bs off; Some (version, reserved, off) } of
        None \<Rightarrow> Inl EPROTO
      | Some (version, reserved, off) \<Rightarrow>
          if ntohs version \<noteq> kQpPayloadVersion then Inl EPROTONOSUPPORT
          else if reserved = 0 then Inr off else Inl EPROTO)"

definition encode_query_payload :: "u32 \<Rightarrow> bytes" where
  "encode_query_payload attr_mask = append32 (append_header []) (htonl attr_mask)"

definition decode_query_payload :: "bytes \<Rightarrow> int + u32" where
  "decode_query_payload bs =
     (case read_header bs 8 of
        Inl status \<Rightarrow> Inl status
      | Inr off \<Rightarrow> (case read32 bs off of None \<Rightarrow> Inl EPROTO | Some (encoded, _) \<Rightarrow> Inr (ntohl encoded)))"

definition encode_modify_payload :: "qp_attributes \<Rightarrow> u32 \<Rightarrow> bytes" where
  "encode_modify_payload a attr_mask =
     append8 (append8 (append8 (append8 (append32 (append32 (append32 (append32 (append_header [])
       (htonl attr_mask)) (htonl (at_state a))) (htonl (at_current_state a))) (htonl (at_access_flags a)))
       (at_timeout a)) (at_retry_count a)) (at_rnr_retry a)) (at_min_rnr_timer a)"

definition read_timers :: "bytes \<Rightarrow> nat \<Rightarrow> (u8 \<times> u8 \<times> u8 \<times> u8) option" where
  "read_timers bs off =
     do { (timeout, off) \<leftarrow> read8 bs off; (retry_count, off) \<leftarrow> read8 bs off; (rnr_retry, off) \<leftarrow> read8 bs off;
          (min_rnr_timer, off) \<leftarrow> read8 bs off; Some (timeout, retry_count, rnr_retry, min_rnr_timer) }"

definition read_modify_words :: "bytes \<Rightarrow> nat \<Rightarrow> (u32 \<times> u32 \<times> u32 \<times> u32 \<times> nat) option" where
  "read_modify_words bs off =
     do { (m, off) \<leftarrow> read32 bs off; (state, off) \<leftarrow> read32 bs off; (current, off) \<leftarrow> read32 bs off;
          (access, off) \<leftarrow> read32 bs off; Some (m, state, current, access, off) }"

definition decode_modify_payload :: "bytes \<Rightarrow> int + (qp_attributes \<times> u32)" where
  "decode_modify_payload bs =
     (case read_header bs 24 of
        Inl status \<Rightarrow> Inl status
      | Inr off \<Rightarrow>
          (case do { (m, state, current, access, off) \<leftarrow> read_modify_words bs off;
                     timers \<leftarrow> read_timers bs off; Some (m, state, current, access, timers) } of
             None \<Rightarrow> Inl EPROTO
           | Some (m, state, current, access, timeout, retry_count, rnr_retry, min_rnr_timer) \<Rightarrow>
               Inr (\<lparr>at_state = ntohl state, at_current_state = ntohl current, at_access_flags = ntohl access,
                     at_timeout = timeout, at_retry_count = retry_count, at_rnr_retry = rnr_retry,
                     at_min_rnr_timer = min_rnr_timer\<rparr>, ntohl m)))"

definition encode_connect_payload :: "u32 \<Rightarrow> qp_attributes \<Rightarrow> u32 \<Rightarrow> bytes" where
  "encode_connect_payload qp_num a attr_mask =
     append8 (append8 (append8 (append8 (append32 (append32 (append_header [])
       (htonl attr_mask)) (htonl qp_num)) (at_timeout a)) (at_retry_count a)) (at_rnr_retry a)) (at_min_rnr_timer a)"

definition decode_connect_payload :: "bytes \<Rightarrow> int + (u32 \<times> qp_attributes \<times> u32)" where
  "decode_connect_payload bs =
     (case read_header bs 16 of
        Inl status \<Rightarrow> Inl status
      | Inr off \<Rightarrow>
          (case do { (m, off) \<leftarrow> read32 bs off; (qp_num, off) \<leftarrow> read32 bs off;
                     timers \<leftarrow> read_timers bs off; Some (m, qp_num, timers) } of
             None \<Rightarrow> Inl EPROTO
           | Some (m, qp_num, timeout, retry_count, rnr_retry, min_rnr_timer) \<Rightarrow>
               Inr (ntohl qp_num, new_attributes\<lparr>at_timeout := timeout, at_retry_count := retry_count,
                      at_rnr_retry := rnr_retry, at_min_rnr_timer := min_rnr_timer\<rparr>, ntohl m)))"

definition encode_conn_info :: "u32 \<Rightarrow> bytes" where
  "encode_conn_info qp_num = append32 (append_header []) (htonl qp_num)"

definition decode_conn_info :: "bytes \<Rightarrow> int + u32" where
  "decode_conn_info bs = decode_query_payload bs"

definition encode_snapshot :: "qp_record \<Rightarrow> bytes" where
  "encode_snapshot r =
     (let b1 = append64 (append64 (append32 (append_header []) (htonl (qp_qp_num r)))
                 (host_to_network64 (qp_send_cq_identity r))) (host_to_network64 (qp_recv_cq_identity r));
          b2 = append32 (append32 (append32 (append32 b1 (htonl (qm_max_wr (qp_sq r)))) (htonl (qm_max_wr (qp_rq r))))
                 (htonl (qm_max_sge (qp_sq r)))) (htonl (qm_max_sge (qp_rq r)));
          b3 = append32 (append32 b2 (htonl (qp_qp_type r))) (htonl (qp_sq_sig_all r));
          b4 = append32 (append32 (append32 b3 (htonl (qp_state r))) (htonl (qp_state r))) (htonl (qp_access_flags r))
      in append8 (append8 (append8 (append8 b4 (qp_timeout r)) (qp_retry_count r)) (qp_rnr_retry r)) (qp_min_rnr_timer r))"

definition read_creation :: "bytes \<Rightarrow> nat \<Rightarrow> (qp_create_attributes \<times> nat) option" where
  "read_creation bs off =
     do { (send_cq, off) \<leftarrow> read64 bs off; (recv_cq, off) \<leftarrow> read64 bs off;
          (max_send_wr, off) \<leftarrow> read32 bs off; (max_recv_wr, off) \<leftarrow> read32 bs off;
          (max_send_sge, off) \<leftarrow> read32 bs off; (max_recv_sge, off) \<leftarrow> read32 bs off;
          (qp_type, off) \<leftarrow> read32 bs off; (sq_sig_all, off) \<leftarrow> read32 bs off;
          Some (\<lparr>qa_send_cq_identity = network_to_host64 send_cq, qa_recv_cq_identity = network_to_host64 recv_cq,
                 qa_max_send_wr = ntohl max_send_wr, qa_max_recv_wr = ntohl max_recv_wr,
                 qa_max_send_sge = ntohl max_send_sge, qa_max_recv_sge = ntohl max_recv_sge,
                 qa_qp_type = ntohl qp_type, qa_sq_sig_all = ntohl sq_sig_all\<rparr>, off) }"

definition read_states :: "bytes \<Rightarrow> nat \<Rightarrow> (qp_attributes) option" where
  "read_states bs off =
     do { (state, off) \<leftarrow> read32 bs off; (current, off) \<leftarrow> read32 bs off; (access, off) \<leftarrow> read32 bs off;
          (timeout, retry_count, rnr_retry, min_rnr_timer) \<leftarrow> read_timers bs off;
          Some \<lparr>at_state = ntohl state, at_current_state = ntohl current, at_access_flags = ntohl access,
                at_timeout = timeout, at_retry_count = retry_count, at_rnr_retry = rnr_retry,
                at_min_rnr_timer = min_rnr_timer\<rparr> }"

definition decode_snapshot :: "bytes \<Rightarrow> int + qp_snapshot" where
  "decode_snapshot bs =
     (case read_header bs 64 of
        Inl status \<Rightarrow> Inl status
      | Inr off \<Rightarrow>
          (case do { (qp_num, off) \<leftarrow> read32 bs off; (creation, off) \<leftarrow> read_creation bs off;
                     attributes \<leftarrow> read_states bs off;
                     Some \<lparr>sn_creation = creation, sn_attributes = attributes, sn_qp_num = ntohl qp_num\<rparr> } of
             None \<Rightarrow> Inl EPROTO
           | Some snapshot \<Rightarrow> Inr snapshot))"

definition valid_query_mask :: "u32 \<Rightarrow> bool" where
  "valid_query_mask m \<longleftrightarrow> m AND NOT (kQpMaskState OR kQpMaskCurrentState OR kQpMaskAccess OR kQpConnectMask) = 0"

definition valid_retry_attributes :: "qp_attributes \<Rightarrow> bool" where
  "valid_retry_attributes a \<longleftrightarrow>
     at_retry_count a \<le> 7 \<and> at_rnr_retry a \<le> 7 \<and> at_timeout a \<le> 31 \<and> at_min_rnr_timer a \<le> 31"

definition valid_qp_create_attributes :: "qp_create_attributes \<Rightarrow> bool" where
  "valid_qp_create_attributes a \<longleftrightarrow>
     qa_send_cq_identity a \<noteq> 0 \<and> qa_recv_cq_identity a \<noteq> 0 \<and> qa_max_send_wr a \<noteq> 0 \<and> qa_max_recv_wr a \<noteq> 0 \<and>
     qa_max_send_sge a \<noteq> 0 \<and> qa_max_recv_sge a \<noteq> 0 \<and> qa_qp_type a = kQpTypeRc \<and> qa_sq_sig_all a \<le> 1"

definition encode_qp_create_attributes :: "qp_create_attributes \<Rightarrow> bytes" where
  "encode_qp_create_attributes a =
     append32 (append32 (append32 (append32 (append32 (append32 (append64 (append64
       (append16 (append16 [] (htons kQpPayloadVersion)) 0)
       (host_to_network64 (qa_send_cq_identity a))) (host_to_network64 (qa_recv_cq_identity a)))
       (htonl (qa_max_send_wr a))) (htonl (qa_max_recv_wr a))) (htonl (qa_max_send_sge a)))
       (htonl (qa_max_recv_sge a))) (htonl (qa_qp_type a))) (htonl (qa_sq_sig_all a))"

definition decode_qp_create_attributes :: "bytes \<Rightarrow> int + qp_create_attributes" where
  "decode_qp_create_attributes bs =
     (if length bs \<noteq> 44 then Inl EPROTO
      else case do { (version, off) \<leftarrow> read16 bs 0; (reserved, off) \<leftarrow> read16 bs off;
                     (creation, off) \<leftarrow> read_creation bs off; Some (version, reserved, creation) } of
        None \<Rightarrow> Inl EPROTO
      | Some (version, reserved, creation) \<Rightarrow>
          if ntohs version \<noteq> kQpPayloadVersion then Inl EPROTONOSUPPORT
          else if reserved \<noteq> 0 then Inl EPROTO
          else Inr creation)"

section \<open>Requests\<close>

definition make_create_qp_request :: "u64 \<Rightarrow> qp_create_attributes \<Rightarrow> control_request" where
  "make_create_qp_request pd_identity attributes =
     new_request\<lparr>rq_method := cm_create_qp, rq_object_identity := pd_identity,
       rq_opaque := encode_qp_create_attributes attributes\<rparr>"

definition make_destroy_qp_request :: "u64 \<Rightarrow> control_request" where
  "make_destroy_qp_request qp_identity =
     new_request\<lparr>rq_method := cm_destroy_qp, rq_object_identity := qp_identity\<rparr>"

definition make_query_qp_request :: "u64 \<Rightarrow> u32 \<Rightarrow> control_request" where
  "make_query_qp_request qp_identity attr_mask =
     new_request\<lparr>rq_method := cm_query_qp, rq_object_identity := qp_identity,
       rq_opaque := encode_query_payload attr_mask\<rparr>"

definition make_modify_qp_request :: "u64 \<Rightarrow> qp_attributes \<Rightarrow> u32 \<Rightarrow> control_request" where
  "make_modify_qp_request qp_identity attributes attr_mask =
     new_request\<lparr>rq_method := cm_modify_qp, rq_object_identity := qp_identity,
       rq_opaque := encode_modify_payload attributes attr_mask\<rparr>"

definition make_query_qp_conn_info_request :: "u64 \<Rightarrow> control_request" where
  "make_query_qp_conn_info_request qp_identity =
     new_request\<lparr>rq_method := cm_query_qp_conn_info, rq_object_identity := qp_identity\<rparr>"

definition make_connect_qp_request :: "u64 \<Rightarrow> u32 \<Rightarrow> qp_attributes \<Rightarrow> u32 \<Rightarrow> control_request" where
  "make_connect_qp_request qp_identity remote_qp_num attributes attr_mask =
     new_request\<lparr>rq_method := cm_connect_qp, rq_object_identity := qp_identity,
       rq_opaque := encode_connect_payload remote_qp_num attributes attr_mask\<rparr>"

section \<open>The service\<close>

record qp_service = pd_mr_cq_service +
  qs_qps :: "qp_record registry"
  qs_qp_num_index :: "u32 \<rightharpoonup> u64"
  qs_next_qp_num :: u32

definition empty_shape_except_payload :: "control_request \<times> int list \<Rightarrow> bool" where
  "empty_shape_except_payload request \<longleftrightarrow>
     rq_length (fst request) = 0 \<and> rq_access (fst request) = 0 \<and> rq_fd_indices (fst request) = [] \<and> snd request = []"

text \<open>\<open>handle_create_qp\<close>, lines 482 to 519: the strides, the two rings, the duplicated descriptors and
  the encoded answer.\<close>

definition create_qp_queues ::
  "control_world \<Rightarrow> qp_create_attributes \<Rightarrow> int + (shared_ring \<times> shared_ring \<times> int list \<times> bytes)" where
  "create_qp_queues w a =
     (case send_slot_stride (qa_max_send_sge a) True of
        Inl e \<Rightarrow> Inl e
      | Inr send_stride \<Rightarrow>
          (case receive_slot_stride (qa_max_recv_sge a) True of
             Inl e \<Rightarrow> Inl e
           | Inr receive_stride \<Rightarrow>
               let send_descriptor = \<lparr>qd_kind = qk_send, qd_capacity = qa_max_send_wr a, qd_slot_stride = send_stride\<rparr>;
                   receive_descriptor = \<lparr>qd_kind = qk_receive, qd_capacity = qa_max_recv_wr a, qd_slot_stride = receive_stride\<rparr>
               in (case create_shared_ring (cw_ring w) send_descriptor True empty_ring of
                     (status, _, send_queue, _) \<Rightarrow>
                       if status \<noteq> OK then Inl status
                       else (case create_shared_ring (cw_ring2 w) receive_descriptor True empty_ring of
                          (status, _, receive_queue, _) \<Rightarrow>
                            if status \<noteq> OK then Inl status
                            else (case duplicate_fd True (cw_dup w) send_queue of
                               Inl e \<Rightarrow> Inl e
                             | Inr send_fd \<Rightarrow>
                                 (case duplicate_fd True (cw_dup2 w) receive_queue of
                                    Inl e \<Rightarrow> Inl e
                                  | Inr receive_fd \<Rightarrow>
                                      map_sum id (\<lambda>bs. (send_queue, receive_queue, [send_fd, receive_fd], bs))
                                        (encode_queue_descriptors [send_descriptor, receive_descriptor])))))))"

definition new_qp ::
  "u64 \<Rightarrow> u64 \<Rightarrow> u64 \<Rightarrow> qp_create_attributes \<Rightarrow> u32 \<Rightarrow> shared_ring \<Rightarrow> shared_ring \<Rightarrow> qp_record" where
  "new_qp session_id ctx pd_identity a qp_num send_queue receive_queue =
     \<lparr>qp_owner_session = session_id, qp_context_identity = ctx, qp_pd_identity = pd_identity,
      qp_send_cq_identity = qa_send_cq_identity a, qp_recv_cq_identity = qa_recv_cq_identity a,
      qp_sq = \<lparr>qm_max_wr = qa_max_send_wr a, qm_max_sge = qa_max_send_sge a\<rparr>,
      qp_rq = \<lparr>qm_max_wr = qa_max_recv_wr a, qm_max_sge = qa_max_recv_sge a\<rparr>,
      qp_qp_type = qa_qp_type a, qp_sq_sig_all = qa_sq_sig_all a, qp_state = kQpStateReset, qp_access_flags = 0,
      qp_qp_num = qp_num, qp_peer_qp_num = 0, qp_peer_identity = 0, qp_timeout = 0, qp_retry_count = 0,
      qp_rnr_retry = 0, qp_min_rnr_timer = 0, qp_send_queue = send_queue, qp_receive_queue = receive_queue\<rparr>"

text \<open>The references a queue pair takes on its PD and CQs; \<open>delta\<close> is the increment or the decrement.\<close>

definition qp_references :: "(nat \<Rightarrow> nat) \<Rightarrow> u64 \<Rightarrow> u64 \<Rightarrow> u64 \<Rightarrow> 'a pd_mr_cq_service_scheme \<Rightarrow> 'a pd_mr_cq_service_scheme" where
  "qp_references delta p send_cq recv_cq s =
     (let pds = reg_update p (\<lambda>pd. pd\<lparr>pd_qp_count := delta (pd_qp_count pd)\<rparr>) (pm_pds s);
          cqs = reg_update send_cq (\<lambda>cq. cq\<lparr>cq_qp_references := delta (cq_qp_references cq)\<rparr>) (pm_cqs s);
          cqs = (if recv_cq \<noteq> send_cq
                 then reg_update recv_cq (\<lambda>cq. cq\<lparr>cq_qp_references := delta (cq_qp_references cq)\<rparr>) cqs else cqs)
      in s\<lparr>pm_pds := pds, pm_cqs := cqs\<rparr>)"

text \<open>\<open>handle_create_qp\<close> from line 526 on.\<close>

definition insert_qp ::
  "control_world \<Rightarrow> pd_record \<Rightarrow> qp_create_attributes \<Rightarrow> shared_ring \<times> shared_ring \<times> int list \<times> bytes \<Rightarrow>
   'a qp_service_scheme control_service" where
  "insert_qp w pd a queues s session_id request =
     (case queues of (send_queue, receive_queue, fds, encoded) \<Rightarrow>
      if qs_next_qp_num s = 0 then (response_for request ENOSPC, s)
      else
        let qp_num = qs_next_qp_num s; p = rq_object_identity (fst request);
            s = s\<lparr>qs_next_qp_num := qs_next_qp_num s + 1\<rparr>
        in (case reg_insert ot_qp session_id (new_qp session_id (pd_context_identity pd) p a qp_num send_queue receive_queue)
                  (qs_qps s) of
              (None, qps) \<Rightarrow> (response_for request ENOSPC, s\<lparr>qs_qps := qps\<rparr>)
            | (Some identity, qps) \<Rightarrow>
                let s' = s\<lparr>qs_qps := snd (reg_erase ot_qp session_id identity qps)\<rparr>
                in if cw_index_inserts w = 0 then (response_for request ENOMEM, s')
                   else if qs_qp_num_index s qp_num \<noteq> None then (response_for request ENOSPC, s')
                   else ((fst (identity_response request identity)\<lparr>rp_opaque := encoded, rp_fd_indices := [0, 1]\<rparr>, fds),
                         qp_references Suc p (qa_send_cq_identity a) (qa_recv_cq_identity a)
                           (s\<lparr>qs_qps := qps, qs_qp_num_index := (qs_qp_num_index s)(qp_num \<mapsto> identity)\<rparr>))))"

definition handle_create_qp :: "control_world \<Rightarrow> 'a qp_service_scheme control_service" where
  "handle_create_qp w s session_id request =
     (if \<not> empty_shape_except_payload request then (response_for request EINVAL, s)
      else case decode_qp_create_attributes (rq_opaque (fst request)) of
        Inl decode_status \<Rightarrow> (response_for request decode_status, s)
      | Inr a \<Rightarrow>
          if \<not> valid_qp_create_attributes a then (response_for request EINVAL, s)
          else case (reg_resolve ot_pd session_id (rq_object_identity (fst request)) (pm_pds s),
                     reg_resolve ot_cq session_id (qa_send_cq_identity a) (pm_cqs s),
                     reg_resolve ot_cq session_id (qa_recv_cq_identity a) (pm_cqs s)) of
            (Some pd, Some send_cq, Some recv_cq) \<Rightarrow>
              if pd_context_identity pd \<noteq> cq_context_identity send_cq \<or>
                 pd_context_identity pd \<noteq> cq_context_identity recv_cq then (response_for request EINVAL, s)
              else (case create_qp_queues w a of
                      Inl queue_status \<Rightarrow> (response_for request queue_status, s)
                    | Inr queues \<Rightarrow> insert_qp w pd a queues s session_id request)
          | _ \<Rightarrow> (response_for request EINVAL, s))"

definition handle_destroy_qp :: "'a qp_service_scheme control_service" where
  "handle_destroy_qp s session_id request =
     (let i = rq_object_identity (fst request) in
      if \<not> empty_shape request then (response_for request EINVAL, s)
      else case reg_resolve ot_qp session_id i (qs_qps s) of
        None \<Rightarrow> (response_for request EINVAL, s)
      | Some qp \<Rightarrow>
          (case (reg_resolve ot_pd session_id (qp_pd_identity qp) (pm_pds s),
                 reg_resolve ot_cq session_id (qp_send_cq_identity qp) (pm_cqs s),
                 reg_resolve ot_cq session_id (qp_recv_cq_identity qp) (pm_cqs s)) of
             (Some pd, Some send_cq, Some recv_cq) \<Rightarrow>
               if pd_qp_count pd = 0 \<or> cq_qp_references send_cq = 0 \<or>
                  (qp_recv_cq_identity qp \<noteq> qp_send_cq_identity qp \<and> cq_qp_references recv_cq = 0)
               then (response_for request EINVAL, s)
               else
                 let s = qp_references (\<lambda>n. n - 1) (qp_pd_identity qp) (qp_send_cq_identity qp) (qp_recv_cq_identity qp) s
                 in (case reg_erase ot_qp session_id i (qs_qps s) of
                       (status, qps) \<Rightarrow>
                         (response_for request status,
                          if status = OK then s\<lparr>qs_qps := qps, qs_qp_num_index := (qs_qp_num_index s)(qp_qp_num qp := None)\<rparr>
                          else s\<lparr>qs_qps := qps\<rparr>))
           | _ \<Rightarrow> (response_for request EINVAL, s)))"

definition handle_query_qp :: "'a qp_service_scheme control_service" where
  "handle_query_qp s session_id request =
     (if \<not> empty_shape_except_payload request then (response_for request EINVAL, s)
      else case decode_query_payload (rq_opaque (fst request)) of
        Inl decode_status \<Rightarrow> (response_for request decode_status, s)
      | Inr attr_mask \<Rightarrow>
          (case reg_resolve ot_qp session_id (rq_object_identity (fst request)) (qs_qps s) of
             None \<Rightarrow> (response_for request EINVAL, s)
           | Some qp \<Rightarrow>
               if \<not> valid_query_mask attr_mask then (response_for request EINVAL, s)
               else ((fst (response_for request OK)\<lparr>rp_opaque := encode_snapshot qp\<rparr>, []), s)))"

text \<open>The transition \<open>handle_modify_qp\<close> makes on the queue pair it resolved: \<open>Inl\<close> of the status, or
  \<open>Inr\<close> of the new record.\<close>

definition modify_qp_record :: "qp_attributes \<Rightarrow> u32 \<Rightarrow> qp_record \<Rightarrow> int + qp_record" where
  "modify_qp_record a m qp =
     (let supported_mask = kQpMaskState OR kQpMaskCurrentState OR kQpMaskAccess in
      if m AND kQpMaskState = 0 \<or> m AND NOT supported_mask \<noteq> 0 then Inl EINVAL
      else if at_state a = kQpStateSqd \<or> at_state a = kQpStateSqe then Inl EOPNOTSUPP
      else if m AND kQpMaskCurrentState \<noteq> 0 \<and> at_current_state a \<noteq> qp_state qp then Inl EINVAL
      else
        let base_mask = m AND NOT kQpMaskCurrentState in
        if qp_state qp = kQpStateReset \<and> at_state a = kQpStateInit \<and> base_mask = kQpMaskState OR kQpMaskAccess \<and>
           at_access_flags a = kQpAccessRemoteWrite
        then Inr (qp\<lparr>qp_access_flags := at_access_flags a, qp_state := kQpStateInit\<rparr>)
        else if (qp_state qp = kQpStateReset \<or> qp_state qp = kQpStateInit \<or> qp_state qp = kQpStateRtr \<or> qp_state qp = kQpStateRts) \<and>
                at_state a = kQpStateErr \<and> base_mask = kQpMaskState
        then Inr (qp\<lparr>qp_state := kQpStateErr\<rparr>)
        else Inl EINVAL)"

definition handle_modify_qp :: "'a qp_service_scheme control_service" where
  "handle_modify_qp s session_id request =
     (let i = rq_object_identity (fst request) in
      if \<not> empty_shape_except_payload request then (response_for request EINVAL, s)
      else case decode_modify_payload (rq_opaque (fst request)) of
        Inl decode_status \<Rightarrow> (response_for request decode_status, s)
      | Inr (attributes, attr_mask) \<Rightarrow>
          (case reg_resolve ot_qp session_id i (qs_qps s) of
             None \<Rightarrow> (response_for request EINVAL, s)
           | Some qp \<Rightarrow>
               (case modify_qp_record attributes attr_mask qp of
                  Inl status \<Rightarrow> (response_for request status, s)
                | Inr qp' \<Rightarrow> (response_for request OK, s\<lparr>qs_qps := reg_update i (\<lambda>_. qp') (qs_qps s)\<rparr>))))"

definition handle_query_qp_conn_info :: "'a qp_service_scheme control_service" where
  "handle_query_qp_conn_info s session_id request =
     (if \<not> empty_shape request then (response_for request EINVAL, s)
      else case reg_resolve ot_qp session_id (rq_object_identity (fst request)) (qs_qps s) of
        None \<Rightarrow> (response_for request EINVAL, s)
      | Some qp \<Rightarrow> ((fst (response_for request OK)\<lparr>rp_opaque := encode_conn_info (qp_qp_num qp)\<rparr>, []), s))"

definition connected_qp :: "u32 \<Rightarrow> u64 \<Rightarrow> qp_attributes \<Rightarrow> qp_record \<Rightarrow> qp_record" where
  "connected_qp remote_qp_num peer a qp =
     qp\<lparr>qp_peer_qp_num := remote_qp_num, qp_peer_identity := peer, qp_timeout := at_timeout a,
        qp_retry_count := at_retry_count a, qp_rnr_retry := at_rnr_retry a, qp_min_rnr_timer := at_min_rnr_timer a,
        qp_state := kQpStateRts\<rparr>"

definition handle_connect_qp :: "'a qp_service_scheme control_service" where
  "handle_connect_qp s session_id request =
     (let i = rq_object_identity (fst request) in
      if \<not> empty_shape_except_payload request then (response_for request EINVAL, s)
      else case decode_connect_payload (rq_opaque (fst request)) of
        Inl decode_status \<Rightarrow> (response_for request decode_status, s)
      | Inr (remote_qp_num, attributes, attr_mask) \<Rightarrow>
          (case reg_resolve ot_qp session_id i (qs_qps s) of
             None \<Rightarrow> (response_for request EINVAL, s)
           | Some local \<Rightarrow>
               if remote_qp_num = 0 \<or> attr_mask \<noteq> kQpConnectMask \<or> \<not> valid_retry_attributes attributes
               then (response_for request EINVAL, s)
               else if qp_peer_qp_num local \<noteq> 0 \<and> qp_peer_qp_num local \<noteq> remote_qp_num then (response_for request EBUSY, s)
               else if qp_state local \<noteq> kQpStateInit then (response_for request EINVAL, s)
               else case qs_qp_num_index s remote_qp_num of
                 None \<Rightarrow> (response_for request ENOENT, s)
               | Some indexed \<Rightarrow>
                   (case reg_resolve_any ot_qp indexed (qs_qps s) of
                      None \<Rightarrow> (response_for request ENOENT, s)
                    | Some remote \<Rightarrow>
                        if qp_qp_type remote \<noteq> kQpTypeRc \<or>
                           (qp_state remote \<noteq> kQpStateInit \<and> qp_state remote \<noteq> kQpStateRtr \<and> qp_state remote \<noteq> kQpStateRts)
                        then (response_for request EINVAL, s)
                        else (response_for request OK,
                              s\<lparr>qs_qps := reg_update i (connected_qp remote_qp_num indexed attributes) (qs_qps s)\<rparr>))))"

definition qp_handle :: "control_world \<Rightarrow> 'a qp_service_scheme control_service" where
  "qp_handle w s session_id request =
     (let method = rq_method (fst request) in
      if method = cm_create_qp then handle_create_qp w s session_id request
      else if method = cm_destroy_qp then handle_destroy_qp s session_id request
      else if method = cm_query_qp then handle_query_qp s session_id request
      else if method = cm_modify_qp then handle_modify_qp s session_id request
      else if method = cm_query_qp_conn_info then handle_query_qp_conn_info s session_id request
      else if method = cm_connect_qp then handle_connect_qp s session_id request
      else pd_mr_cq_handle w s session_id request)"

definition qp_on_disconnect :: "control_world \<Rightarrow> u64 \<Rightarrow> 'a qp_service_scheme \<Rightarrow> 'a qp_service_scheme" where
  "qp_on_disconnect w session_id s =
     (let s = fold (\<lambda>(_, qp) s. s\<lparr>qs_qp_num_index := (qs_qp_num_index s)(qp_qp_num qp := None)\<rparr>)
                (reg_for_each_session ot_qp session_id (qs_qps s)) s
      in pd_mr_cq_on_disconnect w session_id
           (s\<lparr>qs_qps := snd (reg_erase_session session_id (qs_qps s))\<rparr>))"

definition new_qp_service :: "device_descriptor list \<Rightarrow> qp_service" where
  "new_qp_service catalog =
     \<lparr>dc_catalog = catalog, dc_contexts = new_registry 1, pm_memory_backend = [], pm_pds = new_registry 1,
      pm_mrs = new_registry 1, pm_cqs = new_registry 1, pm_next_key = 1, qs_qps = new_registry 1,
      qs_qp_num_index = Map.empty, qs_next_qp_num = 1\<rparr>"

definition worker_qp_view_of :: "u32 \<Rightarrow> 'a qp_service_scheme \<Rightarrow> int + worker_qp_view" where
  "worker_qp_view_of qp_num s =
     (if qp_num = 0 then Inl EINVAL
      else case qs_qp_num_index s qp_num of
        None \<Rightarrow> Inl ENOENT
      | Some indexed \<Rightarrow>
          (case reg_resolve_any ot_qp indexed (qs_qps s) of
             None \<Rightarrow> Inl ENOENT
           | Some qp \<Rightarrow>
               (case (reg_resolve ot_cq (qp_owner_session qp) (qp_send_cq_identity qp) (pm_cqs s),
                      reg_resolve ot_cq (qp_owner_session qp) (qp_recv_cq_identity qp) (pm_cqs s)) of
                  (Some send_cq, Some receive_cq) \<Rightarrow>
                    Inr \<lparr>wv_session_id = qp_owner_session qp, wv_pd_identity = qp_pd_identity qp,
                         wv_qp_num = qp_qp_num qp, wv_peer_qp_num = qp_peer_qp_num qp,
                         wv_max_send_sge = qm_max_sge (qp_sq qp), wv_max_recv_sge = qm_max_sge (qp_rq qp),
                         wv_sq_sig_all = qp_sq_sig_all qp, wv_send_queue = qp_send_queue qp,
                         wv_receive_queue = qp_receive_queue qp, wv_send_cq = cq_completions send_cq,
                         wv_receive_cq = cq_completions receive_cq\<rparr>
                | _ \<Rightarrow> Inl EINVAL)))"

section \<open>The client's calls\<close>

definition client_destroy_qp :: "socket_io \<Rightarrow> u64 \<Rightarrow> control_client \<Rightarrow> int \<times> control_client" where
  "client_destroy_qp io qp_identity cc =
     (if qp_identity = 0 then (EINVAL, cc) else call_destroy io (make_destroy_qp_request qp_identity) cc)"

text \<open>The checks on the answer, up to the mapping of the two rings; \<open>io'\<close> is the socket during the call that
  destroys the queue pair again.\<close>

definition client_create_qp ::
  "socket_io \<Rightarrow> socket_io \<Rightarrow> ring_syscalls \<times> shared_ring_header \<Rightarrow> ring_syscalls \<times> shared_ring_header \<Rightarrow>
   u64 \<Rightarrow> qp_create_attributes \<Rightarrow> shared_ring \<Rightarrow> shared_ring \<Rightarrow> control_client \<Rightarrow>
   (int + (u64 \<times> shared_ring \<times> shared_ring)) \<times> control_client" where
  "client_create_qp io io' send_sys receive_sys pd_identity a send_queue receive_queue cc =
     (if pd_identity = 0 \<or> \<not> valid_qp_create_attributes a \<or> ring_valid send_queue \<or> ring_valid receive_queue
      then (Inl EINVAL, cc)
      else case control_call_decoded io (make_create_qp_request pd_identity a) cc of
        (Inl status, cc') \<Rightarrow> (Inl status, cc')
      | (Inr (response, fds), cc') \<Rightarrow>
          let i = rp_object_identity response; undo = (\<lambda>status. (Inl status, snd (client_destroy_qp io' i cc')))
          in if rp_status response \<noteq> OK then (Inl (rp_status response), cc')
             else if validate_identity i ot_qp \<noteq> OK then (Inl EPROTO, cc')
             else if rp_fd_indices response \<noteq> [0, 1] \<or> length fds \<noteq> 2 then undo EPROTO
             else case send_slot_stride (qa_max_send_sge a) True of
               Inl status \<Rightarrow> undo status
             | Inr send_stride \<Rightarrow>
                 (case receive_slot_stride (qa_max_recv_sge a) True of
                    Inl status \<Rightarrow> undo status
                  | Inr receive_stride \<Rightarrow>
                      let expected_send = \<lparr>qd_kind = qk_send, qd_capacity = qa_max_send_wr a, qd_slot_stride = send_stride\<rparr>;
                          expected_receive = \<lparr>qd_kind = qk_receive, qd_capacity = qa_max_recv_wr a, qd_slot_stride = receive_stride\<rparr>
                      in (case decode_queue_descriptors (rp_opaque response) of
                            Inl decode_status \<Rightarrow> undo (if decode_status = EPROTONOSUPPORT then decode_status else EPROTO)
                          | Inr descriptors \<Rightarrow>
                              if descriptors \<noteq> [expected_send, expected_receive] then undo EPROTO
                              else (case map_shared_ring (fst send_sys) (snd send_sys) (fds ! 0) expected_send True empty_ring of
                                 (status, _, mapped_send) \<Rightarrow>
                                   if status \<noteq> OK then undo status
                                   else (case map_shared_ring (fst receive_sys) (snd receive_sys) (fds ! 1) expected_receive True empty_ring of
                                     (status, _, mapped_receive) \<Rightarrow>
                                       if status \<noteq> OK then undo status
                                       else (Inr (i, mapped_send, mapped_receive), cc'))))))"

definition client_query_qp :: "socket_io \<Rightarrow> u64 \<Rightarrow> u32 \<Rightarrow> control_client \<Rightarrow> (int + qp_snapshot) \<times> control_client" where
  "client_query_qp io qp_identity attr_mask cc =
     (if qp_identity = 0 \<or> \<not> valid_query_mask attr_mask then (Inl EINVAL, cc)
      else case control_call io (make_query_qp_request qp_identity attr_mask) cc of
        (Inl status, cc') \<Rightarrow> (Inl status, cc')
      | (Inr response, cc') \<Rightarrow>
          if rp_status response \<noteq> OK then (Inl (rp_status response), cc')
          else if rp_object_identity response \<noteq> 0 \<or> rp_fd_indices response \<noteq> [] then (Inl EPROTO, cc')
          else (decode_snapshot (rp_opaque response), cc'))"

definition client_modify_qp :: "socket_io \<Rightarrow> u64 \<Rightarrow> qp_attributes \<Rightarrow> u32 \<Rightarrow> control_client \<Rightarrow> int \<times> control_client" where
  "client_modify_qp io qp_identity attributes attr_mask cc =
     (if qp_identity = 0 then (EINVAL, cc)
      else call_destroy io (make_modify_qp_request qp_identity attributes attr_mask) cc)"

definition client_query_qp_conn_info :: "socket_io \<Rightarrow> u64 \<Rightarrow> control_client \<Rightarrow> (int + u32) \<times> control_client" where
  "client_query_qp_conn_info io qp_identity cc =
     (if qp_identity = 0 then (Inl EINVAL, cc)
      else case control_call io (make_query_qp_conn_info_request qp_identity) cc of
        (Inl status, cc') \<Rightarrow> (Inl status, cc')
      | (Inr response, cc') \<Rightarrow>
          if rp_status response \<noteq> OK then (Inl (rp_status response), cc')
          else if rp_object_identity response \<noteq> 0 \<or> rp_fd_indices response \<noteq> [] then (Inl EPROTO, cc')
          else case decode_conn_info (rp_opaque response) of
            Inl decode_status \<Rightarrow> (Inl decode_status, cc')
          | Inr decoded \<Rightarrow> if decoded = 0 then (Inl EPROTO, cc') else (Inr decoded, cc'))"

definition client_connect_qp ::
  "socket_io \<Rightarrow> u64 \<Rightarrow> u32 \<Rightarrow> qp_attributes \<Rightarrow> u32 \<Rightarrow> control_client \<Rightarrow> int \<times> control_client" where
  "client_connect_qp io qp_identity remote_qp_num attributes attr_mask cc =
     (if qp_identity = 0 \<or> remote_qp_num = 0 then (EINVAL, cc)
      else call_destroy io (make_connect_qp_request qp_identity remote_qp_num attributes attr_mask) cc)"

section \<open>The payloads survive the wire\<close>

text \<open>The bytes of the header and of the four timers.\<close>

definition header_bytes :: bytes where
  "header_bytes = object_bytes 2 (htons kQpPayloadVersion) @ object_bytes 2 (0 :: u16)"

definition timer_bytes :: "u8 \<Rightarrow> u8 \<Rightarrow> u8 \<Rightarrow> u8 \<Rightarrow> bytes" where
  "timer_bytes a b c d = object_bytes 1 a @ object_bytes 1 b @ object_bytes 1 c @ object_bytes 1 d"

definition creation_bytes :: "qp_create_attributes \<Rightarrow> bytes" where
  "creation_bytes a = object_bytes 8 (host_to_network64 (qa_send_cq_identity a)) @
     object_bytes 8 (host_to_network64 (qa_recv_cq_identity a)) @ object_bytes 4 (htonl (qa_max_send_wr a)) @
     object_bytes 4 (htonl (qa_max_recv_wr a)) @ object_bytes 4 (htonl (qa_max_send_sge a)) @
     object_bytes 4 (htonl (qa_max_recv_sge a)) @ object_bytes 4 (htonl (qa_qp_type a)) @
     object_bytes 4 (htonl (qa_sq_sig_all a))"

lemma length_header [simp]: "length header_bytes = 4" by (simp add: header_bytes_def)
lemma length_timers [simp]: "length (timer_bytes a b c d) = 4" by (simp add: timer_bytes_def)
lemma length_creation [simp]: "length (creation_bytes a) = 40" by (simp add: creation_bytes_def)

lemma read_header_bytes: "length bs + 4 = n \<Longrightarrow> read_header (header_bytes @ bs) n = Inr 4"
  by (auto simp: read_header_def header_bytes_def read_defs value_of_object_bytes)

lemma read_timers_bytes:
  "length pre = off \<Longrightarrow> read_timers (pre @ timer_bytes a b c d) off = Some (a, b, c, d)"
  by (auto simp: read_timers_def timer_bytes_def read_defs value_of_object_bytes)

lemma read_creation_bytes:
  "length pre = off \<Longrightarrow> read_creation (pre @ creation_bytes a @ rest) off = Some (a, off + 40)"
  by (auto simp: read_creation_def creation_bytes_def read_defs value_of_object_bytes)

lemma read32_at: "length pre = off \<Longrightarrow> read32 (pre @ object_bytes 4 v @ rest) off = Some (v, off + 4)"
  by (auto simp: read_defs value_of_object_bytes)

lemma append_header_bytes: "append_header [] = header_bytes"
  by (simp add: append_header_def header_bytes_def append_defs)

lemma query_roundtrip: "decode_query_payload (encode_query_payload m) = Inr m"
  using read_header_bytes [of "object_bytes 4 (htonl m)" 8] read32_at [of header_bytes 4 "htonl m" "[]"]
  by (simp add: decode_query_payload_def encode_query_payload_def append_header_bytes append_defs)

lemma conn_info_roundtrip: "decode_conn_info (encode_conn_info m) = Inr m"
  using query_roundtrip by (simp add: decode_conn_info_def encode_conn_info_def encode_query_payload_def)

lemma modify_roundtrip: "decode_modify_payload (encode_modify_payload a m) = Inr (a, m)"
proof -
  let ?w = "object_bytes 4 (htonl m) @ object_bytes 4 (htonl (at_state a)) @ object_bytes 4 (htonl (at_current_state a)) @
      object_bytes 4 (htonl (at_access_flags a))"
  let ?t = "timer_bytes (at_timeout a) (at_retry_count a) (at_rnr_retry a) (at_min_rnr_timer a)"
  have e: "encode_modify_payload a m = header_bytes @ ?w @ ?t"
    by (simp add: encode_modify_payload_def append_header_bytes append_defs timer_bytes_def)
  have h: "read_header (encode_modify_payload a m) 24 = Inr 4" unfolding e by (rule read_header_bytes) simp
  have w: "read_modify_words (encode_modify_payload a m) 4 =
      Some (htonl m, htonl (at_state a), htonl (at_current_state a), htonl (at_access_flags a), 20)"
    unfolding e by (simp add: read_modify_words_def header_bytes_def read_defs value_of_object_bytes)
  have "read_timers (encode_modify_payload a m) 20 = Some (at_timeout a, at_retry_count a, at_rnr_retry a, at_min_rnr_timer a)"
    unfolding e using read_timers_bytes [of "header_bytes @ ?w" 20] by simp
  then show ?thesis by (simp add: decode_modify_payload_def h w)
qed

lemma connect_roundtrip:
  "decode_connect_payload (encode_connect_payload n a m) =
     Inr (n, new_attributes\<lparr>at_timeout := at_timeout a, at_retry_count := at_retry_count a,
                at_rnr_retry := at_rnr_retry a, at_min_rnr_timer := at_min_rnr_timer a\<rparr>, m)"
proof -
  let ?w = "object_bytes 4 (htonl m) @ object_bytes 4 (htonl n)"
  let ?t = "timer_bytes (at_timeout a) (at_retry_count a) (at_rnr_retry a) (at_min_rnr_timer a)"
  have e: "encode_connect_payload n a m = header_bytes @ ?w @ ?t"
    by (simp add: encode_connect_payload_def append_header_bytes append_defs timer_bytes_def)
  have h: "read_header (encode_connect_payload n a m) 16 = Inr 4" unfolding e by (rule read_header_bytes) simp
  have r: "read32 (encode_connect_payload n a m) 4 = Some (htonl m, 8)"
      "read32 (encode_connect_payload n a m) 8 = Some (htonl n, 12)"
    unfolding e using read32_at [of header_bytes 4 "htonl m" "object_bytes 4 (htonl n) @ ?t"]
      read32_at [of "header_bytes @ object_bytes 4 (htonl m)" 8 "htonl n" ?t] by simp_all
  have "read_timers (encode_connect_payload n a m) 12 = Some (at_timeout a, at_retry_count a, at_rnr_retry a, at_min_rnr_timer a)"
    unfolding e using read_timers_bytes [of "header_bytes @ ?w" 12] by simp
  then show ?thesis by (simp add: decode_connect_payload_def h r)
qed

lemma create_attributes_roundtrip: "decode_qp_create_attributes (encode_qp_create_attributes a) = Inr a"
proof -
  have e: "encode_qp_create_attributes a = header_bytes @ creation_bytes a"
    by (simp add: encode_qp_create_attributes_def header_bytes_def creation_bytes_def append_defs)
  have h: "read16 (header_bytes @ creation_bytes a) 0 = Some (htons kQpPayloadVersion, 2)"
      "read16 (header_bytes @ creation_bytes a) 2 = Some (0, 4)"
    by (simp_all add: header_bytes_def read_defs value_of_object_bytes)
  show ?thesis
    using read_creation_bytes [of header_bytes 4 a "[]"] by (simp add: decode_qp_create_attributes_def e h)
qed

definition snapshot_of :: "qp_record \<Rightarrow> qp_snapshot" where
  "snapshot_of r =
     \<lparr>sn_creation = \<lparr>qa_send_cq_identity = qp_send_cq_identity r, qa_recv_cq_identity = qp_recv_cq_identity r,
        qa_max_send_wr = qm_max_wr (qp_sq r), qa_max_recv_wr = qm_max_wr (qp_rq r),
        qa_max_send_sge = qm_max_sge (qp_sq r), qa_max_recv_sge = qm_max_sge (qp_rq r),
        qa_qp_type = qp_qp_type r, qa_sq_sig_all = qp_sq_sig_all r\<rparr>,
      sn_attributes = \<lparr>at_state = qp_state r, at_current_state = qp_state r, at_access_flags = qp_access_flags r,
        at_timeout = qp_timeout r, at_retry_count = qp_retry_count r, at_rnr_retry = qp_rnr_retry r,
        at_min_rnr_timer = qp_min_rnr_timer r\<rparr>,
      sn_qp_num = qp_qp_num r\<rparr>"

lemma snapshot_roundtrip: "decode_snapshot (encode_snapshot r) = Inr (snapshot_of r)"
proof -
  let ?c = "creation_bytes (sn_creation (snapshot_of r))"
  let ?s = "object_bytes 4 (htonl (qp_state r)) @ object_bytes 4 (htonl (qp_state r)) @ object_bytes 4 (htonl (qp_access_flags r))"
  let ?t = "timer_bytes (qp_timeout r) (qp_retry_count r) (qp_rnr_retry r) (qp_min_rnr_timer r)"
  let ?n = "object_bytes 4 (htonl (qp_qp_num r))"
  have e: "encode_snapshot r = header_bytes @ ?n @ ?c @ ?s @ ?t"
    by (simp add: encode_snapshot_def Let_def append_header_bytes append_defs timer_bytes_def creation_bytes_def snapshot_of_def)
  have h: "read_header (encode_snapshot r) 64 = Inr 4" unfolding e by (rule read_header_bytes) simp
  have n: "read32 (encode_snapshot r) 4 = Some (htonl (qp_qp_num r), 8)"
    unfolding e using read32_at [of header_bytes 4 "htonl (qp_qp_num r)" "?c @ ?s @ ?t"] by simp
  have c: "read_creation (encode_snapshot r) 8 = Some (sn_creation (snapshot_of r), 48)"
    unfolding e using read_creation_bytes [of "header_bytes @ ?n" 8 "sn_creation (snapshot_of r)" "?s @ ?t"] by simp
  have s: "read32 (encode_snapshot r) 48 = Some (htonl (qp_state r), 52)"
      "read32 (encode_snapshot r) 52 = Some (htonl (qp_state r), 56)"
      "read32 (encode_snapshot r) 56 = Some (htonl (qp_access_flags r), 60)"
    unfolding e
    using read32_at [of "header_bytes @ ?n @ ?c" 48 "htonl (qp_state r)"
        "object_bytes 4 (htonl (qp_state r)) @ object_bytes 4 (htonl (qp_access_flags r)) @ ?t"]
      read32_at [of "header_bytes @ ?n @ ?c @ object_bytes 4 (htonl (qp_state r))" 52 "htonl (qp_state r)"
        "object_bytes 4 (htonl (qp_access_flags r)) @ ?t"]
      read32_at [of "header_bytes @ ?n @ ?c @ object_bytes 4 (htonl (qp_state r)) @ object_bytes 4 (htonl (qp_state r))"
        56 "htonl (qp_access_flags r)" ?t]
    by simp_all
  have t: "read_timers (encode_snapshot r) 60 = Some (qp_timeout r, qp_retry_count r, qp_rnr_retry r, qp_min_rnr_timer r)"
    unfolding e using read_timers_bytes [of "header_bytes @ ?n @ ?c @ ?s" 60] by simp
  show ?thesis
    by (simp add: decode_snapshot_def h n c read_states_def s t) (simp add: snapshot_of_def)
qed

interpretation qp_create_codec: wire_codec "\<lambda>a. Inr (encode_qp_create_attributes a)" decode_qp_create_attributes
  by unfold_locales (auto simp: create_attributes_roundtrip)

interpretation qp_modify_codec: wire_codec "\<lambda>(a, m). Inr (encode_modify_payload a m)" decode_modify_payload
  by unfold_locales (auto simp: modify_roundtrip)

interpretation qp_query_codec: wire_codec "\<lambda>m. Inr (encode_query_payload m)" decode_query_payload
  by unfold_locales (auto simp: query_roundtrip)

end
