(* ===== verification/Session_Objects.thy ===== *)
theory Session_Objects
  imports Object_Registry "HOL-Library.Multiset"
begin

text \<open>
  What the control services need of the registries beyond the handle contract: the listing of a
  session's objects (\<open>for_each_session\<close>), and counting and collecting over the table of entries, which
  is how reference counts are related to the objects they count.
\<close>

section \<open>Listing the objects of a session\<close>

lemma distinct_map_filter:
  assumes "distinct xs"
    and "\<And>x y k v w. x \<in> set xs \<Longrightarrow> y \<in> set xs \<Longrightarrow> f x = Some (k, v) \<Longrightarrow> f y = Some (k, w) \<Longrightarrow> x = y"
  shows "distinct (map fst (List.map_filter f xs))"
  using assms
proof (induction xs)
  case Nil
  then show ?case by (simp add: List.map_filter_def)
next
  case (Cons x xs)
  have IH: "distinct (map fst (List.map_filter f xs))"
    using Cons.prems by (intro Cons.IH) auto
  show ?case
  proof (cases "f x")
    case None
    then show ?thesis using IH by (simp add: List.map_filter_simps)
  next
    case (Some kv)
    have "fst kv \<notin> fst ` set (List.map_filter f xs)"
    proof
      assume "fst kv \<in> fst ` set (List.map_filter f xs)"
      then obtain y w where y: "y \<in> set xs" "f y = Some (fst kv, w)"
        by (auto simp: List.map_filter_def)
      then have "x = y" using Cons.prems(2) [of x y "fst kv" "snd kv" w] Some by simp
      then show False using y(1) Cons.prems(1) by simp
    qed
    then show ?thesis using IH Some by (simp add: List.map_filter_simps)
  qed
qed

lemma reg_for_each_mem:
  assumes inv: "reg_inv reg"
  shows "(i, v) \<in> set (reg_for_each_session ty s reg) \<longleftrightarrow> reg_entries ty reg i = Some (s, v)"
proof
  assume "(i, v) \<in> set (reg_for_each_session ty s reg)"
  then obtain k where k: "k < length (reg_slots reg)" "\<not> sl_retired (reg_slots reg ! k)"
      "sl_owner_session (reg_slots reg ! k) = s" "sl_value (reg_slots reg ! k) = Some v"
      "encode_object_identity \<lparr>oip_type = ty, oip_generation = sl_generation (reg_slots reg ! k), oip_slot = of_nat k\<rparr> = Some i"
    by (auto simp: reg_for_each_session_def List.map_filter_def Let_def split: if_splits option.splits)
  from decode_encode_identity [OF k(5)] k slot_index_roundtrip [OF k(1) inv]
  show "reg_entries ty reg i = Some (s, v)" by (simp add: reg_entries_decoded slot_entry_def)
next
  assume e: "reg_entries ty reg i = Some (s, v)"
  then obtain p where p: "decode_object_identity i = Some p" "oip_type p = ty"
      "unat (oip_slot p) < length (reg_slots reg)"
      "slot_entry (oip_generation p) (reg_slots reg ! unat (oip_slot p)) = Some (s, v)"
    by (cases "decode_object_identity i") (auto simp: reg_entries_undecoded reg_entries_decoded split: if_splits)
  let ?k = "unat (oip_slot p)"
  have sl: "\<not> sl_retired (reg_slots reg ! ?k)" "sl_generation (reg_slots reg ! ?k) = oip_generation p"
      "sl_owner_session (reg_slots reg ! ?k) = s" "sl_value (reg_slots reg ! ?k) = Some v"
    using p(4) by (auto simp: slot_entry_def split: if_splits)
  have "p = \<lparr>oip_type = ty, oip_generation = sl_generation (reg_slots reg ! ?k), oip_slot = of_nat ?k\<rparr>"
    using p(2) sl(2) by (cases p) simp
  then have "encode_object_identity \<lparr>oip_type = ty, oip_generation = sl_generation (reg_slots reg ! ?k), oip_slot = of_nat ?k\<rparr> = Some i"
    using encode_decode_identity [OF p(1)] by simp
  then show "(i, v) \<in> set (reg_for_each_session ty s reg)"
    using p(3) sl by (auto simp: reg_for_each_session_def List.map_filter_def Let_def image_iff intro!: bexI [of _ ?k])
qed

lemma reg_for_each_distinct:
  assumes inv: "reg_inv reg"
  shows "distinct (map fst (reg_for_each_session ty s reg))"
  unfolding reg_for_each_session_def
proof (rule distinct_map_filter, simp, goal_cases)
  case (1 x y k v w)
  then have "oip_slot (the (decode_object_identity k)) = of_nat x" "oip_slot (the (decode_object_identity k)) = of_nat y"
    by (auto simp: Let_def dest!: decode_encode_identity split: if_splits option.splits)
  then have "(of_nat x :: u32) = of_nat y" by simp
  then have "unat (of_nat x :: u32) = unat (of_nat y :: u32)" by simp
  then show ?case using 1(1,2) slot_index_roundtrip [OF _ inv] by simp
qed

text \<open>A handle table with this listing.\<close>

locale session_table = handle_table +
  fixes each :: "u64 \<Rightarrow> 'a \<Rightarrow> (u64 \<times> 'b) list"
  assumes each_entries: "inv t \<Longrightarrow> (i, r) \<in> set (each s t) \<longleftrightarrow> entries t i = Some (s, r)"
    and each_distinct: "inv t \<Longrightarrow> distinct (map fst (each s t))"
begin

lemma each_is_erased:
  "inv t \<Longrightarrow> entries (snd (era_session s t)) = (\<lambda>i. if i \<in> fst ` set (each s t) then None else entries t i)"
proof (rule ext)
  fix i assume t: "inv t"
  have "i \<in> fst ` set (each s t) \<longleftrightarrow> (\<exists>r. entries t i = Some (s, r))"
    using each_entries [OF t, of i _ s] by force
  then show "entries (snd (era_session s t)) i = (if i \<in> fst ` set (each s t) then None else entries t i)"
    by (auto simp: session_entries [OF t] split: option.splits)
qed

end

interpretation mr_each: session_table reg_inv "reg_entries ot_mr" "reg_insert ot_mr"
  "reg_resolve ot_mr" "reg_erase ot_mr" reg_erase_session reg_update "reg_for_each_session ot_mr"
  by unfold_locales (simp_all add: reg_for_each_mem reg_for_each_distinct)

interpretation qp_each: session_table reg_inv "reg_entries ot_qp" "reg_insert ot_qp"
  "reg_resolve ot_qp" "reg_erase ot_qp" reg_erase_session reg_update "reg_for_each_session ot_qp"
  by unfold_locales (simp_all add: reg_for_each_mem reg_for_each_distinct)

section \<open>Counting the objects that refer to another\<close>

definition count_of :: "('r \<Rightarrow> bool) \<Rightarrow> (u64 \<rightharpoonup> u64 \<times> 'r) \<Rightarrow> nat" where
  "count_of P m = card {i. \<exists>s r. m i = Some (s, r) \<and> P r}"

definition drop_owner :: "u64 \<Rightarrow> (u64 \<rightharpoonup> u64 \<times> 'r) \<Rightarrow> (u64 \<rightharpoonup> u64 \<times> 'r)" where
  "drop_owner s m = (\<lambda>i. case m i of None \<Rightarrow> None | Some (s', r) \<Rightarrow> if s' = s then None else Some (s', r))"

definition owned_by :: "u64 set \<Rightarrow> (u64 \<rightharpoonup> u64 \<times> 'r) \<Rightarrow> bool" where
  "owned_by S m \<longleftrightarrow> (\<forall>i s r. m i = Some (s, r) \<longrightarrow> s \<in> S)"

lemma drop_owner_Some [simp]: "drop_owner s m i = Some (s', r) \<longleftrightarrow> m i = Some (s', r) \<and> s' \<noteq> s"
  by (auto simp: drop_owner_def split: option.splits)

lemma count_of_finite: "finite (dom m) \<Longrightarrow> finite {i. \<exists>s r. m i = Some (s, r) \<and> P r}"
  by (rule finite_subset [of _ "dom m"]) auto

lemma count_of_empty [simp]: "count_of P Map.empty = 0"
  by (simp add: count_of_def)

lemma count_of_ins:
  assumes "finite (dom m)" "m i = None"
  shows "count_of P (m(i \<mapsto> (s, r))) = count_of P m + (if P r then 1 else 0)"
proof -
  have "{j. \<exists>s' r'. (m(i \<mapsto> (s, r))) j = Some (s', r') \<and> P r'} =
      (if P r then insert i else id) {j. \<exists>s' r'. m j = Some (s', r') \<and> P r'}"
    using assms(2) by auto
  then show ?thesis using assms count_of_finite [OF assms(1), of P] by (simp add: count_of_def)
qed

lemma count_of_del:
  assumes "finite (dom m)" "m i = Some (s, r)"
  shows "count_of P (m(i := None)) = count_of P m - (if P r then 1 else 0)"
    and "P r \<Longrightarrow> 0 < count_of P m"
proof -
  let ?S = "{j. \<exists>s' r'. m j = Some (s', r') \<and> P r'}"
  have "{j. \<exists>s' r'. (m(i := None)) j = Some (s', r') \<and> P r'} = ?S - {i}" by auto
  moreover have "i \<in> ?S \<longleftrightarrow> P r" using assms(2) by auto
  moreover have f: "finite ?S" by (rule count_of_finite [OF assms(1)])
  ultimately show "count_of P (m(i := None)) = count_of P m - (if P r then 1 else 0)"
    by (simp add: count_of_def)
  show "0 < count_of P m" if "P r"
    using that f assms(2) by (auto simp: count_of_def card_gt_0_iff)
qed

lemma count_of_upd:
  assumes "m i = Some (s, r)" "P r' \<longleftrightarrow> P r"
  shows "count_of P (m(i \<mapsto> (s, r'))) = count_of P m"
proof -
  have "{j. \<exists>s' q. (m(i \<mapsto> (s, r'))) j = Some (s', q) \<and> P q} = {j. \<exists>s' q. m j = Some (s', q) \<and> P q}"
    using assms by auto
  then show ?thesis by (simp add: count_of_def)
qed

lemma count_of_drop:
  assumes "\<And>i s' r. m i = Some (s', r) \<Longrightarrow> P r \<Longrightarrow> s' \<noteq> s"
  shows "count_of P (drop_owner s m) = count_of P m"
proof -
  have "{j. \<exists>s' q. drop_owner s m j = Some (s', q) \<and> P q} = {j. \<exists>s' q. m j = Some (s', q) \<and> P q}"
    using assms by fastforce
  then show ?thesis by (simp add: count_of_def)
qed

lemma count_of_zero:
  assumes "finite (dom m)" shows "count_of P m = 0 \<longleftrightarrow> (\<forall>i s r. m i = Some (s, r) \<longrightarrow> \<not> P r)"
  using count_of_finite [OF assms, of P] by (auto simp: count_of_def)

lemma owned_by_ins: "owned_by S m \<Longrightarrow> s \<in> S \<Longrightarrow> owned_by S (m(i \<mapsto> (s, r)))"
  by (simp add: owned_by_def)

lemma owned_by_del: "owned_by S m \<Longrightarrow> owned_by S (m(i := None))"
  by (simp add: owned_by_def)

lemma owned_by_upd: "owned_by S m \<Longrightarrow> m i = Some (s, r) \<Longrightarrow> owned_by S (m(i \<mapsto> (s, r')))"
  by (auto simp: owned_by_def)

lemma owned_by_drop: "owned_by S m \<Longrightarrow> owned_by (S - {s}) (drop_owner s m)"
  by (auto simp: owned_by_def)

lemma owned_by_mono: "owned_by S m \<Longrightarrow> S \<subseteq> T \<Longrightarrow> owned_by T m"
  by (auto simp: owned_by_def)

lemmas owned_by_intros = owned_by_ins owned_by_del owned_by_upd owned_by_drop

section \<open>Children and their parents\<close>

definition has_parent :: "(u64 \<rightharpoonup> u64 \<times> 'c) \<Rightarrow> ('r \<Rightarrow> u64) \<Rightarrow> (u64 \<rightharpoonup> u64 \<times> 'r) \<Rightarrow> bool" where
  "has_parent C parent T \<longleftrightarrow> (\<forall>i s r. T i = Some (s, r) \<longrightarrow> (\<exists>c. C (parent r) = Some (s, c)))"

lemma has_parentD: "has_parent C parent T \<Longrightarrow> T i = Some (s, r) \<Longrightarrow> \<exists>c. C (parent r) = Some (s, c)"
  unfolding has_parent_def by blast

lemma has_parent_owner:
  "has_parent C parent T \<Longrightarrow> T i = Some (s, r) \<Longrightarrow> C (parent r) = Some (s', c) \<Longrightarrow> s' = s"
  by (drule (1) has_parentD) auto

lemma has_parent_new: "has_parent C parent T \<Longrightarrow> C i = None \<Longrightarrow> has_parent (C(i \<mapsto> x)) parent T"
  unfolding has_parent_def by (metis fun_upd_other option.distinct(1))

lemma has_parent_upd: "has_parent C parent T \<Longrightarrow> C i = Some (s, c) \<Longrightarrow> has_parent (C(i \<mapsto> (s, c'))) parent T"
  unfolding has_parent_def by (metis (mono_tags, lifting) fun_upd_apply option.inject prod.inject)

lemma has_parent_remove:
  "has_parent C parent T \<Longrightarrow> (\<And>j s r. T j = Some (s, r) \<Longrightarrow> parent r \<noteq> i) \<Longrightarrow> has_parent (C(i := None)) parent T"
  unfolding has_parent_def by (metis fun_upd_other)

lemma has_parent_ins: "has_parent C parent T \<Longrightarrow> C (parent r) = Some (s, c) \<Longrightarrow> has_parent C parent (T(i \<mapsto> (s, r)))"
  unfolding has_parent_def by (simp add: fun_upd_apply)

lemma has_parent_del: "has_parent C parent T \<Longrightarrow> has_parent C parent (T(i := None))"
  unfolding has_parent_def by (simp add: fun_upd_apply)

lemma has_parent_drop: "has_parent C parent T \<Longrightarrow> has_parent (drop_owner s C) parent (drop_owner s T)"
  unfolding has_parent_def by auto

lemma has_parent_none:
  "has_parent C parent T \<Longrightarrow> C i = None \<Longrightarrow> finite (dom T) \<Longrightarrow> count_of (\<lambda>r. parent r = i) T = 0"
  by (subst count_of_zero) (auto dest: has_parentD)

lemma count_of_drop_parent:
  "has_parent C parent T \<Longrightarrow> C i = Some (s', c) \<Longrightarrow> s' \<noteq> s \<Longrightarrow>
   count_of (\<lambda>r. parent r = i) (drop_owner s T) = count_of (\<lambda>r. parent r = i) T"
  by (rule count_of_drop) (auto dest: has_parent_owner)

section \<open>Objects that count their users\<close>

text \<open>\<open>linked cnt see users parent P Q\<close>: every object of \<open>Q\<close> uses objects of \<open>P\<close> of its own session that
  agree with it on \<open>see\<close>, and an object of \<open>P\<close> counts its users.\<close>

definition linked ::
  "('r \<Rightarrow> nat) \<Rightarrow> ('r \<Rightarrow> 'v) \<Rightarrow> ('q \<Rightarrow> u64 set) \<Rightarrow> ('q \<Rightarrow> 'v) \<Rightarrow> (u64 \<rightharpoonup> u64 \<times> 'r) \<Rightarrow> (u64 \<rightharpoonup> u64 \<times> 'q) \<Rightarrow> bool" where
  "linked cnt see users want P Q \<longleftrightarrow>
     (\<forall>q t x. Q q = Some (t, x) \<longrightarrow> (\<forall>i \<in> users x. \<exists>r. P i = Some (t, r) \<and> see r = want x)) \<and>
     (\<forall>i t r. P i = Some (t, r) \<longrightarrow> cnt r = count_of (\<lambda>x. i \<in> users x) Q)"

definition bump :: "('r \<Rightarrow> 'r) \<Rightarrow> u64 set \<Rightarrow> (u64 \<rightharpoonup> u64 \<times> 'r) \<Rightarrow> (u64 \<rightharpoonup> u64 \<times> 'r)" where
  "bump f I P = (\<lambda>i. if i \<in> I then map_option (map_prod id f) (P i) else P i)"

definition referenced :: "('r \<Rightarrow> nat) \<Rightarrow> ('r \<Rightarrow> 'v) \<Rightarrow> (u64 \<rightharpoonup> u64 \<times> 'r) \<Rightarrow> (u64 \<rightharpoonup> u64 \<times> nat \<times> 'v)" where
  "referenced cnt see m = (\<lambda>i. case m i of None \<Rightarrow> None
     | Some (t, r) \<Rightarrow> if cnt r = 0 then None else Some (t, cnt r, see r))"

lemma bump_Some: "bump f I P i = Some (t, r) \<longleftrightarrow> (\<exists>r'. P i = Some (t, r') \<and> r = (if i \<in> I then f r' else r'))"
  by (cases "P i") (auto simp: bump_def)

lemma referenced_Some:
  "referenced cnt see m i = Some (t, n, v) \<longleftrightarrow> (\<exists>r. m i = Some (t, r) \<and> cnt r = n \<and> n \<noteq> 0 \<and> see r = v)"
  by (auto simp: referenced_def split: option.splits)

lemma referenced_None:
  "referenced cnt see m i = None \<longleftrightarrow> (\<forall>t r. m i = Some (t, r) \<longrightarrow> cnt r = 0)"
  by (auto simp: referenced_def split: option.splits)

lemma linkedD:
  assumes "linked cnt see users want P Q"
  shows "Q q = Some (t, x) \<Longrightarrow> i \<in> users x \<Longrightarrow> \<exists>r. P i = Some (t, r) \<and> see r = want x"
    and "P i = Some (t, r) \<Longrightarrow> cnt r = count_of (\<lambda>x. i \<in> users x) Q"
  using assms by (simp_all add: linked_def)

lemma linked_used:
  assumes "linked cnt see users want P Q" "finite (dom Q)" "Q q = Some (t, x)" "i \<in> users x"
  shows "\<exists>r. P i = Some (t, r) \<and> see r = want x \<and> 0 < cnt r"
proof -
  obtain r where r: "P i = Some (t, r)" "see r = want x" using linkedD(1) [OF assms(1,3,4)] by blast
  moreover have "0 < count_of (\<lambda>x. i \<in> users x) Q"
    using assms(4) by (rule count_of_del(2) [OF assms(2,3), where P = "\<lambda>x. i \<in> users x"])
  ultimately show ?thesis using linkedD(2) [OF assms(1) r(1)] by auto
qed

lemma linked_transfer:
  assumes L: "linked cnt (h \<circ> see) users want P Q" and R: "referenced cnt see P' = referenced cnt see P" and fin: "finite (dom Q)"
  shows "linked cnt (h \<circ> see) users want P' Q"
  unfolding linked_def
proof (intro conjI allI impI ballI)
  fix q t x i assume q: "Q q = Some (t, x)" "i \<in> users x"
  obtain r where r: "P i = Some (t, r)" "h (see r) = want x" "0 < cnt r" using linked_used [OF L fin q] by auto
  then have "referenced cnt see P i = Some (t, cnt r, see r)" by (simp add: referenced_def)
  then have "referenced cnt see P' i = Some (t, cnt r, see r)" by (simp add: R)
  then show "\<exists>r. P' i = Some (t, r) \<and> (h \<circ> see) r = want x" using r(2) by (auto simp: referenced_Some)
next
  fix i t r assume r: "P' i = Some (t, r)"
  show "cnt r = count_of (\<lambda>x. i \<in> users x) Q"
  proof (cases "cnt r = 0")
    case True
    then have "referenced cnt see P' i = None" using r by (simp add: referenced_def)
    then have "referenced cnt see P i = None" by (simp add: R)
    then have z: "P i = Some (t', r') \<Longrightarrow> cnt r' = 0" for t' r' by (simp add: referenced_None)
    have "Q q = Some (t', x) \<Longrightarrow> i \<notin> users x" for q t' x
      using linked_used [OF L fin, of q t' x i] z by fastforce
    then show ?thesis using True by (simp add: count_of_zero [OF fin])
  next
    case False
    then have "referenced cnt see P' i = Some (t, cnt r, see r)" using r by (simp add: referenced_def)
    then have "referenced cnt see P i = Some (t, cnt r, see r)" by (simp add: R)
    then show ?thesis using linkedD(2) [OF L] by (auto simp: referenced_Some)
  qed
qed

lemma linked_add:
  assumes L: "linked cnt see users want P Q" and q: "Q q = None" "finite (dom Q)"
    and u: "\<And>i. i \<in> users x \<Longrightarrow> \<exists>r. P i = Some (t, r) \<and> see r = want x"
    and f: "\<And>r. cnt (f r) = Suc (cnt r)" "\<And>r. see (f r) = see r"
  shows "linked cnt see users want (bump f (users x) P) (Q(q \<mapsto> (t, x)))"
  unfolding linked_def
proof (intro conjI allI impI ballI)
  fix q' t' x' i assume "(Q(q \<mapsto> (t, x))) q' = Some (t', x')" "i \<in> users x'"
  then have "\<exists>r. P i = Some (t', r) \<and> see r = want x'" using u linkedD(1) [OF L] by (auto split: if_splits)
  then show "\<exists>r. bump f (users x) P i = Some (t', r) \<and> see r = want x'"
    by (cases "i \<in> users x") (auto simp: bump_def f(2))
next
  fix i t' r assume "bump f (users x) P i = Some (t', r)"
  then obtain r' where "P i = Some (t', r')" "r = (if i \<in> users x then f r' else r')" by (auto simp: bump_Some)
  then show "cnt r = count_of (\<lambda>y. i \<in> users y) (Q(q \<mapsto> (t, x)))"
    using linkedD(2) [OF L] by (auto simp: count_of_ins [OF q(2,1)] f(1))
qed

lemma linked_del:
  assumes L: "linked cnt see users want P Q" and q: "Q q = Some (t, x)" "finite (dom Q)"
    and f: "\<And>r. cnt (f r) = cnt r - 1" "\<And>r. see (f r) = see r"
  shows "linked cnt see users want (bump f (users x) P) (Q(q := None))"
  unfolding linked_def
proof (intro conjI allI impI ballI)
  fix q' t' x' i assume "(Q(q := None)) q' = Some (t', x')" "i \<in> users x'"
  then have "\<exists>r. P i = Some (t', r) \<and> see r = want x'" using linkedD(1) [OF L] by (auto split: if_splits)
  then show "\<exists>r. bump f (users x) P i = Some (t', r) \<and> see r = want x'"
    by (cases "i \<in> users x") (auto simp: bump_def f(2))
next
  fix i t' r assume "bump f (users x) P i = Some (t', r)"
  then obtain r' where "P i = Some (t', r')" "r = (if i \<in> users x then f r' else r')" by (auto simp: bump_Some)
  then show "cnt r = count_of (\<lambda>y. i \<in> users y) (Q(q := None))"
    using linkedD(2) [OF L] by (auto simp: count_of_del(1) [OF q(2,1)] f(1))
qed

lemma linked_upd:
  assumes L: "linked cnt see users want P Q" and q: "Q q = Some (t, x)" and x': "users x' = users x" "want x' = want x"
  shows "linked cnt see users want P (Q(q \<mapsto> (t, x')))"
proof -
  have "count_of (\<lambda>y. i \<in> users y) (Q(q \<mapsto> (t, x'))) = count_of (\<lambda>y. i \<in> users y) Q" for i
    using x' by (intro count_of_upd [where m = Q and r = x, OF q]) simp
  then show ?thesis using L q x' unfolding linked_def by auto
qed

lemma linked_drop:
  assumes L: "linked cnt see users want P Q"
  shows "linked cnt see users want (drop_owner s P) (drop_owner s Q)"
  unfolding linked_def
proof (intro conjI allI impI ballI)
  fix q t x i assume "drop_owner s Q q = Some (t, x)" "i \<in> users x"
  then show "\<exists>r. drop_owner s P i = Some (t, r) \<and> see r = want x" using linkedD(1) [OF L] by auto
next
  fix i t r assume "drop_owner s P i = Some (t, r)"
  then have i: "P i = Some (t, r)" "t \<noteq> s" by simp_all
  have "count_of (\<lambda>x. i \<in> users x) (drop_owner s Q) = count_of (\<lambda>x. i \<in> users x) Q"
    using linkedD(1) [OF L] i by (intro count_of_drop) fastforce
  then show "cnt r = count_of (\<lambda>x. i \<in> users x) (drop_owner s Q)" using linkedD(2) [OF L i(1)] by simp
qed

section \<open>Collecting what the objects hold\<close>

definition collect :: "('r \<Rightarrow> 'b) \<Rightarrow> (u64 \<rightharpoonup> u64 \<times> 'r) \<Rightarrow> 'b multiset" where
  "collect f m = image_mset (\<lambda>i. f (snd (the (m i)))) (mset_set (dom m))"

lemma collect_empty [simp]: "collect f Map.empty = {#}"
  by (simp add: collect_def)

lemma collect_ins:
  assumes "finite (dom m)" "m i = None"
  shows "collect f (m(i \<mapsto> (s, r))) = add_mset (f r) (collect f m)"
proof -
  have "i \<notin> dom m" using assms(2) by auto
  moreover have "image_mset (\<lambda>j. f (snd (the ((m(i \<mapsto> (s, r))) j)))) (mset_set (dom m)) = collect f m"
    unfolding collect_def using \<open>i \<notin> dom m\<close> assms(1) by (intro image_mset_cong) auto
  ultimately show ?thesis using assms(1) by (simp add: collect_def)
qed

lemma collect_del:
  assumes "finite (dom m)" "m i = Some (s, r)"
  shows "collect f m = add_mset (f r) (collect f (m(i := None)))"
proof -
  have "m = (m(i := None))(i \<mapsto> (s, r))" using assms(2) by auto
  moreover have "collect f ((m(i := None))(i \<mapsto> (s, r))) = add_mset (f r) (collect f (m(i := None)))"
    using assms(1) by (intro collect_ins) auto
  ultimately show ?thesis by simp
qed

lemma collect_del_list:
  assumes "finite (dom m)" "distinct (map fst xs)" "\<And>i r. (i, r) \<in> set xs \<Longrightarrow> \<exists>s. m i = Some (s, r)"
  shows "collect f m = mset (map (f \<circ> snd) xs) + collect f (\<lambda>i. if i \<in> fst ` set xs then None else m i)"
  using assms
proof (induction xs arbitrary: m)
  case (Cons x xs)
  obtain s where mi: "m (fst x) = Some (s, snd x)" using Cons.prems(3) [of "fst x" "snd x"] by auto
  let ?m = "m(fst x := None)"
  have "\<exists>s. ?m i = Some (s, r)" if "(i, r) \<in> set xs" for i r
    using Cons.prems(2) Cons.prems(3) [of i r] that by (force simp: image_iff)
  then have "collect f ?m = mset (map (f \<circ> snd) xs) + collect f (\<lambda>i. if i \<in> fst ` set xs then None else ?m i)"
    using Cons.prems(1,2) by (intro Cons.IH) auto
  moreover have "(\<lambda>i. if i \<in> fst ` set xs then None else ?m i) = (\<lambda>i. if i \<in> fst ` set (x # xs) then None else m i)"
    by auto
  ultimately show ?case using collect_del [OF Cons.prems(1) mi, of f] by (simp add: comp_def)
qed simp

end
