(* ===== verification/Control_Objects.thy ===== *)
theory Control_Objects
  imports Pd_Mr_Cq Session_Objects
begin

unbundle bit_operations_syntax

text \<open>
  The invariant of the context, PD, MR and CQ services on the tables of their registries, and that every
  handler preserves it. The three parts are stated over the tables alone, so that the queue pair
  service, which extends the record, uses the same lemmas: \<open>objects_ok\<close> (every child has its parent,
  of the same session, and a context counts its children), \<open>regions_ok\<close> (the key indices of a PD and
  the regions agree, and keys are unique) and \<open>mappings_ok\<close> (a live region's mapping is open in the
  memory backend, and nothing else is).
\<close>

section \<open>The invariant\<close>

abbreviation contexts_of :: "'a device_context_service_scheme \<Rightarrow> u64 \<rightharpoonup> u64 \<times> context_record" where
  "contexts_of s \<equiv> reg_entries ot_context (dc_contexts s)"
abbreviation pds_of :: "'a pd_mr_cq_service_scheme \<Rightarrow> u64 \<rightharpoonup> u64 \<times> pd_record" where
  "pds_of s \<equiv> reg_entries ot_pd (pm_pds s)"
abbreviation mrs_of :: "'a pd_mr_cq_service_scheme \<Rightarrow> u64 \<rightharpoonup> u64 \<times> mr_record" where
  "mrs_of s \<equiv> reg_entries ot_mr (pm_mrs s)"
abbreviation cqs_of :: "'a pd_mr_cq_service_scheme \<Rightarrow> u64 \<rightharpoonup> u64 \<times> cq_record" where
  "cqs_of s \<equiv> reg_entries ot_cq (pm_cqs s)"

definition objects_ok ::
  "(u64 \<rightharpoonup> u64 \<times> context_record) \<Rightarrow> (u64 \<rightharpoonup> u64 \<times> pd_record) \<Rightarrow> (u64 \<rightharpoonup> u64 \<times> cq_record) \<Rightarrow> bool" where
  "objects_ok C P Q \<longleftrightarrow>
     has_parent C pd_context_identity P \<and> has_parent C cq_context_identity Q \<and>
     (\<forall>i s c. C i = Some (s, c) \<longrightarrow>
        ctx_child_count c = count_of (\<lambda>pd. pd_context_identity pd = i) P + count_of (\<lambda>cq. cq_context_identity cq = i) Q)"

text \<open>A region lies in its allocation, and the daemon address is where the allocation's offset is
  mapped.\<close>

definition region_ok :: "mr_record \<Rightarrow> bool" where
  "region_ok mr \<longleftrightarrow>
     im_daemon_base_address (mr_mapping mr) \<noteq> 0 \<and> im_gpu_uuid (mr_mapping mr) = mr_gpu_uuid mr \<and>
     unat (mr_daemon_address mr) = unat (im_daemon_base_address (mr_mapping mr)) + unat (mr_allocation_offset mr) \<and>
     unat (mr_allocation_offset mr) + unat (mr_length mr) \<le> unat (mr_allocation_size mr) \<and>
     mr_length mr \<noteq> 0 \<and> valid_access (mr_access mr)"

text \<open>The PD of a region indexes it under its two keys; the indices of a PD hold nothing else.\<close>

definition mr_index_ok :: "(u64 \<rightharpoonup> u64 \<times> pd_record) \<Rightarrow> u64 \<Rightarrow> u64 \<Rightarrow> mr_record \<Rightarrow> bool" where
  "mr_index_ok P m s mr \<longleftrightarrow>
     (\<exists>pd. P (mr_pd_identity mr) = Some (s, pd) \<and> pd_context_identity pd = mr_context_identity mr \<and>
           m \<in> pd_mr_identities pd \<and> pd_local_key_index pd (mr_lkey mr) = Some m \<and>
           pd_remote_key_index pd (mr_rkey mr) = Some m)"

definition pd_index_ok :: "(u64 \<rightharpoonup> u64 \<times> mr_record) \<Rightarrow> u64 \<Rightarrow> u64 \<Rightarrow> pd_record \<Rightarrow> bool" where
  "pd_index_ok M p s pd \<longleftrightarrow>
     (\<forall>m \<in> pd_mr_identities pd. \<exists>mr. M m = Some (s, mr) \<and> mr_pd_identity mr = p) \<and>
     (\<forall>k m. pd_local_key_index pd k = Some m \<longrightarrow>
        (\<exists>mr. M m = Some (s, mr) \<and> mr_pd_identity mr = p \<and> mr_lkey mr = k)) \<and>
     (\<forall>k m. pd_remote_key_index pd k = Some m \<longrightarrow>
        (\<exists>mr. M m = Some (s, mr) \<and> mr_pd_identity mr = p \<and> mr_rkey mr = k))"

definition unique_keys :: "(u64 \<rightharpoonup> u64 \<times> mr_record) \<Rightarrow> bool" where
  "unique_keys M \<longleftrightarrow>
     (\<forall>m m' s s' mr mr'. M m = Some (s, mr) \<longrightarrow> M m' = Some (s', mr') \<longrightarrow> m \<noteq> m' \<longrightarrow>
        mr_lkey mr \<noteq> mr_lkey mr' \<and> mr_rkey mr \<noteq> mr_rkey mr')"

definition keys_below :: "u64 \<Rightarrow> mr_record \<Rightarrow> bool" where
  "keys_below k mr \<longleftrightarrow> unat (mr_lkey mr) < unat k \<and> unat (mr_rkey mr) < unat k"

definition regions_ok :: "u64 \<Rightarrow> (u64 \<rightharpoonup> u64 \<times> pd_record) \<Rightarrow> (u64 \<rightharpoonup> u64 \<times> mr_record) \<Rightarrow> bool" where
  "regions_ok next_key P M \<longleftrightarrow>
     (\<forall>m s mr. M m = Some (s, mr) \<longrightarrow> region_ok mr \<and> keys_below next_key mr \<and> mr_index_ok P m s mr) \<and>
     (\<forall>p s pd. P p = Some (s, pd) \<longrightarrow> pd_index_ok M p s pd) \<and> unique_keys M"

text \<open>The mappings a backend has open after a sequence of calls.\<close>

definition held_step :: "cuda_ipc_mapping multiset \<Rightarrow> backend_call \<Rightarrow> cuda_ipc_mapping multiset" where
  "held_step h call = (case call of
      OpenCall memory result \<Rightarrow> (case result of Inl _ \<Rightarrow> h | Inr mapping \<Rightarrow> add_mset mapping h)
    | CloseCall mapping status \<Rightarrow> if status = OK then h - {#mapping#} else h)"

definition held :: "backend_call list \<Rightarrow> cuda_ipc_mapping multiset" where
  "held calls = foldl held_step {#} calls"

definition closes_succeed :: "backend_call list \<Rightarrow> bool" where
  "closes_succeed calls \<longleftrightarrow> list_all (\<lambda>c. case c of OpenCall _ _ \<Rightarrow> True | CloseCall _ status \<Rightarrow> status = OK) calls"

definition mappings_ok :: "backend_call list \<Rightarrow> (u64 \<rightharpoonup> u64 \<times> mr_record) \<Rightarrow> bool" where
  "mappings_ok calls M \<longleftrightarrow>
     collect mr_mapping M \<subseteq># held calls \<and> (closes_succeed calls \<longrightarrow> held calls = collect mr_mapping M)"

definition tables_ok :: "'a pd_mr_cq_service_scheme \<Rightarrow> bool" where
  "tables_ok s \<longleftrightarrow> reg_inv (dc_contexts s) \<and> reg_inv (pm_pds s) \<and> reg_inv (pm_mrs s) \<and> reg_inv (pm_cqs s)"

definition control_inv :: "'a pd_mr_cq_service_scheme \<Rightarrow> bool" where
  "control_inv s \<longleftrightarrow> tables_ok s \<and> pm_next_key s \<noteq> 0 \<and>
     objects_ok (contexts_of s) (pds_of s) (cqs_of s) \<and>
     regions_ok (pm_next_key s) (pds_of s) (mrs_of s) \<and>
     mappings_ok (pm_memory_backend s) (mrs_of s)"

section \<open>Parents and children\<close>

lemma objects_ok_new_context:
  assumes "objects_ok C P Q" "C i = None" "finite (dom P)" "finite (dom Q)" "ctx_child_count c = 0"
  shows "objects_ok (C(i \<mapsto> (s, c))) P Q"
  using assms by (auto simp: objects_ok_def has_parent_new has_parent_none)

lemma objects_ok_del_context:
  assumes "objects_ok C P Q" "C i = Some (s, c)" "ctx_child_count c = 0" "finite (dom P)" "finite (dom Q)"
  shows "objects_ok (C(i := None)) P Q"
proof -
  have "count_of (\<lambda>pd. pd_context_identity pd = i) P = 0" "count_of (\<lambda>cq. cq_context_identity cq = i) Q = 0"
    using assms(1,2,3) by (auto simp: objects_ok_def)
  then have "P p = Some (t, pd) \<Longrightarrow> pd_context_identity pd \<noteq> i" "Q q = Some (t, cq) \<Longrightarrow> cq_context_identity cq \<noteq> i" for p q t pd cq
    by (simp_all add: count_of_zero assms(4,5))
  then show ?thesis using assms(1) by (simp add: objects_ok_def has_parent_remove)
qed

lemma objects_ok_new_pd:
  assumes "objects_ok C P Q" "C i = Some (s, c)" "P p = None" "pd_context_identity pd = i" "finite (dom P)"
  shows "objects_ok (C(i \<mapsto> (s, c\<lparr>ctx_child_count := ctx_child_count c + 1\<rparr>))) (P(p \<mapsto> (s, pd))) Q"
  using assms by (auto simp: objects_ok_def count_of_ins intro!: has_parent_upd has_parent_ins)

lemma objects_ok_new_cq:
  assumes "objects_ok C P Q" "C i = Some (s, c)" "Q q = None" "cq_context_identity cq = i" "finite (dom Q)"
  shows "objects_ok (C(i \<mapsto> (s, c\<lparr>ctx_child_count := ctx_child_count c + 1\<rparr>))) P (Q(q \<mapsto> (s, cq)))"
  using assms by (auto simp: objects_ok_def count_of_ins intro!: has_parent_upd has_parent_ins)

lemma objects_ok_del_pd:
  assumes "objects_ok C P Q" "P p = Some (s, pd)" "C (pd_context_identity pd) = Some (s, c)" "finite (dom P)"
  shows "objects_ok (C(pd_context_identity pd \<mapsto> (s, c\<lparr>ctx_child_count := ctx_child_count c - 1\<rparr>))) (P(p := None)) Q"
    and "0 < ctx_child_count c"
  using assms count_of_del(2) [OF assms(4,2), of "\<lambda>x. pd_context_identity x = pd_context_identity pd"]
  by (auto simp: objects_ok_def count_of_del(1) [OF assms(4,2)] intro!: has_parent_upd has_parent_del)

lemma objects_ok_del_cq:
  assumes "objects_ok C P Q" "Q q = Some (s, cq)" "C (cq_context_identity cq) = Some (s, c)" "finite (dom Q)"
  shows "objects_ok (C(cq_context_identity cq \<mapsto> (s, c\<lparr>ctx_child_count := ctx_child_count c - 1\<rparr>))) P (Q(q := None))"
    and "0 < ctx_child_count c"
  using assms count_of_del(2) [OF assms(4,2), of "\<lambda>x. cq_context_identity x = cq_context_identity cq"]
  by (auto simp: objects_ok_def count_of_del(1) [OF assms(4,2)] intro!: has_parent_upd has_parent_del)

lemma objects_ok_upd_pd:
  assumes "objects_ok C P Q" "P p = Some (s, pd)" "pd_context_identity pd' = pd_context_identity pd"
  shows "objects_ok C (P(p \<mapsto> (s, pd'))) Q"
proof -
  have "\<exists>c. C (pd_context_identity pd) = Some (s, c)" using assms by (auto simp: objects_ok_def dest: has_parentD)
  then show ?thesis
    using assms by (auto simp: objects_ok_def count_of_upd [where i = p and m = P] intro!: has_parent_ins)
qed

lemma objects_ok_upd_cq:
  assumes "objects_ok C P Q" "Q q = Some (s, cq)" "cq_context_identity cq' = cq_context_identity cq"
  shows "objects_ok C P (Q(q \<mapsto> (s, cq')))"
proof -
  have "\<exists>c. C (cq_context_identity cq) = Some (s, c)" using assms by (auto simp: objects_ok_def dest: has_parentD)
  then show ?thesis
    using assms by (auto simp: objects_ok_def count_of_upd [where i = q and m = Q] intro!: has_parent_ins)
qed

lemma objects_ok_drop:
  assumes "objects_ok C P Q"
  shows "objects_ok (drop_owner s C) (drop_owner s P) (drop_owner s Q)"
  using assms by (auto simp: objects_ok_def count_of_drop_parent has_parent_drop)

section \<open>Regions and keys\<close>

lemma regions_okD:
  assumes "regions_ok k P M"
  shows "M m = Some (s, mr) \<Longrightarrow> region_ok mr" "M m = Some (s, mr) \<Longrightarrow> keys_below k mr"
    "M m = Some (s, mr) \<Longrightarrow> mr_index_ok P m s mr" "P p = Some (s, pd) \<Longrightarrow> pd_index_ok M p s pd" "unique_keys M"
  using assms by (simp_all add: regions_ok_def)

lemma regions_okI:
  assumes "\<And>m s mr. M m = Some (s, mr) \<Longrightarrow> region_ok mr" "\<And>m s mr. M m = Some (s, mr) \<Longrightarrow> keys_below k mr"
    "\<And>m s mr. M m = Some (s, mr) \<Longrightarrow> mr_index_ok P m s mr" "\<And>p s pd. P p = Some (s, pd) \<Longrightarrow> pd_index_ok M p s pd"
    "unique_keys M"
  shows "regions_ok k P M"
  using assms by (simp add: regions_ok_def)

lemma mr_index_ok_new: "mr_index_ok P m s mr \<Longrightarrow> P p = None \<Longrightarrow> mr_index_ok (P(p \<mapsto> x)) m s mr"
  by (auto simp: mr_index_ok_def)

lemma regions_ok_new_pd:
  assumes "regions_ok k P M" "P p = None" "pd_mr_identities pd = {}"
    "pd_local_key_index pd = Map.empty" "pd_remote_key_index pd = Map.empty"
  shows "regions_ok k (P(p \<mapsto> (s, pd))) M"
proof (rule regions_okI)
  fix q t pd' assume "(P(p \<mapsto> (s, pd))) q = Some (t, pd')"
  then show "pd_index_ok M q t pd'"
    using assms by (cases "q = p") (auto simp: pd_index_ok_def [of M p] dest: regions_okD(4))
qed (use assms in \<open>auto intro: mr_index_ok_new dest: regions_okD\<close>)

lemma regions_ok_del_pd:
  assumes "regions_ok k P M" "P p = Some (s, pd)" "pd_mr_identities pd = {}"
  shows "regions_ok k (P(p := None)) M"
proof (rule regions_okI)
  fix m t mr assume "M m = Some (t, mr)"
  then show "mr_index_ok (P(p := None)) m t mr"
    using regions_okD(3) [OF assms(1), of m t mr] assms(2,3) by (auto simp: mr_index_ok_def)
qed (use assms in \<open>auto dest: regions_okD split: if_splits\<close>)

lemma regions_ok_upd_pd:
  assumes "regions_ok k P M" "P p = Some (s, pd)" "pd_context_identity pd' = pd_context_identity pd"
    "pd_mr_identities pd' = pd_mr_identities pd" "pd_local_key_index pd' = pd_local_key_index pd"
    "pd_remote_key_index pd' = pd_remote_key_index pd"
  shows "regions_ok k (P(p \<mapsto> (s, pd'))) M"
proof (rule regions_okI)
  fix m t mr assume "M m = Some (t, mr)"
  then have "mr_index_ok P m t mr" by (rule regions_okD(3) [OF assms(1)])
  then show "mr_index_ok (P(p \<mapsto> (s, pd'))) m t mr"
    by (cases "mr_pd_identity mr = p") (simp_all add: mr_index_ok_def assms(2-))
next
  fix q t x assume "(P(p \<mapsto> (s, pd'))) q = Some (t, x)"
  moreover have "pd_index_ok M p s pd'"
    using regions_okD(4) [OF assms(1,2)] by (simp add: pd_index_ok_def assms(4-))
  ultimately show "pd_index_ok M q t x"
    using regions_okD(4) [OF assms(1)] by (auto split: if_splits)
qed (use assms(1) in \<open>auto dest: regions_okD\<close>)

lemma regions_ok_next_key:
  assumes "regions_ok k P M" "unat k \<le> unat k'"
  shows "regions_ok k' P M"
proof (rule regions_okI)
  fix m s mr assume "M m = Some (s, mr)"
  then show "keys_below k' mr" using regions_okD(2) [OF assms(1)] assms(2) by (fastforce simp: keys_below_def)
qed (use assms(1) in \<open>auto dest: regions_okD\<close>)

definition indexed_pd :: "u64 \<Rightarrow> u32 \<Rightarrow> u32 \<Rightarrow> pd_record \<Rightarrow> pd_record" where
  "indexed_pd m l r pd = pd\<lparr>pd_mr_identities := insert m (pd_mr_identities pd),
     pd_local_key_index := (pd_local_key_index pd)(l \<mapsto> m), pd_remote_key_index := (pd_remote_key_index pd)(r \<mapsto> m)\<rparr>"

lemma fresh_keys:
  assumes R: "regions_ok k P M" and P: "P p = Some (s, pd)" and k: "unat k \<le> unat l" "unat k \<le> unat r" and M: "M m = None"
  shows "pd_local_key_index pd l = None" "pd_remote_key_index pd r = None" "m \<notin> pd_mr_identities pd"
proof -
  note ix = regions_okD(4) [OF R P, unfolded pd_index_ok_def]
  have below: "unat (mr_lkey x) < unat k" "unat (mr_rkey x) < unat k" if "M i = Some (t, x)" for i t x
    using regions_okD(2) [OF R that] by (simp_all add: keys_below_def)
  show "pd_local_key_index pd l = None"
    using ix below(1) k(1) by (cases "pd_local_key_index pd l") fastforce+
  show "pd_remote_key_index pd r = None"
    using ix below(2) k(2) by (cases "pd_remote_key_index pd r") fastforce+
  show "m \<notin> pd_mr_identities pd" using ix M by auto
qed

lemma pd_index_ok_add:
  assumes "pd_index_ok M p s pd" "M m = None" "mr_pd_identity mr = p"
  shows "pd_index_ok (M(m \<mapsto> (s, mr))) p s (indexed_pd m (mr_lkey mr) (mr_rkey mr) pd)"
  using assms unfolding pd_index_ok_def indexed_pd_def by (auto; fastforce)

lemma pd_index_ok_other:
  assumes "pd_index_ok M p s pd" "M m = None"
  shows "pd_index_ok (M(m \<mapsto> x)) p s pd"
  using assms unfolding pd_index_ok_def by (auto; fastforce)

lemma unique_keys_add:
  assumes "unique_keys M" "\<And>i t x. M i = Some (t, x) \<Longrightarrow> mr_lkey x \<noteq> mr_lkey mr \<and> mr_rkey x \<noteq> mr_rkey mr"
  shows "unique_keys (M(m \<mapsto> (s, mr)))"
  using assms unfolding unique_keys_def by (auto split: if_splits) metis+

lemma regions_ok_new_mr:
  assumes R: "regions_ok k P M" and P: "P (mr_pd_identity mr) = Some (s, pd)" and M: "M m = None"
    and k: "unat k \<le> unat (mr_lkey mr)" "unat k \<le> unat (mr_rkey mr)" and k': "keys_below k' mr"
    and mr: "region_ok mr" "mr_context_identity mr = pd_context_identity pd"
  shows "regions_ok k' (P(mr_pd_identity mr \<mapsto> (s, indexed_pd m (mr_lkey mr) (mr_rkey mr) pd))) (M(m \<mapsto> (s, mr)))"
    (is "regions_ok k' ?P ?M")
proof (rule regions_okI)
  have neq: "mr_lkey x \<noteq> mr_lkey mr \<and> mr_rkey x \<noteq> mr_rkey mr" if "M i = Some (t, x)" for i t x
    using regions_okD(2) [OF R that] k by (auto simp: keys_below_def)
  have R': "regions_ok k' P M" using R k k' by (auto intro: regions_ok_next_key simp: keys_below_def)
  show "unique_keys ?M" using regions_okD(5) [OF R] neq by (rule unique_keys_add)
  fix i t x assume i: "?M i = Some (t, x)"
  show "region_ok x" "keys_below k' x"
    using i mr(1) k' regions_okD(1,2) [OF R', of i t x] by (auto split: if_splits)
  show "mr_index_ok ?P i t x"
  proof (cases "i = m")
    case True
    then show ?thesis using i mr(2) by (simp add: mr_index_ok_def indexed_pd_def)
  next
    case False
    then have Mi: "M i = Some (t, x)" using i by simp
    show ?thesis
      using regions_okD(3) [OF R Mi] P neq [OF Mi] by (auto simp: mr_index_ok_def indexed_pd_def)
  qed
next
  fix q t pd' assume "?P q = Some (t, pd')"
  then show "pd_index_ok ?M q t pd'"
    using M regions_okD(4) [OF R P] regions_okD(4) [OF R, of q t pd']
    by (cases "q = mr_pd_identity mr") (auto intro: pd_index_ok_add pd_index_ok_other)
qed

lemma regions_ok_del_mr:
  assumes R: "regions_ok k P M" and m: "M m = Some (s, mr)" and P: "P (mr_pd_identity mr) = Some (s, pd)"
  shows "regions_ok k (P(mr_pd_identity mr \<mapsto> (s, unindex_mr m (mr_lkey mr) (mr_rkey mr) pd))) (M(m := None))"
    (is "regions_ok k ?P ?M")
proof (rule regions_okI)
  have neq: "mr_lkey x \<noteq> mr_lkey mr \<and> mr_rkey x \<noteq> mr_rkey mr" if "M i = Some (t, x)" "i \<noteq> m" for i t x
    using regions_okD(5) [OF R] that m unfolding unique_keys_def by blast
  show "unique_keys ?M" using regions_okD(5) [OF R] by (auto simp: unique_keys_def)
  fix i t x assume "?M i = Some (t, x)"
  then have i: "M i = Some (t, x)" "i \<noteq> m" by (auto split: if_splits)
  show "region_ok x" "keys_below k x" using regions_okD(1,2) [OF R i(1)] .
  show "mr_index_ok ?P i t x"
    using regions_okD(3) [OF R i(1)] neq [OF i] i(2) P by (auto simp: mr_index_ok_def unindex_mr_def)
next
  fix q t pd' assume q: "?P q = Some (t, pd')"
  have ix: "pd_index_ok M (mr_pd_identity mr) s pd" by (rule regions_okD(4) [OF R P])
  have here: "pd_index_ok ?M (mr_pd_identity mr) s (unindex_mr m (mr_lkey mr) (mr_rkey mr) pd)"
    using ix m unfolding pd_index_ok_def unindex_mr_def by (auto split: if_splits) fastforce+
  show "pd_index_ok ?M q t pd'"
  proof (cases "q = mr_pd_identity mr")
    case True
    then show ?thesis using q here by auto
  next
    case False
    then have "pd_index_ok M q t pd'" using q by (auto intro: regions_okD(4) [OF R])
    then show ?thesis using False m unfolding pd_index_ok_def by (auto; fastforce)
  qed
qed

lemma regions_ok_drop:
  assumes R: "regions_ok k P M"
  shows "regions_ok k (drop_owner s P) (drop_owner s M)"
proof (rule regions_okI)
  show "unique_keys (drop_owner s M)" using regions_okD(5) [OF R] unfolding unique_keys_def drop_owner_Some by blast
  fix m t mr assume "drop_owner s M m = Some (t, mr)"
  then have m: "M m = Some (t, mr)" "t \<noteq> s" by simp_all
  show "region_ok mr" "keys_below k mr" using regions_okD(1,2) [OF R m(1)] .
  show "mr_index_ok (drop_owner s P) m t mr"
    using regions_okD(3) [OF R m(1)] m(2) by (simp add: mr_index_ok_def)
next
  fix p t pd assume "drop_owner s P p = Some (t, pd)"
  then have p: "P p = Some (t, pd)" "t \<noteq> s" by simp_all
  then show "pd_index_ok (drop_owner s M) p t pd"
    using regions_okD(4) [OF R p(1)] by (simp add: pd_index_ok_def)
qed

section \<open>Open mappings\<close>

lemma held_append [simp]: "held (calls @ [c]) = held_step (held calls) c"
  by (simp add: held_def)

lemma closes_succeed_append [simp]:
  "closes_succeed (calls @ [OpenCall memory r]) = closes_succeed calls"
  "closes_succeed (calls @ [CloseCall mapping status]) \<longleftrightarrow> closes_succeed calls \<and> status = OK"
  by (simp_all add: closes_succeed_def)

lemma mappings_ok_open_fail: "mappings_ok calls M \<Longrightarrow> mappings_ok (calls @ [OpenCall memory (Inl e)]) M"
  by (simp add: mappings_ok_def held_step_def)

lemma mappings_ok_give_back:
  assumes "mappings_ok calls M"
  shows "mappings_ok (calls @ [OpenCall memory (Inr mapping)] @ [CloseCall mapping status]) M"
proof -
  have "calls @ [OpenCall memory (Inr mapping)] @ [CloseCall mapping status] =
      (calls @ [OpenCall memory (Inr mapping)]) @ [CloseCall mapping status]" by simp
  moreover have "mappings_ok ((calls @ [OpenCall memory (Inr mapping)]) @ [CloseCall mapping status]) M"
    using assms unfolding mappings_ok_def held_append closes_succeed_append
    by (auto simp: held_step_def intro: subset_mset.order_trans)
  ultimately show ?thesis by simp
qed

lemma mappings_ok_new_mr:
  assumes "mappings_ok calls M" "finite (dom M)" "M m = None"
  shows "mappings_ok (calls @ [OpenCall memory (Inr (mr_mapping mr))]) (M(m \<mapsto> (s, mr)))"
  using assms by (simp add: mappings_ok_def held_step_def collect_ins)

lemma mappings_ok_close_fail:
  "mappings_ok calls M \<Longrightarrow> status \<noteq> OK \<Longrightarrow> mappings_ok (calls @ [CloseCall mapping status]) M"
  by (simp add: mappings_ok_def held_step_def)

lemma mappings_ok_del_mr:
  assumes "mappings_ok calls M" "finite (dom M)" "M m = Some (s, mr)"
  shows "mappings_ok (calls @ [CloseCall (mr_mapping mr) status]) (M(m := None))"
  using assms collect_del [OF assms(2,3), of mr_mapping]
  by (auto simp: mappings_ok_def held_step_def insert_subset_eq_iff intro: subset_mset.order_trans)

lemma mappings_ok_del_list:
  assumes "mappings_ok calls M" "finite (dom M)" "distinct (map fst xs)"
    "\<And>i r. (i, r) \<in> set xs \<Longrightarrow> \<exists>s. M i = Some (s, r)"
  shows "mappings_ok (calls @ map (\<lambda>x. CloseCall (mr_mapping (snd x)) (f (mr_mapping (snd x)))) xs)
           (\<lambda>i. if i \<in> fst ` set xs then None else M i)"
  using assms
proof (induction xs arbitrary: calls M)
  case (Cons x xs)
  let ?M = "M(fst x := None)" and ?calls = "calls @ [CloseCall (mr_mapping (snd x)) (f (mr_mapping (snd x)))]"
  obtain s where x: "M (fst x) = Some (s, snd x)" using Cons.prems(4) [of "fst x" "snd x"] by auto
  have rest: "\<exists>s. ?M i = Some (s, r)" if "(i, r) \<in> set xs" for i r
    using Cons.prems(3) Cons.prems(4) [of i r] that by (force simp: image_iff)
  have "mappings_ok (?calls @ map (\<lambda>x. CloseCall (mr_mapping (snd x)) (f (mr_mapping (snd x)))) xs)
      (\<lambda>i. if i \<in> fst ` set xs then None else ?M i)"
    by (rule Cons.IH [OF mappings_ok_del_mr [OF Cons.prems(1,2) x]]) (use Cons.prems(2,3) rest in auto)
  moreover have "(\<lambda>i. if i \<in> fst ` set xs then None else ?M i) = (\<lambda>i. if i \<in> fst ` set (x # xs) then None else M i)"
    by auto
  ultimately show ?case by simp
qed simp

section \<open>What a request may change\<close>

text \<open>A request of session \<open>sid\<close> leaves the objects of the others alone; an object that others refer to
  keeps its owner, its count and what the referring objects see of it.\<close>

definition foreign_same :: "u64 \<Rightarrow> (u64 \<rightharpoonup> u64 \<times> 'r) \<Rightarrow> (u64 \<rightharpoonup> u64 \<times> 'r) \<Rightarrow> bool" where
  "foreign_same sid m m' \<longleftrightarrow> (\<forall>i t r. t \<noteq> sid \<longrightarrow> (m' i = Some (t, r) \<longleftrightarrow> m i = Some (t, r)))"

abbreviation pd_refs :: "(u64 \<rightharpoonup> u64 \<times> pd_record) \<Rightarrow> (u64 \<rightharpoonup> u64 \<times> nat \<times> u64)" where
  "pd_refs \<equiv> referenced pd_qp_count pd_context_identity"
abbreviation cq_refs :: "(u64 \<rightharpoonup> u64 \<times> cq_record) \<Rightarrow> (u64 \<rightharpoonup> u64 \<times> nat \<times> u64 \<times> shared_ring)" where
  "cq_refs \<equiv> referenced cq_qp_references (\<lambda>cq. (cq_context_identity cq, cq_completions cq))"

definition control_step :: "u64 \<Rightarrow> 'a pd_mr_cq_service_scheme \<Rightarrow> 'a pd_mr_cq_service_scheme \<Rightarrow> bool" where
  "control_step sid s s' \<longleftrightarrow> control_inv s' \<and>
     foreign_same sid (contexts_of s) (contexts_of s') \<and> foreign_same sid (pds_of s) (pds_of s') \<and>
     foreign_same sid (mrs_of s) (mrs_of s') \<and> foreign_same sid (cqs_of s) (cqs_of s') \<and>
     pd_refs (pds_of s') = pd_refs (pds_of s) \<and> cq_refs (cqs_of s') = cq_refs (cqs_of s) \<and>
     pd_mr_cq_service.more s' = pd_mr_cq_service.more s"

definition same_objects :: "'a pd_mr_cq_service_scheme \<Rightarrow> 'a pd_mr_cq_service_scheme \<Rightarrow> bool" where
  "same_objects s s' \<longleftrightarrow> contexts_of s' = contexts_of s \<and> pds_of s' = pds_of s \<and> mrs_of s' = mrs_of s \<and>
     cqs_of s' = cqs_of s"

text \<open>A handler's outcome: a legal step, and no object changed when an error is reported.\<close>

definition outcome_ok ::
  "u64 \<Rightarrow> 'a pd_mr_cq_service_scheme \<Rightarrow> (control_response \<times> int list) \<times> 'a pd_mr_cq_service_scheme \<Rightarrow> bool" where
  "outcome_ok sid s out \<longleftrightarrow> control_step sid s (snd out) \<and>
     (rp_status (fst (fst out)) \<noteq> OK \<longrightarrow> same_objects s (snd out))"

lemma foreign_same_refl [simp]: "foreign_same sid m m"
  by (simp add: foreign_same_def)

lemma foreign_same_upd:
  assumes "m i = None \<or> (\<exists>r. m i = Some (sid, r))" "x = None \<or> (\<exists>r. x = Some (sid, r))"
  shows "foreign_same sid m (m(i := x))"
  using assms by (auto simp: foreign_same_def)

lemma referenced_upd:
  assumes "referenced cnt see (\<lambda>_. m i) i = referenced cnt see (\<lambda>_. x) i"
  shows "referenced cnt see (m(i := x)) = referenced cnt see m"
  using assms by (auto simp: referenced_def fun_eq_iff)

lemma control_step_same:
  assumes "control_inv s'" "same_objects s s'" "pd_mr_cq_service.more s' = pd_mr_cq_service.more s"
  shows "control_step sid s s'"
  using assms by (simp add: control_step_def same_objects_def)

lemma outcome_ok_same:
  assumes "control_inv s'" "same_objects s s'" "pd_mr_cq_service.more s' = pd_mr_cq_service.more s"
  shows "outcome_ok sid s (r, s')"
  using assms by (simp add: outcome_ok_def control_step_same)

lemma outcome_ok_unchanged [simp]: "control_inv s \<Longrightarrow> outcome_ok sid s (r, s)"
  by (rule outcome_ok_same) (simp_all add: same_objects_def)

lemma outcome_ok_done: "control_step sid s s' \<Longrightarrow> rp_status (fst r) = OK \<Longrightarrow> outcome_ok sid s (r, s')"
  by (simp add: outcome_ok_def)

lemma control_inv_finite:
  assumes "control_inv s"
  shows "finite (dom (contexts_of s))" "finite (dom (pds_of s))" "finite (dom (mrs_of s))" "finite (dom (cqs_of s))"
  using assms ctx_reg.finite_entries pd_reg.finite_entries mr_reg.finite_entries cq_reg.finite_entries
  by (auto simp: control_inv_def tables_ok_def)

lemma control_invD:
  assumes "control_inv s"
  shows "reg_inv (dc_contexts s)" "reg_inv (pm_pds s)" "reg_inv (pm_mrs s)" "reg_inv (pm_cqs s)"
    "pm_next_key s \<noteq> 0" "objects_ok (contexts_of s) (pds_of s) (cqs_of s)"
    "regions_ok (pm_next_key s) (pds_of s) (mrs_of s)" "mappings_ok (pm_memory_backend s) (mrs_of s)"
  using assms by (simp_all add: control_inv_def tables_ok_def)

lemmas table_res = ctx_reg.res_entries pd_reg.res_entries mr_reg.res_entries cq_reg.res_entries

lemma new_response_status [simp]: "rp_status new_response = OK"
  by (simp add: new_response_def)

lemma response_status [simp]:
  "rp_status (fst (response_for rq st)) = st" "rp_status (fst (identity_response rq i)) = OK"
  by (simp_all add: response_for_def identity_response_def)

section \<open>Creating and destroying PDs and CQs\<close>

lemma handle_create_pd_ok:
  assumes inv: "control_inv s"
  shows "outcome_ok sid s (handle_create_pd s sid rq)"
proof -
  let ?ctx = "rq_object_identity (fst rq)"
  let ?pd = "\<lparr>pd_context_identity = ?ctx, pd_mr_identities = {}, pd_local_key_index = Map.empty,
      pd_remote_key_index = Map.empty, pd_qp_count = 0\<rparr>"
  note d = control_invD [OF inv] and f = control_inv_finite [OF inv]
  have full: "outcome_ok sid s (r, s\<lparr>pm_pds := pds\<rparr>)"
    if "reg_insert ot_pd sid ?pd (pm_pds s) = (None, pds)" for r pds
    using that inv d pd_reg.ins_none [OF d(2) that] pd_reg.ins_inv [OF d(2), of sid ?pd]
    by (auto intro!: outcome_ok_same simp: control_inv_def tables_ok_def same_objects_def)
  have created: "outcome_ok sid s (identity_response rq i, add_child ?ctx (s\<lparr>pm_pds := pds\<rparr>))"
    if r: "reg_resolve ot_context sid ?ctx (dc_contexts s) = Some c"
      and i: "reg_insert ot_pd sid ?pd (pm_pds s) = (Some i, pds)" for c i pds
  proof (rule outcome_ok_done)
    have c: "contexts_of s ?ctx = Some (sid, c)" using r d(1) by (simp add: table_res)
    note e = pd_reg.ins_some [OF d(2) i] and u = ctx_reg.upd_ok [OF d(1) c]
    have p: "reg_inv pds" using pd_reg.ins_inv [OF d(2), of sid ?pd] i by simp
    have o: "objects_ok ((contexts_of s)(?ctx \<mapsto> (sid, c\<lparr>ctx_child_count := ctx_child_count c + 1\<rparr>)))
        ((pds_of s)(i \<mapsto> (sid, ?pd))) (cqs_of s)"
      using objects_ok_new_pd [OF d(6) c, of i ?pd] e f(2) by simp
    have R: "regions_ok (pm_next_key s) ((pds_of s)(i \<mapsto> (sid, ?pd))) (mrs_of s)"
      using d(7) e by (intro regions_ok_new_pd) simp_all
    have "pd_refs ((pds_of s)(i \<mapsto> (sid, ?pd))) = pd_refs (pds_of s)"
      using e by (intro referenced_upd) (simp add: referenced_def)
    then show "control_step sid s (add_child ?ctx (s\<lparr>pm_pds := pds\<rparr>))"
      using d e u p o R c
      by (simp add: control_step_def control_inv_def tables_ok_def add_child_def foreign_same_upd)
  qed simp
  show ?thesis using full created
    by (auto simp: handle_create_pd_def Let_def inv split: option.splits prod.splits)
qed

lemma handle_destroy_pd_ok:
  assumes inv: "control_inv s"
  shows "outcome_ok sid s (handle_destroy_pd s sid rq)"
proof -
  let ?i = "rq_object_identity (fst rq)"
  note d = control_invD [OF inv] and f = control_inv_finite [OF inv]
  have destroyed: "outcome_ok sid s (response_for rq status,
      if status = OK then drop_child (pd_context_identity pd) (s\<lparr>pm_pds := pds\<rparr>) else s\<lparr>pm_pds := pds\<rparr>)"
    if r: "reg_resolve ot_pd sid ?i (pm_pds s) = Some pd" "reg_resolve ot_context sid (pd_context_identity pd) (dc_contexts s) = Some c"
      and idle: "pd_mr_identities pd = {}" "pd_qp_count pd = 0"
      and erase: "reg_erase ot_pd sid ?i (pm_pds s) = (status, pds)" for pd c status pds
  proof -
    have pd: "pds_of s ?i = Some (sid, pd)" and c: "contexts_of s (pd_context_identity pd) = Some (sid, c)"
      using r d by (simp_all add: table_res)
    have e: "status = OK" "reg_inv pds" "reg_entries ot_pd pds = (pds_of s)(?i := None)"
      using pd_reg.era_ok [OF d(2) pd] erase by simp_all
    note u = ctx_reg.upd_ok [OF d(1) c]
    have R: "regions_ok (pm_next_key s) ((pds_of s)(?i := None)) (mrs_of s)"
      using d(7) pd idle(1) by (rule regions_ok_del_pd)
    have "pd_refs ((pds_of s)(?i := None)) = pd_refs (pds_of s)"
      using pd idle(2) by (intro referenced_upd) (simp add: referenced_def)
    then have "control_step sid s (drop_child (pd_context_identity pd) (s\<lparr>pm_pds := pds\<rparr>))"
      using d e(2,3) u R objects_ok_del_pd(1) [OF d(6) pd c f(2)] pd c
      by (simp add: control_step_def control_inv_def tables_ok_def drop_child_def foreign_same_upd)
    then show ?thesis using e(1) by (simp add: outcome_ok_def)
  qed
  show ?thesis using destroyed
    by (auto simp: handle_destroy_pd_def Let_def inv split: option.splits prod.splits)
qed

lemma handle_create_cq_ok:
  assumes inv: "control_inv s"
  shows "outcome_ok sid s (handle_create_cq w s sid rq)"
proof -
  let ?ctx = "rq_object_identity (fst rq)" and ?len = "rq_length (fst rq)"
  let ?cq = "\<lambda>ring. \<lparr>cq_context_identity = ?ctx, cq_cqe = ucast ?len, cq_qp_references = 0, cq_completions = ring\<rparr>"
  note d = control_invD [OF inv] and f = control_inv_finite [OF inv]
  have full: "outcome_ok sid s (r, s\<lparr>pm_cqs := cqs\<rparr>)"
    if "reg_insert ot_cq sid (?cq ring) (pm_cqs s) = (None, cqs)" for r cqs ring
    using that inv d cq_reg.ins_none [OF d(4) that] cq_reg.ins_inv [OF d(4), of sid "?cq ring"]
    by (auto intro!: outcome_ok_same simp: control_inv_def tables_ok_def same_objects_def)
  have created: "outcome_ok sid s ((fst (identity_response rq i)\<lparr>rp_opaque := bs, rp_fd_indices := [0]\<rparr>, fds),
      add_child ?ctx (s\<lparr>pm_cqs := cqs\<rparr>))"
    if r: "reg_resolve ot_context sid ?ctx (dc_contexts s) = Some c"
      and i: "reg_insert ot_cq sid (?cq ring) (pm_cqs s) = (Some i, cqs)" for c i cqs ring bs fds
  proof (rule outcome_ok_done)
    have c: "contexts_of s ?ctx = Some (sid, c)" using r d(1) by (simp add: table_res)
    note e = cq_reg.ins_some [OF d(4) i] and u = ctx_reg.upd_ok [OF d(1) c]
    have q: "reg_inv cqs" using cq_reg.ins_inv [OF d(4), of sid "?cq ring"] i by simp
    have o: "objects_ok ((contexts_of s)(?ctx \<mapsto> (sid, c\<lparr>ctx_child_count := ctx_child_count c + 1\<rparr>)))
        (pds_of s) ((cqs_of s)(i \<mapsto> (sid, ?cq ring)))"
      using objects_ok_new_cq [OF d(6) c, of i "?cq ring"] e f(4) by simp
    have "cq_refs ((cqs_of s)(i \<mapsto> (sid, ?cq ring))) = cq_refs (cqs_of s)"
      using e by (intro referenced_upd) (simp add: referenced_def)
    then show "control_step sid s (add_child ?ctx (s\<lparr>pm_cqs := cqs\<rparr>))"
      using d e u q o c
      by (simp add: control_step_def control_inv_def tables_ok_def add_child_def foreign_same_upd)
  qed simp
  show ?thesis using full created
    by (auto simp: handle_create_cq_def Let_def inv split: option.splits prod.splits sum.splits)
qed

lemma handle_destroy_cq_ok:
  assumes inv: "control_inv s"
  shows "outcome_ok sid s (handle_destroy_cq s sid rq)"
proof -
  let ?i = "rq_object_identity (fst rq)"
  note d = control_invD [OF inv] and f = control_inv_finite [OF inv]
  have destroyed: "outcome_ok sid s (response_for rq status,
      if status = OK then drop_child (cq_context_identity cq) (s\<lparr>pm_cqs := cqs\<rparr>) else s\<lparr>pm_cqs := cqs\<rparr>)"
    if r: "reg_resolve ot_cq sid ?i (pm_cqs s) = Some cq" "reg_resolve ot_context sid (cq_context_identity cq) (dc_contexts s) = Some c"
      and idle: "cq_qp_references cq = 0"
      and erase: "reg_erase ot_cq sid ?i (pm_cqs s) = (status, cqs)" for cq c status cqs
  proof -
    have cq: "cqs_of s ?i = Some (sid, cq)" and c: "contexts_of s (cq_context_identity cq) = Some (sid, c)"
      using r d by (simp_all add: table_res)
    have e: "status = OK" "reg_inv cqs" "reg_entries ot_cq cqs = (cqs_of s)(?i := None)"
      using cq_reg.era_ok [OF d(4) cq] erase by simp_all
    note u = ctx_reg.upd_ok [OF d(1) c]
    have "cq_refs ((cqs_of s)(?i := None)) = cq_refs (cqs_of s)"
      using cq idle by (intro referenced_upd) (simp add: referenced_def)
    then have "control_step sid s (drop_child (cq_context_identity cq) (s\<lparr>pm_cqs := cqs\<rparr>))"
      using d e(2,3) u objects_ok_del_cq(1) [OF d(6) cq c f(4)] cq c
      by (simp add: control_step_def control_inv_def tables_ok_def drop_child_def foreign_same_upd)
    then show ?thesis using e(1) by (simp add: outcome_ok_def)
  qed
  show ?thesis using destroyed
    by (auto simp: handle_destroy_cq_def Let_def inv split: option.splits prod.splits)
qed

section \<open>Creating and destroying contexts\<close>

lemma device_context_handle_ok:
  assumes inv: "control_inv s"
  shows "outcome_ok sid s (device_context_handle s sid rq)"
proof -
  let ?i = "rq_object_identity (fst rq)"
  let ?c = "\<lparr>ctx_device_identity = ?i, ctx_child_count = 0\<rparr>"
  note d = control_invD [OF inv] and f = control_inv_finite [OF inv]
  have full: "outcome_ok sid s (r, s\<lparr>dc_contexts := contexts\<rparr>)"
    if "reg_insert ot_context sid ?c (dc_contexts s) = (None, contexts)" for r contexts
    using that inv d ctx_reg.ins_none [OF d(1) that] ctx_reg.ins_inv [OF d(1), of sid ?c]
    by (auto intro!: outcome_ok_same simp: control_inv_def tables_ok_def same_objects_def)
  have created: "outcome_ok sid s (r, s\<lparr>dc_contexts := contexts\<rparr>)"
    if "reg_insert ot_context sid ?c (dc_contexts s) = (Some i, contexts)" "rp_status (fst r) = OK" for r i contexts
  proof (rule outcome_ok_done)
    note e = ctx_reg.ins_some [OF d(1) that(1)]
    have "reg_inv contexts" using ctx_reg.ins_inv [OF d(1), of sid ?c] that(1) by simp
    then show "control_step sid s (s\<lparr>dc_contexts := contexts\<rparr>)"
      using d e f objects_ok_new_context [OF d(6), of i ?c sid]
      by (simp add: control_step_def control_inv_def tables_ok_def foreign_same_upd)
  qed (rule that(2))
  have destroyed: "outcome_ok sid s ((r\<lparr>rp_status := status\<rparr>, fds), s\<lparr>dc_contexts := contexts\<rparr>)"
    if r: "reg_resolve ot_context sid ?i (dc_contexts s) = Some c" "ctx_child_count c = 0"
      and erase: "reg_erase ot_context sid ?i (dc_contexts s) = (status, contexts)" for c r fds status contexts
  proof (rule outcome_ok_done)
    have c: "contexts_of s ?i = Some (sid, c)" using r d by (simp add: table_res)
    have e: "status = OK" "reg_inv contexts" "reg_entries ot_context contexts = (contexts_of s)(?i := None)"
      using ctx_reg.era_ok [OF d(1) c] erase by simp_all
    show "control_step sid s (s\<lparr>dc_contexts := contexts\<rparr>)"
      using d e(2,3) f c objects_ok_del_context [OF d(6) c r(2) f(2,4)]
      by (simp add: control_step_def control_inv_def tables_ok_def foreign_same_upd)
    show "rp_status (fst (r\<lparr>rp_status := status\<rparr>, fds)) = OK" using e(1) by simp
  qed
  show ?thesis using full created destroyed
    by (auto simp: device_context_handle_def Let_def inv split: option.splits prod.splits sum.splits)
qed

section \<open>Registering and deregistering memory\<close>

lemma allocate_keys_spec:
  assumes "allocate_keys k = (Some (l, r), k')"
  shows "unat l = unat k" "unat r = unat k + 1" "unat k' = unat k + 2" "k \<noteq> 0" "l \<noteq> 0" "r \<noteq> 0" "k' \<noteq> 0"
proof -
  have k: "k \<noteq> 0" "\<not> k > 0xfffffffe" and lrk: "l = ucast k" "r = ucast (k + 1)" "k' = k + 2"
    using assms by (auto simp: allocate_keys_def split: if_splits)
  have b: "unat k \<le> 0xfffffffe" "0 < unat k" using k by (simp_all add: word_less_nat_alt not_less unat_gt_0)
  have s: "unat (k + 1) = unat k + 1" "unat (k + 2) = unat k + 2"
    using b unat_add_u64 [of k 1] unat_add_u64 [of k 2] by simp_all
  show ul: "unat l = unat k" "unat r = unat k + 1" "unat k' = unat k + 2"
    using b s by (simp_all add: lrk unsigned_ucast_eq take_bit_nat_eq_self)
  show "k \<noteq> 0" by (rule k)
  show "l \<noteq> 0" "r \<noteq> 0" "k' \<noteq> 0" using ul b by (auto simp: unat_gt_0 [symmetric] simp del: unat_gt_0)
qed

lemma index_mr_fresh:
  assumes "identity \<notin> pd_mr_identities pd" "pd_local_key_index pd l = None" "pd_remote_key_index pd r = None"
  shows "fst (index_mr n identity l r pd) \<Longrightarrow> snd (index_mr n identity l r pd) = indexed_pd identity l r pd"
    and "unindex_mr identity l r (snd (index_mr n identity l r pd)) = pd"
  using assms by (auto simp: index_mr_def Let_def indexed_pd_def unindex_mr_def fun_upd_idem split: if_splits)

lemma decoded_memory_valid: "decode_mr_registration bs len = Inr m \<Longrightarrow> valid_memory m"
  by (auto simp: decode_mr_registration_def Let_def split: if_splits option.splits)

lemma new_mr_region_ok:
  assumes "valid_memory memory" "im_daemon_base_address mapping \<noteq> 0" "im_gpu_uuid mapping = em_gpu_uuid memory"
    "\<not> im_daemon_base_address mapping > - 1 - em_allocation_offset memory" "valid_access access"
  shows "region_ok (new_mr pd p access memory mapping l r)"
proof -
  have v: "unat (em_allocation_offset memory) \<le> unat (em_allocation_size memory)"
    "unat (em_length memory) \<le> unat (em_allocation_size memory - em_allocation_offset memory)" "em_length memory \<noteq> 0"
    using assms(1) by (auto simp: valid_memory_def word_less_nat_alt not_less)
  have "unat (em_allocation_size memory - em_allocation_offset memory) =
      unat (em_allocation_size memory) - unat (em_allocation_offset memory)"
    using v(1) by (simp add: unat_sub word_le_nat_alt)
  moreover have "unat (im_daemon_base_address mapping + em_allocation_offset memory) =
      unat (im_daemon_base_address mapping) + unat (em_allocation_offset memory)"
    using assms(4) unat_u64_bound [of "em_allocation_offset memory"]
    by (intro unat_add_u64) (simp add: word_less_nat_alt unat_max_minus)
  ultimately show ?thesis using assms v by (simp add: region_ok_def new_mr_def)
qed

text \<open>A region that was opened and given back again: nothing but the backend and the key counter has
  changed.\<close>

lemma given_back_ok:
  assumes inv: "control_inv s" and t: "tables_ok s'" "same_objects s s'"
    and k: "unat (pm_next_key s) \<le> unat (pm_next_key s')"
    and b: "mappings_ok (pm_memory_backend s') (mrs_of s)"
    and m: "pd_mr_cq_service.more s' = pd_mr_cq_service.more s"
  shows "outcome_ok sid s (r, s')"
proof (rule outcome_ok_same)
  have "pm_next_key s' \<noteq> 0" using k control_invD(5) [OF inv] by (auto simp: unat_gt_0 [symmetric] simp del: unat_gt_0)
  then show "control_inv s'"
    using t b control_invD(6) [OF inv] regions_ok_next_key [OF control_invD(7) [OF inv] k]
    by (simp add: control_inv_def same_objects_def)
qed (use t m in simp_all)

lemma register_mapped_mr_ok:
  assumes inv: "control_inv s" and pd: "pds_of s (rq_object_identity (fst rq)) = Some (sid, pd)"
    and region: "\<And>l r. region_ok (new_mr pd (rq_object_identity (fst rq)) (rq_access (fst rq)) memory mapping l r)"
    and s1: "s1 = s\<lparr>pm_memory_backend := pm_memory_backend s @ [OpenCall memory (Inr mapping)]\<rparr>"
  shows "outcome_ok sid s (register_mapped_mr w pd memory mapping s1 sid rq)"
proof -
  let ?p = "rq_object_identity (fst rq)"
  note d = control_invD [OF inv] and f = control_inv_finite [OF inv]
  have gave: "mappings_ok (pm_memory_backend s @ [OpenCall memory (Inr mapping), CloseCall mapping st]) (mrs_of s)" for st
    using mappings_ok_give_back [OF d(8)] by simp
  have noroom: "outcome_ok sid s (r, snd (backend_close w mapping s1))" for r
    using gave d by (intro given_back_ok [OF inv]) (simp_all add: s1 backend_close_def tables_ok_def same_objects_def)
  have keyed: "outcome_ok sid s (r, snd (backend_close w mapping (s1\<lparr>pm_next_key := k'\<rparr>)))"
    if "allocate_keys (pm_next_key s) = (Some (l, rk), k')" for r l rk k'
    using gave d allocate_keys_spec(3) [OF that]
    by (intro given_back_ok [OF inv]) (simp_all add: s1 backend_close_def tables_ok_def same_objects_def)
  have full: "outcome_ok sid s (r, snd (backend_close w mapping (s1\<lparr>pm_next_key := k', pm_mrs := mrs\<rparr>)))"
    if "allocate_keys (pm_next_key s) = (Some (l, rk), k')" "reg_insert ot_mr sid mr (pm_mrs s) = (None, mrs)" for r l rk k' mr mrs
    using gave d allocate_keys_spec(3) [OF that(1)] mr_reg.ins_none [OF d(3) that(2)] mr_reg.ins_inv [OF d(3), of sid mr] that(2)
    by (intro given_back_ok [OF inv]) (simp_all add: s1 backend_close_def tables_ok_def same_objects_def)
  have undone: "outcome_ok sid s (r, snd (backend_close w mapping
        (s1\<lparr>pm_next_key := k', pm_mrs := mrs\<rparr>
           \<lparr>pm_pds := reg_update ?p (\<lambda>_. unindex_mr i l rk pd') (pm_pds s), pm_mrs := snd (reg_erase ot_mr sid i mrs)\<rparr>)))"
    if k: "allocate_keys (pm_next_key s) = (Some (l, rk), k')" and i: "reg_insert ot_mr sid mr (pm_mrs s) = (Some i, mrs)"
      and x: "index_mr n i l rk pd = (added, pd')" for r l rk k' mr mrs i n added pd'
  proof -
    note e = mr_reg.ins_some [OF d(3) i] and K = allocate_keys_spec [OF k]
    have "unindex_mr i l rk pd' = pd"
      using index_mr_fresh(2) [of i pd l rk n] fresh_keys [OF d(7) pd, of l rk i] e K x by simp
    then have P: "reg_inv (reg_update ?p (\<lambda>_. unindex_mr i l rk pd') (pm_pds s))"
        "reg_entries ot_pd (reg_update ?p (\<lambda>_. unindex_mr i l rk pd') (pm_pds s)) = pds_of s"
      using pd_reg.upd_ok [OF d(2) pd, of "\<lambda>_. pd"] pd by (simp_all add: fun_upd_idem)
    have m: "reg_inv mrs" using mr_reg.ins_inv [OF d(3), of sid mr] i by simp
    have "reg_entries ot_mr mrs i = Some (sid, mr)" using e by simp
    from mr_reg.era_ok [OF m this] have M: "reg_inv (snd (reg_erase ot_mr sid i mrs))"
        "reg_entries ot_mr (snd (reg_erase ot_mr sid i mrs)) = mrs_of s"
      using e by (simp_all add: fun_upd_idem)
    show ?thesis
      using gave d P M K(3)
      by (intro given_back_ok [OF inv]) (simp_all add: s1 backend_close_def tables_ok_def same_objects_def)
  qed
  have created: "outcome_ok sid s ((fst (identity_response rq i)\<lparr>rp_opaque := bs\<rparr>, []),
      s1\<lparr>pm_next_key := k', pm_mrs := mrs, pm_pds := reg_update ?p (\<lambda>_. pd') (pm_pds s)\<rparr>)"
    if k: "allocate_keys (pm_next_key s) = (Some (l, rk), k')"
      and i: "reg_insert ot_mr sid (new_mr pd ?p (rq_access (fst rq)) memory mapping l rk) (pm_mrs s) = (Some i, mrs)"
      and x: "index_mr n i l rk pd = (True, pd')" for l rk k' mrs i n pd' bs
  proof (rule outcome_ok_done)
    let ?mr = "new_mr pd ?p (rq_access (fst rq)) memory mapping l rk"
    note e = mr_reg.ins_some [OF d(3) i] and K = allocate_keys_spec [OF k]
    have pd': "pd' = indexed_pd i l rk pd"
      using index_mr_fresh(1) [of i pd l rk n] fresh_keys [OF d(7) pd, of l rk i] e K x by simp
    note u = pd_reg.upd_ok [OF d(2) pd, of "\<lambda>_. pd'"]
    have m: "reg_inv mrs" using mr_reg.ins_inv [OF d(3), of sid ?mr] i by simp
    have sel: "mr_lkey ?mr = l" "mr_rkey ?mr = rk" "mr_pd_identity ?mr = ?p" "mr_context_identity ?mr = pd_context_identity pd"
        "mr_mapping ?mr = mapping" by (simp_all add: new_mr_def)
    have R: "regions_ok k' ((pds_of s)(?p \<mapsto> (sid, pd'))) ((mrs_of s)(i \<mapsto> (sid, ?mr)))"
      using regions_ok_new_mr [OF d(7), of ?mr sid pd i k'] pd e K region [of l rk] by (simp add: sel pd' keys_below_def)
    have B: "mappings_ok (pm_memory_backend s @ [OpenCall memory (Inr mapping)]) ((mrs_of s)(i \<mapsto> (sid, ?mr)))"
      using mappings_ok_new_mr [OF d(8) f(3), of i memory ?mr sid] e by (simp add: sel)
    have O: "objects_ok (contexts_of s) ((pds_of s)(?p \<mapsto> (sid, pd'))) (cqs_of s)"
      using objects_ok_upd_pd [OF d(6) pd] by (simp add: pd' indexed_pd_def)
    have "pd_refs ((pds_of s)(?p \<mapsto> (sid, pd'))) = pd_refs (pds_of s)"
      using pd by (intro referenced_upd) (simp add: referenced_def pd' indexed_pd_def)
    then show "control_step sid s (s1\<lparr>pm_next_key := k', pm_mrs := mrs, pm_pds := reg_update ?p (\<lambda>_. pd') (pm_pds s)\<rparr>)"
      using d e u m R B O K(7) pd
      by (simp add: control_step_def control_inv_def tables_ok_def s1 foreign_same_upd)
  qed simp
  show ?thesis
    using noroom keyed full undone created
    by (auto simp: register_mapped_mr_def s1 Let_def split: option.splits prod.splits sum.splits)
qed

lemma handle_register_mr_ok:
  assumes inv: "control_inv s"
  shows "outcome_ok sid s (handle_register_mr w s sid rq)"
proof -
  let ?p = "rq_object_identity (fst rq)"
  note d = control_invD [OF inv]
  have refused: "outcome_ok sid s (r, s\<lparr>pm_memory_backend := pm_memory_backend s @ [OpenCall memory (Inl e)]\<rparr>)" for r memory e
    using d mappings_ok_open_fail [OF d(8), of memory e]
    by (intro given_back_ok [OF inv]) (simp_all add: tables_ok_def same_objects_def)
  have rejected: "outcome_ok sid s (r, snd (backend_close w mapping
      (s\<lparr>pm_memory_backend := pm_memory_backend s @ [OpenCall memory (Inr mapping)]\<rparr>)))" for r memory mapping
    using d mappings_ok_give_back [OF d(8), of memory mapping]
    by (intro given_back_ok [OF inv]) (simp_all add: tables_ok_def same_objects_def backend_close_def)
  have mapped: "outcome_ok sid s (register_mapped_mr w pd memory mapping
      (s\<lparr>pm_memory_backend := pm_memory_backend s @ [OpenCall memory (Inr mapping)]\<rparr>) sid rq)"
    if "reg_resolve ot_pd sid ?p (pm_pds s) = Some pd" "decode_mr_registration (rq_opaque (fst rq)) (rq_length (fst rq)) = Inr memory"
      "im_daemon_base_address mapping \<noteq> 0" "im_gpu_uuid mapping = em_gpu_uuid memory"
      "\<not> im_daemon_base_address mapping > - 1 - em_allocation_offset memory" "valid_access (rq_access (fst rq))" for pd memory mapping
    using that d(2) decoded_memory_valid [OF that(2)]
    by (intro register_mapped_mr_ok [OF inv _ new_mr_region_ok]) (simp_all add: table_res)
  show ?thesis
    using refused rejected mapped
    by (auto simp: handle_register_mr_def inv Let_def split: option.splits sum.splits)
qed

lemma handle_deregister_mr_ok:
  assumes inv: "control_inv s"
  shows "outcome_ok sid s (handle_deregister_mr w s sid rq)"
proof -
  let ?i = "rq_object_identity (fst rq)"
  note d = control_invD [OF inv] and f = control_inv_finite [OF inv]
  have live: "outcome_ok sid s (handle_deregister_mr w s sid rq)"
    if mr: "mrs_of s ?i = Some (sid, mr)" and g: "empty_shape rq" "mr_work_request_references mr = 0" for mr
  proof (cases "cw_close w (mr_mapping mr) = OK")
    case False
    then show ?thesis
      using d mr g mappings_ok_close_fail [OF d(8) False, of "mr_mapping mr"]
      by (auto simp: handle_deregister_mr_def Let_def table_res [THEN iffD2] backend_close_def tables_ok_def same_objects_def
          intro!: given_back_ok [OF inv])
  next
    case True
    let ?x = "unindex_mr ?i (mr_lkey mr) (mr_rkey mr)"
    obtain pd where pd: "pds_of s (mr_pd_identity mr) = Some (sid, pd)"
      using regions_okD(3) [OF d(7) mr] by (auto simp: mr_index_ok_def)
    have e: "fst (reg_erase ot_mr sid ?i (pm_mrs s)) = OK" "reg_inv (snd (reg_erase ot_mr sid ?i (pm_mrs s)))"
        "reg_entries ot_mr (snd (reg_erase ot_mr sid ?i (pm_mrs s))) = (mrs_of s)(?i := None)"
      using mr_reg.era_ok [OF d(3) mr] by simp_all
    note u = pd_reg.upd_ok [OF d(2) pd, of ?x]
    let ?s = "s\<lparr>pm_memory_backend := pm_memory_backend s @ [CloseCall (mr_mapping mr) OK],
        pm_pds := reg_update (mr_pd_identity mr) ?x (pm_pds s), pm_mrs := snd (reg_erase ot_mr sid ?i (pm_mrs s))\<rparr>"
    have res: "reg_resolve ot_mr sid ?i (pm_mrs s) = Some mr" "reg_resolve ot_pd sid (mr_pd_identity mr) (pm_pds s) = Some pd"
      using mr pd d by (simp_all add: table_res)
    have h: "handle_deregister_mr w s sid rq = (response_for rq OK, ?s)"
      using g res e(1) True by (auto simp: handle_deregister_mr_def Let_def backend_close_def split: prod.splits)
    have O: "objects_ok (contexts_of s) ((pds_of s)(mr_pd_identity mr \<mapsto> (sid, ?x pd))) (cqs_of s)"
      using objects_ok_upd_pd [OF d(6) pd] by (simp add: unindex_mr_def)
    have "pd_refs ((pds_of s)(mr_pd_identity mr \<mapsto> (sid, ?x pd))) = pd_refs (pds_of s)"
      using pd by (intro referenced_upd) (simp add: referenced_def unindex_mr_def)
    then have "control_step sid s ?s"
      using d e u O regions_ok_del_mr [OF d(7) mr pd] mappings_ok_del_mr [OF d(8) f(3) mr] pd mr
      by (simp add: control_step_def control_inv_def tables_ok_def foreign_same_upd)
    then show ?thesis by (simp add: h outcome_ok_done)
  qed
  show ?thesis
  proof (cases "reg_resolve ot_mr sid ?i (pm_mrs s)")
    case None
    then show ?thesis using inv by (simp add: handle_deregister_mr_def Let_def)
  next
    case (Some mr)
    then have "mrs_of s ?i = Some (sid, mr)" using d(3) by (simp add: table_res)
    then show ?thesis
      using live Some inv by (cases "empty_shape rq \<and> mr_work_request_references mr = 0")
        (auto simp: handle_deregister_mr_def [of w s sid rq] Let_def)
  qed
qed

section \<open>Every request, and a disconnect\<close>

lemma pd_mr_cq_handle_ok: "control_inv s \<Longrightarrow> outcome_ok sid s (pd_mr_cq_handle w s sid rq)"
  by (simp add: pd_mr_cq_handle_def Let_def handle_create_pd_ok handle_destroy_pd_ok handle_register_mr_ok
      handle_deregister_mr_ok handle_create_cq_ok handle_destroy_cq_ok device_context_handle_ok)

lemma drop_owner_session:
  "(\<lambda>i. case m i of None \<Rightarrow> None | Some (s', r) \<Rightarrow> if s' = s then None else Some (s', r)) = drop_owner s m"
  by (simp add: drop_owner_def)

lemmas session_dropped = ctx_reg.session_entries pd_reg.session_entries mr_reg.session_entries
  cq_reg.session_entries qp_reg.session_entries

lemma fold_close:
  "fold (\<lambda>(_, mr). snd \<circ> backend_close w (mr_mapping mr)) xs s =
   s\<lparr>pm_memory_backend := pm_memory_backend s @
       map (\<lambda>x. CloseCall (mr_mapping (snd x)) (cw_close w (mr_mapping (snd x)))) xs\<rparr>"
  by (induction xs arbitrary: s) (auto simp: backend_close_def)

lemma pd_mr_cq_on_disconnect_tables:
  assumes inv: "control_inv s"
  shows "contexts_of (pd_mr_cq_on_disconnect w sid s) = drop_owner sid (contexts_of s)"
    "pds_of (pd_mr_cq_on_disconnect w sid s) = drop_owner sid (pds_of s)"
    "mrs_of (pd_mr_cq_on_disconnect w sid s) = drop_owner sid (mrs_of s)"
    "cqs_of (pd_mr_cq_on_disconnect w sid s) = drop_owner sid (cqs_of s)"
    "pd_mr_cq_service.more (pd_mr_cq_on_disconnect w sid s) = pd_mr_cq_service.more s"
  using control_invD [OF inv]
  by (simp_all add: pd_mr_cq_on_disconnect_def device_context_on_disconnect_def fold_close Let_def
      session_dropped drop_owner_session)

lemma pd_mr_cq_on_disconnect_inv:
  assumes inv: "control_inv s"
  shows "control_inv (pd_mr_cq_on_disconnect w sid s)"
proof -
  note d = control_invD [OF inv] and f = control_inv_finite [OF inv] and t = pd_mr_cq_on_disconnect_tables [OF inv]
  let ?l = "reg_for_each_session ot_mr sid (pm_mrs s)"
  have l: "\<And>i r. (i, r) \<in> set ?l \<Longrightarrow> \<exists>t. mrs_of s i = Some (t, r)"
    using mr_each.each_entries [OF d(3)] by blast
  have "(\<lambda>i. if i \<in> fst ` set ?l then None else mrs_of s i) = drop_owner sid (mrs_of s)"
    using mr_each.each_is_erased [OF d(3), of sid] mr_reg.session_entries [OF d(3), of sid]
    by (simp add: drop_owner_session)
  then have B: "mappings_ok (pm_memory_backend s @ map (\<lambda>x. CloseCall (mr_mapping (snd x)) (cw_close w (mr_mapping (snd x)))) ?l)
      (drop_owner sid (mrs_of s))"
    using mappings_ok_del_list [OF d(8) f(3) mr_each.each_distinct [OF d(3), of sid] l, where f = "cw_close w"] by simp
  have "pm_memory_backend (pd_mr_cq_on_disconnect w sid s) =
      pm_memory_backend s @ map (\<lambda>x. CloseCall (mr_mapping (snd x)) (cw_close w (mr_mapping (snd x)))) ?l"
      "pm_next_key (pd_mr_cq_on_disconnect w sid s) = pm_next_key s" "tables_ok (pd_mr_cq_on_disconnect w sid s)"
    using d by (simp_all add: pd_mr_cq_on_disconnect_def device_context_on_disconnect_def fold_close Let_def tables_ok_def
        ctx_reg.session_inv pd_reg.session_inv mr_reg.session_inv cq_reg.session_inv)
  then show ?thesis
    using t d B objects_ok_drop [OF d(6), of sid] regions_ok_drop [OF d(7), of sid] by (simp add: control_inv_def)
qed

section \<open>Where a key leads\<close>

text \<open>An address range that \<open>resolve_key\<close> translates, in terms of the tables.\<close>

definition key_grants ::
  "bool \<Rightarrow> u64 \<Rightarrow> u64 \<Rightarrow> u32 \<Rightarrow> u64 \<Rightarrow> u64 \<Rightarrow> 'a pd_mr_cq_service_scheme \<Rightarrow> mr_record \<Rightarrow> bool" where
  "key_grants remote sid p key address len s mr \<longleftrightarrow>
     (\<exists>m. mrs_of s m = Some (sid, mr)) \<and> mr_pd_identity mr = p \<and> (if remote then mr_rkey mr else mr_lkey mr) = key \<and>
     (remote \<longrightarrow> mr_access mr AND kAccessRemoteWrite \<noteq> 0) \<and>
     unat (mr_client_address mr) \<le> unat address \<and>
     unat address + unat len \<le> unat (mr_client_address mr) + unat (mr_length mr)"

lemma resolve_key_sound:
  assumes inv: "control_inv s" and r: "resolve_key sid p key address len remote s = Inr d"
  shows "\<exists>mr. key_grants remote sid p key address len s mr \<and> 0 < unat len \<and> region_ok mr \<and>
     unat d = unat (mr_daemon_address mr) + (unat address - unat (mr_client_address mr))"
proof -
  note dd = control_invD [OF inv]
  obtain pd m mr where pd: "pds_of s p = Some (sid, pd)"
      and m: "(if remote then pd_remote_key_index pd else pd_local_key_index pd) key = Some m"
      and mr: "mrs_of s m = Some (sid, mr)" "mr_pd_identity mr = p" "remote \<longrightarrow> mr_access mr AND kAccessRemoteWrite \<noteq> 0"
      and rng: "\<not> (address < mr_client_address mr \<or> address > - 1 - len \<or> mr_client_address mr > - 1 - mr_length mr \<or>
          address + len > mr_client_address mr + mr_length mr)"
      and off: "\<not> mr_daemon_address mr > - 1 - (address - mr_client_address mr)"
      and d: "d = mr_daemon_address mr + (address - mr_client_address mr)" and len: "len \<noteq> 0"
    using r dd(2,3)
    by (simp add: resolve_key_def Let_def table_res split: if_split_asm option.split_asm)
  note w = rng [unfolded within_region]
  have o: "unat (address - mr_client_address mr) = unat address - unat (mr_client_address mr)"
    using w by (simp add: unat_sub word_le_nat_alt)
  have "unat d = unat (mr_daemon_address mr) + unat (address - mr_client_address mr)"
    using off unat_u64_bound [of "address - mr_client_address mr"] unfolding d
    by (intro unat_add_u64) (simp add: word_less_nat_alt unat_max_minus)
  moreover have "(if remote then mr_rkey mr else mr_lkey mr) = key"
    using regions_okD(4) [OF dd(7) pd] m mr(1) by (fastforce simp: pd_index_ok_def split: if_splits)
  ultimately show ?thesis
    using mr w len o regions_okD(1) [OF dd(7) mr(1)] by (auto simp: key_grants_def unat_gt_0)
qed

lemma resolve_key_complete:
  assumes inv: "control_inv s" and g: "key_grants remote sid p key address len s mr"
    and z: "key \<noteq> 0" "len \<noteq> 0" "unat (mr_client_address mr) + unat (mr_length mr) < 2 ^ 64"
    and o: "unat (mr_daemon_address mr) + unat (mr_length mr) \<le> 2 ^ 64"
  shows "resolve_key sid p key address len remote s = Inr (mr_daemon_address mr + (address - mr_client_address mr))"
proof -
  note dd = control_invD [OF inv]
  obtain m where m: "mrs_of s m = Some (sid, mr)" using g by (auto simp: key_grants_def)
  obtain pd where pd: "pds_of s p = Some (sid, pd)" "pd_local_key_index pd (mr_lkey mr) = Some m"
      "pd_remote_key_index pd (mr_rkey mr) = Some m"
    using regions_okD(3) [OF dd(7) m] g by (auto simp: mr_index_ok_def key_grants_def)
  have res: "reg_resolve ot_pd sid p (pm_pds s) = Some pd" "reg_resolve ot_mr sid m (pm_mrs s) = Some mr"
    using pd(1) m dd by (simp_all add: table_res)
  have idx: "(if remote then pd_remote_key_index pd else pd_local_key_index pd) key = Some m"
    using pd g by (auto simp: key_grants_def split: if_splits)
  have rng: "\<not> (address < mr_client_address mr \<or> address > - 1 - len \<or> mr_client_address mr > - 1 - mr_length mr \<or>
      address + len > mr_client_address mr + mr_length mr)"
    using g z by (subst within_region) (auto simp: key_grants_def)
  have "unat (address - mr_client_address mr) = unat address - unat (mr_client_address mr)"
    using g by (simp add: unat_sub word_le_nat_alt key_grants_def)
  moreover have "0 < unat len" using z by (simp add: unat_gt_0)
  moreover have "unat address - unat (mr_client_address mr) + unat len \<le> unat (mr_length mr)"
    using g by (auto simp: key_grants_def)
  ultimately have "unat (address - mr_client_address mr) + unat (mr_daemon_address mr) \<le> 18446744073709551615"
    using o by simp
  then have "\<not> mr_daemon_address mr > - 1 - (address - mr_client_address mr)"
    by (simp add: word_less_nat_alt unat_max_minus)
  then show ?thesis
    using res idx rng z g by (simp add: resolve_key_def key_grants_def Let_def)
qed

end
