(* ===== verification/Qp_Objects.thy ===== *)
theory Qp_Objects
  imports Qp Control_Objects
begin

unbundle bit_operations_syntax

text \<open>
  The invariant of the whole control service (\<open>QpService\<close> with its base classes), preserved by every
  request of every session and by disconnects: queue pairs hold their PD and CQs alive, the index of
  queue pair numbers is exact, and a queue pair is in one of the states its state machine allows.
\<close>

section \<open>The invariant\<close>

abbreviation qps_of :: "'a qp_service_scheme \<Rightarrow> u64 \<rightharpoonup> u64 \<times> qp_record" where
  "qps_of s \<equiv> reg_entries ot_qp (qs_qps s)"

abbreviation qp_pds :: "qp_record \<Rightarrow> u64 set" where "qp_pds qp \<equiv> {qp_pd_identity qp}"
abbreviation qp_cqs :: "qp_record \<Rightarrow> u64 set" where "qp_cqs qp \<equiv> {qp_send_cq_identity qp, qp_recv_cq_identity qp}"

definition qp_record_ok :: "qp_record \<Rightarrow> bool" where
  "qp_record_ok qp \<longleftrightarrow>
     qp_state qp \<in> {kQpStateReset, kQpStateInit, kQpStateRts, kQpStateErr} \<and> qp_qp_type qp = kQpTypeRc \<and>
     (qp_state qp = kQpStateRts \<longrightarrow> qp_peer_qp_num qp \<noteq> 0 \<and> qp_access_flags qp = kQpAccessRemoteWrite) \<and>
     (qp_peer_qp_num qp \<noteq> 0 \<longrightarrow> qp_state qp \<in> {kQpStateRts, kQpStateErr}) \<and>
     (qp_state qp = kQpStateInit \<longrightarrow> qp_access_flags qp = kQpAccessRemoteWrite)"

definition numbers_ok :: "(u64 \<rightharpoonup> u64 \<times> qp_record) \<Rightarrow> (u32 \<rightharpoonup> u64) \<Rightarrow> u32 \<Rightarrow> bool" where
  "numbers_ok Q idx nxt \<longleftrightarrow>
     (\<forall>q t qp. Q q = Some (t, qp) \<longrightarrow>
        qp_owner_session qp = t \<and> qp_record_ok qp \<and> qp_qp_num qp \<noteq> 0 \<and>
        (nxt = 0 \<or> qp_qp_num qp < nxt) \<and> idx (qp_qp_num qp) = Some q) \<and>
     (\<forall>n q. idx n = Some q \<longrightarrow> (\<exists>t qp. Q q = Some (t, qp) \<and> qp_qp_num qp = n))"

definition qp_inv :: "'a qp_service_scheme \<Rightarrow> bool" where
  "qp_inv s \<longleftrightarrow> control_inv s \<and> reg_inv (qs_qps s) \<and>
     numbers_ok (qps_of s) (qs_qp_num_index s) (qs_next_qp_num s) \<and>
     linked pd_qp_count pd_context_identity qp_pds qp_context_identity (pds_of s) (qps_of s) \<and>
     linked cq_qp_references (fst \<circ> (\<lambda>cq. (cq_context_identity cq, cq_completions cq))) qp_cqs qp_context_identity
       (cqs_of s) (qps_of s)"

definition qp_step :: "u64 \<Rightarrow> 'a qp_service_scheme \<Rightarrow> 'a qp_service_scheme \<Rightarrow> bool" where
  "qp_step sid s s' \<longleftrightarrow> qp_inv s' \<and>
     foreign_same sid (contexts_of s) (contexts_of s') \<and> foreign_same sid (pds_of s) (pds_of s') \<and>
     foreign_same sid (mrs_of s) (mrs_of s') \<and> foreign_same sid (cqs_of s) (cqs_of s') \<and>
     foreign_same sid (qps_of s) (qps_of s')"

definition qp_outcome_ok ::
  "u64 \<Rightarrow> 'a qp_service_scheme \<Rightarrow> (control_response \<times> int list) \<times> 'a qp_service_scheme \<Rightarrow> bool" where
  "qp_outcome_ok sid s out \<longleftrightarrow> qp_step sid s (snd out) \<and>
     (rp_status (fst (fst out)) \<noteq> OK \<longrightarrow> same_objects s (snd out) \<and> qps_of (snd out) = qps_of s \<and>
        qs_qp_num_index (snd out) = qs_qp_num_index s)"

lemma qp_invD:
  assumes "qp_inv s"
  shows "control_inv s" "reg_inv (qs_qps s)" "numbers_ok (qps_of s) (qs_qp_num_index s) (qs_next_qp_num s)"
    "linked pd_qp_count pd_context_identity qp_pds qp_context_identity (pds_of s) (qps_of s)"
    "linked cq_qp_references (fst \<circ> (\<lambda>cq. (cq_context_identity cq, cq_completions cq))) qp_cqs qp_context_identity
       (cqs_of s) (qps_of s)" "finite (dom (qps_of s))"
  using assms qp_reg.finite_entries [of "qs_qps s"] by (simp_all add: qp_inv_def)

lemma qp_fields_of_more:
  assumes "pd_mr_cq_service.more s' = pd_mr_cq_service.more (s :: 'a qp_service_scheme)"
  shows "qs_qps s' = qs_qps s" "qs_qp_num_index s' = qs_qp_num_index s" "qs_next_qp_num s' = qs_next_qp_num s"
proof -
  have "qs_qps x = qs_qps (pd_mr_cq_service.extend undefined (pd_mr_cq_service.more x))"
      "qs_qp_num_index x = qs_qp_num_index (pd_mr_cq_service.extend undefined (pd_mr_cq_service.more x))"
      "qs_next_qp_num x = qs_next_qp_num (pd_mr_cq_service.extend undefined (pd_mr_cq_service.more x))"
    for x :: "'a qp_service_scheme"
    by (cases x; simp add: pd_mr_cq_service.defs)+
  from this [of s] this [of s'] show "qs_qps s' = qs_qps s" "qs_qp_num_index s' = qs_qp_num_index s"
      "qs_next_qp_num s' = qs_next_qp_num s"
    by (simp_all add: assms)
qed

lemma qp_outcome_unchanged [simp]: "qp_inv s \<Longrightarrow> qp_outcome_ok sid s (r, s)"
  by (simp add: qp_outcome_ok_def qp_step_def same_objects_def)

lemma numbers_okD:
  assumes "numbers_ok Q idx nxt"
  shows "Q q = Some (t, qp) \<Longrightarrow> qp_owner_session qp = t" "Q q = Some (t, qp) \<Longrightarrow> qp_record_ok qp"
    "Q q = Some (t, qp) \<Longrightarrow> qp_qp_num qp \<noteq> 0" "Q q = Some (t, qp) \<Longrightarrow> nxt = 0 \<or> qp_qp_num qp < nxt"
    "Q q = Some (t, qp) \<Longrightarrow> idx (qp_qp_num qp) = Some q"
    "idx n = Some q \<Longrightarrow> \<exists>t qp. Q q = Some (t, qp) \<and> qp_qp_num qp = n"
  using assms unfolding numbers_ok_def by blast+

section \<open>The requests of the base services\<close>

lemma base_request_ok:
  assumes inv: "qp_inv s" and out: "outcome_ok sid s out"
  shows "qp_outcome_ok sid s out"
proof -
  note d = qp_invD [OF inv]
  have step: "control_step sid s (snd out)" using out by (simp add: outcome_ok_def)
  then have "pd_mr_cq_service.more (snd out) = pd_mr_cq_service.more s" by (simp add: control_step_def)
  note same = qp_fields_of_more [OF this]
  have r: "pd_refs (pds_of (snd out)) = pd_refs (pds_of s)" "cq_refs (cqs_of (snd out)) = cq_refs (cqs_of s)"
    using step by (simp_all add: control_step_def)
  have "linked pd_qp_count pd_context_identity qp_pds qp_context_identity (pds_of (snd out)) (qps_of s)"
    using linked_transfer [of pd_qp_count id pd_context_identity, OF _ r(1) d(6)] d(4) by simp
  moreover have "linked cq_qp_references (fst \<circ> (\<lambda>cq. (cq_context_identity cq, cq_completions cq))) qp_cqs
      qp_context_identity (cqs_of (snd out)) (qps_of s)"
    by (rule linked_transfer [OF d(5) r(2) d(6)])
  ultimately have "qp_inv (snd out)"
    using d(2,3) step by (simp add: qp_inv_def same control_step_def)
  then show ?thesis
    using step out by (simp add: qp_outcome_ok_def qp_step_def control_step_def outcome_ok_def same)
qed

section \<open>References\<close>

lemma bump_one: "m i = Some (t, r) \<Longrightarrow> bump f {i} m = m(i \<mapsto> (t, f r))"
  by (auto simp: bump_def)

lemma bump_two:
  "m a = Some (t, x) \<Longrightarrow> m b = Some (u, y) \<Longrightarrow>
   bump f {a, b} m = (if b \<noteq> a then (m(a \<mapsto> (t, f x)))(b \<mapsto> (u, f y)) else m(a \<mapsto> (t, f x)))"
  by (auto simp: bump_def)

lemma qp_references_ok:
  fixes s :: "'a pd_mr_cq_service_scheme" and f :: "nat \<Rightarrow> nat"
  assumes inv: "control_inv s" and pd: "pds_of s p = Some (sid, pd)"
    and ca: "cqs_of s a = Some (sid, ca)" and cb: "cqs_of s b = Some (sid, cb)"
  defines "s' \<equiv> qp_references f p a b s"
  shows "control_inv s'" "contexts_of s' = contexts_of s" "mrs_of s' = mrs_of s"
    "pds_of s' = bump (\<lambda>pd. pd\<lparr>pd_qp_count := f (pd_qp_count pd)\<rparr>) {p} (pds_of s)"
    "cqs_of s' = bump (\<lambda>cq. cq\<lparr>cq_qp_references := f (cq_qp_references cq)\<rparr>) {a, b} (cqs_of s)"
    "pd_mr_cq_service.more s' = pd_mr_cq_service.more s"
proof -
  let ?fp = "\<lambda>pd. pd\<lparr>pd_qp_count := f (pd_qp_count pd)\<rparr>" and ?fc = "\<lambda>cq. cq\<lparr>cq_qp_references := f (cq_qp_references cq)\<rparr>"
  note d = control_invD [OF inv]
  note up = pd_reg.upd_ok [OF d(2) pd, of ?fp] and ua = cq_reg.upd_ok [OF d(4) ca, of ?fc]
  have ub: "reg_inv (reg_update b ?fc (reg_update a ?fc (pm_cqs s))) \<and>
      reg_entries ot_cq (reg_update b ?fc (reg_update a ?fc (pm_cqs s))) = ((cqs_of s)(a \<mapsto> (sid, ?fc ca)))(b \<mapsto> (sid, ?fc cb))"
    if "b \<noteq> a"
    using cq_reg.upd_ok [OF ua [THEN conjunct1], of b sid cb ?fc] ua cb that by simp
  have sel: "dc_contexts s' = dc_contexts s" "pm_mrs s' = pm_mrs s" "pm_next_key s' = pm_next_key s"
      "pm_memory_backend s' = pm_memory_backend s" "pm_pds s' = reg_update p ?fp (pm_pds s)"
      "pm_cqs s' = (if b \<noteq> a then reg_update b ?fc (reg_update a ?fc (pm_cqs s)) else reg_update a ?fc (pm_cqs s))"
    by (simp_all add: s'_def qp_references_def Let_def)
  show c: "contexts_of s' = contexts_of s" "mrs_of s' = mrs_of s" by (simp_all add: sel)
  show P: "pds_of s' = bump ?fp {p} (pds_of s)" using up by (simp add: sel bump_one [where m = "pds_of s" and f = ?fp, OF pd])
  show C: "cqs_of s' = bump ?fc {a, b} (cqs_of s)" using ua ub by (simp add: sel bump_two [where m = "cqs_of s" and f = ?fc, OF ca cb])
  show "pd_mr_cq_service.more s' = pd_mr_cq_service.more s" by (simp add: s'_def qp_references_def Let_def)
  have "objects_ok (contexts_of s) ((pds_of s)(p \<mapsto> (sid, ?fp pd))) (cqs_of s)"
    by (rule objects_ok_upd_pd [OF d(6) pd]) simp
  then have "objects_ok (contexts_of s) ((pds_of s)(p \<mapsto> (sid, ?fp pd))) ((cqs_of s)(a \<mapsto> (sid, ?fc ca)))"
    by (rule objects_ok_upd_cq [where Q = "cqs_of s" and cq = ca]) (simp_all add: ca)
  then have "objects_ok (contexts_of s) (pds_of s') (cqs_of s')"
    unfolding P C bump_one [where m = "pds_of s" and f = ?fp, OF pd] bump_two [where m = "cqs_of s" and f = ?fc, OF ca cb]
    using cb by (auto intro!: objects_ok_upd_cq [where Q = "(cqs_of s)(a \<mapsto> (sid, ?fc ca))" and cq = cb and q = b])
  moreover have "regions_ok (pm_next_key s) (pds_of s') (mrs_of s)"
    unfolding P bump_one [where m = "pds_of s" and f = ?fp, OF pd] by (rule regions_ok_upd_pd [OF d(7) pd]) simp_all
  moreover have "tables_ok s'" using d up ua ub by (simp add: tables_ok_def sel)
  ultimately show "control_inv s'"
    using d c by (simp add: control_inv_def sel)
qed

lemma bump_foreign:
  assumes "\<And>i. i \<in> I \<Longrightarrow> \<exists>r. m i = Some (sid, r)"
  shows "foreign_same sid m (bump f I m)"
  using assms by (fastforce simp: foreign_same_def bump_Some)

section \<open>Queue pair numbers\<close>

lemma numbers_okI:
  assumes "\<And>q t qp. Q q = Some (t, qp) \<Longrightarrow> qp_owner_session qp = t \<and> qp_record_ok qp \<and> qp_qp_num qp \<noteq> 0 \<and>
      (nxt = 0 \<or> qp_qp_num qp < nxt) \<and> idx (qp_qp_num qp) = Some q"
    "\<And>n q. idx n = Some q \<Longrightarrow> \<exists>t qp. Q q = Some (t, qp) \<and> qp_qp_num qp = n"
  shows "numbers_ok Q idx nxt"
  using assms by (simp add: numbers_ok_def)

lemma next_number: "n \<le> nxt \<Longrightarrow> nxt + 1 = 0 \<or> n < nxt + (1 :: u32)"
  by (cases "nxt = - 1") (simp_all add: word_less_succ)

lemma numbers_ok_next:
  assumes "numbers_ok Q idx nxt" "nxt \<noteq> 0"
  shows "numbers_ok Q idx (nxt + 1)"
  using assms next_number by (fastforce simp: numbers_ok_def less_imp_le)

lemma numbers_ok_fresh:
  assumes "numbers_ok Q idx nxt" "nxt \<noteq> 0"
  shows "idx nxt = None"
proof (rule ccontr)
  assume "idx nxt \<noteq> None"
  then obtain q t qp where "Q q = Some (t, qp)" "qp_qp_num qp = nxt" using numbers_okD(6) [OF assms(1)] by blast
  then show False using numbers_okD(4) [OF assms(1)] assms(2) by fastforce
qed

lemma numbers_ok_new:
  assumes N: "numbers_ok Q idx nxt" "nxt \<noteq> 0" and q: "Q q = None"
    and qp: "qp_owner_session qp = t" "qp_record_ok qp" "qp_qp_num qp = nxt"
  shows "numbers_ok (Q(q \<mapsto> (t, qp))) (idx(nxt \<mapsto> q)) (nxt + 1)"
proof (rule numbers_okI)
  note N' = numbers_ok_next [OF N]
  have lt: "nxt + 1 = 0 \<or> nxt < nxt + 1" by (rule next_number) simp
  fix q' t' x assume x: "(Q(q \<mapsto> (t, qp))) q' = Some (t', x)"
  show "qp_owner_session x = t' \<and> qp_record_ok x \<and> qp_qp_num x \<noteq> 0 \<and>
      (nxt + 1 = 0 \<or> qp_qp_num x < nxt + 1) \<and> (idx(nxt \<mapsto> q)) (qp_qp_num x) = Some q'"
  proof (cases "q' = q")
    case True
    then show ?thesis using x qp lt N(2) by auto
  next
    case False
    then have "Q q' = Some (t', x)" using x by simp
    then show ?thesis
      using numbers_okD(1-5) [OF N'] numbers_okD(5) [OF N(1)] numbers_ok_fresh [OF N] by (metis fun_upd_other option.distinct(1))
  qed
next
  fix n q' assume "(idx(nxt \<mapsto> q)) n = Some q'"
  then show "\<exists>t' x. (Q(q \<mapsto> (t, qp))) q' = Some (t', x) \<and> qp_qp_num x = n"
    using q qp(3) numbers_okD(6) [OF N(1)] by (fastforce split: if_splits)
qed

lemma numbers_ok_del:
  assumes N: "numbers_ok Q idx nxt" and q: "Q q = Some (t, qp)"
  shows "numbers_ok (Q(q := None)) (idx(qp_qp_num qp := None)) nxt"
proof (rule numbers_okI)
  fix q' t' x assume "(Q(q := None)) q' = Some (t', x)"
  then have x: "Q q' = Some (t', x)" "q' \<noteq> q" by (auto split: if_splits)
  then have "qp_qp_num x \<noteq> qp_qp_num qp" using numbers_okD(5) [OF N] q by (metis option.inject)
  then show "qp_owner_session x = t' \<and> qp_record_ok x \<and> qp_qp_num x \<noteq> 0 \<and> (nxt = 0 \<or> qp_qp_num x < nxt) \<and>
      (idx(qp_qp_num qp := None)) (qp_qp_num x) = Some q'"
    using numbers_okD(1-5) [OF N x(1)] by simp
next
  fix n q' assume "(idx(qp_qp_num qp := None)) n = Some q'"
  then show "\<exists>t' x. (Q(q := None)) q' = Some (t', x) \<and> qp_qp_num x = n"
    using numbers_okD(6) [OF N] q by (fastforce split: if_splits)
qed

lemma numbers_ok_upd:
  assumes N: "numbers_ok Q idx nxt" and q: "Q q = Some (t, qp)"
    and x: "qp_owner_session x = qp_owner_session qp" "qp_qp_num x = qp_qp_num qp" "qp_record_ok x"
  shows "numbers_ok (Q(q \<mapsto> (t, x))) idx nxt"
proof (rule numbers_okI)
  fix q' t' y assume "(Q(q \<mapsto> (t, x))) q' = Some (t', y)"
  then show "qp_owner_session y = t' \<and> qp_record_ok y \<and> qp_qp_num y \<noteq> 0 \<and> (nxt = 0 \<or> qp_qp_num y < nxt) \<and>
      idx (qp_qp_num y) = Some q'"
    using numbers_okD(1-5) [OF N q] x numbers_okD(1-5) [OF N, of q' t' y] by (auto split: if_splits)
next
  fix n q' assume "idx n = Some q'"
  then show "\<exists>t' y. (Q(q \<mapsto> (t, x))) q' = Some (t', y) \<and> qp_qp_num y = n"
    using numbers_okD(6) [OF N] q x(2) by fastforce
qed

lemma numbers_ok_drop:
  assumes N: "numbers_ok Q idx nxt"
    and idx': "\<And>n. idx' n = (if \<exists>q qp. Q q = Some (s, qp) \<and> qp_qp_num qp = n then None else idx n)"
  shows "numbers_ok (drop_owner s Q) idx' nxt"
proof (rule numbers_okI)
  fix q t qp assume "drop_owner s Q q = Some (t, qp)"
  then have q: "Q q = Some (t, qp)" "t \<noteq> s" by simp_all
  have "\<not> (\<exists>q' qp'. Q q' = Some (s, qp') \<and> qp_qp_num qp' = qp_qp_num qp)"
    using numbers_okD(5) [OF N] q by (metis option.inject prod.inject)
  then show "qp_owner_session qp = t \<and> qp_record_ok qp \<and> qp_qp_num qp \<noteq> 0 \<and> (nxt = 0 \<or> qp_qp_num qp < nxt) \<and>
      idx' (qp_qp_num qp) = Some q"
    using numbers_okD(1-5) [OF N q(1)] by (simp add: idx')
next
  fix n q assume "idx' n = Some q"
  then have "idx n = Some q" "\<not> (\<exists>q qp. Q q = Some (s, qp) \<and> qp_qp_num qp = n)" by (simp_all add: idx' split: if_splits)
  then show "\<exists>t qp. drop_owner s Q q = Some (t, qp) \<and> qp_qp_num qp = n"
    using numbers_okD(6) [OF N] by fastforce
qed

section \<open>Creating and destroying a queue pair\<close>

lemma qp_step_numbers:
  assumes inv: "qp_inv s" and s': "s' = s\<lparr>qs_qps := qps, qs_next_qp_num := nxt\<rparr>"
    and q: "reg_inv qps" "reg_entries ot_qp qps = qps_of s"
    and n: "numbers_ok (qps_of s) (qs_qp_num_index s) nxt"
  shows "qp_outcome_ok sid s (r, s')"
  using qp_invD [OF inv] q n by (simp add: s' qp_outcome_ok_def qp_step_def qp_inv_def same_objects_def
      control_inv_def tables_ok_def)

lemma insert_qp_ok:
  assumes inv: "qp_inv s" and pd: "pds_of s (rq_object_identity (fst rq)) = Some (sid, pd)"
    and ca: "cqs_of s (qa_send_cq_identity a) = Some (sid, ca)" and cb: "cqs_of s (qa_recv_cq_identity a) = Some (sid, cb)"
    and ctx: "pd_context_identity pd = cq_context_identity ca" "pd_context_identity pd = cq_context_identity cb"
    and a: "valid_qp_create_attributes a"
  shows "qp_outcome_ok sid s (insert_qp w pd a queues s sid rq)"
proof -
  obtain sq rq' fds bs where queues: "queues = (sq, rq', fds, bs)" by (cases queues) auto
  let ?p = "rq_object_identity (fst rq)" and ?n = "qs_next_qp_num s"
  let ?qp = "new_qp sid (pd_context_identity pd) ?p a ?n sq rq'"
  note d = qp_invD [OF inv]
  have full: "qp_outcome_ok sid s (r, s\<lparr>qs_next_qp_num := ?n + 1, qs_qps := qps\<rparr>)"
    if "?n \<noteq> 0" "reg_insert ot_qp sid ?qp (qs_qps s) = (None, qps)" for r qps
    using that(2) qp_reg.ins_none [OF d(2) that(2)] qp_reg.ins_inv [OF d(2), of sid ?qp] numbers_ok_next [OF d(3) that(1)]
    by (intro qp_step_numbers [OF inv, where nxt = "?n + 1" and qps = qps]) simp_all
  have undone: "qp_outcome_ok sid s (r, s\<lparr>qs_next_qp_num := ?n + 1, qs_qps := snd (reg_erase ot_qp sid i qps)\<rparr>)"
    if "?n \<noteq> 0" and i: "reg_insert ot_qp sid ?qp (qs_qps s) = (Some i, qps)" for r i qps
  proof -
    note e = qp_reg.ins_some [OF d(2) i]
    have "reg_inv qps" using qp_reg.ins_inv [OF d(2), of sid ?qp] i by simp
    moreover have "reg_entries ot_qp qps i = Some (sid, ?qp)" using e by simp
    ultimately have "reg_inv (snd (reg_erase ot_qp sid i qps))" "reg_entries ot_qp (snd (reg_erase ot_qp sid i qps)) = qps_of s"
      using qp_reg.era_ok [of qps i sid ?qp] e by (simp_all add: fun_upd_idem)
    then show ?thesis using numbers_ok_next [OF d(3) that(1)]
      by (intro qp_step_numbers [OF inv, where nxt = "?n + 1" and qps = "snd (reg_erase ot_qp sid i qps)"]) simp_all
  qed
  have created: "qp_outcome_ok sid s ((fst (identity_response rq i)\<lparr>rp_opaque := bs, rp_fd_indices := [0, 1]\<rparr>, fds),
      qp_references Suc ?p (qa_send_cq_identity a) (qa_recv_cq_identity a)
        (s\<lparr>qs_next_qp_num := ?n + 1, qs_qps := qps, qs_qp_num_index := (qs_qp_num_index s)(?n \<mapsto> i)\<rparr>))"
    if n: "?n \<noteq> 0" and i: "reg_insert ot_qp sid ?qp (qs_qps s) = (Some i, qps)" for i qps
  proof -
    note e = qp_reg.ins_some [OF d(2) i]
    define t where "t = s\<lparr>qs_next_qp_num := ?n + 1, qs_qps := qps, qs_qp_num_index := (qs_qp_num_index s)(?n \<mapsto> i)\<rparr>"
    define u where "u = qp_references Suc ?p (qa_send_cq_identity a) (qa_recv_cq_identity a) t"
    have tabs: "contexts_of t = contexts_of s" "pds_of t = pds_of s" "mrs_of t = mrs_of s" "cqs_of t = cqs_of s"
        "reg_entries ot_qp qps = (qps_of s)(i \<mapsto> (sid, ?qp))" "reg_inv qps"
      using e qp_reg.ins_inv [OF d(2), of sid ?qp] i by (simp_all add: t_def)
    have "control_inv t" using d(1) by (simp add: t_def control_inv_def tables_ok_def)
    note r = qp_references_ok [where f = Suc, OF this, unfolded tabs, OF pd ca cb, folded u_def]
    have more: "qs_qps u = qps" "qs_qp_num_index u = (qs_qp_num_index s)(?n \<mapsto> i)" "qs_next_qp_num u = ?n + 1"
      using qp_fields_of_more [OF r(6)] by (simp_all add: t_def)
    have N: "numbers_ok ((qps_of s)(i \<mapsto> (sid, ?qp))) ((qs_qp_num_index s)(?n \<mapsto> i)) (?n + 1)"
      using a by (intro numbers_ok_new [OF d(3) n]) (auto simp: e new_qp_def qp_record_ok_def qp_state_defs valid_qp_create_attributes_def)
    have users: "qp_pds ?qp = {?p}" "qp_cqs ?qp = {qa_send_cq_identity a, qa_recv_cq_identity a}" by (simp_all add: new_qp_def)
    have P: "linked pd_qp_count pd_context_identity qp_pds qp_context_identity (pds_of u) ((qps_of s)(i \<mapsto> (sid, ?qp)))"
      using pd e unfolding r(4) users(1) [symmetric]
      by (intro linked_add [OF d(4) _ d(6)]) (auto simp: new_qp_def)
    have C: "linked cq_qp_references (fst \<circ> (\<lambda>cq. (cq_context_identity cq, cq_completions cq))) qp_cqs qp_context_identity
        (cqs_of u) ((qps_of s)(i \<mapsto> (sid, ?qp)))"
      using ca cb ctx e unfolding r(5) users(2) [symmetric]
      by (intro linked_add [OF d(5) _ d(6)]) (auto simp: new_qp_def)
    have "qp_inv u" using r(1) N P C tabs(5,6) by (simp add: qp_inv_def more)
    moreover have "foreign_same sid (pds_of s) (pds_of u)" "foreign_same sid (cqs_of s) (cqs_of u)"
      unfolding r(4,5) using pd ca cb by (auto intro!: bump_foreign)
    moreover have "foreign_same sid (qps_of s) (qps_of u)" using e by (simp add: more foreign_same_upd)
    ultimately show ?thesis
      using r(2,3) by (simp add: qp_outcome_ok_def qp_step_def t_def [symmetric] u_def [symmetric])
  qed
  show ?thesis
    using full undone created numbers_ok_fresh [OF d(3)] inv
    by (auto simp: insert_qp_def queues Let_def split: option.splits prod.splits)
qed

lemma handle_create_qp_ok:
  assumes inv: "qp_inv s"
  shows "qp_outcome_ok sid s (handle_create_qp w s sid rq)"
proof -
  note d = control_invD [OF qp_invD(1) [OF inv]]
  have "qp_outcome_ok sid s (insert_qp w pd a queues s sid rq)"
    if "valid_qp_create_attributes a" "reg_resolve ot_pd sid (rq_object_identity (fst rq)) (pm_pds s) = Some pd"
      "reg_resolve ot_cq sid (qa_send_cq_identity a) (pm_cqs s) = Some ca"
      "reg_resolve ot_cq sid (qa_recv_cq_identity a) (pm_cqs s) = Some cb"
      "pd_context_identity pd = cq_context_identity ca" "pd_context_identity pd = cq_context_identity cb" for a pd ca cb queues
    using that d by (intro insert_qp_ok [OF inv, where ca = ca and cb = cb]) (simp_all add: table_res)
  then show ?thesis using inv
    by (simp add: handle_create_qp_def split: sum.splits option.splits)
qed

lemma handle_destroy_qp_ok:
  assumes inv: "qp_inv s"
  shows "qp_outcome_ok sid s (handle_destroy_qp s sid rq)"
proof -
  let ?i = "rq_object_identity (fst rq)"
  note d = qp_invD [OF inv] and c = control_invD [OF qp_invD(1) [OF inv]]
  have live: "qp_outcome_ok sid s (handle_destroy_qp s sid rq)"
    if shape: "empty_shape rq" and qp: "qps_of s ?i = Some (sid, qp)" for qp
  proof -
    let ?dec = "\<lambda>n :: nat. n - 1"
    obtain pd where pd: "pds_of s (qp_pd_identity qp) = Some (sid, pd)" "0 < pd_qp_count pd"
      using linked_used [OF d(4,6) qp, of "qp_pd_identity qp"] by auto
    obtain ca where ca: "cqs_of s (qp_send_cq_identity qp) = Some (sid, ca)" "0 < cq_qp_references ca"
      using linked_used [OF d(5,6) qp, of "qp_send_cq_identity qp"] by auto
    obtain cb where cb: "cqs_of s (qp_recv_cq_identity qp) = Some (sid, cb)" "0 < cq_qp_references cb"
      using linked_used [OF d(5,6) qp, of "qp_recv_cq_identity qp"] by auto
    define u where "u = qp_references ?dec (qp_pd_identity qp) (qp_send_cq_identity qp) (qp_recv_cq_identity qp) s"
    note r = qp_references_ok [where f = ?dec, OF d(1) pd(1) ca(1) cb(1), folded u_def]
    note more = qp_fields_of_more [OF r(6)]
    have e: "fst (reg_erase ot_qp sid ?i (qs_qps s)) = OK" "reg_inv (snd (reg_erase ot_qp sid ?i (qs_qps s)))"
        "reg_entries ot_qp (snd (reg_erase ot_qp sid ?i (qs_qps s))) = (qps_of s)(?i := None)"
      using qp_reg.era_ok [OF d(2) qp] by simp_all
    let ?v = "u\<lparr>qs_qps := snd (reg_erase ot_qp sid ?i (qs_qps s)), qs_qp_num_index := (qs_qp_num_index s)(qp_qp_num qp := None)\<rparr>"
    have res: "reg_resolve ot_qp sid ?i (qs_qps s) = Some qp" "reg_resolve ot_pd sid (qp_pd_identity qp) (pm_pds s) = Some pd"
        "reg_resolve ot_cq sid (qp_send_cq_identity qp) (pm_cqs s) = Some ca" "reg_resolve ot_cq sid (qp_recv_cq_identity qp) (pm_cqs s) = Some cb"
      using d(2) c qp pd ca cb by (simp_all add: table_res qp_reg.res_entries)
    have h: "handle_destroy_qp s sid rq = (response_for rq OK, ?v)"
      using shape res pd(2) ca(2) cb(2) e(1) more
      by (auto simp: handle_destroy_qp_def Let_def u_def [symmetric] simp del: One_nat_def split: prod.splits)
    have "linked pd_qp_count pd_context_identity qp_pds qp_context_identity (pds_of u) ((qps_of s)(?i := None))"
      unfolding r(4) by (rule linked_del [OF d(4) qp d(6)]) simp_all
    moreover have "linked cq_qp_references (fst \<circ> (\<lambda>cq. (cq_context_identity cq, cq_completions cq))) qp_cqs qp_context_identity
        (cqs_of u) ((qps_of s)(?i := None))"
      unfolding r(5) by (rule linked_del [OF d(5) qp d(6)]) simp_all
    moreover have "control_inv ?v" using r(1) by (simp add: control_inv_def tables_ok_def)
    ultimately have "qp_inv ?v"
      using e numbers_ok_del [OF d(3) qp] by (simp add: qp_inv_def more)
    moreover have "foreign_same sid (pds_of s) (pds_of u)" "foreign_same sid (cqs_of s) (cqs_of u)"
      unfolding r(4,5) using pd(1) ca(1) cb(1) by (auto intro!: bump_foreign)
    moreover have "foreign_same sid (qps_of s) (qps_of ?v)" using e(3) qp by (simp add: foreign_same_upd)
    ultimately show ?thesis using r(2,3) by (simp add: h qp_outcome_ok_def qp_step_def)
  qed
  show ?thesis
  proof (cases "reg_resolve ot_qp sid ?i (qs_qps s)")
    case None
    then show ?thesis using inv by (simp add: handle_destroy_qp_def Let_def)
  next
    case (Some qp)
    then have "qps_of s ?i = Some (sid, qp)" using d(2) by (simp add: qp_reg.res_entries)
    then show ?thesis using live inv by (cases "empty_shape rq") (simp_all add: handle_destroy_qp_def [of s sid rq])
  qed
qed

section \<open>The state machine\<close>

lemma qp_update_ok:
  assumes inv: "qp_inv s" and qp: "qps_of s i = Some (sid, qp)" and st: "rp_status (fst r) = OK"
    and f: "qp_owner_session (f qp) = qp_owner_session qp" "qp_qp_num (f qp) = qp_qp_num qp" "qp_record_ok (f qp)"
      "qp_pds (f qp) = qp_pds qp" "qp_cqs (f qp) = qp_cqs qp" "qp_context_identity (f qp) = qp_context_identity qp"
  shows "qp_outcome_ok sid s (r, s\<lparr>qs_qps := reg_update i f (qs_qps s)\<rparr>)"
proof -
  note d = qp_invD [OF inv]
  note u = qp_reg.upd_ok [OF d(2) qp, of f]
  have "control_inv (s\<lparr>qs_qps := reg_update i f (qs_qps s)\<rparr>)" using d(1) by (simp add: control_inv_def tables_ok_def)
  then have "qp_inv (s\<lparr>qs_qps := reg_update i f (qs_qps s)\<rparr>)"
    using u d(3-5) numbers_ok_upd [OF d(3) qp f(1-3)]
      linked_upd [where x' = "f qp", OF d(4) qp f(4,6)] linked_upd [where x' = "f qp", OF d(5) qp f(5,6)]
    by (simp add: qp_inv_def)
  then show ?thesis using st u qp by (simp add: qp_outcome_ok_def qp_step_def foreign_same_upd)
qed

lemma modify_qp_record_ok:
  assumes "modify_qp_record a m qp = Inr qp'"
  shows "qp_owner_session qp' = qp_owner_session qp" "qp_qp_num qp' = qp_qp_num qp" "qp_record_ok qp \<Longrightarrow> qp_record_ok qp'"
    "qp_pds qp' = qp_pds qp" "qp_cqs qp' = qp_cqs qp" "qp_context_identity qp' = qp_context_identity qp"
proof -
  have "qp' = qp\<lparr>qp_access_flags := at_access_flags a, qp_state := kQpStateInit\<rparr> \<and> at_access_flags a = kQpAccessRemoteWrite \<and>
      qp_state qp = kQpStateReset \<or> qp' = qp\<lparr>qp_state := kQpStateErr\<rparr>"
    using assms by (simp add: modify_qp_record_def Let_def split: if_split_asm)
  then show "qp_owner_session qp' = qp_owner_session qp" "qp_qp_num qp' = qp_qp_num qp" "qp_record_ok qp \<Longrightarrow> qp_record_ok qp'"
    "qp_pds qp' = qp_pds qp" "qp_cqs qp' = qp_cqs qp" "qp_context_identity qp' = qp_context_identity qp"
    by (auto simp: qp_record_ok_def qp_state_defs)
qed

lemma handle_modify_qp_ok:
  assumes inv: "qp_inv s"
  shows "qp_outcome_ok sid s (handle_modify_qp s sid rq)"
proof -
  let ?i = "rq_object_identity (fst rq)"
  note d = qp_invD [OF inv]
  have "qp_outcome_ok sid s (response_for rq OK, s\<lparr>qs_qps := reg_update ?i (\<lambda>_. qp') (qs_qps s)\<rparr>)"
    if "reg_resolve ot_qp sid ?i (qs_qps s) = Some qp" "modify_qp_record a m qp = Inr qp'" for qp a m qp'
  proof -
    have qp: "qps_of s ?i = Some (sid, qp)" using that(1) d(2) by (simp add: qp_reg.res_entries)
    note ok = modify_qp_record_ok [OF that(2)]
    show ?thesis using ok numbers_okD(2) [OF d(3) qp] by (intro qp_update_ok [OF inv qp]) simp_all
  qed
  then show ?thesis using inv
    by (auto simp: handle_modify_qp_def Let_def split: sum.splits option.splits)
qed

lemma handle_connect_qp_ok:
  assumes inv: "qp_inv s"
  shows "qp_outcome_ok sid s (handle_connect_qp s sid rq)"
proof -
  let ?i = "rq_object_identity (fst rq)"
  note d = qp_invD [OF inv]
  have "qp_outcome_ok sid s (response_for rq OK, s\<lparr>qs_qps := reg_update ?i (connected_qp n j a) (qs_qps s)\<rparr>)"
    if "reg_resolve ot_qp sid ?i (qs_qps s) = Some qp" "n \<noteq> 0" "qp_state qp = kQpStateInit" for qp n j a
  proof -
    have qp: "qps_of s ?i = Some (sid, qp)" using that(1) d(2) by (simp add: qp_reg.res_entries)
    have "qp_record_ok (connected_qp n j a qp)"
      using numbers_okD(2) [OF d(3) qp] that(2,3) by (auto simp: qp_record_ok_def connected_qp_def qp_state_defs)
    then show ?thesis by (intro qp_update_ok [OF inv qp]) (simp_all add: connected_qp_def)
  qed
  then show ?thesis using inv
    by (auto simp: handle_connect_qp_def Let_def split: sum.splits option.splits)
qed

lemma qp_handle_ok:
  assumes inv: "qp_inv s"
  shows "qp_outcome_ok sid s (qp_handle w s sid rq)"
proof -
  have "qp_outcome_ok sid s (handle_query_qp s sid rq)"
    using inv by (auto simp: handle_query_qp_def split: sum.splits option.splits)
  moreover have "qp_outcome_ok sid s (handle_query_qp_conn_info s sid rq)"
    using inv by (auto simp: handle_query_qp_conn_info_def split: option.splits)
  ultimately show ?thesis
    using inv base_request_ok [OF inv pd_mr_cq_handle_ok [OF qp_invD(1) [OF inv]]]
    by (simp add: qp_handle_def Let_def handle_create_qp_ok handle_destroy_qp_ok handle_modify_qp_ok handle_connect_qp_ok)
qed

section \<open>Disconnecting\<close>

lemma fold_unindex:
  "fold (\<lambda>(_, qp) s. s\<lparr>qs_qp_num_index := (qs_qp_num_index s)(qp_qp_num qp := None)\<rparr>) xs s =
   s\<lparr>qs_qp_num_index := (\<lambda>n. if n \<in> (qp_qp_num \<circ> snd) ` set xs then None else qs_qp_num_index s n)\<rparr>"
  by (induction xs arbitrary: s) (auto simp: fun_eq_iff)

lemma qp_on_disconnect_ok:
  assumes inv: "qp_inv s"
  shows "qp_inv (qp_on_disconnect w sid s)" "contexts_of (qp_on_disconnect w sid s) = drop_owner sid (contexts_of s)"
    "pds_of (qp_on_disconnect w sid s) = drop_owner sid (pds_of s)" "mrs_of (qp_on_disconnect w sid s) = drop_owner sid (mrs_of s)"
    "cqs_of (qp_on_disconnect w sid s) = drop_owner sid (cqs_of s)" "qps_of (qp_on_disconnect w sid s) = drop_owner sid (qps_of s)"
proof -
  note d = qp_invD [OF inv]
  let ?l = "reg_for_each_session ot_qp sid (qs_qps s)"
  define t where "t = s\<lparr>qs_qp_num_index := (\<lambda>n. if n \<in> (qp_qp_num \<circ> snd) ` set ?l then None else qs_qp_num_index s n),
      qs_qps := snd (reg_erase_session sid (qs_qps s))\<rparr>"
  have u: "qp_on_disconnect w sid s = pd_mr_cq_on_disconnect w sid t"
    by (simp add: qp_on_disconnect_def fold_unindex Let_def t_def)
  have c: "control_inv t" using d(1) by (simp add: t_def control_inv_def tables_ok_def)
  note tab = pd_mr_cq_on_disconnect_tables [OF c, of w sid]
  note more = qp_fields_of_more [OF tab(5)]
  have same: "contexts_of t = contexts_of s" "pds_of t = pds_of s" "mrs_of t = mrs_of s" "cqs_of t = cqs_of s"
    by (simp_all add: t_def)
  have q: "qps_of t = drop_owner sid (qps_of s)" "reg_inv (qs_qps t)"
    using d(2) by (simp_all add: t_def session_dropped drop_owner_session qp_reg.session_inv)
  have idx: "qs_qp_num_index t n = (if \<exists>q qp. qps_of s q = Some (sid, qp) \<and> qp_qp_num qp = n then None else qs_qp_num_index s n)" for n
    using qp_each.each_entries [OF d(2), of _ _ sid] by (force simp: t_def)
  have "numbers_ok (drop_owner sid (qps_of s)) (qs_qp_num_index t) (qs_next_qp_num t)"
    using numbers_ok_drop [OF d(3), where s = sid, OF idx] by (simp add: t_def)
  then show "qp_inv (qp_on_disconnect w sid s)"
    using pd_mr_cq_on_disconnect_inv [OF c, of w sid] linked_drop [OF d(4), of sid] linked_drop [OF d(5), of sid]
    by (simp add: u qp_inv_def more q tab same)
  show "contexts_of (qp_on_disconnect w sid s) = drop_owner sid (contexts_of s)"
    "pds_of (qp_on_disconnect w sid s) = drop_owner sid (pds_of s)" "mrs_of (qp_on_disconnect w sid s) = drop_owner sid (mrs_of s)"
    "cqs_of (qp_on_disconnect w sid s) = drop_owner sid (cqs_of s)" "qps_of (qp_on_disconnect w sid s) = drop_owner sid (qps_of s)"
    by (simp_all add: u tab same more q)
qed

lemma new_qp_service_inv: "qp_inv (new_qp_service catalog)"
  by (simp add: qp_inv_def control_inv_def tables_ok_def new_qp_service_def new_registry_inv new_registry_entries
      objects_ok_def regions_ok_def unique_keys_def mappings_ok_def held_def numbers_ok_def linked_def has_parent_def)

end
