(* ===== verification/Control_Run.thy ===== *)
theory Control_Run
  imports Qp_Objects
begin

unbundle bit_operations_syntax

text \<open>
  Runs of the control service: sequences of the requests and disconnects the daemon handles, each in
  its own world, from the empty service on. The second part is one run, evaluated: a client registers
  memory, creates a completion queue and two queue pairs, and connects them to each other.
\<close>

section \<open>Runs of the service\<close>

datatype control_event =
    Request control_world u64 "control_request \<times> int list"
  | Disconnect control_world u64

fun control_exec :: "control_event \<Rightarrow> qp_service \<Rightarrow> qp_service" where
  "control_exec (Request w sid rq) s = snd (qp_handle w s sid rq)"
| "control_exec (Disconnect w sid) s = qp_on_disconnect w sid s"

definition control_run :: "device_descriptor list \<Rightarrow> control_event list \<Rightarrow> qp_service" where
  "control_run catalog events = fold control_exec events (new_qp_service catalog)"

lemma control_exec_inv: "qp_inv s \<Longrightarrow> qp_inv (control_exec e s)"
  using qp_handle_ok [of s] qp_on_disconnect_ok(1) [of s] by (cases e) (auto simp: qp_outcome_ok_def qp_step_def)

lemma control_run_inv: "qp_inv (control_run catalog events)"
proof -
  have "qp_inv (fold control_exec events s)" if "qp_inv s" for s
    using that by (induction events arbitrary: s) (simp_all add: control_exec_inv)
  then show ?thesis by (simp add: control_run_def new_qp_service_inv)
qed

section \<open>A run\<close>

definition demo_ring :: "int \<Rightarrow> u64 \<Rightarrow> ring_syscalls" where
  "demo_ring fd base = \<lparr>sy_sysconf = 4096, sy_sysconf_errno = 0, sy_memfd = Inr fd, sy_ftruncate = None,
     sy_mmap = Inr base, sy_seal = None, sy_fstat = Inr 4096\<rparr>"

definition demo_world :: control_world where
  "demo_world = \<lparr>cw_open = \<lambda>m. Inr \<lparr>im_gpu_uuid = em_gpu_uuid m, im_daemon_base_address = 0x20000\<rparr>,
     cw_close = \<lambda>_. OK, cw_index_inserts = 3, cw_ring = demo_ring 5 0x100000, cw_dup = Inr 6,
     cw_ring2 = demo_ring 7 0x200000, cw_dup2 = Inr 8\<rparr>"

definition demo_memory :: exported_cuda_memory where
  "demo_memory = \<lparr>em_gpu_uuid = [1, 2, 3, 4, 5, 6, 7, 8, 9, 10, 11, 12, 13, 14, 15, 16], em_client_address = 0x5000,
     em_allocation_size = 0x2000, em_allocation_offset = 0x1000, em_length = 0x1000, em_ipc_handle = [9]\<rparr>"

definition demo_attributes :: qp_create_attributes where
  "demo_attributes = \<lparr>qa_send_cq_identity = 0x0400000001000000, qa_recv_cq_identity = 0x0400000001000000,
     qa_max_send_wr = 1, qa_max_recv_wr = 1, qa_max_send_sge = 1, qa_max_recv_sge = 1, qa_qp_type = kQpTypeRc,
     qa_sq_sig_all = 0\<rparr>"

abbreviation demo_context_id :: u64 where "demo_context_id \<equiv> 0x0100000001000000"
abbreviation demo_pd_id :: u64 where "demo_pd_id \<equiv> 0x0200000001000000"
abbreviation demo_mr_id :: u64 where "demo_mr_id \<equiv> 0x0300000001000000"
abbreviation demo_cq_id :: u64 where "demo_cq_id \<equiv> 0x0400000001000000"
abbreviation demo_qp_id :: u64 where "demo_qp_id \<equiv> 0x0500000001000000"
abbreviation demo_peer_id :: u64 where "demo_peer_id \<equiv> 0x0500000001000001"

definition demo_init :: "u64 \<Rightarrow> control_request" where
  "demo_init i = make_modify_qp_request i (new_attributes\<lparr>at_state := kQpStateInit, at_access_flags := kQpAccessRemoteWrite\<rparr>)
     (kQpMaskState OR kQpMaskAccess)"

definition demo_objects :: "control_event list" where
  "demo_objects = map (\<lambda>rq. Request demo_world 1 (rq, []))
     [make_create_context_request 1, make_create_pd_request demo_context_id,
      make_register_mr_request demo_pd_id demo_memory (kAccessLocalWrite OR kAccessRemoteWrite),
      make_create_cq_request demo_context_id 1]"

definition demo_pairs :: "control_event list" where
  "demo_pairs = map (\<lambda>rq. Request demo_world 1 (rq, []))
     [make_create_qp_request demo_pd_id demo_attributes, make_create_qp_request demo_pd_id demo_attributes,
      demo_init demo_qp_id, demo_init demo_peer_id,
      make_connect_qp_request demo_qp_id 2 new_attributes kQpConnectMask,
      make_connect_qp_request demo_peer_id 1 new_attributes kQpConnectMask]"

text \<open>The state the run reaches.\<close>

definition demo_slot :: "'r \<Rightarrow> 'r reg_slot" where
  "demo_slot r = \<lparr>sl_generation = 1, sl_owner_session = 1, sl_value = Some r, sl_retired = False\<rparr>"

definition demo_registry :: "'r list \<Rightarrow> 'r registry" where
  "demo_registry rs = \<lparr>reg_initial_generation = 1, reg_slots = map demo_slot rs, reg_free_slots = [], reg_live_count = length rs\<rparr>"

definition demo_mapping :: cuda_ipc_mapping where
  "demo_mapping = \<lparr>im_gpu_uuid = em_gpu_uuid demo_memory, im_daemon_base_address = 0x20000\<rparr>"

definition demo_pd :: "nat \<Rightarrow> pd_record" where
  "demo_pd n = \<lparr>pd_context_identity = demo_context_id, pd_mr_identities = {demo_mr_id}, pd_local_key_index = [1 \<mapsto> demo_mr_id],
     pd_remote_key_index = [2 \<mapsto> demo_mr_id], pd_qp_count = n\<rparr>"

definition demo_mr :: mr_record where
  "demo_mr = \<lparr>mr_context_identity = demo_context_id, mr_pd_identity = demo_pd_id, mr_gpu_uuid = em_gpu_uuid demo_memory,
     mr_client_address = 0x5000, mr_allocation_size = 0x2000, mr_allocation_offset = 0x1000, mr_daemon_address = 0x21000,
     mr_length = 0x1000, mr_access = 3, mr_lkey = 1, mr_rkey = 2, mr_work_request_references = 0, mr_mapping = demo_mapping\<rparr>"

definition demo_cq :: "nat \<Rightarrow> cq_record" where
  "demo_cq n = \<lparr>cq_context_identity = demo_context_id, cq_cqe = 1, cq_qp_references = n,
     cq_completions = make_ring 0x100000 4096 5 \<lparr>qd_kind = qk_completion, qd_capacity = 1, qd_slot_stride = 64\<rparr>\<rparr>"

definition demo_qp :: "u32 \<Rightarrow> u32 \<Rightarrow> u64 \<Rightarrow> qp_record" where
  "demo_qp n peer peer_id =
     connected_qp peer peer_id new_attributes
       ((new_qp 1 demo_context_id demo_pd_id demo_attributes n
          (make_ring 0x100000 4096 5 \<lparr>qd_kind = qk_send, qd_capacity = 1, qd_slot_stride = 64\<rparr>)
          (make_ring 0x200000 4096 7 \<lparr>qd_kind = qk_receive, qd_capacity = 1, qd_slot_stride = 64\<rparr>))
        \<lparr>qp_access_flags := kQpAccessRemoteWrite, qp_state := kQpStateInit\<rparr>)"

definition demo_base :: qp_service where
  "demo_base = \<lparr>dc_catalog = default_catalog, dc_contexts = demo_registry [\<lparr>ctx_device_identity = 1, ctx_child_count = 2\<rparr>],
     pm_memory_backend = [OpenCall demo_memory (Inr demo_mapping)], pm_pds = demo_registry [demo_pd 0],
     pm_mrs = demo_registry [demo_mr], pm_cqs = demo_registry [demo_cq 0], pm_next_key = 3, qs_qps = new_registry 1,
     qs_qp_num_index = Map.empty, qs_next_qp_num = 1\<rparr>"

definition demo_service :: qp_service where
  "demo_service = demo_base\<lparr>pm_pds := demo_registry [demo_pd 2], pm_cqs := demo_registry [demo_cq 2],
     qs_qps := demo_registry [demo_qp 1 2 demo_peer_id, demo_qp 2 1 demo_qp_id],
     qs_qp_num_index := [1 \<mapsto> demo_qp_id, 2 \<mapsto> demo_peer_id], qs_next_qp_num := 3\<rparr>"

lemma demo_mr_payload:
  obtains bs where "encode_mr_registration demo_memory = Inr bs" "decode_mr_registration bs 0x1000 = Inr demo_memory"
proof -
  have v: "valid_memory demo_memory" by (simp add: valid_memory_def demo_memory_def uuid_is_zero_def)
  then obtain bs where "encode_mr_registration demo_memory = Inr bs" by (simp add: encode_mr_registration_def Let_def)
  then show ?thesis using that decode_encode_mr_registration [of demo_memory bs] by (simp add: demo_memory_def)
qed

lemma demo_fields:
  "em_length demo_memory = 0x1000" "em_allocation_offset demo_memory = 0x1000" "em_client_address demo_memory = 0x5000"
  "em_allocation_size demo_memory = 0x2000" "valid_access 3" "valid_retry_attributes new_attributes"
  by (simp_all add: demo_memory_def valid_access_def kAccessLocalWrite_def kAccessRemoteWrite_def valid_retry_attributes_def
      new_attributes_def)

lemma demo_ring_created:
  "create_shared_ring (demo_ring fd base) \<lparr>qd_kind = k, qd_capacity = 1, qd_slot_stride = 64\<rparr> True empty_ring =
     (OK, fst (ring_reset empty_ring), make_ring base 4096 fd \<lparr>qd_kind = k, qd_capacity = 1, qd_slot_stride = 64\<rparr>,
      Some (zero_header\<lparr>md_magic := kSharedRingMagic, md_version := kSharedRingVersion, md_kind := k, md_header_bytes := 192,
        md_mapping_bytes := 4096, md_capacity := 1, md_slot_stride := 64\<rparr>))"
  if "1 \<le> k" "k \<le> 3"
  using that by (simp add: create_shared_ring_def demo_ring_def system_page_size_def ring_valid_def empty_ring_def
      shared_ring_mapping_size_def valid_descriptor_def Let_def)

lemma demo_strides: "send_slot_stride 1 True = Inr 64" "receive_slot_stride 1 True = Inr 64"
  by (simp_all add: send_slot_stride_def receive_slot_stride_def aligned_slot_stride_def Let_def)

lemmas control_eval = qp_handle_def pd_mr_cq_handle_def control_method_defs new_request_def new_response_def
  response_for_def identity_response_def empty_shape_def empty_shape_except_payload_def
  device_context_handle_def request_shape_is_empty_def catalog_contains_def default_catalog_def
  make_create_context_request_def make_create_pd_request_def make_register_mr_request_def make_create_cq_request_def
  make_create_qp_request_def make_modify_qp_request_def make_connect_qp_request_def
  handle_create_pd_def add_child_def reg_update_def handle_register_mr_def register_mapped_mr_def new_mr_def index_mr_def
  allocate_keys_def encode_mr_registration_result_def handle_create_cq_def cq_descriptor_def handle_create_qp_def
  create_qp_queues_def insert_qp_def new_qp_def qp_references_def handle_modify_qp_def modify_qp_record_def
  handle_connect_qp_def connected_qp_def create_attributes_roundtrip modify_roundtrip connect_roundtrip
  encode_queue_descriptors_def valid_qp_create_attributes_def registry_eval reg_resolve_any_def

lemmas demo_eval = demo_world_def demo_objects_def demo_pairs_def demo_attributes_def demo_init_def demo_fields demo_ring_created demo_strides
  duplicate_fd_def make_ring_def qp_state_defs kQpTypeRc_def qp_mask_defs
  kAccessLocalWrite_def kAccessRemoteWrite_def completion_slot_stride_def

lemmas demo_state = demo_slot_def demo_registry_def demo_mapping_def demo_pd_def demo_mr_def demo_cq_def

lemma demo_base_run: "control_run default_catalog demo_objects = demo_base"
proof -
  obtain bs where e: "encode_mr_registration demo_memory = Inr bs" "decode_mr_registration bs 0x1000 = Inr demo_memory"
    using demo_mr_payload .
  show ?thesis
    by (simp add: control_run_def new_qp_service_def control_eval demo_eval e demo_base_def demo_state)
qed

lemma demo_service_run: "control_run default_catalog (demo_objects @ demo_pairs) = demo_service"
proof -
  have "control_run default_catalog (demo_objects @ demo_pairs) = fold control_exec demo_pairs demo_base"
    using demo_base_run by (simp add: control_run_def)
  also have "\<dots> = demo_service"
    by (simp add: control_eval demo_eval demo_base_def demo_service_def demo_state demo_qp_def)
  finally show ?thesis .
qed

lemmas demo_lookup = demo_service_def demo_base_def demo_state reg_entries_def decode_object_identity_def kMaxObjectSlot_def Let_def

lemma demo_entries:
  "pds_of demo_service demo_pd_id = Some (1, demo_pd 2)" "mrs_of demo_service demo_mr_id = Some (1, demo_mr)"
  "cqs_of demo_service demo_cq_id = Some (1, demo_cq 2)" "qps_of demo_service demo_qp_id = Some (1, demo_qp 1 2 demo_peer_id)"
  by (simp_all add: demo_lookup)

end
