(* ===== verification/Control_Service.thy ===== *)
theory Control_Service
  imports Control_Run
begin

unbundle bit_operations_syntax

text \<open>
  Properties of the control service as the daemon runs it, over every sequence of requests and
  disconnects: the invariant, isolation of sessions, failure atomicity, release on disconnect, the queue
  pair state machine, the order in which objects can be destroyed, and where memory keys lead. A run
  gives each event its own world, so that nothing is assumed of the memory backend or the system.
\<close>

section \<open>The objects of the service\<close>

text \<open>C24. Whatever clients send and whenever they disconnect, the objects of the daemon stay consistent:
  PDs and CQs belong to a live context of their own session, and the context counts them; every region
  is registered in its PD under its two keys, which no other region has; queue pairs use a PD and CQs of
  their own session and context, which count them; the index finds every queue pair by its number.\<close>

theorem control_objects_consistent:
  fixes catalog events
  defines "s \<equiv> control_run catalog events"
  shows "objects_ok (contexts_of s) (pds_of s) (cqs_of s) \<and>
    regions_ok (pm_next_key s) (pds_of s) (mrs_of s) \<and>
    numbers_ok (qps_of s) (qs_qp_num_index s) (qs_next_qp_num s) \<and>
    linked pd_qp_count pd_context_identity qp_pds qp_context_identity (pds_of s) (qps_of s) \<and>
    linked cq_qp_references cq_context_identity qp_cqs qp_context_identity (cqs_of s) (qps_of s)"
  using qp_invD [OF control_run_inv [of catalog events]] control_invD [OF qp_invD(1) [OF control_run_inv [of catalog events]]]
  by (simp add: s_def comp_def)

text \<open>C26. A request of one session cannot touch another session's objects: every context, PD, region, CQ
  and queue pair of another session is after the request exactly what it was before, and none appears
  in another session's name.\<close>

theorem sessions_isolated:
  assumes "s = control_run catalog events" "s' = control_exec (Request w sid rq) s" "t \<noteq> sid"
  shows "(contexts_of s' i = Some (t, c) \<longleftrightarrow> contexts_of s i = Some (t, c)) \<and>
    (pds_of s' i = Some (t, pd) \<longleftrightarrow> pds_of s i = Some (t, pd)) \<and>
    (mrs_of s' i = Some (t, mr) \<longleftrightarrow> mrs_of s i = Some (t, mr)) \<and>
    (cqs_of s' i = Some (t, cq) \<longleftrightarrow> cqs_of s i = Some (t, cq)) \<and>
    (qps_of s' i = Some (t, qp) \<longleftrightarrow> qps_of s i = Some (t, qp))"
  using qp_handle_ok [OF control_run_inv, of sid catalog events w rq] assms
  by (simp add: qp_outcome_ok_def qp_step_def foreign_same_def)

theorem sessions_isolated_witness:
  "pds_of (control_exec (Request demo_world 2 (make_destroy_pd_request demo_pd_id, [])) demo_service) demo_pd_id =
     Some (1, demo_pd 2)"
  using sessions_isolated [OF demo_service_run [symmetric] refl, where sid = 2 and t = 1] demo_entries(1) by simp

text \<open>C28. A request that is answered with an error changes no object: all five tables and the index of queue
  pair numbers are what they were.\<close>

theorem failed_request_changes_nothing:
  assumes "s = control_run catalog events" "qp_handle w s sid rq = ((response, fds), s')" "rp_status response \<noteq> OK"
  shows "contexts_of s' = contexts_of s \<and> pds_of s' = pds_of s \<and> mrs_of s' = mrs_of s \<and> cqs_of s' = cqs_of s \<and>
    qps_of s' = qps_of s \<and> qs_qp_num_index s' = qs_qp_num_index s"
  using qp_handle_ok [OF control_run_inv, of sid catalog events w rq] assms
  by (simp add: qp_outcome_ok_def same_objects_def)

theorem failed_request_changes_nothing_witness:
  "\<exists>response fds s'. qp_handle demo_world demo_service 2 (make_destroy_pd_request demo_pd_id, []) = ((response, fds), s') \<and>
     rp_status response = EINVAL \<and> pds_of s' = pds_of demo_service"
proof -
  let ?rq = "(make_destroy_pd_request demo_pd_id, [])"
  have "qp_handle demo_world demo_service 2 ?rq = (response_for ?rq EINVAL, demo_service)"
    by (simp add: control_eval make_destroy_pd_request_def handle_destroy_pd_def demo_lookup)
  then show ?thesis
    using failed_request_changes_nothing [OF demo_service_run [symmetric], of demo_world 2 ?rq "fst (response_for ?rq EINVAL)"
        "snd (response_for ?rq EINVAL)" demo_service]
    by (simp add: response_for_def)
qed

text \<open>C30. A disconnect removes every object of the session and nothing else.\<close>

theorem disconnect_releases_session:
  fixes catalog events w sid
  defines "s \<equiv> control_run catalog events" and "s' \<equiv> control_exec (Disconnect w sid) (control_run catalog events)"
  shows "contexts_of s' = drop_owner sid (contexts_of s) \<and> pds_of s' = drop_owner sid (pds_of s) \<and>
    mrs_of s' = drop_owner sid (mrs_of s) \<and> cqs_of s' = drop_owner sid (cqs_of s) \<and> qps_of s' = drop_owner sid (qps_of s)"
  using qp_on_disconnect_ok [OF control_run_inv [of catalog events], of w sid] by (simp add: s_def s'_def)

text \<open>C31. Memory mappings are neither used after they are closed nor leaked: the mapping of every live
  region is open in the backend, and if every close succeeded the open mappings are exactly those of
  the live regions.\<close>

theorem mappings_balanced:
  fixes catalog events
  defines "s \<equiv> control_run catalog events"
  shows "collect mr_mapping (mrs_of s) \<subseteq># held (pm_memory_backend s) \<and>
    (closes_succeed (pm_memory_backend s) \<longrightarrow> held (pm_memory_backend s) = collect mr_mapping (mrs_of s))"
  using control_invD(8) [OF qp_invD(1) [OF control_run_inv [of catalog events]]] by (auto simp: s_def mappings_ok_def)

theorem mappings_balanced_witness:
  "closes_succeed [OpenCall demo_memory (Inr demo_mapping)] \<and> collect mr_mapping (mrs_of demo_base) = {#demo_mapping#}"
  using mappings_balanced [of default_catalog demo_objects]
  by (simp add: demo_base_run) (simp add: demo_base_def closes_succeed_def held_def held_step_def)

text \<open>C25. A key gives access to the memory it was registered for and to no other. When \<open>resolve_key\<close>
  translates an address range for a session, a PD and a key, then there is a live region of this
  session and this PD with this key (with remote write access, for a remote key) that contains the
  range, and the translated range lies inside the mapping the backend opened for it.\<close>

theorem key_access_safe:
  assumes "s = control_run catalog events" "resolve_key sid p key address len remote s = Inr d"
  shows "\<exists>mr. key_grants remote sid p key address len s mr \<and> 0 < unat len \<and>
    unat d = unat (mr_daemon_address mr) + (unat address - unat (mr_client_address mr)) \<and>
    unat (im_daemon_base_address (mr_mapping mr)) \<le> unat d \<and>
    unat d + unat len \<le> unat (im_daemon_base_address (mr_mapping mr)) + unat (mr_allocation_size mr)"
proof -
  obtain mr where g: "key_grants remote sid p key address len s mr" "0 < unat len" "region_ok mr"
      "unat d = unat (mr_daemon_address mr) + (unat address - unat (mr_client_address mr))"
    using resolve_key_sound [OF qp_invD(1) [OF control_run_inv]] assms by blast
  then have "unat d + unat len \<le> unat (mr_daemon_address mr) + unat (mr_length mr)" by (auto simp: key_grants_def)
  then show ?thesis using g by (intro exI [of _ mr]) (auto simp: region_ok_def)
qed

theorem key_access_safe_witness:
  "resolve_key 1 demo_pd_id 2 0x5100 0x100 True demo_service = Inr 0x21100 \<and>
   (\<exists>mr. key_grants True 1 demo_pd_id 2 0x5100 0x100 demo_service mr)"
proof -
  have r: "resolve_key 1 demo_pd_id 2 0x5100 0x100 True demo_service = Inr 0x21100"
    by (simp add: resolve_key_def registry_eval demo_lookup kAccessRemoteWrite_def)
  show ?thesis using r key_access_safe [OF demo_service_run [symmetric] r] by blast
qed

section \<open>Destroying objects in order\<close>

lemma pd_mr_identities_live:
  assumes inv: "qp_inv s" and pd: "pds_of s p = Some (sid, pd)"
  shows "pd_mr_identities pd = {} \<longleftrightarrow> (\<forall>m t mr. mrs_of s m = Some (t, mr) \<longrightarrow> mr_pd_identity mr \<noteq> p)"
    and "pd_qp_count pd = 0 \<longleftrightarrow> (\<forall>q t qp. qps_of s q = Some (t, qp) \<longrightarrow> qp_pd_identity qp \<noteq> p)"
proof -
  note c = control_invD [OF qp_invD(1) [OF inv]] and d = qp_invD [OF inv]
  have "\<exists>mr. mrs_of s m = Some (sid, mr) \<and> mr_pd_identity mr = p" if "m \<in> pd_mr_identities pd" for m
    using regions_okD(4) [OF c(7) pd] that by (simp add: pd_index_ok_def)
  moreover have "m \<in> pd_mr_identities pd" if "mrs_of s m = Some (t, mr)" "mr_pd_identity mr = p" for m t mr
    using regions_okD(3) [OF c(7) that(1)] that(2) pd by (simp add: mr_index_ok_def)
  ultimately show "pd_mr_identities pd = {} \<longleftrightarrow> (\<forall>m t mr. mrs_of s m = Some (t, mr) \<longrightarrow> mr_pd_identity mr \<noteq> p)" by blast
  show "pd_qp_count pd = 0 \<longleftrightarrow> (\<forall>q t qp. qps_of s q = Some (t, qp) \<longrightarrow> qp_pd_identity qp \<noteq> p)"
    using linkedD(2) [OF d(4) pd] by (simp add: count_of_zero [OF d(6)]) (metis (no_types))
qed

lemma cq_references_live:
  assumes inv: "qp_inv s" and cq: "cqs_of s c = Some (sid, cq)"
  shows "cq_qp_references cq = 0 \<longleftrightarrow>
    (\<forall>q t qp. qps_of s q = Some (t, qp) \<longrightarrow> qp_send_cq_identity qp \<noteq> c \<and> qp_recv_cq_identity qp \<noteq> c)"
  using linkedD(2) [OF qp_invD(5) [OF inv] cq] by (simp add: count_of_zero [OF qp_invD(6) [OF inv]]) (metis (no_types))

lemma context_children_live:
  assumes inv: "qp_inv s" and c: "contexts_of s i = Some (sid, ctx)"
  shows "ctx_child_count ctx = 0 \<longleftrightarrow>
    (\<forall>p t pd. pds_of s p = Some (t, pd) \<longrightarrow> pd_context_identity pd \<noteq> i) \<and>
    (\<forall>q t cq. cqs_of s q = Some (t, cq) \<longrightarrow> cq_context_identity cq \<noteq> i)"
  using control_invD(6) [OF qp_invD(1) [OF inv]] control_inv_finite [OF qp_invD(1) [OF inv]] c
  by (auto simp: objects_ok_def count_of_zero)

lemma destroy_pd_status:
  assumes inv: "qp_inv s" and shape: "empty_shape rq" and pd: "pds_of s (rq_object_identity (fst rq)) = Some (sid, pd)"
    and m: "rq_method (fst rq) = cm_destroy_pd"
  shows "rp_status (fst (fst (qp_handle w s sid rq))) =
    (if pd_mr_identities pd \<noteq> {} \<or> pd_qp_count pd \<noteq> 0 then EBUSY else OK)"
proof -
  note c = control_invD [OF qp_invD(1) [OF inv]]
  obtain ctx where ctx: "contexts_of s (pd_context_identity pd) = Some (sid, ctx)"
    using c(6) pd by (auto simp: objects_ok_def dest: has_parentD)
  have "fst (reg_erase ot_pd sid (rq_object_identity (fst rq)) (pm_pds s)) = OK" using pd_reg.era_ok [OF c(2) pd] by simp
  moreover have "reg_resolve ot_pd sid (rq_object_identity (fst rq)) (pm_pds s) = Some pd"
      "reg_resolve ot_context sid (pd_context_identity pd) (dc_contexts s) = Some ctx" using pd ctx c by (simp_all add: table_res)
  moreover have "0 < ctx_child_count ctx"
    by (rule objects_ok_del_pd(2) [OF c(6) pd ctx control_inv_finite(2) [OF qp_invD(1) [OF inv]]])
  moreover have "qp_handle w s sid rq = handle_destroy_pd s sid rq"
    by (simp add: qp_handle_def pd_mr_cq_handle_def m control_method_defs)
  ultimately show ?thesis using shape by (auto simp: handle_destroy_pd_def Let_def split: prod.splits)
qed

lemma destroy_cq_status:
  assumes inv: "qp_inv s" and shape: "empty_shape rq" and cq: "cqs_of s (rq_object_identity (fst rq)) = Some (sid, cq)"
    and m: "rq_method (fst rq) = cm_destroy_cq"
  shows "rp_status (fst (fst (qp_handle w s sid rq))) = (if cq_qp_references cq \<noteq> 0 then EBUSY else OK)"
proof -
  note c = control_invD [OF qp_invD(1) [OF inv]]
  obtain ctx where ctx: "contexts_of s (cq_context_identity cq) = Some (sid, ctx)"
    using c(6) cq by (auto simp: objects_ok_def dest: has_parentD)
  have "fst (reg_erase ot_cq sid (rq_object_identity (fst rq)) (pm_cqs s)) = OK" using cq_reg.era_ok [OF c(4) cq] by simp
  moreover have "reg_resolve ot_cq sid (rq_object_identity (fst rq)) (pm_cqs s) = Some cq"
      "reg_resolve ot_context sid (cq_context_identity cq) (dc_contexts s) = Some ctx" using cq ctx c by (simp_all add: table_res)
  moreover have "0 < ctx_child_count ctx"
    by (rule objects_ok_del_cq(2) [OF c(6) cq ctx control_inv_finite(4) [OF qp_invD(1) [OF inv]]])
  moreover have "qp_handle w s sid rq = handle_destroy_cq s sid rq"
    by (simp add: qp_handle_def pd_mr_cq_handle_def m control_method_defs)
  ultimately show ?thesis using shape by (auto simp: handle_destroy_cq_def Let_def split: prod.splits)
qed

lemma destroy_context_status:
  assumes inv: "qp_inv s" and shape: "empty_shape rq" and ctx: "contexts_of s (rq_object_identity (fst rq)) = Some (sid, ctx)"
    and m: "rq_method (fst rq) = cm_destroy_context"
  shows "rp_status (fst (fst (qp_handle w s sid rq))) = (if ctx_child_count ctx \<noteq> 0 then EBUSY else OK)"
proof -
  note c = control_invD [OF qp_invD(1) [OF inv]]
  have "fst (reg_erase ot_context sid (rq_object_identity (fst rq)) (dc_contexts s)) = OK" using ctx_reg.era_ok [OF c(1) ctx] by simp
  moreover have "reg_resolve ot_context sid (rq_object_identity (fst rq)) (dc_contexts s) = Some ctx" using ctx c by (simp add: table_res)
  moreover have "qp_handle w s sid rq = device_context_handle s sid rq"
    by (simp add: qp_handle_def pd_mr_cq_handle_def m control_method_defs)
  ultimately show ?thesis
    using shape m by (auto simp: device_context_handle_def request_shape_is_empty_def empty_shape_def Let_def control_method_defs
        split: prod.splits)
qed



section \<open>The queue pair state machine\<close>

inductive qp_transition :: "qp_record \<Rightarrow> qp_record \<Rightarrow> bool" where
  stay: "qp_transition qp qp"
| to_init: "qp_state qp = kQpStateReset \<Longrightarrow>
    qp_transition qp (qp\<lparr>qp_access_flags := kQpAccessRemoteWrite, qp_state := kQpStateInit\<rparr>)"
| to_rts: "qp_state qp = kQpStateInit \<Longrightarrow> qp_peer_qp_num qp = 0 \<Longrightarrow> n \<noteq> 0 \<Longrightarrow> valid_retry_attributes a \<Longrightarrow>
    qp_transition qp (connected_qp n peer a qp)"
| to_err: "qp_state qp \<noteq> kQpStateErr \<Longrightarrow> qp_transition qp (qp\<lparr>qp_state := kQpStateErr\<rparr>)"

inductive_cases qp_transitionE: "qp_transition qp qp'"

lemma modify_transition:
  assumes "modify_qp_record a m qp = Inr qp'"
  shows "qp_transition qp qp'"
  using assms
  by (auto simp: modify_qp_record_def Let_def qp_state_defs split: if_split_asm
      intro: to_init [unfolded qp_state_defs] to_err [unfolded qp_state_defs])

lemma connect_transition:
  assumes inv: "qp_inv s" and q: "qps_of s q = Some (t, qp)" "qps_of (snd (handle_connect_qp s sid rq)) q = Some (t', qp')"
  shows "qp_transition qp qp'"
proof -
  note d = qp_invD [OF inv]
  let ?i = "rq_object_identity (fst rq)"
  have "qp_transition qp qp'"
    if "reg_resolve ot_qp sid ?i (qs_qps s) = Some x" "n \<noteq> 0" "valid_retry_attributes a" "qp_state x = kQpStateInit"
      "reg_entries ot_qp (reg_update ?i (connected_qp n j a) (qs_qps s)) q = Some (t', qp')" for x n a j
  proof -
    have x: "qps_of s ?i = Some (sid, x)" using that(1) d(2) by (simp add: qp_reg.res_entries)
    have "qp_peer_qp_num x = 0"
      using numbers_okD(2) [OF d(3) x] that(4) by (auto simp: qp_record_ok_def qp_state_defs)
    then show ?thesis
      using qp_reg.upd_ok [OF d(2) x, of "connected_qp n j a"] that(2-5) q(1) x by (auto intro: stay to_rts split: if_splits)
  qed
  then show ?thesis
    using q stay [of qp]
    by (auto simp: handle_connect_qp_def Let_def split: if_split_asm sum.split_asm option.split_asm)
qed

lemma base_keeps_qps:
  assumes "qp_inv s"
  shows "qs_qps (snd (pd_mr_cq_handle w s sid rq)) = qs_qps s"
proof -
  have "control_step sid s (snd (pd_mr_cq_handle w s sid rq))"
    using pd_mr_cq_handle_ok [OF qp_invD(1) [OF assms]] by (auto simp: outcome_ok_def)
  then have "pd_mr_cq_service.more (snd (pd_mr_cq_handle w s sid rq)) = pd_mr_cq_service.more s"
    by (simp add: control_step_def)
  then show ?thesis by (rule qp_fields_of_more)
qed

lemma references_keep_qps: "qs_qps (qp_references f p a b s) = qs_qps s"
  by (rule qp_fields_of_more(1)) (simp add: qp_references_def Let_def)

lemma create_keeps_qps:
  assumes inv: "qp_inv s" and q: "qps_of s q = Some (t, qp)"
  shows "qps_of (snd (handle_create_qp w s sid rq)) q = Some (t, qp)"
proof -
  note d = qp_invD [OF inv]
  have ins: "reg_entries ot_qp qps q = Some (t, qp)" if "reg_insert ot_qp sid x (qs_qps s) = (Some i, qps)" for x i qps
    using qp_reg.ins_some [OF d(2) that] q by auto
  have none: "reg_entries ot_qp qps q = Some (t, qp)" if "reg_insert ot_qp sid x (qs_qps s) = (None, qps)" for x qps
    using qp_reg.ins_none [OF d(2) that] q by simp
  have era: "reg_entries ot_qp (snd (reg_erase ot_qp sid i qps)) q = Some (t, qp)"
    if i: "reg_insert ot_qp sid x (qs_qps s) = (Some i, qps)" for x i qps
  proof -
    note e = qp_reg.ins_some [OF d(2) i]
    have "reg_inv qps" using qp_reg.ins_inv [OF d(2), of sid x] i by simp
    then show ?thesis using qp_reg.era_ok [of qps i sid x] e q by auto
  qed
  show ?thesis
    using q by (auto simp: handle_create_qp_def insert_qp_def Let_def references_keep_qps ins none era
        split: sum.split option.split prod.split)
qed

lemma destroy_keeps_qps:
  assumes inv: "qp_inv s" and q: "qps_of s q = Some (t, qp)" "qps_of (snd (handle_destroy_qp s sid rq)) q = Some (t', qp')"
  shows "qp' = qp"
proof -
  note d = qp_invD [OF inv]
  have "reg_entries ot_qp qps = (qps_of s)(i := None)"
    if "reg_resolve ot_qp sid i (qs_qps s) = Some x" "reg_erase ot_qp sid i (qs_qps s) = (st, qps)" for i x st qps
    using qp_reg.era_ok [OF d(2), of i sid x] that d(2) by (simp add: qp_reg.res_entries)
  then show ?thesis
    using q by (auto simp: handle_destroy_qp_def Let_def references_keep_qps
        split: if_split_asm option.split_asm prod.split_asm)
qed

lemma modify_request_transition:
  assumes inv: "qp_inv s" and q: "qps_of s q = Some (t, qp)" "qps_of (snd (handle_modify_qp s sid rq)) q = Some (t', qp')"
  shows "qp_transition qp qp'"
proof -
  note d = qp_invD [OF inv]
  have "qp_transition qp qp'"
    if "reg_resolve ot_qp sid i (qs_qps s) = Some x" "modify_qp_record a m x = Inr y"
      "reg_entries ot_qp (reg_update i (\<lambda>_. y) (qs_qps s)) q = Some (t', qp')" for i x a m y
  proof -
    have x: "qps_of s i = Some (sid, x)" using that(1) d(2) by (simp add: qp_reg.res_entries)
    show ?thesis
      using qp_reg.upd_ok [OF d(2) x, of "\<lambda>_. y"] that(3) q(1) x modify_transition [OF that(2)]
      by (auto intro: stay split: if_splits)
  qed
  then show ?thesis
    using q stay [of qp]
    by (auto simp: handle_modify_qp_def Let_def split: if_split_asm sum.split_asm option.split_asm)
qed

lemma qp_handle_cases:
  "qp_handle w s sid rq = handle_create_qp w s sid rq \<or> qp_handle w s sid rq = handle_destroy_qp s sid rq \<or>
   qp_handle w s sid rq = handle_query_qp s sid rq \<or> qp_handle w s sid rq = handle_modify_qp s sid rq \<or>
   qp_handle w s sid rq = handle_query_qp_conn_info s sid rq \<or> qp_handle w s sid rq = handle_connect_qp s sid rq \<or>
   qp_handle w s sid rq = pd_mr_cq_handle w s sid rq"
  by (simp add: qp_handle_def Let_def)

lemma queries_keep_qps:
  "qs_qps (snd (handle_query_qp s sid rq)) = qs_qps s" "qs_qps (snd (handle_query_qp_conn_info s sid rq)) = qs_qps s"
  by (auto simp: handle_query_qp_def handle_query_qp_conn_info_def split: sum.split option.split)

lemma qp_handle_transition:
  assumes inv: "qp_inv s" and q: "qps_of s q = Some (t, qp)" "qps_of (snd (qp_handle w s sid rq)) q = Some (t', qp')"
  shows "qp_transition qp qp'"
  using qp_handle_cases [of w s sid rq]
proof (elim disjE)
  assume "qp_handle w s sid rq = handle_create_qp w s sid rq"
  then show ?thesis using create_keeps_qps [OF inv q(1), of w sid rq] q(2) stay by simp
next
  assume "qp_handle w s sid rq = handle_destroy_qp s sid rq"
  then show ?thesis using destroy_keeps_qps [OF inv q(1), of sid rq] q(2) stay by simp
next
  assume "qp_handle w s sid rq = handle_modify_qp s sid rq"
  then show ?thesis using modify_request_transition [OF inv q(1), of sid rq] q(2) by simp
next
  assume "qp_handle w s sid rq = handle_connect_qp s sid rq"
  then show ?thesis using connect_transition [OF inv q(1), of sid rq] q(2) by simp
qed (use q stay base_keeps_qps [OF inv, of w sid rq] queries_keep_qps [of s sid rq] in simp_all)

text \<open>C27. Queue pairs move through their states only as the state machine allows. Whatever request is
  handled, every queue pair that exists before and after it has stayed as it was, or gone from RESET to
  INIT, from INIT to RTS by being connected to a peer (once: it had none), or to ERR.\<close>

theorem qp_state_machine:
  assumes s: "s = control_run catalog events"
    and q: "qps_of s q = Some (t, qp)" "qps_of (control_exec (Request w sid rq) s) q = Some (t', qp')"
  shows "qp_transition qp qp'"
  using qp_handle_transition [OF control_run_inv] q by (simp add: s)

theorem qp_state_machine_witness:
  "\<exists>qp'. qps_of (control_exec (Request demo_world 1 (make_modify_qp_request demo_qp_id (new_attributes\<lparr>at_state := kQpStateErr\<rparr>)
       kQpMaskState, [])) demo_service) demo_qp_id = Some (1, qp') \<and> qp_state qp' = kQpStateErr \<and>
     qp_transition (demo_qp 1 2 demo_peer_id) qp'"
proof -
  let ?s' = "control_exec (Request demo_world 1 (make_modify_qp_request demo_qp_id (new_attributes\<lparr>at_state := kQpStateErr\<rparr>)
    kQpMaskState, [])) demo_service"
  have q: "qps_of ?s' demo_qp_id = Some (1, (demo_qp 1 2 demo_peer_id)\<lparr>qp_state := kQpStateErr\<rparr>)"
    by (simp add: control_eval demo_eval demo_lookup demo_qp_def new_attributes_def)
  show ?thesis using q qp_state_machine [OF demo_service_run [symmetric] demo_entries(4) q] by auto
qed

end
