(* ===== verification/Local_Transport.thy ===== *)
theory Local_Transport
  imports Ring_System
begin

text \<open>
  \<^verbatim>\<open>worker/local_transport.cpp\<close> and \<^verbatim>\<open>worker/copy_backend.hpp\<close>: the bounded queues of datagrams between the
  two workers of a connection, and the copy backend, a virtual interface. A backend is the record of its
  operations on a state of its own; the batch operations the interface defines by default are loops over
  the single ones. Both queues of the transport are FIFO channels.
\<close>

section \<open>Datagrams\<close>

datatype datagram_opcode = Rdma_write | Rdma_write_with_immediate

datatype datagram_result =
    Success | Rnr | Remote_invalid_request | Remote_access_error | Remote_operation_error | Backend_error

record request_datagram =
  rqd_parent_request_id :: u64
  rqd_source_qp_num :: u32
  rqd_target_qp_num :: u32
  rqd_opcode :: datagram_opcode
  rqd_remote_address :: u64
  rqd_rkey :: u32
  rqd_immediate_data :: u32
  rqd_parent_total_length :: u64
  rqd_payload_offset :: u64
  rqd_source_daemon_address :: u64
  rqd_payload_length :: u32
  rqd_payload_index :: u32
  rqd_payload_count :: u32

record response_datagram =
  rsd_parent_request_id :: u64
  rsd_result :: datagram_result
  rsd_rnr_delay :: u8

section \<open>The transport\<close>

record local_transport =
  lt_request_capacity :: nat
  lt_response_capacity :: nat
  lt_requests :: "request_datagram list"
  lt_responses :: "response_datagram list"

definition new_transport :: "nat \<Rightarrow> nat \<Rightarrow> local_transport" where
  "new_transport request_capacity response_capacity =
     \<lparr>lt_request_capacity = request_capacity, lt_response_capacity = response_capacity,
      lt_requests = [], lt_responses = []\<rparr>"

definition try_push :: "'t list \<Rightarrow> nat \<Rightarrow> 't \<Rightarrow> bool \<times> 't list" where
  "try_push queue capacity v = (if length queue \<ge> capacity then (False, queue) else (True, queue @ [v]))"

definition try_pop :: "'t list \<Rightarrow> 't option \<times> 't list" where
  "try_pop queue = (case queue of [] \<Rightarrow> (None, queue) | v # rest \<Rightarrow> (Some v, rest))"

definition try_push_request :: "request_datagram \<Rightarrow> local_transport \<Rightarrow> bool \<times> local_transport" where
  "try_push_request request t =
     (case try_push (lt_requests t) (lt_request_capacity t) request of (ok, q) \<Rightarrow> (ok, t\<lparr>lt_requests := q\<rparr>))"

definition try_pop_request :: "local_transport \<Rightarrow> request_datagram option \<times> local_transport" where
  "try_pop_request t = (case try_pop (lt_requests t) of (v, q) \<Rightarrow> (v, t\<lparr>lt_requests := q\<rparr>))"

definition try_push_response :: "response_datagram \<Rightarrow> local_transport \<Rightarrow> bool \<times> local_transport" where
  "try_push_response response t =
     (case try_push (lt_responses t) (lt_response_capacity t) response of (ok, q) \<Rightarrow> (ok, t\<lparr>lt_responses := q\<rparr>))"

definition try_pop_response :: "local_transport \<Rightarrow> response_datagram option \<times> local_transport" where
  "try_pop_response t = (case try_pop (lt_responses t) of (v, q) \<Rightarrow> (v, t\<lparr>lt_responses := q\<rparr>))"

lemmas transport_defs = try_push_def try_pop_def try_push_request_def try_pop_request_def try_push_response_def
  try_pop_response_def

section \<open>Both directions are FIFO channels\<close>

definition transport_ok :: "local_transport \<Rightarrow> bool" where
  "transport_ok t \<longleftrightarrow> length (lt_requests t) \<le> lt_request_capacity t \<and> length (lt_responses t) \<le> lt_response_capacity t"

text \<open>The calls of the two workers, seen from the requests and from the responses.\<close>

datatype transport_call =
    Push_request request_datagram | Pop_request | Push_response response_datagram | Pop_response

fun transport_step :: "transport_call \<Rightarrow> local_transport \<Rightarrow> local_transport" where
  "transport_step (Push_request r) t = snd (try_push_request r t)"
| "transport_step Pop_request t = snd (try_pop_request t)"
| "transport_step (Push_response r) t = snd (try_push_response r t)"
| "transport_step Pop_response t = snd (try_pop_response t)"

definition request_event :: "transport_call \<Rightarrow> local_transport \<Rightarrow> request_datagram chan_event" where
  "request_event call t =
     (case call of
        Push_request r \<Rightarrow> if fst (try_push_request r t) then Sent [r] else Silent
      | Pop_request \<Rightarrow> (case fst (try_pop_request t) of Some r \<Rightarrow> Taken [r] | None \<Rightarrow> Silent)
      | _ \<Rightarrow> Silent)"

definition response_event :: "transport_call \<Rightarrow> local_transport \<Rightarrow> response_datagram chan_event" where
  "response_event call t =
     (case call of
        Push_response r \<Rightarrow> if fst (try_push_response r t) then Sent [r] else Silent
      | Pop_response \<Rightarrow> (case fst (try_pop_response t) of Some r \<Rightarrow> Taken [r] | None \<Rightarrow> Silent)
      | _ \<Rightarrow> Silent)"

interpretation request_channel: fifo_channel transport_ok lt_requests lt_request_capacity
  "\<lambda>t e u. \<exists>call. e = request_event call t \<and> u = transport_step call t"
proof (unfold_locales, goal_cases)
  case (1 s e t)
  then obtain call where "t = transport_step call s" by blast
  then show ?case using 1 by (cases call) (auto simp: transport_ok_def transport_defs split: list.splits)
next
  case (2 s e t)
  then obtain call where "e = request_event call s" "t = transport_step call s" by blast
  then show ?case by (cases call) (auto simp: request_event_def transport_defs split: list.splits)
next
  case (3 s e t)
  then obtain call where "t = transport_step call s" by blast
  then show ?case by (cases call) (auto simp: transport_defs split: list.splits)
qed (auto simp: transport_ok_def)

interpretation response_channel: fifo_channel transport_ok lt_responses lt_response_capacity
  "\<lambda>t e u. \<exists>call. e = response_event call t \<and> u = transport_step call t"
proof (unfold_locales, goal_cases)
  case (1 s e t)
  then show ?case using request_channel.inv_step by blast
next
  case (2 s e t)
  then obtain call where "e = response_event call s" "t = transport_step call s" by blast
  then show ?case by (cases call) (auto simp: response_event_def transport_defs split: list.splits)
next
  case (3 s e t)
  then obtain call where "t = transport_step call s" by blast
  then show ?case by (cases call) (auto simp: transport_defs split: list.splits)
qed (auto simp: transport_ok_def)

section \<open>The copy backend\<close>

record backend_request =
  br_parent_request_id :: u64
  br_parent_total_length :: u64
  br_payload_offset :: u64
  br_source_daemon_address :: u64
  br_target_daemon_address :: u64
  br_payload_length :: u32
  br_payload_index :: u32
  br_payload_count :: u32

record backend_completion =
  bc_parent_request_id :: u64
  bc_payload_index :: u32
  bc_result :: datagram_result

record 'b copy_backend =
  cb_try_submit :: "backend_request \<Rightarrow> 'b \<Rightarrow> bool \<times> 'b"
  cb_try_submit_batch :: "backend_request list \<Rightarrow> 'b \<Rightarrow> nat \<times> 'b"
  cb_flush_submissions :: "'b \<Rightarrow> bool \<times> 'b"
  cb_try_pop_completion :: "'b \<Rightarrow> backend_completion option \<times> 'b"
  cb_try_pop_completion_batch :: "nat \<Rightarrow> 'b \<Rightarrow> backend_completion list \<times> 'b"

text \<open>The operations a backend that overrides only the two single ones inherits.\<close>

fun default_submit_batch ::
  "(backend_request \<Rightarrow> 'b \<Rightarrow> bool \<times> 'b) \<Rightarrow> backend_request list \<Rightarrow> 'b \<Rightarrow> nat \<times> 'b" where
  "default_submit_batch try_submit [] b = (0, b)"
| "default_submit_batch try_submit (r # rs) b =
     (case try_submit r b of
        (False, b') \<Rightarrow> (0, b')
      | (True, b') \<Rightarrow> (case default_submit_batch try_submit rs b' of (n, b'') \<Rightarrow> (Suc n, b'')))"

fun default_pop_batch ::
  "('b \<Rightarrow> backend_completion option \<times> 'b) \<Rightarrow> nat \<Rightarrow> 'b \<Rightarrow> backend_completion list \<times> 'b" where
  "default_pop_batch try_pop_completion 0 b = ([], b)"
| "default_pop_batch try_pop_completion (Suc n) b =
     (case try_pop_completion b of
        (None, b') \<Rightarrow> ([], b')
      | (Some c, b') \<Rightarrow> (case default_pop_batch try_pop_completion n b' of (cs, b'') \<Rightarrow> (c # cs, b'')))"

definition default_backend ::
  "(backend_request \<Rightarrow> 'b \<Rightarrow> bool \<times> 'b) \<Rightarrow> ('b \<Rightarrow> backend_completion option \<times> 'b) \<Rightarrow> 'b copy_backend" where
  "default_backend try_submit try_pop_completion =
     \<lparr>cb_try_submit = try_submit, cb_try_submit_batch = default_submit_batch try_submit,
      cb_flush_submissions = (\<lambda>b. (True, b)), cb_try_pop_completion = try_pop_completion,
      cb_try_pop_completion_batch = default_pop_batch try_pop_completion\<rparr>"

text \<open>What the worker relies on: a batch accepts at most what it was given and returns at most what
  there is room for.\<close>

definition backend_ok :: "'b copy_backend \<Rightarrow> bool" where
  "backend_ok cb \<longleftrightarrow>
     (\<forall>rs b. fst (cb_try_submit_batch cb rs b) \<le> length rs) \<and>
     (\<forall>n b. length (fst (cb_try_pop_completion_batch cb n b)) \<le> n)"

lemma default_submit_batch_le: "fst (default_submit_batch f rs b) \<le> length rs"
  by (induction f rs b rule: default_submit_batch.induct) (auto split: prod.splits bool.splits)

lemma default_pop_batch_le: "length (fst (default_pop_batch f n b)) \<le> n"
  by (induction f n b rule: default_pop_batch.induct) (auto split: prod.splits option.splits)

lemma default_backend_ok: "backend_ok (default_backend f g)"
  by (simp add: backend_ok_def default_backend_def default_submit_batch_le default_pop_batch_le)

end
