(* ===== verification/Ring_Ports.thy ===== *)
theory Ring_Ports
  imports Ring_Clients
begin

text \<open>
  A ring used one entry at a time, as the workers use it: \<open>consumer_peek(&slot)\<close> and what the slot holds,
  \<open>consumer_release\<close>, \<open>producer_reserve(&slot)\<close>, the store into the slot and \<open>producer_publish\<close>. Each is
  the handle operation of \<open>Shared_Ring\<close> on the handle and the shared words, after the other side has run.
\<close>

section \<open>Taking entries\<close>

definition peek_entry :: "'a ring_env \<Rightarrow> 'a ring_sys \<Rightarrow> int \<times> 'a option \<times> 'a ring_sys" where
  "peek_entry env s =
     (case env 0 s of (s0, t1, t2) \<Rightarrow>
        (case consumer_peek_one (rs_head s0) t1 t2 True (rs_consumer s0) of
           (status, r, slot) \<Rightarrow> (status, map_option (rs_slots s0) slot, s0\<lparr>rs_consumer := r\<rparr>)))"

definition release_entries :: "u32 \<Rightarrow> 'a ring_sys \<Rightarrow> int \<times> 'a ring_sys" where
  "release_entries n s =
     (case consumer_release n (rs_consumer s) of
        (status, store, r) \<Rightarrow>
          (status, s\<lparr>rs_consumer := r, rs_head := (case store of Some v \<Rightarrow> v | None \<Rightarrow> rs_head s)\<rparr>))"

abbreviation peeked_count :: "'a ring_sys \<Rightarrow> u32" where
  "peeked_count s \<equiv> cs_peeked (sr_consumer (rs_consumer s))"

text \<open>The consumer's side of a ring at which \<open>k\<close> entries (none or one) are peeked.\<close>

definition source_at :: "nat \<Rightarrow> 'a ring_sys \<Rightarrow> bool" where
  "source_at k s \<longleftrightarrow> ring_inv s \<and> k \<le> 1 \<and> peeked_count s = of_nat k"

lemma first_slot: "sp_data (sb_first (make_batch r i c)) = Some (slot_at r i)"
  by (simp add: make_batch_def Let_def)

lemma window_one: "start < unat (qd_capacity d) \<Longrightarrow> window d start (Suc 0) = [slot_off d start]"
  by (simp add: window_def)

lemma unat_le_one: "0 < unat (c :: u32) \<Longrightarrow> c \<le> 1 \<Longrightarrow> c = 1"
  by (simp add: word_le_nat_alt word_unat_eq_iff)

text \<open>The entry at the consumer's index is the oldest one.\<close>

lemma peeked_entry:
  assumes inv: "ring_inv s" and c: "peeked_count s = 1"
  defines "off \<equiv> slot_at (rs_consumer s) (cs_local_index (sr_consumer (rs_consumer s)))"
  shows "\<exists>xs. ring_contents s = rs_slots s off # xs" and "peeked_offsets (rs_consumer s) = [off]"
proof -
  note d = ring_invD [OF inv]
  have ini: "cs_initialized (sr_consumer (rs_consumer s))" using inv c by (auto simp: ring_inv_def Let_def)
  have off: "off = slot_off (ring_desc s) (cons_index s)"
    using ini by (simp add: off_def slot_at_def slot_off_def cons_index_def d(3))
  show "peeked_offsets (rs_consumer s) = [off]"
    using peeked_window [OF inv] window_one [OF d(11)] c off by simp
  obtain n where n: "ring_used s = Suc n" using d(8,9) c by (cases "ring_used s") auto
  have "window (ring_desc s) (cons_index s) (Suc n) = off # window (ring_desc s) (cons_index s + 1) n"
    using window_append [of "ring_desc s" "cons_index s" 1 n] window_one [OF d(11)] off by simp
  then show "\<exists>xs. ring_contents s = rs_slots s off # xs" by (simp add: ring_contents_def n)
qed

text \<open>A producer that adds no entry while the consumer runs.\<close>

definition posts_nothing :: "'a ring_env \<Rightarrow> bool" where
  "posts_nothing env \<longleftrightarrow> (\<forall>k s. ring_contents (fst (env k s)) = ring_contents s)"

lemma quiet_posts_nothing: "posts_nothing quiet_producer_env"
  by (simp add: posts_nothing_def quiet_producer_env_def)

lemma peek_entry_spec:
  assumes env: "producer_env_ok env" and at: "source_at 0 s" and eq: "peek_entry env s = (st, e, s')"
  shows "(\<exists>es. chan_run ring_step s es s' \<and> concat (map taken_of es) = [] \<and>
      (posts_nothing env \<longrightarrow> concat (map sent_of es) = [])) \<and>
    (st = OK \<and> source_at 1 s' \<and> (\<exists>x xs. e = Some x \<and> ring_contents s' = x # xs) \<or>
     st = EAGAIN \<and> source_at 0 s' \<and> e = None)"
proof -
  have inv: "ring_inv s" and z: "peeked_count s = 0" using at by (simp_all add: source_at_def)
  obtain s0 t1 t2 where e0: "env 0 s = (s0, t1, t2)" by (cases "env 0 s") auto
  note E = producer_env_okD [OF env inv e0]
  obtain es where run: "chan_run ring_step s es s0" "concat (map taken_of es) = []" using E(1) by blast
  have inv0: "ring_inv s0" by (rule ring_run_inv [OF run(1) inv])
  have z0: "peeked_count s0 = 0" using E(2) z by simp
  obtain st' r b where pk: "consumer_peek (rs_head s0) t1 t2 1 True (rs_consumer s0) = (st', r, b)" by (metis prod_cases3)
  note P = peek_spec [OF inv0 pk E(4,5)]
  have "ring_step s0 Silent (s0\<lparr>rs_consumer := r\<rparr>)" by (rule step_peek [OF pk E(4,5)])
  moreover have s': "s' = s0\<lparr>rs_consumer := r\<rparr>" and st: "st = st'"
    and e: "e = map_option (rs_slots s0) (case b of Some b \<Rightarrow> sp_data (sb_first b) | None \<Rightarrow> None)"
    using eq by (simp_all add: peek_entry_def e0 consumer_peek_one_def pk)
  ultimately have "chan_run ring_step s (es @ [Silent]) s'" using run(1) by (blast intro: chan_run_append chan_run_one)
  moreover have "concat (map taken_of (es @ [Silent])) = []" using run(2) by simp
  moreover have "concat (map sent_of (es @ [Silent])) = []" if "posts_nothing env"
  proof -
    have "ring_contents (fst (env 0 s)) = ring_contents s" using that unfolding posts_nothing_def by blast
    then show ?thesis using ring.run_fifo [OF run(1) inv] run(2) e0 by simp
  qed
  moreover have "st = OK \<and> source_at 1 s' \<and> (\<exists>x xs. e = Some x \<and> ring_contents s' = x # xs) \<or>
     st = EAGAIN \<and> source_at 0 s' \<and> e = None"
  proof (cases b)
    case None
    then have "st = EAGAIN" using P z0 st by auto
    moreover have "peeked_count s' = 0"
      using pk None z0 by (auto simp: s' consumer_peek_def consumer_init_def Let_def split: if_splits)
    ultimately show ?thesis using P None e s' by (simp add: source_at_def)
  next
    case (Some b')
    then have b: "st = OK" "b' = make_batch r (cs_local_index (sr_consumer r)) (cs_peeked (sr_consumer r))"
        "cs_peeked (sr_consumer r) = 1"
      using P st unat_le_one [of "cs_peeked (sr_consumer r)"] by auto
    have inv': "ring_inv s'" and pc: "peeked_count s' = 1" using P b(3) by (simp_all add: s')
    obtain xs where "ring_contents s' = rs_slots s' (slot_at r (cs_local_index (sr_consumer r))) # xs"
      using peeked_entry(1) [OF inv' pc] by (auto simp: s')
    then show ?thesis using b inv' pc e Some by (simp add: source_at_def first_slot s')
  qed
  ultimately show ?thesis by blast
qed

text \<open>Peeking while an entry is peeked fails and changes nothing on the consumer's side.\<close>

lemma peek_entry_busy:
  assumes env: "producer_env_ok env" and at: "source_at 1 s" and eq: "peek_entry env s = (st, e, s')"
  shows "st = EINVAL \<and> source_at 1 s' \<and> (\<exists>es. chan_run ring_step s es s' \<and> concat (map taken_of es) = [])"
proof -
  have inv: "ring_inv s" and c: "peeked_count s = 1" using at by (simp_all add: source_at_def)
  obtain s0 t1 t2 where e0: "env 0 s = (s0, t1, t2)" by (cases "env 0 s") auto
  note E = producer_env_okD [OF env inv e0]
  have c0: "peeked_count s0 = 1" using E(2) c by simp
  have "consumer_peek (rs_head s0) t1 t2 1 True (rs_consumer s0) = (EINVAL, rs_consumer s0, None)" using c0 by (simp add: consumer_peek_def)
  then have "st = EINVAL" "s' = s0" using eq by (simp_all add: peek_entry_def e0 consumer_peek_one_def)
  moreover obtain es where "chan_run ring_step s es s0" "concat (map taken_of es) = []" using E(1) by blast
  ultimately show ?thesis using ring_run_inv [OF _ inv] c0 by (auto simp: source_at_def)
qed

lemma release_entries_spec:
  assumes at: "source_at 1 s" and eq: "release_entries n s = (st, s')" and n: "n \<le> 1"
  shows "st = OK \<and> source_at 0 s' \<and>
    (\<exists>x xs. ring_contents s = x # xs \<and> chan_run ring_step s [Taken (if n = 0 then [] else [x])] s' \<and>
       ring_contents s' = (if n = 0 then x # xs else xs))"
proof -
  have inv: "ring_inv s" and c: "peeked_count s = 1" using at by (simp_all add: source_at_def)
  obtain st' store r where rel: "consumer_release n (rs_consumer s) = (st', store, r)" by (metis prod_cases3)
  have s': "st = st'" "s' = s\<lparr>rs_consumer := r, rs_head := (case store of Some v \<Rightarrow> v | None \<Rightarrow> rs_head s)\<rparr>"
    using eq by (simp_all add: release_entries_def rel)
  have ok: "st = OK" "peeked_count s' = 0"
    using rel c n ring_invD(2) [OF inv] unfolding s' by (auto simp: consumer_release_def Let_def split: if_splits)
  note R = release_spec [OF inv rel, folded s'(2)]
  obtain xs where c0: "ring_contents s = rs_slots s (slot_at (rs_consumer s) (cs_local_index (sr_consumer (rs_consumer s)))) # xs"
    using peeked_entry(1) [OF inv c] by blast
  have "n = 0 \<or> n = 1" using n unat_le_one [of n] by (auto simp: unat_gt_0)
  moreover have "ring_step s (Taken (map (rs_slots s) (take (unat n) (peeked_offsets (rs_consumer s))))) s'"
    using step_release [OF rel refl] ok(1) by (simp add: s')
  ultimately show ?thesis
    using R ok s'(1) c0 peeked_entry(2) [OF inv c]
    by (intro conjI exI [of _ "rs_slots s (slot_at (rs_consumer s) (cs_local_index (sr_consumer (rs_consumer s))))"] exI [of _ xs])
      (auto simp: source_at_def intro!: chan_run_one)
qed

section \<open>Appending entries\<close>

definition reserve_entry :: "'a ring_env \<Rightarrow> 'a ring_sys \<Rightarrow> int \<times> nat option \<times> 'a ring_sys" where
  "reserve_entry env s =
     (case env 0 s of (s0, h1, h2) \<Rightarrow>
        (case producer_reserve_one (rs_tail s0) h1 h2 True (rs_producer s0) of
           (status, r, slot) \<Rightarrow> (status, slot, s0\<lparr>rs_producer := r\<rparr>)))"

definition write_entry :: "nat \<Rightarrow> 'a \<Rightarrow> 'a ring_sys \<Rightarrow> 'a ring_sys" where
  "write_entry off v s = s\<lparr>rs_slots := (rs_slots s)(off := v)\<rparr>"

definition publish_entries :: "u32 \<Rightarrow> 'a ring_sys \<Rightarrow> int \<times> 'a ring_sys" where
  "publish_entries n s =
     (case producer_publish n (rs_producer s) of
        (status, store, r) \<Rightarrow>
          (status, s\<lparr>rs_producer := r, rs_tail := (case store of Some v \<Rightarrow> v | None \<Rightarrow> rs_tail s)\<rparr>))"

text \<open>By the head that the call loads, every slot is in use.\<close>

definition no_room :: "'a ring_env \<Rightarrow> 'a ring_sys \<Rightarrow> bool" where
  "no_room env s \<longleftrightarrow> (case env 0 s of (s0, h1, h2) \<Rightarrow> unat (rs_tail s0 - h2) = ring_cap s0)"

abbreviation reserved_count :: "'a ring_sys \<Rightarrow> u32" where
  "reserved_count s \<equiv> ps_reserved (sr_producer (rs_producer s))"

definition sink_at :: "nat \<Rightarrow> 'a ring_sys \<Rightarrow> bool" where
  "sink_at k s \<longleftrightarrow> ring_inv s \<and> k \<le> 1 \<and> reserved_count s = of_nat k"

lemma reserve_entry_spec:
  assumes env: "env_ok env" and at: "sink_at 0 s" and eq: "reserve_entry env s = (st, off, s')"
  shows "(\<exists>es. chan_run ring_step s es s' \<and> concat (map sent_of es) = []) \<and> ring_cap s' = ring_cap s \<and>
    ring_desc s' = ring_desc s \<and>
    (st = OK \<and> sink_at 1 s' \<and> (\<exists>slot. off = Some slot \<and> reserved_offsets (rs_producer s') = [slot]) \<or>
     st = EAGAIN \<and> sink_at 0 s' \<and> off = None)"
proof -
  have inv: "ring_inv s" and z: "reserved_count s = 0" using at by (simp_all add: sink_at_def)
  obtain s0 h1 h2 where e0: "env 0 s = (s0, h1, h2)" by (cases "env 0 s") auto
  note E = env_okD [OF env inv e0]
  obtain es where cr: "chan_run consumer_step s es s0" using E(1) by blast
  note C = consumer_run_ring [OF cr]
  have inv0: "ring_inv s0" using C ring_run_inv [OF _ inv] by blast
  obtain st' r b where rv: "producer_reserve (rs_tail s0) h1 h2 1 True (rs_producer s0) = (st', r, b)" by (metis prod_cases3)
  note P = reserve_spec [OF inv0 rv E(2,3)]
  have step: "ring_step s0 Silent (s0\<lparr>rs_producer := r\<rparr>)" by (rule step_reserve [OF rv E(2,3)])
  have s': "s' = s0\<lparr>rs_producer := r\<rparr>" and st: "st = st'"
    and off: "off = (case b of Some b \<Rightarrow> sp_data (sb_first b) | None \<Rightarrow> None)"
    using eq by (simp_all add: reserve_entry_def e0 producer_reserve_one_def rv)
  have desc: "ring_desc s' = ring_desc s" using reserve_keeps_descriptor [OF rv] C by (simp add: s')
  have "chan_run ring_step s (es @ [Silent]) s'" using C step s' by (blast intro: chan_run_append chan_run_one)
  moreover have "concat (map sent_of (es @ [Silent])) = []" using C by simp
  moreover have "st = OK \<and> sink_at 1 s' \<and> (\<exists>slot. off = Some slot \<and> reserved_offsets (rs_producer s') = [slot]) \<or>
     st = EAGAIN \<and> sink_at 0 s' \<and> off = None"
  proof (cases b)
    case None
    have "reserved_count s' = 0" using reserve_none_keeps_reserved [OF rv [unfolded None]] C z by (simp add: s')
    then show ?thesis using P None off st C z by (auto simp: sink_at_def s')
  next
    case (Some b')
    then have b: "st = OK" "b' = make_batch r (ps_local_index (sr_producer r)) (ps_reserved (sr_producer r))"
        "ps_reserved (sr_producer r) = 1"
      using P st unat_le_one [of "ps_reserved (sr_producer r)"] by auto
    have inv': "ring_inv s'" and pc: "reserved_count s' = 1" using P b(3) by (simp_all add: s')
    have ini: "ps_initialized (sr_producer r)" using inv' pc by (auto simp: ring_inv_def Let_def s')
    have "reserved_offsets r = window (ring_desc s') (prod_index s') (Suc 0)"
      using reserved_window [OF inv'] pc window_mod [of "ring_desc s'" "cons_index s' + ring_used s'" "Suc 0"]
        ring_invD(12) [OF inv'] by (simp add: s')
    then have "reserved_offsets r = [slot_at r (ps_local_index (sr_producer r))]"
      using window_one [OF ring_invD(10) [OF inv']] ini by (simp add: slot_at_def slot_off_def prod_index_def s')
    then show ?thesis using b inv' pc off Some by (simp add: sink_at_def first_slot s')
  qed
  moreover have "ring_cap s' = ring_cap s" by (simp add: desc)
  ultimately show ?thesis using desc by blast
qed

lemma publish_entries_spec:
  assumes at: "sink_at 1 s" and slot: "reserved_offsets (rs_producer s) = [slot]" and n: "n \<le> 1"
    and eq: "publish_entries n (write_entry slot v s) = (st, s')"
  shows "st = OK \<and> sink_at 0 s' \<and> ring_desc s' = ring_desc s \<and>
    ring_contents s' = ring_contents s @ (if n = 0 then [] else [v]) \<and>
    (\<exists>es. chan_run ring_step s es s' \<and> concat (map sent_of es) = (if n = 0 then [] else [v]))"
proof -
  let ?w = "write_entry slot v s"
  have inv: "ring_inv s" and c: "reserved_count s = 1" using at by (simp_all add: sink_at_def)
  have wr: "ring_step s Silent ?w" unfolding write_entry_def by (rule step_write) (simp add: slot)
  have W: "ring_inv ?w \<and> ring_contents ?w = ring_contents s" using write_spec [OF inv] slot by (simp add: write_entry_def)
  have pw: "rs_producer ?w = rs_producer s" "rs_slots ?w slot = v" by (simp_all add: write_entry_def)
  obtain st' store r where pub: "producer_publish n (rs_producer ?w) = (st', store, r)" by (metis prod_cases3)
  have s': "st = st'" "s' = ?w\<lparr>rs_producer := r, rs_tail := (case store of Some x \<Rightarrow> x | None \<Rightarrow> rs_tail ?w)\<rparr>"
    using eq by (simp_all add: publish_entries_def pub)
  have ok: "st = OK" "reserved_count s' = 0" "ring_desc s' = ring_desc s"
    using pub c n ring_invD(1) [OF inv] pw(1) unfolding s' by (auto simp: producer_publish_def Let_def split: if_splits)
  have n01: "n = 0 \<or> n = 1" using n unat_le_one [of n] by (auto simp: unat_gt_0)
  note P = publish_spec [OF conjunct1 [OF W] pub, folded s'(2)]
  have "ring_step ?w (Sent (if n = 0 then [] else [v])) s'"
    using step_publish [OF pub refl] ok(1) n01 slot pw by (auto simp: s')
  then have "chan_run ring_step s [Silent, Sent (if n = 0 then [] else [v])] s'"
    using chan_run_append [OF chan_run_one [of ring_step, OF wr] chan_run_one] by fastforce
  then have "\<exists>es. chan_run ring_step s es s' \<and> concat (map sent_of es) = (if n = 0 then [] else [v])"
    by (intro exI [of _ "[Silent, Sent (if n = 0 then [] else [v])]"]) simp
  then show ?thesis using P W ok s'(1) n01 slot pw by (auto simp: sink_at_def)
qed

end
