(* ===== verification/Worker.thy ===== *)
theory Worker
  imports Local_Transport Ring_Ports Completion_Queue Qp
begin

unbundle bit_operations_syntax

text \<open>
  \<^verbatim>\<open>worker/worker.cpp\<close>: the loop worker of one side of a connection. The record \<open>loop_worker\<close> holds the
  worker's own fields and what its references and the rings of its view lead to: the transport, the
  backend, the four rings (of which a worker consumes its queue and produces to its completion queue)
  and the events its observer was given. Before each call on a ring the client at the other end may
  have run, which is what \<open>worker_env\<close> says for one call of a \<open>try_\<close> function. The control service is
  only read.

  A loop that may not end is a \<open>partial_function\<close> with \<open>None\<close> for not returning.
\<close>

section \<open>Completions\<close>

abbreviation UGDR_WC_SUCCESS :: u32 where "UGDR_WC_SUCCESS \<equiv> 0"
abbreviation UGDR_WC_LOC_LEN_ERR :: u32 where "UGDR_WC_LOC_LEN_ERR \<equiv> 1"
abbreviation UGDR_WC_LOC_QP_OP_ERR :: u32 where "UGDR_WC_LOC_QP_OP_ERR \<equiv> 2"
abbreviation UGDR_WC_LOC_PROT_ERR :: u32 where "UGDR_WC_LOC_PROT_ERR \<equiv> 4"
abbreviation UGDR_WC_REM_INV_REQ_ERR :: u32 where "UGDR_WC_REM_INV_REQ_ERR \<equiv> 9"
abbreviation UGDR_WC_REM_ACCESS_ERR :: u32 where "UGDR_WC_REM_ACCESS_ERR \<equiv> 10"
abbreviation UGDR_WC_REM_OP_ERR :: u32 where "UGDR_WC_REM_OP_ERR \<equiv> 11"
abbreviation UGDR_WC_RNR_RETRY_EXC_ERR :: u32 where "UGDR_WC_RNR_RETRY_EXC_ERR \<equiv> 13"
abbreviation UGDR_WC_GENERAL_ERR :: u32 where "UGDR_WC_GENERAL_ERR \<equiv> 21"
abbreviation UGDR_WC_RDMA_WRITE :: u32 where "UGDR_WC_RDMA_WRITE \<equiv> 1"
abbreviation UGDR_WC_RECV_RDMA_WITH_IMM :: u32 where "UGDR_WC_RECV_RDMA_WITH_IMM \<equiv> 129"
abbreviation UGDR_WC_WITH_IMM :: u32 where "UGDR_WC_WITH_IMM \<equiv> 2"

definition completion_status :: "datagram_result \<Rightarrow> u32" where
  "completion_status result =
     (case result of
        Success \<Rightarrow> UGDR_WC_SUCCESS
      | Rnr \<Rightarrow> UGDR_WC_RNR_RETRY_EXC_ERR
      | Remote_invalid_request \<Rightarrow> UGDR_WC_REM_INV_REQ_ERR
      | Remote_access_error \<Rightarrow> UGDR_WC_REM_ACCESS_ERR
      | Remote_operation_error \<Rightarrow> UGDR_WC_REM_OP_ERR
      | Backend_error \<Rightarrow> UGDR_WC_GENERAL_ERR)"

definition empty_entry :: completion_entry where
  "empty_entry = \<lparr>ce_wr_id = 0, ce_status = 0, ce_opcode = 0, ce_byte_length = 0, ce_immediate_data = 0,
     ce_qp_num = 0, ce_flags = 0\<rparr>"

definition send_completion :: "u64 \<Rightarrow> u32 \<Rightarrow> datagram_result \<Rightarrow> completion_entry" where
  "send_completion wr_id qp_num result =
     empty_entry\<lparr>ce_wr_id := wr_id, ce_status := completion_status result, ce_opcode := UGDR_WC_RDMA_WRITE,
       ce_qp_num := qp_num\<rparr>"

section \<open>The worker\<close>

record parent_completion_event =
  pe_parent_request_id :: u64
  pe_wr_id :: u64
  pe_logical_bytes :: u64
  pe_payload_count :: u32
  pe_result :: datagram_result

datatype loop_worker_role = Requester | Responder

record source_segment =
  seg_daemon_address :: u64
  seg_length :: u32

record requester_inflight =
  ri_wr_id :: u64
  ri_signaled :: bool
  ri_logical_bytes :: u64
  ri_payload_count :: u32

record pending_send =
  pn_parent_request_id :: u64
  pn_wr_id :: u64
  pn_signaled :: bool
  pn_opcode :: datagram_opcode
  pn_source_qp_num :: u32
  pn_target_qp_num :: u32
  pn_remote_address :: u64
  pn_rkey :: u32
  pn_immediate_data :: u32
  pn_total_length :: u64
  pn_payload_count :: u32
  pn_source_segments :: "source_segment list"
  pn_segment_index :: nat
  pn_segment_offset :: u32
  pn_payload_offset :: u64
  pn_payload_index :: u32
  pn_zero_payload_sent :: bool

record responder_inflight =
  rf_source_qp_num :: u32
  rf_target_qp_num :: u32
  rf_opcode :: datagram_opcode
  rf_remote_address :: u64
  rf_rkey :: u32
  rf_immediate_data :: u32
  rf_parent_total_length :: u64
  rf_target_daemon_address :: u64
  rf_next_payload_offset :: u64
  rf_next_payload_index :: u32
  rf_payload_count :: u32
  rf_terminal_count :: u32
  rf_terminal :: "u8 list"
  rf_results :: "datagram_result list"
  rf_parent_error :: datagram_result
  rf_has_receive :: bool
  rf_receive_consumed :: bool
  rf_receive_wr_id :: u64
  rf_byte_length :: u32

abbreviation kBackendBatchCapacity :: nat where "kBackendBatchCapacity \<equiv> 64"
abbreviation kDefaultPayloadBytes :: u64 where "kDefaultPayloadBytes \<equiv> 8192"

record 'b loop_worker =
  lw_qp_num :: u32
  lw_role :: loop_worker_role
  lw_payload_bytes :: u64
  lw_observer :: bool
  lw_next_sequence :: u32
  lw_requester_inflight :: "u64 \<rightharpoonup> requester_inflight"
  lw_responder_inflight :: "u64 \<rightharpoonup> responder_inflight"
  lw_responder_order :: "u64 list"
  lw_pending_send :: "pending_send option"
  lw_pending_request :: "request_datagram option"
  lw_pending_response :: "response_datagram option"
  lw_pending_backend_requests :: "backend_request list"
  lw_transport :: local_transport
  lw_backend :: 'b
  lw_send_queue :: "send_slot ring_sys"
  lw_receive_queue :: "receive_slot ring_sys"
  lw_send_cq :: "completion_entry ring_sys"
  lw_receive_cq :: "completion_entry ring_sys"
  lw_observed :: "parent_completion_event list"

record worker_env =
  we_send_queue :: "send_slot ring_env"
  we_receive_queue :: "receive_slot ring_env"
  we_send_cq :: "completion_entry ring_env"
  we_receive_cq :: "completion_entry ring_env"

record worker_rings =
  wr_send_queue :: "send_slot ring_sys"
  wr_receive_queue :: "receive_slot ring_sys"
  wr_send_cq :: "completion_entry ring_sys"
  wr_receive_cq :: "completion_entry ring_sys"

definition new_loop_worker ::
  "u32 \<Rightarrow> local_transport \<Rightarrow> 'b \<Rightarrow> loop_worker_role \<Rightarrow> u64 \<Rightarrow> bool \<Rightarrow> worker_rings \<Rightarrow> 'b loop_worker" where
  "new_loop_worker qp_num transport backend role payload_bytes have_observer rings =
     \<lparr>lw_qp_num = qp_num, lw_role = role,
      lw_payload_bytes = (if payload_bytes = 0 then kDefaultPayloadBytes else min payload_bytes 0xffffffff),
      lw_observer = have_observer, lw_next_sequence = 1, lw_requester_inflight = Map.empty,
      lw_responder_inflight = Map.empty, lw_responder_order = [], lw_pending_send = None,
      lw_pending_request = None, lw_pending_response = None, lw_pending_backend_requests = [],
      lw_transport = transport, lw_backend = backend, lw_send_queue = wr_send_queue rings,
      lw_receive_queue = wr_receive_queue rings, lw_send_cq = wr_send_cq rings, lw_receive_cq = wr_receive_cq rings,
      lw_observed = []\<rparr>"

text \<open>A call of one of the \<open>try_\<close> functions: what it returns and the worker it leaves.\<close>

type_synonym 'b worker_call = "worker_env \<Rightarrow> 'b loop_worker \<Rightarrow> bool \<times> 'b loop_worker"

section \<open>The responder\<close>

definition record_completion :: "backend_completion \<Rightarrow> 'b loop_worker \<Rightarrow> 'b loop_worker" where
  "record_completion c lw =
     (case lw_responder_inflight lw (bc_parent_request_id c) of
        None \<Rightarrow> lw
      | Some parent \<Rightarrow>
          let i = unat (bc_payload_index c);
              parent' =
                (if bc_payload_index c \<ge> rf_payload_count parent \<or> rf_terminal parent ! i \<noteq> 0
                 then parent\<lparr>rf_parent_error := Backend_error\<rparr>
                 else parent\<lparr>rf_terminal := (rf_terminal parent)[i := 1], rf_results := (rf_results parent)[i := bc_result c],
                        rf_terminal_count := rf_terminal_count parent + 1\<rparr>)
          in lw\<lparr>lw_responder_inflight := (lw_responder_inflight lw)(bc_parent_request_id c \<mapsto> parent')\<rparr>)"

definition try_backend_completions :: "'b copy_backend \<Rightarrow> 'b worker_call" where
  "try_backend_completions cb env lw =
     (case cb_try_pop_completion_batch cb kBackendBatchCapacity (lw_backend lw) of
        (completions, b) \<Rightarrow>
          if completions = [] then (False, lw\<lparr>lw_backend := b\<rparr>)
          else (True, fold record_completion completions (lw\<lparr>lw_backend := b\<rparr>)))"

definition try_flush_backend_requests :: "'b copy_backend \<Rightarrow> 'b worker_call" where
  "try_flush_backend_requests cb env lw =
     (let pending = lw_pending_backend_requests lw in
      if pending = [] then (False, lw)
      else case cb_try_submit_batch cb pending (lw_backend lw) of
        (accepted_count, b) \<Rightarrow>
          if accepted_count = 0 \<or> accepted_count > length pending then (False, lw\<lparr>lw_backend := b\<rparr>)
          else (True, lw\<lparr>lw_pending_backend_requests := drop accepted_count pending,
                        lw_backend := snd (cb_flush_submissions cb b)\<rparr>))"

definition parent_result :: "responder_inflight \<Rightarrow> datagram_result" where
  "parent_result parent =
     (if rf_parent_error parent = Success
      then case find (\<lambda>r. r \<noteq> Success) (rf_results parent) of None \<Rightarrow> Success | Some r \<Rightarrow> r
      else rf_parent_error parent)"

definition receive_completion :: "u32 \<Rightarrow> responder_inflight \<Rightarrow> completion_entry" where
  "receive_completion qp_num parent =
     empty_entry\<lparr>ce_wr_id := rf_receive_wr_id parent, ce_status := UGDR_WC_SUCCESS,
       ce_opcode := UGDR_WC_RECV_RDMA_WITH_IMM, ce_byte_length := rf_byte_length parent,
       ce_immediate_data := rf_immediate_data parent, ce_qp_num := qp_num, ce_flags := UGDR_WC_WITH_IMM\<rparr>"

text \<open>\<open>try_parent_response\<close> from line 176 on, for the parent at the front.\<close>

definition answer_parent :: "worker_qp_view \<Rightarrow> u64 \<Rightarrow> responder_inflight \<Rightarrow> 'b worker_call" where
  "answer_parent view parent_request_id parent env lw =
     (let result = parent_result parent;
          response = \<lparr>rsd_parent_request_id = parent_request_id, rsd_result = result, rsd_rnr_delay = 0\<rparr>;
          produce_receive = (result = Success \<and> rf_has_receive parent);
          erase = (\<lambda>lw. lw\<lparr>lw_responder_inflight := (lw_responder_inflight lw)(parent_request_id := None),
                          lw_responder_order := tl (lw_responder_order lw)\<rparr>)
      in if produce_receive then
           (case reserve_entry (we_receive_cq env) (lw_receive_cq lw) of
              (reserve_status, slot, cq) \<Rightarrow>
                if reserve_status \<noteq> OK then (False, lw\<lparr>lw_receive_cq := cq\<rparr>)
                else (case try_push_response response (lw_transport lw) of
                   (False, t) \<Rightarrow> (False, lw\<lparr>lw_transport := t, lw_receive_cq := snd (publish_entries 0 cq)\<rparr>)
                 | (True, t) \<Rightarrow>
                     (case publish_entries 1 (write_entry (the slot) (receive_completion (wv_qp_num view) parent) cq) of
                        (publish_status, cq) \<Rightarrow>
                          let lw = lw\<lparr>lw_transport := t, lw_receive_cq := cq\<rparr>
                          in if publish_status \<noteq> OK then (False, lw) else (True, erase lw))))
         else
           (case try_push_response response (lw_transport lw) of
              (False, t) \<Rightarrow> (False, lw\<lparr>lw_transport := t\<rparr>)
            | (True, t) \<Rightarrow> (True, erase (lw\<lparr>lw_transport := t\<rparr>))))"

definition try_parent_response :: "worker_qp_view \<Rightarrow> 'b worker_call" where
  "try_parent_response view env lw =
     (case lw_responder_order lw of
        [] \<Rightarrow> (False, lw)
      | parent_request_id # rest \<Rightarrow>
          (case lw_responder_inflight lw parent_request_id of
             None \<Rightarrow> (True, lw\<lparr>lw_responder_order := rest\<rparr>)
           | Some parent \<Rightarrow>
               if rf_next_payload_index parent \<noteq> rf_payload_count parent \<or> rf_terminal_count parent \<noteq> rf_payload_count parent
               then (False, lw)
               else answer_parent view parent_request_id parent env lw))"

text \<open>The three places where \<open>try_request\<close> answers a request at once.\<close>

definition reject_request :: "bool \<Rightarrow> request_datagram \<Rightarrow> datagram_result \<Rightarrow> 'b loop_worker \<Rightarrow> bool \<times> 'b loop_worker" where
  "reject_request loaded request result lw =
     (case try_push_response \<lparr>rsd_parent_request_id = rqd_parent_request_id request, rsd_result = result, rsd_rnr_delay = 0\<rparr>
             (lw_transport lw) of
        (False, t) \<Rightarrow> (loaded, lw\<lparr>lw_transport := t\<rparr>)
      | (True, t) \<Rightarrow> (True, lw\<lparr>lw_transport := t, lw_pending_request := None\<rparr>))"

definition valid_first :: "request_datagram \<Rightarrow> bool" where
  "valid_first request \<longleftrightarrow>
     (let zero_parent = rqd_payload_count request = 0 in
      rqd_payload_index request = 0 \<and> rqd_payload_offset request = 0 \<and>
      (zero_parent \<and> rqd_parent_total_length request = 0 \<and> rqd_payload_length request = 0 \<or>
       \<not> zero_parent \<and> rqd_parent_total_length request \<noteq> 0 \<and> rqd_payload_length request \<noteq> 0 \<and>
       ucast (rqd_payload_length request) \<le> rqd_parent_total_length request \<and>
       ucast (rqd_payload_count request) \<le> rqd_parent_total_length request))"

definition new_parent :: "request_datagram \<Rightarrow> u64 \<Rightarrow> receive_wqe_header option \<Rightarrow> responder_inflight" where
  "new_parent request target_daemon_address receive =
     \<lparr>rf_source_qp_num = rqd_source_qp_num request, rf_target_qp_num = rqd_target_qp_num request,
      rf_opcode = rqd_opcode request, rf_remote_address = rqd_remote_address request, rf_rkey = rqd_rkey request,
      rf_immediate_data = rqd_immediate_data request, rf_parent_total_length = rqd_parent_total_length request,
      rf_target_daemon_address = target_daemon_address, rf_next_payload_offset = 0, rf_next_payload_index = 0,
      rf_payload_count = rqd_payload_count request, rf_terminal_count = 0,
      rf_terminal = replicate (unat (rqd_payload_count request)) 0,
      rf_results = replicate (unat (rqd_payload_count request)) Success, rf_parent_error = Success,
      rf_has_receive = (receive \<noteq> None), rf_receive_consumed = False,
      rf_receive_wr_id = (case receive of None \<Rightarrow> 0 | Some r \<Rightarrow> rh_wr_id r),
      rf_byte_length = ucast (rqd_parent_total_length request)\<rparr>"

definition valid_payload :: "responder_inflight \<Rightarrow> request_datagram \<Rightarrow> bool" where
  "valid_payload parent request \<longleftrightarrow>
     (let zero_parent = rf_payload_count parent = 0 in
      rqd_source_qp_num request = rf_source_qp_num parent \<and> rqd_target_qp_num request = rf_target_qp_num parent \<and>
      rqd_opcode request = rf_opcode parent \<and> rqd_remote_address request = rf_remote_address parent \<and>
      rqd_rkey request = rf_rkey parent \<and> rqd_immediate_data request = rf_immediate_data parent \<and>
      rqd_parent_total_length request = rf_parent_total_length parent \<and>
      rqd_payload_count request = rf_payload_count parent \<and>
      (zero_parent \<and> rqd_payload_index request = 0 \<and> rqd_payload_offset request = 0 \<and> rqd_payload_length request = 0 \<or>
       \<not> zero_parent \<and> rqd_payload_index request = rf_next_payload_index parent \<and>
       rqd_payload_index request < rf_payload_count parent \<and>
       rqd_payload_offset request = rf_next_payload_offset parent \<and> rqd_payload_length request \<noteq> 0 \<and>
       rqd_payload_offset request \<le> rf_parent_total_length parent \<and>
       ucast (rqd_payload_length request) \<le> rf_parent_total_length parent - rqd_payload_offset request))"

definition backend_request_of :: "responder_inflight \<Rightarrow> request_datagram \<Rightarrow> backend_request" where
  "backend_request_of parent request =
     \<lparr>br_parent_request_id = rqd_parent_request_id request, br_parent_total_length = rqd_parent_total_length request,
      br_payload_offset = rqd_payload_offset request, br_source_daemon_address = rqd_source_daemon_address request,
      br_target_daemon_address = rf_target_daemon_address parent + rqd_payload_offset request,
      br_payload_length = rqd_payload_length request, br_payload_index = rqd_payload_index request,
      br_payload_count = rqd_payload_count request\<rparr>"

text \<open>Lines 382 to 387.\<close>

definition advance_parent :: "request_datagram \<Rightarrow> responder_inflight \<Rightarrow> responder_inflight" where
  "advance_parent request parent =
     (let parent = parent\<lparr>rf_next_payload_index := rf_next_payload_index parent + 1,
            rf_next_payload_offset := rf_next_payload_offset parent + ucast (rqd_payload_length request)\<rparr>
      in if rf_next_payload_index parent = rf_payload_count parent \<and>
            rf_next_payload_offset parent \<noteq> rf_parent_total_length parent
         then parent\<lparr>rf_parent_error := Remote_invalid_request\<rparr> else parent)"

text \<open>\<open>try_request\<close> from line 330 on, for the parent of the request.\<close>

definition accept_payload ::
  "bool \<Rightarrow> request_datagram \<Rightarrow> responder_inflight \<Rightarrow> 'b loop_worker \<Rightarrow> bool \<times> 'b loop_worker" where
  "accept_payload loaded request parent lw =
     (let i = rqd_parent_request_id request;
          put = (\<lambda>parent lw. lw\<lparr>lw_responder_inflight := (lw_responder_inflight lw)(i \<mapsto> parent)\<rparr>);
          needs_release = (rf_has_receive parent \<and> \<not> rf_receive_consumed parent)
      in if \<not> valid_payload parent request then (loaded, put (parent\<lparr>rf_parent_error := Remote_invalid_request\<rparr>) lw)
         else if rf_payload_count parent = 0 then
           (if needs_release then
              (case release_entries 1 (lw_receive_queue lw) of
                 (status, rq) \<Rightarrow>
                   let lw = lw\<lparr>lw_receive_queue := rq\<rparr>
                   in if status \<noteq> OK then (False, lw)
                      else (True, (put (parent\<lparr>rf_receive_consumed := True\<rparr>) lw)\<lparr>lw_pending_request := None\<rparr>))
            else (True, lw\<lparr>lw_pending_request := None\<rparr>))
         else if length (lw_pending_backend_requests lw) = kBackendBatchCapacity then (loaded, lw)
         else
           let queued = lw\<lparr>lw_pending_backend_requests := lw_pending_backend_requests lw @ [backend_request_of parent request]\<rparr>
           in if needs_release then
                (case release_entries 1 (lw_receive_queue lw) of
                   (status, rq) \<Rightarrow>
                     if status \<noteq> OK then (loaded, lw\<lparr>lw_receive_queue := rq\<rparr>)
                     else (True, (put (advance_parent request (parent\<lparr>rf_receive_consumed := True\<rparr>))
                                    (queued\<lparr>lw_receive_queue := rq\<rparr>))\<lparr>lw_pending_request := None\<rparr>))
              else (True, (put (advance_parent request parent) queued)\<lparr>lw_pending_request := None\<rparr>))"

text \<open>\<open>try_request\<close>, lines 267 to 328, for a request whose parent is not known: the resolved target and
  the receive request it uses, and the new parent.\<close>

definition open_parent ::
  "qp_service \<Rightarrow> worker_qp_view \<Rightarrow> bool \<Rightarrow> request_datagram \<Rightarrow> 'b worker_call" where
  "open_parent service view loaded request env lw =
     (if \<not> valid_first request then reject_request loaded request Remote_invalid_request lw
      else case resolve_rkey (wv_session_id view) (wv_pd_identity view) (rqd_rkey request) (rqd_remote_address request)
                  (rqd_parent_total_length request) service of
        Inl _ \<Rightarrow> reject_request loaded request Remote_access_error lw
      | Inr target_daemon_address \<Rightarrow>
          let insert_parent = (\<lambda>receive lw.
                let parent = new_parent request target_daemon_address receive; i = rqd_parent_request_id request
                in accept_payload loaded request parent
                     (lw\<lparr>lw_responder_inflight := (lw_responder_inflight lw)(i \<mapsto> parent),
                        lw_responder_order := lw_responder_order lw @ [i]\<rparr>))
          in if rqd_opcode request = Rdma_write_with_immediate then
               (case peek_entry (we_receive_queue env) (lw_receive_queue lw) of
                  (status, slot, rq) \<Rightarrow>
                    let lw = lw\<lparr>lw_receive_queue := rq\<rparr>
                    in if status \<noteq> OK then (loaded, lw) else insert_parent (Some (rs_header (the slot))) lw)
             else insert_parent None lw)"

text \<open>\<open>try_request\<close> from line 255 on.\<close>

definition handle_request ::
  "qp_service \<Rightarrow> worker_qp_view \<Rightarrow> bool \<Rightarrow> request_datagram \<Rightarrow> 'b worker_call" where
  "handle_request service view loaded request env lw =
     (if rqd_target_qp_num request \<noteq> wv_qp_num view \<or> rqd_parent_total_length request > 0xffffffff
      then reject_request loaded request Remote_invalid_request lw
      else case lw_responder_inflight lw (rqd_parent_request_id request) of
        None \<Rightarrow> open_parent service view loaded request env lw
      | Some parent \<Rightarrow> accept_payload loaded request parent lw)"

definition try_request :: "qp_service \<Rightarrow> worker_qp_view \<Rightarrow> 'b worker_call" where
  "try_request service view env lw =
     (case lw_pending_request lw of
        Some request \<Rightarrow> handle_request service view False request env lw
      | None \<Rightarrow>
          (case try_pop_request (lw_transport lw) of
             (None, t) \<Rightarrow> (False, lw\<lparr>lw_transport := t\<rparr>)
           | (Some request, t) \<Rightarrow>
               handle_request service view True request env (lw\<lparr>lw_transport := t, lw_pending_request := Some request\<rparr>)))"

section \<open>The requester\<close>

text \<open>\<open>try_response\<close> from line 220 on.\<close>

definition handle_response :: "worker_qp_view \<Rightarrow> bool \<Rightarrow> response_datagram \<Rightarrow> 'b worker_call" where
  "handle_response view loaded response env lw =
     (let i = rsd_parent_request_id response in
      case lw_requester_inflight lw i of
        None \<Rightarrow> (True, lw\<lparr>lw_pending_response := None\<rparr>)
      | Some inflight \<Rightarrow>
          let needs_completion = (rsd_result response \<noteq> Success \<or> ri_signaled inflight);
              entry = send_completion (ri_wr_id inflight) (wv_qp_num view) (rsd_result response);
              (produced, cq) = (if needs_completion then produce_completions (we_send_cq env) (Some [entry]) 1 (lw_send_cq lw)
                                else (1, lw_send_cq lw));
              lw = lw\<lparr>lw_send_cq := cq\<rparr>
          in if produced \<noteq> 1 then (loaded, lw)
             else
               let event = \<lparr>pe_parent_request_id = i, pe_wr_id = ri_wr_id inflight,
                     pe_logical_bytes = ri_logical_bytes inflight, pe_payload_count = ri_payload_count inflight,
                     pe_result = rsd_result response\<rparr>
               in (True, lw\<lparr>lw_observed := lw_observed lw @ (if lw_observer lw then [event] else []),
                          lw_requester_inflight := (lw_requester_inflight lw)(i := None), lw_pending_response := None\<rparr>))"

definition try_response :: "worker_qp_view \<Rightarrow> 'b worker_call" where
  "try_response view env lw =
     (case lw_pending_response lw of
        Some response \<Rightarrow> handle_response view False response env lw
      | None \<Rightarrow>
          (case try_pop_response (lw_transport lw) of
             (None, t) \<Rightarrow> (False, lw\<lparr>lw_transport := t\<rparr>)
           | (Some response, t) \<Rightarrow>
               handle_response view True response env (lw\<lparr>lw_transport := t, lw_pending_response := Some response\<rparr>)))"

definition complete_send_error :: "worker_qp_view \<Rightarrow> send_wqe_header \<Rightarrow> u32 \<Rightarrow> 'b worker_call" where
  "complete_send_error view send status env lw =
     (let entry = empty_entry\<lparr>ce_wr_id := sh_wr_id send, ce_status := status, ce_opcode := UGDR_WC_RDMA_WRITE,
            ce_qp_num := wv_qp_num view\<rparr>
      in case produce_completions (we_send_cq env) (Some [entry]) 1 (lw_send_cq lw) of
        (produced, cq) \<Rightarrow>
          let lw = lw\<lparr>lw_send_cq := cq\<rparr>
          in if produced \<noteq> 1 then (False, lw\<lparr>lw_send_queue := snd (release_entries 0 (lw_send_queue lw))\<rparr>)
             else case release_entries 1 (lw_send_queue lw) of
               (release_status, sq) \<Rightarrow> (release_status = OK, lw\<lparr>lw_send_queue := sq\<rparr>))"

definition next_request_id :: "'b loop_worker \<Rightarrow> u64" where
  "next_request_id lw = push_bit 32 (ucast (lw_qp_num lw)) OR ucast (lw_next_sequence lw)"

text \<open>The loop over the entries, lines 420 to 440: \<open>Inl\<close> of the completion status, or the length, the
  segments and the number of payloads.\<close>

fun gather_sges ::
  "qp_service \<Rightarrow> worker_qp_view \<Rightarrow> u64 \<Rightarrow> shared_sge list \<Rightarrow> u64 \<times> source_segment list \<times> u64 \<Rightarrow>
   u32 + u64 \<times> source_segment list \<times> u64" where
  "gather_sges service view payload_bytes [] acc = Inr acc"
| "gather_sges service view payload_bytes (sge # sges) (total_length, segments, payload_count) =
     (if total_length > ucast (0xffffffff - sge_length sge) then Inl UGDR_WC_LOC_LEN_ERR
      else case resolve_lkey (wv_session_id view) (wv_pd_identity view) (sge_lkey sge) (sge_address sge)
                  (ucast (sge_length sge)) service of
        Inl _ \<Rightarrow> Inl UGDR_WC_LOC_PROT_ERR
      | Inr daemon_address \<Rightarrow>
          gather_sges service view payload_bytes sges
            (if sge_length sge \<noteq> 0
             then (total_length + ucast (sge_length sge),
                   segments @ [\<lparr>seg_daemon_address = daemon_address, seg_length = sge_length sge\<rparr>],
                   payload_count + (ucast (sge_length sge) + payload_bytes - 1) div payload_bytes)
             else (total_length + ucast (sge_length sge), segments, payload_count)))"

definition new_pending_send ::
  "'b loop_worker \<Rightarrow> worker_qp_view \<Rightarrow> send_wqe_header \<Rightarrow> u64 \<times> source_segment list \<times> u64 \<Rightarrow> pending_send" where
  "new_pending_send lw view send acc =
     (case acc of (total_length, segments, payload_count) \<Rightarrow>
       \<lparr>pn_parent_request_id = next_request_id lw, pn_wr_id = sh_wr_id send,
        pn_signaled = (wv_sq_sig_all view \<noteq> 0 \<or> sh_send_flags send AND 2 \<noteq> 0),
        pn_opcode = (if sh_opcode send = 0 then Rdma_write else Rdma_write_with_immediate),
        pn_source_qp_num = wv_qp_num view, pn_target_qp_num = wv_peer_qp_num view,
        pn_remote_address = sh_remote_address send, pn_rkey = sh_rkey send, pn_immediate_data = sh_immediate_data send,
        pn_total_length = total_length, pn_payload_count = ucast payload_count, pn_source_segments = segments,
        pn_segment_index = 0, pn_segment_offset = 0, pn_payload_offset = 0, pn_payload_index = 0,
        pn_zero_payload_sent = False\<rparr>)"

text \<open>Lines 454 to 478: the next datagram of a send; \<open>None\<close> where the function returns \<open>false\<close>.\<close>

definition next_datagram :: "u64 \<Rightarrow> pending_send \<Rightarrow> request_datagram option" where
  "next_datagram payload_bytes parent =
     (let request = \<lparr>rqd_parent_request_id = pn_parent_request_id parent, rqd_source_qp_num = pn_source_qp_num parent,
            rqd_target_qp_num = pn_target_qp_num parent, rqd_opcode = pn_opcode parent,
            rqd_remote_address = pn_remote_address parent, rqd_rkey = pn_rkey parent,
            rqd_immediate_data = pn_immediate_data parent, rqd_parent_total_length = pn_total_length parent,
            rqd_payload_offset = 0, rqd_source_daemon_address = 0, rqd_payload_length = 0, rqd_payload_index = 0,
            rqd_payload_count = pn_payload_count parent\<rparr>
      in if pn_total_length parent = 0 then (if pn_zero_payload_sent parent then None else Some request)
         else
           let segment = pn_source_segments parent ! pn_segment_index parent;
               remaining = seg_length segment - pn_segment_offset parent
           in Some (request\<lparr>rqd_payload_length := ucast (min (ucast remaining) payload_bytes),
                rqd_payload_index := pn_payload_index parent, rqd_payload_offset := pn_payload_offset parent,
                rqd_source_daemon_address := seg_daemon_address segment + ucast (pn_segment_offset parent)\<rparr>))"

text \<open>Lines 483 to 493.\<close>

definition advance_send :: "request_datagram \<Rightarrow> pending_send \<Rightarrow> pending_send" where
  "advance_send request parent =
     (if pn_total_length parent = 0 then parent\<lparr>pn_zero_payload_sent := True\<rparr>
      else
        let parent = parent\<lparr>pn_segment_offset := pn_segment_offset parent + rqd_payload_length request,
              pn_payload_offset := pn_payload_offset parent + ucast (rqd_payload_length request),
              pn_payload_index := pn_payload_index parent + 1\<rparr>
        in if pn_segment_offset parent = seg_length (pn_source_segments parent ! pn_segment_index parent)
           then parent\<lparr>pn_segment_index := pn_segment_index parent + 1, pn_segment_offset := 0\<rparr> else parent)"

definition send_finished :: "pending_send \<Rightarrow> bool" where
  "send_finished parent \<longleftrightarrow>
     (if pn_total_length parent = 0 then pn_zero_payload_sent parent
      else pn_payload_index parent = pn_payload_count parent)"

text \<open>\<open>try_send\<close> from line 454 on.\<close>

definition continue_send :: "pending_send \<Rightarrow> 'b loop_worker \<Rightarrow> bool \<times> 'b loop_worker" where
  "continue_send parent lw =
     (case next_datagram (lw_payload_bytes lw) parent of
        None \<Rightarrow> (False, lw)
      | Some request \<Rightarrow>
          (case try_push_request request (lw_transport lw) of
             (False, t) \<Rightarrow> (False, lw\<lparr>lw_transport := t\<rparr>)
           | (True, t) \<Rightarrow>
               let parent = advance_send request parent;
                   lw = lw\<lparr>lw_transport := t, lw_pending_send := Some parent\<rparr>
               in if \<not> send_finished parent then (True, lw)
                  else case release_entries 1 (lw_send_queue lw) of
                    (status, sq) \<Rightarrow>
                      let lw = lw\<lparr>lw_send_queue := sq\<rparr>
                      in if status \<noteq> OK then (False, lw)
                         else (True, lw\<lparr>lw_pending_send := None,
                                lw_next_sequence := (if lw_next_sequence lw + 1 = 0 then 1 else lw_next_sequence lw + 1)\<rparr>)))"

text \<open>\<open>try_send\<close>, lines 398 to 452, for the entry peeked.\<close>

definition start_send :: "qp_service \<Rightarrow> worker_qp_view \<Rightarrow> send_slot \<Rightarrow> 'b worker_call" where
  "start_send service view slot env lw =
     (let send = ss_header slot in
      if sh_sge_count send > wv_max_send_sge view then complete_send_error view send UGDR_WC_LOC_LEN_ERR env lw
      else if sh_opcode send \<noteq> 0 \<and> sh_opcode send \<noteq> 1 then complete_send_error view send UGDR_WC_LOC_QP_OP_ERR env lw
      else case gather_sges service view (lw_payload_bytes lw) (map (ss_sges slot) [0..<unat (sh_sge_count send)]) (0, [], 0) of
        Inl status \<Rightarrow> complete_send_error view send status env lw
      | Inr (total_length, segments, payload_count) \<Rightarrow>
          if payload_count > 0xffffffff then complete_send_error view send UGDR_WC_LOC_LEN_ERR env lw
          else
            let parent = new_pending_send lw view send (total_length, segments, payload_count);
                i = pn_parent_request_id parent
            in if lw_requester_inflight lw i \<noteq> None then (False, lw)
               else continue_send parent
                 (lw\<lparr>lw_requester_inflight := (lw_requester_inflight lw)(i \<mapsto>
                        \<lparr>ri_wr_id = pn_wr_id parent, ri_signaled = pn_signaled parent,
                         ri_logical_bytes = pn_total_length parent, ri_payload_count = pn_payload_count parent\<rparr>),
                     lw_pending_send := Some parent\<rparr>))"

definition try_send :: "qp_service \<Rightarrow> worker_qp_view \<Rightarrow> 'b worker_call" where
  "try_send service view env lw =
     (case lw_pending_send lw of
        Some parent \<Rightarrow> continue_send parent lw
      | None \<Rightarrow>
          (case peek_entry (we_send_queue env) (lw_send_queue lw) of
             (status, slot, sq) \<Rightarrow>
               let lw = lw\<lparr>lw_send_queue := sq\<rparr>
               in if status \<noteq> OK then (False, lw) else start_send service view (the slot) env lw))"

section \<open>The loops\<close>

text \<open>\<open>while (step()) progressed = true;\<close> where call number \<open>k\<close> of the worker runs in \<open>env k\<close>; the result has
  the number of the next call.\<close>

partial_function (option) while_true ::
  "(worker_env \<Rightarrow> 'b loop_worker \<Rightarrow> bool \<times> 'b loop_worker) \<Rightarrow> (nat \<Rightarrow> worker_env) \<Rightarrow> nat \<Rightarrow> bool \<Rightarrow> 'b loop_worker \<Rightarrow>
   (nat \<times> bool \<times> 'b loop_worker) option" where
  "while_true step env k progressed lw =
     (case step (env k) lw of (p, lw') \<Rightarrow>
        if p then while_true step env (Suc k) True lw' else Some (Suc k, progressed, lw'))"

definition if_true ::
  "(worker_env \<Rightarrow> 'b loop_worker \<Rightarrow> bool \<times> 'b loop_worker) \<Rightarrow> (nat \<Rightarrow> worker_env) \<Rightarrow> nat \<Rightarrow> bool \<Rightarrow> 'b loop_worker \<Rightarrow>
   (nat \<times> bool \<times> 'b loop_worker) option" where
  "if_true step env k progressed lw = (case step (env k) lw of (p, lw') \<Rightarrow> Some (Suc k, progressed \<or> p, lw'))"

definition progress_once ::
  "qp_service \<Rightarrow> 'b copy_backend \<Rightarrow> (nat \<Rightarrow> worker_env) \<Rightarrow> 'b loop_worker \<Rightarrow> (bool \<times> 'b loop_worker) option" where
  "progress_once service cb env lw =
     (case worker_qp_view_of (lw_qp_num lw) service of
        Inl _ \<Rightarrow> Some (False, lw)
      | Inr view \<Rightarrow>
          (if lw_role lw = Responder then
             do { (k, p, lw) \<leftarrow> while_true (try_backend_completions cb) env 0 False lw;
                  (k, p, lw) \<leftarrow> while_true (try_parent_response view) env k p lw;
                  (k, p, lw) \<leftarrow> if_true (try_flush_backend_requests cb) env k p lw;
                  (k, p, lw) \<leftarrow>
                    (if lw_pending_backend_requests lw = []
                     then do { (k, p, lw) \<leftarrow> while_true (try_request service view) env k p lw;
                               if_true (try_flush_backend_requests cb) env k p lw }
                     else Some (k, p, lw));
                  (k, p, lw) \<leftarrow> while_true (try_backend_completions cb) env k p lw;
                  (k, p, lw) \<leftarrow> while_true (try_parent_response view) env k p lw;
                  Some (p, lw) }
           else
             do { (k, p, lw) \<leftarrow> while_true (try_response view) env 0 False lw;
                  (k, p, lw) \<leftarrow> while_true (try_send service view) env k p lw;
                  Some (p, lw) }))"

end
