(* ===== verification/Worker_Send.thy ===== *)
theory Worker_Send
  imports Worker
begin

unbundle bit_operations_syntax

text \<open>
  How the requester cuts a work request into datagrams. The reference is \<open>plan\<close>: each source segment is
  cut into chunks of the payload size, the last one shorter, and the chunks are numbered and given the
  offset of what precedes them. The worker's cursor (segment index and offset, payload index and offset)
  walks through this plan.
\<close>

section \<open>The reference segmentation\<close>

function chunks :: "nat \<Rightarrow> u64 \<Rightarrow> nat \<Rightarrow> (u64 \<times> nat) list" where
  "chunks mtu address n =
     (if n = 0 \<or> mtu = 0 then [] else (address, min mtu n) # chunks mtu (address + of_nat (min mtu n)) (n - min mtu n))"
  by auto
termination by (relation "measure (\<lambda>(mtu, address, n). n)") auto

declare chunks.simps [simp del]

lemma chunks_zero [simp]: "chunks mtu address 0 = []"
  by (simp add: chunks.simps)

lemma chunks_lengths: "0 < mtu \<Longrightarrow> sum_list (map snd (chunks mtu address n)) = n"
proof (induction mtu address n rule: chunks.induct)
  case (1 mtu address n)
  show ?case
  proof (cases "n = 0")
    case False
    then show ?thesis using 1 by (subst chunks.simps) simp
  qed simp
qed

lemma ceil_div_step:
  assumes "0 < mtu" "mtu \<le> n"
  shows "(n - mtu + mtu - 1) div mtu + 1 = (n + mtu - 1) div (mtu :: nat)"
proof -
  have "n + mtu - 1 = (n - 1) + mtu" "n - mtu + mtu - 1 = n - 1" using assms by simp_all
  then show ?thesis using assms div_add_self2 [of mtu "n - 1"] by simp
qed

lemma chunks_count: "0 < mtu \<Longrightarrow> length (chunks mtu address n) = (n + mtu - 1) div mtu"
proof (induction mtu address n rule: chunks.induct)
  case (1 mtu address n)
  show ?case
  proof (cases "n = 0")
    case True
    then show ?thesis using 1 by simp
  next
    case False
    note IH = 1(1) [OF _ 1(2)]
    show ?thesis
    proof (cases "n \<le> mtu")
      case True
      have "(n + mtu - 1) div mtu = 1" using True False by (intro div_nat_eqI) auto
      then show ?thesis using True False 1(2) by (subst chunks.simps) (simp add: min_def)
    next
      case small: False
      then show ?thesis
        using False 1(2) IH ceil_div_step [of mtu n] by (subst chunks.simps) (simp add: min_def)
    qed
  qed
qed

lemma chunks_sizes: "(a, l) \<in> set (chunks mtu address n) \<Longrightarrow> 0 < l \<and> l \<le> mtu"
proof (induction mtu address n rule: chunks.induct)
  case (1 mtu address n)
  then show ?case by (subst (asm) (2) chunks.simps) (auto split: if_splits)
qed

definition plan :: "nat \<Rightarrow> source_segment list \<Rightarrow> (u64 \<times> nat) list" where
  "plan mtu segments = concat (map (\<lambda>seg. chunks mtu (seg_daemon_address seg) (unat (seg_length seg))) segments)"

text \<open>The datagram of a chunk, and the datagrams of chunks that follow each other.\<close>

definition datagram_of :: "pending_send \<Rightarrow> nat \<Rightarrow> nat \<Rightarrow> u64 \<times> nat \<Rightarrow> request_datagram" where
  "datagram_of p index offset chunk =
     \<lparr>rqd_parent_request_id = pn_parent_request_id p, rqd_source_qp_num = pn_source_qp_num p,
      rqd_target_qp_num = pn_target_qp_num p, rqd_opcode = pn_opcode p, rqd_remote_address = pn_remote_address p,
      rqd_rkey = pn_rkey p, rqd_immediate_data = pn_immediate_data p, rqd_parent_total_length = pn_total_length p,
      rqd_payload_offset = of_nat offset, rqd_source_daemon_address = fst chunk,
      rqd_payload_length = of_nat (snd chunk), rqd_payload_index = of_nat index, rqd_payload_count = pn_payload_count p\<rparr>"

fun number :: "pending_send \<Rightarrow> nat \<Rightarrow> nat \<Rightarrow> (u64 \<times> nat) list \<Rightarrow> request_datagram list" where
  "number p index offset [] = []"
| "number p index offset (c # cs) = datagram_of p index offset c # number p (Suc index) (offset + snd c) cs"

lemma number_nth:
  "k < length cs \<Longrightarrow> number p index offset cs ! k = datagram_of p (index + k) (offset + sum_list (map snd (take k cs))) (cs ! k)"
  by (induction cs arbitrary: k index offset) (auto simp: nth_Cons less_Suc_eq_0_disj ac_simps split: nat.splits)

lemma length_number [simp]: "length (number p index offset cs) = length cs"
  by (induction cs arbitrary: index offset) simp_all

definition send_datagrams :: "nat \<Rightarrow> pending_send \<Rightarrow> request_datagram list" where
  "send_datagrams mtu p =
     (if pn_total_length p = 0 then [datagram_of p 0 0 (0, 0)] else number p 0 0 (plan mtu (pn_source_segments p)))"

section \<open>The worker's cursor\<close>

text \<open>The chunks the cursor of a send still has before it.\<close>

definition remaining_chunks :: "nat \<Rightarrow> pending_send \<Rightarrow> (u64 \<times> nat) list" where
  "remaining_chunks mtu p =
     (case drop (pn_segment_index p) (pn_source_segments p) of
        [] \<Rightarrow> []
      | seg # segs \<Rightarrow>
          chunks mtu (seg_daemon_address seg + ucast (pn_segment_offset p)) (unat (seg_length seg) - unat (pn_segment_offset p)) @
          plan mtu segs)"

definition send_ok :: "u64 \<Rightarrow> pending_send \<Rightarrow> bool" where
  "send_ok mtu p \<longleftrightarrow>
     0 < unat mtu \<and> unat mtu < 2 ^ 32 \<and> unat (pn_total_length p) < 2 ^ 32 \<and>
     list_all (\<lambda>seg. seg_length seg \<noteq> 0) (pn_source_segments p) \<and>
     (if pn_total_length p = 0 then remaining_chunks (unat mtu) p = []
      else remaining_chunks (unat mtu) p \<noteq> []) \<and>
     (case drop (pn_segment_index p) (pn_source_segments p) of
        [] \<Rightarrow> True | seg # _ \<Rightarrow> pn_segment_offset p < seg_length seg) \<and>
     unat (pn_payload_index p) + length (remaining_chunks (unat mtu) p) = unat (pn_payload_count p) \<and>
     unat (pn_payload_offset p) + sum_list (map snd (remaining_chunks (unat mtu) p)) = unat (pn_total_length p)"

lemma plan_Cons: "plan mtu (seg # segs) = chunks mtu (seg_daemon_address seg) (unat (seg_length seg)) @ plan mtu segs"
  by (simp add: plan_def)

lemma remaining_start:
  "pn_segment_index p = 0 \<Longrightarrow> pn_segment_offset p = 0 \<Longrightarrow> remaining_chunks mtu p = plan mtu (pn_source_segments p)"
  by (auto simp: remaining_chunks_def plan_Cons plan_def split: list.splits)

lemma unat_min_u64: "unat (min (a :: u64) b) = min (unat a) (unat b)"
  by (simp add: min_def word_le_nat_alt)

text \<open>One step of the cursor: the datagram is the next chunk's, and the rest of the chunks remains.\<close>

lemma cursor_step:
  assumes ok: "send_ok mtu p" and nz: "pn_total_length p \<noteq> 0"
  obtains c cs where "remaining_chunks (unat mtu) p = c # cs"
    "next_datagram mtu p = Some (datagram_of p (unat (pn_payload_index p)) (unat (pn_payload_offset p)) c)"
    "remaining_chunks (unat mtu) (advance_send (datagram_of p (unat (pn_payload_index p)) (unat (pn_payload_offset p)) c) p) = cs"
    "cs \<noteq> [] \<Longrightarrow> send_ok mtu (advance_send (datagram_of p (unat (pn_payload_index p)) (unat (pn_payload_offset p)) c) p)"
proof -
  note o = ok [unfolded send_ok_def]
  obtain seg segs where d: "drop (pn_segment_index p) (pn_source_segments p) = seg # segs"
    using o nz by (auto simp: remaining_chunks_def split: list.splits)
  have nth: "pn_source_segments p ! pn_segment_index p = seg" and d': "drop (Suc (pn_segment_index p)) (pn_source_segments p) = segs"
    using d by (metis nth_via_drop, metis drop_Suc drop_tl list.sel(3))
  let ?off = "unat (pn_segment_offset p)" and ?len = "unat (seg_length seg)"
  have lt: "?off < ?len" using o d by (simp add: word_less_nat_alt)
  define m where "m = min (unat mtu) (?len - ?off)"
  let ?a = "seg_daemon_address seg + ucast (pn_segment_offset p)"
  have m0: "0 < m" "?off + m \<le> ?len" using o lt by (auto simp: m_def)
  have mb: "m < 4294967296" using m0(2) unat_u32_bound [of "seg_length seg"] by linarith
  have rem: "remaining_chunks (unat mtu) p = (?a, m) # chunks (unat mtu) (?a + of_nat m) (?len - ?off - m) @ plan (unat mtu) segs"
    using o lt by (simp add: remaining_chunks_def d chunks.simps [of "unat mtu" ?a "?len - ?off"] m_def)
  let ?c = "(?a, m)" and ?cs = "chunks (unat mtu) (?a + of_nat m) (?len - ?off - m) @ plan (unat mtu) segs"
  let ?d = "datagram_of p (unat (pn_payload_index p)) (unat (pn_payload_offset p)) ?c"
  have sub: "unat (seg_length seg - pn_segment_offset p) = ?len - ?off" using lt by (simp add: unat_sub word_le_nat_alt)
  have "unat (ucast (min (ucast (seg_length seg - pn_segment_offset p)) mtu) :: u32) = m"
    using o by (subst unat_ucast_down [of _ "seg_length seg - pn_segment_offset p"]) (auto simp: unat_min_u64 sub m_def min.commute)
  then have len: "ucast (min (ucast (seg_length seg - pn_segment_offset p)) mtu) = (of_nat m :: u32)" using mb by (simp add: word_unat_eq_iff unat_of_nat_u32)
  have nd: "next_datagram mtu p = Some ?d"
    using nz by (simp add: next_datagram_def nth datagram_of_def len Let_def)
  let ?p' = "advance_send ?d p"
  have off': "unat (pn_segment_offset p + of_nat m) = ?off + m"
    using m0(2) mb unat_u32_bound [of "seg_length seg"] by (simp add: unat_word_ariths unat_of_nat_u32)
  have rem': "remaining_chunks (unat mtu) ?p' = ?cs"
  proof (cases "?off + m = ?len")
    case True
    then have "pn_segment_offset p + of_nat m = seg_length seg" using off' by (simp add: word_unat_eq_iff)
    then show ?thesis using nz True d' nth
      by (auto simp: advance_send_def datagram_of_def Let_def remaining_chunks_def plan_Cons plan_def split: list.splits)
  next
    case False
    then have "pn_segment_offset p + of_nat m \<noteq> seg_length seg" using off' by (auto simp: word_unat_eq_iff)
    moreover have "ucast (pn_segment_offset p + of_nat m) = ucast (pn_segment_offset p) + (of_nat m :: u64)"
      using off' mb unat_u32_bound [of "seg_length seg"] m0(2)
      by (simp add: word_unat_eq_iff unat_word_ariths unat_of_nat_u64)
    ultimately show ?thesis using nz nth d off'
      by (simp add: advance_send_def datagram_of_def Let_def remaining_chunks_def add.assoc diff_diff_eq)
  qed
  show ?thesis
  proof (rule that [of ?c ?cs])
    assume ne: "?cs \<noteq> []"
    have pi: "unat (pn_payload_index p + 1) = unat (pn_payload_index p) + 1"
      using o rem unat_u32_bound [of "pn_payload_count p"] by (simp add: unat_word_ariths)
    have po: "unat (pn_payload_offset p + ucast (of_nat m :: u32)) = unat (pn_payload_offset p) + m"
      using o rem mb by (simp add: unat_word_ariths unat_of_nat_u32)
    have fields: "pn_total_length ?p' = pn_total_length p" "pn_source_segments ?p' = pn_source_segments p"
        "pn_payload_count ?p' = pn_payload_count p" "pn_payload_index ?p' = pn_payload_index p + 1"
        "pn_payload_offset ?p' = pn_payload_offset p + ucast (of_nat m :: u32)"
      using nz by (simp_all add: advance_send_def datagram_of_def Let_def)
    have cursor: "case drop (pn_segment_index ?p') (pn_source_segments ?p') of [] \<Rightarrow> True | seg # _ \<Rightarrow> pn_segment_offset ?p' < seg_length seg"
    proof (cases "?off + m = ?len")
      case True
      then have "pn_segment_offset p + of_nat m = seg_length seg" using off' by (simp add: word_unat_eq_iff)
      moreover have "list_all (\<lambda>seg. seg_length seg \<noteq> 0) segs"
        using o d' by (metis append_take_drop_id list_all_append)
      ultimately show ?thesis using nz nth d'
        by (auto simp: advance_send_def datagram_of_def Let_def word_less_nat_alt unat_gt_0 split: list.splits)
    next
      case False
      then have "pn_segment_offset p + of_nat m \<noteq> seg_length seg" "pn_segment_offset p + of_nat m < seg_length seg"
        using off' m0(2) by (auto simp: word_unat_eq_iff word_less_nat_alt)
      then show ?thesis using nz nth d by (simp add: advance_send_def datagram_of_def Let_def)
    qed
    show "send_ok mtu ?p'"
      using o rem rem' ne cursor pi po nz unfolding send_ok_def fields by simp
  qed (rule rem, rule nd, rule rem')
qed

section \<open>A send and its datagrams\<close>

text \<open>The send \<open>p\<close> is \<open>p0\<close> after its first \<open>k\<close> datagrams.\<close>

definition same_send :: "pending_send \<Rightarrow> pending_send \<Rightarrow> bool" where
  "same_send p0 p \<longleftrightarrow>
     pn_parent_request_id p = pn_parent_request_id p0 \<and> pn_wr_id p = pn_wr_id p0 \<and> pn_signaled p = pn_signaled p0 \<and>
     pn_opcode p = pn_opcode p0 \<and> pn_source_qp_num p = pn_source_qp_num p0 \<and> pn_target_qp_num p = pn_target_qp_num p0 \<and>
     pn_remote_address p = pn_remote_address p0 \<and> pn_rkey p = pn_rkey p0 \<and> pn_immediate_data p = pn_immediate_data p0 \<and>
     pn_total_length p = pn_total_length p0 \<and> pn_payload_count p = pn_payload_count p0 \<and>
     pn_source_segments p = pn_source_segments p0"

definition send_at :: "u64 \<Rightarrow> pending_send \<Rightarrow> nat \<Rightarrow> pending_send \<Rightarrow> bool" where
  "send_at mtu p0 k p \<longleftrightarrow>
     same_send p0 p \<and> send_ok mtu p \<and> (pn_total_length p0 = 0 \<longrightarrow> k = 0 \<and> \<not> pn_zero_payload_sent p) \<and>
     unat (pn_payload_index p) = k \<and> remaining_chunks (unat mtu) p = drop k (plan (unat mtu) (pn_source_segments p0)) \<and>
     unat (pn_payload_offset p) = sum_list (map snd (take k (plan (unat mtu) (pn_source_segments p0))))"

lemma same_send_advance: "same_send p0 p \<Longrightarrow> same_send p0 (advance_send d p)"
  by (simp add: same_send_def advance_send_def Let_def)

lemma datagram_of_same: "same_send p0 p \<Longrightarrow> datagram_of p = datagram_of p0"
  by (intro ext) (simp add: same_send_def datagram_of_def)

lemma send_at_step:
  assumes at: "send_at mtu p0 k p"
  defines "d \<equiv> send_datagrams (unat mtu) p0 ! k"
  shows "k < length (send_datagrams (unat mtu) p0)" and "next_datagram mtu p = Some d"
    and "send_finished (advance_send d p) \<longleftrightarrow> Suc k = length (send_datagrams (unat mtu) p0)"
    and "Suc k < length (send_datagrams (unat mtu) p0) \<Longrightarrow> send_at mtu p0 (Suc k) (advance_send d p)"
proof -
  let ?plan = "plan (unat mtu) (pn_source_segments p0)"
  have same: "same_send p0 p" and ok: "send_ok mtu p" and z: "pn_total_length p0 = 0 \<Longrightarrow> k = 0 \<and> \<not> pn_zero_payload_sent p"
    and ix: "unat (pn_payload_index p) = k" and rem: "remaining_chunks (unat mtu) p = drop k ?plan"
    and off: "unat (pn_payload_offset p) = sum_list (map snd (take k ?plan))"
    using at by (auto simp: send_at_def)
  have tl: "pn_total_length p = pn_total_length p0" using same by (simp add: same_send_def)
  have "k < length (send_datagrams (unat mtu) p0) \<and> next_datagram mtu p = Some d \<and>
      (send_finished (advance_send d p) \<longleftrightarrow> Suc k = length (send_datagrams (unat mtu) p0)) \<and>
      (Suc k < length (send_datagrams (unat mtu) p0) \<longrightarrow> send_at mtu p0 (Suc k) (advance_send d p))"
  proof (cases "pn_total_length p0 = 0")
    case True
    then show ?thesis
      using z tl same by (auto simp: send_datagrams_def d_def next_datagram_def advance_send_def send_finished_def
          datagram_of_def same_send_def Let_def)
  next
    case False
    then have nz: "pn_total_length p \<noteq> 0" using tl by simp
    obtain c cs where C: "remaining_chunks (unat mtu) p = c # cs"
        "next_datagram mtu p = Some (datagram_of p (unat (pn_payload_index p)) (unat (pn_payload_offset p)) c)"
        "remaining_chunks (unat mtu) (advance_send (datagram_of p (unat (pn_payload_index p)) (unat (pn_payload_offset p)) c) p) = cs"
        "cs \<noteq> [] \<Longrightarrow> send_ok mtu (advance_send (datagram_of p (unat (pn_payload_index p)) (unat (pn_payload_offset p)) c) p)"
      using cursor_step [OF ok nz] by blast
    have k: "k < length ?plan" "?plan ! k = c" "drop (Suc k) ?plan = cs"
      using C(1) rem by (metis drop_all linorder_not_le list.discI, metis nth_via_drop, metis drop_Suc drop_tl list.sel(3))
    have d: "d = datagram_of p (unat (pn_payload_index p)) (unat (pn_payload_offset p)) c"
      using False k number_nth [of k ?plan p0 0 0] by (simp add: d_def send_datagrams_def ix off datagram_of_same [OF same])
    have len: "length (send_datagrams (unat mtu) p0) = length ?plan" using False by (simp add: send_datagrams_def)
    have count: "k + length (drop k ?plan) = unat (pn_payload_count p)" using ok ix rem by (simp add: send_ok_def)
    have fields: "pn_payload_index (advance_send d p) = pn_payload_index p + 1" "pn_payload_count (advance_send d p) = pn_payload_count p"
        "pn_payload_offset (advance_send d p) = pn_payload_offset p + ucast (rqd_payload_length d)"
        "pn_total_length (advance_send d p) = pn_total_length p"
      using nz by (simp_all add: advance_send_def Let_def)
    have pi: "unat (pn_payload_index p + 1) = Suc k"
      using count k(1) ix unat_u32_bound [of "pn_payload_count p"] by (simp add: unat_word_ariths)
    have fin: "send_finished (advance_send d p) \<longleftrightarrow> Suc k = length ?plan"
      using nz pi count k(1) by (simp add: send_finished_def fields word_unat_eq_iff)
    moreover have "send_at mtu p0 (Suc k) (advance_send d p)" if "Suc k < length ?plan"
    proof -
      have ne: "cs \<noteq> []" using that k(3) by auto
      have ok': "send_ok mtu (advance_send d p)" using C(4) [OF ne] by (simp add: d)
      have rem': "remaining_chunks (unat mtu) (advance_send d p) = drop (Suc k) ?plan" using C(3) k(3) by (simp add: d)
      have tot: "unat (pn_payload_offset p) + sum_list (map snd (drop k ?plan)) = unat (pn_total_length p)"
        using ok rem by (simp add: send_ok_def)
      have "unat (pn_payload_offset (advance_send d p)) + sum_list (map snd (drop (Suc k) ?plan)) = unat (pn_total_length p)"
        using ok' rem' by (simp add: send_ok_def fields)
      moreover have "sum_list (map snd (drop k ?plan)) = snd c + sum_list (map snd (drop (Suc k) ?plan))"
        using C(1) rem k(3) by simp
      ultimately have "unat (pn_payload_offset (advance_send d p)) = sum_list (map snd (take (Suc k) ?plan))"
        using tot off k(1,2) by (simp add: take_Suc_conv_app_nth)
      then show ?thesis
        using same_send_advance [OF same] ok' rem' pi False by (simp add: send_at_def fields)
    qed
    ultimately show ?thesis using C(2) k(1) len d by simp
  qed
  then show "k < length (send_datagrams (unat mtu) p0)" "next_datagram mtu p = Some d"
    "send_finished (advance_send d p) \<longleftrightarrow> Suc k = length (send_datagrams (unat mtu) p0)"
    "Suc k < length (send_datagrams (unat mtu) p0) \<Longrightarrow> send_at mtu p0 (Suc k) (advance_send d p)" by blast+
qed

section \<open>Gathering the entries of a work request\<close>

text \<open>What the resolved segments of the entries are.\<close>

definition resolved :: "qp_service \<Rightarrow> worker_qp_view \<Rightarrow> shared_sge \<Rightarrow> source_segment \<Rightarrow> bool" where
  "resolved service view sge seg \<longleftrightarrow>
     seg_length seg = sge_length sge \<and>
     resolve_lkey (wv_session_id view) (wv_pd_identity view) (sge_lkey sge) (sge_address sge) (ucast (sge_length sge)) service =
       Inr (seg_daemon_address seg)"

lemma resolve_key_zero: "resolve_key sid p key address 0 remote s = Inl EINVAL"
  by (simp add: resolve_key_def)

lemma resolved_nonzero: "resolved service view sge seg \<Longrightarrow> seg_length seg \<noteq> 0"
  by (auto simp: resolved_def resolve_lkey_def resolve_key_zero)

lemma ceil_le:
  assumes "0 < mtu" "0 < l"
  shows "(l + mtu - 1) div mtu \<le> (l :: nat)"
proof -
  have "l + mtu - 1 \<le> l * mtu" using assms by (cases mtu; cases l) (auto simp: algebra_simps)
  then show ?thesis using assms div_le_mono [of "l + mtu - 1" "l * mtu" mtu] by simp
qed

lemma gather_sges_spec:
  assumes mtu: "0 < unat mtu" "unat mtu < 2 ^ 32"
    and start: "unat t < 2 ^ 32" "unat c \<le> unat t"
    and g: "gather_sges service view mtu sges (t, segs, c) = Inr (t', segs', c')"
  shows "\<exists>new. segs' = segs @ new \<and> list_all2 (resolved service view) sges new \<and>
    unat t' = unat t + sum_list (map (\<lambda>seg. unat (seg_length seg)) new) \<and> unat t' < 2 ^ 32 \<and>
    unat c' = unat c + length (plan (unat mtu) new) \<and> unat c' \<le> unat t'"
  using start g
proof (induction sges arbitrary: t segs c)
  case Nil
  then show ?case by (simp add: plan_def)
next
  case (Cons sge sges)
  let ?l = "sge_length sge"
  have fit: "\<not> t > ucast (0xffffffff - ?l)" using Cons.prems(3) by (auto split: if_splits)
  obtain d where r: "resolve_lkey (wv_session_id view) (wv_pd_identity view) (sge_lkey sge) (sge_address sge) (ucast ?l) service = Inr d"
    using Cons.prems(3) fit by (auto split: sum.splits)
  define seg where "seg = \<lparr>seg_daemon_address = d, seg_length = ?l\<rparr>"
  have res: "resolved service view sge seg" using r by (simp add: resolved_def seg_def)
  have nz: "?l \<noteq> 0" using resolved_nonzero [OF res] by (simp add: seg_def)
  have step: "gather_sges service view mtu sges (t + ucast ?l, segs @ [seg], c + (ucast ?l + mtu - 1) div mtu) = Inr (t', segs', c')"
    using Cons.prems(3) fit r nz by (simp add: seg_def)
  have "unat (0xffffffff - ?l) = 0xffffffff - unat ?l" using unat_u32_bound [of ?l] by (simp add: unat_sub word_le_nat_alt)
  then have sum: "unat t + unat ?l \<le> 0xffffffff" using fit unat_u32_bound [of ?l] by (simp add: word_less_nat_alt)
  then have t: "unat (t + ucast ?l) = unat t + unat ?l" by (simp add: unat_word_ariths)
  have "unat ((ucast ?l + mtu - 1) :: u64) = unat ?l + unat mtu - 1"
  proof -
    have "unat (ucast ?l + mtu) = unat ?l + unat mtu" using mtu sum by (simp add: unat_word_ariths)
    moreover have "(1 :: u64) \<le> ucast ?l + mtu" using calculation mtu by (simp add: word_le_nat_alt)
    ultimately show ?thesis by (simp add: unat_sub)
  qed
  then have q: "unat ((ucast ?l + mtu - 1) div mtu) = (unat ?l + unat mtu - 1) div unat mtu" by (simp add: unat_div)
  have qb: "(unat ?l + unat mtu - 1) div unat mtu \<le> unat ?l" using ceil_le mtu nz by (simp add: unat_gt_0)
  have c: "unat (c + (ucast ?l + mtu - 1) div mtu) = unat c + (unat ?l + unat mtu - 1) div unat mtu"
    using Cons.prems(1,2) q qb sum by (simp add: unat_word_ariths)
  obtain new where N: "segs' = (segs @ [seg]) @ new" "list_all2 (resolved service view) sges new"
      "unat t' = unat (t + ucast ?l) + sum_list (map (\<lambda>seg. unat (seg_length seg)) new)" "unat t' < 2 ^ 32"
      "unat c' = unat (c + (ucast ?l + mtu - 1) div mtu) + length (plan (unat mtu) new)" "unat c' \<le> unat t'"
    using Cons.IH [OF _ _ step] t c sum Cons.prems(2) qb by auto
  show ?case
    using N res t c chunks_count [OF mtu(1), of d "unat ?l"]
    by (intro exI [of _ "seg # new"]) (simp add: plan_Cons seg_def)
qed

text \<open>Why gathering fails: the entries are too long together, or one of them does not resolve.\<close>

lemma gather_sges_error:
  assumes "gather_sges service view mtu sges (t, segs, c) = Inl status" "unat t \<le> 0xffffffff"
  shows "status = UGDR_WC_LOC_LEN_ERR \<and> unat t + sum_list (map (\<lambda>sge. unat (sge_length sge)) sges) > 0xffffffff \<or>
    status = UGDR_WC_LOC_PROT_ERR \<and> (\<exists>sge \<in> set sges. \<nexists>seg. resolved service view sge seg)"
  using assms
proof (induction sges arbitrary: t segs c)
  case (Cons sge sges)
  let ?l = "sge_length sge"
  have "unat (0xffffffff - ?l) = 0xffffffff - unat ?l" using unat_u32_bound [of ?l] by (simp add: unat_sub word_le_nat_alt)
  then have fit: "t > ucast (0xffffffff - ?l) \<longleftrightarrow> unat t + unat ?l > 0xffffffff"
    using unat_u32_bound [of ?l] by (simp add: word_less_nat_alt, linarith)
  show ?case
  proof (cases "unat t + unat ?l > 0xffffffff")
    case True
    then show ?thesis using Cons.prems fit by simp
  next
    case False
    then have u: "unat (t + ucast ?l) = unat t + unat ?l" by (simp add: unat_word_ariths)
    show ?thesis
    proof (cases "resolve_lkey (wv_session_id view) (wv_pd_identity view) (sge_lkey sge) (sge_address sge) (ucast ?l) service")
      case (Inl e)
      then show ?thesis using Cons.prems False fit by (auto simp: resolved_def)
    next
      case (Inr d)
      have IH: ?thesis if "gather_sges service view mtu sges (t + ucast ?l, segs', c') = Inl status" for segs' c'
        using Cons.IH [OF that] u False by auto
      show ?thesis using Cons.prems(1) False fit Inr IH by (simp split: if_split_asm)
    qed
  qed
qed simp

lemma plan_lengths: "0 < mtu \<Longrightarrow> sum_list (map snd (plan mtu segs)) = sum_list (map (\<lambda>seg. unat (seg_length seg)) segs)"
  by (induction segs) (simp_all add: plan_Cons chunks_lengths, simp add: plan_def)

lemma new_pending_send_at:
  fixes lw :: "'b loop_worker" and send :: send_wqe_header
  assumes mtu: "0 < unat mtu" "unat mtu < 2 ^ 32"
    and g: "gather_sges service view mtu sges (0, [], 0) = Inr acc"
  defines "p \<equiv> new_pending_send lw view send acc"
  shows "send_at mtu p 0 p" and "list_all2 (resolved service view) sges (pn_source_segments p)"
proof -
  obtain t segs c where acc: "acc = (t, segs, c)" by (cases acc) auto
  have G: "list_all2 (resolved service view) sges segs" "unat t = sum_list (map (\<lambda>seg. unat (seg_length seg)) segs)"
      "unat t < 2 ^ 32" "unat c = length (plan (unat mtu) segs)" "unat c \<le> unat t"
    using gather_sges_spec [OF mtu _ _ g [unfolded acc]] by auto
  show "list_all2 (resolved service view) sges (pn_source_segments p)" using G(1) by (simp add: p_def new_pending_send_def acc)
  have nz: "seg_length seg \<noteq> 0" if "seg \<in> set segs" for seg
    using G(1) that resolved_nonzero by (metis in_set_conv_nth list_all2_nthD2)
  then have lz: "list_all (\<lambda>seg. seg_length seg \<noteq> 0) segs" by (simp add: list_all_iff)
  have empty: "segs = [] \<longleftrightarrow> t = 0"
  proof (cases segs)
    case (Cons seg rest)
    then have "0 < unat t" using G(2) nz [of seg] by (simp add: unat_gt_0)
    then show ?thesis using Cons by (simp add: unat_gt_0)
  qed (use G(2) in \<open>simp add: unat_eq_0\<close>)
  have "unat t = sum_list (map snd (plan (unat mtu) segs))" using plan_lengths [OF mtu(1), of segs] G(2) by simp
  then have "plan (unat mtu) segs = [] \<Longrightarrow> t = 0" by (simp add: unat_eq_0)
  then have plan: "plan (unat mtu) segs = [] \<longleftrightarrow> segs = []" using empty by (auto simp: plan_def)
  have f: "pn_total_length p = t" "pn_source_segments p = segs" "pn_segment_index p = 0" "pn_segment_offset p = 0"
      "pn_payload_index p = 0" "pn_payload_offset p = 0" "unat (pn_payload_count p) = unat c" "\<not> pn_zero_payload_sent p"
    using G(3,5) by (simp_all add: p_def new_pending_send_def acc unat_ucast_down [of c "0xffffffff"] word_le_nat_alt)
  note rem = remaining_start [OF f(3,4)]
  have "send_ok mtu p"
    using mtu G lz empty plan plan_lengths [OF mtu(1), of segs]
    by (auto simp: send_ok_def f rem word_less_nat_alt unat_gt_0 split: list.splits)
  then show "send_at mtu p 0 p" using f rem by (simp add: send_at_def same_send_def)
qed

section \<open>One call of try_send\<close>

text \<open>The entry a send was made of, and the entries that cannot be sent, with the service and the view the
  worker found when it took the entry: one of the pairs in \<open>V\<close>.\<close>

type_synonym worker_views = "(qp_service \<times> worker_qp_view) set"

definition entry_sges :: "send_slot \<Rightarrow> shared_sge list" where
  "entry_sges x = map (ss_sges x) [0..<unat (sh_sge_count (ss_header x))]"

definition send_of :: "worker_views \<Rightarrow> send_slot \<Rightarrow> pending_send \<Rightarrow> bool" where
  "send_of V x p \<longleftrightarrow>
     (let send = ss_header x in
      pn_wr_id p = sh_wr_id send \<and> pn_remote_address p = sh_remote_address send \<and> pn_rkey p = sh_rkey send \<and>
      pn_immediate_data p = sh_immediate_data send \<and>
      pn_opcode p = (if sh_opcode send = 0 then Rdma_write else Rdma_write_with_immediate) \<and>
      (\<exists>(service, view) \<in> V. list_all2 (resolved service view) (entry_sges x) (pn_source_segments p) \<and>
         pn_source_qp_num p = wv_qp_num view \<and> pn_target_qp_num p = wv_peer_qp_num view))"

definition send_fails :: "worker_views \<Rightarrow> send_slot \<Rightarrow> u32 \<Rightarrow> bool" where
  "send_fails V x status \<longleftrightarrow> (\<exists>(service, view) \<in> V.
     status = UGDR_WC_LOC_LEN_ERR \<and>
       (sh_sge_count (ss_header x) > wv_max_send_sge view \<or> sum_list (map (\<lambda>sge. unat (sge_length sge)) (entry_sges x)) > 0xffffffff) \<or>
     status = UGDR_WC_LOC_QP_OP_ERR \<and> sh_opcode (ss_header x) \<notin> {0, 1} \<or>
     status = UGDR_WC_LOC_PROT_ERR \<and> (\<exists>sge \<in> set (entry_sges x). \<nexists>seg. resolved service view sge seg))"

type_synonym send_outcome = "send_slot \<times> (u32 + pending_send)"

definition send_outcome_ok :: "worker_views \<Rightarrow> send_outcome \<Rightarrow> bool" where
  "send_outcome_ok V = (\<lambda>(x, out). case out of Inl status \<Rightarrow> send_fails V x status | Inr p \<Rightarrow> send_of V x p)"

text \<open>The datagrams of the sends that ended, and those sent so far of the one under way.\<close>

definition send_stream :: "u64 \<Rightarrow> send_outcome list \<Rightarrow> (pending_send \<times> nat) option \<Rightarrow> request_datagram list" where
  "send_stream mtu outs current =
     concat (map (\<lambda>(_, out). case out of Inl _ \<Rightarrow> [] | Inr p \<Rightarrow> send_datagrams (unat mtu) p) outs) @
     (case current of None \<Rightarrow> [] | Some (p0, k) \<Rightarrow> take k (send_datagrams (unat mtu) p0))"

definition error_entry :: "u32 \<Rightarrow> send_slot \<Rightarrow> u32 \<Rightarrow> completion_entry" where
  "error_entry qp_num x status =
     empty_entry\<lparr>ce_wr_id := sh_wr_id (ss_header x), ce_status := status, ce_opcode := UGDR_WC_RDMA_WRITE, ce_qp_num := qp_num\<rparr>"

definition send_failures :: "u32 \<Rightarrow> send_outcome list \<Rightarrow> completion_entry list" where
  "send_failures qp_num outs = concat (map (\<lambda>(x, out). case out of Inl st \<Rightarrow> [error_entry qp_num x st] | Inr _ \<Rightarrow> []) outs)"

definition completion_sink :: "completion_entry ring_sys \<Rightarrow> bool" where
  "completion_sink cq \<longleftrightarrow>
     sink_at 0 cq \<and> qd_kind (ring_desc cq) = qk_completion \<and> qd_slot_stride (ring_desc cq) = completion_slot_stride"

definition requester_at :: "worker_views \<Rightarrow> (pending_send \<times> nat) option \<Rightarrow> 'b loop_worker \<Rightarrow> bool" where
  "requester_at V current lw \<longleftrightarrow>
     0 < unat (lw_payload_bytes lw) \<and> unat (lw_payload_bytes lw) < 2 ^ 32 \<and> completion_sink (lw_send_cq lw) \<and>
     (case current of
        None \<Rightarrow> lw_pending_send lw = None \<and> source_at 0 (lw_send_queue lw)
      | Some (p0, k) \<Rightarrow>
          (\<exists>p. lw_pending_send lw = Some p \<and> send_at (lw_payload_bytes lw) p0 k p) \<and> source_at 1 (lw_send_queue lw) \<and>
          (\<exists>x xs. ring_contents (lw_send_queue lw) = x # xs \<and> send_of V x p0))"

lemma requester_at_transport [simp]: "requester_at V current (lw\<lparr>lw_transport := t\<rparr>) = requester_at V current lw"
  by (cases current) (auto simp: requester_at_def)

lemma run_desc:
  assumes "chan_run ring_step s es t"
  shows "ring_desc t = ring_desc s"
  using assms
proof induction
  case (run_snoc s es t e u)
  have "ring_desc u = ring_desc t"
    by (rule ring_stepE [OF run_snoc.hyps(2)])
      (auto simp: producer_publish_def Let_def dest: reserve_keeps_descriptor split: if_splits)
  then show ?case using run_snoc by simp
qed simp

lemma produce_one:
  assumes env: "env_ok env" and cq: "completion_sink cq" and p: "produce_completions env (Some [entry]) 1 cq = (n, cq')"
  shows "completion_sink cq' \<and> (n = 1 \<or> n = 0 \<and> no_room env cq) \<and>
    (\<exists>es. chan_run ring_step cq es cq' \<and> concat (map sent_of es) = (if n = 1 then [entry] else []))"
proof -
  have c: "ring_inv cq" "reserved_count cq = 0" "qd_kind (ring_desc cq) = qk_completion"
      "qd_slot_stride (ring_desc cq) = completion_slot_stride"
    using cq by (simp_all add: completion_sink_def sink_at_def)
  obtain es where es: "chan_run ring_step cq es cq'" "0 \<le> n" "n \<le> 1" "concat (map sent_of es) = take (nat n) [entry]"
      "reserved_count cq' = 0" "n = 0 \<longrightarrow> no_room env cq"
    using produce_completions_spec [OF env c _ _ _ p] by (auto simp: no_room_def)
  have "n = 0 \<or> n = 1" using es(2,3) by linarith
  moreover have "completion_sink cq'"
    using run_desc [OF es(1)] ring_run_inv [OF es(1) c(1)] es(5) c by (simp add: completion_sink_def sink_at_def)
  ultimately show ?thesis using es by auto
qed

text \<open>Datagrams were added to the requests, within the capacity.\<close>

definition pushed :: "local_transport \<Rightarrow> request_datagram list \<Rightarrow> local_transport \<Rightarrow> bool" where
  "pushed t ds t' \<longleftrightarrow>
     lt_requests t' = lt_requests t @ ds \<and> lt_request_capacity t' = lt_request_capacity t \<and>
     (ds \<noteq> [] \<longrightarrow> length (lt_requests t') \<le> lt_request_capacity t)"

lemma pushed_none [simp]: "pushed t [] t"
  by (simp add: pushed_def)

text \<open>What a call did: the entries that left the send queue and how each ended, the datagrams pushed and the
  completions of the entries that failed. Meanwhile entries may have been posted, if \<open>post\<close>.\<close>

definition send_effect ::
  "worker_views \<Rightarrow> bool \<Rightarrow> u32 \<Rightarrow> 'b loop_worker \<Rightarrow> send_outcome list \<Rightarrow> request_datagram list \<Rightarrow> 'b loop_worker \<Rightarrow> bool" where
  "send_effect V post qp_num lw outs ds lw' \<longleftrightarrow>
     lw_payload_bytes lw' = lw_payload_bytes lw \<and>
     pushed (lw_transport lw) ds (lw_transport lw') \<and>
     (\<exists>es. chan_run ring_step (lw_send_queue lw) es (lw_send_queue lw') \<and> concat (map taken_of es) = map fst outs \<and>
        (post \<or> concat (map sent_of es) = [])) \<and>
     (\<exists>cs. chan_run ring_step (lw_send_cq lw) cs (lw_send_cq lw') \<and> concat (map sent_of cs) = send_failures qp_num outs) \<and>
     list_all (send_outcome_ok V) outs"

lemma send_effectI:
  assumes "lw_payload_bytes lw' = lw_payload_bytes lw" "pushed (lw_transport lw) ds (lw_transport lw')"
    "chan_run ring_step (lw_send_queue lw) es (lw_send_queue lw')" "concat (map taken_of es) = map fst outs" "post \<or> concat (map sent_of es) = []"
    "chan_run ring_step (lw_send_cq lw) cs (lw_send_cq lw')" "concat (map sent_of cs) = send_failures qp_num outs"
    "list_all (send_outcome_ok V) outs"
  shows "send_effect V post qp_num lw outs ds lw'"
  using assms unfolding send_effect_def by blast

lemma send_effect_none:
  assumes "lw_payload_bytes lw' = lw_payload_bytes lw" "pushed (lw_transport lw) ds (lw_transport lw')"
    "lw_send_queue lw' = lw_send_queue lw" "lw_send_cq lw' = lw_send_cq lw"
  shows "send_effect V post qp_num lw [] ds lw'"
  using assms by (auto simp: send_effect_def send_failures_def intro!: exI [of _ "[]"] run_nil)

lemma send_stream_more:
  assumes "k < length (send_datagrams (unat mtu) p0)"
  shows "send_stream mtu [] (Some (p0, k)) @ [send_datagrams (unat mtu) p0 ! k] = send_stream mtu [] (Some (p0, Suc k))"
    and "Suc k = length (send_datagrams (unat mtu) p0) \<Longrightarrow>
      send_stream mtu [] (Some (p0, k)) @ [send_datagrams (unat mtu) p0 ! k] = send_stream mtu [(x, Inr p0)] None"
  using assms by (simp_all add: send_stream_def take_Suc_conv_app_nth [symmetric])

lemma complete_send_error_spec:
  assumes env: "env_ok (we_send_cq env)" and cq: "completion_sink (lw_send_cq lw)" and sq: "source_at 1 (lw_send_queue lw)"
    and x: "ring_contents (lw_send_queue lw) = x # xs" and pend: "lw_pending_send lw = None"
    and mtu: "0 < unat (lw_payload_bytes lw)" "unat (lw_payload_bytes lw) < 2 ^ 32"
    and f: "send_fails V x st" and c: "complete_send_error view (ss_header x) st env lw = (r, lw')"
  shows "requester_at V None lw' \<and> send_effect V post (wv_qp_num view) lw (if r then [(x, Inl st)] else []) [] lw'"
proof -
  let ?e = "error_entry (wv_qp_num view) x st"
  obtain n cq' where p: "produce_completions (we_send_cq env) (Some [?e]) 1 (lw_send_cq lw) = (n, cq')" by (metis surj_pair)
  note P = produce_one [OF env cq p]
  obtain s0 sq0 where r0: "release_entries 0 (lw_send_queue lw) = (s0, sq0)" by (metis surj_pair)
  note R0 = release_entries_spec [OF sq r0]
  obtain s1 sq1 where r1: "release_entries 1 (lw_send_queue lw) = (s1, sq1)" by (metis surj_pair)
  note R1 = release_entries_spec [OF sq r1]
  show ?thesis
  proof (cases "n = 1")
    case True
    then have o: "r" "lw' = lw\<lparr>lw_send_cq := cq', lw_send_queue := sq1\<rparr>"
      using c p r1 R1 by (simp_all add: complete_send_error_def error_entry_def Let_def)
    have q: "chan_run ring_step (lw_send_queue lw) [Taken [x]] sq1" using R1 x by auto
    obtain cs where cs: "chan_run ring_step (lw_send_cq lw) cs cq'" "concat (map sent_of cs) = [?e]" using P True by auto
    have "send_effect V post (wv_qp_num view) lw [(x, Inl st)] [] lw'"
      by (rule send_effectI [where es = "[Taken [x]]" and cs = cs]) (use f in \<open>simp_all add: o q cs send_failures_def send_outcome_ok_def\<close>)
    then show ?thesis using o P R1 pend mtu by (auto simp: requester_at_def)
  next
    case False
    then have o: "\<not> r" "lw' = lw\<lparr>lw_send_cq := cq', lw_send_queue := sq0\<rparr>"
      using c p r0 by (simp_all add: complete_send_error_def error_entry_def Let_def)
    have q: "chan_run ring_step (lw_send_queue lw) [Taken []] sq0" using R0 x by auto
    obtain cs where cs: "chan_run ring_step (lw_send_cq lw) cs cq'" "concat (map sent_of cs) = []" using P False by auto
    have "send_effect V post (wv_qp_num view) lw [] [] lw'"
      by (rule send_effectI [where es = "[Taken []]" and cs = cs]) (simp_all add: o q cs(1) cs(2) [simplified] send_failures_def)
    then show ?thesis using o P R0 pend mtu by (auto simp: requester_at_def)
  qed
qed

text \<open>With room in the transport a call pushes the next datagram; the last one ends the send and releases its
  entry.\<close>

lemma continue_send_room:
  assumes at: "requester_at V (Some (p0, k)) lw" and p: "lw_pending_send lw = Some p"
    and room: "length (lt_requests (lw_transport lw)) < lt_request_capacity (lw_transport lw)"
  defines "ds \<equiv> send_datagrams (unat (lw_payload_bytes lw)) p0"
  shows "k < length ds"
    and "\<exists>lw'. continue_send p lw = (True, lw') \<and> lw_payload_bytes lw' = lw_payload_bytes lw \<and> lw_send_cq lw' = lw_send_cq lw \<and>
      lw_transport lw' = lw_transport lw\<lparr>lt_requests := lt_requests (lw_transport lw) @ [ds ! k]\<rparr> \<and>
      (if Suc k < length ds then requester_at V (Some (p0, Suc k)) lw' \<and> lw_send_queue lw' = lw_send_queue lw
       else requester_at V None lw' \<and>
         (\<exists>x. send_of V x p0 \<and> chan_run ring_step (lw_send_queue lw) [Taken [x]] (lw_send_queue lw')))"
proof -
  let ?t = "lw_transport lw"
  have s: "send_at (lw_payload_bytes lw) p0 k p" and sq: "source_at 1 (lw_send_queue lw)" and cq: "completion_sink (lw_send_cq lw)"
    and m: "0 < unat (lw_payload_bytes lw)" "unat (lw_payload_bytes lw) < 2 ^ 32"
    and x: "\<exists>x xs. ring_contents (lw_send_queue lw) = x # xs \<and> send_of V x p0"
    using at p by (auto simp: requester_at_def)
  obtain x xs where x: "ring_contents (lw_send_queue lw) = x # xs" "send_of V x p0" using x by blast
  note S = send_at_step [OF s, folded ds_def]
  show k: "k < length ds" by (rule S(1))
  let ?p = "advance_send (ds ! k) p" and ?t' = "?t\<lparr>lt_requests := lt_requests ?t @ [ds ! k]\<rparr>"
  let ?lw = "lw\<lparr>lw_transport := ?t', lw_pending_send := Some ?p\<rparr>"
  have push: "try_push_request (ds ! k) ?t = (True, ?t')" using room by (simp add: transport_defs)
  show "\<exists>lw'. continue_send p lw = (True, lw') \<and> lw_payload_bytes lw' = lw_payload_bytes lw \<and> lw_send_cq lw' = lw_send_cq lw \<and>
      lw_transport lw' = ?t' \<and>
      (if Suc k < length ds then requester_at V (Some (p0, Suc k)) lw' \<and> lw_send_queue lw' = lw_send_queue lw
       else requester_at V None lw' \<and>
         (\<exists>x. send_of V x p0 \<and> chan_run ring_step (lw_send_queue lw) [Taken [x]] (lw_send_queue lw')))"
  proof (cases "Suc k < length ds")
    case True
    then have "continue_send p lw = (True, ?lw)" using S(2,3) push by (simp add: continue_send_def Let_def)
    then show ?thesis
      using True sq cq m x S(4) [OF True] by (intro exI [of _ ?lw]) (simp add: requester_at_def)
  next
    case False
    then have fin: "Suc k = length ds" using k by simp
    obtain st sq' where rel: "release_entries 1 (lw_send_queue lw) = (st, sq')" by (metis surj_pair)
    note R = release_entries_spec [OF sq rel]
    have run: "chan_run ring_step (lw_send_queue lw) [Taken [x]] sq'" using R x by auto
    obtain n where "continue_send p lw = (True, ?lw\<lparr>lw_send_queue := sq', lw_pending_send := None, lw_next_sequence := n\<rparr>)"
      using S(2,3) fin push rel R by (simp add: continue_send_def Let_def)
    then show ?thesis
      using False R cq m x(2) run
      by (intro exI [of _ "?lw\<lparr>lw_send_queue := sq', lw_pending_send := None, lw_next_sequence := n\<rparr>"]) (auto simp: requester_at_def)
  qed
qed

lemma continue_send_spec:
  assumes at: "requester_at V (Some (p0, k)) lw" and p: "lw_pending_send lw = Some p" and c: "continue_send p lw = (r, lw')"
  defines "mtu \<equiv> lw_payload_bytes lw"
  shows "\<exists>current outs ds. requester_at V current lw' \<and> send_effect V post qp_num lw outs ds lw' \<and>
    send_stream mtu [] (Some (p0, k)) @ ds = send_stream mtu outs current \<and> (r \<longrightarrow> ds \<noteq> [])"
proof (cases "length (lt_requests (lw_transport lw)) < lt_request_capacity (lw_transport lw)")
  case False
  have "send_at mtu p0 k p" using at p by (auto simp: requester_at_def mtu_def)
  then have "lw' = lw" "\<not> r" using send_at_step(2) c False by (auto simp: continue_send_def mtu_def transport_defs)
  then show ?thesis
    using at send_effect_none [of lw lw "[]"] by (intro exI [of _ "Some (p0, k)"] exI [of _ "[]"]) simp
next
  case True
  note C = continue_send_room [OF at p True, folded mtu_def]
  let ?d = "send_datagrams (unat mtu) p0 ! k"
  have lw': "lw_payload_bytes lw' = mtu" "lw_send_cq lw' = lw_send_cq lw" "pushed (lw_transport lw) [?d] (lw_transport lw')"
    using C(2) c True by (auto simp: pushed_def)
  show ?thesis
  proof (cases "Suc k < length (send_datagrams (unat mtu) p0)")
    case True
    then have "requester_at V (Some (p0, Suc k)) lw'" "lw_send_queue lw' = lw_send_queue lw" using C(2) c by auto
    then show ?thesis
      using lw' send_effect_none [of lw' lw "[?d]"] send_stream_more(1) [OF C(1)]
      by (intro exI [of _ "Some (p0, Suc k)"] exI [of _ "[]"] exI [of _ "[?d]"]) (simp add: mtu_def)
  next
    case False
    then obtain x where x: "requester_at V None lw'" "send_of V x p0" "chan_run ring_step (lw_send_queue lw) [Taken [x]] (lw_send_queue lw')"
      using C(2) c by auto
    have "send_effect V post qp_num lw [(x, Inr p0)] [?d] lw'"
      by (rule send_effectI [where es = "[Taken [x]]" and cs = "[]"])
        (use x lw' in \<open>auto simp: mtu_def send_failures_def send_outcome_ok_def intro: run_nil\<close>)
    moreover have "Suc k = length (send_datagrams (unat mtu) p0)" using False C(1) by simp
    ultimately show ?thesis
      using x(1) send_stream_more(2) [OF C(1), of x] by (intro exI [of _ None] exI [of _ "[(x, Inr p0)]"] exI [of _ "[?d]"]) simp
  qed
qed

text \<open>The identifier of the send was in use, so that its insertion at line 445 failed: the entry stays peeked.\<close>

definition requester_stuck :: "'b loop_worker \<Rightarrow> bool" where
  "requester_stuck lw \<longleftrightarrow>
     0 < unat (lw_payload_bytes lw) \<and> unat (lw_payload_bytes lw) < 2 ^ 32 \<and> completion_sink (lw_send_cq lw) \<and>
     lw_pending_send lw = None \<and> source_at 1 (lw_send_queue lw)"

lemma requester_stuck_transport [simp]: "requester_stuck (lw\<lparr>lw_transport := t\<rparr>) = requester_stuck lw"
  by (simp add: requester_stuck_def)

definition worker_env_ok :: "worker_env \<Rightarrow> bool" where
  "worker_env_ok env \<longleftrightarrow>
     producer_env_ok (we_send_queue env) \<and> producer_env_ok (we_receive_queue env) \<and> env_ok (we_send_cq env) \<and> env_ok (we_receive_cq env)"

lemma send_effect_peeked:
  assumes "chan_run ring_step (lw_send_queue lw) es sq" "concat (map taken_of es) = []" "post \<or> concat (map sent_of es) = []"
    and "send_effect V post qp_num (lw\<lparr>lw_send_queue := sq\<rparr>) outs ds lw'"
  shows "send_effect V post qp_num lw outs ds lw'"
proof -
  obtain fs cs where fs: "chan_run ring_step sq fs (lw_send_queue lw')" "concat (map taken_of fs) = map fst outs"
      "post \<or> concat (map sent_of fs) = []" and cs: "chan_run ring_step (lw_send_cq lw) cs (lw_send_cq lw')"
      "concat (map sent_of cs) = send_failures qp_num outs"
    using assms(4) by (auto simp: send_effect_def)
  have "chan_run ring_step (lw_send_queue lw) (es @ fs) (lw_send_queue lw')"
    "concat (map taken_of (es @ fs)) = map fst outs" "post \<or> concat (map sent_of (es @ fs)) = []"
    using chan_run_append [OF assms(1) fs(1)] assms(2,3) fs(2,3) by auto
  then show ?thesis
    by (rule send_effectI [rotated 2, OF _ _ _ cs]) (use assms(4) in \<open>simp_all add: send_effect_def\<close>)
qed

lemma start_send_spec:
  assumes env: "worker_env_ok env" and cq: "completion_sink (lw_send_cq lw)" and sq: "source_at 1 (lw_send_queue lw)"
    and x: "ring_contents (lw_send_queue lw) = x # xs" and pend: "lw_pending_send lw = None"
    and mtu: "0 < unat (lw_payload_bytes lw)" "unat (lw_payload_bytes lw) < 2 ^ 32"
    and V: "(service, view) \<in> V" and c: "start_send service view x env lw = (r, lw')"
  shows "(\<exists>current outs ds. requester_at V current lw' \<and> send_effect V post (wv_qp_num view) lw outs ds lw' \<and>
      ds = send_stream (lw_payload_bytes lw) outs current \<and> (r \<longrightarrow> outs \<noteq> [] \<or> ds \<noteq> [])) \<or>
    \<not> r \<and> lw' = lw"
proof -
  have e: "env_ok (we_send_cq env)" using env by (simp add: worker_env_ok_def)
  have failed: ?thesis if "complete_send_error view (ss_header x) st env lw = (r, lw')" "send_fails V x st" for st
    using complete_send_error_spec [OF e cq sq x pend mtu that(2,1)]
    by (intro disjI1 exI [of _ None] exI [of _ "if r then [(x, Inl st)] else []"] exI [of _ "[]"]) (auto simp: send_stream_def)
  let ?sges = "entry_sges x"
  have sent: ?thesis
    if g: "gather_sges service view (lw_payload_bytes lw) ?sges (0, [], 0) = Inr acc"
      and run: "continue_send (new_pending_send lw view (ss_header x) acc)
        (lw\<lparr>lw_requester_inflight := m, lw_pending_send := Some (new_pending_send lw view (ss_header x) acc)\<rparr>) = (r, lw')" for acc m
  proof -
    let ?p = "new_pending_send lw view (ss_header x) acc"
    let ?lw = "lw\<lparr>lw_requester_inflight := m, lw_pending_send := Some ?p\<rparr>"
    note N = new_pending_send_at [OF mtu g, of lw "ss_header x"]
    have "send_of V x ?p" using N(2) V by (auto simp: send_of_def new_pending_send_def Let_def split: prod.splits)
    then have "requester_at V (Some (?p, 0)) ?lw" using N(1) cq sq x mtu by (simp add: requester_at_def)
    from continue_send_spec [where post = post and qp_num = "wv_qp_num view", OF this _ run] obtain current outs ds where
      "requester_at V current lw'" "send_effect V post (wv_qp_num view) ?lw outs ds lw'"
      "send_stream (lw_payload_bytes lw) [] (Some (?p, 0)) @ ds = send_stream (lw_payload_bytes lw) outs current" "r \<longrightarrow> ds \<noteq> []" by auto
    then show ?thesis
      by (intro disjI1 exI [of _ current] exI [of _ outs] exI [of _ ds]) (simp add: send_effect_def, auto simp: send_stream_def)
  qed
  have id: "pn_parent_request_id (new_pending_send lw view (ss_header x) acc) = next_request_id lw" for acc
    by (simp add: new_pending_send_def split: prod.splits)
  consider (sges) "sh_sge_count (ss_header x) > wv_max_send_sge view"
    | (opcode) "\<not> sh_sge_count (ss_header x) > wv_max_send_sge view" "sh_opcode (ss_header x) \<noteq> 0 \<and> sh_opcode (ss_header x) \<noteq> 1"
    | (fine) "\<not> sh_sge_count (ss_header x) > wv_max_send_sge view" "\<not> (sh_opcode (ss_header x) \<noteq> 0 \<and> sh_opcode (ss_header x) \<noteq> 1)"
    by blast
  then show ?thesis
  proof cases
    case sges
    then have "send_fails V x UGDR_WC_LOC_LEN_ERR" using V by (auto simp: send_fails_def)
    then show ?thesis using c sges failed by (simp add: start_send_def)
  next
    case opcode
    then have "send_fails V x UGDR_WC_LOC_QP_OP_ERR" using V by (auto simp: send_fails_def)
    then show ?thesis using c opcode failed by (simp add: start_send_def)
  next
    case fine
    show ?thesis
    proof (cases "gather_sges service view (lw_payload_bytes lw) ?sges (0, [], 0)")
      case (Inl st)
      moreover have "send_fails V x st" using gather_sges_error [OF Inl] V by (auto simp: send_fails_def)
      ultimately show ?thesis using c fine failed by (auto simp: start_send_def entry_sges_def)
    next
      case (Inr acc)
      moreover obtain t segs n where acc: "acc = (t, segs, n)" by (cases acc) auto
      moreover have "\<not> n > 0xffffffff"
        using gather_sges_spec [OF mtu _ _ Inr [unfolded acc]] by (auto simp: word_less_nat_alt)
      ultimately show ?thesis using c fine id sent [OF Inr] by (simp add: start_send_def entry_sges_def Let_def split: if_split_asm)
    qed
  qed
qed

lemma try_send_spec:
  assumes at: "requester_at V current lw" and env: "worker_env_ok env" and V: "(service, view) \<in> V"
    and post: "post \<or> posts_nothing (we_send_queue env)" and c: "try_send service view env lw = (r, lw')"
  shows "(\<exists>current' outs ds. requester_at V current' lw' \<and> send_effect V post (wv_qp_num view) lw outs ds lw' \<and>
      send_stream (lw_payload_bytes lw) [] current @ ds = send_stream (lw_payload_bytes lw) outs current' \<and>
      (r \<longrightarrow> outs \<noteq> [] \<or> ds \<noteq> [])) \<or>
    \<not> r \<and> current = None \<and> requester_stuck lw' \<and> send_effect V post (wv_qp_num view) lw [] [] lw'"
proof (cases current)
  case (Some pk)
  obtain p0 k where pk: "pk = (p0, k)" by force
  obtain p where p: "lw_pending_send lw = Some p" using at Some by (auto simp: requester_at_def pk)
  then show ?thesis
    using continue_send_spec [where post = post and qp_num = "wv_qp_num view", OF at [unfolded Some pk] p, of r lw'] c by (auto simp: try_send_def Some pk)
next
  case None
  then have a: "lw_pending_send lw = None" "source_at 0 (lw_send_queue lw)" "completion_sink (lw_send_cq lw)"
      "0 < unat (lw_payload_bytes lw)" "unat (lw_payload_bytes lw) < 2 ^ 32"
    using at by (simp_all add: requester_at_def)
  obtain st e sq where pk: "peek_entry (we_send_queue env) (lw_send_queue lw) = (st, e, sq)" by (metis prod_cases3)
  have pe: "producer_env_ok (we_send_queue env)" using env by (simp add: worker_env_ok_def)
  note P = peek_entry_spec [OF pe a(2) pk]
  obtain es where es: "chan_run ring_step (lw_send_queue lw) es sq" "concat (map taken_of es) = []" "post \<or> concat (map sent_of es) = []"
    using P post by blast
  let ?lw = "lw\<lparr>lw_send_queue := sq\<rparr>"
  have idle: "send_effect V post (wv_qp_num view) lw [] [] ?lw"
    using send_effect_peeked [OF es send_effect_none] by simp
  show ?thesis
  proof (cases "st = OK")
    case False
    then have "source_at 0 sq" "lw' = ?lw" "\<not> r" using P c a(1) pk by (auto simp: try_send_def)
    then show ?thesis
      using idle a None by (intro disjI1 exI [of _ None] exI [of _ "[]"]) (simp add: requester_at_def)
  next
    case True
    then obtain x xs where x: "e = Some x" "ring_contents sq = x # xs" and sq: "source_at 1 sq" using P by auto
    have start: "start_send service view x env ?lw = (r, lw')" using c a(1) pk x True by (simp add: try_send_def)
    consider (stuck) "\<not> r" "lw' = ?lw"
      | (moved) current' outs ds where "requester_at V current' lw'" "send_effect V post (wv_qp_num view) ?lw outs ds lw'"
        "ds = send_stream (lw_payload_bytes lw) outs current'" "r \<longrightarrow> outs \<noteq> [] \<or> ds \<noteq> []"
      using start_send_spec [where post = post, OF env _ _ _ _ _ _ V start] a x sq by auto
    then show ?thesis
    proof cases
      case stuck
      then show ?thesis using idle a sq None by (intro disjI2) (simp add: requester_stuck_def)
    next
      case (moved current' outs ds)
      moreover have "send_stream (lw_payload_bytes lw) [] current = []" by (simp add: None send_stream_def)
      ultimately show ?thesis
        using send_effect_peeked [OF es] by (intro disjI1 exI [of _ current'] exI [of _ outs] exI [of _ ds]) simp
    qed
  qed
qed

text \<open>A worker that is stuck stays so: every later peek is refused.\<close>

lemma try_send_stuck:
  assumes at: "requester_stuck lw" and env: "worker_env_ok env" and c: "try_send service view env lw = (r, lw')"
  shows "\<not> r \<and> requester_stuck lw' \<and> send_effect V True qp_num lw [] [] lw'"
proof -
  have a: "lw_pending_send lw = None" "source_at 1 (lw_send_queue lw)" using at by (simp_all add: requester_stuck_def)
  obtain st e sq where pk: "peek_entry (we_send_queue env) (lw_send_queue lw) = (st, e, sq)" by (metis prod_cases3)
  have pe: "producer_env_ok (we_send_queue env)" using env by (simp add: worker_env_ok_def)
  note P = peek_entry_busy [OF pe a(2) pk]
  then have lw': "lw' = lw\<lparr>lw_send_queue := sq\<rparr>" "\<not> r" using c a(1) pk by (simp_all add: try_send_def)
  obtain es where "chan_run ring_step (lw_send_queue lw) es sq" "concat (map taken_of es) = []" using P by blast
  from send_effect_peeked [OF this _ send_effect_none [of lw']] have "send_effect V True qp_num lw [] [] lw'"
    by (simp add: lw')
  then show ?thesis using P at lw' by (simp add: requester_stuck_def)
qed

section \<open>Responses\<close>

text \<open>What \<open>handle_response\<close> does with a response: nothing for an unknown parent; otherwise one completion if
  the request was signaled or failed, the observer's event, and the parent is forgotten; or nothing if
  the completion queue is full.\<close>

lemma handle_response_spec:
  assumes env: "env_ok (we_send_cq env)" and cq: "completion_sink (lw_send_cq lw)"
    and h: "handle_response view loaded response env lw = (r, lw')"
  defines "i \<equiv> rsd_parent_request_id response"
  shows "completion_sink (lw_send_cq lw') \<and> (\<exists>cs. chan_run ring_step (lw_send_cq lw) cs (lw_send_cq lw') \<and>
    (case lw_requester_inflight lw i of
       None \<Rightarrow> r \<and> concat (map sent_of cs) = [] \<and> lw' = lw\<lparr>lw_pending_response := None\<rparr>
     | Some f \<Rightarrow>
         (lw_requester_inflight lw' = (lw_requester_inflight lw)(i := None) \<and> r \<and> lw_pending_response lw' = None \<and>
          concat (map sent_of cs) =
            (if rsd_result response \<noteq> Success \<or> ri_signaled f
             then [send_completion (ri_wr_id f) (wv_qp_num view) (rsd_result response)] else [])) \<or>
         (lw' = lw\<lparr>lw_send_cq := lw_send_cq lw'\<rparr> \<and> r = loaded \<and> concat (map sent_of cs) = [] \<and>
          (rsd_result response \<noteq> Success \<or> ri_signaled f) \<and> no_room (we_send_cq env) (lw_send_cq lw))))"
proof (cases "lw_requester_inflight lw i")
  case None
  then show ?thesis
    using h cq by (auto simp: handle_response_def i_def Let_def intro!: exI [of _ "[]"] run_nil)
next
  case (Some f)
  let ?e = "send_completion (ri_wr_id f) (wv_qp_num view) (rsd_result response)"
  show ?thesis
  proof (cases "rsd_result response \<noteq> Success \<or> ri_signaled f")
    case False
    then show ?thesis
      using h cq Some by (auto simp: handle_response_def i_def Let_def intro!: exI [of _ "[]"] run_nil)
  next
    case True
    obtain n cq' where p: "produce_completions (we_send_cq env) (Some [?e]) 1 (lw_send_cq lw) = (n, cq')" by (metis surj_pair)
    note P = produce_one [OF env cq p]
    obtain cs where cs: "chan_run ring_step (lw_send_cq lw) cs cq'" "concat (map sent_of cs) = (if n = 1 then [?e] else [])"
      using P by blast
    have h': "lw_send_cq lw' = cq'" "n = 1 \<Longrightarrow> r \<and> lw_requester_inflight lw' = (lw_requester_inflight lw)(i := None) \<and> lw_pending_response lw' = None"
        "n \<noteq> 1 \<Longrightarrow> r = loaded \<and> lw' = lw\<lparr>lw_send_cq := cq'\<rparr>"
      using h Some True p by (auto simp: handle_response_def i_def Let_def split: if_splits)
    then show ?thesis using P cs Some True by (cases "n = 1") (auto intro!: exI [of _ cs])
  qed
qed

lemma handle_response_keeps:
  "handle_response view loaded response env lw = (r, lw') \<Longrightarrow>
   lw_payload_bytes lw' = lw_payload_bytes lw \<and> lw_pending_send lw' = lw_pending_send lw \<and>
   lw_send_queue lw' = lw_send_queue lw \<and> lw_transport lw' = lw_transport lw"
  by (auto simp: handle_response_def Let_def split: option.splits if_splits prod.splits)

text \<open>Between calls a requester's worker is between the datagrams of a send, or between sends, or stuck.\<close>

definition requester_state :: "worker_views \<Rightarrow> (pending_send \<times> nat) option \<Rightarrow> 'b loop_worker \<Rightarrow> bool" where
  "requester_state V current lw \<longleftrightarrow> requester_at V current lw \<or> current = None \<and> requester_stuck lw"

lemma try_response_keeps:
  assumes env: "worker_env_ok env" and c: "try_response view env lw = (r, lw')" and cq: "completion_sink (lw_send_cq lw)"
  shows "lw_send_queue lw' = lw_send_queue lw \<and> lw_payload_bytes lw' = lw_payload_bytes lw \<and> lw_pending_send lw' = lw_pending_send lw \<and>
    completion_sink (lw_send_cq lw') \<and> (\<exists>cs. chan_run ring_step (lw_send_cq lw) cs (lw_send_cq lw') \<and>
      (concat (map sent_of cs) = [] \<or> (\<exists>wr_id result. concat (map sent_of cs) = [send_completion wr_id (wv_qp_num view) result])))"
proof -
  have e: "env_ok (we_send_cq env)" using env by (simp add: worker_env_ok_def)
  have keep: ?thesis if h: "handle_response view l response env lw1 = (r, lw')" and same: "lw_payload_bytes lw1 = lw_payload_bytes lw"
      "lw_pending_send lw1 = lw_pending_send lw" "lw_send_queue lw1 = lw_send_queue lw" "lw_send_cq lw1 = lw_send_cq lw" for l response lw1
  proof -
    have cq1: "completion_sink (lw_send_cq lw1)" using cq same(4) by simp
    note H = handle_response_spec [OF e cq1 h]
    obtain cs where cs: "chan_run ring_step (lw_send_cq lw) cs (lw_send_cq lw')"
        "concat (map sent_of cs) = [] \<or> (\<exists>wr_id result. concat (map sent_of cs) = [send_completion wr_id (wv_qp_num view) result])"
      using H same(4) by (cases "lw_requester_inflight lw1 (rsd_parent_request_id response)") (auto split: if_split_asm)
    moreover have "completion_sink (lw_send_cq lw')" using H by blast
    ultimately show ?thesis using handle_response_keeps [OF h] same by auto
  qed
  have idle: ?thesis if "lw' = lw\<lparr>lw_transport := t\<rparr>" for t using cq that by (auto intro!: exI [of _ "[]"] run_nil)
  show ?thesis
  proof (cases "lw_pending_response lw")
    case None
    obtain v t where "try_pop_response (lw_transport lw) = (v, t)" by force
    then show ?thesis using c None idle [of t] keep [of True] by (cases v) (auto simp: try_response_def)
  next
    case (Some response)
    then show ?thesis using c keep [of False response lw] by (simp add: try_response_def)
  qed
qed

lemma requester_at_same:
  assumes "requester_at V current lw" "lw_send_queue lw' = lw_send_queue lw" "lw_payload_bytes lw' = lw_payload_bytes lw"
    "lw_pending_send lw' = lw_pending_send lw" "completion_sink (lw_send_cq lw')"
  shows "requester_at V current lw'"
  using assms by (cases current) (auto simp: requester_at_def)

section \<open>Runs of the requester\<close>

text \<open>The calls \<open>progress_once\<close> makes, and the use the other worker makes of the transport.\<close>

datatype requester_move =
    Send_call qp_service worker_qp_view worker_env
  | Response_call worker_qp_view worker_env
  | Peer_moved local_transport

fun requester_exec :: "requester_move \<Rightarrow> 'b loop_worker \<Rightarrow> 'b loop_worker" where
  "requester_exec (Send_call service view env) lw = snd (try_send service view env lw)"
| "requester_exec (Response_call view env) lw = snd (try_response view env lw)"
| "requester_exec (Peer_moved t) lw = lw\<lparr>lw_transport := t\<rparr>"

text \<open>The datagrams a move pushes, and all the moves of a run push, in order.\<close>

fun pushed_by :: "requester_move \<Rightarrow> 'b loop_worker \<Rightarrow> request_datagram list" where
  "pushed_by (Send_call service view env) lw =
     drop (length (lt_requests (lw_transport lw))) (lt_requests (lw_transport (snd (try_send service view env lw))))"
| "pushed_by _ lw = []"

fun requester_run :: "requester_move list \<Rightarrow> 'b loop_worker \<Rightarrow> request_datagram list \<times> 'b loop_worker" where
  "requester_run [] lw = ([], lw)"
| "requester_run (m # ms) lw =
     (case requester_run ms (requester_exec m lw) of (ds, lw') \<Rightarrow> (pushed_by m lw @ ds, lw'))"

fun requester_move_ok :: "requester_move \<Rightarrow> bool" where
  "requester_move_ok (Send_call service view env) = worker_env_ok env"
| "requester_move_ok (Response_call view env) = worker_env_ok env"
| "requester_move_ok (Peer_moved t) = True"

text \<open>The work requests a call took and how each ended, and the completions it published: a send call those of the work
  requests that failed, a call for responses at most one that answers a response.\<close>

fun call_published :: "requester_move \<Rightarrow> send_outcome list \<times> completion_entry list \<Rightarrow> bool" where
  "call_published (Send_call service view env) (outs, entries) = (entries = send_failures (wv_qp_num view) outs)"
| "call_published (Response_call view env) (outs, entries) =
     (outs = [] \<and> (entries = [] \<or> (\<exists>wr_id result. entries = [send_completion wr_id (wv_qp_num view) result])))"
| "call_published (Peer_moved t) (outs, entries) = (outs = [] \<and> entries = [])"

definition send_views :: "requester_move list \<Rightarrow> worker_views" where
  "send_views moves = {(service, view). \<exists>env. Send_call service view env \<in> set moves}"

lemma send_stream_append:
  assumes "send_stream mtu [] current @ ds = send_stream mtu outs current1" "send_stream mtu [] current1 @ ds' = send_stream mtu outs' current2"
  shows "send_stream mtu [] current @ ds @ ds' = send_stream mtu (outs @ outs') current2"
proof -
  have f: "send_stream mtu (xs @ ys) c = send_stream mtu xs None @ send_stream mtu ys c" for xs ys c by (simp add: send_stream_def)
  have "send_stream mtu [] current @ ds @ ds' = send_stream mtu outs current1 @ ds'" using assms(1) by simp
  also have "\<dots> = send_stream mtu outs None @ send_stream mtu outs' current2"
    using f [of outs "[]" current1] assms(2) by simp
  finally show ?thesis by (simp add: f)
qed

text \<open>What moves did, from \<open>current\<close> on: the state they leave, the work requests taken, the datagrams and the completions.\<close>

definition moves_done ::
  "worker_views \<Rightarrow> (pending_send \<times> nat) option \<Rightarrow> 'b loop_worker \<Rightarrow> requester_move list \<Rightarrow> request_datagram list \<Rightarrow>
   (send_outcome list \<times> completion_entry list) list \<Rightarrow> (pending_send \<times> nat) option \<Rightarrow> 'b loop_worker \<Rightarrow> bool" where
  "moves_done V current lw moves ds steps current' lw' \<longleftrightarrow>
     requester_state V current' lw' \<and> lw_payload_bytes lw' = lw_payload_bytes lw \<and> list_all2 call_published moves steps \<and>
     send_stream (lw_payload_bytes lw) [] current @ ds = send_stream (lw_payload_bytes lw) (concat (map fst steps)) current' \<and>
     list_all (send_outcome_ok V) (concat (map fst steps)) \<and>
     (\<exists>es. chan_run ring_step (lw_send_queue lw) es (lw_send_queue lw') \<and> concat (map taken_of es) = map fst (concat (map fst steps))) \<and>
     (\<exists>cs. chan_run ring_step (lw_send_cq lw) cs (lw_send_cq lw') \<and> concat (map sent_of cs) = concat (map snd steps))"

lemma moves_done_nil: "requester_state V current lw \<Longrightarrow> moves_done V current lw [] [] [] current lw"
  by (auto simp: moves_done_def intro!: exI [of _ "[]"] run_nil)

lemma moves_done_trans:
  assumes "moves_done V current lw ms ds steps current1 lw1" "moves_done V current1 lw1 ms' ds' steps' current2 lw2"
  shows "moves_done V current lw (ms @ ms') (ds @ ds') (steps @ steps') current2 lw2"
proof -
  obtain es cs where a: "chan_run ring_step (lw_send_queue lw) es (lw_send_queue lw1)" "concat (map taken_of es) = map fst (concat (map fst steps))"
      "chan_run ring_step (lw_send_cq lw) cs (lw_send_cq lw1)" "concat (map sent_of cs) = concat (map snd steps)"
    using assms(1) by (auto simp: moves_done_def)
  obtain fs gs where b: "chan_run ring_step (lw_send_queue lw1) fs (lw_send_queue lw2)" "concat (map taken_of fs) = map fst (concat (map fst steps'))"
      "chan_run ring_step (lw_send_cq lw1) gs (lw_send_cq lw2)" "concat (map sent_of gs) = concat (map snd steps')"
    using assms(2) by (auto simp: moves_done_def)
  have "chan_run ring_step (lw_send_queue lw) (es @ fs) (lw_send_queue lw2)" "chan_run ring_step (lw_send_cq lw) (cs @ gs) (lw_send_cq lw2)"
    using a b by (blast intro: chan_run_append)+
  moreover have "concat (map taken_of (es @ fs)) = map fst (concat (map fst (steps @ steps')))"
    "concat (map sent_of (cs @ gs)) = concat (map snd (steps @ steps'))" using a b by simp_all
  moreover have "list_all2 call_published (ms @ ms') (steps @ steps')" using assms by (auto simp: moves_done_def intro: list_all2_appendI)
  ultimately show ?thesis
    using assms send_stream_append [of "lw_payload_bytes lw" current ds "concat (map fst steps)" current1 ds' "concat (map fst steps')" current2]
    unfolding moves_done_def by (intro conjI) auto
qed

lemma send_call_done:
  assumes "requester_state V current lw" "requester_move_ok m" "m = Send_call service view env" "(service, view) \<in> V"
  shows "\<exists>steps current'. moves_done V current lw [m] (pushed_by m lw) steps current' (requester_exec m lw)"
proof -
  obtain r lw1 where t: "try_send service view env lw = (r, lw1)" by force
  have effect: "moves_done V current lw [m] (pushed_by m lw) [(outs, send_failures (wv_qp_num view) outs)] current' (requester_exec m lw)"
    if "requester_state V current' lw1" "send_effect V True (wv_qp_num view) lw outs ds lw1"
      "send_stream (lw_payload_bytes lw) [] current @ ds = send_stream (lw_payload_bytes lw) outs current'" for outs ds current'
    using that t assms(3) by (auto simp: moves_done_def send_effect_def pushed_def)
  have env: "worker_env_ok env" using assms(2,3) by simp
  consider "requester_at V current lw" | "current = None" "requester_stuck lw" using assms(1) by (auto simp: requester_state_def)
  then show ?thesis
  proof cases
    case 1
    from try_send_spec [where post = True, OF 1 env assms(4) _ t] show ?thesis
      using effect [of None "[]" "[]"] effect by (fastforce simp: requester_state_def)
  next
    case 2
    from try_send_stuck [OF 2(2) env t] show ?thesis using effect [of None "[]" "[]"] 2(1) by (auto simp: requester_state_def)
  qed
qed

lemma response_call_done:
  assumes "requester_state V current lw" "requester_move_ok m" "m = Response_call view env"
  shows "\<exists>steps. moves_done V current lw [m] (pushed_by m lw) steps current (requester_exec m lw)"
proof -
  obtain r lw1 where t: "try_response view env lw = (r, lw1)" by force
  have cq: "completion_sink (lw_send_cq lw)" using assms(1) by (auto simp: requester_state_def requester_at_def requester_stuck_def)
  have env: "worker_env_ok env" using assms(2,3) by simp
  note K = try_response_keeps [OF env t cq]
  then obtain cs where cs: "chan_run ring_step (lw_send_cq lw) cs (lw_send_cq lw1)"
      "concat (map sent_of cs) = [] \<or> (\<exists>wr_id result. concat (map sent_of cs) = [send_completion wr_id (wv_qp_num view) result])" by blast
  have "requester_state V current lw1"
    using assms(1) K requester_at_same [of V current lw lw1] by (auto simp: requester_state_def requester_stuck_def)
  then have "moves_done V current lw [m] (pushed_by m lw) [([], concat (map sent_of cs))] current (requester_exec m lw)"
    using K cs t assms(3) by (auto simp: moves_done_def intro!: exI [of _ "[]"] exI [of _ cs] run_nil)
  then show ?thesis by blast
qed

lemma requester_run_spec:
  assumes "requester_state V current lw" "list_all requester_move_ok moves" "requester_run moves lw = (ds, lw')" "send_views moves \<subseteq> V"
  shows "\<exists>steps current'. moves_done V current lw moves ds steps current' lw'"
  using assms
proof (induction moves arbitrary: current lw ds)
  case Nil
  then show ?case using moves_done_nil [OF Nil.prems(1)] by auto
next
  case (Cons m ms)
  let ?lw = "requester_exec m lw"
  obtain ds' where ds': "requester_run ms ?lw = (ds', lw')" "ds = pushed_by m lw @ ds'"
    using Cons.prems(3) by (auto split: prod.splits)
  have m: "requester_move_ok m" "list_all requester_move_ok ms" using Cons.prems(2) by simp_all
  have "\<exists>steps current1. moves_done V current lw [m] (pushed_by m lw) steps current1 ?lw"
  proof (cases m)
    case (Send_call service view env)
    then have "(service, view) \<in> V" using Cons.prems(4) by (auto simp: send_views_def)
    then show ?thesis using send_call_done [OF Cons.prems(1) m(1) Send_call] by blast
  next
    case (Response_call view env)
    then show ?thesis using response_call_done [OF Cons.prems(1) m(1)] by blast
  next
    case (Peer_moved t)
    then have "moves_done V current lw [m] (pushed_by m lw) [([], [])] current ?lw"
      using Cons.prems(1) by (auto simp: moves_done_def requester_state_def intro!: exI [of _ "[]"] run_nil)
    then show ?thesis by blast
  qed
  then obtain steps current1 where S: "moves_done V current lw [m] (pushed_by m lw) steps current1 ?lw" by blast
  have "send_views ms \<subseteq> V" using Cons.prems(4) by (auto simp: send_views_def)
  moreover have "requester_state V current1 ?lw" using S by (simp add: moves_done_def)
  ultimately obtain steps' current2 where "moves_done V current1 ?lw ms ds' steps' current2 lw'"
    using Cons.IH [OF _ m(2) ds'(1)] by blast
  from moves_done_trans [OF S this] show ?case using ds'(2) by auto
qed

end
