(* ===== verification/Worker_Respond.thy ===== *)
theory Worker_Respond
  imports Worker_Send Qp_Objects
begin

unbundle bit_operations_syntax

text \<open>
  The responder: what it accepts, where the copies it asks for lead, and when and how it answers. The
  invariant \<open>responder_inv\<close> ties together the parents in flight, their order, the receive request that is
  peeked and the copies not yet submitted.
\<close>

section \<open>Parents\<close>

text \<open>A state of the service in which the mapping of every region fits into the address space, as the
  mappings of a memory backend do.\<close>

definition service_ok :: "qp_service \<Rightarrow> bool" where
  "service_ok s \<longleftrightarrow>
     qp_inv s \<and> (\<forall>i sid mr. mrs_of s i = Some (sid, mr) \<longrightarrow> unat (mr_daemon_address mr) + unat (mr_length mr) \<le> 2 ^ 64)"

text \<open>The memory range lies inside a region that was live, writable if it is to be written, and of the given
  session and protection domain in one of the states \<open>S\<close> the worker found the service in.\<close>

definition range_granted :: "qp_service set \<Rightarrow> bool \<Rightarrow> u64 \<Rightarrow> u64 \<Rightarrow> u64 \<Rightarrow> nat \<Rightarrow> bool" where
  "range_granted S remote sid pd address len \<longleftrightarrow>
     (\<exists>service \<in> S. \<exists>i mr. service_ok service \<and> mrs_of service i = Some (sid, mr) \<and> mr_pd_identity mr = pd \<and>
        (remote \<longrightarrow> mr_access mr AND kAccessRemoteWrite \<noteq> 0) \<and> unat (mr_daemon_address mr) \<le> unat address \<and>
        unat address + len \<le> unat (mr_daemon_address mr) + unat (mr_length mr))"

lemma resolve_key_granted:
  assumes ok: "service_ok service" "service \<in> S" and r: "resolve_key sid pd key address len remote service = Inr d"
  shows "range_granted S remote sid pd d (unat len)"
proof -
  obtain mr where g: "key_grants remote sid pd key address len service mr"
      "unat d = unat (mr_daemon_address mr) + (unat address - unat (mr_client_address mr))"
    using resolve_key_sound [OF qp_invD(1) r] ok(1) by (auto simp: service_ok_def)
  then show ?thesis
    unfolding range_granted_def using ok by (auto simp: key_grants_def intro!: bexI [of _ service] exI [of _ mr])
qed

lemma range_granted_sub:
  assumes "range_granted S remote sid pd address len" "off + l \<le> len" "0 < l"
  shows "range_granted S remote sid pd (address + of_nat off) l" "unat (address + of_nat off) = unat address + off"
proof -
  obtain service i mr where S: "service \<in> S" and g: "service_ok service" "mrs_of service i = Some (sid, mr)" "mr_pd_identity mr = pd"
      "remote \<longrightarrow> mr_access mr AND kAccessRemoteWrite \<noteq> 0" "unat (mr_daemon_address mr) \<le> unat address"
      "unat address + len \<le> unat (mr_daemon_address mr) + unat (mr_length mr)"
    using assms(1) by (auto simp: range_granted_def)
  have "unat (mr_daemon_address mr) + unat (mr_length mr) \<le> 18446744073709551616" using g(1,2) by (auto simp: service_ok_def)
  then have "unat address + off < 18446744073709551616" using g(6) assms(2,3) by linarith
  then show u: "unat (address + of_nat off) = unat address + off"
    by (subst unat_add_u64) (simp_all add: unat_of_nat_u64)
  show "range_granted S remote sid pd (address + of_nat off) l"
    using S g assms(2) unfolding range_granted_def u by (intro bexI [of _ service] exI [of _ i] exI [of _ mr]) auto
qed

definition count_terminal :: "u8 list \<Rightarrow> nat" where
  "count_terminal ts = length (filter (\<lambda>t. t \<noteq> 0) ts)"

definition parent_ok :: "qp_service set \<Rightarrow> u64 \<Rightarrow> u64 \<Rightarrow> responder_inflight \<Rightarrow> bool" where
  "parent_ok S sid pd p \<longleftrightarrow>
     length (rf_terminal p) = unat (rf_payload_count p) \<and> length (rf_results p) = unat (rf_payload_count p) \<and>
     unat (rf_terminal_count p) = count_terminal (rf_terminal p) \<and>
     (\<forall>i < unat (rf_payload_count p). rf_terminal p ! i = 0 \<longrightarrow> rf_results p ! i = Success) \<and>
     rf_next_payload_index p \<le> rf_payload_count p \<and> rf_next_payload_offset p \<le> rf_parent_total_length p \<and>
     unat (rf_parent_total_length p) < 2 ^ 32 \<and> rf_byte_length p = ucast (rf_parent_total_length p) \<and>
     (rf_next_payload_index p = rf_payload_count p \<and> rf_parent_error p = Success \<longrightarrow>
        rf_next_payload_offset p = rf_parent_total_length p) \<and>
     range_granted S True sid pd (rf_target_daemon_address p) (unat (rf_parent_total_length p))"

lemma ucast_of_u32: "(of_nat (unat (x :: u32)) :: u64) = ucast x"
  by simp

lemma count_terminal_update:
  "i < length ts \<Longrightarrow> ts ! i = 0 \<Longrightarrow> v \<noteq> 0 \<Longrightarrow> count_terminal (ts[i := v]) = Suc (count_terminal ts)"
  using length_filter_update [of i ts "\<lambda>t. t \<noteq> 0" v] by (simp add: count_terminal_def)

lemma count_terminal_le: "count_terminal ts \<le> length ts"
  by (simp add: count_terminal_def)

lemma count_terminal_all: "count_terminal ts = length ts \<longleftrightarrow> (\<forall>i < length ts. ts ! i \<noteq> 0)"
proof -
  have "length (filter (\<lambda>t. t \<noteq> 0) ts) = length ts \<longleftrightarrow> (\<forall>t\<in>set ts. t \<noteq> 0)"
    using length_filter_less [of _ ts "\<lambda>t. t \<noteq> 0"] by (auto simp: filter_id_conv [THEN iffD2] dest: nat_less_le [THEN iffD1])
  then show ?thesis by (simp add: count_terminal_def all_set_conv_all_nth)
qed

lemma new_parent_ok:
  assumes ok: "service_ok service" "service \<in> S" and v: "valid_first d" and t: "rqd_parent_total_length d \<le> 0xffffffff"
    and r: "resolve_rkey sid pd (rqd_rkey d) (rqd_remote_address d) (rqd_parent_total_length d) service = Inr target"
  shows "parent_ok S sid pd (new_parent d target receive)" and "valid_payload (new_parent d target receive) d"
    and "rqd_payload_count d \<noteq> 0"
proof -
  have nz: "rqd_parent_total_length d \<noteq> 0" using r by (auto simp: resolve_rkey_def resolve_key_def)
  then show c: "rqd_payload_count d \<noteq> 0" using v by (auto simp: valid_first_def Let_def)
  have g: "range_granted S True sid pd target (unat (rqd_parent_total_length d))"
    using resolve_key_granted [OF ok] r by (simp add: resolve_rkey_def)
  show "parent_ok S sid pd (new_parent d target receive)"
    using g t c by (auto simp: parent_ok_def new_parent_def count_terminal_def word_le_nat_alt)
  show "valid_payload (new_parent d target receive) d"
    using v c by (auto simp: valid_payload_def new_parent_def valid_first_def Let_def word_gt_0)
qed

lemma valid_payload_bounds:
  assumes ok: "parent_ok S sid pd p" and v: "valid_payload p d" and nz: "rf_payload_count p \<noteq> 0"
  shows "unat (rf_next_payload_index p) < unat (rf_payload_count p)" "0 < unat (rqd_payload_length d)"
    "unat (rf_next_payload_offset p) + unat (rqd_payload_length d) \<le> unat (rf_parent_total_length p)"
    "rqd_payload_offset d = rf_next_payload_offset p" "rqd_payload_index d = rf_next_payload_index p"
    "rf_next_payload_index p + 1 \<le> rf_payload_count p" "unat (rf_next_payload_index p + 1) = Suc (unat (rf_next_payload_index p))"
    "unat (rf_next_payload_offset p + ucast (rqd_payload_length d)) = unat (rf_next_payload_offset p) + unat (rqd_payload_length d)"
proof -
  have l: "ucast (rqd_payload_length d) \<le> rf_parent_total_length p - rf_next_payload_offset p" "rqd_payload_length d \<noteq> 0"
      "rf_next_payload_index p < rf_payload_count p" "rf_next_payload_offset p \<le> rf_parent_total_length p"
      "rqd_payload_offset d = rf_next_payload_offset p" "rqd_payload_index d = rf_next_payload_index p"
    using v nz by (auto simp: valid_payload_def Let_def)
  show i: "unat (rf_next_payload_index p) < unat (rf_payload_count p)" "0 < unat (rqd_payload_length d)"
      "rqd_payload_offset d = rf_next_payload_offset p" "rqd_payload_index d = rf_next_payload_index p"
    using l by (simp_all add: word_less_nat_alt unat_gt_0)
  show o: "unat (rf_next_payload_offset p) + unat (rqd_payload_length d) \<le> unat (rf_parent_total_length p)"
    using l(1,4) by (simp add: word_le_nat_alt unat_sub)
  show n: "unat (rf_next_payload_index p + 1) = Suc (unat (rf_next_payload_index p))"
    using i(1) unat_u32_bound [of "rf_payload_count p"] by (simp add: unat_word_ariths)
  then show "rf_next_payload_index p + 1 \<le> rf_payload_count p" using i(1) by (simp add: word_le_nat_alt)
  show "unat (rf_next_payload_offset p + ucast (rqd_payload_length d)) = unat (rf_next_payload_offset p) + unat (rqd_payload_length d)"
    using o unat_u64_bound [of "rf_parent_total_length p"] by (subst unat_add_u64) simp_all
qed

lemma advance_parent_ok:
  assumes ok: "parent_ok S sid pd p" and v: "valid_payload p d" and nz: "rf_payload_count p \<noteq> 0"
  shows "parent_ok S sid pd (advance_parent d p)"
proof -
  note b = valid_payload_bounds [OF ok v nz]
  have "rf_next_payload_offset p + ucast (rqd_payload_length d) \<le> rf_parent_total_length p"
    using b(3,8) by (simp add: word_le_nat_alt)
  then show ?thesis using ok b(6) by (auto simp: parent_ok_def advance_parent_def Let_def)
qed

text \<open>The copies the responder asks for.\<close>

definition copy_ok :: "qp_service set \<Rightarrow> u64 \<Rightarrow> u64 \<Rightarrow> backend_request \<Rightarrow> bool" where
  "copy_ok S sid pd b \<longleftrightarrow>
     0 < unat (br_payload_length b) \<and> unat (br_payload_offset b) + unat (br_payload_length b) \<le> unat (br_parent_total_length b) \<and>
     br_payload_index b < br_payload_count b \<and>
     range_granted S True sid pd (br_target_daemon_address b) (unat (br_payload_length b))"

lemma backend_request_ok:
  assumes ok: "parent_ok S sid pd p" and v: "valid_payload p d" and nz: "rf_payload_count p \<noteq> 0"
  shows "copy_ok S sid pd (backend_request_of p d)"
proof -
  note b = valid_payload_bounds [OF ok v nz]
  have g: "range_granted S True sid pd (rf_target_daemon_address p) (unat (rf_parent_total_length p))"
    using ok by (simp add: parent_ok_def)
  have "range_granted S True sid pd (rf_target_daemon_address p + of_nat (unat (rf_next_payload_offset p))) (unat (rqd_payload_length d))"
    by (rule range_granted_sub(1) [OF g b(3,2)])
  then show ?thesis
    using b v by (auto simp: copy_ok_def backend_request_of_def valid_payload_def Let_def)
qed

section \<open>The invariant of the responder\<close>

definition holds_receive :: "responder_inflight \<Rightarrow> bool" where
  "holds_receive p \<longleftrightarrow> rf_has_receive p \<and> \<not> rf_receive_consumed p"

text \<open>Whether a receive request is peeked for a parent whose first payload waits for room.\<close>

definition receive_waiting :: "'b loop_worker \<Rightarrow> bool" where
  "receive_waiting lw \<longleftrightarrow> (\<exists>i p. lw_responder_inflight lw i = Some p \<and> holds_receive p)"

definition parents_ok :: "qp_service set \<Rightarrow> u64 \<Rightarrow> u64 \<Rightarrow> u32 \<Rightarrow> request_datagram option \<Rightarrow> (u64 \<rightharpoonup> responder_inflight) \<Rightarrow> bool" where
  "parents_ok S sid pd qp pending inflight \<longleftrightarrow>
     (\<forall>i p. inflight i = Some p \<longrightarrow> parent_ok S sid pd p \<and> rf_payload_count p \<noteq> 0 \<and> rf_target_qp_num p = qp \<and>
        (holds_receive p \<longrightarrow> (\<exists>d. pending = Some d \<and> rqd_parent_request_id d = i \<and> valid_payload p d)))"

definition responder_inv :: "qp_service set \<Rightarrow> u64 \<Rightarrow> u64 \<Rightarrow> 'b loop_worker \<Rightarrow> bool" where
  "responder_inv S sid pd lw \<longleftrightarrow>
     parents_ok S sid pd (lw_qp_num lw) (lw_pending_request lw) (lw_responder_inflight lw) \<and>
     distinct (lw_responder_order lw) \<and> set (lw_responder_order lw) = dom (lw_responder_inflight lw) \<and>
     completion_sink (lw_receive_cq lw) \<and> source_at (if receive_waiting lw then 1 else 0) (lw_receive_queue lw) \<and>
     length (lw_pending_backend_requests lw) \<le> kBackendBatchCapacity \<and>
     list_all (copy_ok S sid pd) (lw_pending_backend_requests lw)"

lemma parents_okD:
  assumes "parents_ok S sid pd qp pending inflight" "inflight i = Some p"
  shows "parent_ok S sid pd p" "rf_payload_count p \<noteq> 0" "rf_target_qp_num p = qp"
    "holds_receive p \<Longrightarrow> \<exists>d. pending = Some d \<and> rqd_parent_request_id d = i \<and> valid_payload p d"
  using assms by (auto simp: parents_ok_def)

lemma responder_invD:
  assumes "responder_inv S sid pd lw"
  shows "parents_ok S sid pd (lw_qp_num lw) (lw_pending_request lw) (lw_responder_inflight lw)"
    "distinct (lw_responder_order lw)" "set (lw_responder_order lw) = dom (lw_responder_inflight lw)"
    "completion_sink (lw_receive_cq lw)" "source_at (if receive_waiting lw then 1 else 0) (lw_receive_queue lw)"
    "length (lw_pending_backend_requests lw) \<le> kBackendBatchCapacity" "list_all (copy_ok S sid pd) (lw_pending_backend_requests lw)"
  using assms by (simp_all add: responder_inv_def)

text \<open>The fields of the worker the invariant and the order of answers do not depend on.\<close>

definition responder_eq :: "'b loop_worker \<Rightarrow> 'b loop_worker \<Rightarrow> bool" where
  "responder_eq lw lw' \<longleftrightarrow>
     lw_qp_num lw' = lw_qp_num lw \<and> lw_pending_request lw' = lw_pending_request lw \<and> lw_responder_inflight lw' = lw_responder_inflight lw \<and>
     lw_responder_order lw' = lw_responder_order lw \<and> lw_receive_cq lw' = lw_receive_cq lw \<and>
     lw_receive_queue lw' = lw_receive_queue lw \<and> lw_pending_backend_requests lw' = lw_pending_backend_requests lw"

lemma responder_inv_eq: "responder_eq lw lw' \<Longrightarrow> responder_inv S sid pd lw' = responder_inv S sid pd lw"
  by (simp add: responder_eq_def responder_inv_def receive_waiting_def)

lemma responder_inv_frame [simp]:
  "responder_inv S sid pd (lw\<lparr>lw_backend := b\<rparr>) = responder_inv S sid pd lw"
  "responder_inv S sid pd (lw\<lparr>lw_transport := t\<rparr>) = responder_inv S sid pd lw"
  by (rule responder_inv_eq, simp add: responder_eq_def)+

definition others_waiting :: "u64 \<Rightarrow> (u64 \<rightharpoonup> responder_inflight) \<Rightarrow> bool" where
  "others_waiting i inflight \<longleftrightarrow> (\<exists>j q. j \<noteq> i \<and> inflight j = Some q \<and> holds_receive q)"

lemma receive_waiting_cases:
  "receive_waiting lw \<longleftrightarrow>
     (\<exists>p. lw_responder_inflight lw i = Some p \<and> holds_receive p) \<or> others_waiting i (lw_responder_inflight lw)"
  by (auto simp: receive_waiting_def others_waiting_def)

lemma others_waiting_update [simp]: "others_waiting i (m(i := v)) = others_waiting i m"
  by (auto simp: others_waiting_def)

text \<open>A parent is replaced by one that stands at the same place of its payloads and has the same receive
  request.\<close>

lemma responder_inv_update:
  assumes inv: "responder_inv S sid pd lw" and p: "lw_responder_inflight lw i = Some p" and ok: "parent_ok S sid pd p'"
    and same: "rf_payload_count p' = rf_payload_count p" "holds_receive p' = holds_receive p" "rf_target_qp_num p' = rf_target_qp_num p"
      "\<And>d. valid_payload p' d = valid_payload p d"
  shows "responder_inv S sid pd (lw\<lparr>lw_responder_inflight := (lw_responder_inflight lw)(i \<mapsto> p')\<rparr>)"
proof -
  let ?lw = "lw\<lparr>lw_responder_inflight := (lw_responder_inflight lw)(i \<mapsto> p')\<rparr>"
  note d = responder_invD [OF inv]
  have "parents_ok S sid pd (lw_qp_num lw) (lw_pending_request lw) ((lw_responder_inflight lw)(i \<mapsto> p'))"
    using d(1) p ok same by (auto simp: parents_ok_def)
  moreover have "receive_waiting ?lw = receive_waiting lw"
    using p same(2) by (simp add: receive_waiting_cases [of _ i])
  ultimately show ?thesis using d p by (auto simp: responder_inv_def)
qed

section \<open>Completions and submissions\<close>

lemma record_completion_parent:
  assumes ok: "parent_ok S sid pd p" and i: "unat j < unat (rf_payload_count p)" "rf_terminal p ! unat j = 0"
  shows "parent_ok S sid pd (p\<lparr>rf_terminal := (rf_terminal p)[unat j := 1], rf_results := (rf_results p)[unat j := r],
    rf_terminal_count := rf_terminal_count p + 1\<rparr>)"
proof -
  have len: "length (rf_terminal p) = unat (rf_payload_count p)" "unat (rf_terminal_count p) = count_terminal (rf_terminal p)"
    using ok by (simp_all add: parent_ok_def)
  have c: "count_terminal ((rf_terminal p)[unat j := 1]) = Suc (count_terminal (rf_terminal p))"
    using i len by (intro count_terminal_update) auto
  moreover have "count_terminal ((rf_terminal p)[unat j := 1]) \<le> unat (rf_payload_count p)"
    using count_terminal_le [of "(rf_terminal p)[unat j := 1]"] len by simp
  ultimately have "unat (rf_terminal_count p + 1) = Suc (count_terminal (rf_terminal p))"
    using len(2) unat_u32_bound [of "rf_payload_count p"] by (simp add: unat_word_ariths)
  then show ?thesis using ok i len c by (auto simp: parent_ok_def nth_list_update_lt)
qed

lemma record_completion_inv:
  assumes inv: "responder_inv S sid pd lw"
  shows "responder_inv S sid pd (record_completion c lw) \<and> lw_responder_order (record_completion c lw) = lw_responder_order lw"
proof (cases "lw_responder_inflight lw (bc_parent_request_id c)")
  case None
  then show ?thesis using inv by (simp add: record_completion_def)
next
  case (Some p)
  note ok = parents_okD(1) [OF responder_invD(1) [OF inv] Some]
  have err: "parent_ok S sid pd (p\<lparr>rf_parent_error := Backend_error\<rparr>)" using ok by (simp add: parent_ok_def)
  note rec = record_completion_parent [OF ok, of "bc_payload_index c" "bc_result c"]
  show ?thesis
    using responder_inv_update [OF inv Some err] responder_inv_update [OF inv Some rec] Some
    by (auto simp: record_completion_def Let_def word_le_nat_alt not_le holds_receive_def valid_payload_def)
qed

lemma try_backend_completions_inv:
  assumes inv: "responder_inv S sid pd lw" and t: "try_backend_completions cb env lw = (r, lw')"
  shows "responder_inv S sid pd lw' \<and> lw_responder_order lw' = lw_responder_order lw"
proof -
  have fold: "responder_inv S sid pd (fold record_completion cs lw1) \<and> lw_responder_order (fold record_completion cs lw1) = lw_responder_order lw1"
    if "responder_inv S sid pd lw1" for cs lw1
    using that by (induction cs arbitrary: lw1) (use record_completion_inv in force)+
  show ?thesis
    using t fold [of "lw\<lparr>lw_backend := snd (cb_try_pop_completion_batch cb 64 (lw_backend lw))\<rparr>"] inv
    by (auto simp: try_backend_completions_def split: prod.splits if_splits)
qed

lemma try_flush_inv:
  assumes inv: "responder_inv S sid pd lw" and t: "try_flush_backend_requests cb env lw = (r, lw')"
  shows "responder_inv S sid pd lw' \<and> lw_responder_order lw' = lw_responder_order lw"
proof -
  have "responder_inv S sid pd (lw\<lparr>lw_pending_backend_requests := drop n (lw_pending_backend_requests lw), lw_backend := b\<rparr>)" for n b
    using responder_invD [OF inv] by (auto simp: responder_inv_def receive_waiting_def list_all_iff dest: in_set_dropD)
  then show ?thesis
    using t inv by (auto simp: try_flush_backend_requests_def Let_def split: prod.splits if_splits)
qed

section \<open>Answers\<close>

definition parent_done :: "responder_inflight \<Rightarrow> bool" where
  "parent_done p \<longleftrightarrow> rf_next_payload_index p = rf_payload_count p \<and> rf_terminal_count p = rf_payload_count p"

definition parent_answer :: "u64 \<Rightarrow> responder_inflight \<Rightarrow> response_datagram" where
  "parent_answer i p = \<lparr>rsd_parent_request_id = i, rsd_result = parent_result p, rsd_rnr_delay = 0\<rparr>"

definition parent_completions :: "u32 \<Rightarrow> responder_inflight \<Rightarrow> completion_entry list" where
  "parent_completions qp_num p =
     (if parent_result p = Success \<and> rf_has_receive p then [receive_completion qp_num p] else [])"

text \<open>A parent that is done no longer waits with its receive request.\<close>

lemma done_not_waiting: "parents_ok S sid pd qp pending inflight \<Longrightarrow> inflight i = Some p \<Longrightarrow> parent_done p \<Longrightarrow> \<not> holds_receive p"
proof
  assume a: "parents_ok S sid pd qp pending inflight" "inflight i = Some p" "parent_done p" "holds_receive p"
  then obtain d where "valid_payload p d" using parents_okD(4) by blast
  then show False
    using valid_payload_bounds(1) [OF parents_okD(1) [OF a(1,2)] _ parents_okD(2) [OF a(1,2)]] a(3) by (simp add: parent_done_def)
qed

lemma erase_parent_inv:
  assumes inv: "responder_inv S sid pd lw" and o: "lw_responder_order lw = i # rest" and p: "lw_responder_inflight lw i = Some p"
    and "parent_done p" and cq: "completion_sink cq"
  shows "responder_inv S sid pd (lw\<lparr>lw_transport := t, lw_receive_cq := cq,
    lw_responder_inflight := (lw_responder_inflight lw)(i := None), lw_responder_order := rest\<rparr>)" (is "responder_inv S sid pd ?lw")
proof -
  note d = responder_invD [OF inv]
  have "\<not> holds_receive p" by (rule done_not_waiting [OF d(1) p assms(4)])
  then have "receive_waiting ?lw = receive_waiting lw" using p by (simp add: receive_waiting_cases [of _ i])
  moreover have "parents_ok S sid pd (lw_qp_num lw) (lw_pending_request lw) ((lw_responder_inflight lw)(i := None))"
    using d(1) by (auto simp: parents_ok_def)
  ultimately show ?thesis using d o cq by (auto simp: responder_inv_def)
qed

lemma keep_parent_inv:
  "responder_inv S sid pd lw \<Longrightarrow> completion_sink cq \<Longrightarrow> responder_inv S sid pd (lw\<lparr>lw_receive_cq := cq\<rparr>)"
  by (simp add: responder_inv_def receive_waiting_def)

text \<open>\<open>answer_parent\<close> without and with a receive completion.\<close>

lemma answer_plain:
  assumes "\<not> (parent_result p = Success \<and> rf_has_receive p)" "try_push_response (parent_answer i p) (lw_transport lw) = (ok, t)"
  shows "answer_parent view i p env lw =
    (if ok then (True, lw\<lparr>lw_transport := t, lw_responder_inflight := (lw_responder_inflight lw)(i := None),
                        lw_responder_order := tl (lw_responder_order lw)\<rparr>)
     else (False, lw\<lparr>lw_transport := t\<rparr>))"
  unfolding answer_parent_def Let_def parent_answer_def [symmetric] if_not_P [OF assms(1)] assms(2) prod.case
  by (cases ok) simp_all

lemma answer_no_room:
  assumes "parent_result p = Success \<and> rf_has_receive p" "reserve_entry (we_receive_cq env) (lw_receive_cq lw) = (st, slot, q)"
    "st \<noteq> OK"
  shows "answer_parent view i p env lw = (False, lw\<lparr>lw_receive_cq := q\<rparr>)"
  unfolding answer_parent_def Let_def if_P [OF assms(1)] assms(2) prod.case if_P [OF assms(3)] by simp

lemma answer_receive:
  assumes "parent_result p = Success \<and> rf_has_receive p" "reserve_entry (we_receive_cq env) (lw_receive_cq lw) = (OK, slot, q)"
    "try_push_response (parent_answer i p) (lw_transport lw) = (ok, t)"
    "publish_entries 1 (write_entry (the slot) (receive_completion (wv_qp_num view) p) q) = (OK, q1)"
  shows "answer_parent view i p env lw =
    (if ok then (True, lw\<lparr>lw_transport := t, lw_receive_cq := q1, lw_responder_inflight := (lw_responder_inflight lw)(i := None),
                           lw_responder_order := tl (lw_responder_order lw)\<rparr>)
     else (False, lw\<lparr>lw_transport := t, lw_receive_cq := snd (publish_entries 0 q)\<rparr>))"
  unfolding answer_parent_def Let_def parent_answer_def [symmetric] if_P [OF assms(1)] assms(2,3,4) prod.case
  by (cases ok) simp_all

lemma sent_append: "concat (map sent_of es) = xs \<Longrightarrow> concat (map sent_of fs) = ys \<Longrightarrow> concat (map sent_of (es @ fs)) = xs @ ys"
  by simp

lemma answer_parent_spec:
  assumes inv: "responder_inv S sid pd lw" and o: "lw_responder_order lw = i # rest" and p: "lw_responder_inflight lw i = Some p"
    and fin: "parent_done p" and env: "env_ok (we_receive_cq env)" and a: "answer_parent view i p env lw = (r, lw')"
  shows "responder_inv S sid pd lw' \<and>
    (\<exists>cs. chan_run ring_step (lw_receive_cq lw) cs (lw_receive_cq lw') \<and>
       concat (map sent_of cs) = (if r then parent_completions (wv_qp_num view) p else [])) \<and>
    (if r then lw_responder_order lw' = rest \<and> lt_responses (lw_transport lw') = lt_responses (lw_transport lw) @ [parent_answer i p]
     else lw_responder_order lw' = i # rest \<and> lt_responses (lw_transport lw') = lt_responses (lw_transport lw))"
proof -
  let ?t = "lw_transport lw" and ?q = "lw_receive_cq lw"
  let ?t' = "?t\<lparr>lt_responses := lt_responses ?t @ [parent_answer i p]\<rparr>"
  have cq: "completion_sink ?q" by (rule responder_invD(4) [OF inv])
  define ok where "ok = (length (lt_responses ?t) < lt_response_capacity ?t)"
  have push: "try_push_response (parent_answer i p) ?t = (ok, if ok then ?t' else ?t)" by (simp add: transport_defs ok_def)
  note erase = erase_parent_inv [OF inv o p fin]
  show ?thesis
  proof (cases "parent_result p = Success \<and> rf_has_receive p")
    case False
    then have sent: "parent_completions (wv_qp_num view) p = []" by (simp add: parent_completions_def)
    have "\<exists>cs. chan_run ring_step ?q cs ?q \<and> concat (map sent_of cs) = []" by (rule exI [of _ "[]"]) (simp add: run_nil)
    then show ?thesis
      using a inv o erase [OF cq, of ?t'] unfolding answer_plain [OF False push] sent by (cases ok) auto
  next
    case True
    then have sent: "parent_completions (wv_qp_num view) p = [receive_completion (wv_qp_num view) p]" by (simp add: parent_completions_def)
    obtain st slot q where rv: "reserve_entry (we_receive_cq env) ?q = (st, slot, q)" by (metis prod_cases3)
    have at: "sink_at 0 ?q" using cq by (simp add: completion_sink_def)
    note R = reserve_entry_spec [OF env at rv]
    obtain es where es: "chan_run ring_step ?q es q" "concat (map sent_of es) = []" using R by blast
    let ?e = "receive_completion (wv_qp_num view) p"
    show ?thesis
    proof (cases "st = OK")
      case False
      then have "completion_sink q" using R cq by (auto simp: completion_sink_def)
      then show ?thesis
        using a es o keep_parent_inv [OF inv] unfolding answer_no_room [OF True rv False] by auto
    next
      case st: True
      then obtain off where off: "slot = Some off" "reserved_offsets (rs_producer q) = [off]" "sink_at 1 q" using R by auto
      obtain st1 q1 where p1: "publish_entries 1 (write_entry off ?e q) = (st1, q1)" by force
      note P1 = publish_entries_spec [OF off(3,2) _ p1]
      have wr: "write_entry off (rs_slots q off) q = q" by (simp add: write_entry_def)
      obtain st0 q0 where p0: "publish_entries 0 q = (st0, q0)" by force
      have p0': "publish_entries 0 (write_entry off (rs_slots q off) q) = (st0, q0)" using p0 wr by simp
      note P0 = publish_entries_spec [OF off(3,2) _ p0']
      have c: "completion_sink q0" "completion_sink q1" using P0 P1 R cq by (auto simp: completion_sink_def)
      obtain fs where fs: "chan_run ring_step q fs q0" "concat (map sent_of fs) = []" using P0 by auto
      obtain gs where gs: "chan_run ring_step q gs q1" "concat (map sent_of gs) = [?e]" using P1 by auto
      have run: "\<exists>cs. chan_run ring_step ?q cs q0 \<and> concat (map sent_of cs) = [] @ []"
          "\<exists>cs. chan_run ring_step ?q cs q1 \<and> concat (map sent_of cs) = [] @ [?e]"
        using chan_run_append [OF es(1) fs(1)] chan_run_append [OF es(1) gs(1)] sent_append [OF es(2) fs(2)] sent_append [OF es(2) gs(2)]
        by blast+
      have pub: "publish_entries 1 (write_entry (the slot) ?e q) = (OK, q1)" using p1 P1 off(1) by simp
      show ?thesis
      proof (cases ok)
        case full: False
        then have o1: "r = False" "lw' = lw\<lparr>lw_receive_cq := q0\<rparr>"
          using a p0 unfolding answer_receive [OF True rv [unfolded st] push pub] by simp_all
        show ?thesis using keep_parent_inv [OF inv c(1)] run(1) o unfolding o1 by simp
      next
        case room: True
        then have o1: "r = True" "lw' = lw\<lparr>lw_transport := ?t', lw_receive_cq := q1,
            lw_responder_inflight := (lw_responder_inflight lw)(i := None), lw_responder_order := rest\<rparr>"
          using a o unfolding answer_receive [OF True rv [unfolded st] push pub] by simp_all
        show ?thesis using erase [OF c(2), of ?t'] run(2) unfolding o1 sent by simp
      qed
    qed
  qed
qed

lemma try_parent_response_spec:
  assumes inv: "responder_inv S sid pd lw" and env: "worker_env_ok env" and t: "try_parent_response view env lw = (r, lw')"
  shows "responder_inv S sid pd lw' \<and>
    (if r then \<exists>i rest p. lw_responder_order lw = i # rest \<and> lw_responder_inflight lw i = Some p \<and> parent_done p \<and>
         lw_responder_order lw' = rest \<and>
         lt_responses (lw_transport lw') = lt_responses (lw_transport lw) @ [parent_answer i p] \<and>
         (\<exists>cs. chan_run ring_step (lw_receive_cq lw) cs (lw_receive_cq lw') \<and>
            concat (map sent_of cs) = parent_completions (wv_qp_num view) p)
     else lw_responder_order lw' = lw_responder_order lw \<and> lt_responses (lw_transport lw') = lt_responses (lw_transport lw))"
proof (cases "lw_responder_order lw")
  case Nil
  then show ?thesis using t inv by (simp add: try_parent_response_def)
next
  case (Cons i rest)
  have "i \<in> dom (lw_responder_inflight lw)" using responder_invD(3) [OF inv] Cons by auto
  then obtain p where p: "lw_responder_inflight lw i = Some p" by blast
  have e: "env_ok (we_receive_cq env)" using env by (simp add: worker_env_ok_def)
  show ?thesis
  proof (cases "parent_done p")
    case False
    then show ?thesis using t inv Cons p by (auto simp: try_parent_response_def parent_done_def)
  next
    case True
    then have "answer_parent view i p env lw = (r, lw')" using t Cons p by (simp add: try_parent_response_def parent_done_def)
    note A = answer_parent_spec [OF inv Cons p True e this]
    show ?thesis
    proof (cases r)
      case r: True
      then have "\<exists>cs. chan_run ring_step (lw_receive_cq lw) cs (lw_receive_cq lw') \<and>
          concat (map sent_of cs) = parent_completions (wv_qp_num view) p" using A by simp
      then show ?thesis using A r Cons p True by auto
    next
      case False
      then show ?thesis using A Cons by simp
    qed
  qed
qed

text \<open>When a parent is answered with success, every payload has been copied: the payloads the parent accepted
  add up to its length, and the backend has reported success for each.\<close>

lemma success_means_done:
  assumes ok: "parent_ok S sid pd p" and fin: "parent_done p" and s: "parent_result p = Success"
  shows "rf_next_payload_offset p = rf_parent_total_length p" "rf_parent_error p = Success"
    "j < unat (rf_payload_count p) \<Longrightarrow> rf_terminal p ! j \<noteq> 0 \<and> rf_results p ! j = Success"
proof -
  have "find (\<lambda>r. r \<noteq> Success) (rf_results p) = None" and e: "rf_parent_error p = Success"
    using s by (auto simp: parent_result_def find_Some_iff split: if_splits option.splits)
  then have "r = Success" if "r \<in> set (rf_results p)" for r using that by (auto simp: find_None_iff)
  moreover have "count_terminal (rf_terminal p) = length (rf_terminal p)" using ok fin by (auto simp: parent_ok_def parent_done_def)
  ultimately show "rf_terminal p ! j \<noteq> 0 \<and> rf_results p ! j = Success" if "j < unat (rf_payload_count p)"
    using ok that by (simp add: parent_ok_def count_terminal_all)
  show "rf_parent_error p = Success" by (rule e)
  show "rf_next_payload_offset p = rf_parent_total_length p" using ok fin e by (auto simp: parent_ok_def parent_done_def)
qed

section \<open>Requests\<close>

text \<open>Only the parent of the pending request can wait with its receive request.\<close>

lemma no_others_waiting:
  assumes "parents_ok S sid pd qp (Some d) inflight"
  shows "\<not> others_waiting (rqd_parent_request_id d) inflight"
  using parents_okD(4) [OF assms] by (force simp: others_waiting_def)

lemma not_waiting_without_request: "responder_inv S sid pd lw \<Longrightarrow> lw_pending_request lw = None \<Longrightarrow> \<not> receive_waiting lw"
  using parents_okD(4) [OF responder_invD(1)] by (force simp: receive_waiting_def)

lemma clear_request_inv:
  assumes inv: "responder_inv S sid pd lw" and "\<not> receive_waiting lw"
  shows "responder_inv S sid pd (lw\<lparr>lw_pending_request := d\<rparr>)"
proof -
  have "receive_waiting (lw\<lparr>lw_pending_request := d\<rparr>) = receive_waiting lw" by (simp add: receive_waiting_def)
  moreover have "parents_ok S sid pd (lw_qp_num lw) d (lw_responder_inflight lw)"
    using responder_invD(1) [OF inv] assms(2) by (force simp: parents_ok_def receive_waiting_def)
  ultimately show ?thesis using responder_invD [OF inv] by (simp add: responder_inv_def)
qed

lemma advance_parent_fields:
  "rf_payload_count (advance_parent d p) = rf_payload_count p" "rf_target_qp_num (advance_parent d p) = rf_target_qp_num p"
  "holds_receive (advance_parent d p) = holds_receive p"
  by (simp_all add: advance_parent_def Let_def holds_receive_def)

text \<open>Queueing the copy of an accepted payload, after its receive request was released.\<close>

lemma queue_payload_inv:
  assumes inv: "responder_inv S sid pd lw" and d: "lw_pending_request lw = Some d"
    and p: "lw_responder_inflight lw (rqd_parent_request_id d) = Some p" and v: "valid_payload p d"
    and room: "length (lw_pending_backend_requests lw) < kBackendBatchCapacity"
    and rq: "source_at 0 rq" and p': "p' = p \<or> p' = p\<lparr>rf_receive_consumed := True\<rparr>" "\<not> holds_receive p'"
  shows "responder_inv S sid pd (lw\<lparr>lw_pending_backend_requests := lw_pending_backend_requests lw @ [backend_request_of p d],
      lw_receive_queue := rq, lw_responder_inflight := (lw_responder_inflight lw)(rqd_parent_request_id d \<mapsto> advance_parent d p'),
      lw_pending_request := None\<rparr>)" (is "responder_inv S sid pd ?lw")
proof -
  note dd = responder_invD [OF inv]
  note po = parents_okD [OF dd(1) p]
  have ok': "parent_ok S sid pd p'" "valid_payload p' d" "rf_payload_count p' \<noteq> 0" "rf_target_qp_num p' = lw_qp_num lw"
    using p'(1) po(1-3) v by (auto simp: parent_ok_def valid_payload_def)
  have adv: "parent_ok S sid pd (advance_parent d p')" by (rule advance_parent_ok [OF ok'(1-3)])
  have now: "\<not> others_waiting (rqd_parent_request_id d) (lw_responder_inflight lw)"
    by (rule no_others_waiting) (use dd(1) d in simp)
  then have "\<not> receive_waiting ?lw" using p'(2) by (simp add: receive_waiting_cases [of _ "rqd_parent_request_id d"] advance_parent_fields)
  moreover have "parents_ok S sid pd (lw_qp_num lw) None ((lw_responder_inflight lw)(rqd_parent_request_id d \<mapsto> advance_parent d p'))"
    using dd(1) adv ok' now p'(2) by (auto simp: parents_ok_def advance_parent_fields others_waiting_def)
  ultimately show ?thesis
    using dd p rq room backend_request_ok [OF po(1) v po(2)] by (auto simp: responder_inv_def)
qed

text \<open>What handling a request changes: at most one parent is opened, one copy queued, one request rejected.\<close>

definition request_effect ::
  "'b loop_worker \<Rightarrow> u64 list \<Rightarrow> backend_request list \<Rightarrow> response_datagram list \<Rightarrow> 'b loop_worker \<Rightarrow> bool" where
  "request_effect lw opened copies rejected lw' \<longleftrightarrow>
     lw_responder_order lw' = lw_responder_order lw @ opened \<and>
     lw_pending_backend_requests lw' = lw_pending_backend_requests lw @ copies \<and>
     lt_responses (lw_transport lw') = lt_responses (lw_transport lw) @ rejected \<and>
     lw_receive_cq lw' = lw_receive_cq lw \<and> lw_qp_num lw' = lw_qp_num lw"

lemma accept_payload_spec:
  assumes inv: "responder_inv S sid pd lw" and d: "lw_pending_request lw = Some d"
    and p: "lw_responder_inflight lw (rqd_parent_request_id d) = Some p"
    and a: "accept_payload loaded d p lw = (r, lw')"
  shows "responder_inv S sid pd lw' \<and> (\<exists>copies. request_effect lw [] copies [] lw')"
proof -
  let ?i = "rqd_parent_request_id d"
  note dd = responder_invD [OF inv]
  note po = parents_okD [OF dd(1) p]
  have none: "request_effect lw [] [] [] lw" by (simp add: request_effect_def)
  consider (invalid) "\<not> valid_payload p d" | (full) "valid_payload p d" "length (lw_pending_backend_requests lw) = kBackendBatchCapacity"
    | (room) "valid_payload p d" "length (lw_pending_backend_requests lw) < kBackendBatchCapacity"
    using dd(6) by linarith
  then show ?thesis
  proof cases
    case invalid
    then have lw': "lw' = lw\<lparr>lw_responder_inflight := (lw_responder_inflight lw)(?i \<mapsto> p\<lparr>rf_parent_error := Remote_invalid_request\<rparr>)\<rparr>"
      using a by (simp add: accept_payload_def Let_def)
    have "parent_ok S sid pd (p\<lparr>rf_parent_error := Remote_invalid_request\<rparr>)" using po(1) by (simp add: parent_ok_def)
    then have "responder_inv S sid pd lw'"
      unfolding lw' by (rule responder_inv_update [OF inv p]) (simp_all add: holds_receive_def valid_payload_def)
    then show ?thesis by (auto simp: lw' request_effect_def)
  next
    case full
    then have "lw' = lw" using a po(2) by (simp add: accept_payload_def Let_def)
    then show ?thesis using inv none by blast
  next
    case room
    note q = queue_payload_inv [OF inv d p room]
    show ?thesis
    proof (cases "holds_receive p")
      case True
      then have "receive_waiting lw" using p by (auto simp: receive_waiting_def)
      then have "source_at 1 (lw_receive_queue lw)" using dd(5) by simp
      moreover obtain st rq where rel: "release_entries 1 (lw_receive_queue lw) = (st, rq)" by force
      ultimately have R: "st = OK" "source_at 0 rq" using release_entries_spec [of "lw_receive_queue lw" 1 st rq] by auto
      let ?p = "p\<lparr>rf_receive_consumed := True\<rparr>"
      have h: "rf_has_receive p \<and> \<not> rf_receive_consumed p" using True by (simp add: holds_receive_def)
      have lw': "lw' = lw\<lparr>lw_pending_backend_requests := lw_pending_backend_requests lw @ [backend_request_of p d],
          lw_receive_queue := rq, lw_responder_inflight := (lw_responder_inflight lw)(?i \<mapsto> advance_parent d ?p), lw_pending_request := None\<rparr>"
        using a room po(2) rel R(1) h by (simp add: accept_payload_def Let_def)
      have "responder_inv S sid pd lw'" unfolding lw' using q [OF R(2), of ?p] by (simp add: holds_receive_def)
      then show ?thesis by (auto simp: lw' request_effect_def)
    next
      case False
      then have "\<not> receive_waiting lw"
        using no_others_waiting [of S sid pd "lw_qp_num lw" d] dd(1) d p by (simp add: receive_waiting_cases [of _ ?i])
      then have rq: "source_at 0 (lw_receive_queue lw)" using dd(5) by simp
      have h: "\<not> (rf_has_receive p \<and> \<not> rf_receive_consumed p)" using False by (simp add: holds_receive_def)
      have lw': "lw' = lw\<lparr>lw_pending_backend_requests := lw_pending_backend_requests lw @ [backend_request_of p d],
          lw_receive_queue := lw_receive_queue lw, lw_responder_inflight := (lw_responder_inflight lw)(?i \<mapsto> advance_parent d p),
          lw_pending_request := None\<rparr>"
        using a room po(2) by (simp add: accept_payload_def Let_def if_not_P [OF h])
      have "responder_inv S sid pd lw'" unfolding lw' using q [OF rq, of p] False by simp
      then show ?thesis by (auto simp: lw' request_effect_def)
    qed
  qed
qed

lemma reject_request_spec:
  assumes inv: "responder_inv S sid pd lw" and w: "\<not> receive_waiting lw" and a: "reject_request loaded d result lw = (r, lw')"
  shows "responder_inv S sid pd lw' \<and> (\<exists>rejected. request_effect lw [] [] rejected lw')"
proof -
  let ?t = "lw_transport lw"
  let ?d = "\<lparr>rsd_parent_request_id = rqd_parent_request_id d, rsd_result = result, rsd_rnr_delay = 0\<rparr>"
  consider "lw' = lw" | "lw' = lw\<lparr>lw_transport := ?t\<lparr>lt_responses := lt_responses ?t @ [?d]\<rparr>, lw_pending_request := None\<rparr>"
    using a by (auto simp: reject_request_def transport_defs split: if_split_asm)
  then show ?thesis
  proof cases
    case 1
    then show ?thesis using inv by (auto simp: request_effect_def)
  next
    case 2
    have "\<not> receive_waiting (lw\<lparr>lw_transport := t\<rparr>)" for t using w by (simp add: receive_waiting_def)
    then have "responder_inv S sid pd lw'" unfolding 2 using inv by (intro clear_request_inv) simp_all
    then show ?thesis by (auto simp: 2 request_effect_def)
  qed
qed

text \<open>The view the worker gets of its queue pair, and the service it gets it from.\<close>

definition view_ok :: "qp_service set \<Rightarrow> u64 \<Rightarrow> u64 \<Rightarrow> 'b loop_worker \<Rightarrow> qp_service \<Rightarrow> worker_qp_view \<Rightarrow> bool" where
  "view_ok S sid pd lw service view \<longleftrightarrow>
     service_ok service \<and> service \<in> S \<and> wv_session_id view = sid \<and> wv_pd_identity view = pd \<and> wv_qp_num view = lw_qp_num lw"

lemma insert_parent_spec:
  assumes inv: "responder_inv S sid pd lw" and d: "lw_pending_request lw = Some d"
    and new: "lw_responder_inflight lw (rqd_parent_request_id d) = None" and view: "view_ok S sid pd lw service view"
    and v: "valid_first d" and t: "rqd_parent_total_length d \<le> 0xffffffff" "rqd_target_qp_num d = lw_qp_num lw"
    and r: "resolve_rkey sid pd (rqd_rkey d) (rqd_remote_address d) (rqd_parent_total_length d) service = Inr target"
    and rq: "source_at (if receive = None then 0 else 1) rq"
  shows "responder_inv S sid pd (lw\<lparr>lw_receive_queue := rq,
      lw_responder_inflight := (lw_responder_inflight lw)(rqd_parent_request_id d \<mapsto> new_parent d target receive),
      lw_responder_order := lw_responder_order lw @ [rqd_parent_request_id d]\<rparr>)" (is "responder_inv S sid pd ?lw")
proof -
  let ?i = "rqd_parent_request_id d" and ?p = "new_parent d target receive"
  note dd = responder_invD [OF inv]
  have ok: "service_ok service" "service \<in> S" using view by (simp_all add: view_ok_def)
  note N = new_parent_ok(1,2) [OF ok v t(1) r, of receive] new_parent_ok(3) [OF ok v t(1) r]
  have f: "rf_payload_count ?p \<noteq> 0" "rf_target_qp_num ?p = lw_qp_num lw" "holds_receive ?p \<longleftrightarrow> receive \<noteq> None"
    using N(3) t(2) by (simp_all add: new_parent_def holds_receive_def)
  have now: "\<not> others_waiting ?i (lw_responder_inflight lw)" by (rule no_others_waiting) (use dd(1) d in simp)
  then have "receive_waiting ?lw \<longleftrightarrow> receive \<noteq> None" using f(3) by (simp add: receive_waiting_cases [of _ ?i])
  moreover have "parents_ok S sid pd (lw_qp_num lw) (lw_pending_request lw) ((lw_responder_inflight lw)(?i \<mapsto> ?p))"
    using dd(1) N(1,2) f d by (auto simp: parents_ok_def)
  moreover have "?i \<notin> set (lw_responder_order lw)" using dd(3) new by auto
  ultimately show ?thesis using dd rq by (auto simp: responder_inv_def)
qed

lemma open_parent_spec:
  assumes inv: "responder_inv S sid pd lw" and d: "lw_pending_request lw = Some d"
    and new: "lw_responder_inflight lw (rqd_parent_request_id d) = None" and view: "view_ok S sid pd lw service view"
    and t: "rqd_parent_total_length d \<le> 0xffffffff" "rqd_target_qp_num d = lw_qp_num lw" and env: "worker_env_ok env"
    and a: "open_parent service view loaded d env lw = (r, lw')"
  shows "responder_inv S sid pd lw' \<and> (\<exists>opened copies rejected. request_effect lw opened copies rejected lw')"
proof -
  let ?i = "rqd_parent_request_id d"
  note dd = responder_invD [OF inv]
  have now: "\<not> receive_waiting lw"
    using no_others_waiting [of S sid pd "lw_qp_num lw" d] dd(1) d new by (simp add: receive_waiting_cases [of _ ?i])
  then have rq0: "source_at 0 (lw_receive_queue lw)" using dd(5) by simp
  have rej: ?thesis if "reject_request loaded d result lw = (r, lw')" for result
    using reject_request_spec [OF inv now that] by blast
  have ins: ?thesis
    if v: "valid_first d" and res: "resolve_rkey sid pd (rqd_rkey d) (rqd_remote_address d) (rqd_parent_total_length d) service = Inr target"
      and rq: "source_at (if receive = None then 0 else 1) rq"
      and acc: "accept_payload loaded d (new_parent d target receive)
        (lw\<lparr>lw_receive_queue := rq, lw_responder_inflight := (lw_responder_inflight lw)(?i \<mapsto> new_parent d target receive),
           lw_responder_order := lw_responder_order lw @ [?i]\<rparr>) = (r, lw')" for target receive rq
    using accept_payload_spec [OF insert_parent_spec [OF inv d new view v t res rq] _ _ acc] d
    by (auto simp: request_effect_def)
  obtain st slot rq where pk: "peek_entry (we_receive_queue env) (lw_receive_queue lw) = (st, slot, rq)" by (metis prod_cases3)
  have e: "producer_env_ok (we_receive_queue env)" using env by (simp add: worker_env_ok_def)
  note P = peek_entry_spec [OF e rq0 pk]
  have wait: ?thesis if "lw' = lw\<lparr>lw_receive_queue := rq\<rparr>" "st \<noteq> OK"
  proof -
    have "receive_waiting lw' = receive_waiting lw" by (simp add: that receive_waiting_def)
    then have "responder_inv S sid pd lw'" using dd P that now by (auto simp: responder_inv_def)
    then show ?thesis by (auto simp: that request_effect_def)
  qed
  have vw: "wv_session_id view = sid" "wv_pd_identity view = pd" using view by (simp_all add: view_ok_def)
  show ?thesis
  proof (cases "valid_first d")
    case False
    then show ?thesis using a rej by (simp add: open_parent_def)
  next
    case v: True
    show ?thesis
    proof (cases "resolve_rkey sid pd (rqd_rkey d) (rqd_remote_address d) (rqd_parent_total_length d) service")
      case (Inl st')
      then show ?thesis using a rej v by (simp add: open_parent_def vw)
    next
      case (Inr target)
      show ?thesis
      proof (cases "rqd_opcode d = Rdma_write_with_immediate")
        case False
        then show ?thesis using a v Inr ins [OF v Inr, of None "lw_receive_queue lw"] rq0 by (simp add: open_parent_def vw Let_def)
      next
        case imm: True
        then show ?thesis
          using a v Inr pk P wait ins [OF v Inr, of "Some (rs_header (the slot))" rq]
          by (cases "st = OK") (simp_all add: open_parent_def vw Let_def)
      qed
    qed
  qed
qed

lemma try_request_spec:
  assumes inv: "responder_inv S sid pd lw" and view: "view_ok S sid pd lw service view" and env: "worker_env_ok env"
    and a: "try_request service view env lw = (r, lw')"
  shows "responder_inv S sid pd lw' \<and> (\<exists>opened copies rejected. request_effect lw opened copies rejected lw')"
proof -
  have handle: "responder_inv S sid pd lw' \<and> (\<exists>opened copies rejected. request_effect lw1 opened copies rejected lw')"
    if i1: "responder_inv S sid pd lw1" and d: "lw_pending_request lw1 = Some d" and v1: "view_ok S sid pd lw1 service view"
      and h: "handle_request service view loaded d env lw1 = (r, lw')" for lw1 d loaded
  proof -
    note dd = responder_invD [OF i1]
    have vw: "wv_qp_num view = lw_qp_num lw1" using v1 by (simp add: view_ok_def)
    show ?thesis
    proof (cases "lw_responder_inflight lw1 (rqd_parent_request_id d)")
      case None
      have now: "\<not> receive_waiting lw1"
        using no_others_waiting [of S sid pd "lw_qp_num lw1" d] dd(1) d None by (simp add: receive_waiting_cases [of _ "rqd_parent_request_id d"])
      show ?thesis
        using h reject_request_spec [OF i1 now] open_parent_spec [OF i1 d None v1 _ _ env] None vw
        by (fastforce simp: handle_request_def not_less split: if_split_asm)
    next
      case (Some p)
      have nw: "\<not> receive_waiting lw1" if "rqd_target_qp_num d \<noteq> lw_qp_num lw1 \<or> rqd_parent_total_length d > 0xffffffff"
      proof
        assume "receive_waiting lw1"
        then have "holds_receive p"
          using no_others_waiting [of S sid pd "lw_qp_num lw1" d] dd(1) d Some by (simp add: receive_waiting_cases [of _ "rqd_parent_request_id d"])
        then have "valid_payload p d" using parents_okD(4) [OF dd(1) Some] d by auto
        then show False
          using that parents_okD(1,3) [OF dd(1) Some] by (auto simp: valid_payload_def parent_ok_def word_less_nat_alt Let_def)
      qed
      show ?thesis
        using h reject_request_spec [OF i1 nw] accept_payload_spec [OF i1 d Some] Some vw
        by (fastforce simp: handle_request_def split: if_split_asm)
    qed
  qed
  show ?thesis
  proof (cases "lw_pending_request lw")
    case (Some d)
    then show ?thesis using handle [OF inv Some view] a by (simp add: try_request_def)
  next
    case None
    note nw = not_waiting_without_request [OF inv None]
    obtain v t where pop: "try_pop_request (lw_transport lw) = (v, t)" by force
    have t: "lt_responses t = lt_responses (lw_transport lw)" using pop by (auto simp: transport_defs split: list.splits)
    show ?thesis
    proof (cases v)
      case vn: None
      then have "lw' = lw\<lparr>lw_transport := t\<rparr>" using a None pop by (simp add: try_request_def)
      then show ?thesis using inv t by (auto simp: request_effect_def)
    next
      case (Some d)
      let ?lw = "lw\<lparr>lw_transport := t, lw_pending_request := Some d\<rparr>"
      have "\<not> receive_waiting (lw\<lparr>lw_transport := t\<rparr>)" using nw by (simp add: receive_waiting_def)
      then have "responder_inv S sid pd ?lw" using inv by (intro clear_request_inv) simp_all
      moreover have "view_ok S sid pd ?lw service view" using view by (simp add: view_ok_def)
      moreover have "handle_request service view True d env ?lw = (r, lw')" using a None pop Some by (simp add: try_request_def)
      ultimately show ?thesis using handle [of ?lw d True] t by (auto simp: request_effect_def)
    qed
  qed
qed

end
