(* ===== verification/Memory_Copy.thy ===== *)
theory Memory_Copy
  imports Ugdr_Prelude
begin

text \<open>
  Memory as a function from addresses to bytes, and what copying ranges of it does: the effect of a
  number of copies whose sources nobody writes does not depend on their order, nor on repetitions, and copies
  that tile a range have the effect of copying the range at once.
\<close>

type_synonym memory = "nat \<Rightarrow> u8"

text \<open>A copy of \<open>n\<close> bytes from \<open>source\<close> to \<open>target\<close>: all are read before the first is written.\<close>

type_synonym range_copy = "nat \<times> nat \<times> nat"

definition range_covers :: "range_copy \<Rightarrow> nat \<Rightarrow> bool" where
  "range_covers r a = (case r of (source, target, n) \<Rightarrow> target \<le> a \<and> a < target + n)"

definition range_source :: "range_copy \<Rightarrow> nat \<Rightarrow> nat" where
  "range_source r a = (case r of (source, target, n) \<Rightarrow> source + (a - target))"

definition copy_range :: "range_copy \<Rightarrow> memory \<Rightarrow> memory" where
  "copy_range r mem = (\<lambda>a. if range_covers r a then mem (range_source r a) else mem a)"

lemma copy_range_apply: "copy_range r mem a = (if range_covers r a then mem (range_source r a) else mem a)"
  by (simp add: copy_range_def)

lemma ranges_any_order:
  assumes disj: "\<And>r r' a. r \<in> set rs \<Longrightarrow> r' \<in> set rs \<Longrightarrow> range_covers r a \<Longrightarrow> \<not> range_covers r' (range_source r a)"
    and agree: "\<And>r a. r \<in> set rs \<Longrightarrow> range_covers r a \<Longrightarrow> mem (range_source r a) = f a"
  shows "fold copy_range rs mem a = (if \<exists>r \<in> set rs. range_covers r a then f a else mem a)"
proof -
  have "fold copy_range xs m a = (if \<exists>r \<in> set xs. range_covers r a then f a else m a)"
    if "set xs \<subseteq> set rs" "\<And>r a. r \<in> set rs \<Longrightarrow> range_covers r a \<Longrightarrow> m (range_source r a) = mem (range_source r a)" for xs m
    using that
  proof (induction xs arbitrary: m)
    case (Cons x xs)
    have same: "copy_range x m (range_source r a) = mem (range_source r a)" if "r \<in> set rs" "range_covers r a" for r a
      using disj [of r x a] that Cons.prems by (simp add: copy_range_apply)
    have "fold copy_range xs (copy_range x m) a = (if \<exists>r \<in> set xs. range_covers r a then f a else copy_range x m a)"
      using Cons.IH [of "copy_range x m"] Cons.prems(1) same by simp
    then show ?case using Cons.prems agree [of x a] by (auto simp: copy_range_apply [of x m a])
  qed simp
  then show ?thesis by blast
qed

text \<open>A range inside another one, at the same offset on both sides.\<close>

definition part_of :: "range_copy \<Rightarrow> range_copy \<Rightarrow> bool" where
  "part_of r r' =
     (case r of (s, t, n) \<Rightarrow> case r' of (s', t', n') \<Rightarrow> \<exists>k. s = s' + k \<and> t = t' + k \<and> k + n \<le> n')"

definition tiles :: "range_copy set \<Rightarrow> range_copy \<Rightarrow> bool" where
  "tiles R r \<longleftrightarrow> (\<forall>x \<in> R. part_of x r) \<and> (\<forall>a. range_covers r a \<longrightarrow> (\<exists>x \<in> R. range_covers x a))"

lemma part_ofD:
  assumes "part_of x r" "range_covers x a"
  shows "range_covers r a" "range_source x a = range_source r a"
  using assms by (auto simp: part_of_def range_covers_def range_source_def split: prod.splits)

lemma tiles_copy:
  assumes tiles: "tiles (set rs) r" and apart: "\<And>a. range_covers r a \<Longrightarrow> \<not> range_covers r (range_source r a)"
  shows "fold copy_range rs mem = copy_range r mem"
proof
  fix a
  have p: "part_of x r" if "x \<in> set rs" for x using tiles that by (simp add: tiles_def)
  have "fold copy_range rs mem a = (if \<exists>x \<in> set rs. range_covers x a then mem (range_source r a) else mem a)"
    by (rule ranges_any_order) (use part_ofD [OF p] apart in metis)+
  also have "(\<exists>x \<in> set rs. range_covers x a) \<longleftrightarrow> range_covers r a" using tiles part_ofD(1) [OF p] by (auto simp: tiles_def)
  finally show "fold copy_range rs mem a = copy_range r mem a" by (simp add: copy_range_apply [of r mem a])
qed

lemma tiles_none: "tiles {} (s, t, 0)"
  by (simp add: tiles_def range_covers_def)

lemma tiles_append:
  assumes "tiles R (s, t, m)" "tiles R' (s + m, t + m, n)"
  shows "tiles (R \<union> R') (s, t, m + n)"
proof -
  have "part_of x (s, t, m + n)" if "x \<in> R \<union> R'" for x
  proof -
    obtain a b c where x: "x = (a, b, c)" by (cases x)
    have "part_of x (s, t, m) \<or> part_of x (s + m, t + m, n)" using that assms by (auto simp: tiles_def)
    then show ?thesis by (auto simp: part_of_def x)
  qed
  moreover have "\<exists>x \<in> R \<union> R'. range_covers x a" if "range_covers (s, t, m + n) a" for a
  proof -
    have "range_covers (s, t, m) a \<or> range_covers (s + m, t + m, n) a" using that by (auto simp: range_covers_def)
    then show ?thesis using assms unfolding tiles_def by blast
  qed
  ultimately show ?thesis by (simp add: tiles_def)
qed

text \<open>Units of \<open>w\<close> bytes.\<close>

lemma tiles_units:
  assumes "0 < w"
  shows "tiles ((\<lambda>u. (s + u * w, t + u * w, w)) ` {..<n}) (s, t, n * w)"
proof -
  have "\<exists>u < n. t + u * w \<le> a \<and> a < t + u * w + w" if "t \<le> a" "a < t + n * w" for a
  proof (intro exI conjI)
    let ?u = "(a - t) div w"
    show "?u < n" using that assms by (simp add: div_less_iff_less_mult)
    show "t + ?u * w \<le> a" using that div_times_less_eq_dividend [of "a - t" w] by linarith
    show "a < t + ?u * w + w" using that dividend_less_div_times [OF assms, of "a - t"] by linarith
  qed
  moreover have "u * w + w \<le> n * w" if "u < n" for u using that by (metis Suc_leI add.commute mult_Suc mult_le_mono1)
  ultimately show ?thesis by (force simp: tiles_def part_of_def range_covers_def)
qed

end
