(* ===== verification/Worker_Delivery.thy ===== *)
theory Worker_Delivery
  imports Worker_Respond Memory_Copy
begin

unbundle bit_operations_syntax

text \<open>
  Both workers together: the responder accepts the datagrams the requester cuts a work request into, and
  the copies it asks for move the bytes of the source segments, one after the other, to the remote
  address, whatever the order in which the backend carries them out.
\<close>

section \<open>The responder accepts what the requester sends\<close>

definition part_sum :: "nat \<Rightarrow> (u64 \<times> nat) list \<Rightarrow> nat" where
  "part_sum k cs = sum_list (map snd (take k cs))"

lemma part_sum_Suc: "k < length cs \<Longrightarrow> part_sum (Suc k) cs = part_sum k cs + snd (cs ! k)"
  by (simp add: part_sum_def take_Suc_conv_app_nth)

lemma part_sum_all: "part_sum (length cs) cs = sum_list (map snd cs)"
  by (simp add: part_sum_def)

lemma part_sum_mono: "k \<le> n \<Longrightarrow> part_sum k cs \<le> part_sum n cs"
proof (induction n)
  case (Suc n)
  have "part_sum n cs \<le> part_sum (Suc n) cs"
    by (cases "n < length cs") (simp_all add: part_sum_Suc, simp add: part_sum_def)
  then show ?case using Suc by (cases "k = Suc n") auto
qed simp

text \<open>The parent after the first \<open>k\<close> payloads of a send.\<close>

definition parent_after :: "responder_inflight \<Rightarrow> request_datagram list \<Rightarrow> nat \<Rightarrow> responder_inflight" where
  "parent_after p ds k = fold advance_parent (take k ds) p"

definition parent_copies :: "responder_inflight \<Rightarrow> request_datagram list \<Rightarrow> backend_request list" where
  "parent_copies p ds = map (\<lambda>k. backend_request_of (parent_after p ds k) (ds ! k)) [0..<length ds]"

lemma send_plan:
  assumes at: "send_at mtu p0 0 p0" and nz: "pn_total_length p0 \<noteq> 0"
  defines "cs \<equiv> plan (unat mtu) (pn_source_segments p0)"
  shows "send_datagrams (unat mtu) p0 = number p0 0 0 cs" "length cs = unat (pn_payload_count p0)"
    "sum_list (map snd cs) = unat (pn_total_length p0)" "unat (pn_total_length p0) < 4294967296" "0 < unat mtu"
    "cs \<noteq> []" "k < length cs \<Longrightarrow> 0 < snd (cs ! k)" "length cs \<le> sum_list (map snd cs)"
proof -
  have ok: "send_ok mtu p0" "remaining_chunks (unat mtu) p0 = cs" "unat (pn_payload_index p0) = 0" "unat (pn_payload_offset p0) = 0"
    using at by (simp_all add: send_at_def cs_def)
  then show "send_datagrams (unat mtu) p0 = number p0 0 0 cs" "length cs = unat (pn_payload_count p0)"
    "sum_list (map snd cs) = unat (pn_total_length p0)" "unat (pn_total_length p0) < 4294967296" "0 < unat mtu" "cs \<noteq> []"
    using nz by (simp_all add: send_datagrams_def cs_def send_ok_def)
  have pos: "0 < snd c" if "c \<in> set cs" for c
    using that chunks_sizes [of "fst c" "snd c"] by (auto simp: cs_def plan_def)
  then show "0 < snd (cs ! k)" if "k < length cs" using that by simp
  have "length xs \<le> sum_list (map snd xs)" if "\<And>c. c \<in> set xs \<Longrightarrow> 0 < snd c" for xs :: "(u64 \<times> nat) list"
    using that
  proof (induction xs)
    case (Cons x xs)
    then have "0 < snd x" "length xs \<le> sum_list (map snd xs)" by simp_all
    then show ?case by simp
  qed simp
  then show "length cs \<le> sum_list (map snd cs)" using pos by blast
qed

lemma send_datagram_nth:
  assumes at: "send_at mtu p0 0 p0" and nz: "pn_total_length p0 \<noteq> 0"
  defines "cs \<equiv> plan (unat mtu) (pn_source_segments p0)"
  assumes k: "k < length cs"
  shows "send_datagrams (unat mtu) p0 ! k = datagram_of p0 k (part_sum k cs) (cs ! k)"
  using send_plan(1) [OF at nz] number_nth [of k cs p0 0 0] k by (simp add: cs_def part_sum_def)

lemma parent_after_eq:
  fixes target :: u64 and receive :: "receive_wqe_header option"
  assumes at: "send_at mtu p0 0 p0" and nz: "pn_total_length p0 \<noteq> 0"
  defines "ds \<equiv> send_datagrams (unat mtu) p0" and "cs \<equiv> plan (unat mtu) (pn_source_segments p0)"
  defines "q \<equiv> new_parent (hd ds) target receive"
  assumes k: "k \<le> length cs"
  shows "parent_after q ds k = q\<lparr>rf_next_payload_index := of_nat k, rf_next_payload_offset := of_nat (part_sum k cs)\<rparr>"
  using k
proof (induction k)
  case 0
  then show ?case by (simp add: parent_after_def part_sum_def q_def new_parent_def)
next
  case (Suc k)
  note S = send_plan [OF at nz, folded cs_def]
  have k: "k < length ds" "k < length cs" using Suc.prems S(1) by (simp_all add: ds_def)
  have d: "ds ! k = datagram_of p0 k (part_sum k cs) (cs ! k)"
    using send_datagram_nth [OF at nz] k by (simp add: ds_def cs_def)
  have "ds \<noteq> []" using k by auto
  then have hd: "hd ds = datagram_of p0 0 0 (cs ! 0)"
    using send_datagram_nth [OF at nz, of 0] S(6) by (simp add: ds_def cs_def hd_conv_nth part_sum_def)
  have q: "rf_payload_count q = pn_payload_count p0" "rf_parent_total_length q = pn_total_length p0"
    by (simp_all add: q_def new_parent_def hd datagram_of_def)
  have le: "part_sum (Suc k) cs \<le> unat (pn_total_length p0)"
    using part_sum_mono [OF Suc.prems, of cs] part_sum_all [of cs] S(3) by simp
  have len: "unat (of_nat (snd (cs ! k)) :: u32) = snd (cs ! k)"
    using le part_sum_Suc [OF k(2)] S(4) by (intro unat_of_nat_u32) linarith
  have off: "of_nat (part_sum k cs) + ucast (of_nat (snd (cs ! k)) :: u32) = (of_nat (part_sum (Suc k) cs) :: u64)"
    using len part_sum_Suc [OF k(2)] by (metis of_nat_add of_nat_unat_u32_u64)
  have last: "of_nat (part_sum (Suc k) cs) = pn_total_length p0" if "of_nat (Suc k) = pn_payload_count p0"
  proof -
    have "Suc k < 4294967296" using Suc.prems S(2) unat_u32_bound [of "pn_payload_count p0"] by linarith
    then have "Suc k = length cs" using that S(2) unat_of_nat_u32 [of "Suc k"] by simp
    then show ?thesis using part_sum_all [of cs] S(3) by simp
  qed
  have "parent_after q ds (Suc k) = advance_parent (ds ! k) (parent_after q ds k)"
    using k by (simp add: parent_after_def take_Suc_conv_app_nth)
  also have "\<dots> = q\<lparr>rf_next_payload_index := of_nat (Suc k), rf_next_payload_offset := of_nat (part_sum (Suc k) cs)\<rparr>"
    using Suc.IH k off last q by (auto simp: advance_parent_def Let_def d datagram_of_def add.commute)
  finally show ?case .
qed

text \<open>The copy of chunk \<open>k\<close> of a send to \<open>target\<close>.\<close>

definition chunk_copy :: "pending_send \<Rightarrow> (u64 \<times> nat) list \<Rightarrow> u64 \<Rightarrow> nat \<Rightarrow> backend_request" where
  "chunk_copy p0 cs target k =
     \<lparr>br_parent_request_id = pn_parent_request_id p0, br_parent_total_length = pn_total_length p0,
      br_payload_offset = of_nat (part_sum k cs), br_source_daemon_address = fst (cs ! k),
      br_target_daemon_address = target + of_nat (part_sum k cs), br_payload_length = of_nat (snd (cs ! k)),
      br_payload_index = of_nat k, br_payload_count = pn_payload_count p0\<rparr>"

lemma send_accepted:
  fixes target :: u64 and receive :: "receive_wqe_header option"
  assumes at: "send_at mtu p0 0 p0" and nz: "pn_total_length p0 \<noteq> 0"
  defines "ds \<equiv> send_datagrams (unat mtu) p0" and "cs \<equiv> plan (unat mtu) (pn_source_segments p0)"
  defines "q \<equiv> new_parent (hd ds) target receive"
  shows "valid_first (hd ds)" and "k < length ds \<Longrightarrow> valid_payload (parent_after q ds k) (ds ! k)"
    and "rf_parent_error (parent_after q ds (length ds)) = Success"
    and "rf_next_payload_index (parent_after q ds (length ds)) = rf_payload_count q"
    and "rf_next_payload_offset (parent_after q ds (length ds)) = rf_parent_total_length q"
    and "parent_copies q ds = map (chunk_copy p0 cs target) [0..<length cs]"
proof -
  note S = send_plan [OF at nz, folded cs_def]
  have len: "length ds = length cs" using S(1) by (simp add: ds_def)
  have n: "length cs < 4294967296" using S(2) unat_u32_bound [of "pn_payload_count p0"] by simp
  have d: "ds ! k = datagram_of p0 k (part_sum k cs) (cs ! k)" if "k < length cs" for k
    using send_datagram_nth [OF at nz] that by (simp add: ds_def cs_def)
  have hd: "hd ds = datagram_of p0 0 0 (cs ! 0)" 
    using d [of 0] S(6) len hd_conv_nth [of ds] by (force simp: part_sum_def)
  note P = parent_after_eq [OF at nz, folded ds_def cs_def q_def, of _ target receive, folded q_def]
  have bound: "part_sum k cs + snd (cs ! k) \<le> unat (pn_total_length p0)" if "k < length cs" for k
    using part_sum_mono [of "Suc k" "length cs" cs] part_sum_Suc [OF that] part_sum_all [of cs] S(3) that by simp
  have l: "unat (of_nat (snd (cs ! k)) :: u32) = snd (cs ! k)" "unat (of_nat (part_sum k cs) :: u64) = part_sum k cs" if "k < length cs" for k
    using bound [OF that] S(4) unat_u64_bound [of "pn_total_length p0"] by (intro unat_of_nat_u32 unat_of_nat_u64; linarith)+
  have q: "rf_payload_count q = pn_payload_count p0" "rf_parent_total_length q = pn_total_length p0" "rf_target_daemon_address q = target"
      "rf_parent_error q = Success"
    by (simp_all add: q_def new_parent_def hd datagram_of_def)
  have "0 < length cs" using S(6) by simp
  have pos: "(of_nat (snd (cs ! k)) :: u32) \<noteq> 0" if "k < length cs" for k
    using S(7) [OF that] l(1) [OF that] by (metis less_irrefl unat_0)
  have cnt: "pn_payload_count p0 \<noteq> 0" using S(2) \<open>0 < length cs\<close> by auto
  show "valid_first (hd ds)"
    using bound [of 0] l(1) [of 0] pos [of 0] cnt nz \<open>0 < length cs\<close> S(2,3,8)
    by (simp add: valid_first_def hd datagram_of_def Let_def word_le_nat_alt part_sum_def)
  show "valid_payload (parent_after q ds k) (ds ! k)" if "k < length ds"
  proof -
    have k: "k < length cs" using that len by simp
    have "(of_nat k :: u32) < pn_payload_count p0" using k n S(2) by (simp add: word_less_nat_alt unat_of_nat_u32)
    moreover have "of_nat (part_sum k cs) \<le> pn_total_length p0"
      "ucast (of_nat (snd (cs ! k)) :: u32) \<le> pn_total_length p0 - of_nat (part_sum k cs)"
      using bound [OF k] l [OF k] by (simp_all add: word_le_nat_alt unat_sub)
    ultimately show ?thesis
      using k P [of k] d [OF k] pos [OF k] cnt by (simp add: valid_payload_def q_def new_parent_def hd datagram_of_def Let_def)
  qed
  show "rf_parent_error (parent_after q ds (length ds)) = Success"
    "rf_next_payload_index (parent_after q ds (length ds)) = rf_payload_count q"
    "rf_next_payload_offset (parent_after q ds (length ds)) = rf_parent_total_length q"
    using P [of "length cs"] q S(2,3) part_sum_all [of cs] n by (simp_all add: len word_unat_eq_iff unat_of_nat_u32)
  show "parent_copies q ds = map (chunk_copy p0 cs target) [0..<length cs]"
    using P d q by (auto simp: parent_copies_def len backend_request_of_def datagram_of_def chunk_copy_def)
qed

section \<open>What the copies do to memory\<close>

text \<open>One copy, and the bytes of a range.\<close>

definition request_range :: "backend_request \<Rightarrow> range_copy" where
  "request_range b =
     (unat (br_source_daemon_address b), unat (br_target_daemon_address b), unat (br_payload_length b))"

definition copy_bytes :: "backend_request \<Rightarrow> memory \<Rightarrow> memory" where
  "copy_bytes b = copy_range (request_range b)"

definition bytes_at :: "memory \<Rightarrow> u64 \<Rightarrow> nat \<Rightarrow> u8 list" where
  "bytes_at mem address n = map (\<lambda>j. mem (unat address + j)) [0..<n]"

definition segment_bytes :: "memory \<Rightarrow> source_segment list \<Rightarrow> u8 list" where
  "segment_bytes mem segs = concat (map (\<lambda>seg. bytes_at mem (seg_daemon_address seg) (unat (seg_length seg))) segs)"

definition covers :: "backend_request \<Rightarrow> nat \<Rightarrow> bool" where
  "covers b a \<longleftrightarrow> unat (br_target_daemon_address b) \<le> a \<and> a < unat (br_target_daemon_address b) + unat (br_payload_length b)"

definition source_of :: "backend_request \<Rightarrow> nat \<Rightarrow> nat" where
  "source_of b a = unat (br_source_daemon_address b) + (a - unat (br_target_daemon_address b))"

lemma covers_range: "range_covers (request_range b) a = covers b a" "range_source (request_range b) a = source_of b a"
  by (simp_all add: request_range_def range_covers_def range_source_def covers_def source_of_def)

lemma copies_any_order:
  assumes "\<And>b b' a. b \<in> set cs \<Longrightarrow> b' \<in> set cs \<Longrightarrow> covers b a \<Longrightarrow> \<not> covers b' (source_of b a)"
    and "\<And>b a. b \<in> set cs \<Longrightarrow> covers b a \<Longrightarrow> mem (source_of b a) = f a"
  shows "fold copy_bytes cs mem a = (if \<exists>b \<in> set cs. covers b a then f a else mem a)"
proof -
  have "fold copy_bytes cs mem = fold copy_range (map request_range cs) mem" by (simp add: fold_map comp_def flip: copy_bytes_def)
  moreover have "fold copy_range (map request_range cs) mem a =
      (if \<exists>r \<in> set (map request_range cs). range_covers r a then f a else mem a)"
    by (rule ranges_any_order; unfold set_map; elim imageE; metis assms covers_range)
  ultimately show ?thesis by (simp add: covers_range)
qed

lemma bytes_at_append:
  assumes "unat address + n < 18446744073709551616 \<or> m = 0"
  shows "bytes_at mem address (n + m) = bytes_at mem address n @ bytes_at mem (address + of_nat n) m"
proof (cases "m = 0")
  case False
  then have "unat (address + of_nat n) = unat address + n" using assms by (subst unat_add_u64) (simp_all add: unat_of_nat_u64)
  moreover have "[0..<n + m] = [0..<n] @ map (\<lambda>i. i + n) [0..<m]"
    using upt_add_eq_append [of 0 n m] map_add_upt [of n m] by (simp add: add.commute)
  ultimately show ?thesis by (simp add: bytes_at_def comp_def ac_simps)
qed (simp add: bytes_at_def)

lemma chunk_bytes:
  assumes "0 < mtu" "unat address + n \<le> 18446744073709551616"
  shows "concat (map (\<lambda>(a, l). bytes_at mem a l) (chunks mtu address n)) = bytes_at mem address n"
  using assms
proof (induction mtu address n rule: chunks.induct)
  case (1 mtu address n)
  show ?case
  proof (cases "n = 0")
    case True
    then show ?thesis by (simp add: bytes_at_def)
  next
    case False
    let ?m = "min mtu n"
    have m: "0 < ?m" "?m \<le> n" "n = ?m + (n - ?m)" using False 1 by auto
    have IH: "concat (map (\<lambda>(a, l). bytes_at mem a l) (chunks mtu (address + of_nat ?m) (n - ?m))) =
        bytes_at mem (address + of_nat ?m) (n - ?m)"
    proof (cases "n - ?m = 0")
      case True
      then show ?thesis by (simp add: bytes_at_def)
    next
      case rest: False
      then have "unat (address + of_nat ?m) = unat address + ?m"
        using 1(3) m by (subst unat_add_u64) (simp_all add: unat_of_nat_u64)
      then show ?thesis using 1(1) [OF _ 1(2)] False 1(2,3) m by simp
    qed
    have "unat address + ?m < 18446744073709551616 \<or> n - ?m = 0" using 1(3) m by linarith
    then have "bytes_at mem address n = bytes_at mem address ?m @ bytes_at mem (address + of_nat ?m) (n - ?m)"
      using bytes_at_append [of address ?m "n - ?m" mem] m(3) by simp
    then show ?thesis using False 1(2) IH by (subst chunks.simps) simp
  qed
qed

lemma plan_bytes:
  assumes "0 < mtu" "\<And>seg. seg \<in> set segs \<Longrightarrow> unat (seg_daemon_address seg) + unat (seg_length seg) \<le> 18446744073709551616"
  shows "concat (map (\<lambda>(a, l). bytes_at mem a l) (plan mtu segs)) = segment_bytes mem segs"
  using assms(2)
proof (induction segs)
  case (Cons seg segs)
  then show ?case using chunk_bytes [OF assms(1)] by (simp add: plan_Cons segment_bytes_def)
qed (simp add: plan_def segment_bytes_def)

lemma chunks_within:
  assumes "0 < mtu" "unat address + n \<le> 18446744073709551616" "(a, l) \<in> set (chunks mtu address n)"
  shows "unat address \<le> unat a \<and> unat a + l \<le> unat address + n"
  using assms
proof (induction mtu address n rule: chunks.induct)
  case (1 mtu address n)
  let ?m = "min mtu n"
  have n: "n \<noteq> 0" using 1(4) by (metis chunks_zero empty_iff list.set(1))
  then consider "(a, l) = (address, ?m)" | (rest) "(a, l) \<in> set (chunks mtu (address + of_nat ?m) (n - ?m))"
    using 1(2,4) by (subst (asm) chunks.simps) auto
  then show ?case
  proof cases
    case rest
    then have r: "n - ?m \<noteq> 0" by (metis chunks_zero empty_iff list.set(1))
    then have u: "unat (address + of_nat ?m) = unat address + ?m"
      using 1(3) by (subst unat_add_u64) (simp_all add: unat_of_nat_u64)
    have "unat (address + of_nat ?m) \<le> unat a \<and> unat a + l \<le> unat (address + of_nat ?m) + (n - ?m)"
      by (rule 1(1)) (use n 1(2,3) rest u r in auto)
    then show ?thesis using u r by simp
  qed auto
qed

lemma concat_nth_part:
  "k < length xss \<Longrightarrow> j < length (xss ! k) \<Longrightarrow> concat xss ! (sum_list (map length (take k xss)) + j) = xss ! k ! j"
proof (induction xss arbitrary: k)
  case (Cons xs xss)
  then show ?case by (cases k) (auto simp: nth_append add.assoc)
qed simp

section \<open>Delivery\<close>

lemma chunk_copy_fields:
  assumes at: "send_at mtu p0 0 p0" and nz: "pn_total_length p0 \<noteq> 0" and fit: "unat target + unat (pn_total_length p0) \<le> 2 ^ 64"
  defines "cs \<equiv> plan (unat mtu) (pn_source_segments p0)"
  assumes k: "k < length cs"
  shows "part_sum k cs + snd (cs ! k) \<le> unat (pn_total_length p0)"
    "unat (br_payload_length (chunk_copy p0 cs target k)) = snd (cs ! k)"
    "unat (br_target_daemon_address (chunk_copy p0 cs target k)) = unat target + part_sum k cs"
    "br_source_daemon_address (chunk_copy p0 cs target k) = fst (cs ! k)"
proof -
  note S = send_plan [OF at nz, folded cs_def]
  show bound: "part_sum k cs + snd (cs ! k) \<le> unat (pn_total_length p0)"
    using part_sum_mono [of "Suc k" "length cs" cs] part_sum_Suc [OF k] part_sum_all [of cs] S(3) k by simp
  show "unat (br_payload_length (chunk_copy p0 cs target k)) = snd (cs ! k)"
    unfolding chunk_copy_def using bound S(4) by (simp, intro unat_of_nat_u32) linarith
  have "unat target + part_sum k cs < 18446744073709551616" using bound S(7) [OF k] fit by simp
  then show "unat (br_target_daemon_address (chunk_copy p0 cs target k)) = unat target + part_sum k cs"
    by (simp add: chunk_copy_def) (subst unat_add_u64, simp_all add: unat_of_nat_u64)
qed (simp add: chunk_copy_def)

lemma plan_within:
  assumes "0 < mtu" "\<And>seg. seg \<in> set segs \<Longrightarrow> unat (seg_daemon_address seg) + unat (seg_length seg) \<le> 18446744073709551616"
    and k: "k < length (plan mtu segs)"
  obtains seg where "seg \<in> set segs" "unat (seg_daemon_address seg) \<le> unat (fst (plan mtu segs ! k))"
    "unat (fst (plan mtu segs ! k)) + snd (plan mtu segs ! k) \<le> unat (seg_daemon_address seg) + unat (seg_length seg)"
proof -
  have "plan mtu segs ! k \<in> set (plan mtu segs)" using k by simp
  then obtain seg where seg: "seg \<in> set segs" "plan mtu segs ! k \<in> set (chunks mtu (seg_daemon_address seg) (unat (seg_length seg)))"
    unfolding plan_def by auto
  from chunks_within [OF assms(1,2), of seg "fst (plan mtu segs ! k)" "snd (plan mtu segs ! k)"] seg that show ?thesis by auto
qed

lemma part_sum_find: "i < part_sum n cs \<Longrightarrow> \<exists>k < n. part_sum k cs \<le> i \<and> i < part_sum (Suc k) cs"
proof (induction n)
  case (Suc n)
  then show ?case by (cases "i < part_sum n cs") (auto intro: less_SucI)
qed (simp add: part_sum_def)

lemma plan_byte:
  assumes "0 < mtu" "\<And>seg. seg \<in> set segs \<Longrightarrow> unat (seg_daemon_address seg) + unat (seg_length seg) \<le> 18446744073709551616"
    and k: "k < length (plan mtu segs)" and j: "j < snd (plan mtu segs ! k)"
  shows "segment_bytes mem segs ! (part_sum k (plan mtu segs) + j) = mem (unat (fst (plan mtu segs ! k)) + j)"
proof -
  let ?xss = "map (\<lambda>(a, l). bytes_at mem a l) (plan mtu segs)"
  have "part_sum k (plan mtu segs) = sum_list (map length (take k ?xss))"
    by (simp add: part_sum_def take_map comp_def case_prod_beta bytes_at_def)
  then have "concat ?xss ! (part_sum k (plan mtu segs) + j) = ?xss ! k ! j"
    using concat_nth_part [of k ?xss j] j k by (simp add: case_prod_beta bytes_at_def)
  then show ?thesis using plan_bytes [OF assms(1,2), of segs mem] j k by (simp add: case_prod_beta bytes_at_def)
qed

definition fits :: "u64 \<Rightarrow> nat \<Rightarrow> bool" where
  "fits address n \<longleftrightarrow> unat address + n \<le> 2 ^ 64"

definition apart :: "u64 \<Rightarrow> nat \<Rightarrow> u64 \<Rightarrow> nat \<Rightarrow> bool" where
  "apart a m b n \<longleftrightarrow> unat a + m \<le> unat b \<or> unat b + n \<le> unat a"

lemma write_delivers_bytes:
  fixes target :: u64 and receive :: "receive_wqe_header option"
  assumes at: "send_at mtu p0 0 p0" and nz: "pn_total_length p0 \<noteq> 0" and fit: "fits target (unat (pn_total_length p0))"
    and segs: "\<And>seg. seg \<in> set (pn_source_segments p0) \<Longrightarrow> fits (seg_daemon_address seg) (unat (seg_length seg)) \<and>
      apart (seg_daemon_address seg) (unat (seg_length seg)) target (unat (pn_total_length p0))"
  defines "ds \<equiv> send_datagrams (unat mtu) p0"
  assumes order: "set copies = set (parent_copies (new_parent (hd ds) target receive) ds)"
  shows "fold copy_bytes copies mem a =
    (if unat target \<le> a \<and> a < unat target + unat (pn_total_length p0)
     then segment_bytes mem (pn_source_segments p0) ! (a - unat target) else mem a)"
proof -
  let ?segs = "pn_source_segments p0" and ?n = "unat (pn_total_length p0)"
  define cs where "cs = plan (unat mtu) ?segs"
  note S = send_plan [OF at nz, folded cs_def]
  note C = chunk_copy_fields [OF at nz fit [unfolded fits_def], folded cs_def]
  have sf: "unat (seg_daemon_address seg) + unat (seg_length seg) \<le> 18446744073709551616" if "seg \<in> set ?segs" for seg
    using segs [OF that] by (simp add: fits_def)
  have copies: "set copies = chunk_copy p0 cs target ` {..<length cs}"
    using order send_accepted(6) [OF at nz, folded ds_def cs_def, of target receive] by auto
  have cover: "covers (chunk_copy p0 cs target k) a \<longleftrightarrow> unat target + part_sum k cs \<le> a \<and> a < unat target + part_sum (Suc k) cs"
    if "k < length cs" for k a using C [OF that] part_sum_Suc [OF that] by (auto simp: covers_def)
  have le: "part_sum (Suc k) cs \<le> ?n" if "k < length cs" for k using C(1) [OF that] part_sum_Suc [OF that] by simp
  let ?f = "\<lambda>a. segment_bytes mem ?segs ! (a - unat target)"
  have "fold copy_bytes copies mem a = (if \<exists>b \<in> set copies. covers b a then ?f a else mem a)"
  proof (rule copies_any_order)
    fix b b' a assume b: "b \<in> set copies" "b' \<in> set copies" "covers b a"
    then obtain k k' where k: "k < length cs" "b = chunk_copy p0 cs target k" "k' < length cs" "b' = chunk_copy p0 cs target k'"
      using copies by auto
    obtain seg where "seg \<in> set ?segs" "unat (seg_daemon_address seg) \<le> unat (fst (cs ! k))"
        "unat (fst (cs ! k)) + snd (cs ! k) \<le> unat (seg_daemon_address seg) + unat (seg_length seg)"
      using plan_within [of "unat mtu" ?segs k] S(5) sf k(1) unfolding cs_def by blast
    then show "\<not> covers b' (source_of b a)"
      using segs b(3) cover [OF k(1)] cover [OF k(3)] le [OF k(3)] C [OF k(1)] part_sum_Suc [OF k(1)] k
      by (fastforce simp: source_of_def apart_def)
  next
    fix b a assume b: "b \<in> set copies" "covers b a"
    then obtain k where k: "k < length cs" "b = chunk_copy p0 cs target k" using copies by auto
    let ?j = "a - (unat target + part_sum k cs)"
    have j: "?j < snd (cs ! k)" "a - unat target = part_sum k cs + ?j"
      using b(2) [unfolded k(2) cover [OF k(1)]] part_sum_Suc [OF k(1)] by linarith+
    have "segment_bytes mem ?segs ! (part_sum k cs + ?j) = mem (unat (fst (cs ! k)) + ?j)"
      using plan_byte [of "unat mtu" ?segs k ?j mem] S(5) sf k(1) j(1) unfolding cs_def by blast
    then show "mem (source_of b a) = ?f a" using C [OF k(1)] j(2) by (simp add: source_of_def k(2))
  qed
  moreover have "(\<exists>b \<in> set copies. covers b a) \<longleftrightarrow> unat target \<le> a \<and> a < unat target + ?n"
  proof
    assume a: "unat target \<le> a \<and> a < unat target + ?n"
    then have "a - unat target < part_sum (length cs) cs" using S(3) part_sum_all [of cs] by auto
    then obtain k where "k < length cs" "part_sum k cs \<le> a - unat target" "a - unat target < part_sum (Suc k) cs"
      using part_sum_find by blast
    then show "\<exists>b \<in> set copies. covers b a" using a copies cover [of k a] by auto
  qed (use copies cover le in force)
  ultimately show ?thesis by simp
qed

end
