(* ===== verification/Worker_Loop.thy ===== *)
theory Worker_Loop
  imports Worker_Delivery
begin

unbundle bit_operations_syntax

text \<open>
  The worker over many calls: whole runs of the responder, that \<open>progress_once\<close> returns on either side, and
  that a send under way ends when the transport has room for it.
\<close>

section \<open>Runs of the responder\<close>

text \<open>The calls \<open>progress_once\<close> makes, and the use the other worker makes of the transport.\<close>

datatype responder_move =
    Request_call qp_service worker_qp_view worker_env
  | Answer_call worker_qp_view worker_env
  | Completions_call worker_env
  | Flush_call worker_env
  | Requester_moved local_transport

fun responder_exec :: "'b copy_backend \<Rightarrow> responder_move \<Rightarrow> 'b loop_worker \<Rightarrow> 'b loop_worker" where
  "responder_exec cb (Request_call service view env) lw = snd (try_request service view env lw)"
| "responder_exec cb (Answer_call view env) lw = snd (try_parent_response view env lw)"
| "responder_exec cb (Completions_call env) lw = snd (try_backend_completions cb env lw)"
| "responder_exec cb (Flush_call env) lw = snd (try_flush_backend_requests cb env lw)"
| "responder_exec cb (Requester_moved t) lw = lw\<lparr>lw_transport := t\<rparr>"

text \<open>What a move adds: the parents it opens, the copies it queues, the parents it answers.\<close>

record responder_log =
  rl_opened :: "u64 list"
  rl_copies :: "backend_request list"
  rl_answered :: "response_datagram list"

definition responder_adds :: "'b copy_backend \<Rightarrow> responder_move \<Rightarrow> 'b loop_worker \<Rightarrow> responder_log" where
  "responder_adds cb m lw =
     (let lw' = responder_exec cb m lw in
      case m of
        Request_call _ _ _ \<Rightarrow>
          \<lparr>rl_opened = drop (length (lw_responder_order lw)) (lw_responder_order lw'),
           rl_copies = drop (length (lw_pending_backend_requests lw)) (lw_pending_backend_requests lw'), rl_answered = []\<rparr>
      | Answer_call _ _ \<Rightarrow>
          \<lparr>rl_opened = [], rl_copies = [],
           rl_answered = drop (length (lt_responses (lw_transport lw))) (lt_responses (lw_transport lw'))\<rparr>
      | _ \<Rightarrow> \<lparr>rl_opened = [], rl_copies = [], rl_answered = []\<rparr>)"

fun responder_run :: "'b copy_backend \<Rightarrow> responder_move list \<Rightarrow> 'b loop_worker \<Rightarrow> responder_log \<times> 'b loop_worker" where
  "responder_run cb [] lw = (\<lparr>rl_opened = [], rl_copies = [], rl_answered = []\<rparr>, lw)"
| "responder_run cb (m # ms) lw =
     (case responder_run cb ms (responder_exec cb m lw) of (l, lw') \<Rightarrow>
        let a = responder_adds cb m lw
        in (\<lparr>rl_opened = rl_opened a @ rl_opened l, rl_copies = rl_copies a @ rl_copies l,
             rl_answered = rl_answered a @ rl_answered l\<rparr>, lw'))"

text \<open>The moves are those of the worker of one queue pair: the view it gets is of that queue pair.\<close>

definition move_ok :: "u64 \<Rightarrow> u64 \<Rightarrow> u32 \<Rightarrow> responder_move \<Rightarrow> bool" where
  "move_ok sid pd qp_num m \<longleftrightarrow>
     (case m of
        Request_call service view env \<Rightarrow>
          service_ok service \<and> wv_session_id view = sid \<and> wv_pd_identity view = pd \<and> wv_qp_num view = qp_num \<and> worker_env_ok env
      | Answer_call view env \<Rightarrow> worker_env_ok env
      | _ \<Rightarrow> True)"

definition request_services :: "responder_move list \<Rightarrow> qp_service set" where
  "request_services moves = {service. \<exists>view env. Request_call service view env \<in> set moves}"

lemma qp_num_kept:
  "lw_qp_num (record_completion c lw) = lw_qp_num lw" "lw_qp_num (fold record_completion cs lw) = lw_qp_num lw"
  "lw_qp_num (snd (try_backend_completions cb env lw)) = lw_qp_num lw"
  "lw_qp_num (snd (try_flush_backend_requests cb env lw)) = lw_qp_num lw"
  "lw_qp_num (snd (try_parent_response view env lw)) = lw_qp_num lw"
proof -
  show r: "lw_qp_num (record_completion c lw) = lw_qp_num lw" for c and lw :: "'b loop_worker"
    by (simp add: record_completion_def Let_def split: option.split)
  show f: "lw_qp_num (fold record_completion cs lw) = lw_qp_num lw" for cs and lw :: "'b loop_worker"
    by (induction cs arbitrary: lw) (simp_all add: r)
  show "lw_qp_num (snd (try_backend_completions cb env lw)) = lw_qp_num lw"
    by (simp add: try_backend_completions_def f split: prod.split)
  show "lw_qp_num (snd (try_flush_backend_requests cb env lw)) = lw_qp_num lw"
    by (simp add: try_flush_backend_requests_def Let_def split: prod.split)
  show "lw_qp_num (snd (try_parent_response view env lw)) = lw_qp_num lw"
    by (simp add: try_parent_response_def answer_parent_def Let_def split: list.split option.split prod.split bool.split)
qed

lemma responder_move_spec:
  fixes cb :: "'b copy_backend" and lw :: "'b loop_worker"
  assumes inv: "responder_inv S sid pd lw" and ok: "move_ok sid pd (lw_qp_num lw) m" and S: "request_services [m] \<subseteq> S"
  defines "a \<equiv> responder_adds cb m lw" and "lw' \<equiv> responder_exec cb m lw"
  shows "responder_inv S sid pd lw'" "lw_qp_num lw' = lw_qp_num lw"
    "lw_responder_order lw @ rl_opened a = map rsd_parent_request_id (rl_answered a) @ lw_responder_order lw'"
    "list_all (copy_ok S sid pd) (rl_copies a)"
proof -
  have "responder_inv S sid pd lw' \<and> lw_qp_num lw' = lw_qp_num lw \<and>
    lw_responder_order lw @ rl_opened a = map rsd_parent_request_id (rl_answered a) @ lw_responder_order lw' \<and>
    list_all (copy_ok S sid pd) (rl_copies a)"
  proof (cases m)
    case (Request_call service view env)
    obtain r where t: "try_request service view env lw = (r, lw')" by (simp add: lw'_def Request_call prod_eq_iff)
    have "view_ok S sid pd lw service view" "worker_env_ok env"
      using ok S by (auto simp: move_ok_def view_ok_def request_services_def Request_call)
    from try_request_spec [OF inv this t] obtain opened copies rejected where
      e: "responder_inv S sid pd lw'" "request_effect lw opened copies rejected lw'" by blast
    have "list_all (copy_ok S sid pd) (lw_pending_backend_requests lw')" using responder_invD(7) [OF e(1)] .
    then show ?thesis
      using e t by (simp add: a_def responder_adds_def Request_call request_effect_def)
  next
    case (Answer_call view env)
    obtain r where t: "try_parent_response view env lw = (r, lw')" by (simp add: lw'_def Answer_call prod_eq_iff)
    have "worker_env_ok env" using ok by (simp add: move_ok_def Answer_call)
    note T = try_parent_response_spec [OF inv this t]
    have q: "lw_qp_num lw' = lw_qp_num lw" using qp_num_kept(5) [of view env lw] t by simp
    have ra: "rl_answered a = drop (length (lt_responses (lw_transport lw))) (lt_responses (lw_transport lw'))" "rl_opened a = []" "rl_copies a = []"
      using t by (simp_all add: a_def responder_adds_def Answer_call)
    show ?thesis
    proof (cases r)
      case True
      then obtain i rest p where "lw_responder_order lw = i # rest" "lw_responder_inflight lw i = Some p" "parent_done p"
         "lw_responder_order lw' = rest" "lt_responses (lw_transport lw') = lt_responses (lw_transport lw) @ [parent_answer i p]"
        using T by auto
      then show ?thesis using T q ra by (auto simp: parent_answer_def)
    next
      case False
      then show ?thesis using T q ra by simp
    qed
  next
    case (Completions_call env)
    then show ?thesis
      using try_backend_completions_inv [OF inv prod.collapse [symmetric]] qp_num_kept(3)
      by (simp add: a_def lw'_def responder_adds_def)
  next
    case (Flush_call env)
    then show ?thesis
      using try_flush_inv [OF inv prod.collapse [symmetric]] qp_num_kept(4)
      by (simp add: a_def lw'_def responder_adds_def)
  next
    case (Requester_moved t)
    then show ?thesis using inv by (simp add: a_def lw'_def responder_adds_def)
  qed
  then show "responder_inv S sid pd lw'" "lw_qp_num lw' = lw_qp_num lw"
    "lw_responder_order lw @ rl_opened a = map rsd_parent_request_id (rl_answered a) @ lw_responder_order lw'"
    "list_all (copy_ok S sid pd) (rl_copies a)"
    by blast+
qed

lemma responder_run_spec:
  assumes "responder_inv S sid pd lw" "list_all (move_ok sid pd (lw_qp_num lw)) moves" "request_services moves \<subseteq> S"
    and "responder_run cb moves lw = (l, lw')"
  shows "responder_inv S sid pd lw' \<and>
    lw_responder_order lw @ rl_opened l = map rsd_parent_request_id (rl_answered l) @ lw_responder_order lw' \<and>
    list_all (copy_ok S sid pd) (rl_copies l) \<and> lw_qp_num lw' = lw_qp_num lw"
  using assms
proof (induction moves arbitrary: lw l)
  case (Cons m ms)
  let ?lw = "responder_exec cb m lw" and ?a = "responder_adds cb m lw"
  have s: "request_services [m] \<subseteq> S" "request_services ms \<subseteq> S" using Cons.prems(3) by (auto simp: request_services_def)
  note M = responder_move_spec [where m = m and cb = cb, OF Cons.prems(1) _ s(1)]
  have m: "move_ok sid pd (lw_qp_num lw) m" "list_all (move_ok sid pd (lw_qp_num lw)) ms" using Cons.prems(2) by simp_all
  obtain l1 where r: "responder_run cb ms ?lw = (l1, lw')"
      "l = \<lparr>rl_opened = rl_opened ?a @ rl_opened l1, rl_copies = rl_copies ?a @ rl_copies l1, rl_answered = rl_answered ?a @ rl_answered l1\<rparr>"
    using Cons.prems(4) by (auto simp: Let_def split: prod.splits)
  note IH = Cons.IH [OF M(1) [OF m(1)] _ s(2) r(1)]
  have "lw_responder_order lw @ rl_opened ?a @ rl_opened l1 =
      map rsd_parent_request_id (rl_answered ?a) @ map rsd_parent_request_id (rl_answered l1) @ lw_responder_order lw'"
    using M(3) [OF m(1)] IH M(2) [OF m(1)] m(2) by (metis append.assoc)
  then show ?case using IH M [OF m(1)] m(2) by (auto simp: r(2))
qed simp

section \<open>The loops return\<close>

lemma while_true_returns:
  assumes more: "\<And>k lw lw'. I lw \<Longrightarrow> step (env k) lw = (True, lw') \<Longrightarrow> I lw' \<and> m lw' < (m lw :: nat)"
    and stop: "\<And>k lw lw'. I lw \<Longrightarrow> step (env k) lw = (False, lw') \<Longrightarrow> J lw'" and I: "I lw"
  shows "\<exists>k' p' lw'. while_true step env k p lw = Some (k', p', lw') \<and> J lw'"
  using I
proof (induction "m lw" arbitrary: k p lw rule: less_induct)
  case less
  obtain r lw1 where s: "step (env k) lw = (r, lw1)" by force
  show ?case
  proof (cases r)
    case True
    then have "I lw1" "m lw1 < m lw" using more [OF less.prems] s by auto
    then have "\<exists>k' p' lw'. while_true step env (Suc k) True lw1 = Some (k', p', lw') \<and> J lw'" by (rule less.hyps [rotated])
    then show ?thesis using s True by (subst while_true.simps) simp
  next
    case False
    then show ?thesis using s stop [OF less.prems] by (subst while_true.simps) auto
  qed
qed

lemmas while_true_ends = while_true_returns [where I = "\<lambda>_. True" and J = "\<lambda>_. True", simplified]

text \<open>Each call of \<open>try_request\<close> that reports progress takes a request off the transport or finishes the pending
  one, each such call of \<open>try_parent_response\<close> forgets a parent, and so on.\<close>

definition requests_left :: "'b loop_worker \<Rightarrow> nat" where
  "requests_left lw = 2 * length (lt_requests (lw_transport lw)) + (if lw_pending_request lw = None then 0 else 1)"

definition responses_left :: "'b loop_worker \<Rightarrow> nat" where
  "responses_left lw = 2 * length (lt_responses (lw_transport lw)) + (if lw_pending_response lw = None then 0 else 1)"

lemma reject_request_left:
  "reject_request loaded d result lw = (r, lw') \<Longrightarrow>
   lt_requests (lw_transport lw') = lt_requests (lw_transport lw) \<and> (r \<and> \<not> loaded \<longrightarrow> lw_pending_request lw' = None)"
  by (auto simp: reject_request_def transport_defs split: if_split_asm)

lemma accept_payload_left:
  "accept_payload loaded d p lw = (r, lw') \<Longrightarrow>
   lt_requests (lw_transport lw') = lt_requests (lw_transport lw) \<and> (r \<and> \<not> loaded \<longrightarrow> lw_pending_request lw' = None)"
  by (auto simp: accept_payload_def Let_def split: if_split_asm prod.split_asm)

lemma handle_request_left:
  assumes "handle_request service view loaded d env lw = (r, lw')"
  shows "lt_requests (lw_transport lw') = lt_requests (lw_transport lw) \<and> (r \<and> \<not> loaded \<longrightarrow> lw_pending_request lw' = None)"
proof -
  have "lt_requests (lw_transport lw') = lt_requests (lw_transport lw) \<and> (r \<and> \<not> loaded \<longrightarrow> lw_pending_request lw' = None)"
    if "open_parent service view loaded d env lw = (r, lw')"
    using that by (auto simp: open_parent_def Let_def
      split: if_split_asm sum.split_asm prod.split_asm dest!: reject_request_left accept_payload_left)
  then show ?thesis
    using assms by (auto simp: handle_request_def split: if_split_asm option.split_asm dest!: reject_request_left accept_payload_left)
qed

lemma try_request_left:
  assumes "try_request service view env lw = (True, lw')"
  shows "requests_left lw' < requests_left lw"
proof (cases "lw_pending_request lw")
  case None
  then obtain d ds where ds: "lt_requests (lw_transport lw) = d # ds"
      and h: "handle_request service view True d env (lw\<lparr>lw_transport := (lw_transport lw)\<lparr>lt_requests := ds\<rparr>, lw_pending_request := Some d\<rparr>) = (True, lw')"
    using assms by (auto simp: try_request_def transport_defs split: list.split_asm)
  then show ?thesis using handle_request_left [OF h] None by (simp add: requests_left_def)
next
  case (Some d)
  then have "handle_request service view False d env lw = (True, lw')" using assms by (simp add: try_request_def)
  from handle_request_left [OF this] show ?thesis using Some by (simp add: requests_left_def)
qed

lemma try_response_left:
  assumes "try_response view env lw = (True, lw')"
  shows "responses_left lw' < responses_left lw"
proof -
  have h: "lw_transport lw' = lw_transport lw1 \<and> (\<not> loaded \<longrightarrow> lw_pending_response lw' = None)"
    if "handle_response view loaded d env lw1 = (True, lw')" for loaded d lw1
    using that by (auto simp: handle_response_def Let_def split: option.split_asm if_split_asm prod.split_asm)
  show ?thesis
  proof (cases "lw_pending_response lw")
    case None
    then obtain d ds where "lt_responses (lw_transport lw) = d # ds"
      "handle_response view True d env (lw\<lparr>lw_transport := (lw_transport lw)\<lparr>lt_responses := ds\<rparr>, lw_pending_response := Some d\<rparr>) = (True, lw')"
      using assms by (auto simp: try_response_def transport_defs split: list.split_asm)
    then show ?thesis using h None by (auto simp: responses_left_def)
  next
    case (Some d)
    then have "handle_response view False d env lw = (True, lw')" using assms by (simp add: try_response_def)
    from h [OF this] show ?thesis using Some by (simp add: responses_left_def)
  qed
qed

lemma try_parent_response_left:
  "try_parent_response view env lw = (True, lw') \<Longrightarrow> length (lw_responder_order lw') < length (lw_responder_order lw)"
  by (auto simp: try_parent_response_def answer_parent_def Let_def
      split: list.split_asm option.split_asm if_split_asm prod.split_asm bool.split_asm)

text \<open>A backend that has only finitely many completions to report at a time.\<close>

definition completions_bounded :: "'b copy_backend \<Rightarrow> ('b \<Rightarrow> nat) \<Rightarrow> bool" where
  "completions_bounded cb m \<longleftrightarrow>
     (\<forall>b cs b'. cb_try_pop_completion_batch cb kBackendBatchCapacity b = (cs, b') \<longrightarrow> cs \<noteq> [] \<longrightarrow> m b' < m b)"

lemma record_completions_backend: "lw_backend (fold record_completion cs lw) = lw_backend lw"
proof (induction cs arbitrary: lw)
  case (Cons c cs)
  then show ?case by (simp add: record_completion_def Let_def split: option.split)
qed simp

lemma try_backend_completions_left:
  assumes "completions_bounded cb m" "try_backend_completions cb env lw = (True, lw')"
  shows "m (lw_backend lw') < m (lw_backend lw)"
  using assms by (auto simp: try_backend_completions_def completions_bounded_def record_completions_backend
      split: prod.split_asm if_split_asm)

lemma responder_loops_return:
  assumes "completions_bounded cb m"
  shows "\<exists>k' p' lw'. while_true (try_backend_completions cb) env k p lw = Some (k', p', lw')"
    "\<exists>k' p' lw'. while_true (try_parent_response view) env k p lw = Some (k', p', lw')"
    "\<exists>k' p' lw'. while_true (try_request service view) env k p lw = Some (k', p', lw')"
    "\<exists>k' p' lw'. if_true step env k p lw = Some (k', p', lw')"
proof -
  show "\<exists>k' p' lw'. while_true (try_backend_completions cb) env k p lw = Some (k', p', lw')"
    by (rule while_true_ends [where m = "\<lambda>lw. m (lw_backend lw)"]) (auto dest: try_backend_completions_left [OF assms])
  show "\<exists>k' p' lw'. while_true (try_parent_response view) env k p lw = Some (k', p', lw')"
    by (rule while_true_ends [where m = "\<lambda>lw. length (lw_responder_order lw)"]) (auto dest: try_parent_response_left)
  show "\<exists>k' p' lw'. while_true (try_request service view) env k p lw = Some (k', p', lw')"
    by (rule while_true_ends [where m = requests_left]) (auto dest: try_request_left)
qed (simp add: if_true_def split: prod.split)


text \<open>The requester: a call that reports progress pushes a datagram or ends an entry of the send queue.\<close>

definition sends_left :: "'b loop_worker \<Rightarrow> nat" where
  "sends_left lw =
     (lt_request_capacity (lw_transport lw) - length (lt_requests (lw_transport lw))) + length (ring_contents (lw_send_queue lw))"

lemma try_send_left:
  assumes at: "requester_at UNIV current lw" and env: "worker_env_ok env" "posts_nothing (we_send_queue env)"
    and t: "try_send service view env lw = (True, lw')"
  shows "(\<exists>current'. requester_at UNIV current' lw') \<and> sends_left lw' < sends_left lw"
proof -
  from try_send_spec [where post = False, OF at env(1) _ _ t] env(2) obtain current' outs ds where
    A: "requester_at UNIV current' lw'" "send_effect UNIV False (wv_qp_num view) lw outs ds lw'" "outs \<noteq> [] \<or> ds \<noteq> []" by auto
  have inv: "ring_inv (lw_send_queue lw)" using at by (auto simp: requester_at_def source_at_def split: option.splits)
  obtain es where es: "chan_run ring_step (lw_send_queue lw) es (lw_send_queue lw')" "concat (map taken_of es) = map fst outs"
      "concat (map sent_of es) = []"
    using A(2) by (auto simp: send_effect_def)
  have "ring_contents (lw_send_queue lw) = map fst outs @ ring_contents (lw_send_queue lw')"
    using ring.run_fifo [OF es(1) inv] es(2,3) by simp
  moreover have "pushed (lw_transport lw) ds (lw_transport lw')" using A(2) by (simp add: send_effect_def)
  ultimately have "sends_left lw' < sends_left lw"
    using A(3) by (cases ds; cases outs) (auto simp: sends_left_def pushed_def)
  then show ?thesis using A(1) by blast
qed

lemma try_response_requester:
  assumes at: "\<exists>current. requester_at UNIV current lw" and env: "worker_env_ok env" and t: "try_response view env lw = (r, lw')"
  shows "\<exists>current. requester_at UNIV current lw'"
proof -
  obtain current where c: "requester_at UNIV current lw" using at by blast
  then have "completion_sink (lw_send_cq lw)" by (simp add: requester_at_def)
  from try_response_keeps [OF env t this] requester_at_same [OF c, of lw'] show ?thesis by blast
qed

lemma requester_loops_return:
  assumes at: "requester_at UNIV current lw" and env: "\<And>k. worker_env_ok (env k)" "\<And>k. posts_nothing (we_send_queue (env k))"
  shows "\<exists>k' p' lw'. while_true (try_response view) env k p lw = Some (k', p', lw') \<and> (\<exists>current. requester_at UNIV current lw')"
    "\<exists>k' p' lw'. while_true (try_send service view) env k p lw = Some (k', p', lw')"
proof -
  let ?I = "\<lambda>lw. \<exists>current. requester_at UNIV current lw"
  show "\<exists>k' p' lw'. while_true (try_response view) env k p lw = Some (k', p', lw') \<and> ?I lw'"
    by (rule while_true_returns [where I = ?I and m = responses_left])
      (use at env(1) try_response_requester try_response_left in blast)+
  have "\<exists>k' p' lw'. while_true (try_send service view) env k p lw = Some (k', p', lw') \<and> True"
    by (rule while_true_returns [where I = ?I and m = sends_left]) (use at env try_send_left in blast)+
  then show "\<exists>k' p' lw'. while_true (try_send service view) env k p lw = Some (k', p', lw')" by simp
qed

section \<open>A send under way ends\<close>

lemma send_completes_from:
  assumes "requester_at V (Some (p0, k)) lw" "ds = send_datagrams (unat (lw_payload_bytes lw)) p0"
    and "length (lt_requests (lw_transport lw)) + (length ds - k) \<le> lt_request_capacity (lw_transport lw)"
    and "lw' = ((\<lambda>lw. snd (try_send service view env lw)) ^^ (length ds - k)) lw"
  shows "lt_requests (lw_transport lw') = lt_requests (lw_transport lw) @ drop k ds \<and> requester_at V None lw' \<and>
    (\<exists>x. send_of V x p0 \<and> chan_run ring_step (lw_send_queue lw) [Taken [x]] (lw_send_queue lw'))"
  using assms
proof (induction "length ds - k" arbitrary: k lw lw')
  case 0
  obtain p where "lw_pending_send lw = Some p" "send_at (lw_payload_bytes lw) p0 k p" using 0(2) by (auto simp: requester_at_def)
  then have "k < length ds" using send_at_step(1) by (simp add: 0(3))
  then show ?case using 0(1) by simp
next
  case (Suc n)
  obtain p where p: "lw_pending_send lw = Some p" using Suc(3) by (auto simp: requester_at_def)
  have room: "length (lt_requests (lw_transport lw)) < lt_request_capacity (lw_transport lw)" using Suc(2,5) by simp
  note C = continue_send_room [OF Suc(3) p room, folded Suc(4)]
  obtain lw1 where c: "try_send service view env lw = (True, lw1)" "lw_payload_bytes lw1 = lw_payload_bytes lw"
      "lw_transport lw1 = lw_transport lw\<lparr>lt_requests := lt_requests (lw_transport lw) @ [ds ! k]\<rparr>"
      "if Suc k < length ds then requester_at V (Some (p0, Suc k)) lw1 \<and> lw_send_queue lw1 = lw_send_queue lw
       else requester_at V None lw1 \<and> (\<exists>x. send_of V x p0 \<and> chan_run ring_step (lw_send_queue lw) [Taken [x]] (lw_send_queue lw1))"
    using C(2) p by (auto simp: try_send_def)
  have d: "drop k ds = ds ! k # drop (Suc k) ds" using C(1) by (simp add: Cons_nth_drop_Suc)
  show ?case
  proof (cases "Suc k < length ds")
    case True
    have ds: "ds = send_datagrams (unat (lw_payload_bytes lw1)) p0" by (simp add: Suc(4) c(2))
    have n: "length ds - k = Suc (length ds - Suc k)" using C(1) by simp
    let ?lw = "((\<lambda>lw. snd (try_send service view env lw)) ^^ (length ds - Suc k)) lw1"
    have "lt_requests (lw_transport ?lw) = lt_requests (lw_transport lw1) @ drop (Suc k) ds \<and> requester_at V None ?lw \<and>
        (\<exists>x. send_of V x p0 \<and> chan_run ring_step (lw_send_queue lw1) [Taken [x]] (lw_send_queue ?lw))"
      using Suc(1) [of "Suc k" lw1 ?lw, OF _ _ ds] Suc(2,5) True c by simp
    moreover have "lw' = ?lw" unfolding Suc(6) n funpow_Suc_right using c(1) by simp
    ultimately show ?thesis using True c d by simp
  next
    case False
    then have "length ds - k = 1" using C(1) by simp
    then show ?thesis using False c d unfolding Suc(6) by simp
  qed
qed

end
