(* ===== verification/Worker_Reports.thy ===== *)
theory Worker_Reports
  imports Worker_Loop
begin

text \<open>
  What the backend told the responder about the copies of a parent, over a whole run: the completions taken from it
  since the parent was opened. They are a history kept beside the worker and not a part of it; the invariant
  \<open>reports_agree\<close> ties the flags and results a parent carries to them.
\<close>

section \<open>The history of reports\<close>

text \<open>The completions a move takes from the backend.\<close>

definition reported_by :: "'b copy_backend \<Rightarrow> responder_move \<Rightarrow> 'b loop_worker \<Rightarrow> backend_completion list" where
  "reported_by cb m lw =
     (case m of Completions_call env \<Rightarrow> fst (cb_try_pop_completion_batch cb kBackendBatchCapacity (lw_backend lw)) | _ \<Rightarrow> [])"

definition reports_about :: "u64 \<Rightarrow> backend_completion list \<Rightarrow> backend_completion list" where
  "reports_about i cs = filter (\<lambda>c. bc_parent_request_id c = i) cs"

text \<open>The reports about each parent after the moves of a run: an identifier that is opened starts anew.\<close>

fun backend_reports ::
  "'b copy_backend \<Rightarrow> responder_move list \<Rightarrow> 'b loop_worker \<Rightarrow> (u64 \<Rightarrow> backend_completion list) \<Rightarrow> u64 \<Rightarrow> backend_completion list" where
  "backend_reports cb [] lw reports = reports"
| "backend_reports cb (m # ms) lw reports =
     backend_reports cb ms (responder_exec cb m lw)
       (\<lambda>i. if i \<in> set (rl_opened (responder_adds cb m lw)) then [] else reports i @ reports_about i (reported_by cb m lw))"

section \<open>Parents agree with the reports\<close>

text \<open>Every result a parent has recorded was reported; and as long as it has no error of its own, it has recorded every
  report, of which there is at most one for a payload.\<close>

definition reports_agree :: "responder_inflight \<Rightarrow> backend_completion list \<Rightarrow> bool" where
  "reports_agree p rs \<longleftrightarrow>
     (\<forall>j < unat (rf_payload_count p). rf_terminal p ! j \<noteq> 0 \<longrightarrow>
        (\<exists>c \<in> set rs. unat (bc_payload_index c) = j \<and> bc_result c = rf_results p ! j)) \<and>
     (rf_parent_error p = Success \<longrightarrow> distinct (map bc_payload_index rs) \<and>
        (\<forall>c \<in> set rs. bc_payload_index c < rf_payload_count p \<and> rf_terminal p ! unat (bc_payload_index c) \<noteq> 0 \<and>
           rf_results p ! unat (bc_payload_index c) = bc_result c))"

text \<open>The part of a parent that only the reports change.\<close>

definition parent_kept :: "responder_inflight \<Rightarrow> responder_inflight \<Rightarrow> bool" where
  "parent_kept p p' \<longleftrightarrow>
     rf_payload_count p' = rf_payload_count p \<and> rf_terminal p' = rf_terminal p \<and> rf_results p' = rf_results p \<and>
     (rf_parent_error p' = Success \<longrightarrow> rf_parent_error p = Success)"

lemma parent_kept_refl [simp]: "parent_kept p p"
  by (simp add: parent_kept_def)

lemma reports_agree_kept: "parent_kept p p' \<Longrightarrow> reports_agree p rs \<Longrightarrow> reports_agree p' rs"
  by (simp add: parent_kept_def reports_agree_def)

lemma reports_agree_new: "rf_terminal p = replicate (unat (rf_payload_count p)) 0 \<Longrightarrow> reports_agree p []"
  by (simp add: reports_agree_def)

lemma advance_parent_kept: "parent_kept p (advance_parent d p)" "parent_kept p (advance_parent d (p\<lparr>rf_receive_consumed := c\<rparr>))"
  by (simp_all add: parent_kept_def advance_parent_def Let_def)

lemma accept_payload_parents:
  assumes "accept_payload loaded d p lw = (r, lw')" "lw_responder_inflight lw (rqd_parent_request_id d) = Some p"
    "lw_responder_inflight lw' i = Some p'"
  shows "lw_responder_order lw' = lw_responder_order lw \<and> (\<exists>p0. lw_responder_inflight lw i = Some p0 \<and> parent_kept p0 p')"
proof -
  have e: "parent_kept p (p\<lparr>rf_parent_error := Remote_invalid_request\<rparr>)" "parent_kept p (p\<lparr>rf_receive_consumed := True\<rparr>)"
    by (simp_all add: parent_kept_def)
  show ?thesis
    using assms e advance_parent_kept [of p d]
    by (cases "i = rqd_parent_request_id d") (auto simp: accept_payload_def Let_def split: if_split_asm prod.split_asm)
qed

text \<open>A request leaves every parent as it is, up to where it stands, or opens one of which nothing was reported.\<close>

definition parents_kept :: "'b loop_worker \<Rightarrow> 'b loop_worker \<Rightarrow> bool" where
  "parents_kept lw lw' \<longleftrightarrow>
     (\<forall>i p'. lw_responder_inflight lw' i = Some p' \<longrightarrow>
        (\<exists>p. lw_responder_inflight lw i = Some p \<and> parent_kept p p') \<or>
        i \<in> set (drop (length (lw_responder_order lw)) (lw_responder_order lw')) \<and>
        rf_terminal p' = replicate (unat (rf_payload_count p')) 0)"

lemma parents_kept_same: "lw_responder_inflight lw' = lw_responder_inflight lw \<Longrightarrow> parents_kept lw lw'"
  by (auto simp: parents_kept_def)

lemma open_parent_kept:
  assumes "open_parent service view loaded d env lw = (r, lw')"
  shows "parents_kept lw lw'"
proof -
  let ?i = "rqd_parent_request_id d"
  have rej: "parents_kept lw lw'" if "reject_request loaded d result lw = (r, lw')" for result
    using that by (intro parents_kept_same) (auto simp: reject_request_def split: prod.split_asm bool.split_asm)
  have ins: "parents_kept lw lw'"
    if acc: "accept_payload loaded d (new_parent d target receive)
        (lw\<lparr>lw_receive_queue := rq, lw_responder_inflight := (lw_responder_inflight lw)(?i \<mapsto> new_parent d target receive),
           lw_responder_order := lw_responder_order lw @ [?i]\<rparr>) = (r, lw')" for target receive rq
    unfolding parents_kept_def
  proof (intro allI impI)
    fix i p' assume "lw_responder_inflight lw' i = Some p'"
    from accept_payload_parents [OF acc _ this] show "(\<exists>p. lw_responder_inflight lw i = Some p \<and> parent_kept p p') \<or>
        i \<in> set (drop (length (lw_responder_order lw)) (lw_responder_order lw')) \<and> rf_terminal p' = replicate (unat (rf_payload_count p')) 0"
      by (auto simp: parent_kept_def new_parent_def split: if_split_asm)
  qed
  have none: ?thesis if "accept_payload loaded d (new_parent d target receive)
        (lw\<lparr>lw_responder_inflight := (lw_responder_inflight lw)(?i \<mapsto> new_parent d target receive),
           lw_responder_order := lw_responder_order lw @ [?i]\<rparr>) = (r, lw')" for target receive
    using ins [of target receive "lw_receive_queue lw"] that by simp
  show ?thesis
    using assms rej ins none
    by (auto simp: open_parent_def Let_def parents_kept_same split: if_split_asm sum.split_asm prod.split_asm)
qed

lemma handle_request_kept:
  assumes "handle_request service view loaded d env lw = (r, lw')"
  shows "parents_kept lw lw'"
proof -
  have "parents_kept lw lw'" if "reject_request loaded d result lw = (r, lw')" for result
    using that by (intro parents_kept_same) (auto simp: reject_request_def split: prod.split_asm bool.split_asm)
  moreover have "parents_kept lw lw'"
    if "lw_responder_inflight lw (rqd_parent_request_id d) = Some p" "accept_payload loaded d p lw = (r, lw')" for p
    using accept_payload_parents [OF that(2,1)] by (auto simp: parents_kept_def)
  ultimately show ?thesis
    using assms open_parent_kept by (auto simp: handle_request_def split: if_split_asm option.split_asm)
qed

lemma try_request_kept: "parents_kept lw (snd (try_request service view env lw))"
proof (cases "lw_pending_request lw")
  case (Some d)
  have "parents_kept lw (snd (handle_request service view False d env lw))" by (rule handle_request_kept [OF prod.collapse [symmetric]])
  then show ?thesis using Some by (simp add: try_request_def)
next
  case None
  obtain v t where pop: "try_pop_request (lw_transport lw) = (v, t)" by force
  show ?thesis
  proof (cases v)
    case (Some d)
    let ?lw = "lw\<lparr>lw_transport := t, lw_pending_request := Some d\<rparr>"
    have "parents_kept ?lw (snd (handle_request service view True d env ?lw))" by (rule handle_request_kept [OF prod.collapse [symmetric]])
    then show ?thesis using None pop Some by (simp add: try_request_def parents_kept_def)
  qed (use None pop in \<open>simp add: try_request_def parents_kept_same\<close>)
qed

section \<open>Completions are recorded as reported\<close>

lemma record_completion_agrees:
  assumes ok: "parent_ok S sid pd p" and agree: "reports_agree p rs"
    and p': "lw_responder_inflight (record_completion c lw) (bc_parent_request_id c) = Some p'"
    and p: "lw_responder_inflight lw (bc_parent_request_id c) = Some p"
  shows "reports_agree p' (rs @ [c])"
proof (cases "bc_payload_index c \<ge> rf_payload_count p \<or> rf_terminal p ! unat (bc_payload_index c) \<noteq> 0")
  case True
  then have "p' = p\<lparr>rf_parent_error := Backend_error\<rparr>" using p p' by (simp add: record_completion_def Let_def)
  then show ?thesis using agree by (auto simp: reports_agree_def)
next
  case False
  let ?i = "unat (bc_payload_index c)"
  have i: "?i < unat (rf_payload_count p)" "rf_terminal p ! ?i = 0" using False by (simp_all add: word_le_nat_alt not_le)
  have len: "length (rf_terminal p) = unat (rf_payload_count p)" "length (rf_results p) = unat (rf_payload_count p)"
    using ok by (simp_all add: parent_ok_def)
  have p': "p' = p\<lparr>rf_terminal := (rf_terminal p)[?i := 1], rf_results := (rf_results p)[?i := bc_result c],
      rf_terminal_count := rf_terminal_count p + 1\<rparr>"
    using p p' False by (simp add: record_completion_def Let_def)
  have "bc_payload_index c \<notin> bc_payload_index ` set rs" if "rf_parent_error p = Success"
    using agree that i(2) by (auto simp: reports_agree_def)
  then show ?thesis
    using agree i len unfolding p' reports_agree_def
    by (auto simp: nth_list_update word_less_nat_alt word_unat_eq_iff)
qed

definition all_agree :: "'b loop_worker \<Rightarrow> (u64 \<Rightarrow> backend_completion list) \<Rightarrow> bool" where
  "all_agree lw reports \<longleftrightarrow> (\<forall>i p. lw_responder_inflight lw i = Some p \<longrightarrow> reports_agree p (reports i))"

lemma record_completions_agree:
  assumes "responder_inv S sid pd lw" "all_agree lw reports"
  shows "all_agree (fold record_completion cs lw) (\<lambda>i. reports i @ reports_about i cs)"
  using assms
proof (induction cs arbitrary: lw reports)
  case (Cons c cs)
  let ?lw = "record_completion c lw" and ?reports = "\<lambda>i. reports i @ reports_about i [c]"
  have "reports_agree p' (?reports i)" if p': "lw_responder_inflight ?lw i = Some p'" for i p'
  proof (cases "i = bc_parent_request_id c")
    case True
    then obtain p where p: "lw_responder_inflight lw (bc_parent_request_id c) = Some p"
      using p' by (auto simp: record_completion_def split: option.split_asm)
    from record_completion_agrees [OF parents_okD(1) [OF responder_invD(1) [OF Cons.prems(1)] p] _ _ p] Cons.prems(2) p p' True
    show ?thesis by (simp add: all_agree_def reports_about_def)
  next
    case False
    then have "lw_responder_inflight lw i = Some p'" using p' by (auto simp: record_completion_def Let_def split: option.split_asm)
    then show ?thesis using Cons.prems(2) False by (simp add: all_agree_def reports_about_def)
  qed
  then have "all_agree ?lw ?reports" by (simp add: all_agree_def)
  moreover have "?reports i @ reports_about i cs = reports i @ reports_about i (c # cs)" for i by (simp add: reports_about_def)
  ultimately show ?case using Cons.IH [of ?lw ?reports] record_completion_inv [OF Cons.prems(1)] by simp
qed (simp add: reports_about_def)

lemma answer_parents:
  "lw_responder_inflight (snd (try_parent_response view env lw)) i = Some p \<Longrightarrow> lw_responder_inflight lw i = Some p"
  by (auto simp: try_parent_response_def answer_parent_def Let_def
      split: list.split_asm option.split_asm if_split_asm prod.split_asm bool.split_asm)

lemma responder_move_agrees:
  assumes inv: "responder_inv S sid pd lw" and agree: "all_agree lw reports" and ok: "move_ok sid pd (lw_qp_num lw) m" "request_services [m] \<subseteq> S"
  shows "all_agree (responder_exec cb m lw)
    (\<lambda>i. if i \<in> set (rl_opened (responder_adds cb m lw)) then [] else reports i @ reports_about i (reported_by cb m lw))"
proof (cases m)
  case (Request_call service view env)
  let ?lw = "snd (try_request service view env lw)"
  let ?opened = "drop (length (lw_responder_order lw)) (lw_responder_order ?lw)"
  note M = responder_move_spec [where cb = cb, OF inv ok]
  have adds: "rl_opened (responder_adds cb m lw) = ?opened" "rl_answered (responder_adds cb m lw) = []" "reported_by cb m lw = []"
    by (simp_all add: Request_call responder_adds_def reported_by_def Let_def)
  have "lw_responder_order ?lw = lw_responder_order lw @ ?opened" using M(3) adds by (simp add: Request_call)
  then have new: "lw_responder_inflight lw i = None" if "i \<in> set ?opened" for i
    using responder_invD(2) [OF M(1)] responder_invD(3) [OF inv] that unfolding Request_call responder_exec.simps
    by (metis domIff disjoint_iff distinct_append)
  have "reports_agree p' (if i \<in> set ?opened then [] else reports i @ reports_about i [])" if "lw_responder_inflight ?lw i = Some p'" for i p'
  proof -
    consider p where "lw_responder_inflight lw i = Some p" "parent_kept p p'" | "i \<in> set ?opened" "rf_terminal p' = replicate (unat (rf_payload_count p')) 0"
      using try_request_kept [of lw service view env] \<open>lw_responder_inflight ?lw i = Some p'\<close> unfolding parents_kept_def by blast
    then show ?thesis
    proof cases
      case 1
      then have "i \<notin> set ?opened" using new by force
      moreover have "reports_agree p (reports i)" using agree 1(1) by (simp add: all_agree_def)
      ultimately show ?thesis using reports_agree_kept [OF 1(2)] by (simp add: reports_about_def)
    next
      case 2
      then show ?thesis using reports_agree_new by simp
    qed
  qed
  then show ?thesis unfolding all_agree_def adds unfolding Request_call responder_exec.simps by blast
next
  case (Answer_call view env)
  then show ?thesis
    using agree answer_parents by (fastforce simp: all_agree_def responder_adds_def reported_by_def reports_about_def)
next
  case (Completions_call env)
  obtain cs b where pop: "cb_try_pop_completion_batch cb kBackendBatchCapacity (lw_backend lw) = (cs, b)" by force
  have "all_agree (fold record_completion cs (lw\<lparr>lw_backend := b\<rparr>)) (\<lambda>i. reports i @ reports_about i cs)"
    by (rule record_completions_agree [of S sid pd]) (use inv agree in \<open>simp_all add: all_agree_def\<close>)
  then show ?thesis
    using pop by (cases "cs = []") (simp_all add: Completions_call responder_adds_def reported_by_def try_backend_completions_def)
next
  case (Flush_call env)
  then show ?thesis
    using agree by (auto simp: all_agree_def responder_adds_def reported_by_def reports_about_def try_flush_backend_requests_def Let_def split: prod.split)
next
  case (Requester_moved t)
  then show ?thesis using agree by (simp add: all_agree_def responder_adds_def reported_by_def reports_about_def)
qed

lemma responder_run_agrees:
  assumes "responder_inv S sid pd lw" "list_all (move_ok sid pd (lw_qp_num lw)) moves" "request_services moves \<subseteq> S" "all_agree lw reports"
    and "responder_run cb moves lw = (l, lw')"
  shows "all_agree lw' (backend_reports cb moves lw reports)"
  using assms
proof (induction moves arbitrary: lw l reports)
  case (Cons m ms)
  have s: "request_services [m] \<subseteq> S" "request_services ms \<subseteq> S" using Cons.prems(3) by (auto simp: request_services_def)
  have m: "move_ok sid pd (lw_qp_num lw) m" "list_all (move_ok sid pd (lw_qp_num lw)) ms" using Cons.prems(2) by simp_all
  note M = responder_move_spec(1,2) [where cb = cb, OF Cons.prems(1) m(1) s(1)]
  obtain l1 where r: "responder_run cb ms (responder_exec cb m lw) = (l1, lw')" using Cons.prems(5) by (auto simp: Let_def split: prod.splits)
  show ?case
    using Cons.IH [OF M(1) _ s(2) responder_move_agrees [OF Cons.prems(1,4) m(1) s(1)] r] m(2) M(2) by simp
qed simp

section \<open>What an answer says of the reports\<close>

text \<open>Success means exactly one report for every payload, all of success; and a failure that is not the parent's own is
  one that was reported.\<close>

lemma answer_reported:
  assumes ok: "parent_ok S sid pd p" and fin: "parent_done p" and agree: "reports_agree p rs"
  shows "parent_result p = Success \<Longrightarrow> distinct (map bc_payload_index rs) \<and>
      (\<lambda>c. unat (bc_payload_index c)) ` set rs = {..<unat (rf_payload_count p)} \<and> (\<forall>c \<in> set rs. bc_result c = Success)"
    and "parent_result p \<noteq> Success \<Longrightarrow> rf_parent_error p = Success \<Longrightarrow> \<exists>c \<in> set rs. bc_result c = parent_result p"
proof -
  have len: "length (rf_results p) = unat (rf_payload_count p)" "length (rf_terminal p) = unat (rf_payload_count p)"
    using ok by (simp_all add: parent_ok_def)
  have all: "rf_terminal p ! j \<noteq> 0" if "j < unat (rf_payload_count p)" for j
  proof -
    have "count_terminal (rf_terminal p) = length (rf_terminal p)" using ok fin by (auto simp: parent_ok_def parent_done_def)
    then show ?thesis using that len(2) count_terminal_all [of "rf_terminal p"] by metis
  qed
  show "distinct (map bc_payload_index rs) \<and>
      (\<lambda>c. unat (bc_payload_index c)) ` set rs = {..<unat (rf_payload_count p)} \<and> (\<forall>c \<in> set rs. bc_result c = Success)"
    if s: "parent_result p = Success"
  proof -
    note D = success_means_done(2,3) [OF ok fin s]
    have in_set: "j \<in> (\<lambda>c. unat (bc_payload_index c)) ` set rs" if j: "j < unat (rf_payload_count p)" for j
      using agree all [OF j] j unfolding reports_agree_def by blast
    have each: "unat (bc_payload_index c) < unat (rf_payload_count p)" "bc_result c = Success" if "c \<in> set rs" for c
      using agree D that unfolding reports_agree_def word_less_nat_alt by metis+
    show ?thesis using agree D(1) in_set each by (auto simp: reports_agree_def)
  qed
  show "\<exists>c \<in> set rs. bc_result c = parent_result p" if n: "parent_result p \<noteq> Success" "rf_parent_error p = Success"
  proof -
    obtain j where j: "j < unat (rf_payload_count p)" "rf_results p ! j = parent_result p"
      using n len by (auto simp: parent_result_def find_Some_iff split: option.splits)
    then show ?thesis using agree all [OF j(1)] unfolding reports_agree_def by metis
  qed
qed

end
