(* ===== verification/Worker_Transfer.thy ===== *)
theory Worker_Transfer
  imports Worker_Loop
begin

text \<open>
  The responder takes a whole send: over any run of its calls in which the datagrams taken off the transport are
  those of one send, however often it finds the batch of copies full and whatever it submits, records and
  answers in between, it queues the copies of the send, each once and in order.
\<close>

section \<open>Datagrams taken off the transport\<close>

fun taken_by :: "responder_move \<Rightarrow> 'b loop_worker \<Rightarrow> request_datagram list" where
  "taken_by (Request_call service view env) lw = (if lw_pending_request lw = None then take 1 (lt_requests (lw_transport lw)) else [])"
| "taken_by _ lw = []"

fun requests_taken :: "'b copy_backend \<Rightarrow> responder_move list \<Rightarrow> 'b loop_worker \<Rightarrow> request_datagram list" where
  "requests_taken cb [] lw = []"
| "requests_taken cb (m # ms) lw = taken_by m lw @ requests_taken cb ms (responder_exec cb m lw)"

text \<open>The datagram a call of \<open>try_request\<close> handles, and whether it finds what it needs to accept it: room in the batch and,
  if a parent with immediate data is to be opened, a receive request.\<close>

definition datagram_at_hand :: "'b loop_worker \<Rightarrow> request_datagram option" where
  "datagram_at_hand lw =
     (case lw_pending_request lw of Some d \<Rightarrow> Some d | None \<Rightarrow> (case lt_requests (lw_transport lw) of [] \<Rightarrow> None | d # ds \<Rightarrow> Some d))"

definition finds_room :: "worker_env \<Rightarrow> request_datagram \<Rightarrow> 'b loop_worker \<Rightarrow> bool" where
  "finds_room env d lw \<longleftrightarrow>
     length (lw_pending_backend_requests lw) < kBackendBatchCapacity \<and>
     (rqd_opcode d = Rdma_write_with_immediate \<and> lw_responder_inflight lw (rqd_parent_request_id d) = None \<longrightarrow>
        fst (peek_entry (we_receive_queue env) (lw_receive_queue lw)) = OK)"

fun call_finds_room :: "responder_move \<Rightarrow> 'b loop_worker \<Rightarrow> bool" where
  "call_finds_room (Request_call service view env) lw = (case datagram_at_hand lw of None \<Rightarrow> False | Some d \<Rightarrow> finds_room env d lw)"
| "call_finds_room _ lw = False"

fun room_calls :: "'b copy_backend \<Rightarrow> responder_move list \<Rightarrow> 'b loop_worker \<Rightarrow> nat" where
  "room_calls cb [] lw = 0"
| "room_calls cb (m # ms) lw = (if call_finds_room m lw then 1 else 0) + room_calls cb ms (responder_exec cb m lw)"

lemma requests_taken_call: "requests_taken cb moves lw \<noteq> [] \<Longrightarrow> \<exists>service view env. Request_call service view env \<in> set moves"
proof (induction moves arbitrary: lw)
  case (Cons m ms)
  then show ?case by (cases m) auto
qed simp

section \<open>Where a parent stands\<close>

text \<open>The parent \<open>p\<close> is the same request as \<open>q\<close> and stands at the same payload; which receive request it has and
  what was reported about its copies do not matter, but for the error that a wrong report leaves.\<close>

definition stands :: "responder_inflight \<Rightarrow> responder_inflight \<Rightarrow> bool" where
  "stands p q \<longleftrightarrow>
     rf_source_qp_num p = rf_source_qp_num q \<and> rf_target_qp_num p = rf_target_qp_num q \<and> rf_opcode p = rf_opcode q \<and>
     rf_remote_address p = rf_remote_address q \<and> rf_rkey p = rf_rkey q \<and> rf_immediate_data p = rf_immediate_data q \<and>
     rf_parent_total_length p = rf_parent_total_length q \<and> rf_target_daemon_address p = rf_target_daemon_address q \<and>
     rf_next_payload_offset p = rf_next_payload_offset q \<and> rf_next_payload_index p = rf_next_payload_index q \<and>
     rf_payload_count p = rf_payload_count q \<and> (rf_parent_error p = rf_parent_error q \<or> rf_parent_error p = Backend_error)"

lemma stands_payload:
  assumes "stands p q"
  shows "valid_payload p d = valid_payload q d" "backend_request_of p d = backend_request_of q d"
    "stands (advance_parent d p) (advance_parent d q)" "stands (advance_parent d (p\<lparr>rf_receive_consumed := c\<rparr>)) (advance_parent d q)"
  using assms by (auto simp: stands_def valid_payload_def backend_request_of_def advance_parent_def Let_def)

lemma new_parent_stands: "stands (new_parent d target receive) (new_parent d target None)"
  by (simp add: stands_def new_parent_def)

lemma record_completion_stands:
  "case lw_responder_inflight lw i of None \<Rightarrow> lw_responder_inflight (record_completion c lw) i = None
   | Some p \<Rightarrow> \<exists>p'. lw_responder_inflight (record_completion c lw) i = Some p' \<and> (\<forall>q. stands p q \<longrightarrow> stands p' q)"
  by (auto simp: record_completion_def Let_def stands_def split: option.split)

lemma copies_step: "k < length ds \<Longrightarrow> parent_copies q ds ! k = backend_request_of (parent_after q ds k) (ds ! k)"
  by (simp add: parent_copies_def)

lemma parent_after_step: "k < length ds \<Longrightarrow> parent_after q ds (Suc k) = advance_parent (ds ! k) (parent_after q ds k)"
  by (simp add: parent_after_def take_Suc_conv_app_nth)

lemma parent_after_count: "rf_payload_count (parent_after q ds k) = rf_payload_count q"
proof -
  have "rf_payload_count (fold advance_parent xs q) = rf_payload_count q" for xs
    by (induction xs arbitrary: q) (simp_all add: advance_parent_fields)
  then show ?thesis by (simp add: parent_after_def)
qed

text \<open>The datagrams of a send carry what the responder checks.\<close>

lemma send_datagram_fields:
  assumes at: "send_at mtu p0 0 p0" and nz: "pn_total_length p0 \<noteq> 0" and k: "k < length (send_datagrams (unat mtu) p0)"
  defines "d \<equiv> send_datagrams (unat mtu) p0 ! k"
  shows "rqd_parent_request_id d = pn_parent_request_id p0" "rqd_target_qp_num d = pn_target_qp_num p0" "rqd_rkey d = pn_rkey p0"
    "rqd_remote_address d = pn_remote_address p0" "rqd_opcode d = pn_opcode p0" "rqd_parent_total_length d = pn_total_length p0"
    "rqd_parent_total_length d \<le> 0xffffffff" "rqd_payload_count d \<noteq> 0" "rqd_payload_count d = pn_payload_count p0"
proof -
  note S = send_plan [OF at nz]
  have k': "k < length (plan (unat mtu) (pn_source_segments p0))" using k S(1) by simp
  have d: "d = datagram_of p0 k (part_sum k (plan (unat mtu) (pn_source_segments p0))) (plan (unat mtu) (pn_source_segments p0) ! k)"
    unfolding d_def by (rule send_datagram_nth [OF at nz k'])
  show "rqd_parent_request_id d = pn_parent_request_id p0" "rqd_target_qp_num d = pn_target_qp_num p0" "rqd_rkey d = pn_rkey p0"
    "rqd_remote_address d = pn_remote_address p0" "rqd_opcode d = pn_opcode p0" "rqd_parent_total_length d = pn_total_length p0"
    "rqd_payload_count d = pn_payload_count p0"
    by (simp_all add: d datagram_of_def)
  show "rqd_parent_total_length d \<le> 0xffffffff" using S(4) by (simp add: d datagram_of_def word_le_nat_alt)
  show "rqd_payload_count d \<noteq> 0" using S(2) k' by (auto simp: d datagram_of_def)
qed

section \<open>One call\<close>

text \<open>A valid payload of a parent in flight is queued if there is room.\<close>

lemma accept_payload_room:
  assumes inv: "responder_inv S sid pd lw" and d: "lw_pending_request lw = Some d"
    and p: "lw_responder_inflight lw (rqd_parent_request_id d) = Some p" and v: "valid_payload p d"
  shows "if length (lw_pending_backend_requests lw) < kBackendBatchCapacity
     then \<exists>rq c. snd (accept_payload loaded d p lw) =
       lw\<lparr>lw_pending_backend_requests := lw_pending_backend_requests lw @ [backend_request_of p d], lw_receive_queue := rq,
         lw_responder_inflight := (lw_responder_inflight lw)(rqd_parent_request_id d \<mapsto> advance_parent d (p\<lparr>rf_receive_consumed := c\<rparr>)),
         lw_pending_request := None\<rparr>
     else snd (accept_payload loaded d p lw) = lw"
proof -
  note dd = responder_invD [OF inv]
  note po = parents_okD [OF dd(1) p]
  show ?thesis
  proof (cases "holds_receive p")
    case True
    then have "receive_waiting lw" using p by (auto simp: receive_waiting_def)
    then have "source_at 1 (lw_receive_queue lw)" using dd(5) by simp
    moreover obtain st rq where rel: "release_entries 1 (lw_receive_queue lw) = (st, rq)" by force
    ultimately have "st = OK" using release_entries_spec [of "lw_receive_queue lw" 1 st rq] by auto
    then show ?thesis
      using v po(2) True dd(6) rel
      by (auto simp: accept_payload_def Let_def holds_receive_def intro!: exI [of _ rq] exI [of _ True])
  next
    case False
    then have h: "\<not> (rf_has_receive p \<and> \<not> rf_receive_consumed p)" by (simp add: holds_receive_def)
    have acc: "snd (accept_payload loaded d p lw) =
        (if length (lw_pending_backend_requests lw) = kBackendBatchCapacity then lw
         else lw\<lparr>lw_pending_backend_requests := lw_pending_backend_requests lw @ [backend_request_of p d],
           lw_responder_inflight := (lw_responder_inflight lw)(rqd_parent_request_id d \<mapsto> advance_parent d p), lw_pending_request := None\<rparr>)"
      using v po(2) by (simp add: accept_payload_def Let_def if_not_P [OF h])
    show ?thesis
      using dd(6) unfolding acc by (auto intro!: exI [of _ "lw_receive_queue lw"] exI [of _ "rf_receive_consumed p"])
  qed
qed

text \<open>The parent of the send after \<open>k\<close> of its datagrams were accepted: not yet opened before the first one, possibly
  answered after the last one.\<close>

definition transfer_at :: "request_datagram list \<Rightarrow> u64 \<Rightarrow> nat \<Rightarrow> 'b loop_worker \<Rightarrow> bool" where
  "transfer_at ds target k lw \<longleftrightarrow>
     (case lw_responder_inflight lw (rqd_parent_request_id (hd ds)) of
        None \<Rightarrow> k = 0 \<or> k = length ds
      | Some p \<Rightarrow> stands p (parent_after (new_parent (hd ds) target None) ds k)) \<and>
     k \<le> length ds \<and> (lw_pending_request lw = None \<or> k < length ds \<and> lw_pending_request lw = Some (ds ! k))"

definition waiting :: "'b loop_worker \<Rightarrow> nat" where
  "waiting lw = (if lw_pending_request lw = None then 0 else 1)"

lemma accept_transfer:
  assumes inv: "responder_inv S sid pd lw" and at: "transfer_at ds target k lw" and k: "k < length ds" "lw_pending_request lw = Some (ds ! k)"
    and id: "rqd_parent_request_id (ds ! k) = rqd_parent_request_id (hd ds)"
    and p: "lw_responder_inflight lw (rqd_parent_request_id (hd ds)) = Some p"
    and v: "valid_payload (parent_after (new_parent (hd ds) target None) ds k) (ds ! k)"
  shows "if length (lw_pending_backend_requests lw) < kBackendBatchCapacity
     then transfer_at ds target (Suc k) (snd (accept_payload loaded (ds ! k) p lw)) \<and> waiting (snd (accept_payload loaded (ds ! k) p lw)) = 0 \<and>
       lw_pending_backend_requests (snd (accept_payload loaded (ds ! k) p lw)) =
         lw_pending_backend_requests lw @ [parent_copies (new_parent (hd ds) target None) ds ! k]
     else snd (accept_payload loaded (ds ! k) p lw) = lw"
proof -
  have s: "stands p (parent_after (new_parent (hd ds) target None) ds k)" using at p by (simp add: transfer_at_def)
  note P = stands_payload [OF s]
  have "valid_payload p (ds ! k)" using v P(1) by simp
  from accept_payload_room [OF inv k(2) _ this, of loaded] p id show ?thesis
    using k(1) P(2-4) by (auto simp: transfer_at_def waiting_def copies_step parent_after_step split: if_split_asm)
qed

lemma handle_transfer:
  fixes lw :: "'b loop_worker" and loaded :: bool
  assumes inv: "responder_inv S sid pd lw" and at: "transfer_at ds target k lw" and k: "k < length ds" "lw_pending_request lw = Some (ds ! k)"
    and sent: "send_at mtu p0 0 p0" "pn_total_length p0 \<noteq> 0" "ds = send_datagrams (unat mtu) p0" "pn_target_qp_num p0 = lw_qp_num lw"
    and view: "view_ok S sid pd lw service view" and env: "worker_env_ok env"
    and r: "resolve_rkey sid pd (pn_rkey p0) (pn_remote_address p0) (pn_total_length p0) service = Inr target"
  defines "lw' \<equiv> snd (handle_request service view loaded (ds ! k) env lw)"
  shows "if finds_room env (ds ! k) lw
     then transfer_at ds target (Suc k) lw' \<and> waiting lw' = 0 \<and>
       lw_pending_backend_requests lw' = lw_pending_backend_requests lw @ [parent_copies (new_parent (hd ds) target None) ds ! k]
     else transfer_at ds target k lw' \<and> waiting lw' = 1 \<and> lw_pending_backend_requests lw' = lw_pending_backend_requests lw"
proof -
  note F = send_datagram_fields [OF sent(1,2), folded sent(3)]
  note V = send_accepted(1) [OF sent(1,2), folded sent(3)]
    send_accepted(2) [where target = target and receive = None, OF sent(1,2), folded sent(3), OF k(1)]
  have "ds \<noteq> []" using k(1) by auto
  then have k0: "0 < length ds" and hd: "hd ds = ds ! 0" by (simp_all add: hd_conv_nth)
  have id: "rqd_parent_request_id (ds ! k) = rqd_parent_request_id (hd ds)" using F(1) k(1) k0 by (simp add: hd)
  have w: "waiting lw = 1" using k(2) by (simp add: waiting_def)
  have vw: "wv_session_id view = sid" "wv_pd_identity view = pd" "wv_qp_num view = lw_qp_num lw" using view by (simp_all add: view_ok_def)
  have step: "handle_request service view loaded (ds ! k) env lw =
      (case lw_responder_inflight lw (rqd_parent_request_id (ds ! k)) of
        None \<Rightarrow> open_parent service view loaded (ds ! k) env lw | Some parent \<Rightarrow> accept_payload loaded (ds ! k) parent lw)"
    using F(2,7) [OF k(1)] sent(4) vw(3) by (simp add: handle_request_def leD)
  show ?thesis
  proof (cases "lw_responder_inflight lw (rqd_parent_request_id (hd ds))")
    case (Some p)
    then have lw': "lw' = snd (accept_payload loaded (ds ! k) p lw)" using step id by (simp add: lw'_def)
    have "finds_room env (ds ! k) lw = (length (lw_pending_backend_requests lw) < kBackendBatchCapacity)"
      using Some id by (simp add: finds_room_def)
    then show ?thesis using accept_transfer [OF inv at k id Some V(2), of loaded] at w unfolding lw' by (auto split: if_split_asm)
  next
    case None
    then have k': "k = 0" using at k(1) by (auto simp: transfer_at_def)
    let ?d = "hd ds"
    have new: "lw_responder_inflight lw (rqd_parent_request_id ?d) = None" "lw_pending_request lw = Some ?d" using None k k' hd by simp_all
    have t: "rqd_parent_total_length ?d \<le> 0xffffffff" "rqd_target_qp_num ?d = lw_qp_num lw" using F(2,7) [OF k0] sent(4) by (simp_all add: hd)
    have res: "resolve_rkey sid pd (rqd_rkey ?d) (rqd_remote_address ?d) (rqd_parent_total_length ?d) service = Inr target"
      using F(3,4,6) [OF k0] r by (simp add: hd)
    have rq0: "source_at 0 (lw_receive_queue lw)"
      using responder_invD(1,5) [OF inv] no_others_waiting [of S sid pd "lw_qp_num lw" ?d "lw_responder_inflight lw"] new
      by (simp add: receive_waiting_cases [of _ "rqd_parent_request_id ?d"])
    have lw': "lw' = snd (open_parent service view loaded ?d env lw)" using step None k' hd by (simp add: lw'_def)
    have ins: ?thesis if rq: "source_at (if receive = None then 0 else 1) rq"
        and room: "finds_room env ?d lw = (length (lw_pending_backend_requests lw) < kBackendBatchCapacity)"
        and o: "open_parent service view loaded ?d env lw = accept_payload loaded ?d (new_parent ?d target receive)
          (lw\<lparr>lw_receive_queue := rq, lw_responder_inflight := (lw_responder_inflight lw)(rqd_parent_request_id ?d \<mapsto> new_parent ?d target receive),
            lw_responder_order := lw_responder_order lw @ [rqd_parent_request_id ?d]\<rparr>)" (is "_ = accept_payload _ _ _ ?lw") for receive rq
    proof -
      have at1: "transfer_at ds target k ?lw" "waiting ?lw = 1"
        using k k' hd new_parent_stands [of ?d target receive] by (simp_all add: transfer_at_def parent_after_def waiting_def)
      have i1: "responder_inv S sid pd ?lw" by (rule insert_parent_spec [OF inv new(2,1) view V(1) t res rq])
      have "lw_responder_inflight ?lw (rqd_parent_request_id ?d) = Some (new_parent ?d target receive)" "lw_pending_request ?lw = Some (ds ! k)"
        "lw_pending_backend_requests ?lw = lw_pending_backend_requests lw" using k by simp_all
      note A = accept_transfer [OF i1 at1(1) k(1) this(2) id this(1) V(2), of loaded, unfolded this(3)]
      then show ?thesis using room at1 o unfolding lw' by (simp add: k' flip: hd split: if_split_asm)
    qed
    show ?thesis
    proof (cases "rqd_opcode ?d = Rdma_write_with_immediate")
      case False
      then show ?thesis using V(1) res vw rq0 ins [of None "lw_receive_queue lw"] by (simp add: open_parent_def Let_def finds_room_def)
    next
      case True
      obtain st slot rq where pk: "peek_entry (we_receive_queue env) (lw_receive_queue lw) = (st, slot, rq)" by (metis prod_cases3)
      show ?thesis
      proof (cases "st = OK")
        case ok: True
        have "source_at 1 rq" using peek_entry_spec [OF _ rq0 pk] env ok by (auto simp: worker_env_ok_def)
        then show ?thesis
          using V(1) res vw True pk ok ins [of "Some (rs_header (the slot))" rq] by (simp add: open_parent_def Let_def finds_room_def)
      next
        case st: False
        then have "lw' = lw\<lparr>lw_receive_queue := rq\<rparr>" using V(1) res vw True pk by (simp add: lw' open_parent_def Let_def)
        moreover have "\<not> finds_room env (ds ! k) lw" using st True None pk k' by (simp add: finds_room_def flip: hd)
        ultimately show ?thesis using at w by (simp add: transfer_at_def waiting_def)
      qed
    qed
  qed
qed

text \<open>What a move does to the transfer: it accepts the datagram at hand if it is a request call that finds room, and
  otherwise leaves the transfer where it is.\<close>

definition transfer_move ::
  "request_datagram list \<Rightarrow> u64 \<Rightarrow> nat \<Rightarrow> bool \<Rightarrow> request_datagram list \<Rightarrow> backend_request list \<Rightarrow> 'b loop_worker \<Rightarrow> bool" where
  "transfer_move ds target k room later copies lw' \<longleftrightarrow>
     (let k' = k + (if room then 1 else 0) in
      transfer_at ds target k' lw' \<and> later = drop (k' + waiting lw') ds \<and>
      copies = take (k' - k) (drop k (parent_copies (new_parent (hd ds) target None) ds)))"

lemma drop_nth_copy: "k < length ds \<Longrightarrow> [parent_copies q ds ! k] = take 1 (drop k (parent_copies q ds))"
  by (simp add: parent_copies_def take_Suc_conv_app_nth)

lemma request_transfer:
  fixes lw :: "'b loop_worker" and cb :: "'b copy_backend"
  assumes inv: "responder_inv S sid pd lw" and at: "transfer_at ds target k lw"
    and sent: "send_at mtu p0 0 p0" "pn_total_length p0 \<noteq> 0" "ds = send_datagrams (unat mtu) p0" "pn_target_qp_num p0 = lw_qp_num lw"
    and view: "view_ok S sid pd lw service view" and env: "worker_env_ok env"
    and r: "resolve_rkey sid pd (pn_rkey p0) (pn_remote_address p0) (pn_total_length p0) service = Inr target"
  defines "m \<equiv> Request_call service view env"
  assumes later: "taken_by m lw @ later = drop (k + waiting lw) ds"
  shows "transfer_move ds target k (call_finds_room m lw) later (rl_copies (responder_adds cb m lw)) (responder_exec cb m lw)"
proof -
  let ?lw = "snd (try_request service view env lw)"
  have c: "rl_copies (responder_adds cb m lw) = drop (length (lw_pending_backend_requests lw)) (lw_pending_backend_requests ?lw)"
      "responder_exec cb m lw = ?lw"
    by (simp_all add: m_def responder_adds_def Let_def)
  have handled: ?thesis
    if i1: "responder_inv S sid pd lw1" and at1: "transfer_at ds target k lw1" and k: "k < length ds" "lw_pending_request lw1 = Some (ds ! k)"
      and same: "lw_qp_num lw1 = lw_qp_num lw" "lw_pending_backend_requests lw1 = lw_pending_backend_requests lw"
        "call_finds_room m lw = finds_room env (ds ! k) lw1"
      and call: "?lw = snd (handle_request service view loaded (ds ! k) env lw1)" and rest: "later = drop (Suc k) ds" for lw1 loaded
  proof -
    have v1: "view_ok S sid pd lw1 service view" "pn_target_qp_num p0 = lw_qp_num lw1" using view sent(4) same(1) by (simp_all add: view_ok_def)
    show ?thesis
      using handle_transfer [OF i1 at1 k sent(1-3) v1(2,1) env r, of loaded] same(2,3) rest drop_nth_copy [OF k(1)]
      unfolding call [symmetric] by (simp add: transfer_move_def c split: if_split_asm)
  qed
  show ?thesis
  proof (cases "lw_pending_request lw")
    case (Some d)
    then have k: "k < length ds" "lw_pending_request lw = Some (ds ! k)" using at by (auto simp: transfer_at_def)
    show ?thesis
      by (rule handled [OF inv at k]) (use k later in \<open>simp_all add: m_def datagram_at_hand_def try_request_def waiting_def\<close>)
  next
    case None
    show ?thesis
    proof (cases "lt_requests (lw_transport lw)")
      case Nil
      then have "?lw = lw" "\<not> call_finds_room m lw" using None by (simp_all add: try_request_def transport_defs m_def datagram_at_hand_def)
      moreover have "taken_by m lw = []" using None Nil by (simp add: m_def)
      ultimately show ?thesis using at later None by (simp add: transfer_move_def c waiting_def)
    next
      case (Cons d xs)
      then have dm: "d # later = drop k ds" using later None by (simp add: m_def waiting_def)
      then have k: "k < length ds" using linorder_not_less by fastforce
      then have d: "d = ds ! k" "later = drop (Suc k) ds" using dm by (simp_all add: Cons_nth_drop_Suc [symmetric])
      let ?t = "(lw_transport lw)\<lparr>lt_requests := xs\<rparr>"
      let ?lw1 = "lw\<lparr>lw_transport := ?t, lw_pending_request := Some d\<rparr>"
      have "\<not> receive_waiting (lw\<lparr>lw_transport := ?t\<rparr>)"
        using not_waiting_without_request [OF inv None] by (simp add: receive_waiting_def)
      then have i1: "responder_inv S sid pd ?lw1" using inv by (intro clear_request_inv) simp_all
      have at1: "transfer_at ds target k ?lw1" using at d(1) k by (simp add: transfer_at_def)
      show ?thesis
        by (rule handled [OF i1 at1 k]) (use d None Cons in \<open>simp_all add: m_def datagram_at_hand_def finds_room_def try_request_def transport_defs\<close>)
    qed
  qed
qed

section \<open>Any other call\<close>

lemma record_completions_stand:
  "case lw_responder_inflight lw i of None \<Rightarrow> lw_responder_inflight (fold record_completion cs lw) i = None
   | Some p \<Rightarrow> \<exists>p'. lw_responder_inflight (fold record_completion cs lw) i = Some p' \<and> (\<forall>q. stands p q \<longrightarrow> stands p' q)"
proof (induction cs arbitrary: lw)
  case (Cons c cs)
  show ?case using record_completion_stands [where lw = lw and i = i and c = c] Cons [where lw = "record_completion c lw"] by (auto split: option.splits)
qed (simp split: option.split)

lemma record_completions_pending: "lw_pending_request (fold record_completion cs lw) = lw_pending_request lw"
proof (induction cs arbitrary: lw)
  case (Cons c cs)
  then show ?case by (simp add: record_completion_def Let_def split: option.split)
qed simp

lemma answer_parent_inflight:
  "lw_responder_inflight (snd (answer_parent view j p env lw)) = lw_responder_inflight lw \<or>
   lw_responder_inflight (snd (answer_parent view j p env lw)) = (lw_responder_inflight lw)(j := None)"
  "lw_pending_request (snd (answer_parent view j p env lw)) = lw_pending_request lw"
  by (simp_all add: answer_parent_def Let_def split: prod.split bool.split)

lemma answer_transfer:
  assumes at: "transfer_at ds target k lw" and v: "k < length ds \<Longrightarrow> valid_payload (parent_after (new_parent (hd ds) target None) ds k) (ds ! k)"
    and q: "rf_payload_count (new_parent (hd ds) target None) \<noteq> 0"
  shows "transfer_at ds target k (snd (try_parent_response view env lw)) \<and> waiting (snd (try_parent_response view env lw)) = waiting lw"
proof -
  let ?lw = "snd (try_parent_response view env lw)" and ?i = "rqd_parent_request_id (hd ds)"
  have same: "lw_pending_request ?lw = lw_pending_request lw"
    by (simp add: try_parent_response_def answer_parent_inflight(2) split: list.split option.split)
  have "lw_responder_inflight ?lw ?i = lw_responder_inflight lw ?i \<or>
      (\<exists>p. lw_responder_inflight lw ?i = Some p \<and> rf_next_payload_index p = rf_payload_count p \<and> lw_responder_inflight ?lw ?i = None)"
  proof (cases "lw_responder_order lw")
    case (Cons j rest)
    show ?thesis
    proof (cases "lw_responder_inflight lw j")
      case (Some p)
      then show ?thesis
        using Cons answer_parent_inflight(1) [of view j p env lw] by (cases "j = ?i") (auto simp: try_parent_response_def)
    qed (use Cons in \<open>simp add: try_parent_response_def\<close>)
  qed (simp add: try_parent_response_def)
  moreover have full: "k = length ds" if p: "lw_responder_inflight lw ?i = Some p" "rf_next_payload_index p = rf_payload_count p" for p
  proof (rule ccontr)
    assume "k \<noteq> length ds"
    then have "k < length ds" using at by (simp add: transfer_at_def)
    have s: "stands p (parent_after (new_parent (hd ds) target None) ds k)" using at p(1) by (simp add: transfer_at_def)
    have "valid_payload p (ds ! k)" using v [OF \<open>k < length ds\<close>] stands_payload(1) [OF s] by simp
    moreover have "rf_payload_count p = rf_payload_count (parent_after (new_parent (hd ds) target None) ds k)" using s by (simp add: stands_def)
    ultimately show False using q p(2) by (auto simp: valid_payload_def Let_def parent_after_count)
  qed
  ultimately have "transfer_at ds target k ?lw"
  proof (elim disjE exE conjE)
    assume "lw_responder_inflight ?lw ?i = lw_responder_inflight lw ?i"
    then show ?thesis using at unfolding transfer_at_def same by simp
  next
    fix p assume p: "lw_responder_inflight lw ?i = Some p" "rf_next_payload_index p = rf_payload_count p" "lw_responder_inflight ?lw ?i = None"
    then show ?thesis using at full unfolding transfer_at_def same by simp
  qed
  then show ?thesis using same by (simp add: waiting_def)
qed

lemma other_transfer:
  assumes at: "transfer_at ds target k lw" and v: "k < length ds \<Longrightarrow> valid_payload (parent_after (new_parent (hd ds) target None) ds k) (ds ! k)"
    and q: "rf_payload_count (new_parent (hd ds) target None) \<noteq> 0" and m: "\<And>service view env. m \<noteq> Request_call service view env"
    and later: "taken_by m lw @ later = drop (k + waiting lw) ds"
  shows "transfer_move ds target k (call_finds_room m lw) later (rl_copies (responder_adds cb m lw)) (responder_exec cb m lw)"
proof -
  have "transfer_at ds target k (responder_exec cb m lw) \<and> waiting (responder_exec cb m lw) = waiting lw"
  proof (cases m)
    case (Answer_call view env)
    then show ?thesis using answer_transfer [OF at v q] by simp
  next
    case (Completions_call env)
    obtain cs b where "cb_try_pop_completion_batch cb kBackendBatchCapacity (lw_backend lw) = (cs, b)" by force
    then show ?thesis
      using at record_completions_stand [where lw = "lw\<lparr>lw_backend := b\<rparr>" and i = "rqd_parent_request_id (hd ds)" and cs = cs] record_completions_pending [of cs "lw\<lparr>lw_backend := b\<rparr>"]
      by (auto simp: Completions_call try_backend_completions_def transfer_at_def waiting_def split: option.splits)
  next
    case (Flush_call env)
    then show ?thesis using at by (auto simp: try_flush_backend_requests_def Let_def transfer_at_def waiting_def split: prod.split)
  next
    case (Requester_moved t)
    then show ?thesis using at by (simp add: transfer_at_def waiting_def)
  qed (use m in simp)
  moreover have "rl_copies (responder_adds cb m lw) = []" "\<not> call_finds_room m lw" "taken_by m lw = []"
    using m by (cases m; simp add: responder_adds_def Let_def)+
  ultimately show ?thesis using later by (simp add: transfer_move_def)
qed

section \<open>Runs\<close>

lemma transfer_run:
  fixes lw :: "'b loop_worker" and target :: u64
  assumes sent: "send_at mtu p0 0 p0" "pn_total_length p0 \<noteq> 0" "ds = send_datagrams (unat mtu) p0"
  defines "copies \<equiv> parent_copies (new_parent (hd ds) target None) ds"
  assumes "responder_inv S sid pd lw" "list_all (move_ok sid pd (lw_qp_num lw)) moves" "request_services moves \<subseteq> S"
    and "pn_target_qp_num p0 = lw_qp_num lw"
    and "\<And>service. service \<in> request_services moves \<Longrightarrow>
      resolve_rkey sid pd (pn_rkey p0) (pn_remote_address p0) (pn_total_length p0) service = Inr target"
    and "transfer_at ds target k lw" "requests_taken cb moves lw = drop (k + waiting lw) ds" "responder_run cb moves lw = (l, lw')"
  shows "transfer_at ds target (k + room_calls cb moves lw) lw' \<and> k + room_calls cb moves lw + waiting lw' = length ds \<and>
    rl_copies l = take (room_calls cb moves lw) (drop k copies)"
  using assms(5-)
proof (induction moves arbitrary: lw l k)
  case Nil
  then show ?case by (auto simp: transfer_at_def waiting_def)
next
  case (Cons m ms)
  let ?lw = "responder_exec cb m lw" and ?a = "responder_adds cb m lw" and ?n = "if call_finds_room m lw then 1 else 0 :: nat"
  have "length ds = length (plan (unat mtu) (pn_source_segments p0))" using send_plan(1) [OF sent(1,2)] by (simp add: sent(3))
  then have "ds \<noteq> []" using send_plan(6) [OF sent(1,2)] by auto
  then have ne: "0 < length ds" "hd ds = ds ! 0" by (simp_all add: hd_conv_nth)
  have q: "rf_payload_count (new_parent (hd ds) target None) \<noteq> 0"
    using send_datagram_fields(8) [OF sent(1,2), folded sent(3), OF ne(1)] by (simp add: new_parent_def ne(2))
  have s: "request_services [m] \<subseteq> S" "request_services ms \<subseteq> S" using Cons.prems(3) by (auto simp: request_services_def)
  have m: "move_ok sid pd (lw_qp_num lw) m" "list_all (move_ok sid pd (lw_qp_num lw)) ms" using Cons.prems(2) by simp_all
  note M = responder_move_spec(1,2) [where cb = cb, OF Cons.prems(1) m(1) s(1)]
  obtain l1 where r: "responder_run cb ms ?lw = (l1, lw')" "rl_copies l = rl_copies ?a @ rl_copies l1"
    using Cons.prems(8) by (auto simp: Let_def split: prod.splits)
  have taken: "taken_by m lw @ requests_taken cb ms ?lw = drop (k + waiting lw) ds" using Cons.prems(7) by simp
  have "transfer_move ds target k (call_finds_room m lw) (requests_taken cb ms ?lw) (rl_copies ?a) ?lw"
  proof (cases "\<exists>service view env. m = Request_call service view env")
    case True
    then obtain service view env where mr: "m = Request_call service view env" by blast
    then have "view_ok S sid pd lw service view" "worker_env_ok env" "service \<in> request_services (m # ms)"
      using m(1) s(1) by (auto simp: move_ok_def view_ok_def request_services_def)
    then show ?thesis
      using request_transfer [OF Cons.prems(1,6) sent Cons.prems(4) _ _ Cons.prems(5)] taken unfolding mr by blast
  next
    case False
    then show ?thesis
      using other_transfer [OF Cons.prems(6) _ q _ taken] send_accepted(2) [where target = target and receive = None, OF sent(1,2), folded sent(3)]
      by blast
  qed
  then have T: "transfer_at ds target (k + ?n) ?lw" "requests_taken cb ms ?lw = drop (k + ?n + waiting ?lw) ds"
      "rl_copies ?a = take ?n (drop k copies)"
    by (simp_all add: transfer_move_def copies_def Let_def)
  have IH: "transfer_at ds target (k + ?n + room_calls cb ms ?lw) lw' \<and> k + ?n + room_calls cb ms ?lw + waiting lw' = length ds \<and>
      rl_copies l1 = take (room_calls cb ms ?lw) (drop (k + ?n) copies)"
    by (rule Cons.IH [OF M(1) _ s(2) _ _ T(1,2) r(1)]) (use m(2) M(2) Cons.prems(4,5) in \<open>auto simp: request_services_def\<close>)
  moreover have "take ?n (drop k copies) @ take (room_calls cb ms ?lw) (drop (k + ?n) copies) = take (?n + room_calls cb ms ?lw) (drop k copies)"
    by (simp add: take_add add.commute)
  ultimately show ?case using T(3) r(2) by (simp only: room_calls.simps add.assoc)
qed

end
