(* ===== verification/Worker_Demo.thy ===== *)
theory Worker_Demo
  imports Worker_Delivery Control_Run
begin

unbundle bit_operations_syntax

text \<open>
  A small evaluated scenario for the workers: the two connected queue pairs of the control scenario, a
  requester with one work request of twenty bytes posted and a payload size of eight, and a responder with
  one receive request posted.
\<close>

definition demo_env :: worker_env where
  "demo_env = \<lparr>we_send_queue = quiet_producer_env, we_receive_queue = quiet_producer_env,
     we_send_cq = quiet_env, we_receive_cq = quiet_env\<rparr>"

lemma demo_env_ok: "worker_env_ok demo_env"
  by (simp add: worker_env_ok_def demo_env_def quiet_env_ok quiet_producer_env_ok)

definition demo_send :: send_slot where
  "demo_send =
     \<lparr>ss_header = \<lparr>sh_wr_id = 7, sh_remote_address = 0x5800, sh_rkey = 2, sh_opcode = 1, sh_send_flags = 2,
        sh_immediate_data = 99, sh_sge_count = 1, sh_reserved = 0\<rparr>,
      ss_sges = (\<lambda>_. \<lparr>sge_address = 0x5000, sge_length = 20, sge_lkey = 1\<rparr>)\<rparr>"

definition demo_receive :: receive_slot where
  "demo_receive = \<lparr>rs_header = \<lparr>rh_wr_id = 9, rh_sge_count = 0, rh_reserved = 0\<rparr>,
     rs_sges = (\<lambda>_. \<lparr>sge_address = 0, sge_length = 0, sge_lkey = 0\<rparr>)\<rparr>"

definition demo_rings :: worker_rings where
  "demo_rings =
     \<lparr>wr_send_queue = ring_start demo_desc 0 1 (\<lambda>_. demo_send),
      wr_receive_queue = ring_start (demo_desc\<lparr>qd_kind := qk_receive\<rparr>) 0 1 (\<lambda>_. demo_receive),
      wr_send_cq = Completion_Queue.demo_cq, wr_receive_cq = Completion_Queue.demo_cq\<rparr>"

lemma demo_rings_ok:
  "source_at 0 (wr_send_queue demo_rings)" "source_at 0 (wr_receive_queue demo_rings)"
  "completion_sink (wr_send_cq demo_rings)" "completion_sink (wr_receive_cq demo_rings)"
proof -
  have "ring_inv (ring_start demo_desc 0 1 (\<lambda>_. demo_send))" "ring_inv (ring_start (demo_desc\<lparr>qd_kind := qk_receive\<rparr>) 0 1 (\<lambda>_. demo_receive))"
    by (rule ring_inv_start; simp add: valid_descriptor_def demo_desc_def)+
  then show "source_at 0 (wr_send_queue demo_rings)" "source_at 0 (wr_receive_queue demo_rings)"
    by (simp_all add: demo_rings_def source_at_def ring_start_def make_ring_def empty_ring_def empty_consumer_def)
  have "completion_sink Completion_Queue.demo_cq"
    using demo_cq_inv by (simp add: completion_sink_def sink_at_def Completion_Queue.demo_cq_def ring_start_def make_ring_def empty_ring_def
        empty_producer_def demo_desc_def completion_slot_stride_def)
  then show "completion_sink (wr_send_cq demo_rings)" "completion_sink (wr_receive_cq demo_rings)" by (simp_all add: demo_rings_def)
qed

definition demo_view :: "u32 \<Rightarrow> u32 \<Rightarrow> worker_qp_view" where
  "demo_view n peer =
     \<lparr>wv_session_id = 1, wv_pd_identity = demo_pd_id, wv_qp_num = n, wv_peer_qp_num = peer, wv_max_send_sge = 1,
      wv_max_recv_sge = 1, wv_sq_sig_all = 0,
      wv_send_queue = make_ring 0x100000 4096 5 \<lparr>qd_kind = qk_send, qd_capacity = 1, qd_slot_stride = 64\<rparr>,
      wv_receive_queue = make_ring 0x200000 4096 7 \<lparr>qd_kind = qk_receive, qd_capacity = 1, qd_slot_stride = 64\<rparr>,
      wv_send_cq = make_ring 0x100000 4096 5 \<lparr>qd_kind = qk_completion, qd_capacity = 1, qd_slot_stride = 64\<rparr>,
      wv_receive_cq = make_ring 0x100000 4096 5 \<lparr>qd_kind = qk_completion, qd_capacity = 1, qd_slot_stride = 64\<rparr>\<rparr>"

lemma demo_views:
  "worker_qp_view_of 1 demo_service = Inr (demo_view 1 2)" "worker_qp_view_of 2 demo_service = Inr (demo_view 2 1)"
  by (simp_all add: worker_qp_view_of_def demo_lookup registry_eval reg_resolve_any_def demo_qp_def connected_qp_def new_qp_def
      demo_attributes_def demo_view_def demo_cq_def)

lemma demo_keys:
  "resolve_lkey 1 demo_pd_id 1 0x5000 20 demo_service = Inr 0x21000" "resolve_rkey 1 demo_pd_id 2 0x5800 20 demo_service = Inr 0x21800"
  "resolve_rkey 1 demo_pd_id 2 0x5800 8 demo_service = Inr 0x21800"
  by (simp_all add: resolve_lkey_def resolve_rkey_def resolve_key_def demo_lookup registry_eval kAccessRemoteWrite_def)

lemma reg_entries_value: "reg_entries t r i = Some (sid, v) \<Longrightarrow> \<exists>slot \<in> set (reg_slots r). sl_value slot = Some v"
  by (fastforce simp: reg_entries_def Let_def split: option.split_asm if_split_asm)

lemma demo_service_ok: "service_ok demo_service"
proof -
  have "qp_inv demo_service" using control_run_inv [of default_catalog "demo_objects @ demo_pairs"] by (simp add: demo_service_run)
  moreover have "unat (mr_daemon_address mr) + unat (mr_length mr) \<le> 2 ^ 64" if "mrs_of demo_service i = Some (sid, mr)" for i sid mr
    using reg_entries_value [OF that] by (auto simp: demo_service_def demo_base_def demo_registry_def demo_slot_def demo_mr_def)
  ultimately show ?thesis unfolding service_ok_def by blast
qed

definition demo_requester :: "unit loop_worker" where
  "demo_requester = new_loop_worker 1 \<lparr>lt_request_capacity = 4, lt_response_capacity = 4, lt_requests = [], lt_responses = []\<rparr> ()
     Requester 8 True demo_rings"

text \<open>A backend that copies at once: it has the completions to report.\<close>

definition demo_backend :: "backend_completion list copy_backend" where
  "demo_backend = default_backend
     (\<lambda>r b. (True, b @ [\<lparr>bc_parent_request_id = br_parent_request_id r, bc_payload_index = br_payload_index r, bc_result = Success\<rparr>]))
     (\<lambda>b. case b of [] \<Rightarrow> (None, []) | c # cs \<Rightarrow> (Some c, cs))"

definition demo_datagram :: request_datagram where
  "demo_datagram = \<lparr>rqd_parent_request_id = 0x100000001, rqd_source_qp_num = 1, rqd_target_qp_num = 2, rqd_opcode = Rdma_write,
     rqd_remote_address = 0x5800, rqd_rkey = 2, rqd_immediate_data = 0, rqd_parent_total_length = 8, rqd_payload_offset = 0,
     rqd_source_daemon_address = 0x21000, rqd_payload_length = 8, rqd_payload_index = 0, rqd_payload_count = 1\<rparr>"

definition demo_responder :: "backend_completion list loop_worker" where
  "demo_responder = new_loop_worker 2 \<lparr>lt_request_capacity = 4, lt_response_capacity = 4, lt_requests = [demo_datagram], lt_responses = []\<rparr> []
     Responder 8 False demo_rings"

text \<open>The send the requester prepares.\<close>

definition demo_pending :: pending_send where
  "demo_pending = new_pending_send demo_requester (demo_view 1 2) (ss_header demo_send)
     (20, [\<lparr>seg_daemon_address = 0x21000, seg_length = 20\<rparr>], 3)"

lemma demo_gather:
  "gather_sges demo_service (demo_view 1 2) 8 (entry_sges demo_send) (0, [], 0) = Inr (20, [\<lparr>seg_daemon_address = 0x21000, seg_length = 20\<rparr>], 3)"
  by (simp add: entry_sges_def demo_send_def demo_view_def demo_keys)

lemma demo_pending_at: "send_at 8 demo_pending 0 demo_pending"
  unfolding demo_pending_def by (rule new_pending_send_at(1) [OF _ _ demo_gather]) simp_all

lemma demo_pending_of: "send_of {(demo_service, demo_view 1 2)} demo_send demo_pending"
  using new_pending_send_at(2) [OF _ _ demo_gather, of demo_requester "ss_header demo_send"]
  by (simp add: send_of_def demo_pending_def new_pending_send_def demo_send_def Let_def)

lemma demo_pending_fields:
  "pn_total_length demo_pending = 20" "pn_parent_request_id demo_pending = 0x100000001" "pn_target_qp_num demo_pending = 2"
  "pn_rkey demo_pending = 2" "pn_remote_address demo_pending = 0x5800" "pn_opcode demo_pending = Rdma_write_with_immediate"
  "pn_source_segments demo_pending = [\<lparr>seg_daemon_address = 0x21000, seg_length = 20\<rparr>]" "pn_payload_count demo_pending = 3"
  by (simp_all add: demo_pending_def new_pending_send_def demo_send_def demo_view_def next_request_id_def demo_requester_def new_loop_worker_def)

lemma demo_pending_length: "length (send_datagrams 8 demo_pending) = 3"
  using send_plan(1,2) [OF demo_pending_at] by (simp add: demo_pending_fields)

lemmas worker_eval = new_loop_worker_def try_send_def start_send_def continue_send_def new_pending_send_def
  next_datagram_def advance_send_def send_finished_def next_request_id_def peek_entry_def release_entries_def consumer_peek_one_def
  quiet_producer_env_def transport_defs try_request_def handle_request_def open_parent_def accept_payload_def valid_first_def
  valid_payload_def new_parent_def backend_request_of_def advance_parent_def try_flush_backend_requests_def try_backend_completions_def
  record_completion_def try_parent_response_def answer_parent_def parent_result_def

lemmas demo_worker_eval = demo_requester_def demo_responder_def demo_env_def demo_rings_def demo_view_def demo_send_def demo_datagram_def
  demo_keys worker_eval


lemma demo_peek:
  "\<exists>sq. peek_entry quiet_producer_env (wr_send_queue demo_rings) = (OK, Some demo_send, sq)"
  "\<exists>rq. peek_entry quiet_producer_env (wr_receive_queue demo_rings) = (OK, Some demo_receive, rq)"
  by (simp_all add: demo_rings_def demo_desc_def worker_eval ring_eval)

definition demo_sending :: "unit loop_worker" where
  "demo_sending = demo_requester\<lparr>lw_send_queue := snd (snd (peek_entry quiet_producer_env (wr_send_queue demo_rings))),
     lw_pending_send := Some demo_pending\<rparr>"

lemma demo_sending_at: "requester_at {(demo_service, demo_view 1 2)} (Some (demo_pending, 0)) demo_sending"
proof -
  obtain sq where p: "peek_entry quiet_producer_env (wr_send_queue demo_rings) = (OK, Some demo_send, sq)" using demo_peek(1) by blast
  from peek_entry_spec [OF quiet_producer_env_ok demo_rings_ok(1) p] have "source_at 1 sq" "\<exists>xs. ring_contents sq = demo_send # xs" by auto
  moreover have "lw_payload_bytes demo_sending = 8" "lw_send_cq demo_sending = wr_send_cq demo_rings"
    by (simp_all add: demo_sending_def demo_requester_def new_loop_worker_def)
  ultimately show ?thesis
    using demo_rings_ok(3) demo_pending_at demo_pending_of p by (simp add: requester_at_def, auto simp: demo_sending_def)
qed

lemma demo_pop_batch:
  "default_pop_batch (\<lambda>b. case b of [] \<Rightarrow> (None, []) | c # cs \<Rightarrow> (Some c, cs)) n b = (take n b, drop n b)"
proof (induction n arbitrary: b)
  case (Suc n)
  then show ?case by (cases b) simp_all
qed simp

end
