(* ===== verification/Data_Path.thy ===== *)
theory Data_Path
  imports Worker_Reports Worker_Transfer Worker_Demo
begin

unbundle bit_operations_syntax

text \<open>
  The data path from a posted work request to the bytes it moves: the properties of the two workers.
\<close>

section \<open>Properties of the workers\<close>

lemma new_worker_at:
  assumes "source_at 0 (wr_send_queue rings)" "completion_sink (wr_send_cq rings)"
  shows "requester_at V None (new_loop_worker qp_num transport backend role payload_bytes obs rings)"
proof -
  have "unat (min payload_bytes 0xffffffff) < 4294967296" by (simp add: unat_min_u64)
  moreover have "0 < unat (min payload_bytes 0xffffffff)" if "payload_bytes \<noteq> 0" using that by (simp add: unat_min_u64 unat_gt_0)
  ultimately show ?thesis using assms by (simp add: requester_at_def new_loop_worker_def)
qed

lemma new_worker_inv:
  assumes "source_at 0 (wr_receive_queue rings)" "completion_sink (wr_receive_cq rings)"
  shows "responder_inv S sid pd (new_loop_worker qp_num transport backend role payload_bytes obs rings)"
  using assms by (simp add: responder_inv_def new_loop_worker_def parents_ok_def receive_waiting_def)

lemma new_responder_run:
  assumes "source_at 0 (wr_receive_queue rings)" "completion_sink (wr_receive_cq rings)" "list_all (move_ok sid pd qp_num) moves"
    and "responder_run cb moves (new_loop_worker qp_num transport backend role payload_bytes obs rings) = (l, lw')"
  shows "responder_inv (request_services moves) sid pd lw'"
    "rl_opened l = map rsd_parent_request_id (rl_answered l) @ lw_responder_order lw'"
    "list_all (copy_ok (request_services moves) sid pd) (rl_copies l)"
proof -
  let ?lw = "new_loop_worker qp_num transport backend role payload_bytes obs rings"
  have "lw_qp_num ?lw = qp_num" "lw_responder_order ?lw = []" by (simp_all add: new_loop_worker_def)
  then show "responder_inv (request_services moves) sid pd lw'"
    "rl_opened l = map rsd_parent_request_id (rl_answered l) @ lw_responder_order lw'"
    "list_all (copy_ok (request_services moves) sid pd) (rl_copies l)"
    using responder_run_spec [OF new_worker_inv [OF assms(1,2)] _ order_refl assms(4), of sid pd] assms(3) by simp_all
qed

lemma new_reports_agree:
  assumes "source_at 0 (wr_receive_queue rings)" "completion_sink (wr_receive_cq rings)" "list_all (move_ok sid pd qp_num) moves"
    and "responder_run cb moves (new_loop_worker qp_num transport backend role payload_bytes obs rings) = (l, lw')"
  shows "all_agree lw' (backend_reports cb moves (new_loop_worker qp_num transport backend role payload_bytes obs rings) (\<lambda>_. []))"
  by (rule responder_run_agrees [OF new_worker_inv [OF assms(1,2)] _ order_refl _ assms(4), of sid pd])
    (use assms(3) in \<open>simp_all add: new_loop_worker_def all_agree_def\<close>)

text \<open>The transfer of a send to a worker that made any calls before.\<close>

lemma new_transfer:
  assumes at: "send_at mtu p0 0 p0" and nz: "pn_total_length p0 \<noteq> 0" and qp: "pn_target_qp_num p0 = qp_num"
    and rings: "source_at 0 (wr_receive_queue rings)" "completion_sink (wr_receive_cq rings)"
    and moves: "list_all (move_ok sid pd qp_num) (before @ moves)"
    and before: "responder_run cb before (new_loop_worker qp_num transport backend role payload_bytes obs rings) = (l0, lw)"
      "lw_pending_request lw = None" "lw_responder_inflight lw (pn_parent_request_id p0) = None"
    and run: "responder_run cb moves lw = (l, lw')" "requests_taken cb moves lw = send_datagrams (unat mtu) p0"
    and r: "\<And>service. service \<in> request_services moves \<Longrightarrow>
      resolve_rkey sid pd (pn_rkey p0) (pn_remote_address p0) (pn_total_length p0) service = Inr target"
  defines "ds \<equiv> send_datagrams (unat mtu) p0"
  shows "transfer_at ds target (room_calls cb moves lw) lw'" "room_calls cb moves lw + waiting lw' = length ds"
    "rl_copies l = take (room_calls cb moves lw) (parent_copies (new_parent (hd ds) target None) ds)"
    "fits target (unat (pn_total_length p0))" "ds \<noteq> []"
proof -
  let ?S = "request_services (before @ moves)" and ?new = "new_loop_worker qp_num transport backend role payload_bytes obs rings"
  have s: "request_services before \<subseteq> ?S" "request_services moves \<subseteq> ?S" by (auto simp: request_services_def)
  have "lw_qp_num ?new = qp_num" by (simp add: new_loop_worker_def)
  then have inv: "responder_inv ?S sid pd lw" and q: "lw_qp_num lw = qp_num"
    using responder_run_spec [OF new_worker_inv [OF rings] _ s(1) before(1), of sid pd] moves by simp_all
  have "length ds = length (plan (unat mtu) (pn_source_segments p0))" using send_plan(1) [OF at nz] by (simp add: ds_def)
  then show ne: "ds \<noteq> []" using send_plan(6) [OF at nz] by auto
  then have "rqd_parent_request_id (hd ds) = pn_parent_request_id p0"
    using send_datagram_fields(1) [OF at nz, of 0, folded ds_def] by (simp add: hd_conv_nth)
  then have "transfer_at ds target 0 lw" "waiting lw = 0" using before(2,3) by (simp_all add: transfer_at_def waiting_def)
  from transfer_run [OF at nz ds_def [THEN meta_eq_to_obj_eq] inv _ s(2) _ r this(1) _ run(1)] this(2) run(2) moves qp q
  show "transfer_at ds target (room_calls cb moves lw) lw'" "room_calls cb moves lw + waiting lw' = length ds"
    "rl_copies l = take (room_calls cb moves lw) (parent_copies (new_parent (hd ds) target None) ds)"
    by (simp_all add: ds_def)
  have "requests_taken cb moves lw \<noteq> []" using ne run(2) by (simp add: ds_def)
  then obtain service view env where "Request_call service view env \<in> set moves" using requests_taken_call by blast
  then have sv: "service \<in> request_services moves" "service_ok service"
    using moves by (auto simp: request_services_def move_ok_def list_all_iff split: responder_move.split_asm)
  have "range_granted {service} True sid pd target (unat (pn_total_length p0))"
    using resolve_key_granted [OF sv(2)] r [OF sv(1)] by (simp add: resolve_rkey_def)
  then show "fits target (unat (pn_total_length p0))"
    using sv(2) by (fastforce simp: range_granted_def service_ok_def fits_def)
qed



text \<open>
  C20. The responder answers every parent once and in order: over any calls of a responder's worker, the
  parents opened are the parents answered, in the same order, followed by those still open.
\<close>

theorem responder_answers_in_order:
  assumes "source_at 0 (wr_receive_queue rings)" "completion_sink (wr_receive_cq rings)" "list_all (move_ok sid pd qp_num) moves"
    and "responder_run cb moves (new_loop_worker qp_num transport backend Responder payload_bytes obs rings) = (l, lw')"
  shows "rl_opened l = map rsd_parent_request_id (rl_answered l) @ lw_responder_order lw' \<and>
    distinct (lw_responder_order lw') \<and> set (lw_responder_order lw') = dom (lw_responder_inflight lw')"
  using new_responder_run [OF assms] responder_invD(2,3) [OF new_responder_run(1) [OF assms]] by blast

definition demo_moves :: "responder_move list" where
  "demo_moves = [Request_call demo_service (demo_view 2 1) demo_env, Flush_call demo_env, Completions_call demo_env]"

lemma demo_moves_ok: "list_all (move_ok 1 demo_pd_id 2) demo_moves"
  using demo_env_ok demo_service_ok by (simp add: demo_moves_def move_ok_def demo_view_def)

theorem responder_answers_in_order_witness:
  "rl_opened (fst (responder_run demo_backend demo_moves demo_responder)) =
     map rsd_parent_request_id (rl_answered (fst (responder_run demo_backend demo_moves demo_responder))) @
       lw_responder_order (snd (responder_run demo_backend demo_moves demo_responder))"
  using responder_answers_in_order [OF demo_rings_ok(2,4) demo_moves_ok prod.collapse [symmetric], of demo_backend, folded demo_responder_def]
  by (simp add: demo_responder_def)

text \<open>
  C17. A remote write stays inside memory that was opened for it: every copy a responder's worker asks its
  backend for writes at least one byte, inside its parent's range, and wholly inside a region that belonged to
  the session and protection domain of the queue pair and allowed remote writes in one of the states of
  the control service the worker read.
\<close>

theorem responder_copies_granted:
  assumes "source_at 0 (wr_receive_queue rings)" "completion_sink (wr_receive_cq rings)" "list_all (move_ok sid pd qp_num) moves"
    and "responder_run cb moves (new_loop_worker qp_num transport backend Responder payload_bytes obs rings) = (l, lw')"
    and "c \<in> set (rl_copies l)"
  shows "range_granted (request_services moves) True sid pd (br_target_daemon_address c) (unat (br_payload_length c)) \<and>
    0 < unat (br_payload_length c) \<and> br_payload_index c < br_payload_count c \<and>
    unat (br_payload_offset c) + unat (br_payload_length c) \<le> unat (br_parent_total_length c)"
  using new_responder_run(3) [OF assms(1-4)] assms(5) by (auto simp: list_all_iff copy_ok_def)

definition demo_copy :: backend_request where
  "demo_copy = \<lparr>br_parent_request_id = 0x100000001, br_parent_total_length = 8, br_payload_offset = 0, br_source_daemon_address = 0x21000,
     br_target_daemon_address = 0x21800, br_payload_length = 8, br_payload_index = 0, br_payload_count = 1\<rparr>"

definition demo_answering :: "backend_completion list loop_worker" where
  "demo_answering = demo_responder
     \<lparr>lw_transport := \<lparr>lt_request_capacity = 4, lt_response_capacity = 4, lt_requests = [], lt_responses = []\<rparr>,
      lw_responder_order := [0x100000001],
      lw_responder_inflight := [0x100000001 \<mapsto>
        (new_parent demo_datagram 0x21800 None)\<lparr>rf_next_payload_offset := 8, rf_next_payload_index := 1, rf_terminal_count := 1, rf_terminal := [1]\<rparr>]\<rparr>"

lemma demo_responder_run:
  "responder_run demo_backend demo_moves demo_responder =
     (\<lparr>rl_opened = [0x100000001], rl_copies = [demo_copy], rl_answered = []\<rparr>, demo_answering)"
  by (simp add: demo_moves_def responder_adds_def demo_worker_eval demo_backend_def default_backend_def demo_pop_batch demo_copy_def
      demo_answering_def)

theorem responder_copies_granted_witness:
  "range_granted (request_services demo_moves) True 1 demo_pd_id (br_target_daemon_address demo_copy) (unat (br_payload_length demo_copy))"
  using responder_copies_granted [OF demo_rings_ok(2,4) demo_moves_ok demo_responder_run [unfolded demo_responder_def], of demo_copy] by simp

text \<open>
  C19. An answer is true and final: when \<open>try_parent_response\<close> answers, it answers the oldest parent, which
  is complete, and forgets it. If it answers success, the payloads accepted add up to the length of the
  parent, and the completions the worker took from the backend since the parent was opened (\<open>backend_reports\<close>, a
  history of the run) have exactly one for every payload of the parent, each with the result success; if it answers a failure
  that is not an invalid request or completion the worker found itself, the backend has reported just this failure.
  A parent with immediate data gets its receive completion exactly if the answer is success.
\<close>

theorem answer_is_true:
  assumes "source_at 0 (wr_receive_queue rings)" "completion_sink (wr_receive_cq rings)" "list_all (move_ok sid pd qp_num) moves"
    and "responder_run cb moves (new_loop_worker qp_num transport backend Responder payload_bytes obs rings) = (l, lw)"
    and "worker_env_ok env" "try_parent_response view env lw = (True, lw')"
  defines "reports \<equiv> backend_reports cb moves (new_loop_worker qp_num transport backend Responder payload_bytes obs rings) (\<lambda>_. [])"
  shows "\<exists>i rest p cs. lw_responder_order lw = i # rest \<and> lw_responder_inflight lw i = Some p \<and>
    lt_responses (lw_transport lw') = lt_responses (lw_transport lw) @ [parent_answer i p] \<and>
    lw_responder_order lw' = rest \<and> lw_responder_inflight lw' i = None \<and>
    (parent_result p = Success \<longrightarrow> rf_next_payload_offset p = rf_parent_total_length p \<and>
       distinct (map bc_payload_index (reports i)) \<and>
       (\<lambda>c. unat (bc_payload_index c)) ` set (reports i) = {..<unat (rf_payload_count p)} \<and>
       (\<forall>c \<in> set (reports i). bc_result c = Success)) \<and>
    (parent_result p \<noteq> Success \<and> rf_parent_error p = Success \<longrightarrow> (\<exists>c \<in> set (reports i). bc_result c = parent_result p)) \<and>
    chan_run ring_step (lw_receive_cq lw) cs (lw_receive_cq lw') \<and>
    concat (map sent_of cs) = (if parent_result p = Success \<and> rf_has_receive p then [receive_completion (wv_qp_num view) p] else [])"
proof -
  note inv = new_responder_run(1) [OF assms(1-4)]
  note T = try_parent_response_spec [OF inv assms(5,6), simplified if_True]
  then obtain i rest p cs where A: "lw_responder_order lw = i # rest" "lw_responder_inflight lw i = Some p" "parent_done p"
      "lw_responder_order lw' = rest" "lt_responses (lw_transport lw') = lt_responses (lw_transport lw) @ [parent_answer i p]"
      "chan_run ring_step (lw_receive_cq lw) cs (lw_receive_cq lw')" "concat (map sent_of cs) = parent_completions (wv_qp_num view) p" by blast
  have inv': "responder_inv (request_services moves) sid pd lw'" using T by blast
  have ok: "parent_ok (request_services moves) sid pd p" using parents_okD(1) [OF responder_invD(1) [OF inv] A(2)] .
  have "i \<notin> set rest" using responder_invD(2) [OF inv] A(1) by simp
  then have "lw_responder_inflight lw' i = None" using responder_invD(3) [OF inv'] A(4) by auto
  moreover have "reports_agree p (reports i)"
    using new_reports_agree [OF assms(1-4)] A(2) by (simp add: all_agree_def reports_def)
  note R = answer_reported [OF ok A(3) this] and S = success_means_done(1) [OF ok A(3)]
  ultimately show ?thesis
    using A(1,2,4-7) R S
    by (intro exI [of _ i] exI [of _ rest] exI [of _ p] exI [of _ cs]) (simp add: parent_completions_def)
qed

theorem answer_is_true_witness:
  "lt_responses (lw_transport (snd (try_parent_response (demo_view 2 1) demo_env demo_answering))) =
     [\<lparr>rsd_parent_request_id = 0x100000001, rsd_result = Success, rsd_rnr_delay = 0\<rparr>] \<and>
   bc_result ` set (backend_reports demo_backend demo_moves demo_responder (\<lambda>_. []) 0x100000001) = {Success}"
proof -
  obtain lw' where t: "try_parent_response (demo_view 2 1) demo_env demo_answering = (True, lw')"
    by (simp add: demo_answering_def demo_worker_eval)
  have "lw_responder_order demo_answering = [0x100000001]" "lt_responses (lw_transport demo_answering) = []"
      "lw_responder_inflight demo_answering 0x100000001 = Some p \<Longrightarrow> parent_result p = Success \<and> rf_payload_count p = 1" for p
    by (auto simp: demo_answering_def new_parent_def demo_datagram_def parent_result_def)
  with answer_is_true [OF demo_rings_ok(2,4) demo_moves_ok demo_responder_run [unfolded demo_responder_def] demo_env_ok t]
  show ?thesis by (auto simp: t parent_answer_def simp flip: demo_responder_def)
qed

text \<open>
  C21. A response ends its request once: taken off the transport, it leads to one completion if the request
  asked for one or failed and to none otherwise, with the status of the response, and the request is no
  longer in flight; or, only if a completion is due and by the head loaded in the call every slot of the completion
  queue is in use (\<open>no_room\<close>), the response is kept for a later call and the request stays in flight.
\<close>

theorem response_ends_request:
  assumes "worker_env_ok env" "completion_sink (lw_send_cq lw)" "lw_pending_response lw = None"
    and "lt_responses (lw_transport lw) = response # rest" "lw_requester_inflight lw (rsd_parent_request_id response) = Some f"
  shows "\<exists>cs lw'. try_response view env lw = (True, lw') \<and> lt_responses (lw_transport lw') = rest \<and>
    chan_run ring_step (lw_send_cq lw) cs (lw_send_cq lw') \<and>
    (lw_requester_inflight lw' = (lw_requester_inflight lw)(rsd_parent_request_id response := None) \<and> lw_pending_response lw' = None \<and>
     concat (map sent_of cs) = (if rsd_result response \<noteq> Success \<or> ri_signaled f
       then [send_completion (ri_wr_id f) (wv_qp_num view) (rsd_result response)] else []) \<or>
     lw_requester_inflight lw' = lw_requester_inflight lw \<and> lw_pending_response lw' = Some response \<and> concat (map sent_of cs) = [] \<and>
     (rsd_result response \<noteq> Success \<or> ri_signaled f) \<and> no_room (we_send_cq env) (lw_send_cq lw))"
proof -
  let ?lw = "lw\<lparr>lw_transport := (lw_transport lw)\<lparr>lt_responses := rest\<rparr>, lw_pending_response := Some response\<rparr>"
  obtain r lw' where h: "handle_response view True response env ?lw = (r, lw')" by force
  have t: "try_response view env lw = (r, lw')" using h assms(3,4) by (simp add: try_response_def transport_defs)
  have e: "env_ok (we_send_cq env)" "completion_sink (lw_send_cq ?lw)" using assms(1,2) by (simp_all add: worker_env_ok_def)
  have k: "lw_transport lw' = lw_transport ?lw" using handle_response_keeps [OF h] by blast
  from handle_response_spec [OF e h] assms(5) obtain cs where "r"
    and "chan_run ring_step (lw_send_cq lw) cs (lw_send_cq lw')"
    and "lw_requester_inflight lw' = (lw_requester_inflight lw)(rsd_parent_request_id response := None) \<and> lw_pending_response lw' = None \<and>
     concat (map sent_of cs) = (if rsd_result response \<noteq> Success \<or> ri_signaled f
       then [send_completion (ri_wr_id f) (wv_qp_num view) (rsd_result response)] else []) \<or>
     lw' = ?lw\<lparr>lw_send_cq := lw_send_cq lw'\<rparr> \<and> concat (map sent_of cs) = [] \<and>
       (rsd_result response \<noteq> Success \<or> ri_signaled f) \<and> no_room (we_send_cq env) (lw_send_cq lw)"
    by auto
  moreover have "lw_requester_inflight lw' = lw_requester_inflight lw \<and> lw_pending_response lw' = Some response"
    if "lw' = ?lw\<lparr>lw_send_cq := lw_send_cq lw'\<rparr>"
    by (subst that, simp)+
  ultimately show ?thesis using t k by (intro exI [of _ cs] exI [of _ lw']) auto
qed

definition demo_finished :: "unit loop_worker" where
  "demo_finished = demo_requester
     \<lparr>lw_transport := \<lparr>lt_request_capacity = 4, lt_response_capacity = 4, lt_requests = [],
        lt_responses = [\<lparr>rsd_parent_request_id = 0x100000001, rsd_result = Success, rsd_rnr_delay = 0\<rparr>]\<rparr>,
      lw_requester_inflight := [0x100000001 \<mapsto> \<lparr>ri_wr_id = 7, ri_signaled = True, ri_logical_bytes = 20, ri_payload_count = 3\<rparr>]\<rparr>"

theorem response_ends_request_witness:
  "\<exists>cs lw'. try_response (demo_view 1 2) demo_env demo_finished = (True, lw') \<and> lt_responses (lw_transport lw') = [] \<and>
     chan_run ring_step (lw_send_cq demo_finished) cs (lw_send_cq lw')"
proof -
  have "completion_sink (lw_send_cq demo_finished)"
    using demo_rings_ok(3) by (simp add: demo_finished_def demo_requester_def new_loop_worker_def)
  from response_ends_request [OF demo_env_ok this, of "\<lparr>rsd_parent_request_id = 0x100000001, rsd_result = Success, rsd_rnr_delay = 0\<rparr>" "[]"
      "\<lparr>ri_wr_id = 7, ri_signaled = True, ri_logical_bytes = 20, ri_payload_count = 3\<rparr>" "demo_view 1 2"]
  show ?thesis by (auto simp: demo_finished_def demo_requester_def new_loop_worker_def)
qed

text \<open>
  C4. A write arrives. Take a responder's worker after any calls, with no request pending and the parent of a prepared
  send of at least one byte not in flight, and any further calls of it (requests, submissions, completions, answers) and moves of
  the other side in which the datagrams it takes off the transport are those the requester cuts the send
  into. Then every request call that finds a datagram at hand, room in the batch of at most 64 copies and, for the
  parent of a write with immediate data, a receive request, queues one copy, and no other call does; all datagrams but at most
  the last, which may be kept pending, are accepted so. Once none is kept, the parent has accepted the whole length, with no
  error but one a wrong completion of the backend left, unless it is answered already; and whatever the order in which the copies queued
  are carried out, and even if some are repeated, the target range ends up with the bytes of the source segments, one
  after the other, and nothing else changes. The source segments are assumed to lie apart from the target range, and
  the remote key to lead to the same target in every state of the service the calls read.
\<close>

theorem write_arrives:
  assumes at: "send_at mtu p0 0 p0" and nz: "pn_total_length p0 \<noteq> 0" and qp: "pn_target_qp_num p0 = qp_num"
    and rings: "source_at 0 (wr_receive_queue rings)" "completion_sink (wr_receive_cq rings)"
    and moves: "list_all (move_ok sid pd qp_num) (before @ moves)"
    and before: "responder_run cb before (new_loop_worker qp_num transport backend Responder payload_bytes obs rings) = (l0, lw)"
      "lw_pending_request lw = None" "lw_responder_inflight lw (pn_parent_request_id p0) = None"
    and run: "responder_run cb moves lw = (l, lw')" "requests_taken cb moves lw = send_datagrams (unat mtu) p0"
    and r: "\<And>service. service \<in> request_services moves \<Longrightarrow>
      resolve_rkey sid pd (pn_rkey p0) (pn_remote_address p0) (pn_total_length p0) service = Inr target"
    and mem: "\<And>seg. seg \<in> set (pn_source_segments p0) \<Longrightarrow>
      fits (seg_daemon_address seg) (unat (seg_length seg)) \<and>
      apart (seg_daemon_address seg) (unat (seg_length seg)) target (unat (pn_total_length p0))"
    and copies: "set copies = set (rl_copies l)"
  shows "length (rl_copies l) = room_calls cb moves lw \<and>
    length (send_datagrams (unat mtu) p0) = room_calls cb moves lw + (if lw_pending_request lw' = None then 0 else 1) \<and>
    (lw_pending_request lw' = None \<longrightarrow>
      (\<forall>p. lw_responder_inflight lw' (pn_parent_request_id p0) = Some p \<longrightarrow> rf_parent_error p \<in> {Success, Backend_error} \<and>
         rf_next_payload_index p = pn_payload_count p0 \<and> rf_next_payload_offset p = pn_total_length p0) \<and>
      fold copy_bytes copies memory a =
        (if unat target \<le> a \<and> a < unat target + unat (pn_total_length p0)
         then segment_bytes memory (pn_source_segments p0) ! (a - unat target) else memory a))"
proof -
  let ?ds = "send_datagrams (unat mtu) p0" and ?q = "new_parent (hd (send_datagrams (unat mtu) p0)) target None"
  note T = new_transfer [OF at nz qp rings moves before run r]
  note A = send_accepted(3-5) [where target = target and receive = None, OF at nz]
  have ne: "0 < length ?ds" "hd ?ds = ?ds ! 0" using T(5) by (simp_all add: hd_conv_nth)
  have f: "rqd_parent_request_id (hd ?ds) = pn_parent_request_id p0" "rf_parent_total_length ?q = pn_total_length p0"
      "rf_payload_count ?q = pn_payload_count p0"
    using send_datagram_fields(1,6,9) [OF at nz ne(1)] by (simp_all add: ne(2) new_parent_def)
  have len: "length (parent_copies ?q ?ds) = length ?ds" by (simp add: parent_copies_def)
  have n: "length (rl_copies l) = room_calls cb moves lw" using T(2,3) len by simp
  have "fold copy_bytes copies memory a =
      (if unat target \<le> a \<and> a < unat target + unat (pn_total_length p0)
       then segment_bytes memory (pn_source_segments p0) ! (a - unat target) else memory a)" if "lw_pending_request lw' = None"
    using that T(2,3,4) copies write_delivers_bytes [OF at nz _ mem, where copies = copies and receive = None] len
    by (simp add: waiting_def)
  moreover have "rf_parent_error p \<in> {Success, Backend_error} \<and> rf_next_payload_index p = pn_payload_count p0 \<and>
      rf_next_payload_offset p = pn_total_length p0"
    if "lw_pending_request lw' = None" "lw_responder_inflight lw' (pn_parent_request_id p0) = Some p" for p
    using that T(1,2) A f by (auto simp: transfer_at_def stands_def waiting_def)
  ultimately show ?thesis using n T(2) by (simp add: waiting_def)
qed

text \<open>The send whose only datagram the responder of the scenario has at hand.\<close>

definition demo_entry :: send_slot where
  "demo_entry = demo_send
     \<lparr>ss_header := (ss_header demo_send)\<lparr>sh_opcode := 0, sh_immediate_data := 0\<rparr>,
      ss_sges := (\<lambda>_. \<lparr>sge_address = 0x5000, sge_length = 8, sge_lkey = 1\<rparr>)\<rparr>"

definition demo_single :: pending_send where
  "demo_single = new_pending_send demo_requester (demo_view 1 2) (ss_header demo_entry) (8, [\<lparr>seg_daemon_address = 0x21000, seg_length = 8\<rparr>], 1)"

lemma demo_single_at: "send_at 8 demo_single 0 demo_single"
proof -
  have "resolve_lkey 1 demo_pd_id 1 0x5000 8 demo_service = Inr 0x21000"
    by (simp add: resolve_lkey_def resolve_key_def demo_lookup registry_eval kAccessRemoteWrite_def)
  then have "gather_sges demo_service (demo_view 1 2) 8 (entry_sges demo_entry) (0, [], 0) =
      Inr (8, [\<lparr>seg_daemon_address = 0x21000, seg_length = 8\<rparr>], 1)"
    by (simp add: entry_sges_def demo_entry_def demo_send_def demo_view_def)
  then show ?thesis unfolding demo_single_def by (rule new_pending_send_at(1) [rotated 2]) simp_all
qed

lemma demo_single_fields:
  "pn_total_length demo_single = 8" "pn_parent_request_id demo_single = 0x100000001" "pn_target_qp_num demo_single = 2"
  "pn_rkey demo_single = 2" "pn_remote_address demo_single = 0x5800"
  "pn_source_segments demo_single = [\<lparr>seg_daemon_address = 0x21000, seg_length = 8\<rparr>]" "pn_payload_count demo_single = 1"
  by (simp_all add: demo_single_def new_pending_send_def demo_entry_def demo_send_def demo_view_def next_request_id_def
      demo_requester_def new_loop_worker_def)

lemma demo_single_datagrams: "send_datagrams 8 demo_single = [demo_datagram]"
  by (simp add: send_datagrams_def plan_def chunks.simps datagram_of_def demo_datagram_def demo_single_def new_pending_send_def demo_entry_def
      demo_send_def demo_view_def next_request_id_def demo_requester_def new_loop_worker_def)

theorem write_arrives_witness:
  "room_calls demo_backend demo_moves demo_responder = 1 \<and> fold copy_bytes [demo_copy, demo_copy] (\<lambda>a. of_nat a) 0x21805 = of_nat 0x21005"
proof -
  have start: "responder_run demo_backend [] demo_responder = (\<lparr>rl_opened = [], rl_copies = [], rl_answered = []\<rparr>, demo_responder)"
      "lw_pending_request demo_responder = None" "lw_responder_inflight demo_responder (pn_parent_request_id demo_single) = None"
      "requests_taken demo_backend demo_moves demo_responder = send_datagrams (unat (8 :: u64)) demo_single"
      "lw_pending_request demo_answering = None"
    by (simp_all add: demo_responder_def new_loop_worker_def demo_moves_def demo_single_datagrams demo_answering_def)
  have r: "resolve_rkey 1 demo_pd_id (pn_rkey demo_single) (pn_remote_address demo_single) (pn_total_length demo_single) service = Inr 0x21800"
    if "service \<in> request_services demo_moves" for service
    using that demo_keys(3) by (auto simp: request_services_def demo_moves_def demo_single_fields)
  have ok: "list_all (move_ok 1 demo_pd_id 2) ([] @ demo_moves)" using demo_moves_ok by simp
  from write_arrives [OF demo_single_at _ _ demo_rings_ok(2,4) ok start(1) [unfolded demo_responder_def] _ _ demo_responder_run [unfolded demo_responder_def] _ r,
      where copies = "[demo_copy, demo_copy]" and memory = "\<lambda>a. of_nat a" and a = "0x21805", folded demo_responder_def]
  show ?thesis using start(2-5) by (simp add: demo_single_fields demo_single_datagrams fits_def apart_def segment_bytes_def bytes_at_def)
qed

text \<open>
  C22. A pass of the worker's loop returns: \<open>progress_once\<close> ends on a responder whose backend has only
  finitely many completions to report at a time, whatever the requests, the parents and the other users of the
  rings do; and on a requester while nobody adds to its send queue.
\<close>

theorem progress_once_returns:
  assumes "lw_role lw = Responder \<Longrightarrow> completions_bounded cb m"
    and "lw_role lw = Requester \<Longrightarrow> requester_at UNIV current lw \<and> (\<forall>k. worker_env_ok (env k) \<and> posts_nothing (we_send_queue (env k)))"
  shows "\<exists>progressed lw'. progress_once service cb env lw = Some (progressed, lw')"
proof (cases "worker_qp_view_of (lw_qp_num lw) service")
  case (Inl e)
  then show ?thesis by (auto simp: progress_once_def)
next
  case (Inr view)
  show ?thesis
  proof (cases "lw_role lw")
    case Responder
    note R = responder_loops_return [OF assms(1) [OF Responder]]
    obtain k1 p1 lw1 where 1: "while_true (try_backend_completions cb) env 0 False lw = Some (k1, p1, lw1)" using R(1) by blast
    obtain k2 p2 lw2 where 2: "while_true (try_parent_response view) env k1 p1 lw1 = Some (k2, p2, lw2)" using R(2) by blast
    obtain k3 p3 lw3 where 3: "if_true (try_flush_backend_requests cb) env k2 p2 lw2 = Some (k3, p3, lw3)" using R(4) by blast
    obtain k4 p4 lw4 where 4: "while_true (try_request service view) env k3 p3 lw3 = Some (k4, p4, lw4)" using R(3) by blast
    obtain k5 p5 lw5 where 5: "if_true (try_flush_backend_requests cb) env k4 p4 lw4 = Some (k5, p5, lw5)" using R(4) by blast
    have last: "\<exists>p' lw'. do { (k, p, lw) \<leftarrow> while_true (try_backend_completions cb) env k p lw;
        (k, p, lw) \<leftarrow> while_true (try_parent_response view) env k p lw; Some (p, lw) } = Some (p', lw')" for k p lw
    proof -
      obtain k6 p6 lw6 where 6: "while_true (try_backend_completions cb) env k p lw = Some (k6, p6, lw6)" using R(1) by blast
      obtain k7 p7 lw7 where "while_true (try_parent_response view) env k6 p6 lw6 = Some (k7, p7, lw7)" using R(2) by blast
      then show ?thesis by (simp add: 6)
    qed
    show ?thesis
      using last [of k3 p3 lw3] last [of k5 p5 lw5] by (simp add: progress_once_def Inr Responder 1 2 3 4 5)
  next
    case Requester
    note A = assms(2) [OF Requester]
    obtain k1 p1 lw1 current' where 1: "while_true (try_response view) env 0 False lw = Some (k1, p1, lw1)"
        "requester_at UNIV current' lw1"
      using requester_loops_return(1) [of current lw env] A by blast
    obtain k2 p2 lw2 where 2: "while_true (try_send service view) env k1 p1 lw1 = Some (k2, p2, lw2)"
      using requester_loops_return(2) [OF 1(2), of env] A by blast
    show ?thesis by (simp add: progress_once_def Inr Requester 1 2)
  qed
qed

theorem progress_once_returns_witness:
  "(\<exists>progressed lw'. progress_once demo_service demo_backend (\<lambda>_. demo_env) demo_responder = Some (progressed, lw')) \<and>
   (\<exists>progressed lw'. progress_once demo_service (default_backend (\<lambda>_ b. (False, b)) (\<lambda>b. (None, b))) (\<lambda>_. demo_env) demo_requester = Some (progressed, lw'))"
proof
  have "completions_bounded demo_backend length"
    by (auto simp: completions_bounded_def demo_backend_def default_backend_def demo_pop_batch)
  moreover have "lw_role demo_responder = Responder" by (simp add: demo_responder_def new_loop_worker_def)
  ultimately show "\<exists>progressed lw'. progress_once demo_service demo_backend (\<lambda>_. demo_env) demo_responder = Some (progressed, lw')"
    by (intro progress_once_returns) simp_all
  have "requester_at UNIV None demo_requester" "posts_nothing (we_send_queue demo_env)"
    using new_worker_at [OF demo_rings_ok(1,3)] quiet_posts_nothing by (simp_all add: demo_requester_def demo_env_def)
  moreover have "lw_role demo_requester = Requester" by (simp add: demo_requester_def new_loop_worker_def)
  ultimately show "\<exists>progressed lw'. progress_once demo_service (default_backend (\<lambda>_ b. (False, b)) (\<lambda>b. (None, b))) (\<lambda>_. demo_env) demo_requester =
      Some (progressed, lw')"
    using demo_env_ok by (intro progress_once_returns) auto
qed

text \<open>
  C23. A send under way ends: with room in the transport for its remaining datagrams, as many calls of
  \<open>try_send\<close> push exactly these, whatever the rings' other users do, release the entry of the send
  queue it was made of, and leave the worker ready for the next one.
\<close>

theorem send_completes:
  assumes "requester_at V (Some (p0, k)) lw"
    and "length (lt_requests (lw_transport lw)) + (length (send_datagrams (unat (lw_payload_bytes lw)) p0) - k) \<le> lt_request_capacity (lw_transport lw)"
    and "lw' = ((\<lambda>lw. snd (try_send service view env lw)) ^^ (length (send_datagrams (unat (lw_payload_bytes lw)) p0) - k)) lw"
  shows "lt_requests (lw_transport lw') = lt_requests (lw_transport lw) @ drop k (send_datagrams (unat (lw_payload_bytes lw)) p0) \<and>
    requester_at V None lw' \<and> (\<exists>x. send_of V x p0 \<and> chan_run ring_step (lw_send_queue lw) [Taken [x]] (lw_send_queue lw'))"
  by (rule send_completes_from [OF assms(1) refl assms(2,3)])

theorem send_completes_witness:
  "lt_requests (lw_transport (((\<lambda>lw. snd (try_send demo_service (demo_view 1 2) demo_env lw)) ^^ 3) demo_sending)) = send_datagrams 8 demo_pending"
proof -
  have "lw_payload_bytes demo_sending = 8" "lt_requests (lw_transport demo_sending) = []" "lt_request_capacity (lw_transport demo_sending) = 4"
    by (simp_all add: demo_sending_def demo_requester_def new_loop_worker_def)
  then show ?thesis using send_completes [OF demo_sending_at _ refl, of demo_service "demo_view 1 2" demo_env] by (simp add: demo_pending_length)
qed

end
