(* ===== verification/Word_Masks.thy ===== *)
theory Word_Masks
  imports Ugdr_Prelude
begin

unbundle bit_operations_syntax

text \<open>
  Addresses and counters under the masks the GPU code uses: alignment tests, the test for a power of two, and the
  slot a counter has in a ring whose capacity is a power of two.
\<close>

section \<open>Alignment tests\<close>

lemma unat_take_bit: "unat (take_bit n (x :: u64)) = unat x mod 2 ^ n"
  using unsigned_take_bit_eq [of n x] by (metis take_bit_eq_mod)

lemma and_mask_zero: "x AND mask n = 0 \<longleftrightarrow> unat (x :: u64) mod 2 ^ n = 0"
proof -
  have "unat (x AND mask n) = unat x mod 2 ^ n" using unat_take_bit [of n x] by (simp add: take_bit_eq_mask)
  then show ?thesis by (metis unat_0 unsigned_0 word_unat_eq_iff)
qed

lemma or_and_mask_zero: "(x OR y) AND mask n = 0 \<longleftrightarrow> unat (x :: u64) mod 2 ^ n = 0 \<and> unat y mod 2 ^ n = 0"
  by (simp add: bit.conj_disj_distrib2 or_eq_0_iff and_mask_zero)

lemma xor_and_mask_zero: "(x XOR y) AND mask n = 0 \<longleftrightarrow> unat (x :: u64) mod 2 ^ n = unat y mod 2 ^ n"
proof -
  have "(x XOR y) AND mask n = take_bit n x XOR take_bit n y" by (simp flip: take_bit_eq_mask)
  also have "\<dots> = 0 \<longleftrightarrow> take_bit n x = take_bit n y" by (metis bit.xor_self bit.xor_left_self xor.right_neutral)
  also have "\<dots> \<longleftrightarrow> unat x mod 2 ^ n = unat y mod 2 ^ n"
    by (simp add: word_unat_eq_iff unat_take_bit)
  finally show ?thesis .
qed

lemma masks: "(0 :: u64) = mask 0" "(1 :: u64) = mask 1" "(3 :: u64) = mask 2" "(7 :: u64) = mask 3" "(15 :: u64) = mask 4"
  by (simp_all add: mask_eq_exp_minus_1)

section \<open>Powers of two\<close>

lemma nat_and_pred_zero: "0 < n \<Longrightarrow> n AND (n - 1) = 0 \<Longrightarrow> \<exists>k. n = 2 ^ k" for n :: nat
proof (induction n rule: less_induct)
  case (less n)
  show ?case
  proof (cases "even n")
    case True
    then obtain m where m: "n = 2 * m" by blast
    then have "n AND (n - 1) = 2 * (m AND (m - 1))" 
    proof -
      have "n div 2 = m" "(n - 1) div 2 = m - 1" using m by auto
      then show ?thesis using and_rec [of n "n - 1"] True by simp
    qed
    then have "m AND (m - 1) = 0" using less.prems(2) by simp
    then obtain k where "m = 2 ^ k" using less.IH [of m] less.prems(1) m by auto
    then show ?thesis using m by (metis power_Suc)
  next
    case False
    then obtain m where m: "n = 2 * m + 1" using oddE by blast
    then have "n AND (n - 1) = 2 * m" using and_rec [of n "n - 1"] False by simp
    then show ?thesis using less.prems(2) m by (intro exI [of _ 0]) simp
  qed
qed

lemma word_power_of_two:
  fixes v :: u64
  assumes "v \<noteq> 0" "v AND (v - 1) = 0"
  obtains k where "k < 64" "v = 2 ^ k" "unat v = 2 ^ k" "v - 1 = mask k"
proof -
  have pos: "0 < unat v" using assms(1) by (simp add: unat_gt_0)
  have "unat (v - 1) = unat v - 1" using assms(1) by (simp add: unat_minus_one)
  then have "unat v AND (unat v - 1) = 0" using assms(2) by (metis unsigned_and_eq unsigned_0)
  then obtain k where k: "unat v = 2 ^ k" using nat_and_pred_zero pos by blast
  have "k < 64" 
  proof (rule ccontr)
    assume "\<not> k < 64"
    then have "(2 :: nat) ^ 64 \<le> 2 ^ k" by (intro power_increasing) simp_all
    then show False using k unat_u64_bound [of v] by simp
  qed
  moreover have "v = 2 ^ k"
  proof -
    have "v = of_nat (unat v)" by simp
    also have "\<dots> = 2 ^ k" unfolding k by simp
    finally show ?thesis .
  qed
  ultimately show ?thesis using k by (intro that) (simp_all add: mask_eq_exp_minus_1)
qed

lemma unat_and_mask: "unat ((x :: u64) AND mask k) = unat x mod 2 ^ k"
  using unat_take_bit [of k x] by (simp add: take_bit_eq_mask)

lemma unat_ucast_u64_u32:
  assumes "unat (x :: u64) < 4294967296"
  shows "unat (ucast x :: u32) = unat x"
proof -
  have "unat (ucast x :: u32) = unat (take_bit 32 x)" by (simp add: unsigned_ucast_eq unsigned_take_bit_eq)
  then show ?thesis using assms by (simp add: unat_take_bit)
qed

end
