(* ===== verification/Warp_Copy.thy ===== *)
theory Warp_Copy
  imports Memory_Copy Word_Masks "HOL-Library.Monad_Syntax"
begin

unbundle bit_operations_syntax

text \<open>
  \<^verbatim>\<open>gpu/persistent_copy.cu\<close>, the copy a warp of 32 lanes does together. A lane is a list of accesses, each a
  load followed by a store of 1, 2, 4, 8 or 16 bytes; the lanes run at the same time, so the accesses of
  different lanes happen in any order. Shown: the loops of every lane end, every access is aligned to its width on
  both sides and inside the range, and whatever the order the accesses of the lanes together copy the range.
\<close>

section \<open>Accesses\<close>

record cg_access =
  ac_source :: u64
  ac_target :: u64
  ac_width :: u32

definition copy_cg :: "cg_access \<Rightarrow> memory \<Rightarrow> memory" where
  "copy_cg a = copy_range (unat (ac_source a), unat (ac_target a), unat (ac_width a))"

definition copy_cg_narrow :: "u64 \<Rightarrow> u64 \<Rightarrow> u32 \<Rightarrow> cg_access" where
  "copy_cg_narrow source target width =
     \<lparr>ac_source = source, ac_target = target, ac_width = (if width = 8 \<or> width = 4 \<or> width = 2 then width else 1)\<rparr>"

definition largest_safe_narrow_width :: "u64 \<Rightarrow> u64 \<Rightarrow> u32 \<Rightarrow> u32" where
  "largest_safe_narrow_width source target remaining =
     (case find (\<lambda>width. remaining \<ge> width \<and> (source OR target) AND ucast (width - 1) = 0) [8, 4, 2, 1] of
        Some width \<Rightarrow> width | None \<Rightarrow> 1)"

lemma width_cases: "largest_safe_narrow_width source target remaining \<in> {1, 2, 4, 8}"
  by (simp add: largest_safe_narrow_width_def)

lemma width_le: "remaining \<noteq> 0 \<Longrightarrow> largest_safe_narrow_width source target remaining \<le> remaining"
  by (simp add: largest_safe_narrow_width_def word_le_nat_alt unat_gt_0 Suc_le_eq)

function copy_cg_narrow_serial :: "u64 \<Rightarrow> u64 \<Rightarrow> u32 \<Rightarrow> cg_access list" where
  "copy_cg_narrow_serial source target bytes =
     (if bytes = 0 then []
      else let width = largest_safe_narrow_width source target bytes
           in copy_cg_narrow source target width # copy_cg_narrow_serial (source + ucast width) (target + ucast width) (bytes - width))"
  by pat_completeness auto
termination
proof (relation "measure (\<lambda>(_, _, bytes). unat bytes)")
  fix source target :: u64 and bytes width :: u32
  assume "bytes \<noteq> 0" "width = largest_safe_narrow_width source target bytes"
  then have "width \<le> bytes" "width \<noteq> 0" using width_le width_cases [of source target bytes] by auto
  then show "((source + ucast width, target + ucast width, bytes - width), source, target, bytes) \<in> measure (\<lambda>(_, _, bytes). unat bytes)"
    using \<open>bytes \<noteq> 0\<close> by (simp add: unat_sub word_le_nat_alt unat_gt_0)
qed simp

declare copy_cg_narrow_serial.simps [simp del]

definition common_bulk_width :: "u64 \<Rightarrow> u64 \<Rightarrow> u32" where
  "common_bulk_width source target =
     (let different_bits = source XOR target
      in if different_bits AND 15 = 0 then 16
         else if different_bits AND 7 = 0 then 8
         else if different_bits AND 3 = 0 then 4
         else if different_bits AND 1 = 0 then 2
         else 1)"

text \<open>\<open>for (unit = lane; unit < unit_count; unit += 32)\<close>, on 32-bit words.\<close>

partial_function (option) lane_units :: "u32 \<Rightarrow> u32 \<Rightarrow> u32 list option" where
  "lane_units unit unit_count =
     (if unit < unit_count
      then do { units \<leftarrow> lane_units (unit + 32) unit_count; Some (unit # units) }
      else Some [])"

definition copy_cg_narrow_bulk_warp :: "u32 \<Rightarrow> u64 \<Rightarrow> u64 \<Rightarrow> u32 \<Rightarrow> u32 \<Rightarrow> cg_access list option" where
  "copy_cg_narrow_bulk_warp width source target unit_count lane =
     map_option (map (\<lambda>unit. let offset = unit * width in copy_cg_narrow (source + ucast offset) (target + ucast offset) width))
       (lane_units lane unit_count)"

text \<open>The loops over units of 16 bytes.\<close>

definition copy_cg_16_units :: "u64 \<Rightarrow> u64 \<Rightarrow> u32 \<Rightarrow> u32 \<Rightarrow> cg_access list option" where
  "copy_cg_16_units source target unit_count lane =
     map_option (map (\<lambda>unit. let offset = unit * 16 in \<lparr>ac_source = source + ucast offset, ac_target = target + ucast offset, ac_width = 16\<rparr>))
       (lane_units lane unit_count)"

definition copy_cg_16_warp_aligned :: "u64 \<Rightarrow> u64 \<Rightarrow> u32 \<Rightarrow> u32 \<Rightarrow> cg_access list option" where
  "copy_cg_16_warp_aligned source target len lane = copy_cg_16_units source target (len div 16) lane"

definition copy_prefix :: "u64 \<Rightarrow> u32 \<Rightarrow> u32 \<Rightarrow> u32" where
  "copy_prefix source width len =
     (let misalignment = source AND ucast (width - 1);
          prefix = ucast ((ucast width - misalignment) AND ucast (width - 1))
      in if prefix > len then len else prefix)"

definition copy_cg_warp_generic :: "u64 \<Rightarrow> u64 \<Rightarrow> u32 \<Rightarrow> u32 \<Rightarrow> cg_access list option" where
  "copy_cg_warp_generic source target len lane =
     (let width = common_bulk_width source target;
          prefix = copy_prefix source width len;
          head = (if lane = 0 \<and> prefix \<noteq> 0 then copy_cg_narrow_serial source target prefix else []);
          source = source + ucast prefix;
          target = target + ucast prefix;
          remaining = len - prefix;
          unit_count = remaining div width;
          body_bytes = unit_count * width;
          tail = remaining - body_bytes
      in do {
           body \<leftarrow> (if width = 16 then copy_cg_16_units source target unit_count lane
                    else copy_cg_narrow_bulk_warp width source target unit_count lane);
           Some (head @ body @
             (if lane = 0 \<and> tail \<noteq> 0
              then copy_cg_narrow_serial (source + ucast body_bytes) (target + ucast body_bytes) tail else []))
         })"

definition copy_cg_warp :: "u64 \<Rightarrow> u64 \<Rightarrow> u32 \<Rightarrow> u32 \<Rightarrow> cg_access list option" where
  "copy_cg_warp source target len lane =
     (if (source OR target OR ucast len) AND 15 = 0 then copy_cg_16_warp_aligned source target len lane
      else copy_cg_warp_generic source target len lane)"

record copy_access_counts =
  cc_copied_bytes :: u64
  cc_vector_128_bytes :: u64
  cc_narrow_bytes :: u64

text \<open>What lane 0 stores after the copy.\<close>

definition copy_cg_warp_counted :: "u64 \<Rightarrow> u64 \<Rightarrow> u32 \<Rightarrow> copy_access_counts" where
  "copy_cg_warp_counted source target len =
     (let width = common_bulk_width source target;
          prefix = copy_prefix source width len;
          vector_bytes = (if width = 16 then ucast (((len - prefix) div 16) * 16) else 0)
      in \<lparr>cc_copied_bytes = ucast len, cc_vector_128_bytes = vector_bytes, cc_narrow_bytes = ucast len - vector_bytes\<rparr>)"

section \<open>Alignment\<close>

text \<open>The access is naturally aligned on both sides, as the load and store instructions demand.\<close>

definition access_aligned :: "cg_access \<Rightarrow> bool" where
  "access_aligned a \<longleftrightarrow> unat (ac_width a) \<in> {1, 2, 4, 8, 16} \<and>
     unat (ac_source a) mod unat (ac_width a) = 0 \<and> unat (ac_target a) mod unat (ac_width a) = 0"

definition access_range :: "cg_access \<Rightarrow> range_copy" where
  "access_range a = (unat (ac_source a), unat (ac_target a), unat (ac_width a))"

lemma copy_cg_range: "copy_cg a = copy_range (access_range a)"
  by (simp add: copy_cg_def access_range_def)

lemma width_aligned:
  assumes "width = largest_safe_narrow_width source target remaining"
  shows "unat source mod unat width = 0" "unat target mod unat width = 0"
  using or_and_mask_zero [of source target 1] or_and_mask_zero [of source target 2] or_and_mask_zero [of source target 3]
  unfolding assms largest_safe_narrow_width_def by (simp_all add: mask_eq_exp_minus_1)

lemma common_width:
  assumes "width = common_bulk_width source target"
  shows "unat width \<in> {1, 2, 4, 8, 16}" "unat source mod unat width = unat target mod unat width"
  using xor_and_mask_zero [of source target 1] xor_and_mask_zero [of source target 2] xor_and_mask_zero [of source target 3]
    xor_and_mask_zero [of source target 4]
  unfolding assms common_bulk_width_def by (simp_all add: mask_eq_exp_minus_1 Let_def)

section \<open>Accesses that copy a range\<close>

definition copies_range :: "cg_access set \<Rightarrow> range_copy \<Rightarrow> bool" where
  "copies_range A r \<longleftrightarrow> tiles (access_range ` A) r \<and> (\<forall>a \<in> A. access_aligned a)"

lemma copies_range_none: "copies_range {} (s, t, 0)"
  by (simp add: copies_range_def tiles_none)

lemma copies_range_append:
  assumes "copies_range A (s, t, m)" "copies_range B (s + m, t + m, n)"
  shows "copies_range (A \<union> B) (s, t, m + n)"
  using assms tiles_append [of "access_range ` A" s t m "access_range ` B" n] by (auto simp: copies_range_def image_Un)

lemma copies_range_one:
  assumes "access_range a = (s, t, n)" "access_aligned a"
  shows "copies_range {a} (s, t, n)"
  using assms by (simp add: copies_range_def tiles_def part_of_def)

text \<open>Whatever the order of the accesses.\<close>

lemma copies_range_fold:
  assumes "copies_range (set as) (s, t, n)" and apart: "s + n \<le> t \<or> t + n \<le> s"
  shows "fold copy_cg as mem = copy_range (s, t, n) mem"
proof -
  have "copy_cg = copy_range \<circ> access_range" by (simp add: fun_eq_iff copy_cg_range)
  then have "fold copy_cg as mem = fold copy_range (map access_range as) mem" by (simp add: fold_map)
  also have "\<dots> = copy_range (s, t, n) mem"
    using assms by (intro tiles_copy) (auto simp: copies_range_def range_covers_def range_source_def)
  finally show ?thesis .
qed

section \<open>The serial copy\<close>

lemma narrow_copies:
  assumes "width = largest_safe_narrow_width source target bytes"
  shows "copies_range {copy_cg_narrow source target width} (unat source, unat target, unat width)"
  using width_cases [of source target bytes] width_aligned [OF assms] assms
  by (intro copies_range_one) (auto simp: access_range_def access_aligned_def copy_cg_narrow_def)

lemma narrow_serial_copies:
  assumes "unat source + unat bytes < 18446744073709551616" "unat target + unat bytes < 18446744073709551616"
  shows "copies_range (set (copy_cg_narrow_serial source target bytes)) (unat source, unat target, unat bytes)"
  using assms
proof (induction source target bytes rule: copy_cg_narrow_serial.induct)
  case (1 source target bytes)
  define w where "w = largest_safe_narrow_width source target bytes"
  show ?case
  proof (cases "bytes = 0")
    case False
    then have w: "unat w \<le> unat bytes" "unat (bytes - w) = unat bytes - unat w"
      using width_le [of bytes source target] by (simp_all add: w_def word_le_nat_alt unat_sub)
    have u: "unat (source + ucast w) = unat source + unat w" "unat (target + ucast w) = unat target + unat w"
      using 1(2,3) w(1) by (auto intro!: unat_add_u64 [THEN trans])
    have "copies_range (set (copy_cg_narrow_serial (source + ucast w) (target + ucast w) (bytes - w)))
        (unat source + unat w, unat target + unat w, unat bytes - unat w)"
      using 1(1) [OF False w_def] 1(2,3) u w by simp
    from copies_range_append [OF narrow_copies [OF w_def] this] show ?thesis
      using False w(1) by (subst copy_cg_narrow_serial.simps) (simp add: Let_def flip: w_def)
  qed (simp add: copy_cg_narrow_serial.simps copies_range_none)
qed

section \<open>The loops over units\<close>

lemma lane_units_returns:
  assumes "unat unit_count \<le> 4294967264"
  shows "\<exists>units. lane_units unit unit_count = Some units \<and>
    unat ` set units = {u. u < unat unit_count \<and> unat unit \<le> u \<and> u mod 32 = unat unit mod 32}"
proof (induction "unat unit_count - unat unit" arbitrary: unit rule: less_induct)
  case less
  show ?case
  proof (cases "unit < unit_count")
    case True
    then have lt: "unat unit < unat unit_count" by (simp add: word_less_nat_alt)
    have u: "unat (unit + 32) = unat unit + 32" using lt assms by (simp add: unat_word_ariths)
    then have "unat unit_count - unat (unit + 32) < unat unit_count - unat unit" using lt by simp
    from less [OF this] u obtain units where IH: "lane_units (unit + 32) unit_count = Some units"
        "unat ` set units = {u. u < unat unit_count \<and> unat unit + 32 \<le> u \<and> u mod 32 = unat unit mod 32}"
      by auto
    have "{u. u < unat unit_count \<and> unat unit \<le> u \<and> u mod 32 = unat unit mod 32} =
        insert (unat unit) {u. u < unat unit_count \<and> unat unit + 32 \<le> u \<and> u mod 32 = unat unit mod 32}"
    proof -
      have "u = unat unit \<or> unat unit + 32 \<le> u" if "unat unit \<le> u" "u mod 32 = unat unit mod 32" for u
        using that mod_eq_dvd_iff_nat [of "unat unit" u 32] dvd_imp_le [of 32 "u - unat unit"] by linarith
      then show ?thesis using lt by auto
    qed
    then show ?thesis using True IH by (subst lane_units.simps) simp
  next
    case False
    then have "\<not> unat unit < unat unit_count" by (simp add: word_less_nat_alt)
    then show ?thesis using False by (subst lane_units.simps) auto
  qed
qed

lemma lanes_units:
  assumes "unat unit_count \<le> 4294967264"
  obtains units where "\<And>lane. lane_units lane unit_count = Some (units lane)"
    "unat ` (\<Union>lane \<in> {lane. lane < 32}. set (units lane)) = {..<unat unit_count}"
proof -
  obtain units where u: "\<And>lane. lane_units lane unit_count = Some (units lane)"
      "\<And>lane. unat ` set (units lane) = {u. u < unat unit_count \<and> unat lane \<le> u \<and> u mod 32 = unat lane mod 32}"
    using lane_units_returns [OF assms] by metis
  have "u \<in> unat ` (\<Union>lane \<in> {lane. lane < 32}. set (units lane))" if "u < unat unit_count" for u
  proof -
    have lane: "unat (of_nat (u mod 32) :: u32) = u mod 32" by (rule unat_of_nat_u32) (use mod_less_divisor [of 32 u] in linarith)
    then have "u \<in> unat ` set (units (of_nat (u mod 32)))" using u(2) that by simp
    moreover have "(of_nat (u mod 32) :: u32) < 32" using lane by (simp add: word_less_nat_alt)
    ultimately show ?thesis by blast
  qed
  then have "unat ` (\<Union>lane \<in> {lane. lane < 32}. set (units lane)) = {..<unat unit_count}" using u(2) by (auto simp: image_UN)
  then show ?thesis using u(1) that by blast
qed

definition unit_access :: "u32 \<Rightarrow> u64 \<Rightarrow> u64 \<Rightarrow> u32 \<Rightarrow> cg_access" where
  "unit_access width source target unit =
     \<lparr>ac_source = source + ucast (unit * width), ac_target = target + ucast (unit * width), ac_width = width\<rparr>"

lemma bulk_units:
  "copy_cg_16_units source target unit_count lane = map_option (map (unit_access 16 source target)) (lane_units lane unit_count)"
  "width \<in> {1, 2, 4, 8} \<Longrightarrow>
   copy_cg_narrow_bulk_warp width source target unit_count lane = map_option (map (unit_access width source target)) (lane_units lane unit_count)"
  by (auto simp: copy_cg_16_units_def copy_cg_narrow_bulk_warp_def unit_access_def copy_cg_narrow_def Let_def intro!: map_option_cong)

lemma unit_access_copies:
  assumes w: "unat width \<in> {1, 2, 4, 8, 16}" "unat source mod unat width = 0" "unat target mod unat width = 0"
    and fit: "unat unit_count * unat width < 4294967296" "unat source + unat unit_count * unat width < 18446744073709551616"
      "unat target + unat unit_count * unat width < 18446744073709551616"
    and u: "unat unit < unat unit_count"
  shows "access_range (unit_access width source target unit) =
      (unat source + unat unit * unat width, unat target + unat unit * unat width, unat width)"
    and "access_aligned (unit_access width source target unit)"
proof -
  have le: "unat unit * unat width \<le> unat unit_count * unat width" using u by simp
  then have "unat unit * unat width < 4294967296" using fit(1) by linarith
  then have o1: "unat (unit * width) = unat unit * unat width" by (simp add: unat_word_ariths)
  then have o2: "unat (source + ucast (unit * width)) = unat source + unat unit * unat width"
    "unat (target + ucast (unit * width)) = unat target + unat unit * unat width"
  proof -
    have "unat source + unat unit * unat width < 18446744073709551616" "unat target + unat unit * unat width < 18446744073709551616"
      using fit le by linarith+
    then show "unat (source + ucast (unit * width)) = unat source + unat unit * unat width"
      "unat (target + ucast (unit * width)) = unat target + unat unit * unat width"
      by (simp_all add: unat_add_u64 o1)
  qed
  then show "access_range (unit_access width source target unit) =
      (unat source + unat unit * unat width, unat target + unat unit * unat width, unat width)"
    by (simp add: access_range_def unit_access_def)
  show "access_aligned (unit_access width source target unit)"
    using w o2 unfolding access_aligned_def unit_access_def by (simp add: mod_add_left_eq [symmetric])
qed

lemma units_copy:
  assumes w: "unat width \<in> {1, 2, 4, 8, 16}"
    and al: "0 < unat unit_count \<Longrightarrow> unat source mod unat width = 0 \<and> unat target mod unat width = 0"
    and fit: "unat unit_count * unat width < 4294967296" "unat source + unat unit_count * unat width < 18446744073709551616"
      "unat target + unat unit_count * unat width < 18446744073709551616" "unat unit_count \<le> 4294967264"
  obtains lanes where "\<And>lane. map_option (map (unit_access width source target)) (lane_units lane unit_count) = Some (lanes lane)"
    "copies_range (\<Union>lane \<in> {lane. lane < 32}. set (lanes lane)) (unat source, unat target, unat unit_count * unat width)"
proof -
  obtain units where u: "\<And>lane. lane_units lane unit_count = Some (units lane)"
      "unat ` (\<Union>lane \<in> {lane. lane < 32}. set (units lane)) = {..<unat unit_count}"
    using lanes_units [OF fit(4)] by blast
  let ?U = "\<Union>lane \<in> {lane. lane < 32}. set (units lane)" and ?f = "unit_access width source target"
  have lt: "unat unit < unat unit_count" if "unit \<in> ?U" for unit using u(2) that by blast
  have A: "access_range (?f unit) = (unat source + unat unit * unat width, unat target + unat unit * unat width, unat width)"
      "access_aligned (?f unit)" if "unit \<in> ?U" for unit
    using lt [OF that] al by (intro unit_access_copies [OF w _ _ fit(1-3)]; simp)+
  have "access_range ` ?f ` ?U = (\<lambda>u. (unat source + u * unat width, unat target + u * unat width, unat width)) ` unat ` ?U"
    unfolding image_image using A(1) by (intro image_cong) simp_all
  moreover have "0 < unat width" using w(1) by auto
  ultimately have "copies_range (?f ` ?U) (unat source, unat target, unat unit_count * unat width)"
    using tiles_units A(2) unfolding copies_range_def u(2) by auto
  then show ?thesis using that [of "\<lambda>lane. map ?f (units lane)"] u(1) by (simp add: image_UN)
qed

section \<open>The warp\<close>

lemma prefix_value:
  assumes w: "unat width \<in> {1, 2, 4, 8, 16}"
  shows "unat (copy_prefix source width len) = min (unat len) ((unat width - unat source mod unat width) mod unat width)"
proof -
  have "width \<in> {1, 2, 4, 8, 16}" using w by (auto simp: word_unat_eq_iff)
  then obtain n where n: "ucast (width - 1) = (mask n :: u64)" "unat width = 2 ^ n" "n \<le> 4"
    using masks by (auto intro: that [of 0] that [of 1] that [of 2] that [of 3] that [of 4])
  let ?m = "source AND mask n"
  have m: "unat ?m = unat source mod unat width" "unat ?m \<le> unat width"
    using unat_take_bit [of n source] n(2) by (simp_all add: take_bit_eq_mask)
  have d: "unat (ucast width - ?m) = unat width - unat source mod unat width"
    using m by (subst unat_sub) (simp_all add: word_le_nat_alt)
  have v: "unat ((ucast width - ?m) AND mask n) = (unat width - unat source mod unat width) mod unat width"
    using unat_take_bit [of n "ucast width - ?m"] d n(2) by (simp add: take_bit_eq_mask)
  have "(unat width - unat source mod unat width) mod unat width < 16"
    using w by auto
  then have "unat (ucast ((ucast width - ?m) AND mask n) :: u32) = (unat width - unat source mod unat width) mod unat width"
    using v by (simp add: unsigned_ucast_eq take_bit_eq_mod)
  then show ?thesis by (simp add: copy_prefix_def n(1) Let_def word_less_nat_alt)
qed

lemma align_up: "0 < w \<Longrightarrow> (s + (w - s mod w) mod w) mod w = (0 :: nat)"
proof -
  assume w: "0 < w"
  have "(s + (w - s mod w) mod w) mod w = (s mod w + (w - s mod w)) mod w" by (simp add: mod_simps)
  also have "s mod w + (w - s mod w) = w" using w by (simp add: less_imp_le)
  finally show ?thesis by simp
qed

lemma lane_zero_union:
  fixes L :: "u32 set"
  assumes "0 \<in> L"
  shows "(\<Union>lane \<in> L. set ((if lane = 0 \<and> c then h else []) @ b lane @ (if lane = 0 \<and> d then t else []))) =
    (if c then set h else {}) \<union> ((\<Union>lane \<in> L. set (b lane)) \<union> (if d then set t else {}))"
  using assms by (auto split: if_splits)

lemma generic_copies:
  assumes len: "unat len \<le> 4294967264"
    and fit: "unat source + unat len < 18446744073709551616" "unat target + unat len < 18446744073709551616"
  obtains lanes where "\<And>lane. copy_cg_warp_generic source target len lane = Some (lanes lane)"
    "copies_range (\<Union>lane \<in> {lane. lane < 32}. set (lanes lane)) (unat source, unat target, unat len)"
proof -
  define w where "w = common_bulk_width source target"
  define p where "p = copy_prefix source w len"
  define n where "n = (len - p) div w"
  define t where "t = len - p - n * w"
  note W = common_width [OF w_def]
  have p: "unat p = min (unat len) ((unat w - unat source mod unat w) mod unat w)" unfolding p_def by (rule prefix_value [OF W(1)])
  have r: "unat (len - p) = unat len - unat p" using p by (simp add: unat_sub word_le_nat_alt)
  have n: "unat n = (unat len - unat p) div unat w" unfolding n_def by (simp add: unat_div r)
  have nw: "unat n * unat w \<le> unat len - unat p" unfolding n by (rule div_times_less_eq_dividend)
  then have "unat n * unat w < 4294967296" using len by linarith
  then have b: "unat (n * w) = unat n * unat w" by (simp add: unat_word_ariths)
  have t: "unat t = unat len - unat p - unat n * unat w" unfolding t_def using b r nw by (simp add: unat_sub word_le_nat_alt)
  have pl: "unat p \<le> unat len" using p by simp
  have nle: "unat n \<le> 4294967264" using len div_le_dividend [of "unat len - unat p" "unat w"] unfolding n by linarith
  let ?s = "source + ucast p" and ?t = "target + ucast p"
  have s1: "unat ?s = unat source + unat p" "unat ?t = unat target + unat p" using fit pl by (simp_all add: unat_add_u64)
  have s2: "unat (?s + ucast (n * w)) = unat source + unat p + unat n * unat w" "unat (?t + ucast (n * w)) = unat target + unat p + unat n * unat w"
    using fit pl nw by (simp_all add: unat_add_u64 s1 b)
  define hd_as where "hd_as = copy_cg_narrow_serial source target p"
  define tl_as where "tl_as = copy_cg_narrow_serial (?s + ucast (n * w)) (?t + ucast (n * w)) t"
  have H: "copies_range (set hd_as) (unat source, unat target, unat p)"
    unfolding hd_as_def using fit pl by (intro narrow_serial_copies) simp_all
  have T: "copies_range (set tl_as) (unat source + unat p + unat n * unat w, unat target + unat p + unat n * unat w, unat t)"
    unfolding tl_as_def using narrow_serial_copies [of "?s + ucast (n * w)" t "?t + ucast (n * w)"] fit pl nw t s2 by simp
  have al: "unat ?s mod unat w = 0 \<and> unat ?t mod unat w = 0" if "0 < unat n"
  proof -
    have "unat p < unat len" using that n by (cases "unat p = unat len") (use pl in auto)
    then have "unat p = (unat w - unat source mod unat w) mod unat w" using p by linarith
    moreover have "0 < unat w" using W(1) by auto
    ultimately show ?thesis using align_up [of "unat w" "unat source"] align_up [of "unat w" "unat target"] W(2) s1 by simp
  qed
  have fit': "unat ?s + unat n * unat w < 18446744073709551616" "unat ?t + unat n * unat w < 18446744073709551616"
    using fit pl nw s1 by linarith+
  obtain body where B: "\<And>lane. map_option (map (unit_access w ?s ?t)) (lane_units lane n) = Some (body lane)"
      "copies_range (\<Union>lane \<in> {lane. lane < 32}. set (body lane)) (unat ?s, unat ?t, unat n * unat w)"
    using units_copy [OF W(1) al \<open>unat n * unat w < 4294967296\<close> fit' nle] by blast
  have body: "(if w = 16 then copy_cg_16_units ?s ?t n lane else copy_cg_narrow_bulk_warp w ?s ?t n lane) = Some (body lane)" for lane
  proof -
    have "w = 16 \<or> w \<in> {1, 2, 4, 8}" using W(1) by (auto simp: word_unat_eq_iff)
    then show ?thesis using B(1) bulk_units by metis
  qed
  have all: "unat p + (unat n * unat w + unat t) = unat len" using t nw pl by linarith
  let ?lanes = "\<lambda>lane. (if lane = 0 \<and> p \<noteq> 0 then hd_as else []) @ body lane @ (if lane = 0 \<and> t \<noteq> 0 then tl_as else [])"
  have "copy_cg_warp_generic source target len lane = Some (?lanes lane)" for lane
    unfolding copy_cg_warp_generic_def Let_def w_def [symmetric] p_def [symmetric] n_def [symmetric] t_def [symmetric] body
    by (simp only: hd_as_def tl_as_def Option.bind_lunit)
  moreover have "(\<Union>lane \<in> {lane. lane < 32}. set (?lanes lane)) = set hd_as \<union> ((\<Union>lane \<in> {lane. lane < 32}. set (body lane)) \<union> set tl_as)"
  proof -
    have "hd_as = []" if "p = 0" using that by (simp add: hd_as_def copy_cg_narrow_serial.simps)
    moreover have "tl_as = []" if "t = 0" using that by (simp add: tl_as_def copy_cg_narrow_serial.simps)
    ultimately have "(if p \<noteq> 0 then set hd_as else {}) = set hd_as" "(if t \<noteq> 0 then set tl_as else {}) = set tl_as" by simp_all
    then show ?thesis using lane_zero_union [of "{lane. lane < 32}" "p \<noteq> 0" hd_as body "t \<noteq> 0" tl_as] by simp
  qed
  moreover have "copies_range (set hd_as \<union> ((\<Union>lane \<in> {lane. lane < 32}. set (body lane)) \<union> set tl_as)) (unat source, unat target, unat len)"
    using copies_range_append [OF H copies_range_append [OF B(2) [unfolded s1] T]] all by (simp only:)
  ultimately show ?thesis by (intro that [of ?lanes]) (simp_all only:)
qed

lemma warp_copies:
  assumes len: "unat len \<le> 4294967264"
    and fit: "unat source + unat len < 18446744073709551616" "unat target + unat len < 18446744073709551616"
  obtains lanes where "\<And>lane. copy_cg_warp source target len lane = Some (lanes lane)"
    "copies_range (\<Union>lane \<in> {lane. lane < 32}. set (lanes lane)) (unat source, unat target, unat len)"
proof (cases "(source OR target OR ucast len) AND 15 = 0")
  case True
  then have al: "unat source mod 16 = 0" "unat target mod 16 = 0" "unat len mod 16 = 0"
    using or_and_mask_zero [of source "target OR ucast len" 4] or_and_mask_zero [of target "ucast len" 4] and_mask_zero [of "target OR ucast len" 4]
    by (simp_all add: masks(5) or.assoc)
  have n: "unat (len div 16) * unat (16 :: u32) = unat len" using al(3) div_mult_mod_eq [of "unat len" 16] by (simp add: unat_div)
  have "unat (len div 16) \<le> 4294967264" using n len by simp
  moreover have "unat (len div 16) * unat (16 :: u32) < 4294967296" using n len by simp
  ultimately
  obtain lanes where "\<And>lane. map_option (map (unit_access 16 source target)) (lane_units lane (len div 16)) = Some (lanes lane)"
    "copies_range (\<Union>lane \<in> {lane. lane < 32}. set (lanes lane)) (unat source, unat target, unat len)"
    using units_copy [where width = "16" and unit_count = "len div 16" and source = source and target = target] al fit
    unfolding n by auto
  then show ?thesis using that [of lanes] True by (simp add: copy_cg_warp_def copy_cg_16_warp_aligned_def bulk_units)
next
  case False
  then show ?thesis using generic_copies [OF assms] that by (metis copy_cg_warp_def)
qed

lemma counted_values:
  assumes "c = copy_cg_warp_counted source target len"
  shows "cc_vector_128_bytes c + cc_narrow_bytes c = cc_copied_bytes c" "unat (cc_copied_bytes c) = unat len"
    "unat (cc_vector_128_bytes c) \<le> unat len"
proof -
  have "unat ((len - p) div 16 * 16) \<le> unat len" if "unat p \<le> unat len" for p
  proof -
    have "unat (len - p) = unat len - unat p" using that by (simp add: unat_sub word_le_nat_alt)
    then have le: "unat ((len - p) div 16) * 16 \<le> unat len - unat p"
      using div_times_less_eq_dividend [of "unat len - unat p" 16] by (simp add: unat_div)
    then have "unat ((len - p) div 16) * 16 < 4294967296" using unat_u32_bound [of len] by linarith
    then have "unat ((len - p) div 16 * 16) = unat ((len - p) div 16) * 16" by (simp add: unat_word_ariths)
    then show ?thesis using le by linarith
  qed
  moreover have "unat (copy_prefix source (common_bulk_width source target) len) \<le> unat len"
    using prefix_value [OF common_width(1) [OF refl]] by simp
  ultimately show "unat (cc_vector_128_bytes c) \<le> unat len" by (cases "common_bulk_width source target = 16") (simp_all add: assms copy_cg_warp_counted_def Let_def)
qed (simp_all add: assms copy_cg_warp_counted_def Let_def)

section \<open>The copy of a warp\<close>

text \<open>
  C16. The 32 lanes of a warp copy a range that neither overlaps its target nor wraps around: the loops of every lane
  end, every load and store is aligned to its width of 1, 2, 4, 8 or 16 bytes, and in whatever order the accesses of
  the lanes happen, the memory ends up as if the range had been copied at once, byte for byte, and nothing outside
  the target is written.
\<close>

theorem warp_copies_range:
  assumes "unat len \<le> 2 ^ 32 - 32"
    and "unat source + unat len < 2 ^ 64" "unat target + unat len < 2 ^ 64"
    and "unat source + unat len \<le> unat target \<or> unat target + unat len \<le> unat source"
  shows "\<exists>lanes. (\<forall>lane. copy_cg_warp source target len lane = Some (lanes lane)) \<and>
    (\<forall>lane \<in> {lane. lane < 32}. \<forall>a \<in> set (lanes lane). access_aligned a) \<and>
    (\<forall>as. set as = (\<Union>lane \<in> {lane. lane < 32}. set (lanes lane)) \<longrightarrow>
       fold copy_cg as memory = copy_range (unat source, unat target, unat len) memory)"
proof -
  have "unat len \<le> 4294967264" "unat source + unat len < 18446744073709551616" "unat target + unat len < 18446744073709551616"
    using assms by simp_all
  then obtain lanes where L: "\<And>lane. copy_cg_warp source target len lane = Some (lanes lane)"
      "copies_range (\<Union>lane \<in> {lane. lane < 32}. set (lanes lane)) (unat source, unat target, unat len)"
    using warp_copies by blast
  then show ?thesis using copies_range_fold assms(4) by (intro exI [of _ lanes]) (auto simp: copies_range_def)
qed

theorem warp_copies_range_witness:
  "\<exists>lanes. (\<forall>lane. copy_cg_warp 4099 8195 45 lane = Some (lanes lane)) \<and>
    (\<forall>lane \<in> {lane. lane < 32}. \<forall>a \<in> set (lanes lane). access_aligned a) \<and>
    (\<forall>as. set as = (\<Union>lane \<in> {lane. lane < 32}. set (lanes lane)) \<longrightarrow>
       fold copy_cg as (\<lambda>a. of_nat a) = copy_range (4099, 8195, 45) (\<lambda>a. of_nat a))"
  using warp_copies_range [of 45 4099 8195 "\<lambda>a. of_nat a"] by simp

end
