(* ===== verification/Copy_Config.thy ===== *)
theory Copy_Config
  imports Word_Masks
begin

unbundle bit_operations_syntax

text \<open>
  The host side of \<^verbatim>\<open>gpu/persistent_copy.hpp\<close> and \<^verbatim>\<open>gpu/persistent_copy.cu\<close> that is shared by the copy queues: tasks
  and completions, the names of the models, status codes, the sizes of the queues' memory, the validation of a
  configuration and the lifecycle that counts tasks. Shown: names are parsed back, sizes never overflow and are
  those of the slots they hold, an accepted configuration can be allocated, and the lifecycle never loses count.
\<close>

abbreviation (input) ENODEV :: int where "ENODEV \<equiv> 19"

section \<open>Tasks, completions and models\<close>

datatype persistent_copy_model =
    Direct_atomic | Dynamic_sharded_spsc | Static_partition_spsc | Warp_specialized | Warp_specialized_pipeline

datatype copy_task_result = Task_success | Invalid_task | Copy_failed

record copy_task =
  ct_task_id :: u64
  ct_target_address :: u64
  ct_length :: u32
  ct_relative_offset :: u32

record copy_completion =
  cp_task_id :: u64
  cp_result :: copy_task_result

definition kPersistentCopyMaxPayloadBytes :: nat where "kPersistentCopyMaxPayloadBytes = 8192"
definition kPersistentCopyMaxStageBufferBytes :: u64 where "kPersistentCopyMaxStageBufferBytes = 4294967296"
definition kWarpSpecializedMetaBatch :: u32 where "kWarpSpecializedMetaBatch = 32"

definition persistent_copy_model_name :: "persistent_copy_model \<Rightarrow> string" where
  "persistent_copy_model_name model =
     (case model of
        Direct_atomic \<Rightarrow> ''direct_atomic''
      | Dynamic_sharded_spsc \<Rightarrow> ''dynamic_sharded_spsc''
      | Static_partition_spsc \<Rightarrow> ''static_partition_spsc''
      | Warp_specialized \<Rightarrow> ''warp_specialized''
      | Warp_specialized_pipeline \<Rightarrow> ''warp_specialized_pipeline'')"

definition parse_persistent_copy_model :: "string \<Rightarrow> int + persistent_copy_model" where
  "parse_persistent_copy_model name =
     (case find (\<lambda>candidate. name = persistent_copy_model_name candidate)
             [Direct_atomic, Dynamic_sharded_spsc, Static_partition_spsc, Warp_specialized, Warp_specialized_pipeline] of
        Some candidate \<Rightarrow> Inr candidate
      | None \<Rightarrow> Inl EINVAL)"

section \<open>Status codes of the driver\<close>

datatype cuda_error =
    CudaSuccess | CudaErrorInvalidValue | CudaErrorInvalidDevice | CudaErrorInvalidResourceHandle
  | CudaErrorMemoryAllocation | CudaErrorNoDevice | CudaErrorInsufficientDriver | CudaErrorNotSupported | CudaErrorOther

definition cuda_status :: "cuda_error \<Rightarrow> int" where
  "cuda_status status =
     (case status of
        CudaSuccess \<Rightarrow> OK
      | CudaErrorInvalidValue \<Rightarrow> EINVAL | CudaErrorInvalidDevice \<Rightarrow> EINVAL | CudaErrorInvalidResourceHandle \<Rightarrow> EINVAL
      | CudaErrorMemoryAllocation \<Rightarrow> ENOMEM
      | CudaErrorNoDevice \<Rightarrow> ENODEV | CudaErrorInsufficientDriver \<Rightarrow> ENODEV
      | CudaErrorNotSupported \<Rightarrow> EOPNOTSUPP
      | CudaErrorOther \<Rightarrow> EIO)"

datatype cu_result =
    Cu_success | Cu_invalid_value | Cu_invalid_device | Cu_invalid_handle | Cu_out_of_memory | Cu_no_device
  | Cu_system_driver_mismatch | Cu_not_supported | Cu_other

definition driver_status :: "cu_result \<Rightarrow> int" where
  "driver_status status =
     (case status of
        Cu_success \<Rightarrow> OK
      | Cu_invalid_value \<Rightarrow> EINVAL | Cu_invalid_device \<Rightarrow> EINVAL | Cu_invalid_handle \<Rightarrow> EINVAL
      | Cu_out_of_memory \<Rightarrow> ENOMEM
      | Cu_no_device \<Rightarrow> ENODEV | Cu_system_driver_mismatch \<Rightarrow> ENODEV
      | Cu_not_supported \<Rightarrow> EOPNOTSUPP
      | Cu_other \<Rightarrow> EIO)"

lemma cuda_status_zero: "cuda_status e = 0 \<longleftrightarrow> e = CudaSuccess"
  by (cases e) (simp_all add: cuda_status_def)

lemma driver_status_zero: "driver_status e = 0 \<longleftrightarrow> e = Cu_success"
  by (cases e) (simp_all add: driver_status_def)

section \<open>Sizes\<close>

text \<open>The sizes the static assertions fix, in bytes.\<close>

definition sizeof_control :: u64 where "sizeof_control = 64"
definition sizeof_task_slot :: u64 where "sizeof_task_slot = 32"
definition sizeof_sequenced_completion_slot :: u64 where "sizeof_sequenced_completion_slot = 32"
definition sizeof_completion_slot :: u64 where "sizeof_completion_slot = 16"
definition sizeof_shared_task_slot :: u64 where "sizeof_shared_task_slot = 48"
definition sizeof_shared_completion_slot :: u64 where "sizeof_shared_completion_slot = 32"

lemmas sizeof_defs = sizeof_control_def sizeof_task_slot_def sizeof_sequenced_completion_slot_def
  sizeof_completion_slot_def sizeof_shared_task_slot_def sizeof_shared_completion_slot_def

definition checked_allocation_size :: "u64 \<Rightarrow> u64 \<Rightarrow> u64 option" where
  "checked_allocation_size payload_capacity guard_bytes =
     (if payload_capacity = 0 \<or> guard_bytes = 0 \<or> guard_bytes > (- 1 - payload_capacity) div 2 then None
      else Some (payload_capacity + guard_bytes * 2))"

definition is_power_of_two :: "u64 \<Rightarrow> bool" where
  "is_power_of_two value \<longleftrightarrow> value \<noteq> 0 \<and> value AND (value - 1) = 0"

definition is_supported_device_batch :: "u32 \<Rightarrow> bool" where
  "is_supported_device_batch value \<longleftrightarrow>
     value = 1 \<or> value = 2 \<or> value = 4 \<or> value = 8 \<or> value = 16 \<or> value = 32"

definition is_supported_copy_warps :: "u32 \<Rightarrow> bool" where
  "is_supported_copy_warps value \<longleftrightarrow> value = 4 \<or> value = 8 \<or> value = 16 \<or> value = 32"

definition is_supported_shared_queue_depth :: "u32 \<Rightarrow> bool" where
  "is_supported_shared_queue_depth value \<longleftrightarrow> value = 2 \<or> value = 4 \<or> value = 8 \<or> value = 16"

definition is_supported_pipeline_copy_warps :: "u32 \<Rightarrow> bool" where
  "is_supported_pipeline_copy_warps value \<longleftrightarrow> value \<ge> 2 \<and> value \<le> 30 \<and> (value - 2) mod 4 = 0"

definition direct_atomic_allocation_size :: "u64 \<Rightarrow> u64 option" where
  "direct_atomic_allocation_size capacity =
     (let per_slot = sizeof_task_slot + sizeof_sequenced_completion_slot
      in if \<not> is_power_of_two capacity \<or> capacity > (- 1 - sizeof_control) div per_slot then None
         else Some (sizeof_control + capacity * per_slot))"

definition dynamic_sharded_spsc_allocation_size :: "u64 \<Rightarrow> u32 \<Rightarrow> u64 option" where
  "dynamic_sharded_spsc_allocation_size capacity lane_count =
     (let per_slot = sizeof_task_slot + sizeof_completion_slot
      in if \<not> is_supported_copy_warps lane_count \<or> \<not> is_power_of_two capacity \<or> capacity < ucast lane_count \<or>
            capacity mod ucast lane_count \<noteq> 0 \<or> \<not> is_power_of_two (capacity div ucast lane_count) then None
         else let control_bytes = ucast lane_count * sizeof_control
              in if capacity > (- 1 - control_bytes) div per_slot then None
                 else Some (control_bytes + capacity * per_slot))"

definition static_partition_spsc_allocation_size :: "u64 \<Rightarrow> u32 \<Rightarrow> u64 option" where
  "static_partition_spsc_allocation_size capacity copy_warps =
     (let per_slot = sizeof_task_slot + sizeof_sequenced_completion_slot
      in if \<not> is_supported_copy_warps copy_warps \<or> \<not> is_power_of_two capacity \<or> capacity < ucast copy_warps \<or>
            capacity AND (ucast copy_warps - 1) \<noteq> 0 then None
         else if capacity > (- 1 - sizeof_control) div per_slot then None
         else Some (sizeof_control + capacity * per_slot))"

definition warp_specialized_allocation_size :: "u64 \<Rightarrow> u32 \<Rightarrow> u32 \<Rightarrow> (u64 \<times> u64) option" where
  "warp_specialized_allocation_size capacity copy_warps shared_queue_depth =
     (let per_host_slot = sizeof_task_slot + sizeof_completion_slot;
          per_shared_slot = sizeof_shared_task_slot + sizeof_shared_completion_slot
      in if copy_warps = 0 \<or> copy_warps > 30 \<or> \<not> is_power_of_two capacity \<or>
            capacity < ucast kWarpSpecializedMetaBatch \<or> \<not> is_supported_shared_queue_depth shared_queue_depth \<or>
            capacity > (- 1 - sizeof_control) div per_host_slot \<or>
            ucast shared_queue_depth > (- 1 - sizeof_control) div per_shared_slot then None
         else Some (sizeof_control + capacity * per_host_slot, sizeof_control + ucast shared_queue_depth * per_shared_slot))"

definition warp_specialized_pipeline_allocation_size :: "u64 \<Rightarrow> u32 \<Rightarrow> u32 \<Rightarrow> (u64 \<times> u64) option" where
  "warp_specialized_pipeline_allocation_size capacity copy_warps shared_queue_depth =
     (let per_host_slot = sizeof_task_slot + sizeof_completion_slot;
          per_shared_slot = sizeof_shared_task_slot + sizeof_shared_completion_slot
      in if \<not> is_supported_pipeline_copy_warps copy_warps then None
         else let required_queue_depth = (kWarpSpecializedMetaBatch + copy_warps - 1) div copy_warps
              in if \<not> is_power_of_two capacity \<or> capacity < ucast kWarpSpecializedMetaBatch \<or>
                    \<not> is_supported_shared_queue_depth shared_queue_depth \<or> shared_queue_depth > 16 \<or>
                    shared_queue_depth < required_queue_depth \<or>
                    capacity > (- 1 - sizeof_control) div per_host_slot then None
                 else let slot_count = ucast copy_warps * ucast shared_queue_depth
                      in if slot_count > (- 1 - 64) div per_shared_slot then None
                         else let shared_bytes = slot_count * per_shared_slot
                              in if shared_bytes \<le> 48 * 1024
                                 then Some (sizeof_control + capacity * per_host_slot, shared_bytes) else None)"

section \<open>Configuration\<close>

record persistent_copy_config =
  pcc_model :: persistent_copy_model
  pcc_device_ordinal :: u32
  pcc_copy_warps :: u32
  pcc_device_batch :: u32
  pcc_shared_queue_depth :: u32
  pcc_payload_bytes :: u64
  pcc_parent_wr_bytes :: u64
  pcc_outstanding_capacity :: u64
  pcc_host_batch :: u64
  pcc_warmup_tasks :: u64
  pcc_iterations :: u64

definition validate_persistent_copy_config :: "persistent_copy_config \<Rightarrow> int" where
  "validate_persistent_copy_config config =
     (if pcc_payload_bytes config = 0 \<or> pcc_payload_bytes config > of_nat kPersistentCopyMaxPayloadBytes \<or>
         pcc_parent_wr_bytes config = 0 \<or> \<not> is_power_of_two (pcc_outstanding_capacity config) \<or>
         pcc_host_batch config = 0 \<or> pcc_host_batch config > pcc_outstanding_capacity config \<or>
         \<not> is_supported_device_batch (pcc_device_batch config) \<or>
         ucast (pcc_device_batch config) > pcc_outstanding_capacity config \<or> pcc_copy_warps config = 0 \<or>
         pcc_copy_warps config > 32 \<or> pcc_warmup_tasks config = 0 \<or> pcc_iterations config = 0
      then EINVAL
      else if pcc_model config = Direct_atomic \<and> \<not> is_supported_copy_warps (pcc_copy_warps config) then EINVAL
      else if pcc_model config = Dynamic_sharded_spsc \<and>
              dynamic_sharded_spsc_allocation_size (pcc_outstanding_capacity config) (pcc_copy_warps config) = None then EINVAL
      else if pcc_model config = Static_partition_spsc \<and>
              static_partition_spsc_allocation_size (pcc_outstanding_capacity config) (pcc_copy_warps config) = None then EINVAL
      else if (pcc_model config = Warp_specialized \<or> pcc_model config = Warp_specialized_pipeline) \<and>
              \<not> (if pcc_model config = Warp_specialized_pipeline
                 then pcc_device_batch config = kWarpSpecializedMetaBatch \<and>
                      warp_specialized_pipeline_allocation_size (pcc_outstanding_capacity config) (pcc_copy_warps config)
                        (pcc_shared_queue_depth config) \<noteq> None
                 else pcc_device_batch config = kWarpSpecializedMetaBatch \<and>
                      warp_specialized_allocation_size (pcc_outstanding_capacity config) (pcc_copy_warps config)
                        (pcc_shared_queue_depth config) \<noteq> None) then EINVAL
      else OK)"

section \<open>Lifecycle\<close>

datatype lifecycle_state = Lifecycle_stopped | Lifecycle_accepting | Lifecycle_draining

record copy_lifecycle =
  lc_config :: persistent_copy_config
  lc_state :: lifecycle_state
  lc_accepted_tasks :: u64
  lc_completed_tasks :: u64

definition lifecycle_start :: "persistent_copy_config \<Rightarrow> copy_lifecycle \<Rightarrow> int \<times> copy_lifecycle" where
  "lifecycle_start config lc =
     (if lc_state lc \<noteq> Lifecycle_stopped then (EBUSY, lc)
      else let status = validate_persistent_copy_config config
           in if status \<noteq> 0 then (status, lc)
              else (OK, \<lparr>lc_config = config, lc_state = Lifecycle_accepting, lc_accepted_tasks = 0, lc_completed_tasks = 0\<rparr>))"

definition record_accepted :: "u64 \<Rightarrow> copy_lifecycle \<Rightarrow> int \<times> copy_lifecycle" where
  "record_accepted count lc =
     (if lc_state lc \<noteq> Lifecycle_accepting \<or> count = 0 then (EINVAL, lc)
      else let outstanding = lc_accepted_tasks lc - lc_completed_tasks lc
           in if outstanding > pcc_outstanding_capacity (lc_config lc) \<or>
                 count > pcc_outstanding_capacity (lc_config lc) - outstanding then (EAGAIN, lc)
              else if lc_accepted_tasks lc > - 1 - count then (EOVERFLOW, lc)
              else (OK, lc\<lparr>lc_accepted_tasks := lc_accepted_tasks lc + count\<rparr>))"

definition record_completed :: "u64 \<Rightarrow> copy_lifecycle \<Rightarrow> int \<times> copy_lifecycle" where
  "record_completed count lc =
     (if lc_state lc = Lifecycle_stopped \<or> count = 0 \<or> lc_completed_tasks lc > lc_accepted_tasks lc \<or>
         count > lc_accepted_tasks lc - lc_completed_tasks lc then (EINVAL, lc)
      else (OK, lc\<lparr>lc_completed_tasks := lc_completed_tasks lc + count\<rparr>))"

definition lifecycle_request_stop :: "copy_lifecycle \<Rightarrow> int \<times> copy_lifecycle" where
  "lifecycle_request_stop lc =
     (if lc_state lc \<noteq> Lifecycle_accepting then (EINVAL, lc) else (OK, lc\<lparr>lc_state := Lifecycle_draining\<rparr>))"

definition lifecycle_drained :: "copy_lifecycle \<Rightarrow> bool" where
  "lifecycle_drained lc \<longleftrightarrow> lc_accepted_tasks lc = lc_completed_tasks lc"

definition finish_stop :: "copy_lifecycle \<Rightarrow> int \<times> copy_lifecycle" where
  "finish_stop lc =
     (if lc_state lc \<noteq> Lifecycle_draining then (EINVAL, lc)
      else if \<not> lifecycle_drained lc then (EAGAIN, lc)
      else (OK, lc\<lparr>lc_state := Lifecycle_stopped\<rparr>))"

section \<open>Names\<close>

lemma parse_model_iff: "parse_persistent_copy_model name = Inr model \<longleftrightarrow> name = persistent_copy_model_name model"
proof
  assume "parse_persistent_copy_model name = Inr model"
  then show "name = persistent_copy_model_name model"
    by (auto simp: parse_persistent_copy_model_def split: option.splits if_splits)
next
  assume "name = persistent_copy_model_name model"
  then show "parse_persistent_copy_model name = Inr model"
    by (cases model) (simp_all add: parse_persistent_copy_model_def persistent_copy_model_name_def)
qed

section \<open>Sizes are exact\<close>

lemma checked_size_exact:
  fixes count base slot :: u64
  assumes "\<not> count > (- 1 - base) div slot" "slot \<noteq> 0"
  shows "unat (base + count * slot) = unat base + unat count * unat slot"
proof -
  have "unat count \<le> (18446744073709551615 - unat base) div unat slot"
    using assms(1) by (simp add: not_less word_le_nat_alt unat_div unat_max_minus)
  then have "unat count * unat slot \<le> 18446744073709551615 - unat base"
    using less_eq_div_iff_mult_less_eq [of "unat slot"] assms(2) by (simp add: unat_gt_0)
  then have "unat base + unat count * unat slot < 18446744073709551616"
    using unat_u64_bound [of base] by linarith
  then have "unat (count * slot) = unat count * unat slot" by (simp add: unat_word_ariths)
  then show ?thesis using \<open>unat base + unat count * unat slot < 18446744073709551616\<close> by (simp add: unat_add_u64)
qed

lemma direct_atomic_size:
  "direct_atomic_allocation_size capacity = Some bytes \<Longrightarrow> is_power_of_two capacity \<and> unat bytes = 64 + unat capacity * 64"
  using checked_size_exact [where count = capacity and base = "64" and slot = "64"]
  by (auto simp: direct_atomic_allocation_size_def sizeof_defs Let_def split: if_splits)

lemma static_partition_size:
  "static_partition_spsc_allocation_size capacity copy_warps = Some bytes \<Longrightarrow>
   is_power_of_two capacity \<and> is_supported_copy_warps copy_warps \<and> unat bytes = 64 + unat capacity * 64"
  using checked_size_exact [where count = capacity and base = "64" and slot = "64"]
  by (auto simp: static_partition_spsc_allocation_size_def sizeof_defs Let_def split: if_splits)

lemma dynamic_sharded_size:
  assumes "dynamic_sharded_spsc_allocation_size capacity lane_count = Some bytes"
  shows "is_power_of_two (capacity div ucast lane_count)" "is_supported_copy_warps lane_count"
    "unat (capacity div ucast lane_count) * unat lane_count = unat capacity" "unat bytes = unat lane_count * 64 + unat capacity * 48"
proof -
  have g: "is_supported_copy_warps lane_count" "is_power_of_two (capacity div ucast lane_count)" "capacity mod ucast lane_count = 0"
      "\<not> capacity > (- 1 - ucast lane_count * 64) div 48" "bytes = ucast lane_count * 64 + capacity * 48"
    using assms by (auto simp: dynamic_sharded_spsc_allocation_size_def sizeof_defs Let_def split: if_splits)
  show "is_power_of_two (capacity div ucast lane_count)" "is_supported_copy_warps lane_count" by fact+
  show "unat (capacity div ucast lane_count) * unat lane_count = unat capacity"
    using arg_cong [OF g(3), of unat] div_mult_mod_eq [of "unat capacity" "unat lane_count"] by (simp add: unat_div unat_mod)
  have "unat (ucast lane_count * 64 :: u64) = unat lane_count * 64"
    using g(1) by (auto simp: is_supported_copy_warps_def)
  then show "unat bytes = unat lane_count * 64 + unat capacity * 48"
    using checked_size_exact [OF g(4)] g(5) by simp
qed

lemma warp_specialized_size:
  assumes "warp_specialized_allocation_size capacity copy_warps depth = Some (host_bytes, shared_bytes)"
  shows "is_power_of_two capacity" "32 \<le> unat capacity" "unat host_bytes = 64 + unat capacity * 48" "unat shared_bytes = 64 + unat depth * 80"
    "0 < unat copy_warps \<and> unat copy_warps \<le> 30"
proof -
  have g: "is_power_of_two capacity" "\<not> capacity < 32" "is_supported_shared_queue_depth depth" "copy_warps \<noteq> 0" "\<not> copy_warps > 30"
      "\<not> capacity > (- 1 - 64) div 48" "host_bytes = 64 + capacity * 48" "shared_bytes = 64 + ucast depth * 80"
    using assms by (auto simp: warp_specialized_allocation_size_def sizeof_defs kWarpSpecializedMetaBatch_def Let_def split: if_splits)
  then show "is_power_of_two capacity" "32 \<le> unat capacity" "0 < unat copy_warps \<and> unat copy_warps \<le> 30"
    by (simp_all add: word_less_nat_alt unat_gt_0 not_less)
  show "unat host_bytes = 64 + unat capacity * 48" using checked_size_exact [OF g(6)] g(7) by simp
  show "unat shared_bytes = 64 + unat depth * 80" using g(3,8) by (auto simp: is_supported_shared_queue_depth_def)
qed

lemma pipeline_size:
  assumes "warp_specialized_pipeline_allocation_size capacity copy_warps depth = Some (host_bytes, shared_bytes)"
  shows "is_power_of_two capacity" "32 \<le> unat capacity" "unat host_bytes = 64 + unat capacity * 48" "unat shared_bytes \<le> 49152"
    "unat shared_bytes = unat copy_warps * unat depth * 80" "32 \<le> unat copy_warps * unat depth"
proof -
  have g: "is_power_of_two capacity" "\<not> capacity < 32" "is_supported_shared_queue_depth depth" "is_supported_pipeline_copy_warps copy_warps"
      "\<not> depth < (31 + copy_warps) div copy_warps"
      "\<not> capacity > (- 1 - 64) div 48" "host_bytes = 64 + capacity * 48" "shared_bytes = ucast copy_warps * ucast depth * 80"
      "shared_bytes \<le> 49152"
    using assms by (auto simp: warp_specialized_pipeline_allocation_size_def sizeof_defs kWarpSpecializedMetaBatch_def Let_def
        diff_add_eq [symmetric] split: if_splits)
  show "is_power_of_two capacity" "32 \<le> unat capacity" "unat shared_bytes \<le> 49152"
    using g by (simp_all add: word_less_nat_alt word_le_nat_alt not_less)
  show "unat host_bytes = 64 + unat capacity * 48" using checked_size_exact [OF g(6)] g(7) by simp
  have w: "2 \<le> unat copy_warps" "unat copy_warps \<le> 30" using g(4) by (simp_all add: is_supported_pipeline_copy_warps_def word_le_nat_alt)
  have d: "unat depth \<le> 16" using g(3) by (auto simp: is_supported_shared_queue_depth_def)
  have "unat copy_warps * unat depth \<le> 30 * 16" using w d by (intro mult_mono) simp_all
  then show "unat shared_bytes = unat copy_warps * unat depth * 80" unfolding g(8) by (simp add: unat_word_ariths)
  have "unat (31 + copy_warps) = 31 + unat copy_warps" using w by (simp add: unat_word_ariths)
  then have "(31 + unat copy_warps) div unat copy_warps \<le> unat depth"
    using g(5) by (simp add: word_less_nat_alt unat_div not_less)
  then have "31 + unat copy_warps < (unat depth + 1) * unat copy_warps"
    using w(1) div_less_iff_less_mult [of "unat copy_warps" "31 + unat copy_warps" "unat depth + 1"] by simp
  then show "32 \<le> unat copy_warps * unat depth" by (simp add: algebra_simps)
qed

section \<open>An accepted configuration can be allocated\<close>

text \<open>The memory the queue of the model asks for.\<close>

definition queue_bytes :: "persistent_copy_config \<Rightarrow> u64 option" where
  "queue_bytes config =
     (case pcc_model config of
        Direct_atomic \<Rightarrow> direct_atomic_allocation_size (pcc_outstanding_capacity config)
      | Dynamic_sharded_spsc \<Rightarrow> dynamic_sharded_spsc_allocation_size (pcc_outstanding_capacity config) (pcc_copy_warps config)
      | Static_partition_spsc \<Rightarrow> static_partition_spsc_allocation_size (pcc_outstanding_capacity config) (pcc_copy_warps config)
      | Warp_specialized \<Rightarrow> map_option fst (warp_specialized_allocation_size (pcc_outstanding_capacity config)
          (pcc_copy_warps config) (pcc_shared_queue_depth config))
      | Warp_specialized_pipeline \<Rightarrow> map_option fst (warp_specialized_pipeline_allocation_size (pcc_outstanding_capacity config)
          (pcc_copy_warps config) (pcc_shared_queue_depth config)))"

lemma validate_zero:
  assumes "validate_persistent_copy_config config = 0"
  shows "is_power_of_two (pcc_outstanding_capacity config)" "0 < pcc_host_batch config" "pcc_host_batch config \<le> pcc_outstanding_capacity config"
    "unat (pcc_payload_bytes config) \<le> 8192" "pcc_model config \<noteq> Direct_atomic \<Longrightarrow> queue_bytes config \<noteq> None"
proof -
  show "is_power_of_two (pcc_outstanding_capacity config)" "0 < pcc_host_batch config" "pcc_host_batch config \<le> pcc_outstanding_capacity config"
    "unat (pcc_payload_bytes config) \<le> 8192"
    using assms by (auto simp: validate_persistent_copy_config_def kPersistentCopyMaxPayloadBytes_def word_le_nat_alt word_less_nat_alt unat_gt_0
        split: if_splits)
  show "queue_bytes config \<noteq> None" if "pcc_model config \<noteq> Direct_atomic"
    using assms that unfolding validate_persistent_copy_config_def queue_bytes_def
    by (cases "pcc_model config") (simp_all split: if_splits)
qed

section \<open>The lifecycle keeps count\<close>

definition lifecycle_inv :: "copy_lifecycle \<Rightarrow> bool" where
  "lifecycle_inv lc \<longleftrightarrow> lc_completed_tasks lc \<le> lc_accepted_tasks lc \<and>
     (lc_state lc = Lifecycle_stopped \<longrightarrow> lc_accepted_tasks lc = lc_completed_tasks lc) \<and>
     (lc_state lc \<noteq> Lifecycle_stopped \<longrightarrow> validate_persistent_copy_config (lc_config lc) = 0 \<and>
        unat (lc_accepted_tasks lc) - unat (lc_completed_tasks lc) \<le> unat (pcc_outstanding_capacity (lc_config lc)))"

datatype lifecycle_op = Lc_start persistent_copy_config | Lc_accept u64 | Lc_complete u64 | Lc_request_stop | Lc_finish_stop

fun lifecycle_exec :: "lifecycle_op \<Rightarrow> copy_lifecycle \<Rightarrow> int \<times> copy_lifecycle" where
  "lifecycle_exec (Lc_start config) lc = lifecycle_start config lc"
| "lifecycle_exec (Lc_accept n) lc = record_accepted n lc"
| "lifecycle_exec (Lc_complete n) lc = record_completed n lc"
| "lifecycle_exec Lc_request_stop lc = lifecycle_request_stop lc"
| "lifecycle_exec Lc_finish_stop lc = finish_stop lc"

lemma record_accepted_counts:
  assumes inv: "lifecycle_inv lc" and ok: "record_accepted count lc = (0, lc')"
  shows "lc' = lc\<lparr>lc_accepted_tasks := lc_accepted_tasks lc + count\<rparr>" "lc_state lc = Lifecycle_accepting"
    "unat (lc_accepted_tasks lc') = unat (lc_accepted_tasks lc) + unat count" "lifecycle_inv lc'"
proof -
  have g: "lc_state lc = Lifecycle_accepting" "\<not> lc_accepted_tasks lc > - 1 - count" "lc' = lc\<lparr>lc_accepted_tasks := lc_accepted_tasks lc + count\<rparr>"
      "\<not> count > pcc_outstanding_capacity (lc_config lc) - (lc_accepted_tasks lc - lc_completed_tasks lc)"
      "\<not> lc_accepted_tasks lc - lc_completed_tasks lc > pcc_outstanding_capacity (lc_config lc)"
    using ok by (auto simp: record_accepted_def Let_def split: if_splits)
  show "lc' = lc\<lparr>lc_accepted_tasks := lc_accepted_tasks lc + count\<rparr>" "lc_state lc = Lifecycle_accepting" by fact+
  have "unat (lc_accepted_tasks lc) \<le> 18446744073709551615 - unat count" using g(2) by (simp add: not_less word_le_nat_alt unat_max_minus)
  then have "unat (lc_accepted_tasks lc) + unat count < 18446744073709551616" using unat_u64_bound [of count] by linarith
  then show a: "unat (lc_accepted_tasks lc') = unat (lc_accepted_tasks lc) + unat count" using g(3) by (simp add: unat_add_u64)
  have d: "unat (lc_accepted_tasks lc - lc_completed_tasks lc) = unat (lc_accepted_tasks lc) - unat (lc_completed_tasks lc)"
    using inv by (simp add: lifecycle_inv_def unat_sub)
  have "unat count \<le> unat (pcc_outstanding_capacity (lc_config lc)) - (unat (lc_accepted_tasks lc) - unat (lc_completed_tasks lc))"
    using g(4,5) d by (simp add: not_less word_le_nat_alt unat_sub)
  then show "lifecycle_inv lc'" using inv g(1,3) a d g(5) by (auto simp: lifecycle_inv_def word_le_nat_alt not_less)
qed

lemma record_completed_counts:
  assumes inv: "lifecycle_inv lc" and ok: "record_completed count lc = (0, lc')"
  shows "lc' = lc\<lparr>lc_completed_tasks := lc_completed_tasks lc + count\<rparr>"
    "unat (lc_completed_tasks lc') = unat (lc_completed_tasks lc) + unat count" "lifecycle_inv lc'"
proof -
  have g: "lc_state lc \<noteq> Lifecycle_stopped" "\<not> count > lc_accepted_tasks lc - lc_completed_tasks lc" "\<not> lc_completed_tasks lc > lc_accepted_tasks lc"
      "lc' = lc\<lparr>lc_completed_tasks := lc_completed_tasks lc + count\<rparr>"
    using ok by (auto simp: record_completed_def split: if_splits)
  show "lc' = lc\<lparr>lc_completed_tasks := lc_completed_tasks lc + count\<rparr>" by fact
  have le: "unat (lc_completed_tasks lc) + unat count \<le> unat (lc_accepted_tasks lc)"
    using g(2,3) by (simp add: not_less word_le_nat_alt unat_sub)
  then have "unat (lc_completed_tasks lc) + unat count < 18446744073709551616" using unat_u64_bound [of "lc_accepted_tasks lc"] by linarith
  then show c: "unat (lc_completed_tasks lc') = unat (lc_completed_tasks lc) + unat count" using g(4) by (simp add: unat_add_u64)
  show "lifecycle_inv lc'" using inv g(1,4) c le by (auto simp: lifecycle_inv_def word_le_nat_alt)
qed

lemma lifecycle_exec_inv:
  assumes "lifecycle_inv lc" "lifecycle_exec op lc = (status, lc')"
  shows "lifecycle_inv lc'" "status \<noteq> 0 \<Longrightarrow> lc' = lc"
proof -
  show "lc' = lc" if "status \<noteq> 0"
    using assms that
    by (cases op) (auto simp: lifecycle_start_def record_accepted_def record_completed_def lifecycle_request_stop_def finish_stop_def Let_def split: if_splits)
  then show "lifecycle_inv lc'"
  proof (cases "status = 0")
    case True
    then show ?thesis
      using assms record_accepted_counts(4) [of lc] record_completed_counts(3) [of lc]
      by (cases op) (auto simp: lifecycle_start_def lifecycle_request_stop_def finish_stop_def lifecycle_drained_def Let_def
          lifecycle_inv_def split: if_splits)
  qed (use assms in auto)
qed

text \<open>
  The memory of a direct atomic queue is not checked by the validation: a configuration it accepts may be refused by
  the allocation of the queue.
\<close>

definition huge_direct_config :: persistent_copy_config where
  "huge_direct_config =
     \<lparr>pcc_model = Direct_atomic, pcc_device_ordinal = 0, pcc_copy_warps = 4, pcc_device_batch = 4, pcc_shared_queue_depth = 0,
      pcc_payload_bytes = 8192, pcc_parent_wr_bytes = 65536, pcc_outstanding_capacity = 576460752303423488, pcc_host_batch = 32,
      pcc_warmup_tasks = 1000, pcc_iterations = 10000\<rparr>"

lemma direct_atomic_size_unchecked:
  "validate_persistent_copy_config huge_direct_config = 0" "queue_bytes huge_direct_config = None"
  by (simp_all add: validate_persistent_copy_config_def queue_bytes_def huge_direct_config_def direct_atomic_allocation_size_def
      is_power_of_two_def is_supported_device_batch_def is_supported_copy_warps_def kPersistentCopyMaxPayloadBytes_def sizeof_defs)

end
