(* ===== verification/Copy_Host.thy ===== *)
theory Copy_Host
  imports Copy_Config Local_Transport "HOL-Library.Multiset"
begin

unbundle bit_operations_syntax

text \<open>
  \<^verbatim>\<open>gpu/persistent_copy_backend.cu\<close>, the part of the copy backend on the host: it turns requests into tasks, collects them in
  batches, publishes a batch to a queue once the memory is visible, and turns what the queue reports back into
  completions. The queue and the visibility gate are interfaces of the code; they are the record
  \<open>copy_port\<close>, about which nothing is assumed: the host checks what they answer.

  A null pointer \<open>contexts_\<close> is the empty list, since the arrays that are allocated have at least 64 elements; the
  array \<open>pending_tasks_\<close> with its \<open>pending_count_\<close> is the list of the tasks in it, and that there are never more than
  the array has room for is shown of the backend.
\<close>

section \<open>Configuration and tasks\<close>

definition kPersistentCudaCopyBackendHostBatch :: nat where "kPersistentCudaCopyBackendHostBatch = 64"

record cuda_backend_config =
  bk_device_ordinal :: u32
  bk_stage_buffer_base :: u64
  bk_stage_buffer_bytes :: u64
  bk_queue_capacity :: u64
  bk_host_batch :: u64
  bk_max_batch_delay_nanoseconds :: u64

definition no_backend_config :: cuda_backend_config where
  "no_backend_config =
     \<lparr>bk_device_ordinal = 0, bk_stage_buffer_base = 0, bk_stage_buffer_bytes = 0, bk_queue_capacity = 1024, bk_host_batch = 64,
      bk_max_batch_delay_nanoseconds = 0\<rparr>"

definition validate_backend_config :: "cuda_backend_config \<Rightarrow> int" where
  "validate_backend_config config =
     (if bk_stage_buffer_base config = 0 \<or> bk_stage_buffer_bytes config = 0 \<or>
         bk_stage_buffer_bytes config > kPersistentCopyMaxStageBufferBytes \<or>
         bk_stage_buffer_base config > - 1 - bk_stage_buffer_bytes config then EINVAL
      else if \<not> is_power_of_two (bk_queue_capacity config) \<or>
              bk_queue_capacity config < of_nat kPersistentCudaCopyBackendHostBatch \<or>
              bk_host_batch config \<noteq> of_nat kPersistentCudaCopyBackendHostBatch \<or>
              bk_max_batch_delay_nanoseconds config = 0 then EINVAL
      else OK)"

definition make_copy_task :: "cuda_backend_config \<Rightarrow> backend_request \<Rightarrow> u64 \<Rightarrow> int + copy_task" where
  "make_copy_task config request task_id =
     (if br_source_daemon_address request < bk_stage_buffer_base config \<or> br_target_daemon_address request = 0 \<or>
         br_payload_length request = 0 \<or> ucast (br_payload_length request) > (of_nat kPersistentCopyMaxPayloadBytes :: u64)
      then Inl EINVAL
      else let relative_offset = br_source_daemon_address request - bk_stage_buffer_base config
           in if relative_offset \<ge> bk_stage_buffer_bytes config \<or>
                 ucast (br_payload_length request) > bk_stage_buffer_bytes config - relative_offset \<or>
                 br_target_daemon_address request > - 1 - ucast (br_payload_length request) \<or>
                 relative_offset > ucast (- 1 :: u32)
              then Inl EINVAL
              else Inr \<lparr>ct_task_id = task_id, ct_target_address = br_target_daemon_address request,
                        ct_length = br_payload_length request, ct_relative_offset = ucast relative_offset\<rparr>)"

section \<open>The host\<close>

datatype slot_state = Slot_free | Slot_pending | Slot_submitted | Slot_local_error
datatype publish_failure = Failure_none | Failure_visibility | Failure_queue

record task_context =
  tc_task_id :: u64
  tc_parent_request_id :: u64
  tc_payload_index :: u32
  tc_state :: slot_state
  tc_result :: datagram_result

definition free_context :: task_context where
  "free_context =
     \<lparr>tc_task_id = 0, tc_parent_request_id = 0, tc_payload_index = 0, tc_state = Slot_free, tc_result = Success\<rparr>"

record copy_host =
  ch_config :: cuda_backend_config
  ch_contexts :: "task_context list"
  ch_local_completion_task_ids :: "u64 list"
  ch_pending_tasks :: "copy_task list"
  ch_capacity_mask :: u64
  ch_outstanding_tasks :: nat
  ch_next_task_id :: u64
  ch_local_completion_head :: u64
  ch_local_completion_tail :: u64
  ch_first_pending_nanoseconds :: u64
  ch_publish_blocked :: bool
  ch_pending_flushed :: bool
  ch_last_publish_failure :: publish_failure

definition new_host :: copy_host where
  "new_host =
     \<lparr>ch_config = no_backend_config, ch_contexts = [], ch_local_completion_task_ids = [], ch_pending_tasks = [], ch_capacity_mask = 0,
      ch_outstanding_tasks = 0, ch_next_task_id = 1, ch_local_completion_head = 0, ch_local_completion_tail = 0,
      ch_first_pending_nanoseconds = 0, ch_publish_blocked = False, ch_pending_flushed = False,
      ch_last_publish_failure = Failure_none\<rparr>"

text \<open>The queue of tasks (\<open>PersistentCopyQueue\<close>) and the gate (\<open>GpuDirectVisibilityGate\<close>): a status, a result, and the new
  state of the surroundings.\<close>

record 'e copy_port =
  pt_try_submit_batch :: "copy_task list \<Rightarrow> 'e \<Rightarrow> int \<times> nat \<times> 'e"
  pt_try_poll :: "'e \<Rightarrow> int \<times> copy_completion \<times> 'e"
  pt_flush :: "'e \<Rightarrow> int \<times> 'e"

definition initialized :: "copy_host \<Rightarrow> bool" where
  "initialized h \<longleftrightarrow> ch_contexts h \<noteq> []"

definition slot_of :: "copy_host \<Rightarrow> u64 \<Rightarrow> nat" where
  "slot_of h task_id = unat (task_id AND ch_capacity_mask h)"

definition context_of :: "copy_host \<Rightarrow> u64 \<Rightarrow> task_context" where
  "context_of h task_id = ch_contexts h ! slot_of h task_id"

definition set_context :: "u64 \<Rightarrow> task_context \<Rightarrow> copy_host \<Rightarrow> copy_host" where
  "set_context task_id context h = h\<lparr>ch_contexts := (ch_contexts h)[slot_of h task_id := context]\<rparr>"

definition sizeof_task_context_slot :: u64 where "sizeof_task_context_slot = 32"

text \<open>\<open>memory\<close> tells whether the two arrays can be allocated.\<close>

definition host_initialize :: "cuda_backend_config \<Rightarrow> bool \<Rightarrow> copy_host \<Rightarrow> int \<times> copy_host" where
  "host_initialize config memory h =
     (if initialized h \<or> validate_backend_config config \<noteq> 0 \<or> bk_queue_capacity config > - 1 div sizeof_task_context_slot
      then (EINVAL, h)
      else if \<not> memory then (ENOMEM, h)
      else (OK, h\<lparr>ch_config := config, ch_contexts := replicate (unat (bk_queue_capacity config)) free_context,
                  ch_local_completion_task_ids := replicate (unat (bk_queue_capacity config)) 0,
                  ch_capacity_mask := bk_queue_capacity config - 1\<rparr>))"

fun mark_submitted :: "copy_task list \<Rightarrow> copy_host \<Rightarrow> int \<times> copy_host" where
  "mark_submitted [] h = (OK, h)"
| "mark_submitted (t # ts) h =
     (let context = context_of h (ct_task_id t)
      in if tc_state context \<noteq> Slot_pending \<or> tc_task_id context \<noteq> ct_task_id t
         then (EPROTO, h\<lparr>ch_last_publish_failure := Failure_queue\<rparr>)
         else mark_submitted ts (set_context (ct_task_id t) (context\<lparr>tc_state := Slot_submitted\<rparr>) h))"

text \<open>The second half of \<open>publish_pending\<close>, from the submission of the batch on.\<close>

definition submit_pending :: "'e copy_port \<Rightarrow> 'e \<Rightarrow> copy_host \<Rightarrow> int \<times> copy_host \<times> 'e" where
  "submit_pending p e h =
     (case pt_try_submit_batch p (ch_pending_tasks h) e of (status, submitted_count, e) \<Rightarrow>
        if status = EAGAIN then (OK, h\<lparr>ch_publish_blocked := True\<rparr>, e)
        else if status \<noteq> 0 then (status, h\<lparr>ch_last_publish_failure := Failure_queue\<rparr>, e)
        else if submitted_count = 0 \<or> submitted_count > length (ch_pending_tasks h)
             then (EPROTO, h\<lparr>ch_last_publish_failure := Failure_queue\<rparr>, e)
        else case mark_submitted (take submitted_count (ch_pending_tasks h)) h of (status, h) \<Rightarrow>
          if status \<noteq> 0 then (status, h, e)
          else let h = h\<lparr>ch_pending_tasks := drop submitted_count (ch_pending_tasks h)\<rparr>
               in if ch_pending_tasks h \<noteq> [] then (OK, h\<lparr>ch_publish_blocked := True\<rparr>, e)
                  else (OK, h\<lparr>ch_first_pending_nanoseconds := 0, ch_publish_blocked := False, ch_pending_flushed := False\<rparr>, e))"

definition publish_pending :: "'e copy_port \<Rightarrow> 'e \<Rightarrow> copy_host \<Rightarrow> int \<times> copy_host \<times> 'e" where
  "publish_pending p e h =
     (let h = h\<lparr>ch_last_publish_failure := Failure_none\<rparr>
      in if \<not> ch_pending_flushed h
         then case pt_flush p e of (flush_status, e) \<Rightarrow>
           if flush_status \<noteq> 0
           then (flush_status, h\<lparr>ch_publish_blocked := True, ch_last_publish_failure := Failure_visibility\<rparr>, e)
           else submit_pending p e (h\<lparr>ch_pending_flushed := True\<rparr>)
         else submit_pending p e h)"

text \<open>Results: the status, \<open>accepted\<close>, the host and the surroundings.\<close>

definition host_try_submit ::
  "'e copy_port \<Rightarrow> backend_request \<Rightarrow> u64 \<Rightarrow> 'e \<Rightarrow> copy_host \<Rightarrow> int \<times> bool \<times> copy_host \<times> 'e" where
  "host_try_submit p request now_nanoseconds e h =
     (if \<not> initialized h then (EINVAL, False, h, e)
      else if ch_outstanding_tasks h \<ge> unat (bk_queue_capacity (ch_config h)) \<or>
              (ch_publish_blocked h \<and> ch_pending_tasks h \<noteq> []) then (OK, False, h, e)
      else let task_id = ch_next_task_id h
           in if tc_state (context_of h task_id) \<noteq> Slot_free then (EPROTO, False, h, e)
              else case make_copy_task (ch_config h) request task_id of
                     Inl status \<Rightarrow> (status, False, h, e)
                   | Inr task \<Rightarrow>
                       (let h = set_context task_id
                              \<lparr>tc_task_id = task_id, tc_parent_request_id = br_parent_request_id request,
                               tc_payload_index = br_payload_index request, tc_state = Slot_pending, tc_result = Success\<rparr> h;
                            h = (if ch_pending_tasks h = []
                                 then h\<lparr>ch_first_pending_nanoseconds := now_nanoseconds, ch_pending_flushed := False\<rparr> else h);
                            h = h\<lparr>ch_pending_tasks := ch_pending_tasks h @ [task],
                                  ch_outstanding_tasks := ch_outstanding_tasks h + 1, ch_next_task_id := task_id + 1\<rparr>
                        in if of_nat (length (ch_pending_tasks h)) = bk_host_batch (ch_config h)
                           then case publish_pending p e h of (status, h, e) \<Rightarrow> (status, True, h, e)
                           else (OK, True, h, e)))"

definition progress_host_batch :: "'e copy_port \<Rightarrow> u64 \<Rightarrow> 'e \<Rightarrow> copy_host \<Rightarrow> int \<times> copy_host \<times> 'e" where
  "progress_host_batch p now_nanoseconds e h =
     (if \<not> initialized h then (EINVAL, h, e)
      else if ch_pending_tasks h = [] then (OK, h, e)
      else if \<not> ch_publish_blocked h \<and> now_nanoseconds \<ge> ch_first_pending_nanoseconds h \<and>
              now_nanoseconds - ch_first_pending_nanoseconds h < bk_max_batch_delay_nanoseconds (ch_config h) then (OK, h, e)
      else publish_pending p e h)"

definition publish_pending_now :: "'e copy_port \<Rightarrow> 'e \<Rightarrow> copy_host \<Rightarrow> int \<times> copy_host \<times> 'e" where
  "publish_pending_now p e h =
     (if \<not> initialized h then (EINVAL, h, e)
      else if ch_pending_tasks h = [] then (OK, h, e) else publish_pending p e h)"

definition completion_of :: "task_context \<Rightarrow> datagram_result \<Rightarrow> backend_completion" where
  "completion_of context result =
     \<lparr>bc_parent_request_id = tc_parent_request_id context, bc_payload_index = tc_payload_index context, bc_result = result\<rparr>"

text \<open>The status, the completion if \<open>completed\<close>, the host and the surroundings.\<close>

definition host_try_pop_completion ::
  "'e copy_port \<Rightarrow> u64 \<Rightarrow> 'e \<Rightarrow> copy_host \<Rightarrow> int \<times> backend_completion option \<times> copy_host \<times> 'e" where
  "host_try_pop_completion p now_nanoseconds e h =
     (if \<not> initialized h then (EINVAL, None, h, e)
      else case progress_host_batch p now_nanoseconds e h of (progress_status, h, e) \<Rightarrow>
        if progress_status \<noteq> 0 then (progress_status, None, h, e)
        else if ch_local_completion_head h < ch_local_completion_tail h
        then let task_id = ch_local_completion_task_ids h ! slot_of h (ch_local_completion_head h);
                 context = context_of h task_id
             in if tc_state context \<noteq> Slot_local_error \<or> tc_task_id context \<noteq> task_id \<or> ch_outstanding_tasks h = 0
                then (EPROTO, None, h\<lparr>ch_last_publish_failure := Failure_queue\<rparr>, e)
                else (OK, Some (completion_of context (tc_result context)),
                      (set_context task_id free_context h)\<lparr>ch_local_completion_head := ch_local_completion_head h + 1,
                         ch_outstanding_tasks := ch_outstanding_tasks h - 1\<rparr>, e)
        else case pt_try_poll p e of (poll_status, copy_completion, e) \<Rightarrow>
          if poll_status = EAGAIN then (OK, None, h, e)
          else if poll_status \<noteq> 0 then (poll_status, None, h\<lparr>ch_last_publish_failure := Failure_queue\<rparr>, e)
          else let context = context_of h (cp_task_id copy_completion)
               in if tc_state context \<noteq> Slot_submitted \<or> tc_task_id context \<noteq> cp_task_id copy_completion \<or>
                     ch_outstanding_tasks h = 0
                  then (EPROTO, None, h\<lparr>ch_last_publish_failure := Failure_queue\<rparr>, e)
                  else (OK, Some (completion_of context
                          (if cp_result copy_completion = Task_success then Success else Backend_error)),
                        (set_context (cp_task_id copy_completion) free_context h)
                          \<lparr>ch_outstanding_tasks := ch_outstanding_tasks h - 1\<rparr>, e))"

definition push_local :: "u64 \<Rightarrow> copy_host \<Rightarrow> copy_host" where
  "push_local task_id h =
     h\<lparr>ch_local_completion_task_ids := (ch_local_completion_task_ids h)[slot_of h (ch_local_completion_tail h) := task_id],
       ch_local_completion_tail := ch_local_completion_tail h + 1\<rparr>"

definition try_complete_locally :: "backend_request \<Rightarrow> datagram_result \<Rightarrow> copy_host \<Rightarrow> int \<times> bool \<times> copy_host" where
  "try_complete_locally request result h =
     (if \<not> initialized h then (EINVAL, False, h)
      else if ch_outstanding_tasks h \<ge> unat (bk_queue_capacity (ch_config h)) then (OK, False, h)
      else let task_id = ch_next_task_id h
           in if tc_state (context_of h task_id) \<noteq> Slot_free
              then (EPROTO, False, h\<lparr>ch_last_publish_failure := Failure_queue\<rparr>)
              else (OK, True,
                (push_local task_id (set_context task_id
                   \<lparr>tc_task_id = task_id, tc_parent_request_id = br_parent_request_id request,
                    tc_payload_index = br_payload_index request, tc_state = Slot_local_error, tc_result = result\<rparr> h))
                  \<lparr>ch_outstanding_tasks := ch_outstanding_tasks h + 1, ch_next_task_id := task_id + 1\<rparr>))"

fun fail_tasks :: "datagram_result \<Rightarrow> copy_task list \<Rightarrow> copy_host \<Rightarrow> int \<times> copy_host" where
  "fail_tasks result [] h = (OK, h)"
| "fail_tasks result (t # ts) h =
     (let task_id = ct_task_id t; context = context_of h task_id
      in if tc_state context \<noteq> Slot_pending \<or> tc_task_id context \<noteq> task_id
         then (EPROTO, h\<lparr>ch_last_publish_failure := Failure_queue\<rparr>)
         else fail_tasks result ts
                (push_local task_id (set_context task_id (context\<lparr>tc_state := Slot_local_error, tc_result := result\<rparr>) h)))"

definition fail_pending :: "datagram_result \<Rightarrow> copy_host \<Rightarrow> int \<times> copy_host" where
  "fail_pending result h =
     (if \<not> initialized h then (EINVAL, h)
      else case fail_tasks result (ch_pending_tasks h) h of (status, h) \<Rightarrow>
        if status \<noteq> 0 then (status, h)
        else (OK, h\<lparr>ch_pending_tasks := [], ch_first_pending_nanoseconds := 0, ch_publish_blocked := False,
                    ch_pending_flushed := False, ch_last_publish_failure := Failure_none\<rparr>))"

definition fail_submitted :: "datagram_result \<Rightarrow> nat \<Rightarrow> copy_host \<Rightarrow> copy_host" where
  "fail_submitted result index h =
     (let context = ch_contexts h ! index
      in if tc_state context \<noteq> Slot_submitted then h
         else push_local (tc_task_id context)
                (h\<lparr>ch_contexts := (ch_contexts h)[index := context\<lparr>tc_state := Slot_local_error, tc_result := result\<rparr>]\<rparr>))"

definition fail_all :: "datagram_result \<Rightarrow> copy_host \<Rightarrow> int \<times> copy_host" where
  "fail_all result h =
     (case fail_pending result h of (status, h) \<Rightarrow>
        if status \<noteq> 0 then (status, h)
        else (OK, (fold (fail_submitted result) [0..<unat (bk_queue_capacity (ch_config h))] h)
                    \<lparr>ch_last_publish_failure := Failure_none\<rparr>))"

definition host_reset :: "copy_host \<Rightarrow> int \<times> copy_host" where
  "host_reset h =
     (if \<not> initialized h then (OK, h)
      else if ch_outstanding_tasks h \<noteq> 0 \<or> ch_pending_tasks h \<noteq> [] \<or>
              ch_local_completion_head h \<noteq> ch_local_completion_tail h then (EBUSY, h)
      else (OK, h\<lparr>ch_config := no_backend_config, ch_contexts := [], ch_local_completion_task_ids := [], ch_pending_tasks := [],
                  ch_capacity_mask := 0, ch_next_task_id := 1, ch_local_completion_head := 0, ch_local_completion_tail := 0,
                  ch_first_pending_nanoseconds := 0, ch_publish_blocked := False, ch_pending_flushed := False,
                  ch_last_publish_failure := Failure_none\<rparr>))"

end
