(* ===== verification/Copy_Host_Inv.thy ===== *)
theory Copy_Host_Inv
  imports Copy_Host
begin

unbundle bit_operations_syntax

text \<open>
  What the host of the copy backend keeps of its tasks, whatever the queue and the gate answer: every slot that is not
  free holds a task of its own index, the pending list and the list of local completions are exactly the pending
  and the failed slots, and a request that was accepted stays owed until its one completion is delivered.
\<close>

section \<open>Slots\<close>

definition slots_ok :: "u64 \<Rightarrow> task_context list \<Rightarrow> bool" where
  "slots_ok msk cs \<longleftrightarrow> (\<forall>i < length cs. tc_state (cs ! i) \<noteq> Slot_free \<longrightarrow> unat (tc_task_id (cs ! i) AND msk) = i)"

definition slot_ids :: "slot_state \<Rightarrow> task_context list \<Rightarrow> u64 multiset" where
  "slot_ids st cs = image_mset tc_task_id (filter_mset (\<lambda>c. tc_state c = st) (mset cs))"

text \<open>The requests that were accepted and not yet completed: their parents and payload indexes.\<close>

definition owed :: "task_context list \<Rightarrow> (u64 \<times> u32) multiset" where
  "owed cs = image_mset (\<lambda>c. (tc_parent_request_id c, tc_payload_index c)) (filter_mset (\<lambda>c. tc_state c \<noteq> Slot_free) (mset cs))"

definition slot_ids_one :: "slot_state \<Rightarrow> task_context \<Rightarrow> u64 multiset" where
  "slot_ids_one st c = (if tc_state c = st then {#tc_task_id c#} else {#})"

definition owed_one :: "task_context \<Rightarrow> (u64 \<times> u32) multiset" where
  "owed_one c = (if tc_state c \<noteq> Slot_free then {#(tc_parent_request_id c, tc_payload_index c)#} else {#})"

lemma slot_change:
  assumes "i < length cs"
  shows "slot_ids st (cs[i := c]) + slot_ids_one st (cs ! i) = slot_ids st cs + slot_ids_one st c"
    and "owed (cs[i := c]) + owed_one (cs ! i) = owed cs + owed_one c"
proof -
  define R where "R = mset cs - {#cs ! i#}"
  have "mset cs = add_mset (cs ! i) R" "mset (cs[i := c]) = add_mset c R"
    using assms by (simp_all add: R_def mset_update)
  then show "slot_ids st (cs[i := c]) + slot_ids_one st (cs ! i) = slot_ids st cs + slot_ids_one st c"
    "owed (cs[i := c]) + owed_one (cs ! i) = owed cs + owed_one c"
    by (simp_all add: slot_ids_def slot_ids_one_def owed_def owed_one_def)
qed

lemma slots_ok_update:
  assumes "slots_ok msk cs" "tc_state c \<noteq> Slot_free \<Longrightarrow> unat (tc_task_id c AND msk) = i"
  shows "slots_ok msk (cs[i := c])"
  using assms by (auto simp: slots_ok_def nth_list_update_lt)

lemma slot_of_id:
  assumes "slots_ok msk cs" "x \<in># slot_ids st cs" "st \<noteq> Slot_free"
  shows "unat (x AND msk) < length cs" "tc_state (cs ! unat (x AND msk)) = st" "tc_task_id (cs ! unat (x AND msk)) = x"
proof -
  obtain i where "i < length cs" "tc_state (cs ! i) = st" "tc_task_id (cs ! i) = x"
    using assms(2) by (auto simp: slot_ids_def in_set_conv_nth)
  then show "unat (x AND msk) < length cs" "tc_state (cs ! unat (x AND msk)) = st" "tc_task_id (cs ! unat (x AND msk)) = x"
    using assms(1,3) by (auto simp: slots_ok_def)
qed

lemma slot_ids_distinct:
  assumes "slots_ok msk cs" "x \<in># slot_ids st cs" "x \<in># slot_ids st' cs" "st \<noteq> Slot_free" "st' \<noteq> Slot_free"
  shows "st = st'"
  using slot_of_id [OF assms(1,2,4)] slot_of_id [OF assms(1,3,5)] by simp

lemma owed_size: "size (owed cs) = length (filter (\<lambda>c. tc_state c \<noteq> Slot_free) cs)"
  by (simp add: owed_def flip: mset_filter)

lemma owed_parts: "size (owed cs) = size (slot_ids Slot_pending cs) + size (slot_ids Slot_submitted cs) + size (slot_ids Slot_local_error cs)"
proof -
  have "size (filter_mset (\<lambda>c. tc_state c \<noteq> Slot_free) M) = size (filter_mset (\<lambda>c. tc_state c = Slot_pending) M) +
      size (filter_mset (\<lambda>c. tc_state c = Slot_submitted) M) + size (filter_mset (\<lambda>c. tc_state c = Slot_local_error) M)" for M
  proof (induction M)
    case (add c M)
    then show ?case by (cases "tc_state c") auto
  qed simp
  then show ?thesis by (simp add: owed_def slot_ids_def)
qed

lemma owed_le: "size (owed cs) \<le> length cs"
  by (simp add: owed_size)

text \<open>A slot changes its state and keeps its task.\<close>

lemma slot_moves:
  fixes r :: datagram_result and st' :: slot_state
  assumes ok: "slots_ok msk cs" and x: "x \<in># slot_ids st cs" and st: "st \<noteq> Slot_free" "st' \<noteq> Slot_free" "st \<noteq> st'"
  defines "i \<equiv> unat (x AND msk)"
  defines "cs' \<equiv> cs[i := (cs ! i)\<lparr>tc_state := st', tc_result := r\<rparr>]"
  shows "slots_ok msk cs'" "slot_ids st cs = add_mset x (slot_ids st cs')" "slot_ids st' cs' = add_mset x (slot_ids st' cs)"
    "s \<noteq> st \<Longrightarrow> s \<noteq> st' \<Longrightarrow> slot_ids s cs' = slot_ids s cs" "owed cs' = owed cs"
proof -
  note S = slot_of_id [OF ok x st(1), folded i_def]
  note ch = slot_change [OF S(1), where c = "(cs ! i)\<lparr>tc_state := st', tc_result := r\<rparr>", folded cs'_def]
  show "slots_ok msk cs'" unfolding cs'_def using S(3) by (intro slots_ok_update [OF ok]) (simp add: i_def)
  show "slot_ids st cs = add_mset x (slot_ids st cs')" "slot_ids st' cs' = add_mset x (slot_ids st' cs)"
    using ch(1) [of st] ch(1) [of st'] S st by (simp_all add: slot_ids_one_def)
  show "slot_ids s cs' = slot_ids s cs" if "s \<noteq> st" "s \<noteq> st'" using ch(1) [of s] S that by (simp add: slot_ids_one_def)
  show "owed cs' = owed cs" using ch(2) S st by (simp add: owed_one_def)
qed

section \<open>The list of local completions\<close>

definition ring_window :: "'a list \<Rightarrow> nat \<Rightarrow> nat \<Rightarrow> 'a list" where
  "ring_window xs h n = map (\<lambda>k. xs ! ((h + k) mod length xs)) [0..<n]"

lemma ring_window_push:
  assumes "n < length xs"
  shows "ring_window (xs[(h + n) mod length xs := x]) h (Suc n) = ring_window xs h n @ [x]"
proof -
  have ne: "(h + n) mod length xs \<noteq> (h + k) mod length xs" if "k < n" for k
  proof
    assume "(h + n) mod length xs = (h + k) mod length xs"
    then have "length xs dvd (h + n) - (h + k)" using that mod_eq_dvd_iff_nat [of "h + k" "h + n" "length xs"] by simp
    then show False using that assms dvd_imp_le [of "length xs" "n - k"] by simp
  qed
  have "(h + n) mod length xs < length xs" using assms by (intro mod_less_divisor) linarith
  then show ?thesis using ne by (simp add: ring_window_def)
qed

lemma ring_window_pop: "ring_window xs h (Suc n) = xs ! (h mod length xs) # ring_window xs (Suc h) n"
  by (simp add: ring_window_def upt_conv_Cons map_Suc_upt [symmetric] del: upt_Suc)

lemma ring_window_length [simp]: "length (ring_window xs h n) = n"
  by (simp add: ring_window_def)

section \<open>The invariant\<close>

definition local_ids :: "copy_host \<Rightarrow> u64 list" where
  "local_ids h = ring_window (ch_local_completion_task_ids h) (unat (ch_local_completion_head h))
     (unat (ch_local_completion_tail h) - unat (ch_local_completion_head h))"

definition host_core :: "copy_host \<Rightarrow> bool" where
  "host_core h \<longleftrightarrow>
     validate_backend_config (ch_config h) = 0 \<and>
     length (ch_contexts h) = unat (bk_queue_capacity (ch_config h)) \<and>
     length (ch_local_completion_task_ids h) = length (ch_contexts h) \<and>
     ch_capacity_mask h = bk_queue_capacity (ch_config h) - 1 \<and>
     slots_ok (ch_capacity_mask h) (ch_contexts h) \<and>
     ch_local_completion_head h \<le> ch_local_completion_tail h \<and>
     mset (local_ids h) = slot_ids Slot_local_error (ch_contexts h) \<and>
     ch_outstanding_tasks h = size (owed (ch_contexts h)) \<and>
     unat (ch_local_completion_tail h) + size (slot_ids Slot_pending (ch_contexts h)) + size (slot_ids Slot_submitted (ch_contexts h))
       < unat (ch_next_task_id h)"

text \<open>The pending list holds the tasks of the pending slots.\<close>

definition host_inv :: "copy_host \<Rightarrow> bool" where
  "host_inv h \<longleftrightarrow> host_core h \<and> mset (map ct_task_id (ch_pending_tasks h)) = slot_ids Slot_pending (ch_contexts h)"

lemma host_coreD:
  assumes "host_core h"
  shows "validate_backend_config (ch_config h) = 0" "length (ch_contexts h) = unat (bk_queue_capacity (ch_config h))"
    "length (ch_local_completion_task_ids h) = length (ch_contexts h)" "ch_capacity_mask h = bk_queue_capacity (ch_config h) - 1"
    "slots_ok (ch_capacity_mask h) (ch_contexts h)" "ch_local_completion_head h \<le> ch_local_completion_tail h"
    "mset (local_ids h) = slot_ids Slot_local_error (ch_contexts h)" "ch_outstanding_tasks h = size (owed (ch_contexts h))"
    "unat (ch_local_completion_tail h) + size (slot_ids Slot_pending (ch_contexts h)) + size (slot_ids Slot_submitted (ch_contexts h))
       < unat (ch_next_task_id h)"
  using assms unfolding host_core_def by blast+

lemma capacity_facts:
  assumes "validate_backend_config config = 0"
  obtains k where "unat (bk_queue_capacity config) = 2 ^ k" "bk_queue_capacity config - 1 = mask k" "64 \<le> (2 :: nat) ^ k"
    "bk_host_batch config = 64"
proof -
  have v: "is_power_of_two (bk_queue_capacity config)" "\<not> bk_queue_capacity config < 64" "bk_host_batch config = 64"
    using assms by (auto simp: validate_backend_config_def kPersistentCudaCopyBackendHostBatch_def split: if_splits)
  then obtain k where k: "unat (bk_queue_capacity config) = 2 ^ k" "bk_queue_capacity config - 1 = mask k"
    using word_power_of_two [of "bk_queue_capacity config"] by (metis is_power_of_two_def)
  moreover have "64 \<le> (2 :: nat) ^ k" using v(2) k(1) by (simp add: word_less_nat_alt)
  ultimately show ?thesis using v(3) that by blast
qed

lemma slot_of_mod:
  assumes "host_core h"
  shows "slot_of h x = unat x mod length (ch_contexts h)" "slot_of h x < length (ch_contexts h)" "initialized h" "64 \<le> length (ch_contexts h)"
proof -
  have v: "validate_backend_config (ch_config h) = 0" and l: "length (ch_contexts h) = unat (bk_queue_capacity (ch_config h))"
    and m: "ch_capacity_mask h = bk_queue_capacity (ch_config h) - 1"
    using assms by (simp_all add: host_core_def)
  obtain k where k: "unat (bk_queue_capacity (ch_config h)) = 2 ^ k" "bk_queue_capacity (ch_config h) - 1 = mask k" "64 \<le> (2 :: nat) ^ k"
    using capacity_facts [OF v] by metis
  show "slot_of h x = unat x mod length (ch_contexts h)" by (simp add: slot_of_def l m k(1,2) unat_and_mask)
  then show "slot_of h x < length (ch_contexts h)" by (simp add: l k(1))
  show "64 \<le> length (ch_contexts h)" using l k(1,3) by simp
  then show "initialized h" unfolding initialized_def by (metis list.size(3) not_numeral_le_zero)
qed

lemma context_of_id:
  assumes "host_core h" "x \<in># slot_ids st (ch_contexts h)" "st \<noteq> Slot_free"
  shows "tc_state (context_of h x) = st" "tc_task_id (context_of h x) = x"
proof -
  from slot_of_id [OF host_coreD(5) [OF assms(1)] assms(2,3)] show "tc_state (context_of h x) = st" "tc_task_id (context_of h x) = x"
    by (simp_all add: context_of_def slot_of_def)
qed

section \<open>Moving tasks from one state to another\<close>

definition moved :: "slot_state \<Rightarrow> slot_state \<Rightarrow> u64 multiset \<Rightarrow> task_context list \<Rightarrow> task_context list \<Rightarrow> bool" where
  "moved st st' X cs cs' \<longleftrightarrow> length cs' = length cs \<and> slot_ids st cs = X + slot_ids st cs' \<and> slot_ids st' cs' = X + slot_ids st' cs \<and>
     (\<forall>s. s \<noteq> st \<longrightarrow> s \<noteq> st' \<longrightarrow> slot_ids s cs' = slot_ids s cs) \<and> owed cs' = owed cs"

lemma moved_none: "moved st st' {#} cs cs"
  by (simp add: moved_def)

lemma moved_trans: "moved st st' X cs cs' \<Longrightarrow> moved st st' Y cs' cs'' \<Longrightarrow> moved st st' (X + Y) cs cs''"
  by (simp add: moved_def ac_simps)

lemma moved_one:
  assumes "slots_ok msk cs" "x \<in># slot_ids st cs" "st \<noteq> Slot_free" "st' \<noteq> Slot_free" "st \<noteq> st'"
  shows "moved st st' {#x#} cs (cs[unat (x AND msk) := (cs ! unat (x AND msk))\<lparr>tc_state := st', tc_result := r\<rparr>])"
  using slot_moves [OF assms] by (simp add: moved_def)

lemma mark_submitted_ok:
  assumes "slots_ok (ch_capacity_mask h) (ch_contexts h)"
    and "mset (map ct_task_id ts) \<subseteq># slot_ids Slot_pending (ch_contexts h)"
  shows "\<exists>cs. mark_submitted ts h = (0, h\<lparr>ch_contexts := cs\<rparr>) \<and> slots_ok (ch_capacity_mask h) cs \<and>
    moved Slot_pending Slot_submitted (mset (map ct_task_id ts)) (ch_contexts h) cs"
  using assms
proof (induction ts arbitrary: h)
  case Nil
  then show ?case by (intro exI [of _ "ch_contexts h"]) (simp add: moved_none)
next
  case (Cons t ts)
  let ?x = "ct_task_id t" and ?m = "ch_capacity_mask h"
  let ?i = "unat (?x AND ?m)"
  let ?c = "(ch_contexts h ! ?i)\<lparr>tc_state := Slot_submitted, tc_result := tc_result (ch_contexts h ! ?i)\<rparr>"
  let ?h = "h\<lparr>ch_contexts := (ch_contexts h)[?i := ?c]\<rparr>"
  have x: "?x \<in># slot_ids Slot_pending (ch_contexts h)" using Cons.prems(2) by (auto dest: mset_subset_eqD)
  note S = slot_of_id [OF Cons.prems(1) x]
  have m1: "moved Slot_pending Slot_submitted {#?x#} (ch_contexts h) (ch_contexts ?h)"
    using moved_one [OF Cons.prems(1) x, of Slot_submitted "tc_result (ch_contexts h ! ?i)"] by simp
  have ok: "slots_ok ?m (ch_contexts ?h)"
    using slot_moves(1) [OF Cons.prems(1) x, of Slot_submitted "tc_result (ch_contexts h ! ?i)"] by simp
  have "slot_ids Slot_pending (ch_contexts h) = add_mset ?x (slot_ids Slot_pending (ch_contexts ?h))" using m1 by (simp add: moved_def)
  then have "mset (map ct_task_id ts) \<subseteq># slot_ids Slot_pending (ch_contexts ?h)" using Cons.prems(2) by simp
  from Cons.IH [of ?h] this ok obtain cs where cs: "mark_submitted ts ?h = (0, ?h\<lparr>ch_contexts := cs\<rparr>)" "slots_ok ?m cs"
      "moved Slot_pending Slot_submitted (mset (map ct_task_id ts)) (ch_contexts ?h) cs"
    by auto
  have "mark_submitted (t # ts) h = (0, h\<lparr>ch_contexts := cs\<rparr>)"
    using S cs(1) by (simp add: context_of_def slot_of_def set_context_def Let_def)
  then show ?case using cs(2) moved_trans [OF m1 cs(3)] by auto
qed

section \<open>Publishing\<close>

text \<open>Nothing is accepted and nothing completed.\<close>

definition same_owed :: "copy_host \<Rightarrow> copy_host \<Rightarrow> bool" where
  "same_owed h h' \<longleftrightarrow> ch_config h' = ch_config h \<and> owed (ch_contexts h') = owed (ch_contexts h) \<and> ch_next_task_id h' = ch_next_task_id h"

lemma same_owed_refl [simp]: "same_owed h h"
  by (simp add: same_owed_def)

lemma same_owed_trans: "same_owed h h' \<Longrightarrow> same_owed h' h'' \<Longrightarrow> same_owed h h''"
  by (simp add: same_owed_def)

text \<open>There is room in the array of pending tasks for one more, unless publishing is blocked.\<close>

definition pending_room :: "copy_host \<Rightarrow> bool" where
  "pending_room h \<longleftrightarrow> length (ch_pending_tasks h) \<le> 64 \<and> (length (ch_pending_tasks h) < 64 \<or> ch_publish_blocked h)"

lemma host_core_other [simp]:
  "host_core (h\<lparr>ch_pending_tasks := a\<rparr>) = host_core h" "host_core (h\<lparr>ch_first_pending_nanoseconds := b\<rparr>) = host_core h"
  "host_core (h\<lparr>ch_publish_blocked := c\<rparr>) = host_core h" "host_core (h\<lparr>ch_pending_flushed := c\<rparr>) = host_core h"
  "host_core (h\<lparr>ch_last_publish_failure := d\<rparr>) = host_core h"
  by (simp_all add: host_core_def local_ids_def)

lemma submit_pending_effect:
  assumes inv: "host_inv h" and len: "length (ch_pending_tasks h) \<le> 64" and nf: "ch_last_publish_failure h = Failure_none"
    and r: "submit_pending p e h = (status, h', e')"
  shows "host_inv h'" "same_owed h h'" "length (ch_pending_tasks h') \<le> length (ch_pending_tasks h)"
    "status = 0 \<Longrightarrow> pending_room h' \<and> ch_last_publish_failure h' = Failure_none"
    "status \<noteq> 0 \<Longrightarrow> ch_last_publish_failure h' = Failure_queue"
proof -
  obtain st n e1 where sub: "pt_try_submit_batch p (ch_pending_tasks h) e = (st, n, e1)" by (metis prod_cases3)
  have core: "host_core h" and pend: "mset (map ct_task_id (ch_pending_tasks h)) = slot_ids Slot_pending (ch_contexts h)"
    using inv by (simp_all add: host_inv_def)
  note D = host_coreD [OF core]
  have "host_inv h' \<and> same_owed h h' \<and> length (ch_pending_tasks h') \<le> length (ch_pending_tasks h) \<and>
    (status = 0 \<longrightarrow> pending_room h' \<and> ch_last_publish_failure h' = Failure_none) \<and>
    (status \<noteq> 0 \<longrightarrow> ch_last_publish_failure h' = Failure_queue)"
  proof (cases "st = 0 \<and> 0 < n \<and> n \<le> length (ch_pending_tasks h)")
    case True
    let ?ts = "take n (ch_pending_tasks h)"
    have "mset (map ct_task_id ?ts) + mset (map ct_task_id (drop n (ch_pending_tasks h))) = mset (map ct_task_id (ch_pending_tasks h))"
      by (metis append_take_drop_id map_append mset_append)
    then have split: "slot_ids Slot_pending (ch_contexts h) = mset (map ct_task_id ?ts) + mset (map ct_task_id (drop n (ch_pending_tasks h)))"
      using pend by simp
    then have "mset (map ct_task_id ?ts) \<subseteq># slot_ids Slot_pending (ch_contexts h)" by simp
    from mark_submitted_ok [OF D(5) this] obtain cs where cs: "mark_submitted ?ts h = (0, h\<lparr>ch_contexts := cs\<rparr>)"
        "slots_ok (ch_capacity_mask h) cs" "moved Slot_pending Slot_submitted (mset (map ct_task_id ?ts)) (ch_contexts h) cs"
      by blast
    note M = cs(3) [unfolded moved_def]
    have pend': "slot_ids Slot_pending cs = mset (map ct_task_id (drop n (ch_pending_tasks h)))" using M split by simp
    have core': "host_core (h\<lparr>ch_contexts := cs\<rparr>)"
      using D M cs(2) by (simp add: host_core_def local_ids_def)
    have len': "length (ch_pending_tasks h) - n < 64" using len True by linarith
    then show ?thesis
      using r sub True cs(1) core' pend' M nf
      by (auto simp: submit_pending_def Let_def host_inv_def same_owed_def pending_room_def split: if_split_asm)
  next
    case False
    then show ?thesis
      using r sub inv len nf
      by (auto simp: submit_pending_def Let_def host_inv_def same_owed_def pending_room_def split: if_split_asm prod.split_asm)
  qed
  then show "host_inv h'" "same_owed h h'" "length (ch_pending_tasks h') \<le> length (ch_pending_tasks h)"
    "status = 0 \<Longrightarrow> pending_room h' \<and> ch_last_publish_failure h' = Failure_none"
    "status \<noteq> 0 \<Longrightarrow> ch_last_publish_failure h' = Failure_queue"
    by blast+
qed

lemma publish_pending_effect:
  assumes inv: "host_inv h" and len: "length (ch_pending_tasks h) \<le> 64" and r: "publish_pending p e h = (status, h', e')"
  shows "host_inv h'" "same_owed h h'" "length (ch_pending_tasks h') \<le> length (ch_pending_tasks h)"
    "status = 0 \<Longrightarrow> pending_room h' \<and> ch_last_publish_failure h' = Failure_none"
    "status \<noteq> 0 \<Longrightarrow> ch_last_publish_failure h' \<noteq> Failure_none"
proof -
  have step: "host_inv h' \<and> same_owed h h' \<and> length (ch_pending_tasks h') \<le> length (ch_pending_tasks h) \<and>
      (status = 0 \<longrightarrow> pending_room h' \<and> ch_last_publish_failure h' = Failure_none) \<and>
      (status \<noteq> 0 \<longrightarrow> ch_last_publish_failure h' \<noteq> Failure_none)"
    if "submit_pending p e1 (h\<lparr>ch_last_publish_failure := Failure_none, ch_pending_flushed := f\<rparr>) = (status, h', e')" for e1 f
  proof -
    have "host_inv (h\<lparr>ch_last_publish_failure := Failure_none, ch_pending_flushed := f\<rparr>)" using inv by (simp add: host_inv_def)
    from submit_pending_effect [OF this _ _ that] len show ?thesis by (auto simp: same_owed_def)
  qed
  have "host_inv h' \<and> same_owed h h' \<and> length (ch_pending_tasks h') \<le> length (ch_pending_tasks h) \<and>
      (status = 0 \<longrightarrow> pending_room h' \<and> ch_last_publish_failure h' = Failure_none) \<and>
      (status \<noteq> 0 \<longrightarrow> ch_last_publish_failure h' \<noteq> Failure_none)"
  proof (cases "ch_pending_flushed h")
    case True
    then have eq: "h\<lparr>ch_last_publish_failure := Failure_none, ch_pending_flushed := True\<rparr> = h\<lparr>ch_last_publish_failure := Failure_none\<rparr>" by simp
    show ?thesis using r True by (intro step [of e True, unfolded eq]) (simp add: publish_pending_def Let_def)
  next
    case False
    then show ?thesis using r step [where f = True] inv
      by (auto simp: publish_pending_def Let_def host_inv_def same_owed_def split: prod.split_asm if_split_asm)
  qed
  then show "host_inv h'" "same_owed h h'" "length (ch_pending_tasks h') \<le> length (ch_pending_tasks h)"
    "status = 0 \<Longrightarrow> pending_room h' \<and> ch_last_publish_failure h' = Failure_none"
    "status \<noteq> 0 \<Longrightarrow> ch_last_publish_failure h' \<noteq> Failure_none"
    by blast+
qed

section \<open>Accepting a request\<close>

text \<open>A free slot takes a new task.\<close>

lemma slot_taken:
  assumes core: "host_core h" and free: "tc_state (context_of h x) = Slot_free" and c: "tc_state c \<noteq> Slot_free" "tc_task_id c = x"
  defines "cs \<equiv> (ch_contexts h)[slot_of h x := c]"
  shows "length cs = length (ch_contexts h)" "slots_ok (ch_capacity_mask h) cs"
    "slot_ids (tc_state c) cs = add_mset x (slot_ids (tc_state c) (ch_contexts h))"
    "s \<noteq> tc_state c \<Longrightarrow> s \<noteq> Slot_free \<Longrightarrow> slot_ids s cs = slot_ids s (ch_contexts h)"
    "owed cs = add_mset (tc_parent_request_id c, tc_payload_index c) (owed (ch_contexts h))"
proof -
  note ch = slot_change [OF slot_of_mod(2) [OF core, of x], where c = c, folded cs_def]
  show "length cs = length (ch_contexts h)" by (simp add: cs_def)
  show "slots_ok (ch_capacity_mask h) cs" unfolding cs_def
    using c by (intro slots_ok_update host_coreD(5) [OF core]) (simp add: slot_of_def)
  show "slot_ids (tc_state c) cs = add_mset x (slot_ids (tc_state c) (ch_contexts h))"
    "owed cs = add_mset (tc_parent_request_id c, tc_payload_index c) (owed (ch_contexts h))"
    using ch(1) [of "tc_state c"] ch(2) free c by (simp_all add: slot_ids_one_def owed_one_def context_of_def)
  show "slot_ids s cs = slot_ids s (ch_contexts h)" if "s \<noteq> tc_state c" "s \<noteq> Slot_free"
    using ch(1) [of s] free c that by (simp add: slot_ids_one_def context_of_def)
qed

lemma slot_freed:
  assumes core: "host_core h" and x: "x \<in># slot_ids st (ch_contexts h)" "st \<noteq> Slot_free"
  defines "cs \<equiv> (ch_contexts h)[slot_of h x := free_context]"
  shows "length cs = length (ch_contexts h)" "slots_ok (ch_capacity_mask h) cs"
    "slot_ids st (ch_contexts h) = add_mset x (slot_ids st cs)"
    "s \<noteq> st \<Longrightarrow> s \<noteq> Slot_free \<Longrightarrow> slot_ids s cs = slot_ids s (ch_contexts h)"
    "owed (ch_contexts h) = add_mset (tc_parent_request_id (context_of h x), tc_payload_index (context_of h x)) (owed cs)"
proof -
  note C = context_of_id [OF core x]
  note ch = slot_change [OF slot_of_mod(2) [OF core, of x], where c = free_context, folded cs_def]
  show "length cs = length (ch_contexts h)" by (simp add: cs_def)
  show "slots_ok (ch_capacity_mask h) cs" unfolding cs_def
    by (intro slots_ok_update host_coreD(5) [OF core]) (simp add: free_context_def)
  show "slot_ids st (ch_contexts h) = add_mset x (slot_ids st cs)"
    "owed (ch_contexts h) = add_mset (tc_parent_request_id (context_of h x), tc_payload_index (context_of h x)) (owed cs)"
    using ch(1) [of st] ch(2) C x(2) by (simp_all add: slot_ids_one_def owed_one_def context_of_def free_context_def)
  show "slot_ids s cs = slot_ids s (ch_contexts h)" if "s \<noteq> st" "s \<noteq> Slot_free"
    using ch(1) [of s] C that by (simp add: slot_ids_one_def context_of_def free_context_def)
qed

lemma next_id_Suc: "x \<noteq> - 1 \<Longrightarrow> unat (x + 1 :: u64) = Suc (unat x)"
proof -
  assume "x \<noteq> - 1"
  then have "unat x \<noteq> 18446744073709551615" by (simp add: word_unat_eq_iff unsigned_minus_1_eq_mask mask_numeral)
  then have "unat x + 1 < 18446744073709551616" using unat_u64_bound [of x] by linarith
  then show ?thesis using unat_add_u64 [of x 1] by simp
qed

text \<open>What accepting the request does before the batch is published.\<close>

definition host_accepts :: "copy_task \<Rightarrow> backend_request \<Rightarrow> u64 \<Rightarrow> copy_host \<Rightarrow> copy_host" where
  "host_accepts task request now h =
     (let task_id = ch_next_task_id h;
          h = set_context task_id
                \<lparr>tc_task_id = task_id, tc_parent_request_id = br_parent_request_id request,
                 tc_payload_index = br_payload_index request, tc_state = Slot_pending, tc_result = Success\<rparr> h;
          h = (if ch_pending_tasks h = [] then h\<lparr>ch_first_pending_nanoseconds := now, ch_pending_flushed := False\<rparr> else h)
      in h\<lparr>ch_pending_tasks := ch_pending_tasks h @ [task], ch_outstanding_tasks := ch_outstanding_tasks h + 1,
           ch_next_task_id := task_id + 1\<rparr>)"

lemma make_copy_task_id: "make_copy_task config request task_id = Inr task \<Longrightarrow> ct_task_id task = task_id"
  by (auto simp: make_copy_task_def Let_def split: if_split_asm)

lemma host_accepts_effect:
  fixes now :: u64 and request :: backend_request
  assumes inv: "host_inv h" and nx: "ch_next_task_id h \<noteq> - 1" and free: "tc_state (context_of h (ch_next_task_id h)) = Slot_free"
    and t: "ct_task_id task = ch_next_task_id h"
  defines "h' \<equiv> host_accepts task request now h"
  shows "host_inv h'" "ch_config h' = ch_config h" "unat (ch_next_task_id h') = Suc (unat (ch_next_task_id h))"
    "owed (ch_contexts h') = add_mset (br_parent_request_id request, br_payload_index request) (owed (ch_contexts h))"
    "ch_pending_tasks h' = ch_pending_tasks h @ [task]" "ch_last_publish_failure h' = ch_last_publish_failure h"
    "ch_publish_blocked h' = ch_publish_blocked h"
proof -
  let ?c = "\<lparr>tc_task_id = ch_next_task_id h, tc_parent_request_id = br_parent_request_id request,
    tc_payload_index = br_payload_index request, tc_state = Slot_pending, tc_result = Success\<rparr>"
  let ?cs = "(ch_contexts h)[slot_of h (ch_next_task_id h) := ?c]"
  have core: "host_core h" and pend: "mset (map ct_task_id (ch_pending_tasks h)) = slot_ids Slot_pending (ch_contexts h)"
    using inv by (simp_all add: host_inv_def)
  note D = host_coreD [OF core]
  have c: "tc_state ?c \<noteq> Slot_free" "tc_task_id ?c = ch_next_task_id h" by simp_all
  note T = slot_taken [OF core free c]
  have h': "h' = h\<lparr>ch_contexts := ?cs, ch_pending_tasks := ch_pending_tasks h @ [task], ch_outstanding_tasks := ch_outstanding_tasks h + 1,
      ch_next_task_id := ch_next_task_id h + 1,
      ch_first_pending_nanoseconds := (if ch_pending_tasks h = [] then now else ch_first_pending_nanoseconds h),
      ch_pending_flushed := (ch_pending_tasks h \<noteq> [] \<and> ch_pending_flushed h)\<rparr>"
    by (simp add: h'_def host_accepts_def Let_def set_context_def)
  show n: "unat (ch_next_task_id h') = Suc (unat (ch_next_task_id h))" using next_id_Suc [OF nx] by (simp add: h')
  have ids: "slot_ids Slot_pending ?cs = add_mset (ch_next_task_id h) (slot_ids Slot_pending (ch_contexts h))"
      "slot_ids Slot_submitted ?cs = slot_ids Slot_submitted (ch_contexts h)" "slot_ids Slot_local_error ?cs = slot_ids Slot_local_error (ch_contexts h)"
    using T(3) T(4) [of Slot_submitted] T(4) [of Slot_local_error] by simp_all
  have "host_core h'"
    unfolding host_core_def using D T(2,5) ids n by (simp add: h' local_ids_def)
  then show "host_inv h'" using pend ids t by (simp add: host_inv_def h')
  show "owed (ch_contexts h') = add_mset (br_parent_request_id request, br_payload_index request) (owed (ch_contexts h))"
    using T(5) by (simp add: h')
qed (simp_all add: h'_def host_accepts_def Let_def set_context_def)

lemma host_try_submit_eq:
  "host_try_submit p request now e h =
     (if \<not> initialized h then (EINVAL, False, h, e)
      else if ch_outstanding_tasks h \<ge> unat (bk_queue_capacity (ch_config h)) \<or>
              (ch_publish_blocked h \<and> ch_pending_tasks h \<noteq> []) then (OK, False, h, e)
      else if tc_state (context_of h (ch_next_task_id h)) \<noteq> Slot_free then (EPROTO, False, h, e)
      else case make_copy_task (ch_config h) request (ch_next_task_id h) of
             Inl status \<Rightarrow> (status, False, h, e)
           | Inr task \<Rightarrow>
               (let h = host_accepts task request now h
                in if of_nat (length (ch_pending_tasks h)) = bk_host_batch (ch_config h)
                   then case publish_pending p e h of (status, h, e) \<Rightarrow> (status, True, h, e)
                   else (OK, True, h, e)))"
  by (simp add: host_try_submit_def host_accepts_def Let_def split: sum.split)

lemma host_try_submit_effect:
  assumes inv: "host_inv h" and room: "pending_room h" and nx: "ch_next_task_id h \<noteq> - 1"
    and r: "host_try_submit p request now e h = (status, accepted, h', e')"
  shows "host_inv h'" "ch_config h' = ch_config h" "unat (ch_next_task_id h') \<le> Suc (unat (ch_next_task_id h))"
    "length (ch_pending_tasks h') \<le> 64"
    "accepted \<Longrightarrow> owed (ch_contexts h') = add_mset (br_parent_request_id request, br_payload_index request) (owed (ch_contexts h))"
    "\<not> accepted \<Longrightarrow> h' = h \<and> e' = e"
    "status = 0 \<Longrightarrow> pending_room h'"
    "status \<noteq> 0 \<Longrightarrow> accepted \<Longrightarrow> ch_last_publish_failure h' \<noteq> Failure_none"
proof -
  let ?G = "host_inv h' \<and> ch_config h' = ch_config h \<and> unat (ch_next_task_id h') \<le> Suc (unat (ch_next_task_id h)) \<and>
    length (ch_pending_tasks h') \<le> 64 \<and>
    (accepted \<longrightarrow> owed (ch_contexts h') = add_mset (br_parent_request_id request, br_payload_index request) (owed (ch_contexts h))) \<and>
    (\<not> accepted \<longrightarrow> h' = h \<and> e' = e) \<and> (status = 0 \<longrightarrow> pending_room h') \<and>
    (status \<noteq> 0 \<longrightarrow> accepted \<longrightarrow> ch_last_publish_failure h' \<noteq> Failure_none)"
  have len: "length (ch_pending_tasks h) \<le> 64" using room by (simp add: pending_room_def)
  have ?G
  proof (cases "accepted")
    case False
    then show ?thesis using r inv room len unfolding host_try_submit_eq
      by (auto simp: Let_def split: if_split_asm sum.split_asm prod.split_asm)
  next
    case True
    then obtain task where t: "make_copy_task (ch_config h) request (ch_next_task_id h) = Inr task"
        and free: "tc_state (context_of h (ch_next_task_id h)) = Slot_free"
        and nb: "\<not> (ch_publish_blocked h \<and> ch_pending_tasks h \<noteq> [])"
      using r unfolding host_try_submit_eq by (auto simp: Let_def split: if_split_asm sum.split_asm)
    define h1 where "h1 = host_accepts task request now h"
    note A = host_accepts_effect [OF inv nx free make_copy_task_id [OF t], where request = request and now = now, folded h1_def]
    have batch: "bk_host_batch (ch_config h1) = 64" using capacity_facts host_coreD(1) inv A(2) by (metis host_inv_def)
    have lt: "length (ch_pending_tasks h) < 64" using room nb by (auto simp: pending_room_def)
    show ?thesis
    proof (cases "of_nat (length (ch_pending_tasks h1)) = bk_host_batch (ch_config h1)")
      case True
      then have "publish_pending p e h1 = (status, h', e')"
        using r t free \<open>accepted\<close> unfolding host_try_submit_eq by (auto simp: Let_def h1_def split: if_split_asm prod.split_asm)
      from publish_pending_effect [OF A(1) _ this] A lt show ?thesis using \<open>accepted\<close> by (auto simp: same_owed_def)
    next
      case False
      then have "status = 0" "h' = h1"
        using r t free \<open>accepted\<close> unfolding host_try_submit_eq by (auto simp: Let_def h1_def split: if_split_asm)
      moreover have "length (ch_pending_tasks h1) < 64"
      proof -
        have "length (ch_pending_tasks h1) \<noteq> 64" using False batch by (metis of_nat_numeral)
        then show ?thesis using A(5) lt by simp
      qed
      ultimately show ?thesis using A \<open>accepted\<close> by (simp add: pending_room_def)
    qed
  qed
  then show "host_inv h'" "ch_config h' = ch_config h" "unat (ch_next_task_id h') \<le> Suc (unat (ch_next_task_id h))"
    "length (ch_pending_tasks h') \<le> 64"
    "accepted \<Longrightarrow> owed (ch_contexts h') = add_mset (br_parent_request_id request, br_payload_index request) (owed (ch_contexts h))"
    "\<not> accepted \<Longrightarrow> h' = h \<and> e' = e" "status = 0 \<Longrightarrow> pending_room h'"
    "status \<noteq> 0 \<Longrightarrow> accepted \<Longrightarrow> ch_last_publish_failure h' \<noteq> Failure_none"
    by blast+
qed

section \<open>Completing tasks on the host\<close>

lemma push_local_fields [simp]:
  "ch_contexts (push_local x h) = ch_contexts h" "ch_config (push_local x h) = ch_config h" "ch_capacity_mask (push_local x h) = ch_capacity_mask h"
  "ch_outstanding_tasks (push_local x h) = ch_outstanding_tasks h" "ch_next_task_id (push_local x h) = ch_next_task_id h"
  "ch_local_completion_head (push_local x h) = ch_local_completion_head h" "ch_pending_tasks (push_local x h) = ch_pending_tasks h"
  "length (ch_local_completion_task_ids (push_local x h)) = length (ch_local_completion_task_ids h)"
  "ch_publish_blocked (push_local x h) = ch_publish_blocked h" "ch_last_publish_failure (push_local x h) = ch_last_publish_failure h"
  by (simp_all add: push_local_def)

lemma local_ids_push:
  assumes "host_core h" "size (slot_ids Slot_local_error (ch_contexts h)) < length (ch_contexts h)" "ch_local_completion_tail h \<noteq> - 1"
  shows "local_ids (push_local x (h\<lparr>ch_contexts := cs\<rparr>)) = local_ids h @ [x]"
    "unat (ch_local_completion_tail (push_local x (h\<lparr>ch_contexts := cs\<rparr>))) = Suc (unat (ch_local_completion_tail h))"
    "ch_local_completion_head h \<le> ch_local_completion_tail (push_local x (h\<lparr>ch_contexts := cs\<rparr>))"
proof -
  note D = host_coreD [OF assms(1)]
  let ?hd = "unat (ch_local_completion_head h)" and ?tl = "unat (ch_local_completion_tail h)"
  show t: "unat (ch_local_completion_tail (push_local x (h\<lparr>ch_contexts := cs\<rparr>))) = Suc ?tl"
    using next_id_Suc [OF assms(3)] by (simp add: push_local_def)
  have le: "?hd \<le> ?tl" using D(6) by (simp add: word_le_nat_alt)
  then show "ch_local_completion_head h \<le> ch_local_completion_tail (push_local x (h\<lparr>ch_contexts := cs\<rparr>))"
    using t by (simp add: word_le_nat_alt)
  have "?tl - ?hd = size (mset (local_ids h))" by (simp add: local_ids_def)
  then have "?tl - ?hd < length (ch_local_completion_task_ids h)" using D(3,7) assms(2) by simp
  from ring_window_push [OF this, of ?hd x]
  show "local_ids (push_local x (h\<lparr>ch_contexts := cs\<rparr>)) = local_ids h @ [x]"
    using t le slot_of_mod(1) [OF assms(1)] D(3) by (simp add: local_ids_def push_local_def Suc_diff_le slot_of_def)
qed

lemma local_move:
  fixes r :: datagram_result
  assumes core: "host_core h" and x: "x \<in># slot_ids st (ch_contexts h)" and st: "st = Slot_pending \<or> st = Slot_submitted"
  defines "h' \<equiv> push_local x (h\<lparr>ch_contexts := (ch_contexts h)[slot_of h x := (context_of h x)\<lparr>tc_state := Slot_local_error, tc_result := r\<rparr>]\<rparr>)"
  shows "host_core h'" "moved st Slot_local_error {#x#} (ch_contexts h) (ch_contexts h')"
proof -
  note D = host_coreD [OF core]
  let ?cs = "(ch_contexts h)[slot_of h x := (context_of h x)\<lparr>tc_state := Slot_local_error, tc_result := r\<rparr>]"
  have st': "st \<noteq> Slot_free" "Slot_local_error \<noteq> Slot_free" "st \<noteq> Slot_local_error" using st by auto
  have m: "moved st Slot_local_error {#x#} (ch_contexts h) ?cs" and ok: "slots_ok (ch_capacity_mask h) ?cs"
    using moved_one [OF D(5) x st', of r] slot_moves(1) [OF D(5) x st', of r] by (simp_all add: context_of_def slot_of_def)
  then show "moved st Slot_local_error {#x#} (ch_contexts h) (ch_contexts h')" by (simp add: h'_def)
  note M = m [unfolded moved_def]
  have "0 < size (slot_ids st (ch_contexts h))" using x by (metis empty_not_add_mset multi_member_split nonempty_has_size)
  then have pos: "0 < size (slot_ids Slot_pending (ch_contexts h)) + size (slot_ids Slot_submitted (ch_contexts h))" using st by auto
  then have room: "size (slot_ids Slot_local_error (ch_contexts h)) < length (ch_contexts h)"
    using owed_parts [of "ch_contexts h"] owed_le [of "ch_contexts h"] by linarith
  have "ch_local_completion_tail h \<noteq> - 1"
  proof
    assume "ch_local_completion_tail h = - 1"
    then show False using D(9) pos unat_u64_bound [of "ch_next_task_id h"] by (simp add: unsigned_minus_1_eq_mask mask_numeral)
  qed
  note P = local_ids_push [OF core room this, of x ?cs, folded h'_def]
  have same: "ch_config h' = ch_config h" "ch_contexts h' = ?cs" "ch_capacity_mask h' = ch_capacity_mask h"
      "ch_outstanding_tasks h' = ch_outstanding_tasks h" "ch_next_task_id h' = ch_next_task_id h"
      "ch_local_completion_head h' = ch_local_completion_head h"
      "length (ch_local_completion_task_ids h') = length (ch_local_completion_task_ids h)"
    by (simp_all add: h'_def)
  have "unat (ch_local_completion_tail h') + size (slot_ids Slot_pending ?cs) + size (slot_ids Slot_submitted ?cs) =
      unat (ch_local_completion_tail h) + size (slot_ids Slot_pending (ch_contexts h)) + size (slot_ids Slot_submitted (ch_contexts h))"
    using P(2) M st by auto
  then show "host_core h'"
    unfolding host_core_def same P(1) using D ok M P(3) by simp
qed

lemma fail_tasks_ok:
  assumes "host_core h" "mset (map ct_task_id ts) \<subseteq># slot_ids Slot_pending (ch_contexts h)"
  shows "\<exists>h'. fail_tasks result ts h = (0, h') \<and> host_core h' \<and> same_owed h h' \<and>
    moved Slot_pending Slot_local_error (mset (map ct_task_id ts)) (ch_contexts h) (ch_contexts h')"
  using assms
proof (induction ts arbitrary: h)
  case Nil
  then show ?case by (simp add: moved_none)
next
  case (Cons t ts)
  let ?x = "ct_task_id t"
  let ?h = "push_local ?x (h\<lparr>ch_contexts := (ch_contexts h)[slot_of h ?x := (context_of h ?x)\<lparr>tc_state := Slot_local_error, tc_result := result\<rparr>]\<rparr>)"
  have x: "?x \<in># slot_ids Slot_pending (ch_contexts h)" using Cons.prems(2) by (auto dest: mset_subset_eqD)
  note C = context_of_id [OF Cons.prems(1) x]
  note L = local_move [OF Cons.prems(1) x, of result]
  have "slot_ids Slot_pending (ch_contexts h) = add_mset ?x (slot_ids Slot_pending (ch_contexts ?h))" using L(2) by (simp add: moved_def)
  then have "mset (map ct_task_id ts) \<subseteq># slot_ids Slot_pending (ch_contexts ?h)" using Cons.prems(2) by simp
  from Cons.IH [OF _ this] L(1) obtain h' where h': "fail_tasks result ts ?h = (0, h')" "host_core h'" "same_owed ?h h'"
      "moved Slot_pending Slot_local_error (mset (map ct_task_id ts)) (ch_contexts ?h) (ch_contexts h')"
    by auto
  have "same_owed h ?h" using L(2) by (simp add: same_owed_def moved_def)
  moreover have "fail_tasks result (t # ts) h = (0, h')" using C h'(1) by (simp add: Let_def set_context_def)
  ultimately show ?case using h' moved_trans [OF _ h'(4)] L(2) same_owed_trans by fastforce
qed

lemma fail_pending_ok:
  assumes "host_inv h"
  shows "\<exists>h'. fail_pending result h = (0, h') \<and> host_inv h' \<and> same_owed h h' \<and> ch_pending_tasks h' = [] \<and> \<not> ch_publish_blocked h' \<and>
    ch_last_publish_failure h' = Failure_none"
proof -
  have core: "host_core h" and pend: "mset (map ct_task_id (ch_pending_tasks h)) = slot_ids Slot_pending (ch_contexts h)"
    using assms by (simp_all add: host_inv_def)
  from fail_tasks_ok [OF core, of "ch_pending_tasks h" result] pend obtain h' where
    h': "fail_tasks result (ch_pending_tasks h) h = (0, h')" "host_core h'" "same_owed h h'"
      "moved Slot_pending Slot_local_error (mset (map ct_task_id (ch_pending_tasks h))) (ch_contexts h) (ch_contexts h')"
    by auto
  have "slot_ids Slot_pending (ch_contexts h') = {#}" using h'(4) pend by (simp add: moved_def)
  then show ?thesis using h'(1-3) slot_of_mod(3) [OF core] by (auto simp: fail_pending_def host_inv_def same_owed_def)
qed

lemma fail_submitted_ok:
  fixes result :: datagram_result
  assumes inv: "host_inv h" and i: "i < length (ch_contexts h)"
  defines "h' \<equiv> fail_submitted result i h"
  shows "host_inv h'" "same_owed h h'" "ch_pending_tasks h' = ch_pending_tasks h" "ch_publish_blocked h' = ch_publish_blocked h"
    "length (ch_contexts h') = length (ch_contexts h)" "tc_state (ch_contexts h' ! i) \<noteq> Slot_submitted"
    "j < length (ch_contexts h) \<Longrightarrow> j \<noteq> i \<Longrightarrow> ch_contexts h' ! j = ch_contexts h ! j"
proof -
  let ?c = "ch_contexts h ! i"
  have core: "host_core h" and pend: "mset (map ct_task_id (ch_pending_tasks h)) = slot_ids Slot_pending (ch_contexts h)"
    using inv by (simp_all add: host_inv_def)
  have "host_inv h' \<and> same_owed h h'"
  proof (cases "tc_state ?c = Slot_submitted")
    case True
    then have x: "tc_task_id ?c \<in># slot_ids Slot_submitted (ch_contexts h)" using i by (force simp: slot_ids_def)
    have s: "slot_of h (tc_task_id ?c) = i" using host_coreD(5) [OF core] i True by (simp add: slots_ok_def slot_of_def)
    have h': "h' = push_local (tc_task_id ?c) (h\<lparr>ch_contexts := (ch_contexts h)[slot_of h (tc_task_id ?c) :=
        (context_of h (tc_task_id ?c))\<lparr>tc_state := Slot_local_error, tc_result := result\<rparr>]\<rparr>)"
      using True by (simp add: h'_def fail_submitted_def Let_def s context_of_def)
    from local_move [OF core x, of result, folded h'] pend show ?thesis
      by (auto simp: host_inv_def same_owed_def moved_def h')
  qed (use inv in \<open>simp add: h'_def fail_submitted_def\<close>)
  then show "host_inv h'" "same_owed h h'" by blast+
qed (use i in \<open>auto simp: h'_def fail_submitted_def Let_def\<close>)

lemma fail_submitted_all:
  fixes result :: datagram_result
  assumes "host_inv h" "n \<le> length (ch_contexts h)"
  defines "h' \<equiv> fold (fail_submitted result) [0..<n] h"
  shows "host_inv h'" "same_owed h h'" "ch_pending_tasks h' = ch_pending_tasks h" "ch_publish_blocked h' = ch_publish_blocked h"
    "length (ch_contexts h') = length (ch_contexts h)" "j < n \<Longrightarrow> tc_state (ch_contexts h' ! j) \<noteq> Slot_submitted"
proof -
  have "host_inv h' \<and> same_owed h h' \<and> ch_pending_tasks h' = ch_pending_tasks h \<and> ch_publish_blocked h' = ch_publish_blocked h \<and>
      length (ch_contexts h') = length (ch_contexts h) \<and> (\<forall>j < n. tc_state (ch_contexts h' ! j) \<noteq> Slot_submitted)"
    using assms(2) unfolding h'_def
  proof (induction n)
    case 0
    then show ?case using assms(1) by simp
  next
    case (Suc n)
    let ?g = "fold (fail_submitted result) [0..<n] h"
    have IH: "host_inv ?g" "same_owed h ?g" "ch_pending_tasks ?g = ch_pending_tasks h" "ch_publish_blocked ?g = ch_publish_blocked h"
        "length (ch_contexts ?g) = length (ch_contexts h)" "\<And>j. j < n \<Longrightarrow> tc_state (ch_contexts ?g ! j) \<noteq> Slot_submitted"
      using Suc by simp_all
    have n: "n < length (ch_contexts ?g)" using IH(5) Suc.prems by simp
    note F = fail_submitted_ok [OF IH(1) n, where result = result]
    have "tc_state (ch_contexts (fail_submitted result n ?g) ! j) \<noteq> Slot_submitted" if "j < Suc n" for j
      using F(6) F(7) [of j] IH(6) [of j] n that by (cases "j = n") simp_all
    then show ?case using F(1-5) IH(2-5) same_owed_trans [OF IH(2) F(2)] by simp
  qed
  then show "host_inv h'" "same_owed h h'" "ch_pending_tasks h' = ch_pending_tasks h" "ch_publish_blocked h' = ch_publish_blocked h"
    "length (ch_contexts h') = length (ch_contexts h)" "j < n \<Longrightarrow> tc_state (ch_contexts h' ! j) \<noteq> Slot_submitted"
    by blast+
qed

text \<open>Afterwards every task that is owed waits in the list of local completions.\<close>

lemma fail_all_ok:
  assumes "host_inv h"
  shows "\<exists>h'. fail_all result h = (0, h') \<and> host_inv h' \<and> same_owed h h' \<and> ch_pending_tasks h' = [] \<and> \<not> ch_publish_blocked h' \<and>
    ch_last_publish_failure h' = Failure_none \<and> slot_ids Slot_submitted (ch_contexts h') = {#}"
proof -
  obtain g where g: "fail_pending result h = (0, g)" "host_inv g" "same_owed h g" "ch_pending_tasks g = []" "\<not> ch_publish_blocked g"
    using fail_pending_ok [OF assms] by blast
  have cap: "unat (bk_queue_capacity (ch_config g)) = length (ch_contexts g)" using host_coreD(2) g(2) by (simp add: host_inv_def)
  let ?h = "fold (fail_submitted result) [0..<length (ch_contexts g)] g"
  note F = fail_submitted_all [OF g(2) order_refl, where result = result]
  have "tc_state c \<noteq> Slot_submitted" if "c \<in> set (ch_contexts ?h)" for c
    using that F(5,6) by (metis in_set_conv_nth)
  then have "slot_ids Slot_submitted (ch_contexts ?h) = {#}" by (simp add: slot_ids_def)
  moreover have "fail_all result h = (0, ?h\<lparr>ch_last_publish_failure := Failure_none\<rparr>)" using g(1) cap by (simp add: fail_all_def)
  moreover have "host_inv (?h\<lparr>ch_last_publish_failure := Failure_none\<rparr>)" using F(1) by (simp add: host_inv_def)
  moreover have "same_owed h (?h\<lparr>ch_last_publish_failure := Failure_none\<rparr>)" using F(2) g(3) by (simp add: same_owed_def)
  ultimately show ?thesis using F(3,4) g(4,5) by simp
qed

lemma try_complete_locally_effect:
  assumes inv: "host_inv h" and nx: "ch_next_task_id h \<noteq> - 1" and r: "try_complete_locally request result h = (status, accepted, h')"
  shows "host_inv h'" "ch_config h' = ch_config h" "unat (ch_next_task_id h') \<le> Suc (unat (ch_next_task_id h))"
    "ch_pending_tasks h' = ch_pending_tasks h" "ch_publish_blocked h' = ch_publish_blocked h"
    "accepted \<Longrightarrow> owed (ch_contexts h') = add_mset (br_parent_request_id request, br_payload_index request) (owed (ch_contexts h))"
    "\<not> accepted \<Longrightarrow> same_owed h h'" "accepted \<Longrightarrow> status = 0"
proof -
  have core: "host_core h" and pend: "mset (map ct_task_id (ch_pending_tasks h)) = slot_ids Slot_pending (ch_contexts h)"
    using inv by (simp_all add: host_inv_def)
  note D = host_coreD [OF core]
  let ?x = "ch_next_task_id h"
  let ?c = "\<lparr>tc_task_id = ?x, tc_parent_request_id = br_parent_request_id request, tc_payload_index = br_payload_index request,
    tc_state = Slot_local_error, tc_result = result\<rparr>"
  let ?cs = "(ch_contexts h)[slot_of h ?x := ?c]"
  let ?g = "push_local ?x (h\<lparr>ch_contexts := ?cs\<rparr>)"
  have "host_inv h' \<and> ch_config h' = ch_config h \<and> unat (ch_next_task_id h') \<le> Suc (unat (ch_next_task_id h)) \<and>
      ch_pending_tasks h' = ch_pending_tasks h \<and> ch_publish_blocked h' = ch_publish_blocked h \<and>
      (accepted \<longrightarrow> owed (ch_contexts h') = add_mset (br_parent_request_id request, br_payload_index request) (owed (ch_contexts h))) \<and>
      (\<not> accepted \<longrightarrow> same_owed h h') \<and> (accepted \<longrightarrow> status = 0)"
  proof (cases accepted)
    case False
    then show ?thesis using r inv by (auto simp: try_complete_locally_def Let_def host_inv_def same_owed_def split: if_split_asm)
  next
    case True
    then have free: "tc_state (context_of h ?x) = Slot_free" and lt: "ch_outstanding_tasks h < unat (bk_queue_capacity (ch_config h))"
        and h': "h' = ?g\<lparr>ch_outstanding_tasks := ch_outstanding_tasks h + 1, ch_next_task_id := ?x + 1\<rparr>" and s0: "status = 0"
      using r by (auto simp: try_complete_locally_def Let_def set_context_def split: if_split_asm)
    have c: "tc_state ?c \<noteq> Slot_free" "tc_task_id ?c = ?x" by simp_all
    note T = slot_taken [OF core free c]
    have ids: "slot_ids Slot_local_error ?cs = add_mset ?x (slot_ids Slot_local_error (ch_contexts h))"
        "slot_ids Slot_submitted ?cs = slot_ids Slot_submitted (ch_contexts h)" "slot_ids Slot_pending ?cs = slot_ids Slot_pending (ch_contexts h)"
      using T(3) T(4) [of Slot_submitted] T(4) [of Slot_pending] by simp_all
    have room: "size (slot_ids Slot_local_error (ch_contexts h)) < length (ch_contexts h)"
      using owed_parts [of "ch_contexts h"] lt D(2,8) by linarith
    have "ch_local_completion_tail h \<noteq> - 1"
    proof
      assume "ch_local_completion_tail h = - 1"
      then show False using D(9) unat_u64_bound [of ?x] by (simp add: unsigned_minus_1_eq_mask mask_numeral)
    qed
    note P = local_ids_push [OF core room this, of ?x ?cs]
    have n: "unat (?x + 1) = Suc (unat ?x)" by (rule next_id_Suc [OF nx])
    have li: "local_ids h' = local_ids ?g" by (simp add: h' local_ids_def)
    have "host_core h'"
      unfolding host_core_def li P(1) using D T(2,5) ids P(2,3) n by (simp add: h')
    then show ?thesis using True s0 n pend ids T(5) by (simp add: host_inv_def h')
  qed
  then show "host_inv h'" "ch_config h' = ch_config h" "unat (ch_next_task_id h') \<le> Suc (unat (ch_next_task_id h))"
    "ch_pending_tasks h' = ch_pending_tasks h" "ch_publish_blocked h' = ch_publish_blocked h"
    "accepted \<Longrightarrow> owed (ch_contexts h') = add_mset (br_parent_request_id request, br_payload_index request) (owed (ch_contexts h))"
    "\<not> accepted \<Longrightarrow> same_owed h h'" "accepted \<Longrightarrow> status = 0"
    by blast+
qed

section \<open>Delivering completions\<close>

lemma maybe_published:
  assumes inv: "host_inv h" and len: "length (ch_pending_tasks h) \<le> 64"
    and r: "(status, h', e') = (0, h, e) \<or> publish_pending p e h = (status, h', e')"
  shows "host_inv h'" "same_owed h h'" "length (ch_pending_tasks h') \<le> length (ch_pending_tasks h)"
    "status = 0 \<Longrightarrow> pending_room h \<Longrightarrow> pending_room h'" "status \<noteq> 0 \<Longrightarrow> ch_last_publish_failure h' \<noteq> Failure_none"
  using r inv publish_pending_effect [OF inv len, of p e status h' e'] by (elim disjE; simp)+

lemma progress_host_batch_effect:
  assumes inv: "host_inv h" and len: "length (ch_pending_tasks h) \<le> 64" and r: "progress_host_batch p now e h = (status, h', e')"
  shows "host_inv h'" "same_owed h h'" "length (ch_pending_tasks h') \<le> length (ch_pending_tasks h)"
    "status = 0 \<Longrightarrow> pending_room h \<Longrightarrow> pending_room h'" "status \<noteq> 0 \<Longrightarrow> ch_last_publish_failure h' \<noteq> Failure_none"
proof -
  have "initialized h" using inv slot_of_mod(3) by (simp add: host_inv_def)
  then have "(status, h', e') = (0, h, e) \<or> publish_pending p e h = (status, h', e')"
    using r by (auto simp: progress_host_batch_def split: if_split_asm)
  from maybe_published [OF inv len this]
  show "host_inv h'" "same_owed h h'" "length (ch_pending_tasks h') \<le> length (ch_pending_tasks h)"
    "status = 0 \<Longrightarrow> pending_room h \<Longrightarrow> pending_room h'" "status \<noteq> 0 \<Longrightarrow> ch_last_publish_failure h' \<noteq> Failure_none"
    by blast+
qed

lemma publish_pending_now_effect:
  assumes inv: "host_inv h" and len: "length (ch_pending_tasks h) \<le> 64" and r: "publish_pending_now p e h = (status, h', e')"
  shows "host_inv h'" "same_owed h h'" "length (ch_pending_tasks h') \<le> length (ch_pending_tasks h)"
    "status = 0 \<Longrightarrow> pending_room h \<Longrightarrow> pending_room h'" "status \<noteq> 0 \<Longrightarrow> ch_last_publish_failure h' \<noteq> Failure_none"
proof -
  have "initialized h" using inv slot_of_mod(3) by (simp add: host_inv_def)
  then have "(status, h', e') = (0, h, e) \<or> publish_pending p e h = (status, h', e')"
    using r by (auto simp: publish_pending_now_def split: if_split_asm)
  from maybe_published [OF inv len this]
  show "host_inv h'" "same_owed h h'" "length (ch_pending_tasks h') \<le> length (ch_pending_tasks h)"
    "status = 0 \<Longrightarrow> pending_room h \<Longrightarrow> pending_room h'" "status \<noteq> 0 \<Longrightarrow> ch_last_publish_failure h' \<noteq> Failure_none"
    by blast+
qed

lemma free_slot_inv:
  assumes inv: "host_inv h" and x: "x \<in># slot_ids st (ch_contexts h)" and st: "st = Slot_submitted"
  defines "h' \<equiv> (set_context x free_context h)\<lparr>ch_outstanding_tasks := ch_outstanding_tasks h - 1\<rparr>"
  shows "host_inv h'" "owed (ch_contexts h) = add_mset (tc_parent_request_id (context_of h x), tc_payload_index (context_of h x)) (owed (ch_contexts h'))"
proof -
  have core: "host_core h" and pend: "mset (map ct_task_id (ch_pending_tasks h)) = slot_ids Slot_pending (ch_contexts h)"
    using inv by (simp_all add: host_inv_def)
  note D = host_coreD [OF core]
  have x': "x \<in># slot_ids Slot_submitted (ch_contexts h)" "Slot_submitted \<noteq> Slot_free" using x st by simp_all
  note F = slot_freed [OF core x']
  let ?cs = "(ch_contexts h)[slot_of h x := free_context]"
  have h': "h' = h\<lparr>ch_contexts := ?cs, ch_outstanding_tasks := ch_outstanding_tasks h - 1\<rparr>" by (simp add: h'_def set_context_def)
  have ids: "slot_ids Slot_pending ?cs = slot_ids Slot_pending (ch_contexts h)" "slot_ids Slot_local_error ?cs = slot_ids Slot_local_error (ch_contexts h)"
    using F(4) [of Slot_pending] F(4) [of Slot_local_error] by simp_all
  have sz: "size (owed (ch_contexts h)) = Suc (size (owed ?cs))" "size (slot_ids Slot_submitted (ch_contexts h)) = Suc (size (slot_ids Slot_submitted ?cs))"
    using F(3,5) by simp_all
  have "host_core h'" unfolding host_core_def using D F(2) ids sz by (simp add: h' local_ids_def)
  then show "host_inv h'" using pend ids by (simp add: host_inv_def h')
  show "owed (ch_contexts h) = add_mset (tc_parent_request_id (context_of h x), tc_payload_index (context_of h x)) (owed (ch_contexts h'))"
    using F(5) by (simp add: h')
qed

lemma pop_local_inv:
  assumes inv: "host_inv h" and lt: "ch_local_completion_head h < ch_local_completion_tail h"
  defines "x \<equiv> ch_local_completion_task_ids h ! slot_of h (ch_local_completion_head h)"
  defines "h' \<equiv> (set_context x free_context h)\<lparr>ch_local_completion_head := ch_local_completion_head h + 1,
    ch_outstanding_tasks := ch_outstanding_tasks h - 1\<rparr>"
  shows "tc_state (context_of h x) = Slot_local_error" "tc_task_id (context_of h x) = x" "ch_outstanding_tasks h \<noteq> 0" "host_inv h'"
    "owed (ch_contexts h) = add_mset (tc_parent_request_id (context_of h x), tc_payload_index (context_of h x)) (owed (ch_contexts h'))"
proof -
  have core: "host_core h" and pend: "mset (map ct_task_id (ch_pending_tasks h)) = slot_ids Slot_pending (ch_contexts h)"
    using inv by (simp_all add: host_inv_def)
  note D = host_coreD [OF core]
  let ?hd = "unat (ch_local_completion_head h)" and ?tl = "unat (ch_local_completion_tail h)"
  have lt': "?hd < ?tl" using lt by (simp add: word_less_nat_alt)
  then have n: "?tl - ?hd = Suc (?tl - Suc ?hd)" by simp
  have "ch_local_completion_head h \<noteq> - 1" using lt' unat_u64_bound [of "ch_local_completion_tail h"] by (auto simp: unsigned_minus_1_eq_mask mask_numeral)
  then have hd: "unat (ch_local_completion_head h + 1) = Suc ?hd" by (rule next_id_Suc)
  have pop: "local_ids h = x # ring_window (ch_local_completion_task_ids h) (Suc ?hd) (?tl - Suc ?hd)"
    unfolding local_ids_def n ring_window_pop by (simp add: x_def slot_of_mod(1) [OF core] D(3))
  then have x: "x \<in># slot_ids Slot_local_error (ch_contexts h)" using D(7) by (metis list.set_intros(1) set_mset_mset)
  note C = context_of_id [OF core x]
  show "tc_state (context_of h x) = Slot_local_error" "tc_task_id (context_of h x) = x" using C by simp_all
  have x': "x \<in># slot_ids Slot_local_error (ch_contexts h)" "Slot_local_error \<noteq> Slot_free" using x by simp_all
  note F = slot_freed [OF core x']
  let ?cs = "(ch_contexts h)[slot_of h x := free_context]"
  have h': "h' = h\<lparr>ch_contexts := ?cs, ch_local_completion_head := ch_local_completion_head h + 1, ch_outstanding_tasks := ch_outstanding_tasks h - 1\<rparr>"
    by (simp add: h'_def set_context_def)
  have ids: "slot_ids Slot_pending ?cs = slot_ids Slot_pending (ch_contexts h)" "slot_ids Slot_submitted ?cs = slot_ids Slot_submitted (ch_contexts h)"
    using F(4) [of Slot_pending] F(4) [of Slot_submitted] by simp_all
  have sz: "size (owed (ch_contexts h)) = Suc (size (owed ?cs))" using F(5) by simp
  then show "ch_outstanding_tasks h \<noteq> 0" using D(8) by simp
  have li: "local_ids h' = ring_window (ch_local_completion_task_ids h) (Suc ?hd) (?tl - Suc ?hd)" by (simp add: h' local_ids_def hd)
  have "mset (local_ids h') = slot_ids Slot_local_error ?cs" using D(7) F(3) pop li by simp
  moreover have "ch_local_completion_head h + 1 \<le> ch_local_completion_tail h" using hd lt' by (simp add: word_le_nat_alt)
  ultimately have "host_core h'" unfolding host_core_def using D F(2) ids sz by (simp add: h')
  then show "host_inv h'" using pend ids by (simp add: host_inv_def h')
  show "owed (ch_contexts h) = add_mset (tc_parent_request_id (context_of h x), tc_payload_index (context_of h x)) (owed (ch_contexts h'))"
    using F(5) by (simp add: h')
qed

text \<open>What the host hands out ends one of the requests it owes; the rest stays owed.\<close>

definition pays :: "backend_completion option \<Rightarrow> copy_host \<Rightarrow> copy_host \<Rightarrow> bool" where
  "pays completion h h' \<longleftrightarrow> ch_config h' = ch_config h \<and> ch_next_task_id h' = ch_next_task_id h \<and>
     owed (ch_contexts h) =
       (case completion of None \<Rightarrow> {#} | Some c \<Rightarrow> {#(bc_parent_request_id c, bc_payload_index c)#}) + owed (ch_contexts h')"

lemma pays_none: "pays None h h' \<longleftrightarrow> same_owed h h'"
  by (auto simp: pays_def same_owed_def)

lemma pays_after: "same_owed h g \<Longrightarrow> pays c g h' \<Longrightarrow> pays c h h'"
  by (simp add: pays_def same_owed_def)

lemma host_try_pop_effect:
  assumes inv: "host_inv h" and len: "length (ch_pending_tasks h) \<le> 64"
    and r: "host_try_pop_completion p now e h = (status, completion, h', e')"
  shows "host_inv h'" "pays completion h h'" "length (ch_pending_tasks h') \<le> length (ch_pending_tasks h)"
    "status = 0 \<Longrightarrow> pending_room h \<Longrightarrow> pending_room h'" "status \<noteq> 0 \<Longrightarrow> ch_last_publish_failure h' \<noteq> Failure_none"
    "status \<noteq> 0 \<Longrightarrow> completion = None"
proof -
  obtain st g e1 where g: "progress_host_batch p now e h = (st, g, e1)" by (metis prod_cases3)
  note P = progress_host_batch_effect [OF inv len g]
  have init: "initialized h" using inv slot_of_mod(3) by (simp add: host_inv_def)
  let ?x = "ch_local_completion_task_ids g ! slot_of g (ch_local_completion_head g)"
  let ?G = "host_inv h' \<and> pays completion g h' \<and> ch_pending_tasks h' = ch_pending_tasks g \<and> ch_publish_blocked h' = ch_publish_blocked g \<and>
    (status \<noteq> 0 \<longrightarrow> ch_last_publish_failure h' \<noteq> Failure_none \<and> completion = None) \<and> (status = 0 \<longrightarrow> st = 0)"
  have ?G
  proof (cases "st = 0")
    case False
    then show ?thesis using r g init P(1,5) by (simp add: host_try_pop_completion_def pays_none)
  next
    case s0: True
    show ?thesis
    proof (cases "ch_local_completion_head g < ch_local_completion_tail g")
      case True
      note L = pop_local_inv [OF P(1) True]
      show ?thesis using r g init s0 True L
        by (auto simp: host_try_pop_completion_def Let_def pays_def completion_of_def set_context_def)
    next
      case False
      obtain ps c e2 where poll: "pt_try_poll p e1 = (ps, c, e2)" by (metis prod_cases3)
      let ?c = "context_of g (cp_task_id c)"
      have x: "cp_task_id c \<in># slot_ids Slot_submitted (ch_contexts g)"
        if "tc_state ?c = Slot_submitted" "tc_task_id ?c = cp_task_id c"
      proof -
        have "slot_of g (cp_task_id c) < length (ch_contexts g)" using slot_of_mod(2) P(1) by (simp add: host_inv_def)
        then show ?thesis using that by (force simp: slot_ids_def context_of_def)
      qed
      show ?thesis using r g init s0 False poll P(1) free_slot_inv [OF P(1) x]
        by (auto simp: host_try_pop_completion_def Let_def pays_def completion_of_def set_context_def host_inv_def split: if_split_asm)
    qed
  qed
  then show "host_inv h'" "pays completion h h'" "length (ch_pending_tasks h') \<le> length (ch_pending_tasks h)"
    "status = 0 \<Longrightarrow> pending_room h \<Longrightarrow> pending_room h'" "status \<noteq> 0 \<Longrightarrow> ch_last_publish_failure h' \<noteq> Failure_none"
    "status \<noteq> 0 \<Longrightarrow> completion = None"
    using pays_after [OF P(2)] P(3,4) by (auto simp: pending_room_def)
qed

lemma all_free [simp]:
  "st \<noteq> Slot_free \<Longrightarrow> slot_ids st (replicate n free_context) = {#}" "owed (replicate n free_context) = {#}"
  by (induction n) (simp_all add: slot_ids_def owed_def free_context_def)

lemma all_free_ok [simp]: "slots_ok m (replicate n free_context)"
  by (simp add: slots_ok_def free_context_def)

lemma host_initialize_inv:
  assumes "host_initialize config memory h = (0, h')" "h = new_host"
  shows "host_inv h'" "owed (ch_contexts h') = {#}" "pending_room h'" "ch_next_task_id h' = 1" "ch_config h' = config"
proof -
  have v: "validate_backend_config config = 0"
    and h': "h' = h\<lparr>ch_config := config, ch_contexts := replicate (unat (bk_queue_capacity config)) free_context,
      ch_local_completion_task_ids := replicate (unat (bk_queue_capacity config)) 0, ch_capacity_mask := bk_queue_capacity config - 1\<rparr>"
    using assms(1) by (auto simp: host_initialize_def split: if_split_asm)
  show "host_inv h'"
    using v by (simp add: host_inv_def host_core_def h' assms(2) new_host_def local_ids_def ring_window_def)
  show "owed (ch_contexts h') = {#}" by (simp add: h')
qed (use assms in \<open>auto simp: host_initialize_def new_host_def pending_room_def split: if_split_asm\<close>)

lemma host_reset_inv:
  assumes inv: "host_inv h" and none: "ch_outstanding_tasks h = 0"
  shows "host_reset h = (0, new_host)"
proof -
  have core: "host_core h" and pend: "mset (map ct_task_id (ch_pending_tasks h)) = slot_ids Slot_pending (ch_contexts h)"
    using inv by (simp_all add: host_inv_def)
  note D = host_coreD [OF core]
  have z: "size (owed (ch_contexts h)) = 0" using D(8) none by simp
  then have "slot_ids Slot_pending (ch_contexts h) = {#}" "slot_ids Slot_local_error (ch_contexts h) = {#}"
    using owed_parts [of "ch_contexts h"] by simp_all
  then have "ch_pending_tasks h = []" "local_ids h = []" using pend D(7) by simp_all
  then have "ch_pending_tasks h = []" "unat (ch_local_completion_tail h) \<le> unat (ch_local_completion_head h)"
    by (simp_all add: local_ids_def ring_window_def)
  then have "ch_pending_tasks h = []" "ch_local_completion_head h = ch_local_completion_tail h"
    using D(6) by (simp_all add: word_le_nat_alt word_unat_eq_iff)
  then show ?thesis using none slot_of_mod(3) [OF core] by (simp add: host_reset_def new_host_def)
qed

end
