(* ===== verification/Copy_Backend.thy ===== *)
theory Copy_Backend
  imports Copy_Host_Inv
begin

text \<open>
  \<^verbatim>\<open>gpu/persistent_copy_backend.cu\<close>, the backend the worker uses: it drives the host through the states stopped, accepting and
  draining, turns a request the host refuses into a local error, and on an error of the queue or of the gate fails the
  tasks it owes. The runtime, the gate and the clock are interfaces of the code; their operations are the record
  \<open>copy_runtime\<close>, whatever they do.
\<close>

record 'e copy_runtime =
  rt_port :: "'e copy_port"
  rt_initialize_device :: "u32 \<Rightarrow> 'e \<Rightarrow> int \<times> 'e"
  rt_start :: "cuda_backend_config \<Rightarrow> 'e \<Rightarrow> int \<times> 'e"
  rt_request_stop :: "'e \<Rightarrow> int \<times> 'e"
  rt_wait :: "'e \<Rightarrow> int \<times> 'e"
  rt_reset :: "'e \<Rightarrow> int \<times> 'e"
  vg_initialize :: "u32 \<Rightarrow> 'e \<Rightarrow> int \<times> 'e"
  vg_reset :: "'e \<Rightarrow> int \<times> 'e"
  clk_now_nanoseconds :: "'e \<Rightarrow> u64 \<times> 'e"
  rt_memory :: "'e \<Rightarrow> bool"

datatype backend_state = Backend_stopped | Backend_accepting | Backend_draining

record 'e cuda_backend =
  bk_host :: copy_host
  bk_config :: cuda_backend_config
  bk_state :: backend_state
  bk_last_error :: int
  bk_runtime_stop_requested :: bool
  bk_env :: 'e

definition new_backend :: "'e \<Rightarrow> 'e cuda_backend" where
  "new_backend e =
     \<lparr>bk_host = new_host, bk_config = no_backend_config, bk_state = Backend_stopped, bk_last_error = 0,
      bk_runtime_stop_requested = False, bk_env = e\<rparr>"

text \<open>A failed start undoes what was done so far.\<close>

definition undo_start :: "'e copy_runtime \<Rightarrow> bool \<Rightarrow> int \<Rightarrow> 'e \<Rightarrow> 'e cuda_backend \<Rightarrow> int \<times> 'e cuda_backend" where
  "undo_start rt gate status e b =
     (let e = (if gate then snd (vg_reset rt e) else e);
          e = snd (rt_reset rt e)
      in (status, b\<lparr>bk_last_error := status, bk_env := e\<rparr>))"

definition backend_start :: "'e copy_runtime \<Rightarrow> cuda_backend_config \<Rightarrow> 'e cuda_backend \<Rightarrow> int \<times> 'e cuda_backend" where
  "backend_start rt config b =
     (if bk_state b \<noteq> Backend_stopped \<or> validate_backend_config config \<noteq> 0 then (EINVAL, b)
      else case rt_initialize_device rt (bk_device_ordinal config) (bk_env b) of (status, e) \<Rightarrow>
        if status \<noteq> 0 then undo_start rt False status e b
        else case vg_initialize rt (bk_device_ordinal config) e of (status, e) \<Rightarrow>
        if status \<noteq> 0 then undo_start rt True status e b
        else case host_initialize config (rt_memory rt e) (bk_host b) of (status, h) \<Rightarrow>
        if status \<noteq> 0 then undo_start rt True status e (b\<lparr>bk_host := h\<rparr>)
        else case rt_start rt config e of (status, e) \<Rightarrow>
        if status \<noteq> 0 then undo_start rt True status e (b\<lparr>bk_host := snd (host_reset h)\<rparr>)
        else (OK, b\<lparr>bk_host := h, bk_config := config, bk_state := Backend_accepting, bk_last_error := 0,
                    bk_runtime_stop_requested := False, bk_env := e\<rparr>))"

definition progress_stop_request :: "'e copy_runtime \<Rightarrow> 'e cuda_backend \<Rightarrow> int \<times> 'e cuda_backend" where
  "progress_stop_request rt b =
     (if bk_state b \<noteq> Backend_draining \<or> bk_runtime_stop_requested b \<or> ch_pending_tasks (bk_host b) \<noteq> [] then (OK, b)
      else case rt_request_stop rt (bk_env b) of (status, e) \<Rightarrow>
        (status, b\<lparr>bk_env := e, bk_runtime_stop_requested := (if status = 0 then True else bk_runtime_stop_requested b)\<rparr>))"

definition note_error :: "int \<Rightarrow> 'e cuda_backend \<Rightarrow> 'e cuda_backend" where
  "note_error status b = (if status \<noteq> 0 then b\<lparr>bk_last_error := status\<rparr> else b)"

definition handle_host_error :: "'e copy_runtime \<Rightarrow> int \<Rightarrow> 'e cuda_backend \<Rightarrow> 'e cuda_backend" where
  "handle_host_error rt status b =
     (let b = b\<lparr>bk_last_error := status\<rparr>
      in if ch_last_publish_failure (bk_host b) = Failure_visibility
         then case fail_pending Backend_error (bk_host b) of (failure_status, h) \<Rightarrow>
           let b = b\<lparr>bk_host := h\<rparr>
           in if failure_status \<noteq> 0 then b\<lparr>bk_last_error := failure_status, bk_state := Backend_draining\<rparr> else b
         else case fail_all Backend_error (bk_host b) of (failure_status, h) \<Rightarrow>
           let b = (note_error failure_status (b\<lparr>bk_host := h\<rparr>))\<lparr>bk_state := Backend_draining\<rparr>
           in case progress_stop_request rt b of (stop_status, b) \<Rightarrow> note_error stop_status b)"

definition try_submit_at_time :: "'e copy_runtime \<Rightarrow> backend_request \<Rightarrow> u64 \<Rightarrow> 'e cuda_backend \<Rightarrow> bool \<times> 'e cuda_backend" where
  "try_submit_at_time rt request now_nanoseconds b =
     (case host_try_submit (rt_port rt) request now_nanoseconds (bk_env b) (bk_host b) of (status, accepted, h, e) \<Rightarrow>
        let b = b\<lparr>bk_host := h, bk_env := e\<rparr>
        in if status = 0 then (accepted, b)
           else if status = EINVAL \<and> \<not> accepted \<and> ch_last_publish_failure h = Failure_none
           then case try_complete_locally request Backend_error h of (local_status, accepted, h) \<Rightarrow>
             let b = b\<lparr>bk_host := h\<rparr>
             in (accepted, if local_status \<noteq> 0 then handle_host_error rt local_status b else b)
           else (accepted, handle_host_error rt status b))"

definition backend_try_submit :: "'e copy_runtime \<Rightarrow> backend_request \<Rightarrow> 'e cuda_backend \<Rightarrow> bool \<times> 'e cuda_backend" where
  "backend_try_submit rt request b =
     (if bk_state b \<noteq> Backend_accepting then (False, b)
      else case clk_now_nanoseconds rt (bk_env b) of (now, e) \<Rightarrow> try_submit_at_time rt request now (b\<lparr>bk_env := e\<rparr>))"

fun submit_loop :: "'e copy_runtime \<Rightarrow> u64 \<Rightarrow> backend_request list \<Rightarrow> 'e cuda_backend \<Rightarrow> nat \<times> 'e cuda_backend" where
  "submit_loop rt now [] b = (0, b)"
| "submit_loop rt now (r # rs) b =
     (case try_submit_at_time rt r now b of (accepted, b) \<Rightarrow>
        if accepted then (case submit_loop rt now rs b of (n, b) \<Rightarrow> (Suc n, b)) else (0, b))"

definition backend_try_submit_batch :: "'e copy_runtime \<Rightarrow> backend_request list \<Rightarrow> 'e cuda_backend \<Rightarrow> nat \<times> 'e cuda_backend" where
  "backend_try_submit_batch rt requests b =
     (if bk_state b \<noteq> Backend_accepting then (0, b)
      else case clk_now_nanoseconds rt (bk_env b) of (now, e) \<Rightarrow> submit_loop rt now requests (b\<lparr>bk_env := e\<rparr>))"

definition backend_flush_submissions :: "'e copy_runtime \<Rightarrow> 'e cuda_backend \<Rightarrow> bool \<times> 'e cuda_backend" where
  "backend_flush_submissions rt b =
     (if bk_state b \<noteq> Backend_accepting then (False, b)
      else case publish_pending_now (rt_port rt) (bk_env b) (bk_host b) of (status, h, e) \<Rightarrow>
        let b = b\<lparr>bk_host := h, bk_env := e\<rparr>
        in if status \<noteq> 0 then (False, handle_host_error rt status b) else (True, b))"

definition try_pop_completion_at_time ::
  "'e copy_runtime \<Rightarrow> u64 \<Rightarrow> 'e cuda_backend \<Rightarrow> backend_completion option \<times> 'e cuda_backend" where
  "try_pop_completion_at_time rt now b =
     (case host_try_pop_completion (rt_port rt) now (bk_env b) (bk_host b) of (status, completed, h, e) \<Rightarrow>
        let b = b\<lparr>bk_host := h, bk_env := e\<rparr>;
            (completed, b) =
              (if status \<noteq> 0
               then let b = handle_host_error rt status b
                    in case host_try_pop_completion (rt_port rt) now (bk_env b) (bk_host b) of (status, completed, h, e) \<Rightarrow>
                         let b = b\<lparr>bk_host := h, bk_env := e\<rparr>
                         in if status \<noteq> 0 then (None, b\<lparr>bk_last_error := status\<rparr>) else (completed, b)
               else (completed, b))
        in if bk_state b = Backend_draining
           then case progress_stop_request rt b of (stop_status, b) \<Rightarrow> (completed, note_error stop_status b)
           else (completed, b))"

definition backend_try_pop_completion :: "'e copy_runtime \<Rightarrow> 'e cuda_backend \<Rightarrow> backend_completion option \<times> 'e cuda_backend" where
  "backend_try_pop_completion rt b =
     (if bk_state b = Backend_stopped then (None, b)
      else case clk_now_nanoseconds rt (bk_env b) of (now, e) \<Rightarrow> try_pop_completion_at_time rt now (b\<lparr>bk_env := e\<rparr>))"

fun pop_loop :: "'e copy_runtime \<Rightarrow> u64 \<Rightarrow> nat \<Rightarrow> 'e cuda_backend \<Rightarrow> backend_completion list \<times> 'e cuda_backend" where
  "pop_loop rt now 0 b = ([], b)"
| "pop_loop rt now (Suc n) b =
     (case try_pop_completion_at_time rt now b of
        (None, b) \<Rightarrow> ([], b)
      | (Some c, b) \<Rightarrow> (case pop_loop rt now n b of (cs, b) \<Rightarrow> (c # cs, b)))"

definition backend_try_pop_completion_batch ::
  "'e copy_runtime \<Rightarrow> nat \<Rightarrow> 'e cuda_backend \<Rightarrow> backend_completion list \<times> 'e cuda_backend" where
  "backend_try_pop_completion_batch rt completion_capacity b =
     (if bk_state b = Backend_stopped then ([], b)
      else case clk_now_nanoseconds rt (bk_env b) of (now, e) \<Rightarrow> pop_loop rt now completion_capacity (b\<lparr>bk_env := e\<rparr>))"

definition backend_request_stop :: "'e copy_runtime \<Rightarrow> 'e cuda_backend \<Rightarrow> int \<times> 'e cuda_backend" where
  "backend_request_stop rt b =
     (if bk_state b \<noteq> Backend_accepting then (EINVAL, b)
      else let b = b\<lparr>bk_state := Backend_draining\<rparr>
           in case publish_pending_now (rt_port rt) (bk_env b) (bk_host b) of (publish_status, h, e) \<Rightarrow>
             let b = b\<lparr>bk_host := h, bk_env := e\<rparr>;
                 b = (if publish_status \<noteq> 0 then handle_host_error rt publish_status b else b)
             in case progress_stop_request rt b of (stop_status, b) \<Rightarrow>
                  if stop_status \<noteq> 0 then (stop_status, b\<lparr>bk_last_error := stop_status\<rparr>) else (publish_status, b))"

definition backend_wait :: "'e copy_runtime \<Rightarrow> 'e cuda_backend \<Rightarrow> int \<times> 'e cuda_backend" where
  "backend_wait rt b =
     (if bk_state b \<noteq> Backend_draining then (EINVAL, b)
      else case progress_stop_request rt b of (stop_status, b) \<Rightarrow>
        if stop_status \<noteq> 0 then (stop_status, b\<lparr>bk_last_error := stop_status\<rparr>)
        else if \<not> bk_runtime_stop_requested b \<or> ch_outstanding_tasks (bk_host b) \<noteq> 0 \<or> ch_pending_tasks (bk_host b) \<noteq> []
        then (EAGAIN, b)
        else case rt_wait rt (bk_env b) of (status, e) \<Rightarrow>
          case rt_reset rt e of (runtime_reset_status, e) \<Rightarrow>
          case host_reset (bk_host b) of (host_reset_status, h) \<Rightarrow>
          case vg_reset rt e of (visibility_reset_status, e) \<Rightarrow>
            let status = (if status = 0 then runtime_reset_status else status);
                status = (if status = 0 then host_reset_status else status);
                status = (if status = 0 then visibility_reset_status else status)
            in (status, note_error status
                 (b\<lparr>bk_host := h, bk_config := no_backend_config, bk_state := Backend_stopped,
                    bk_runtime_stop_requested := False, bk_env := e\<rparr>)))"

definition abort_and_reset :: "'e copy_runtime \<Rightarrow> 'e cuda_backend \<Rightarrow> 'e cuda_backend" where
  "abort_and_reset rt b =
     (if bk_state b = Backend_stopped then b
      else let h = snd (fail_all Backend_error (bk_host b));
               e = (if \<not> bk_runtime_stop_requested b then snd (rt_request_stop rt (bk_env b)) else bk_env b);
               e = snd (rt_wait rt e);
               e = snd (rt_reset rt e);
               e = snd (vg_reset rt e)
           in b\<lparr>bk_host := h, bk_env := e, bk_state := Backend_stopped\<rparr>)"

text \<open>The backend as the worker sees it.\<close>

definition cuda_copy_backend :: "'e copy_runtime \<Rightarrow> 'e cuda_backend copy_backend" where
  "cuda_copy_backend rt =
     \<lparr>cb_try_submit = backend_try_submit rt, cb_try_submit_batch = backend_try_submit_batch rt,
      cb_flush_submissions = backend_flush_submissions rt, cb_try_pop_completion = backend_try_pop_completion rt,
      cb_try_pop_completion_batch = backend_try_pop_completion_batch rt\<rparr>"

section \<open>The invariant\<close>

definition backend_inv :: "'e cuda_backend \<Rightarrow> bool" where
  "backend_inv b \<longleftrightarrow>
     (if bk_state b = Backend_stopped then bk_host b = new_host else host_inv (bk_host b) \<and> pending_room (bk_host b))"

definition backend_owed :: "'e cuda_backend \<Rightarrow> (u64 \<times> u32) multiset" where
  "backend_owed b = owed (ch_contexts (bk_host b))"

definition request_key :: "backend_request \<Rightarrow> u64 \<times> u32" where
  "request_key request = (br_parent_request_id request, br_payload_index request)"

definition completion_key :: "backend_completion \<Rightarrow> u64 \<times> u32" where
  "completion_key completion = (bc_parent_request_id completion, bc_payload_index completion)"

lemma new_backend_inv: "backend_inv (new_backend e)" "backend_owed (new_backend e) = {#}"
  by (simp_all add: backend_inv_def new_backend_def backend_owed_def new_host_def owed_def)

text \<open>The backend runs before and after, and owes the same.\<close>

definition backend_keeps :: "'e cuda_backend \<Rightarrow> 'e cuda_backend \<Rightarrow> bool" where
  "backend_keeps b b' \<longleftrightarrow> bk_state b' \<noteq> Backend_stopped \<and> backend_inv b' \<and> same_owed (bk_host b) (bk_host b')"

lemma note_error_fields [simp]:
  "bk_host (note_error s b) = bk_host b" "bk_state (note_error s b) = bk_state b" "bk_env (note_error s b) = bk_env b"
  "bk_runtime_stop_requested (note_error s b) = bk_runtime_stop_requested b"
  by (simp_all add: note_error_def)

lemma progress_stop_request_fields:
  assumes "progress_stop_request rt b = (status, b')"
  shows "bk_host b' = bk_host b" "bk_state b' = bk_state b" "backend_inv b' = backend_inv b"
proof -
  show h: "bk_host b' = bk_host b" "bk_state b' = bk_state b"
    using assms by (auto simp: progress_stop_request_def split: if_split_asm prod.split_asm)
  show "backend_inv b' = backend_inv b" by (simp add: backend_inv_def h)
qed

lemma handle_host_error_keeps:
  assumes "host_inv (bk_host b)" "bk_state b \<noteq> Backend_stopped"
  shows "backend_keeps b (handle_host_error rt status b)" "ch_pending_tasks (bk_host (handle_host_error rt status b)) = []"
proof -
  obtain h where h: "fail_pending Backend_error (bk_host b) = (0, h)" "host_inv h" "same_owed (bk_host b) h" "ch_pending_tasks h = []"
    using fail_pending_ok [OF assms(1)] by blast
  obtain g where g: "fail_all Backend_error (bk_host b) = (0, g)" "host_inv g" "same_owed (bk_host b) g" "ch_pending_tasks g = []"
    using fail_all_ok [OF assms(1)] by blast
  have "backend_keeps b (handle_host_error rt status b) \<and> ch_pending_tasks (bk_host (handle_host_error rt status b)) = []"
  proof (cases "ch_last_publish_failure (bk_host b) = Failure_visibility")
    case True
    then show ?thesis using h assms(2) by (simp add: handle_host_error_def backend_keeps_def backend_inv_def pending_room_def)
  next
    case False
    let ?b = "(note_error 0 (b\<lparr>bk_last_error := status, bk_host := g\<rparr>))\<lparr>bk_state := Backend_draining\<rparr>"
    obtain st b' where p: "progress_stop_request rt ?b = (st, b')" by (metis surj_pair)
    note P = progress_stop_request_fields [OF p]
    have "handle_host_error rt status b = note_error st b'" using False g(1) p by (simp add: handle_host_error_def Let_def)
    then show ?thesis using P g(2-4) by (simp add: backend_keeps_def backend_inv_def pending_room_def)
  qed
  then show "backend_keeps b (handle_host_error rt status b)" "ch_pending_tasks (bk_host (handle_host_error rt status b)) = []"
    by blast+
qed

section \<open>Submitting\<close>

lemma try_submit_at_time_effect:
  assumes inv: "backend_inv b" "bk_state b \<noteq> Backend_stopped" and nx: "ch_next_task_id (bk_host b) \<noteq> - 1"
    and r: "try_submit_at_time rt request now b = (accepted, b')"
  shows "backend_inv b'" "bk_state b' \<noteq> Backend_stopped" "ch_config (bk_host b') = ch_config (bk_host b)"
    "unat (ch_next_task_id (bk_host b')) \<le> Suc (unat (ch_next_task_id (bk_host b)))"
    "backend_owed b' = (if accepted then add_mset (request_key request) (backend_owed b) else backend_owed b)"
proof -
  have host: "host_inv (bk_host b)" "pending_room (bk_host b)" using inv by (simp_all add: backend_inv_def)
  obtain status acc h e where s: "host_try_submit (rt_port rt) request now (bk_env b) (bk_host b) = (status, acc, h, e)"
    by (metis prod_cases4)
  note S = host_try_submit_effect [OF host nx s]
  let ?b = "b\<lparr>bk_host := h, bk_env := e\<rparr>"
  let ?G = "backend_inv b' \<and> bk_state b' \<noteq> Backend_stopped \<and> ch_config (bk_host b') = ch_config (bk_host b) \<and>
    unat (ch_next_task_id (bk_host b')) \<le> Suc (unat (ch_next_task_id (bk_host b))) \<and>
    backend_owed b' = (if accepted then add_mset (request_key request) (backend_owed b) else backend_owed b)"
  have ?G
  proof (cases "status = 0")
    case True
    then show ?thesis using r s S inv(2) by (auto simp: try_submit_at_time_def Let_def backend_inv_def backend_owed_def request_key_def)
  next
    case nz: False
    show ?thesis
    proof (cases "status = EINVAL \<and> \<not> acc \<and> ch_last_publish_failure h = Failure_none")
      case True
      then have h: "h = bk_host b" "e = bk_env b" using S(6) by simp_all
      obtain ls la g where l: "try_complete_locally request Backend_error h = (ls, la, g)" by (metis prod_cases3)
      note L = try_complete_locally_effect [OF host(1) nx l [unfolded h]]
      have room: "pending_room g" using host(2) L(4,5) by (simp add: pending_room_def)
      have K: "backend_keeps (?b\<lparr>bk_host := g\<rparr>) (handle_host_error rt ls (?b\<lparr>bk_host := g\<rparr>))"
        using L(1) inv(2) by (intro handle_host_error_keeps(1)) simp_all
      have "b' = (if ls \<noteq> 0 then handle_host_error rt ls (?b\<lparr>bk_host := g\<rparr>) else ?b\<lparr>bk_host := g\<rparr>)" "accepted = la"
        using r s nz True l by (auto simp: try_submit_at_time_def Let_def)
      then show ?thesis using L K room inv(2)
        by (cases "ls = 0") (auto simp: backend_keeps_def same_owed_def backend_inv_def backend_owed_def request_key_def)
    next
      case False
      have "backend_keeps ?b (handle_host_error rt status ?b)" using S(1) inv(2) by (intro handle_host_error_keeps(1)) simp_all
      moreover have "b' = handle_host_error rt status ?b" "accepted = acc"
        using r s nz False by (auto simp: try_submit_at_time_def Let_def split: if_split_asm prod.split_asm)
      ultimately show ?thesis using S(2-6)
        by (auto simp: backend_keeps_def same_owed_def backend_owed_def request_key_def)
    qed
  qed
  then show "backend_inv b'" "bk_state b' \<noteq> Backend_stopped" "ch_config (bk_host b') = ch_config (bk_host b)"
    "unat (ch_next_task_id (bk_host b')) \<le> Suc (unat (ch_next_task_id (bk_host b)))"
    "backend_owed b' = (if accepted then add_mset (request_key request) (backend_owed b) else backend_owed b)"
    by blast+
qed

lemma submit_loop_effect:
  assumes "backend_inv b" "bk_state b \<noteq> Backend_stopped" "unat (ch_next_task_id (bk_host b)) + length rs < 18446744073709551616"
    and "submit_loop rt now rs b = (n, b')"
  shows "n \<le> length rs \<and> backend_inv b' \<and> bk_state b' \<noteq> Backend_stopped \<and> ch_config (bk_host b') = ch_config (bk_host b) \<and>
    unat (ch_next_task_id (bk_host b')) \<le> unat (ch_next_task_id (bk_host b)) + length rs \<and>
    backend_owed b' = mset (map request_key (take n rs)) + backend_owed b"
  using assms
proof (induction rs arbitrary: b n b')
  case (Cons r rs)
  obtain acc b1 where s: "try_submit_at_time rt r now b = (acc, b1)" by (metis surj_pair)
  have "ch_next_task_id (bk_host b) \<noteq> - 1"
    using Cons.prems(3) by (auto simp: unsigned_minus_1_eq_mask mask_numeral)
  note S = try_submit_at_time_effect [OF Cons.prems(1,2) this s]
  show ?case
  proof (cases acc)
    case True
    obtain m b2 where l: "submit_loop rt now rs b1 = (m, b2)" by (metis surj_pair)
    have "unat (ch_next_task_id (bk_host b1)) + length rs < 18446744073709551616" using Cons.prems(3) S(4) by simp
    from Cons.IH [OF S(1,2) this l] S Cons.prems(4) s l True show ?thesis by auto
  next
    case False
    then show ?thesis using Cons.prems(4) s S by auto
  qed
qed simp

section \<open>Delivering completions\<close>

definition completion_keys :: "backend_completion option \<Rightarrow> (u64 \<times> u32) multiset" where
  "completion_keys c = (case c of None \<Rightarrow> {#} | Some c \<Rightarrow> {#completion_key c#})"

lemma pays_keys: "pays c h h' \<longleftrightarrow> ch_config h' = ch_config h \<and> ch_next_task_id h' = ch_next_task_id h \<and>
    owed (ch_contexts h) = completion_keys c + owed (ch_contexts h')"
  by (simp add: pays_def completion_keys_def completion_key_def split: option.split)

lemma try_pop_at_time_effect:
  assumes inv: "backend_inv b" "bk_state b \<noteq> Backend_stopped" and r: "try_pop_completion_at_time rt now b = (completion, b')"
  shows "backend_inv b'" "bk_state b' \<noteq> Backend_stopped" "pays completion (bk_host b) (bk_host b')"
proof -
  have host: "host_inv (bk_host b)" "pending_room (bk_host b)" "length (ch_pending_tasks (bk_host b)) \<le> 64"
    using inv by (simp_all add: backend_inv_def pending_room_def)
  obtain status c h e where s: "host_try_pop_completion (rt_port rt) now (bk_env b) (bk_host b) = (status, c, h, e)"
    by (metis prod_cases4)
  note S = host_try_pop_effect [OF host(1,3) s]
  let ?b = "b\<lparr>bk_host := h, bk_env := e\<rparr>"
  define d where "d = handle_host_error rt status ?b"
  obtain st2 c2 h2 e2 where t: "host_try_pop_completion (rt_port rt) now (bk_env d) (bk_host d) = (st2, c2, h2, e2)" by (metis prod_cases4)
  define b1 where "b1 = (if status \<noteq> 0 then (if st2 \<noteq> 0 then d\<lparr>bk_host := h2, bk_env := e2, bk_last_error := st2\<rparr>
    else d\<lparr>bk_host := h2, bk_env := e2\<rparr>) else ?b)"
  define c1 where "c1 = (if status \<noteq> 0 then (if st2 \<noteq> 0 then None else c2) else c)"
  have eq: "try_pop_completion_at_time rt now b =
      (if bk_state b1 = Backend_draining then (case progress_stop_request rt b1 of (st, b) \<Rightarrow> (c1, note_error st b)) else (c1, b1))"
    unfolding try_pop_completion_at_time_def s prod.case Let_def b1_def c1_def d_def [symmetric] t by simp
  then have c1: "completion = c1" and fields: "bk_host b' = bk_host b1 \<and> bk_state b' = bk_state b1"
    using r progress_stop_request_fields [of rt b1] by (auto split: if_split_asm prod.split_asm)
  have mid: "backend_inv b1 \<and> bk_state b1 \<noteq> Backend_stopped \<and> pays completion (bk_host b) (bk_host b1)"
  proof (cases "status = 0")
    case True
    then have "completion = c" by (simp add: c1 c1_def)
    then show ?thesis using True S host(2) inv(2) by (simp add: b1_def backend_inv_def)
  next
    case False
    have K: "backend_keeps ?b d" unfolding d_def using S(1) inv(2) by (intro handle_host_error_keeps(1)) simp_all
    then have dh: "host_inv (bk_host d)" "pending_room (bk_host d)" "length (ch_pending_tasks (bk_host d)) \<le> 64"
      by (auto simp: backend_keeps_def backend_inv_def pending_room_def)
    have none: "ch_pending_tasks (bk_host d) = []" unfolding d_def using S(1) inv(2) by (intro handle_host_error_keeps(2)) simp_all
    note T = host_try_pop_effect [OF dh(1,3) t]
    have c: "completion = (if st2 \<noteq> 0 then None else c2)"
      using False by (simp add: c1 c1_def)
    have "pending_room h2" using T(3) none by (simp add: pending_room_def)
    moreover have "pays completion (bk_host d) h2" using T(2,6) c by auto
    moreover have "same_owed (bk_host b) (bk_host d)" using K S(2,6) False by (auto simp: backend_keeps_def same_owed_def pays_def)
    ultimately show ?thesis using K T(1) False by (auto simp: b1_def backend_inv_def backend_keeps_def dest: pays_after)
  qed
  then show "backend_inv b'" "bk_state b' \<noteq> Backend_stopped" "pays completion (bk_host b) (bk_host b')"
    using fields by (simp_all add: backend_inv_def)
qed

lemma pop_loop_effect:
  assumes "backend_inv b" "bk_state b \<noteq> Backend_stopped" "pop_loop rt now n b = (cs, b')"
  shows "length cs \<le> n \<and> backend_inv b' \<and> bk_state b' \<noteq> Backend_stopped \<and> ch_config (bk_host b') = ch_config (bk_host b) \<and>
    ch_next_task_id (bk_host b') = ch_next_task_id (bk_host b) \<and> backend_owed b = mset (map completion_key cs) + backend_owed b'"
  using assms
proof (induction n arbitrary: b cs b')
  case (Suc n)
  obtain c b1 where s: "try_pop_completion_at_time rt now b = (c, b1)" by (metis surj_pair)
  note S = try_pop_at_time_effect [OF Suc.prems(1,2) s]
  show ?case
  proof (cases c)
    case None
    then show ?thesis using Suc.prems(3) s S by (simp add: pays_keys completion_keys_def backend_owed_def)
  next
    case (Some x)
    obtain ds b2 where l: "pop_loop rt now n b1 = (ds, b2)" by (metis surj_pair)
    from Suc.IH [OF S(1,2) l] S(3) Suc.prems(3) s l Some show ?thesis
      by (auto simp: pays_keys completion_keys_def backend_owed_def)
  qed
qed simp

section \<open>Flushing, stopping and starting\<close>

lemma backend_keeps_host:
  assumes "bk_state b \<noteq> Backend_stopped" "host_inv h" "same_owed (bk_host b) h" "pending_room h"
  shows "backend_keeps b (b\<lparr>bk_host := h, bk_env := e\<rparr>)"
  using assms by (simp add: backend_keeps_def backend_inv_def)

lemma backend_keeps_trans: "backend_keeps b b1 \<Longrightarrow> backend_keeps b1 b2 \<Longrightarrow> backend_keeps b b2"
  by (auto simp: backend_keeps_def dest: same_owed_trans)

lemma published_keeps:
  assumes inv: "backend_inv b" "bk_state b \<noteq> Backend_stopped"
    and p: "publish_pending_now p (bk_env b) (bk_host b) = (status, h, e)"
  shows "backend_keeps b (if status \<noteq> 0 then handle_host_error rt status (b\<lparr>bk_host := h, bk_env := e\<rparr>) else b\<lparr>bk_host := h, bk_env := e\<rparr>)"
proof -
  have host: "host_inv (bk_host b)" "pending_room (bk_host b)" "length (ch_pending_tasks (bk_host b)) \<le> 64"
    using inv by (simp_all add: backend_inv_def pending_room_def)
  note P = publish_pending_now_effect [OF host(1,3) p]
  let ?b = "b\<lparr>bk_host := h, bk_env := e\<rparr>"
  have "backend_keeps ?b (handle_host_error rt status ?b)" using P(1) inv(2) by (intro handle_host_error_keeps(1)) simp_all
  then have "backend_keeps b (handle_host_error rt status ?b)" using P(2) by (auto simp: backend_keeps_def dest: same_owed_trans)
  moreover have "backend_keeps b ?b" if "status = 0" using that P host(2) inv(2) by (intro backend_keeps_host) simp_all
  ultimately show ?thesis by simp
qed

lemma flush_keeps:
  assumes "backend_inv b" "bk_state b \<noteq> Backend_stopped" "backend_flush_submissions rt b = (r, b')"
  shows "backend_keeps b b'"
proof -
  have same: "backend_keeps b b" using assms(1,2) by (simp add: backend_keeps_def)
  show ?thesis using assms(3) same published_keeps [OF assms(1,2), of "rt_port rt"]
    by (auto simp: backend_flush_submissions_def Let_def split: if_split_asm prod.split_asm)
qed

lemma request_stop_keeps:
  assumes inv: "backend_inv b" "bk_state b \<noteq> Backend_stopped" and r: "backend_request_stop rt b = (status, b')"
  shows "backend_keeps b b'"
proof (cases "bk_state b = Backend_accepting")
  case True
  let ?b = "b\<lparr>bk_state := Backend_draining\<rparr>"
  obtain ps h e where p: "publish_pending_now (rt_port rt) (bk_env b) (bk_host b) = (ps, h, e)" by (metis prod_cases3)
  define b1 where "b1 = (if ps \<noteq> 0 then handle_host_error rt ps (?b\<lparr>bk_host := h, bk_env := e\<rparr>) else ?b\<lparr>bk_host := h, bk_env := e\<rparr>)"
  obtain ss b2 where q: "progress_stop_request rt b1 = (ss, b2)" by (metis surj_pair)
  note Q = progress_stop_request_fields [OF q]
  have "backend_inv ?b" using inv by (simp add: backend_inv_def)
  then have K: "backend_keeps ?b b1" using published_keeps [of ?b "rt_port rt" ps h e rt] p by (simp add: b1_def)
  have "b' = b2 \<or> b' = b2\<lparr>bk_last_error := ss\<rparr>"
    using r True p q unfolding backend_request_stop_def Let_def by (auto simp: b1_def split: if_split_asm)
  then show ?thesis using K Q by (auto simp: backend_keeps_def backend_inv_def)
next
  case False
  then show ?thesis using inv r by (simp add: backend_request_stop_def backend_keeps_def)
qed

text \<open>A backend that stops has delivered everything.\<close>

lemma wait_effect:
  assumes inv: "backend_inv b" "bk_state b \<noteq> Backend_stopped" and r: "backend_wait rt b = (status, b')"
  shows "backend_inv b'" "backend_owed b' = backend_owed b" "unat (ch_next_task_id (bk_host b')) \<le> unat (ch_next_task_id (bk_host b))"
    "bk_state b' = Backend_stopped \<Longrightarrow> backend_owed b = {#}"
proof -
  have host: "host_inv (bk_host b)" using inv by (simp add: backend_inv_def)
  then have core: "host_core (bk_host b)" by (simp add: host_inv_def)
  obtain ss b1 where q: "progress_stop_request rt b = (ss, b1)" by (metis surj_pair)
  note Q = progress_stop_request_fields [OF q]
  have kept: "(bk_host b' = bk_host b \<and> bk_state b' = bk_state b) \<or>
      (bk_host b' = snd (host_reset (bk_host b)) \<and> bk_state b' = Backend_stopped \<and> ch_outstanding_tasks (bk_host b) = 0)"
    using r q Q unfolding backend_wait_def Let_def by (auto simp: note_error_def split: if_split_asm prod.split_asm)
  have reset: "host_reset (bk_host b) = (0, new_host)" "backend_owed b = {#}" if "ch_outstanding_tasks (bk_host b) = 0"
    using that host_reset_inv [OF host] host_coreD(8) [OF core] by (simp_all add: backend_owed_def)
  have n: "1 \<le> unat (ch_next_task_id (bk_host b))" using host_coreD(9) [OF core] by linarith
  show "backend_inv b'" "backend_owed b' = backend_owed b" "bk_state b' = Backend_stopped \<Longrightarrow> backend_owed b = {#}"
    "unat (ch_next_task_id (bk_host b')) \<le> unat (ch_next_task_id (bk_host b))"
    using kept inv reset n by (auto simp: backend_inv_def backend_owed_def new_host_def owed_def)
qed

lemma undo_start_fields [simp]:
  "fst (undo_start rt gate status e b) = status" "bk_host (snd (undo_start rt gate status e b)) = bk_host b"
  "bk_state (snd (undo_start rt gate status e b)) = bk_state b"
  by (simp_all add: undo_start_def Let_def)

lemma host_initialize_new:
  assumes "host_initialize config memory new_host = (status, h)"
  shows "status \<noteq> 0 \<Longrightarrow> h = new_host" "status = 0 \<Longrightarrow> host_reset h = (0, new_host)"
    "status = 0 \<Longrightarrow> host_inv h" "status = 0 \<Longrightarrow> pending_room h" "owed (ch_contexts h) = {#}" "ch_next_task_id h = 1"
proof -
  show n: "h = new_host" if "status \<noteq> 0"
    using assms that by (auto simp: host_initialize_def initialized_def split: if_split_asm)
  have I: "host_inv h" "owed (ch_contexts h) = {#}" "pending_room h" "ch_next_task_id h = 1" if "status = 0"
    using host_initialize_inv [of config memory new_host h] assms that by simp_all
  show "host_inv h" "pending_room h" if "status = 0" using I [OF that] by simp_all
  show "host_reset h = (0, new_host)" if "status = 0"
    using I [OF that] host_coreD(8) [of h] by (intro host_reset_inv) (simp_all add: host_inv_def)
  show "owed (ch_contexts h) = {#}" "ch_next_task_id h = 1"
    using n I by (cases "status = 0"; simp add: new_host_def owed_def)+
qed

lemma start_effect:
  assumes inv: "backend_inv b" and r: "backend_start rt config b = (status, b')"
  shows "backend_inv b'" "backend_owed b' = backend_owed b" "ch_next_task_id (bk_host b') = ch_next_task_id (bk_host b)"
    "status = 0 \<Longrightarrow> bk_state b' = Backend_accepting" "status \<noteq> 0 \<Longrightarrow> bk_state b' = bk_state b"
proof -
  let ?G = "backend_inv b' \<and> backend_owed b' = backend_owed b \<and> ch_next_task_id (bk_host b') = ch_next_task_id (bk_host b) \<and>
    (status = 0 \<longrightarrow> bk_state b' = Backend_accepting) \<and> (status \<noteq> 0 \<longrightarrow> bk_state b' = bk_state b)"
  have ?G
  proof (cases "bk_state b = Backend_stopped \<and> validate_backend_config config = 0")
    case True
    then have h: "bk_host b = new_host" using inv by (simp add: backend_inv_def)
    have undo: "?G" if "(status, b') = undo_start rt gate st e (b\<lparr>bk_host := new_host\<rparr>)" "st \<noteq> 0" for gate st e
    proof -
      have "status = st" "bk_host b' = new_host" "bk_state b' = bk_state b"
        using that(1) undo_start_fields [of rt gate st e "b\<lparr>bk_host := new_host\<rparr>"] by (simp_all flip: that(1))
      then show ?thesis using that(2) True h by (simp add: backend_inv_def backend_owed_def)
    qed
    have same: "b\<lparr>bk_host := new_host\<rparr> = b" using h by simp
    obtain s1 e1 where 1: "rt_initialize_device rt (bk_device_ordinal config) (bk_env b) = (s1, e1)" by (metis surj_pair)
    obtain s2 e2 where 2: "vg_initialize rt (bk_device_ordinal config) e1 = (s2, e2)" by (metis surj_pair)
    obtain s3 g where 3: "host_initialize config (rt_memory rt e2) new_host = (s3, g)" by (metis surj_pair)
    obtain s4 e4 where 4: "rt_start rt config e2 = (s4, e4)" by (metis surj_pair)
    note H = host_initialize_new [OF 3]
    have eq: "backend_start rt config b =
        (if s1 \<noteq> 0 then undo_start rt False s1 e1 b else if s2 \<noteq> 0 then undo_start rt True s2 e2 b
         else if s3 \<noteq> 0 then undo_start rt True s3 e2 (b\<lparr>bk_host := g\<rparr>)
         else if s4 \<noteq> 0 then undo_start rt True s4 e4 (b\<lparr>bk_host := snd (host_reset g)\<rparr>)
         else (OK, b\<lparr>bk_host := g, bk_config := config, bk_state := Backend_accepting, bk_last_error := 0,
                    bk_runtime_stop_requested := False, bk_env := e4\<rparr>))"
      using True by (simp add: backend_start_def 1 2 3 4 h)
    show ?thesis
    proof (cases "s1 = 0 \<and> s2 = 0 \<and> s3 = 0 \<and> s4 = 0")
      case ok: True
      then show ?thesis using r eq H h by (auto simp: backend_inv_def backend_owed_def new_host_def owed_def)
    next
      case False
      then consider "s1 \<noteq> 0" "undo_start rt False s1 e1 b = (status, b')" | "s2 \<noteq> 0" "undo_start rt True s2 e2 b = (status, b')"
        | "s3 \<noteq> 0" "undo_start rt True s3 e2 (b\<lparr>bk_host := g\<rparr>) = (status, b')"
        | "s3 = 0" "s4 \<noteq> 0" "undo_start rt True s4 e4 (b\<lparr>bk_host := snd (host_reset g)\<rparr>) = (status, b')"
        using r unfolding eq by (cases "s1 = 0"; cases "s2 = 0"; cases "s3 = 0"; cases "s4 = 0") simp_all
      then show ?thesis
      proof cases
        case 1
        then show ?thesis using undo [of False s1 e1, unfolded same] by metis
      next
        case 2
        then show ?thesis using undo [of True s2 e2, unfolded same] by metis
      next
        case 3
        then show ?thesis using undo [of True s3 e2] H(1) by metis
      next
        case 4
        then show ?thesis using undo [of True s4 e4] H(2) by (metis snd_conv)
      qed
    qed
  next
    case False
    then show ?thesis using r inv by (auto simp: backend_start_def)
  qed
  then show "backend_inv b'" "backend_owed b' = backend_owed b" "ch_next_task_id (bk_host b') = ch_next_task_id (bk_host b)"
    "status = 0 \<Longrightarrow> bk_state b' = Backend_accepting" "status \<noteq> 0 \<Longrightarrow> bk_state b' = bk_state b"
    by blast+
qed

end
