(* ===== verification/Copy_Run.thy ===== *)
theory Copy_Run
  imports Copy_Backend
begin

unbundle bit_operations_syntax

text \<open>
  Runs of the copy backend: any sequence of the operations the worker and the owner of the backend call, with any
  queue, gate and clock. Every request the backend accepts gets exactly one completion, and the array of pending
  tasks never overflows.
\<close>

datatype backend_op =
    Do_start cuda_backend_config | Do_submit backend_request | Do_submit_batch "backend_request list" | Do_flush
  | Do_pop | Do_pop_batch nat | Do_request_stop | Do_wait

text \<open>What an operation accepts and what it completes.\<close>

type_synonym backend_log = "backend_request list \<times> backend_completion list"

fun backend_exec :: "'e copy_runtime \<Rightarrow> backend_op \<Rightarrow> 'e cuda_backend \<Rightarrow> backend_log \<times> 'e cuda_backend" where
  "backend_exec rt (Do_start config) b = (([], []), snd (backend_start rt config b))"
| "backend_exec rt (Do_submit request) b =
     (case backend_try_submit rt request b of (accepted, b) \<Rightarrow> ((if accepted then [request] else [], []), b))"
| "backend_exec rt (Do_submit_batch requests) b =
     (case backend_try_submit_batch rt requests b of (n, b) \<Rightarrow> ((take n requests, []), b))"
| "backend_exec rt Do_flush b = (([], []), snd (backend_flush_submissions rt b))"
| "backend_exec rt Do_pop b =
     (case backend_try_pop_completion rt b of (c, b) \<Rightarrow> (([], case c of None \<Rightarrow> [] | Some c \<Rightarrow> [c]), b))"
| "backend_exec rt (Do_pop_batch n) b = (case backend_try_pop_completion_batch rt n b of (cs, b) \<Rightarrow> (([], cs), b))"
| "backend_exec rt Do_request_stop b = (([], []), snd (backend_request_stop rt b))"
| "backend_exec rt Do_wait b = (([], []), snd (backend_wait rt b))"

fun backend_run :: "'e copy_runtime \<Rightarrow> backend_op list \<Rightarrow> 'e cuda_backend \<Rightarrow> backend_log \<times> 'e cuda_backend" where
  "backend_run rt [] b = (([], []), b)"
| "backend_run rt (op # ops) b =
     (case backend_exec rt op b of ((accepted, completed), b) \<Rightarrow>
        case backend_run rt ops b of ((accepted', completed'), b) \<Rightarrow> ((accepted @ accepted', completed @ completed'), b))"

fun op_requests :: "backend_op \<Rightarrow> nat" where
  "op_requests (Do_submit request) = 1"
| "op_requests (Do_submit_batch requests) = length requests"
| "op_requests _ = 0"

text \<open>One operation: what is owed afterwards, and the task ids used up.\<close>

definition accounted :: "backend_log \<Rightarrow> nat \<Rightarrow> 'e cuda_backend \<Rightarrow> 'e cuda_backend \<Rightarrow> bool" where
  "accounted log n b b' \<longleftrightarrow> backend_inv b' \<and>
     mset (map request_key (fst log)) + backend_owed b = mset (map completion_key (snd log)) + backend_owed b' \<and>
     unat (ch_next_task_id (bk_host b')) \<le> unat (ch_next_task_id (bk_host b)) + n"

lemma accounted_none: "backend_inv b \<Longrightarrow> accounted ([], []) n b b"
  by (simp add: accounted_def)

lemma accounted_keeps: "backend_keeps b b' \<Longrightarrow> accounted ([], []) n b b'"
  by (simp add: accounted_def backend_keeps_def same_owed_def backend_owed_def)

lemma accounted_trans:
  assumes "accounted l m b b1" "accounted l' n b1 b2"
  shows "accounted (fst l @ fst l', snd l @ snd l') (m + n) b b2"
proof -
  let ?r = "mset (map request_key (fst l))" and ?r' = "mset (map request_key (fst l'))"
  let ?c = "mset (map completion_key (snd l))" and ?c' = "mset (map completion_key (snd l'))"
  have 1: "?r + backend_owed b = ?c + backend_owed b1" and 2: "?r' + backend_owed b1 = ?c' + backend_owed b2"
    using assms unfolding accounted_def by blast+
  have "(?r + ?r') + backend_owed b = ?r' + (?r + backend_owed b)" by (simp only: ac_simps)
  also have "\<dots> = ?c + (?r' + backend_owed b1)" unfolding 1 by (simp only: ac_simps)
  also have "\<dots> = (?c + ?c') + backend_owed b2" unfolding 2 by (simp only: ac_simps)
  finally show ?thesis using assms unfolding accounted_def by simp
qed

lemma backend_inv_env [simp]: "backend_inv (b\<lparr>bk_env := e\<rparr>) = backend_inv b" "backend_owed (b\<lparr>bk_env := e\<rparr>) = backend_owed b"
  by (simp_all add: backend_inv_def backend_owed_def)

lemma submit_accounted:
  assumes inv: "backend_inv b" and n: "unat (ch_next_task_id (bk_host b)) + 1 < 18446744073709551616"
    and r: "backend_try_submit rt request b = (accepted, b')"
  shows "accounted (if accepted then [request] else [], []) 1 b b'"
proof (cases "bk_state b = Backend_accepting")
  case True
  obtain now e where t: "clk_now_nanoseconds rt (bk_env b) = (now, e)" by (metis surj_pair)
  have nx: "ch_next_task_id (bk_host b) \<noteq> - 1" using n by (auto simp: unsigned_minus_1_eq_mask mask_numeral)
  have "try_submit_at_time rt request now (b\<lparr>bk_env := e\<rparr>) = (accepted, b')" using r True t by (simp add: backend_try_submit_def)
  from try_submit_at_time_effect [OF _ _ _ this] inv True nx show ?thesis by (auto simp: accounted_def)
qed (use inv r in \<open>auto simp: backend_try_submit_def accounted_none\<close>)

lemma submit_batch_accounted:
  assumes inv: "backend_inv b" and n: "unat (ch_next_task_id (bk_host b)) + length requests < 18446744073709551616"
    and r: "backend_try_submit_batch rt requests b = (m, b')"
  shows "accounted (take m requests, []) (length requests) b b'" "m \<le> length requests"
proof -
  have "accounted (take m requests, []) (length requests) b b' \<and> m \<le> length requests"
  proof (cases "bk_state b = Backend_accepting")
    case True
    obtain now e where t: "clk_now_nanoseconds rt (bk_env b) = (now, e)" by (metis surj_pair)
    have "submit_loop rt now requests (b\<lparr>bk_env := e\<rparr>) = (m, b')" using r True t by (simp add: backend_try_submit_batch_def)
    from submit_loop_effect [OF _ _ _ this] inv True n show ?thesis by (auto simp: accounted_def)
  qed (use inv r in \<open>auto simp: backend_try_submit_batch_def accounted_none\<close>)
  then show "accounted (take m requests, []) (length requests) b b'" "m \<le> length requests" by blast+
qed

lemma pop_accounted:
  assumes inv: "backend_inv b" and r: "backend_try_pop_completion rt b = (c, b')"
  shows "accounted ([], case c of None \<Rightarrow> [] | Some c \<Rightarrow> [c]) 0 b b'"
proof (cases "bk_state b = Backend_stopped")
  case False
  obtain now e where t: "clk_now_nanoseconds rt (bk_env b) = (now, e)" by (metis surj_pair)
  have "try_pop_completion_at_time rt now (b\<lparr>bk_env := e\<rparr>) = (c, b')" using r False t by (simp add: backend_try_pop_completion_def)
  from try_pop_at_time_effect [OF _ _ this] inv False show ?thesis
    by (auto simp: accounted_def pays_keys completion_keys_def backend_owed_def split: option.split)
qed (use inv r in \<open>auto simp: backend_try_pop_completion_def accounted_none\<close>)

lemma pop_batch_accounted:
  assumes inv: "backend_inv b" and r: "backend_try_pop_completion_batch rt n b = (cs, b')"
  shows "accounted ([], cs) 0 b b'" "length cs \<le> n"
proof -
  have "accounted ([], cs) 0 b b' \<and> length cs \<le> n"
  proof (cases "bk_state b = Backend_stopped")
    case False
    obtain now e where t: "clk_now_nanoseconds rt (bk_env b) = (now, e)" by (metis surj_pair)
    have "pop_loop rt now n (b\<lparr>bk_env := e\<rparr>) = (cs, b')" using r False t by (simp add: backend_try_pop_completion_batch_def)
    from pop_loop_effect [OF _ _ this] inv False show ?thesis by (auto simp: accounted_def)
  qed (use inv r in \<open>auto simp: backend_try_pop_completion_batch_def accounted_none\<close>)
  then show "accounted ([], cs) 0 b b'" "length cs \<le> n" by blast+
qed

lemma stopped_noop:
  assumes "bk_state b = Backend_stopped"
  shows "backend_flush_submissions rt b = (False, b)" "backend_request_stop rt b = (EINVAL, b)" "backend_wait rt b = (EINVAL, b)"
  using assms by (simp_all add: backend_flush_submissions_def backend_request_stop_def backend_wait_def)

lemma exec_accounted:
  assumes inv: "backend_inv b" and n: "unat (ch_next_task_id (bk_host b)) + op_requests op < 18446744073709551616"
    and r: "backend_exec rt op b = (log, b')"
  shows "accounted log (op_requests op) b b'"
proof (cases op)
  case (Do_start config)
  obtain s b1 where "backend_start rt config b = (s, b1)" by (metis surj_pair)
  with start_effect [OF inv this] r Do_start show ?thesis by (auto simp: accounted_def)
next
  case (Do_submit request)
  then show ?thesis using r n submit_accounted [OF inv, of rt request] by (auto split: prod.split_asm)
next
  case (Do_submit_batch requests)
  then show ?thesis using r n submit_batch_accounted(1) [OF inv, of requests rt] by (auto split: prod.split_asm)
next
  case Do_flush
  then show ?thesis using r inv stopped_noop(1) [of b rt] flush_keeps [OF inv, of rt "fst (backend_flush_submissions rt b)" "snd (backend_flush_submissions rt b)"]
    by (cases "bk_state b = Backend_stopped") (auto intro: accounted_none accounted_keeps)
next
  case Do_pop
  then show ?thesis using r pop_accounted [OF inv, of rt] by (auto split: prod.split_asm)
next
  case (Do_pop_batch k)
  then show ?thesis using r pop_batch_accounted(1) [OF inv, of rt k] by (auto split: prod.split_asm)
next
  case Do_request_stop
  then show ?thesis using r inv stopped_noop(2) [of b rt] request_stop_keeps [OF inv, of rt "fst (backend_request_stop rt b)" "snd (backend_request_stop rt b)"]
    by (cases "bk_state b = Backend_stopped") (auto intro: accounted_none accounted_keeps)
next
  case Do_wait
  then show ?thesis using r inv stopped_noop(3) [of b rt] wait_effect [OF inv, of rt "fst (backend_wait rt b)" "snd (backend_wait rt b)"]
    by (cases "bk_state b = Backend_stopped") (auto simp: accounted_def)
qed

lemma run_accounted:
  assumes "backend_inv b" "unat (ch_next_task_id (bk_host b)) + sum_list (map op_requests ops) < 18446744073709551616"
    and "backend_run rt ops b = (log, b')"
  shows "accounted log (sum_list (map op_requests ops)) b b'"
  using assms
proof (induction ops arbitrary: b log b')
  case Nil
  then show ?case by (auto simp: accounted_none)
next
  case (Cons op ops)
  obtain l1 b1 where e: "backend_exec rt op b = (l1, b1)" by (metis surj_pair)
  obtain l2 b2 where q: "backend_run rt ops b1 = (l2, b2)" by (metis surj_pair)
  have A: "accounted l1 (op_requests op) b b1" using Cons.prems(1,2) e by (intro exec_accounted) simp_all
  then have "accounted l2 (sum_list (map op_requests ops)) b1 b2"
    using Cons.prems(2) by (intro Cons.IH [OF _ _ q]) (auto simp: accounted_def)
  moreover have "log = (fst l1 @ fst l2, snd l1 @ snd l2)" "b' = b2"
    using Cons.prems(3) e q by (auto split: prod.split_asm)
  ultimately show ?case using accounted_trans [OF A] by simp
qed

section \<open>A queue that copies at once\<close>

definition loop_runtime :: "copy_task list copy_runtime" where
  "loop_runtime =
     \<lparr>rt_port =
        \<lparr>pt_try_submit_batch = (\<lambda>tasks e. (OK, length tasks, e @ tasks)),
         pt_try_poll = (\<lambda>e. case e of
             [] \<Rightarrow> (EAGAIN, \<lparr>cp_task_id = 0, cp_result = Task_success\<rparr>, [])
           | t # ts \<Rightarrow> (OK, \<lparr>cp_task_id = ct_task_id t, cp_result = Task_success\<rparr>, ts)),
         pt_flush = (\<lambda>e. (OK, e))\<rparr>,
      rt_initialize_device = (\<lambda>_ e. (OK, e)), rt_start = (\<lambda>_ e. (OK, e)), rt_request_stop = (\<lambda>e. (OK, e)),
      rt_wait = (\<lambda>e. (OK, e)), rt_reset = (\<lambda>e. (OK, e)), vg_initialize = (\<lambda>_ e. (OK, e)), vg_reset = (\<lambda>e. (OK, e)),
      clk_now_nanoseconds = (\<lambda>e. (0, e)), rt_memory = (\<lambda>e. True)\<rparr>"

definition loop_config :: cuda_backend_config where
  "loop_config =
     \<lparr>bk_device_ordinal = 0, bk_stage_buffer_base = 65536, bk_stage_buffer_bytes = 4096, bk_queue_capacity = 64, bk_host_batch = 64,
      bk_max_batch_delay_nanoseconds = 1\<rparr>"

definition loop_request :: "u32 \<Rightarrow> u64 \<Rightarrow> backend_request" where
  "loop_request index source =
     \<lparr>br_parent_request_id = 7, br_parent_total_length = 64, br_payload_offset = 0, br_source_daemon_address = source,
      br_target_daemon_address = 1048576, br_payload_length = 32, br_payload_index = index, br_payload_count = 2\<rparr>"

definition loop_ops :: "backend_op list" where
  "loop_ops = [Do_start loop_config, Do_submit (loop_request 0 65600), Do_submit (loop_request 1 10), Do_flush, Do_pop_batch 8]"

lemma loop_log:
  "fst (backend_run loop_runtime loop_ops (new_backend [])) =
     ([loop_request 0 65600, loop_request 1 10],
      [\<lparr>bc_parent_request_id = 7, bc_payload_index = 1, bc_result = Backend_error\<rparr>,
       \<lparr>bc_parent_request_id = 7, bc_payload_index = 0, bc_result = Success\<rparr>])"
  by code_simp

section \<open>Exactly one completion\<close>

text \<open>
  C5. Whatever the queue, the visibility gate and the clock do, and in whatever order the backend is started, given
  requests, flushed, polled and stopped, every request it accepts is completed exactly once, with the parent and the payload
  index it came with, or is still owed; a stopped backend owes nothing, and the array of pending tasks never
  holds more than its 64 entries.
\<close>

theorem copy_backend_exactly_once:
  assumes "1 + sum_list (map op_requests ops) < 2 ^ 64"
    and "backend_run rt ops (new_backend e) = ((accepted, completed), b)"
  shows "mset (map request_key accepted) = mset (map completion_key completed) + backend_owed b \<and>
    (bk_state b = Backend_stopped \<longrightarrow> backend_owed b = {#}) \<and> length (ch_pending_tasks (bk_host b)) \<le> 64"
proof -
  have "unat (ch_next_task_id (bk_host (new_backend e))) + sum_list (map op_requests ops) < 18446744073709551616"
    using assms(1) by (simp add: new_backend_def new_host_def)
  from run_accounted [OF new_backend_inv(1) this assms(2)]
  have A: "backend_inv b" "mset (map request_key accepted) = mset (map completion_key completed) + backend_owed b"
    by (simp_all add: accounted_def new_backend_inv(2))
  then show ?thesis
    by (cases "bk_state b = Backend_stopped") (simp_all add: backend_inv_def backend_owed_def new_host_def owed_def pending_room_def)
qed

theorem copy_backend_exactly_once_witness:
  "\<exists>b. backend_run loop_runtime loop_ops (new_backend []) =
      (([loop_request 0 65600, loop_request 1 10],
        [\<lparr>bc_parent_request_id = 7, bc_payload_index = 1, bc_result = Backend_error\<rparr>,
         \<lparr>bc_parent_request_id = 7, bc_payload_index = 0, bc_result = Success\<rparr>]), b) \<and>
    backend_owed b = {#} \<and> length (ch_pending_tasks (bk_host b)) \<le> 64"
proof -
  obtain log b where r: "backend_run loop_runtime loop_ops (new_backend []) = (log, b)" by (metis surj_pair)
  then have log: "log = ([loop_request 0 65600, loop_request 1 10],
      [\<lparr>bc_parent_request_id = 7, bc_payload_index = 1, bc_result = Backend_error\<rparr>,
       \<lparr>bc_parent_request_id = 7, bc_payload_index = 0, bc_result = Success\<rparr>])"
    using loop_log by simp
  have n: "1 + sum_list (map op_requests loop_ops) < 2 ^ 64" by (simp add: loop_ops_def)
  from copy_backend_exactly_once [OF n r [unfolded log]] r log show ?thesis
    by (auto simp: request_key_def completion_key_def loop_request_def)
qed

end
