(* ===== verification/Copy_Path.thy ===== *)
theory Copy_Path
  imports Data_Path Warp_Copy Copy_Run
begin

unbundle bit_operations_syntax

text \<open>
  The copy backend under the worker: the task the backend makes of a request copies, on the GPU, the very bytes the
  worker asked for, and the backend is one the worker can use.
\<close>

section \<open>The task of a request\<close>

definition task_source :: "cuda_backend_config \<Rightarrow> copy_task \<Rightarrow> u64" where
  "task_source config task = bk_stage_buffer_base config + ucast (ct_relative_offset task)"

lemma make_copy_task_range:
  assumes t: "make_copy_task config request task_id = Inr task" and v: "validate_backend_config config = 0"
  shows "task_source config task = br_source_daemon_address request" "ct_target_address task = br_target_daemon_address request"
    "ct_length task = br_payload_length request" "0 < unat (ct_length task)" "unat (ct_length task) \<le> 8192"
    "unat (bk_stage_buffer_base config) \<le> unat (br_source_daemon_address request)"
    "unat (br_source_daemon_address request) + unat (br_payload_length request) \<le> unat (bk_stage_buffer_base config) + unat (bk_stage_buffer_bytes config)"
    "unat (br_source_daemon_address request) + unat (br_payload_length request) < 18446744073709551616"
    "unat (br_target_daemon_address request) + unat (br_payload_length request) < 18446744073709551616"
proof -
  let ?s = "br_source_daemon_address request" and ?b = "bk_stage_buffer_base config" and ?n = "bk_stage_buffer_bytes config"
  let ?l = "br_payload_length request" and ?t = "br_target_daemon_address request"
  have g: "\<not> ?s < ?b" "?l \<noteq> 0" "\<not> (ucast ?l :: u64) > 8192" "\<not> ?s - ?b \<ge> ?n" "\<not> ucast ?l > ?n - (?s - ?b)" "\<not> ?t > - 1 - ucast ?l"
      "\<not> ?s - ?b > ucast (- 1 :: u32)"
      "task = \<lparr>ct_task_id = task_id, ct_target_address = ?t, ct_length = ?l, ct_relative_offset = ucast (?s - ?b)\<rparr>"
    using t by (auto simp: make_copy_task_def kPersistentCopyMaxPayloadBytes_def Let_def split: if_split_asm)
  show "ct_target_address task = ?t" "ct_length task = ?l" using g(8) by simp_all
  show "0 < unat (ct_length task)" "unat (ct_length task) \<le> 8192"
    using g(2,3,8) by (simp_all add: unat_gt_0 word_less_nat_alt)
  show le: "unat ?b \<le> unat ?s" using g(1) by (simp add: word_less_nat_alt)
  then have d: "unat (?s - ?b) = unat ?s - unat ?b" by (simp add: unat_sub word_le_nat_alt)
  then have fit: "unat (?s - ?b) < 4294967296"
    using g(7) by (simp add: word_less_nat_alt unsigned_minus_1_eq_mask mask_numeral)
  then have "ucast (ucast (?s - ?b) :: u32) = ?s - ?b"
    by (simp add: word_unat_eq_iff unat_ucast_u64_u32)
  then show "task_source config task = ?s" using g(8) by (simp add: task_source_def)
  have b: "unat ?b + unat ?n < 18446744073709551616"
  proof -
    have "\<not> ?b > - 1 - ?n" using v by (auto simp: validate_backend_config_def split: if_split_asm)
    then have "unat ?b \<le> 18446744073709551615 - unat ?n" by (simp add: not_less word_le_nat_alt unat_max_minus)
    then show ?thesis using unat_u64_bound [of ?n] by linarith
  qed
  have r: "unat ?s - unat ?b < unat ?n" using g(4) d by (simp add: not_le word_less_nat_alt)
  have "unat (?n - (?s - ?b)) = unat ?n - (unat ?s - unat ?b)" using r d by (simp add: unat_sub word_le_nat_alt)
  then have "unat ?l \<le> unat ?n - (unat ?s - unat ?b)" using g(5) by (simp add: not_less word_le_nat_alt)
  then show s: "unat ?s + unat ?l \<le> unat ?b + unat ?n" using r le by linarith
  then show "unat ?s + unat ?l < 18446744073709551616" using b by linarith
  have "unat ?t \<le> 18446744073709551615 - unat ?l" using g(6) by (simp add: not_less word_le_nat_alt unat_max_minus)
  then show "unat ?t + unat ?l < 18446744073709551616" using unat_u32_bound [of ?l] by linarith
qed

text \<open>
  C15. A warp that runs the task made of a request copies the request's payload: the source it computes from the
  stage buffer and the 32-bit offset is the request's source, the range lies inside the stage buffer, and in whatever order
  the aligned accesses of its lanes happen, memory ends up as the copy the worker asked for leaves it. The configuration is one
  that \<open>validate_backend_config\<close> accepts, and the source and target ranges of the request are assumed not to overlap.
\<close>

theorem task_copies_request:
  assumes "make_copy_task config request task_id = Inr task" "validate_backend_config config = 0"
    and "unat (br_source_daemon_address request) + unat (br_payload_length request) \<le> unat (br_target_daemon_address request) \<or>
      unat (br_target_daemon_address request) + unat (br_payload_length request) \<le> unat (br_source_daemon_address request)"
  shows "unat (bk_stage_buffer_base config) \<le> unat (task_source config task) \<and>
    unat (task_source config task) + unat (ct_length task) \<le> unat (bk_stage_buffer_base config) + unat (bk_stage_buffer_bytes config) \<and>
    (\<exists>lanes. (\<forall>lane. copy_cg_warp (task_source config task) (ct_target_address task) (ct_length task) lane = Some (lanes lane)) \<and>
      (\<forall>as. set as = (\<Union>lane \<in> {lane. lane < 32}. set (lanes lane)) \<longrightarrow> fold copy_cg as memory = copy_bytes request memory))"
proof -
  note R = make_copy_task_range [OF assms(1,2)]
  have len: "unat (ct_length task) \<le> 4294967264" using R(5) by simp
  obtain lanes where L: "\<And>lane. copy_cg_warp (task_source config task) (ct_target_address task) (ct_length task) lane = Some (lanes lane)"
      "copies_range (\<Union>lane \<in> {lane. lane < 32}. set (lanes lane))
         (unat (task_source config task), unat (ct_target_address task), unat (ct_length task))"
    using warp_copies [OF len, of "task_source config task" "ct_target_address task"] R by auto
  have "fold copy_cg as memory = copy_bytes request memory" if "set as = (\<Union>lane \<in> {lane. lane < 32}. set (lanes lane))" for as
    using copies_range_fold [OF L(2) [folded that], of memory] assms(3) R(1-3) by (simp add: copy_bytes_def request_range_def)
  then show ?thesis using R L(1) by (intro conjI exI [of _ lanes]) auto
qed

theorem task_copies_request_witness:
  "unat (bk_stage_buffer_base loop_config) \<le> unat (task_source loop_config \<lparr>ct_task_id = 1, ct_target_address = 1048576, ct_length = 32, ct_relative_offset = 64\<rparr>) \<and>
    (\<exists>lanes. (\<forall>lane. copy_cg_warp 65600 1048576 32 lane = Some (lanes lane)) \<and>
      (\<forall>as. set as = (\<Union>lane \<in> {lane. lane < 32}. set (lanes lane)) \<longrightarrow>
         fold copy_cg as (\<lambda>a. of_nat a) = copy_bytes (loop_request 0 65600) (\<lambda>a. of_nat a)))"
proof -
  let ?t = "\<lparr>ct_task_id = 1, ct_target_address = 1048576, ct_length = 32, ct_relative_offset = 64\<rparr>"
  have m: "make_copy_task loop_config (loop_request 0 65600) 1 = Inr ?t" "validate_backend_config loop_config = 0" by code_simp+
  have s: "task_source loop_config ?t = 65600" by (simp add: task_source_def loop_config_def)
  have a: "unat (br_source_daemon_address (loop_request 0 65600)) + unat (br_payload_length (loop_request 0 65600))
      \<le> unat (br_target_daemon_address (loop_request 0 65600))" by (simp add: loop_request_def)
  from task_copies_request [OF m disjI1 [OF a], of "\<lambda>a. of_nat a"] show ?thesis by (simp add: s)
qed

section \<open>The backend under the worker\<close>

lemma submit_loop_le: "fst (submit_loop rt now rs b) \<le> length rs"
proof (induction rs arbitrary: b)
  case (Cons r rs)
  obtain acc b1 where "try_submit_at_time rt r now b = (acc, b1)" by (metis surj_pair)
  then show ?case using Cons [of b1] by (auto split: prod.split)
qed simp

lemma pop_loop_le: "length (fst (pop_loop rt now n b)) \<le> n"
proof (induction n arbitrary: b)
  case (Suc n)
  obtain c b1 where "try_pop_completion_at_time rt now b = (c, b1)" by (metis surj_pair)
  then show ?case using Suc [of b1] by (auto split: option.split prod.split)
qed simp

lemma cuda_backend_ok: "backend_ok (cuda_copy_backend rt)"
  using submit_loop_le pop_loop_le
  by (auto simp: backend_ok_def cuda_copy_backend_def backend_try_submit_batch_def backend_try_pop_completion_batch_def split: prod.split)

end
