(* ===== verification/Copy_Queues.thy ===== *)
theory Copy_Queues
  imports Copy_Config
begin

unbundle bit_operations_syntax

text \<open>
  \<^verbatim>\<open>gpu/persistent_copy.cu\<close>, the host side of the four queues between the host and a persistent kernel. The memory both sides
  map is part of the state; the kernel changes it between the calls. What the driver answers (allocation, mapping,
  launch, synchronisation) are arguments.
\<close>

section \<open>Mapped memory\<close>

text \<open>Control block and slots. A control block has the counters its queue uses; the others stay 0.\<close>

record completion_slot =
  cs_completion :: copy_completion
  cs_sequence :: u64
  cs_batch_start :: u64

record queue_memory =
  qm_task_tail :: u64
  qm_task_head :: u64
  qm_completion_tail :: u64
  qm_stop_requested :: u64
  qm_task_slots :: "copy_task list"
  qm_completion_slots :: "completion_slot list"

definition zero_task :: copy_task where
  "zero_task = \<lparr>ct_task_id = 0, ct_target_address = 0, ct_length = 0, ct_relative_offset = 0\<rparr>"

definition zero_completion :: copy_completion where
  "zero_completion = \<lparr>cp_task_id = 0, cp_result = Task_success\<rparr>"

text \<open>\<open>memset(memory, 0, size)\<close>.\<close>

definition zero_memory :: "u64 \<Rightarrow> queue_memory" where
  "zero_memory capacity =
     \<lparr>qm_task_tail = 0, qm_task_head = 0, qm_completion_tail = 0, qm_stop_requested = 0,
      qm_task_slots = replicate (unat capacity) zero_task,
      qm_completion_slots = replicate (unat capacity) \<lparr>cs_completion = zero_completion, cs_sequence = 0, cs_batch_start = 0\<rparr>\<rparr>"

text \<open>What the driver answers to \<open>cudaHostAlloc\<close> and \<open>cudaHostGetDevicePointer\<close>.\<close>

definition mapped_pinned_allocate :: "u64 \<Rightarrow> bool \<Rightarrow> cuda_error \<Rightarrow> cuda_error \<Rightarrow> int" where
  "mapped_pinned_allocate bytes unmapped allocation_status mapping_status =
     (if bytes = 0 \<or> \<not> unmapped then EINVAL
      else if allocation_status \<noteq> CudaSuccess then cuda_status allocation_status
      else if mapping_status \<noteq> CudaSuccess then cuda_status mapping_status
      else OK)"

definition mapped_pinned_reset :: "'m option \<Rightarrow> cuda_error \<Rightarrow> int" where
  "mapped_pinned_reset memory free_status = (case memory of None \<Rightarrow> OK | Some _ \<Rightarrow> cuda_status free_status)"

section \<open>Submitting to a ring\<close>

text \<open>How many tasks of a batch fit, and whether they are all well formed.\<close>

definition accepted_prefix :: "u64 \<Rightarrow> u64 \<Rightarrow> copy_task list \<Rightarrow> int + copy_task list" where
  "accepted_prefix capacity outstanding tasks =
     (if outstanding \<ge> capacity then Inl EAGAIN
      else let available = unat (capacity - outstanding);
               count = (if length tasks < available then length tasks else available)
           in if \<exists>task \<in> set (take count tasks). ct_target_address task = 0 \<or> ct_length task = 0 then Inl EINVAL
              else Inr (take count tasks))"

text \<open>\<open>for (index < count) slots[(submit_tail_ + index) & capacity_mask_].task = tasks[index]\<close>.\<close>

fun store_tasks :: "u64 \<Rightarrow> u64 \<Rightarrow> copy_task list \<Rightarrow> copy_task list \<Rightarrow> copy_task list" where
  "store_tasks capacity_mask task_index [] slots = slots"
| "store_tasks capacity_mask task_index (task # tasks) slots =
     store_tasks capacity_mask (task_index + 1) tasks (slots[unat (task_index AND capacity_mask) := task])"

section \<open>Launching a kernel\<close>

text \<open>
  What the driver answers to the four queries of \<open>query_kernel_resources\<close>, and whether they are answered well enough to launch; the usage
  figures it also stores are read by nothing but reports.
\<close>

record resource_queries =
  rq_attributes :: cuda_error
  rq_occupancy :: cuda_error
  rq_device :: cuda_error
  rq_properties :: cuda_error
  rq_max_threads_per_multiprocessor :: int

definition query_kernel_resources :: "resource_queries \<Rightarrow> bool" where
  "query_kernel_resources r \<longleftrightarrow>
     rq_attributes r = CudaSuccess \<and> rq_occupancy r = CudaSuccess \<and> rq_device r = CudaSuccess \<and>
     rq_properties r = CudaSuccess \<and> rq_max_threads_per_multiprocessor r \<noteq> 0"

text \<open>Which template instances exist; \<open>resources\<close> tells whether \<open>query_kernel_resources\<close> succeeds for the chosen one.\<close>

definition dispatch_batch :: "u32 \<Rightarrow> bool \<Rightarrow> bool" where
  "dispatch_batch device_batch resources \<longleftrightarrow> device_batch \<in> {1, 2, 4, 8, 16, 32} \<and> resources"

definition dispatch_direct_atomic_variant :: "u32 \<Rightarrow> u32 \<Rightarrow> bool \<Rightarrow> bool" where
  "dispatch_direct_atomic_variant copy_warps device_batch resources \<longleftrightarrow>
     copy_warps \<in> {4, 8, 16, 32} \<and> dispatch_batch device_batch resources"

definition dispatch_dynamic_sharded_spsc_variant :: "u32 \<Rightarrow> u32 \<Rightarrow> bool \<Rightarrow> bool" where
  "dispatch_dynamic_sharded_spsc_variant copy_warps device_batch resources \<longleftrightarrow>
     copy_warps \<in> {4, 8, 16, 32} \<and> dispatch_batch device_batch resources"

definition dispatch_static_partition_spsc_variant :: "u32 \<Rightarrow> u32 \<Rightarrow> bool \<Rightarrow> bool" where
  "dispatch_static_partition_spsc_variant copy_warps device_batch resources \<longleftrightarrow>
     copy_warps \<in> {4, 8, 16, 32} \<and> dispatch_batch device_batch resources"

definition dispatch_pipeline_copy_warps :: "u32 \<Rightarrow> u32 \<Rightarrow> bool \<Rightarrow> bool" where
  "dispatch_pipeline_copy_warps shared_queue_depth copy_warps resources \<longleftrightarrow>
     copy_warps \<in> {2, 6, 10, 14, 18, 22, 26, 30} \<and>
     \<not> (kWarpSpecializedMetaBatch + copy_warps - 1) div copy_warps > shared_queue_depth \<and> resources"

definition dispatch_warp_specialized_variant :: "u32 \<Rightarrow> bool \<Rightarrow> u32 \<Rightarrow> bool \<Rightarrow> bool" where
  "dispatch_warp_specialized_variant shared_queue_depth use_pipeline copy_warps resources \<longleftrightarrow>
     (if use_pipeline then shared_queue_depth \<le> 16 \<and> dispatch_pipeline_copy_warps shared_queue_depth copy_warps resources
      else resources)"

section \<open>The direct atomic queue\<close>

record direct_queue =
  da_memory :: "queue_memory option"
  da_capacity :: u64
  da_capacity_mask :: u64
  da_copy_warps :: u32
  da_device_batch :: u32
  da_stage_buffer_base :: u64
  da_submit_tail :: u64
  da_completion_head :: u64
  da_completed_device_batches :: u64
  da_running :: bool
  da_accepting :: bool

definition new_direct_queue :: direct_queue where
  "new_direct_queue =
     \<lparr>da_memory = None, da_capacity = 0, da_capacity_mask = 0, da_copy_warps = 0, da_device_batch = 0, da_stage_buffer_base = 0,
      da_submit_tail = 0, da_completion_head = 0, da_completed_device_batches = 0, da_running = False, da_accepting = False\<rparr>"

definition direct_allocate ::
  "u64 \<Rightarrow> u32 \<Rightarrow> u32 \<Rightarrow> u64 \<Rightarrow> cuda_error \<Rightarrow> cuda_error \<Rightarrow> queue_memory \<Rightarrow> direct_queue \<Rightarrow> int \<times> direct_queue" where
  "direct_allocate capacity copy_warps device_batch stage_buffer_base allocation_status mapping_status fresh q =
     (if da_memory q \<noteq> None \<or> \<not> is_supported_copy_warps copy_warps \<or> \<not> is_supported_device_batch device_batch \<or>
         ucast device_batch > capacity \<or> stage_buffer_base = 0 then (EINVAL, q)
      else case direct_atomic_allocation_size capacity of
             None \<Rightarrow> (EINVAL, q)
           | Some bytes \<Rightarrow>
               (let status = mapped_pinned_allocate bytes True allocation_status mapping_status
                in if status \<noteq> 0 then (status, q)
                   else (OK, q\<lparr>da_memory := Some fresh, da_capacity := capacity, da_capacity_mask := capacity - 1,
                               da_copy_warps := copy_warps, da_device_batch := device_batch,
                               da_stage_buffer_base := stage_buffer_base\<rparr>)))"

definition direct_start :: "bool \<Rightarrow> cuda_error \<Rightarrow> direct_queue \<Rightarrow> int \<times> direct_queue" where
  "direct_start resources last_error q =
     (if da_memory q = None \<or> da_running q then (EINVAL, q)
      else let q = q\<lparr>da_memory := Some (zero_memory (da_capacity q)), da_submit_tail := 0, da_completion_head := 0,
                     da_completed_device_batches := 0, da_accepting := True, da_running := True\<rparr>
           in if \<not> dispatch_direct_atomic_variant (da_copy_warps q) (da_device_batch q) resources
              then (EINVAL, q\<lparr>da_running := False, da_accepting := False\<rparr>)
              else let status = cuda_status last_error
                   in (status, if status \<noteq> 0 then q\<lparr>da_running := False, da_accepting := False\<rparr> else q))"

definition direct_try_submit_batch :: "copy_task list \<Rightarrow> direct_queue \<Rightarrow> int \<times> nat \<times> direct_queue" where
  "direct_try_submit_batch tasks q =
     (case da_memory q of
        Some memory \<Rightarrow>
          (if \<not> da_running q \<or> \<not> da_accepting q \<or> tasks = [] then (EINVAL, 0, q)
           else case accepted_prefix (da_capacity q) (da_submit_tail q - da_completion_head q) tasks of
                  Inl status \<Rightarrow> (status, 0, q)
                | Inr batch \<Rightarrow>
                    (let tail = da_submit_tail q + of_nat (length batch)
                     in (OK, length batch,
                         q\<lparr>da_memory := Some (memory\<lparr>qm_task_slots :=
                               store_tasks (da_capacity_mask q) (da_submit_tail q) batch (qm_task_slots memory), qm_task_tail := tail\<rparr>),
                           da_submit_tail := tail\<rparr>)))
      | None \<Rightarrow> (EINVAL, 0, q))"

definition direct_try_submit :: "copy_task \<Rightarrow> direct_queue \<Rightarrow> int \<times> direct_queue" where
  "direct_try_submit task q = (case direct_try_submit_batch [task] q of (status, _, q) \<Rightarrow> (status, q))"

definition direct_try_poll :: "direct_queue \<Rightarrow> int \<times> copy_completion \<times> direct_queue" where
  "direct_try_poll q =
     (case da_memory q of
        None \<Rightarrow> (EINVAL, zero_completion, q)
      | Some memory \<Rightarrow>
          (let slot = qm_completion_slots memory ! unat (da_completion_head q AND da_capacity_mask q)
           in if cs_sequence slot \<noteq> da_completion_head q + 1 then (EAGAIN, zero_completion, q)
              else (OK, cs_completion slot,
                    q\<lparr>da_completed_device_batches := da_completed_device_batches q + cs_batch_start slot,
                      da_completion_head := da_completion_head q + 1\<rparr>)))"

definition direct_request_stop :: "direct_queue \<Rightarrow> int \<times> direct_queue" where
  "direct_request_stop q =
     (if \<not> da_running q \<or> \<not> da_accepting q then (EINVAL, q)
      else (OK, q\<lparr>da_accepting := False, da_memory := map_option (qm_stop_requested_update (\<lambda>_. 1)) (da_memory q)\<rparr>))"

definition direct_wait :: "cuda_error \<Rightarrow> direct_queue \<Rightarrow> int \<times> direct_queue" where
  "direct_wait synchronize q =
     (if \<not> da_running q \<or> da_accepting q then (EINVAL, q) else (cuda_status synchronize, q\<lparr>da_running := False\<rparr>))"

definition direct_reset :: "cuda_error \<Rightarrow> direct_queue \<Rightarrow> int \<times> direct_queue" where
  "direct_reset free_status q =
     (if da_running q then (EBUSY, q) else (mapped_pinned_reset (da_memory q) free_status, new_direct_queue))"

text \<open>The destructor.\<close>

definition direct_destroy :: "cuda_error \<Rightarrow> cuda_error \<Rightarrow> direct_queue \<Rightarrow> direct_queue" where
  "direct_destroy synchronize free_status q =
     (let q = (if da_running q then snd (direct_wait synchronize (snd (direct_request_stop q))) else q)
      in snd (direct_reset free_status q))"

definition direct_drained :: "direct_queue \<Rightarrow> bool" where
  "direct_drained q \<longleftrightarrow> da_submit_tail q = da_completion_head q"

section \<open>The dynamic sharded queue\<close>

text \<open>A control block and a ring of \<open>lane_capacity_\<close> slots per lane; the slots of all lanes are one array.\<close>

record lane_control =
  lc_task_tail :: u64
  lc_completion_tail :: u64
  lc_stop_requested :: u64

record lanes_memory =
  lm_controls :: "lane_control list"
  lm_task_slots :: "copy_task list"
  lm_completion_slots :: "copy_completion list"

definition zero_lanes_memory :: "u32 \<Rightarrow> u64 \<Rightarrow> lanes_memory" where
  "zero_lanes_memory lane_count capacity =
     \<lparr>lm_controls = replicate (unat lane_count) \<lparr>lc_task_tail = 0, lc_completion_tail = 0, lc_stop_requested = 0\<rparr>,
      lm_task_slots = replicate (unat capacity) zero_task, lm_completion_slots = replicate (unat capacity) zero_completion\<rparr>"

record dynamic_queue =
  dq_memory :: "lanes_memory option"
  dq_capacity :: u64
  dq_lane_capacity :: u64
  dq_lane_capacity_mask :: u64
  dq_lane_count :: u32
  dq_device_batch :: u32
  dq_submit_cursor :: u32
  dq_completion_cursor :: u32
  dq_stage_buffer_base :: u64
  dq_submit_tails :: "u64 list"
  dq_completion_heads :: "u64 list"
  dq_accepted_tasks :: u64
  dq_completed_tasks :: u64
  dq_running :: bool
  dq_accepting :: bool

definition new_dynamic_queue :: dynamic_queue where
  "new_dynamic_queue =
     \<lparr>dq_memory = None, dq_capacity = 0, dq_lane_capacity = 0, dq_lane_capacity_mask = 0, dq_lane_count = 0, dq_device_batch = 0,
      dq_submit_cursor = 0, dq_completion_cursor = 0, dq_stage_buffer_base = 0, dq_submit_tails = replicate 32 0,
      dq_completion_heads = replicate 32 0, dq_accepted_tasks = 0, dq_completed_tasks = 0, dq_running = False, dq_accepting = False\<rparr>"

definition dynamic_allocate ::
  "u64 \<Rightarrow> u32 \<Rightarrow> u32 \<Rightarrow> u64 \<Rightarrow> cuda_error \<Rightarrow> cuda_error \<Rightarrow> lanes_memory \<Rightarrow> dynamic_queue \<Rightarrow> int \<times> dynamic_queue" where
  "dynamic_allocate capacity copy_warps device_batch stage_buffer_base allocation_status mapping_status fresh q =
     (if dq_memory q \<noteq> None \<or> \<not> is_supported_device_batch device_batch \<or> ucast device_batch > capacity \<or> stage_buffer_base = 0
      then (EINVAL, q)
      else case dynamic_sharded_spsc_allocation_size capacity copy_warps of
             None \<Rightarrow> (EINVAL, q)
           | Some bytes \<Rightarrow>
               (let status = mapped_pinned_allocate bytes True allocation_status mapping_status
                in if status \<noteq> 0 then (status, q)
                   else (OK, q\<lparr>dq_memory := Some fresh, dq_capacity := capacity, dq_lane_capacity := capacity div ucast copy_warps,
                               dq_lane_capacity_mask := capacity div ucast copy_warps - 1, dq_lane_count := copy_warps,
                               dq_device_batch := device_batch, dq_stage_buffer_base := stage_buffer_base\<rparr>)))"

definition dynamic_start :: "bool \<Rightarrow> cuda_error \<Rightarrow> dynamic_queue \<Rightarrow> int \<times> dynamic_queue" where
  "dynamic_start resources last_error q =
     (if dq_memory q = None \<or> dq_running q then (EINVAL, q)
      else let q = q\<lparr>dq_memory := Some (zero_lanes_memory (dq_lane_count q) (dq_capacity q)), dq_submit_tails := replicate 32 0,
                     dq_completion_heads := replicate 32 0, dq_submit_cursor := 0, dq_completion_cursor := 0,
                     dq_accepted_tasks := 0, dq_completed_tasks := 0, dq_accepting := True, dq_running := True\<rparr>
           in if \<not> dispatch_dynamic_sharded_spsc_variant (dq_lane_count q) (dq_device_batch q) resources
              then (EINVAL, q\<lparr>dq_running := False, dq_accepting := False\<rparr>)
              else let status = cuda_status last_error
                   in (status, if status \<noteq> 0 then q\<lparr>dq_running := False, dq_accepting := False\<rparr> else q))"

text \<open>\<open>++lane; if (lane == lane_count_) lane = 0;\<close>\<close>

definition next_lane :: "u32 \<Rightarrow> u32 \<Rightarrow> u32" where
  "next_lane lane_count lane = (if lane + 1 = lane_count then 0 else lane + 1)"

text \<open>The loop that looks for a lane with room; the number is how many lanes it may still visit.\<close>

primrec find_lane :: "nat \<Rightarrow> dynamic_queue \<Rightarrow> u32 \<Rightarrow> u32 option" where
  "find_lane 0 q selected_lane = None"
| "find_lane (Suc visits) q selected_lane =
     (if dq_submit_tails q ! unat selected_lane - dq_completion_heads q ! unat selected_lane < dq_lane_capacity q
      then Some selected_lane
      else find_lane visits q (next_lane (dq_lane_count q) selected_lane))"

definition dynamic_slot :: "dynamic_queue \<Rightarrow> u32 \<Rightarrow> u64 \<Rightarrow> nat" where
  "dynamic_slot q lane counter = unat (ucast lane * dq_lane_capacity q + (counter AND dq_lane_capacity_mask q))"

text \<open>The loop over the tasks, with the slots and the set of lanes it changed; it stops with \<open>EIO\<close> where no lane has room.\<close>

fun place_tasks :: "copy_task list \<Rightarrow> u32 \<Rightarrow> copy_task list \<Rightarrow> dynamic_queue \<Rightarrow> int \<times> u32 \<times> copy_task list \<times> dynamic_queue" where
  "place_tasks [] dirty slots q = (OK, dirty, slots, q)"
| "place_tasks (task # tasks) dirty slots q =
     (case find_lane (unat (dq_lane_count q)) q (dq_submit_cursor q) of
        None \<Rightarrow> (EIO, dirty, slots, q)
      | Some lane \<Rightarrow>
          place_tasks tasks (dirty OR push_bit (unat lane) 1)
            (slots[dynamic_slot q lane (dq_submit_tails q ! unat lane) := task])
            (q\<lparr>dq_submit_tails := (dq_submit_tails q)[unat lane := dq_submit_tails q ! unat lane + 1],
               dq_submit_cursor := next_lane (dq_lane_count q) lane\<rparr>))"

definition publish_lanes :: "u32 \<Rightarrow> u32 \<Rightarrow> u64 list \<Rightarrow> lane_control list \<Rightarrow> lane_control list" where
  "publish_lanes lane_count dirty tails controls =
     map (\<lambda>(lane, c). if lane < unat lane_count \<and> dirty AND push_bit lane 1 \<noteq> 0 then c\<lparr>lc_task_tail := tails ! lane\<rparr> else c)
       (zip [0..<length controls] controls)"

definition dynamic_try_submit_batch :: "copy_task list \<Rightarrow> dynamic_queue \<Rightarrow> int \<times> nat \<times> dynamic_queue" where
  "dynamic_try_submit_batch tasks q =
     (case dq_memory q of
        Some memory \<Rightarrow>
          (if \<not> dq_running q \<or> \<not> dq_accepting q \<or> tasks = [] then (EINVAL, 0, q)
           else case accepted_prefix (dq_capacity q) (dq_accepted_tasks q - dq_completed_tasks q) tasks of
                  Inl status \<Rightarrow> (status, 0, q)
                | Inr batch \<Rightarrow>
                    (case place_tasks batch 0 (lm_task_slots memory) q of (status, dirty, slots, q) \<Rightarrow>
                       if status \<noteq> 0 then (status, 0, q\<lparr>dq_memory := Some (memory\<lparr>lm_task_slots := slots\<rparr>)\<rparr>)
                       else (OK, length batch,
                             q\<lparr>dq_memory := Some (memory\<lparr>lm_task_slots := slots,
                                 lm_controls := publish_lanes (dq_lane_count q) dirty (dq_submit_tails q) (lm_controls memory)\<rparr>),
                               dq_accepted_tasks := dq_accepted_tasks q + of_nat (length batch)\<rparr>)))
      | None \<Rightarrow> (EINVAL, 0, q))"

definition dynamic_try_submit :: "copy_task \<Rightarrow> dynamic_queue \<Rightarrow> int \<times> dynamic_queue" where
  "dynamic_try_submit task q = (case dynamic_try_submit_batch [task] q of (status, _, q) \<Rightarrow> (status, q))"

text \<open>The loop of \<open>try_poll\<close> over the lanes.\<close>

primrec find_completed_lane :: "nat \<Rightarrow> lanes_memory \<Rightarrow> dynamic_queue \<Rightarrow> u32 \<Rightarrow> u32 option" where
  "find_completed_lane 0 memory q selected_lane = None"
| "find_completed_lane (Suc visits) memory q selected_lane =
     (if dq_completion_heads q ! unat selected_lane < lc_completion_tail (lm_controls memory ! unat selected_lane)
      then Some selected_lane
      else find_completed_lane visits memory q (next_lane (dq_lane_count q) selected_lane))"

definition dynamic_try_poll :: "dynamic_queue \<Rightarrow> int \<times> copy_completion \<times> dynamic_queue" where
  "dynamic_try_poll q =
     (case dq_memory q of
        None \<Rightarrow> (EINVAL, zero_completion, q)
      | Some memory \<Rightarrow>
          (case find_completed_lane (unat (dq_lane_count q)) memory q (dq_completion_cursor q) of
             None \<Rightarrow> (EAGAIN, zero_completion, q)
           | Some lane \<Rightarrow>
               (OK, lm_completion_slots memory ! dynamic_slot q lane (dq_completion_heads q ! unat lane),
                q\<lparr>dq_completion_heads := (dq_completion_heads q)[unat lane := dq_completion_heads q ! unat lane + 1],
                  dq_completed_tasks := dq_completed_tasks q + 1,
                  dq_completion_cursor := next_lane (dq_lane_count q) lane\<rparr>)))"

definition stop_lanes :: "u32 \<Rightarrow> lanes_memory \<Rightarrow> lanes_memory" where
  "stop_lanes lane_count memory =
     memory\<lparr>lm_controls := map (lc_stop_requested_update (\<lambda>_. 1)) (take (unat lane_count) (lm_controls memory)) @
       drop (unat lane_count) (lm_controls memory)\<rparr>"

definition dynamic_request_stop :: "dynamic_queue \<Rightarrow> int \<times> dynamic_queue" where
  "dynamic_request_stop q =
     (if \<not> dq_running q \<or> \<not> dq_accepting q then (EINVAL, q)
      else (OK, q\<lparr>dq_accepting := False, dq_memory := map_option (stop_lanes (dq_lane_count q)) (dq_memory q)\<rparr>))"

definition dynamic_wait :: "cuda_error \<Rightarrow> dynamic_queue \<Rightarrow> int \<times> dynamic_queue" where
  "dynamic_wait synchronize q =
     (if \<not> dq_running q \<or> dq_accepting q then (EINVAL, q) else (cuda_status synchronize, q\<lparr>dq_running := False\<rparr>))"

definition dynamic_reset :: "cuda_error \<Rightarrow> dynamic_queue \<Rightarrow> int \<times> dynamic_queue" where
  "dynamic_reset free_status q =
     (if dq_running q then (EBUSY, q) else (mapped_pinned_reset (dq_memory q) free_status, new_dynamic_queue))"

text \<open>The destructor.\<close>

definition dynamic_destroy :: "cuda_error \<Rightarrow> cuda_error \<Rightarrow> dynamic_queue \<Rightarrow> dynamic_queue" where
  "dynamic_destroy synchronize free_status q =
     (let q = (if dq_running q then snd (dynamic_wait synchronize (snd (dynamic_request_stop q))) else q)
      in snd (dynamic_reset free_status q))"

definition dynamic_drained :: "dynamic_queue \<Rightarrow> bool" where
  "dynamic_drained q \<longleftrightarrow> dq_accepted_tasks q = dq_completed_tasks q"

section \<open>The static partition queue\<close>

record static_queue =
  sp_memory :: "queue_memory option"
  sp_capacity :: u64
  sp_capacity_mask :: u64
  sp_partition_capacity :: u64
  sp_copy_warps :: u32
  sp_device_batch :: u32
  sp_stage_buffer_base :: u64
  sp_submit_tail :: u64
  sp_completion_head :: u64
  sp_running :: bool
  sp_accepting :: bool

definition new_static_queue :: static_queue where
  "new_static_queue =
     \<lparr>sp_memory = None, sp_capacity = 0, sp_capacity_mask = 0, sp_partition_capacity = 0, sp_copy_warps = 0, sp_device_batch = 0,
      sp_stage_buffer_base = 0, sp_submit_tail = 0, sp_completion_head = 0, sp_running = False, sp_accepting = False\<rparr>"

definition static_allocate ::
  "u64 \<Rightarrow> u32 \<Rightarrow> u32 \<Rightarrow> u64 \<Rightarrow> cuda_error \<Rightarrow> cuda_error \<Rightarrow> queue_memory \<Rightarrow> static_queue \<Rightarrow> int \<times> static_queue" where
  "static_allocate capacity copy_warps device_batch stage_buffer_base allocation_status mapping_status fresh q =
     (if sp_memory q \<noteq> None \<or> \<not> is_supported_device_batch device_batch \<or> ucast device_batch > capacity \<or> stage_buffer_base = 0
      then (EINVAL, q)
      else case static_partition_spsc_allocation_size capacity copy_warps of
             None \<Rightarrow> (EINVAL, q)
           | Some bytes \<Rightarrow>
               (let status = mapped_pinned_allocate bytes True allocation_status mapping_status
                in if status \<noteq> 0 then (status, q)
                   else (OK, q\<lparr>sp_memory := Some fresh, sp_capacity := capacity, sp_capacity_mask := capacity - 1,
                               sp_partition_capacity := capacity div ucast copy_warps, sp_copy_warps := copy_warps,
                               sp_device_batch := device_batch, sp_stage_buffer_base := stage_buffer_base\<rparr>)))"

definition static_start :: "bool \<Rightarrow> cuda_error \<Rightarrow> static_queue \<Rightarrow> int \<times> static_queue" where
  "static_start resources last_error q =
     (if sp_memory q = None \<or> sp_running q then (EINVAL, q)
      else let q = q\<lparr>sp_memory := Some (zero_memory (sp_capacity q)), sp_submit_tail := 0, sp_completion_head := 0,
                     sp_accepting := True, sp_running := True\<rparr>
           in if \<not> dispatch_static_partition_spsc_variant (sp_copy_warps q) (sp_device_batch q) resources
              then (EINVAL, q\<lparr>sp_running := False, sp_accepting := False\<rparr>)
              else let status = cuda_status last_error
                   in (status, if status \<noteq> 0 then q\<lparr>sp_running := False, sp_accepting := False\<rparr> else q))"

definition static_try_submit_batch :: "copy_task list \<Rightarrow> static_queue \<Rightarrow> int \<times> nat \<times> static_queue" where
  "static_try_submit_batch tasks q =
     (case sp_memory q of
        Some memory \<Rightarrow>
          (if \<not> sp_running q \<or> \<not> sp_accepting q \<or> tasks = [] then (EINVAL, 0, q)
           else case accepted_prefix (sp_capacity q) (sp_submit_tail q - sp_completion_head q) tasks of
                  Inl status \<Rightarrow> (status, 0, q)
                | Inr batch \<Rightarrow>
                    (let tail = sp_submit_tail q + of_nat (length batch)
                     in (OK, length batch,
                         q\<lparr>sp_memory := Some (memory\<lparr>qm_task_slots :=
                               store_tasks (sp_capacity_mask q) (sp_submit_tail q) batch (qm_task_slots memory), qm_task_tail := tail\<rparr>),
                           sp_submit_tail := tail\<rparr>)))
      | None \<Rightarrow> (EINVAL, 0, q))"

definition static_try_submit :: "copy_task \<Rightarrow> static_queue \<Rightarrow> int \<times> static_queue" where
  "static_try_submit task q = (case static_try_submit_batch [task] q of (status, _, q) \<Rightarrow> (status, q))"

definition static_try_poll :: "static_queue \<Rightarrow> int \<times> copy_completion \<times> static_queue" where
  "static_try_poll q =
     (case sp_memory q of
        None \<Rightarrow> (EINVAL, zero_completion, q)
      | Some memory \<Rightarrow>
          (let slot = qm_completion_slots memory ! unat (sp_completion_head q AND sp_capacity_mask q)
           in if cs_sequence slot \<noteq> sp_completion_head q + 1 then (EAGAIN, zero_completion, q)
              else (OK, cs_completion slot, q\<lparr>sp_completion_head := sp_completion_head q + 1\<rparr>)))"

definition static_request_stop :: "static_queue \<Rightarrow> int \<times> static_queue" where
  "static_request_stop q =
     (if \<not> sp_running q \<or> \<not> sp_accepting q then (EINVAL, q)
      else (OK, q\<lparr>sp_accepting := False, sp_memory := map_option (qm_stop_requested_update (\<lambda>_. 1)) (sp_memory q)\<rparr>))"

definition static_wait :: "cuda_error \<Rightarrow> static_queue \<Rightarrow> int \<times> static_queue" where
  "static_wait synchronize q =
     (if \<not> sp_running q \<or> sp_accepting q then (EINVAL, q) else (cuda_status synchronize, q\<lparr>sp_running := False\<rparr>))"

definition static_reset :: "cuda_error \<Rightarrow> static_queue \<Rightarrow> int \<times> static_queue" where
  "static_reset free_status q =
     (if sp_running q then (EBUSY, q) else (mapped_pinned_reset (sp_memory q) free_status, new_static_queue))"

text \<open>The destructor.\<close>

definition static_destroy :: "cuda_error \<Rightarrow> cuda_error \<Rightarrow> static_queue \<Rightarrow> static_queue" where
  "static_destroy synchronize free_status q =
     (let q = (if sp_running q then snd (static_wait synchronize (snd (static_request_stop q))) else q)
      in snd (static_reset free_status q))"

definition static_drained :: "static_queue \<Rightarrow> bool" where
  "static_drained q \<longleftrightarrow> sp_submit_tail q = sp_completion_head q"

text \<open>\<open>for (index = completion_head_ + 1; index < submit_tail_; ++index)\<close>.\<close>

function completed_from :: "queue_memory \<Rightarrow> u64 \<Rightarrow> u64 \<Rightarrow> u64 \<Rightarrow> bool" where
  "completed_from memory capacity_mask index submit_tail =
     (if \<not> index < submit_tail then False
      else if cs_sequence (qm_completion_slots memory ! unat (index AND capacity_mask)) = index + 1 then True
      else completed_from memory capacity_mask (index + 1) submit_tail)"
  by pat_completeness auto
termination
proof (relation "measure (\<lambda>(_, _, index, submit_tail). unat submit_tail - unat index)")
  fix memory :: queue_memory and capacity_mask index submit_tail :: u64
  assume "\<not> \<not> index < submit_tail"
  then have lt: "unat index < unat submit_tail" by (simp add: word_less_nat_alt)
  then have "unat index + 1 < 18446744073709551616" using unat_u64_bound [of submit_tail] by linarith
  then have "unat (index + 1) = unat index + 1" using unat_add_u64 [of index 1] by simp
  then show "((memory, capacity_mask, index + 1, submit_tail), memory, capacity_mask, index, submit_tail)
      \<in> measure (\<lambda>(_, _, index, submit_tail). unat submit_tail - unat index)" using lt by simp
qed simp

declare completed_from.simps [simp del]

definition head_of_line_blocked :: "static_queue \<Rightarrow> bool" where
  "head_of_line_blocked q =
     (case sp_memory q of
        None \<Rightarrow> False
      | Some memory \<Rightarrow>
          if sp_completion_head q \<ge> sp_submit_tail q then False
          else if cs_sequence (qm_completion_slots memory ! unat (sp_completion_head q AND sp_capacity_mask q)) = sp_completion_head q + 1
          then False
          else completed_from memory (sp_capacity_mask q) (sp_completion_head q + 1) (sp_submit_tail q))"

section \<open>The warp specialised queue\<close>

record warp_queue =
  wq_memory :: "queue_memory option"
  wq_capacity :: u64
  wq_capacity_mask :: u64
  wq_shared_memory_bytes :: u64
  wq_copy_warps :: u32
  wq_device_batch :: u32
  wq_shared_queue_depth :: u32
  wq_stage_buffer_base :: u64
  wq_submit_tail :: u64
  wq_completion_head :: u64
  wq_cached_completion_tail :: u64
  wq_running :: bool
  wq_accepting :: bool

definition new_warp_queue :: warp_queue where
  "new_warp_queue =
     \<lparr>wq_memory = None, wq_capacity = 0, wq_capacity_mask = 0, wq_shared_memory_bytes = 0, wq_copy_warps = 0, wq_device_batch = 0,
      wq_shared_queue_depth = 0, wq_stage_buffer_base = 0, wq_submit_tail = 0, wq_completion_head = 0, wq_cached_completion_tail = 0,
      wq_running = False, wq_accepting = False\<rparr>"

definition warp_queue_map ::
  "(u64 \<times> u64) option \<Rightarrow> u64 \<Rightarrow> u32 \<Rightarrow> u32 \<Rightarrow> u64 \<Rightarrow> cuda_error \<Rightarrow> cuda_error \<Rightarrow> queue_memory \<Rightarrow> warp_queue \<Rightarrow> int \<times> warp_queue" where
  "warp_queue_map sizes capacity copy_warps shared_queue_depth stage_buffer_base allocation_status mapping_status fresh q =
     (if wq_memory q \<noteq> None \<or> stage_buffer_base = 0 then (EINVAL, q)
      else case sizes of
             None \<Rightarrow> (EINVAL, q)
           | Some (host_bytes, shared_bytes) \<Rightarrow>
               (let status = mapped_pinned_allocate host_bytes True allocation_status mapping_status
                in if status \<noteq> 0 then (status, q)
                   else (OK, q\<lparr>wq_memory := Some fresh, wq_capacity := capacity, wq_capacity_mask := capacity - 1,
                               wq_shared_memory_bytes := shared_bytes, wq_copy_warps := copy_warps,
                               wq_device_batch := kWarpSpecializedMetaBatch, wq_shared_queue_depth := shared_queue_depth,
                               wq_stage_buffer_base := stage_buffer_base\<rparr>)))"

definition warp_allocate ::
  "u64 \<Rightarrow> u32 \<Rightarrow> u32 \<Rightarrow> u64 \<Rightarrow> cuda_error \<Rightarrow> cuda_error \<Rightarrow> queue_memory \<Rightarrow> warp_queue \<Rightarrow> int \<times> warp_queue" where
  "warp_allocate capacity copy_warps shared_queue_depth =
     warp_queue_map (warp_specialized_allocation_size capacity copy_warps shared_queue_depth) capacity copy_warps shared_queue_depth"

definition warp_allocate_pipeline ::
  "u64 \<Rightarrow> u32 \<Rightarrow> u32 \<Rightarrow> u64 \<Rightarrow> cuda_error \<Rightarrow> cuda_error \<Rightarrow> queue_memory \<Rightarrow> warp_queue \<Rightarrow> int \<times> warp_queue" where
  "warp_allocate_pipeline capacity copy_warps shared_queue_depth =
     warp_queue_map (warp_specialized_pipeline_allocation_size capacity copy_warps shared_queue_depth) capacity copy_warps shared_queue_depth"

definition warp_start_impl :: "bool \<Rightarrow> bool \<Rightarrow> cuda_error \<Rightarrow> warp_queue \<Rightarrow> int \<times> warp_queue" where
  "warp_start_impl use_pipeline resources last_error q =
     (if wq_memory q = None \<or> wq_running q then (EINVAL, q)
      else let q = q\<lparr>wq_memory := Some (zero_memory (wq_capacity q)), wq_submit_tail := 0, wq_completion_head := 0,
                     wq_cached_completion_tail := 0, wq_accepting := True, wq_running := True\<rparr>;
               launched = (wq_shared_queue_depth q \<in> {2, 4, 8, 16} \<and>
                 dispatch_warp_specialized_variant (wq_shared_queue_depth q) use_pipeline (wq_copy_warps q) resources)
           in if \<not> launched then (EINVAL, q\<lparr>wq_running := False, wq_accepting := False\<rparr>)
              else let status = cuda_status last_error
                   in (status, if status \<noteq> 0 then q\<lparr>wq_running := False, wq_accepting := False\<rparr> else q))"

definition warp_start :: "bool \<Rightarrow> cuda_error \<Rightarrow> warp_queue \<Rightarrow> int \<times> warp_queue" where
  "warp_start = warp_start_impl False"

definition warp_start_pipeline :: "bool \<Rightarrow> cuda_error \<Rightarrow> warp_queue \<Rightarrow> int \<times> warp_queue" where
  "warp_start_pipeline = warp_start_impl True"

definition warp_try_submit_batch :: "copy_task list \<Rightarrow> warp_queue \<Rightarrow> int \<times> nat \<times> warp_queue" where
  "warp_try_submit_batch tasks q =
     (case wq_memory q of
        Some memory \<Rightarrow>
          (if \<not> wq_running q \<or> \<not> wq_accepting q \<or> tasks = [] then (EINVAL, 0, q)
           else case accepted_prefix (wq_capacity q) (wq_submit_tail q - wq_completion_head q) tasks of
                  Inl status \<Rightarrow> (status, 0, q)
                | Inr batch \<Rightarrow>
                    (let tail = wq_submit_tail q + of_nat (length batch)
                     in (OK, length batch,
                         q\<lparr>wq_memory := Some (memory\<lparr>qm_task_slots :=
                               store_tasks (wq_capacity_mask q) (wq_submit_tail q) batch (qm_task_slots memory), qm_task_tail := tail\<rparr>),
                           wq_submit_tail := tail\<rparr>)))
      | None \<Rightarrow> (EINVAL, 0, q))"

definition warp_try_submit :: "copy_task \<Rightarrow> warp_queue \<Rightarrow> int \<times> warp_queue" where
  "warp_try_submit task q = (case warp_try_submit_batch [task] q of (status, _, q) \<Rightarrow> (status, q))"

definition warp_try_poll :: "warp_queue \<Rightarrow> int \<times> copy_completion \<times> warp_queue" where
  "warp_try_poll q =
     (case wq_memory q of
        None \<Rightarrow> (EINVAL, zero_completion, q)
      | Some memory \<Rightarrow>
          (let q = (if wq_completion_head q \<ge> wq_cached_completion_tail q
                    then q\<lparr>wq_cached_completion_tail := qm_completion_tail memory\<rparr> else q)
           in if wq_completion_head q \<ge> wq_cached_completion_tail q then (EAGAIN, zero_completion, q)
              else (OK, cs_completion (qm_completion_slots memory ! unat (wq_completion_head q AND wq_capacity_mask q)),
                    q\<lparr>wq_completion_head := wq_completion_head q + 1\<rparr>)))"

definition warp_request_stop :: "warp_queue \<Rightarrow> int \<times> warp_queue" where
  "warp_request_stop q =
     (if \<not> wq_running q \<or> \<not> wq_accepting q then (EINVAL, q)
      else (OK, q\<lparr>wq_accepting := False, wq_memory := map_option (qm_stop_requested_update (\<lambda>_. 1)) (wq_memory q)\<rparr>))"

definition warp_wait :: "cuda_error \<Rightarrow> warp_queue \<Rightarrow> int \<times> warp_queue" where
  "warp_wait synchronize q =
     (if \<not> wq_running q \<or> wq_accepting q then (EINVAL, q) else (cuda_status synchronize, q\<lparr>wq_running := False\<rparr>))"

definition warp_reset :: "cuda_error \<Rightarrow> warp_queue \<Rightarrow> int \<times> warp_queue" where
  "warp_reset free_status q =
     (if wq_running q then (EBUSY, q) else (mapped_pinned_reset (wq_memory q) free_status, new_warp_queue))"

text \<open>The destructor.\<close>

definition warp_destroy :: "cuda_error \<Rightarrow> cuda_error \<Rightarrow> warp_queue \<Rightarrow> warp_queue" where
  "warp_destroy synchronize free_status q =
     (let q = (if wq_running q then snd (warp_wait synchronize (snd (warp_request_stop q))) else q)
      in snd (warp_reset free_status q))"

definition warp_drained :: "warp_queue \<Rightarrow> bool" where
  "warp_drained q \<longleftrightarrow> wq_submit_tail q = wq_completion_head q"

section \<open>Nothing is left behind\<close>

lemmas destroy_defs =
  direct_destroy_def direct_wait_def direct_request_stop_def direct_reset_def
  dynamic_destroy_def dynamic_wait_def dynamic_request_stop_def dynamic_reset_def
  static_destroy_def static_wait_def static_request_stop_def static_reset_def
  warp_destroy_def warp_wait_def warp_request_stop_def warp_reset_def

text \<open>Whatever state a queue is in, its destructor stops the kernel, waits for it and gives the memory back.\<close>

lemma destroy_releases:
  "direct_destroy synchronize free_status dq = new_direct_queue"
  "dynamic_destroy synchronize free_status sq = new_dynamic_queue"
  "static_destroy synchronize free_status pq = new_static_queue"
  "warp_destroy synchronize free_status wq = new_warp_queue"
  by (auto simp: destroy_defs Let_def)

end
