(* ===== verification/Copy_Pipeline.thy ===== *)
theory Copy_Pipeline
  imports Copy_Queues Warp_Copy
begin

unbundle bit_operations_syntax

text \<open>
  \<^verbatim>\<open>warp_specialized_pipeline_kernel\<close> of \<^verbatim>\<open>gpu/persistent_copy.cu\<close>, the kernel behind the copy backend, as a machine whose
  steps interleave: one ingress warp takes tasks from the host's ring, copy warps copy, one egress warp hands completions back. The host side is the
  queue of \<^verbatim>\<open>Copy_Queues\<close>, whose memory both sides map. Every step reads or writes shared state once, or performs one access of a lane;
  lanes of a warp step on their own between the points where the warp synchronises.

  A barrier is the number of phases it has completed, as every barrier here expects one arrival per phase;
  \<open>try_wait_parity\<close> is the documented test on the parity of that number. Counters are 64 bits wide. Loads and stores are sequentially
  consistent: what the release and acquire operations of the code order is ordered by the steps.
\<close>

section \<open>Shared memory\<close>

record 'a shared_slot =
  ss_content :: 'a
  ss_ready :: nat
  ss_consumed :: nat

definition try_wait_parity :: "nat \<Rightarrow> bool \<Rightarrow> bool" where
  "try_wait_parity completed_phases phase \<longleftrightarrow> odd completed_phases \<noteq> phase"

text \<open>Template and launch parameters.\<close>

record kernel_args =
  ka_depth :: u32
  ka_copy_warps :: u32
  ka_capacity_mask :: u64
  ka_stage_buffer_base :: u64

definition pipeline_slot :: "kernel_args \<Rightarrow> u64 \<Rightarrow> u64 \<Rightarrow> nat" where
  "pipeline_slot k owner local_index =
     unat (owner * ucast (ka_depth k) + (local_index AND (ucast (ka_depth k) - 1)))"

definition pipeline_phase :: "kernel_args \<Rightarrow> u64 \<Rightarrow> bool" where
  "pipeline_phase k local_index \<longleftrightarrow> (local_index div ucast (ka_depth k)) AND 1 \<noteq> 0"

definition index_slot :: "kernel_args \<Rightarrow> u64 \<Rightarrow> nat" where
  "index_slot k index = pipeline_slot k (index mod ucast (ka_copy_warps k)) (index div ucast (ka_copy_warps k))"

definition index_phase :: "kernel_args \<Rightarrow> u64 \<Rightarrow> bool" where
  "index_phase k index \<longleftrightarrow> pipeline_phase k (index div ucast (ka_copy_warps k))"

section \<open>Where each warp is\<close>

datatype lane_pc = Lane_wait | Lane_store | Lane_publish | Lane_arrive | Lane_done

datatype ingress_pc = In_poll | In_check_stop | In_recheck | In_transfer "lane_pc list" | In_pills "lane_pc list" | In_exited

datatype copier_pc =
    Await_task | Take_task | Consume_task copy_task | Copying copy_task "cg_access list list"
  | Await_completion copy_task | Store_completion copy_task | Publish_completion copy_task | Copier_exited

datatype egress_pc = Eg_poll | Eg_check_stop | Eg_recheck | Eg_collect "lane_pc list" | Eg_release "lane_pc list" | Eg_exited

text \<open>
  The last three fields record history and influence nothing: the tasks accepted from the host, the completions it polled, and
  the accesses performed.
\<close>

record pipeline =
  pl_queue :: warp_queue
  pl_memory :: memory
  pl_task_slots :: "nat \<Rightarrow> copy_task shared_slot"
  pl_completion_slots :: "nat \<Rightarrow> copy_completion shared_slot"
  pl_ingress :: ingress_pc
  pl_task_head :: u64
  pl_copiers :: "nat \<Rightarrow> copier_pc"
  pl_local_index :: "nat \<Rightarrow> u64"
  pl_egress :: egress_pc
  pl_completion_head :: u64
  pl_submitted :: "copy_task list"
  pl_polled :: "copy_completion list"
  pl_accesses :: "cg_access list"

definition mapped :: "pipeline \<Rightarrow> queue_memory" where
  "mapped s = the (wq_memory (pl_queue s))"

definition update_mapped :: "(queue_memory \<Rightarrow> queue_memory) \<Rightarrow> pipeline \<Rightarrow> pipeline" where
  "update_mapped f s = s\<lparr>pl_queue := (pl_queue s)\<lparr>wq_memory := Some (f (mapped s))\<rparr>\<rparr>"

text \<open>The state at the launch: every barrier in phase 0, nothing in the slots yet.\<close>

definition launch_pipeline :: "warp_queue \<Rightarrow> memory \<Rightarrow> pipeline" where
  "launch_pipeline q memory =
     \<lparr>pl_queue = q, pl_memory = memory,
      pl_task_slots = (\<lambda>_. \<lparr>ss_content = zero_task, ss_ready = 0, ss_consumed = 0\<rparr>),
      pl_completion_slots = (\<lambda>_. \<lparr>ss_content = zero_completion, ss_ready = 0, ss_consumed = 0\<rparr>),
      pl_ingress = In_poll, pl_task_head = 0, pl_copiers = (\<lambda>_. Await_task), pl_local_index = (\<lambda>_. 0),
      pl_egress = Eg_poll, pl_completion_head = 0, pl_submitted = [], pl_polled = [], pl_accesses = []\<rparr>"

definition launch_args :: "warp_queue \<Rightarrow> kernel_args" where
  "launch_args q = \<lparr>ka_depth = wq_shared_queue_depth q, ka_copy_warps = wq_copy_warps q, ka_capacity_mask = wq_capacity_mask q,
                    ka_stage_buffer_base = wq_stage_buffer_base q\<rparr>"

section \<open>The ingress warp\<close>

definition meta_batch :: "u64 \<Rightarrow> nat" where
  "meta_batch available = unat (if available < ucast kWarpSpecializedMetaBatch then available else ucast kWarpSpecializedMetaBatch)"

text \<open>Lane 0 up to the shuffles, and the end of a batch.\<close>

definition ingress_step :: "kernel_args \<Rightarrow> pipeline \<Rightarrow> pipeline option" where
  "ingress_step k s =
     (case pl_ingress s of
        In_poll \<Rightarrow>
          (let task_tail = qm_task_tail (mapped s)
           in if pl_task_head s < task_tail
              then Some (s\<lparr>pl_ingress := In_transfer (replicate (meta_batch (task_tail - pl_task_head s)) Lane_wait)\<rparr>)
              else Some (s\<lparr>pl_ingress := In_check_stop\<rparr>))
      | In_check_stop \<Rightarrow> Some (s\<lparr>pl_ingress := (if qm_stop_requested (mapped s) \<noteq> 0 then In_recheck else In_poll)\<rparr>)
      | In_recheck \<Rightarrow>
          Some (s\<lparr>pl_ingress := (if pl_task_head s \<ge> qm_task_tail (mapped s)
                                then In_pills (replicate (unat (ka_copy_warps k)) Lane_wait) else In_poll)\<rparr>)
      | In_transfer lanes \<Rightarrow>
          (if list_all (\<lambda>pc. pc = Lane_done) lanes
           then Some (s\<lparr>pl_ingress := In_poll, pl_task_head := pl_task_head s + of_nat (length lanes)\<rparr>) else None)
      | In_pills lanes \<Rightarrow> (if list_all (\<lambda>pc. pc = Lane_done) lanes then Some (s\<lparr>pl_ingress := In_exited\<rparr>) else None)
      | In_exited \<Rightarrow> None)"

text \<open>One lane: wait until the slot's previous task is consumed, store, arrive.\<close>

definition put_task :: "kernel_args \<Rightarrow> u64 \<Rightarrow> copy_task \<Rightarrow> lane_pc \<Rightarrow> pipeline \<Rightarrow> (lane_pc \<times> pipeline) option" where
  "put_task k index task pc s =
     (let slot = index_slot k index
      in case pc of
           Lane_wait \<Rightarrow>
             (if try_wait_parity (ss_consumed (pl_task_slots s slot)) (\<not> index_phase k index) then Some (Lane_store, s) else None)
         | Lane_store \<Rightarrow>
             Some (Lane_arrive, s\<lparr>pl_task_slots := (pl_task_slots s)(slot := (pl_task_slots s slot)\<lparr>ss_content := task\<rparr>)\<rparr>)
         | Lane_arrive \<Rightarrow>
             Some (Lane_done, s\<lparr>pl_task_slots := (pl_task_slots s)(slot := (pl_task_slots s slot)\<lparr>ss_ready := ss_ready (pl_task_slots s slot) + 1\<rparr>)\<rparr>)
         | _ \<Rightarrow> None)"

definition ingress_lane :: "kernel_args \<Rightarrow> nat \<Rightarrow> pipeline \<Rightarrow> pipeline option" where
  "ingress_lane k lane s =
     (let index = pl_task_head s + of_nat lane
      in case pl_ingress s of
           In_transfer lanes \<Rightarrow>
             (if lane < length lanes
              then map_option (\<lambda>(pc, s). s\<lparr>pl_ingress := In_transfer (lanes[lane := pc])\<rparr>)
                     (put_task k index (qm_task_slots (mapped s) ! unat (index AND ka_capacity_mask k)) (lanes ! lane) s)
              else None)
         | In_pills lanes \<Rightarrow>
             (if lane < length lanes
              then map_option (\<lambda>(pc, s). s\<lparr>pl_ingress := In_pills (lanes[lane := pc])\<rparr>) (put_task k index zero_task (lanes ! lane) s)
              else None)
         | _ \<Rightarrow> None)"

section \<open>A copy warp\<close>

text \<open>What the 32 lanes of the warp access for a task; undefined where a lane's copy would not end.\<close>

definition task_accesses :: "kernel_args \<Rightarrow> copy_task \<Rightarrow> cg_access list list option" where
  "task_accesses k task =
     those (map (\<lambda>lane. copy_cg_warp (ka_stage_buffer_base k + ucast (ct_relative_offset task)) (ct_target_address task)
                         (ct_length task) (of_nat lane)) [0..<32])"

definition copier_step :: "kernel_args \<Rightarrow> nat \<Rightarrow> pipeline \<Rightarrow> pipeline option" where
  "copier_step k owner s =
     (if \<not> owner < unat (ka_copy_warps k) then None
      else let local_index = pl_local_index s owner;
               slot = pipeline_slot k (of_nat owner) local_index;
               phase = pipeline_phase k local_index;
               go = (\<lambda>pc s. Some (s\<lparr>pl_copiers := (pl_copiers s)(owner := pc)\<rparr>))
           in case pl_copiers s owner of
                Await_task \<Rightarrow> (if try_wait_parity (ss_ready (pl_task_slots s slot)) phase then go Take_task s else None)
              | Take_task \<Rightarrow> go (Consume_task (ss_content (pl_task_slots s slot))) s
              | Consume_task task \<Rightarrow>
                  (let s = s\<lparr>pl_task_slots := (pl_task_slots s)(slot := (pl_task_slots s slot)\<lparr>ss_consumed := ss_consumed (pl_task_slots s slot) + 1\<rparr>)\<rparr>
                   in if ct_length task = 0 then go Copier_exited s
                      else case task_accesses k task of None \<Rightarrow> None | Some lanes \<Rightarrow> go (Copying task lanes) s)
              | Copying task lanes \<Rightarrow> (if list_all (\<lambda>as. as = []) lanes then go (Await_completion task) s else None)
              | Await_completion task \<Rightarrow>
                  (if try_wait_parity (ss_consumed (pl_completion_slots s slot)) (\<not> phase) then go (Store_completion task) s else None)
              | Store_completion task \<Rightarrow>
                  go (Publish_completion task)
                    (s\<lparr>pl_completion_slots := (pl_completion_slots s)(slot := (pl_completion_slots s slot)\<lparr>ss_content :=
                         \<lparr>cp_task_id = ct_task_id task, cp_result = Task_success\<rparr>\<rparr>)\<rparr>)
              | Publish_completion task \<Rightarrow>
                  go Await_task
                    (s\<lparr>pl_completion_slots := (pl_completion_slots s)(slot := (pl_completion_slots s slot)\<lparr>ss_ready := ss_ready (pl_completion_slots s slot) + 1\<rparr>),
                       pl_local_index := (pl_local_index s)(owner := local_index + 1)\<rparr>)
              | Copier_exited \<Rightarrow> None)"

text \<open>A lane performs its next access.\<close>

definition copier_lane :: "kernel_args \<Rightarrow> nat \<Rightarrow> nat \<Rightarrow> pipeline \<Rightarrow> pipeline option" where
  "copier_lane k owner lane s =
     (if \<not> owner < unat (ka_copy_warps k) then None
      else case pl_copiers s owner of
             Copying task lanes \<Rightarrow>
               (if lane < length lanes
                then case lanes ! lane of
                       [] \<Rightarrow> None
                     | a # as \<Rightarrow> Some (s\<lparr>pl_memory := copy_cg a (pl_memory s), pl_accesses := pl_accesses s @ [a],
                                        pl_copiers := (pl_copiers s)(owner := Copying task (lanes[lane := as]))\<rparr>)
                else None)
           | _ \<Rightarrow> None)"

section \<open>The egress warp\<close>

definition egress_step :: "kernel_args \<Rightarrow> pipeline \<Rightarrow> pipeline option" where
  "egress_step k s =
     (case pl_egress s of
        Eg_poll \<Rightarrow>
          (let task_tail = qm_task_tail (mapped s)
           in if pl_completion_head s < task_tail
              then Some (s\<lparr>pl_egress := Eg_collect (replicate (meta_batch (task_tail - pl_completion_head s)) Lane_wait)\<rparr>)
              else Some (s\<lparr>pl_egress := Eg_check_stop\<rparr>))
      | Eg_check_stop \<Rightarrow> Some (s\<lparr>pl_egress := (if qm_stop_requested (mapped s) \<noteq> 0 then Eg_recheck else Eg_poll)\<rparr>)
      | Eg_recheck \<Rightarrow>
          Some (s\<lparr>pl_egress := (if pl_completion_head s \<ge> qm_task_tail (mapped s) then Eg_exited else Eg_poll)\<rparr>)
      | Eg_collect lanes \<Rightarrow>
          (if list_all (\<lambda>pc. pc = Lane_done) lanes
           then Some (s\<lparr>pl_egress := Eg_release (Lane_publish # replicate (length lanes - 1) Lane_arrive)\<rparr>) else None)
      | Eg_release lanes \<Rightarrow>
          (if list_all (\<lambda>pc. pc = Lane_done) lanes
           then Some (s\<lparr>pl_egress := Eg_poll, pl_completion_head := pl_completion_head s + of_nat (length lanes)\<rparr>) else None)
      | Eg_exited \<Rightarrow> None)"

text \<open>
  Before the warp synchronises a lane waits for its completion and stores it in the host's ring; afterwards lane 0 publishes the
  batch, and every lane gives its slot back.
\<close>

definition egress_lane :: "kernel_args \<Rightarrow> nat \<Rightarrow> pipeline \<Rightarrow> pipeline option" where
  "egress_lane k lane s =
     (let index = pl_completion_head s + of_nat lane;
          slot = index_slot k index
      in case pl_egress s of
           Eg_collect lanes \<Rightarrow>
             (if lane < length lanes
              then case lanes ! lane of
                     Lane_wait \<Rightarrow>
                       (if try_wait_parity (ss_ready (pl_completion_slots s slot)) (index_phase k index)
                        then Some (s\<lparr>pl_egress := Eg_collect (lanes[lane := Lane_store])\<rparr>) else None)
                   | Lane_store \<Rightarrow>
                       Some (update_mapped (\<lambda>m. m\<lparr>qm_completion_slots :=
                           (qm_completion_slots m)[unat (index AND ka_capacity_mask k) :=
                             (qm_completion_slots m ! unat (index AND ka_capacity_mask k))\<lparr>cs_completion := ss_content (pl_completion_slots s slot)\<rparr>]\<rparr>)
                         (s\<lparr>pl_egress := Eg_collect (lanes[lane := Lane_done])\<rparr>))
                   | _ \<Rightarrow> None
              else None)
         | Eg_release lanes \<Rightarrow>
             (if lane < length lanes
              then case lanes ! lane of
                     Lane_publish \<Rightarrow>
                       Some (update_mapped (\<lambda>m. m\<lparr>qm_completion_tail := pl_completion_head s + of_nat (length lanes)\<rparr>)
                         (s\<lparr>pl_egress := Eg_release (lanes[lane := Lane_arrive])\<rparr>))
                   | Lane_arrive \<Rightarrow>
                       Some (s\<lparr>pl_egress := Eg_release (lanes[lane := Lane_done]),
                               pl_completion_slots := (pl_completion_slots s)(slot :=
                                 (pl_completion_slots s slot)\<lparr>ss_consumed := ss_consumed (pl_completion_slots s slot) + 1\<rparr>)\<rparr>)
                   | _ \<Rightarrow> None
              else None)
         | _ \<Rightarrow> None)"

section \<open>The host\<close>

definition host_submits :: "copy_task list \<Rightarrow> pipeline \<Rightarrow> pipeline" where
  "host_submits tasks s =
     (case warp_try_submit_batch tasks (pl_queue s) of (_, n, q) \<Rightarrow> s\<lparr>pl_queue := q, pl_submitted := pl_submitted s @ take n tasks\<rparr>)"

definition host_polls :: "pipeline \<Rightarrow> pipeline" where
  "host_polls s =
     (case warp_try_poll (pl_queue s) of (status, completion, q) \<Rightarrow>
        s\<lparr>pl_queue := q, pl_polled := (if status = 0 then pl_polled s @ [completion] else pl_polled s)\<rparr>)"

definition host_stops :: "pipeline \<Rightarrow> pipeline" where
  "host_stops s = s\<lparr>pl_queue := snd (warp_request_stop (pl_queue s))\<rparr>"

section \<open>Runs\<close>

datatype actor =
    Ingress | Ingress_lane nat | Copier nat | Copier_lane nat nat | Egress | Egress_lane nat
  | Submit "copy_task list" | Poll | Stop

definition pipeline_step :: "kernel_args \<Rightarrow> actor \<Rightarrow> pipeline \<Rightarrow> pipeline option" where
  "pipeline_step k actor s =
     (case actor of
        Ingress \<Rightarrow> ingress_step k s
      | Ingress_lane lane \<Rightarrow> ingress_lane k lane s
      | Copier owner \<Rightarrow> copier_step k owner s
      | Copier_lane owner lane \<Rightarrow> copier_lane k owner lane s
      | Egress \<Rightarrow> egress_step k s
      | Egress_lane lane \<Rightarrow> egress_lane k lane s
      | Submit tasks \<Rightarrow> Some (host_submits tasks s)
      | Poll \<Rightarrow> Some (host_polls s)
      | Stop \<Rightarrow> Some (host_stops s))"

fun run_pipeline :: "kernel_args \<Rightarrow> actor list \<Rightarrow> pipeline \<Rightarrow> pipeline option" where
  "run_pipeline k [] s = Some s"
| "run_pipeline k (actor # actors) s =
     (case pipeline_step k actor s of None \<Rightarrow> None | Some s' \<Rightarrow> run_pipeline k actors s')"

end
