(* ===== verification/Copy_Rings.thy ===== *)
theory Copy_Rings
  imports Copy_Queues
begin

unbundle bit_operations_syntax

text \<open>
  What the copy queues promise on the host side. Three of the four submit to one ring: the contract is a locale, each
  queue an interpretation of it. The slots between the host's counters are the tasks accepted and not yet polled,
  oldest first, also when the 64-bit counters wrap around. The sharded queue never fails to find a lane.
\<close>

section \<open>Slots of a ring\<close>

lemma power_of_two_dvd:
  fixes c :: u64
  assumes "is_power_of_two c"
  shows "unat c dvd 18446744073709551616" "0 < unat c"
proof -
  obtain k where "k < 64" "unat c = 2 ^ k" using word_power_of_two [of c] assms unfolding is_power_of_two_def by metis
  moreover have "(2 :: nat) ^ k dvd 2 ^ 64" using \<open>k < 64\<close> by (intro le_imp_power_dvd) simp
  ultimately show "unat c dvd 18446744073709551616" "0 < unat c" by simp_all
qed

lemma unat_and_pred:
  assumes "is_power_of_two c"
  shows "unat (x AND (c - 1)) = unat x mod unat c"
  using word_power_of_two [of c] assms unat_and_mask unfolding is_power_of_two_def by metis

lemma ring_slot:
  assumes "is_power_of_two c"
  shows "unat ((x + of_nat i) AND (c - 1)) = (unat x + i) mod unat c"
proof -
  have "unat (x + of_nat i) = (unat x + i mod 18446744073709551616) mod 18446744073709551616"
    by (simp add: unat_word_ariths unat_of_nat take_bit_eq_mod)
  then have "unat (x + of_nat i) mod unat c = (unat x + i) mod unat c"
    using power_of_two_dvd(1) [OF assms] by (simp add: mod_simps mod_mod_cancel)
  then show ?thesis using unat_and_pred [OF assms] by simp
qed

lemma ring_slot_inj:
  assumes "i < c" "j < c" "(h + i) mod c = (h + j) mod (c :: nat)"
  shows "i = j"
proof -
  have *: "b = a" if "a \<le> b" "b < c" "(h + a) mod c = (h + b) mod c" for a b
  proof -
    have "c dvd (h + b) - (h + a)" using that mod_eq_dvd_iff_nat [of "h + a" "h + b" c] by simp
    then show ?thesis using that by (auto dest: dvd_imp_le)
  qed
  show ?thesis using *[of i j] *[of j i] assms by (metis nat_le_linear)
qed

text \<open>In a window no longer than the ring every slot belongs to one index.\<close>

lemma window_slot:
  assumes "p \<le> i" "i < p + c" "p \<le> j" "j < p + c" "i mod c = j mod (c :: nat)"
  shows "i = j"
proof -
  have "i - p = j - p" using ring_slot_inj [of "i - p" c "j - p" p] assms by simp
  then show ?thesis using assms by linarith
qed

lemma store_tasks_length [simp]: "length (store_tasks m t ts slots) = length slots"
  by (induction ts arbitrary: t slots) simp_all

lemma store_tasks_other:
  assumes "is_power_of_two c" "length slots = unat c"
    and "\<And>k. k < length ts \<Longrightarrow> (unat t + k) mod unat c \<noteq> j"
  shows "store_tasks (c - 1) t ts slots ! j = slots ! j"
  using assms(2,3)
proof (induction ts arbitrary: t slots)
  case (Cons x ts)
  have "(unat (t + 1) + k) mod unat c \<noteq> j" if "k < length ts" for k
  proof -
    have "(unat (t + 1) + k) mod unat c = (unat t + Suc k) mod unat c"
      using ring_slot [OF assms(1), of "t + 1" k] ring_slot [OF assms(1), of t "Suc k"] by (simp add: algebra_simps)
    then show ?thesis using Cons.prems(2) [of "Suc k"] that by simp
  qed
  then have "store_tasks (c - 1) (t + 1) ts (slots[unat (t AND (c - 1)) := x]) ! j = slots[unat (t AND (c - 1)) := x] ! j"
    using Cons.IH [of "slots[unat (t AND (c - 1)) := x]" "t + 1"] Cons.prems(1) by simp
  moreover have "unat (t AND (c - 1)) \<noteq> j" using Cons.prems(2) [of 0] unat_and_pred [OF assms(1), of t] by simp
  ultimately show ?case by simp
qed simp

lemma store_tasks_stored:
  assumes c: "is_power_of_two c" and "length slots = unat c" "length ts \<le> unat c" "k < length ts"
  shows "store_tasks (c - 1) t ts slots ! ((unat t + k) mod unat c) = ts ! k"
  using assms(2-)
proof (induction ts arbitrary: t slots k)
  case (Cons x ts)
  let ?s = "slots[unat (t AND (c - 1)) := x]"
  have next_slot: "(unat (t + 1) + j) mod unat c = (unat t + Suc j) mod unat c" for j
    using ring_slot [OF c, of "t + 1" j] ring_slot [OF c, of t "Suc j"] by (simp add: algebra_simps)
  show ?case
  proof (cases k)
    case 0
    have "(unat (t + 1) + j) mod unat c \<noteq> unat t mod unat c" if "j < length ts" for j
      using next_slot [of j] ring_slot_inj [of "Suc j" "unat c" 0 "unat t"] that Cons.prems(2) by auto
    then have "store_tasks (c - 1) (t + 1) ts ?s ! (unat t mod unat c) = ?s ! (unat t mod unat c)"
      using Cons.prems(1) by (intro store_tasks_other [OF c]) auto
    also have "\<dots> = x" using unat_and_pred [OF c, of t] power_of_two_dvd(2) [OF c] Cons.prems(1) by simp
    finally show ?thesis using 0 by simp
  next
    case (Suc j)
    then show ?thesis using Cons.IH [of ?s j "t + 1"] Cons.prems next_slot [of j] by simp
  qed
qed simp

section \<open>A ring as a queue of tasks\<close>

text \<open>The tasks between the two counters of the host, oldest first.\<close>

definition ring_holds :: "u64 \<Rightarrow> u64 \<Rightarrow> u64 \<Rightarrow> copy_task list \<Rightarrow> copy_task list \<Rightarrow> bool" where
  "ring_holds capacity head_index tail_index slots pending \<longleftrightarrow>
     is_power_of_two capacity \<and> length slots = unat capacity \<and> length pending \<le> unat capacity \<and>
     tail_index = head_index + of_nat (length pending) \<and>
     (\<forall>i < length pending. slots ! ((unat head_index + i) mod unat capacity) = pending ! i)"

definition well_formed_task :: "copy_task \<Rightarrow> bool" where
  "well_formed_task task \<longleftrightarrow> ct_target_address task \<noteq> 0 \<and> ct_length task \<noteq> 0"

lemma ring_holdsD:
  assumes "ring_holds c h t slots pending"
  shows "is_power_of_two c" "length slots = unat c" "length pending \<le> unat c" "t = h + of_nat (length pending)"
    "i < length pending \<Longrightarrow> slots ! ((unat h + i) mod unat c) = pending ! i" "unat (t - h) = length pending"
proof -
  show "is_power_of_two c" "length slots = unat c" "length pending \<le> unat c" "t = h + of_nat (length pending)"
    "i < length pending \<Longrightarrow> slots ! ((unat h + i) mod unat c) = pending ! i"
    using assms unfolding ring_holds_def by blast+
  then show "unat (t - h) = length pending" using unat_u64_bound [of c] by (simp add: unat_of_nat_u64)
qed

lemma ring_holds_store:
  assumes "ring_holds c h t slots pending" "length pending + length batch \<le> unat c"
  shows "ring_holds c h (t + of_nat (length batch)) (store_tasks (c - 1) t batch slots) (pending @ batch)"
proof -
  note R = ring_holdsD [OF assms(1)]
  have t: "(unat t + k) mod unat c = (unat h + (length pending + k)) mod unat c" for k
    using ring_slot [OF R(1), of t k] ring_slot [OF R(1), of h "length pending + k"] R(4) by (simp add: algebra_simps)
  have "store_tasks (c - 1) t batch slots ! ((unat h + i) mod unat c) = (pending @ batch) ! i" if "i < length (pending @ batch)" for i
  proof (cases "i < length pending")
    case True
    have "(unat t + k) mod unat c \<noteq> (unat h + i) mod unat c" if "k < length batch" for k
      using t [of k] ring_slot_inj [of "length pending + k" "unat c" i "unat h"] that True assms(2) by auto
    then have "store_tasks (c - 1) t batch slots ! ((unat h + i) mod unat c) = slots ! ((unat h + i) mod unat c)"
      by (intro store_tasks_other [OF R(1,2)])
    then show ?thesis using R(5) True by (simp add: nth_append)
  next
    case False
    then have "(unat t + (i - length pending)) mod unat c = (unat h + i) mod unat c" using t [of "i - length pending"] by simp
    moreover have "i - length pending < length batch" using False that by simp
    ultimately show ?thesis
      using store_tasks_stored [OF R(1,2), of batch "i - length pending" t] assms(2) False by (simp add: nth_append)
  qed
  then show ?thesis using R(1,2,4) assms(2) unfolding ring_holds_def by simp
qed

lemma ring_holds_poll:
  assumes "ring_holds c h t slots (task # pending)"
  shows "ring_holds c (h + 1) t slots pending"
proof -
  note R = ring_holdsD [OF assms]
  have "(unat (h + 1) + i) mod unat c = (unat h + Suc i) mod unat c" for i
    using ring_slot [OF R(1), of "h + 1" i] ring_slot [OF R(1), of h "Suc i"] by (simp add: algebra_simps)
  then have "slots ! ((unat (h + 1) + i) mod unat c) = pending ! i" if "i < length pending" for i
    using R(5) [of "Suc i"] that by simp
  then show ?thesis using R unfolding ring_holds_def by (simp add: algebra_simps)
qed

lemma accepted_prefix_holds:
  assumes "ring_holds c h t slots pending"
  shows "accepted_prefix c (t - h) tasks =
    (let batch = take (unat c - length pending) tasks
     in if length pending = unat c then Inl EAGAIN else if list_all well_formed_task batch then Inr batch else Inl EINVAL)"
proof -
  note R = ring_holdsD [OF assms]
  have full: "t - h \<ge> c \<longleftrightarrow> length pending = unat c" using R(3,6) by (simp add: word_le_nat_alt) linarith
  have "unat (c - (t - h)) = unat c - length pending" if "\<not> t - h \<ge> c"
    using that R(6) by (simp add: unat_sub word_less_nat_alt not_le word_le_nat_alt)
  moreover have "take (if length tasks < n then length tasks else n) tasks = take n tasks" for n by simp
  ultimately show ?thesis
    by (simp add: accepted_prefix_def full Let_def list_all_iff well_formed_task_def)
qed

section \<open>The contract of a submission\<close>

locale task_ring =
  fixes submit_batch :: "copy_task list \<Rightarrow> 'q \<Rightarrow> int \<times> nat \<times> 'q"
    and open_queue :: "'q \<Rightarrow> bool"
    and capacity mask_of head_of tail_of :: "'q \<Rightarrow> u64"
    and slots_of :: "'q \<Rightarrow> copy_task list"
  assumes refuse: "\<not> open_queue q \<or> tasks = [] \<Longrightarrow> submit_batch tasks q = (EINVAL, 0, q)"
    and deny: "open_queue q \<Longrightarrow> tasks \<noteq> [] \<Longrightarrow> accepted_prefix (capacity q) (tail_of q - head_of q) tasks = Inl status \<Longrightarrow>
      submit_batch tasks q = (status, 0, q)"
    and accept: "open_queue q \<Longrightarrow> tasks \<noteq> [] \<Longrightarrow> accepted_prefix (capacity q) (tail_of q - head_of q) tasks = Inr batch \<Longrightarrow>
      \<exists>q'. submit_batch tasks q = (OK, length batch, q') \<and> open_queue q' \<and> capacity q' = capacity q \<and> mask_of q' = mask_of q \<and> head_of q' = head_of q \<and>
        tail_of q' = tail_of q + of_nat (length batch) \<and> slots_of q' = store_tasks (mask_of q) (tail_of q) batch (slots_of q)"
begin

definition holds :: "'q \<Rightarrow> copy_task list \<Rightarrow> bool" where
  "holds q pending \<longleftrightarrow> open_queue q \<and> mask_of q = capacity q - 1 \<and> ring_holds (capacity q) (head_of q) (tail_of q) (slots_of q) pending"

lemma submit_full:
  assumes "holds q pending" "length pending = unat (capacity q)" "tasks \<noteq> []"
  shows "submit_batch tasks q = (EAGAIN, 0, q)"
  using deny [of q tasks EAGAIN] accepted_prefix_holds [of "capacity q" "head_of q" "tail_of q" "slots_of q" pending tasks] assms
  unfolding holds_def by simp

lemma submit_malformed:
  assumes "holds q pending" "length pending \<noteq> unat (capacity q)" "tasks \<noteq> []"
    and "\<not> list_all well_formed_task (take (unat (capacity q) - length pending) tasks)"
  shows "submit_batch tasks q = (EINVAL, 0, q)"
  using deny [of q tasks EINVAL] accepted_prefix_holds [of "capacity q" "head_of q" "tail_of q" "slots_of q" pending tasks] assms
  unfolding holds_def by simp

lemma submit_accepts:
  assumes "holds q pending" "length pending \<noteq> unat (capacity q)" "tasks \<noteq> []"
    and "list_all well_formed_task (take (unat (capacity q) - length pending) tasks)"
  obtains q' where "submit_batch tasks q = (OK, min (length tasks) (unat (capacity q) - length pending), q')"
    "holds q' (pending @ take (unat (capacity q) - length pending) tasks)" "capacity q' = capacity q" "head_of q' = head_of q"
proof -
  let ?batch = "take (unat (capacity q) - length pending) tasks"
  have r: "open_queue q" "ring_holds (capacity q) (head_of q) (tail_of q) (slots_of q) pending" "mask_of q = capacity q - 1" using assms(1) unfolding holds_def by blast+
  have "accepted_prefix (capacity q) (tail_of q - head_of q) tasks = Inr ?batch"
    using accepted_prefix_holds [OF r(2), of tasks] assms(2,4) by simp
  then obtain q' where q': "submit_batch tasks q = (OK, length ?batch, q')" "open_queue q'" "capacity q' = capacity q"
      "mask_of q' = mask_of q" "head_of q' = head_of q" "tail_of q' = tail_of q + of_nat (length ?batch)"
      "slots_of q' = store_tasks (mask_of q) (tail_of q) ?batch (slots_of q)"
    using accept [OF r(1) assms(3)] by blast
  have "length pending + length ?batch \<le> unat (capacity q)" using ring_holdsD(3) [OF r(2)] by simp
  then have "holds q' (pending @ ?batch)"
    using ring_holds_store [OF r(2), of ?batch] q' r(3) unfolding holds_def by simp
  then show ?thesis using q'(1,3,5) by (intro that [of q']) simp_all
qed

end


abbreviation (input) direct_open :: "direct_queue \<Rightarrow> bool" where
  "direct_open q \<equiv> da_memory q \<noteq> None \<and> da_running q \<and> da_accepting q"

abbreviation (input) static_open :: "static_queue \<Rightarrow> bool" where
  "static_open q \<equiv> sp_memory q \<noteq> None \<and> sp_running q \<and> sp_accepting q"

abbreviation (input) warp_open :: "warp_queue \<Rightarrow> bool" where
  "warp_open q \<equiv> wq_memory q \<noteq> None \<and> wq_running q \<and> wq_accepting q"

interpretation direct_ring: task_ring direct_try_submit_batch "\<lambda>q. direct_open q" da_capacity da_capacity_mask da_completion_head
  da_submit_tail "\<lambda>q. qm_task_slots (the (da_memory q))"
  by unfold_locales (auto simp: direct_try_submit_batch_def Let_def split: option.split)

interpretation static_ring: task_ring static_try_submit_batch "\<lambda>q. static_open q" sp_capacity sp_capacity_mask sp_completion_head
  sp_submit_tail "\<lambda>q. qm_task_slots (the (sp_memory q))"
  by unfold_locales (auto simp: static_try_submit_batch_def Let_def split: option.split)

interpretation warp_ring: task_ring warp_try_submit_batch "\<lambda>q. warp_open q" wq_capacity wq_capacity_mask wq_completion_head
  wq_submit_tail "\<lambda>q. qm_task_slots (the (wq_memory q))"
  by unfold_locales (auto simp: warp_try_submit_batch_def Let_def split: option.split)

end
