(* ===== verification/Copy_Channels.thy ===== *)
theory Copy_Channels
  imports Copy_Pipeline Copy_Rings
begin

unbundle bit_operations_syntax

text \<open>
  A bank of shared slots as a channel. Index \<open>i\<close> uses the slot of owner \<open>i mod w\<close> at position \<open>(i div w) mod d\<close>, in round \<open>i div w div d\<close>. The
  channel is sound when the barriers count exactly the indices that arrived and were consumed, no slot is filled again before
  it is consumed, and a filled slot holds the value of its index. The waits of the kernel look at one parity bit; here
  it is shown that the bit is enough.
\<close>

section \<open>Slots and rounds\<close>

definition slot_at :: "nat \<Rightarrow> nat \<Rightarrow> nat \<Rightarrow> nat" where
  "slot_at d w i = (i mod w) * d + (i div w) mod d"

definition round_at :: "nat \<Rightarrow> nat \<Rightarrow> nat \<Rightarrow> nat" where
  "round_at d w i = i div w div d"

lemma slot_at_lt:
  assumes "0 < d" "0 < w"
  shows "slot_at d w i < w * d"
proof -
  have "Suc (i mod w) * d \<le> w * d" using assms by (intro mult_le_mono1) (simp add: Suc_leI)
  then show ?thesis using mod_less_divisor [OF assms(1), of "i div w"] by (simp add: slot_at_def)
qed

lemma slot_atD:
  assumes "0 < d" "slot_at d w i = slot_at d w j"
  shows "i mod w = j mod w" "i div w mod d = j div w mod d"
proof -
  have "i mod w = slot_at d w i div d" "i div w mod d = slot_at d w i mod d" for i using assms(1) by (simp_all add: slot_at_def)
  then show "i mod w = j mod w" "i div w mod d = j div w mod d" using assms(2) by simp_all
qed

lemma slot_round_inj:
  assumes "0 < d" "slot_at d w i = slot_at d w j" "round_at d w i = round_at d w j"
  shows "i = j"
proof -
  have "i div w = j div w" using slot_atD(2) [OF assms(1,2)] assms(3) unfolding round_at_def by (metis div_mult_mod_eq)
  then show ?thesis using slot_atD(1) [OF assms(1,2)] by (metis div_mult_mod_eq)
qed

lemma round_mono: "i \<le> j \<Longrightarrow> round_at d w i \<le> round_at d w j"
  by (simp add: round_at_def div_le_mono)

lemma round_next: "0 < d \<Longrightarrow> 0 < w \<Longrightarrow> round_at d w (i + w * d) = round_at d w i + 1"
  using div_add_self1 [of d "i div w"] by (simp add: round_at_def)

lemma slot_next: "0 < w \<Longrightarrow> slot_at d w (i + w * d) = slot_at d w i"
  by (simp add: slot_at_def)

lemma round_0: "0 < d \<Longrightarrow> 0 < w \<Longrightarrow> round_at d w i = 0 \<longleftrightarrow> i < w * d"
  by (simp add: round_at_def div_mult2_eq [symmetric] div_eq_0_iff mult.commute)

lemma round_back:
  assumes "0 < d" "0 < w" "w * d \<le> i"
  shows "round_at d w i = round_at d w (i - w * d) + 1" "slot_at d w (i - w * d) = slot_at d w i"
  using round_next [OF assms(1,2), of "i - w * d"] slot_next [OF assms(2), of d "i - w * d"] assms(3) by simp_all

section \<open>Sound channels\<close>

definition channel :: "nat \<Rightarrow> nat \<Rightarrow> (nat \<Rightarrow> bool) \<Rightarrow> (nat \<Rightarrow> bool) \<Rightarrow> (nat \<Rightarrow> 'a) \<Rightarrow> (nat \<Rightarrow> 'a shared_slot) \<Rightarrow> bool" where
  "channel d w arrived consumed value slots \<longleftrightarrow>
     (\<forall>i. arrived i \<longleftrightarrow> round_at d w i < ss_ready (slots (slot_at d w i))) \<and>
     (\<forall>i. consumed i \<longleftrightarrow> round_at d w i < ss_consumed (slots (slot_at d w i))) \<and>
     (\<forall>i. consumed i \<longrightarrow> arrived i) \<and>
     (\<forall>i. arrived (i + w * d) \<longrightarrow> consumed i) \<and>
     (\<forall>i. arrived i \<and> \<not> consumed i \<longrightarrow> ss_content (slots (slot_at d w i)) = value i)"

lemma channelD:
  assumes "channel d w arrived consumed value slots"
  shows "arrived i \<longleftrightarrow> round_at d w i < ss_ready (slots (slot_at d w i))"
    "consumed i \<longleftrightarrow> round_at d w i < ss_consumed (slots (slot_at d w i))"
    "consumed i \<Longrightarrow> arrived i" "arrived (i + w * d) \<Longrightarrow> consumed i"
    "arrived i \<Longrightarrow> \<not> consumed i \<Longrightarrow> ss_content (slots (slot_at d w i)) = value i"
  using assms unfolding channel_def by blast+

lemma channelI:
  assumes "\<And>i. arrived i \<longleftrightarrow> round_at d w i < ss_ready (slots (slot_at d w i))"
    "\<And>i. consumed i \<longleftrightarrow> round_at d w i < ss_consumed (slots (slot_at d w i))"
    "\<And>i. consumed i \<Longrightarrow> arrived i" "\<And>i. arrived (i + w * d) \<Longrightarrow> consumed i"
    "\<And>i. arrived i \<Longrightarrow> \<not> consumed i \<Longrightarrow> ss_content (slots (slot_at d w i)) = value i"
  shows "channel d w arrived consumed value slots"
  using assms unfolding channel_def by blast

lemma channel_empty: "channel d w (\<lambda>_. False) (\<lambda>_. False) value (\<lambda>_. \<lparr>ss_content = x, ss_ready = 0, ss_consumed = 0\<rparr>)"
  by (simp add: channel_def)

lemma channel_value_cong:
  assumes "channel d w arrived consumed value slots" "\<And>i. arrived i \<Longrightarrow> value' i = value i"
  shows "channel d w arrived consumed value' slots"
  using assms unfolding channel_def by metis

text \<open>How far the two barriers of a slot are apart when its next producer or consumer looks.\<close>

lemma producer_counts:
  assumes dw: "0 < d" "0 < w" and ch: "channel d w arrived consumed value slots"
    and i: "\<not> arrived i" "w * d \<le> i \<Longrightarrow> arrived (i - w * d)"
  shows "ss_ready (slots (slot_at d w i)) = round_at d w i"
    "ss_consumed (slots (slot_at d w i)) = round_at d w i \<or> ss_consumed (slots (slot_at d w i)) + 1 = round_at d w i"
    "ss_consumed (slots (slot_at d w i)) = round_at d w i \<longleftrightarrow> (w * d \<le> i \<longrightarrow> consumed (i - w * d))"
proof -
  let ?R = "ss_ready (slots (slot_at d w i))" and ?C = "ss_consumed (slots (slot_at d w i))" and ?r = "round_at d w i"
  note D = channelD [OF ch]
  have le: "?R \<le> ?r" using i(1) D(1) [of i] by simp
  have nc: "?C \<le> ?r" using i(1) D(2) [of i] D(3) [of i] by auto
  have both: "?R = ?r \<and> (?C = ?r \<or> ?C + 1 = ?r) \<and> (?C = ?r \<longleftrightarrow> (w * d \<le> i \<longrightarrow> consumed (i - w * d)))"
  proof (cases "w * d \<le> i")
    case False
    then have "?r = 0" using round_0 [OF dw] by simp
    then show ?thesis using le nc False by simp
  next
    case True
    note b = round_back [OF dw True]
    have "?R = ?r" using le i(2) [OF True] D(1) [of "i - w * d"] b by simp
    moreover have "consumed (i - w * d) \<longleftrightarrow> ?C = ?r" using D(2) [of "i - w * d"] b nc by auto
    moreover have "?C = ?r \<or> ?C + 1 = ?r"
    proof (cases "w * d \<le> i - w * d")
      case True2: True
      have "consumed (i - w * d - w * d)" using D(4) [of "i - w * d - w * d"] i(2) [OF True] True2 by simp
      then show ?thesis using D(2) [of "i - w * d - w * d"] round_back [OF dw True2] b nc by auto
    next
      case False
      then have "round_at d w (i - w * d) = 0" using round_0 [OF dw] by simp
      then show ?thesis using b(1) nc by auto
    qed
    ultimately show ?thesis using True by blast
  qed
  then show "?R = ?r" "?C = ?r \<or> ?C + 1 = ?r" "?C = ?r \<longleftrightarrow> (w * d \<le> i \<longrightarrow> consumed (i - w * d))" by blast+
qed

lemma consumer_counts:
  assumes dw: "0 < d" "0 < w" and ch: "channel d w arrived consumed value slots"
    and i: "\<not> consumed i" "w * d \<le> i \<Longrightarrow> consumed (i - w * d)"
  shows "ss_consumed (slots (slot_at d w i)) = round_at d w i"
    "ss_ready (slots (slot_at d w i)) = round_at d w i \<or> ss_ready (slots (slot_at d w i)) = round_at d w i + 1"
    "ss_ready (slots (slot_at d w i)) = round_at d w i + 1 \<longleftrightarrow> arrived i"
proof -
  let ?R = "ss_ready (slots (slot_at d w i))" and ?C = "ss_consumed (slots (slot_at d w i))" and ?r = "round_at d w i"
  note D = channelD [OF ch]
  have "?C \<le> ?r" using i(1) D(2) [of i] by simp
  moreover have "?r \<le> ?C \<and> ?r \<le> ?R"
  proof (cases "w * d \<le> i")
    case True
    note b = round_back [OF dw True]
    show ?thesis using i(2) [OF True] D(1,2) [of "i - w * d"] D(3) [of "i - w * d"] b by simp
  next
    case False
    then have "round_at d w i = 0" using round_0 [OF dw] by simp
    then show ?thesis by simp
  qed
  moreover have "?R \<le> ?r + 1"
    using D(4) [of i] D(1) [of "i + w * d"] i(1) round_next [OF dw, of i] slot_next [OF dw(2), of d i] by auto
  moreover have "?r < ?R \<longleftrightarrow> arrived i" using D(1) [of i] by simp
  ultimately show "?C = ?r" "?R = ?r \<or> ?R = ?r + 1" "?R = ?r + 1 \<longleftrightarrow> arrived i" by linarith+
qed

text \<open>The waits.\<close>

lemma producer_wait:
  assumes "0 < d" "0 < w" "channel d w arrived consumed value slots"
    and "\<not> arrived i" "w * d \<le> i \<Longrightarrow> arrived (i - w * d)"
  shows "try_wait_parity (ss_consumed (slots (slot_at d w i))) (\<not> odd (round_at d w i)) \<longleftrightarrow> (w * d \<le> i \<longrightarrow> consumed (i - w * d))"
  using producer_counts [OF assms] unfolding try_wait_parity_def by (metis even_Suc Suc_eq_plus1)

lemma consumer_wait:
  assumes "0 < d" "0 < w" "channel d w arrived consumed value slots"
    and "\<not> consumed i" "w * d \<le> i \<Longrightarrow> consumed (i - w * d)"
  shows "try_wait_parity (ss_ready (slots (slot_at d w i))) (odd (round_at d w i)) \<longleftrightarrow> arrived i"
  using consumer_counts [OF assms] unfolding try_wait_parity_def by (metis even_Suc Suc_eq_plus1)

text \<open>Storing into a slot whose previous value is consumed, arriving, consuming.\<close>

lemma channel_store:
  assumes dw: "0 < d" "0 < w" and ch: "channel d w arrived consumed value slots"
    and i: "\<not> arrived i" "w * d \<le> i \<Longrightarrow> consumed (i - w * d)"
  shows "channel d w arrived consumed value (slots(slot_at d w i := (slots (slot_at d w i))\<lparr>ss_content := x\<rparr>))"
proof -
  note D = channelD [OF ch]
  have free: "slot_at d w j \<noteq> slot_at d w i" if "arrived j" "\<not> consumed j" for j
  proof
    assume s: "slot_at d w j = slot_at d w i"
    have "round_at d w j < round_at d w i" using D(1) [of j] D(1) [of i] that(1) i(1) s by simp
    then have wd: "w * d \<le> i" using round_0 [OF dw, of i] by (auto simp: not_less)
    note b = round_back [OF dw wd]
    have "round_at d w (i - w * d) < ss_consumed (slots (slot_at d w i))" using i(2) [OF wd] D(2) [of "i - w * d"] b(2) by simp
    then have "consumed j" using D(2) [of j] s b(1) \<open>round_at d w j < round_at d w i\<close> by simp
    then show False using that(2) by blast
  qed
  show ?thesis
  proof (rule channelI)
    fix j
    show "arrived j \<longleftrightarrow> round_at d w j < ss_ready ((slots(slot_at d w i := (slots (slot_at d w i))\<lparr>ss_content := x\<rparr>)) (slot_at d w j))"
      using D(1) [of j] by simp
    show "consumed j \<longleftrightarrow> round_at d w j < ss_consumed ((slots(slot_at d w i := (slots (slot_at d w i))\<lparr>ss_content := x\<rparr>)) (slot_at d w j))"
      using D(2) [of j] by simp
  qed (use D(3-5) free in auto)
qed

lemma channel_arrive:
  assumes dw: "0 < d" "0 < w" and ch: "channel d w arrived consumed value slots"
    and i: "\<not> arrived i" "w * d \<le> i \<Longrightarrow> arrived (i - w * d)" "w * d \<le> i \<Longrightarrow> consumed (i - w * d)"
    and val: "ss_content (slots (slot_at d w i)) = value i"
    and arrived': "\<And>j. arrived' j \<longleftrightarrow> arrived j \<or> j = i"
  shows "channel d w arrived' consumed value
    (slots(slot_at d w i := (slots (slot_at d w i))\<lparr>ss_ready := ss_ready (slots (slot_at d w i)) + 1\<rparr>))"
proof -
  note D = channelD [OF ch]
  let ?slots = "slots(slot_at d w i := (slots (slot_at d w i))\<lparr>ss_ready := ss_ready (slots (slot_at d w i)) + 1\<rparr>)"
  have R: "ss_ready (slots (slot_at d w i)) = round_at d w i" using producer_counts [OF dw ch i(1,2)] by blast
  have A1: "arrived' j \<longleftrightarrow> round_at d w j < ss_ready (?slots (slot_at d w j))" for j
  proof (cases "slot_at d w j = slot_at d w i")
    case True
    then have "arrived j \<longleftrightarrow> round_at d w j < round_at d w i" using D(1) [of j] R by simp
    moreover have "j = i \<longleftrightarrow> round_at d w j = round_at d w i" using slot_round_inj [OF dw(1) True] by blast
    ultimately show ?thesis using True R arrived' [of j] by auto
  next
    case False
    then show ?thesis using D(1) [of j] arrived' [of j] by auto
  qed
  have A2: "consumed j \<longleftrightarrow> round_at d w j < ss_consumed (?slots (slot_at d w j))" for j using D(2) [of j] by simp
  have A3: "consumed j \<Longrightarrow> arrived' j" for j using D(3) [of j] arrived' [of j] by blast
  have A4: "arrived' (j + w * d) \<Longrightarrow> consumed j" for j using arrived' D(4) [of j] i(3) by auto
  have A5: "ss_content (?slots (slot_at d w j)) = value j" if "arrived' j" "\<not> consumed j" for j
    using that arrived' [of j] D(5) [of j] val by auto
  show ?thesis by (rule channelI [OF A1 A2 A3 A4 A5])
qed

lemma channel_consume:
  assumes dw: "0 < d" "0 < w" and ch: "channel d w arrived consumed value slots"
    and i: "arrived i" "\<not> consumed i" and consumed': "\<And>j. consumed' j \<longleftrightarrow> consumed j \<or> j = i"
  shows "channel d w arrived consumed' value
    (slots(slot_at d w i := (slots (slot_at d w i))\<lparr>ss_consumed := ss_consumed (slots (slot_at d w i)) + 1\<rparr>))"
proof -
  note D = channelD [OF ch]
  let ?slots = "slots(slot_at d w i := (slots (slot_at d w i))\<lparr>ss_consumed := ss_consumed (slots (slot_at d w i)) + 1\<rparr>)"
  have "consumed (i - w * d)" if "w * d \<le> i" using D(4) [of "i - w * d"] i(1) that by simp
  then have C: "ss_consumed (slots (slot_at d w i)) = round_at d w i" using consumer_counts(1) [OF dw ch i(2)] by blast
  have A2: "consumed' j \<longleftrightarrow> round_at d w j < ss_consumed (?slots (slot_at d w j))" for j
  proof (cases "slot_at d w j = slot_at d w i")
    case True
    then have "consumed j \<longleftrightarrow> round_at d w j < round_at d w i" using D(2) [of j] C by simp
    moreover have "j = i \<longleftrightarrow> round_at d w j = round_at d w i" using slot_round_inj [OF dw(1) True] by blast
    ultimately show ?thesis using True C consumed' [of j] by auto
  next
    case False
    then show ?thesis using D(2) [of j] consumed' [of j] by auto
  qed
  have A1: "arrived j \<longleftrightarrow> round_at d w j < ss_ready (?slots (slot_at d w j))" for j using D(1) [of j] by simp
  have A3: "consumed' j \<Longrightarrow> arrived j" for j using D(3) [of j] consumed' [of j] i(1) by blast
  have A4: "arrived (j + w * d) \<Longrightarrow> consumed' j" for j using D(4) [of j] consumed' [of j] by blast
  have A5: "ss_content (?slots (slot_at d w j)) = value j" if "arrived j" "\<not> consumed' j" for j
    using that consumed' [of j] D(5) [of j] by auto
  show ?thesis by (rule channelI [OF A1 A2 A3 A4 A5])
qed

section \<open>The indices the kernel computes\<close>

definition args_ok :: "kernel_args \<Rightarrow> bool" where
  "args_ok k \<longleftrightarrow> is_power_of_two (ucast (ka_depth k)) \<and> unat (ka_depth k) \<le> 16 \<and> 0 < unat (ka_copy_warps k) \<and>
     unat (ka_copy_warps k) \<le> 30 \<and> 32 \<le> unat (ka_copy_warps k) * unat (ka_depth k)"

lemma args_okD:
  assumes "args_ok k"
  shows "0 < unat (ka_depth k)" "0 < unat (ka_copy_warps k)" "unat (ka_copy_warps k) \<le> 30" "unat (ka_depth k) \<le> 16"
    "32 \<le> unat (ka_copy_warps k) * unat (ka_depth k)"
  using assms power_of_two_dvd(2) [of "ucast (ka_depth k)"] unfolding args_ok_def by simp_all

lemma pipeline_slot_value:
  assumes "args_ok k" "owner < unat (ka_copy_warps k)"
  shows "pipeline_slot k (of_nat owner) l = owner * unat (ka_depth k) + unat l mod unat (ka_depth k)"
proof -
  let ?d = "unat (ka_depth k)"
  note K = args_okD [OF assms(1)]
  have p: "is_power_of_two (ucast (ka_depth k))" using assms(1) unfolding args_ok_def by blast
  have m: "unat (l AND (ucast (ka_depth k) - 1)) = unat l mod ?d" using unat_and_pred [OF p, of l] by simp
  have "owner \<le> 29" using assms(2) K(3) by linarith
  then have b: "owner * ?d \<le> 29 * 16" using K(4) by (intro mult_le_mono) simp_all
  have o: "unat (of_nat owner :: u64) = owner" using \<open>owner \<le> 29\<close> by (intro unat_of_nat_u64) simp
  have "unat (of_nat owner * ucast (ka_depth k) :: u64) = owner * ?d" using b o by (simp add: unat_word_ariths)
  moreover have "unat l mod ?d < ?d" using K(1) by simp
  ultimately show ?thesis
    unfolding pipeline_slot_def using m b K(4) unat_add_u64 [of "of_nat owner * ucast (ka_depth k)" "l AND (ucast (ka_depth k) - 1)"] by simp
qed

lemma pipeline_phase_value: "pipeline_phase k l \<longleftrightarrow> odd (unat l div unat (ka_depth k))"
proof -
  have "(x AND 1 \<noteq> 0) \<longleftrightarrow> odd (unat x)" for x :: u64
    using and_mask_zero [of x 1] by (simp add: odd_iff_mod_2_eq_one)
  then show ?thesis by (simp add: pipeline_phase_def unat_div)
qed

lemma index_slot_value:
  assumes "args_ok k"
  shows "index_slot k index = slot_at (unat (ka_depth k)) (unat (ka_copy_warps k)) (unat index)"
    "index_phase k index \<longleftrightarrow> odd (round_at (unat (ka_depth k)) (unat (ka_copy_warps k)) (unat index))"
proof -
  let ?w = "unat (ka_copy_warps k)"
  have "index mod ucast (ka_copy_warps k) = of_nat (unat index mod ?w)"
    using unat_mod [of index "ucast (ka_copy_warps k)"] by (metis unat_ucast_u32_u64 word_of_nat_eq_iff of_nat_unat ucast_id)
  moreover have "unat index mod ?w < ?w" using args_okD(2) [OF assms] by simp
  moreover have "unat (index div ucast (ka_copy_warps k)) = unat index div ?w" by (simp add: unat_div)
  ultimately show "index_slot k index = slot_at (unat (ka_depth k)) ?w (unat index)"
    unfolding index_slot_def slot_at_def using pipeline_slot_value [OF assms] by simp
  show "index_phase k index \<longleftrightarrow> odd (round_at (unat (ka_depth k)) ?w (unat index))"
    by (simp add: index_phase_def pipeline_phase_value round_at_def unat_div)
qed

lemma copier_slot_value:
  fixes l :: u64
  assumes "args_ok k" "owner < unat (ka_copy_warps k)"
  shows "pipeline_slot k (of_nat owner) l =
      slot_at (unat (ka_depth k)) (unat (ka_copy_warps k)) (unat l * unat (ka_copy_warps k) + owner)"
    "pipeline_phase k l \<longleftrightarrow> odd (round_at (unat (ka_depth k)) (unat (ka_copy_warps k)) (unat l * unat (ka_copy_warps k) + owner))"
  using assms(2) pipeline_slot_value [OF assms(1,2), of l] pipeline_phase_value [of k l]
  by (simp_all add: slot_at_def round_at_def)

end
