(* ===== verification/Kernel_Copies.thy ===== *)
theory Kernel_Copies
  imports Copy_Pipeline
begin

text \<open>
  What the kernels of \<^verbatim>\<open>gpu/persistent_copy.cu\<close> have in common: the completion of a task, the accesses that make up its copy, and
  what memory holds when accesses of tasks that do not get in each other's way have been performed in any order.
\<close>

section \<open>Tasks and their accesses\<close>

definition completion_of :: "copy_task \<Rightarrow> copy_completion" where
  "completion_of task = \<lparr>cp_task_id = ct_task_id task, cp_result = Task_success\<rparr>"

text \<open>All accesses of a task.\<close>

definition accesses :: "kernel_args \<Rightarrow> copy_task \<Rightarrow> cg_access set" where
  "accesses k task = (case task_accesses k task of None \<Rightarrow> {} | Some lanes \<Rightarrow> \<Union> (set ` set lanes))"

lemma accesses_some: "task_accesses k task = Some lanes \<Longrightarrow> accesses k task = \<Union> (set ` set lanes)"
  by (simp add: accesses_def)

text \<open>A lane takes one access off its list.\<close>

lemma lane_access:
  fixes a :: cg_access
  assumes "lane < length lanes" "lanes ! lane = a # as"
  shows "\<Union> (set ` set lanes) \<subseteq> insert a (\<Union> (set ` set (lanes[lane := as])))"
    "\<Union> (set ` set (lanes[lane := as])) \<subseteq> \<Union> (set ` set lanes)" "a \<in> \<Union> (set ` set lanes)"
proof -
  have in_lane: "lanes ! lane \<in> set lanes" using assms(1) by simp
  then show "a \<in> \<Union> (set ` set lanes)" using assms(2) by force
  show "\<Union> (set ` set (lanes[lane := as])) \<subseteq> \<Union> (set ` set lanes)"
    using in_lane assms(2) by (auto dest!: set_update_subset_insert [THEN subsetD] simp: image_iff)
  have "set (lanes ! m) \<subseteq> insert a (\<Union> (set ` set (lanes[lane := as])))" if "m < length lanes" for m
  proof (cases "m = lane")
    case True
    moreover have "as \<in> set (lanes[lane := as])" using assms(1) by (simp add: set_update_memI)
    ultimately show ?thesis using assms(2) by auto
  next
    case False
    then have "lanes ! m \<in> set (lanes[lane := as])" using that by (metis length_list_update nth_list_update_neq nth_mem)
    then show ?thesis by blast
  qed
  then have "\<forall>xs \<in> set lanes. set xs \<subseteq> insert a (\<Union> (set ` set (lanes[lane := as])))" by (metis in_set_conv_nth)
  then show "\<Union> (set ` set lanes) \<subseteq> insert a (\<Union> (set ` set (lanes[lane := as])))" by blast
qed

text \<open>What a warp in the middle of a copy has done of it.\<close>

definition copying_ok :: "kernel_args \<Rightarrow> cg_access list \<Rightarrow> copy_task \<Rightarrow> cg_access list list \<Rightarrow> bool" where
  "copying_ok k accs task lanes \<longleftrightarrow> accesses k task \<subseteq> set accs \<union> \<Union> (set ` set lanes) \<and> \<Union> (set ` set lanes) \<subseteq> accesses k task"

lemma copying_begins: "task_accesses k task = Some lanes \<Longrightarrow> copying_ok k accs task lanes"
  by (simp add: copying_ok_def accesses_some)

lemma copying_lane:
  assumes "copying_ok k accs task lanes" "lane < length lanes" "lanes ! lane = a # as"
  shows "copying_ok k (accs @ [a]) task (lanes[lane := as])" "a \<in> accesses k task"
proof -
  note U = lane_access [OF assms(2,3)]
  show "a \<in> accesses k task" using assms(1) U(3) unfolding copying_ok_def by blast
  have "accesses k task \<subseteq> set (accs @ [a]) \<union> \<Union> (set ` set (lanes[lane := as]))"
    using assms(1) subset_trans [OF _ Un_mono [OF subset_refl U(1), of "set accs"]] unfolding copying_ok_def by simp
  then show "copying_ok k (accs @ [a]) task (lanes[lane := as])"
    using assms(1) U(2) unfolding copying_ok_def by blast
qed

lemma copying_ends: "copying_ok k accs task lanes \<Longrightarrow> list_all (\<lambda>as. as = []) lanes \<Longrightarrow> accesses k task \<subseteq> set accs"
proof -
  assume "copying_ok k accs task lanes" "list_all (\<lambda>as. as = []) lanes"
  moreover from this have "\<Union> (set ` set lanes) = {}" by (auto simp: list_all_iff)
  ultimately show ?thesis unfolding copying_ok_def by simp
qed

lemma copying_more: "copying_ok k accs task lanes \<Longrightarrow> copying_ok k (accs @ [a]) task lanes"
  by (auto simp: copying_ok_def)

section \<open>The data\<close>

definition task_range :: "kernel_args \<Rightarrow> copy_task \<Rightarrow> range_copy" where
  "task_range k task =
     (unat (ka_stage_buffer_base k + ucast (ct_relative_offset task)), unat (ct_target_address task), unat (ct_length task))"

text \<open>The source and the target of a task do not leave the address space, and its length is one the copy loop ends on.\<close>

definition task_fits :: "kernel_args \<Rightarrow> copy_task \<Rightarrow> bool" where
  "task_fits k task \<longleftrightarrow>
     (case task_range k task of (source, target, n) \<Rightarrow> n \<le> 2 ^ 32 - 32 \<and> source + n < 2 ^ 64 \<and> target + n < 2 ^ 64)"

text \<open>No task writes what a task reads, and no two tasks write the same place.\<close>

definition tasks_apart :: "kernel_args \<Rightarrow> copy_task list \<Rightarrow> bool" where
  "tasks_apart k tasks \<longleftrightarrow>
     (\<forall>t \<in> set tasks. \<forall>u \<in> set tasks. \<forall>a. range_covers (task_range k t) a \<longrightarrow>
        \<not> range_covers (task_range k u) (range_source (task_range k t) a) \<and> (t \<noteq> u \<longrightarrow> \<not> range_covers (task_range k u) a))"

lemma those_some: "(\<And>x. x \<in> set xs \<Longrightarrow> f x = Some (g x)) \<Longrightarrow> those (map f xs) = Some (map g xs)"
  by (induction xs) simp_all

lemma accesses_tile:
  assumes "task_fits k task"
  shows "task_accesses k task \<noteq> None" "tiles (access_range ` accesses k task) (task_range k task)"
proof -
  let ?source = "ka_stage_buffer_base k + ucast (ct_relative_offset task)"
  have fit: "unat (ct_length task) \<le> 4294967264" "unat ?source + unat (ct_length task) < 18446744073709551616"
      "unat (ct_target_address task) + unat (ct_length task) < 18446744073709551616"
    using assms by (simp_all add: task_fits_def task_range_def)
  obtain lanes where L: "\<And>lane. copy_cg_warp ?source (ct_target_address task) (ct_length task) lane = Some (lanes lane)"
      "copies_range (\<Union>lane \<in> {lane. lane < 32}. set (lanes lane)) (unat ?source, unat (ct_target_address task), unat (ct_length task))"
    using warp_copies [OF fit] by blast
  have t: "task_accesses k task = Some (map (\<lambda>lane. lanes (of_nat lane)) [0..<32])"
    unfolding task_accesses_def by (rule those_some) (simp add: L(1))
  then show "task_accesses k task \<noteq> None" by simp
  have "{lane :: u32. lane < 32} = of_nat ` {..<32}"
  proof
    show "{lane :: u32. lane < 32} \<subseteq> of_nat ` {..<32}"
    proof
      fix lane :: u32
      assume "lane \<in> {lane. lane < 32}"
      then have "unat lane < 32" by (simp add: word_less_nat_alt)
      moreover have "lane = of_nat (unat lane)" by simp
      ultimately show "lane \<in> of_nat ` {..<32}" by blast
    qed
    show "of_nat ` {..<32} \<subseteq> {lane :: u32. lane < 32}" by (auto simp: word_less_nat_alt unat_of_nat_u32)
  qed
  then have "accesses k task = (\<Union>lane \<in> {lane. lane < 32}. set (lanes lane))" by (auto simp: accesses_def t)
  then show "tiles (access_range ` accesses k task) (task_range k task)"
    using L(2) by (simp add: copies_range_def task_range_def)
qed

text \<open>
  Memory after accesses of tasks in any order: a task of which every access was performed has its bytes at its target, and nothing
  outside the targets changed.
\<close>

lemma tasks_moved:
  assumes "memory' = fold copy_cg accs memory" "set accs \<subseteq> (\<Union>task \<in> set tasks. accesses k task)"
    and "\<forall>task \<in> set tasks. task_fits k task" "tasks_apart k tasks"
  shows "\<And>task a. task \<in> set tasks \<Longrightarrow> accesses k task \<subseteq> set accs \<Longrightarrow> range_covers (task_range k task) a \<Longrightarrow>
      memory' a = memory (range_source (task_range k task) a)"
    "\<And>a. (\<forall>task \<in> set tasks. \<not> range_covers (task_range k task) a) \<Longrightarrow> memory' a = memory a"
proof -
  have tile: "tiles (access_range ` accesses k task) (task_range k task)" if "task \<in> set tasks" for task
    using accesses_tile(2) assms(3) that by blast
  have part: "\<exists>task \<in> set tasks. range_covers (task_range k task) a \<and> range_source r a = range_source (task_range k task) a"
    if r: "r \<in> set (map access_range accs)" "range_covers r a" for r a
  proof -
    obtain x where x: "x \<in> set accs" "r = access_range x" using r(1) by auto
    then obtain task where task: "task \<in> set tasks" "x \<in> accesses k task" using assms(2) by blast
    then have "part_of r (task_range k task)" using tile x(2) by (auto simp: tiles_def)
    then show ?thesis using part_ofD r(2) task(1) by blast
  qed
  define owner where "owner a = (SOME task. task \<in> set tasks \<and> range_covers (task_range k task) a)" for a
  have owner: "owner a = task" if "task \<in> set tasks" "range_covers (task_range k task) a" for task a
  proof -
    have "owner a \<in> set tasks \<and> range_covers (task_range k (owner a)) a" unfolding owner_def using that by (intro someI) blast
    then show ?thesis using assms(4) that unfolding tasks_apart_def by blast
  qed
  have "copy_cg = copy_range \<circ> access_range" by (simp add: fun_eq_iff copy_cg_range)
  then have fold: "memory' = fold copy_range (map access_range accs) memory" using assms(1) by (simp add: fold_map)
  have mem: "memory' a = (if \<exists>r \<in> set (map access_range accs). range_covers r a then memory (range_source (task_range k (owner a)) a) else memory a)" for a
    unfolding fold
  proof (rule ranges_any_order)
    show "\<not> range_covers r' (range_source r a)"
      if "r \<in> set (map access_range accs)" "r' \<in> set (map access_range accs)" "range_covers r a" for r r' a
      using part [OF that(1,3)] part [OF that(2)] assms(4) unfolding tasks_apart_def by metis
    show "memory (range_source r a) = memory (range_source (task_range k (owner a)) a)"
      if "r \<in> set (map access_range accs)" "range_covers r a" for r a using part [OF that] owner by metis
  qed
  show "memory' a = memory (range_source (task_range k task) a)"
    if t: "task \<in> set tasks" "accesses k task \<subseteq> set accs" "range_covers (task_range k task) a" for task a
  proof -
    obtain x where "x \<in> accesses k task" "range_covers (access_range x) a" using tile [OF t(1)] t(3) unfolding tiles_def by blast
    then show ?thesis using mem [of a] owner [OF t(1,3)] t(2) by auto
  qed
  show "memory' a = memory a" if "\<forall>task \<in> set tasks. \<not> range_covers (task_range k task) a" for a
  proof -
    have "\<not> (\<exists>r \<in> set (map access_range accs). range_covers r a)" using part that by blast
    then show ?thesis using mem [of a] by presburger
  qed
qed

end
