(* ===== verification/Copy_Pipeline_Inv.thy ===== *)
theory Copy_Pipeline_Inv
  imports Copy_Channels Kernel_Copies
begin

unbundle bit_operations_syntax

text \<open>
  The invariant of the pipeline kernel with the host at its ring, and that every step keeps it. The tasks and the
  completions travel through two channels of shared slots; which indices arrived and were consumed is read off the
  places the warps are at.
\<close>

section \<open>What the places say\<close>

abbreviation (input) D :: "kernel_args \<Rightarrow> nat" where "D k \<equiv> unat (ka_depth k)"
abbreviation (input) W :: "kernel_args \<Rightarrow> nat" where "W k \<equiv> unat (ka_copy_warps k)"
abbreviation (input) Nsub :: "pipeline \<Rightarrow> nat" where "Nsub s \<equiv> length (pl_submitted s)"
abbreviation (input) Npol :: "pipeline \<Rightarrow> nat" where "Npol s \<equiv> length (pl_polled s)"

text \<open>Lanes of a warp work on the indices from \<open>h\<close> on.\<close>

definition lanes_done :: "nat \<Rightarrow> lane_pc list \<Rightarrow> nat \<Rightarrow> bool" where
  "lanes_done h lanes i \<longleftrightarrow> i < h \<or> (i < h + length lanes \<and> lanes ! (i - h) = Lane_done)"

definition in_lanes :: "nat \<Rightarrow> ingress_pc \<Rightarrow> lane_pc list" where
  "in_lanes w pc = (case pc of In_transfer lanes \<Rightarrow> lanes | In_pills lanes \<Rightarrow> lanes | In_exited \<Rightarrow> replicate w Lane_done | _ \<Rightarrow> [])"

definition released_lanes :: "egress_pc \<Rightarrow> lane_pc list" where
  "released_lanes pc = (case pc of Eg_release lanes \<Rightarrow> lanes | _ \<Rightarrow> [])"

fun consumed_pc :: "copier_pc \<Rightarrow> bool" where
  "consumed_pc Await_task = False"
| "consumed_pc Take_task = False"
| "consumed_pc (Consume_task _) = False"
| "consumed_pc _ = True"

definition task_at :: "copy_task list \<Rightarrow> nat \<Rightarrow> copy_task" where
  "task_at tasks i = (if i < length tasks then tasks ! i else zero_task)"

text \<open>Index \<open>i\<close> arrived in its task slot, was taken by its copy warp, its completion was stored, and was collected.\<close>

definition arrived :: "kernel_args \<Rightarrow> pipeline \<Rightarrow> nat \<Rightarrow> bool" where
  "arrived k s = lanes_done (unat (pl_task_head s)) (in_lanes (W k) (pl_ingress s))"

definition taken :: "kernel_args \<Rightarrow> pipeline \<Rightarrow> nat \<Rightarrow> bool" where
  "taken k s i \<longleftrightarrow>
     (let owner = i mod W k
      in i div W k < unat (pl_local_index s owner) \<or> i div W k = unat (pl_local_index s owner) \<and> consumed_pc (pl_copiers s owner))"

definition finished :: "kernel_args \<Rightarrow> pipeline \<Rightarrow> nat \<Rightarrow> bool" where
  "finished k s i \<longleftrightarrow> i div W k < unat (pl_local_index s (i mod W k))"

definition collected :: "pipeline \<Rightarrow> nat \<Rightarrow> bool" where
  "collected s = lanes_done (unat (pl_completion_head s)) (released_lanes (pl_egress s))"

definition copier_index :: "kernel_args \<Rightarrow> pipeline \<Rightarrow> nat \<Rightarrow> nat" where
  "copier_index k s owner = unat (pl_local_index s owner) * W k + owner"

section \<open>The invariant\<close>

definition queue_ok :: "kernel_args \<Rightarrow> pipeline \<Rightarrow> bool" where
  "queue_ok k s \<longleftrightarrow>
     wq_memory (pl_queue s) \<noteq> None \<and>
     wq_capacity_mask (pl_queue s) = wq_capacity (pl_queue s) - 1 \<and> ka_capacity_mask k = wq_capacity (pl_queue s) - 1 \<and>
     ring_holds (wq_capacity (pl_queue s)) (wq_completion_head (pl_queue s)) (wq_submit_tail (pl_queue s))
       (qm_task_slots (mapped s)) (drop (Npol s) (pl_submitted s)) \<and>
     unat (wq_completion_head (pl_queue s)) = Npol s \<and> unat (wq_submit_tail (pl_queue s)) = Nsub s \<and>
     qm_task_tail (mapped s) = wq_submit_tail (pl_queue s) \<and>
     length (qm_completion_slots (mapped s)) = unat (wq_capacity (pl_queue s)) \<and>
     list_all well_formed_task (pl_submitted s) \<and>
     Npol s \<le> unat (wq_cached_completion_tail (pl_queue s)) \<and>
     unat (wq_cached_completion_tail (pl_queue s)) \<le> unat (qm_completion_tail (mapped s)) \<and>
     unat (qm_completion_tail (mapped s)) \<le> Nsub s \<and>
     (qm_stop_requested (mapped s) \<noteq> 0 \<longrightarrow> \<not> wq_accepting (pl_queue s))"

text \<open>The history: polled completions are those of the oldest tasks, in order, and the unread part of the ring is what comes next.\<close>

definition external_completion :: "pipeline \<Rightarrow> nat \<Rightarrow> copy_completion" where
  "external_completion s i = cs_completion (qm_completion_slots (mapped s) ! (i mod unat (wq_capacity (pl_queue s))))"

definition history_ok :: "pipeline \<Rightarrow> bool" where
  "history_ok s \<longleftrightarrow>
     pl_polled s = map completion_of (take (Npol s) (pl_submitted s)) \<and>
     (\<forall>i. Npol s \<le> i \<and> i < unat (qm_completion_tail (mapped s)) \<longrightarrow> external_completion s i = completion_of (task_at (pl_submitted s) i))"

definition ingress_ok :: "kernel_args \<Rightarrow> pipeline \<Rightarrow> bool" where
  "ingress_ok k s \<longleftrightarrow>
     (let h = unat (pl_task_head s); stopped = (qm_stop_requested (mapped s) \<noteq> 0)
      in h \<le> Nsub s \<and>
         (case pl_ingress s of
            In_transfer lanes \<Rightarrow> h + length lanes \<le> Nsub s \<and> 0 < length lanes \<and> length lanes \<le> 32
          | In_pills lanes \<Rightarrow> h = Nsub s \<and> length lanes = W k \<and> stopped
          | In_exited \<Rightarrow> h = Nsub s \<and> stopped
          | In_recheck \<Rightarrow> stopped
          | _ \<Rightarrow> True) \<and>
         (\<forall>n < length (in_lanes (W k) (pl_ingress s)).
            (let pc = in_lanes (W k) (pl_ingress s) ! n; i = h + n
             in pc \<noteq> Lane_publish \<and>
                (pc = Lane_store \<or> pc = Lane_arrive \<longrightarrow> W k * D k \<le> i \<longrightarrow> taken k s (i - W k * D k)) \<and>
                (pc = Lane_arrive \<longrightarrow> ss_content (pl_task_slots s (slot_at (D k) (W k) i)) = task_at (pl_submitted s) i))))"

definition copier_ok :: "kernel_args \<Rightarrow> pipeline \<Rightarrow> nat \<Rightarrow> bool" where
  "copier_ok k s owner \<longleftrightarrow>
     (let i = copier_index k s owner; task = task_at (pl_submitted s) i
      in (0 < unat (pl_local_index s owner) \<longrightarrow> i - W k < Nsub s) \<and>
         (case pl_copiers s owner of
            Await_task \<Rightarrow> True
          | Take_task \<Rightarrow> arrived k s i
          | Consume_task t \<Rightarrow> arrived k s i \<and> t = task
          | Copying t _ \<Rightarrow> i < Nsub s \<and> t = task
          | Await_completion t \<Rightarrow> i < Nsub s \<and> t = task
          | Store_completion t \<Rightarrow> i < Nsub s \<and> t = task \<and> (W k * D k \<le> i \<longrightarrow> collected s (i - W k * D k))
          | Publish_completion t \<Rightarrow> i < Nsub s \<and> t = task \<and> (W k * D k \<le> i \<longrightarrow> collected s (i - W k * D k)) \<and>
              ss_content (pl_completion_slots s (slot_at (D k) (W k) i)) = completion_of task
          | Copier_exited \<Rightarrow> Nsub s \<le> i \<and> qm_stop_requested (mapped s) \<noteq> 0))"

definition egress_ok :: "kernel_args \<Rightarrow> pipeline \<Rightarrow> bool" where
  "egress_ok k s \<longleftrightarrow>
     (let e = unat (pl_completion_head s); tail = unat (qm_completion_tail (mapped s)); stopped = (qm_stop_requested (mapped s) \<noteq> 0);
          written = (\<lambda>i. finished k s i \<and> external_completion s i = completion_of (task_at (pl_submitted s) i))
      in e \<le> Nsub s \<and>
         (case pl_egress s of
            Eg_collect lanes \<Rightarrow>
              tail = e \<and> e + length lanes \<le> Nsub s \<and> 0 < length lanes \<and> length lanes \<le> 32 \<and>
              (\<forall>n < length lanes. lanes ! n = Lane_wait \<or> lanes ! n = Lane_store \<and> finished k s (e + n) \<or>
                 lanes ! n = Lane_done \<and> written (e + n))
          | Eg_release lanes \<Rightarrow>
              e + length lanes \<le> Nsub s \<and> 0 < length lanes \<and> length lanes \<le> 32 \<and>
              tail = (if lanes ! 0 = Lane_publish then e else e + length lanes) \<and>
              (\<forall>n < length lanes. (lanes ! n = Lane_publish \<and> n = 0 \<or> lanes ! n = Lane_arrive \<or> lanes ! n = Lane_done) \<and> written (e + n))
          | Eg_recheck \<Rightarrow> tail = e \<and> stopped
          | Eg_exited \<Rightarrow> tail = e \<and> e = Nsub s \<and> stopped
          | _ \<Rightarrow> tail = e))"

text \<open>What the copy warps did of the accesses of their tasks.\<close>

definition copies_ok :: "kernel_args \<Rightarrow> memory \<Rightarrow> pipeline \<Rightarrow> bool" where
  "copies_ok k memory s \<longleftrightarrow>
     pl_memory s = fold copy_cg (pl_accesses s) memory \<and>
     (\<forall>i. finished k s i \<longrightarrow> accesses k (task_at (pl_submitted s) i) \<subseteq> set (pl_accesses s)) \<and>
     (\<forall>a \<in> set (pl_accesses s). \<exists>task \<in> set (pl_submitted s). a \<in> accesses k task) \<and>
     (\<forall>owner < W k.
        (case pl_copiers s owner of
           Copying t lanes \<Rightarrow> accesses k t \<subseteq> set (pl_accesses s) \<union> \<Union> (set ` set lanes) \<and> \<Union> (set ` set lanes) \<subseteq> accesses k t
         | Await_completion t \<Rightarrow> accesses k t \<subseteq> set (pl_accesses s)
         | Store_completion t \<Rightarrow> accesses k t \<subseteq> set (pl_accesses s)
         | Publish_completion t \<Rightarrow> accesses k t \<subseteq> set (pl_accesses s)
         | _ \<Rightarrow> True))"

abbreviation (input) task_channel :: "kernel_args \<Rightarrow> pipeline \<Rightarrow> bool" where
  "task_channel k s \<equiv> channel (D k) (W k) (arrived k s) (taken k s) (task_at (pl_submitted s)) (pl_task_slots s)"

abbreviation (input) completion_channel :: "kernel_args \<Rightarrow> pipeline \<Rightarrow> bool" where
  "completion_channel k s \<equiv>
     channel (D k) (W k) (finished k s) (collected s) (\<lambda>i. completion_of (task_at (pl_submitted s) i)) (pl_completion_slots s)"

definition pipeline_inv :: "kernel_args \<Rightarrow> memory \<Rightarrow> pipeline \<Rightarrow> bool" where
  "pipeline_inv k memory s \<longleftrightarrow>
     args_ok k \<and> queue_ok k s \<and> history_ok s \<and> ingress_ok k s \<and> (\<forall>owner < W k. copier_ok k s owner) \<and> egress_ok k s \<and>
     copies_ok k memory s \<and> task_channel k s \<and> completion_channel k s"

lemma pipeline_invD:
  assumes "pipeline_inv k memory s"
  shows "args_ok k" "queue_ok k s" "history_ok s" "ingress_ok k s" "\<And>owner. owner < W k \<Longrightarrow> copier_ok k s owner" "egress_ok k s"
    "copies_ok k memory s" "task_channel k s" "completion_channel k s"
  using assms unfolding pipeline_inv_def by blast+

lemma pipeline_invI:
  assumes "args_ok k" "queue_ok k s" "history_ok s" "ingress_ok k s" "\<And>owner. owner < W k \<Longrightarrow> copier_ok k s owner" "egress_ok k s"
    "copies_ok k memory s" "task_channel k s" "completion_channel k s"
  shows "pipeline_inv k memory s"
  using assms unfolding pipeline_inv_def by blast

section \<open>What does not depend on what\<close>

lemma mapped_frame [simp]:
  "mapped (s\<lparr>pl_memory := m\<rparr>) = mapped s" "mapped (s\<lparr>pl_task_slots := ts\<rparr>) = mapped s"
    "mapped (s\<lparr>pl_completion_slots := cs\<rparr>) = mapped s" "mapped (s\<lparr>pl_ingress := ip\<rparr>) = mapped s"
    "mapped (s\<lparr>pl_task_head := th\<rparr>) = mapped s" "mapped (s\<lparr>pl_copiers := cp\<rparr>) = mapped s"
    "mapped (s\<lparr>pl_local_index := li\<rparr>) = mapped s" "mapped (s\<lparr>pl_egress := ep\<rparr>) = mapped s"
    "mapped (s\<lparr>pl_completion_head := ch\<rparr>) = mapped s" "mapped (s\<lparr>pl_submitted := sb\<rparr>) = mapped s"
    "mapped (s\<lparr>pl_polled := po\<rparr>) = mapped s" "mapped (s\<lparr>pl_accesses := ac\<rparr>) = mapped s"
  by (simp_all add: mapped_def)

lemma arrived_frame [simp]:
  "arrived k (s\<lparr>pl_queue := q\<rparr>) = arrived k s" "arrived k (s\<lparr>pl_memory := m\<rparr>) = arrived k s"
    "arrived k (s\<lparr>pl_task_slots := ts\<rparr>) = arrived k s" "arrived k (s\<lparr>pl_completion_slots := cs\<rparr>) = arrived k s"
    "arrived k (s\<lparr>pl_copiers := cp\<rparr>) = arrived k s" "arrived k (s\<lparr>pl_local_index := li\<rparr>) = arrived k s"
    "arrived k (s\<lparr>pl_egress := ep\<rparr>) = arrived k s" "arrived k (s\<lparr>pl_completion_head := ch\<rparr>) = arrived k s"
    "arrived k (s\<lparr>pl_submitted := sb\<rparr>) = arrived k s" "arrived k (s\<lparr>pl_polled := po\<rparr>) = arrived k s"
    "arrived k (s\<lparr>pl_accesses := ac\<rparr>) = arrived k s"
  by (simp_all add: arrived_def)

lemma taken_frame [simp]:
  "taken k (s\<lparr>pl_queue := q\<rparr>) = taken k s" "taken k (s\<lparr>pl_memory := m\<rparr>) = taken k s"
    "taken k (s\<lparr>pl_task_slots := ts\<rparr>) = taken k s" "taken k (s\<lparr>pl_completion_slots := cs\<rparr>) = taken k s"
    "taken k (s\<lparr>pl_ingress := ip\<rparr>) = taken k s" "taken k (s\<lparr>pl_task_head := th\<rparr>) = taken k s"
    "taken k (s\<lparr>pl_egress := ep\<rparr>) = taken k s" "taken k (s\<lparr>pl_completion_head := ch\<rparr>) = taken k s"
    "taken k (s\<lparr>pl_submitted := sb\<rparr>) = taken k s" "taken k (s\<lparr>pl_polled := po\<rparr>) = taken k s"
    "taken k (s\<lparr>pl_accesses := ac\<rparr>) = taken k s"
  by (simp_all add: taken_def fun_eq_iff)

lemma finished_frame [simp]:
  "finished k (s\<lparr>pl_queue := q\<rparr>) = finished k s" "finished k (s\<lparr>pl_memory := m\<rparr>) = finished k s"
    "finished k (s\<lparr>pl_task_slots := ts\<rparr>) = finished k s" "finished k (s\<lparr>pl_completion_slots := cs\<rparr>) = finished k s"
    "finished k (s\<lparr>pl_ingress := ip\<rparr>) = finished k s" "finished k (s\<lparr>pl_task_head := th\<rparr>) = finished k s"
    "finished k (s\<lparr>pl_copiers := cp\<rparr>) = finished k s" "finished k (s\<lparr>pl_egress := ep\<rparr>) = finished k s"
    "finished k (s\<lparr>pl_completion_head := ch\<rparr>) = finished k s" "finished k (s\<lparr>pl_submitted := sb\<rparr>) = finished k s"
    "finished k (s\<lparr>pl_polled := po\<rparr>) = finished k s" "finished k (s\<lparr>pl_accesses := ac\<rparr>) = finished k s"
  by (simp_all add: finished_def fun_eq_iff)

lemma collected_frame [simp]:
  "collected (s\<lparr>pl_queue := q\<rparr>) = collected s" "collected (s\<lparr>pl_memory := m\<rparr>) = collected s"
    "collected (s\<lparr>pl_task_slots := ts\<rparr>) = collected s" "collected (s\<lparr>pl_completion_slots := cs\<rparr>) = collected s"
    "collected (s\<lparr>pl_ingress := ip\<rparr>) = collected s" "collected (s\<lparr>pl_task_head := th\<rparr>) = collected s"
    "collected (s\<lparr>pl_copiers := cp\<rparr>) = collected s" "collected (s\<lparr>pl_local_index := li\<rparr>) = collected s"
    "collected (s\<lparr>pl_submitted := sb\<rparr>) = collected s" "collected (s\<lparr>pl_polled := po\<rparr>) = collected s"
    "collected (s\<lparr>pl_accesses := ac\<rparr>) = collected s"
  by (simp_all add: collected_def)

lemma copier_index_frame [simp]:
  "copier_index k (s\<lparr>pl_queue := q\<rparr>) owner = copier_index k s owner"
    "copier_index k (s\<lparr>pl_memory := m\<rparr>) owner = copier_index k s owner"
    "copier_index k (s\<lparr>pl_task_slots := ts\<rparr>) owner = copier_index k s owner"
    "copier_index k (s\<lparr>pl_completion_slots := cs\<rparr>) owner = copier_index k s owner"
    "copier_index k (s\<lparr>pl_ingress := ip\<rparr>) owner = copier_index k s owner"
    "copier_index k (s\<lparr>pl_task_head := th\<rparr>) owner = copier_index k s owner"
    "copier_index k (s\<lparr>pl_copiers := cp\<rparr>) owner = copier_index k s owner"
    "copier_index k (s\<lparr>pl_egress := ep\<rparr>) owner = copier_index k s owner"
    "copier_index k (s\<lparr>pl_completion_head := ch\<rparr>) owner = copier_index k s owner"
    "copier_index k (s\<lparr>pl_submitted := sb\<rparr>) owner = copier_index k s owner"
    "copier_index k (s\<lparr>pl_polled := po\<rparr>) owner = copier_index k s owner"
    "copier_index k (s\<lparr>pl_accesses := ac\<rparr>) owner = copier_index k s owner"
  by (simp_all add: copier_index_def)

lemma external_completion_frame [simp]:
  "external_completion (s\<lparr>pl_memory := m\<rparr>) = external_completion s"
    "external_completion (s\<lparr>pl_task_slots := ts\<rparr>) = external_completion s"
    "external_completion (s\<lparr>pl_completion_slots := cs\<rparr>) = external_completion s"
    "external_completion (s\<lparr>pl_ingress := ip\<rparr>) = external_completion s"
    "external_completion (s\<lparr>pl_task_head := th\<rparr>) = external_completion s"
    "external_completion (s\<lparr>pl_copiers := cp\<rparr>) = external_completion s"
    "external_completion (s\<lparr>pl_local_index := li\<rparr>) = external_completion s"
    "external_completion (s\<lparr>pl_egress := ep\<rparr>) = external_completion s"
    "external_completion (s\<lparr>pl_completion_head := ch\<rparr>) = external_completion s"
    "external_completion (s\<lparr>pl_submitted := sb\<rparr>) = external_completion s"
    "external_completion (s\<lparr>pl_polled := po\<rparr>) = external_completion s"
    "external_completion (s\<lparr>pl_accesses := ac\<rparr>) = external_completion s"
  by (simp_all add: external_completion_def fun_eq_iff)

lemma queue_ok_frame [simp]:
  "queue_ok k (s\<lparr>pl_memory := m\<rparr>) = queue_ok k s" "queue_ok k (s\<lparr>pl_task_slots := ts\<rparr>) = queue_ok k s"
    "queue_ok k (s\<lparr>pl_completion_slots := cs\<rparr>) = queue_ok k s" "queue_ok k (s\<lparr>pl_ingress := ip\<rparr>) = queue_ok k s"
    "queue_ok k (s\<lparr>pl_task_head := th\<rparr>) = queue_ok k s" "queue_ok k (s\<lparr>pl_copiers := cp\<rparr>) = queue_ok k s"
    "queue_ok k (s\<lparr>pl_local_index := li\<rparr>) = queue_ok k s" "queue_ok k (s\<lparr>pl_egress := ep\<rparr>) = queue_ok k s"
    "queue_ok k (s\<lparr>pl_completion_head := ch\<rparr>) = queue_ok k s" "queue_ok k (s\<lparr>pl_accesses := ac\<rparr>) = queue_ok k s"
  by (simp_all add: queue_ok_def)

lemma history_ok_frame [simp]:
  "history_ok (s\<lparr>pl_memory := m\<rparr>) = history_ok s" "history_ok (s\<lparr>pl_task_slots := ts\<rparr>) = history_ok s"
    "history_ok (s\<lparr>pl_completion_slots := cs\<rparr>) = history_ok s" "history_ok (s\<lparr>pl_ingress := ip\<rparr>) = history_ok s"
    "history_ok (s\<lparr>pl_task_head := th\<rparr>) = history_ok s" "history_ok (s\<lparr>pl_copiers := cp\<rparr>) = history_ok s"
    "history_ok (s\<lparr>pl_local_index := li\<rparr>) = history_ok s" "history_ok (s\<lparr>pl_egress := ep\<rparr>) = history_ok s"
    "history_ok (s\<lparr>pl_completion_head := ch\<rparr>) = history_ok s" "history_ok (s\<lparr>pl_accesses := ac\<rparr>) = history_ok s"
  by (simp_all add: history_ok_def)

lemma ingress_ok_frame [simp]:
  "ingress_ok k (s\<lparr>pl_memory := m\<rparr>) = ingress_ok k s" "ingress_ok k (s\<lparr>pl_completion_slots := cs\<rparr>) = ingress_ok k s"
    "ingress_ok k (s\<lparr>pl_egress := ep\<rparr>) = ingress_ok k s" "ingress_ok k (s\<lparr>pl_completion_head := ch\<rparr>) = ingress_ok k s"
    "ingress_ok k (s\<lparr>pl_polled := po\<rparr>) = ingress_ok k s" "ingress_ok k (s\<lparr>pl_accesses := ac\<rparr>) = ingress_ok k s"
  by (simp_all add: ingress_ok_def cong: ingress_pc.case_cong copier_pc.case_cong egress_pc.case_cong)

lemma copier_ok_frame [simp]:
  "copier_ok k (s\<lparr>pl_memory := m\<rparr>) owner = copier_ok k s owner"
    "copier_ok k (s\<lparr>pl_task_slots := ts\<rparr>) owner = copier_ok k s owner"
    "copier_ok k (s\<lparr>pl_polled := po\<rparr>) owner = copier_ok k s owner"
    "copier_ok k (s\<lparr>pl_accesses := ac\<rparr>) owner = copier_ok k s owner"
  by (simp_all add: copier_ok_def cong: ingress_pc.case_cong copier_pc.case_cong egress_pc.case_cong)

lemma egress_ok_frame [simp]:
  "egress_ok k (s\<lparr>pl_memory := m\<rparr>) = egress_ok k s" "egress_ok k (s\<lparr>pl_task_slots := ts\<rparr>) = egress_ok k s"
    "egress_ok k (s\<lparr>pl_completion_slots := cs\<rparr>) = egress_ok k s" "egress_ok k (s\<lparr>pl_ingress := ip\<rparr>) = egress_ok k s"
    "egress_ok k (s\<lparr>pl_task_head := th\<rparr>) = egress_ok k s" "egress_ok k (s\<lparr>pl_copiers := cp\<rparr>) = egress_ok k s"
    "egress_ok k (s\<lparr>pl_polled := po\<rparr>) = egress_ok k s" "egress_ok k (s\<lparr>pl_accesses := ac\<rparr>) = egress_ok k s"
  by (simp_all add: egress_ok_def cong: ingress_pc.case_cong copier_pc.case_cong egress_pc.case_cong)

lemma copies_ok_frame [simp]:
  "copies_ok k memory (s\<lparr>pl_queue := q\<rparr>) = copies_ok k memory s"
    "copies_ok k memory (s\<lparr>pl_task_slots := ts\<rparr>) = copies_ok k memory s"
    "copies_ok k memory (s\<lparr>pl_completion_slots := cs\<rparr>) = copies_ok k memory s"
    "copies_ok k memory (s\<lparr>pl_ingress := ip\<rparr>) = copies_ok k memory s"
    "copies_ok k memory (s\<lparr>pl_task_head := th\<rparr>) = copies_ok k memory s"
    "copies_ok k memory (s\<lparr>pl_egress := ep\<rparr>) = copies_ok k memory s"
    "copies_ok k memory (s\<lparr>pl_completion_head := ch\<rparr>) = copies_ok k memory s"
    "copies_ok k memory (s\<lparr>pl_polled := po\<rparr>) = copies_ok k memory s"
  by (simp_all add: copies_ok_def cong: ingress_pc.case_cong copier_pc.case_cong egress_pc.case_cong)

section \<open>Lanes and indices\<close>

lemma lanes_done_none [simp]: "lanes_done h [] i \<longleftrightarrow> i < h"
  by (auto simp: lanes_done_def)

lemma lanes_done_waiting: "pc \<noteq> Lane_done \<Longrightarrow> lanes_done h (replicate n pc) i \<longleftrightarrow> i < h"
  by (cases "i < h") (auto simp: lanes_done_def)

lemma lanes_done_all: "list_all (\<lambda>pc. pc = Lane_done) lanes \<Longrightarrow> lanes_done h lanes i \<longleftrightarrow> i < h + length lanes"
  by (auto simp: lanes_done_def list_all_length)

lemma lanes_done_update:
  assumes "n < length lanes"
  shows "lanes_done h (lanes[n := pc]) i \<longleftrightarrow> (if i = h + n then pc = Lane_done else lanes_done h lanes i)"
proof -
  have "i - h = n \<longleftrightarrow> i = h + n" if "\<not> i < h" using that by auto
  then show ?thesis using assms by (auto simp: lanes_done_def nth_list_update_lt)
qed

lemma lanes_done_lane: "n < length lanes \<Longrightarrow> lanes_done h lanes (h + n) \<longleftrightarrow> lanes ! n = Lane_done"
  by (simp add: lanes_done_def)

lemma window_slots:
  assumes "0 < d" "0 < w" "i < j" "j < i + w * d"
  shows "slot_at d w i \<noteq> slot_at d w j"
proof
  assume s: "slot_at d w i = slot_at d w j"
  have "round_at d w i \<noteq> round_at d w j" using slot_round_inj [OF assms(1) s] assms(3) by blast
  moreover have "round_at d w i \<le> round_at d w j" "round_at d w j \<le> round_at d w i + 1"
    using round_mono [of i j d w] round_mono [of j "i + w * d" d w] round_next [OF assms(1,2), of i] assms(3,4) by simp_all
  ultimately have "round_at d w j = round_at d w (i + w * d)" using round_next [OF assms(1,2), of i] by simp
  then have "j = i + w * d" using slot_round_inj [OF assms(1), of w j "i + w * d"] s slot_next [OF assms(2), of d i] by simp
  then show False using assms(4) by simp
qed

lemma window_slots_neq:
  assumes "0 < d" "0 < w" "32 \<le> w * d" "i \<noteq> j" "i < j + 32" "j < i + 32"
  shows "slot_at d w i \<noteq> slot_at d w j"
  using window_slots [OF assms(1,2), of i j] window_slots [OF assms(1,2), of j i] assms(3-) by (cases "i < j") auto

lemma lane_index:
  assumes "unat (h :: u64) + n < 18446744073709551616"
  shows "unat (h + of_nat n) = unat h + n"
  using assms unat_add_u64 [of h "of_nat n"] by (simp add: unat_of_nat_u64)

lemma meta_batch_value:
  assumes "h < t"
  shows "0 < meta_batch (t - h)" "meta_batch (t - h) \<le> 32" "unat h + meta_batch (t - h) \<le> unat t"
proof -
  have lt: "unat h < unat t" using assms by (simp add: word_less_nat_alt)
  then have d: "unat (t - h) = unat t - unat h" by (simp add: unat_sub word_le_nat_alt)
  have "meta_batch (t - h) = min (unat t - unat h) 32"
    unfolding meta_batch_def kWarpSpecializedMetaBatch_def using d by (auto simp: word_less_nat_alt)
  then show "0 < meta_batch (t - h)" "meta_batch (t - h) \<le> 32" "unat h + meta_batch (t - h) \<le> unat t" using lt by simp_all
qed

text \<open>A copy warp is at the index of its owner and position.\<close>

lemma copier_index_parts:
  assumes "owner < W k"
  shows "copier_index k s owner mod W k = owner" "copier_index k s owner div W k = unat (pl_local_index s owner)"
  using assms by (simp_all add: copier_index_def)

lemma taken_copier: "owner < W k \<Longrightarrow> taken k s (copier_index k s owner) \<longleftrightarrow> consumed_pc (pl_copiers s owner)"
  by (simp add: taken_def copier_index_parts Let_def)

lemma not_finished_copier: "owner < W k \<Longrightarrow> \<not> finished k s (copier_index k s owner)"
  by (simp add: finished_def copier_index_parts)

lemma previous_round:
  assumes "args_ok k" "owner < W k" "W k * D k \<le> copier_index k s owner"
  shows "taken k s (copier_index k s owner - W k * D k)" "finished k s (copier_index k s owner - W k * D k)"
proof -
  let ?i = "copier_index k s owner" and ?l = "unat (pl_local_index s owner)"
  note K = args_okD [OF assms(1)]
  have eq: "?i - W k * D k = owner + W k * (?l - D k)" and le: "D k \<le> ?l"
  proof -
    show le: "D k \<le> ?l"
    proof (rule ccontr)
      assume "\<not> D k \<le> ?l"
      then have "Suc ?l * W k \<le> D k * W k" by (intro mult_le_mono1) simp
      then show False using assms(2,3) by (simp add: copier_index_def mult.commute)
    qed
    show "?i - W k * D k = owner + W k * (?l - D k)"
      unfolding copier_index_def using le by (simp add: diff_mult_distrib2 mult.commute)
  qed
  have "(?i - W k * D k) mod W k = owner" "(?i - W k * D k) div W k = ?l - D k" unfolding eq using assms(2) by simp_all
  then show "taken k s (?i - W k * D k)" "finished k s (?i - W k * D k)"
    using K(1) le by (simp_all add: taken_def finished_def Let_def)
qed

lemma finished_lt:
  assumes "\<And>owner. owner < W k \<Longrightarrow> copier_ok k s owner" "0 < W k" "finished k s i"
  shows "i < Nsub s"
proof -
  let ?o = "i mod W k"
  have o: "?o < W k" using assms(2) by simp
  have l: "i div W k < unat (pl_local_index s ?o)" using assms(3) unfolding finished_def .
  have "copier_index k s ?o - W k < Nsub s" using assms(1) [OF o] l unfolding copier_ok_def by (auto simp: Let_def)
  moreover have "Suc (i div W k) * W k \<le> unat (pl_local_index s ?o) * W k" using l by (intro mult_le_mono1) simp
  then have "i + W k \<le> copier_index k s ?o" unfolding copier_index_def using div_mult_mod_eq [of i "W k"] unfolding mult_Suc by linarith
  ultimately show ?thesis by linarith
qed

lemma finished_taken: "finished k s i \<Longrightarrow> taken k s i"
  by (simp add: finished_def taken_def Let_def)

section \<open>Facts of the parts\<close>

lemma queue_okD:
  assumes "queue_ok k s"
  shows "wq_memory (pl_queue s) = Some (mapped s)"
    "wq_capacity_mask (pl_queue s) = wq_capacity (pl_queue s) - 1" "ka_capacity_mask k = wq_capacity (pl_queue s) - 1"
    "ring_holds (wq_capacity (pl_queue s)) (wq_completion_head (pl_queue s)) (wq_submit_tail (pl_queue s))
       (qm_task_slots (mapped s)) (drop (Npol s) (pl_submitted s))"
    "unat (wq_completion_head (pl_queue s)) = Npol s" "unat (wq_submit_tail (pl_queue s)) = Nsub s"
    "qm_task_tail (mapped s) = wq_submit_tail (pl_queue s)" "unat (qm_task_tail (mapped s)) = Nsub s"
    "length (qm_completion_slots (mapped s)) = unat (wq_capacity (pl_queue s))"
    "list_all well_formed_task (pl_submitted s)"
    "Npol s \<le> unat (wq_cached_completion_tail (pl_queue s))"
    "unat (wq_cached_completion_tail (pl_queue s)) \<le> unat (qm_completion_tail (mapped s))"
    "unat (qm_completion_tail (mapped s)) \<le> Nsub s"
    "qm_stop_requested (mapped s) \<noteq> 0 \<Longrightarrow> \<not> wq_accepting (pl_queue s)"
    "Npol s \<le> Nsub s" "Nsub s - Npol s \<le> unat (wq_capacity (pl_queue s))" "is_power_of_two (wq_capacity (pl_queue s))"
proof -
  note q = assms [unfolded queue_ok_def]
  show "wq_memory (pl_queue s) = Some (mapped s)" using q by (auto simp: mapped_def)
  show "wq_capacity_mask (pl_queue s) = wq_capacity (pl_queue s) - 1" "ka_capacity_mask k = wq_capacity (pl_queue s) - 1"
    using q by blast+
  show r: "ring_holds (wq_capacity (pl_queue s)) (wq_completion_head (pl_queue s)) (wq_submit_tail (pl_queue s))
       (qm_task_slots (mapped s)) (drop (Npol s) (pl_submitted s))" using q by blast
  show "Nsub s - Npol s \<le> unat (wq_capacity (pl_queue s))" "is_power_of_two (wq_capacity (pl_queue s))"
    using ring_holdsD(1,3) [OF r] by simp_all
  show "unat (wq_completion_head (pl_queue s)) = Npol s" "unat (wq_submit_tail (pl_queue s)) = Nsub s"
    "qm_task_tail (mapped s) = wq_submit_tail (pl_queue s)" "list_all well_formed_task (pl_submitted s)"
    "length (qm_completion_slots (mapped s)) = unat (wq_capacity (pl_queue s))"
    "Npol s \<le> unat (wq_cached_completion_tail (pl_queue s))"
    "unat (wq_cached_completion_tail (pl_queue s)) \<le> unat (qm_completion_tail (mapped s))"
    "unat (qm_completion_tail (mapped s)) \<le> Nsub s" using q by blast+
  then show "unat (qm_task_tail (mapped s)) = Nsub s" "Npol s \<le> Nsub s" by simp_all
  show "qm_stop_requested (mapped s) \<noteq> 0 \<Longrightarrow> \<not> wq_accepting (pl_queue s)" using q by blast
qed

lemma ingress_lanesD:
  assumes "ingress_ok k s" "n < length (in_lanes (W k) (pl_ingress s))"
  shows "in_lanes (W k) (pl_ingress s) ! n \<noteq> Lane_publish"
    "in_lanes (W k) (pl_ingress s) ! n = Lane_store \<or> in_lanes (W k) (pl_ingress s) ! n = Lane_arrive \<Longrightarrow>
      W k * D k \<le> unat (pl_task_head s) + n \<Longrightarrow> taken k s (unat (pl_task_head s) + n - W k * D k)"
    "in_lanes (W k) (pl_ingress s) ! n = Lane_arrive \<Longrightarrow>
      ss_content (pl_task_slots s (slot_at (D k) (W k) (unat (pl_task_head s) + n))) = task_at (pl_submitted s) (unat (pl_task_head s) + n)"
  using assms unfolding ingress_ok_def Let_def by blast+

lemma ingress_headD:
  assumes "ingress_ok k s" "args_ok k"
  shows "unat (pl_task_head s) \<le> Nsub s" "length (in_lanes (W k) (pl_ingress s)) \<le> 32"
  using assms args_okD(3) [OF assms(2)] by (auto simp: ingress_ok_def Let_def in_lanes_def split: ingress_pc.splits)

text \<open>A stop is the only way an index past the submitted tasks arrives.\<close>

lemma arrived_pill:
  assumes "ingress_ok k s" "arrived k s i" "Nsub s \<le> i"
  shows "qm_stop_requested (mapped s) \<noteq> 0"
  using assms by (auto simp: arrived_def lanes_done_def ingress_ok_def in_lanes_def Let_def split: ingress_pc.splits)

lemma copier_ok_mono:
  assumes "copier_ok k s owner" "pl_copiers s' owner = pl_copiers s owner" "pl_local_index s' owner = pl_local_index s owner"
    and "pl_submitted s' = pl_submitted s" "qm_stop_requested (mapped s) \<noteq> 0 \<Longrightarrow> qm_stop_requested (mapped s') \<noteq> 0"
    and "\<And>i. arrived k s i \<Longrightarrow> arrived k s' i" "\<And>i. collected s i \<Longrightarrow> collected s' i"
    and "\<And>t. pl_copiers s owner = Publish_completion t \<Longrightarrow>
      ss_content (pl_completion_slots s' (slot_at (D k) (W k) (copier_index k s owner))) =
      ss_content (pl_completion_slots s (slot_at (D k) (W k) (copier_index k s owner)))"
  shows "copier_ok k s' owner"
proof -
  have "copier_index k s' owner = copier_index k s owner" using assms(3) by (simp add: copier_index_def)
  then show ?thesis
    using assms by (cases "pl_copiers s owner") (auto simp: copier_ok_def Let_def)
qed

section \<open>The ingress warp\<close>

lemma inv_ingress:
  assumes "pipeline_inv k memory s" and "arrived k (s\<lparr>pl_ingress := pc, pl_task_head := h\<rparr>) = arrived k s"
    and "ingress_ok k (s\<lparr>pl_ingress := pc, pl_task_head := h\<rparr>)"
  shows "pipeline_inv k memory (s\<lparr>pl_ingress := pc, pl_task_head := h\<rparr>)"
proof (rule pipeline_invI)
  note I = pipeline_invD [OF assms(1)]
  show "copier_ok k (s\<lparr>pl_ingress := pc, pl_task_head := h\<rparr>) owner" if "owner < W k" for owner
    by (rule copier_ok_mono [OF I(5) [OF that]]) (use assms(2) in simp_all)
qed (use pipeline_invD [OF assms(1)] assms(2,3) in simp_all)

lemma inv_ingress_pc:
  assumes "pipeline_inv k memory s" and "arrived k (s\<lparr>pl_ingress := pc\<rparr>) = arrived k s" and "ingress_ok k (s\<lparr>pl_ingress := pc\<rparr>)"
  shows "pipeline_inv k memory (s\<lparr>pl_ingress := pc\<rparr>)"
proof -
  have "s\<lparr>pl_ingress := pc\<rparr> = s\<lparr>pl_ingress := pc, pl_task_head := pl_task_head s\<rparr>" by (cases s) simp
  then show ?thesis using inv_ingress [where h = "pl_task_head s" and pc = pc, OF assms(1)] assms(2,3) by simp
qed

lemma ingress_step_inv:
  assumes inv: "pipeline_inv k memory s" and step: "ingress_step k s = Some s'" and bound: "Nsub s + 64 < 18446744073709551616"
  shows "pipeline_inv k memory s'"
proof -
  note I = pipeline_invD [OF inv] and Q = queue_okD [OF pipeline_invD(2) [OF inv]]
  note H = ingress_headD [OF I(4,1)]
  show ?thesis
  proof (cases "pl_ingress s")
    case In_poll
    let ?lanes = "replicate (meta_batch (qm_task_tail (mapped s) - pl_task_head s)) Lane_wait"
    show ?thesis
    proof (cases "pl_task_head s < qm_task_tail (mapped s)")
      case True
      then have s': "s' = s\<lparr>pl_ingress := In_transfer ?lanes\<rparr>" using step In_poll by (simp add: ingress_step_def)
      show ?thesis unfolding s'
      proof (rule inv_ingress_pc [OF inv])
        show "arrived k (s\<lparr>pl_ingress := In_transfer ?lanes\<rparr>) = arrived k s"
          using In_poll by (simp add: arrived_def in_lanes_def fun_eq_iff lanes_done_waiting)
        show "ingress_ok k (s\<lparr>pl_ingress := In_transfer ?lanes\<rparr>)"
          using meta_batch_value [OF True] Q(8) H(1) by (simp add: ingress_ok_def in_lanes_def Let_def)
      qed
    next
      case False
      then have "s' = s\<lparr>pl_ingress := In_check_stop\<rparr>" using step In_poll by (simp add: ingress_step_def)
      then show ?thesis using In_poll H(1)
        by (auto intro!: inv_ingress_pc [OF inv] simp: arrived_def in_lanes_def ingress_ok_def)
    qed
  next
    case In_check_stop
    then have "s' = s\<lparr>pl_ingress := (if qm_stop_requested (mapped s) \<noteq> 0 then In_recheck else In_poll)\<rparr>"
      using step by (simp add: ingress_step_def)
    then show ?thesis using In_check_stop H(1)
      by (auto intro!: inv_ingress_pc [OF inv] simp: arrived_def in_lanes_def ingress_ok_def)
  next
    case In_recheck
    let ?pc = "if pl_task_head s \<ge> qm_task_tail (mapped s) then In_pills (replicate (W k) Lane_wait) else In_poll"
    have s': "s' = s\<lparr>pl_ingress := ?pc\<rparr>" using step In_recheck by (simp add: ingress_step_def)
    have "qm_stop_requested (mapped s) \<noteq> 0" using I(4) In_recheck by (simp add: ingress_ok_def Let_def)
    moreover have "unat (pl_task_head s) = Nsub s" if "pl_task_head s \<ge> qm_task_tail (mapped s)"
      using that Q(8) H(1) by (simp add: word_le_nat_alt)
    ultimately show ?thesis unfolding s' using In_recheck H(1)
      by (intro inv_ingress_pc [OF inv]) (auto simp: arrived_def in_lanes_def fun_eq_iff lanes_done_waiting ingress_ok_def)
  next
    case (In_transfer lanes)
    then have ad: "list_all (\<lambda>pc. pc = Lane_done) lanes"
      and s': "s' = s\<lparr>pl_ingress := In_poll, pl_task_head := pl_task_head s + of_nat (length lanes)\<rparr>"
      using step by (simp_all add: ingress_step_def split: if_split_asm)
    have l: "unat (pl_task_head s) + length lanes \<le> Nsub s" using I(4) In_transfer by (simp add: ingress_ok_def Let_def)
    then have u: "unat (pl_task_head s + of_nat (length lanes)) = unat (pl_task_head s) + length lanes"
      using bound by (intro lane_index) simp
    show ?thesis unfolding s'
      by (intro inv_ingress [OF inv])
        (use In_transfer ad l u in \<open>simp_all add: arrived_def in_lanes_def fun_eq_iff lanes_done_all ingress_ok_def\<close>)
  next
    case (In_pills lanes)
    then have ad: "list_all (\<lambda>pc. pc = Lane_done) lanes" and s': "s' = s\<lparr>pl_ingress := In_exited\<rparr>"
      using step by (simp_all add: ingress_step_def split: if_split_asm)
    have l: "unat (pl_task_head s) = Nsub s" "length lanes = W k" "qm_stop_requested (mapped s) \<noteq> 0"
      using I(4) In_pills by (simp_all add: ingress_ok_def Let_def)
    have "list_all (\<lambda>pc. pc = Lane_done) (replicate (W k) Lane_done)" by (simp add: list_all_length)
    from lanes_done_all [OF this] show ?thesis unfolding s'
      by (intro inv_ingress_pc [OF inv])
        (use In_pills ad l in \<open>simp_all add: arrived_def in_lanes_def fun_eq_iff lanes_done_all ingress_ok_def\<close>)
  next
    case In_exited
    then show ?thesis using step by (simp add: ingress_step_def)
  qed
qed

section \<open>The lanes of the ingress warp\<close>

definition with_lanes :: "ingress_pc \<Rightarrow> lane_pc list \<Rightarrow> ingress_pc" where
  "with_lanes pc lanes = (case pc of In_transfer _ \<Rightarrow> In_transfer lanes | In_pills _ \<Rightarrow> In_pills lanes | _ \<Rightarrow> pc)"

text \<open>Everything published is finished, so every polled task has arrived.\<close>

lemma published_finished:
  assumes "pipeline_inv k memory s" "i < unat (qm_completion_tail (mapped s))"
  shows "finished k s i"
proof -
  note I = pipeline_invD [OF assms(1)]
  let ?e = "unat (pl_completion_head s)"
  have "finished k s i" if "i < ?e"
    using channelD(3) [OF I(9), of i] that by (simp add: collected_def lanes_done_def)
  moreover have "finished k s i" if "\<not> i < ?e"
  proof -
    have "\<exists>n. i = ?e + n" using that by (intro exI [of _ "i - ?e"]) simp
    then obtain n where n: "i = ?e + n" by blast
    show ?thesis using I(6) assms(2) that unfolding n
      by (cases "pl_egress s") (auto simp: egress_ok_def Let_def split: if_split_asm)
  qed
  ultimately show ?thesis by blast
qed

lemma unarrived_unpolled:
  assumes "pipeline_inv k memory s" "\<not> arrived k s i"
  shows "Npol s \<le> i"
proof (rule ccontr)
  note I = pipeline_invD [OF assms(1)] and Q = queue_okD [OF pipeline_invD(2) [OF assms(1)]]
  assume "\<not> Npol s \<le> i"
  then have "finished k s i" using published_finished [OF assms(1), of i] Q(11,12) by simp
  then show False using channelD(3) [OF I(8)] finished_taken assms(2) by blast
qed

lemma external_task:
  assumes "queue_ok k s" "Npol s \<le> i" "i < Nsub s" "unat index = i"
  shows "qm_task_slots (mapped s) ! unat (index AND ka_capacity_mask k) = task_at (pl_submitted s) i"
proof -
  note Q = queue_okD [OF assms(1)]
  have "unat (index AND ka_capacity_mask k) = i mod unat (wq_capacity (pl_queue s))"
    using unat_and_pred [OF Q(17), of index] Q(3) assms(4) by simp
  then show ?thesis using ring_holdsD(5) [OF Q(4), of "i - Npol s"] Q(5) assms(2,3) by (simp add: task_at_def)
qed

lemma ingress_ok_lane:
  assumes "ingress_ok k s" and L: "pl_ingress s = In_transfer lanes \<or> pl_ingress s = In_pills lanes" and n: "n < length lanes"
    and pc: "pc \<noteq> Lane_publish"
      "pc = Lane_store \<or> pc = Lane_arrive \<Longrightarrow> W k * D k \<le> unat (pl_task_head s) + n \<Longrightarrow> taken k s (unat (pl_task_head s) + n - W k * D k)"
      "pc = Lane_arrive \<Longrightarrow> ss_content (ts (slot_at (D k) (W k) (unat (pl_task_head s) + n))) = task_at (pl_submitted s) (unat (pl_task_head s) + n)"
    and others: "\<And>m. m < length lanes \<Longrightarrow> m \<noteq> n \<Longrightarrow>
      ss_content (ts (slot_at (D k) (W k) (unat (pl_task_head s) + m))) = ss_content (pl_task_slots s (slot_at (D k) (W k) (unat (pl_task_head s) + m)))"
  shows "ingress_ok k (s\<lparr>pl_task_slots := ts, pl_ingress := with_lanes (pl_ingress s) (lanes[n := pc])\<rparr>)"
proof -
  have old: "in_lanes (W k) (pl_ingress s) = lanes" using L by (auto simp: in_lanes_def)
  note O = ingress_lanesD [OF assms(1), unfolded old]
  have each: "(let p = lanes[n := pc] ! m; i = unat (pl_task_head s) + m
       in p \<noteq> Lane_publish \<and> (p = Lane_store \<or> p = Lane_arrive \<longrightarrow> W k * D k \<le> i \<longrightarrow> taken k s (i - W k * D k)) \<and>
          (p = Lane_arrive \<longrightarrow> ss_content (ts (slot_at (D k) (W k) i)) = task_at (pl_submitted s) i))" if "m < length lanes" for m
  proof (cases "m = n")
    case True
    then show ?thesis using n pc by (simp add: Let_def)
  next
    case False
    then show ?thesis using O [OF that] others [OF that False] by (auto simp: Let_def)
  qed
  from L show ?thesis
  proof
    assume T: "pl_ingress s = In_transfer lanes"
    show ?thesis using assms(1) each unfolding ingress_ok_def by (simp add: T in_lanes_def with_lanes_def Let_def)
  next
    assume T: "pl_ingress s = In_pills lanes"
    show ?thesis using assms(1) each unfolding ingress_ok_def by (simp add: T in_lanes_def with_lanes_def Let_def)
  qed
qed

lemma arrived_lane:
  assumes "pl_ingress s = In_transfer lanes \<or> pl_ingress s = In_pills lanes" "n < length lanes" "lanes ! n \<noteq> Lane_done"
  shows "arrived k (s\<lparr>pl_ingress := with_lanes (pl_ingress s) (lanes[n := pc])\<rparr>) j \<longleftrightarrow>
      arrived k s j \<or> (j = unat (pl_task_head s) + n \<and> pc = Lane_done)"
    "\<not> arrived k s (unat (pl_task_head s) + n)"
  using assms lanes_done_lane [of n lanes "unat (pl_task_head s)"]
  by (cases "j = unat (pl_task_head s) + n", auto simp: arrived_def in_lanes_def with_lanes_def lanes_done_update)

text \<open>A lane's step: the two parts of the invariant it touches decide.\<close>

lemma inv_ingress_lane:
  assumes inv: "pipeline_inv k memory s"
    and "ingress_ok k (s\<lparr>pl_task_slots := ts, pl_ingress := pc\<rparr>)"
    and "channel (D k) (W k) (arrived k (s\<lparr>pl_ingress := pc\<rparr>)) (taken k s) (task_at (pl_submitted s)) ts"
    and "\<And>j. arrived k s j \<Longrightarrow> arrived k (s\<lparr>pl_ingress := pc\<rparr>) j"
  shows "pipeline_inv k memory (s\<lparr>pl_task_slots := ts, pl_ingress := pc\<rparr>)"
proof (rule pipeline_invI)
  note I = pipeline_invD [OF inv]
  have arr: "arrived k (s\<lparr>pl_task_slots := ts, pl_ingress := pc\<rparr>) = arrived k (s\<lparr>pl_ingress := pc\<rparr>)" by (simp add: arrived_def)
  show "copier_ok k (s\<lparr>pl_task_slots := ts, pl_ingress := pc\<rparr>) owner" if "owner < W k" for owner
    by (rule copier_ok_mono [OF I(5) [OF that]]) (use assms(4) arr in simp_all)
  show "task_channel k (s\<lparr>pl_task_slots := ts, pl_ingress := pc\<rparr>)" using assms(3) arr by simp
qed (use pipeline_invD [OF inv] assms(2) in simp_all)

lemma put_task_inv:
  assumes inv: "pipeline_inv k memory s" and L: "pl_ingress s = In_transfer lanes \<or> pl_ingress s = In_pills lanes"
    and n: "n < length lanes" and u: "unat index = unat (pl_task_head s) + n"
    and task: "task = task_at (pl_submitted s) (unat (pl_task_head s) + n)"
    and step: "put_task k index task (lanes ! n) s = Some (pc, s1)"
  shows "pipeline_inv k memory (s1\<lparr>pl_ingress := with_lanes (pl_ingress s) (lanes[n := pc])\<rparr>)"
proof -
  note I = pipeline_invD [OF inv]
  note K = args_okD [OF I(1)]
  let ?i = "unat (pl_task_head s) + n"
  let ?slot = "slot_at (D k) (W k) ?i"
  have lanes: "in_lanes (W k) (pl_ingress s) = lanes" using L by (auto simp: in_lanes_def)
  have slot: "index_slot k index = ?slot" "index_phase k index \<longleftrightarrow> odd (round_at (D k) (W k) ?i)"
    using index_slot_value [OF I(1), of index] u by simp_all
  have len: "length lanes \<le> 32" using ingress_headD(2) [OF I(4,1)] lanes by simp
  have nd: "lanes ! n \<noteq> Lane_done" using step by (auto simp: put_task_def split: lane_pc.split_asm)
  note A = arrived_lane [OF L n nd]
  have prev: "arrived k s (?i - W k * D k)" if "W k * D k \<le> ?i"
  proof -
    have "?i - W k * D k < unat (pl_task_head s)" using that K(5) len n by linarith
    then show ?thesis by (simp add: arrived_def lanes_done_def)
  qed
  note LD = ingress_lanesD [OF I(4), unfolded lanes, OF n]
  have other: "slot_at (D k) (W k) (unat (pl_task_head s) + m) \<noteq> ?slot" if "m < length lanes" "m \<noteq> n" for m
    using window_slots_neq [OF K(1,2,5), of "unat (pl_task_head s) + m" ?i] that n len by simp
  consider "lanes ! n = Lane_wait" | "lanes ! n = Lane_store" | "lanes ! n = Lane_arrive"
    using nd LD(1) by (cases "lanes ! n") auto
  then show ?thesis
  proof cases
    case 1
    then have r: "pc = Lane_store" "s1 = s" "try_wait_parity (ss_consumed (pl_task_slots s ?slot)) (\<not> odd (round_at (D k) (W k) ?i))"
      using step slot by (simp_all add: put_task_def Let_def split: if_split_asm)
    have guard: "taken k s (?i - W k * D k)" if "W k * D k \<le> ?i"
      using r(3) producer_wait [OF K(1,2) I(8) A(2) prev] that by simp
    have eq: "s\<lparr>pl_ingress := with_lanes (pl_ingress s) (lanes[n := pc])\<rparr> =
        s\<lparr>pl_task_slots := pl_task_slots s, pl_ingress := with_lanes (pl_ingress s) (lanes[n := pc])\<rparr>" by (cases s) simp
    show ?thesis unfolding r(2) eq
    proof (rule inv_ingress_lane [OF inv])
      show "ingress_ok k (s\<lparr>pl_task_slots := pl_task_slots s, pl_ingress := with_lanes (pl_ingress s) (lanes[n := pc])\<rparr>)"
        by (rule ingress_ok_lane [OF I(4) L n]) (use r(1) guard in auto)
      have "arrived k (s\<lparr>pl_ingress := with_lanes (pl_ingress s) (lanes[n := pc])\<rparr>) = arrived k s" using A(1) r(1) by (auto simp: fun_eq_iff)
      then show "channel (D k) (W k) (arrived k (s\<lparr>pl_ingress := with_lanes (pl_ingress s) (lanes[n := pc])\<rparr>)) (taken k s)
          (task_at (pl_submitted s)) (pl_task_slots s)" using I(8) by simp
    qed (use A(1) in blast)
  next
    case 2
    let ?ts = "(pl_task_slots s)(?slot := (pl_task_slots s ?slot)\<lparr>ss_content := task\<rparr>)"
    have r: "pc = Lane_arrive" "s1 = s\<lparr>pl_task_slots := ?ts\<rparr>"
      using step slot 2 by (simp_all add: put_task_def Let_def)
    have guard: "taken k s (?i - W k * D k)" if "W k * D k \<le> ?i" using LD(2) 2 that by simp
    show ?thesis unfolding r(2)
    proof (rule inv_ingress_lane [OF inv])
      show "ingress_ok k (s\<lparr>pl_task_slots := ?ts, pl_ingress := with_lanes (pl_ingress s) (lanes[n := pc])\<rparr>)"
        by (rule ingress_ok_lane [OF I(4) L n]) (use r(1) guard other task in auto)
      have "arrived k (s\<lparr>pl_ingress := with_lanes (pl_ingress s) (lanes[n := pc])\<rparr>) = arrived k s" using A(1) r(1) by (auto simp: fun_eq_iff)
      then show "channel (D k) (W k) (arrived k (s\<lparr>pl_ingress := with_lanes (pl_ingress s) (lanes[n := pc])\<rparr>)) (taken k s)
          (task_at (pl_submitted s)) ?ts" using channel_store [OF K(1,2) I(8) A(2) guard] by simp
    qed (use A(1) in blast)
  next
    case 3
    let ?ts = "(pl_task_slots s)(?slot := (pl_task_slots s ?slot)\<lparr>ss_ready := ss_ready (pl_task_slots s ?slot) + 1\<rparr>)"
    have r: "pc = Lane_done" "s1 = s\<lparr>pl_task_slots := ?ts\<rparr>"
      using step slot 3 by (simp_all add: put_task_def Let_def)
    have guard: "taken k s (?i - W k * D k)" if "W k * D k \<le> ?i" using LD(2) 3 that by simp
    show ?thesis unfolding r(2)
    proof (rule inv_ingress_lane [OF inv])
      show "ingress_ok k (s\<lparr>pl_task_slots := ?ts, pl_ingress := with_lanes (pl_ingress s) (lanes[n := pc])\<rparr>)"
        by (rule ingress_ok_lane [OF I(4) L n]) (use r(1) in auto)
      show "channel (D k) (W k) (arrived k (s\<lparr>pl_ingress := with_lanes (pl_ingress s) (lanes[n := pc])\<rparr>)) (taken k s)
          (task_at (pl_submitted s)) ?ts"
        by (rule channel_arrive [OF K(1,2) I(8) A(2) prev guard LD(3) [OF 3]]) (use A(1) r(1) in simp_all)
    qed (use A(1) in blast)
  qed
qed

lemma ingress_lane_inv:
  assumes inv: "pipeline_inv k memory s" and step: "ingress_lane k n s = Some s'" and bound: "Nsub s + 64 < 18446744073709551616"
  shows "pipeline_inv k memory s'"
proof -
  note I = pipeline_invD [OF inv]
  note H = ingress_headD [OF I(4,1)]
  obtain lanes where L: "pl_ingress s = In_transfer lanes \<or> pl_ingress s = In_pills lanes" and n: "n < length lanes"
    using step by (auto simp: ingress_lane_def Let_def split: ingress_pc.split_asm if_split_asm)
  have "n < 32" using n H(2) L by (auto simp: in_lanes_def)
  then have u: "unat (pl_task_head s + of_nat n) = unat (pl_task_head s) + n" using H(1) bound by (intro lane_index) simp
  let ?index = "pl_task_head s + of_nat n"
  show ?thesis
  proof (cases "pl_ingress s = In_transfer lanes")
    case True
    let ?task = "qm_task_slots (mapped s) ! unat (?index AND ka_capacity_mask k)"
    obtain pc s1 where p: "put_task k ?index ?task (lanes ! n) s = Some (pc, s1)"
        and s': "s' = s1\<lparr>pl_ingress := with_lanes (pl_ingress s) (lanes[n := pc])\<rparr>"
      using step True n by (auto simp: ingress_lane_def Let_def with_lanes_def)
    have nd: "lanes ! n \<noteq> Lane_done" using p by (auto simp: put_task_def split: lane_pc.split_asm)
    have "unat (pl_task_head s) + n < Nsub s" using I(4) True n by (auto simp: ingress_ok_def Let_def)
    then have t: "?task = task_at (pl_submitted s) (unat (pl_task_head s) + n)"
      using external_task [OF I(2) unarrived_unpolled [OF inv arrived_lane(2) [OF L n nd]] _ u] by simp
    show ?thesis unfolding s' by (rule put_task_inv [OF inv L n u t p])
  next
    case False
    then have P: "pl_ingress s = In_pills lanes" using L by blast
    obtain pc s1 where p: "put_task k ?index zero_task (lanes ! n) s = Some (pc, s1)"
        and s': "s' = s1\<lparr>pl_ingress := with_lanes (pl_ingress s) (lanes[n := pc])\<rparr>"
      using step P n by (auto simp: ingress_lane_def Let_def with_lanes_def)
    have t: "zero_task = task_at (pl_submitted s) (unat (pl_task_head s) + n)"
      using I(4) P by (simp add: ingress_ok_def Let_def task_at_def)
    show ?thesis unfolding s' by (rule put_task_inv [OF inv L n u t p])
  qed
qed

end
