(* ===== verification/Pipeline_Copiers.thy ===== *)
theory Pipeline_Copiers
  imports Copy_Pipeline_Inv
begin

unbundle bit_operations_syntax

text \<open>
  The copy warps of the pipeline kernel keep the invariant: a warp takes the task of its index, performs its accesses, and stores the completion
  only into a slot the egress warp has given back.
\<close>

section \<open>What a copy warp changes\<close>

lemma index_parts: "0 < w \<Longrightarrow> owner < w \<Longrightarrow> j mod w = owner \<and> j div w = l \<longleftrightarrow> j = l * w + owner" for j :: nat
  using div_mult_mod_eq [of j w] by auto

lemma taken_update:
  assumes "owner < W k"
  shows "taken k (s\<lparr>pl_copiers := (pl_copiers s)(owner := pc)\<rparr>) j \<longleftrightarrow>
    (if j = copier_index k s owner then consumed_pc pc else taken k s j)"
proof (cases "j = copier_index k s owner")
  case True
  then show ?thesis using copier_index_parts [OF assms, of s] by (simp add: taken_def Let_def)
next
  case False
  then have "\<not> (j mod W k = owner \<and> j div W k = unat (pl_local_index s owner))"
    using index_parts [of "W k" owner j] assms unfolding copier_index_def by simp
  then show ?thesis using False by (auto simp: taken_def Let_def)
qed

lemma advance_updates:
  fixes cs :: "nat \<Rightarrow> copy_completion shared_slot"
  assumes "owner < W k" "unat (pl_local_index s owner + 1) = unat (pl_local_index s owner) + 1" "consumed_pc (pl_copiers s owner)"
  defines "s' \<equiv> s\<lparr>pl_completion_slots := cs, pl_local_index := (pl_local_index s)(owner := pl_local_index s owner + 1),
      pl_copiers := (pl_copiers s)(owner := Await_task)\<rparr>"
  shows "finished k s' j \<longleftrightarrow> finished k s j \<or> j = copier_index k s owner" "taken k s' = taken k s"
proof -
  have idx: "j mod W k = owner \<and> j div W k = unat (pl_local_index s owner) \<longleftrightarrow> j = copier_index k s owner" for j
    using index_parts [of "W k" owner j] assms(1) unfolding copier_index_def by simp
  show "finished k s' j \<longleftrightarrow> finished k s j \<or> j = copier_index k s owner"
    using idx [of j] assms(2) by (auto simp: finished_def s'_def less_Suc_eq)
  have "taken k s' i \<longleftrightarrow> taken k s i" for i
    using assms(2,3) by (auto simp: taken_def s'_def Let_def less_Suc_eq)
  then show "taken k s' = taken k s" by blast
qed

lemma ingress_ok_mono:
  assumes "ingress_ok k s" "pl_ingress s' = pl_ingress s" "pl_task_head s' = pl_task_head s" "pl_submitted s' = pl_submitted s"
    and "qm_stop_requested (mapped s) \<noteq> 0 \<Longrightarrow> qm_stop_requested (mapped s') \<noteq> 0" "\<And>i. taken k s i \<Longrightarrow> taken k s' i"
    and "\<And>slot. ss_content (pl_task_slots s' slot) = ss_content (pl_task_slots s slot)"
  shows "ingress_ok k s'"
  using assms unfolding ingress_ok_def Let_def by (cases "pl_ingress s") auto

lemma egress_ok_mono:
  assumes "egress_ok k s" "pl_egress s' = pl_egress s" "pl_completion_head s' = pl_completion_head s" "pl_submitted s' = pl_submitted s"
    and "pl_queue s' = pl_queue s" "\<And>i. finished k s i \<Longrightarrow> finished k s' i"
  shows "egress_ok k s'"
proof -
  have "mapped s' = mapped s" "external_completion s' = external_completion s"
    using assms(5) by (simp_all add: mapped_def external_completion_def fun_eq_iff)
  then show ?thesis using assms(1-4,6) unfolding egress_ok_def Let_def by (cases "pl_egress s") auto
qed

lemma other_owner:
  assumes "0 < D k" "owner < W k" "owner' < W k" "owner' \<noteq> owner"
  shows "slot_at (D k) (W k) (copier_index k s owner') \<noteq> slot_at (D k) (W k) (copier_index k s owner)"
  using slot_atD(1) [OF assms(1)] copier_index_parts(1) [OF assms(2)] copier_index_parts(1) [OF assms(3)] assms(4) by metis

text \<open>A warp moves on without touching shared memory.\<close>

lemma inv_copier_pc:
  assumes inv: "pipeline_inv k memory s" and o: "owner < W k" and same: "consumed_pc pc = consumed_pc (pl_copiers s owner)"
    and ok: "copier_ok k (s\<lparr>pl_copiers := (pl_copiers s)(owner := pc)\<rparr>) owner"
    and copies: "copies_ok k memory (s\<lparr>pl_copiers := (pl_copiers s)(owner := pc)\<rparr>)"
  shows "pipeline_inv k memory (s\<lparr>pl_copiers := (pl_copiers s)(owner := pc)\<rparr>)"
proof (rule pipeline_invI)
  let ?s = "s\<lparr>pl_copiers := (pl_copiers s)(owner := pc)\<rparr>"
  note I = pipeline_invD [OF inv]
  have t: "taken k ?s = taken k s" using taken_update [OF o, of s pc] taken_copier [OF o, of s] same by (auto simp: fun_eq_iff)
  show "copier_ok k ?s o'" if "o' < W k" for o'
  proof (cases "o' = owner")
    case False
    then show ?thesis by (intro copier_ok_mono [OF I(5) [OF that]]) simp_all
  qed (use ok in simp)
  show "ingress_ok k ?s" by (rule ingress_ok_mono [OF I(4)]) (simp_all add: t)
  show "task_channel k ?s" using I(8) by (simp add: t)
qed (use pipeline_invD [OF inv] copies in simp_all)

lemma copies_ok_pc:
  assumes "copies_ok k memory s"
    and "case pc of
           Copying t lanes \<Rightarrow> accesses k t \<subseteq> set (pl_accesses s) \<union> \<Union> (set ` set lanes) \<and> \<Union> (set ` set lanes) \<subseteq> accesses k t
         | Await_completion t \<Rightarrow> accesses k t \<subseteq> set (pl_accesses s)
         | Store_completion t \<Rightarrow> accesses k t \<subseteq> set (pl_accesses s)
         | Publish_completion t \<Rightarrow> accesses k t \<subseteq> set (pl_accesses s)
         | _ \<Rightarrow> True"
  shows "copies_ok k memory (s\<lparr>pl_copiers := (pl_copiers s)(owner := pc)\<rparr>)"
  using assms unfolding copies_ok_def by (simp cong: copier_pc.case_cong)

lemma copies_okD:
  assumes "copies_ok k memory s"
  shows "pl_memory s = fold copy_cg (pl_accesses s) memory"
    "finished k s i \<Longrightarrow> accesses k (task_at (pl_submitted s) i) \<subseteq> set (pl_accesses s)"
    "a \<in> set (pl_accesses s) \<Longrightarrow> \<exists>task \<in> set (pl_submitted s). a \<in> accesses k task"
    "owner < W k \<Longrightarrow> (case pl_copiers s owner of
           Copying t lanes \<Rightarrow> accesses k t \<subseteq> set (pl_accesses s) \<union> \<Union> (set ` set lanes) \<and> \<Union> (set ` set lanes) \<subseteq> accesses k t
         | Await_completion t \<Rightarrow> accesses k t \<subseteq> set (pl_accesses s)
         | Store_completion t \<Rightarrow> accesses k t \<subseteq> set (pl_accesses s)
         | Publish_completion t \<Rightarrow> accesses k t \<subseteq> set (pl_accesses s)
         | _ \<Rightarrow> True)"
  using assms unfolding copies_ok_def by blast+

section \<open>Taking a task\<close>

lemma consume_inv:
  assumes inv: "pipeline_inv k memory s" and o: "owner < W k" and old: "pl_copiers s owner = Consume_task task"
    and new: "consumed_pc pc" "pc = Copier_exited \<and> ct_length task = 0 \<or>
        (\<exists>lanes. pc = Copying task lanes \<and> ct_length task \<noteq> 0 \<and> task_accesses k task = Some lanes)"
  defines "slot \<equiv> slot_at (D k) (W k) (copier_index k s owner)"
  shows "pipeline_inv k memory (s\<lparr>pl_task_slots := (pl_task_slots s)(slot := (pl_task_slots s slot)\<lparr>ss_consumed := ss_consumed (pl_task_slots s slot) + 1\<rparr>),
      pl_copiers := (pl_copiers s)(owner := pc)\<rparr>)"
proof -
  let ?ts = "(pl_task_slots s)(slot := (pl_task_slots s slot)\<lparr>ss_consumed := ss_consumed (pl_task_slots s slot) + 1\<rparr>)"
  let ?s = "s\<lparr>pl_task_slots := ?ts, pl_copiers := (pl_copiers s)(owner := pc)\<rparr>"
  let ?i = "copier_index k s owner"
  note I = pipeline_invD [OF inv]
  note K = args_okD [OF I(1)]
  have c: "arrived k s ?i" "task = task_at (pl_submitted s) ?i" using I(5) [OF o] old by (simp_all add: copier_ok_def Let_def)
  have nt: "\<not> taken k s ?i" using taken_copier [OF o, of s] old by simp
  have t: "taken k ?s j \<longleftrightarrow> taken k s j \<or> j = ?i" for j
    using taken_update [OF o, of s pc j] new(1) nt by (auto simp: taken_def Let_def)
  have pos: "?i < Nsub s \<longleftrightarrow> ct_length task \<noteq> 0"
  proof
    assume "?i < Nsub s"
    then have "well_formed_task task" using queue_okD(10) [OF I(2)] c(2) by (simp add: task_at_def list_all_length)
    then show "ct_length task \<noteq> 0" by (simp add: well_formed_task_def)
  next
    assume "ct_length task \<noteq> 0"
    then show "?i < Nsub s" using c(2) by (auto simp: task_at_def zero_task_def split: if_split_asm)
  qed
  show ?thesis
  proof (rule pipeline_invI)
    show "copier_ok k ?s o'" if "o' < W k" for o'
    proof (cases "o' = owner")
      case True
      have "0 < unat (pl_local_index s owner) \<longrightarrow> ?i - W k < Nsub s" using I(5) [OF o] by (simp add: copier_ok_def Let_def)
      then show ?thesis using new(2) c pos arrived_pill [OF I(4) c(1)] unfolding True
        by (auto simp: copier_ok_def copier_index_def Let_def)
    next
      case False
      then show ?thesis by (intro copier_ok_mono [OF I(5) [OF that]]) simp_all
    qed
    show "ingress_ok k ?s" by (rule ingress_ok_mono [OF I(4)]) (use t in simp_all)
    show "task_channel k ?s" using channel_consume [OF K(1,2) I(8) c(1) nt, of "taken k ?s"] t by (simp add: slot_def)
    have "copies_ok k memory (s\<lparr>pl_copiers := (pl_copiers s)(owner := pc)\<rparr>)"
      by (rule copies_ok_pc [OF I(7)]) (use new(2) accesses_some in auto)
    then show "copies_ok k memory ?s" unfolding copies_ok_def by (simp add: finished_def cong: copier_pc.case_cong)
  qed (use I in simp_all)
qed

section \<open>Storing a completion\<close>

lemma store_completion_inv:
  assumes inv: "pipeline_inv k memory s" and o: "owner < W k" and old: "pl_copiers s owner = Store_completion task"
  defines "slot \<equiv> slot_at (D k) (W k) (copier_index k s owner)"
  shows "pipeline_inv k memory (s\<lparr>pl_completion_slots := (pl_completion_slots s)(slot := (pl_completion_slots s slot)\<lparr>ss_content := completion_of task\<rparr>),
      pl_copiers := (pl_copiers s)(owner := Publish_completion task)\<rparr>)"
proof -
  let ?cs = "(pl_completion_slots s)(slot := (pl_completion_slots s slot)\<lparr>ss_content := completion_of task\<rparr>)"
  let ?s = "s\<lparr>pl_completion_slots := ?cs, pl_copiers := (pl_copiers s)(owner := Publish_completion task)\<rparr>"
  let ?i = "copier_index k s owner"
  note I = pipeline_invD [OF inv]
  note K = args_okD [OF I(1)]
  have c: "?i < Nsub s" "task = task_at (pl_submitted s) ?i" "W k * D k \<le> ?i \<Longrightarrow> collected s (?i - W k * D k)"
    using I(5) [OF o] old by (simp_all add: copier_ok_def Let_def)
  have t: "taken k ?s = taken k s"
    using taken_update [OF o, of s "Publish_completion task"] taken_copier [OF o, of s] old by (auto simp: fun_eq_iff taken_def Let_def)
  show ?thesis
  proof (rule pipeline_invI)
    show "copier_ok k ?s o'" if "o' < W k" for o'
    proof (cases "o' = owner")
      case True
      then show ?thesis using c I(5) [OF o] by (auto simp: copier_ok_def copier_index_def Let_def slot_def)
    next
      case False
      then show ?thesis using other_owner [OF K(1) o that False, of s]
        by (intro copier_ok_mono [OF I(5) [OF that]]) (simp_all add: slot_def)
    qed
    show "ingress_ok k ?s" by (rule ingress_ok_mono [OF I(4)]) (use t in simp_all)
    show "task_channel k ?s" using I(8) t by simp
    show "completion_channel k ?s"
      using channel_store [OF K(1,2) I(9) not_finished_copier [OF o] c(3)] unfolding slot_def by (simp add: finished_def [abs_def])
    have "copies_ok k memory (s\<lparr>pl_copiers := (pl_copiers s)(owner := Publish_completion task)\<rparr>)"
      by (rule copies_ok_pc [OF I(7)]) (use copies_okD(4) [OF I(7) o] old in simp)
    then show "copies_ok k memory ?s" unfolding copies_ok_def by (simp add: finished_def cong: copier_pc.case_cong)
  qed (use I in simp_all)
qed

lemma publish_completion_inv:
  assumes inv: "pipeline_inv k memory s" and o: "owner < W k" and old: "pl_copiers s owner = Publish_completion task"
    and bound: "Nsub s + 64 < 18446744073709551616"
  defines "slot \<equiv> slot_at (D k) (W k) (copier_index k s owner)"
  shows "pipeline_inv k memory (s\<lparr>pl_completion_slots := (pl_completion_slots s)(slot := (pl_completion_slots s slot)\<lparr>ss_ready := ss_ready (pl_completion_slots s slot) + 1\<rparr>),
      pl_local_index := (pl_local_index s)(owner := pl_local_index s owner + 1), pl_copiers := (pl_copiers s)(owner := Await_task)\<rparr>)"
proof -
  let ?cs = "(pl_completion_slots s)(slot := (pl_completion_slots s slot)\<lparr>ss_ready := ss_ready (pl_completion_slots s slot) + 1\<rparr>)"
  let ?s = "s\<lparr>pl_completion_slots := ?cs, pl_local_index := (pl_local_index s)(owner := pl_local_index s owner + 1), pl_copiers := (pl_copiers s)(owner := Await_task)\<rparr>"
  let ?i = "copier_index k s owner"
  note I = pipeline_invD [OF inv]
  note K = args_okD [OF I(1)]
  have c: "?i < Nsub s" "task = task_at (pl_submitted s) ?i" "W k * D k \<le> ?i \<Longrightarrow> collected s (?i - W k * D k)"
      "ss_content (pl_completion_slots s slot) = completion_of (task_at (pl_submitted s) ?i)"
    using I(5) [OF o] old by (simp_all add: copier_ok_def Let_def slot_def)
  have "unat (pl_local_index s owner) \<le> ?i" using K(2) by (cases "W k") (simp_all add: copier_index_def)
  then have u: "unat (pl_local_index s owner + 1) = unat (pl_local_index s owner) + 1"
    using c(1) bound unat_add_u64 [of "pl_local_index s owner" 1] by simp
  have "consumed_pc (pl_copiers s owner)" using old by simp
  note A = advance_updates [OF o u this, of ?cs]
  have idx: "copier_index k ?s owner = ?i + W k" using u by (simp add: copier_index_def algebra_simps)
  show ?thesis
  proof (rule pipeline_invI)
    show "copier_ok k ?s o'" if "o' < W k" for o'
    proof (cases "o' = owner")
      case True
      then show ?thesis using c(1) idx by (auto simp: copier_ok_def Let_def)
    next
      case False
      then show ?thesis by (intro copier_ok_mono [OF I(5) [OF that]]) simp_all
    qed
    show "ingress_ok k ?s" by (rule ingress_ok_mono [OF I(4)]) (use A(2) in simp_all)
    show "egress_ok k ?s" by (rule egress_ok_mono [OF I(6)]) (use A(1) in simp_all)
    show "task_channel k ?s" using I(8) A(2) by simp
    have prev: "finished k s (?i - W k * D k)" if "W k * D k \<le> ?i" using previous_round(2) [OF I(1) o that] .
    have "channel (D k) (W k) (finished k ?s) (collected s) (\<lambda>i. completion_of (task_at (pl_submitted s) i)) ?cs"
      unfolding slot_def
      by (rule channel_arrive [OF K(1,2) I(9) not_finished_copier [OF o] prev c(3)])
        (use c(4) A(1) in \<open>simp_all add: slot_def\<close>)
    then show "completion_channel k ?s" by simp
    note C = copies_okD [OF I(7)]
    have "accesses k (task_at (pl_submitted s) i) \<subseteq> set (pl_accesses s)" if "finished k ?s i" for i
      using A(1) [of i] that C(2) [of i] C(4) [OF o] old c(2) by auto
    moreover have "case pl_copiers ?s o' of
           Copying t lanes \<Rightarrow> accesses k t \<subseteq> set (pl_accesses s) \<union> \<Union> (set ` set lanes) \<and> \<Union> (set ` set lanes) \<subseteq> accesses k t
         | Await_completion t \<Rightarrow> accesses k t \<subseteq> set (pl_accesses s)
         | Store_completion t \<Rightarrow> accesses k t \<subseteq> set (pl_accesses s)
         | Publish_completion t \<Rightarrow> accesses k t \<subseteq> set (pl_accesses s)
         | _ \<Rightarrow> True" if "o' < W k" for o' using C(4) [OF that] by simp
    ultimately show "copies_ok k memory ?s" using C(1,3) unfolding copies_ok_def by (simp cong: copier_pc.case_cong)
  qed (use I in simp_all)
qed

section \<open>The steps\<close>

lemma copier_step_inv:
  assumes inv: "pipeline_inv k memory s" and step: "copier_step k owner s = Some s'" and bound: "Nsub s + 64 < 18446744073709551616"
  shows "pipeline_inv k memory s'"
proof -
  note I = pipeline_invD [OF inv]
  note K = args_okD [OF I(1)]
  have o: "owner < W k" using step by (simp add: copier_step_def split: if_split_asm)
  let ?i = "copier_index k s owner"
  let ?slot = "slot_at (D k) (W k) ?i"
  have slot: "pipeline_slot k (of_nat owner) (pl_local_index s owner) = ?slot"
      "pipeline_phase k (pl_local_index s owner) \<longleftrightarrow> odd (round_at (D k) (W k) ?i)"
    using copier_slot_value [OF I(1) o, of "pl_local_index s owner"] by (simp_all add: copier_index_def)
  note C = I(5) [OF o, unfolded copier_ok_def Let_def]
  note cp = copies_okD(4) [OF I(7) o]
  note step' = step [unfolded copier_step_def Let_def slot]
  show ?thesis
  proof (cases "pl_copiers s owner")
    case Await_task
    then have r: "try_wait_parity (ss_ready (pl_task_slots s ?slot)) (odd (round_at (D k) (W k) ?i))"
        "s' = s\<lparr>pl_copiers := (pl_copiers s)(owner := Take_task)\<rparr>"
      using step' o by (simp_all split: if_split_asm)
    have "\<not> taken k s ?i" using taken_copier [OF o, of s] Await_task by simp
    then have "arrived k s ?i" using consumer_wait [OF K(1,2) I(8) _ previous_round(1) [OF I(1) o]] r(1) by blast
    then show ?thesis unfolding r(2) using C Await_task
      by (intro inv_copier_pc [OF inv o] copies_ok_pc [OF I(7)]) (simp_all add: copier_ok_def Let_def copier_index_def arrived_def)
  next
    case Take_task
    then have r: "s' = s\<lparr>pl_copiers := (pl_copiers s)(owner := Consume_task (ss_content (pl_task_slots s ?slot)))\<rparr>"
      using step' o by simp
    have a: "arrived k s ?i" "\<not> taken k s ?i" using C Take_task taken_copier [OF o, of s] by simp_all
    have "ss_content (pl_task_slots s ?slot) = task_at (pl_submitted s) ?i" using channelD(5) [OF I(8) a] .
    then show ?thesis unfolding r using C Take_task a(1)
      by (intro inv_copier_pc [OF inv o] copies_ok_pc [OF I(7)]) (simp_all add: copier_ok_def Let_def copier_index_def arrived_def)
  next
    case (Consume_task task)
    show ?thesis
    proof (cases "ct_length task = 0")
      case True
      then show ?thesis using step' o Consume_task consume_inv [OF inv o Consume_task, of Copier_exited] by simp
    next
      case False
      then obtain lanes where "task_accesses k task = Some lanes" using step' o Consume_task by (auto split: option.split_asm)
      then show ?thesis using step' o Consume_task False consume_inv [OF inv o Consume_task, of "Copying task lanes"] by simp
    qed
  next
    case (Copying task lanes)
    then have r: "list_all (\<lambda>as. as = []) lanes" "s' = s\<lparr>pl_copiers := (pl_copiers s)(owner := Await_completion task)\<rparr>"
      using step' o by (simp_all split: if_split_asm)
    have "\<Union> (set ` set lanes) = {}" using r(1) by (auto simp: list_all_iff)
    moreover have "accesses k task \<subseteq> set (pl_accesses s) \<union> \<Union> (set ` set lanes)" using cp Copying by simp
    ultimately have "accesses k task \<subseteq> set (pl_accesses s)" by blast
    then show ?thesis unfolding r(2) using C Copying
      by (intro inv_copier_pc [OF inv o] copies_ok_pc [OF I(7)]) (simp_all add: copier_ok_def Let_def copier_index_def)
  next
    case (Await_completion task)
    then have r: "try_wait_parity (ss_consumed (pl_completion_slots s ?slot)) (\<not> odd (round_at (D k) (W k) ?i))"
        "s' = s\<lparr>pl_copiers := (pl_copiers s)(owner := Store_completion task)\<rparr>"
      using step' o by (simp_all split: if_split_asm)
    have "W k * D k \<le> ?i \<longrightarrow> collected s (?i - W k * D k)"
      using producer_wait [OF K(1,2) I(9) not_finished_copier [OF o] previous_round(2) [OF I(1) o]] r(1) by blast
    then show ?thesis unfolding r(2) using C Await_completion cp
      by (intro inv_copier_pc [OF inv o] copies_ok_pc [OF I(7)]) (simp_all add: copier_ok_def Let_def copier_index_def collected_def)
  next
    case (Store_completion task)
    then show ?thesis using step' o store_completion_inv [OF inv o Store_completion] by (simp add: completion_of_def)
  next
    case (Publish_completion task)
    then show ?thesis using step' o publish_completion_inv [OF inv o Publish_completion bound] by simp
  next
    case Copier_exited
    then show ?thesis using step' o by simp
  qed
qed

lemma copier_lane_inv:
  assumes inv: "pipeline_inv k memory s" and step: "copier_lane k owner lane s = Some s'"
  shows "pipeline_inv k memory s'"
proof -
  note I = pipeline_invD [OF inv]
  note C = copies_okD [OF I(7)]
  have o: "owner < W k" using step by (simp add: copier_lane_def split: if_split_asm)
  obtain task lanes a as where cp: "pl_copiers s owner = Copying task lanes" "lane < length lanes" "lanes ! lane = a # as"
      and s': "s' = s\<lparr>pl_memory := copy_cg a (pl_memory s), pl_accesses := pl_accesses s @ [a],
        pl_copiers := (pl_copiers s)(owner := Copying task (lanes[lane := as]))\<rparr>"
    using step o by (auto simp: copier_lane_def split: copier_pc.split_asm if_split_asm list.split_asm)
  let ?s1 = "s\<lparr>pl_memory := copy_cg a (pl_memory s), pl_accesses := pl_accesses s @ [a]\<rparr>"
  let ?U = "\<lambda>lanes. \<Union> (set ` set lanes) :: cg_access set"
  have t: "copier_index k s owner < Nsub s" "task = task_at (pl_submitted s) (copier_index k s owner)"
    using I(5) [OF o] cp(1) by (simp_all add: copier_ok_def Let_def)
  have acc: "accesses k task \<subseteq> set (pl_accesses s) \<union> ?U lanes" "?U lanes \<subseteq> accesses k task" using C(4) [OF o] cp(1) by simp_all
  note U = lane_access [OF cp(2,3)]
  have "task \<in> set (pl_submitted s)" using t by (simp add: task_at_def)
  then have new: "\<exists>task \<in> set (pl_submitted s). a \<in> accesses k task" using acc(2) U(3) by blast
  have c1: "copies_ok k memory ?s1" unfolding copies_ok_def
  proof (intro conjI allI impI ballI)
    show "pl_memory ?s1 = fold copy_cg (pl_accesses ?s1) memory" using C(1) by simp
    show "accesses k (task_at (pl_submitted ?s1) i) \<subseteq> set (pl_accesses ?s1)" if "finished k ?s1 i" for i
      using C(2) [of i] that by auto
    show "\<exists>task \<in> set (pl_submitted ?s1). b \<in> accesses k task" if "b \<in> set (pl_accesses ?s1)" for b
      using that new C(3) [of b] by auto
    show "case pl_copiers ?s1 o' of
           Copying t lanes \<Rightarrow> accesses k t \<subseteq> set (pl_accesses ?s1) \<union> \<Union> (set ` set lanes) \<and> \<Union> (set ` set lanes) \<subseteq> accesses k t
         | Await_completion t \<Rightarrow> accesses k t \<subseteq> set (pl_accesses ?s1)
         | Store_completion t \<Rightarrow> accesses k t \<subseteq> set (pl_accesses ?s1)
         | Publish_completion t \<Rightarrow> accesses k t \<subseteq> set (pl_accesses ?s1)
         | _ \<Rightarrow> True" if "o' < W k" for o'
      using C(4) [OF that] by (cases "pl_copiers s o'") (simp_all add: subset_insertI2)
  qed
  have "pipeline_inv k memory ?s1"
    by (rule pipeline_invI) (use I c1 in simp_all)
  moreover have "copies_ok k memory (?s1\<lparr>pl_copiers := (pl_copiers s)(owner := Copying task (lanes[lane := as]))\<rparr>)"
  proof -
    have "accesses k task \<subseteq> insert a (set (pl_accesses s) \<union> ?U (lanes[lane := as]))" using acc(1) U(1) by blast
    moreover have "?U (lanes[lane := as]) \<subseteq> accesses k task" using acc(2) U(2) by blast
    ultimately show ?thesis using copies_ok_pc [OF c1, of "Copying task (lanes[lane := as])" owner] by simp
  qed
  moreover have "copier_ok k (?s1\<lparr>pl_copiers := (pl_copiers s)(owner := Copying task (lanes[lane := as]))\<rparr>) owner"
    using I(5) [OF o] cp(1) by (simp add: copier_ok_def Let_def copier_index_def)
  ultimately show ?thesis unfolding s' using inv_copier_pc [of k memory ?s1 owner "Copying task (lanes[lane := as])"] o cp(1) by simp
qed

end
