(* ===== verification/Pipeline_Egress.thy ===== *)
theory Pipeline_Egress
  imports Pipeline_Copiers
begin

unbundle bit_operations_syntax

text \<open>
  The egress warp of the pipeline kernel and the host at its ring keep the invariant: a completion is written into a slot of the host's ring
  that the host has read, published only after it is written, and its shared slot is given back only after that.
\<close>

section \<open>The egress warp\<close>

lemma inv_egress:
  assumes inv: "pipeline_inv k memory s" and "collected (s\<lparr>pl_egress := pc, pl_completion_head := e\<rparr>) = collected s"
    and "egress_ok k (s\<lparr>pl_egress := pc, pl_completion_head := e\<rparr>)"
  shows "pipeline_inv k memory (s\<lparr>pl_egress := pc, pl_completion_head := e\<rparr>)"
proof (rule pipeline_invI)
  note I = pipeline_invD [OF inv]
  show "copier_ok k (s\<lparr>pl_egress := pc, pl_completion_head := e\<rparr>) owner" if "owner < W k" for owner
    by (rule copier_ok_mono [OF I(5) [OF that]]) (use assms(2) in simp_all)
qed (use pipeline_invD [OF inv] assms(2,3) in simp_all)

lemma inv_egress_pc:
  assumes "pipeline_inv k memory s" and "collected (s\<lparr>pl_egress := pc\<rparr>) = collected s" and "egress_ok k (s\<lparr>pl_egress := pc\<rparr>)"
  shows "pipeline_inv k memory (s\<lparr>pl_egress := pc\<rparr>)"
proof -
  have "s\<lparr>pl_egress := pc\<rparr> = s\<lparr>pl_egress := pc, pl_completion_head := pl_completion_head s\<rparr>" by (cases s) simp
  then show ?thesis using inv_egress [where e = "pl_completion_head s" and pc = pc, OF assms(1)] assms(2,3) by simp
qed

text \<open>The completion of index \<open>i\<close> is stored and stands in the host's ring.\<close>

definition written :: "kernel_args \<Rightarrow> pipeline \<Rightarrow> nat \<Rightarrow> bool" where
  "written k s i \<longleftrightarrow> finished k s i \<and> external_completion s i = completion_of (task_at (pl_submitted s) i)"

lemma egress_collect:
  assumes "pl_egress s = Eg_collect lanes"
  shows "egress_ok k s \<longleftrightarrow>
    unat (qm_completion_tail (mapped s)) = unat (pl_completion_head s) \<and> unat (pl_completion_head s) + length lanes \<le> Nsub s \<and>
    0 < length lanes \<and> length lanes \<le> 32 \<and>
    (\<forall>n < length lanes. lanes ! n = Lane_wait \<or> lanes ! n = Lane_store \<and> finished k s (unat (pl_completion_head s) + n) \<or>
       lanes ! n = Lane_done \<and> written k s (unat (pl_completion_head s) + n))"
  using assms unfolding egress_ok_def Let_def written_def by auto

lemma egress_release:
  assumes "pl_egress s = Eg_release lanes"
  shows "egress_ok k s \<longleftrightarrow>
    unat (pl_completion_head s) + length lanes \<le> Nsub s \<and> 0 < length lanes \<and> length lanes \<le> 32 \<and>
    unat (qm_completion_tail (mapped s)) = (if lanes ! 0 = Lane_publish then unat (pl_completion_head s) else unat (pl_completion_head s) + length lanes) \<and>
    (\<forall>n < length lanes. (lanes ! n = Lane_publish \<and> n = 0 \<or> lanes ! n = Lane_arrive \<or> lanes ! n = Lane_done) \<and>
       written k s (unat (pl_completion_head s) + n))"
  using assms unfolding egress_ok_def Let_def written_def by auto

lemma lanes_none_done:
  assumes "\<And>n. n < length lanes \<Longrightarrow> lanes ! n \<noteq> Lane_done"
  shows "lanes_done h lanes i \<longleftrightarrow> i < h"
proof -
  have "i - h < length lanes" if "\<not> i < h" "i < h + length lanes" using that by linarith
  then show ?thesis using assms [of "i - h"] by (auto simp: lanes_done_def)
qed

lemma egress_headD:
  assumes "egress_ok k s"
  shows "unat (pl_completion_head s) \<le> Nsub s"
  using assms by (simp add: egress_ok_def Let_def)

lemma egress_step_inv:
  assumes inv: "pipeline_inv k memory s" and step: "egress_step k s = Some s'" and bound: "Nsub s + 64 < 18446744073709551616"
  shows "pipeline_inv k memory s'"
proof -
  note I = pipeline_invD [OF inv] and Q = queue_okD [OF pipeline_invD(2) [OF inv]]
  note E = I(6) [unfolded egress_ok_def Let_def] and H = egress_headD [OF I(6)]
  show ?thesis
  proof (cases "pl_egress s")
    case Eg_poll
    let ?lanes = "replicate (meta_batch (qm_task_tail (mapped s) - pl_completion_head s)) Lane_wait"
    show ?thesis
    proof (cases "pl_completion_head s < qm_task_tail (mapped s)")
      case True
      then have s': "s' = s\<lparr>pl_egress := Eg_collect ?lanes\<rparr>" using step Eg_poll by (simp add: egress_step_def)
      show ?thesis unfolding s'
      proof (rule inv_egress_pc [OF inv])
        show "collected (s\<lparr>pl_egress := Eg_collect ?lanes\<rparr>) = collected s"
          using Eg_poll by (simp add: collected_def released_lanes_def)
        show "egress_ok k (s\<lparr>pl_egress := Eg_collect ?lanes\<rparr>)"
          using meta_batch_value [OF True] Q(8) E Eg_poll by (simp add: egress_ok_def Let_def)
      qed
    next
      case False
      then have "s' = s\<lparr>pl_egress := Eg_check_stop\<rparr>" using step Eg_poll by (simp add: egress_step_def)
      then show ?thesis using Eg_poll E
        by (auto intro!: inv_egress_pc [OF inv] simp: collected_def released_lanes_def egress_ok_def)
    qed
  next
    case Eg_check_stop
    then have "s' = s\<lparr>pl_egress := (if qm_stop_requested (mapped s) \<noteq> 0 then Eg_recheck else Eg_poll)\<rparr>"
      using step by (simp add: egress_step_def)
    then show ?thesis using Eg_check_stop E
      by (auto intro!: inv_egress_pc [OF inv] simp: collected_def released_lanes_def egress_ok_def)
  next
    case Eg_recheck
    have s': "s' = s\<lparr>pl_egress := (if pl_completion_head s \<ge> qm_task_tail (mapped s) then Eg_exited else Eg_poll)\<rparr>"
      using step Eg_recheck by (simp add: egress_step_def)
    have "unat (pl_completion_head s) = Nsub s" if "pl_completion_head s \<ge> qm_task_tail (mapped s)"
      using that Q(8) H by (simp add: word_le_nat_alt)
    then show ?thesis unfolding s' using Eg_recheck E
      by (intro inv_egress_pc [OF inv]) (auto simp: collected_def released_lanes_def egress_ok_def)
  next
    case (Eg_collect lanes)
    let ?lanes = "Lane_publish # replicate (length lanes - 1) Lane_arrive"
    have ad: "list_all (\<lambda>pc. pc = Lane_done) lanes" and s': "s' = s\<lparr>pl_egress := Eg_release ?lanes\<rparr>"
      using step Eg_collect by (simp_all add: egress_step_def split: if_split_asm)
    have none: "?lanes ! n \<noteq> Lane_done" if "n < length ?lanes" for n using that by (cases n) simp_all
    have each: "?lanes ! n = Lane_publish \<and> n = 0 \<or> ?lanes ! n = Lane_arrive" if "n < length ?lanes" for n using that by (cases n) simp_all
    have c: "collected (s\<lparr>pl_egress := Eg_release ?lanes\<rparr>) = collected s"
      using Eg_collect lanes_none_done [OF none] by (simp add: collected_def released_lanes_def fun_eq_iff)
    note G = I(6) [unfolded egress_collect [OF Eg_collect]]
    have w: "length ?lanes = length lanes" using G by auto
    have "written k s (unat (pl_completion_head s) + n)" if "n < length lanes" for n
    proof -
      have "lanes ! n = Lane_done" using ad that by (simp add: list_all_length)
      then show ?thesis using G that by auto
    qed
    then have "\<forall>n < length ?lanes. (?lanes ! n = Lane_publish \<and> n = 0 \<or> ?lanes ! n = Lane_arrive \<or> ?lanes ! n = Lane_done) \<and>
        written k s (unat (pl_completion_head s) + n)" using each w by metis
    moreover have "pl_egress (s\<lparr>pl_egress := Eg_release ?lanes\<rparr>) = Eg_release ?lanes" by simp
    ultimately have "egress_ok k (s\<lparr>pl_egress := Eg_release ?lanes\<rparr>)"
      unfolding egress_release [OF \<open>pl_egress (s\<lparr>pl_egress := Eg_release ?lanes\<rparr>) = Eg_release ?lanes\<close>]
      using G w by (simp add: written_def)
    then show ?thesis unfolding s' using c by (intro inv_egress_pc [OF inv])
  next
    case (Eg_release lanes)
    have ad: "list_all (\<lambda>pc. pc = Lane_done) lanes"
      and s': "s' = s\<lparr>pl_egress := Eg_poll, pl_completion_head := pl_completion_head s + of_nat (length lanes)\<rparr>"
      using step Eg_release by (simp_all add: egress_step_def split: if_split_asm)
    have l: "unat (pl_completion_head s) + length lanes \<le> Nsub s" "0 < length lanes"
        "unat (qm_completion_tail (mapped s)) = (if lanes ! 0 = Lane_publish then unat (pl_completion_head s) else unat (pl_completion_head s) + length lanes)"
      using E Eg_release by simp_all
    have "lanes ! 0 = Lane_done" using ad l(2) by (simp add: list_all_length)
    then have t: "unat (qm_completion_tail (mapped s)) = unat (pl_completion_head s) + length lanes" using l(3) by simp
    have u: "unat (pl_completion_head s + of_nat (length lanes)) = unat (pl_completion_head s) + length lanes"
      using l(1) bound by (intro lane_index) simp
    show ?thesis unfolding s'
      by (intro inv_egress [OF inv])
        (use Eg_release ad l u t in \<open>simp_all add: collected_def released_lanes_def fun_eq_iff lanes_done_all egress_ok_def Let_def\<close>)
  next
    case Eg_exited
    then show ?thesis using step by (simp add: egress_step_def)
  qed
qed

section \<open>The lanes of the egress warp\<close>

lemma update_mapped_simps [simp]:
  "mapped (update_mapped f s) = f (mapped s)" "pl_submitted (update_mapped f s) = pl_submitted s" "pl_polled (update_mapped f s) = pl_polled s"
  "pl_task_slots (update_mapped f s) = pl_task_slots s" "pl_completion_slots (update_mapped f s) = pl_completion_slots s"
  "pl_ingress (update_mapped f s) = pl_ingress s" "pl_task_head (update_mapped f s) = pl_task_head s"
  "pl_copiers (update_mapped f s) = pl_copiers s" "pl_local_index (update_mapped f s) = pl_local_index s"
  "pl_egress (update_mapped f s) = pl_egress s" "pl_completion_head (update_mapped f s) = pl_completion_head s"
  "arrived k (update_mapped f s) = arrived k s" "taken k (update_mapped f s) = taken k s" "finished k (update_mapped f s) = finished k s"
  "collected (update_mapped f s) = collected s" "copies_ok k memory (update_mapped f s) = copies_ok k memory s"
  "wq_capacity (pl_queue (update_mapped f s)) = wq_capacity (pl_queue s)"
  by (simp_all add: update_mapped_def mapped_def)

lemma inv_egress_mapped:
  assumes inv: "pipeline_inv k memory s" and stop: "\<And>m. qm_stop_requested (f m) = qm_stop_requested m"
    and col: "collected (s\<lparr>pl_egress := pc\<rparr>) = collected s"
    and "queue_ok k (update_mapped f s)" "history_ok (update_mapped f s)" "egress_ok k (update_mapped f (s\<lparr>pl_egress := pc\<rparr>))"
  shows "pipeline_inv k memory (update_mapped f (s\<lparr>pl_egress := pc\<rparr>))"
proof (rule pipeline_invI)
  note I = pipeline_invD [OF inv]
  have eq: "update_mapped f (s\<lparr>pl_egress := pc\<rparr>) = (update_mapped f s)\<lparr>pl_egress := pc\<rparr>" by (simp add: update_mapped_def mapped_def)
  show "queue_ok k (update_mapped f (s\<lparr>pl_egress := pc\<rparr>))" "history_ok (update_mapped f (s\<lparr>pl_egress := pc\<rparr>))"
    using assms(4,5) unfolding eq by simp_all
  show "copier_ok k (update_mapped f (s\<lparr>pl_egress := pc\<rparr>)) owner" if "owner < W k" for owner
    by (rule copier_ok_mono [OF I(5) [OF that]]) (use col stop in simp_all)
  show "ingress_ok k (update_mapped f (s\<lparr>pl_egress := pc\<rparr>))"
    by (rule ingress_ok_mono [OF I(4)]) (use stop in simp_all)
qed (use pipeline_invD [OF inv] assms in simp_all)

lemma ring_window:
  assumes "(p :: nat) \<le> i" "p \<le> j" "i < p + c" "j < p + c" "i mod c = j mod c"
  shows "i = j"
proof -
  have "i - p < c" "j - p < c" using assms(1-4) by linarith+
  then have "i - p = j - p" using ring_slot_inj [of "i - p" c "j - p" p] assms(1,2,5) by simp
  then show ?thesis using assms(1,2) by linarith
qed

lemma collect_store_inv:
  assumes inv: "pipeline_inv k memory s" and eg: "pl_egress s = Eg_collect lanes" and n: "n < length lanes" "lanes ! n = Lane_store"
    and u: "unat index = unat (pl_completion_head s) + n"
  defines "f \<equiv> \<lambda>m. m\<lparr>qm_completion_slots := (qm_completion_slots m)[unat (index AND ka_capacity_mask k) :=
      (qm_completion_slots m ! unat (index AND ka_capacity_mask k))
        \<lparr>cs_completion := ss_content (pl_completion_slots s (slot_at (D k) (W k) (unat (pl_completion_head s) + n)))\<rparr>]\<rparr>"
  shows "pipeline_inv k memory (update_mapped f (s\<lparr>pl_egress := Eg_collect (lanes[n := Lane_done])\<rparr>))"
proof -
  note I = pipeline_invD [OF inv] and Q = queue_okD [OF pipeline_invD(2) [OF inv]]
  note G = I(6) [unfolded egress_collect [OF eg]]
  let ?e = "unat (pl_completion_head s)" and ?cap = "unat (wq_capacity (pl_queue s))"
  let ?i = "?e + n" and ?s = "update_mapped f (s\<lparr>pl_egress := Eg_collect (lanes[n := Lane_done])\<rparr>)"
  have fin: "finished k s ?i" using G n by auto
  have nc: "\<not> collected s ?i" using eg by (simp add: collected_def released_lanes_def)
  have content: "ss_content (pl_completion_slots s (slot_at (D k) (W k) ?i)) = completion_of (task_at (pl_submitted s) ?i)"
    using channelD(5) [OF I(9) fin nc] .
  have cap: "unat (index AND ka_capacity_mask k) = ?i mod ?cap" using unat_and_pred [OF Q(17), of index] Q(3) u by simp
  have lt: "?i mod ?cap < length (qm_completion_slots (mapped s))" using Q(9) power_of_two_dvd(2) [OF Q(17)] by simp
  have ext: "external_completion ?s j =
      (if j mod ?cap = ?i mod ?cap then completion_of (task_at (pl_submitted s) ?i) else external_completion s j)" for j
    using lt by (simp add: external_completion_def f_def cap content nth_list_update)
  have win: "j mod ?cap \<noteq> ?i mod ?cap" if "Npol s \<le> j" "j < Nsub s" "j \<noteq> ?i" for j
    using ring_window [of "Npol s" j ?i ?cap] that G Q(11,12,15,16) n by force
  have P: "Npol s \<le> ?e" using Q(11,12) G by simp
  show ?thesis
  proof (rule inv_egress_mapped [OF inv])
    show "qm_stop_requested (f m) = qm_stop_requested m" for m by (simp add: f_def)
    show "collected (s\<lparr>pl_egress := Eg_collect (lanes[n := Lane_done])\<rparr>) = collected s"
      using eg by (simp add: collected_def released_lanes_def)
    show "queue_ok k (update_mapped f s)" using I(2) unfolding queue_ok_def by (simp add: f_def) (simp add: update_mapped_def)
    have ext': "external_completion (update_mapped f s) = external_completion ?s" by (simp add: external_completion_def fun_eq_iff)
    have "external_completion ?s j = completion_of (task_at (pl_submitted s) j)" if "Npol s \<le> j" "j < unat (qm_completion_tail (mapped s))" for j
      using ext [of j] win [of j] that I(3) Q(13) G by (auto simp: history_ok_def)
    then show "history_ok (update_mapped f s)" using I(3) unfolding history_ok_def ext' by (simp add: f_def)
    have wr: "written k ?s (?e + m)" if "m < length lanes" "m = n \<or> written k s (?e + m)" for m
    proof (cases "m = n")
      case True
      then show ?thesis using fin ext [of ?i] by (simp add: written_def)
    next
      case False
      then show ?thesis using that ext [of "?e + m"] win [of "?e + m"] P G by (auto simp: written_def)
    qed
    have pc: "pl_egress ?s = Eg_collect (lanes[n := Lane_done])" by simp
    have "lanes[n := Lane_done] ! m = Lane_wait \<or> lanes[n := Lane_done] ! m = Lane_store \<and> finished k s (?e + m) \<or>
        lanes[n := Lane_done] ! m = Lane_done \<and> written k ?s (?e + m)" if "m < length lanes" for m
      using G that wr [OF that] n(1) by (cases "m = n") auto
    then show "egress_ok k ?s" unfolding egress_collect [OF pc] using G by (simp add: f_def)
  qed
qed

lemma publish_inv:
  assumes inv: "pipeline_inv k memory s" and eg: "pl_egress s = Eg_release lanes" and n: "n < length lanes" "lanes ! n = Lane_publish"
    and bound: "Nsub s + 64 < 18446744073709551616"
  defines "f \<equiv> \<lambda>m. m\<lparr>qm_completion_tail := pl_completion_head s + of_nat (length lanes)\<rparr>"
  shows "pipeline_inv k memory (update_mapped f (s\<lparr>pl_egress := Eg_release (lanes[n := Lane_arrive])\<rparr>))"
proof -
  note I = pipeline_invD [OF inv] and Q = queue_okD [OF pipeline_invD(2) [OF inv]]
  note G = I(6) [unfolded egress_release [OF eg]]
  let ?e = "unat (pl_completion_head s)" and ?s = "update_mapped f (s\<lparr>pl_egress := Eg_release (lanes[n := Lane_arrive])\<rparr>)"
  have n0: "n = 0" using G n by auto
  have u: "unat (pl_completion_head s + of_nat (length lanes)) = ?e + length lanes" using G bound by (intro lane_index) simp
  have t: "unat (qm_completion_tail (mapped s)) = ?e" using G n n0 by simp
  show ?thesis
  proof (rule inv_egress_mapped [OF inv])
    show "qm_stop_requested (f m) = qm_stop_requested m" for m by (simp add: f_def)
    have "lanes_done ?e (lanes[n := Lane_arrive]) i = lanes_done ?e lanes i" for i
      using lanes_done_update [OF n(1), of ?e Lane_arrive i] lanes_done_lane [OF n(1), of ?e] n(2) by simp
    then show "collected (s\<lparr>pl_egress := Eg_release (lanes[n := Lane_arrive])\<rparr>) = collected s"
      using eg by (simp add: collected_def released_lanes_def fun_eq_iff)
    show "queue_ok k (update_mapped f s)"
      using I(2) u t G unfolding queue_ok_def by (simp add: f_def) (simp add: update_mapped_def)
    have "external_completion s i = completion_of (task_at (pl_submitted s) i)" if "Npol s \<le> i" "i < ?e + length lanes" for i
    proof (cases "i < ?e")
      case True
      then show ?thesis using I(3) that t by (simp add: history_ok_def)
    next
      case False
      then have "written k s (?e + (i - ?e))" using G that by (metis add_diff_inverse_nat add_less_cancel_left)
      then show ?thesis using False by (simp add: written_def)
    qed
    moreover have "external_completion (update_mapped f s) = external_completion s" by (simp add: external_completion_def fun_eq_iff f_def)
    ultimately show "history_ok (update_mapped f s)" using I(3) u unfolding history_ok_def by (simp add: f_def)
    have ext: "external_completion ?s = external_completion s" by (simp add: external_completion_def fun_eq_iff f_def)
    have pc: "pl_egress ?s = Eg_release (lanes[n := Lane_arrive])" by simp
    have "(lanes[n := Lane_arrive] ! m = Lane_publish \<and> m = 0 \<or> lanes[n := Lane_arrive] ! m = Lane_arrive \<or> lanes[n := Lane_arrive] ! m = Lane_done) \<and>
        written k ?s (?e + m)" if "m < length lanes" for m
      using G that n(1) by (cases "m = n") (auto simp: written_def ext)
    then show "egress_ok k ?s" unfolding egress_release [OF pc] using G u n n0 by (simp add: f_def)
  qed
qed

lemma release_inv:
  assumes inv: "pipeline_inv k memory s" and eg: "pl_egress s = Eg_release lanes" and n: "n < length lanes" "lanes ! n = Lane_arrive"
  defines "slot \<equiv> slot_at (D k) (W k) (unat (pl_completion_head s) + n)"
  shows "pipeline_inv k memory (s\<lparr>pl_egress := Eg_release (lanes[n := Lane_done]),
      pl_completion_slots := (pl_completion_slots s)(slot := (pl_completion_slots s slot)\<lparr>ss_consumed := ss_consumed (pl_completion_slots s slot) + 1\<rparr>)\<rparr>)"
proof -
  note I = pipeline_invD [OF inv]
  note K = args_okD [OF I(1)] and G = I(6) [unfolded egress_release [OF eg]]
  let ?e = "unat (pl_completion_head s)"
  let ?cs = "(pl_completion_slots s)(slot := (pl_completion_slots s slot)\<lparr>ss_consumed := ss_consumed (pl_completion_slots s slot) + 1\<rparr>)"
  let ?s = "s\<lparr>pl_egress := Eg_release (lanes[n := Lane_done]), pl_completion_slots := ?cs\<rparr>"
  have fin: "finished k s (?e + n)" using G n by (auto simp: written_def)
  have nc: "\<not> collected s (?e + n)" using eg n lanes_done_lane [OF n(1), of ?e] by (simp add: collected_def released_lanes_def)
  have col: "collected ?s j \<longleftrightarrow> collected s j \<or> j = ?e + n" for j
    using lanes_done_update [OF n(1), of ?e Lane_done j] eg by (simp add: collected_def released_lanes_def)
  show ?thesis
  proof (rule pipeline_invI)
    show "copier_ok k ?s owner" if "owner < W k" for owner
      by (rule copier_ok_mono [OF I(5) [OF that]]) (use col in simp_all)
    have "channel (D k) (W k) (finished k s) (collected ?s) (\<lambda>i. completion_of (task_at (pl_submitted s) i)) ?cs"
      unfolding slot_def by (rule channel_consume [OF K(1,2) I(9) fin nc]) (use col in \<open>simp add: slot_def\<close>)
    then show "completion_channel k ?s" by simp
    have pc: "pl_egress ?s = Eg_release (lanes[n := Lane_done])" by simp
    have wr: "written k ?s = written k s" by (simp add: written_def fun_eq_iff)
    have "(lanes[n := Lane_done] ! m = Lane_publish \<and> m = 0 \<or> lanes[n := Lane_done] ! m = Lane_arrive \<or> lanes[n := Lane_done] ! m = Lane_done) \<and>
        written k s (?e + m)" if "m < length lanes" for m
      using G that n(1) by (cases "m = n") auto
    moreover have "lanes[n := Lane_done] ! 0 = Lane_publish \<longleftrightarrow> lanes ! 0 = Lane_publish" using n by (cases n) auto
    ultimately show "egress_ok k ?s" unfolding egress_release [OF pc] wr using G by simp
  qed (use I in simp_all)
qed

lemma egress_lane_inv:
  assumes inv: "pipeline_inv k memory s" and step: "egress_lane k n s = Some s'" and bound: "Nsub s + 64 < 18446744073709551616"
  shows "pipeline_inv k memory s'"
proof -
  note I = pipeline_invD [OF inv]
  note K = args_okD [OF I(1)]
  let ?e = "unat (pl_completion_head s)" and ?index = "pl_completion_head s + of_nat n"
  have index: "unat ?index = ?e + n" if "?e + n < Nsub s" using that bound by (intro lane_index) simp
  consider lanes where "pl_egress s = Eg_collect lanes" "n < length lanes" | lanes where "pl_egress s = Eg_release lanes" "n < length lanes"
    using step by (auto simp: egress_lane_def Let_def split: egress_pc.split_asm if_split_asm)
  then show ?thesis
  proof cases
    case (1 lanes)
    note G = I(6) [unfolded egress_collect [OF 1(1)]]
    have u: "unat ?index = ?e + n" using index G 1(2) by simp
    note S = index_slot_value [OF I(1), of ?index, unfolded u]
    note step' = step [unfolded egress_lane_def Let_def S]
    consider "lanes ! n = Lane_wait" | "lanes ! n = Lane_store" | "lanes ! n = Lane_done" using G 1(2) by blast
    then show ?thesis
    proof cases
      case w: 1
      have r: "try_wait_parity (ss_ready (pl_completion_slots s (slot_at (D k) (W k) (?e + n)))) (odd (round_at (D k) (W k) (?e + n)))"
          "s' = s\<lparr>pl_egress := Eg_collect (lanes[n := Lane_store])\<rparr>"
        using step' 1 w by (simp_all split: if_split_asm)
      have nc: "\<not> collected s (?e + n)" using 1(1) by (simp add: collected_def released_lanes_def)
      have prev: "collected s (?e + n - W k * D k)" if "W k * D k \<le> ?e + n"
      proof -
        have "?e + n - W k * D k < ?e" using that K(5) G 1(2) by linarith
        then show ?thesis by (simp add: collected_def lanes_done_def)
      qed
      have fin: "finished k s (?e + n)" using consumer_wait [OF K(1,2) I(9) nc prev] r(1) by blast
      let ?s = "s\<lparr>pl_egress := Eg_collect (lanes[n := Lane_store])\<rparr>"
      have pc: "pl_egress ?s = Eg_collect (lanes[n := Lane_store])" by simp
      have wr: "written k ?s = written k s" by (simp add: written_def fun_eq_iff)
      have "lanes[n := Lane_store] ! m = Lane_wait \<or> lanes[n := Lane_store] ! m = Lane_store \<and> finished k s (?e + m) \<or>
          lanes[n := Lane_store] ! m = Lane_done \<and> written k s (?e + m)" if "m < length lanes" for m
        using G that 1(2) fin by (cases "m = n") auto
      then have "egress_ok k ?s" unfolding egress_collect [OF pc] wr using G by simp
      then show ?thesis unfolding r(2) using 1(1) by (intro inv_egress_pc [OF inv]) (simp_all add: collected_def released_lanes_def)
    next
      case 2
      then show ?thesis using step' 1 collect_store_inv [OF inv 1 2 u] by simp
    next
      case 3
      then show ?thesis using step' 1 by simp
    qed
  next
    case (2 lanes)
    note G = I(6) [unfolded egress_release [OF 2(1)]]
    have u: "unat ?index = ?e + n" using index G 2(2) by simp
    note S = index_slot_value [OF I(1), of ?index, unfolded u]
    note step' = step [unfolded egress_lane_def Let_def S]
    consider "lanes ! n = Lane_publish" | "lanes ! n = Lane_arrive" | "lanes ! n = Lane_done" using G 2(2) by blast
    then show ?thesis
    proof cases
      case 1
      then show ?thesis using step' 2 publish_inv [OF inv 2 1 bound] by simp
    next
      case a: 2
      then show ?thesis using step' 2 release_inv [OF inv 2 a] by simp
    next
      case 3
      then show ?thesis using step' 2 by simp
    qed
  qed
qed

end
