(* ===== verification/Pipeline_Run.thy ===== *)
theory Pipeline_Run
  imports Pipeline_Egress
begin

unbundle bit_operations_syntax

text \<open>
  The host at the ring keeps the invariant of the pipeline, so every run does; and what that says of a run: the host polls the
  completions of its own tasks in the order it submitted them, each after every access of its copy.
\<close>

section \<open>The host\<close>

lemma inv_host:
  assumes inv: "pipeline_inv k memory s"
    and stop: "qm_stop_requested (mapped s) \<noteq> 0 \<Longrightarrow> qm_stop_requested (mapped (s\<lparr>pl_queue := q, pl_polled := po\<rparr>)) \<noteq> 0"
    and tail: "qm_completion_tail (mapped (s\<lparr>pl_queue := q, pl_polled := po\<rparr>)) = qm_completion_tail (mapped s)"
    and ext: "external_completion (s\<lparr>pl_queue := q, pl_polled := po\<rparr>) = external_completion s"
    and "queue_ok k (s\<lparr>pl_queue := q, pl_polled := po\<rparr>)" "history_ok (s\<lparr>pl_queue := q, pl_polled := po\<rparr>)"
  shows "pipeline_inv k memory (s\<lparr>pl_queue := q, pl_polled := po\<rparr>)"
proof (rule pipeline_invI)
  let ?s = "s\<lparr>pl_queue := q, pl_polled := po\<rparr>"
  note I = pipeline_invD [OF inv]
  show "copier_ok k ?s owner" if "owner < W k" for owner
    by (rule copier_ok_mono [OF I(5) [OF that]]) (use stop in simp_all)
  show "ingress_ok k ?s" by (rule ingress_ok_mono [OF I(4)]) (use stop in simp_all)
  show "egress_ok k ?s" using I(6) stop tail ext unfolding egress_ok_def Let_def by (cases "pl_egress s") auto
qed (use pipeline_invD [OF inv] assms in simp_all)

lemma host_stops_inv:
  assumes inv: "pipeline_inv k memory s"
  shows "pipeline_inv k memory (host_stops s)"
proof (cases "wq_running (pl_queue s) \<and> wq_accepting (pl_queue s)")
  case False
  then have "host_stops s = s" by (auto simp: host_stops_def warp_request_stop_def)
  then show ?thesis using inv by simp
next
  case True
  note I = pipeline_invD [OF inv] and Q = queue_okD [OF pipeline_invD(2) [OF inv]]
  let ?q = "(pl_queue s)\<lparr>wq_accepting := False, wq_memory := Some ((mapped s)\<lparr>qm_stop_requested := 1\<rparr>)\<rparr>"
  have s': "host_stops s = s\<lparr>pl_queue := ?q, pl_polled := pl_polled s\<rparr>"
    using True Q(1) by (simp add: host_stops_def warp_request_stop_def)
  have m: "mapped (s\<lparr>pl_queue := ?q\<rparr>) = (mapped s)\<lparr>qm_stop_requested := 1\<rparr>" by (simp add: mapped_def)
  have ext: "external_completion (s\<lparr>pl_queue := ?q\<rparr>) = external_completion s"
    unfolding external_completion_def m by (simp add: fun_eq_iff)
  show ?thesis unfolding s'
    by (rule inv_host [OF inv]) (use I(2,3) in \<open>simp_all add: m ext queue_ok_def history_ok_def\<close>)
qed

lemma host_polls_inv:
  assumes inv: "pipeline_inv k memory s" and bound: "Nsub s + 64 < 18446744073709551616"
  shows "pipeline_inv k memory (host_polls s)"
proof -
  note I = pipeline_invD [OF inv] and Q = queue_okD [OF pipeline_invD(2) [OF inv]]
  let ?head = "wq_completion_head (pl_queue s)"
  define q1 where "q1 = (if ?head \<ge> wq_cached_completion_tail (pl_queue s)
      then (pl_queue s)\<lparr>wq_cached_completion_tail := qm_completion_tail (mapped s)\<rparr> else pl_queue s)"
  have q1: "wq_memory q1 = wq_memory (pl_queue s)" "wq_capacity q1 = wq_capacity (pl_queue s)" "wq_capacity_mask q1 = wq_capacity_mask (pl_queue s)"
      "wq_completion_head q1 = ?head" "wq_submit_tail q1 = wq_submit_tail (pl_queue s)" "wq_accepting q1 = wq_accepting (pl_queue s)"
      "unat (wq_cached_completion_tail q1) \<le> unat (qm_completion_tail (mapped s))" "Npol s \<le> unat (wq_cached_completion_tail q1)"
    using Q(11-13) by (simp_all add: q1_def)
  let ?slot = "unat (?head AND wq_capacity_mask (pl_queue s))"
  have slot: "?slot = Npol s mod unat (wq_capacity (pl_queue s))" using unat_and_pred [OF Q(17), of ?head] Q(2,5) by simp
  have poll: "warp_try_poll (pl_queue s) =
      (if ?head \<ge> wq_cached_completion_tail q1 then (EAGAIN, zero_completion, q1)
       else (OK, external_completion s (Npol s), q1\<lparr>wq_completion_head := ?head + 1\<rparr>))"
    using Q(1) slot by (simp add: warp_try_poll_def q1_def external_completion_def Let_def)
  have m: "mapped (s\<lparr>pl_queue := q\<rparr>) = mapped s" if "wq_memory q = wq_memory (pl_queue s)" for q
    using that by (simp add: mapped_def)
  have ext: "external_completion (s\<lparr>pl_queue := q\<rparr>) = external_completion s"
    if "wq_memory q = wq_memory (pl_queue s)" "wq_capacity q = wq_capacity (pl_queue s)" for q
    unfolding external_completion_def m [OF that(1)] using that(2) by (simp add: fun_eq_iff)
  show ?thesis
  proof (cases "?head \<ge> wq_cached_completion_tail q1")
    case True
    then have s': "host_polls s = s\<lparr>pl_queue := q1, pl_polled := pl_polled s\<rparr>" using poll by (simp add: host_polls_def)
    show ?thesis unfolding s'
      by (rule inv_host [OF inv]) (use I(2,3) Q(1,14) q1 in \<open>simp_all add: m ext queue_ok_def history_ok_def\<close>)
  next
    case False
    let ?q = "q1\<lparr>wq_completion_head := ?head + 1\<rparr>" and ?c = "external_completion s (Npol s)"
    have s': "host_polls s = s\<lparr>pl_queue := ?q, pl_polled := pl_polled s @ [?c]\<rparr>" using poll False by (simp add: host_polls_def)
    have lt: "Npol s < unat (wq_cached_completion_tail q1)" using False Q(5) by (simp add: word_less_nat_alt not_le)
    then have N: "Npol s < Nsub s" using q1(7) Q(13) by simp
    have c: "?c = completion_of (task_at (pl_submitted s) (Npol s))" using I(3) lt q1(7) by (simp add: history_ok_def)
    have u: "unat (?head + 1) = Npol s + 1" using unat_add_u64 [of ?head 1] Q(5) N bound by simp
    have "ring_holds (wq_capacity (pl_queue s)) (?head + 1) (wq_submit_tail (pl_queue s)) (qm_task_slots (mapped s)) (drop (Npol s + 1) (pl_submitted s))"
      using Q(4) N by (intro ring_holds_poll [where task = "pl_submitted s ! Npol s"]) (simp add: Cons_nth_drop_Suc)
    then have qok: "queue_ok k (s\<lparr>pl_queue := ?q, pl_polled := pl_polled s @ [?c]\<rparr>)"
      using I(2) q1 u lt Q(1,14) unfolding queue_ok_def by (simp add: m)
    have "history_ok (s\<lparr>pl_queue := ?q, pl_polled := pl_polled s @ [?c]\<rparr>)"
      using I(3) c N q1 unfolding history_ok_def by (simp add: m ext take_Suc_conv_app_nth task_at_def)
    then show ?thesis unfolding s' by (intro inv_host [OF inv]) (use qok q1 in \<open>simp_all add: m ext\<close>)
  qed
qed

lemma task_at_append: "i < length tasks \<Longrightarrow> task_at (tasks @ batch) i = task_at tasks i"
  by (simp add: task_at_def nth_append)

lemma host_submits_inv:
  assumes inv: "pipeline_inv k memory s" and bound: "Nsub (host_submits tasks s) + 64 < 18446744073709551616"
  shows "pipeline_inv k memory (host_submits tasks s)"
proof -
  note I = pipeline_invD [OF inv] and Q = queue_okD [OF pipeline_invD(2) [OF inv]]
  note K = args_okD [OF I(1)]
  let ?q = "pl_queue s"
  define batch where "batch = take (unat (wq_capacity (pl_queue s)) - (Nsub s - Npol s)) tasks"
  have tk: "take (length batch) tasks = batch" and fit: "Nsub s - Npol s + length batch \<le> unat (wq_capacity ?q)"
  proof -
    show "take (length batch) tasks = batch" by (simp add: batch_def min_def)
    have "length batch \<le> unat (wq_capacity ?q) - (Nsub s - Npol s)" by (simp add: batch_def)
    then show "Nsub s - Npol s + length batch \<le> unat (wq_capacity ?q)" using Q(16) by linarith
  qed
  have prefix: "accepted_prefix (wq_capacity ?q) (wq_submit_tail ?q - wq_completion_head ?q) tasks =
      (if Nsub s - Npol s = unat (wq_capacity ?q) then Inl EAGAIN else if list_all well_formed_task batch then Inr batch else Inl EINVAL)"
    using accepted_prefix_holds [OF Q(4), of tasks] by (simp add: Let_def batch_def)
  show ?thesis
  proof (cases "wq_running ?q \<and> wq_accepting ?q \<and> tasks \<noteq> [] \<and> Nsub s - Npol s \<noteq> unat (wq_capacity ?q) \<and> list_all well_formed_task batch")
    case False
    then have "host_submits tasks s = s" using Q(1) prefix by (auto simp: host_submits_def warp_try_submit_batch_def)
    then show ?thesis using inv by simp
  next
    case True
    let ?tail = "wq_submit_tail ?q + of_nat (length batch)"
    define m' where "m' = (mapped s)\<lparr>qm_task_slots := store_tasks (wq_capacity_mask ?q) (wq_submit_tail ?q) batch (qm_task_slots (mapped s)), qm_task_tail := ?tail\<rparr>"
    define q' where "q' = ?q\<lparr>wq_memory := Some m', wq_submit_tail := ?tail\<rparr>"
    let ?s = "s\<lparr>pl_queue := q', pl_submitted := pl_submitted s @ batch\<rparr>"
    have s': "host_submits tasks s = ?s" using True Q(1) prefix by (simp add: host_submits_def warp_try_submit_batch_def Let_def tk m'_def q'_def)
    have stop: "qm_stop_requested (mapped s) = 0" using Q(14) True by blast
    have m: "mapped (s\<lparr>pl_queue := q'\<rparr>) = m'" by (simp add: mapped_def q'_def)
    have q: "wq_memory q' = Some m'" "wq_capacity q' = wq_capacity ?q" "wq_capacity_mask q' = wq_capacity_mask ?q"
        "wq_completion_head q' = wq_completion_head ?q" "wq_submit_tail q' = ?tail" "wq_accepting q' = wq_accepting ?q"
        "wq_cached_completion_tail q' = wq_cached_completion_tail ?q" "qm_task_tail m' = ?tail"
        "qm_task_slots m' = store_tasks (wq_capacity_mask ?q) (wq_submit_tail ?q) batch (qm_task_slots (mapped s))"
        "qm_completion_tail m' = qm_completion_tail (mapped s)" "qm_stop_requested m' = qm_stop_requested (mapped s)"
        "qm_completion_slots m' = qm_completion_slots (mapped s)"
      by (simp_all add: q'_def m'_def)
    have u: "unat ?tail = Nsub s + length batch" using bound s' lane_index [of "wq_submit_tail ?q" "length batch"] Q(6) by simp
    have ring: "ring_holds (wq_capacity ?q) (wq_completion_head ?q) ?tail
        (store_tasks (wq_capacity_mask ?q) (wq_submit_tail ?q) batch (qm_task_slots (mapped s))) (drop (Npol s) (pl_submitted s @ batch))"
      using ring_holds_store [OF Q(4), of batch] fit Q(2,15) by simp
    have ext: "external_completion ?s = external_completion s" by (simp add: external_completion_def m q fun_eq_iff)
    have arr: "i < Nsub s" if "arrived k s i" for i using arrived_pill [OF I(4) that] stop by (meson not_le)
    have fin: "i < Nsub s" if "finished k s i" for i using finished_lt [OF I(5) K(2) that] by blast
    have tasks: "task_at (pl_submitted ?s) i = task_at (pl_submitted s) i" if "i < Nsub s" for i
      using that by (simp add: task_at_append)
    show ?thesis unfolding s'
    proof (rule pipeline_invI)
      show "queue_ok k ?s" using I(2) ring u True Q(15) stop unfolding queue_ok_def by (simp add: m q)
      show "history_ok ?s" using I(3) tasks Q(13,15) unfolding history_ok_def ext by (simp add: m q)
      show "ingress_ok k ?s"
        using I(4) tasks stop unfolding ingress_ok_def Let_def by (cases "pl_ingress s") (auto simp: m q in_lanes_def)
      show "copier_ok k ?s owner" if "owner < W k" for owner
        using I(5) [OF that] stop tasks arr unfolding copier_ok_def Let_def by (cases "pl_copiers s owner") (auto simp: m q)
      show "egress_ok k ?s"
        using I(6) tasks stop unfolding egress_ok_def Let_def ext by (cases "pl_egress s") (auto simp: m q)
      note C = copies_okD [OF I(7)]
      show "copies_ok k memory ?s"
        using C(1) C(2) C(3) C(4) fin tasks unfolding copies_ok_def by (simp cong: copier_pc.case_cong) blast
      show "task_channel k ?s" using channel_value_cong [OF I(8)] tasks arr by simp
      show "completion_channel k ?s" using channel_value_cong [OF I(9)] tasks fin by simp
    qed (use I(1) in simp)
  qed
qed

section \<open>Launch and runs\<close>

lemma launch_inv:
  assumes alloc: "warp_allocate_pipeline capacity copy_warps depth base allocation_status mapping_status fresh new_warp_queue = (OK, q0)"
    and start: "warp_start_pipeline resources last_error q0 = (OK, q)"
  shows "pipeline_inv (launch_args q) memory (launch_pipeline q memory)"
proof -
  obtain host_bytes shared_bytes where size: "warp_specialized_pipeline_allocation_size capacity copy_warps depth = Some (host_bytes, shared_bytes)"
      and q0: "q0 = new_warp_queue\<lparr>wq_memory := Some fresh, wq_capacity := capacity, wq_capacity_mask := capacity - 1,
        wq_shared_memory_bytes := shared_bytes, wq_copy_warps := copy_warps, wq_device_batch := kWarpSpecializedMetaBatch,
        wq_shared_queue_depth := depth, wq_stage_buffer_base := base\<rparr>"
    using alloc by (auto simp: warp_allocate_pipeline_def warp_queue_map_def new_warp_queue_def Let_def split: if_split_asm option.split_asm)
  have cap: "is_power_of_two capacity"
    using size by (auto simp: warp_specialized_pipeline_allocation_size_def Let_def split: if_split_asm)
  have q: "q = q0\<lparr>wq_memory := Some (zero_memory capacity), wq_submit_tail := 0, wq_completion_head := 0,
        wq_cached_completion_tail := 0, wq_accepting := True, wq_running := True\<rparr>"
      and launched: "depth = 2 \<or> depth = 4 \<or> depth = 8 \<or> depth = 16" "dispatch_pipeline_copy_warps depth copy_warps resources"
    using start
    by (auto simp: warp_start_pipeline_def warp_start_impl_def dispatch_warp_specialized_variant_def q0 Let_def split: if_split_asm)
  let ?k = "launch_args q" and ?s = "launch_pipeline q memory"
  have k: "ka_depth ?k = depth" "ka_copy_warps ?k = copy_warps" "ka_capacity_mask ?k = capacity - 1"
    by (simp_all add: launch_args_def q q0)
  have "args_ok ?k"
    using launched unfolding args_ok_def k dispatch_pipeline_copy_warps_def kWarpSpecializedMetaBatch_def is_power_of_two_def
    by (auto simp: word_less_nat_alt unat_div)
  moreover have m: "mapped ?s = zero_memory capacity" by (simp add: mapped_def launch_pipeline_def q)
  moreover have "queue_ok ?k ?s"
    unfolding queue_ok_def m k(3)
    by (simp add: launch_pipeline_def q q0 cap ring_holds_def zero_memory_def)
  moreover have "history_ok ?s" unfolding history_ok_def m by (simp add: launch_pipeline_def zero_memory_def)
  moreover have "ingress_ok ?k ?s" unfolding ingress_ok_def m by (simp add: launch_pipeline_def in_lanes_def)
  moreover have "copier_ok ?k ?s owner" for owner by (simp add: copier_ok_def launch_pipeline_def)
  moreover have "egress_ok ?k ?s" unfolding egress_ok_def m by (simp add: launch_pipeline_def zero_memory_def)
  moreover have none: "arrived ?k ?s = (\<lambda>_. False)" "taken ?k ?s = (\<lambda>_. False)" "finished ?k ?s = (\<lambda>_. False)" "collected ?s = (\<lambda>_. False)"
    by (simp_all add: arrived_def taken_def finished_def collected_def launch_pipeline_def in_lanes_def released_lanes_def fun_eq_iff Let_def)
  moreover have "copies_ok ?k memory ?s"
  proof -
    have "\<not> finished ?k ?s i" for i using none(3) by simp
    then show ?thesis unfolding copies_ok_def by (simp add: launch_pipeline_def)
  qed
  moreover have "task_channel ?k ?s" "completion_channel ?k ?s"
    unfolding none by (simp_all add: launch_pipeline_def channel_empty)
  ultimately show ?thesis unfolding pipeline_inv_def by blast
qed

lemma put_task_submitted: "put_task k index task pc s = Some (pc', s') \<Longrightarrow> pl_submitted s' = pl_submitted s"
  by (auto simp: put_task_def Let_def split: lane_pc.split_asm if_split_asm)

lemma step_submitted:
  assumes "pipeline_step k actor s = Some s'"
  shows "\<exists>xs. pl_submitted s' = pl_submitted s @ xs"
proof -
  have "pl_submitted s' = pl_submitted s" if "ingress_step k s = Some s'"
    using that by (auto simp: ingress_step_def Let_def split: ingress_pc.split_asm if_split_asm)
  moreover have "pl_submitted s' = pl_submitted s" if "ingress_lane k n s = Some s'" for n
    using that by (auto simp: ingress_lane_def Let_def dest!: put_task_submitted split: ingress_pc.split_asm if_split_asm)
  moreover have "pl_submitted s' = pl_submitted s" if "copier_step k n s = Some s'" for n
    using that by (auto simp: copier_step_def Let_def split: copier_pc.split_asm if_split_asm option.split_asm)
  moreover have "pl_submitted s' = pl_submitted s" if "copier_lane k n m s = Some s'" for n m
    using that by (auto simp: copier_lane_def split: copier_pc.split_asm if_split_asm list.split_asm)
  moreover have "pl_submitted s' = pl_submitted s" if "egress_step k s = Some s'"
    using that by (auto simp: egress_step_def Let_def split: egress_pc.split_asm if_split_asm)
  moreover have "pl_submitted s' = pl_submitted s" if "egress_lane k n s = Some s'" for n
    using that by (auto simp: egress_lane_def Let_def split: egress_pc.split_asm lane_pc.split_asm if_split_asm)
  moreover have "pl_submitted (host_polls s) = pl_submitted s" "pl_submitted (host_stops s) = pl_submitted s"
    by (simp_all add: host_polls_def host_stops_def split: prod.split)
  moreover have "\<exists>xs. pl_submitted (host_submits tasks s) = pl_submitted s @ xs" for tasks by (simp add: host_submits_def split: prod.split)
  ultimately show ?thesis using assms by (cases actor) (auto simp: pipeline_step_def)
qed

lemma step_inv:
  assumes inv: "pipeline_inv k memory s" and step: "pipeline_step k actor s = Some s'" and bound: "Nsub s' + 64 < 18446744073709551616"
  shows "pipeline_inv k memory s'"
proof -
  obtain xs where "pl_submitted s' = pl_submitted s @ xs" using step_submitted [OF step] by blast
  then have b: "Nsub s + 64 < 18446744073709551616" using bound by simp
  show ?thesis
  proof (cases actor)
    case (Submit tasks)
    then have "s' = host_submits tasks s" using step by (simp add: pipeline_step_def)
    then show ?thesis using bound host_submits_inv [OF inv] by metis
  qed (use step ingress_step_inv [OF inv _ b] ingress_lane_inv [OF inv _ b] copier_step_inv [OF inv _ b] copier_lane_inv [OF inv]
        egress_step_inv [OF inv _ b] egress_lane_inv [OF inv _ b] host_polls_inv [OF inv b] host_stops_inv [OF inv]
      in \<open>auto simp: pipeline_step_def\<close>)
qed

lemma pipeline_run_inv:
  assumes "pipeline_inv k memory s" "run_pipeline k actors s = Some s'" "Nsub s' + 64 < 18446744073709551616"
  shows "pipeline_inv k memory s' \<and> (\<exists>xs. pl_submitted s' = pl_submitted s @ xs)"
  using assms
proof (induction actors arbitrary: s)
  case (Cons actor actors)
  obtain s1 where s1: "pipeline_step k actor s = Some s1" "run_pipeline k actors s1 = Some s'"
    using Cons.prems(2) by (auto split: option.split_asm)
  obtain xs where xs: "pl_submitted s1 = pl_submitted s @ xs" using step_submitted [OF s1(1)] by blast
  have more: "\<exists>ys. pl_submitted s' = pl_submitted s1 @ ys" if "run_pipeline k acts s1 = Some s'" for acts s1
    using that
  proof (induction acts arbitrary: s1)
    case (Cons a acts)
    then obtain s2 where "pipeline_step k a s1 = Some s2" "run_pipeline k acts s2 = Some s'" by (auto split: option.split_asm)
    then show ?case using Cons.IH [of s2] step_submitted [of k a s1 s2] by (metis append_assoc)
  qed auto
  obtain ys where ys: "pl_submitted s' = pl_submitted s1 @ ys" using more [OF s1(2)] by blast
  then have "pipeline_inv k memory s1" using step_inv [OF Cons.prems(1) s1(1)] Cons.prems(3) by simp
  then show ?case using Cons.IH [OF _ s1(2) Cons.prems(3)] xs ys by simp
qed simp

section \<open>What a run delivers\<close>

lemma polled_accesses:
  assumes inv: "pipeline_inv k memory s" and "i < Npol s"
  shows "accesses k (pl_submitted s ! i) \<subseteq> set (pl_accesses s)"
proof -
  note Q = queue_okD [OF pipeline_invD(2) [OF inv]]
  have "finished k s i" using published_finished [OF inv, of i] assms(2) Q(11,12) by simp
  moreover have "i < Nsub s" using assms(2) Q(15) by simp
  ultimately show ?thesis using copies_okD(2) [OF pipeline_invD(7) [OF inv], of i] by (simp add: task_at_def)
qed

text \<open>
  C6. In every run of the pipeline kernel and the host at its ring, under any interleaving of its warps and lanes, the completions the host polls are those of
  the first tasks it submitted, in that order and all successful; by then every access of those tasks has been performed, and no
  access is performed that does not belong to a submitted task. The bound says that fewer than 2^64 - 64 tasks were submitted, so that no counter wraps.
\<close>

theorem pipeline_completes_in_order:
  assumes "warp_allocate_pipeline capacity copy_warps depth base allocation_status mapping_status fresh new_warp_queue = (OK, q0)"
    and "warp_start_pipeline resources last_error q0 = (OK, q)"
    and "run_pipeline (launch_args q) actors (launch_pipeline q memory) = Some s" and "length (pl_submitted s) < 2 ^ 64 - 64"
  shows "pl_polled s = map completion_of (take (length (pl_polled s)) (pl_submitted s)) \<and> length (pl_polled s) \<le> length (pl_submitted s) \<and>
    pl_memory s = fold copy_cg (pl_accesses s) memory \<and>
    (\<forall>i < length (pl_polled s). accesses (launch_args q) (pl_submitted s ! i) \<subseteq> set (pl_accesses s)) \<and>
    set (pl_accesses s) \<subseteq> (\<Union>task \<in> set (pl_submitted s). accesses (launch_args q) task)"
proof -
  let ?k = "launch_args q"
  have inv: "pipeline_inv ?k memory s" using pipeline_run_inv [OF launch_inv [OF assms(1,2)] assms(3)] assms(4) by simp
  note I = pipeline_invD [OF inv] and Q = queue_okD [OF pipeline_invD(2) [OF inv]] and C = copies_okD [OF pipeline_invD(7) [OF inv]]
  have "accesses ?k (pl_submitted s ! i) \<subseteq> set (pl_accesses s)" if "i < Npol s" for i using polled_accesses [OF inv that] .
  moreover have "set (pl_accesses s) \<subseteq> (\<Union>task \<in> set (pl_submitted s). accesses ?k task)" using C(3) by blast
  ultimately show ?thesis using I(3) C(1) Q(15) unfolding history_ok_def by blast
qed

section \<open>The data\<close>

text \<open>
  C7. With tasks that fit and do not get in each other's way, the bytes of every task whose completion the host has polled stand at its target, as they were
  at its source when the kernel started; bytes outside all targets are untouched.
\<close>

theorem pipeline_moves_data:
  assumes "warp_allocate_pipeline capacity copy_warps depth base allocation_status mapping_status fresh new_warp_queue = (OK, q0)"
    and "warp_start_pipeline resources last_error q0 = (OK, q)"
    and "run_pipeline (launch_args q) actors (launch_pipeline q memory) = Some s" and "length (pl_submitted s) < 2 ^ 64 - 64"
    and "\<forall>task \<in> set (pl_submitted s). task_fits (launch_args q) task" and "tasks_apart (launch_args q) (pl_submitted s)"
  shows "(\<forall>i < length (pl_polled s). \<forall>a. range_covers (task_range (launch_args q) (pl_submitted s ! i)) a \<longrightarrow>
      pl_memory s a = memory (range_source (task_range (launch_args q) (pl_submitted s ! i)) a)) \<and>
    (\<forall>a. (\<forall>task \<in> set (pl_submitted s). \<not> range_covers (task_range (launch_args q) task) a) \<longrightarrow> pl_memory s a = memory a)"
proof -
  let ?k = "launch_args q"
  have inv: "pipeline_inv ?k memory s" using pipeline_run_inv [OF launch_inv [OF assms(1,2)] assms(3)] assms(4) by simp
  note Q = queue_okD [OF pipeline_invD(2) [OF inv]] and C = copies_okD [OF pipeline_invD(7) [OF inv]]
  have m: "pl_memory s = fold copy_cg (pl_accesses s) memory" "set (pl_accesses s) \<subseteq> (\<Union>task \<in> set (pl_submitted s). accesses ?k task)"
    using C(1,3) by blast+
  note T = tasks_moved [OF m assms(5,6)]
  have "pl_memory s a = memory (range_source (task_range ?k (pl_submitted s ! i)) a)"
    if "i < Npol s" "range_covers (task_range ?k (pl_submitted s ! i)) a" for i a
    using T(1) [of "pl_submitted s ! i" a] polled_accesses [OF inv that(1)] that Q(15) by simp
  then show ?thesis using T(2) by blast
qed

section \<open>A run\<close>

text \<open>Two copy warps, slots of depth 16, a ring of 32: a task is submitted, copied and polled.\<close>

declare lane_units.simps [code]
declare copy_cg_def [code del]

definition demo_allocated :: warp_queue where
  "demo_allocated = snd (warp_allocate_pipeline 32 2 16 4096 CudaSuccess CudaSuccess (zero_memory 32) new_warp_queue)"

definition demo_queue :: warp_queue where
  "demo_queue = snd (warp_start_pipeline True CudaSuccess demo_allocated)"

definition demo_tasks :: "copy_task list" where
  "demo_tasks = [\<lparr>ct_task_id = 7, ct_target_address = 65536, ct_length = 16, ct_relative_offset = 64\<rparr>]"

definition demo_actors :: "actor list" where
  "demo_actors =
     [Submit demo_tasks, Ingress, Ingress_lane 0, Egress, Ingress_lane 0, Ingress_lane 0, Copier 0, Copier 0, Ingress, Copier 0,
      Copier_lane 0 0, Copier 0, Copier 0, Copier 0, Copier 0, Egress_lane 0, Egress_lane 0, Egress, Egress_lane 0, Poll, Egress_lane 0, Egress]"

definition demo_final :: pipeline where
  "demo_final = the (run_pipeline (launch_args demo_queue) demo_actors (launch_pipeline demo_queue (\<lambda>a. of_nat a)))"

lemma demo_allocate:
  "warp_allocate_pipeline 32 2 16 4096 CudaSuccess CudaSuccess (zero_memory 32) new_warp_queue = (OK, demo_allocated)"
proof -
  have "fst (warp_allocate_pipeline 32 2 16 4096 CudaSuccess CudaSuccess (zero_memory 32) new_warp_queue) = 0" by code_simp
  then show ?thesis unfolding demo_allocated_def by (metis prod.collapse)
qed

lemma demo_start: "warp_start_pipeline True CudaSuccess demo_allocated = (OK, demo_queue)"
proof -
  have "fst (warp_start_pipeline True CudaSuccess demo_allocated) = 0" by code_simp
  then show ?thesis unfolding demo_queue_def by (metis prod.collapse)
qed

lemma demo_runs: "run_pipeline (launch_args demo_queue) demo_actors (launch_pipeline demo_queue (\<lambda>a. of_nat a)) = Some demo_final"
proof -
  have "\<not> Option.is_none (run_pipeline (launch_args demo_queue) demo_actors (launch_pipeline demo_queue (\<lambda>a. of_nat a)))" by code_simp
  then show ?thesis unfolding demo_final_def by (simp add: Option.is_none_def)
qed

lemma demo_history: "pl_submitted demo_final = demo_tasks" "length (pl_polled demo_final) = 1"
  by code_simp+

lemma demo_args: "ka_stage_buffer_base (launch_args demo_queue) = 4096"
  by code_simp

theorem pipeline_completes_in_order_witness:
  "pl_polled demo_final = [\<lparr>cp_task_id = 7, cp_result = Task_success\<rparr>] \<and>
    accesses (launch_args demo_queue) (demo_tasks ! 0) \<subseteq> set (pl_accesses demo_final)"
proof -
  have b: "length (pl_submitted demo_final) < 2 ^ 64 - 64" using demo_history(1) by (simp add: demo_tasks_def)
  note R = pipeline_completes_in_order [OF demo_allocate demo_start demo_runs b, unfolded demo_history]
  have "map completion_of (take 1 demo_tasks) = [\<lparr>cp_task_id = 7, cp_result = Task_success\<rparr>]"
    by (simp add: demo_tasks_def completion_of_def)
  then show ?thesis using R by simp
qed

theorem pipeline_moves_data_witness:
  "pl_memory demo_final 65540 = of_nat 4164 \<and> pl_memory demo_final 65601 = of_nat 65601"
proof -
  have b: "length (pl_submitted demo_final) < 2 ^ 64 - 64" using demo_history(1) by (simp add: demo_tasks_def)
  have set: "set demo_tasks = {demo_tasks ! 0}" by (simp add: demo_tasks_def)
  have r: "task_range (launch_args demo_queue) (demo_tasks ! 0) = (4160, 65536, 16)"
    by (simp add: task_range_def demo_args demo_tasks_def)
  have fits: "\<forall>task \<in> set (pl_submitted demo_final). task_fits (launch_args demo_queue) task"
    unfolding demo_history set task_fits_def by (simp add: r)
  have apart: "tasks_apart (launch_args demo_queue) (pl_submitted demo_final)"
    unfolding demo_history tasks_apart_def set by (auto simp: r range_covers_def range_source_def)
  note R = pipeline_moves_data [OF demo_allocate demo_start demo_runs b fits apart, unfolded demo_history]
  have "range_covers (task_range (launch_args demo_queue) (demo_tasks ! 0)) 65540" unfolding r by (simp add: range_covers_def)
  then have "pl_memory demo_final 65540 = of_nat (range_source (task_range (launch_args demo_queue) (demo_tasks ! 0)) 65540)"
    using R by blast
  then have "pl_memory demo_final 65540 = of_nat 4164" unfolding r by (simp add: range_source_def)
  moreover have "\<forall>task \<in> set demo_tasks. \<not> range_covers (task_range (launch_args demo_queue) task) 65601"
    unfolding set by (simp add: r range_covers_def)
  then have "pl_memory demo_final 65601 = of_nat 65601" using R by blast
  ultimately show ?thesis by blast
qed

end
