(* ===== verification/Direct_Kernel.thy ===== *)
theory Direct_Kernel
  imports Copy_Pipeline
begin

unbundle bit_operations_syntax

text \<open>
  \<^verbatim>\<open>direct_atomic_kernel\<close> of \<^verbatim>\<open>gpu/persistent_copy.cu\<close> with the host at its queue: every warp claims tasks by a compare and swap on the
  head of the ring, reserves as many completion slots by an atomic addition, copies, and publishes. Warps and lanes interleave as in
  \<^verbatim>\<open>Copy_Pipeline\<close>. The completion slots are in the order of the reservations, which need not be the order of the claims, while the host
  takes the number of completions polled for the number of task slots read: a run is given in which it overwrites a task
  that a warp has claimed and not read, so that the task is lost and another one done twice.
\<close>

section \<open>The machine\<close>

text \<open>
  The parameters are those of the pipeline kernel; the first template parameter is the number of tasks per claim. Lane 0 of a warp
  holds what was claimed and reserved.
\<close>

definition batch_count :: "kernel_args \<Rightarrow> u64 \<Rightarrow> u32" where
  "batch_count k available = ucast (if available < ucast (ka_depth k) then available else ucast (ka_depth k))"

lemma batch_count_bounds:
  assumes "is_supported_device_batch (ka_depth k)" "0 < unat available"
  shows "0 < unat (batch_count k available)" "unat (batch_count k available) \<le> 32" "unat (batch_count k available) \<le> unat available"
proof -
  have d: "unat (ka_depth k) \<le> 32" "0 < unat (ka_depth k)" using assms(1) by (auto simp: is_supported_device_batch_def)
  have m: "unat (if available < ucast (ka_depth k) then available else ucast (ka_depth k)) = min (unat available) (unat (ka_depth k))"
    by (simp add: word_less_nat_alt min_def)
  then have "unat (batch_count k available) = min (unat available) (unat (ka_depth k))"
    unfolding batch_count_def using d(1) by (subst unat_ucast_u64_u32) simp_all
  then show "0 < unat (batch_count k available)" "unat (batch_count k available) \<le> 32" "unat (batch_count k available) \<le> unat available"
    using d assms(2) by simp_all
qed

record direct_claim =
  cl_task_base :: u64
  cl_task_count :: u32
  cl_completion_base :: u64

datatype direct_pc =
    Dk_load_tail | Dk_load_head u64 | Dk_claim u64 u32 | Dk_check_stop | Dk_final_tail | Dk_final_head u64
  | Dk_reserve u64 u32 | Dk_read direct_claim u32 | Dk_copying direct_claim u32 copy_task "cg_access list list"
  | Dk_store direct_claim u32 copy_task | Dk_publish direct_claim u32 | Dk_exited

text \<open>The last three fields record history.\<close>

record direct_machine =
  dm_queue :: direct_queue
  dm_memory :: memory
  dm_warps :: "nat \<Rightarrow> direct_pc"
  dm_submitted :: "copy_task list"
  dm_polled :: "copy_completion list"
  dm_accesses :: "cg_access list"

definition direct_mapped :: "direct_machine \<Rightarrow> queue_memory" where
  "direct_mapped s = the (da_memory (dm_queue s))"

definition update_direct :: "(queue_memory \<Rightarrow> queue_memory) \<Rightarrow> direct_machine \<Rightarrow> direct_machine" where
  "update_direct f s = s\<lparr>dm_queue := (dm_queue s)\<lparr>da_memory := Some (f (direct_mapped s))\<rparr>\<rparr>"

definition launch_direct :: "direct_queue \<Rightarrow> memory \<Rightarrow> direct_machine" where
  "launch_direct q memory =
     \<lparr>dm_queue = q, dm_memory = memory, dm_warps = (\<lambda>_. Dk_load_tail), dm_submitted = [], dm_polled = [], dm_accesses = []\<rparr>"

definition direct_args :: "direct_queue \<Rightarrow> kernel_args" where
  "direct_args q = \<lparr>ka_depth = da_device_batch q, ka_copy_warps = da_copy_warps q, ka_capacity_mask = da_capacity_mask q,
                    ka_stage_buffer_base = da_stage_buffer_base q\<rparr>"

text \<open>The slot of a claimed index.\<close>

definition direct_slot :: "kernel_args \<Rightarrow> u64 \<Rightarrow> nat" where
  "direct_slot k index = unat (index AND ka_capacity_mask k)"

definition direct_warp :: "kernel_args \<Rightarrow> nat \<Rightarrow> direct_machine \<Rightarrow> direct_machine option" where
  "direct_warp k warp s =
     (if \<not> warp < unat (ka_copy_warps k) then None
      else let go = (\<lambda>pc s. Some (s\<lparr>dm_warps := (dm_warps s)(warp := pc)\<rparr>));
               m = direct_mapped s
           in case dm_warps s warp of
                Dk_load_tail \<Rightarrow> go (Dk_load_head (qm_task_tail m)) s
              | Dk_load_head tail \<Rightarrow>
                  (let head = qm_task_head m
                   in if head < tail then go (Dk_claim head (batch_count k (tail - head))) s else go Dk_check_stop s)
              | Dk_claim head task_count \<Rightarrow>
                  (if qm_task_head m = head
                   then go (Dk_reserve head task_count) (update_direct (qm_task_head_update (\<lambda>_. head + ucast task_count)) s)
                   else go Dk_load_tail s)
              | Dk_check_stop \<Rightarrow> go (if qm_stop_requested m \<noteq> 0 then Dk_final_tail else Dk_load_tail) s
              | Dk_final_tail \<Rightarrow> go (Dk_final_head (qm_task_tail m)) s
              | Dk_final_head final_tail \<Rightarrow> go (if qm_task_head m \<ge> final_tail then Dk_exited else Dk_load_tail) s
              | Dk_reserve task_base task_count \<Rightarrow>
                  go (Dk_read \<lparr>cl_task_base = task_base, cl_task_count = task_count, cl_completion_base = qm_completion_tail m\<rparr> 0)
                     (update_direct (qm_completion_tail_update (\<lambda>tail. tail + ucast task_count)) s)
              | Dk_read claim batch_index \<Rightarrow>
                  (if batch_index < cl_task_count claim
                   then let task = qm_task_slots m ! direct_slot k (cl_task_base claim + ucast batch_index)
                        in case task_accesses k task of None \<Rightarrow> None | Some lanes \<Rightarrow> go (Dk_copying claim batch_index task lanes) s
                   else go Dk_load_tail s)
              | Dk_copying claim batch_index task lanes \<Rightarrow>
                  (if list_all (\<lambda>as. as = []) lanes then go (Dk_store claim batch_index task) s else None)
              | Dk_store claim batch_index task \<Rightarrow>
                  (let slot = direct_slot k (cl_completion_base claim + ucast batch_index)
                   in go (Dk_publish claim batch_index)
                        (update_direct (\<lambda>m. m\<lparr>qm_completion_slots := (qm_completion_slots m)[slot :=
                           (qm_completion_slots m ! slot)\<lparr>cs_completion := \<lparr>cp_task_id = ct_task_id task, cp_result = Task_success\<rparr>,
                             cs_batch_start := (if batch_index = 0 then 1 else 0)\<rparr>]\<rparr>) s))
              | Dk_publish claim batch_index \<Rightarrow>
                  (let completion_index = cl_completion_base claim + ucast batch_index; slot = direct_slot k completion_index
                   in go (Dk_read claim (batch_index + 1))
                        (update_direct (\<lambda>m. m\<lparr>qm_completion_slots := (qm_completion_slots m)[slot :=
                           (qm_completion_slots m ! slot)\<lparr>cs_sequence := completion_index + 1\<rparr>]\<rparr>) s))
              | Dk_exited \<Rightarrow> None)"

text \<open>A lane performs its next access.\<close>

definition direct_lane :: "kernel_args \<Rightarrow> nat \<Rightarrow> nat \<Rightarrow> direct_machine \<Rightarrow> direct_machine option" where
  "direct_lane k warp lane s =
     (if \<not> warp < unat (ka_copy_warps k) then None
      else case dm_warps s warp of
             Dk_copying claim batch_index task lanes \<Rightarrow>
               (if lane < length lanes
                then case lanes ! lane of
                       [] \<Rightarrow> None
                     | a # as \<Rightarrow> Some (s\<lparr>dm_memory := copy_cg a (dm_memory s), dm_accesses := dm_accesses s @ [a],
                                        dm_warps := (dm_warps s)(warp := Dk_copying claim batch_index task (lanes[lane := as]))\<rparr>)
                else None)
           | _ \<Rightarrow> None)"

text \<open>The host at the queue.\<close>

definition direct_submits :: "copy_task list \<Rightarrow> direct_machine \<Rightarrow> direct_machine" where
  "direct_submits tasks s =
     (case direct_try_submit_batch tasks (dm_queue s) of (_, n, q) \<Rightarrow> s\<lparr>dm_queue := q, dm_submitted := dm_submitted s @ take n tasks\<rparr>)"

definition direct_polls :: "direct_machine \<Rightarrow> direct_machine" where
  "direct_polls s =
     (case direct_try_poll (dm_queue s) of (status, completion, q) \<Rightarrow>
        s\<lparr>dm_queue := q, dm_polled := (if status = 0 then dm_polled s @ [completion] else dm_polled s)\<rparr>)"

definition direct_stops :: "direct_machine \<Rightarrow> direct_machine" where
  "direct_stops s = s\<lparr>dm_queue := snd (direct_request_stop (dm_queue s))\<rparr>"

text \<open>Who steps; the kernels without roles share these.\<close>

datatype kernel_actor = Warp nat | Lane nat nat | Host_submit "copy_task list" | Host_poll | Host_stop

definition direct_step :: "kernel_args \<Rightarrow> kernel_actor \<Rightarrow> direct_machine \<Rightarrow> direct_machine option" where
  "direct_step k actor s =
     (case actor of
        Warp warp \<Rightarrow> direct_warp k warp s
      | Lane warp lane \<Rightarrow> direct_lane k warp lane s
      | Host_submit tasks \<Rightarrow> Some (direct_submits tasks s)
      | Host_poll \<Rightarrow> Some (direct_polls s)
      | Host_stop \<Rightarrow> Some (direct_stops s))"

fun run_direct :: "kernel_args \<Rightarrow> kernel_actor list \<Rightarrow> direct_machine \<Rightarrow> direct_machine option" where
  "run_direct k [] s = Some s"
| "run_direct k (actor # actors) s =
     (case direct_step k actor s of None \<Rightarrow> None | Some s' \<Rightarrow> run_direct k actors s')"

section \<open>A run that loses a task\<close>

text \<open>A ring of two slots, four warps, one task per claim; three tasks of 16 bytes with targets of their own.\<close>

declare lane_units.simps [code]
declare copy_cg_def [code del]

definition direct_demo :: direct_queue where
  "direct_demo = snd (direct_start True CudaSuccess
     (snd (direct_allocate 2 4 1 4096 CudaSuccess CudaSuccess (zero_memory 2) new_direct_queue)))"

definition direct_demo_task :: "u64 \<Rightarrow> copy_task" where
  "direct_demo_task n = \<lparr>ct_task_id = n, ct_target_address = 65536 + 16 * n, ct_length = 16, ct_relative_offset = 0\<rparr>"

text \<open>A warp that has reserved: it reads the task, its lane 0 copies, it stores and publishes the completion.\<close>

abbreviation (input) one_task :: "nat \<Rightarrow> kernel_actor list" where
  "one_task warp \<equiv> [Warp warp, Lane warp 0, Warp warp, Warp warp, Warp warp]"

text \<open>Warp 0 claims the first task and waits before its reservation; the second task overtakes it, and the host reuses the slot of the first.\<close>

definition losing_actors :: "kernel_actor list" where
  "losing_actors =
     [Host_submit [direct_demo_task 1, direct_demo_task 2], Warp 0, Warp 0, Warp 0] @
     [Warp 1, Warp 1, Warp 1, Warp 1] @ one_task 1 @ [Host_poll, Host_submit [direct_demo_task 3]] @
     [Warp 0] @ one_task 0 @ [Warp 1, Warp 1, Warp 1, Warp 1, Warp 1] @ one_task 1 @ [Host_poll, Host_poll]"

definition losing_final :: direct_machine where
  "losing_final = the (run_direct (direct_args direct_demo) losing_actors (launch_direct direct_demo (\<lambda>a. of_nat a)))"

lemma losing_runs:
  "run_direct (direct_args direct_demo) losing_actors (launch_direct direct_demo (\<lambda>a. of_nat a)) = Some losing_final"
  "map ct_task_id (dm_submitted losing_final) = [1, 2, 3]" "map cp_task_id (dm_polled losing_final) = [2, 3, 3]"
  "map ac_target (dm_accesses losing_final) = [65568, 65584, 65584 :: u64]" "direct_drained (dm_queue losing_final)"
proof -
  have "map_option (\<lambda>s. (map ct_task_id (dm_submitted s), map cp_task_id (dm_polled s), map ac_target (dm_accesses s), direct_drained (dm_queue s)))
      (run_direct (direct_args direct_demo) losing_actors (launch_direct direct_demo (\<lambda>a. of_nat a))) =
    Some ([1, 2, 3], [2, 3, 3], [65568, 65584, 65584], True)" by code_simp
  then show "run_direct (direct_args direct_demo) losing_actors (launch_direct direct_demo (\<lambda>a. of_nat a)) = Some losing_final"
      "map ct_task_id (dm_submitted losing_final) = [1, 2, 3]" "map cp_task_id (dm_polled losing_final) = [2, 3, 3]"
      "map ac_target (dm_accesses losing_final) = [65568, 65584, 65584 :: u64]" "direct_drained (dm_queue losing_final)"
    unfolding losing_final_def by auto
qed

text \<open>
  The direct atomic kernel can lose a task: there is a run, from a queue that was allocated and started, in which the host is told
  that three tasks of ids 1, 2 and 3 are done although it gets the ids 2, 3 and 3, no access was made for the first one, and the
  queue counts as drained.
\<close>

lemma direct_kernel_loses_task:
  "\<exists>actors s. run_direct (direct_args direct_demo) actors (launch_direct direct_demo (\<lambda>a. of_nat a)) = Some s \<and>
     map ct_task_id (dm_submitted s) = [1, 2, 3] \<and> map cp_task_id (dm_polled s) = [2, 3, 3] \<and>
     map (ct_target_address \<circ> direct_demo_task) [1, 2, 3] = [65552, 65568, 65584] \<and>
     (65552 :: u64) \<notin> ac_target ` set (dm_accesses s) \<and> direct_drained (dm_queue s)"
proof -
  have "map (ct_target_address \<circ> direct_demo_task) [1, 2, 3] = [65552, 65568, 65584]" by (simp add: direct_demo_task_def)
  moreover have "(65552 :: u64) \<notin> ac_target ` set (dm_accesses losing_final)" unfolding set_map [symmetric] losing_runs(4) by simp
  ultimately show ?thesis
    using losing_runs by (intro exI [of _ losing_actors] exI [of _ losing_final] conjI)
qed

end
