(* ===== verification/Static_Kernel.thy ===== *)
theory Static_Kernel
  imports Direct_Kernel Kernel_Copies Copy_Rings
begin

unbundle bit_operations_syntax

text \<open>
  \<^verbatim>\<open>static_partition_spsc_kernel\<close> of \<^verbatim>\<open>gpu/persistent_copy.cu\<close> with the host at its queue: warp \<open>w\<close> of \<open>W\<close> owns the indices
  congruent to \<open>w\<close>; it takes a batch of them, one lane reading one task, copies them one after the other, and every lane publishes its completion
  by the sequence number of the slot. Shown, under every interleaving of warps and lanes with the host: the host polls the completions
  of its tasks in the order it submitted them, each after all accesses of its copy.

  A warp goes on to its next batch only when all its lanes have published their completions. The source has no barrier
  there (lines 640 to 647): lane 0 may load the tail again while others still publish. The machine leaves out these
  interleavings; the host waits for the sequence number of every slot in turn, whichever lane stores it.
\<close>

section \<open>The machine\<close>

datatype static_pc =
    Sk_load_tail | Sk_check_stop | Sk_recheck | Sk_read "copy_task option list" | Sk_next "copy_task list" nat
  | Sk_copying "copy_task list" nat "cg_access list list" | Sk_complete "copy_task list" "lane_pc list" | Sk_exited

record static_machine =
  sm_queue :: static_queue
  sm_memory :: memory
  sm_warps :: "nat \<Rightarrow> static_pc"
  sm_owned :: "nat \<Rightarrow> u64"
  sm_submitted :: "copy_task list"
  sm_polled :: "copy_completion list"
  sm_accesses :: "cg_access list"

definition static_mapped :: "static_machine \<Rightarrow> queue_memory" where
  "static_mapped s = the (sp_memory (sm_queue s))"

definition launch_static :: "static_queue \<Rightarrow> memory \<Rightarrow> static_machine" where
  "launch_static q memory =
     \<lparr>sm_queue = q, sm_memory = memory, sm_warps = (\<lambda>_. Sk_load_tail), sm_owned = of_nat, sm_submitted = [], sm_polled = [], sm_accesses = []\<rparr>"

definition static_args :: "static_queue \<Rightarrow> kernel_args" where
  "static_args q = \<lparr>ka_depth = sp_device_batch q, ka_copy_warps = sp_copy_warps q, ka_capacity_mask = sp_capacity_mask q,
                    ka_stage_buffer_base = sp_stage_buffer_base q\<rparr>"

definition copy_warp_shift :: "u32 \<Rightarrow> nat" where
  "copy_warp_shift copy_warps = (if copy_warps = 4 then 2 else if copy_warps = 8 then 3 else if copy_warps = 16 then 4 else 5)"

text \<open>How many of the indices a warp owns are below the tail, up to the size of a batch.\<close>

definition owned_batch :: "kernel_args \<Rightarrow> u64 \<Rightarrow> u64 \<Rightarrow> u32" where
  "owned_batch k task_tail owned_index = batch_count k (drop_bit (copy_warp_shift (ka_copy_warps k)) (task_tail - 1 - owned_index) + 1)"

definition lane_task_index :: "kernel_args \<Rightarrow> u64 \<Rightarrow> nat \<Rightarrow> u64" where
  "lane_task_index k owned_index lane = owned_index + of_nat lane * ucast (ka_copy_warps k)"

definition static_warp :: "kernel_args \<Rightarrow> nat \<Rightarrow> static_machine \<Rightarrow> static_machine option" where
  "static_warp k warp s =
     (if \<not> warp < unat (ka_copy_warps k) then None
      else let go = (\<lambda>pc s. Some (s\<lparr>sm_warps := (sm_warps s)(warp := pc)\<rparr>));
               m = static_mapped s; owned_index = sm_owned s warp;
               batch = Sk_read (replicate (unat (owned_batch k (qm_task_tail m) owned_index)) None)
           in case sm_warps s warp of
                Sk_load_tail \<Rightarrow> go (if owned_index \<ge> qm_task_tail m then Sk_check_stop else batch) s
              | Sk_check_stop \<Rightarrow> go (if qm_stop_requested m \<noteq> 0 then Sk_recheck else Sk_load_tail) s
              | Sk_recheck \<Rightarrow> go (if owned_index \<ge> qm_task_tail m then Sk_exited else batch) s
              | Sk_read tasks \<Rightarrow> (if list_all (\<lambda>task. task \<noteq> None) tasks then go (Sk_next (map the tasks) 0) s else None)
              | Sk_next tasks batch_index \<Rightarrow>
                  (if batch_index < length tasks
                   then case task_accesses k (tasks ! batch_index) of
                          None \<Rightarrow> None
                        | Some lanes \<Rightarrow> go (Sk_copying tasks batch_index lanes) s
                   else go (Sk_complete tasks (replicate (length tasks) Lane_store)) s)
              | Sk_copying tasks batch_index lanes \<Rightarrow>
                  (if list_all (\<lambda>as. as = []) lanes then go (Sk_next tasks (batch_index + 1)) s else None)
              | Sk_complete tasks lanes \<Rightarrow>
                  (if list_all (\<lambda>pc. pc = Lane_done) lanes
                   then go Sk_load_tail (s\<lparr>sm_owned := (sm_owned s)(warp := lane_task_index k owned_index (length tasks))\<rparr>) else None)
              | Sk_exited \<Rightarrow> None)"

text \<open>One lane: read the task of its index; perform the next access of the copy; store the completion, then its sequence number.\<close>

definition update_completion :: "nat \<Rightarrow> (completion_slot \<Rightarrow> completion_slot) \<Rightarrow> static_machine \<Rightarrow> static_machine" where
  "update_completion slot f s =
     s\<lparr>sm_queue := (sm_queue s)\<lparr>sp_memory := Some ((static_mapped s)\<lparr>qm_completion_slots :=
         (qm_completion_slots (static_mapped s))[slot := f (qm_completion_slots (static_mapped s) ! slot)]\<rparr>)\<rparr>\<rparr>"

definition static_lane :: "kernel_args \<Rightarrow> nat \<Rightarrow> nat \<Rightarrow> static_machine \<Rightarrow> static_machine option" where
  "static_lane k warp lane s =
     (if \<not> warp < unat (ka_copy_warps k) then None
      else let go = (\<lambda>pc s. Some (s\<lparr>sm_warps := (sm_warps s)(warp := pc)\<rparr>));
               index = lane_task_index k (sm_owned s warp) lane; slot = direct_slot k index
           in case sm_warps s warp of
                Sk_read tasks \<Rightarrow>
                  (if lane < length tasks \<and> tasks ! lane = None
                   then go (Sk_read (tasks[lane := Some (qm_task_slots (static_mapped s) ! slot)])) s else None)
              | Sk_copying tasks batch_index lanes \<Rightarrow>
                  (if lane < length lanes
                   then case lanes ! lane of
                          [] \<Rightarrow> None
                        | a # as \<Rightarrow> go (Sk_copying tasks batch_index (lanes[lane := as]))
                                     (s\<lparr>sm_memory := copy_cg a (sm_memory s), sm_accesses := sm_accesses s @ [a]\<rparr>)
                   else None)
              | Sk_complete tasks lanes \<Rightarrow>
                  (if lane < length lanes
                   then case lanes ! lane of
                          Lane_store \<Rightarrow>
                            go (Sk_complete tasks (lanes[lane := Lane_publish]))
                              (update_completion slot (cs_completion_update (\<lambda>_. completion_of (tasks ! lane))) s)
                        | Lane_publish \<Rightarrow>
                            go (Sk_complete tasks (lanes[lane := Lane_done]))
                              (update_completion slot (cs_sequence_update (\<lambda>_. index + 1)) s)
                        | _ \<Rightarrow> None
                   else None)
              | _ \<Rightarrow> None)"

text \<open>The host at the queue.\<close>

definition static_submits :: "copy_task list \<Rightarrow> static_machine \<Rightarrow> static_machine" where
  "static_submits tasks s =
     (case static_try_submit_batch tasks (sm_queue s) of (_, n, q) \<Rightarrow> s\<lparr>sm_queue := q, sm_submitted := sm_submitted s @ take n tasks\<rparr>)"

definition static_polls :: "static_machine \<Rightarrow> static_machine" where
  "static_polls s =
     (case static_try_poll (sm_queue s) of (status, completion, q) \<Rightarrow>
        s\<lparr>sm_queue := q, sm_polled := (if status = 0 then sm_polled s @ [completion] else sm_polled s)\<rparr>)"

definition static_stops :: "static_machine \<Rightarrow> static_machine" where
  "static_stops s = s\<lparr>sm_queue := snd (static_request_stop (sm_queue s))\<rparr>"

definition static_step :: "kernel_args \<Rightarrow> kernel_actor \<Rightarrow> static_machine \<Rightarrow> static_machine option" where
  "static_step k actor s =
     (case actor of
        Warp warp \<Rightarrow> static_warp k warp s
      | Lane warp lane \<Rightarrow> static_lane k warp lane s
      | Host_submit tasks \<Rightarrow> Some (static_submits tasks s)
      | Host_poll \<Rightarrow> Some (static_polls s)
      | Host_stop \<Rightarrow> Some (static_stops s))"

fun run_static :: "kernel_args \<Rightarrow> kernel_actor list \<Rightarrow> static_machine \<Rightarrow> static_machine option" where
  "run_static k [] s = Some s"
| "run_static k (actor # actors) s =
     (case static_step k actor s of None \<Rightarrow> None | Some s' \<Rightarrow> run_static k actors s')"

end
