(* ===== verification/Static_Run.thy ===== *)
theory Static_Run
  imports Static_Kernel
begin

unbundle bit_operations_syntax

text \<open>
  The invariant of the static partition kernel with the host at its ring, that every step keeps it, and what it says of a run. The
  slots of the completion ring carry the number of the last completion stored in them; which indices are done is read off the places the
  warps are at.
\<close>

section \<open>Indices and slots\<close>

abbreviation (input) SW :: "kernel_args \<Rightarrow> nat" where "SW k \<equiv> unat (ka_copy_warps k)"
abbreviation (input) Ssub :: "static_machine \<Rightarrow> nat" where "Ssub s \<equiv> length (sm_submitted s)"
abbreviation (input) Spol :: "static_machine \<Rightarrow> nat" where "Spol s \<equiv> length (sm_polled s)"
abbreviation (input) Scap :: "static_machine \<Rightarrow> nat" where "Scap s \<equiv> unat (sp_capacity (sm_queue s))"

definition static_args_ok :: "kernel_args \<Rightarrow> u64 \<Rightarrow> bool" where
  "static_args_ok k capacity \<longleftrightarrow> is_supported_copy_warps (ka_copy_warps k) \<and> is_supported_device_batch (ka_depth k) \<and>
     is_power_of_two capacity \<and> ka_capacity_mask k = capacity - 1"

lemma static_argsD:
  assumes "static_args_ok k capacity"
  shows "0 < SW k" "SW k \<le> 32" "is_power_of_two capacity" "0 < unat capacity" "direct_slot k index = unat index mod unat capacity"
proof -
  show "0 < SW k" "SW k \<le> 32" "is_power_of_two capacity" using assms by (auto simp: static_args_ok_def is_supported_copy_warps_def)
  then show "0 < unat capacity" "direct_slot k index = unat index mod unat capacity"
    using power_of_two_dvd(2) unat_and_pred [of capacity index] assms by (simp_all add: direct_slot_def static_args_ok_def)
qed

text \<open>A batch is not empty, and its last index is below the tail.\<close>

lemma owned_batch_bounds:
  assumes "static_args_ok k capacity" "\<not> owned \<ge> tail"
  defines "n \<equiv> unat (owned_batch k tail owned)"
  shows "0 < n" "n \<le> 32" "unat owned + (n - 1) * SW k < unat tail"
proof -
  let ?d = "tail - 1 - owned"
  have lt: "unat owned < unat tail" using assms(2) by (simp add: word_less_nat_alt not_le)
  have "unat (tail - 1) = unat tail - 1" using lt by (intro unat_minus_one) auto
  then have d: "unat ?d = unat tail - 1 - unat owned" using lt by (simp add: unat_sub word_le_nat_alt)
  have w: "SW k = 2 ^ copy_warp_shift (ka_copy_warps k)"
    using assms(1) by (auto simp: static_args_ok_def is_supported_copy_warps_def copy_warp_shift_def)
  have "unat (drop_bit m ?d) = drop_bit m (unat ?d)" for m
    using unat_u64_bound [of ?d] by (simp add: unsigned_drop_bit_eq take_bit_nat_eq_self)
  then have q: "unat (drop_bit (copy_warp_shift (ka_copy_warps k)) ?d) = unat ?d div SW k"
    unfolding w by (metis drop_bit_eq_div)
  have "unat ?d div SW k + 1 < 18446744073709551616"
  proof -
    have "2 \<le> SW k" using assms(1) by (auto simp: static_args_ok_def is_supported_copy_warps_def)
    then have "unat ?d div SW k \<le> unat ?d div 2" by (intro div_le_mono2) auto
    then show ?thesis using unat_u64_bound [of ?d] by linarith
  qed
  then have a: "unat (drop_bit (copy_warp_shift (ka_copy_warps k)) ?d + 1) = unat ?d div SW k + 1" using q unat_add_u64 by simp
  have b: "is_supported_device_batch (ka_depth k)" using assms(1) by (simp add: static_args_ok_def)
  note B = batch_count_bounds [OF b, of "drop_bit (copy_warp_shift (ka_copy_warps k)) ?d + 1", unfolded a]
  show "0 < n" "n \<le> 32" using B(1,2) unfolding n_def owned_batch_def by simp_all
  have "n - 1 \<le> unat ?d div SW k" using B(3) unfolding n_def owned_batch_def by simp
  then have "(n - 1) * SW k \<le> unat ?d div SW k * SW k" by (rule mult_le_mono1)
  also have "\<dots> \<le> unat ?d" by simp
  finally show "unat owned + (n - 1) * SW k < unat tail" using d lt by linarith
qed

lemma unat_lane_task_index:
  assumes "unat owned + lane * SW k < 18446744073709551616"
  shows "unat (lane_task_index k owned lane) = unat owned + lane * SW k"
proof -
  have e: "(of_nat lane * ucast (ka_copy_warps k) :: u64) = of_nat (lane * SW k)" by (metis of_nat_mult of_nat_unat)
  have "unat (of_nat (lane * SW k) :: u64) = lane * SW k" using assms by (intro unat_of_nat_u64) simp
  then show ?thesis unfolding lane_task_index_def e using assms unat_add_u64 [of owned "of_nat (lane * SW k)"] by presburger
qed

section \<open>The invariant\<close>

text \<open>Index \<open>i\<close> of the warp that owns it is done: its completion is stored and its sequence number published.\<close>

definition sk_done :: "nat \<Rightarrow> nat \<Rightarrow> static_pc \<Rightarrow> nat \<Rightarrow> bool" where
  "sk_done w owned pc i \<longleftrightarrow> i < owned \<or>
     (case pc of Sk_complete tasks lanes \<Rightarrow> \<exists>l < length lanes. i = owned + l * w \<and> lanes ! l = Lane_done | _ \<Rightarrow> False)"

definition static_done :: "kernel_args \<Rightarrow> static_machine \<Rightarrow> nat \<Rightarrow> bool" where
  "static_done k s i \<longleftrightarrow> sk_done (SW k) (unat (sm_owned s (i mod SW k))) (sm_warps s (i mod SW k)) i"

definition static_queue_ok :: "kernel_args \<Rightarrow> static_machine \<Rightarrow> bool" where
  "static_queue_ok k s \<longleftrightarrow>
     static_args_ok k (sp_capacity (sm_queue s)) \<and> sp_memory (sm_queue s) \<noteq> None \<and> sp_capacity_mask (sm_queue s) = ka_capacity_mask k \<and>
     ring_holds (sp_capacity (sm_queue s)) (sp_completion_head (sm_queue s)) (sp_submit_tail (sm_queue s))
       (qm_task_slots (static_mapped s)) (drop (Spol s) (sm_submitted s)) \<and>
     unat (sp_completion_head (sm_queue s)) = Spol s \<and> unat (sp_submit_tail (sm_queue s)) = Ssub s \<and> Spol s \<le> Ssub s \<and>
     qm_task_tail (static_mapped s) = sp_submit_tail (sm_queue s) \<and>
     sm_polled s = map completion_of (take (Spol s) (sm_submitted s))"

text \<open>Every slot of the completion ring belongs to one index of the window from the host's head on.\<close>

definition slots_ok :: "nat \<Rightarrow> nat \<Rightarrow> (nat \<Rightarrow> bool) \<Rightarrow> copy_task list \<Rightarrow> completion_slot list \<Rightarrow> bool" where
  "slots_ok c p fin tasks slots \<longleftrightarrow> length slots = c \<and>
     (\<forall>i. p \<le> i \<and> i < p + c \<longrightarrow>
        (if fin i then unat (cs_sequence (slots ! (i mod c))) = i + 1 \<and> cs_completion (slots ! (i mod c)) = completion_of (tasks ! i)
         else unat (cs_sequence (slots ! (i mod c))) = i + 1 - c))"

definition owned_tasks :: "nat \<Rightarrow> copy_task list \<Rightarrow> nat \<Rightarrow> copy_task list \<Rightarrow> bool" where
  "owned_tasks w tasks owned batch \<longleftrightarrow> 0 < length batch \<and> length batch \<le> 32 \<and> owned + (length batch - 1) * w < length tasks \<and>
     (\<forall>l < length batch. batch ! l = tasks ! (owned + l * w))"

definition warp_ok :: "nat \<Rightarrow> nat \<Rightarrow> copy_task list \<Rightarrow> completion_slot list \<Rightarrow> nat \<Rightarrow> static_pc \<Rightarrow> bool" where
  "warp_ok w c tasks slots owned pc \<longleftrightarrow>
     (case pc of
        Sk_read ts \<Rightarrow> 0 < length ts \<and> length ts \<le> 32 \<and> owned + (length ts - 1) * w < length tasks \<and>
          (\<forall>l < length ts. ts ! l = None \<or> ts ! l = Some (tasks ! (owned + l * w)))
      | Sk_next ts b \<Rightarrow> owned_tasks w tasks owned ts \<and> b \<le> length ts
      | Sk_copying ts b _ \<Rightarrow> owned_tasks w tasks owned ts \<and> b < length ts
      | Sk_complete ts lanes \<Rightarrow> owned_tasks w tasks owned ts \<and> length lanes = length ts \<and>
          (\<forall>l < length lanes. lanes ! l = Lane_store \<or> lanes ! l = Lane_done \<or>
             lanes ! l = Lane_publish \<and> cs_completion (slots ! ((owned + l * w) mod c)) = completion_of (tasks ! (owned + l * w)))
      | _ \<Rightarrow> True)"

definition pc_copies :: "kernel_args \<Rightarrow> cg_access list \<Rightarrow> static_pc \<Rightarrow> bool" where
  "pc_copies k accs pc \<longleftrightarrow>
     (case pc of
        Sk_next ts b \<Rightarrow> \<forall>l < b. accesses k (ts ! l) \<subseteq> set accs
      | Sk_copying ts b lanes \<Rightarrow> (\<forall>l < b. accesses k (ts ! l) \<subseteq> set accs) \<and> copying_ok k accs (ts ! b) lanes
      | Sk_complete ts _ \<Rightarrow> \<forall>l < length ts. accesses k (ts ! l) \<subseteq> set accs
      | _ \<Rightarrow> True)"

definition static_copies :: "kernel_args \<Rightarrow> memory \<Rightarrow> static_machine \<Rightarrow> bool" where
  "static_copies k memory s \<longleftrightarrow>
     sm_memory s = fold copy_cg (sm_accesses s) memory \<and>
     set (sm_accesses s) \<subseteq> (\<Union>task \<in> set (sm_submitted s). accesses k task) \<and>
     (\<forall>i < Ssub s. static_done k s i \<longrightarrow> accesses k (sm_submitted s ! i) \<subseteq> set (sm_accesses s))"

definition static_warps_ok :: "kernel_args \<Rightarrow> static_machine \<Rightarrow> bool" where
  "static_warps_ok k s \<longleftrightarrow>
     (\<forall>w < SW k. unat (sm_owned s w) mod SW k = w \<and> unat (sm_owned s w) < Ssub s + SW k \<and>
        warp_ok (SW k) (Scap s) (sm_submitted s) (qm_completion_slots (static_mapped s)) (unat (sm_owned s w)) (sm_warps s w) \<and>
        pc_copies k (sm_accesses s) (sm_warps s w))"

definition static_inv :: "kernel_args \<Rightarrow> memory \<Rightarrow> static_machine \<Rightarrow> bool" where
  "static_inv k memory s \<longleftrightarrow> static_queue_ok k s \<and> static_copies k memory s \<and> static_warps_ok k s \<and>
     slots_ok (Scap s) (Spol s) (static_done k s) (sm_submitted s) (qm_completion_slots (static_mapped s)) \<and>
     (\<forall>i < Spol s. static_done k s i)"

lemma static_invD:
  assumes "static_inv k memory s"
  shows "static_queue_ok k s" "static_copies k memory s" "static_warps_ok k s"
    "slots_ok (Scap s) (Spol s) (static_done k s) (sm_submitted s) (qm_completion_slots (static_mapped s))"
    "\<And>i. i < Spol s \<Longrightarrow> static_done k s i"
  using assms unfolding static_inv_def by blast+

lemma static_queueD:
  assumes "static_queue_ok k s"
  shows "static_args_ok k (sp_capacity (sm_queue s))" "sp_memory (sm_queue s) = Some (static_mapped s)"
    "sp_capacity_mask (sm_queue s) = ka_capacity_mask k"
    "ring_holds (sp_capacity (sm_queue s)) (sp_completion_head (sm_queue s)) (sp_submit_tail (sm_queue s))
       (qm_task_slots (static_mapped s)) (drop (Spol s) (sm_submitted s))"
    "unat (sp_completion_head (sm_queue s)) = Spol s" "unat (sp_submit_tail (sm_queue s)) = Ssub s" "Spol s \<le> Ssub s"
    "qm_task_tail (static_mapped s) = sp_submit_tail (sm_queue s)"
    "sm_polled s = map completion_of (take (Spol s) (sm_submitted s))" "Ssub s - Spol s \<le> Scap s"
  using assms ring_holdsD(3) [of "sp_capacity (sm_queue s)" "sp_completion_head (sm_queue s)" "sp_submit_tail (sm_queue s)"
      "qm_task_slots (static_mapped s)" "drop (Spol s) (sm_submitted s)"]
  unfolding static_queue_ok_def static_mapped_def by auto

lemma static_warpsD:
  assumes "static_warps_ok k s" "w < SW k"
  shows "unat (sm_owned s w) mod SW k = w" "unat (sm_owned s w) < Ssub s + SW k"
    "warp_ok (SW k) (Scap s) (sm_submitted s) (qm_completion_slots (static_mapped s)) (unat (sm_owned s w)) (sm_warps s w)"
    "pc_copies k (sm_accesses s) (sm_warps s w)"
  using assms unfolding static_warps_ok_def by blast+

text \<open>The task of an index the host still waits for is in its slot.\<close>

lemma static_task_slot:
  assumes "static_queue_ok k s" "Spol s \<le> i" "i < Ssub s"
  shows "qm_task_slots (static_mapped s) ! (i mod Scap s) = sm_submitted s ! i"
  using ring_holdsD(5) [OF static_queueD(4) [OF assms(1)], of "i - Spol s"] static_queueD(5) [OF assms(1)] assms(2,3) by simp

section \<open>What is done\<close>

lemma owned_congruent:
  assumes "i < o1" "i mod w = o1 mod (w :: nat)" "o1 < n + w"
  shows "i < n"
proof -
  have "w dvd o1 - i" using assms(1,2) mod_eq_dvd_iff_nat [of i o1 w] by simp
  then have "w \<le> o1 - i" using assms(1) by (intro dvd_imp_le) simp_all
  then show ?thesis using assms(1,3) by linarith
qed

lemma static_done_below:
  assumes "static_inv k memory s" "static_done k s i"
  shows "i < Ssub s"
proof -
  let ?w = "i mod SW k" and ?o = "unat (sm_owned s (i mod SW k))"
  have w: "?w < SW k" using static_argsD(1) [OF static_queueD(1) [OF static_invD(1) [OF assms(1)]]] by simp
  note W = static_warpsD [OF static_invD(3) [OF assms(1)] w]
  show ?thesis
  proof (cases "i < ?o")
    case True
    then show ?thesis using owned_congruent [of i ?o "SW k" "Ssub s"] W(1,2) by simp
  next
    case False
    then obtain ts lanes l where pc: "sm_warps s ?w = Sk_complete ts lanes" "l < length lanes" "i = ?o + l * SW k"
      using assms(2) unfolding static_done_def sk_done_def by (auto split: static_pc.split_asm)
    then have b: "?o + (length ts - 1) * SW k < Ssub s" "length lanes = length ts" using W(3) by (simp_all add: warp_ok_def owned_tasks_def)
    have "l * SW k \<le> (length ts - 1) * SW k" using pc(2) b(2) by (intro mult_le_mono1) simp
    then show ?thesis using pc(3) b(1) by linarith
  qed
qed

text \<open>An index of the batch a warp is at.\<close>

lemma batch_index:
  assumes "static_inv k memory s" "w < SW k" "l < n" "unat (sm_owned s w) + (n - 1) * SW k < Ssub s"
  defines "i \<equiv> unat (sm_owned s w) + l * SW k"
  shows "i mod SW k = w" "i < Ssub s"
    "static_done k s i \<longleftrightarrow> (\<exists>ts lanes. sm_warps s w = Sk_complete ts lanes \<and> l < length lanes \<and> lanes ! l = Lane_done)"
    "\<not> static_done k s i \<Longrightarrow> Spol s \<le> i"
proof -
  have pos: "0 < SW k" using assms(2) by simp
  show m: "i mod SW k = w" using static_warpsD(1) [OF static_invD(3) [OF assms(1)] assms(2)] unfolding i_def by simp
  have "l * SW k \<le> (n - 1) * SW k" using assms(3) by (intro mult_le_mono1) simp
  then show "i < Ssub s" using assms(4) unfolding i_def by linarith
  show "static_done k s i \<longleftrightarrow> (\<exists>ts lanes. sm_warps s w = Sk_complete ts lanes \<and> l < length lanes \<and> lanes ! l = Lane_done)"
    unfolding static_done_def sk_done_def m using pos by (auto simp: i_def split: static_pc.split)
  show "\<not> static_done k s i \<Longrightarrow> Spol s \<le> i" using static_invD(5) [OF assms(1), of i] by (metis not_le)
qed

lemma static_done_warp:
  assumes "\<And>i. i mod SW k = w \<Longrightarrow> sk_done (SW k) (unat owned) pc i = sk_done (SW k) (unat (sm_owned s w)) (sm_warps s w) i"
  shows "static_done k (s\<lparr>sm_owned := (sm_owned s)(w := owned), sm_warps := (sm_warps s)(w := pc)\<rparr>) = static_done k s"
  using assms by (auto simp: static_done_def fun_eq_iff)

section \<open>A warp moves on\<close>

lemma static_mapped_frame [simp]:
  "static_mapped (s\<lparr>sm_warps := ws\<rparr>) = static_mapped s" "static_mapped (s\<lparr>sm_owned := os\<rparr>) = static_mapped s"
  "static_mapped (s\<lparr>sm_memory := m\<rparr>) = static_mapped s" "static_mapped (s\<lparr>sm_accesses := as\<rparr>) = static_mapped s"
  by (simp_all add: static_mapped_def)

lemma static_done_frame [simp]:
  "static_done k (s\<lparr>sm_queue := q\<rparr>) = static_done k s" "static_done k (s\<lparr>sm_submitted := sub\<rparr>) = static_done k s"
  "static_done k (s\<lparr>sm_polled := pol\<rparr>) = static_done k s" "static_done k (s\<lparr>sm_memory := m\<rparr>) = static_done k s"
  "static_done k (s\<lparr>sm_accesses := as\<rparr>) = static_done k s"
  by (simp_all add: static_done_def fun_eq_iff)

lemma static_inv_warp:
  assumes inv: "static_inv k memory s" and w: "w < SW k"
    and fin: "\<And>i. i mod SW k = w \<Longrightarrow> sk_done (SW k) (unat owned) pc i = sk_done (SW k) (unat (sm_owned s w)) (sm_warps s w) i"
    and o: "unat owned mod SW k = w" "unat owned < Ssub s + SW k"
    and ok: "warp_ok (SW k) (Scap s) (sm_submitted s) (qm_completion_slots (static_mapped s)) (unat owned) pc" "pc_copies k (sm_accesses s) pc"
  shows "static_inv k memory (s\<lparr>sm_owned := (sm_owned s)(w := owned), sm_warps := (sm_warps s)(w := pc)\<rparr>)" (is "static_inv k memory ?s")
proof -
  note I = static_invD [OF inv]
  have d: "static_done k ?s = static_done k s" using fin by (rule static_done_warp)
  have "static_queue_ok k ?s" using I(1) by (simp add: static_queue_ok_def)
  moreover have "static_copies k memory ?s" using I(2) d by (simp add: static_copies_def)
  moreover have "static_warps_ok k ?s" using I(3) o ok by (simp add: static_warps_ok_def)
  ultimately show ?thesis using I(4,5) d by (simp add: static_inv_def)
qed

lemma static_inv_pc:
  assumes inv: "static_inv k memory s" and w: "w < SW k"
    and fin: "\<And>i. i mod SW k = w \<Longrightarrow> sk_done (SW k) (unat (sm_owned s w)) pc i = sk_done (SW k) (unat (sm_owned s w)) (sm_warps s w) i"
    and ok: "warp_ok (SW k) (Scap s) (sm_submitted s) (qm_completion_slots (static_mapped s)) (unat (sm_owned s w)) pc" "pc_copies k (sm_accesses s) pc"
  shows "static_inv k memory (s\<lparr>sm_warps := (sm_warps s)(w := pc)\<rparr>)"
  using static_inv_warp [OF inv w fin _ _ ok] static_warpsD(1,2) [OF static_invD(3) [OF inv] w] by simp

lemma static_read_begins:
  assumes inv: "static_inv k memory s" and w: "w < SW k" and lt: "\<not> sm_owned s w \<ge> qm_task_tail (static_mapped s)"
    and pc: "sm_warps s w = Sk_load_tail \<or> sm_warps s w = Sk_recheck"
  shows "static_inv k memory (s\<lparr>sm_warps := (sm_warps s)(w :=
    Sk_read (replicate (unat (owned_batch k (qm_task_tail (static_mapped s)) (sm_owned s w))) None))\<rparr>)"
proof -
  note Q = static_queueD [OF static_invD(1) [OF inv]]
  note B = owned_batch_bounds [OF Q(1) lt]
  show ?thesis using pc B Q(6,8) by (intro static_inv_pc [OF inv w]) (auto simp: sk_done_def warp_ok_def pc_copies_def)
qed

lemma static_batch_ends:
  assumes inv: "static_inv k memory s" and w: "w < SW k" and pc: "sm_warps s w = Sk_complete ts lanes"
    and all: "list_all (\<lambda>pc. pc = Lane_done) lanes" and bound: "Ssub s + 64 < 18446744073709551616"
  shows "static_inv k memory (s\<lparr>sm_owned := (sm_owned s)(w := lane_task_index k (sm_owned s w) (length ts)),
    sm_warps := (sm_warps s)(w := Sk_load_tail)\<rparr>)"
proof -
  let ?o = "unat (sm_owned s w)" and ?W = "SW k"
  note W = static_warpsD [OF static_invD(3) [OF inv] w]
  have b: "0 < length ts" "?o + (length ts - 1) * ?W < Ssub s" "length lanes = length ts" using W(3) pc by (simp_all add: warp_ok_def owned_tasks_def)
  have n: "length ts * ?W = (length ts - 1) * ?W + ?W" using b(1) by (cases ts) simp_all
  have m: "(?o + length ts * ?W) mod ?W = w" using W(1) by simp
  have W32: "?W \<le> 32" using static_argsD(2) [OF static_queueD(1) [OF static_invD(1) [OF inv]]] .
  then have u: "unat (lane_task_index k (sm_owned s w) (length ts)) = ?o + length ts * ?W"
    using b(2) bound n by (intro unat_lane_task_index) linarith
  show ?thesis
  proof (rule static_inv_warp [OF inv w])
    fix i
    assume i: "i mod ?W = w"
    have "(i < ?o + length ts * ?W) = (i < ?o \<or> (\<exists>l < length ts. i = ?o + l * ?W))"
    proof (cases "i < ?o")
      case False
      then have "?W dvd i - ?o" using i W(1) mod_eq_dvd_iff_nat [of ?o i ?W] by simp
      then obtain l where "i - ?o = l * ?W" by (metis dvd_def mult.commute)
      then have l: "i = ?o + l * ?W" using False by simp
      have "0 < ?W" using w by simp
      then show ?thesis unfolding l by auto
    qed auto
    then show "sk_done ?W (unat (lane_task_index k (sm_owned s w) (length ts))) Sk_load_tail i = sk_done ?W ?o (sm_warps s w) i"
      unfolding u pc using all b(3) by (auto simp: sk_done_def list_all_length)
  next
    show "unat (lane_task_index k (sm_owned s w) (length ts)) mod ?W = w" using u m by simp
  qed (use u n b(2) in \<open>simp_all add: warp_ok_def pc_copies_def\<close>)
qed

lemma static_warp_inv:
  assumes inv: "static_inv k memory s" and step: "static_warp k w s = Some s'" and bound: "Ssub s + 64 < 18446744073709551616"
  shows "static_inv k memory s'"
proof -
  have w: "w < SW k" using step by (simp add: static_warp_def split: if_split_asm)
  note W = static_warpsD [OF static_invD(3) [OF inv] w]
  show ?thesis
  proof (cases "sm_warps s w")
    case Sk_load_tail
    then show ?thesis using step w static_read_begins [OF inv w] static_inv_pc [OF inv w, of Sk_check_stop]
      by (auto simp: static_warp_def Let_def sk_done_def warp_ok_def pc_copies_def split: if_split_asm)
  next
    case Sk_check_stop
    then show ?thesis using step w static_inv_pc [OF inv w, of Sk_recheck] static_inv_pc [OF inv w, of Sk_load_tail]
      by (auto simp: static_warp_def Let_def sk_done_def warp_ok_def pc_copies_def split: if_split_asm)
  next
    case Sk_recheck
    then show ?thesis using step w static_read_begins [OF inv w] static_inv_pc [OF inv w, of Sk_exited]
      by (auto simp: static_warp_def Let_def sk_done_def warp_ok_def pc_copies_def split: if_split_asm)
  next
    case (Sk_read ts)
    then have "owned_tasks (SW k) (sm_submitted s) (unat (sm_owned s w)) (map the ts)" if "list_all (\<lambda>task. task \<noteq> None) ts"
      using W(3) that by (fastforce simp: warp_ok_def owned_tasks_def list_all_length)
    then show ?thesis using step w Sk_read static_inv_pc [OF inv w, of "Sk_next (map the ts) 0"]
      by (auto simp: static_warp_def Let_def sk_done_def warp_ok_def pc_copies_def split: if_split_asm)
  next
    case (Sk_next ts b)
    have "sk_done (SW k) x (Sk_complete ts (replicate (length ts) Lane_store)) i = sk_done (SW k) x (sm_warps s w) i" for x i
      by (auto simp: Sk_next sk_done_def)
    then have "static_inv k memory (s\<lparr>sm_warps := (sm_warps s)(w := Sk_complete ts (replicate (length ts) Lane_store))\<rparr>)" if "\<not> b < length ts"
      using W(3,4) that by (intro static_inv_pc [OF inv w]) (simp_all add: Sk_next warp_ok_def pc_copies_def)
    then show ?thesis using step w W(3,4) Sk_next static_inv_pc [OF inv w, of "Sk_copying ts b lanes" for lanes]
        copying_begins [of k "ts ! b" _ "sm_accesses s"]
      by (auto simp: static_warp_def Let_def sk_done_def warp_ok_def pc_copies_def split: if_split_asm option.split_asm)
  next
    case (Sk_copying ts b lanes)
    then have "accesses k (ts ! l) \<subseteq> set (sm_accesses s)" if "list_all (\<lambda>as. as = []) lanes" "l < Suc b" for l
      using copying_ends [of k "sm_accesses s" "ts ! b" lanes] W(4) that by (auto simp: pc_copies_def less_Suc_eq)
    then show ?thesis using step w W(3) Sk_copying static_inv_pc [OF inv w, of "Sk_next ts (Suc b)"]
      by (auto simp: static_warp_def Let_def sk_done_def warp_ok_def pc_copies_def split: if_split_asm)
  next
    case (Sk_complete ts lanes)
    then show ?thesis using step w Sk_complete static_batch_ends [OF inv w Sk_complete _ bound]
      by (auto simp: static_warp_def Let_def split: if_split_asm)
  next
    case Sk_exited
    then show ?thesis using step w by (simp add: static_warp_def Let_def)
  qed
qed

section \<open>A lane moves on\<close>

lemma static_mapped_update_completion [simp]:
  "static_mapped (update_completion slot f s) = (static_mapped s)\<lparr>qm_completion_slots :=
     (qm_completion_slots (static_mapped s))[slot := f (qm_completion_slots (static_mapped s) ! slot)]\<rparr>"
  "sm_submitted (update_completion slot f s) = sm_submitted s" "sm_polled (update_completion slot f s) = sm_polled s"
  "sm_accesses (update_completion slot f s) = sm_accesses s" "sm_memory (update_completion slot f s) = sm_memory s"
  "sm_owned (update_completion slot f s) = sm_owned s" "sm_warps (update_completion slot f s) = sm_warps s"
  "sp_capacity (sm_queue (update_completion slot f s)) = sp_capacity (sm_queue s)"
  "static_done k (update_completion slot f s) = static_done k s"
  by (simp_all add: update_completion_def static_mapped_def static_done_def fun_eq_iff)

text \<open>
  A lane stores the completion of its index, or publishes it: \<open>x\<close> is what the slot holds afterwards. No other index of the
  window uses the slot.
\<close>

lemma static_completion_step:
  assumes inv: "static_inv k memory s" and w: "w < SW k" and pc: "sm_warps s w = Sk_complete ts lanes" and l: "l < length lanes"
    and unfinished: "lanes ! l \<noteq> Lane_done" and lane': "lane' = Lane_publish \<or> lane' = Lane_done"
  defines "i \<equiv> unat (sm_owned s w) + l * SW k"
  assumes x: "cs_completion x = completion_of (sm_submitted s ! i)"
    "cs_sequence x = (if lane' = Lane_done then of_nat (i + 1) else cs_sequence (qm_completion_slots (static_mapped s) ! (i mod Scap s)))"
    and bound: "Ssub s + 64 < 18446744073709551616"
  shows "static_inv k memory ((update_completion (i mod Scap s) (\<lambda>_. x) s)\<lparr>sm_warps := (sm_warps s)(w := Sk_complete ts (lanes[l := lane']))\<rparr>)"
    (is "static_inv k memory ?s")
proof -
  let ?slots = "qm_completion_slots (static_mapped s)" and ?c = "Scap s" and ?p = "Spol s"
  let ?slots' = "?slots[i mod ?c := x]"
  note I = static_invD [OF inv] and Q = static_queueD [OF static_invD(1) [OF inv]] and W = static_warpsD [OF static_invD(3) [OF inv]]
  have ts: "owned_tasks (SW k) (sm_submitted s) (unat (sm_owned s w)) ts" "length lanes = length ts" using W(3) [OF w] pc by (simp_all add: warp_ok_def)
  have last: "unat (sm_owned s w) + (length ts - 1) * SW k < Ssub s" using ts(1) by (simp add: owned_tasks_def)
  have lt: "l < length ts" using l ts(2) by simp
  note B = batch_index [OF inv w lt last, folded i_def]
  have nd: "\<not> static_done k s i" using B(3) pc unfinished by simp
  then have win: "?p \<le> i" "i < ?p + ?c" using B(2,4) Q(10) by simp_all
  have len: "length ?slots = ?c" using I(4) by (simp add: slots_ok_def)
  have pos: "0 < ?c" using static_argsD(4) [OF Q(1)] .
  have other: "?slots' ! (j mod ?c) = (if j = i then x else ?slots ! (j mod ?c))" if "?p \<le> j" "j < ?p + ?c" for j
    using window_slot [OF that win] len pos by (auto simp: nth_list_update)
  have pos_w: "0 < SW k" using w by simp
  have d: "static_done k ?s j \<longleftrightarrow> static_done k s j \<or> lane' = Lane_done \<and> j = i" for j
  proof (cases "j mod SW k = w")
    case True
    have "(\<exists>l' < length lanes. j = unat (sm_owned s w) + l' * SW k \<and> lanes[l := lane'] ! l' = Lane_done) \<longleftrightarrow>
        (\<exists>l' < length lanes. j = unat (sm_owned s w) + l' * SW k \<and> lanes ! l' = Lane_done) \<or> lane' = Lane_done \<and> j = i"
      using l unfinished pos_w unfolding i_def by (metis nth_list_update_eq nth_list_update_neq)
    then show ?thesis unfolding static_done_def sk_done_def True pc by (auto simp: pc)
  next
    case False
    then show ?thesis using B(1) by (auto simp: static_done_def)
  qed
  have seq: "unat (of_nat (i + 1) :: u64) = i + 1" using B(2) bound by (intro unat_of_nat_u64) simp
  have fresh: "unat (cs_sequence (?slots ! (i mod ?c))) = i + 1 - ?c" using I(4) nd win by (simp add: slots_ok_def)
  have "static_queue_ok k ?s" using I(1) unfolding static_queue_ok_def by (simp add: update_completion_def static_mapped_def)
  moreover have "static_copies k memory ?s"
  proof -
    have "accesses k (sm_submitted s ! i) \<subseteq> set (sm_accesses s)"
      using W(4) [OF w] pc ts lt by (auto simp: pc_copies_def owned_tasks_def i_def)
    then show ?thesis using I(2) d by (auto simp: static_copies_def)
  qed
  moreover have "static_warps_ok k ?s"
  proof -
    have keep: "cs_completion (?slots' ! ((unat (sm_owned s v) + m * SW k) mod ?c)) = completion_of (sm_submitted s ! (unat (sm_owned s v) + m * SW k))"
      if v: "v < SW k" and m: "sm_warps s v = Sk_complete us ms" "m < length ms" "ms ! m = Lane_publish" for v us ms m
    proof -
      let ?j = "unat (sm_owned s v) + m * SW k"
      have us: "unat (sm_owned s v) + (length us - 1) * SW k < Ssub s" "length ms = length us"
          "cs_completion (?slots ! (?j mod ?c)) = completion_of (sm_submitted s ! ?j)"
        using W(3) [OF v] m by (auto simp: warp_ok_def owned_tasks_def)
      have mu: "m < length us" using m(2) us(2) by simp
      note J = batch_index [OF inv v mu us(1)]
      have "\<not> static_done k s ?j" using J(3) m by simp
      then have "?p \<le> ?j" "?j < ?p + ?c" using J(2,4) Q(10) by simp_all
      then show ?thesis using other [of ?j] us(3) x(1) by simp
    qed
    have all: "warp_ok (SW k) ?c (sm_submitted s) ?slots' (unat (sm_owned s v)) (sm_warps s v)" if v: "v < SW k" for v
      using W(3) [OF v] keep [OF v] unfolding warp_ok_def by (cases "sm_warps s v") auto
    have "cs_completion (?slots' ! (i mod ?c)) = completion_of (sm_submitted s ! i)" using other [OF win] x(1) by simp
    then have "warp_ok (SW k) ?c (sm_submitted s) ?slots' (unat (sm_owned s w)) (Sk_complete ts (lanes[l := lane']))"
      using all [OF w] pc lane' lt by (auto simp: warp_ok_def nth_list_update i_def)
    moreover have "pc_copies k (sm_accesses s) (Sk_complete ts (lanes[l := lane']))" using W(4) [OF w] pc by (simp add: pc_copies_def)
    ultimately show ?thesis using W(1,2,4) all by (simp add: static_warps_ok_def)
  qed
  moreover have "slots_ok (Scap ?s) (Spol ?s) (static_done k ?s) (sm_submitted ?s) (qm_completion_slots (static_mapped ?s))"
    using I(4) other len x seq fresh nd d lane' by (auto simp: slots_ok_def)
  ultimately show ?thesis using I(5) d by (simp add: static_inv_def)
qed

lemma static_inv_access:
  assumes inv: "static_inv k memory s" and a: "a \<in> accesses k task" "task \<in> set (sm_submitted s)"
  shows "static_inv k memory (s\<lparr>sm_memory := copy_cg a (sm_memory s), sm_accesses := sm_accesses s @ [a]\<rparr>)" (is "static_inv k memory ?s")
proof -
  note I = static_invD [OF inv]
  have "pc_copies k (sm_accesses s @ [a]) pc" if "pc_copies k (sm_accesses s) pc" for pc
    using that copying_more by (cases pc) (auto simp: pc_copies_def)
  then have "static_warps_ok k ?s" using I(3) by (simp add: static_warps_ok_def)
  moreover have "static_queue_ok k ?s" using I(1) by (simp add: static_queue_ok_def)
  moreover have "static_copies k memory ?s" using I(2) a by (auto simp: static_copies_def)
  ultimately show ?thesis using I(4,5) by (simp add: static_inv_def)
qed

lemma static_lane_inv:
  assumes inv: "static_inv k memory s" and step: "static_lane k w l s = Some s'" and bound: "Ssub s + 64 < 18446744073709551616"
  shows "static_inv k memory s'"
proof -
  have w: "w < SW k" using step by (simp add: static_lane_def split: if_split_asm)
  let ?o = "unat (sm_owned s w)" and ?i = "unat (sm_owned s w) + l * SW k"
  note Q = static_queueD [OF static_invD(1) [OF inv]] and W = static_warpsD [OF static_invD(3) [OF inv] w]
  have index: "unat (lane_task_index k (sm_owned s w) l) = ?i" if "?i < Ssub s" using that bound by (intro unat_lane_task_index) simp
  then have slot: "direct_slot k (lane_task_index k (sm_owned s w) l) = ?i mod Scap s" if "?i < Ssub s"
    using static_argsD(5) [OF Q(1)] that by simp
  have after: "lane_task_index k (sm_owned s w) l + 1 = of_nat (?i + 1)" if "?i < Ssub s"
  proof -
    have "lane_task_index k (sm_owned s w) l + 1 = of_nat (unat (lane_task_index k (sm_owned s w) l) + 1)" by simp
    then show ?thesis unfolding index [OF that] .
  qed
  show ?thesis
  proof (cases "sm_warps s w")
    case (Sk_read ts)
    then have r: "l < length ts" "ts ! l = None" and s': "s' = s\<lparr>sm_warps := (sm_warps s)(w :=
        Sk_read (ts[l := Some (qm_task_slots (static_mapped s) ! direct_slot k (lane_task_index k (sm_owned s w) l))]))\<rparr>"
      using step w by (auto simp: static_lane_def Let_def split: if_split_asm)
    have last: "?o + (length ts - 1) * SW k < Ssub s" using W(3) Sk_read by (simp add: warp_ok_def)
    note B = batch_index [OF inv w r(1) last]
    have "Spol s \<le> ?i" using B(3,4) Sk_read by simp
    then have "qm_task_slots (static_mapped s) ! direct_slot k (lane_task_index k (sm_owned s w) l) = sm_submitted s ! ?i"
      using static_task_slot [OF static_invD(1) [OF inv] _ B(2)] slot [OF B(2)] by simp
    then show ?thesis unfolding s' using Sk_read W(3) r(1)
      by (intro static_inv_pc [OF inv w]) (auto simp: sk_done_def warp_ok_def pc_copies_def nth_list_update)
  next
    case (Sk_copying ts b lanes)
    then obtain a as where r: "l < length lanes" "lanes ! l = a # as"
      and s': "s' = s\<lparr>sm_memory := copy_cg a (sm_memory s), sm_accesses := sm_accesses s @ [a],
        sm_warps := (sm_warps s)(w := Sk_copying ts b (lanes[l := as]))\<rparr>"
      using step w by (auto simp: static_lane_def Let_def split: if_split_asm list.split_asm)
    have c: "copying_ok k (sm_accesses s) (ts ! b) lanes" "owned_tasks (SW k) (sm_submitted s) ?o ts" "b < length ts"
        "\<forall>m < b. accesses k (ts ! m) \<subseteq> set (sm_accesses s)"
      using W(3,4) Sk_copying by (simp_all add: pc_copies_def warp_ok_def)
    note C = copying_lane [OF c(1) r]
    have last: "?o + (length ts - 1) * SW k < Ssub s" "ts ! b = sm_submitted s ! (?o + b * SW k)"
      using c(2,3) by (simp_all add: owned_tasks_def)
    then have "ts ! b \<in> set (sm_submitted s)" using batch_index(2) [OF inv w c(3) last(1)] by simp
    then have "static_inv k memory (s\<lparr>sm_memory := copy_cg a (sm_memory s), sm_accesses := sm_accesses s @ [a]\<rparr>)" (is "static_inv k memory ?s1")
      using static_inv_access [OF inv C(2)] by blast
    then have "static_inv k memory (?s1\<lparr>sm_warps := (sm_warps ?s1)(w := Sk_copying ts b (lanes[l := as]))\<rparr>)"
      using C(1) c w Sk_copying by (intro static_inv_pc) (auto simp: sk_done_def warp_ok_def pc_copies_def)
    then show ?thesis unfolding s' by simp
  next
    case (Sk_complete ts lanes)
    then have c: "owned_tasks (SW k) (sm_submitted s) ?o ts" "length lanes = length ts"
        "\<And>m. m < length lanes \<Longrightarrow> lanes ! m = Lane_publish \<Longrightarrow>
          cs_completion (qm_completion_slots (static_mapped s) ! ((?o + m * SW k) mod Scap s)) = completion_of (sm_submitted s ! (?o + m * SW k))"
      using W(3) by (auto simp: warp_ok_def)
    have r: "l < length lanes" using step w Sk_complete by (simp add: static_lane_def Let_def split: if_split_asm)
    have last: "?o + (length ts - 1) * SW k < Ssub s" "ts ! l = sm_submitted s ! ?i" using c(1,2) r by (simp_all add: owned_tasks_def)
    have lt: "l < length ts" using r c(2) by simp
    note B = batch_index [OF inv w lt last(1)]
    note S = slot [OF B(2)] after [OF B(2)]
    note step' = static_completion_step [OF inv w Sk_complete r _ _ _ _ bound]
    have upd: "update_completion m f s = update_completion m (\<lambda>_. f (qm_completion_slots (static_mapped s) ! m)) s" for m f
      by (simp add: update_completion_def)
    consider (store) "lanes ! l = Lane_store" "s' = (update_completion (?i mod Scap s) (cs_completion_update (\<lambda>_. completion_of (ts ! l))) s)\<lparr>sm_warps :=
          (sm_warps s)(w := Sk_complete ts (lanes[l := Lane_publish]))\<rparr>"
      | (publish) "lanes ! l = Lane_publish" "s' = (update_completion (?i mod Scap s) (cs_sequence_update (\<lambda>_. lane_task_index k (sm_owned s w) l + 1)) s)\<lparr>sm_warps :=
          (sm_warps s)(w := Sk_complete ts (lanes[l := Lane_done]))\<rparr>"
      using step w Sk_complete r S(1) by (auto simp: static_lane_def Let_def split: if_split_asm lane_pc.split_asm)
    then show ?thesis
    proof cases
      case store
      then show ?thesis unfolding store(2) upd [of _ "cs_completion_update _"] using last(2) by (intro step') simp_all
    next
      case publish
      then show ?thesis unfolding publish(2) upd [of _ "cs_sequence_update _"] using c(3) [OF r publish(1)] S(2) by (intro step') simp_all
    qed
  qed (use step w in \<open>simp_all add: static_lane_def Let_def\<close>)
qed

section \<open>The host at the ring\<close>

lemma static_submits_inv:
  assumes inv: "static_inv k memory s" and bound: "Ssub (static_submits tasks s) + 64 < 18446744073709551616"
  shows "static_inv k memory (static_submits tasks s)"
proof -
  note I = static_invD [OF inv] and Q = static_queueD [OF static_invD(1) [OF inv]]
  let ?q = "sm_queue s" and ?pending = "drop (Spol s) (sm_submitted s)"
  consider (no) status where "static_try_submit_batch tasks ?q = (status, 0, ?q)"
    | (yes) batch where "static_try_submit_batch tasks ?q = (OK, length batch, ?q\<lparr>sp_memory := Some ((static_mapped s)\<lparr>qm_task_slots :=
          store_tasks (sp_capacity_mask ?q) (sp_submit_tail ?q) batch (qm_task_slots (static_mapped s)), qm_task_tail := sp_submit_tail ?q + of_nat (length batch)\<rparr>),
          sp_submit_tail := sp_submit_tail ?q + of_nat (length batch)\<rparr>)"
        "batch = take (Scap s - length ?pending) tasks"
  proof (cases "accepted_prefix (sp_capacity ?q) (sp_submit_tail ?q - sp_completion_head ?q) tasks")
    case (Inl status)
    then show ?thesis using no static_ring.refuse [of ?q tasks] static_ring.deny [of ?q tasks status] by blast
  next
    case (Inr batch)
    then have "batch = take (Scap s - length ?pending) tasks"
      using accepted_prefix_holds [OF Q(4), of tasks] by (simp add: Let_def split: if_split_asm)
    then show ?thesis using no yes static_ring.refuse [of ?q tasks] Inr Q(2)
      by (cases "sp_running ?q \<and> sp_accepting ?q \<and> tasks \<noteq> []") (auto simp: static_try_submit_batch_def Let_def)
  qed
  then show ?thesis
  proof cases
    case no
    then have "static_submits tasks s = s" by (simp add: static_submits_def)
    then show ?thesis using inv by simp
  next
    case yes
    have "take (length batch) tasks = batch" unfolding yes(2) by (simp add: min_def)
    then have s': "static_submits tasks s = s\<lparr>sm_queue := ?q\<lparr>sp_memory := Some ((static_mapped s)\<lparr>qm_task_slots :=
          store_tasks (sp_capacity_mask ?q) (sp_submit_tail ?q) batch (qm_task_slots (static_mapped s)), qm_task_tail := sp_submit_tail ?q + of_nat (length batch)\<rparr>),
          sp_submit_tail := sp_submit_tail ?q + of_nat (length batch)\<rparr>, sm_submitted := sm_submitted s @ batch\<rparr>" (is "_ = ?s")
      using yes(1) by (simp add: static_submits_def)
    have b: "Ssub s + length batch + 64 < 18446744073709551616" using bound unfolding s' by simp
    have u: "unat (sp_submit_tail ?q + of_nat (length batch)) = Ssub s + length batch"
      using Q(6) b by (simp add: unat_add_u64 unat_of_nat_u64)
    have "length ?pending + length batch \<le> Scap s" using Q(10) unfolding yes(2) by simp
    then have "ring_holds (sp_capacity ?q) (sp_completion_head ?q) (sp_submit_tail ?q + of_nat (length batch))
        (store_tasks (sp_capacity ?q - 1) (sp_submit_tail ?q) batch (qm_task_slots (static_mapped s))) (?pending @ batch)"
      using ring_holds_store [OF Q(4)] by simp
    moreover have "sp_capacity_mask ?q = sp_capacity ?q - 1" using Q(1,3) by (simp add: static_args_ok_def)
    moreover have mapped: "static_mapped ?s = (static_mapped s)\<lparr>qm_task_slots :=
          store_tasks (sp_capacity_mask ?q) (sp_submit_tail ?q) batch (qm_task_slots (static_mapped s)), qm_task_tail := sp_submit_tail ?q + of_nat (length batch)\<rparr>"
      by (simp add: static_mapped_def)
    ultimately have "static_queue_ok k ?s" using Q u unfolding static_queue_ok_def mapped by simp
    moreover have "static_copies k memory ?s"
      using I(2) static_done_below [OF inv] by (auto simp: static_copies_def nth_append)
    moreover have "static_warps_ok k ?s"
    proof -
      have old: "owned + m * SW k < Ssub s" if "owned + (n - 1) * SW k < Ssub s" "m < n" for owned m n
      proof -
        have "m * SW k \<le> (n - 1) * SW k" using that(2) by (intro mult_le_mono1) simp
        then show ?thesis using that(1) by linarith
      qed
      have own: "owned_tasks (SW k) (sm_submitted s @ batch) owned ts" if "owned_tasks (SW k) (sm_submitted s) owned ts" for owned ts
        using that old [of owned "length ts"] by (auto simp: owned_tasks_def nth_append)
      have "warp_ok (SW k) c (sm_submitted s @ batch) slots owned pc" if "warp_ok (SW k) c (sm_submitted s) slots owned pc" for c slots owned pc
      proof (cases pc)
        case (Sk_read ts)
        then show ?thesis using that old [of owned "length ts"] by (auto simp: warp_ok_def nth_append)
      next
        case (Sk_complete ts lanes)
        then have "owned + m * SW k < Ssub s" if "m < length ts" for m
          using \<open>warp_ok (SW k) c (sm_submitted s) slots owned pc\<close> old [OF _ that] by (simp add: warp_ok_def owned_tasks_def)
        then show ?thesis using that Sk_complete own by (auto simp: warp_ok_def nth_append)
      qed (use that own in \<open>auto simp: warp_ok_def\<close>)
      then show ?thesis using I(3) unfolding static_warps_ok_def mapped by auto
    qed
    moreover have "slots_ok (Scap s) (Spol s) (static_done k s) (sm_submitted s @ batch) (qm_completion_slots (static_mapped s))"
      using I(4) static_done_below [OF inv] by (auto simp: slots_ok_def nth_append)
    ultimately show ?thesis unfolding s' using I(5) unfolding static_inv_def mapped by simp
  qed
qed

lemma static_polls_inv:
  assumes inv: "static_inv k memory s" and bound: "Ssub s + 64 < 18446744073709551616"
  shows "static_inv k memory (static_polls s)"
proof -
  note I = static_invD [OF inv] and Q = static_queueD [OF static_invD(1) [OF inv]]
  let ?q = "sm_queue s" and ?p = "Spol s" and ?slots = "qm_completion_slots (static_mapped s)"
  have pos: "0 < Scap s" using static_argsD(4) [OF Q(1)] .
  have slot: "unat (sp_completion_head ?q AND sp_capacity_mask ?q) = ?p mod Scap s"
    using static_argsD(5) [OF Q(1), of "sp_completion_head ?q"] Q(3,5) by (simp add: direct_slot_def)
  have next_head: "unat (sp_completion_head ?q + 1) = ?p + 1" using Q(5,7) bound unat_add_u64 [of "sp_completion_head ?q" 1] by simp
  show ?thesis
  proof (cases "cs_sequence (?slots ! (?p mod Scap s)) = sp_completion_head ?q + 1")
    case False
    then have "static_try_poll ?q = (EAGAIN, zero_completion, ?q)" using Q(2) slot by (simp add: static_try_poll_def)
    then have "static_polls s = s" by (simp add: static_polls_def)
    then show ?thesis using inv by simp
  next
    case True
    then have "static_try_poll ?q = (OK, cs_completion (?slots ! (?p mod Scap s)), ?q\<lparr>sp_completion_head := sp_completion_head ?q + 1\<rparr>)"
      using Q(2) slot by (simp add: static_try_poll_def)
    then have s': "static_polls s = s\<lparr>sm_queue := ?q\<lparr>sp_completion_head := sp_completion_head ?q + 1\<rparr>,
        sm_polled := sm_polled s @ [cs_completion (?slots ! (?p mod Scap s))]\<rparr>" (is "_ = ?s") by (simp add: static_polls_def)
    have at: "if static_done k s ?p then unat (cs_sequence (?slots ! (?p mod Scap s))) = ?p + 1 \<and> cs_completion (?slots ! (?p mod Scap s)) = completion_of (sm_submitted s ! ?p)
        else unat (cs_sequence (?slots ! (?p mod Scap s))) = ?p + 1 - Scap s"
      using I(4) pos by (simp add: slots_ok_def)
    have fin: "static_done k s ?p" using at True next_head pos by (auto split: if_split_asm)
    then have lt: "?p < Ssub s" using static_done_below [OF inv] by blast
    have c: "cs_completion (?slots ! (?p mod Scap s)) = completion_of (sm_submitted s ! ?p)" using at fin by simp
    have "drop ?p (sm_submitted s) = sm_submitted s ! ?p # drop (Suc ?p) (sm_submitted s)" using lt by (simp add: Cons_nth_drop_Suc)
    then have "ring_holds (sp_capacity ?q) (sp_completion_head ?q + 1) (sp_submit_tail ?q) (qm_task_slots (static_mapped s)) (drop (Suc ?p) (sm_submitted s))"
      using ring_holds_poll [of "sp_capacity ?q" "sp_completion_head ?q"] Q(4) by simp
    moreover have "sm_polled s @ [completion_of (sm_submitted s ! ?p)] = map completion_of (take (Suc ?p) (sm_submitted s))"
      using Q(9) lt by (simp add: take_Suc_conv_app_nth)
    ultimately have "static_queue_ok k ?s" using I(1) lt next_head c unfolding static_queue_ok_def by (simp add: static_mapped_def)
    moreover have "slots_ok (Scap s) (Suc ?p) (static_done k s) (sm_submitted s) ?slots" unfolding slots_ok_def
    proof (intro conjI allI impI)
      fix j
      assume j: "Suc ?p \<le> j \<and> j < Suc ?p + Scap s"
      show "if static_done k s j then unat (cs_sequence (?slots ! (j mod Scap s))) = j + 1 \<and> cs_completion (?slots ! (j mod Scap s)) = completion_of (sm_submitted s ! j)
        else unat (cs_sequence (?slots ! (j mod Scap s))) = j + 1 - Scap s"
      proof (cases "j = ?p + Scap s")
        case True
        then have "\<not> static_done k s j" using static_done_below [OF inv, of j] Q(10) by auto
        then show ?thesis using at fin True by simp
      next
        case False
        then show ?thesis using I(4) j unfolding slots_ok_def by simp
      qed
    qed (use I(4) in \<open>simp add: slots_ok_def\<close>)
    moreover have "static_copies k memory ?s" using I(2) by (simp add: static_copies_def)
    moreover have "static_warps_ok k ?s" using I(3) by (simp add: static_warps_ok_def static_mapped_def)
    ultimately show ?thesis unfolding s' using I(5) fin by (simp add: static_inv_def static_mapped_def less_Suc_eq)
  qed
qed

lemma static_stops_inv:
  assumes inv: "static_inv k memory s"
  shows "static_inv k memory (static_stops s)"
proof -
  have m: "sp_memory (sm_queue s) = Some (static_mapped s)" using static_queueD(2) [OF static_invD(1) [OF inv]] .
  show ?thesis
  proof (cases "sp_running (sm_queue s) \<and> sp_accepting (sm_queue s)")
    case True
    then have s': "static_stops s = s\<lparr>sm_queue := (sm_queue s)\<lparr>sp_accepting := False,
        sp_memory := Some ((static_mapped s)\<lparr>qm_stop_requested := 1\<rparr>)\<rparr>\<rparr>" (is "_ = ?s")
      using m by (simp add: static_stops_def static_request_stop_def)
    have mapped: "static_mapped ?s = (static_mapped s)\<lparr>qm_stop_requested := 1\<rparr>" by (simp add: static_mapped_def)
    show ?thesis using inv unfolding s' static_inv_def static_queue_ok_def static_copies_def static_warps_ok_def mapped by simp
  next
    case False
    then have "static_stops s = s" by (auto simp: static_stops_def static_request_stop_def)
    then show ?thesis using inv by simp
  qed
qed

section \<open>Runs\<close>

lemma static_launch_inv:
  assumes "static_allocate capacity copy_warps device_batch base allocation_status mapping_status fresh new_static_queue = (OK, q0)"
    and "static_start resources last_error q0 = (OK, q)"
  shows "static_inv (static_args q) memory (launch_static q memory)"
proof -
  have a: "is_supported_copy_warps copy_warps" "is_supported_device_batch device_batch" "is_power_of_two capacity"
      and q0: "q0 = new_static_queue\<lparr>sp_memory := Some fresh, sp_capacity := capacity, sp_capacity_mask := capacity - 1,
        sp_partition_capacity := capacity div ucast copy_warps, sp_copy_warps := copy_warps, sp_device_batch := device_batch, sp_stage_buffer_base := base\<rparr>"
    using assms(1) by (auto simp: static_allocate_def static_partition_spsc_allocation_size_def new_static_queue_def Let_def split: if_split_asm option.split_asm)
  have q: "q = q0\<lparr>sp_memory := Some (zero_memory capacity), sp_submit_tail := 0, sp_completion_head := 0, sp_accepting := True, sp_running := True\<rparr>"
    using assms(2) unfolding q0 by (auto simp: static_start_def new_static_queue_def Let_def split: if_split_asm)
  let ?k = "static_args q" and ?s = "launch_static q memory"
  have k: "static_args_ok ?k capacity" using a by (simp add: static_args_ok_def static_args_def q q0)
  have cap: "sp_capacity q = capacity" "sp_capacity_mask q = capacity - 1" "sp_submit_tail q = 0" "sp_completion_head q = 0"
    by (simp_all add: q q0)
  have m: "static_mapped ?s = zero_memory capacity" "sp_memory q = Some (zero_memory capacity)" by (simp_all add: static_mapped_def launch_static_def q)
  note K = static_argsD [OF k]
  have "unat (of_nat w :: u64) = w" if "w < SW ?k" for w using that K(2) by (intro unat_of_nat_u64) simp
  then have own: "unat (sm_owned ?s w) = w" if "w < SW ?k" for w using that by (simp add: launch_static_def)
  have nd: "\<not> static_done ?k ?s i" for i
    using own [of "i mod SW ?k"] K(1) by (simp add: static_done_def sk_done_def launch_static_def not_less)
  have "static_queue_ok ?k ?s"
    using k K(3) unfolding static_queue_ok_def m(1) by (simp add: launch_static_def cap m(2) ring_holds_def zero_memory_def static_args_def)
  moreover have "static_warps_ok ?k ?s"
    using own K(1) by (simp add: static_warps_ok_def) (simp add: launch_static_def warp_ok_def pc_copies_def)
  moreover have "static_copies ?k memory ?s" by (simp add: static_copies_def launch_static_def)
  moreover have "slots_ok (Scap ?s) (Spol ?s) (static_done ?k ?s) (sm_submitted ?s) (qm_completion_slots (static_mapped ?s))"
    using nd unfolding m(1) by (simp add: slots_ok_def zero_memory_def launch_static_def cap)
  ultimately show ?thesis by (simp add: static_inv_def launch_static_def)
qed

lemma static_step_submitted:
  assumes "static_step k actor s = Some s'"
  shows "\<exists>xs. sm_submitted s' = sm_submitted s @ xs"
proof -
  have "sm_submitted s' = sm_submitted s" if "static_warp k w s = Some s'" for w
    using that by (auto simp: static_warp_def Let_def split: if_split_asm static_pc.split_asm option.split_asm)
  moreover have "sm_submitted s' = sm_submitted s" if "static_lane k w l s = Some s'" for w l
    using that by (auto simp: static_lane_def Let_def split: if_split_asm static_pc.split_asm list.split_asm lane_pc.split_asm)
  moreover have "sm_submitted (static_polls s) = sm_submitted s" "sm_submitted (static_stops s) = sm_submitted s"
    by (simp_all add: static_polls_def static_stops_def split: prod.split)
  moreover have "\<exists>xs. sm_submitted (static_submits tasks s) = sm_submitted s @ xs" for tasks
    by (simp add: static_submits_def split: prod.split)
  ultimately show ?thesis using assms by (cases actor) (auto simp: static_step_def)
qed

lemma static_run_submitted: "run_static k actors s = Some s' \<Longrightarrow> \<exists>xs. sm_submitted s' = sm_submitted s @ xs"
proof (induction actors arbitrary: s)
  case (Cons actor actors)
  then obtain s1 where "static_step k actor s = Some s1" "run_static k actors s1 = Some s'" by (auto split: option.split_asm)
  then show ?case using Cons.IH [of s1] static_step_submitted [of k actor s s1] by (metis append_assoc)
qed simp

lemma static_step_inv:
  assumes inv: "static_inv k memory s" and step: "static_step k actor s = Some s'" and bound: "Ssub s' + 64 < 18446744073709551616"
  shows "static_inv k memory s'"
proof -
  obtain xs where "sm_submitted s' = sm_submitted s @ xs" using static_step_submitted [OF step] by blast
  then have b: "Ssub s + 64 < 18446744073709551616" using bound by simp
  show ?thesis
  proof (cases actor)
    case (Host_submit tasks)
    then have "s' = static_submits tasks s" using step by (simp add: static_step_def)
    then show ?thesis using bound static_submits_inv [OF inv] by metis
  qed (use step static_warp_inv [OF inv _ b] static_lane_inv [OF inv _ b] static_polls_inv [OF inv b] static_stops_inv [OF inv]
      in \<open>auto simp: static_step_def\<close>)
qed

lemma static_run_inv:
  assumes "static_inv k memory s" "run_static k actors s = Some s'" "Ssub s' + 64 < 18446744073709551616"
  shows "static_inv k memory s'"
  using assms
proof (induction actors arbitrary: s)
  case (Cons actor actors)
  then obtain s1 where s1: "static_step k actor s = Some s1" "run_static k actors s1 = Some s'" by (auto split: option.split_asm)
  obtain xs where "sm_submitted s' = sm_submitted s1 @ xs" using static_run_submitted [OF s1(2)] by blast
  then have "static_inv k memory s1" using static_step_inv [OF Cons.prems(1) s1(1)] Cons.prems(3) by simp
  then show ?case using Cons.IH [OF _ s1(2) Cons.prems(3)] by blast
qed simp

text \<open>
  C12. In every run of the static partition kernel and the host at its ring, under any interleaving of its warps and lanes, the completions
  the host polls are those of the first tasks it submitted, in that order and all successful; by then every access of those tasks has
  been performed, and no access is performed that does not belong to a submitted task. The bound keeps the counters from wrapping.
\<close>

theorem static_completes_in_order:
  assumes "static_allocate capacity copy_warps device_batch base allocation_status mapping_status fresh new_static_queue = (OK, q0)"
    and "static_start resources last_error q0 = (OK, q)"
    and "run_static (static_args q) actors (launch_static q memory) = Some s" and "length (sm_submitted s) < 2 ^ 64 - 64"
  shows "sm_polled s = map completion_of (take (length (sm_polled s)) (sm_submitted s)) \<and> length (sm_polled s) \<le> length (sm_submitted s) \<and>
    sm_memory s = fold copy_cg (sm_accesses s) memory \<and>
    (\<forall>i < length (sm_polled s). accesses (static_args q) (sm_submitted s ! i) \<subseteq> set (sm_accesses s)) \<and>
    set (sm_accesses s) \<subseteq> (\<Union>task \<in> set (sm_submitted s). accesses (static_args q) task)"
proof -
  have inv: "static_inv (static_args q) memory s"
    using static_run_inv [OF static_launch_inv [OF assms(1,2)] assms(3)] assms(4) by simp
  note I = static_invD [OF inv] and Q = static_queueD [OF static_invD(1) [OF inv]]
  show ?thesis using I(2,5) Q(7,9) unfolding static_copies_def by (metis order_less_le_trans)
qed

text \<open>With tasks that do not get in each other's way, the bytes of every polled task stand at its target.\<close>

lemma static_moves_data:
  assumes "static_inv k memory s" "\<forall>task \<in> set (sm_submitted s). task_fits k task" "tasks_apart k (sm_submitted s)"
    and "i < Spol s" "range_covers (task_range k (sm_submitted s ! i)) a"
  shows "sm_memory s a = memory (range_source (task_range k (sm_submitted s ! i)) a)"
proof -
  note I = static_invD [OF assms(1)] and Q = static_queueD [OF static_invD(1) [OF assms(1)]]
  have m: "sm_memory s = fold copy_cg (sm_accesses s) memory" "set (sm_accesses s) \<subseteq> (\<Union>task \<in> set (sm_submitted s). accesses k task)"
    using I(2) unfolding static_copies_def by blast+
  have lt: "i < Ssub s" using assms(4) Q(7) by linarith
  then have "accesses k (sm_submitted s ! i) \<subseteq> set (sm_accesses s)" using I(2,5) assms(4) unfolding static_copies_def by blast
  then show ?thesis using tasks_moved(1) [OF m assms(2,3)] lt assms(5) by simp
qed

section \<open>A run\<close>

text \<open>Four warps, a ring of four: two tasks, of which warp 1 completes its own first.\<close>

definition static_demo_allocated :: static_queue where
  "static_demo_allocated = snd (static_allocate 4 4 1 4096 CudaSuccess CudaSuccess (zero_memory 4) new_static_queue)"

definition static_demo :: static_queue where
  "static_demo = snd (static_start True CudaSuccess static_demo_allocated)"

abbreviation (input) own_task :: "nat \<Rightarrow> kernel_actor list" where
  "own_task w \<equiv> [Warp w, Lane w 0, Warp w, Warp w, Lane w 0, Warp w, Warp w, Lane w 0, Lane w 0, Warp w]"

definition static_demo_actors :: "kernel_actor list" where
  "static_demo_actors = [Host_submit [direct_demo_task 1, direct_demo_task 2]] @ own_task 1 @ [Host_poll] @ own_task 0 @ [Host_poll, Host_poll]"

definition static_demo_final :: static_machine where
  "static_demo_final = the (run_static (static_args static_demo) static_demo_actors (launch_static static_demo (\<lambda>a. of_nat a)))"

lemma static_demo_allocate:
  "static_allocate 4 4 1 4096 CudaSuccess CudaSuccess (zero_memory 4) new_static_queue = (OK, static_demo_allocated)"
proof -
  have "fst (static_allocate 4 4 1 4096 CudaSuccess CudaSuccess (zero_memory 4) new_static_queue) = 0" by code_simp
  then show ?thesis unfolding static_demo_allocated_def by (metis prod.collapse)
qed

lemma static_demo_start: "static_start True CudaSuccess static_demo_allocated = (OK, static_demo)"
proof -
  have "fst (static_start True CudaSuccess static_demo_allocated) = 0" by code_simp
  then show ?thesis unfolding static_demo_def by (metis prod.collapse)
qed

lemma static_demo_runs:
  "run_static (static_args static_demo) static_demo_actors (launch_static static_demo (\<lambda>a. of_nat a)) = Some static_demo_final"
  "sm_submitted static_demo_final = [direct_demo_task 1, direct_demo_task 2]" "length (sm_polled static_demo_final) = 2"
  "map ac_target (sm_accesses static_demo_final) = [65568, 65552]"
proof -
  have "map_option (\<lambda>s. (sm_submitted s, length (sm_polled s), map ac_target (sm_accesses s)))
      (run_static (static_args static_demo) static_demo_actors (launch_static static_demo (\<lambda>a. of_nat a))) =
    Some ([direct_demo_task 1, direct_demo_task 2], 2, [65568, 65552])" by code_simp
  then show "run_static (static_args static_demo) static_demo_actors (launch_static static_demo (\<lambda>a. of_nat a)) = Some static_demo_final"
      "sm_submitted static_demo_final = [direct_demo_task 1, direct_demo_task 2]" "length (sm_polled static_demo_final) = 2"
      "map ac_target (sm_accesses static_demo_final) = [65568, 65552]"
    unfolding static_demo_final_def by auto
qed

theorem static_completes_in_order_witness:
  "map cp_task_id (sm_polled static_demo_final) = [1, 2] \<and> map ac_target (sm_accesses static_demo_final) = [65568, 65552]"
proof -
  note h = static_demo_runs(2-)
  have "length (sm_submitted static_demo_final) < 2 ^ 64 - 64" unfolding h by simp
  note R = static_completes_in_order [OF static_demo_allocate static_demo_start static_demo_runs(1) this, unfolded h(1,2)]
  have "map cp_task_id (map completion_of (take 2 [direct_demo_task 1, direct_demo_task 2])) = [1, 2]"
    by (simp add: completion_of_def direct_demo_task_def)
  then show ?thesis using R h(3) by simp
qed

end
