(* ===== verification/Copy_Lanes.thy ===== *)
theory Copy_Lanes
  imports Copy_Rings "HOL-Library.Multiset" "HOL-Library.Sublist"
begin

unbundle bit_operations_syntax

text \<open>
  The sharded queue of \<^verbatim>\<open>gpu/persistent_copy.cu\<close>: every lane is a ring of its own, a submission puts each task at the end of some
  lane, and as long as fewer tasks are outstanding than the queue has slots a lane with room is found.
\<close>

section \<open>Lanes as queues\<close>

text \<open>The part of the slot array that belongs to a lane.\<close>

definition lane_slots :: "nat \<Rightarrow> 'a list \<Rightarrow> nat \<Rightarrow> 'a list" where
  "lane_slots lane_capacity slots lane = map (\<lambda>i. slots ! (lane * lane_capacity + i)) [0..<lane_capacity]"

definition lanes_hold :: "dynamic_queue \<Rightarrow> copy_task list \<Rightarrow> (nat \<Rightarrow> copy_task list) \<Rightarrow> bool" where
  "lanes_hold q slots pending \<longleftrightarrow>
     is_supported_copy_warps (dq_lane_count q) \<and>
     unat (dq_capacity q) = unat (dq_lane_count q) * unat (dq_lane_capacity q) \<and>
     length slots = unat (dq_capacity q) \<and>
     dq_lane_capacity_mask q = dq_lane_capacity q - 1 \<and>
     length (dq_submit_tails q) = 32 \<and> length (dq_completion_heads q) = 32 \<and>
     dq_submit_cursor q < dq_lane_count q \<and> dq_completion_cursor q < dq_lane_count q \<and>
     (\<forall>lane < unat (dq_lane_count q).
        ring_holds (dq_lane_capacity q) (dq_completion_heads q ! lane) (dq_submit_tails q ! lane)
          (lane_slots (unat (dq_lane_capacity q)) slots lane) (pending lane))"

definition lanes_total :: "dynamic_queue \<Rightarrow> (nat \<Rightarrow> copy_task list) \<Rightarrow> nat" where
  "lanes_total q pending = (\<Sum>lane < unat (dq_lane_count q). length (pending lane))"

definition dynamic_holds :: "dynamic_queue \<Rightarrow> (nat \<Rightarrow> copy_task list) \<Rightarrow> bool" where
  "dynamic_holds q pending \<longleftrightarrow>
     (case dq_memory q of None \<Rightarrow> False | Some memory \<Rightarrow> lanes_hold q (lm_task_slots memory) pending) \<and>
     unat (dq_accepted_tasks q - dq_completed_tasks q) = lanes_total q pending"

lemma lanes_holdD:
  assumes "lanes_hold q slots pending"
  shows "unat (dq_lane_count q) \<le> 32" "0 < unat (dq_lane_count q)"
    "unat (dq_capacity q) = unat (dq_lane_count q) * unat (dq_lane_capacity q)"
    "length slots = unat (dq_capacity q)" "dq_lane_capacity_mask q = dq_lane_capacity q - 1"
    "length (dq_submit_tails q) = 32" "length (dq_completion_heads q) = 32"
    "dq_submit_cursor q < dq_lane_count q" "dq_completion_cursor q < dq_lane_count q"
    "lane < unat (dq_lane_count q) \<Longrightarrow>
        ring_holds (dq_lane_capacity q) (dq_completion_heads q ! lane) (dq_submit_tails q ! lane)
          (lane_slots (unat (dq_lane_capacity q)) slots lane) (pending lane)"
  using assms unfolding lanes_hold_def is_supported_copy_warps_def by auto

lemma lane_power:
  assumes "lanes_hold q slots pending"
  shows "is_power_of_two (dq_lane_capacity q)"
  using lanes_holdD(2,10) [OF assms] ring_holdsD(1) by blast

lemma lanes_total_le:
  assumes "lanes_hold q slots pending"
  shows "lanes_total q pending \<le> unat (dq_capacity q)"
proof -
  have "lanes_total q pending \<le> (\<Sum>lane < unat (dq_lane_count q). unat (dq_lane_capacity q))"
    unfolding lanes_total_def using ring_holdsD(3) [OF lanes_holdD(10) [OF assms]] by (intro sum_mono) simp
  then show ?thesis using lanes_holdD(3) [OF assms] by simp
qed

section \<open>Choosing a lane\<close>

lemma unat_next_lane:
  assumes "lane < lanes"
  shows "unat (next_lane lanes lane) = (if unat lane + 1 = unat lanes then 0 else unat lane + 1)" "next_lane lanes lane < lanes"
proof -
  have lt: "unat lane < unat lanes" using assms by (simp add: word_less_nat_alt)
  then have "unat lane + 1 < 4294967296" using unat_u32_bound [of lanes] by linarith
  then have u: "unat (lane + 1) = unat lane + 1" by (simp add: unat_word_ariths)
  then have "lane + 1 = lanes \<longleftrightarrow> unat lane + 1 = unat lanes" by (simp add: word_unat_eq_iff)
  then show "unat (next_lane lanes lane) = (if unat lane + 1 = unat lanes then 0 else unat lane + 1)"
    using u by (simp add: next_lane_def)
  then show "next_lane lanes lane < lanes" using lt by (simp add: word_less_nat_alt split: if_split_asm)
qed

lemma next_lane_mod: "lane < lanes \<Longrightarrow> unat (next_lane lanes lane) = (unat lane + 1) mod unat lanes"
  using unat_next_lane [of lane lanes] by (auto simp: word_less_nat_alt)

lemma find_lane_some:
  assumes "find_lane n q lane = Some l" "lane < dq_lane_count q"
  shows "l < dq_lane_count q \<and> dq_submit_tails q ! unat l - dq_completion_heads q ! unat l < dq_lane_capacity q"
  using assms by (induction n arbitrary: lane) (auto simp: unat_next_lane split: if_split_asm)

lemma find_lane_none:
  assumes "find_lane n q lane = None" "lane < dq_lane_count q" "j < n"
  shows "let k = (unat lane + j) mod unat (dq_lane_count q)
    in \<not> dq_submit_tails q ! k - dq_completion_heads q ! k < dq_lane_capacity q"
  using assms
proof (induction n arbitrary: lane j)
  case (Suc n)
  have rest: "\<not> dq_submit_tails q ! unat lane - dq_completion_heads q ! unat lane < dq_lane_capacity q"
      "find_lane n q (next_lane (dq_lane_count q) lane) = None"
    using Suc.prems(1) by (auto split: if_split_asm)
  show ?case
  proof (cases j)
    case 0
    then show ?thesis using rest(1) Suc.prems(2) by (simp add: word_less_nat_alt)
  next
    case (Suc i)
    have "(unat (next_lane (dq_lane_count q) lane) + i) mod unat (dq_lane_count q) = (unat lane + j) mod unat (dq_lane_count q)"
      using next_lane_mod [OF Suc.prems(2)] Suc by (simp add: mod_simps)
    then show ?thesis using Suc.IH [OF rest(2) unat_next_lane(2) [OF Suc.prems(2)], of i] Suc.prems(3) Suc by simp
  qed
qed simp

lemma find_lane_complete:
  assumes "lane < dq_lane_count q" "k < unat (dq_lane_count q)"
    and room: "dq_submit_tails q ! k - dq_completion_heads q ! k < dq_lane_capacity q"
  shows "find_lane (unat (dq_lane_count q)) q lane \<noteq> None"
proof
  assume none: "find_lane (unat (dq_lane_count q)) q lane = None"
  let ?n = "unat (dq_lane_count q)" and ?j = "(k + (unat (dq_lane_count q) - unat lane)) mod unat (dq_lane_count q)"
  have lt: "unat lane < ?n" using assms(1) by (simp add: word_less_nat_alt)
  have "(unat lane + ?j) mod ?n = (unat lane + (k + (?n - unat lane))) mod ?n" by (simp add: mod_simps)
  also have "unat lane + (k + (?n - unat lane)) = k + ?n" using lt by simp
  finally have "(unat lane + ?j) mod ?n = k" using assms(2) by simp
  then show False using find_lane_none [OF none assms(1), of ?j] room lt by (simp add: Let_def)
qed

lemma room_exists:
  assumes "lanes_hold q slots pending" "lanes_total q pending < unat (dq_capacity q)"
  shows "\<exists>k < unat (dq_lane_count q). dq_submit_tails q ! k - dq_completion_heads q ! k < dq_lane_capacity q"
proof (rule ccontr)
  assume full: "\<not> ?thesis"
  have "unat (dq_lane_capacity q) \<le> length (pending k)" if "k < unat (dq_lane_count q)" for k
  proof -
    have "\<not> dq_submit_tails q ! k - dq_completion_heads q ! k < dq_lane_capacity q" using full that by blast
    then show ?thesis using ring_holdsD(6) [OF lanes_holdD(10) [OF assms(1) that]] by (simp add: word_less_nat_alt)
  qed
  then have "(\<Sum>lane < unat (dq_lane_count q). unat (dq_lane_capacity q)) \<le> lanes_total q pending"
    unfolding lanes_total_def by (intro sum_mono) simp
  then show False using assms(2) lanes_holdD(3) [OF assms(1)] by simp
qed

section \<open>Placing a task\<close>

lemma dynamic_slot_value:
  assumes "lanes_hold q slots pending" "lane < dq_lane_count q"
  shows "dynamic_slot q lane x = unat lane * unat (dq_lane_capacity q) + unat x mod unat (dq_lane_capacity q)"
    "dynamic_slot q lane x < length slots"
proof -
  let ?c = "unat (dq_lane_capacity q)"
  note L = lanes_holdD [OF assms(1)]
  have m: "unat (x AND dq_lane_capacity_mask q) = unat x mod ?c" using unat_and_pred [OF lane_power [OF assms(1)]] L(5) by simp
  have pos: "0 < ?c" using power_of_two_dvd(2) [OF lane_power [OF assms(1)]] .
  have "Suc (unat lane) \<le> unat (dq_lane_count q)" using assms(2) by (simp add: word_less_nat_alt)
  then have "Suc (unat lane) * ?c \<le> unat (dq_capacity q)" unfolding L(3) by (rule mult_le_mono1)
  then have lt: "unat lane * ?c + unat x mod ?c < unat (dq_capacity q)" using mod_less_divisor [OF pos, of "unat x"] by simp
  then have "unat (ucast lane * dq_lane_capacity q :: u64) = unat lane * ?c"
    using unat_u64_bound [of "dq_capacity q"] by (simp add: unat_word_ariths)
  then show "dynamic_slot q lane x = unat lane * ?c + unat x mod ?c"
    unfolding dynamic_slot_def using m lt unat_u64_bound [of "dq_capacity q"] unat_add_u64 [of "ucast lane * dq_lane_capacity q"] by simp
  then show "dynamic_slot q lane x < length slots" using lt L(4) by simp
qed

lemma lane_slots_update:
  assumes "i < c" "(l :: nat) * c + i < length slots"
  shows "lane_slots c (slots[l * c + i := x]) l = (lane_slots c slots l)[i := x]"
    "k \<noteq> l \<Longrightarrow> lane_slots c (slots[l * c + i := x]) k = lane_slots c slots k"
proof -
  show "lane_slots c (slots[l * c + i := x]) l = (lane_slots c slots l)[i := x]"
    using assms by (intro nth_equalityI) (auto simp: lane_slots_def nth_list_update)
  assume k: "k \<noteq> l"
  have "l * c + i \<noteq> k * c + j" if "j < c" for j
  proof
    assume e: "l * c + i = k * c + j"
    have "l = (l * c + i) div c" "k = (k * c + j) div c" using assms(1) that by simp_all
    then show False using e k by simp
  qed
  then show "lane_slots c (slots[l * c + i := x]) k = lane_slots c slots k" by (auto simp: lane_slots_def)
qed

lemma place_one:
  assumes H: "lanes_hold q slots pending" and l: "lane < dq_lane_count q"
    and room: "dq_submit_tails q ! unat lane - dq_completion_heads q ! unat lane < dq_lane_capacity q"
  defines "q' \<equiv> q\<lparr>dq_submit_tails := (dq_submit_tails q)[unat lane := dq_submit_tails q ! unat lane + 1],
      dq_submit_cursor := next_lane (dq_lane_count q) lane\<rparr>"
  shows "lanes_hold q' (slots[dynamic_slot q lane (dq_submit_tails q ! unat lane) := task])
    (pending(unat lane := pending (unat lane) @ [task]))"
proof -
  let ?l = "unat lane" and ?c = "unat (dq_lane_capacity q)" and ?t = "dq_submit_tails q ! unat lane"
  let ?slots = "slots[dynamic_slot q lane ?t := task]"
  note L = lanes_holdD [OF H]
  have ll: "?l < unat (dq_lane_count q)" using l by (simp add: word_less_nat_alt)
  note R = L(10) [OF ll]
  have pos: "unat ?t mod ?c < ?c" using power_of_two_dvd(2) [OF lane_power [OF H]] by simp
  note U = lane_slots_update [OF pos dynamic_slot_value(2) [OF H l, of ?t, unfolded dynamic_slot_value(1) [OF H l]], where x = task]
  have "length (pending ?l) < ?c" using room ring_holdsD(6) [OF R] by (simp add: word_less_nat_alt)
  then have "ring_holds (dq_lane_capacity q) (dq_completion_heads q ! ?l) (?t + 1) ((lane_slots ?c slots ?l)[unat ?t mod ?c := task]) (pending ?l @ [task])"
    using ring_holds_store [OF R, of "[task]"] unat_and_pred [OF lane_power [OF H], of ?t] by simp
  then have "ring_holds (dq_lane_capacity q) (dq_completion_heads q ! k) (dq_submit_tails q' ! k) (lane_slots ?c ?slots k)
      ((pending(?l := pending ?l @ [task])) k)" if "k < unat (dq_lane_count q)" for k
    using U(1) U(2) [of k] L(10) [OF that] dynamic_slot_value(1) [OF H l, of ?t] L(1,6) ll
    by (cases "k = ?l") (simp_all add: q'_def)
  then show ?thesis using H unat_next_lane(2) [OF l] unfolding lanes_hold_def by (simp add: q'_def)
qed

lemma mset_lanes_update:
  assumes "lane < (n :: nat)"
  shows "(\<Sum>k < n. mset ((pending(lane := pending lane @ xs)) k)) = (\<Sum>k < n. mset (pending k)) + mset xs"
proof -
  have r: "{..<n} = insert lane ({..<n} - {lane})" using assms by auto
  have "(\<Sum>k \<in> {..<n} - {lane}. mset ((pending(lane := pending lane @ xs)) k)) = (\<Sum>k \<in> {..<n} - {lane}. mset (pending k))"
    by (intro sum.cong) auto
  then show ?thesis
    by (subst (1 2) r) (simp add: sum.insert_remove ac_simps)
qed

lemma size_lanes: "size (\<Sum>k < (n :: nat). mset (f k)) = (\<Sum>k < n. length (f k))"
  by (induction n) simp_all

lemma place_tasks_places:
  assumes "lanes_hold q slots pending" "lanes_total q pending + length tasks \<le> unat (dq_capacity q)"
  shows "\<exists>dirty' slots' tails cursor pending'.
    place_tasks tasks dirty slots q = (OK, dirty', slots', q\<lparr>dq_submit_tails := tails, dq_submit_cursor := cursor\<rparr>) \<and>
    lanes_hold (q\<lparr>dq_submit_tails := tails, dq_submit_cursor := cursor\<rparr>) slots' pending' \<and>
    (\<forall>lane. prefix (pending lane) (pending' lane)) \<and>
    (\<Sum>k < unat (dq_lane_count q). mset (pending' k)) = (\<Sum>k < unat (dq_lane_count q). mset (pending k)) + mset tasks"
  using assms
proof (induction tasks arbitrary: dirty slots q pending)
  case Nil
  then show ?case by (intro exI [of _ dirty] exI [of _ slots] exI [of _ "dq_submit_tails q"] exI [of _ "dq_submit_cursor q"] exI [of _ pending]) simp
next
  case (Cons task tasks)
  let ?n = "unat (dq_lane_count q)"
  obtain k where "k < ?n" "dq_submit_tails q ! k - dq_completion_heads q ! k < dq_lane_capacity q"
    using room_exists [OF Cons.prems(1)] Cons.prems(2) by auto
  then obtain lane where f: "find_lane ?n q (dq_submit_cursor q) = Some lane"
    using find_lane_complete [OF lanes_holdD(8) [OF Cons.prems(1)]] by blast
  note lane = find_lane_some [OF f lanes_holdD(8) [OF Cons.prems(1)]]
  have ll: "unat lane < ?n" using lane by (simp add: word_less_nat_alt)
  let ?q = "q\<lparr>dq_submit_tails := (dq_submit_tails q)[unat lane := dq_submit_tails q ! unat lane + 1],
      dq_submit_cursor := next_lane (dq_lane_count q) lane\<rparr>"
  let ?slots = "slots[dynamic_slot q lane (dq_submit_tails q ! unat lane) := task]"
  let ?p = "pending(unat lane := pending (unat lane) @ [task])"
  have h: "lanes_hold ?q ?slots ?p" using place_one [OF Cons.prems(1)] lane by blast
  have sum: "(\<Sum>k < ?n. mset (?p k)) = (\<Sum>k < ?n. mset (pending k)) + {#task#}" using mset_lanes_update [OF ll, of pending "[task]"] by simp
  have "lanes_total ?q ?p = lanes_total q pending + 1"
    using size_lanes [of ?p ?n] size_lanes [of pending ?n] unfolding sum lanes_total_def by simp
  then have le: "lanes_total ?q ?p + length tasks \<le> unat (dq_capacity ?q)" using Cons.prems(2) by simp
  have n: "unat (dq_lane_count ?q) = ?n" by simp
  obtain dirty' slots' tails cursor pending' where
    r: "place_tasks tasks (dirty OR push_bit (unat lane) 1) ?slots ?q = (OK, dirty', slots', ?q\<lparr>dq_submit_tails := tails, dq_submit_cursor := cursor\<rparr>)"
      "lanes_hold (?q\<lparr>dq_submit_tails := tails, dq_submit_cursor := cursor\<rparr>) slots' pending'"
      "\<forall>lane. prefix (?p lane) (pending' lane)"
      "(\<Sum>k < ?n. mset (pending' k)) = (\<Sum>k < ?n. mset (?p k)) + mset tasks"
    using Cons.IH [OF h le, of "dirty OR push_bit (unat lane) 1"] unfolding n by blast
  have "prefix (pending k) (pending' k)" for k
    using r(3) prefix_order.trans [of "pending k" "?p k" "pending' k"] by (auto simp: fun_upd_apply split: if_split_asm)
  then show ?case using r f sum
    by (intro exI [of _ dirty'] exI [of _ slots'] exI [of _ tails] exI [of _ cursor] exI [of _ pending']) simp
qed


text \<open>The lanes a submission changed are marked, so that publishing makes every tail visible.\<close>

lemma place_tasks_dirty:
  assumes "place_tasks tasks dirty slots q = (OK, dirty', slots', q')" "dq_submit_cursor q < dq_lane_count q" "unat (dq_lane_count q) \<le> 32" "lane < 32"
    and "bit dirty lane \<or> dq_submit_tails q ! lane = t"
  shows "bit dirty' lane \<or> dq_submit_tails q' ! lane = t"
  using assms
proof (induction tasks arbitrary: dirty slots q)
  case (Cons task tasks)
  obtain l where l: "find_lane (unat (dq_lane_count q)) q (dq_submit_cursor q) = Some l"
      "place_tasks tasks (dirty OR push_bit (unat l) 1) (slots[dynamic_slot q l (dq_submit_tails q ! unat l) := task])
        (q\<lparr>dq_submit_tails := (dq_submit_tails q)[unat l := dq_submit_tails q ! unat l + 1], dq_submit_cursor := next_lane (dq_lane_count q) l\<rparr>) =
        (OK, dirty', slots', q')"
    using Cons.prems(1) by (auto split: option.split_asm)
  have lt: "l < dq_lane_count q" using find_lane_some [OF l(1) Cons.prems(2)] by blast
  have "bit (push_bit (unat l) 1 :: u32) lane" if "lane = unat l" using that Cons.prems(4) by (simp add: bit_exp_iff)
  then have "bit (dirty OR push_bit (unat l) 1) lane \<or> (dq_submit_tails q)[unat l := dq_submit_tails q ! unat l + 1] ! lane = t"
    using Cons.prems(5) by (cases "lane = unat l") (auto simp: bit_or_iff)
  then show ?case using Cons.IH [OF l(2)] unat_next_lane(2) [OF lt] Cons.prems(3,4) by simp
qed simp

lemma publish_lanes_nth:
  assumes "lane < length controls" "lane < unat lane_count" "lane < 32" "bit dirty lane \<or> tails ! lane = lc_task_tail (controls ! lane)"
  shows "publish_lanes lane_count dirty tails controls ! lane = (controls ! lane)\<lparr>lc_task_tail := tails ! lane\<rparr>"
  using assms by (auto simp: publish_lanes_def and_exp_eq_0_iff_not_bit)

lemma publish_lanes_length [simp]: "length (publish_lanes lane_count dirty tails controls) = length controls"
  by (simp add: publish_lanes_def)

lemma lanes_total_size: "lanes_total q pending = size (\<Sum>k < unat (dq_lane_count q). mset (pending k))"
  by (simp add: size_lanes lanes_total_def)

section \<open>Submitting and polling\<close>

lemma accepted_prefix_lanes:
  assumes H: "dynamic_holds q pending"
  defines "batch tasks \<equiv> take (unat (dq_capacity q) - lanes_total q pending) tasks"
  shows "accepted_prefix (dq_capacity q) (dq_accepted_tasks q - dq_completed_tasks q) tasks =
      (if lanes_total q pending = unat (dq_capacity q) then Inl EAGAIN
       else if list_all well_formed_task (batch tasks) then Inr (batch tasks) else Inl EINVAL)"
    "lanes_total q pending + length (batch tasks) \<le> unat (dq_capacity q)"
proof -
  let ?total = "lanes_total q pending"
  obtain memory where m: "dq_memory q = Some memory" "lanes_hold q (lm_task_slots memory) pending"
    using H unfolding dynamic_holds_def by (cases "dq_memory q") auto
  have out: "unat (dq_accepted_tasks q - dq_completed_tasks q) = ?total" using H unfolding dynamic_holds_def by blast
  note le = lanes_total_le [OF m(2)]
  have full: "dq_accepted_tasks q - dq_completed_tasks q \<ge> dq_capacity q \<longleftrightarrow> ?total = unat (dq_capacity q)"
    using out le by (simp add: word_le_nat_alt) linarith
  have "unat (dq_capacity q - (dq_accepted_tasks q - dq_completed_tasks q)) = unat (dq_capacity q) - ?total"
    using out le by (simp add: unat_sub word_le_nat_alt)
  moreover have "take (if length tasks < n then length tasks else n) tasks = take n tasks" for n by simp
  ultimately show "accepted_prefix (dq_capacity q) (dq_accepted_tasks q - dq_completed_tasks q) tasks =
      (if ?total = unat (dq_capacity q) then Inl EAGAIN else if list_all well_formed_task (batch tasks) then Inr (batch tasks) else Inl EINVAL)"
    by (simp add: accepted_prefix_def full Let_def list_all_iff well_formed_task_def batch_def)
  show "?total + length (batch tasks) \<le> unat (dq_capacity q)" using le by (simp add: batch_def)
qed

text \<open>What a submission that is accepted leaves behind.\<close>

lemma dynamic_submit_accepts:
  assumes H: "dynamic_holds q pending" and m: "dq_memory q = Some memory" and "dq_running q" "dq_accepting q" "tasks \<noteq> []"
    and "accepted_prefix (dq_capacity q) (dq_accepted_tasks q - dq_completed_tasks q) tasks = Inr batch"
    and fit: "lanes_total q pending + length batch \<le> unat (dq_capacity q)"
  shows "\<exists>dirty slots tails cursor pending'. let q' = q\<lparr>dq_submit_tails := tails, dq_submit_cursor := cursor,
        dq_memory := Some (memory\<lparr>lm_task_slots := slots, lm_controls := publish_lanes (dq_lane_count q) dirty tails (lm_controls memory)\<rparr>),
        dq_accepted_tasks := dq_accepted_tasks q + of_nat (length batch)\<rparr>
    in dynamic_try_submit_batch tasks q = (OK, length batch, q') \<and> dynamic_holds q' pending' \<and>
       (\<forall>lane. prefix (pending lane) (pending' lane)) \<and>
       (\<Sum>k < unat (dq_lane_count q). mset (pending' k)) = (\<Sum>k < unat (dq_lane_count q). mset (pending k)) + mset batch \<and>
       (\<forall>lane < 32. bit dirty lane \<or> tails ! lane = dq_submit_tails q ! lane)"
proof -
  have h: "lanes_hold q (lm_task_slots memory) pending" and out: "unat (dq_accepted_tasks q - dq_completed_tasks q) = lanes_total q pending"
    using H m unfolding dynamic_holds_def by simp_all
  obtain dirty' slots' tails cursor pending' where
    p: "place_tasks batch 0 (lm_task_slots memory) q = (OK, dirty', slots', q\<lparr>dq_submit_tails := tails, dq_submit_cursor := cursor\<rparr>)"
      "lanes_hold (q\<lparr>dq_submit_tails := tails, dq_submit_cursor := cursor\<rparr>) slots' pending'"
      "\<forall>lane. prefix (pending lane) (pending' lane)"
      "(\<Sum>k < unat (dq_lane_count q). mset (pending' k)) = (\<Sum>k < unat (dq_lane_count q). mset (pending k)) + mset batch"
    using place_tasks_places [OF h fit, of 0] by blast
  let ?q = "q\<lparr>dq_submit_tails := tails, dq_submit_cursor := cursor,
      dq_memory := Some (memory\<lparr>lm_task_slots := slots', lm_controls := publish_lanes (dq_lane_count q) dirty' tails (lm_controls memory)\<rparr>),
      dq_accepted_tasks := dq_accepted_tasks q + of_nat (length batch)\<rparr>"
  have r: "dynamic_try_submit_batch tasks q = (OK, length batch, ?q)"
    using m assms(3-6) p(1) by (simp add: dynamic_try_submit_batch_def)
  have "unat (dq_accepted_tasks q - dq_completed_tasks q + of_nat (length batch)) = lanes_total q pending + length batch"
    using out fit unat_u64_bound [of "dq_capacity q"] by (simp add: unat_of_nat_u64 unat_word_ariths)
  then have "unat (dq_accepted_tasks ?q - dq_completed_tasks ?q) = lanes_total q pending + length batch" by (simp add: algebra_simps)
  moreover have "lanes_total ?q pending' = lanes_total q pending + length batch"
    using arg_cong [OF p(4), of size] unfolding lanes_total_size by simp
  moreover have "lanes_hold ?q slots' pending'" using p(2) unfolding lanes_hold_def by simp
  ultimately have "dynamic_holds ?q pending'" unfolding dynamic_holds_def by simp
  moreover have "bit dirty' lane \<or> tails ! lane = dq_submit_tails q ! lane" if "lane < 32" for lane
    using place_tasks_dirty [OF p(1) lanes_holdD(8,1) [OF h] that, of "dq_submit_tails q ! lane"] by simp
  ultimately show ?thesis using r p(3,4) by (intro exI [of _ dirty'] exI [of _ slots'] exI [of _ tails] exI [of _ cursor] exI [of _ pending']) (simp add: Let_def)
qed

text \<open>
  C36. A batch of the sharded queue is accepted up to the room there is: with every slot taken the answer is \<open>EAGAIN\<close>, with an ill-formed
  task among those that fit \<open>EINVAL\<close>, and otherwise every task that fits is appended to some lane, in front of nothing and over
  nothing that is outstanding; the branch that gives up with \<open>EIO\<close> because no lane has room is never taken.
\<close>

theorem dynamic_submit_finds_lanes:
  assumes H: "dynamic_holds q pending" and "dq_running q" "dq_accepting q" "tasks \<noteq> []"
  shows "let total = lanes_total q pending; batch = take (unat (dq_capacity q) - total) tasks
    in if total = unat (dq_capacity q) then dynamic_try_submit_batch tasks q = (EAGAIN, 0, q)
       else if \<not> list_all well_formed_task batch then dynamic_try_submit_batch tasks q = (EINVAL, 0, q)
       else \<exists>q' pending'. dynamic_try_submit_batch tasks q = (OK, length batch, q') \<and> dynamic_holds q' pending' \<and>
         (\<forall>lane. prefix (pending lane) (pending' lane)) \<and>
         (\<Sum>k < unat (dq_lane_count q). mset (pending' k)) = (\<Sum>k < unat (dq_lane_count q). mset (pending k)) + mset batch"
proof -
  let ?total = "lanes_total q pending"
  let ?batch = "take (unat (dq_capacity q) - ?total) tasks"
  obtain memory where m: "dq_memory q = Some memory" "lanes_hold q (lm_task_slots memory) pending"
    using H unfolding dynamic_holds_def by (cases "dq_memory q") auto
  note a = accepted_prefix_lanes(1) [OF H, of tasks] and fit = accepted_prefix_lanes(2) [OF H, of tasks]
  have ok: "\<exists>q' pending'. dynamic_try_submit_batch tasks q = (OK, length ?batch, q') \<and> dynamic_holds q' pending' \<and>
         (\<forall>lane. prefix (pending lane) (pending' lane)) \<and>
         (\<Sum>k < unat (dq_lane_count q). mset (pending' k)) = (\<Sum>k < unat (dq_lane_count q). mset (pending k)) + mset ?batch"
    if "accepted_prefix (dq_capacity q) (dq_accepted_tasks q - dq_completed_tasks q) tasks = Inr ?batch"
    using dynamic_submit_accepts [OF H m(1) assms(2-4) that fit] unfolding Let_def by blast
  show ?thesis
  proof (cases "?total = unat (dq_capacity q) \<or> \<not> list_all well_formed_task ?batch")
    case True
    then show ?thesis using a m(1) assms(2-4) by (auto simp: dynamic_try_submit_batch_def Let_def)
  next
    case False
    then show ?thesis using ok a by (simp add: Let_def)
  qed
qed

lemma dynamic_start_holds:
  assumes "dynamic_allocate capacity copy_warps device_batch base allocation_status mapping_status fresh new_dynamic_queue = (OK, q)"
    and "dynamic_start resources last_error q = (OK, q')"
  shows "dynamic_holds q' (\<lambda>_. [])" "dq_running q'" "dq_accepting q'"
proof -
  obtain bytes where size: "dynamic_sharded_spsc_allocation_size capacity copy_warps = Some bytes"
      and q: "q = new_dynamic_queue\<lparr>dq_memory := Some fresh, dq_capacity := capacity, dq_lane_capacity := capacity div ucast copy_warps,
          dq_lane_capacity_mask := capacity div ucast copy_warps - 1, dq_lane_count := copy_warps,
          dq_device_batch := device_batch, dq_stage_buffer_base := base\<rparr>"
    using assms(1) by (auto simp: dynamic_allocate_def new_dynamic_queue_def Let_def split: if_split_asm option.split_asm)
  have c: "is_supported_copy_warps copy_warps" "capacity mod ucast copy_warps = 0" "is_power_of_two (capacity div ucast copy_warps)"
    using size by (auto simp: dynamic_sharded_spsc_allocation_size_def Let_def split: if_split_asm)
  have cap: "unat capacity = unat copy_warps * unat (capacity div ucast copy_warps)"
  proof -
    have "unat (capacity mod ucast copy_warps) = 0" using c(2) by simp
    then have "unat capacity mod unat copy_warps = 0" by (simp add: unat_mod)
    then show ?thesis by (metis div_mult_mod_eq add.right_neutral mult.commute unat_div unat_ucast_u32_u64)
  qed
  have q': "q' = q\<lparr>dq_memory := Some (zero_lanes_memory copy_warps capacity), dq_submit_tails := replicate 32 0,
      dq_completion_heads := replicate 32 0, dq_submit_cursor := 0, dq_completion_cursor := 0,
      dq_accepted_tasks := 0, dq_completed_tasks := 0, dq_accepting := True, dq_running := True\<rparr>"
    using assms(2) by (auto simp: dynamic_start_def q Let_def split: if_split_asm)
  then show "dq_running q'" "dq_accepting q'" by simp_all
  have w: "0 < copy_warps" "unat copy_warps \<le> 32" using c(1) by (auto simp: is_supported_copy_warps_def)
  have "ring_holds (capacity div ucast copy_warps) 0 0 (lane_slots (unat (capacity div ucast copy_warps)) slots lane) []" for lane slots
    using c(3) by (simp add: ring_holds_def lane_slots_def)
  then show "dynamic_holds q' (\<lambda>_. [])"
    using c(1) cap w by (simp add: dynamic_holds_def lanes_hold_def q' q zero_lanes_memory_def lanes_total_def)
qed

lemma find_completed_some:
  assumes "find_completed_lane n memory q lane = Some l" "lane < dq_lane_count q"
  shows "l < dq_lane_count q \<and> dq_completion_heads q ! unat l < lc_completion_tail (lm_controls memory ! unat l)"
  using assms by (induction n arbitrary: lane) (auto simp: unat_next_lane split: if_split_asm)

lemma lanes_hold_poll:
  assumes H: "lanes_hold q slots pending" and l: "lane < dq_lane_count q" and ne: "pending (unat lane) \<noteq> []"
  shows "lanes_hold (q\<lparr>dq_completion_heads := (dq_completion_heads q)[unat lane := dq_completion_heads q ! unat lane + 1],
      dq_completed_tasks := completed, dq_completion_cursor := next_lane (dq_lane_count q) lane\<rparr>) slots
    (pending(unat lane := tl (pending (unat lane))))"
proof -
  let ?l = "unat lane" and ?heads = "(dq_completion_heads q)[unat lane := dq_completion_heads q ! unat lane + 1]"
  note L = lanes_holdD [OF H]
  have ll: "?l < unat (dq_lane_count q)" using l by (simp add: word_less_nat_alt)
  have "ring_holds (dq_lane_capacity q) (dq_completion_heads q ! ?l + 1) (dq_submit_tails q ! ?l)
      (lane_slots (unat (dq_lane_capacity q)) slots ?l) (tl (pending ?l))"
    using L(10) [OF ll] ne by (intro ring_holds_poll [where task = "hd (pending ?l)"]) simp
  then have "ring_holds (dq_lane_capacity q) (?heads ! k) (dq_submit_tails q ! k)
      (lane_slots (unat (dq_lane_capacity q)) slots k) ((pending(?l := tl (pending ?l))) k)" if "k < unat (dq_lane_count q)" for k
    using L(1,7) L(10) [OF that] ll by (cases "k = ?l") simp_all
  then show ?thesis using H unat_next_lane(2) [OF l] unfolding lanes_hold_def by simp
qed

text \<open>
  Polling takes the oldest task of the lane whose completion it returns, given that the kernel completes no more tasks of a
  lane than were submitted to it.
\<close>

lemma dynamic_poll_takes:
  assumes H: "dynamic_holds q pending" and m: "dq_memory q = Some memory"
    and kernel: "\<And>lane. lane < unat (dq_lane_count q) \<Longrightarrow>
      unat (lc_completion_tail (lm_controls memory ! lane) - dq_completion_heads q ! lane) \<le> length (pending lane)"
    and poll: "dynamic_try_poll q = (OK, completion, q')"
  shows "\<exists>lane < dq_lane_count q. pending (unat lane) \<noteq> [] \<and> dynamic_holds q' (pending(unat lane := tl (pending (unat lane)))) \<and>
    dq_completion_heads q ! unat lane < lc_completion_tail (lm_controls memory ! unat lane) \<and>
    completion = lm_completion_slots memory ! dynamic_slot q lane (dq_completion_heads q ! unat lane) \<and>
    q' = q\<lparr>dq_completion_heads := (dq_completion_heads q)[unat lane := dq_completion_heads q ! unat lane + 1],
        dq_completed_tasks := dq_completed_tasks q + 1, dq_completion_cursor := next_lane (dq_lane_count q) lane\<rparr>"
proof -
  have h: "lanes_hold q (lm_task_slots memory) pending" "unat (dq_accepted_tasks q - dq_completed_tasks q) = lanes_total q pending"
    using H m unfolding dynamic_holds_def by simp_all
  obtain lane where f: "find_completed_lane (unat (dq_lane_count q)) memory q (dq_completion_cursor q) = Some lane"
      and q': "q' = q\<lparr>dq_completion_heads := (dq_completion_heads q)[unat lane := dq_completion_heads q ! unat lane + 1],
        dq_completed_tasks := dq_completed_tasks q + 1, dq_completion_cursor := next_lane (dq_lane_count q) lane\<rparr>"
      and c: "completion = lm_completion_slots memory ! dynamic_slot q lane (dq_completion_heads q ! unat lane)"
    using poll m by (auto simp: dynamic_try_poll_def split: option.split_asm)
  note l = find_completed_some [OF f lanes_holdD(9) [OF h(1)]]
  have ll: "unat lane < unat (dq_lane_count q)" using l by (simp add: word_less_nat_alt)
  have "lc_completion_tail (lm_controls memory ! unat lane) - dq_completion_heads q ! unat lane \<noteq> 0" using l by auto
  then have ne: "pending (unat lane) \<noteq> []" using kernel [OF ll] by (auto simp: word_unat_eq_iff)
  let ?p = "pending(unat lane := tl (pending (unat lane)))"
  have "lanes_total q pending = lanes_total q ?p + 1"
  proof -
    have r: "{..<unat (dq_lane_count q)} = insert (unat lane) ({..<unat (dq_lane_count q)} - {unat lane})" using ll by auto
    have "(\<Sum>k \<in> {..<unat (dq_lane_count q)} - {unat lane}. length (?p k)) = (\<Sum>k \<in> {..<unat (dq_lane_count q)} - {unat lane}. length (pending k))"
      by (intro sum.cong) auto
    moreover have "0 < length (pending (unat lane))" using ne by simp
    ultimately show ?thesis unfolding lanes_total_def by (subst (1 2) r) (simp add: sum.insert_remove)
  qed
  moreover have "unat (dq_accepted_tasks q - (dq_completed_tasks q + 1)) = unat (dq_accepted_tasks q - dq_completed_tasks q) - 1"
  proof -
    have "dq_accepted_tasks q - dq_completed_tasks q \<noteq> 0" using h(2) calculation by (auto simp: word_unat_eq_iff)
    then have "unat (dq_accepted_tasks q - dq_completed_tasks q - 1) = unat (dq_accepted_tasks q - dq_completed_tasks q) - 1"
      by (rule unat_minus_one)
    then show ?thesis by (simp add: algebra_simps)
  qed
  ultimately have "dynamic_holds q' ?p"
    using lanes_hold_poll [OF h(1) _ ne] l h(2) m unfolding dynamic_holds_def q' lanes_total_def by simp
  then show ?thesis using l ne q' c by blast
qed

section \<open>A run of the sharded queue\<close>

definition lanes_demo :: dynamic_queue where
  "lanes_demo = snd (dynamic_start True CudaSuccess (snd (dynamic_allocate 8 4 1 4096 CudaSuccess CudaSuccess (zero_lanes_memory 4 8) new_dynamic_queue)))"

definition demo_task :: "u64 \<Rightarrow> copy_task" where
  "demo_task n = \<lparr>ct_task_id = n, ct_target_address = 65536, ct_length = 16, ct_relative_offset = 0\<rparr>"

lemma lanes_demo_holds: "dynamic_holds lanes_demo (\<lambda>_. [])" "dq_running lanes_demo" "dq_accepting lanes_demo"
proof -
  have a: "dynamic_allocate 8 4 1 4096 CudaSuccess CudaSuccess (zero_lanes_memory 4 8) new_dynamic_queue =
      (OK, snd (dynamic_allocate 8 4 1 4096 CudaSuccess CudaSuccess (zero_lanes_memory 4 8) new_dynamic_queue))" by code_simp
  have b: "dynamic_start True CudaSuccess (snd (dynamic_allocate 8 4 1 4096 CudaSuccess CudaSuccess (zero_lanes_memory 4 8) new_dynamic_queue)) =
      (OK, lanes_demo)" unfolding lanes_demo_def by code_simp
  show "dynamic_holds lanes_demo (\<lambda>_. [])" "dq_running lanes_demo" "dq_accepting lanes_demo" using dynamic_start_holds [OF a b] .
qed

theorem dynamic_submit_finds_lanes_witness:
  "\<exists>q' pending'. dynamic_try_submit_batch (map demo_task [1, 2, 3]) lanes_demo = (OK, 3, q') \<and> dynamic_holds q' pending' \<and>
    (\<Sum>k < 4. mset (pending' k)) = mset (map demo_task [1, 2, 3])"
proof -
  have cap: "dq_capacity lanes_demo = 8" "dq_lane_count lanes_demo = 4" by code_simp+
  have t: "lanes_total lanes_demo (\<lambda>_. []) = 0" by (simp add: lanes_total_def)
  have w: "list_all well_formed_task (map demo_task [1, 2, 3])" by (simp add: well_formed_task_def demo_task_def)
  show ?thesis using dynamic_submit_finds_lanes [OF lanes_demo_holds, of "map demo_task [1, 2, 3]"] w
    unfolding Let_def t cap by auto
qed

end
