(* ===== verification/Dynamic_Run.thy ===== *)
theory Dynamic_Run
  imports Dynamic_Kernel
begin

unbundle bit_operations_syntax

text \<open>
  The invariant of the sharded kernel with the host at its queue, that every step keeps it, and what it says of a run. The invariant speaks of
  the tasks every lane was given so far; the host has polled a prefix of them, the warp has published a longer one.
\<close>

section \<open>The invariant\<close>

abbreviation (input) YW :: "kernel_args \<Rightarrow> nat" where "YW k \<equiv> unat (ka_copy_warps k)"
abbreviation (input) Ysub :: "dynamic_machine \<Rightarrow> nat" where "Ysub s \<equiv> length (ym_submitted s)"
abbreviation (input) ypolled :: "dynamic_machine \<Rightarrow> nat \<Rightarrow> nat" where "ypolled s lane \<equiv> unat (dq_completion_heads (ym_queue s) ! lane)"

text \<open>How large the batch of a warp is and how many of its completions are stored.\<close>

fun dy_batch :: "dynamic_pc \<Rightarrow> nat" where
  "dy_batch (Dy_read n b) = n"
| "dy_batch (Dy_copying n b task lanes) = n"
| "dy_batch (Dy_store n b task) = n"
| "dy_batch (Dy_publish n) = n"
| "dy_batch _ = 0"

fun dy_written :: "dynamic_pc \<Rightarrow> nat" where
  "dy_written (Dy_read n b) = b"
| "dy_written (Dy_copying n b task lanes) = b"
| "dy_written (Dy_store n b task) = b"
| "dy_written (Dy_publish n) = n"
| "dy_written _ = 0"

definition dynamic_lane_ok ::
  "kernel_args \<Rightarrow> nat \<Rightarrow> copy_task list \<Rightarrow> cg_access list \<Rightarrow> copy_completion list \<Rightarrow> nat \<Rightarrow> nat \<Rightarrow> nat \<Rightarrow> dynamic_pc \<Rightarrow> bool" where
  "dynamic_lane_ok k c tasks accs slots lane p h pc \<longleftrightarrow>
     p \<le> h \<and> h + dy_batch pc \<le> length tasks \<and> dy_written pc \<le> dy_batch pc \<and>
     (\<forall>i. p \<le> i \<and> i < h + dy_written pc \<longrightarrow> slots ! (lane * c + i mod c) = completion_of (tasks ! i)) \<and>
     (\<forall>i < h + dy_written pc. accesses k (tasks ! i) \<subseteq> set accs) \<and>
     (case pc of
        Dy_copying n b task lanes \<Rightarrow> b < n \<and> task = tasks ! (h + b) \<and> copying_ok k accs task lanes
      | Dy_store n b task \<Rightarrow> b < n \<and> task = tasks ! (h + b) \<and> accesses k task \<subseteq> set accs
      | _ \<Rightarrow> True)"

definition dynamic_queue_ok :: "kernel_args \<Rightarrow> u64 \<Rightarrow> (nat \<Rightarrow> copy_task list) \<Rightarrow> dynamic_machine \<Rightarrow> bool" where
  "dynamic_queue_ok k c given s \<longleftrightarrow>
     dq_memory (ym_queue s) \<noteq> None \<and> dynamic_holds (ym_queue s) (\<lambda>lane. drop (ypolled s lane) (given lane)) \<and>
     dq_lane_count (ym_queue s) = ka_copy_warps k \<and> dq_lane_capacity (ym_queue s) = c \<and>
     dq_lane_capacity_mask (ym_queue s) = ka_capacity_mask k \<and> is_supported_device_batch (ka_depth k) \<and>
     length (lm_controls (lanes_mapped s)) = YW k \<and> length (lm_completion_slots (lanes_mapped s)) = unat (dq_capacity (ym_queue s))"

definition dynamic_lanes_ok :: "kernel_args \<Rightarrow> u64 \<Rightarrow> (nat \<Rightarrow> copy_task list) \<Rightarrow> dynamic_machine \<Rightarrow> bool" where
  "dynamic_lanes_ok k c given s \<longleftrightarrow>
     (\<forall>lane < YW k.
        unat (dq_submit_tails (ym_queue s) ! lane) = length (given lane) \<and>
        lc_task_tail (lm_controls (lanes_mapped s) ! lane) = dq_submit_tails (ym_queue s) ! lane \<and>
        lc_completion_tail (lm_controls (lanes_mapped s) ! lane) = ym_heads s lane \<and>
        dynamic_lane_ok k (unat c) (given lane) (ym_accesses s) (lm_completion_slots (lanes_mapped s)) lane
          (ypolled s lane) (unat (ym_heads s lane)) (ym_warps s lane))"

definition dynamic_history :: "kernel_args \<Rightarrow> memory \<Rightarrow> (nat \<Rightarrow> copy_task list) \<Rightarrow> dynamic_machine \<Rightarrow> bool" where
  "dynamic_history k memory given s \<longleftrightarrow>
     (\<Sum>lane < YW k. mset (given lane)) = mset (ym_submitted s) \<and>
     mset (ym_polled s) = (\<Sum>lane < YW k. image_mset completion_of (mset (take (ypolled s lane) (given lane)))) \<and>
     ym_memory s = fold copy_cg (ym_accesses s) memory \<and>
     set (ym_accesses s) \<subseteq> (\<Union>task \<in> set (ym_submitted s). accesses k task)"

definition dynamic_inv :: "kernel_args \<Rightarrow> u64 \<Rightarrow> memory \<Rightarrow> (nat \<Rightarrow> copy_task list) \<Rightarrow> dynamic_machine \<Rightarrow> bool" where
  "dynamic_inv k c memory given s \<longleftrightarrow>
     dynamic_queue_ok k c given s \<and> dynamic_lanes_ok k c given s \<and> dynamic_history k memory given s"

lemma dynamic_queueD:
  assumes "dynamic_queue_ok k c given s"
  shows "dq_memory (ym_queue s) = Some (lanes_mapped s)" "dynamic_holds (ym_queue s) (\<lambda>lane. drop (ypolled s lane) (given lane))"
    "lanes_hold (ym_queue s) (lm_task_slots (lanes_mapped s)) (\<lambda>lane. drop (ypolled s lane) (given lane))"
    "dq_lane_count (ym_queue s) = ka_copy_warps k" "dq_lane_capacity (ym_queue s) = c"
    "dq_lane_capacity_mask (ym_queue s) = ka_capacity_mask k" "is_supported_device_batch (ka_depth k)"
    "length (lm_controls (lanes_mapped s)) = YW k" "length (lm_completion_slots (lanes_mapped s)) = unat (dq_capacity (ym_queue s))"
  using assms unfolding dynamic_queue_ok_def dynamic_holds_def lanes_mapped_def by auto

lemma dynamic_lanesD:
  assumes "dynamic_lanes_ok k c given s" "lane < YW k"
  shows "unat (dq_submit_tails (ym_queue s) ! lane) = length (given lane)"
    "lc_task_tail (lm_controls (lanes_mapped s) ! lane) = dq_submit_tails (ym_queue s) ! lane"
    "lc_completion_tail (lm_controls (lanes_mapped s) ! lane) = ym_heads s lane"
    "dynamic_lane_ok k (unat c) (given lane) (ym_accesses s) (lm_completion_slots (lanes_mapped s)) lane
          (ypolled s lane) (unat (ym_heads s lane)) (ym_warps s lane)"
  using assms unfolding dynamic_lanes_ok_def by blast+

text \<open>The slots of a lane: where the kernel looks is where the host put the task, and the window of a lane fits into its slots.\<close>

lemma lane_slot_value:
  assumes "dynamic_queue_ok k c given s" "w < YW k"
  shows "lane_slot k c w x = w * unat c + unat x mod unat c" "w * unat c + unat x mod unat c < unat (dq_capacity (ym_queue s))"
    "0 < unat c" "length (given w) - ypolled s w \<le> unat c"
proof -
  note Q = dynamic_queueD [OF assms(1)] and L = lanes_holdD [OF dynamic_queueD(3) [OF assms(1)]]
  have w: "unat (of_nat w :: u32) = w" using assms(2) unat_u32_bound [of "ka_copy_warps k"] by (intro unat_of_nat_u32) simp
  then have lt: "(of_nat w :: u32) < dq_lane_count (ym_queue s)" using assms(2) Q(4) by (simp add: word_less_nat_alt)
  have "(ucast (of_nat w :: u32) :: u64) = of_nat w" using w by (metis of_nat_unat)
  then have "lane_slot k c w x = dynamic_slot (ym_queue s) (of_nat w) x" unfolding lane_slot_def dynamic_slot_def using Q(5,6) by simp
  then show "lane_slot k c w x = w * unat c + unat x mod unat c"
    "w * unat c + unat x mod unat c < unat (dq_capacity (ym_queue s))"
    using dynamic_slot_value [OF Q(3) lt, of x] w Q(5) L(4) by simp_all
  show "0 < unat c" using power_of_two_dvd(2) [OF lane_power [OF Q(3)]] Q(5) by simp
  show "length (given w) - ypolled s w \<le> unat c" using ring_holdsD(3) [OF L(10) [of w]] assms(2) Q(4,5) by simp
qed

lemma dynamic_task_slot:
  assumes "dynamic_queue_ok k c given s" "w < YW k" "ypolled s w \<le> i" "i < length (given w)"
  shows "lm_task_slots (lanes_mapped s) ! (w * unat c + i mod unat c) = given w ! i"
proof -
  note Q = dynamic_queueD [OF assms(1)] and L = lanes_holdD [OF dynamic_queueD(3) [OF assms(1)]]
  have "lane_slots (unat c) (lm_task_slots (lanes_mapped s)) w ! (i mod unat c) = given w ! i"
    using ring_holdsD(5) [OF L(10) [of w], of "i - ypolled s w"] assms(2-4) Q(4,5) by simp
  then show ?thesis using lane_slot_value(3) [OF assms(1,2)] by (simp add: lane_slots_def)
qed

lemma given_bound:
  assumes "dynamic_history k memory given s" "w < YW k"
  shows "length (given w) \<le> Ysub s" "set (given w) \<subseteq> set (ym_submitted s)"
proof -
  have "mset (given w) \<subseteq># (\<Sum>lane < YW k. mset (given lane))" using assms(2) by (simp add: sum.remove [of _ w])
  then have sub: "mset (given w) \<subseteq># mset (ym_submitted s)" using assms(1) unfolding dynamic_history_def by simp
  then show "length (given w) \<le> Ysub s" using size_mset_mono by fastforce
  show "set (given w) \<subseteq> set (ym_submitted s)" using set_mset_mono [OF sub] by simp
qed

section \<open>A warp moves on\<close>

lemma lanes_mapped_frame [simp]:
  "lanes_mapped (s\<lparr>ym_warps := ws\<rparr>) = lanes_mapped s" "lanes_mapped (s\<lparr>ym_heads := hs\<rparr>) = lanes_mapped s"
  "lanes_mapped (s\<lparr>ym_memory := m\<rparr>) = lanes_mapped s" "lanes_mapped (s\<lparr>ym_accesses := as\<rparr>) = lanes_mapped s"
  "lanes_mapped (update_lanes f s) = f (lanes_mapped s)"
  by (simp_all add: lanes_mapped_def update_lanes_def)

lemma update_lanes_frame [simp]:
  "ym_warps (update_lanes f s) = ym_warps s" "ym_heads (update_lanes f s) = ym_heads s" "ym_submitted (update_lanes f s) = ym_submitted s"
  "ym_polled (update_lanes f s) = ym_polled s" "ym_accesses (update_lanes f s) = ym_accesses s" "ym_memory (update_lanes f s) = ym_memory s"
  "ym_queue (update_lanes f s) = (ym_queue s)\<lparr>dq_memory := Some (f (lanes_mapped s))\<rparr>"
  by (simp_all add: update_lanes_def)

text \<open>Warps change control blocks and completion slots, never the tasks.\<close>

lemma dynamic_queue_update:
  assumes "dynamic_queue_ok k c given s" "lm_task_slots (f (lanes_mapped s)) = lm_task_slots (lanes_mapped s)"
    "length (lm_controls (f (lanes_mapped s))) = length (lm_controls (lanes_mapped s))"
    "length (lm_completion_slots (f (lanes_mapped s))) = length (lm_completion_slots (lanes_mapped s))"
  shows "dynamic_queue_ok k c given (update_lanes f s)"
proof -
  have "dynamic_holds ((ym_queue s)\<lparr>dq_memory := Some (f (lanes_mapped s))\<rparr>) pending" if "dynamic_holds (ym_queue s) pending" for pending
    using that dynamic_queueD(1) [OF assms(1)] assms(2) by (simp add: dynamic_holds_def lanes_hold_def lanes_total_def)
  then show ?thesis using assms unfolding dynamic_queue_ok_def by simp
qed

lemma dynamic_inv_pc:
  assumes inv: "dynamic_inv k c memory given s" and w: "w < YW k"
    and ok: "dynamic_lane_ok k (unat c) (given w) (ym_accesses s) (lm_completion_slots (lanes_mapped s)) w (ypolled s w) (unat (ym_heads s w)) pc"
  shows "dynamic_inv k c memory given (s\<lparr>ym_warps := (ym_warps s)(w := pc)\<rparr>)"
  using assms by (simp add: dynamic_inv_def dynamic_queue_ok_def dynamic_lanes_ok_def dynamic_history_def)

lemma dynamic_batch_begins:
  assumes inv: "dynamic_inv k c memory given s" and w: "w < YW k" and lt: "ym_heads s w < lc_task_tail (lm_controls (lanes_mapped s) ! w)"
    and pc: "ym_warps s w = Dy_load_tail \<or> ym_warps s w = Dy_recheck"
  shows "dynamic_inv k c memory given (s\<lparr>ym_warps := (ym_warps s)(w :=
    Dy_read (unat (batch_count k (lc_task_tail (lm_controls (lanes_mapped s) ! w) - ym_heads s w))) 0)\<rparr>)"
proof -
  have q: "dynamic_queue_ok k c given s" and l: "dynamic_lanes_ok k c given s" using inv unfolding dynamic_inv_def by blast+
  note Q = dynamic_queueD [OF q] and L = dynamic_lanesD [OF l w]
  let ?d = "lc_task_tail (lm_controls (lanes_mapped s) ! w) - ym_heads s w"
  have d: "unat ?d = length (given w) - unat (ym_heads s w)" "0 < unat ?d"
    using lt L(1,2) by (simp_all add: unat_sub word_less_nat_alt word_le_nat_alt)
  have "unat (batch_count k ?d) \<le> unat ?d" using batch_count_bounds(3) [OF Q(7) d(2)] .
  then have "unat (ym_heads s w) + unat (batch_count k ?d) \<le> length (given w)" using d by linarith
  then show ?thesis using L(4) pc by (intro dynamic_inv_pc [OF inv w]) (auto simp: dynamic_lane_ok_def)
qed

text \<open>A completion is stored: no other index of the window of the lane, and no other lane, uses the slot.\<close>

lemma dynamic_stores:
  assumes inv: "dynamic_inv k c memory given s" and w: "w < YW k" and pc: "ym_warps s w = Dy_store n b task"
    and bound: "Ysub s + 64 < 18446744073709551616"
  shows "dynamic_inv k c memory given ((update_lanes (\<lambda>m. m\<lparr>lm_completion_slots := (lm_completion_slots m)
    [lane_slot k c w (ym_heads s w + of_nat b) := completion_of task]\<rparr>) s)\<lparr>ym_warps := (ym_warps s)(w := Dy_read n (b + 1))\<rparr>)"
    (is "dynamic_inv k c memory given (?s1\<lparr>ym_warps := _\<rparr>)")
proof -
  have q: "dynamic_queue_ok k c given s" and l: "dynamic_lanes_ok k c given s" and h: "dynamic_history k memory given s"
    using inv unfolding dynamic_inv_def by blast+
  note Q = dynamic_queueD [OF q] and L = dynamic_lanesD [OF l] and S = lane_slot_value [OF q w]
  let ?h = "unat (ym_heads s w)" and ?c = "unat c" and ?slots = "lm_completion_slots (lanes_mapped s)"
  have ok: "ypolled s w \<le> ?h" "?h + n \<le> length (given w)" "b < n" "task = given w ! (?h + b)" "accesses k task \<subseteq> set (ym_accesses s)"
      "\<And>i. ypolled s w \<le> i \<Longrightarrow> i < ?h + b \<Longrightarrow> ?slots ! (w * ?c + i mod ?c) = completion_of (given w ! i)"
      "\<And>i. i < ?h + b \<Longrightarrow> accesses k (given w ! i) \<subseteq> set (ym_accesses s)"
    using L(4) [OF w] pc by (auto simp: dynamic_lane_ok_def)
  have len: "length (given w) \<le> Ysub s" using given_bound(1) [OF h w] .
  have "unat (ym_heads s w + of_nat b) = ?h + b"
    using ok(2,3) len bound by (simp add: unat_add_u64 unat_of_nat_u64)
  then have slot: "lane_slot k c w (ym_heads s w + of_nat b) = w * ?c + (?h + b) mod ?c" "w * ?c + (?h + b) mod ?c < length ?slots"
    using S(1,2) [of "ym_heads s w + of_nat b"] Q(9) by simp_all
  let ?slots' = "?slots[w * ?c + (?h + b) mod ?c := completion_of task]"
  have mine: "?slots' ! (w * ?c + i mod ?c) = (if i = ?h + b then completion_of task else ?slots ! (w * ?c + i mod ?c))"
    if "ypolled s w \<le> i" "i \<le> ?h + b" for i
  proof -
    have "i = ?h + b" if "i mod ?c = (?h + b) mod ?c"
      using window_slot [of "ypolled s w" i ?c "?h + b"] that \<open>ypolled s w \<le> i\<close> \<open>i \<le> ?h + b\<close> ok(1-3) S(4) by simp
    then show ?thesis using slot(2) by (auto simp: nth_list_update)
  qed
  have other: "?slots' ! (v * ?c + i mod ?c) = ?slots ! (v * ?c + i mod ?c)" if "v \<noteq> w" for v i
  proof -
    have "v * ?c + i mod ?c \<noteq> w * ?c + (?h + b) mod ?c"
    proof
      assume e: "v * ?c + i mod ?c = w * ?c + (?h + b) mod ?c"
      have "v = (v * ?c + i mod ?c) div ?c" "w = (w * ?c + (?h + b) mod ?c) div ?c" using S(3) by simp_all
      then show False using e that by metis
    qed
    then show ?thesis by simp
  qed
  have "dynamic_queue_ok k c given ?s1" by (rule dynamic_queue_update [OF q]) simp_all
  moreover have "dynamic_lane_ok k ?c (given w) (ym_accesses s) ?slots' w (ypolled s w) ?h (Dy_read n (b + 1))"
    using ok mine by (auto simp: dynamic_lane_ok_def less_Suc_eq)
  moreover have "dynamic_lane_ok k ?c (given v) (ym_accesses s) ?slots' v (ypolled s v) (unat (ym_heads s v)) (ym_warps s v)"
    if "v < YW k" "v \<noteq> w" for v
    using L(4) [OF that(1)] other [OF that(2)] unfolding dynamic_lane_ok_def by simp
  ultimately show ?thesis
    using l h slot(1) by (simp add: dynamic_inv_def dynamic_queue_ok_def dynamic_lanes_ok_def dynamic_history_def)
qed

text \<open>A batch is published.\<close>

lemma dynamic_publishes:
  assumes inv: "dynamic_inv k c memory given s" and w: "w < YW k" and pc: "ym_warps s w = Dy_publish n"
    and bound: "Ysub s + 64 < 18446744073709551616"
  shows "dynamic_inv k c memory given ((update_lanes (\<lambda>m. m\<lparr>lm_controls := (lm_controls m)[w := (lm_controls m ! w)\<lparr>lc_completion_tail := ym_heads s w + of_nat n\<rparr>]\<rparr>)
    (s\<lparr>ym_heads := (ym_heads s)(w := ym_heads s w + of_nat n)\<rparr>))\<lparr>ym_warps := (ym_warps s)(w := Dy_load_tail)\<rparr>)"
    (is "dynamic_inv k c memory given (?s1\<lparr>ym_warps := _\<rparr>)")
proof -
  have q: "dynamic_queue_ok k c given s" and l: "dynamic_lanes_ok k c given s" and h: "dynamic_history k memory given s"
    using inv unfolding dynamic_inv_def by blast+
  note Q = dynamic_queueD [OF q] and L = dynamic_lanesD [OF l]
  have ok: "unat (ym_heads s w) + n \<le> length (given w)" using L(4) [OF w] pc by (simp add: dynamic_lane_ok_def)
  then have u: "unat (ym_heads s w + of_nat n) = unat (ym_heads s w) + n"
    using given_bound(1) [OF h w] bound by (simp add: unat_add_u64 unat_of_nat_u64)
  have "dynamic_queue_ok k c given (s\<lparr>ym_heads := (ym_heads s)(w := ym_heads s w + of_nat n)\<rparr>)" using q by (simp add: dynamic_queue_ok_def)
  then have "dynamic_queue_ok k c given ?s1" by (rule dynamic_queue_update) simp_all
  moreover have "dynamic_lane_ok k (unat c) (given w) (ym_accesses s) (lm_completion_slots (lanes_mapped s)) w (ypolled s w)
      (unat (ym_heads s w + of_nat n)) Dy_load_tail"
    using L(4) [OF w] pc ok unfolding u by (simp add: dynamic_lane_ok_def)
  ultimately show ?thesis
    using l h w Q(8) by (simp add: dynamic_inv_def dynamic_queue_ok_def dynamic_lanes_ok_def dynamic_history_def nth_list_update)
qed

lemma dynamic_warp_inv:
  assumes inv: "dynamic_inv k c memory given s" and step: "dynamic_warp k c w s = Some s'" and bound: "Ysub s + 64 < 18446744073709551616"
  shows "dynamic_inv k c memory given s'"
proof -
  have w: "w < YW k" using step by (simp add: dynamic_warp_def split: if_split_asm)
  have q: "dynamic_queue_ok k c given s" and l: "dynamic_lanes_ok k c given s" and h: "dynamic_history k memory given s"
    using inv unfolding dynamic_inv_def by blast+
  note L = dynamic_lanesD [OF l w] and begins = dynamic_batch_begins [OF inv w] and at = dynamic_inv_pc [OF inv w]
  show ?thesis
  proof (cases "ym_warps s w")
    case Dy_load_tail
    then show ?thesis using step w begins at [of Dy_check_stop] L(4) by (auto simp: dynamic_warp_def Let_def dynamic_lane_ok_def split: if_split_asm)
  next
    case Dy_check_stop
    then show ?thesis using step w at [of Dy_recheck] at [of Dy_load_tail] L(4) by (auto simp: dynamic_warp_def Let_def dynamic_lane_ok_def split: if_split_asm)
  next
    case Dy_recheck
    then show ?thesis using step w begins at [of Dy_exited] L(4) by (auto simp: dynamic_warp_def Let_def dynamic_lane_ok_def not_le split: if_split_asm)
  next
    case (Dy_read n b)
    let ?i = "unat (ym_heads s w) + b"
    have ok: "ypolled s w \<le> unat (ym_heads s w)" "unat (ym_heads s w) + n \<le> length (given w)" using L(4) Dy_read by (simp_all add: dynamic_lane_ok_def)
    have "lm_task_slots (lanes_mapped s) ! lane_slot k c w (ym_heads s w + of_nat b) = given w ! ?i" if "b < n"
    proof -
      have "unat (ym_heads s w + of_nat b) = ?i"
        using that ok(2) given_bound(1) [OF h w] bound by (simp add: unat_add_u64 unat_of_nat_u64)
      then show ?thesis using lane_slot_value(1) [OF q w] dynamic_task_slot [OF q w, of ?i] that ok by simp
    qed
    then show ?thesis
      using step w Dy_read L(4) at [of "Dy_copying n b (given w ! ?i) lanes" for lanes] at [of "Dy_publish n"] copying_begins [of k "given w ! ?i" _ "ym_accesses s"]
      by (auto simp: dynamic_warp_def Let_def dynamic_lane_ok_def split: if_split_asm option.split_asm)
  next
    case (Dy_copying n b task lanes)
    then show ?thesis using step w L(4) at [of "Dy_store n b task"] copying_ends [of k "ym_accesses s" task lanes]
      by (auto simp: dynamic_warp_def Let_def dynamic_lane_ok_def split: if_split_asm)
  next
    case (Dy_store n b task)
    then show ?thesis using step w dynamic_stores [OF inv w Dy_store bound] by (auto simp: dynamic_warp_def Let_def)
  next
    case (Dy_publish n)
    then show ?thesis using step w dynamic_publishes [OF inv w Dy_publish bound] by (auto simp: dynamic_warp_def Let_def)
  next
    case Dy_exited
    then show ?thesis using step w by (simp add: dynamic_warp_def Let_def)
  qed
qed

lemma dynamic_lane_inv:
  assumes inv: "dynamic_inv k c memory given s" and step: "dynamic_lane k w l s = Some s'"
  shows "dynamic_inv k c memory given s'"
proof -
  have w: "w < YW k" using step by (simp add: dynamic_lane_def split: if_split_asm)
  have q: "dynamic_queue_ok k c given s" and lanes_ok: "dynamic_lanes_ok k c given s" and h: "dynamic_history k memory given s"
    using inv unfolding dynamic_inv_def by blast+
  obtain n b task lanes a as where pc: "ym_warps s w = Dy_copying n b task lanes" and r: "l < length lanes" "lanes ! l = a # as"
      and s': "s' = s\<lparr>ym_memory := copy_cg a (ym_memory s), ym_accesses := ym_accesses s @ [a],
        ym_warps := (ym_warps s)(w := Dy_copying n b task (lanes[l := as]))\<rparr>"
    using step w by (auto simp: dynamic_lane_def split: dynamic_pc.split_asm if_split_asm list.split_asm)
  let ?s1 = "s\<lparr>ym_memory := copy_cg a (ym_memory s), ym_accesses := ym_accesses s @ [a]\<rparr>"
  have ok: "copying_ok k (ym_accesses s) task lanes" "task = given w ! (unat (ym_heads s w) + b)" "unat (ym_heads s w) + b < length (given w)"
    using dynamic_lanesD(4) [OF lanes_ok w] pc by (auto simp: dynamic_lane_ok_def)
  note C = copying_lane [OF ok(1) r]
  have "task \<in> set (ym_submitted s)" using given_bound(2) [OF h w] ok(2,3) by auto
  then have "dynamic_history k memory given ?s1" using h C(2) by (auto simp: dynamic_history_def)
  moreover have "dynamic_lane_ok k c' ts (ym_accesses s @ [a]) slots v p hd pc" if "dynamic_lane_ok k c' ts (ym_accesses s) slots v p hd pc" for c' ts slots v p hd pc
    using that copying_more by (cases pc) (auto simp: dynamic_lane_ok_def)
  then have "dynamic_lanes_ok k c given ?s1" using lanes_ok by (simp add: dynamic_lanes_ok_def)
  moreover have "dynamic_queue_ok k c given ?s1" using q by (simp add: dynamic_queue_ok_def)
  ultimately have inv1: "dynamic_inv k c memory given ?s1" by (simp add: dynamic_inv_def)
  then have "dynamic_lane_ok k (unat c) (given w) (ym_accesses ?s1) (lm_completion_slots (lanes_mapped ?s1)) w (ypolled ?s1 w) (unat (ym_heads ?s1 w))
      (Dy_copying n b task (lanes[l := as]))"
    using dynamic_lanesD(4) [of k c given ?s1 w] w pc C(1) unfolding dynamic_inv_def by (simp add: dynamic_lane_ok_def)
  then show ?thesis unfolding s' using dynamic_inv_pc [OF inv1 w] by simp
qed

section \<open>The host at the queue\<close>

text \<open>The tasks a lane was given grow by what the submission appended to it.\<close>

lemma dynamic_submits_inv:
  assumes inv: "dynamic_inv k c memory given s" and bound: "Ysub (dynamic_submits tasks s) + 64 < 18446744073709551616"
  shows "\<exists>given'. dynamic_inv k c memory given' (dynamic_submits tasks s)"
proof -
  have q: "dynamic_queue_ok k c given s" and l: "dynamic_lanes_ok k c given s" and h: "dynamic_history k memory given s"
    using inv unfolding dynamic_inv_def by blast+
  note Q = dynamic_queueD [OF q] and L = dynamic_lanesD [OF l]
  let ?q = "ym_queue s" and ?pending = "\<lambda>lane. drop (ypolled s lane) (given lane)"
  show ?thesis
  proof (cases "fst (snd (dynamic_try_submit_batch tasks ?q)) = 0 \<and> snd (snd (dynamic_try_submit_batch tasks ?q)) = ?q")
    case True
    then have "dynamic_submits tasks s = s" by (auto simp: dynamic_submits_def split: prod.split)
    then show ?thesis using inv by auto
  next
    case False
    then obtain batch where a: "dq_running ?q" "dq_accepting ?q" "tasks \<noteq> []"
        "accepted_prefix (dq_capacity ?q) (dq_accepted_tasks ?q - dq_completed_tasks ?q) tasks = Inr batch"
      using Q(1) by (auto simp: dynamic_try_submit_batch_def split: if_split_asm sum.split_asm)
    have batch: "batch = take (unat (dq_capacity ?q) - lanes_total ?q ?pending) tasks"
      using a(4) accepted_prefix_lanes(1) [OF Q(2), of tasks] by (simp split: if_split_asm)
    then have fit: "lanes_total ?q ?pending + length batch \<le> unat (dq_capacity ?q)" using accepted_prefix_lanes(2) [OF Q(2), of tasks] by simp
    let ?after = "\<lambda>dirty slots tails cursor. ?q\<lparr>dq_submit_tails := tails, dq_submit_cursor := cursor,
          dq_memory := Some ((lanes_mapped s)\<lparr>lm_task_slots := slots, lm_controls := publish_lanes (dq_lane_count ?q) dirty tails (lm_controls (lanes_mapped s))\<rparr>),
          dq_accepted_tasks := dq_accepted_tasks ?q + of_nat (length batch)\<rparr>"
    obtain dirty slots tails cursor pending' where
      r: "dynamic_try_submit_batch tasks ?q = (OK, length batch, ?after dirty slots tails cursor)"
      and hold: "dynamic_holds (?after dirty slots tails cursor) pending'" and pre: "\<And>lane. prefix (?pending lane) (pending' lane)"
      and sum: "(\<Sum>lane < unat (dq_lane_count ?q). mset (pending' lane)) = (\<Sum>lane < unat (dq_lane_count ?q). mset (?pending lane)) + mset batch"
      and dirty: "\<And>lane. lane < 32 \<Longrightarrow> bit dirty lane \<or> tails ! lane = dq_submit_tails ?q ! lane"
      using dynamic_submit_accepts [OF Q(2,1) a fit] unfolding Let_def by blast
    let ?q' = "?after dirty slots tails cursor"
    let ?given = "\<lambda>lane. take (ypolled s lane) (given lane) @ pending' lane"
    have "take (length batch) tasks = batch" unfolding batch by (simp add: min_def)
    then have s': "dynamic_submits tasks s = s\<lparr>ym_queue := ?q', ym_submitted := ym_submitted s @ batch\<rparr>" (is "_ = ?s")
      using r by (simp add: dynamic_submits_def)
    have mapped: "lanes_mapped ?s = (lanes_mapped s)\<lparr>lm_task_slots := slots, lm_controls := publish_lanes (dq_lane_count ?q) dirty tails (lm_controls (lanes_mapped s))\<rparr>"
      by (simp add: lanes_mapped_def)
    have p: "ypolled s lane \<le> length (given lane)" if "lane < YW k" for lane using L(4) [OF that] by (auto simp: dynamic_lane_ok_def)
    have grows: "\<exists>xs. ?given lane = given lane @ xs" for lane
      using pre [of lane] by (metis append_take_drop_id append_assoc prefix_def)
    have W32: "YW k \<le> 32" using lanes_holdD(1) [OF Q(3)] Q(4) by simp
    have dropped: "drop (ypolled s lane) (?given lane) = pending' lane" if "lane < YW k" for lane using p [OF that] by simp
    have hist: "dynamic_history k memory ?given ?s"
    proof -
      have "(\<Sum>lane < YW k. mset (?given lane)) = (\<Sum>lane < YW k. mset (take (ypolled s lane) (given lane))) + (\<Sum>lane < YW k. mset (pending' lane))"
        by (simp add: sum.distrib)
      also have "\<dots> = (\<Sum>lane < YW k. mset (take (ypolled s lane) (given lane)) + mset (?pending lane)) + mset batch"
        using sum Q(4) by (simp add: sum.distrib)
      also have "\<dots> = (\<Sum>lane < YW k. mset (given lane)) + mset batch" by (simp flip: mset_append)
      finally show ?thesis using h p unfolding dynamic_history_def by auto
    qed
    moreover have "dynamic_queue_ok k c ?given ?s"
    proof -
      have "dynamic_holds ?q' (\<lambda>lane. drop (ypolled s lane) (?given lane))"
        using hold dropped Q(4) by (auto simp: dynamic_holds_def lanes_hold_def lanes_total_def)
      then show ?thesis using q unfolding dynamic_queue_ok_def mapped by simp
    qed
    moreover have "dynamic_lanes_ok k c ?given ?s" unfolding dynamic_lanes_ok_def
    proof (intro allI impI)
      fix lane
      assume lane: "lane < YW k"
      obtain xs where xs: "?given lane = given lane @ xs" using grows by blast
      have "ring_holds c (dq_completion_heads ?q ! lane) (tails ! lane) (lane_slots (unat c) slots lane) (pending' lane)"
        using hold lane Q(4,5) by (auto simp: dynamic_holds_def lanes_hold_def)
      then have "tails ! lane = dq_completion_heads ?q ! lane + of_nat (length (pending' lane))" by (rule ring_holdsD(4))
      moreover have "length (?given lane) + 64 < 18446744073709551616"
      proof -
        have "length (?given lane) \<le> Ysub ?s" using given_bound(1) [OF hist lane] .
        then show ?thesis using bound unfolding s' by simp
      qed
      ultimately have tail: "unat (tails ! lane) = length (?given lane)"
        using p [OF lane] by (simp add: unat_add_u64 unat_of_nat_u64)
      have "bit dirty lane \<or> tails ! lane = lc_task_tail (lm_controls (lanes_mapped s) ! lane)" using dirty [of lane] lane W32 L(2) [OF lane] by auto
      then have ctl: "publish_lanes (dq_lane_count ?q) dirty tails (lm_controls (lanes_mapped s)) ! lane = (lm_controls (lanes_mapped s) ! lane)\<lparr>lc_task_tail := tails ! lane\<rparr>"
        using lane W32 Q(4,8) by (intro publish_lanes_nth) simp_all
      have "dynamic_lane_ok k (unat c) (given lane @ xs) (ym_accesses s) (lm_completion_slots (lanes_mapped s)) lane (ypolled s lane) (unat (ym_heads s lane)) (ym_warps s lane)"
        using L(4) [OF lane] by (cases "ym_warps s lane") (auto simp: dynamic_lane_ok_def nth_append)
      then show "unat (dq_submit_tails (ym_queue ?s) ! lane) = length (?given lane) \<and>
          lc_task_tail (lm_controls (lanes_mapped ?s) ! lane) = dq_submit_tails (ym_queue ?s) ! lane \<and>
          lc_completion_tail (lm_controls (lanes_mapped ?s) ! lane) = ym_heads ?s lane \<and>
          dynamic_lane_ok k (unat c) (?given lane) (ym_accesses ?s) (lm_completion_slots (lanes_mapped ?s)) lane
            (ypolled ?s lane) (unat (ym_heads ?s lane)) (ym_warps ?s lane)"
        using tail ctl L(3) [OF lane] unfolding mapped xs by simp
    qed
    ultimately have "dynamic_inv k c memory ?given ?s" by (simp add: dynamic_inv_def)
    then show ?thesis unfolding s' by blast
  qed
qed

text \<open>Polling takes the oldest task of a lane whose completion is published.\<close>

lemma dynamic_polls_inv:
  assumes inv: "dynamic_inv k c memory given s" and bound: "Ysub s + 64 < 18446744073709551616"
  shows "dynamic_inv k c memory given (dynamic_polls s)"
proof -
  have q: "dynamic_queue_ok k c given s" and l: "dynamic_lanes_ok k c given s" and h: "dynamic_history k memory given s"
    using inv unfolding dynamic_inv_def by blast+
  note Q = dynamic_queueD [OF q] and L = dynamic_lanesD [OF l]
  let ?q = "ym_queue s" and ?pending = "\<lambda>lane. drop (ypolled s lane) (given lane)"
  obtain status completion q' where poll: "dynamic_try_poll ?q = (status, completion, q')" by (metis prod_cases3)
  show ?thesis
  proof (cases "status = OK")
    case False
    then have "q' = ?q" using poll Q(1) by (auto simp: dynamic_try_poll_def split: option.split_asm)
    then have "dynamic_polls s = s" using poll False by (simp add: dynamic_polls_def)
    then show ?thesis using inv by simp
  next
    case True
    have kernel: "unat (lc_completion_tail (lm_controls (lanes_mapped s) ! lane) - dq_completion_heads ?q ! lane) \<le> length (?pending lane)"
      if "lane < unat (dq_lane_count ?q)" for lane
    proof -
      have lane: "lane < YW k" using that Q(4) by simp
      have "ypolled s lane \<le> unat (ym_heads s lane)" "unat (ym_heads s lane) \<le> length (given lane)"
        using L(4) [OF lane] by (auto simp: dynamic_lane_ok_def)
      then show ?thesis using L(3) [OF lane] by (simp add: unat_sub word_le_nat_alt)
    qed
    obtain lane where lane: "lane < dq_lane_count ?q" and hold: "dynamic_holds q' (?pending(unat lane := tl (?pending (unat lane))))"
        and lt: "dq_completion_heads ?q ! unat lane < lc_completion_tail (lm_controls (lanes_mapped s) ! unat lane)"
        and comp: "completion = lm_completion_slots (lanes_mapped s) ! dynamic_slot ?q lane (dq_completion_heads ?q ! unat lane)"
        and q': "q' = ?q\<lparr>dq_completion_heads := (dq_completion_heads ?q)[unat lane := dq_completion_heads ?q ! unat lane + 1],
          dq_completed_tasks := dq_completed_tasks ?q + 1, dq_completion_cursor := next_lane (dq_lane_count ?q) lane\<rparr>"
      using dynamic_poll_takes [OF Q(2,1) kernel] poll True by blast
    let ?w = "unat lane" and ?p = "ypolled s (unat lane)"
    have w: "?w < YW k" using lane Q(4) by (simp add: word_less_nat_alt)
    have heads: "length (dq_completion_heads ?q) = 32" "?w < 32" using lanes_holdD(1,7) [OF Q(3)] Q(4) w by simp_all
    have ok: "?p < unat (ym_heads s ?w)" "unat (ym_heads s ?w) \<le> length (given ?w)"
      using lt L(3) [OF w] L(4) [OF w] by (auto simp: word_less_nat_alt dynamic_lane_ok_def)
    have u: "unat (dq_completion_heads ?q ! ?w + 1) = ?p + 1"
      using ok unat_u64_bound [of "ym_heads s ?w"] unat_add_u64 [of "dq_completion_heads ?q ! ?w" 1] by simp
    have c: "completion = completion_of (given ?w ! ?p)"
    proof -
      have "dynamic_slot ?q lane (dq_completion_heads ?q ! ?w) = ?w * unat c + ?p mod unat c"
        using dynamic_slot_value(1) [OF Q(3) lane] Q(5) by simp
      moreover have "?p < unat (ym_heads s ?w) + dy_written (ym_warps s ?w)" using ok(1) by simp
      ultimately show ?thesis using L(4) [OF w] comp unfolding dynamic_lane_ok_def by simp
    qed
    let ?s = "s\<lparr>ym_queue := q', ym_polled := ym_polled s @ [completion]\<rparr>"
    have s': "dynamic_polls s = ?s" using poll True by (simp add: dynamic_polls_def)
    have pol: "ypolled ?s v = (if v = ?w then ?p + 1 else ypolled s v)" for v using heads u by (simp add: q')
    have mapped: "lanes_mapped ?s = lanes_mapped s" by (simp add: lanes_mapped_def q')
    have "dynamic_queue_ok k c given ?s"
    proof -
      have "(\<lambda>v. drop (ypolled ?s v) (given v)) = ?pending(?w := tl (?pending ?w))"
        unfolding pol by (auto simp: fun_eq_iff tl_drop drop_Suc)
      then show ?thesis using q hold unfolding dynamic_queue_ok_def mapped by (simp add: q')
    qed
    moreover have "dynamic_lanes_ok k c given ?s" unfolding dynamic_lanes_ok_def mapped pol
    proof (intro allI impI)
      fix v
      assume v: "v < YW k"
      have "dynamic_lane_ok k (unat c) (given ?w) (ym_accesses s) (lm_completion_slots (lanes_mapped s)) ?w (?p + 1) (unat (ym_heads s ?w)) (ym_warps s ?w)"
        using L(4) [OF w] ok(1) unfolding dynamic_lane_ok_def by simp
      then show "unat (dq_submit_tails (ym_queue ?s) ! v) = length (given v) \<and>
          lc_task_tail (lm_controls (lanes_mapped s) ! v) = dq_submit_tails (ym_queue ?s) ! v \<and>
          lc_completion_tail (lm_controls (lanes_mapped s) ! v) = ym_heads ?s v \<and>
          dynamic_lane_ok k (unat c) (given v) (ym_accesses ?s) (lm_completion_slots (lanes_mapped s)) v
            (if v = ?w then ?p + 1 else ypolled s v) (unat (ym_heads ?s v)) (ym_warps ?s v)"
        using L [OF v] by (simp add: q')
    qed
    moreover have "dynamic_history k memory given ?s"
    proof -
      let ?f = "\<lambda>v. map completion_of (take (ypolled s v) (given v))"
      have "map completion_of (take (ypolled ?s v) (given v)) = (?f(?w := ?f ?w @ [completion])) v" for v
        unfolding pol using ok c by (simp add: take_Suc_conv_app_nth)
      then have "(\<Sum>v < YW k. image_mset completion_of (mset (take (ypolled ?s v) (given v)))) = (\<Sum>v < YW k. mset ((?f(?w := ?f ?w @ [completion])) v))"
        by (simp flip: mset_map)
      also have "\<dots> = (\<Sum>v < YW k. mset (?f v)) + {#completion#}" using mset_lanes_update [OF w, of ?f "[completion]"] by simp
      finally show ?thesis using h unfolding dynamic_history_def by simp
    qed
    ultimately show ?thesis unfolding s' by (simp add: dynamic_inv_def)
  qed
qed

lemma dynamic_stops_inv:
  assumes inv: "dynamic_inv k c memory given s"
  shows "dynamic_inv k c memory given (dynamic_stops s)"
proof (cases "dq_running (ym_queue s) \<and> dq_accepting (ym_queue s)")
  case True
  have q: "dynamic_queue_ok k c given s" and l: "dynamic_lanes_ok k c given s" and h: "dynamic_history k memory given s"
    using inv unfolding dynamic_inv_def by blast+
  note Q = dynamic_queueD [OF q]
  have s': "dynamic_stops s = s\<lparr>ym_queue := (ym_queue s)\<lparr>dq_accepting := False, dq_memory := Some (stop_lanes (ka_copy_warps k) (lanes_mapped s))\<rparr>\<rparr>" (is "_ = ?s")
    using True Q(1,4) by (simp add: dynamic_stops_def dynamic_request_stop_def)
  have mapped: "lanes_mapped ?s = stop_lanes (ka_copy_warps k) (lanes_mapped s)" by (simp add: lanes_mapped_def)
  have ctl: "lm_controls (stop_lanes (ka_copy_warps k) (lanes_mapped s)) = map (lc_stop_requested_update (\<lambda>_. 1)) (lm_controls (lanes_mapped s))"
    using Q(8) by (simp add: stop_lanes_def)
  have "dynamic_holds ((ym_queue s)\<lparr>dq_accepting := False, dq_memory := Some (stop_lanes (ka_copy_warps k) (lanes_mapped s))\<rparr>) pending"
    if "dynamic_holds (ym_queue s) pending" for pending
    using that Q(1) by (simp add: dynamic_holds_def lanes_hold_def lanes_total_def stop_lanes_def)
  then have "dynamic_queue_ok k c given ?s" using q unfolding dynamic_queue_ok_def mapped ctl by (simp add: stop_lanes_def)
  moreover have "dynamic_lanes_ok k c given ?s" using l Q(8) unfolding dynamic_lanes_ok_def mapped ctl by (simp add: stop_lanes_def)
  moreover have "dynamic_history k memory given ?s" using h by (simp add: dynamic_history_def)
  ultimately show ?thesis unfolding s' by (simp add: dynamic_inv_def)
next
  case False
  then have "dynamic_stops s = s" by (auto simp: dynamic_stops_def dynamic_request_stop_def)
  then show ?thesis using inv by simp
qed

section \<open>Runs\<close>

lemma dynamic_launch_inv:
  assumes "dynamic_allocate capacity copy_warps device_batch base allocation_status mapping_status fresh new_dynamic_queue = (OK, q0)"
    and "dynamic_start resources last_error q0 = (OK, q)"
  shows "dynamic_inv (dynamic_args q) (dq_lane_capacity q) memory (\<lambda>_. []) (launch_dynamic q memory)"
proof -
  let ?k = "dynamic_args q" and ?s = "launch_dynamic q memory"
  have a: "is_supported_device_batch device_batch" "is_supported_copy_warps copy_warps"
    and q0: "q0 = new_dynamic_queue\<lparr>dq_memory := Some fresh, dq_capacity := capacity, dq_lane_capacity := capacity div ucast copy_warps,
          dq_lane_capacity_mask := capacity div ucast copy_warps - 1, dq_lane_count := copy_warps,
          dq_device_batch := device_batch, dq_stage_buffer_base := base\<rparr>"
    using assms(1) by (auto simp: dynamic_allocate_def dynamic_sharded_spsc_allocation_size_def new_dynamic_queue_def Let_def split: if_split_asm option.split_asm)
  have q: "q = q0\<lparr>dq_memory := Some (zero_lanes_memory copy_warps capacity), dq_submit_tails := replicate 32 0,
      dq_completion_heads := replicate 32 0, dq_submit_cursor := 0, dq_completion_cursor := 0,
      dq_accepted_tasks := 0, dq_completed_tasks := 0, dq_accepting := True, dq_running := True\<rparr>"
    using assms(2) by (auto simp: dynamic_start_def q0 Let_def split: if_split_asm)
  have W: "YW ?k \<le> 32" using a(2) by (auto simp: dynamic_args_def q q0 is_supported_copy_warps_def)
  have m: "lanes_mapped ?s = zero_lanes_memory copy_warps capacity" by (simp add: lanes_mapped_def launch_dynamic_def q)
  have "dynamic_queue_ok ?k (dq_lane_capacity q) (\<lambda>_. []) ?s"
    using dynamic_start_holds(1) [OF assms] a(1) unfolding dynamic_queue_ok_def m
    by (simp add: launch_dynamic_def) (simp add: dynamic_args_def q q0 zero_lanes_memory_def)
  moreover have "dynamic_lanes_ok ?k (dq_lane_capacity q) (\<lambda>_. []) ?s"
    using W unfolding dynamic_lanes_ok_def m
    by (simp add: launch_dynamic_def dynamic_lane_ok_def q zero_lanes_memory_def) (simp add: dynamic_args_def q q0)
  moreover have "dynamic_history ?k memory (\<lambda>_. []) ?s" by (simp add: dynamic_history_def launch_dynamic_def)
  ultimately show ?thesis by (simp add: dynamic_inv_def)
qed

lemma dynamic_step_submitted:
  assumes "dynamic_step k c actor s = Some s'"
  shows "\<exists>xs. ym_submitted s' = ym_submitted s @ xs"
proof -
  have "ym_submitted s' = ym_submitted s" if "dynamic_warp k c w s = Some s'" for w
    using that by (auto simp: dynamic_warp_def Let_def split: if_split_asm dynamic_pc.split_asm option.split_asm)
  moreover have "ym_submitted s' = ym_submitted s" if "dynamic_lane k w l s = Some s'" for w l
    using that by (auto simp: dynamic_lane_def split: if_split_asm dynamic_pc.split_asm list.split_asm)
  moreover have "ym_submitted (dynamic_polls s) = ym_submitted s" "ym_submitted (dynamic_stops s) = ym_submitted s"
    by (simp_all add: dynamic_polls_def dynamic_stops_def split: prod.split)
  moreover have "\<exists>xs. ym_submitted (dynamic_submits tasks s) = ym_submitted s @ xs" for tasks
    by (simp add: dynamic_submits_def split: prod.split)
  ultimately show ?thesis using assms by (cases actor) (auto simp: dynamic_step_def)
qed

lemma dynamic_run_submitted: "run_dynamic k c actors s = Some s' \<Longrightarrow> \<exists>xs. ym_submitted s' = ym_submitted s @ xs"
proof (induction actors arbitrary: s)
  case (Cons actor actors)
  then obtain s1 where "dynamic_step k c actor s = Some s1" "run_dynamic k c actors s1 = Some s'" by (auto split: option.split_asm)
  then show ?case using Cons.IH [of s1] dynamic_step_submitted [of k c actor s s1] by (metis append_assoc)
qed simp

lemma dynamic_step_inv:
  assumes inv: "dynamic_inv k c memory given s" and step: "dynamic_step k c actor s = Some s'" and bound: "Ysub s' + 64 < 18446744073709551616"
  shows "\<exists>given'. dynamic_inv k c memory given' s'"
proof -
  obtain xs where "ym_submitted s' = ym_submitted s @ xs" using dynamic_step_submitted [OF step] by blast
  then have b: "Ysub s + 64 < 18446744073709551616" using bound by simp
  show ?thesis
  proof (cases actor)
    case (Host_submit tasks)
    then have "s' = dynamic_submits tasks s" using step by (simp add: dynamic_step_def)
    then show ?thesis using bound dynamic_submits_inv [OF inv] by metis
  qed (use step dynamic_warp_inv [OF inv _ b] dynamic_lane_inv [OF inv] dynamic_polls_inv [OF inv b] dynamic_stops_inv [OF inv]
      in \<open>auto simp: dynamic_step_def intro!: exI [of _ given]\<close>)
qed

lemma dynamic_run_inv:
  assumes "dynamic_inv k c memory given s" "run_dynamic k c actors s = Some s'" "Ysub s' + 64 < 18446744073709551616"
  shows "\<exists>given'. dynamic_inv k c memory given' s'"
  using assms
proof (induction actors arbitrary: s given)
  case (Cons actor actors)
  then obtain s1 where s1: "dynamic_step k c actor s = Some s1" "run_dynamic k c actors s1 = Some s'" by (auto split: option.split_asm)
  obtain xs where "ym_submitted s' = ym_submitted s1 @ xs" using dynamic_run_submitted [OF s1(2)] by blast
  then obtain given1 where "dynamic_inv k c memory given1 s1" using dynamic_step_inv [OF Cons.prems(1) s1(1)] Cons.prems(3) by auto
  then show ?case using Cons.IH [OF _ s1(2) Cons.prems(3)] by blast
qed auto

lemma mset_concat_lanes: "mset (concat (map f [0..<n])) = (\<Sum>lane < n. mset (f lane))"
  by (induction n) simp_all

lemma image_lanes: "image_mset g (\<Sum>lane < (n :: nat). f lane) = (\<Sum>lane < n. image_mset g (f lane))"
  by (induction n) simp_all

text \<open>
  C13. In every run of the sharded kernel and the host at its queue, under any interleaving of its warps and lanes, the completions the host
  polls are those of some of the tasks it submitted, each task at most as often as it was submitted and all successful; by then every access of those tasks has been
  performed, and no access is performed that does not belong to a submitted task. The bound keeps the counters from wrapping.
\<close>

theorem dynamic_completes_once:
  assumes "dynamic_allocate capacity copy_warps device_batch base allocation_status mapping_status fresh new_dynamic_queue = (OK, q0)"
    and "dynamic_start resources last_error q0 = (OK, q)"
    and "run_dynamic (dynamic_args q) (dq_lane_capacity q) actors (launch_dynamic q memory) = Some s" and "length (ym_submitted s) < 2 ^ 64 - 64"
  shows "\<exists>finished. mset (ym_polled s) = mset (map completion_of finished) \<and> mset finished \<subseteq># mset (ym_submitted s) \<and>
    (\<forall>task \<in> set finished. accesses (dynamic_args q) task \<subseteq> set (ym_accesses s)) \<and>
    ym_memory s = fold copy_cg (ym_accesses s) memory \<and>
    set (ym_accesses s) \<subseteq> (\<Union>task \<in> set (ym_submitted s). accesses (dynamic_args q) task)"
proof -
  let ?k = "dynamic_args q"
  obtain given where inv: "dynamic_inv ?k (dq_lane_capacity q) memory given s"
    using dynamic_run_inv [OF dynamic_launch_inv [OF assms(1,2)] assms(3)] assms(4) by auto
  then have l: "dynamic_lanes_ok ?k (dq_lane_capacity q) given s" and h: "dynamic_history ?k memory given s" unfolding dynamic_inv_def by blast+
  let ?f = "\<lambda>lane. take (ypolled s lane) (given lane)"
  let ?finished = "concat (map ?f [0..<YW ?k])"
  have m: "mset ?finished = (\<Sum>lane < YW ?k. mset (?f lane))" by (rule mset_concat_lanes)
  have "mset (?f lane) + mset (drop (ypolled s lane) (given lane)) = mset (given lane)" for lane by (metis append_take_drop_id mset_append)
  then have "(\<Sum>lane < YW ?k. mset (given lane)) = (\<Sum>lane < YW ?k. mset (?f lane)) + (\<Sum>lane < YW ?k. mset (drop (ypolled s lane) (given lane)))"
    unfolding sum.distrib [symmetric] by presburger
  then have "mset ?finished \<subseteq># mset (ym_submitted s)" using h m unfolding dynamic_history_def by simp
  moreover have "mset (ym_polled s) = mset (map completion_of ?finished)"
    using h unfolding dynamic_history_def mset_map m image_lanes by blast
  moreover have "accesses ?k task \<subseteq> set (ym_accesses s)" if task: "task \<in> set ?finished" for task
  proof -
    obtain lane where lane: "lane < YW ?k" "task \<in> set (?f lane)" using task by auto
    then obtain i where i: "i < ypolled s lane" "task = given lane ! i" by (auto simp: in_set_conv_nth)
    have ok: "ypolled s lane \<le> unat (ym_heads s lane)"
        "\<And>i. i < unat (ym_heads s lane) + dy_written (ym_warps s lane) \<Longrightarrow> accesses ?k (given lane ! i) \<subseteq> set (ym_accesses s)"
      using dynamic_lanesD(4) [OF l lane(1)] unfolding dynamic_lane_ok_def by blast+
    then show ?thesis using ok(2) [of i] i by simp
  qed
  moreover have "ym_memory s = fold copy_cg (ym_accesses s) memory" "set (ym_accesses s) \<subseteq> (\<Union>task \<in> set (ym_submitted s). accesses ?k task)"
    using h unfolding dynamic_history_def by blast+
  ultimately show ?thesis by (intro exI [of _ ?finished] conjI ballI)
qed

section \<open>A run\<close>

text \<open>Four lanes of two slots: two tasks on lanes 0 and 1, of which the second is done and polled first.\<close>

abbreviation (input) lane_task :: "nat \<Rightarrow> kernel_actor list" where
  "lane_task w \<equiv> [Warp w, Warp w, Lane w 0, Warp w, Warp w, Warp w, Warp w]"

definition dynamic_demo_actors :: "kernel_actor list" where
  "dynamic_demo_actors = [Host_submit [direct_demo_task 1, direct_demo_task 2]] @ lane_task 1 @ [Host_poll] @ lane_task 0 @ [Host_poll, Host_poll]"

definition dynamic_demo_allocated :: dynamic_queue where
  "dynamic_demo_allocated = snd (dynamic_allocate 8 4 1 4096 CudaSuccess CudaSuccess (zero_lanes_memory 4 8) new_dynamic_queue)"

definition dynamic_demo :: dynamic_queue where
  "dynamic_demo = snd (dynamic_start True CudaSuccess dynamic_demo_allocated)"

definition dynamic_demo_final :: dynamic_machine where
  "dynamic_demo_final = the (run_dynamic (dynamic_args dynamic_demo) (dq_lane_capacity dynamic_demo) dynamic_demo_actors
     (launch_dynamic dynamic_demo (\<lambda>a. of_nat a)))"

lemma dynamic_demo_starts:
  "dynamic_allocate 8 4 1 4096 CudaSuccess CudaSuccess (zero_lanes_memory 4 8) new_dynamic_queue = (OK, dynamic_demo_allocated)"
  "dynamic_start True CudaSuccess dynamic_demo_allocated = (OK, dynamic_demo)"
proof -
  have "fst (dynamic_allocate 8 4 1 4096 CudaSuccess CudaSuccess (zero_lanes_memory 4 8) new_dynamic_queue) = 0" by code_simp
  then show "dynamic_allocate 8 4 1 4096 CudaSuccess CudaSuccess (zero_lanes_memory 4 8) new_dynamic_queue = (OK, dynamic_demo_allocated)"
    unfolding dynamic_demo_allocated_def by (metis prod.collapse)
  have "fst (dynamic_start True CudaSuccess dynamic_demo_allocated) = 0" by code_simp
  then show "dynamic_start True CudaSuccess dynamic_demo_allocated = (OK, dynamic_demo)" unfolding dynamic_demo_def by (metis prod.collapse)
qed

lemma dynamic_demo_runs:
  "run_dynamic (dynamic_args dynamic_demo) (dq_lane_capacity dynamic_demo) dynamic_demo_actors (launch_dynamic dynamic_demo (\<lambda>a. of_nat a)) = Some dynamic_demo_final"
  "ym_submitted dynamic_demo_final = [direct_demo_task 1, direct_demo_task 2]" "map cp_task_id (ym_polled dynamic_demo_final) = [2, 1]"
proof -
  have "map_option (\<lambda>s. (ym_submitted s, map cp_task_id (ym_polled s)))
      (run_dynamic (dynamic_args dynamic_demo) (dq_lane_capacity dynamic_demo) dynamic_demo_actors (launch_dynamic dynamic_demo (\<lambda>a. of_nat a))) =
    Some ([direct_demo_task 1, direct_demo_task 2], [2, 1])" by code_simp
  then show "run_dynamic (dynamic_args dynamic_demo) (dq_lane_capacity dynamic_demo) dynamic_demo_actors (launch_dynamic dynamic_demo (\<lambda>a. of_nat a)) = Some dynamic_demo_final"
      "ym_submitted dynamic_demo_final = [direct_demo_task 1, direct_demo_task 2]" "map cp_task_id (ym_polled dynamic_demo_final) = [2, 1]"
    unfolding dynamic_demo_final_def by auto
qed

theorem dynamic_completes_once_witness:
  "map cp_task_id (ym_polled dynamic_demo_final) = [2, 1] \<and>
    (\<exists>finished. mset (ym_polled dynamic_demo_final) = mset (map completion_of finished) \<and>
       mset finished \<subseteq># mset [direct_demo_task 1, direct_demo_task 2])"
proof -
  have "length (ym_submitted dynamic_demo_final) < 2 ^ 64 - 64" unfolding dynamic_demo_runs by simp
  then show ?thesis
    using dynamic_completes_once [OF dynamic_demo_starts dynamic_demo_runs(1)] dynamic_demo_runs(3) unfolding dynamic_demo_runs(2) by blast
qed

end
