(* ===== verification/Warp_Kernel.thy ===== *)
theory Warp_Kernel
  imports Copy_Pipeline
begin

unbundle bit_operations_syntax

text \<open>
  \<^verbatim>\<open>warp_specialized_kernel\<close> of \<^verbatim>\<open>gpu/persistent_copy.cu\<close>, the predecessor of the pipeline kernel, with the host at its queue: the ingress warp
  hands tasks in waves to a queue in shared memory, copy warps claim them by a compare and swap, the egress warp collects the completions. Slots of the
  shared queues carry sequence numbers. Steps interleave as in \<^verbatim>\<open>Copy_Pipeline\<close>, whose actors are used. A copy warp decides to stop on a count of
  published tasks that it loaded before it looks whether the ingress warp has ended: a run is given in which a task that
  was accepted is never copied and the kernel never ends.
\<close>

section \<open>Shared memory\<close>

record 'a sequenced_slot =
  sq_content :: 'a
  sq_sequence :: u64

definition kCopyClaimBatch :: u32 where
  "kCopyClaimBatch = 2"

text \<open>The lanes of the ingress warp hold their task from the load on, those of the egress warp their completion.\<close>

datatype put_pc = Put_read | Put_wait copy_task | Put_store copy_task | Put_sequence | Put_done

datatype take_pc = Take_wait | Take_read | Take_held copy_completion | Take_released copy_completion | Take_stored

datatype warp_ingress_pc =
    Wi_poll | Wi_check_stop | Wi_recheck | Wi_finish | Wi_wave nat "put_pc list" | Wi_publish nat "put_pc list" | Wi_exited

record warp_claim =
  wc_task_base :: u64
  wc_task_count :: u32

datatype warp_copier_pc =
    Wc_load_claim | Wc_load_publish u64 | Wc_claim u64 u32 | Wc_check_done u64 u64 | Wc_await warp_claim u32 | Wc_take warp_claim u32
  | Wc_copying warp_claim u32 copy_task "cg_access list list" | Wc_free warp_claim u32 copy_task
  | Wc_await_completion warp_claim u32 copy_task | Wc_store warp_claim u32 copy_task | Wc_publish warp_claim u32 | Wc_exited

datatype warp_egress_pc =
    We_poll | We_check_stop | We_recheck | We_collect nat "take_pc list" | We_release nat "take_pc list" | We_store "take_pc list"
  | We_exited

text \<open>The last three fields record history.\<close>

record warp_machine =
  wm_queue :: warp_queue
  wm_memory :: memory
  wm_task_publish :: u64
  wm_task_claim :: u64
  wm_ingress_done :: u64
  wm_task_slots :: "nat \<Rightarrow> copy_task sequenced_slot"
  wm_completion_slots :: "nat \<Rightarrow> copy_completion sequenced_slot"
  wm_ingress :: warp_ingress_pc
  wm_task_head :: u64
  wm_copiers :: "nat \<Rightarrow> warp_copier_pc"
  wm_egress :: warp_egress_pc
  wm_completion_head :: u64
  wm_submitted :: "copy_task list"
  wm_polled :: "copy_completion list"
  wm_accesses :: "cg_access list"

definition warp_mapped :: "warp_machine \<Rightarrow> queue_memory" where
  "warp_mapped s = the (wq_memory (wm_queue s))"

definition update_warp :: "(queue_memory \<Rightarrow> queue_memory) \<Rightarrow> warp_machine \<Rightarrow> warp_machine" where
  "update_warp f s = s\<lparr>wm_queue := (wm_queue s)\<lparr>wq_memory := Some (f (warp_mapped s))\<rparr>\<rparr>"

text \<open>After the barrier of the launch every slot carries its own number.\<close>

definition launch_warp :: "warp_queue \<Rightarrow> memory \<Rightarrow> warp_machine" where
  "launch_warp q memory =
     \<lparr>wm_queue = q, wm_memory = memory, wm_task_publish = 0, wm_task_claim = 0, wm_ingress_done = 0,
      wm_task_slots = (\<lambda>index. \<lparr>sq_content = zero_task, sq_sequence = of_nat index\<rparr>),
      wm_completion_slots = (\<lambda>index. \<lparr>sq_content = zero_completion, sq_sequence = of_nat index\<rparr>),
      wm_ingress = Wi_poll, wm_task_head = 0, wm_copiers = (\<lambda>_. Wc_load_claim), wm_egress = We_poll, wm_completion_head = 0,
      wm_submitted = [], wm_polled = [], wm_accesses = []\<rparr>"

definition shared_slot_of :: "kernel_args \<Rightarrow> u64 \<Rightarrow> nat" where
  "shared_slot_of k index = unat (index AND (ucast (ka_depth k) - 1))"

definition wave_end :: "kernel_args \<Rightarrow> nat \<Rightarrow> nat \<Rightarrow> nat" where
  "wave_end k wave_base count = (if wave_base + unat (ka_depth k) < count then wave_base + unat (ka_depth k) else count)"

definition in_wave :: "kernel_args \<Rightarrow> nat \<Rightarrow> nat \<Rightarrow> nat \<Rightarrow> bool" where
  "in_wave k wave_base count lane \<longleftrightarrow> lane \<ge> wave_base \<and> lane < wave_end k wave_base count"

definition all_in_wave :: "kernel_args \<Rightarrow> nat \<Rightarrow> ('a \<Rightarrow> bool) \<Rightarrow> 'a list \<Rightarrow> bool" where
  "all_in_wave k wave_base P lanes \<longleftrightarrow>
     list_all (\<lambda>lane. in_wave k wave_base (length lanes) lane \<longrightarrow> P (lanes ! lane)) [0..<length lanes]"

text \<open>Where the loop over the waves goes on after the wave that starts at \<open>wave_base\<close>, if it does.\<close>

definition next_wave :: "kernel_args \<Rightarrow> nat \<Rightarrow> nat \<Rightarrow> nat option" where
  "next_wave k wave_base count =
     (let next_base = wave_base + unat (ka_depth k)
      in if \<not> next_base < unat kWarpSpecializedMetaBatch \<or> next_base \<ge> count then None else Some next_base)"

section \<open>The ingress warp\<close>

definition warp_ingress :: "kernel_args \<Rightarrow> warp_machine \<Rightarrow> warp_machine option" where
  "warp_ingress k s =
     (case wm_ingress s of
        Wi_poll \<Rightarrow>
          (let task_tail = qm_task_tail (warp_mapped s)
           in Some (s\<lparr>wm_ingress := (if wm_task_head s < task_tail
                then Wi_wave 0 (replicate (meta_batch (task_tail - wm_task_head s)) Put_read) else Wi_check_stop)\<rparr>))
      | Wi_check_stop \<Rightarrow> Some (s\<lparr>wm_ingress := (if qm_stop_requested (warp_mapped s) \<noteq> 0 then Wi_recheck else Wi_poll)\<rparr>)
      | Wi_recheck \<Rightarrow> Some (s\<lparr>wm_ingress := (if wm_task_head s \<ge> qm_task_tail (warp_mapped s) then Wi_finish else Wi_poll)\<rparr>)
      | Wi_finish \<Rightarrow> Some (s\<lparr>wm_ingress_done := 1, wm_ingress := Wi_exited\<rparr>)
      | Wi_wave wave_base lanes \<Rightarrow>
          (if Put_read \<notin> set lanes \<and> all_in_wave k wave_base (\<lambda>pc. pc = Put_done) lanes
           then Some (s\<lparr>wm_ingress := Wi_publish wave_base lanes\<rparr>) else None)
      | Wi_publish wave_base lanes \<Rightarrow>
          (let s = s\<lparr>wm_task_publish := wm_task_head s + of_nat (wave_end k wave_base (length lanes))\<rparr>
           in case next_wave k wave_base (length lanes) of
                Some next_base \<Rightarrow> Some (s\<lparr>wm_ingress := Wi_wave next_base lanes\<rparr>)
              | None \<Rightarrow> Some (s\<lparr>wm_ingress := Wi_poll, wm_task_head := wm_task_head s + of_nat (length lanes)\<rparr>))
      | Wi_exited \<Rightarrow> None)"

text \<open>A lane loads its task at once; it waits for its slot when its wave has come.\<close>

definition warp_ingress_lane :: "kernel_args \<Rightarrow> nat \<Rightarrow> warp_machine \<Rightarrow> warp_machine option" where
  "warp_ingress_lane k lane s =
     (case wm_ingress s of
        Wi_wave wave_base lanes \<Rightarrow>
          (if \<not> lane < length lanes then None
           else let task_index = wm_task_head s + of_nat lane;
                    slot = shared_slot_of k task_index;
                    go = (\<lambda>pc s. Some (s\<lparr>wm_ingress := Wi_wave wave_base (lanes[lane := pc])\<rparr>))
                in case lanes ! lane of
                     Put_read \<Rightarrow> go (Put_wait (qm_task_slots (warp_mapped s) ! unat (task_index AND ka_capacity_mask k))) s
                   | Put_wait task \<Rightarrow>
                       (if in_wave k wave_base (length lanes) lane \<and> sq_sequence (wm_task_slots s slot) = task_index
                        then go (Put_store task) s else None)
                   | Put_store task \<Rightarrow>
                       go Put_sequence (s\<lparr>wm_task_slots := (wm_task_slots s)(slot := (wm_task_slots s slot)\<lparr>sq_content := task\<rparr>)\<rparr>)
                   | Put_sequence \<Rightarrow>
                       go Put_done (s\<lparr>wm_task_slots := (wm_task_slots s)(slot := (wm_task_slots s slot)\<lparr>sq_sequence := task_index + 1\<rparr>)\<rparr>)
                   | Put_done \<Rightarrow> None)
      | _ \<Rightarrow> None)"

section \<open>A copy warp\<close>

definition warp_copier :: "kernel_args \<Rightarrow> nat \<Rightarrow> warp_machine \<Rightarrow> warp_machine option" where
  "warp_copier k owner s =
     (if \<not> owner < unat (ka_copy_warps k) then None
      else let go = (\<lambda>pc s. Some (s\<lparr>wm_copiers := (wm_copiers s)(owner := pc)\<rparr>));
               task_index = (\<lambda>claim batch_index. wc_task_base claim + ucast batch_index);
               slot = (\<lambda>claim batch_index. shared_slot_of k (task_index claim batch_index));
               continue = (\<lambda>claim batch_index. if batch_index < wc_task_count claim then Wc_await claim batch_index else Wc_load_claim)
           in case wm_copiers s owner of
                Wc_load_claim \<Rightarrow> go (Wc_load_publish (wm_task_claim s)) s
              | Wc_load_publish task_claim \<Rightarrow>
                  (let task_publish = wm_task_publish s; available = task_publish - task_claim
                   in if task_claim < task_publish
                      then go (Wc_claim task_claim (ucast (if available < ucast kCopyClaimBatch then available else ucast kCopyClaimBatch))) s
                      else go (Wc_check_done task_claim task_publish) s)
              | Wc_claim task_claim task_count \<Rightarrow>
                  (if wm_task_claim s = task_claim
                   then go (continue \<lparr>wc_task_base = task_claim, wc_task_count = task_count\<rparr> 0) (s\<lparr>wm_task_claim := task_claim + ucast task_count\<rparr>)
                   else go Wc_load_claim s)
              | Wc_check_done task_claim task_publish \<Rightarrow>
                  go (if wm_ingress_done s \<noteq> 0 \<and> task_claim \<ge> task_publish then Wc_exited else Wc_load_claim) s
              | Wc_await claim batch_index \<Rightarrow>
                  (if sq_sequence (wm_task_slots s (slot claim batch_index)) = task_index claim batch_index + 1
                   then go (Wc_take claim batch_index) s else None)
              | Wc_take claim batch_index \<Rightarrow>
                  (let task = sq_content (wm_task_slots s (slot claim batch_index))
                   in case task_accesses k task of None \<Rightarrow> None | Some lanes \<Rightarrow> go (Wc_copying claim batch_index task lanes) s)
              | Wc_copying claim batch_index task lanes \<Rightarrow>
                  (if list_all (\<lambda>as. as = []) lanes then go (Wc_free claim batch_index task) s else None)
              | Wc_free claim batch_index task \<Rightarrow>
                  go (Wc_await_completion claim batch_index task)
                    (s\<lparr>wm_task_slots := (wm_task_slots s)(slot claim batch_index :=
                         (wm_task_slots s (slot claim batch_index))\<lparr>sq_sequence := task_index claim batch_index + ucast (ka_depth k)\<rparr>)\<rparr>)
              | Wc_await_completion claim batch_index task \<Rightarrow>
                  (if sq_sequence (wm_completion_slots s (slot claim batch_index)) = task_index claim batch_index
                   then go (Wc_store claim batch_index task) s else None)
              | Wc_store claim batch_index task \<Rightarrow>
                  go (Wc_publish claim batch_index)
                    (s\<lparr>wm_completion_slots := (wm_completion_slots s)(slot claim batch_index :=
                         (wm_completion_slots s (slot claim batch_index))\<lparr>sq_content := \<lparr>cp_task_id = ct_task_id task, cp_result = Task_success\<rparr>\<rparr>)\<rparr>)
              | Wc_publish claim batch_index \<Rightarrow>
                  go (continue claim (batch_index + 1))
                    (s\<lparr>wm_completion_slots := (wm_completion_slots s)(slot claim batch_index :=
                         (wm_completion_slots s (slot claim batch_index))\<lparr>sq_sequence := task_index claim batch_index + 1\<rparr>)\<rparr>)
              | Wc_exited \<Rightarrow> None)"

text \<open>A lane performs its next access.\<close>

definition warp_copier_lane :: "kernel_args \<Rightarrow> nat \<Rightarrow> nat \<Rightarrow> warp_machine \<Rightarrow> warp_machine option" where
  "warp_copier_lane k owner lane s =
     (if \<not> owner < unat (ka_copy_warps k) then None
      else case wm_copiers s owner of
             Wc_copying claim batch_index task lanes \<Rightarrow>
               (if lane < length lanes
                then case lanes ! lane of
                       [] \<Rightarrow> None
                     | a # as \<Rightarrow> Some (s\<lparr>wm_memory := copy_cg a (wm_memory s), wm_accesses := wm_accesses s @ [a],
                                        wm_copiers := (wm_copiers s)(owner := Wc_copying claim batch_index task (lanes[lane := as]))\<rparr>)
                else None)
           | _ \<Rightarrow> None)"

section \<open>The egress warp\<close>

definition is_held :: "take_pc \<Rightarrow> bool" where
  "is_held pc = (case pc of Take_held _ \<Rightarrow> True | _ \<Rightarrow> False)"

definition is_released :: "take_pc \<Rightarrow> bool" where
  "is_released pc = (case pc of Take_released _ \<Rightarrow> True | _ \<Rightarrow> False)"

definition warp_egress :: "kernel_args \<Rightarrow> warp_machine \<Rightarrow> warp_machine option" where
  "warp_egress k s =
     (case wm_egress s of
        We_poll \<Rightarrow>
          (let task_tail = qm_task_tail (warp_mapped s)
           in Some (s\<lparr>wm_egress := (if wm_completion_head s < task_tail
                then We_collect 0 (replicate (meta_batch (task_tail - wm_completion_head s)) Take_wait) else We_check_stop)\<rparr>))
      | We_check_stop \<Rightarrow> Some (s\<lparr>wm_egress := (if qm_stop_requested (warp_mapped s) \<noteq> 0 then We_recheck else We_poll)\<rparr>)
      | We_recheck \<Rightarrow> Some (s\<lparr>wm_egress := (if wm_completion_head s \<ge> qm_task_tail (warp_mapped s) then We_exited else We_poll)\<rparr>)
      | We_collect wave_base lanes \<Rightarrow>
          (if all_in_wave k wave_base is_held lanes then Some (s\<lparr>wm_egress := We_release wave_base lanes\<rparr>) else None)
      | We_release wave_base lanes \<Rightarrow>
          (if all_in_wave k wave_base is_released lanes
           then Some (s\<lparr>wm_egress := (case next_wave k wave_base (length lanes) of
                  Some next_base \<Rightarrow> We_collect next_base lanes | None \<Rightarrow> We_store lanes)\<rparr>)
           else None)
      | We_store lanes \<Rightarrow>
          (if list_all (\<lambda>pc. pc = Take_stored) lanes
           then let completion_tail = wm_completion_head s + of_nat (length lanes)
                in Some (update_warp (qm_completion_tail_update (\<lambda>_. completion_tail))
                     (s\<lparr>wm_completion_head := completion_tail, wm_egress := We_poll\<rparr>))
           else None)
      | We_exited \<Rightarrow> None)"

definition warp_egress_lane :: "kernel_args \<Rightarrow> nat \<Rightarrow> warp_machine \<Rightarrow> warp_machine option" where
  "warp_egress_lane k lane s =
     (let completion_index = wm_completion_head s + of_nat lane;
          slot = shared_slot_of k completion_index;
          host_slot = unat (completion_index AND ka_capacity_mask k)
      in case wm_egress s of
           We_collect wave_base lanes \<Rightarrow>
             (if \<not> in_wave k wave_base (length lanes) lane then None
              else case lanes ! lane of
                     Take_wait \<Rightarrow>
                       (if sq_sequence (wm_completion_slots s slot) = completion_index + 1
                        then Some (s\<lparr>wm_egress := We_collect wave_base (lanes[lane := Take_read])\<rparr>) else None)
                   | Take_read \<Rightarrow>
                       Some (s\<lparr>wm_egress := We_collect wave_base (lanes[lane := Take_held (sq_content (wm_completion_slots s slot))])\<rparr>)
                   | _ \<Rightarrow> None)
         | We_release wave_base lanes \<Rightarrow>
             (if \<not> in_wave k wave_base (length lanes) lane then None
              else case lanes ! lane of
                     Take_held completion \<Rightarrow>
                       Some (s\<lparr>wm_egress := We_release wave_base (lanes[lane := Take_released completion]),
                               wm_completion_slots := (wm_completion_slots s)(slot :=
                                 (wm_completion_slots s slot)\<lparr>sq_sequence := completion_index + ucast (ka_depth k)\<rparr>)\<rparr>)
                   | _ \<Rightarrow> None)
         | We_store lanes \<Rightarrow>
             (if \<not> lane < length lanes then None
              else case lanes ! lane of
                     Take_released completion \<Rightarrow>
                       Some (update_warp (\<lambda>m. m\<lparr>qm_completion_slots := (qm_completion_slots m)[host_slot :=
                           (qm_completion_slots m ! host_slot)\<lparr>cs_completion := completion\<rparr>]\<rparr>)
                         (s\<lparr>wm_egress := We_store (lanes[lane := Take_stored])\<rparr>))
                   | _ \<Rightarrow> None)
         | _ \<Rightarrow> None)"

section \<open>Runs\<close>

definition warp_submits :: "copy_task list \<Rightarrow> warp_machine \<Rightarrow> warp_machine" where
  "warp_submits tasks s =
     (case warp_try_submit_batch tasks (wm_queue s) of (_, n, q) \<Rightarrow> s\<lparr>wm_queue := q, wm_submitted := wm_submitted s @ take n tasks\<rparr>)"

definition warp_polls :: "warp_machine \<Rightarrow> warp_machine" where
  "warp_polls s =
     (case warp_try_poll (wm_queue s) of (status, completion, q) \<Rightarrow>
        s\<lparr>wm_queue := q, wm_polled := (if status = 0 then wm_polled s @ [completion] else wm_polled s)\<rparr>)"

definition warp_stops :: "warp_machine \<Rightarrow> warp_machine" where
  "warp_stops s = s\<lparr>wm_queue := snd (warp_request_stop (wm_queue s))\<rparr>"

definition warp_step :: "kernel_args \<Rightarrow> actor \<Rightarrow> warp_machine \<Rightarrow> warp_machine option" where
  "warp_step k actor s =
     (case actor of
        Ingress \<Rightarrow> warp_ingress k s
      | Ingress_lane lane \<Rightarrow> warp_ingress_lane k lane s
      | Copier owner \<Rightarrow> warp_copier k owner s
      | Copier_lane owner lane \<Rightarrow> warp_copier_lane k owner lane s
      | Egress \<Rightarrow> warp_egress k s
      | Egress_lane lane \<Rightarrow> warp_egress_lane k lane s
      | Submit tasks \<Rightarrow> Some (warp_submits tasks s)
      | Poll \<Rightarrow> Some (warp_polls s)
      | Stop \<Rightarrow> Some (warp_stops s))"

fun run_warp :: "kernel_args \<Rightarrow> actor list \<Rightarrow> warp_machine \<Rightarrow> warp_machine option" where
  "run_warp k [] s = Some s"
| "run_warp k (actor # actors) s =
     (case warp_step k actor s of None \<Rightarrow> None | Some s' \<Rightarrow> run_warp k actors s')"

text \<open>The kernel has ended, which is what the host's \<open>wait\<close> waits for.\<close>

definition warp_kernel_ended :: "kernel_args \<Rightarrow> warp_machine \<Rightarrow> bool" where
  "warp_kernel_ended k s \<longleftrightarrow> wm_ingress s = Wi_exited \<and> (\<forall>owner < unat (ka_copy_warps k). wm_copiers s owner = Wc_exited) \<and> wm_egress s = We_exited"

section \<open>A run that delivers\<close>

text \<open>A ring of 32 slots, shared queues of two, one copy warp; tasks of 16 bytes.\<close>

declare lane_units.simps [code]
declare copy_cg_def [code del]

definition warp_demo_queue :: warp_queue where
  "warp_demo_queue = snd (warp_start True CudaSuccess
     (snd (warp_allocate 32 1 2 4096 CudaSuccess CudaSuccess (zero_memory 32) new_warp_queue)))"

definition warp_demo_task :: "u64 \<Rightarrow> copy_task" where
  "warp_demo_task n = \<lparr>ct_task_id = n, ct_target_address = 65536 + 16 * n, ct_length = 16, ct_relative_offset = 0\<rparr>"

lemma warp_demo_starts:
  "fst (warp_allocate 32 1 2 4096 CudaSuccess CudaSuccess (zero_memory 32) new_warp_queue) = OK"
  "fst (warp_start True CudaSuccess (snd (warp_allocate 32 1 2 4096 CudaSuccess CudaSuccess (zero_memory 32) new_warp_queue))) = OK"
  by code_simp+

text \<open>A lane of the ingress warp after its load; what a copy warp does for a task it has claimed.\<close>

abbreviation (input) put_lane :: "nat \<Rightarrow> actor list" where
  "put_lane lane \<equiv> [Ingress_lane lane, Ingress_lane lane, Ingress_lane lane]"

abbreviation (input) copier_task :: "actor list" where
  "copier_task \<equiv> [Copier 0, Copier 0, Copier_lane 0 0, Copier 0, Copier 0, Copier 0, Copier 0, Copier 0]"

definition delivering_actors :: "actor list" where
  "delivering_actors =
     [Submit [warp_demo_task 1], Ingress, Ingress_lane 0] @ put_lane 0 @ [Ingress, Ingress, Copier 0, Copier 0, Copier 0] @ copier_task @
     [Egress, Egress_lane 0, Egress_lane 0, Egress, Egress_lane 0, Egress, Egress_lane 0, Egress, Poll] @
     [Stop, Ingress, Ingress, Ingress, Ingress, Copier 0, Copier 0, Copier 0, Egress, Egress, Egress]"

text \<open>The kernel can do its work: a task is copied and reported, and after the stop every warp ends.\<close>

lemma warp_kernel_delivers:
  "\<exists>s. run_warp (launch_args warp_demo_queue) delivering_actors (launch_warp warp_demo_queue (\<lambda>a. of_nat a)) = Some s \<and>
     map cp_task_id (wm_polled s) = [1] \<and> map ac_target (wm_accesses s) = [65552] \<and>
     warp_kernel_ended (launch_args warp_demo_queue) s"
proof -
  have "map_option (\<lambda>s. (map cp_task_id (wm_polled s), map ac_target (wm_accesses s), wm_ingress s, wm_copiers s 0, wm_egress s))
      (run_warp (launch_args warp_demo_queue) delivering_actors (launch_warp warp_demo_queue (\<lambda>a. of_nat a))) =
    Some ([1], [65552], Wi_exited, Wc_exited, We_exited)" by code_simp
  moreover have "unat (ka_copy_warps (launch_args warp_demo_queue)) = 1" by code_simp
  ultimately show ?thesis unfolding warp_kernel_ended_def by auto
qed

section \<open>A run that hangs\<close>

text \<open>
  The copy warp loads the two counts before the task is published and looks at \<open>ingress_done\<close> after the ingress warp has ended.
\<close>

definition hanging_actors :: "actor list" where
  "hanging_actors =
     [Copier 0, Copier 0, Submit [warp_demo_task 1], Stop, Ingress, Ingress_lane 0] @ put_lane 0 @
     [Ingress, Ingress, Ingress, Ingress, Ingress, Ingress, Copier 0, Egress]"

text \<open>The copy warps and the ingress warp have ended, and the egress warp waits for the completion of index 0.\<close>

definition egress_starves :: "kernel_args \<Rightarrow> warp_machine \<Rightarrow> bool" where
  "egress_starves k s \<longleftrightarrow>
     wm_ingress s = Wi_exited \<and> (\<forall>owner < unat (ka_copy_warps k). wm_copiers s owner = Wc_exited) \<and>
     wm_egress s = We_collect 0 [Take_wait] \<and> wm_completion_head s = 0 \<and> sq_sequence (wm_completion_slots s 0) = 0 \<and>
     wq_memory (wm_queue s) \<noteq> None \<and> qm_completion_tail (warp_mapped s) = 0 \<and>
     wq_completion_head (wm_queue s) = 0 \<and> wq_cached_completion_tail (wm_queue s) = 0 \<and> wm_polled s = [] \<and> wm_accesses s = []"

lemma egress_starves_step:
  assumes "0 < unat (ka_depth k)" "egress_starves k s" "warp_step k actor s = Some s'"
  shows "egress_starves k s'"
proof (cases actor)
  case (Submit tasks)
  then show ?thesis using assms(2,3)
    by (auto simp: warp_step_def warp_submits_def warp_try_submit_batch_def egress_starves_def warp_mapped_def Let_def
        split: option.splits sum.splits if_splits)
next
  case Poll
  then show ?thesis using assms(2,3)
    by (auto simp: warp_step_def warp_polls_def warp_try_poll_def egress_starves_def warp_mapped_def)
next
  case Stop
  then show ?thesis using assms(2,3)
    by (auto simp: warp_step_def warp_stops_def warp_request_stop_def egress_starves_def warp_mapped_def)
qed (use assms in \<open>auto simp: warp_step_def warp_ingress_def warp_ingress_lane_def warp_copier_def warp_copier_lane_def warp_egress_def
    warp_egress_lane_def egress_starves_def all_in_wave_def in_wave_def wave_end_def is_held_def shared_slot_of_def Let_def split: if_splits\<close>)

lemma egress_starves_run:
  assumes "0 < unat (ka_depth k)" "egress_starves k s" "run_warp k actors s = Some s'"
  shows "egress_starves k s'"
  using assms(2,3) by (induction actors arbitrary: s) (auto split: option.split_asm dest: egress_starves_step [OF assms(1)])

lemma hanging_runs:
  "\<exists>s. run_warp (launch_args warp_demo_queue) hanging_actors (launch_warp warp_demo_queue memory) = Some s \<and>
     wm_submitted s = [warp_demo_task 1] \<and> \<not> wq_accepting (wm_queue s) \<and> egress_starves (launch_args warp_demo_queue) s"
proof -
  let ?run = "run_warp (launch_args warp_demo_queue) hanging_actors (launch_warp warp_demo_queue memory)"
  have "map_option (\<lambda>s. (wm_submitted s, wm_ingress s, wm_copiers s 0, wm_egress s, wm_completion_head s, sq_sequence (wm_completion_slots s 0))) ?run =
      Some ([warp_demo_task 1], Wi_exited, Wc_exited, We_collect 0 [Take_wait], 0, 0)"
    "map_option (\<lambda>s. (wq_memory (wm_queue s) = None, qm_completion_tail (warp_mapped s), wq_completion_head (wm_queue s),
        wq_cached_completion_tail (wm_queue s), wm_polled s, wm_accesses s, wq_accepting (wm_queue s))) ?run =
      Some (False, 0, 0, 0, [], [], False)"
    by code_simp+
  moreover have "unat (ka_copy_warps (launch_args warp_demo_queue)) = 1" by code_simp
  ultimately show ?thesis unfolding egress_starves_def by auto
qed

text \<open>
  The kernel need not drain: there is a run, from a queue that was allocated and started, in which a task is accepted and then the stop requested, and however
  the run goes on, the task is not copied, no completion is polled and the kernel does not end.
\<close>

lemma warp_kernel_hangs:
  "\<exists>actors s. run_warp (launch_args warp_demo_queue) actors (launch_warp warp_demo_queue memory) = Some s \<and>
     wm_submitted s = [warp_demo_task 1] \<and> \<not> wq_accepting (wm_queue s) \<and>
     (\<forall>more s'. run_warp (launch_args warp_demo_queue) more s = Some s' \<longrightarrow>
        wm_polled s' = [] \<and> wm_accesses s' = [] \<and> \<not> warp_kernel_ended (launch_args warp_demo_queue) s')"
proof -
  have d: "0 < unat (ka_depth (launch_args warp_demo_queue))" by code_simp
  obtain s where s: "run_warp (launch_args warp_demo_queue) hanging_actors (launch_warp warp_demo_queue memory) = Some s"
    "wm_submitted s = [warp_demo_task 1]" "egress_starves (launch_args warp_demo_queue) s" "\<not> wq_accepting (wm_queue s)" using hanging_runs by blast
  have "wm_polled s' = [] \<and> wm_accesses s' = [] \<and> \<not> warp_kernel_ended (launch_args warp_demo_queue) s'"
    if "run_warp (launch_args warp_demo_queue) more s = Some s'" for more s'
    using egress_starves_run [OF d s(3) that] by (simp add: egress_starves_def warp_kernel_ended_def)
  then show ?thesis using s by blast
qed

end
