(* ===== verification/Cuda_Memory.thy ===== *)
theory Cuda_Memory
  imports Pd_Mr_Cq Copy_Config
begin

unbundle bit_operations_syntax

text \<open>
  \<^verbatim>\<open>gpu/cuda_ipc_memory.cu\<close> and \<^verbatim>\<open>gpu/gpudirect_visibility.cu\<close>: the client's export of a device allocation, the
  daemon's side that opens, closes and fills such an allocation, and the gate that makes remote writes visible.
  What the CUDA driver answers is an argument: a call is a function from its inputs to the status and the value
  it stores. Shown: an exported range lies in its allocation and is what registration accepts, every operation
  of the backend leaves the calling thread on the device it was on, and the gate lets no write be reported
  before it is visible.
\<close>

section \<open>Exporting an allocation\<close>

datatype cuda_memory_type = Memory_unregistered | Memory_host | Memory_device | Memory_managed

record export_calls =
  xc_init :: cu_result
  xc_pointer_attributes :: "u64 \<Rightarrow> cuda_error \<times> cuda_memory_type \<times> int"
  xc_address_range :: "u64 \<Rightarrow> cu_result \<times> u64 \<times> u64"
  xc_device :: "int \<Rightarrow> cu_result \<times> int"
  xc_device_uuid :: "int \<Rightarrow> cu_result \<times> bytes"
  xc_ipc_handle :: "u64 \<Rightarrow> cuda_error \<times> bytes"

definition checked_range :: "u64 \<Rightarrow> u64 \<Rightarrow> u64 \<Rightarrow> u64 \<Rightarrow> bool" where
  "checked_range start len limit_start limit_length \<longleftrightarrow>
     \<not> (len = 0 \<or> start < limit_start \<or> limit_length = 0) \<and>
     \<not> (start > - 1 - len \<or> limit_start > - 1 - limit_length) \<and>
     start + len \<le> limit_start + limit_length"

definition export_cuda_memory :: "export_calls \<Rightarrow> u64 \<Rightarrow> u64 \<Rightarrow> bool \<Rightarrow> int + exported_cuda_memory" where
  "export_cuda_memory calls address len have_memory =
     (if address = 0 \<or> len = 0 \<or> \<not> have_memory then Inl EINVAL
      else if driver_status (xc_init calls) \<noteq> OK then Inl (driver_status (xc_init calls))
      else case xc_pointer_attributes calls address of (status, type, ordinal) \<Rightarrow>
        if status \<noteq> CudaSuccess
        then Inl (if status = CudaErrorInvalidValue then EOPNOTSUPP else cuda_status status)
        else if type \<noteq> Memory_device \<or> ordinal < 0 then Inl EOPNOTSUPP
        else case xc_address_range calls address of (range_status, allocation_base, allocation_size) \<Rightarrow>
          if range_status \<noteq> Cu_success then Inl (driver_status range_status)
          else if address < allocation_base \<or> \<not> checked_range address len allocation_base allocation_size
          then Inl EINVAL
          else case xc_device calls ordinal of (device_status, device) \<Rightarrow>
            if device_status \<noteq> Cu_success then Inl (driver_status device_status)
            else case xc_device_uuid calls device of (uuid_status, uuid) \<Rightarrow>
              if uuid_status \<noteq> Cu_success then Inl (driver_status uuid_status)
              else case xc_ipc_handle calls allocation_base of (handle_status, handle) \<Rightarrow>
                if handle_status \<noteq> CudaSuccess then Inl (cuda_status handle_status)
                else Inr \<lparr>em_gpu_uuid = uuid, em_client_address = address, em_allocation_size = allocation_size,
                          em_allocation_offset = address - allocation_base, em_length = len,
                          em_ipc_handle = handle\<rparr>)"

section \<open>The device a thread is on\<close>

text \<open>\<open>cudaGetDevice\<close> and \<open>cudaSetDevice\<close> in a thread whose current device is the last argument; the second also
  gives the device current afterwards.\<close>

record device_calls =
  dc_get :: "int \<Rightarrow> cuda_error \<times> int"
  dc_set :: "int \<Rightarrow> int \<Rightarrow> cuda_error \<times> int"

record scoped_device =
  sd_previous :: int
  sd_status :: int

definition scoped_enter :: "device_calls \<Rightarrow> int \<Rightarrow> int \<Rightarrow> scoped_device \<times> int" where
  "scoped_enter d ordinal current =
     (case dc_get d current of (get_status, previous) \<Rightarrow>
      case dc_set d ordinal current of (set_status, current') \<Rightarrow>
        (\<lparr>sd_previous = (if get_status \<noteq> CudaSuccess then -1 else previous), sd_status = cuda_status set_status\<rparr>, current'))"

definition scoped_leave :: "device_calls \<Rightarrow> scoped_device \<Rightarrow> int \<Rightarrow> int" where
  "scoped_leave d selected current =
     (if sd_status selected = OK \<and> sd_previous selected \<ge> 0 then snd (dc_set d (sd_previous selected) current) else current)"

section \<open>The daemon's memory backend\<close>

abbreviation kCudaIpcHandleSize :: nat where "kCudaIpcHandleSize \<equiv> 64"

record device_runtime =
  dr_uuid :: bytes
  dr_ordinal :: int

record ipc_memory_backend =
  mb_initialization_status :: int
  mb_devices :: "device_runtime list"

record backend_calls =
  bc_init :: cu_result
  bc_device_count :: "cuda_error \<times> int"
  bc_reserve :: bool
  bc_free :: "int \<Rightarrow> cuda_error"
  bc_device :: "int \<Rightarrow> cu_result \<times> int"
  bc_device_uuid :: "int \<Rightarrow> cu_result \<times> bytes"

definition find_device :: "device_runtime list \<Rightarrow> bytes \<Rightarrow> device_runtime option" where
  "find_device devices uuid = find (\<lambda>device. dr_uuid device = uuid) devices"

text \<open>The loop of the constructor over the ordinals, with the devices found so far; it gives the status, the
  devices and the device of the thread.\<close>

fun init_devices ::
  "backend_calls \<Rightarrow> device_calls \<Rightarrow> int list \<Rightarrow> device_runtime list \<Rightarrow> int \<Rightarrow> int \<times> device_runtime list \<times> int" where
  "init_devices calls d [] devices current = (OK, devices, current)"
| "init_devices calls d (ordinal # ordinals) devices current =
     (case scoped_enter d ordinal current of (selected, current1) \<Rightarrow>
        if sd_status selected \<noteq> OK then (sd_status selected, [], scoped_leave d selected current1)
        else if bc_free calls ordinal \<noteq> CudaSuccess
        then (cuda_status (bc_free calls ordinal), [], scoped_leave d selected current1)
        else case bc_device calls ordinal of (device_status, device) \<Rightarrow>
          if device_status \<noteq> Cu_success then (driver_status device_status, [], scoped_leave d selected current1)
          else case bc_device_uuid calls device of (uuid_status, uuid) \<Rightarrow>
            if uuid_status \<noteq> Cu_success then (driver_status uuid_status, [], scoped_leave d selected current1)
            else init_devices calls d ordinals (devices @ [\<lparr>dr_uuid = uuid, dr_ordinal = ordinal\<rparr>])
                   (scoped_leave d selected current1))"

definition new_memory_backend :: "backend_calls \<Rightarrow> device_calls \<Rightarrow> int \<Rightarrow> ipc_memory_backend \<times> int" where
  "new_memory_backend calls d current =
     (if bc_init calls \<noteq> Cu_success
      then (\<lparr>mb_initialization_status = driver_status (bc_init calls), mb_devices = []\<rparr>, current)
      else case bc_device_count calls of (status, count) \<Rightarrow>
        if status \<noteq> CudaSuccess then (\<lparr>mb_initialization_status = cuda_status status, mb_devices = []\<rparr>, current)
        else if count < 0 \<or> \<not> bc_reserve calls then (\<lparr>mb_initialization_status = ENOMEM, mb_devices = []\<rparr>, current)
        else case init_devices calls d (map int [0..<nat count]) [] current of (init_status, devices, current') \<Rightarrow>
          (\<lparr>mb_initialization_status = init_status, mb_devices = devices\<rparr>, current'))"

definition memory_open ::
  "device_calls \<Rightarrow> (int \<Rightarrow> bytes \<Rightarrow> cuda_error \<times> u64) \<Rightarrow> ipc_memory_backend \<Rightarrow> exported_cuda_memory \<Rightarrow> bool \<Rightarrow> int \<Rightarrow>
   (int + cuda_ipc_mapping) \<times> int" where
  "memory_open d open_handle b memory have_mapping current =
     (if \<not> have_mapping \<or> mb_initialization_status b \<noteq> OK
      then (Inl (if \<not> have_mapping then EINVAL else mb_initialization_status b), current)
      else if length (em_ipc_handle memory) \<noteq> kCudaIpcHandleSize then (Inl EINVAL, current)
      else case find_device (mb_devices b) (em_gpu_uuid memory) of
        None \<Rightarrow> (Inl ENODEV, current)
      | Some device \<Rightarrow>
          (case scoped_enter d (dr_ordinal device) current of (selected, current1) \<Rightarrow>
             if sd_status selected \<noteq> OK then (Inl (sd_status selected), scoped_leave d selected current1)
             else case open_handle current1 (em_ipc_handle memory) of (status, daemon_base) \<Rightarrow>
               (if status \<noteq> CudaSuccess then Inl (cuda_status status)
                else Inr \<lparr>im_gpu_uuid = em_gpu_uuid memory, im_daemon_base_address = daemon_base\<rparr>,
                scoped_leave d selected current1)))"

definition memory_close ::
  "device_calls \<Rightarrow> (int \<Rightarrow> u64 \<Rightarrow> cuda_error) \<Rightarrow> ipc_memory_backend \<Rightarrow> cuda_ipc_mapping \<Rightarrow> int \<Rightarrow> int \<times> int" where
  "memory_close d close_handle b mapping current =
     (if im_daemon_base_address mapping = 0 \<or> mb_initialization_status b \<noteq> OK
      then (if im_daemon_base_address mapping = 0 then EINVAL else mb_initialization_status b, current)
      else case find_device (mb_devices b) (im_gpu_uuid mapping) of
        None \<Rightarrow> (ENODEV, current)
      | Some device \<Rightarrow>
          (case scoped_enter d (dr_ordinal device) current of (selected, current1) \<Rightarrow>
             (if sd_status selected \<noteq> OK then sd_status selected
              else cuda_status (close_handle current1 (im_daemon_base_address mapping)),
              scoped_leave d selected current1)))"

text \<open>\<open>fill\<close>: the driver's memset of so many bytes from an address, then the synchronisation.\<close>

definition memory_fill ::
  "device_calls \<Rightarrow> (int \<Rightarrow> u64 \<Rightarrow> u8 \<Rightarrow> u64 \<Rightarrow> cuda_error) \<Rightarrow> cuda_error \<Rightarrow> ipc_memory_backend \<Rightarrow> cuda_ipc_mapping \<Rightarrow>
   u64 \<Rightarrow> u64 \<Rightarrow> u8 \<Rightarrow> int \<Rightarrow> int \<times> int" where
  "memory_fill d memset_call synchronize b mapping offset len val current =
     (if im_daemon_base_address mapping = 0 \<or> len = 0 \<or> im_daemon_base_address mapping > - 1 - offset
      then (EINVAL, current)
      else case find_device (mb_devices b) (im_gpu_uuid mapping) of
        None \<Rightarrow> (ENODEV, current)
      | Some device \<Rightarrow>
          (case scoped_enter d (dr_ordinal device) current of (selected, current1) \<Rightarrow>
             (if sd_status selected \<noteq> OK then sd_status selected
              else let fill_status = memset_call current1 (im_daemon_base_address mapping + offset) val len
                   in if fill_status = CudaSuccess then cuda_status synchronize else cuda_status fill_status,
              scoped_leave d selected current1)))"

section \<open>The visibility gate\<close>

datatype visibility_result =
    Vis_success | Vis_invalid_value | Vis_invalid_device | Vis_invalid_context | Vis_out_of_memory | Vis_no_device
  | Vis_system_driver_mismatch | Vis_not_supported | Vis_other

definition visibility_status :: "visibility_result \<Rightarrow> int" where
  "visibility_status status =
     (case status of
        Vis_success \<Rightarrow> OK
      | Vis_invalid_value \<Rightarrow> EINVAL | Vis_invalid_device \<Rightarrow> EINVAL | Vis_invalid_context \<Rightarrow> EINVAL
      | Vis_out_of_memory \<Rightarrow> ENOMEM
      | Vis_no_device \<Rightarrow> ENODEV | Vis_system_driver_mismatch \<Rightarrow> ENODEV
      | Vis_not_supported \<Rightarrow> EOPNOTSUPP
      | Vis_other \<Rightarrow> EIO)"

datatype writes_ordering = Ordering_none | Ordering_owner | Ordering_all_devices

definition ordering_value :: "writes_ordering \<Rightarrow> int" where
  "ordering_value w = (case w of Ordering_none \<Rightarrow> 0 | Ordering_owner \<Rightarrow> 100 | Ordering_all_devices \<Rightarrow> 200)"

record visibility_capabilities =
  vc_gpudirect_rdma_supported :: bool
  vc_host_flush_supported :: bool
  vc_stream_memops_flush_supported :: bool
  vc_writes_ordering :: writes_ordering

definition no_capabilities :: visibility_capabilities where
  "no_capabilities = \<lparr>vc_gpudirect_rdma_supported = False, vc_host_flush_supported = False,
     vc_stream_memops_flush_supported = False, vc_writes_ordering = Ordering_none\<rparr>"

datatype device_attribute = Rdma_supported | Flush_writes_options | Writes_ordering

record visibility_calls =
  vq_init :: visibility_result
  vq_device :: "int \<Rightarrow> visibility_result \<times> int"
  vq_attribute :: "int \<Rightarrow> device_attribute \<Rightarrow> visibility_result \<times> u32"

definition get_device_attribute :: "visibility_calls \<Rightarrow> int \<Rightarrow> device_attribute \<Rightarrow> int \<times> u32" where
  "get_device_attribute calls device attribute =
     (visibility_status (fst (vq_attribute calls device attribute)), snd (vq_attribute calls device attribute))"

definition query_gpudirect_visibility_capabilities ::
  "visibility_calls \<Rightarrow> u32 \<Rightarrow> bool \<Rightarrow> int + visibility_capabilities" where
  "query_gpudirect_visibility_capabilities calls device_ordinal have_capabilities =
     (if \<not> have_capabilities \<or> device_ordinal > 0x7FFFFFFF then Inl EINVAL
      else if visibility_status (vq_init calls) \<noteq> OK then Inl (visibility_status (vq_init calls))
      else case vq_device calls (uint device_ordinal) of (device_status, device) \<Rightarrow>
        if visibility_status device_status \<noteq> OK then Inl (visibility_status device_status)
        else case get_device_attribute calls device Rdma_supported of (rdma_status, rdma_supported) \<Rightarrow>
          if rdma_status \<noteq> OK then Inl rdma_status
          else case get_device_attribute calls device Flush_writes_options of (flush_status, flush_options) \<Rightarrow>
            if flush_status \<noteq> OK then Inl flush_status
            else case get_device_attribute calls device Writes_ordering of (ordering_status, code) \<Rightarrow>
              if ordering_status \<noteq> OK then Inl ordering_status
              else case (if code = 0 then Some Ordering_none else if code = 100 then Some Ordering_owner
                         else if code = 200 then Some Ordering_all_devices else None) of
                None \<Rightarrow> Inl EIO
              | Some writes_ordering \<Rightarrow>
                  Inr \<lparr>vc_gpudirect_rdma_supported = (rdma_supported \<noteq> 0),
                       vc_host_flush_supported = (flush_options AND 1 \<noteq> 0),
                       vc_stream_memops_flush_supported = (flush_options AND 2 \<noteq> 0),
                       vc_writes_ordering = writes_ordering\<rparr>)"

record visibility_gate =
  vg_capabilities :: visibility_capabilities
  vg_initialized :: bool
  vg_flush_required :: bool

definition new_gate :: visibility_gate where
  "new_gate = \<lparr>vg_capabilities = no_capabilities, vg_initialized = False, vg_flush_required = False\<rparr>"

definition gate_initialize :: "visibility_calls \<Rightarrow> u32 \<Rightarrow> visibility_gate \<Rightarrow> int \<times> visibility_gate" where
  "gate_initialize calls device_ordinal g =
     (if vg_initialized g then (EINVAL, g)
      else case query_gpudirect_visibility_capabilities calls device_ordinal True of
        Inl status \<Rightarrow> (status, g)
      | Inr capabilities \<Rightarrow>
          if \<not> vc_gpudirect_rdma_supported capabilities then (EOPNOTSUPP, g)
          else
            let flush_required = ordering_value (vc_writes_ordering capabilities) < ordering_value Ordering_owner
            in if flush_required \<and> \<not> vc_host_flush_supported capabilities then (EOPNOTSUPP, g)
               else (OK, \<lparr>vg_capabilities = capabilities, vg_initialized = True, vg_flush_required = flush_required\<rparr>))"

text \<open>The flush also tells whether the driver was asked.\<close>

definition flush_current_context_to_owner :: "visibility_result \<Rightarrow> visibility_gate \<Rightarrow> int \<times> bool" where
  "flush_current_context_to_owner flush g =
     (if \<not> vg_initialized g then (EINVAL, False)
      else if \<not> vg_flush_required g then (OK, False)
      else (visibility_status flush, True))"

definition gate_reset :: "visibility_gate \<Rightarrow> int \<times> visibility_gate" where
  "gate_reset g = (OK, new_gate)"

section \<open>Exported ranges\<close>

lemma checked_range_iff:
  "checked_range start len limit_start limit_length \<longleftrightarrow>
   0 < unat len \<and> 0 < unat limit_length \<and> unat limit_start \<le> unat start \<and>
   unat start + unat len \<le> unat limit_start + unat limit_length \<and>
   unat start + unat len < 18446744073709551616 \<and> unat limit_start + unat limit_length < 18446744073709551616"
proof -
  have top: "(x > - 1 - y) = (unat x + unat y \<ge> 18446744073709551616)" for x y :: u64
    using unsigned_less [of y, where ?'a = nat] by (auto simp: word_less_nat_alt unat_max_minus)
  have sum: "unat (x + y) = unat x + unat y" if "unat x + unat y < 18446744073709551616" for x y :: u64
    using that by (simp add: unat_word_ariths)
  show ?thesis unfolding checked_range_def top
    by (auto simp: word_less_nat_alt word_le_nat_alt sum unat_eq_0 unat_gt_0)
qed

text \<open>What the driver documents of its answers: a device has a UUID of 16 bytes that is not zero, a handle has its
  fixed size.\<close>

definition driver_values_sized :: "export_calls \<Rightarrow> bool" where
  "driver_values_sized calls \<longleftrightarrow>
     (\<forall>device. length (snd (xc_device_uuid calls device)) = 16 \<and> \<not> uuid_is_zero (snd (xc_device_uuid calls device))) \<and>
     (\<forall>base. length (snd (xc_ipc_handle calls base)) = kCudaIpcHandleSize)"

lemma export_fields:
  assumes "export_cuda_memory calls address len have_memory = Inr m"
  obtains base where
    "snd (xc_address_range calls address) = (base, em_allocation_size m)" "checked_range address len base (em_allocation_size m)"
    "em_client_address m = address" "em_length m = len" "em_allocation_offset m = address - base" "base \<le> address"
    "address \<noteq> 0" "\<exists>device. em_gpu_uuid m = snd (xc_device_uuid calls device)" "em_ipc_handle m = snd (xc_ipc_handle calls base)"
proof -
  obtain st ty ordinal where a: "xc_pointer_attributes calls address = (st, ty, ordinal)" by (metis prod_cases3)
  obtain rs base siz where b: "xc_address_range calls address = (rs, base, siz)" by (metis prod_cases3)
  obtain ds device where c: "xc_device calls ordinal = (ds, device)" by fastforce
  obtain us uuid where d: "xc_device_uuid calls device = (us, uuid)" by fastforce
  obtain hs handle where e: "xc_ipc_handle calls base = (hs, handle)" by fastforce
  show thesis
    using assms a b c d e
    by (intro that [of base]) (auto simp: export_cuda_memory_def split: if_splits intro: exI [of _ device])
qed

lemma exported_memory_valid:
  assumes "export_cuda_memory calls address len have_memory = Inr m" "driver_values_sized calls"
  shows "valid_memory m" "length (em_gpu_uuid m) = 16" "length (em_ipc_handle m) = kCudaIpcHandleSize"
proof -
  obtain base where f: "checked_range address len base (em_allocation_size m)"
      "em_client_address m = address" "em_length m = len" "em_allocation_offset m = address - base" "base \<le> address"
      "address \<noteq> 0" "\<exists>device. em_gpu_uuid m = snd (xc_device_uuid calls device)" "em_ipc_handle m = snd (xc_ipc_handle calls base)"
    using export_fields [OF assms(1)] by metis
  note r = f(1) [unfolded checked_range_iff]
  have off: "unat (address - base) = unat address - unat base" using f(5) by (simp add: unat_sub)
  have le: "address - base \<le> em_allocation_size m" using r off by (auto simp: word_le_nat_alt)
  then have room: "unat (em_allocation_size m - (address - base)) = unat (em_allocation_size m) - (unat address - unat base)"
    by (simp add: unat_sub off)
  show h: "length (em_gpu_uuid m) = 16" "length (em_ipc_handle m) = kCudaIpcHandleSize"
    using f(7,8) assms(2) by (auto simp: driver_values_sized_def)
  have "em_ipc_handle m \<noteq> []" using h(2) by (metis list.size(3) zero_neq_numeral)
  moreover have "len \<le> em_allocation_size m - (address - base)" using r room by (auto simp: word_le_nat_alt)
  moreover have "address - base \<le> address" using off by (simp add: word_le_nat_alt)
  ultimately show "valid_memory m"
    using f(2-4,6,7) r h(2) le assms(2) by (auto simp: valid_memory_def driver_values_sized_def not_less not_le unat_gt_0)
qed

section \<open>The backend leaves the thread on its device\<close>

text \<open>What the driver documents: the current device is reported, and selecting one of the devices makes it
  current, while selecting another leaves the current one.\<close>

definition device_calls_ok :: "int set \<Rightarrow> device_calls \<Rightarrow> bool" where
  "device_calls_ok present d \<longleftrightarrow>
     (\<forall>ordinal\<in>present. 0 \<le> ordinal) \<and> (\<forall>current. dc_get d current = (CudaSuccess, current)) \<and>
     (\<forall>ordinal current. if ordinal \<in> present then dc_set d ordinal current = (CudaSuccess, ordinal)
        else fst (dc_set d ordinal current) \<noteq> CudaSuccess \<and> snd (dc_set d ordinal current) = current)"

lemma device_calls_okD:
  assumes "device_calls_ok present d"
  shows "dc_get d current = (CudaSuccess, current)"
    and "ordinal \<in> present \<Longrightarrow> dc_set d ordinal current = (CudaSuccess, ordinal)" and "ordinal \<in> present \<Longrightarrow> 0 \<le> ordinal"
    and "dc_set d ordinal current = (status, current') \<Longrightarrow> current' = (if status = CudaSuccess then ordinal else current)"
  using assms by (auto simp: device_calls_ok_def) (metis fst_conv snd_conv)+

lemma scoped_device_restores:
  assumes "device_calls_ok present d" "current \<in> present" "scoped_enter d ordinal current = (selected, current1)"
  shows "scoped_leave d selected current1 = current"
    and "sd_status selected = OK \<Longrightarrow> current1 = ordinal"
proof -
  obtain status where s: "dc_set d ordinal current = (status, current1)" "sd_status selected = cuda_status status" "sd_previous selected = current"
    using assms(3) by (auto simp: scoped_enter_def device_calls_okD(1) [OF assms(1)] split: prod.splits)
  show "scoped_leave d selected current1 = current"
    using s device_calls_okD(4) [OF assms(1) s(1)] device_calls_okD(2,3) [OF assms(1,2)] by (simp add: scoped_leave_def cuda_status_zero)
  show "current1 = ordinal" if "sd_status selected = OK"
    using that s device_calls_okD(4) [OF assms(1) s(1)] by (simp add: cuda_status_zero)
qed

lemma init_devices_restores:
  assumes "device_calls_ok present d" "current \<in> present"
  shows "snd (snd (init_devices calls d ordinals devices current)) = current"
  using assms(2)
proof (induction ordinals arbitrary: devices current)
  case (Cons ordinal ordinals)
  obtain selected current1 where e: "scoped_enter d ordinal current = (selected, current1)" by fastforce
  have "scoped_leave d selected current1 = current" using scoped_device_restores(1) [OF assms(1) Cons.prems e] .
  then show ?case using Cons e by (auto split: prod.split)
qed simp

lemma init_devices_all:
  assumes "init_devices calls d ordinals devices current = (OK, devices', current')"
  shows "map dr_ordinal devices' = map dr_ordinal devices @ ordinals"
  using assms
proof (induction ordinals arbitrary: devices current)
  case (Cons ordinal ordinals)
  obtain selected current1 where e: "scoped_enter d ordinal current = (selected, current1)" by fastforce
  obtain s1 device where v: "bc_device calls ordinal = (s1, device)" by fastforce
  obtain s2 uuid where u: "bc_device_uuid calls device = (s2, uuid)" by fastforce
  have "init_devices calls d ordinals (devices @ [\<lparr>dr_uuid = uuid, dr_ordinal = ordinal\<rparr>]) (scoped_leave d selected current1)
      = (OK, devices', current')"
    using Cons.prems e v u by (simp add: cuda_status_zero driver_status_zero split: if_splits)
  from Cons.IH [OF this] show ?case by simp
qed simp

lemma new_memory_backend_devices:
  assumes "device_calls_ok present d" "current \<in> present"
  shows "snd (new_memory_backend calls d current) = current"
    and "mb_initialization_status (fst (new_memory_backend calls d current)) = OK \<Longrightarrow>
      map dr_ordinal (mb_devices (fst (new_memory_backend calls d current))) = map int [0..<nat (snd (bc_device_count calls))]"
proof -
  obtain st n where c: "bc_device_count calls = (st, n)" by fastforce
  obtain i devices current' where r: "init_devices calls d (map int [0..<nat n]) [] current = (i, devices, current')"
    by (metis prod_cases3)
  have "current' = current" using init_devices_restores [OF assms, of calls "map int [0..<nat n]" "[]"] r by simp
  then show "snd (new_memory_backend calls d current) = current" using c r by (simp add: new_memory_backend_def)
  show "mb_initialization_status (fst (new_memory_backend calls d current)) = OK \<Longrightarrow>
      map dr_ordinal (mb_devices (fst (new_memory_backend calls d current))) = map int [0..<nat (snd (bc_device_count calls))]"
    using c r init_devices_all [of calls d "map int [0..<nat n]" "[]" current devices current']
    by (simp add: new_memory_backend_def cuda_status_zero driver_status_zero split: if_splits)
qed

lemma memory_operations_restore_device:
  assumes "device_calls_ok present d" "current \<in> present"
  shows "snd (memory_open d open_handle b memory have_mapping current) = current"
    and "snd (memory_close d close_handle b mapping current) = current"
    and "snd (memory_fill d memset_call synchronize b mapping offset len val current) = current"
  using scoped_device_restores(1) [OF assms]
  by (auto simp: memory_open_def memory_close_def memory_fill_def split: option.split prod.split)

text \<open>Opening and closing run on the device the allocation is on, and closing undoes what opening did.\<close>

lemma find_deviceD: "find_device devices uuid = Some device \<Longrightarrow> device \<in> List.set devices \<and> dr_uuid device = uuid"
  unfolding find_device_def find_Some_iff by auto

lemma memory_open_on_device:
  assumes "device_calls_ok present d" "current \<in> present" "memory_open d open_handle b memory have_mapping current = (Inr mapping, current')"
  obtains device where "device \<in> List.set (mb_devices b)" "dr_uuid device = em_gpu_uuid memory"
    "open_handle (dr_ordinal device) (em_ipc_handle memory) = (CudaSuccess, im_daemon_base_address mapping)"
    "im_gpu_uuid mapping = em_gpu_uuid memory"
    "im_daemon_base_address mapping \<noteq> 0 \<Longrightarrow>
       memory_close d close_handle b mapping current = (cuda_status (close_handle (dr_ordinal device) (im_daemon_base_address mapping)), current)"
proof -
  obtain device where f: "find_device (mb_devices b) (em_gpu_uuid memory) = Some device" "mb_initialization_status b = OK"
    using assms(3) by (auto simp: memory_open_def split: if_splits option.splits)
  obtain selected current1 where e: "scoped_enter d (dr_ordinal device) current = (selected, current1)" by fastforce
  obtain st base where o: "open_handle current1 (em_ipc_handle memory) = (st, base)" by fastforce
  have m: "sd_status selected = OK" "st = CudaSuccess" "mapping = \<lparr>im_gpu_uuid = em_gpu_uuid memory, im_daemon_base_address = base\<rparr>"
    using assms(3) f e o by (auto simp: memory_open_def split: if_splits)
  note sd = scoped_device_restores [OF assms(1,2) e]
  show thesis
  proof (rule that [of device])
    show "device \<in> List.set (mb_devices b)" "dr_uuid device = em_gpu_uuid memory" using find_deviceD [OF f(1)] by auto
    show "open_handle (dr_ordinal device) (em_ipc_handle memory) = (CudaSuccess, im_daemon_base_address mapping)"
      "im_gpu_uuid mapping = em_gpu_uuid memory" using o m sd(2) by simp_all
    show "memory_close d close_handle b mapping current = (cuda_status (close_handle (dr_ordinal device) (im_daemon_base_address mapping)), current)"
      if "im_daemon_base_address mapping \<noteq> 0" using that f e m sd by (simp add: memory_close_def)
  qed
qed

section \<open>The gate\<close>

definition gate_ok :: "visibility_gate \<Rightarrow> bool" where
  "gate_ok g \<longleftrightarrow> (if vg_initialized g
     then vc_gpudirect_rdma_supported (vg_capabilities g) \<and>
          (vg_flush_required g \<longleftrightarrow> vc_writes_ordering (vg_capabilities g) = Ordering_none) \<and>
          (vg_flush_required g \<longrightarrow> vc_host_flush_supported (vg_capabilities g))
     else g = new_gate)"

lemma visibility_status_zero: "visibility_status v = OK \<longleftrightarrow> v = Vis_success"
  by (cases v) (simp_all add: visibility_status_def)

lemma gate_operations_ok:
  assumes "gate_ok g"
  shows "gate_ok (snd (gate_initialize calls device_ordinal g))" "gate_ok (snd (gate_reset g))" "gate_ok new_gate"
  using assms
  by (auto simp: gate_ok_def gate_initialize_def gate_reset_def new_gate_def Let_def ordering_value_def
      split: sum.split writes_ordering.split)

text \<open>Initialisation succeeds exactly when remote writes are supported and can be made visible.\<close>

lemma gate_initialize_iff:
  "fst (gate_initialize calls device_ordinal g) = OK \<longleftrightarrow> \<not> vg_initialized g \<and>
   (\<exists>c. query_gpudirect_visibility_capabilities calls device_ordinal True = Inr c \<and> vc_gpudirect_rdma_supported c \<and>
      (vc_writes_ordering c = Ordering_none \<longrightarrow> vc_host_flush_supported c))"
proof -
  have "e \<noteq> OK" if "query_gpudirect_visibility_capabilities calls device_ordinal True = Inl e" for e
    using that by (auto simp: query_gpudirect_visibility_capabilities_def get_device_attribute_def split: if_splits prod.splits option.splits)
  then show ?thesis
    by (cases "vc_writes_ordering (projr (query_gpudirect_visibility_capabilities calls device_ordinal True))")
       (auto simp: gate_initialize_def Let_def ordering_value_def split: sum.split)
qed

text \<open>A successful flush means that the device orders remote writes itself or that the driver has flushed them.\<close>

lemma flush_makes_visible:
  assumes "gate_ok g" "flush_current_context_to_owner flush g = (OK, asked)"
  shows "vg_initialized g \<and> (vc_writes_ordering (vg_capabilities g) \<noteq> Ordering_none \<and> \<not> asked \<or> asked \<and> flush = Vis_success)"
  using assms by (auto simp: gate_ok_def flush_current_context_to_owner_def visibility_status_zero split: if_splits)

end
