(* ===== verification/Client_Runtime.thy ===== *)
theory Client_Runtime
  imports Cuda_Memory Qp Wr_Posting Completion_Queue
begin

unbundle bit_operations_syntax

text \<open>
  \<^verbatim>\<open>api/api.cpp\<close>: the client library behind \<^verbatim>\<open>ugdr/api.hpp\<close>. \<open>ClientRuntime\<close> keeps a proxy for every object the
  application was given. Proxies are never freed, so a pointer handed out is the position of the proxy in its
  storage vector, \<open>None\<close> is \<open>nullptr\<close>, and the registries \<open>contexts_\<close>, \<open>pds_\<close>, ... hold exactly the positions in
  use. The locks make the calls atomic; a run is a list of calls. A call that sets \<open>errno\<close> and returns
  \<open>nullptr\<close> or -1 gives \<open>Inl\<close> of the \<open>errno\<close> value; a method that throws gives \<open>None\<close>, which the C functions
  around the methods turn into \<open>ENOMEM\<close>.
\<close>

section \<open>Proxies\<close>

type_synonym pointer = "nat option"

record ugdr_device =
  ud_catalog_identity :: u64
  ud_connection_epoch :: u64
  ud_live :: bool

record ugdr_context =
  ux_daemon_identity :: u64
  ux_connection_epoch :: u64
  ux_live :: bool

record ugdr_pd =
  up_context :: nat
  up_daemon_identity :: u64
  up_connection_epoch :: u64
  up_live :: bool

record ugdr_mr =
  um_context :: nat
  um_pd :: nat
  um_addr :: u64
  um_length :: u64
  um_handle :: u32
  um_lkey :: u32
  um_rkey :: u32

record mr_proxy_record =
  mp_value :: ugdr_mr
  mp_daemon_identity :: u64
  mp_connection_epoch :: u64
  mp_live :: bool

record ugdr_cq =
  uc_context :: nat
  uc_cq_context :: u64
  uc_daemon_identity :: u64
  uc_connection_epoch :: u64
  uc_cqe :: int
  uc_live :: bool
  uc_completions :: shared_ring

record ugdr_qp_init_attr =
  qi_send_cq :: pointer
  qi_recv_cq :: pointer
  qi_max_send_wr :: u32
  qi_max_recv_wr :: u32
  qi_max_send_sge :: u32
  qi_max_recv_sge :: u32
  qi_qp_type :: u32
  qi_sq_sig_all :: int

record ugdr_qp_attr =
  qt_qp_state :: u32
  qt_cur_qp_state :: u32
  qt_qp_access_flags :: int
  qt_timeout :: u8
  qt_retry_cnt :: u8
  qt_rnr_retry :: u8
  qt_min_rnr_timer :: u8

record ugdr_qp =
  uq_pd :: nat
  uq_init_attr :: ugdr_qp_init_attr
  uq_daemon_identity :: u64
  uq_connection_epoch :: u64
  uq_cached_state :: u32
  uq_live :: bool
  uq_send_queue :: shared_ring
  uq_receive_queue :: shared_ring

record device_list_record =
  dl_devices :: "nat list"
  dl_live :: bool

record client_runtime =
  cr_client :: control_client
  cr_lists :: "device_list_record list"
  cr_devices :: "ugdr_device list"
  cr_contexts :: "ugdr_context list"
  cr_pds :: "ugdr_pd list"
  cr_mrs :: "mr_proxy_record list"
  cr_cqs :: "ugdr_cq list"
  cr_qps :: "ugdr_qp list"
  cr_next_mr_handle :: u64

definition new_runtime :: client_runtime where
  "new_runtime = \<lparr>cr_client = new_control_client, cr_lists = [], cr_devices = [], cr_contexts = [], cr_pds = [],
     cr_mrs = [], cr_cqs = [], cr_qps = [], cr_next_mr_handle = 1\<rparr>"

text \<open>Membership of a pointer in a registry.\<close>

definition registered :: "'a list \<Rightarrow> pointer \<Rightarrow> nat option" where
  "registered objects p = (case p of Some i \<Rightarrow> if i < length objects then Some i else None | None \<Rightarrow> None)"

section \<open>The surroundings of a call\<close>

text \<open>Where an allocation of a call fails: nowhere, at the path of the socket, at the proxy, or at its registration.\<close>

datatype oom_point = Oom_none | Oom_path | Oom_object | Oom_registry

text \<open>The environment variable \<open>UGDR_DAEMON_SOCKET\<close>, the answers of \<open>socket\<close> and \<open>connect\<close>, those to the request of
  the call and to the request that takes it back, and the allocation that fails.\<close>

record client_env =
  ce_getenv :: "string option"
  ce_socket :: "int + int"
  ce_connect :: "int option"
  ce_io :: socket_io
  ce_undo_io :: socket_io
  ce_oom :: oom_point

definition kDefaultDaemonSocket :: string where "kDefaultDaemonSocket = ''/run/ugdr/ugdr.sock''"

definition client_connected :: "control_client \<Rightarrow> bool" where
  "client_connected cc \<longleftrightarrow> ic_socket (cc_client cc) \<ge> 0"

abbreviation runtime_epoch :: "client_runtime \<Rightarrow> u64" where
  "runtime_epoch rt \<equiv> cc_epoch (cr_client rt)"

definition ensure_connected :: "client_env \<Rightarrow> client_runtime \<Rightarrow> int option \<times> client_runtime" where
  "ensure_connected env rt =
     (if client_connected (cr_client rt) then (Some OK, rt)
      else if ce_oom env = Oom_path then (None, rt)
      else
        let path = (case ce_getenv env of
                      Some configured \<Rightarrow> if configured \<noteq> [] then configured else kDefaultDaemonSocket
                    | None \<Rightarrow> kDefaultDaemonSocket)
        in case control_connect (ce_socket env) (ce_connect env) path (cr_client rt) of
             (status, cc) \<Rightarrow> (Some status, rt\<lparr>cr_client := cc\<rparr>))"

text \<open>The steps every method on a proxy starts with: the registry and liveness check together with the checks of
  the other arguments, the connection, and the comparison of the proxy's connection with the current one,
  which kills a proxy of another connection. The fields of the table are arguments.\<close>

definition enter_handle ::
  "(client_runtime \<Rightarrow> 'o list) \<Rightarrow> (('o list \<Rightarrow> 'o list) \<Rightarrow> client_runtime \<Rightarrow> client_runtime) \<Rightarrow> ('o \<Rightarrow> bool) \<Rightarrow>
   ('o \<Rightarrow> u64) \<Rightarrow> ('o \<Rightarrow> 'o) \<Rightarrow> client_env \<Rightarrow> pointer \<Rightarrow> bool \<Rightarrow> client_runtime \<Rightarrow> (int + nat) option \<times> client_runtime" where
  "enter_handle objects update live epoch kill env p arguments_ok rt =
     (case registered (objects rt) p of
        None \<Rightarrow> (Some (Inl EINVAL), rt)
      | Some i \<Rightarrow>
          if \<not> live (objects rt ! i) \<or> \<not> arguments_ok then (Some (Inl EINVAL), rt)
          else case ensure_connected env rt of
            (None, rt) \<Rightarrow> (None, rt)
          | (Some connect_status, rt) \<Rightarrow>
              if connect_status \<noteq> OK then (Some (Inl connect_status), rt)
              else if epoch (objects rt ! i) \<noteq> runtime_epoch rt
              then (Some (Inl EINVAL), update (\<lambda>os. os[i := kill (os ! i)]) rt)
              else (Some (Inr i), rt))"

definition enter_device :: "client_env \<Rightarrow> pointer \<Rightarrow> bool \<Rightarrow> client_runtime \<Rightarrow> (int + nat) option \<times> client_runtime" where
  "enter_device = enter_handle cr_devices cr_devices_update ud_live ud_connection_epoch (\<lambda>x. x\<lparr>ud_live := False\<rparr>)"

definition enter_context :: "client_env \<Rightarrow> pointer \<Rightarrow> bool \<Rightarrow> client_runtime \<Rightarrow> (int + nat) option \<times> client_runtime" where
  "enter_context = enter_handle cr_contexts cr_contexts_update ux_live ux_connection_epoch (\<lambda>x. x\<lparr>ux_live := False\<rparr>)"

definition enter_pd :: "client_env \<Rightarrow> pointer \<Rightarrow> bool \<Rightarrow> client_runtime \<Rightarrow> (int + nat) option \<times> client_runtime" where
  "enter_pd = enter_handle cr_pds cr_pds_update up_live up_connection_epoch (\<lambda>x. x\<lparr>up_live := False\<rparr>)"

definition enter_mr :: "client_env \<Rightarrow> pointer \<Rightarrow> bool \<Rightarrow> client_runtime \<Rightarrow> (int + nat) option \<times> client_runtime" where
  "enter_mr = enter_handle cr_mrs cr_mrs_update mp_live mp_connection_epoch (\<lambda>x. x\<lparr>mp_live := False\<rparr>)"

definition kill_cq :: "ugdr_cq \<Rightarrow> ugdr_cq" where
  "kill_cq x = x\<lparr>uc_live := False, uc_completions := snd (ring_reset (uc_completions x))\<rparr>"

definition enter_cq :: "client_env \<Rightarrow> pointer \<Rightarrow> bool \<Rightarrow> client_runtime \<Rightarrow> (int + nat) option \<times> client_runtime" where
  "enter_cq = enter_handle cr_cqs cr_cqs_update uc_live uc_connection_epoch kill_cq"

definition kill_qp :: "ugdr_qp \<Rightarrow> ugdr_qp" where
  "kill_qp x = x\<lparr>uq_live := False, uq_send_queue := snd (ring_reset (uq_send_queue x)),
     uq_receive_queue := snd (ring_reset (uq_receive_queue x))\<rparr>"

definition enter_qp :: "client_env \<Rightarrow> pointer \<Rightarrow> bool \<Rightarrow> client_runtime \<Rightarrow> (int + nat) option \<times> client_runtime" where
  "enter_qp = enter_handle cr_qps cr_qps_update uq_live uq_connection_epoch kill_qp"

section \<open>Devices and contexts\<close>

text \<open>The number of devices stored through \<open>num_devices\<close> is the length of the list.\<close>

definition get_device_list :: "client_env \<Rightarrow> client_runtime \<Rightarrow> (int + nat) option \<times> client_runtime" where
  "get_device_list env rt =
     (case ensure_connected env rt of
        (None, rt) \<Rightarrow> (None, rt)
      | (Some connect_status, rt) \<Rightarrow>
          if connect_status \<noteq> OK then (Some (Inl connect_status), rt)
          else case cc_list_devices (ce_io env) (cr_client rt) of
            (Inl list_status, cc) \<Rightarrow> (Some (Inl list_status), rt\<lparr>cr_client := cc\<rparr>)
          | (Inr descriptors, cc) \<Rightarrow>
              let rt = rt\<lparr>cr_client := cc\<rparr>; base = length (cr_devices rt)
              in if ce_oom env \<in> {Oom_object, Oom_registry} then (None, rt)
                 else (Some (Inr (length (cr_lists rt))),
                   rt\<lparr>cr_devices := cr_devices rt @
                        map (\<lambda>descriptor. \<lparr>ud_catalog_identity = dd_identity descriptor,
                               ud_connection_epoch = runtime_epoch rt, ud_live = True\<rparr>) descriptors,
                      cr_lists := cr_lists rt @ [\<lparr>dl_devices = [base..<base + length descriptors], dl_live = True\<rparr>]\<rparr>))"

definition free_device_list :: "pointer \<Rightarrow> client_runtime \<Rightarrow> int \<times> client_runtime" where
  "free_device_list list rt =
     (case registered (cr_lists rt) list of
        None \<Rightarrow> (EINVAL, rt)
      | Some l \<Rightarrow>
          if \<not> dl_live (cr_lists rt ! l) then (EINVAL, rt)
          else (OK, rt\<lparr>cr_lists := (cr_lists rt)[l := (cr_lists rt ! l)\<lparr>dl_live := False\<rparr>],
                       cr_devices := fold (\<lambda>i ds. ds[i := (ds ! i)\<lparr>ud_live := False\<rparr>]) (dl_devices (cr_lists rt ! l)) (cr_devices rt)\<rparr>))"

definition open_device :: "client_env \<Rightarrow> pointer \<Rightarrow> client_runtime \<Rightarrow> (int + nat) option \<times> client_runtime" where
  "open_device env device rt =
     (case enter_device env device True rt of
        (None, rt) \<Rightarrow> (None, rt)
      | (Some (Inl status), rt) \<Rightarrow> (Some (Inl status), rt)
      | (Some (Inr i), rt) \<Rightarrow>
          (case cc_create_context (ce_io env) (ud_catalog_identity (cr_devices rt ! i)) (cr_client rt) of
             (Inl create_status, cc) \<Rightarrow> (Some (Inl create_status), rt\<lparr>cr_client := cc\<rparr>)
           | (Inr identity, cc) \<Rightarrow>
               let rt = rt\<lparr>cr_client := cc\<rparr>
               in if ce_oom env \<in> {Oom_object, Oom_registry} then (None, rt)
                  else (Some (Inr (length (cr_contexts rt))),
                        rt\<lparr>cr_contexts := cr_contexts rt @ [\<lparr>ux_daemon_identity = identity,
                             ux_connection_epoch = runtime_epoch rt, ux_live = True\<rparr>]\<rparr>)))"

text \<open>A status of an \<open>int\<close> method; for \<open>close_device\<close> the \<open>errno\<close> value that goes with -1.\<close>

definition close_device :: "client_env \<Rightarrow> pointer \<Rightarrow> client_runtime \<Rightarrow> int option \<times> client_runtime" where
  "close_device env context rt =
     (case enter_context env context True rt of
        (None, rt) \<Rightarrow> (None, rt)
      | (Some (Inl status), rt) \<Rightarrow> (Some status, rt)
      | (Some (Inr i), rt) \<Rightarrow>
          (case cc_destroy_context (ce_io env) (ux_daemon_identity (cr_contexts rt ! i)) (cr_client rt) of
             (destroy_status, cc) \<Rightarrow>
               if destroy_status \<noteq> OK then (Some destroy_status, rt\<lparr>cr_client := cc\<rparr>)
               else (Some OK, rt\<lparr>cr_client := cc, cr_contexts := (cr_contexts rt)[i := (cr_contexts rt ! i)\<lparr>ux_live := False\<rparr>]\<rparr>)))"

section \<open>Protection domains and memory regions\<close>

definition alloc_pd :: "client_env \<Rightarrow> pointer \<Rightarrow> client_runtime \<Rightarrow> (int + nat) option \<times> client_runtime" where
  "alloc_pd env context rt =
     (case enter_context env context True rt of
        (None, rt) \<Rightarrow> (None, rt)
      | (Some (Inl status), rt) \<Rightarrow> (Some (Inl status), rt)
      | (Some (Inr i), rt) \<Rightarrow>
          if ce_oom env = Oom_object then (None, rt)
          else case client_create_pd (ce_io env) (ux_daemon_identity (cr_contexts rt ! i)) (cr_client rt) of
            (Inl create_status, cc) \<Rightarrow> (Some (Inl create_status), rt\<lparr>cr_client := cc\<rparr>)
          | (Inr identity, cc) \<Rightarrow>
              if ce_oom env = Oom_registry
              then (None, rt\<lparr>cr_client := snd (client_destroy_pd (ce_undo_io env) identity cc)\<rparr>)
              else (Some (Inr (length (cr_pds rt))),
                    rt\<lparr>cr_client := cc, cr_pds := cr_pds rt @ [\<lparr>up_context = i, up_daemon_identity = identity,
                         up_connection_epoch = cc_epoch cc, up_live = True\<rparr>]\<rparr>))"

definition dealloc_pd :: "client_env \<Rightarrow> pointer \<Rightarrow> client_runtime \<Rightarrow> int option \<times> client_runtime" where
  "dealloc_pd env pd rt =
     (case enter_pd env pd True rt of
        (None, rt) \<Rightarrow> (None, rt)
      | (Some (Inl status), rt) \<Rightarrow> (Some status, rt)
      | (Some (Inr i), rt) \<Rightarrow>
          (case client_destroy_pd (ce_io env) (up_daemon_identity (cr_pds rt ! i)) (cr_client rt) of
             (destroy_status, cc) \<Rightarrow>
               (Some destroy_status,
                rt\<lparr>cr_client := cc,
                   cr_pds := (if destroy_status = OK then (cr_pds rt)[i := (cr_pds rt ! i)\<lparr>up_live := False\<rparr>] else cr_pds rt)\<rparr>)))"

definition reg_mr ::
  "client_env \<Rightarrow> export_calls \<Rightarrow> pointer \<Rightarrow> u64 \<Rightarrow> u64 \<Rightarrow> int \<Rightarrow> client_runtime \<Rightarrow> (int + nat) option \<times> client_runtime" where
  "reg_mr env calls pd address len access rt =
     (let arguments_ok = \<not> (address = 0 \<or> len = 0 \<or> access < 0 \<or>
            (of_int access :: u32) AND NOT (kAccessLocalWrite OR kAccessRemoteWrite) \<noteq> 0 \<or>
            (of_int access :: u32) AND kAccessRemoteWrite \<noteq> 0 \<and> (of_int access :: u32) AND kAccessLocalWrite = 0)
      in case enter_pd env pd arguments_ok rt of
        (None, rt) \<Rightarrow> (None, rt)
      | (Some (Inl status), rt) \<Rightarrow> (Some (Inl status), rt)
      | (Some (Inr i), rt) \<Rightarrow>
          if cr_next_mr_handle rt > 0xffffffff then (Some (Inl ENOSPC), rt)
          else case export_cuda_memory calls address len True of
            Inl export_status \<Rightarrow> (Some (Inl export_status), rt)
          | Inr memory \<Rightarrow>
              if ce_oom env = Oom_object then (None, rt)
              else case client_register_mr (ce_io env) (up_daemon_identity (cr_pds rt ! i)) memory (of_int access) (cr_client rt) of
                (Inl register_status, cc) \<Rightarrow> (Some (Inl register_status), rt\<lparr>cr_client := cc\<rparr>)
              | (Inr (identity, accepted), cc) \<Rightarrow>
                  let handle = ucast (cr_next_mr_handle rt);
                      rt = rt\<lparr>cr_client := cc, cr_next_mr_handle := cr_next_mr_handle rt + 1\<rparr>
                  in if ce_oom env = Oom_registry
                     then (None, rt\<lparr>cr_client := snd (client_deregister_mr (ce_undo_io env) identity cc)\<rparr>)
                     else (Some (Inr (length (cr_mrs rt))),
                           rt\<lparr>cr_mrs := cr_mrs rt @ [\<lparr>mp_value = \<lparr>um_context = up_context (cr_pds rt ! i), um_pd = i,
                                um_addr = address, um_length = len, um_handle = handle, um_lkey = rr_lkey accepted,
                                um_rkey = rr_rkey accepted\<rparr>, mp_daemon_identity = identity,
                                mp_connection_epoch = cc_epoch cc, mp_live = True\<rparr>]\<rparr>))"

definition dereg_mr :: "client_env \<Rightarrow> pointer \<Rightarrow> client_runtime \<Rightarrow> int option \<times> client_runtime" where
  "dereg_mr env mr rt =
     (case enter_mr env mr True rt of
        (None, rt) \<Rightarrow> (None, rt)
      | (Some (Inl status), rt) \<Rightarrow> (Some status, rt)
      | (Some (Inr i), rt) \<Rightarrow>
          (case client_deregister_mr (ce_io env) (mp_daemon_identity (cr_mrs rt ! i)) (cr_client rt) of
             (deregister_status, cc) \<Rightarrow>
               (Some deregister_status,
                rt\<lparr>cr_client := cc,
                   cr_mrs := (if deregister_status = OK then (cr_mrs rt)[i := (cr_mrs rt ! i)\<lparr>mp_live := False\<rparr>] else cr_mrs rt)\<rparr>)))"

section \<open>Completion queues\<close>

definition create_cq ::
  "client_env \<Rightarrow> ring_syscalls \<Rightarrow> shared_ring_header \<Rightarrow> pointer \<Rightarrow> int \<Rightarrow> u64 \<Rightarrow> bool \<Rightarrow> int \<Rightarrow> client_runtime \<Rightarrow>
   (int + nat) option \<times> client_runtime" where
  "create_cq env sys header context cqe cq_context have_channel comp_vector rt =
     (case enter_context env context (\<not> (cqe \<le> 0 \<or> have_channel \<or> comp_vector \<noteq> 0)) rt of
        (None, rt) \<Rightarrow> (None, rt)
      | (Some (Inl status), rt) \<Rightarrow> (Some (Inl status), rt)
      | (Some (Inr i), rt) \<Rightarrow>
          if ce_oom env = Oom_object then (None, rt)
          else case client_create_cq (ce_io env) (ce_undo_io env) sys header (ux_daemon_identity (cr_contexts rt ! i))
                      (of_int cqe) empty_ring (cr_client rt) of
            (Inl create_status, cc) \<Rightarrow> (Some (Inl create_status), rt\<lparr>cr_client := cc\<rparr>)
          | (Inr (identity, completions), cc) \<Rightarrow>
              if ce_oom env = Oom_registry
              then (None, rt\<lparr>cr_client := snd (client_destroy_cq (ce_undo_io env) identity cc)\<rparr>)
              else (Some (Inr (length (cr_cqs rt))),
                    rt\<lparr>cr_client := cc, cr_cqs := cr_cqs rt @ [\<lparr>uc_context = i, uc_cq_context = cq_context,
                         uc_daemon_identity = identity, uc_connection_epoch = cc_epoch cc, uc_cqe = cqe, uc_live = True,
                         uc_completions = completions\<rparr>]\<rparr>))"

definition destroy_cq :: "client_env \<Rightarrow> pointer \<Rightarrow> client_runtime \<Rightarrow> int option \<times> client_runtime" where
  "destroy_cq env cq rt =
     (case enter_cq env cq True rt of
        (None, rt) \<Rightarrow> (None, rt)
      | (Some (Inl status), rt) \<Rightarrow> (Some status, rt)
      | (Some (Inr i), rt) \<Rightarrow>
          (case client_destroy_cq (ce_io env) (uc_daemon_identity (cr_cqs rt ! i)) (cr_client rt) of
             (destroy_status, cc) \<Rightarrow>
               (Some destroy_status,
                rt\<lparr>cr_client := cc,
                   cr_cqs := (if destroy_status = OK then (cr_cqs rt)[i := kill_cq (cr_cqs rt ! i)] else cr_cqs rt)\<rparr>)))"

text \<open>Polling works on the ring of the proxy in the shared memory given as the last argument, whose other end is
  the daemon's.\<close>

definition runtime_poll_cq ::
  "completion_entry ring_env \<Rightarrow> pointer \<Rightarrow> int \<Rightarrow> bool \<Rightarrow> completion_entry ring_sys \<Rightarrow> client_runtime \<Rightarrow>
   (int \<times> ugdr_wc list) \<times> completion_entry ring_sys \<times> client_runtime" where
  "runtime_poll_cq env cq num_entries have_wc shared rt =
     (case registered (cr_cqs rt) cq of
        None \<Rightarrow> ((- EINVAL, []), shared, rt)
      | Some i \<Rightarrow>
          (case poll_cq env True (uc_live (cr_cqs rt ! i)) num_entries have_wc
                  (shared\<lparr>rs_consumer := uc_completions (cr_cqs rt ! i)\<rparr>) of
             (status, wc, shared) \<Rightarrow>
               ((status, wc), shared, rt\<lparr>cr_cqs := (cr_cqs rt)[i := (cr_cqs rt ! i)\<lparr>uc_completions := rs_consumer shared\<rparr>]\<rparr>)))"

section \<open>Queue pairs\<close>

text \<open>\<open>create_qp\<close> checks three proxies, so it does not start like the others; \<open>None\<close> for the attributes is
  \<open>nullptr\<close>. A mismatch of connections kills all three proxies, the completion queues without a reset of their
  rings.\<close>

definition unlive_cq :: "ugdr_cq \<Rightarrow> ugdr_cq" where
  "unlive_cq x = x\<lparr>uc_live := False\<rparr>"

definition qp_create_request :: "client_runtime \<Rightarrow> ugdr_qp_init_attr \<Rightarrow> nat \<Rightarrow> nat \<Rightarrow> qp_create_attributes" where
  "qp_create_request rt a send_cq recv_cq =
     \<lparr>qa_send_cq_identity = uc_daemon_identity (cr_cqs rt ! send_cq), qa_recv_cq_identity = uc_daemon_identity (cr_cqs rt ! recv_cq),
      qa_max_send_wr = qi_max_send_wr a, qa_max_recv_wr = qi_max_recv_wr a, qa_max_send_sge = qi_max_send_sge a,
      qa_max_recv_sge = qi_max_recv_sge a, qa_qp_type = qi_qp_type a, qa_sq_sig_all = of_int (qi_sq_sig_all a)\<rparr>"

definition init_attr_ok :: "client_runtime \<Rightarrow> nat \<Rightarrow> ugdr_qp_init_attr \<Rightarrow> nat \<Rightarrow> nat \<Rightarrow> bool" where
  "init_attr_ok rt i a send_cq recv_cq \<longleftrightarrow>
     \<not> (\<not> uc_live (cr_cqs rt ! send_cq) \<or> \<not> uc_live (cr_cqs rt ! recv_cq) \<or>
        up_context (cr_pds rt ! i) \<noteq> uc_context (cr_cqs rt ! send_cq) \<or>
        up_context (cr_pds rt ! i) \<noteq> uc_context (cr_cqs rt ! recv_cq) \<or>
        qi_max_send_wr a = 0 \<or> qi_max_recv_wr a = 0 \<or> qi_max_send_sge a = 0 \<or> qi_max_recv_sge a = 0 \<or>
        qi_qp_type a \<noteq> kQpTypeRc \<or> qi_sq_sig_all a \<noteq> 0 \<and> qi_sq_sig_all a \<noteq> 1)"

definition create_connected_qp ::
  "client_env \<Rightarrow> ring_syscalls \<times> shared_ring_header \<Rightarrow> ring_syscalls \<times> shared_ring_header \<Rightarrow> nat \<Rightarrow> ugdr_qp_init_attr \<Rightarrow>
   nat \<Rightarrow> nat \<Rightarrow> client_runtime \<Rightarrow> (int + nat) option \<times> client_runtime" where
  "create_connected_qp env send_sys receive_sys i a send_cq recv_cq rt =
     (if ce_oom env = Oom_object then (None, rt)
      else case client_create_qp (ce_io env) (ce_undo_io env) send_sys receive_sys (up_daemon_identity (cr_pds rt ! i))
                  (qp_create_request rt a send_cq recv_cq) empty_ring empty_ring (cr_client rt) of
        (Inl create_status, cc) \<Rightarrow> (Some (Inl create_status), rt\<lparr>cr_client := cc\<rparr>)
      | (Inr (identity, send_queue, receive_queue), cc) \<Rightarrow>
          if ce_oom env = Oom_registry
          then (None, rt\<lparr>cr_client := snd (client_destroy_qp (ce_undo_io env) identity cc)\<rparr>)
          else (Some (Inr (length (cr_qps rt))),
                rt\<lparr>cr_client := cc, cr_qps := cr_qps rt @ [\<lparr>uq_pd = i, uq_init_attr = a, uq_daemon_identity = identity,
                     uq_connection_epoch = runtime_epoch rt, uq_cached_state = kQpStateReset, uq_live = True,
                     uq_send_queue = send_queue, uq_receive_queue = receive_queue\<rparr>]\<rparr>))"

definition create_qp ::
  "client_env \<Rightarrow> ring_syscalls \<times> shared_ring_header \<Rightarrow> ring_syscalls \<times> shared_ring_header \<Rightarrow> pointer \<Rightarrow>
   ugdr_qp_init_attr option \<Rightarrow> client_runtime \<Rightarrow> (int + nat) option \<times> client_runtime" where
  "create_qp env send_sys receive_sys pd init_attr rt =
     (case (registered (cr_pds rt) pd, init_attr) of
        (Some i, Some a) \<Rightarrow>
          (case (registered (cr_cqs rt) (qi_send_cq a), registered (cr_cqs rt) (qi_recv_cq a)) of
             (Some send_cq, Some recv_cq) \<Rightarrow>
               if \<not> up_live (cr_pds rt ! i) \<or> \<not> init_attr_ok rt i a send_cq recv_cq then (Some (Inl EINVAL), rt)
               else (case ensure_connected env rt of
                  (None, rt) \<Rightarrow> (None, rt)
                | (Some connect_status, rt) \<Rightarrow>
                    if connect_status \<noteq> OK then (Some (Inl connect_status), rt)
                    else if up_connection_epoch (cr_pds rt ! i) \<noteq> runtime_epoch rt \<or>
                            uc_connection_epoch (cr_cqs rt ! send_cq) \<noteq> runtime_epoch rt \<or>
                            uc_connection_epoch (cr_cqs rt ! recv_cq) \<noteq> runtime_epoch rt
                    then (Some (Inl EINVAL),
                      rt\<lparr>cr_pds := (cr_pds rt)[i := (cr_pds rt ! i)\<lparr>up_live := False\<rparr>],
                         cr_cqs := (let cqs = (cr_cqs rt)[send_cq := unlive_cq (cr_cqs rt ! send_cq)]
                                    in cqs[recv_cq := unlive_cq (cqs ! recv_cq)])\<rparr>)
                    else create_connected_qp env send_sys receive_sys i a send_cq recv_cq rt)
           | _ \<Rightarrow> (Some (Inl EINVAL), rt))
      | _ \<Rightarrow> (Some (Inl EINVAL), rt))"

definition destroy_qp :: "client_env \<Rightarrow> pointer \<Rightarrow> client_runtime \<Rightarrow> int option \<times> client_runtime" where
  "destroy_qp env qp rt =
     (case enter_qp env qp True rt of
        (None, rt) \<Rightarrow> (None, rt)
      | (Some (Inl status), rt) \<Rightarrow> (Some status, rt)
      | (Some (Inr i), rt) \<Rightarrow>
          (case client_destroy_qp (ce_io env) (uq_daemon_identity (cr_qps rt ! i)) (cr_client rt) of
             (destroy_status, cc) \<Rightarrow>
               (Some destroy_status,
                rt\<lparr>cr_client := cc,
                   cr_qps := (if destroy_status = OK then (cr_qps rt)[i := kill_qp (cr_qps rt ! i)] else cr_qps rt)\<rparr>)))"

text \<open>A new value of the cached state.\<close>

definition cache_state :: "nat \<Rightarrow> u32 \<Rightarrow> client_runtime \<Rightarrow> client_runtime" where
  "cache_state i state rt = rt\<lparr>cr_qps := (cr_qps rt)[i := (cr_qps rt ! i)\<lparr>uq_cached_state := state\<rparr>]\<rparr>"

definition modify_qp ::
  "client_env \<Rightarrow> pointer \<Rightarrow> ugdr_qp_attr option \<Rightarrow> int \<Rightarrow> client_runtime \<Rightarrow> int option \<times> client_runtime" where
  "modify_qp env qp attr attr_mask rt =
     (case enter_qp env qp (attr \<noteq> None \<and> attr_mask \<ge> 0) rt of
        (None, rt) \<Rightarrow> (None, rt)
      | (Some (Inl status), rt) \<Rightarrow> (Some status, rt)
      | (Some (Inr i), rt) \<Rightarrow>
          let a = the attr; bits = of_int attr_mask;
              attributes = \<lparr>at_state = qt_qp_state a, at_current_state = qt_cur_qp_state a,
                at_access_flags = of_int (qt_qp_access_flags a), at_timeout = qt_timeout a,
                at_retry_count = qt_retry_cnt a, at_rnr_retry = qt_rnr_retry a, at_min_rnr_timer = qt_min_rnr_timer a\<rparr>
          in case client_modify_qp (ce_io env) (uq_daemon_identity (cr_qps rt ! i)) attributes bits (cr_client rt) of
            (status, cc) \<Rightarrow>
              let rt = rt\<lparr>cr_client := cc\<rparr>
              in (Some status, if status = OK \<and> bits AND kQpMaskState \<noteq> 0 then cache_state i (qt_qp_state a) rt else rt))"

text \<open>What the query stores through its two pointers.\<close>

definition queried_attr :: "u32 \<Rightarrow> qp_attributes \<Rightarrow> ugdr_qp_attr \<Rightarrow> ugdr_qp_attr" where
  "queried_attr bits a result =
     (let result = (if bits AND kQpMaskState \<noteq> 0 then result\<lparr>qt_qp_state := at_state a\<rparr> else result);
          result = (if bits AND kQpMaskCurrentState \<noteq> 0 then result\<lparr>qt_cur_qp_state := at_current_state a\<rparr> else result);
          result = (if bits AND kQpMaskAccess \<noteq> 0 then result\<lparr>qt_qp_access_flags := sint (at_access_flags a)\<rparr> else result);
          result = (if bits AND kQpMaskTimeout \<noteq> 0 then result\<lparr>qt_timeout := at_timeout a\<rparr> else result);
          result = (if bits AND kQpMaskRetryCount \<noteq> 0 then result\<lparr>qt_retry_cnt := at_retry_count a\<rparr> else result);
          result = (if bits AND kQpMaskRnrRetry \<noteq> 0 then result\<lparr>qt_rnr_retry := at_rnr_retry a\<rparr> else result)
      in if bits AND kQpMaskMinRnrTimer \<noteq> 0 then result\<lparr>qt_min_rnr_timer := at_min_rnr_timer a\<rparr> else result)"

definition queried_creation :: "qp_create_attributes \<Rightarrow> ugdr_qp_init_attr \<Rightarrow> ugdr_qp_init_attr" where
  "queried_creation c creation =
     creation\<lparr>qi_max_send_wr := qa_max_send_wr c, qi_max_recv_wr := qa_max_recv_wr c, qi_max_send_sge := qa_max_send_sge c,
       qi_max_recv_sge := qa_max_recv_sge c, qi_qp_type := qa_qp_type c, qi_sq_sig_all := sint (qa_sq_sig_all c)\<rparr>"

definition query_qp ::
  "client_env \<Rightarrow> pointer \<Rightarrow> ugdr_qp_attr option \<Rightarrow> int \<Rightarrow> bool \<Rightarrow> client_runtime \<Rightarrow>
   (int + ugdr_qp_attr \<times> ugdr_qp_init_attr) option \<times> client_runtime" where
  "query_qp env qp attr attr_mask have_init_attr rt =
     (case enter_qp env qp (attr \<noteq> None \<and> have_init_attr \<and> attr_mask \<ge> 0) rt of
        (None, rt) \<Rightarrow> (None, rt)
      | (Some (Inl status), rt) \<Rightarrow> (Some (Inl status), rt)
      | (Some (Inr i), rt) \<Rightarrow>
          let bits = of_int attr_mask
          in case client_query_qp (ce_io env) (uq_daemon_identity (cr_qps rt ! i)) bits (cr_client rt) of
            (Inl status, cc) \<Rightarrow> (Some (Inl status), rt\<lparr>cr_client := cc\<rparr>)
          | (Inr snapshot, cc) \<Rightarrow>
              let rt = rt\<lparr>cr_client := cc\<rparr>; a = sn_attributes snapshot
              in (Some (Inr (queried_attr bits a (the attr), queried_creation (sn_creation snapshot) (uq_init_attr (cr_qps rt ! i)))),
                  if bits AND kQpMaskState \<noteq> 0 then cache_state i (at_state a) rt else rt))"

definition query_qp_conn_info ::
  "client_env \<Rightarrow> pointer \<Rightarrow> bool \<Rightarrow> client_runtime \<Rightarrow> (int + u32) option \<times> client_runtime" where
  "query_qp_conn_info env qp have_info rt =
     (case enter_qp env qp have_info rt of
        (None, rt) \<Rightarrow> (None, rt)
      | (Some (Inl status), rt) \<Rightarrow> (Some (Inl status), rt)
      | (Some (Inr i), rt) \<Rightarrow>
          (case client_query_qp_conn_info (ce_io env) (uq_daemon_identity (cr_qps rt ! i)) (cr_client rt) of
             (answer, cc) \<Rightarrow> (Some answer, rt\<lparr>cr_client := cc\<rparr>)))"

definition connect_qp ::
  "client_env \<Rightarrow> pointer \<Rightarrow> u32 option \<Rightarrow> ugdr_qp_attr option \<Rightarrow> int \<Rightarrow> client_runtime \<Rightarrow> int option \<times> client_runtime" where
  "connect_qp env qp remote_info attr attr_mask rt =
     (case enter_qp env qp (remote_info \<noteq> None \<and> attr \<noteq> None \<and> attr_mask \<ge> 0 \<and> remote_info \<noteq> Some 0) rt of
        (None, rt) \<Rightarrow> (None, rt)
      | (Some (Inl status), rt) \<Rightarrow> (Some status, rt)
      | (Some (Inr i), rt) \<Rightarrow>
          let a = the attr;
              attributes = new_attributes\<lparr>at_timeout := qt_timeout a, at_retry_count := qt_retry_cnt a,
                at_rnr_retry := qt_rnr_retry a, at_min_rnr_timer := qt_min_rnr_timer a\<rparr>
          in case client_connect_qp (ce_io env) (uq_daemon_identity (cr_qps rt ! i)) (the remote_info) attributes
                    (of_int attr_mask) (cr_client rt) of
            (status, cc) \<Rightarrow>
              let rt = rt\<lparr>cr_client := cc\<rparr> in (Some status, if status = OK then cache_state i kQpStateRts rt else rt))"

section \<open>Posting\<close>

text \<open>The chain is empty for \<open>nullptr\<close>; the second value is the part of the chain \<open>*bad_wr\<close> points to.\<close>

definition post_send ::
  "send_slot ring_env \<Rightarrow> pointer \<Rightarrow> ugdr_send_wr list \<Rightarrow> bool \<Rightarrow> send_slot ring_sys \<Rightarrow> client_runtime \<Rightarrow>
   (int \<times> ugdr_send_wr list) \<times> send_slot ring_sys \<times> client_runtime" where
  "post_send env qp wr have_bad_wr shared rt =
     (if qp = None \<or> wr = [] \<or> \<not> have_bad_wr then ((EINVAL, if wr \<noteq> [] \<and> have_bad_wr then wr else []), shared, rt)
      else case registered (cr_qps rt) qp of
        None \<Rightarrow> ((EINVAL, wr), shared, rt)
      | Some i \<Rightarrow>
          let q = cr_qps rt ! i
          in if \<not> uq_live q \<or> uq_cached_state q \<noteq> kQpStateRts then ((EINVAL, wr), shared, rt)
             else case post_send_chain env (qi_max_send_sge (uq_init_attr q)) have_bad_wr wr (shared\<lparr>rs_producer := uq_send_queue q\<rparr>) of
               (status, bad_wr, shared) \<Rightarrow>
                 ((status, bad_wr), shared, rt\<lparr>cr_qps := (cr_qps rt)[i := q\<lparr>uq_send_queue := rs_producer shared\<rparr>]\<rparr>))"

definition post_receive ::
  "receive_slot ring_env \<Rightarrow> pointer \<Rightarrow> ugdr_recv_wr list \<Rightarrow> bool \<Rightarrow> receive_slot ring_sys \<Rightarrow> client_runtime \<Rightarrow>
   (int \<times> ugdr_recv_wr list) \<times> receive_slot ring_sys \<times> client_runtime" where
  "post_receive env qp wr have_bad_wr shared rt =
     (if qp = None \<or> wr = [] \<or> \<not> have_bad_wr then ((EINVAL, if wr \<noteq> [] \<and> have_bad_wr then wr else []), shared, rt)
      else case registered (cr_qps rt) qp of
        None \<Rightarrow> ((EINVAL, wr), shared, rt)
      | Some i \<Rightarrow>
          let q = cr_qps rt ! i
          in if \<not> uq_live q \<or> uq_cached_state q \<noteq> kQpStateInit \<and> uq_cached_state q \<noteq> kQpStateRtr \<and> uq_cached_state q \<noteq> kQpStateRts
             then ((EINVAL, wr), shared, rt)
             else case post_receive_chain env (qi_max_recv_sge (uq_init_attr q)) have_bad_wr wr (shared\<lparr>rs_producer := uq_receive_queue q\<rparr>) of
               (status, bad_wr, shared) \<Rightarrow>
                 ((status, bad_wr), shared, rt\<lparr>cr_qps := (cr_qps rt)[i := q\<lparr>uq_receive_queue := rs_producer shared\<rparr>]\<rparr>))"

section \<open>The C functions\<close>

definition catch_pointer :: "(int + 'a) option \<times> client_runtime \<Rightarrow> (int + 'a) \<times> client_runtime" where
  "catch_pointer out = (case out of (None, rt) \<Rightarrow> (Inl ENOMEM, rt) | (Some answer, rt) \<Rightarrow> (answer, rt))"

definition catch_status :: "int option \<times> client_runtime \<Rightarrow> int \<times> client_runtime" where
  "catch_status out = (case out of (None, rt) \<Rightarrow> (ENOMEM, rt) | (Some status, rt) \<Rightarrow> (status, rt))"

definition ugdr_get_device_list :: "client_env \<Rightarrow> client_runtime \<Rightarrow> (int + nat) \<times> client_runtime" where
  "ugdr_get_device_list env rt = catch_pointer (get_device_list env rt)"

definition ugdr_free_device_list :: "pointer \<Rightarrow> client_runtime \<Rightarrow> int \<times> client_runtime" where
  "ugdr_free_device_list list rt = free_device_list list rt"

definition ugdr_open_device :: "client_env \<Rightarrow> pointer \<Rightarrow> client_runtime \<Rightarrow> (int + nat) \<times> client_runtime" where
  "ugdr_open_device env device rt = catch_pointer (open_device env device rt)"

definition ugdr_close_device :: "client_env \<Rightarrow> pointer \<Rightarrow> client_runtime \<Rightarrow> int \<times> client_runtime" where
  "ugdr_close_device env context rt = catch_status (close_device env context rt)"

definition ugdr_alloc_pd :: "client_env \<Rightarrow> pointer \<Rightarrow> client_runtime \<Rightarrow> (int + nat) \<times> client_runtime" where
  "ugdr_alloc_pd env context rt = catch_pointer (alloc_pd env context rt)"

definition ugdr_dealloc_pd :: "client_env \<Rightarrow> pointer \<Rightarrow> client_runtime \<Rightarrow> int \<times> client_runtime" where
  "ugdr_dealloc_pd env pd rt = catch_status (dealloc_pd env pd rt)"

definition ugdr_reg_mr ::
  "client_env \<Rightarrow> export_calls \<Rightarrow> pointer \<Rightarrow> u64 \<Rightarrow> u64 \<Rightarrow> int \<Rightarrow> client_runtime \<Rightarrow> (int + nat) \<times> client_runtime" where
  "ugdr_reg_mr env calls pd address len access rt = catch_pointer (reg_mr env calls pd address len access rt)"

definition ugdr_dereg_mr :: "client_env \<Rightarrow> pointer \<Rightarrow> client_runtime \<Rightarrow> int \<times> client_runtime" where
  "ugdr_dereg_mr env mr rt = catch_status (dereg_mr env mr rt)"

definition ugdr_create_cq ::
  "client_env \<Rightarrow> ring_syscalls \<Rightarrow> shared_ring_header \<Rightarrow> pointer \<Rightarrow> int \<Rightarrow> u64 \<Rightarrow> bool \<Rightarrow> int \<Rightarrow> client_runtime \<Rightarrow>
   (int + nat) \<times> client_runtime" where
  "ugdr_create_cq env sys header context cqe cq_context have_channel comp_vector rt =
     catch_pointer (create_cq env sys header context cqe cq_context have_channel comp_vector rt)"

definition ugdr_destroy_cq :: "client_env \<Rightarrow> pointer \<Rightarrow> client_runtime \<Rightarrow> int \<times> client_runtime" where
  "ugdr_destroy_cq env cq rt = catch_status (destroy_cq env cq rt)"

definition ugdr_poll_cq ::
  "completion_entry ring_env \<Rightarrow> pointer \<Rightarrow> int \<Rightarrow> bool \<Rightarrow> completion_entry ring_sys \<Rightarrow> client_runtime \<Rightarrow>
   (int \<times> ugdr_wc list) \<times> completion_entry ring_sys \<times> client_runtime" where
  "ugdr_poll_cq env cq num_entries have_wc shared rt =
     (if num_entries < 0 \<or> num_entries > 0 \<and> \<not> have_wc then ((- EINVAL, []), shared, rt)
      else runtime_poll_cq env cq num_entries have_wc shared rt)"

definition ugdr_create_qp ::
  "client_env \<Rightarrow> ring_syscalls \<times> shared_ring_header \<Rightarrow> ring_syscalls \<times> shared_ring_header \<Rightarrow> pointer \<Rightarrow>
   ugdr_qp_init_attr option \<Rightarrow> client_runtime \<Rightarrow> (int + nat) \<times> client_runtime" where
  "ugdr_create_qp env send_sys receive_sys pd init_attr rt = catch_pointer (create_qp env send_sys receive_sys pd init_attr rt)"

definition ugdr_destroy_qp :: "client_env \<Rightarrow> pointer \<Rightarrow> client_runtime \<Rightarrow> int \<times> client_runtime" where
  "ugdr_destroy_qp env qp rt = catch_status (destroy_qp env qp rt)"

definition ugdr_modify_qp ::
  "client_env \<Rightarrow> pointer \<Rightarrow> ugdr_qp_attr option \<Rightarrow> int \<Rightarrow> client_runtime \<Rightarrow> int \<times> client_runtime" where
  "ugdr_modify_qp env qp attr attr_mask rt = catch_status (modify_qp env qp attr attr_mask rt)"

definition ugdr_query_qp ::
  "client_env \<Rightarrow> pointer \<Rightarrow> ugdr_qp_attr option \<Rightarrow> int \<Rightarrow> bool \<Rightarrow> client_runtime \<Rightarrow>
   (int + ugdr_qp_attr \<times> ugdr_qp_init_attr) \<times> client_runtime" where
  "ugdr_query_qp env qp attr attr_mask have_init_attr rt = catch_pointer (query_qp env qp attr attr_mask have_init_attr rt)"

definition ugdr_query_qp_conn_info ::
  "client_env \<Rightarrow> pointer \<Rightarrow> bool \<Rightarrow> client_runtime \<Rightarrow> (int + u32) \<times> client_runtime" where
  "ugdr_query_qp_conn_info env qp have_info rt = catch_pointer (query_qp_conn_info env qp have_info rt)"

definition ugdr_connect_qp ::
  "client_env \<Rightarrow> pointer \<Rightarrow> u32 option \<Rightarrow> ugdr_qp_attr option \<Rightarrow> int \<Rightarrow> client_runtime \<Rightarrow> int \<times> client_runtime" where
  "ugdr_connect_qp env qp remote_info attr attr_mask rt = catch_status (connect_qp env qp remote_info attr attr_mask rt)"

definition ugdr_post_send ::
  "send_slot ring_env \<Rightarrow> pointer \<Rightarrow> ugdr_send_wr list \<Rightarrow> bool \<Rightarrow> send_slot ring_sys \<Rightarrow> client_runtime \<Rightarrow>
   (int \<times> ugdr_send_wr list) \<times> send_slot ring_sys \<times> client_runtime" where
  "ugdr_post_send env qp wr have_bad_wr shared rt = post_send env qp wr have_bad_wr shared rt"

definition ugdr_post_recv ::
  "receive_slot ring_env \<Rightarrow> pointer \<Rightarrow> ugdr_recv_wr list \<Rightarrow> bool \<Rightarrow> receive_slot ring_sys \<Rightarrow> client_runtime \<Rightarrow>
   (int \<times> ugdr_recv_wr list) \<times> receive_slot ring_sys \<times> client_runtime" where
  "ugdr_post_recv env qp wr have_bad_wr shared rt = post_receive env qp wr have_bad_wr shared rt"

end
