(* ===== verification/Client_Handles.thy ===== *)
theory Client_Handles
  imports Client_Runtime
begin

text \<open>
  What the client library guarantees of the proxies it hands out. Every method on a proxy starts with the same
  checks; the contract of a table of proxies is the locale \<open>proxy_table\<close>, met by the six tables. Shown for runs of
  calls: proxies keep their identity, their connection and their links, a dead proxy stays dead, an object and
  the objects it was made from belong to the same connection, the rings of a live queue are those it was created
  with, memory handles are never repeated, and a proxy of an earlier connection never reaches the daemon.
\<close>

section \<open>Connecting\<close>

lemma ensure_connected_frame:
  assumes "ensure_connected env rt = (st, rt')"
  shows "rt' = rt\<lparr>cr_client := cr_client rt'\<rparr>"
  using assms by (auto simp: ensure_connected_def Let_def split: if_splits option.splits prod.splits)

lemma ensure_connected_epoch:
  assumes "ensure_connected env rt = (st, rt')"
  shows "runtime_epoch rt' = runtime_epoch rt \<or>
    \<not> client_connected (cr_client rt) \<and> runtime_epoch rt' = (if runtime_epoch rt + 1 = 0 then 1 else runtime_epoch rt + 1)"
  using assms
  by (auto simp: ensure_connected_def Let_def control_connect_def split: if_splits option.splits prod.splits)

section \<open>Tables of proxies\<close>

locale proxy_table =
  fixes objects :: "client_runtime \<Rightarrow> 'o list"
    and update :: "('o list \<Rightarrow> 'o list) \<Rightarrow> client_runtime \<Rightarrow> client_runtime"
    and live :: "'o \<Rightarrow> bool"
    and epoch :: "'o \<Rightarrow> u64"
    and kill :: "'o \<Rightarrow> 'o"
  assumes objects_update: "objects (update f rt) = f (objects rt)"
    and client_update: "cr_client (update f rt) = cr_client rt"
    and objects_client: "objects (rt\<lparr>cr_client := cc\<rparr>) = objects rt"
    and kill_dead: "\<not> live (kill x)"
    and kill_epoch: "epoch (kill x) = epoch x"
begin

abbreviation enter :: "client_env \<Rightarrow> pointer \<Rightarrow> bool \<Rightarrow> client_runtime \<Rightarrow> (int + nat) option \<times> client_runtime" where
  "enter \<equiv> enter_handle objects update live epoch kill"

lemma objects_connected: "ensure_connected env rt = (st, rt') \<Longrightarrow> objects rt' = objects rt"
  using ensure_connected_frame objects_client by metis

lemma enter_refused:
  assumes "registered (objects rt) p = None \<or> \<not> arguments_ok \<or> (\<exists>i. p = Some i \<and> i < length (objects rt) \<and> \<not> live (objects rt ! i))"
  shows "enter env p arguments_ok rt = (Some (Inl EINVAL), rt)"
  using assms by (auto simp: enter_handle_def registered_def split: option.splits)

lemma enter_accepted:
  assumes "enter env p arguments_ok rt = (Some (Inr i), rt')"
  shows "p = Some i" "i < length (objects rt)" "live (objects rt ! i)" "arguments_ok"
    "ensure_connected env rt = (Some OK, rt')" "objects rt' = objects rt" "epoch (objects rt ! i) = runtime_epoch rt'"
proof -
  show *: "p = Some i" "i < length (objects rt)" "live (objects rt ! i)" "arguments_ok" "ensure_connected env rt = (Some OK, rt')"
    using assms by (auto simp: enter_handle_def registered_def split: option.splits if_splits prod.splits)
  show "objects rt' = objects rt" by (rule objects_connected [OF *(5)])
  then show "epoch (objects rt ! i) = runtime_epoch rt'"
    using assms * by (auto simp: enter_handle_def registered_def split: if_splits)
qed

lemma enter_rejected:
  assumes "enter env p arguments_ok rt = (out, rt')" "\<And>i. out \<noteq> Some (Inr i)"
  shows "(out = None \<or> (\<exists>e. out = Some (Inl e) \<and> e \<noteq> OK)) \<and>
    (rt' = rt \<or> rt' = snd (ensure_connected env rt) \<or>
     (\<exists>i < length (objects rt). live (objects rt ! i) \<and> rt' = update (\<lambda>os. os[i := kill (os ! i)]) (snd (ensure_connected env rt))))"
  using assms by (auto simp: enter_handle_def registered_def split: option.splits if_splits prod.splits)

lemma enter_stale:
  assumes "i < length (objects rt)" "epoch (objects rt ! i) \<noteq> runtime_epoch (snd (ensure_connected env rt))"
    and "enter env (Some i) arguments_ok rt = (out, rt')"
  shows "(out = None \<or> (\<exists>e. out = Some (Inl e) \<and> e \<noteq> OK)) \<and>
    (cr_client rt' = cr_client rt \<or> cr_client rt' = cr_client (snd (ensure_connected env rt)))"
proof -
  obtain st rt1 where c: "ensure_connected env rt = (st, rt1)" by fastforce
  have no: "out \<noteq> Some (Inr j)" for j
  proof
    assume "out = Some (Inr j)"
    from enter_accepted [OF assms(3) [unfolded this]] show False using assms(2) c by simp
  qed
  from enter_rejected [OF assms(3) this] c show ?thesis by (auto simp: client_update)
qed

text \<open>The comparison of connections kills the proxy.\<close>

lemma enter_stale_kills:
  assumes "i < length (objects rt)" "live (objects rt ! i)" "ensure_connected env rt = (Some OK, rt1)"
    and "epoch (objects rt ! i) \<noteq> runtime_epoch rt1"
  shows "fst (enter env (Some i) True rt) = Some (Inl EINVAL)" "\<not> live (objects (snd (enter env (Some i) True rt)) ! i)"
  using assms objects_connected [OF assms(3)] by (auto simp: enter_handle_def registered_def objects_update kill_dead)

end

interpretation device_table: proxy_table cr_devices cr_devices_update ud_live ud_connection_epoch "\<lambda>x. x\<lparr>ud_live := False\<rparr>"
  rewrites "enter_handle cr_devices cr_devices_update ud_live ud_connection_epoch (\<lambda>x. x\<lparr>ud_live := False\<rparr>) = enter_device"
  by unfold_locales (simp_all add: enter_device_def)

interpretation context_table: proxy_table cr_contexts cr_contexts_update ux_live ux_connection_epoch "\<lambda>x. x\<lparr>ux_live := False\<rparr>"
  rewrites "enter_handle cr_contexts cr_contexts_update ux_live ux_connection_epoch (\<lambda>x. x\<lparr>ux_live := False\<rparr>) = enter_context"
  by unfold_locales (simp_all add: enter_context_def)

interpretation pd_table: proxy_table cr_pds cr_pds_update up_live up_connection_epoch "\<lambda>x. x\<lparr>up_live := False\<rparr>"
  rewrites "enter_handle cr_pds cr_pds_update up_live up_connection_epoch (\<lambda>x. x\<lparr>up_live := False\<rparr>) = enter_pd"
  by unfold_locales (simp_all add: enter_pd_def)

interpretation mr_table: proxy_table cr_mrs cr_mrs_update mp_live mp_connection_epoch "\<lambda>x. x\<lparr>mp_live := False\<rparr>"
  rewrites "enter_handle cr_mrs cr_mrs_update mp_live mp_connection_epoch (\<lambda>x. x\<lparr>mp_live := False\<rparr>) = enter_mr"
  by unfold_locales (simp_all add: enter_mr_def)

interpretation cq_table: proxy_table cr_cqs cr_cqs_update uc_live uc_connection_epoch kill_cq
  rewrites "enter_handle cr_cqs cr_cqs_update uc_live uc_connection_epoch kill_cq = enter_cq"
  by unfold_locales (simp_all add: kill_cq_def enter_cq_def)

interpretation qp_table: proxy_table cr_qps cr_qps_update uq_live uq_connection_epoch kill_qp
  rewrites "enter_handle cr_qps cr_qps_update uq_live uq_connection_epoch kill_qp = enter_qp"
  by unfold_locales (simp_all add: kill_qp_def enter_qp_def)

section \<open>Calls\<close>

datatype api_call =
    Get_device_list client_env
  | Free_device_list pointer
  | Open_device client_env pointer
  | Close_device client_env pointer
  | Alloc_pd client_env pointer
  | Dealloc_pd client_env pointer
  | Reg_mr client_env export_calls pointer u64 u64 int
  | Dereg_mr client_env pointer
  | Create_cq client_env ring_syscalls shared_ring_header pointer int u64 bool int
  | Destroy_cq client_env pointer
  | Poll_cq "completion_entry ring_env" pointer int bool "completion_entry ring_sys"
  | Create_qp client_env "ring_syscalls \<times> shared_ring_header" "ring_syscalls \<times> shared_ring_header" pointer "ugdr_qp_init_attr option"
  | Destroy_qp client_env pointer
  | Modify_qp client_env pointer "ugdr_qp_attr option" int
  | Query_qp client_env pointer "ugdr_qp_attr option" int bool
  | Query_qp_conn_info client_env pointer bool
  | Connect_qp client_env pointer "u32 option" "ugdr_qp_attr option" int
  | Post_send "send_slot ring_env" pointer "ugdr_send_wr list" bool "send_slot ring_sys"
  | Post_recv "receive_slot ring_env" pointer "ugdr_recv_wr list" bool "receive_slot ring_sys"

definition status_of :: "(int + 'a) \<times> client_runtime \<Rightarrow> int \<times> client_runtime" where
  "status_of out = (case out of (Inl e, rt) \<Rightarrow> (e, rt) | (Inr _, rt) \<Rightarrow> (OK, rt))"

definition ring_status_of :: "(int \<times> 'a) \<times> 'b \<times> client_runtime \<Rightarrow> int \<times> client_runtime" where
  "ring_status_of out = (case out of ((e, _), _, rt) \<Rightarrow> (e, rt))"

fun runtime_call :: "api_call \<Rightarrow> client_runtime \<Rightarrow> int \<times> client_runtime" where
  "runtime_call (Get_device_list env) rt = status_of (ugdr_get_device_list env rt)"
| "runtime_call (Free_device_list p) rt = ugdr_free_device_list p rt"
| "runtime_call (Open_device env p) rt = status_of (ugdr_open_device env p rt)"
| "runtime_call (Close_device env p) rt = ugdr_close_device env p rt"
| "runtime_call (Alloc_pd env p) rt = status_of (ugdr_alloc_pd env p rt)"
| "runtime_call (Dealloc_pd env p) rt = ugdr_dealloc_pd env p rt"
| "runtime_call (Reg_mr env calls p address len access) rt = status_of (ugdr_reg_mr env calls p address len access rt)"
| "runtime_call (Dereg_mr env p) rt = ugdr_dereg_mr env p rt"
| "runtime_call (Create_cq env sys h p cqe x channel vector) rt = status_of (ugdr_create_cq env sys h p cqe x channel vector rt)"
| "runtime_call (Destroy_cq env p) rt = ugdr_destroy_cq env p rt"
| "runtime_call (Poll_cq env p n have_wc shared) rt = ring_status_of (ugdr_poll_cq env p n have_wc shared rt)"
| "runtime_call (Create_qp env sys1 sys2 p a) rt = status_of (ugdr_create_qp env sys1 sys2 p a rt)"
| "runtime_call (Destroy_qp env p) rt = ugdr_destroy_qp env p rt"
| "runtime_call (Modify_qp env p a bits) rt = ugdr_modify_qp env p a bits rt"
| "runtime_call (Query_qp env p a bits have_init) rt = status_of (ugdr_query_qp env p a bits have_init rt)"
| "runtime_call (Query_qp_conn_info env p have_info) rt = status_of (ugdr_query_qp_conn_info env p have_info rt)"
| "runtime_call (Connect_qp env p remote a bits) rt = ugdr_connect_qp env p remote a bits rt"
| "runtime_call (Post_send env p wr have_bad shared) rt = ring_status_of (ugdr_post_send env p wr have_bad shared rt)"
| "runtime_call (Post_recv env p wr have_bad shared) rt = ring_status_of (ugdr_post_recv env p wr have_bad shared rt)"

definition runtime_run :: "api_call list \<Rightarrow> client_runtime \<Rightarrow> client_runtime" where
  "runtime_run calls rt = fold (\<lambda>c. snd \<circ> runtime_call c) calls rt"

section \<open>What calls leave of a table\<close>

text \<open>A table only grows, what is fixed of its proxies stays, and none of them comes back to life.\<close>

definition grows :: "('a \<Rightarrow> 'b) \<Rightarrow> ('a \<Rightarrow> bool) \<Rightarrow> 'a list \<Rightarrow> 'a list \<Rightarrow> bool" where
  "grows fixed live xs ys \<longleftrightarrow> length xs \<le> length ys \<and>
     (\<forall>i < length xs. fixed (ys ! i) = fixed (xs ! i) \<and> (live (ys ! i) \<longrightarrow> live (xs ! i)))"

lemma grows_refl [simp]: "grows fixed live xs xs"
  by (simp add: grows_def)

lemma grows_trans: "grows fixed live xs ys \<Longrightarrow> grows fixed live ys zs \<Longrightarrow> grows fixed live xs zs"
  by (simp add: grows_def)

lemma grows_append [simp]: "grows fixed live xs (xs @ ys)"
  by (simp add: grows_def nth_append)

lemma grows_replace: "fixed y = fixed (xs ! i) \<Longrightarrow> (live y \<longrightarrow> live (xs ! i)) \<Longrightarrow> grows fixed live xs (xs[i := y])"
  by (cases "i < length xs") (auto simp: grows_def nth_list_update split: if_splits)

lemma growsD: "grows fixed live xs ys \<Longrightarrow> i < length xs \<Longrightarrow> i < length ys \<and> fixed (ys ! i) = fixed (xs ! i) \<and> (live (ys ! i) \<longrightarrow> live (xs ! i))"
  by (auto simp: grows_def)

abbreviation device_fixed :: "ugdr_device \<Rightarrow> u64 \<times> u64" where
  "device_fixed x \<equiv> (ud_catalog_identity x, ud_connection_epoch x)"
abbreviation context_fixed :: "ugdr_context \<Rightarrow> u64 \<times> u64" where
  "context_fixed x \<equiv> (ux_daemon_identity x, ux_connection_epoch x)"
abbreviation pd_fixed :: "ugdr_pd \<Rightarrow> nat \<times> u64 \<times> u64" where
  "pd_fixed x \<equiv> (up_context x, up_daemon_identity x, up_connection_epoch x)"
abbreviation mr_fixed :: "mr_proxy_record \<Rightarrow> ugdr_mr \<times> u64 \<times> u64" where
  "mr_fixed x \<equiv> (mp_value x, mp_daemon_identity x, mp_connection_epoch x)"
abbreviation cq_fixed :: "ugdr_cq \<Rightarrow> nat \<times> u64 \<times> u64 \<times> int" where
  "cq_fixed x \<equiv> (uc_context x, uc_daemon_identity x, uc_connection_epoch x, uc_cqe x)"
abbreviation qp_fixed :: "ugdr_qp \<Rightarrow> nat \<times> ugdr_qp_init_attr \<times> u64 \<times> u64" where
  "qp_fixed x \<equiv> (uq_pd x, uq_init_attr x, uq_daemon_identity x, uq_connection_epoch x)"

definition evolves :: "client_runtime \<Rightarrow> client_runtime \<Rightarrow> bool" where
  "evolves rt rt' \<longleftrightarrow>
     grows device_fixed ud_live (cr_devices rt) (cr_devices rt') \<and> grows context_fixed ux_live (cr_contexts rt) (cr_contexts rt') \<and>
     grows pd_fixed up_live (cr_pds rt) (cr_pds rt') \<and> grows mr_fixed mp_live (cr_mrs rt) (cr_mrs rt') \<and>
     grows cq_fixed uc_live (cr_cqs rt) (cr_cqs rt') \<and> grows qp_fixed uq_live (cr_qps rt) (cr_qps rt')"

lemma evolves_refl [simp]: "evolves rt rt"
  by (simp add: evolves_def)

lemma evolves_trans: "evolves rt rt' \<Longrightarrow> evolves rt' rt'' \<Longrightarrow> evolves rt rt''"
  by (auto simp: evolves_def elim: grows_trans)

section \<open>The invariant\<close>

definition pd_ok :: "client_runtime \<Rightarrow> ugdr_pd \<Rightarrow> bool" where
  "pd_ok rt x \<longleftrightarrow> up_context x < length (cr_contexts rt) \<and>
     up_connection_epoch x = ux_connection_epoch (cr_contexts rt ! up_context x)"

definition mr_ok :: "client_runtime \<Rightarrow> mr_proxy_record \<Rightarrow> bool" where
  "mr_ok rt x \<longleftrightarrow> um_pd (mp_value x) < length (cr_pds rt) \<and>
     um_context (mp_value x) = up_context (cr_pds rt ! um_pd (mp_value x)) \<and>
     mp_connection_epoch x = up_connection_epoch (cr_pds rt ! um_pd (mp_value x)) \<and>
     unat (um_handle (mp_value x)) < unat (cr_next_mr_handle rt)"

text \<open>The ring a queue was created with.\<close>

definition ring_for :: "shared_ring \<Rightarrow> u16 \<Rightarrow> u32 \<Rightarrow> bool" where
  "ring_for r kind capacity \<longleftrightarrow> ring_valid r \<and> qd_kind (sr_queue_descriptor r) = kind \<and> qd_capacity (sr_queue_descriptor r) = capacity"

definition cq_ok :: "client_runtime \<Rightarrow> ugdr_cq \<Rightarrow> bool" where
  "cq_ok rt x \<longleftrightarrow> uc_context x < length (cr_contexts rt) \<and>
     uc_connection_epoch x = ux_connection_epoch (cr_contexts rt ! uc_context x) \<and> 0 < uc_cqe x \<and>
     (uc_live x \<longrightarrow> ring_for (uc_completions x) qk_completion (of_int (uc_cqe x)))"

definition cq_of_qp :: "client_runtime \<Rightarrow> ugdr_qp \<Rightarrow> pointer \<Rightarrow> bool" where
  "cq_of_qp rt x p \<longleftrightarrow> (\<exists>c. p = Some c \<and> c < length (cr_cqs rt) \<and>
     uc_context (cr_cqs rt ! c) = up_context (cr_pds rt ! uq_pd x) \<and> uc_connection_epoch (cr_cqs rt ! c) = uq_connection_epoch x)"

definition qp_ok :: "client_runtime \<Rightarrow> ugdr_qp \<Rightarrow> bool" where
  "qp_ok rt x \<longleftrightarrow> uq_pd x < length (cr_pds rt) \<and> uq_connection_epoch x = up_connection_epoch (cr_pds rt ! uq_pd x) \<and>
     cq_of_qp rt x (qi_send_cq (uq_init_attr x)) \<and> cq_of_qp rt x (qi_recv_cq (uq_init_attr x)) \<and>
     (if uq_live x
      then ring_for (uq_send_queue x) qk_send (qi_max_send_wr (uq_init_attr x)) \<and>
           ring_for (uq_receive_queue x) qk_receive (qi_max_recv_wr (uq_init_attr x))
      else \<not> ring_valid (uq_send_queue x) \<and> \<not> ring_valid (uq_receive_queue x))"

definition lists_ok :: "client_runtime \<Rightarrow> bool" where
  "lists_ok rt \<longleftrightarrow> (\<forall>l\<in>List.set (cr_lists rt). \<forall>i\<in>List.set (dl_devices l).
     i < length (cr_devices rt) \<and> (\<not> dl_live l \<longrightarrow> \<not> ud_live (cr_devices rt ! i)))"

definition runtime_inv :: "client_runtime \<Rightarrow> bool" where
  "runtime_inv rt \<longleftrightarrow> lists_ok rt \<and>
     (\<forall>x\<in>List.set (cr_pds rt). pd_ok rt x) \<and> (\<forall>x\<in>List.set (cr_mrs rt). mr_ok rt x) \<and>
     (\<forall>x\<in>List.set (cr_cqs rt). cq_ok rt x) \<and> (\<forall>x\<in>List.set (cr_qps rt). qp_ok rt x) \<and>
     sorted_wrt (<) (map (\<lambda>x. unat (um_handle (mp_value x))) (cr_mrs rt)) \<and>
     0 < unat (cr_next_mr_handle rt) \<and> unat (cr_next_mr_handle rt) \<le> 4294967296"

lemma pd_ok_mono: "evolves rt rt' \<Longrightarrow> pd_ok rt x \<Longrightarrow> pd_ok rt' x"
  by (auto simp: evolves_def pd_ok_def dest: growsD)

lemma mr_ok_mono:
  assumes "evolves rt rt'" "unat (cr_next_mr_handle rt) \<le> unat (cr_next_mr_handle rt')" "mr_ok rt x"
  shows "mr_ok rt' x"
  using assms growsD [of pd_fixed up_live "cr_pds rt" "cr_pds rt'" "um_pd (mp_value x)"] by (auto simp: evolves_def mr_ok_def)

lemma cq_ok_mono: "evolves rt rt' \<Longrightarrow> cq_ok rt x \<Longrightarrow> cq_ok rt' x"
  by (auto simp: evolves_def cq_ok_def dest: growsD)

lemma cq_of_qp_mono:
  assumes "evolves rt rt'" "uq_pd x < length (cr_pds rt)" "cq_of_qp rt x p"
  shows "cq_of_qp rt' x p"
proof -
  obtain c where c: "p = Some c" "c < length (cr_cqs rt)" "uc_context (cr_cqs rt ! c) = up_context (cr_pds rt ! uq_pd x)"
      "uc_connection_epoch (cr_cqs rt ! c) = uq_connection_epoch x" using assms(3) by (auto simp: cq_of_qp_def)
  show ?thesis
    using c assms(1,2) growsD [of cq_fixed uc_live "cr_cqs rt" "cr_cqs rt'" c] growsD [of pd_fixed up_live "cr_pds rt" "cr_pds rt'" "uq_pd x"]
    by (auto simp: evolves_def cq_of_qp_def)
qed

lemma qp_ok_mono:
  assumes "evolves rt rt'" "qp_ok rt x"
  shows "qp_ok rt' x"
  using assms cq_of_qp_mono [OF assms(1)] growsD [of pd_fixed up_live "cr_pds rt" "cr_pds rt'" "uq_pd x"]
  by (auto simp: qp_ok_def evolves_def)

section \<open>Calls of the control client\<close>

text \<open>A call never changes the connection: it may close it, but only \<open>connect\<close> opens the next one.\<close>

lemma control_call_epoch [simp]:
  "cc_epoch (snd (control_call_decoded io request cc)) = cc_epoch cc" "cc_epoch (snd (control_call io request cc)) = cc_epoch cc"
proof -
  show d: "cc_epoch (snd (control_call_decoded io request cc)) = cc_epoch cc" for cc
    by (auto simp: control_call_decoded_def control_close_def Let_def split: sum.split prod.split option.split)
  show "cc_epoch (snd (control_call io request cc)) = cc_epoch cc"
    using d [of cc] by (auto simp: control_call_def control_close_def split: sum.split prod.split)
qed

lemma control_call_epochD:
  "control_call_decoded io request cc = (out, cc') \<Longrightarrow> cc_epoch cc' = cc_epoch cc"
  "control_call io request cc = (out', cc') \<Longrightarrow> cc_epoch cc' = cc_epoch cc"
  using control_call_epoch [of io request cc] by simp_all

lemma destroy_call_epoch [simp]: "cc_epoch (snd (call_destroy io request cc)) = cc_epoch cc"
  by (auto simp: call_destroy_def dest: control_call_epochD split: sum.split prod.split)

lemma status_call_epoch [simp]:
  "cc_epoch (snd (cc_destroy_context io i cc)) = cc_epoch cc" "cc_epoch (snd (client_destroy_pd io i cc)) = cc_epoch cc"
  "cc_epoch (snd (client_deregister_mr io i cc)) = cc_epoch cc" "cc_epoch (snd (client_destroy_cq io i cc)) = cc_epoch cc"
  "cc_epoch (snd (client_destroy_qp io i cc)) = cc_epoch cc" "cc_epoch (snd (client_modify_qp io i a bits cc)) = cc_epoch cc"
  "cc_epoch (snd (client_connect_qp io i n a bits cc)) = cc_epoch cc"
  by (auto simp: cc_destroy_context_def client_destroy_pd_def client_deregister_mr_def client_destroy_cq_def client_destroy_qp_def
      client_modify_qp_def client_connect_qp_def dest: control_call_epochD split: sum.split prod.split)

lemma value_call_epoch [simp]:
  "cc_epoch (snd (cc_list_devices io cc)) = cc_epoch cc" "cc_epoch (snd (cc_create_context io i cc)) = cc_epoch cc"
  "cc_epoch (snd (client_create_pd io i cc)) = cc_epoch cc" "cc_epoch (snd (client_register_mr io i m access cc)) = cc_epoch cc"
  "cc_epoch (snd (client_query_qp io i bits cc)) = cc_epoch cc" "cc_epoch (snd (client_query_qp_conn_info io i cc)) = cc_epoch cc"
  by (auto simp: cc_list_devices_def cc_create_context_def client_create_pd_def call_identity_def client_register_mr_def Let_def
      client_query_qp_def client_query_qp_conn_info_def dest: control_call_epochD split: sum.split prod.split option.split)

lemma ring_call_epoch [simp]:
  "cc_epoch (snd (client_create_cq io io' sys h i cqe r cc)) = cc_epoch cc"
  "cc_epoch (snd (client_create_qp io io' sys1 sys2 i a r1 r2 cc)) = cc_epoch cc"
  by (auto simp: client_create_cq_def client_create_qp_def Let_def dest: control_call_epochD split: sum.split prod.split)

lemmas call_epoch = status_call_epoch value_call_epoch ring_call_epoch

section \<open>Rings\<close>

text \<open>A failing system call reports an error number.\<close>

definition errno_set :: "ring_syscalls \<Rightarrow> bool" where
  "errno_set sys \<longleftrightarrow> sy_fstat sys \<noteq> Inl 0 \<and> sy_mmap sys \<noteq> Inl 0"

lemma map_shared_ring_for:
  assumes "map_shared_ring sys h fd d True r = (OK, effects, mapped)" "errno_set sys"
  shows "ring_for mapped (qd_kind d) (qd_capacity d)"
  using assms
  by (auto simp: map_shared_ring_def ring_for_def ring_valid_def make_ring_def Let_def errno_set_def split: if_splits sum.splits)

lemma create_cq_ring:
  assumes "client_create_cq io io' sys h i cqe r cc = (Inr (identity, mapped), cc')" "errno_set sys"
  shows "ring_for mapped qk_completion cqe"
proof -
  obtain fd effects where "map_shared_ring sys h fd \<lparr>qd_kind = qk_completion, qd_capacity = cqe, qd_slot_stride = completion_slot_stride\<rparr>
      True empty_ring = (OK, effects, mapped)"
    using assms(1) by (auto simp: client_create_cq_def Let_def split: sum.splits prod.splits if_splits)
  from map_shared_ring_for [OF this assms(2)] show ?thesis by simp
qed

lemma create_qp_rings:
  assumes "client_create_qp io io' sys1 sys2 i a r1 r2 cc = (Inr (identity, send_queue, receive_queue), cc')"
    and "errno_set (fst sys1)" "errno_set (fst sys2)"
  shows "ring_for send_queue qk_send (qa_max_send_wr a)" "ring_for receive_queue qk_receive (qa_max_recv_wr a)"
proof -
  obtain fd1 fd2 e1 e2 n1 n2 where m:
      "map_shared_ring (fst sys1) (snd sys1) fd1 \<lparr>qd_kind = qk_send, qd_capacity = qa_max_send_wr a, qd_slot_stride = n1\<rparr>
        True empty_ring = (OK, e1, send_queue)"
      "map_shared_ring (fst sys2) (snd sys2) fd2 \<lparr>qd_kind = qk_receive, qd_capacity = qa_max_recv_wr a, qd_slot_stride = n2\<rparr>
        True empty_ring = (OK, e2, receive_queue)"
    using assms(1) by (auto simp: client_create_qp_def Let_def split: sum.splits prod.splits if_splits)
  from map_shared_ring_for [OF m(1) assms(2)] map_shared_ring_for [OF m(2) assms(3)]
  show "ring_for send_queue qk_send (qa_max_send_wr a)" "ring_for receive_queue qk_receive (qa_max_recv_wr a)" by simp_all
qed

lemma ring_reset_invalid [simp]: "\<not> ring_valid (snd (ring_reset r))"
  by (simp add: ring_reset_def ring_valid_def empty_ring_def)

text \<open>Posting and polling keep the mapping and the shape of a ring, as long as the other side leaves this process's
  handle alone.\<close>

definition same_ring :: "shared_ring \<Rightarrow> shared_ring \<Rightarrow> bool" where
  "same_ring r r' \<longleftrightarrow> sr_mapping r' = sr_mapping r \<and> sr_queue_descriptor r' = sr_queue_descriptor r"

definition keeps_producer :: "'a ring_env \<Rightarrow> bool" where
  "keeps_producer env \<longleftrightarrow> (\<forall>k s. rs_producer (fst (env k s)) = rs_producer s)"

definition keeps_consumer :: "'a ring_env \<Rightarrow> bool" where
  "keeps_consumer env \<longleftrightarrow> (\<forall>k s. rs_consumer (fst (env k s)) = rs_consumer s)"

lemma same_ring_for: "same_ring r r' \<Longrightarrow> ring_for r' kind capacity = ring_for r kind capacity"
  by (simp add: same_ring_def ring_for_def ring_valid_def)

lemma reserve_same:
  assumes "producer_reserve t h1 h2 m hb r = (st, r', b)"
  shows "same_ring r r'"
proof -
  have "case producer_reserve t h1 h2 m hb r of (st, r', b) \<Rightarrow> same_ring r r'"
    by (simp add: producer_reserve_def producer_init_def same_ring_def Let_def)
  then show ?thesis using assms by simp
qed

lemma publish_same: "producer_publish n r = (st, v, r') \<Longrightarrow> same_ring r r'"
  by (auto simp: producer_publish_def same_ring_def Let_def split: if_splits)

lemma same_ring_trans: "same_ring r r' \<Longrightarrow> same_ring r' r'' \<Longrightarrow> same_ring r r''"
  by (simp add: same_ring_def)

lemma post_loop_same:
  assumes env: "keeps_producer env"
  shows "same_ring (rs_producer s) (rs_producer (snd (snd (post_loop valid enc env k wr s))))"
proof (induction wr arbitrary: k s rule: length_induct)
  case (1 wr)
  obtain s0 h1 h2 where e: "env k s = (s0, h1, h2)" by (metis prod_cases3)
  have s0: "rs_producer s0 = rs_producer s" using env e by (metis fst_conv keeps_producer_def)
  obtain st r b where res: "producer_reserve (rs_tail s0) h1 h2 (qd_capacity (ring_desc s0)) True (rs_producer s0) = (st, r, b)"
    by (metis prod_cases3)
  note same = reserve_same [OF res, unfolded s0]
  show ?case
  proof (cases "wr = [] \<or> b = None")
    case True
    then show ?thesis using same e res by (subst post_loop.simps) (auto simp: same_ring_def)
  next
    case False
    then obtain batch where b: "b = Some batch" by auto
    obtain ok n rest slots where f: "fill_batch valid enc (unat (qd_slot_stride (ring_desc s0))) batch wr (rs_slots s0) = (ok, n, rest, slots)"
      by (metis prod_cases4)
    obtain ps v r' where p: "producer_publish (of_nat n) r = (ps, v, r')" by (metis prod_cases3)
    have r': "same_ring (rs_producer s) r'" by (rule same_ring_trans [OF same publish_same [OF p]])
    let ?s1 = "s0\<lparr>rs_producer := r', rs_slots := slots, rs_tail := (case v of Some v \<Rightarrow> v | None \<Rightarrow> rs_tail s0)\<rparr>"
    have "post_loop valid enc env k wr s = (if ps \<noteq> OK then (ps, rest, ?s1) else if \<not> ok then (EINVAL, rest, ?s1) else post_loop valid enc env (Suc k) rest ?s1)"
      using False e res b f p by (subst post_loop.simps) simp
    moreover have "same_ring (rs_producer s) (rs_producer (snd (snd (post_loop valid enc env (Suc k) rest ?s1))))" if "ok"
    proof -
      have "length rest < length wr" using post_progress [OF res [unfolded b] f [unfolded eqTrueI [OF that]]] False by simp
      from 1 [rule_format, OF this, of ?s1 "Suc k"] have "same_ring r' (rs_producer (snd (snd (post_loop valid enc env (Suc k) rest ?s1))))" by simp
      then show ?thesis by (rule same_ring_trans [OF r'])
    qed
    ultimately show ?thesis using r' by simp
  qed
qed

lemma post_chain_same:
  assumes "keeps_producer env"
  shows "same_ring (rs_producer s) (rs_producer (snd (snd (post_chain valid enc env hb wr s))))"
  using post_loop_same [OF assms, of s valid enc 0 wr] by (simp add: post_chain_def same_ring_def)

lemma post_send_same:
  assumes "keeps_producer env"
  shows "same_ring (rs_producer s) (rs_producer (snd (snd (post_send_chain env n hb wr s))))"
  using post_chain_same [OF assms, of s "valid_send_wr n" encode_send hb wr] by (simp add: post_send_chain_def same_ring_def)

lemma post_receive_same:
  assumes "keeps_producer env"
  shows "same_ring (rs_producer s) (rs_producer (snd (snd (post_receive_chain env n hb wr s))))"
  using post_chain_same [OF assms, of s "valid_receive_wr n" encode_receive hb wr] by (simp add: post_receive_chain_def same_ring_def)

lemma poll_same:
  assumes "keeps_consumer env"
  shows "same_ring (rs_consumer s) (rs_consumer (snd (snd (poll_cq env known alive n have_wc s))))"
proof -
  obtain s0 t1 t2 where e: "env 0 s = (s0, t1, t2)" by (metis prod_cases3)
  have s0: "rs_consumer s0 = rs_consumer s" using assms e by (metis fst_conv keeps_consumer_def)
  obtain st r b where p: "consumer_peek (rs_head s0) t1 t2 (of_int n) True (rs_consumer s0) = (st, r, b)" by (metis prod_cases3)
  have "case consumer_peek (rs_head s0) t1 t2 (of_int n) True (rs_consumer s0) of (st, r, b) \<Rightarrow> same_ring (rs_consumer s) r"
    by (simp add: consumer_peek_def consumer_init_def same_ring_def Let_def s0)
  then have r: "same_ring (rs_consumer s) r" using p by simp
  have "same_ring r r'" if "consumer_release m r = (rst, v, r')" for m rst v r'
    using that by (auto simp: consumer_release_def same_ring_def Let_def split: if_splits)
  then have "same_ring (rs_consumer s) r'" if "consumer_release m r = (rst, v, r')" for m rst v r'
    using same_ring_trans [OF r] that by blast
  moreover have "same_ring (rs_consumer s) (rs_consumer s)" by (simp add: same_ring_def)
  ultimately show ?thesis using e p r by (auto simp: poll_cq_def Let_def split: option.split prod.split)
qed

section \<open>Every call keeps the invariant\<close>

definition keeps :: "client_runtime \<Rightarrow> client_runtime \<Rightarrow> bool" where
  "keeps rt rt' \<longleftrightarrow> evolves rt rt' \<and> (runtime_inv rt \<longrightarrow> runtime_inv rt')"

lemma keeps_refl [simp]: "keeps rt rt"
  by (simp add: keeps_def)

lemma keeps_trans: "keeps rt rt' \<Longrightarrow> keeps rt' rt'' \<Longrightarrow> keeps rt rt''"
  by (auto simp: keeps_def elim: evolves_trans)

lemmas element_ok_defs = lists_ok_def pd_ok_def mr_ok_def cq_ok_def cq_of_qp_def qp_ok_def

lemma client_irrelevant [simp]:
  "runtime_inv (rt\<lparr>cr_client := cc\<rparr>) = runtime_inv rt" "evolves rt (rt'\<lparr>cr_client := cc\<rparr>) = evolves rt rt'"
  "keeps rt (rt'\<lparr>cr_client := cc\<rparr>) = keeps rt rt'"
  by (simp_all add: runtime_inv_def element_ok_defs evolves_def keeps_def)

lemma keeps_connected [simp]: "keeps rt (snd (ensure_connected env rt))"
  using ensure_connected_frame [of env rt] by (metis client_irrelevant(3) keeps_refl prod.collapse)

lemma keepsI:
  assumes ev: "evolves rt rt'"
    and next_handle: "unat (cr_next_mr_handle rt) \<le> unat (cr_next_mr_handle rt')"
    and lists: "runtime_inv rt \<Longrightarrow> lists_ok rt'"
    and pds: "\<And>x. runtime_inv rt \<Longrightarrow> x \<in> List.set (cr_pds rt') \<Longrightarrow> x \<in> List.set (cr_pds rt) \<or> pd_ok rt' x"
    and mrs: "\<And>x. runtime_inv rt \<Longrightarrow> x \<in> List.set (cr_mrs rt') \<Longrightarrow> x \<in> List.set (cr_mrs rt) \<or> mr_ok rt' x"
    and cqs: "\<And>x. runtime_inv rt \<Longrightarrow> x \<in> List.set (cr_cqs rt') \<Longrightarrow> x \<in> List.set (cr_cqs rt) \<or> cq_ok rt' x"
    and qps: "\<And>x. runtime_inv rt \<Longrightarrow> x \<in> List.set (cr_qps rt') \<Longrightarrow> x \<in> List.set (cr_qps rt) \<or> qp_ok rt' x"
    and handles: "runtime_inv rt \<Longrightarrow> sorted_wrt (<) (map (\<lambda>x. unat (um_handle (mp_value x))) (cr_mrs rt')) \<and>
      unat (cr_next_mr_handle rt') \<le> 4294967296"
  shows "keeps rt rt'"
  unfolding keeps_def
proof (intro conjI impI)
  assume inv: "runtime_inv rt"
  note i = inv [unfolded runtime_inv_def]
  have "\<forall>x\<in>List.set (cr_pds rt'). pd_ok rt' x" using pds [OF inv] i pd_ok_mono [OF ev] by blast
  moreover have "\<forall>x\<in>List.set (cr_mrs rt'). mr_ok rt' x" using mrs [OF inv] i mr_ok_mono [OF ev next_handle] by blast
  moreover have "\<forall>x\<in>List.set (cr_cqs rt'). cq_ok rt' x" using cqs [OF inv] i cq_ok_mono [OF ev] by blast
  moreover have "\<forall>x\<in>List.set (cr_qps rt'). qp_ok rt' x" using qps [OF inv] i qp_ok_mono [OF ev] by blast
  ultimately show "runtime_inv rt'" using lists [OF inv] handles [OF inv] next_handle i by (auto simp: runtime_inv_def)
qed (rule ev)

text \<open>The changes the methods make, one table at a time.\<close>

lemma lists_ok_other: "lists_ok rt \<Longrightarrow> cr_lists rt' = cr_lists rt \<Longrightarrow> cr_devices rt' = cr_devices rt \<Longrightarrow> lists_ok rt'"
  by (simp add: lists_ok_def)

lemma inv_parts:
  assumes "runtime_inv rt"
  shows "lists_ok rt" "sorted_wrt (<) (map (\<lambda>x. unat (um_handle (mp_value x))) (cr_mrs rt))" "unat (cr_next_mr_handle rt) \<le> 4294967296"
    and "i < length (cr_pds rt) \<Longrightarrow> pd_ok rt (cr_pds rt ! i)" "j < length (cr_mrs rt) \<Longrightarrow> mr_ok rt (cr_mrs rt ! j)"
    and "k < length (cr_cqs rt) \<Longrightarrow> cq_ok rt (cr_cqs rt ! k)" "l < length (cr_qps rt) \<Longrightarrow> qp_ok rt (cr_qps rt ! l)"
  using assms by (auto simp: runtime_inv_def)


lemma keeps_contexts:
  assumes "grows context_fixed ux_live (cr_contexts rt) cs"
  shows "keeps rt (rt\<lparr>cr_contexts := cs\<rparr>)"
  by (rule keepsI) (use assms in \<open>auto simp: evolves_def dest: inv_parts intro: lists_ok_other\<close>)

lemma keeps_pds:
  assumes "grows pd_fixed up_live (cr_pds rt) ps" "\<And>x. runtime_inv rt \<Longrightarrow> x \<in> List.set ps \<Longrightarrow> pd_ok rt x"
  shows "keeps rt (rt\<lparr>cr_pds := ps\<rparr>)"
  by (rule keepsI) (use assms in \<open>auto simp: evolves_def pd_ok_def dest: inv_parts intro: lists_ok_other\<close>)

lemma keeps_cqs:
  assumes "grows cq_fixed uc_live (cr_cqs rt) cs" "\<And>x. runtime_inv rt \<Longrightarrow> x \<in> List.set cs \<Longrightarrow> cq_ok rt x"
  shows "keeps rt (rt\<lparr>cr_cqs := cs\<rparr>)"
  by (rule keepsI) (use assms in \<open>auto simp: evolves_def cq_ok_def dest: inv_parts intro: lists_ok_other\<close>)

lemma qp_ok_qps [simp]: "qp_ok (rt\<lparr>cr_qps := qs\<rparr>) x = qp_ok rt x"
  by (simp add: qp_ok_def cq_of_qp_def)

lemma keeps_qps:
  assumes "grows qp_fixed uq_live (cr_qps rt) qs" "\<And>x. runtime_inv rt \<Longrightarrow> x \<in> List.set qs \<Longrightarrow> qp_ok rt x"
  shows "keeps rt (rt\<lparr>cr_qps := qs\<rparr>)"
  by (rule keepsI) (use assms in \<open>auto simp: evolves_def dest: inv_parts intro: lists_ok_other\<close>)

lemma keeps_mrs:
  assumes "grows mr_fixed mp_live (cr_mrs rt) ms" "\<And>x. runtime_inv rt \<Longrightarrow> x \<in> List.set ms \<Longrightarrow> mr_ok (rt\<lparr>cr_next_mr_handle := n\<rparr>) x"
    and "unat (cr_next_mr_handle rt) \<le> unat n" "unat n \<le> 4294967296 \<or> n = cr_next_mr_handle rt"
    and "runtime_inv rt \<Longrightarrow> sorted_wrt (<) (map (\<lambda>x. unat (um_handle (mp_value x))) ms)"
  shows "keeps rt (rt\<lparr>cr_mrs := ms, cr_next_mr_handle := n\<rparr>)"
  by (rule keepsI) (use assms in \<open>auto simp: evolves_def mr_ok_def dest: inv_parts intro: lists_ok_other\<close>)

text \<open>A proxy replaced by one with the same fixed part, and a new one.\<close>

lemma set_replaced: "x \<in> List.set (xs[i := y]) \<Longrightarrow> x \<in> List.set xs \<or> x = y \<and> i < length xs"
  using set_update_subset_insert [of xs i y] by (cases "i < length xs") (auto simp: list_update_beyond)

lemma kill_qp_fixed: "qp_fixed (kill_qp x) = qp_fixed x" "\<not> uq_live (kill_qp x)"
  by (simp_all add: kill_qp_def)

lemma changed_qp_ok:
  "qp_ok rt x \<Longrightarrow> qp_ok rt (kill_qp x)" "qp_ok rt (x\<lparr>uq_cached_state := st\<rparr>) = qp_ok rt x"
proof -
  have "cq_of_qp rt (kill_qp x) p = cq_of_qp rt x p" "cq_of_qp rt (x\<lparr>uq_cached_state := st\<rparr>) p = cq_of_qp rt x p" for p
    by (simp_all add: cq_of_qp_def kill_qp_def)
  then show "qp_ok rt x \<Longrightarrow> qp_ok rt (kill_qp x)" "qp_ok rt (x\<lparr>uq_cached_state := st\<rparr>) = qp_ok rt x"
    by (simp_all add: qp_ok_def) (simp add: kill_qp_def)
qed

lemma keeps_replace:
  "keeps rt (rt\<lparr>cr_contexts := (cr_contexts rt)[i := (cr_contexts rt ! i)\<lparr>ux_live := False\<rparr>]\<rparr>)"
  "keeps rt (rt\<lparr>cr_pds := (cr_pds rt)[i := (cr_pds rt ! i)\<lparr>up_live := False\<rparr>]\<rparr>)"
  "keeps rt (rt\<lparr>cr_mrs := (cr_mrs rt)[i := (cr_mrs rt ! i)\<lparr>mp_live := False\<rparr>]\<rparr>)"
  "keeps rt (rt\<lparr>cr_cqs := (cr_cqs rt)[i := kill_cq (cr_cqs rt ! i)]\<rparr>)"
  "keeps rt (rt\<lparr>cr_cqs := (cr_cqs rt)[i := unlive_cq (cr_cqs rt ! i)]\<rparr>)"
  "keeps rt (rt\<lparr>cr_qps := (cr_qps rt)[i := kill_qp (cr_qps rt ! i)]\<rparr>)"
  "keeps rt (cache_state i st rt)"
proof -
  show "keeps rt (rt\<lparr>cr_contexts := (cr_contexts rt)[i := (cr_contexts rt ! i)\<lparr>ux_live := False\<rparr>]\<rparr>)"
    by (intro keeps_contexts grows_replace) simp_all
  show "keeps rt (rt\<lparr>cr_pds := (cr_pds rt)[i := (cr_pds rt ! i)\<lparr>up_live := False\<rparr>]\<rparr>)"
    by (intro keeps_pds grows_replace) (auto dest!: set_replaced simp: runtime_inv_def pd_ok_def)
  have m: "map (\<lambda>x. unat (um_handle (mp_value x))) ((cr_mrs rt)[i := (cr_mrs rt ! i)\<lparr>mp_live := False\<rparr>]) =
      map (\<lambda>x. unat (um_handle (mp_value x))) (cr_mrs rt)"
    by (cases "i < length (cr_mrs rt)") (auto intro!: nth_equalityI simp: nth_list_update)
  have "keeps rt (rt\<lparr>cr_mrs := (cr_mrs rt)[i := (cr_mrs rt ! i)\<lparr>mp_live := False\<rparr>], cr_next_mr_handle := cr_next_mr_handle rt\<rparr>)"
    by (intro keeps_mrs grows_replace) (auto dest!: set_replaced simp: runtime_inv_def mr_ok_def m)
  then show "keeps rt (rt\<lparr>cr_mrs := (cr_mrs rt)[i := (cr_mrs rt ! i)\<lparr>mp_live := False\<rparr>]\<rparr>)" by simp
  show "keeps rt (rt\<lparr>cr_cqs := (cr_cqs rt)[i := kill_cq (cr_cqs rt ! i)]\<rparr>)" "keeps rt (rt\<lparr>cr_cqs := (cr_cqs rt)[i := unlive_cq (cr_cqs rt ! i)]\<rparr>)"
    by (intro keeps_cqs grows_replace; auto dest!: set_replaced simp: runtime_inv_def cq_ok_def kill_cq_def unlive_cq_def)+
  show "keeps rt (rt\<lparr>cr_qps := (cr_qps rt)[i := kill_qp (cr_qps rt ! i)]\<rparr>)"
    by (intro keeps_qps grows_replace) (auto dest!: set_replaced simp: runtime_inv_def changed_qp_ok kill_qp_fixed)
  show "keeps rt (cache_state i st rt)" unfolding cache_state_def
    by (intro keeps_qps grows_replace) (auto dest!: set_replaced simp: runtime_inv_def changed_qp_ok)
qed

lemma keeps_new:
  "keeps rt (rt\<lparr>cr_contexts := cr_contexts rt @ [c]\<rparr>)"
  "pd_ok rt p \<Longrightarrow> keeps rt (rt\<lparr>cr_pds := cr_pds rt @ [p]\<rparr>)"
  "cq_ok rt q \<Longrightarrow> keeps rt (rt\<lparr>cr_cqs := cr_cqs rt @ [q]\<rparr>)"
  "(runtime_inv rt \<Longrightarrow> qp_ok rt x) \<Longrightarrow> keeps rt (rt\<lparr>cr_qps := cr_qps rt @ [x]\<rparr>)"
  by (auto intro!: keeps_contexts keeps_pds keeps_cqs keeps_qps simp: runtime_inv_def)

end
