(* ===== verification/Daemon.thy ===== *)
theory Daemon
  imports Control_Service
begin

text \<open>
  \<^verbatim>\<open>apps/daemon/main.cpp\<close>: the control service behind the IPC adapter and the IPC server, from the start of the
  process to its end. The service meets the contract \<open>session_handler\<close> of \<open>Ipc_Session\<close> with the invariant that
  its objects are consistent and belong to connected sessions. So a daemon that runs holds nothing of a client
  that is gone, and one that has ended holds nothing at all.
\<close>

section \<open>The process\<close>

text \<open>One round of the loop: the world the requests of the round are handled in, and the system calls of the poll.
  The list of rounds ends with the signal that asks the daemon to stop.\<close>

fun server_loop :: "(control_world \<times> poll_calls) list \<Rightarrow> qp_service ipc_server \<Rightarrow> int \<times> qp_service ipc_server" where
  "server_loop [] sv = (0, sv)"
| "server_loop ((w, sys) # rounds) sv =
     (case poll_once (control_ipc_handle (qp_handle w)) (qp_on_disconnect w) sys sv of
        (poll_status, sv') \<Rightarrow> if poll_status \<noteq> OK then (1, sv') else server_loop rounds sv')"

text \<open>\<open>run_server\<close>; when it returns, the destructor of the server closes it in the world given.\<close>

definition run_server ::
  "start_calls \<Rightarrow> (control_world \<times> poll_calls) list \<Rightarrow> control_world \<times> path_stat option \<Rightarrow> string \<Rightarrow> int \<times> qp_service ipc_server" where
  "run_server start rounds finish socket_path =
     (let closed = (\<lambda>sv. snd (server_close (qp_on_disconnect (fst finish)) (snd finish) sv))
      in case server_start start socket_path (new_server (new_qp_service default_catalog)) of
        (start_status, _, sv) \<Rightarrow>
          if start_status \<noteq> OK then (1, closed sv)
          else case server_loop rounds sv of (code, sv') \<Rightarrow> (code, closed sv'))"

text \<open>The command line without the program name: \<open>Inl\<close> of the exit code of a process that never serves, or the
  path to serve.\<close>

definition daemon_socket_path :: "string list \<Rightarrow> string option \<Rightarrow> int + string" where
  "daemon_socket_path arguments configured =
     (if length arguments = 2 \<and> arguments ! 0 = ''--socket'' then Inr (arguments ! 1)
      else if length arguments = 1 \<and> arguments ! 0 = ''--help'' then Inl 0
      else if arguments \<noteq> [] then Inl 2
      else Inr (case configured of Some path \<Rightarrow> if path \<noteq> [] then path else ''/run/ugdr/ugdr.sock'' | None \<Rightarrow> ''/run/ugdr/ugdr.sock''))"

definition daemon_main ::
  "string list \<Rightarrow> string option \<Rightarrow> start_calls \<Rightarrow> (control_world \<times> poll_calls) list \<Rightarrow> control_world \<times> path_stat option \<Rightarrow> int" where
  "daemon_main arguments configured start rounds finish =
     (case daemon_socket_path arguments configured of
        Inl code \<Rightarrow> code
      | Inr path \<Rightarrow> fst (run_server start rounds finish path))"

section \<open>Objects belong to connected sessions\<close>

definition service_within :: "u64 set \<Rightarrow> qp_service \<Rightarrow> bool" where
  "service_within S s \<longleftrightarrow> qp_inv s \<and> owned_by S (contexts_of s) \<and> owned_by S (pds_of s) \<and> owned_by S (mrs_of s) \<and>
     owned_by S (cqs_of s) \<and> owned_by S (qps_of s)"

lemma owned_by_foreign: "foreign_same sid m m' \<Longrightarrow> owned_by S m \<Longrightarrow> sid \<in> S \<Longrightarrow> owned_by S m'"
  unfolding foreign_same_def owned_by_def by metis

lemma owned_by_none: "owned_by {} m \<longleftrightarrow> m = Map.empty"
  by (auto simp: owned_by_def fun_eq_iff) (metis not_None_eq old.prod.exhaust)

lemma qp_handle_within:
  assumes "service_within S s" "sid \<in> S"
  shows "service_within S (snd (qp_handle w s sid rq))"
proof -
  have "qp_step sid s (snd (qp_handle w s sid rq))"
    using qp_handle_ok [of s sid w rq] assms(1) by (simp add: service_within_def qp_outcome_ok_def)
  then show ?thesis using assms by (auto simp: service_within_def qp_step_def intro: owned_by_foreign)
qed

lemma disconnect_within:
  assumes "service_within S s"
  shows "service_within (S - {sid}) (qp_on_disconnect w sid s)"
  using assms qp_on_disconnect_ok [of s w sid] by (simp add: service_within_def owned_by_drop)

lemma ipc_handle_within:
  assumes "service_within S s" "sid \<in> S"
  shows "service_within S (snd (control_ipc_handle (qp_handle w) s sid m))"
proof (cases "decode_request m")
  case (Inr rq)
  obtain response fds s' where h: "qp_handle w s sid rq = ((response, fds), s')" by (metis prod.collapse)
  have "snd (control_ipc_handle (qp_handle w) s sid m) = s'"
    using Inr h by (simp add: control_ipc_handle_def Let_def split: sum.split)
  then show ?thesis using qp_handle_within [OF assms, of w rq] h by simp
qed (use assms in \<open>simp add: control_ipc_handle_def Let_def\<close>)

interpretation daemon: session_handler service_within "control_ipc_handle (qp_handle w)" "qp_on_disconnect w" for w
  by unfold_locales (fact ipc_handle_within, fact disconnect_within, auto simp: service_within_def intro: owned_by_mono)

section \<open>From start to end\<close>

text \<open>The number of connections accepted in a list of rounds is bounded by the calls of \<open>accept4\<close> made.\<close>

definition accept_count :: "(control_world \<times> poll_calls) list \<Rightarrow> nat" where
  "accept_count rounds = sum_list (map (\<lambda>(w, sys). length (pl_accepts sys)) rounds)"

lemma accept_next_id:
  assumes "unat (sv_next_session_id sv) + length outcomes < 18446744073709551616"
  shows "unat (sv_next_session_id (snd (accept_ready_connections outcomes sv))) \<le> unat (sv_next_session_id sv) + length outcomes"
  using assms
proof (induction outcomes sv rule: accept_ready_connections.induct)
  case (3 accepted rest sv)
  have n: "unat (sv_next_session_id sv + 1) = unat (sv_next_session_id sv) + 1"
    using unat_add_u64 [of "sv_next_session_id sv" 1] 3(2) by simp
  then have nz: "sv_next_session_id sv + 1 \<noteq> 0" by (metis Suc_eq_plus1 nat.distinct(1) unat_0)
  from 3(1) [OF refl refl] 3(2) show ?case using n nz by (simp add: Let_def)
qed auto

lemma serve_next_id:
  "sv_next_session_id (fst (serve_connection handle on_disc io fd sv)) = sv_next_session_id sv"
  by (auto simp: serve_connection_def close_session_def Let_def split: option.split receive_result.split prod.split)

lemma serve_all_next_id: "sv_next_session_id (serve_all handle on_disc io fds sv) = sv_next_session_id sv"
  by (induction fds arbitrary: sv) (simp_all add: serve_next_id)

lemma poll_next_id:
  assumes "unat (sv_next_session_id sv) + length (pl_accepts sys) < 18446744073709551616"
  shows "unat (sv_next_session_id (snd (poll_once handle on_disc sys sv))) \<le> unat (sv_next_session_id sv) + length (pl_accepts sys)"
  using accept_next_id [OF assms] by (auto simp: poll_once_def Let_def serve_all_next_id split: sum.split prod.split)

lemma server_loop_inv:
  assumes "daemon.sinv sv" "unat (sv_next_session_id sv) + accept_count rounds < 18446744073709551616"
  shows "daemon.sinv (snd (server_loop rounds sv))"
  using assms
proof (induction rounds sv rule: server_loop.induct)
  case (2 w sys rounds sv)
  obtain st sv' where p: "poll_once (control_ipc_handle (qp_handle w)) (qp_on_disconnect w) sys sv = (st, sv')" by fastforce
  have b: "unat (sv_next_session_id sv) + length (pl_accepts sys) < 18446744073709551616" using 2(3) by (simp add: accept_count_def)
  have inv: "daemon.sinv sv'" using daemon.poll_once_inv [OF 2(2) b, of w] p by simp
  have "unat (sv_next_session_id sv') \<le> unat (sv_next_session_id sv) + length (pl_accepts sys)"
    using poll_next_id [OF b, of "control_ipc_handle (qp_handle w)" "qp_on_disconnect w"] p by simp
  then have "unat (sv_next_session_id sv') + accept_count rounds < 18446744073709551616" using 2(3) by (simp add: accept_count_def)
  then show ?case using 2(1) [OF p [symmetric]] inv p by simp
qed simp

lemma fresh_server_inv: "daemon.sinv (new_server (new_qp_service catalog))"
  by (simp add: daemon.sinv_def server_inv_def session_ids_def new_server_def service_within_def new_qp_service_inv owned_by_none)
     (simp add: new_qp_service_def new_registry_entries)

lemma started_inv:
  assumes "server_start start path (new_server (new_qp_service catalog)) = (st, unlinked, sv)"
  shows "daemon.sinv sv" "sv_next_session_id sv = 1"
proof -
  have "sv_handler sv = new_qp_service catalog \<and> sv_connections sv = [] \<and> sv_next_session_id sv = 1"
    using assms by (auto simp: server_start_def new_server_def remove_socket_path_def Let_def split: if_splits option.splits sum.splits)
  then show "daemon.sinv sv" "sv_next_session_id sv = 1"
    using fresh_server_inv [of catalog] by (auto simp: daemon.sinv_def server_inv_def session_ids_def new_server_def)
qed

lemma closed_empty:
  assumes "daemon.sinv sv" "sv' = snd (server_close (qp_on_disconnect w) lstat sv)"
  shows "sv_connections sv' = [] \<and> service_within {} (sv_handler sv')"
  using daemon.server_close_inv [OF assms(1), of w lstat] close_all_none [of "qp_on_disconnect w" sv] assms(2)
  by (simp add: server_close_def remove_socket_path_def)

lemma service_within_none:
  assumes "service_within {} s"
  shows "contexts_of s = Map.empty \<and> pds_of s = Map.empty \<and> mrs_of s = Map.empty \<and> cqs_of s = Map.empty \<and> qps_of s = Map.empty \<and>
    (closes_succeed (pm_memory_backend s) \<longrightarrow> held (pm_memory_backend s) = {#})"
proof -
  have m: "mrs_of s = Map.empty" using assms by (simp add: service_within_def owned_by_none)
  have "mappings_ok (pm_memory_backend s) (mrs_of s)"
    using control_invD(8) [OF qp_invD(1)] assms by (auto simp: service_within_def)
  then show ?thesis using assms unfolding m by (simp add: service_within_def owned_by_none mappings_ok_def)
qed

text \<open>C10. While the daemon serves, in whatever worlds and with whatever system calls its rounds run, the sessions of its
  connections are distinct and every context, PD, memory region, CQ and queue pair belongs to one of them:
  nothing of a client that is gone is left. When the process ends, for whatever reason, all connections are
  closed and all five tables are empty, and if the memory backend closed what it was asked to close, no mapping is
  left open. (The session counter does not wrap round: fewer than 2 to the 64 connections are accepted.)\<close>

theorem daemon_releases_everything:
  assumes "accept_count rounds + 1 < 18446744073709551616"
    and "server_start start path (new_server (new_qp_service default_catalog)) = (OK, unlinked, sv0)"
    and "server_loop rounds sv0 = (code, sv)" "run_server start rounds finish path = (code', sv')" "s' = sv_handler sv'"
  shows "distinct (map snd (sv_connections sv)) \<and>
    owned_by (session_ids sv) (contexts_of (sv_handler sv)) \<and> owned_by (session_ids sv) (pds_of (sv_handler sv)) \<and>
    owned_by (session_ids sv) (mrs_of (sv_handler sv)) \<and> owned_by (session_ids sv) (cqs_of (sv_handler sv)) \<and>
    owned_by (session_ids sv) (qps_of (sv_handler sv)) \<and>
    sv_connections sv' = [] \<and> contexts_of s' = Map.empty \<and> pds_of s' = Map.empty \<and> mrs_of s' = Map.empty \<and>
    cqs_of s' = Map.empty \<and> qps_of s' = Map.empty \<and> (closes_succeed (pm_memory_backend s') \<longrightarrow> held (pm_memory_backend s') = {#})"
proof -
  have inv: "daemon.sinv sv"
    using server_loop_inv [OF started_inv(1) [OF assms(2)], of rounds] started_inv(2) [OF assms(2)] assms(1,3) by simp
  have "sv' = snd (server_close (qp_on_disconnect (fst finish)) (snd finish) sv)"
    using assms(2,3,4) by (simp add: run_server_def Let_def)
  note c = closed_empty [OF inv this]
  have "distinct (map snd (sv_connections sv))" using inv by (simp add: daemon.sinv_def server_inv_def)
  moreover note inv [unfolded daemon.sinv_def service_within_def, THEN conjunct2]
  ultimately show ?thesis using c service_within_none [OF conjunct2 [OF c]] unfolding assms(5) by blast
qed

definition demo_start :: start_calls where
  "demo_start = \<lparr>st_lstat = Some ENOENT, st_socket = Inr 3, st_bind = None, st_bound_lstat = Some \<lparr>ps_is_socket = True, ps_device = 1, ps_inode = 7\<rparr>,
     st_listen = None, st_remove_lstat = None\<rparr>"

text \<open>Two clients connect in the first round; in the second the first of them hangs up.\<close>

definition demo_rounds :: "(control_world \<times> poll_calls) list" where
  "demo_rounds =
     [(demo_world, \<lparr>pl_ready = Inr 1, pl_listener_ready = True, pl_accepts = [Inr 5, Inr 6, Inl EAGAIN],
        pl_io = \<lambda>_. \<lparr>io_pollin = False, io_error = False, io_hangup = False, io_recv = Recv_eof, io_sendmsg = full_send\<rparr>\<rparr>),
      (demo_world, \<lparr>pl_ready = Inr 1, pl_listener_ready = False, pl_accepts = [],
        pl_io = \<lambda>fd. \<lparr>io_pollin = fd = 5, io_error = False, io_hangup = False, io_recv = Recv_eof, io_sendmsg = full_send\<rparr>\<rparr>)]"

theorem daemon_releases_everything_witness:
  "\<exists>sv sv'. server_loop demo_rounds (snd (snd (server_start demo_start ''/s'' (new_server (new_qp_service default_catalog))))) = (0, sv) \<and>
     sv_connections sv = [(6, 2)] \<and> owned_by {2} (qps_of (sv_handler sv)) \<and>
     run_server demo_start demo_rounds (demo_world, None) ''/s'' = (0, sv') \<and> sv_connections sv' = [] \<and>
     mrs_of (sv_handler sv') = Map.empty"
proof -
  obtain st unlinked sv0 where s0: "server_start demo_start ''/s'' (new_server (new_qp_service default_catalog)) = (st, unlinked, sv0)"
    by (metis prod_cases3)
  then have "st = OK \<and> sv_connections sv0 = [] \<and> sv_next_session_id sv0 = 1 \<and> sv_listener sv0 = 3"
    by (auto simp: server_start_def demo_start_def new_server_def Let_def)
  then have s: "server_start demo_start ''/s'' (new_server (new_qp_service default_catalog)) = (OK, unlinked, sv0)"
    "sv_connections sv0 = []" "sv_next_session_id sv0 = 1" "sv_listener sv0 = 3" using s0 by simp_all
  obtain sv where l: "server_loop demo_rounds sv0 = (0, sv)" "sv_connections sv = [(6, 2)]"
    using s(2-4) by (simp add: demo_rounds_def poll_once_def Let_def serve_connection_def close_session_def receive_message_def)
  obtain sv' where r: "run_server demo_start demo_rounds (demo_world, None) ''/s'' = (0, sv')"
    using s l by (simp add: run_server_def Let_def)
  have "accept_count demo_rounds + 1 < 18446744073709551616" by (simp add: accept_count_def demo_rounds_def)
  from daemon_releases_everything [OF this s(1) l(1) r refl] show ?thesis using s l r by (simp add: session_ids_def)
qed

section \<open>A request of a client\<close>

lemma encoded_request:
  assumes "encode_request r fds = Inr m"
  shows "m = \<lparr>msg_envelope = new_envelope\<lparr>env_method := rq_method r, env_payload_length := of_nat (length (msg_payload m)),
      env_fd_count := of_nat (length fds)\<rparr>, msg_payload = msg_payload m, msg_fds = fds\<rparr>"
    and "length (msg_payload m) \<le> kMaxPayloadSize" "rq_method r \<noteq> 0" "length fds \<le> kMaxFileDescriptors"
proof -
  have v: "validate_lengths (length (rq_opaque r)) (length (rq_fd_indices r)) kRequestFixedSize = 0"
    using assms by (auto simp: encode_request_def Let_def split: if_splits)
  have "length (msg_payload m) = kRequestFixedSize + length (rq_opaque r) + 4 * length (rq_fd_indices r)"
    using assms by (auto simp: encode_request_def Let_def append_indices_eq append_defs length_index_bytes split: if_splits)
  then show "length (msg_payload m) \<le> kMaxPayloadSize" using validate_lengths_OK(1) [OF v] by simp
  show "m = \<lparr>msg_envelope = new_envelope\<lparr>env_method := rq_method r, env_payload_length := of_nat (length (msg_payload m)),
      env_fd_count := of_nat (length fds)\<rparr>, msg_payload = msg_payload m, msg_fds = fds\<rparr>"
    "rq_method r \<noteq> 0" "length fds \<le> kMaxFileDescriptors"
    using assms by (auto simp: encode_request_def Let_def split: if_splits)
qed

lemma encoded_response:
  assumes "encode_response r fds = Inr m"
  shows "m = \<lparr>msg_envelope = new_envelope\<lparr>env_method := rp_method r, env_flags := kResponseFlag, env_status := rp_status r,
      env_payload_length := of_nat (length (msg_payload m)), env_fd_count := of_nat (length fds)\<rparr>,
      msg_payload = msg_payload m, msg_fds = fds\<rparr>"
    and "length (msg_payload m) \<le> kMaxPayloadSize" "length fds \<le> kMaxFileDescriptors"
    and "length cfds = length fds \<Longrightarrow> encode_response r cfds = Inr (m\<lparr>msg_fds := cfds\<rparr>)"
proof -
  have v: "validate_lengths (length (rp_opaque r)) (length (rp_fd_indices r)) kResponseFixedSize = 0"
    using assms by (auto simp: encode_response_def Let_def split: if_splits)
  have "length (msg_payload m) = kResponseFixedSize + length (rp_opaque r) + 4 * length (rp_fd_indices r)"
    using assms by (auto simp: encode_response_def Let_def append_indices_eq append_defs length_index_bytes split: if_splits)
  then show "length (msg_payload m) \<le> kMaxPayloadSize" using validate_lengths_OK(1) [OF v] by simp
  show "m = \<lparr>msg_envelope = new_envelope\<lparr>env_method := rp_method r, env_flags := kResponseFlag, env_status := rp_status r,
      env_payload_length := of_nat (length (msg_payload m)), env_fd_count := of_nat (length fds)\<rparr>,
      msg_payload = msg_payload m, msg_fds = fds\<rparr>"
    "length fds \<le> kMaxFileDescriptors" "length cfds = length fds \<Longrightarrow> encode_response r cfds = Inr (m\<lparr>msg_fds := cfds\<rparr>)"
    using assms by (auto simp: encode_response_def Let_def split: if_splits)
qed

text \<open>Neither decoder looks at the identifier of the request.\<close>

lemma decode_any_id:
  "decode_request (m\<lparr>msg_envelope := (msg_envelope m)\<lparr>env_request_id := i\<rparr>\<rparr>) = decode_request m"
  "decode_response (m\<lparr>msg_envelope := (msg_envelope m)\<lparr>env_request_id := i\<rparr>\<rparr>) = decode_response m"
  by (simp_all add: decode_request_def decode_response_def Let_def split: option.split prod.split)

lemma request_decoded:
  assumes "encode_request request [] = Inr q"
  shows "decode_request (call_request c (rq_method request) (msg_payload q) []) = Inr (request, [])"
proof -
  have "call_request c (rq_method request) (msg_payload q) [] = q\<lparr>msg_envelope := (msg_envelope q)\<lparr>env_request_id := ic_next_request_id c\<rparr>\<rparr>"
    by (subst (2 3) encoded_request(1) [OF assms]) (simp add: call_request_def new_envelope_def)
  then show ?thesis using decode_encode_request [OF assms] decode_any_id(1) by simp
qed

lemma response_decoded:
  assumes "encode_response r fds = Inr m" "rp_method r = env_method (msg_envelope req)" "length cfds = length fds"
  shows "decode_response (framed_response req m cfds) = Inr (r, cfds)"
proof -
  let ?i = "env_request_id (msg_envelope req)"
  have "msg_envelope m = new_envelope\<lparr>env_method := env_method (msg_envelope req), env_flags := kResponseFlag, env_status := rp_status r,
      env_payload_length := of_nat (length (msg_payload m)), env_fd_count := of_nat (length fds)\<rparr>" "msg_fds m = fds"
    by (subst encoded_response(1) [OF assms(1)], simp add: assms(2))+
  then have "framed_response req m cfds = (m\<lparr>msg_fds := cfds\<rparr>)\<lparr>msg_envelope := (msg_envelope (m\<lparr>msg_fds := cfds\<rparr>))\<lparr>env_request_id := ?i\<rparr>\<rparr>"
    by (cases m) (simp add: framed_response_def new_envelope_def)
  then show ?thesis
    using decode_encode_response [OF encoded_response(4) [OF assms(1,3)]] decode_any_id(2) [of ?i "m\<lparr>msg_fds := cfds\<rparr>"] by simp
qed

text \<open>C11. A request of a client is served end to end. When a connected client calls with a request, the daemon's
  connection delivers it and the service answers it with a response and descriptors that fit the protocol, then
  the service has been given exactly this request in the session of this connection, the daemon goes on with the
  service's new state and the client's call returns exactly this response, with the descriptors as they are
  numbered in the client; the client stays connected.\<close>

theorem control_request_served:
  assumes conn: "map_of (sv_connections sv) fd = Some sid" "fd \<ge> 0" "ic_socket (cc_client cc) \<ge> 0"
    and request: "encode_request request [] = Inr q"
    and served: "qp_handle w (sv_handler sv) sid (request, []) = ((response, fds), s')"
    and answer: "encode_response (response\<lparr>rp_method := rq_method request\<rparr>) fds = Inr m" "0 \<le> rp_status response" "int32 (rp_status response)"
    and fds: "list_all (\<lambda>fd. fd \<ge> 0) fds" "length cfds = length fds"
  shows "\<exists>p1 p2 cc'.
    serve_connection (control_ipc_handle (qp_handle w)) (qp_on_disconnect w)
        \<lparr>io_pollin = True, io_error = False, io_hangup = False, io_recv = deliver p1 [], io_sendmsg = full_send\<rparr> fd sv
      = (sv\<lparr>sv_handler := s'\<rparr>, Some p2) \<and>
    control_call_decoded (full_send, deliver p2 cfds) request cc = (Inr (response\<lparr>rp_method := rq_method request\<rparr>, cfds), cc') \<and>
    fst (snd (snd (client_call full_send (deliver p2 cfds) (rq_method request) (msg_payload q) [] True (cc_client cc)))) = Some p1 \<and>
    ic_socket (cc_client cc') = ic_socket (cc_client cc) \<and> cc_epoch cc' = cc_epoch cc"
proof -
  let ?c = "cc_client cc" and ?r = "response\<lparr>rp_method := rq_method request\<rparr>"
  let ?req = "call_request ?c (rq_method request) (msg_payload q) []"
  note q = encoded_request [OF request] and a = encoded_response [OF answer(1)]
  have handled: "control_ipc_handle (qp_handle w) (sv_handler sv) sid ?req = (Some m, s')"
    using request_decoded [OF request] served answer(1) by (simp add: control_ipc_handle_def Let_def call_request_def new_envelope_def)
  have sendq: "sendable (msg_payload q) []" using q(2) by (simp add: sendable_def)
  have sendm: "sendable (msg_payload m) (msg_fds m)" "int32 (env_status (msg_envelope m))" "length cfds = length (msg_fds m)"
  proof -
    have m: "msg_fds m = fds" "env_status (msg_envelope m) = rp_status response" by (subst a(1), simp)+
    show "sendable (msg_payload m) (msg_fds m)" "int32 (env_status (msg_envelope m))" "length cfds = length (msg_fds m)"
      using a(2,3) fds answer(3) unfolding m by (simp_all add: sendable_def)
  qed
  obtain p1 p2 c' where io: "serve_connection (control_ipc_handle (qp_handle w)) (qp_on_disconnect w)
        \<lparr>io_pollin = True, io_error = False, io_hangup = False, io_recv = deliver p1 [], io_sendmsg = full_send\<rparr> fd sv
      = (sv\<lparr>sv_handler := s'\<rparr>, Some p2)"
      "client_call full_send (deliver p2 cfds) (rq_method request) (msg_payload q) [] True ?c = (OK, c', Some p1, Some (framed_response ?req m cfds))"
    using ipc_call_roundtrip [where handle = "control_ipc_handle (qp_handle w)" and on_disc = "qp_on_disconnect w" and sfds = "[]",
        OF sendq conn(3) q(3) refl conn(1,2) handled sendm] by auto
  have decoded: "decode_response (framed_response ?req m cfds) = Inr (?r, cfds)"
    by (rule response_decoded [OF answer(1) _ fds(2)]) (simp add: call_request_def new_envelope_def)
  have qf: "msg_fds q = []" by (subst q(1)) simp
  have "ic_socket c' = ic_socket ?c" using io(2) by (auto simp: client_call_def Let_def split: if_splits prod.splits receive_result.splits)
  then show ?thesis using io decoded qf request answer(2)
    by (intro exI [of _ p1] exI [of _ p2] exI [of _ "cc\<lparr>cc_client := c'\<rparr>"]) (simp add: control_call_decoded_def Let_def)
qed

lemma plain_encodes:
  "rq_method rq \<noteq> 0 \<Longrightarrow> rq_opaque rq = [] \<Longrightarrow> rq_fd_indices rq = [] \<Longrightarrow> \<exists>m. encode_request rq [] = Inr m"
  "rp_method rp \<noteq> 0 \<Longrightarrow> rp_opaque rp = [] \<Longrightarrow> rp_fd_indices rp = [] \<Longrightarrow> \<exists>m. encode_response rp [] = Inr m"
  by (simp_all add: encode_request_def encode_response_def validate_lengths_def valid_indices_def Let_def)

theorem control_request_served_witness:
  "\<exists>p1 p2 cc'.
    serve_connection (control_ipc_handle (qp_handle demo_world)) (qp_on_disconnect demo_world)
        \<lparr>io_pollin = True, io_error = False, io_hangup = False, io_recv = deliver p1 [], io_sendmsg = full_send\<rparr> 5
        ((new_server demo_service)\<lparr>sv_connections := [(5, 2)]\<rparr>)
      = ((new_server demo_service)\<lparr>sv_connections := [(5, 2)]\<rparr>, Some p2) \<and>
    control_call_decoded (full_send, deliver p2 []) (make_destroy_pd_request demo_pd_id) \<lparr>cc_client = \<lparr>ic_socket = 7, ic_next_request_id = 1\<rparr>, cc_epoch = 1\<rparr>
      = (Inr (fst (response_for (make_destroy_pd_request demo_pd_id, []) EINVAL), []), cc')"
proof -
  let ?rq = "make_destroy_pd_request demo_pd_id" and ?sv = "(new_server demo_service)\<lparr>sv_connections := [(5, 2)]\<rparr>"
  let ?cc = "\<lparr>cc_client = \<lparr>ic_socket = 7, ic_next_request_id = 1\<rparr>, cc_epoch = 1\<rparr>"
  obtain q where q: "encode_request ?rq [] = Inr q"
    using plain_encodes(1) [of ?rq] by (auto simp: make_destroy_pd_request_def new_request_def control_method_defs)
  have served: "qp_handle demo_world (sv_handler ?sv) 2 (?rq, []) = ((fst (response_for (?rq, []) EINVAL), []), demo_service)"
    by (simp add: control_eval make_destroy_pd_request_def handle_destroy_pd_def demo_lookup new_server_def response_for_def)
  obtain m where m: "encode_response (fst (response_for (?rq, []) EINVAL)\<lparr>rp_method := rq_method ?rq\<rparr>) [] = Inr m"
    using plain_encodes(2) [of "fst (response_for (?rq, []) EINVAL)\<lparr>rp_method := rq_method ?rq\<rparr>"]
    by (auto simp: response_for_def new_response_def make_destroy_pd_request_def new_request_def control_method_defs)
  have same: "fst (response_for (?rq, []) EINVAL)\<lparr>rp_method := rq_method ?rq\<rparr> = fst (response_for (?rq, []) EINVAL)"
    by (simp add: response_for_def)
  show ?thesis
    using control_request_served [of ?sv 5 2 ?cc, OF _ _ _ q served m, of "[]"] unfolding same
    by (auto simp: response_for_def int32_def new_server_def)
qed

end
