(* ===== verification/Client_Runs.thy ===== *)
theory Client_Runs
  imports Client_Handles Daemon
begin

text \<open>
  Every method of the client library keeps the invariant of \<open>Client_Handles\<close>, and so does every run of calls.
\<close>

section \<open>The shared start of the methods\<close>

lemma keeps_left_client [simp]: "keeps (rt\<lparr>cr_client := cc\<rparr>) rt' = keeps rt rt'"
  by (simp add: keeps_def evolves_def)

lemma element_ok_client [simp]:
  "lists_ok (rt\<lparr>cr_client := cc\<rparr>) = lists_ok rt" "pd_ok (rt\<lparr>cr_client := cc\<rparr>) p = pd_ok rt p"
  "mr_ok (rt\<lparr>cr_client := cc\<rparr>) m = mr_ok rt m" "cq_ok (rt\<lparr>cr_client := cc\<rparr>) c = cq_ok rt c"
  "qp_ok (rt\<lparr>cr_client := cc\<rparr>) q = qp_ok rt q"
  by (simp_all add: element_ok_defs)

lemmas keeps_replaced = keeps_replace [of "rt\<lparr>cr_client := cc\<rparr>" for rt cc, simplified]
lemmas keeps_added = keeps_new [of "rt\<lparr>cr_client := cc\<rparr>" for rt cc, simplified]

lemma lists_ok_kill:
  assumes "lists_ok rt" "grows device_fixed ud_live (cr_devices rt) ds"
  shows "lists_ok (rt\<lparr>cr_devices := ds\<rparr>)"
  using assms(1) growsD [OF assms(2)] by (fastforce simp: lists_ok_def)

lemma keeps_devices:
  assumes "grows device_fixed ud_live (cr_devices rt) ds"
  shows "keeps rt (rt\<lparr>cr_devices := ds\<rparr>)"
  by (rule keepsI) (use assms in \<open>auto simp: evolves_def dest: inv_parts intro: lists_ok_kill\<close>)

locale kept_table = proxy_table +
  assumes kill_keeps: "keeps rt (update (\<lambda>os. os[i := kill (os ! i)]) rt)"
begin

lemma enter_keeps:
  assumes "enter env p arguments_ok rt = (out, rt')"
  shows "keeps rt rt'"
proof (cases "\<exists>i. out = Some (Inr i)")
  case True
  then obtain i where "enter env p arguments_ok rt = (Some (Inr i), rt')" using assms by blast
  from enter_accepted(5) [OF this] show ?thesis using keeps_connected [of rt env] by simp
next
  case False
  then have "rt' = rt \<or> rt' = snd (ensure_connected env rt) \<or>
      (\<exists>i. rt' = update (\<lambda>os. os[i := kill (os ! i)]) (snd (ensure_connected env rt)))"
    using enter_rejected [OF assms] by blast
  then show ?thesis using keeps_connected [of rt env] keeps_trans [OF keeps_connected kill_keeps] by auto
qed

end

lemma update_as_value:
  "cr_devices_update f rt = rt\<lparr>cr_devices := f (cr_devices rt)\<rparr>" "cr_contexts_update g rt = rt\<lparr>cr_contexts := g (cr_contexts rt)\<rparr>"
  "cr_pds_update h rt = rt\<lparr>cr_pds := h (cr_pds rt)\<rparr>" "cr_mrs_update k rt = rt\<lparr>cr_mrs := k (cr_mrs rt)\<rparr>"
  "cr_cqs_update l rt = rt\<lparr>cr_cqs := l (cr_cqs rt)\<rparr>" "cr_qps_update m rt = rt\<lparr>cr_qps := m (cr_qps rt)\<rparr>"
  by (cases rt; simp)+

lemma kills_keep:
  "keeps rt (cr_devices_update (\<lambda>os. os[i := (os ! i)\<lparr>ud_live := False\<rparr>]) rt)"
  "keeps rt (cr_contexts_update (\<lambda>os. os[i := (os ! i)\<lparr>ux_live := False\<rparr>]) rt)"
  "keeps rt (cr_pds_update (\<lambda>os. os[i := (os ! i)\<lparr>up_live := False\<rparr>]) rt)"
  "keeps rt (cr_mrs_update (\<lambda>os. os[i := (os ! i)\<lparr>mp_live := False\<rparr>]) rt)"
  "keeps rt (cr_cqs_update (\<lambda>os. os[i := kill_cq (os ! i)]) rt)"
  "keeps rt (cr_qps_update (\<lambda>os. os[i := kill_qp (os ! i)]) rt)"
  by (subst update_as_value, rule keeps_devices, rule grows_replace, simp, simp)
     (subst update_as_value, rule keeps_replace)+

interpretation kept_devices: kept_table cr_devices cr_devices_update ud_live ud_connection_epoch "\<lambda>x. x\<lparr>ud_live := False\<rparr>"
  rewrites "enter_handle cr_devices cr_devices_update ud_live ud_connection_epoch (\<lambda>x. x\<lparr>ud_live := False\<rparr>) = enter_device"
  by unfold_locales (simp_all only: kills_keep enter_device_def)

interpretation kept_contexts: kept_table cr_contexts cr_contexts_update ux_live ux_connection_epoch "\<lambda>x. x\<lparr>ux_live := False\<rparr>"
  rewrites "enter_handle cr_contexts cr_contexts_update ux_live ux_connection_epoch (\<lambda>x. x\<lparr>ux_live := False\<rparr>) = enter_context"
  by unfold_locales (simp_all only: kills_keep enter_context_def)

interpretation kept_pds: kept_table cr_pds cr_pds_update up_live up_connection_epoch "\<lambda>x. x\<lparr>up_live := False\<rparr>"
  rewrites "enter_handle cr_pds cr_pds_update up_live up_connection_epoch (\<lambda>x. x\<lparr>up_live := False\<rparr>) = enter_pd"
  by unfold_locales (simp_all only: kills_keep enter_pd_def)

interpretation kept_mrs: kept_table cr_mrs cr_mrs_update mp_live mp_connection_epoch "\<lambda>x. x\<lparr>mp_live := False\<rparr>"
  rewrites "enter_handle cr_mrs cr_mrs_update mp_live mp_connection_epoch (\<lambda>x. x\<lparr>mp_live := False\<rparr>) = enter_mr"
  by unfold_locales (simp_all only: kills_keep enter_mr_def)

interpretation kept_cqs: kept_table cr_cqs cr_cqs_update uc_live uc_connection_epoch kill_cq
  rewrites "enter_handle cr_cqs cr_cqs_update uc_live uc_connection_epoch kill_cq = enter_cq"
  by unfold_locales (simp_all only: kills_keep enter_cq_def)

interpretation kept_qps: kept_table cr_qps cr_qps_update uq_live uq_connection_epoch kill_qp
  rewrites "enter_handle cr_qps cr_qps_update uq_live uq_connection_epoch kill_qp = enter_qp"
  by unfold_locales (simp_all only: kills_keep enter_qp_def)

section \<open>Methods that end or change an object\<close>

lemma ending_methods_keep:
  "keeps rt (snd (close_device env p rt))" "keeps rt (snd (dealloc_pd env p rt))" "keeps rt (snd (dereg_mr env p rt))"
  "keeps rt (snd (destroy_cq env p rt))" "keeps rt (snd (destroy_qp env p rt))"
proof -
  show "keeps rt (snd (close_device env p rt))"
  proof -
    obtain out rt1 where e: "enter_context env p True rt = (out, rt1)" by fastforce
    note k = kept_contexts.enter_keeps [OF e]
    show ?thesis using e k keeps_trans [OF k keeps_replaced(1)]
      by (auto simp: close_device_def split: option.split sum.split prod.split)
  qed
  show "keeps rt (snd (dealloc_pd env p rt))"
  proof -
    obtain out rt1 where e: "enter_pd env p True rt = (out, rt1)" by fastforce
    note k = kept_pds.enter_keeps [OF e]
    show ?thesis using e k keeps_trans [OF k keeps_replaced(2)]
      by (auto simp: dealloc_pd_def split: option.split sum.split prod.split)
  qed
  show "keeps rt (snd (dereg_mr env p rt))"
  proof -
    obtain out rt1 where e: "enter_mr env p True rt = (out, rt1)" by fastforce
    note k = kept_mrs.enter_keeps [OF e]
    show ?thesis using e k keeps_trans [OF k keeps_replaced(3)]
      by (auto simp: dereg_mr_def split: option.split sum.split prod.split)
  qed
  show "keeps rt (snd (destroy_cq env p rt))"
  proof -
    obtain out rt1 where e: "enter_cq env p True rt = (out, rt1)" by fastforce
    note k = kept_cqs.enter_keeps [OF e]
    show ?thesis using e k keeps_trans [OF k keeps_replaced(4)]
      by (auto simp: destroy_cq_def split: option.split sum.split prod.split)
  qed
  show "keeps rt (snd (destroy_qp env p rt))"
  proof -
    obtain out rt1 where e: "enter_qp env p True rt = (out, rt1)" by fastforce
    note k = kept_qps.enter_keeps [OF e]
    show ?thesis using e k keeps_trans [OF k keeps_replaced(6)]
      by (auto simp: destroy_qp_def split: option.split sum.split prod.split)
  qed
qed

lemma qp_methods_keep:
  "keeps rt (snd (modify_qp env p a bits rt))" "keeps rt (snd (query_qp env p a bits have_init rt))"
  "keeps rt (snd (query_qp_conn_info env p have_info rt))" "keeps rt (snd (connect_qp env p remote a bits rt))"
proof -
  have step: "keeps rt rt1 \<and> keeps rt (cache_state i st (rt1\<lparr>cr_client := cc\<rparr>))"
    if "enter_qp env p ok rt = (out, rt1)" for ok out rt1 i st cc
    using kept_qps.enter_keeps [OF that] keeps_trans [OF kept_qps.enter_keeps [OF that] keeps_replaced(7)] by blast
  show "keeps rt (snd (modify_qp env p a bits rt))" "keeps rt (snd (query_qp env p a bits have_init rt))"
    "keeps rt (snd (query_qp_conn_info env p have_info rt))" "keeps rt (snd (connect_qp env p remote a bits rt))"
    by (auto simp: modify_qp_def query_qp_def query_qp_conn_info_def connect_qp_def Let_def dest: step split: prod.split option.split sum.split)
qed

section \<open>Methods that make an object\<close>

lemma open_device_keeps: "keeps rt (snd (open_device env p rt))"
proof -
  obtain out rt1 where e: "enter_device env p True rt = (out, rt1)" by fastforce
  note k = kept_devices.enter_keeps [OF e]
  show ?thesis using e k keeps_trans [OF k keeps_added(1)]
    by (auto simp: open_device_def Let_def split: option.split sum.split prod.split)
qed

lemma alloc_pd_keeps: "keeps rt (snd (alloc_pd env p rt))"
proof -
  obtain out rt1 where e: "enter_context env p True rt = (out, rt1)" by fastforce
  note k = kept_contexts.enter_keeps [OF e]
  have new: "keeps rt (rt1\<lparr>cr_client := cc, cr_pds := cr_pds rt1 @ [\<lparr>up_context = i, up_daemon_identity = identity,
      up_connection_epoch = cc_epoch cc, up_live = True\<rparr>]\<rparr>)"
    if "out = Some (Inr i)" "client_create_pd (ce_io env) (ux_daemon_identity (cr_contexts rt1 ! i)) (cr_client rt1) = (Inr identity, cc)" for i identity cc
  proof -
    note a = context_table.enter_accepted [OF e [unfolded that(1)]]
    have "cc_epoch cc = runtime_epoch rt1" using that(2) value_call_epoch(3) by (metis snd_conv)
    then have "pd_ok rt1 \<lparr>up_context = i, up_daemon_identity = identity, up_connection_epoch = cc_epoch cc, up_live = True\<rparr>"
      using a by (simp add: pd_ok_def)
    then show ?thesis by (intro keeps_trans [OF k] keeps_added(2)) simp
  qed
  show ?thesis using e k new by (auto simp: alloc_pd_def split: option.split sum.split prod.split)
qed

lemma create_cq_keeps:
  assumes "errno_set sys" "cqe < 2147483648"
  shows "keeps rt (snd (create_cq env sys h p cqe x channel vector rt))"
proof -
  let ?ok = "\<not> (cqe \<le> 0 \<or> channel \<or> vector \<noteq> 0)"
  obtain out rt1 where e: "enter_context env p ?ok rt = (out, rt1)" by fastforce
  note k = kept_contexts.enter_keeps [OF e]
  let ?cq = "\<lambda>i identity cc ring. \<lparr>uc_context = i, uc_cq_context = x, uc_daemon_identity = identity,
      uc_connection_epoch = cc_epoch cc, uc_cqe = cqe, uc_live = True, uc_completions = ring\<rparr>"
  have new: "keeps rt (rt1\<lparr>cr_client := cc, cr_cqs := cr_cqs rt1 @ [?cq i identity cc ring]\<rparr>)"
    if "out = Some (Inr i)"
      "client_create_cq (ce_io env) (ce_undo_io env) sys h (ux_daemon_identity (cr_contexts rt1 ! i)) (of_int cqe) empty_ring (cr_client rt1) = (Inr (identity, ring), cc)"
    for i identity cc ring
  proof -
    note a = context_table.enter_accepted [OF e [unfolded that(1)]]
    have "cc_epoch cc = runtime_epoch rt1" using that(2) ring_call_epoch(1) by (metis snd_conv)
    then have "cq_ok rt1 (?cq i identity cc ring)"
      using a create_cq_ring [OF that(2) assms(1)] by (simp add: cq_ok_def)
    then show ?thesis by (intro keeps_trans [OF k] keeps_added(3)) simp
  qed
  show ?thesis using e k new by (auto simp: create_cq_def split: option.split sum.split prod.split)
qed

lemma reg_mr_keeps: "keeps rt (snd (reg_mr env calls p address len access rt))"
proof -
  define ok where "ok \<longleftrightarrow> \<not> (address = 0 \<or> len = 0 \<or> access < 0 \<or>
            and (of_int access :: u32) (not (or kAccessLocalWrite kAccessRemoteWrite)) \<noteq> 0 \<or>
            and (of_int access :: u32) kAccessRemoteWrite \<noteq> 0 \<and> and (of_int access :: u32) kAccessLocalWrite = 0)"
  obtain out rt1 where e: "enter_pd env p ok rt = (out, rt1)" by fastforce
  note k = kept_pds.enter_keeps [OF e]
  let ?n = "cr_next_mr_handle rt1"
  let ?mr = "\<lambda>i identity lk rk. \<lparr>mp_value = \<lparr>um_context = up_context (cr_pds rt1 ! i), um_pd = i, um_addr = address, um_length = len,
      um_handle = ucast ?n, um_lkey = lk, um_rkey = rk\<rparr>, mp_daemon_identity = identity,
      mp_connection_epoch = runtime_epoch rt1, mp_live = True\<rparr>"
  have n: "unat (?n + 1) = unat ?n + 1" "unat (ucast ?n :: u32) = unat ?n" "unat ?n \<le> 4294967295" if "\<not> ?n > 0xffffffff"
  proof -
    show le: "unat ?n \<le> 4294967295" using that by (simp add: word_less_nat_alt)
    then show "unat (?n + 1) = unat ?n + 1" using unat_add_u64 [of ?n 1] by simp
    show "unat (ucast ?n :: u32) = unat ?n" using unat_ucast_u64_u32 [of ?n] le by simp
  qed
  have new: "keeps rt (rt1\<lparr>cr_client := cc, cr_next_mr_handle := ?n + 1, cr_mrs := cr_mrs rt1 @ [?mr i identity lk rk]\<rparr>)"
    "keeps rt (rt1\<lparr>cr_next_mr_handle := ?n + 1\<rparr>)"
    if "out = Some (Inr i)" "\<not> ?n > 0xffffffff" for i identity lk rk cc
  proof -
    note a = pd_table.enter_accepted [OF e [unfolded that(1)]]
    have order: "rt1\<lparr>cr_client := cc, cr_next_mr_handle := v, cr_mrs := ms\<rparr> = rt1\<lparr>cr_mrs := ms, cr_next_mr_handle := v, cr_client := cc\<rparr>" for v ms by simp
    have "keeps rt1 (rt1\<lparr>cr_mrs := cr_mrs rt1 @ [?mr i identity lk rk], cr_next_mr_handle := ?n + 1\<rparr>)"
      by (rule keeps_mrs) (use a n [OF that(2)] in \<open>auto simp: runtime_inv_def mr_ok_def sorted_wrt_append\<close>)
    then show "keeps rt (rt1\<lparr>cr_client := cc, cr_next_mr_handle := ?n + 1, cr_mrs := cr_mrs rt1 @ [?mr i identity lk rk]\<rparr>)"
      unfolding order client_irrelevant by (rule keeps_trans [OF k])
    have "keeps rt1 (rt1\<lparr>cr_mrs := cr_mrs rt1, cr_next_mr_handle := ?n + 1\<rparr>)"
      by (rule keeps_mrs) (use a n [OF that(2)] in \<open>auto simp: runtime_inv_def mr_ok_def\<close>)
    then show "keeps rt (rt1\<lparr>cr_next_mr_handle := ?n + 1\<rparr>)" using keeps_trans [OF k] by simp
  qed
  have epoch: "cc_epoch cc = runtime_epoch rt1" if "client_register_mr io i m acc (cr_client rt1) = (v, cc)" for io i m acc v cc
    using that value_call_epoch(4) by (metis snd_conv)
  show ?thesis
    unfolding reg_mr_def ok_def [symmetric] Let_def e
    using k new by (auto simp: epoch split: option.split sum.split prod.split)
qed

lemma create_qp_keeps:
  assumes "errno_set (fst sys1)" "errno_set (fst sys2)"
  shows "keeps rt (snd (create_qp env sys1 sys2 p a rt))"
proof -
  obtain st rt1 where c: "ensure_connected env rt = (st, rt1)" by fastforce
  have k: "keeps rt rt1" using keeps_connected [of rt env] c by simp
  have same: "cr_pds rt1 = cr_pds rt" "cr_cqs rt1 = cr_cqs rt"
    using pd_table.objects_connected [OF c] cq_table.objects_connected [OF c] by simp_all
  have dead: "keeps rt (rt1\<lparr>cr_pds := (cr_pds rt1)[i := (cr_pds rt1 ! i)\<lparr>up_live := False\<rparr>],
      cr_cqs := (let cqs = (cr_cqs rt1)[j := unlive_cq (cr_cqs rt1 ! j)] in cqs[l := unlive_cq (cqs ! l)])\<rparr>)" for i j l
    using keeps_trans [OF keeps_trans [OF keeps_trans [OF k keeps_replace(2) [of _ i]] keeps_replace(5) [of _ j]] keeps_replace(5) [of _ l]]
    by (simp add: Let_def)
  have new: "keeps rt (snd (create_connected_qp env sys1 sys2 i at j l rt1))"
    if "i < length (cr_pds rt)" "init_attr_ok rt i at j l" "qi_send_cq at = Some j" "qi_recv_cq at = Some l"
      "j < length (cr_cqs rt)" "l < length (cr_cqs rt)"
      "up_connection_epoch (cr_pds rt1 ! i) = runtime_epoch rt1" "uc_connection_epoch (cr_cqs rt1 ! j) = runtime_epoch rt1"
      "uc_connection_epoch (cr_cqs rt1 ! l) = runtime_epoch rt1" for i at j l
  proof -
    have "qp_ok rt1 \<lparr>uq_pd = i, uq_init_attr = at, uq_daemon_identity = identity, uq_connection_epoch = runtime_epoch rt1,
        uq_cached_state = kQpStateReset, uq_live = True, uq_send_queue = r1, uq_receive_queue = r2\<rparr>"
      if "client_create_qp (ce_io env) (ce_undo_io env) sys1 sys2 (up_daemon_identity (cr_pds rt1 ! i))
        (qp_create_request rt1 at j l) empty_ring empty_ring (cr_client rt1) = (Inr (identity, r1, r2), cc)" for identity r1 r2 cc
      using create_qp_rings [OF that assms] \<open>init_attr_ok rt i at j l\<close> \<open>i < length (cr_pds rt)\<close>
        \<open>qi_send_cq at = Some j\<close> \<open>qi_recv_cq at = Some l\<close> \<open>j < length (cr_cqs rt)\<close> \<open>l < length (cr_cqs rt)\<close>
        \<open>up_connection_epoch (cr_pds rt1 ! i) = runtime_epoch rt1\<close> \<open>uc_connection_epoch (cr_cqs rt1 ! j) = runtime_epoch rt1\<close>
        \<open>uc_connection_epoch (cr_cqs rt1 ! l) = runtime_epoch rt1\<close>
      by (simp add: qp_ok_def cq_of_qp_def init_attr_ok_def qp_create_request_def same)
    then have "keeps rt (rt1\<lparr>cr_client := cc, cr_qps := cr_qps rt1 @ [\<lparr>uq_pd = i, uq_init_attr = at, uq_daemon_identity = identity,
        uq_connection_epoch = runtime_epoch rt1, uq_cached_state = kQpStateReset, uq_live = True, uq_send_queue = r1, uq_receive_queue = r2\<rparr>]\<rparr>)"
      if "client_create_qp (ce_io env) (ce_undo_io env) sys1 sys2 (up_daemon_identity (cr_pds rt1 ! i))
        (qp_create_request rt1 at j l) empty_ring empty_ring (cr_client rt1) = (Inr (identity, r1, r2), cc)" for identity r1 r2 cc
      using that by (intro keeps_trans [OF k] keeps_added(4)) simp
    then show ?thesis using k by (auto simp: create_connected_qp_def split: sum.split prod.split)
  qed
  show ?thesis using c k dead new
    by (auto simp: create_qp_def registered_def split: option.splits)
qed

section \<open>Device lists\<close>

lemma get_device_list_keeps: "keeps rt (snd (get_device_list env rt))"
proof -
  obtain st rt1 where c: "ensure_connected env rt = (st, rt1)" by fastforce
  have k: "keeps rt rt1" using keeps_connected [of rt env] c by simp
  have "keeps rt1 (rt1\<lparr>cr_client := cc, cr_devices := cr_devices rt1 @ ds,
      cr_lists := cr_lists rt1 @ [\<lparr>dl_devices = [length (cr_devices rt1)..<length (cr_devices rt1) + length ds], dl_live = True\<rparr>]\<rparr>)" for cc ds
  proof (rule keepsI)
    show "lists_ok (rt1\<lparr>cr_client := cc, cr_devices := cr_devices rt1 @ ds,
        cr_lists := cr_lists rt1 @ [\<lparr>dl_devices = [length (cr_devices rt1)..<length (cr_devices rt1) + length ds], dl_live = True\<rparr>]\<rparr>)"
      if "runtime_inv rt1" using inv_parts(1) [OF that] by (fastforce simp: lists_ok_def nth_append)
  qed (auto simp: evolves_def pd_ok_def mr_ok_def cq_ok_def qp_ok_def cq_of_qp_def runtime_inv_def)
  from keeps_trans [OF k this [of "map f descriptors" for f descriptors]]
  have "keeps rt (rt1\<lparr>cr_client := cc, cr_devices := cr_devices rt1 @ map f descriptors,
      cr_lists := cr_lists rt1 @ [\<lparr>dl_devices = [length (cr_devices rt1)..<length (cr_devices rt1) + length descriptors], dl_live = True\<rparr>]\<rparr>)"
    for cc and f :: "device_descriptor \<Rightarrow> ugdr_device" and descriptors by simp
  then show ?thesis using c k by (auto simp: get_device_list_def Let_def split: option.split sum.split prod.split)
qed

lemma fold_unlive:
  "grows device_fixed ud_live ds (fold (\<lambda>i ds. ds[i := (ds ! i)\<lparr>ud_live := False\<rparr>]) is ds) \<and>
   (\<forall>i\<in>List.set is. i < length ds \<longrightarrow> \<not> ud_live (fold (\<lambda>i ds. ds[i := (ds ! i)\<lparr>ud_live := False\<rparr>]) is ds ! i))"
proof (induction "is" arbitrary: ds)
  case (Cons i "is")
  let ?ds = "ds[i := (ds ! i)\<lparr>ud_live := False\<rparr>]"
  have g: "grows device_fixed ud_live ds ?ds" by (rule grows_replace) simp_all
  have "\<not> ud_live (fold (\<lambda>i ds. ds[i := (ds ! i)\<lparr>ud_live := False\<rparr>]) is ?ds ! i)" if "i < length ds"
    using growsD [OF conjunct1 [OF Cons.IH [of ?ds]], of i] that by auto
  then show ?case using grows_trans [OF g conjunct1 [OF Cons.IH [of ?ds]]] conjunct2 [OF Cons.IH [of ?ds]] by auto
qed simp

lemma free_device_list_keeps: "keeps rt (snd (free_device_list p rt))"
proof -
  have "keeps rt (rt\<lparr>cr_lists := (cr_lists rt)[l := (cr_lists rt ! l)\<lparr>dl_live := False\<rparr>],
      cr_devices := fold (\<lambda>i ds. ds[i := (ds ! i)\<lparr>ud_live := False\<rparr>]) (dl_devices (cr_lists rt ! l)) (cr_devices rt)\<rparr>)" (is "keeps rt ?rt")
    if l: "l < length (cr_lists rt)" for l
  proof (rule keepsI)
    let ?ds = "fold (\<lambda>i ds. ds[i := (ds ! i)\<lparr>ud_live := False\<rparr>]) (dl_devices (cr_lists rt ! l)) (cr_devices rt)"
    note f = fold_unlive [of "cr_devices rt" "dl_devices (cr_lists rt ! l)"]
    show "evolves rt ?rt" using f by (simp add: evolves_def)
    show "lists_ok ?rt" if "runtime_inv rt"
    proof -
      have "lists_ok (rt\<lparr>cr_devices := ?ds\<rparr>)" using lists_ok_kill [OF inv_parts(1) [OF that]] f by blast
      moreover have "\<forall>i\<in>List.set (dl_devices (cr_lists rt ! l)). i < length ?ds \<and> \<not> ud_live (?ds ! i)"
      proof
        fix i assume i: "i \<in> List.set (dl_devices (cr_lists rt ! l))"
        have "i < length (cr_devices rt)" using inv_parts(1) [OF that] l i by (auto simp: lists_ok_def)
        then show "i < length ?ds \<and> \<not> ud_live (?ds ! i)" using growsD [OF conjunct1 [OF f], of i] f i by blast
      qed
      ultimately show ?thesis by (auto simp: lists_ok_def dest!: set_replaced)
    qed
  qed (auto simp: element_ok_defs runtime_inv_def)
  then show ?thesis by (auto simp: free_device_list_def registered_def split: option.split)
qed

section \<open>Posting and polling\<close>

lemma same_ring_refl [simp]: "same_ring r r"
  by (simp add: same_ring_def)

lemma qp_ok_rings:
  assumes "qp_ok rt x" "uq_live x" "same_ring (uq_send_queue x) r1" "same_ring (uq_receive_queue x) r2"
  shows "qp_ok rt (x\<lparr>uq_send_queue := r1, uq_receive_queue := r2\<rparr>)"
proof -
  have "cq_of_qp rt (x\<lparr>uq_send_queue := r1, uq_receive_queue := r2\<rparr>) p = cq_of_qp rt x p" for p by (simp add: cq_of_qp_def)
  then show ?thesis using assms by (auto simp: qp_ok_def same_ring_for)
qed

lemma keeps_qp_rings:
  assumes "uq_live (cr_qps rt ! i)" "same_ring (uq_send_queue (cr_qps rt ! i)) r1" "same_ring (uq_receive_queue (cr_qps rt ! i)) r2"
  shows "keeps rt (rt\<lparr>cr_qps := (cr_qps rt)[i := (cr_qps rt ! i)\<lparr>uq_send_queue := r1, uq_receive_queue := r2\<rparr>]\<rparr>)"
proof (intro keeps_qps grows_replace)
  fix x assume inv: "runtime_inv rt" and "x \<in> List.set ((cr_qps rt)[i := (cr_qps rt ! i)\<lparr>uq_send_queue := r1, uq_receive_queue := r2\<rparr>])"
  from set_replaced [OF this(2)] show "qp_ok rt x"
    using qp_ok_rings [OF inv_parts(7) [OF inv] assms] inv by (auto simp: runtime_inv_def)
qed (use assms(1) in simp_all)

lemma post_send_keeps:
  assumes "keeps_producer env"
  shows "keeps rt (snd (snd (post_send env p wr hb shared rt)))"
proof -
  have "keeps rt (rt\<lparr>cr_qps := (cr_qps rt)[i := (cr_qps rt ! i)\<lparr>uq_send_queue := rs_producer shared'\<rparr>]\<rparr>)"
    if "uq_live (cr_qps rt ! i)"
      "post_send_chain env n hb wr (shared\<lparr>rs_producer := uq_send_queue (cr_qps rt ! i)\<rparr>) = (st, bad, shared')" for i n st bad shared'
    using keeps_qp_rings [OF that(1), of "rs_producer shared'" "uq_receive_queue (cr_qps rt ! i)"]
      post_send_same [OF assms, of "shared\<lparr>rs_producer := uq_send_queue (cr_qps rt ! i)\<rparr>" n hb wr] that(2) by simp
  then show ?thesis by (auto simp: post_send_def Let_def registered_def split: option.split prod.split)
qed

lemma post_receive_keeps:
  assumes "keeps_producer env"
  shows "keeps rt (snd (snd (post_receive env p wr hb shared rt)))"
proof -
  have "keeps rt (rt\<lparr>cr_qps := (cr_qps rt)[i := (cr_qps rt ! i)\<lparr>uq_receive_queue := rs_producer shared'\<rparr>]\<rparr>)"
    if "uq_live (cr_qps rt ! i)"
      "post_receive_chain env n hb wr (shared\<lparr>rs_producer := uq_receive_queue (cr_qps rt ! i)\<rparr>) = (st, bad, shared')" for i n st bad shared'
    using keeps_qp_rings [OF that(1), of "uq_send_queue (cr_qps rt ! i)" "rs_producer shared'"]
      post_receive_same [OF assms, of "shared\<lparr>rs_producer := uq_receive_queue (cr_qps rt ! i)\<rparr>" n hb wr] that(2) by simp
  then show ?thesis by (auto simp: post_receive_def Let_def registered_def split: option.split prod.split)
qed

lemma poll_keeps:
  assumes "keeps_consumer env"
  shows "keeps rt (snd (snd (runtime_poll_cq env p n have_wc shared rt)))"
proof -
  have "keeps rt (rt\<lparr>cr_cqs := (cr_cqs rt)[i := (cr_cqs rt ! i)\<lparr>uc_completions := rs_consumer shared'\<rparr>]\<rparr>)"
    if "poll_cq env True (uc_live (cr_cqs rt ! i)) n have_wc (shared\<lparr>rs_consumer := uc_completions (cr_cqs rt ! i)\<rparr>) = (st, wc, shared')" for i st wc shared'
  proof (intro keeps_cqs grows_replace)
    have same: "same_ring (uc_completions (cr_cqs rt ! i)) (rs_consumer shared')"
      using poll_same [OF assms, of "shared\<lparr>rs_consumer := uc_completions (cr_cqs rt ! i)\<rparr>" True "uc_live (cr_cqs rt ! i)" n have_wc] that by simp
    fix x assume "runtime_inv rt" "x \<in> List.set ((cr_cqs rt)[i := (cr_cqs rt ! i)\<lparr>uc_completions := rs_consumer shared'\<rparr>])"
    then show "cq_ok rt x" using same by (auto dest!: set_replaced simp: runtime_inv_def cq_ok_def same_ring_for)
  qed simp_all
  then show ?thesis by (auto simp: runtime_poll_cq_def registered_def split: option.split prod.split)
qed

section \<open>Runs\<close>

text \<open>What is taken for granted of the surroundings: a failing system call reports an error number, the number of
  entries is an \<open>int\<close>, and the daemon leaves this process's ring handles alone.\<close>

fun call_ok :: "api_call \<Rightarrow> bool" where
  "call_ok (Create_cq env sys h p cqe x channel vector) = (errno_set sys \<and> cqe < 2147483648)"
| "call_ok (Create_qp env sys1 sys2 p a) = (errno_set (fst sys1) \<and> errno_set (fst sys2))"
| "call_ok (Poll_cq env p n have_wc shared) = keeps_consumer env"
| "call_ok (Post_send env p wr hb shared) = keeps_producer env"
| "call_ok (Post_recv env p wr hb shared) = keeps_producer env"
| "call_ok _ = True"

lemma catch_snd [simp]:
  "snd (catch_pointer out) = snd out" "snd (catch_status out1) = snd out1" "snd (status_of out2) = snd out2"
  "snd (ring_status_of out3) = snd (snd out3)"
  by (auto simp: catch_pointer_def catch_status_def status_of_def ring_status_of_def split: prod.split option.split sum.split)

lemmas c_function_defs = ugdr_get_device_list_def ugdr_free_device_list_def ugdr_open_device_def ugdr_close_device_def ugdr_alloc_pd_def
  ugdr_dealloc_pd_def ugdr_reg_mr_def ugdr_dereg_mr_def ugdr_create_cq_def ugdr_destroy_cq_def ugdr_poll_cq_def ugdr_create_qp_def
  ugdr_destroy_qp_def ugdr_modify_qp_def ugdr_query_qp_def ugdr_query_qp_conn_info_def ugdr_connect_qp_def ugdr_post_send_def ugdr_post_recv_def

lemma runtime_call_keeps:
  assumes "call_ok c"
  shows "keeps rt (snd (runtime_call c rt))"
  using assms
  by (cases c) (auto simp: c_function_defs get_device_list_keeps free_device_list_keeps open_device_keeps ending_methods_keep alloc_pd_keeps
    reg_mr_keeps create_cq_keeps create_qp_keeps qp_methods_keep post_send_keeps post_receive_keeps poll_keeps)

lemma runtime_run_keeps:
  assumes "list_all call_ok calls"
  shows "keeps rt (runtime_run calls rt)"
  using assms by (induction calls arbitrary: rt) (auto simp: runtime_run_def intro: keeps_trans [OF runtime_call_keeps])

lemma new_runtime_inv: "runtime_inv new_runtime"
  by (simp add: runtime_inv_def new_runtime_def lists_ok_def)

section \<open>Proxies of an earlier connection\<close>

definition proxy_epoch :: "('a \<Rightarrow> u64) \<Rightarrow> 'a list \<Rightarrow> pointer \<Rightarrow> u64 option" where
  "proxy_epoch epoch objects p = map_option (\<lambda>i. epoch (objects ! i)) (registered objects p)"

text \<open>The call names a proxy that was made in connection \<open>e\<close>: the one it works on, and for \<open>create_qp\<close> the protection domain or
  either of the completion queues.\<close>

fun names_proxy :: "api_call \<Rightarrow> u64 \<Rightarrow> client_runtime \<Rightarrow> bool" where
  "names_proxy (Open_device env p) e rt = (proxy_epoch ud_connection_epoch (cr_devices rt) p = Some e)"
| "names_proxy (Close_device env p) e rt = (proxy_epoch ux_connection_epoch (cr_contexts rt) p = Some e)"
| "names_proxy (Alloc_pd env p) e rt = (proxy_epoch ux_connection_epoch (cr_contexts rt) p = Some e)"
| "names_proxy (Dealloc_pd env p) e rt = (proxy_epoch up_connection_epoch (cr_pds rt) p = Some e)"
| "names_proxy (Reg_mr env calls p address len access) e rt = (proxy_epoch up_connection_epoch (cr_pds rt) p = Some e)"
| "names_proxy (Dereg_mr env p) e rt = (proxy_epoch mp_connection_epoch (cr_mrs rt) p = Some e)"
| "names_proxy (Create_cq env sys h p cqe x channel vector) e rt = (proxy_epoch ux_connection_epoch (cr_contexts rt) p = Some e)"
| "names_proxy (Destroy_cq env p) e rt = (proxy_epoch uc_connection_epoch (cr_cqs rt) p = Some e)"
| "names_proxy (Poll_cq env p n have_wc shared) e rt = (proxy_epoch uc_connection_epoch (cr_cqs rt) p = Some e)"
| "names_proxy (Create_qp env sys1 sys2 p attr) e rt =
     (proxy_epoch up_connection_epoch (cr_pds rt) p = Some e \<or>
      (case attr of None \<Rightarrow> False
       | Some a \<Rightarrow> proxy_epoch uc_connection_epoch (cr_cqs rt) (qi_send_cq a) = Some e \<or>
           proxy_epoch uc_connection_epoch (cr_cqs rt) (qi_recv_cq a) = Some e))"
| "names_proxy (Destroy_qp env p) e rt = (proxy_epoch uq_connection_epoch (cr_qps rt) p = Some e)"
| "names_proxy (Modify_qp env p a bits) e rt = (proxy_epoch uq_connection_epoch (cr_qps rt) p = Some e)"
| "names_proxy (Query_qp env p a bits have_init) e rt = (proxy_epoch uq_connection_epoch (cr_qps rt) p = Some e)"
| "names_proxy (Query_qp_conn_info env p have_info) e rt = (proxy_epoch uq_connection_epoch (cr_qps rt) p = Some e)"
| "names_proxy (Connect_qp env p remote a bits) e rt = (proxy_epoch uq_connection_epoch (cr_qps rt) p = Some e)"
| "names_proxy (Post_send env p wr have_bad shared) e rt = (proxy_epoch uq_connection_epoch (cr_qps rt) p = Some e)"
| "names_proxy (Post_recv env p wr have_bad shared) e rt = (proxy_epoch uq_connection_epoch (cr_qps rt) p = Some e)"
| "names_proxy _ e rt = False"

text \<open>The surroundings of a call that talks to the daemon; posting and polling work on the mapped rings only.\<close>

fun control_env :: "api_call \<Rightarrow> client_env option" where
  "control_env (Poll_cq env p n have_wc shared) = None"
| "control_env (Post_send env p wr have_bad shared) = None"
| "control_env (Post_recv env p wr have_bad shared) = None"
| "control_env (Free_device_list p) = None"
| "control_env (Get_device_list env) = Some env"
| "control_env (Open_device env p) = Some env"
| "control_env (Close_device env p) = Some env"
| "control_env (Alloc_pd env p) = Some env"
| "control_env (Dealloc_pd env p) = Some env"
| "control_env (Reg_mr env calls p address len access) = Some env"
| "control_env (Dereg_mr env p) = Some env"
| "control_env (Create_cq env sys h p cqe x channel vector) = Some env"
| "control_env (Destroy_cq env p) = Some env"
| "control_env (Create_qp env sys1 sys2 p attr) = Some env"
| "control_env (Destroy_qp env p) = Some env"
| "control_env (Modify_qp env p a bits) = Some env"
| "control_env (Query_qp env p a bits have_init) = Some env"
| "control_env (Query_qp_conn_info env p have_info) = Some env"
| "control_env (Connect_qp env p remote a bits) = Some env"

definition stops_before_daemon :: "client_env \<Rightarrow> client_runtime \<Rightarrow> int \<times> client_runtime \<Rightarrow> bool" where
  "stops_before_daemon env rt out \<longleftrightarrow> fst out \<noteq> OK \<and>
     (cr_client (snd out) = cr_client rt \<or> cr_client (snd out) = cr_client (snd (ensure_connected env rt)))"

lemma proxy_epoch_Some: "proxy_epoch epoch objects p = Some e \<longleftrightarrow> (\<exists>i. p = Some i \<and> i < length objects \<and> epoch (objects ! i) = e)"
  by (auto simp: proxy_epoch_def registered_def split: option.split)

context proxy_table
begin

lemma enter_stale_proxy:
  assumes "proxy_epoch epoch (objects rt) p = Some e" "e \<noteq> runtime_epoch (snd (ensure_connected env rt))"
    and "enter env p arguments_ok rt = (out, rt')"
  shows "(out = None \<or> (\<exists>e. out = Some (Inl e) \<and> e \<noteq> OK)) \<and>
    (cr_client rt' = cr_client rt \<or> cr_client rt' = cr_client (snd (ensure_connected env rt)))"
  using assms enter_stale [of _ rt env arguments_ok out rt'] by (auto simp: proxy_epoch_Some)

end

lemmas stop_defs = stops_before_daemon_def catch_pointer_def catch_status_def status_of_def

lemma device_stops:
  assumes "proxy_epoch ud_connection_epoch (cr_devices rt) p = Some e" "e \<noteq> runtime_epoch (snd (ensure_connected env rt))"
  shows "stops_before_daemon env rt (status_of (catch_pointer (open_device env p rt)))"
proof -
  obtain out rt1 where o: "enter_device env p True rt = (out, rt1)" by fastforce
  show ?thesis using device_table.enter_stale_proxy [OF assms o] o by (auto simp: open_device_def stop_defs)
qed

lemma context_stops:
  assumes "proxy_epoch ux_connection_epoch (cr_contexts rt) p = Some e" "e \<noteq> runtime_epoch (snd (ensure_connected env rt))"
  shows "stops_before_daemon env rt (catch_status (close_device env p rt))"
    and "stops_before_daemon env rt (status_of (catch_pointer (alloc_pd env p rt)))"
    and "stops_before_daemon env rt (status_of (catch_pointer (create_cq env sys h p cqe x channel vector rt)))"
proof -
  obtain out rt1 where o: "enter_context env p True rt = (out, rt1)" by fastforce
  obtain out2 rt2 where o2: "enter_context env p (\<not> (cqe \<le> 0 \<or> channel \<or> vector \<noteq> 0)) rt = (out2, rt2)" by fastforce
  note r = context_table.enter_stale_proxy [OF assms o] context_table.enter_stale_proxy [OF assms o2]
  show "stops_before_daemon env rt (catch_status (close_device env p rt))"
    "stops_before_daemon env rt (status_of (catch_pointer (alloc_pd env p rt)))"
    using r(1) o by (auto simp: close_device_def alloc_pd_def stop_defs)
  show "stops_before_daemon env rt (status_of (catch_pointer (create_cq env sys h p cqe x channel vector rt)))"
    unfolding create_cq_def o2 using r(2) by (auto simp: stop_defs)
qed

lemma pd_stops:
  assumes "proxy_epoch up_connection_epoch (cr_pds rt) p = Some e" "e \<noteq> runtime_epoch (snd (ensure_connected env rt))"
  shows "stops_before_daemon env rt (catch_status (dealloc_pd env p rt))"
    and "stops_before_daemon env rt (status_of (catch_pointer (reg_mr env calls p address len access rt)))"
proof -
  obtain out rt1 where o: "enter_pd env p True rt = (out, rt1)" by fastforce
  show "stops_before_daemon env rt (catch_status (dealloc_pd env p rt))"
    using pd_table.enter_stale_proxy [OF assms o] o by (auto simp: dealloc_pd_def stop_defs)
  have "stops_before_daemon env rt (status_of (catch_pointer (case enter_pd env p ok rt of
      (None, rt) \<Rightarrow> (None, rt) | (Some (Inl status), rt) \<Rightarrow> (Some (Inl status), rt) | (Some (Inr i), rt) \<Rightarrow> g i rt)))"
    for ok and g :: "nat \<Rightarrow> client_runtime \<Rightarrow> (int + nat) option \<times> client_runtime"
  proof -
    obtain out2 rt2 where o2: "enter_pd env p ok rt = (out2, rt2)" by fastforce
    show ?thesis using pd_table.enter_stale_proxy [OF assms o2] o2 by (auto simp: stop_defs)
  qed
  then show "stops_before_daemon env rt (status_of (catch_pointer (reg_mr env calls p address len access rt)))"
    unfolding reg_mr_def Let_def by fast
qed

lemma mr_cq_stops:
  assumes "e \<noteq> runtime_epoch (snd (ensure_connected env rt))"
  shows "proxy_epoch mp_connection_epoch (cr_mrs rt) p = Some e \<Longrightarrow> stops_before_daemon env rt (catch_status (dereg_mr env p rt))"
    and "proxy_epoch uc_connection_epoch (cr_cqs rt) p = Some e \<Longrightarrow> stops_before_daemon env rt (catch_status (destroy_cq env p rt))"
proof -
  obtain out rt1 where o: "enter_mr env p True rt = (out, rt1)" by fastforce
  show "stops_before_daemon env rt (catch_status (dereg_mr env p rt))" if "proxy_epoch mp_connection_epoch (cr_mrs rt) p = Some e"
    using mr_table.enter_stale_proxy [OF that assms o] o by (auto simp: dereg_mr_def stop_defs)
  obtain out2 rt2 where o2: "enter_cq env p True rt = (out2, rt2)" by fastforce
  show "stops_before_daemon env rt (catch_status (destroy_cq env p rt))" if "proxy_epoch uc_connection_epoch (cr_cqs rt) p = Some e"
    using cq_table.enter_stale_proxy [OF that assms o2] o2 by (auto simp: destroy_cq_def stop_defs)
qed

lemma qp_stops:
  assumes "proxy_epoch uq_connection_epoch (cr_qps rt) p = Some e" "e \<noteq> runtime_epoch (snd (ensure_connected env rt))"
  shows "stops_before_daemon env rt (catch_status (destroy_qp env p rt))"
    and "stops_before_daemon env rt (catch_status (modify_qp env p a bits rt))"
    and "stops_before_daemon env rt (status_of (catch_pointer (query_qp env p a bits have_init rt)))"
    and "stops_before_daemon env rt (status_of (catch_pointer (query_qp_conn_info env p have_info rt)))"
    and "stops_before_daemon env rt (catch_status (connect_qp env p remote a bits rt))"
proof -
  have r: "(out = None \<or> (\<exists>e. out = Some (Inl e) \<and> e \<noteq> OK)) \<and>
      (cr_client rt1 = cr_client rt \<or> cr_client rt1 = cr_client (snd (ensure_connected env rt)))"
    if "enter_qp env p ok rt = (out, rt1)" for ok out rt1
    by (rule qp_table.enter_stale_proxy [OF assms that])
  show "stops_before_daemon env rt (catch_status (destroy_qp env p rt))"
    "stops_before_daemon env rt (catch_status (modify_qp env p a bits rt))"
    "stops_before_daemon env rt (status_of (catch_pointer (query_qp env p a bits have_init rt)))"
    "stops_before_daemon env rt (status_of (catch_pointer (query_qp_conn_info env p have_info rt)))"
    "stops_before_daemon env rt (catch_status (connect_qp env p remote a bits rt))"
    by (auto simp: destroy_qp_def modify_qp_def query_qp_def query_qp_conn_info_def connect_qp_def stop_defs dest: r split: prod.split option.split sum.split)
qed

lemma create_qp_stops:
  assumes "names_proxy (Create_qp env sys1 sys2 p attr) e rt" "e \<noteq> runtime_epoch (snd (ensure_connected env rt))"
  shows "stops_before_daemon env rt (status_of (catch_pointer (create_qp env sys1 sys2 p attr rt)))"
proof -
  obtain st rt1 where c: "ensure_connected env rt = (st, rt1)" by fastforce
  have "cr_pds rt1 = cr_pds rt" "cr_cqs rt1 = cr_cqs rt"
    by (rule pd_table.objects_connected [OF c], rule cq_table.objects_connected [OF c])
  then show ?thesis using c assms
    by (auto simp: proxy_epoch_Some create_qp_def registered_def stops_before_daemon_def catch_pointer_def status_of_def split: option.split)
qed

lemma stale_call_stops:
  assumes "names_proxy c e rt" "control_env c = Some env" "e \<noteq> runtime_epoch (snd (ensure_connected env rt))"
  shows "stops_before_daemon env rt (runtime_call c rt)"
proof (cases c)
  case (Create_qp env' sys1 sys2 p attr)
  then show ?thesis using create_qp_stops [of env sys1 sys2 p attr e rt] assms by (simp add: c_function_defs)
qed (use assms in \<open>auto simp: c_function_defs device_stops context_stops pd_stops mr_cq_stops qp_stops\<close>)

lemma ring_call_stays:
  assumes "control_env c = None"
  shows "cr_client (snd (runtime_call c rt)) = cr_client rt"
  using assms
  by (cases c) (auto simp: c_function_defs ring_status_of_def runtime_poll_cq_def post_send_def post_receive_def free_device_list_def Let_def
      split: option.split prod.split)

section \<open>Connections only move forward\<close>

definition reached :: "client_runtime \<Rightarrow> u64 \<Rightarrow> bool" where
  "reached rt e \<longleftrightarrow> e = runtime_epoch rt \<or> e = (if runtime_epoch rt + 1 = 0 then 1 else runtime_epoch rt + 1)"

lemma connected_reached: "ensure_connected env rt = (st, rt1) \<Longrightarrow> reached rt (runtime_epoch rt1)"
  using ensure_connected_epoch [of env rt st rt1] unfolding reached_def by blast

lemma reached_refl [simp]: "reached rt (runtime_epoch rt)"
  by (simp add: reached_def)

context proxy_table
begin

lemma enter_reached:
  assumes "enter env p arguments_ok rt = (out, rt1)"
  shows "reached rt (runtime_epoch rt1)"
proof -
  obtain st rt' where c: "ensure_connected env rt = (st, rt')" by fastforce
  have "cr_client rt1 = cr_client rt \<or> cr_client rt1 = cr_client rt'"
  proof (cases "\<exists>i. out = Some (Inr i)")
    case True
    then show ?thesis using enter_accepted(5) assms c by fastforce
  next
    case False
    then show ?thesis using enter_rejected [OF assms] c by (auto simp: client_update)
  qed
  then show ?thesis using connected_reached [OF c] by auto
qed

end

lemma epoch_of_call: "cc_epoch (snd out) = e \<Longrightarrow> out = (v, cc) \<Longrightarrow> cc_epoch cc = e"
  by auto

lemmas call_epochD = call_epoch [THEN epoch_of_call]

lemmas entered_reached = device_table.enter_reached context_table.enter_reached pd_table.enter_reached mr_table.enter_reached
  cq_table.enter_reached qp_table.enter_reached

lemma methods_reach:
  "reached rt (runtime_epoch (snd (open_device env p rt)))" "reached rt (runtime_epoch (snd (close_device env p rt)))"
  "reached rt (runtime_epoch (snd (alloc_pd env p rt)))" "reached rt (runtime_epoch (snd (dealloc_pd env p rt)))"
  "reached rt (runtime_epoch (snd (dereg_mr env p rt)))" "reached rt (runtime_epoch (snd (destroy_cq env p rt)))"
  "reached rt (runtime_epoch (snd (create_cq env sys h p cqe x channel vector rt)))" "reached rt (runtime_epoch (snd (destroy_qp env p rt)))"
  by (auto simp: open_device_def close_device_def alloc_pd_def dealloc_pd_def dereg_mr_def destroy_cq_def create_cq_def destroy_qp_def Let_def
      dest!: entered_reached call_epochD split: prod.split option.split sum.split)

lemma qp_methods_reach:
  "reached rt (runtime_epoch (snd (modify_qp env p a bits rt)))" "reached rt (runtime_epoch (snd (query_qp env p a bits have_init rt)))"
  "reached rt (runtime_epoch (snd (query_qp_conn_info env p have_info rt)))" "reached rt (runtime_epoch (snd (connect_qp env p remote a bits rt)))"
  by (auto simp: modify_qp_def query_qp_def query_qp_conn_info_def connect_qp_def cache_state_def Let_def
      dest!: entered_reached call_epochD split: prod.split option.split sum.split)

lemma other_methods_reach:
  "reached rt (runtime_epoch (snd (get_device_list env rt)))" "reached rt (runtime_epoch (snd (reg_mr env calls p address len access rt)))"
  "reached rt (runtime_epoch (snd (create_qp env sys1 sys2 p a rt)))" "reached rt (runtime_epoch (snd (free_device_list p rt)))"
  by (auto simp: get_device_list_def reg_mr_def create_qp_def create_connected_qp_def free_device_list_def registered_def Let_def
      dest!: connected_reached entered_reached call_epochD split: prod.split option.split sum.split)

lemma ring_methods_reach:
  "runtime_epoch (snd (snd (post_send env1 p wr hb shared1 rt))) = runtime_epoch rt"
  "runtime_epoch (snd (snd (post_receive env2 p wr2 hb shared2 rt))) = runtime_epoch rt"
  "runtime_epoch (snd (snd (runtime_poll_cq env3 p n have_wc shared3 rt))) = runtime_epoch rt"
  by (auto simp: post_send_def post_receive_def runtime_poll_cq_def Let_def split: prod.split option.split)

lemma runtime_call_reaches: "reached rt (runtime_epoch (snd (runtime_call c rt)))"
  by (cases c) (auto simp: c_function_defs methods_reach qp_methods_reach other_methods_reach ring_methods_reach)

text \<open>As long as the counter of connections does not wrap round, it grows by at most one per call.\<close>

lemma reached_bounds:
  assumes "reached rt e" "unat (runtime_epoch rt) + 1 < 18446744073709551616"
  shows "unat (runtime_epoch rt) \<le> unat e \<and> unat e \<le> unat (runtime_epoch rt) + 1"
proof -
  have "unat (runtime_epoch rt + 1) = unat (runtime_epoch rt) + 1" using unat_add_u64 [of "runtime_epoch rt" 1] assms(2) by simp
  moreover from this have "runtime_epoch rt + 1 \<noteq> 0" by (metis Suc_eq_plus1 nat.distinct(1) unat_0)
  ultimately show ?thesis using assms(1) by (auto simp: reached_def)
qed

lemma runtime_run_epoch:
  assumes "unat (runtime_epoch rt) + length calls < 18446744073709551616"
  shows "unat (runtime_epoch rt) \<le> unat (runtime_epoch (runtime_run calls rt)) \<and>
    unat (runtime_epoch (runtime_run calls rt)) \<le> unat (runtime_epoch rt) + length calls"
  using assms
proof (induction calls arbitrary: rt)
  case (Cons c calls)
  let ?rt = "snd (runtime_call c rt)"
  have b: "unat (runtime_epoch rt) \<le> unat (runtime_epoch ?rt) \<and> unat (runtime_epoch ?rt) \<le> unat (runtime_epoch rt) + 1"
    by (rule reached_bounds [OF runtime_call_reaches]) (use Cons.prems in simp)
  have "unat (runtime_epoch ?rt) + length calls < 18446744073709551616" using b Cons.prems by simp
  from Cons.IH [OF this] show ?case using b by (simp add: runtime_run_def)
qed (simp add: runtime_run_def)

lemma proxy_epoch_grows:
  assumes "grows fixed live xs ys" "\<And>x y. fixed x = fixed y \<Longrightarrow> epoch x = epoch y" "proxy_epoch epoch xs p = Some e"
  shows "proxy_epoch epoch ys p = Some e"
proof -
  obtain i where i: "p = Some i" "i < length xs" "epoch (xs ! i) = e" using assms(3) by (auto simp: proxy_epoch_Some)
  show ?thesis using growsD [OF assms(1) i(2)] assms(2) [of "ys ! i" "xs ! i"] i by (simp add: proxy_epoch_Some)
qed

lemma proxy_epochs_stable:
  assumes "evolves rt rt'"
  shows "proxy_epoch ud_connection_epoch (cr_devices rt) p = Some e \<Longrightarrow> proxy_epoch ud_connection_epoch (cr_devices rt') p = Some e"
    and "proxy_epoch ux_connection_epoch (cr_contexts rt) p = Some e \<Longrightarrow> proxy_epoch ux_connection_epoch (cr_contexts rt') p = Some e"
    and "proxy_epoch up_connection_epoch (cr_pds rt) p = Some e \<Longrightarrow> proxy_epoch up_connection_epoch (cr_pds rt') p = Some e"
    and "proxy_epoch mp_connection_epoch (cr_mrs rt) p = Some e \<Longrightarrow> proxy_epoch mp_connection_epoch (cr_mrs rt') p = Some e"
    and "proxy_epoch uc_connection_epoch (cr_cqs rt) p = Some e \<Longrightarrow> proxy_epoch uc_connection_epoch (cr_cqs rt') p = Some e"
    and "proxy_epoch uq_connection_epoch (cr_qps rt) p = Some e \<Longrightarrow> proxy_epoch uq_connection_epoch (cr_qps rt') p = Some e"
  using assms
    proxy_epoch_grows [of device_fixed ud_live "cr_devices rt" "cr_devices rt'" ud_connection_epoch p e]
    proxy_epoch_grows [of context_fixed ux_live "cr_contexts rt" "cr_contexts rt'" ux_connection_epoch p e]
    proxy_epoch_grows [of pd_fixed up_live "cr_pds rt" "cr_pds rt'" up_connection_epoch p e]
    proxy_epoch_grows [of mr_fixed mp_live "cr_mrs rt" "cr_mrs rt'" mp_connection_epoch p e]
    proxy_epoch_grows [of cq_fixed uc_live "cr_cqs rt" "cr_cqs rt'" uc_connection_epoch p e]
    proxy_epoch_grows [of qp_fixed uq_live "cr_qps rt" "cr_qps rt'" uq_connection_epoch p e]
  by (simp_all add: evolves_def)

lemma names_proxy_stable: "evolves rt rt' \<Longrightarrow> names_proxy c e rt \<Longrightarrow> names_proxy c e rt'"
  by (cases c) (auto simp: proxy_epochs_stable split: option.split_asm)

section \<open>Properties\<close>

text \<open>C9. The handles of the client library are consistent and final in every run of its calls. After any calls, every PD, MR,
  CQ and queue pair refers to proxies that exist, belongs to the connection and to the context of the proxies it was
  made from, a live queue has the rings it was created with and a dead queue pair has none, the devices of a freed
  list are dead and the handles of memory regions differ. And whatever is called later, a proxy that was handed out
  keeps its identity in the daemon, its connection and its links, and once dead it stays dead.\<close>

theorem client_handles_consistent:
  assumes "list_all call_ok (calls @ later)"
    and "rt = runtime_run calls new_runtime" "rt' = runtime_run (calls @ later) new_runtime"
  shows "runtime_inv rt' \<and> evolves rt rt' \<and> distinct (map (\<lambda>mr. um_handle (mp_value mr)) (cr_mrs rt'))"
proof -
  have later: "rt' = runtime_run later rt" using assms(2,3) by (simp add: runtime_run_def)
  have k: "keeps rt rt'" unfolding later using runtime_run_keeps assms(1) by simp
  have "keeps new_runtime rt'" unfolding assms(3) by (rule runtime_run_keeps [OF assms(1)])
  then have inv: "runtime_inv rt'" using new_runtime_inv by (simp add: keeps_def)
  have "distinct (map (\<lambda>x. unat (um_handle (mp_value x))) (cr_mrs rt'))"
    using inv strict_sorted_iff by (auto simp: runtime_inv_def)
  then have "distinct (map (\<lambda>mr. um_handle (mp_value mr)) (cr_mrs rt'))" by (auto simp: distinct_map inj_on_def)
  then show ?thesis using k inv by (simp add: keeps_def)
qed

text \<open>C8. A proxy of an earlier connection never reaches the daemon again. Take a call that names a proxy made in an
  earlier connection than the current one (for \<open>create_qp\<close>: its protection domain or either of its completion queues). Now
  and after any further calls, if it is one of the calls that talk to the daemon, it fails and leaves the client as it was or as
  connecting left it: no request is sent for it. The calls that post work requests and poll completions work
  on the mapped rings; they leave the client as it was, but they do not look at the connection and may succeed. (As long as
  the counter of connections does not wrap round.)\<close>

theorem stale_proxy_never_reaches_daemon:
  assumes "list_all call_ok later" "rt' = runtime_run later rt"
    and "names_proxy c e rt" "unat e < unat (runtime_epoch rt)"
    and "unat (runtime_epoch rt) + length later + 1 < 18446744073709551616"
  shows "case control_env c of
      Some env \<Rightarrow> fst (runtime_call c rt') \<noteq> OK \<and>
        (cr_client (snd (runtime_call c rt')) = cr_client rt' \<or>
         cr_client (snd (runtime_call c rt')) = cr_client (snd (ensure_connected env rt')))
    | None \<Rightarrow> cr_client (snd (runtime_call c rt')) = cr_client rt'"
proof (cases "control_env c")
  case None
  then show ?thesis using ring_call_stays by simp
next
  case (Some env)
  obtain st rt1 where c: "ensure_connected env rt' = (st, rt1)" by fastforce
  have b: "unat (runtime_epoch rt) \<le> unat (runtime_epoch rt')" "unat (runtime_epoch rt') \<le> unat (runtime_epoch rt) + length later"
    using runtime_run_epoch [of rt later] assms(2,5) by simp_all
  have "unat (runtime_epoch rt') \<le> unat (runtime_epoch rt1)"
    using reached_bounds [OF connected_reached [OF c]] b assms(5) by simp
  then have "e \<noteq> runtime_epoch (snd (ensure_connected env rt'))" using b assms(4) c by auto
  moreover have "names_proxy c e rt'"
    using names_proxy_stable [OF _ assms(3)] runtime_run_keeps [OF assms(1), of rt] assms(2) by (simp add: keeps_def)
  ultimately show ?thesis using stale_call_stops [OF _ Some] Some by (simp add: stops_before_daemon_def)
qed

section \<open>A run\<close>

text \<open>A daemon that answers the next request of the client.\<close>

lemma answered_call:
  assumes "ic_socket (cc_client cc) \<ge> 0" "encode_request request [] = Inr q" "encode_response r [] = Inr m"
    and "rp_method r = rq_method request" "0 \<le> rp_status r" "int32 (rp_status r)"
  obtains io c' where "control_call io request cc = (Inr r, cc\<lparr>cc_client := c'\<rparr>)" "ic_socket c' = ic_socket (cc_client cc)"
proof -
  let ?c = "cc_client cc" and ?sv = "(new_server ())\<lparr>sv_connections := [(5, 1)]\<rparr>"
  let ?req = "call_request ?c (rq_method request) (msg_payload q) []"
  note q = encoded_request [OF assms(2)] and a = encoded_response [OF assms(3)]
  have f: "msg_fds m = []" "env_status (msg_envelope m) = rp_status r" "msg_fds q = []" by (subst a(1), simp)+ (subst q(1), simp)
  have "\<exists>p1 p2 c'. client_call full_send (deliver p2 []) (rq_method request) (msg_payload q) [] True ?c = (OK, c', Some p1, Some (framed_response ?req m []))"
    using ipc_call_roundtrip [where handle = "\<lambda>_ _ _. (Some m, ())" and on_disc = "\<lambda>_ _. ()" and sfds = "[]" and fds = "[]" and cfds = "[]"
        and sv = ?sv and fd = 5 and sid = 1 and c = ?c and m = m and call_method = "rq_method request" and payload = "msg_payload q"]
      assms(1,6) q a f by (auto simp: sendable_def)
  then obtain p1 p2 c' where p: "client_call full_send (deliver p2 []) (rq_method request) (msg_payload q) [] True ?c =
      (OK, c', Some p1, Some (framed_response ?req m []))" by blast
  have "decode_response (framed_response ?req m []) = Inr (r, [])"
    by (rule response_decoded [OF assms(3)]) (simp_all add: call_request_def new_envelope_def assms(4))
  then have "control_call (full_send, deliver p2 []) request cc = (Inr r, cc\<lparr>cc_client := c'\<rparr>)"
    using p f assms by (simp add: control_call_def control_call_decoded_def Let_def)
  moreover have "ic_socket c' = ic_socket ?c" using p by (auto simp: client_call_def Let_def split: if_splits prod.splits receive_result.splits)
  ultimately show thesis by (rule that)
qed

definition answer_env :: "socket_io \<Rightarrow> client_env" where
  "answer_env io = \<lparr>ce_getenv = None, ce_socket = Inr 3, ce_connect = None, ce_io = io, ce_undo_io = io, ce_oom = Oom_none\<rparr>"

definition demo_device :: device_descriptor where
  "demo_device = \<lparr>dd_identity = 1, dd_name = [103]\<rparr>"

lemma demo_list_devices:
  assumes "ic_socket (cc_client cc) \<ge> 0"
  obtains io c' where "cc_list_devices io cc = (Inr [demo_device], cc\<lparr>cc_client := c'\<rparr>)" "ic_socket c' = ic_socket (cc_client cc)"
proof -
  obtain bs where bs: "encode_device_list [demo_device] = Inr bs" "length bs = 15"
    by (simp add: encode_device_list_def demo_device_def append_defs Let_def)
  let ?r = "new_response\<lparr>rp_method := cm_list_devices, rp_opaque := bs\<rparr>"
  obtain q where q: "encode_request make_list_devices_request [] = Inr q"
    using plain_encodes(1) [of make_list_devices_request] by (auto simp: make_list_devices_request_def new_request_def control_method_defs)
  obtain m where m: "encode_response ?r [] = Inr m"
    using bs(2) by (auto simp: encode_response_def new_response_def validate_lengths_def valid_indices_def control_method_defs Let_def)
  obtain io c' where "control_call io make_list_devices_request cc = (Inr ?r, cc\<lparr>cc_client := c'\<rparr>)" "ic_socket c' = ic_socket (cc_client cc)"
    by (rule answered_call [OF assms q m]) (simp_all add: new_response_def make_list_devices_request_def int32_def)
  then show thesis using decode_encode_device_list [OF bs(1)]
    by (intro that [of io c']) (simp_all add: cc_list_devices_def new_response_def)
qed

lemma demo_create_context:
  assumes "ic_socket (cc_client cc) \<ge> 0"
  obtains io c' where "cc_create_context io 1 cc = (Inr 0x0100000001000000, cc\<lparr>cc_client := c'\<rparr>)" "ic_socket c' = ic_socket (cc_client cc)"
proof -
  let ?rq = "make_create_context_request 1" and ?r = "new_response\<lparr>rp_method := cm_create_context, rp_object_identity := 0x0100000001000000\<rparr>"
  obtain q where q: "encode_request ?rq [] = Inr q"
    using plain_encodes(1) [of ?rq] by (auto simp: make_create_context_request_def new_request_def control_method_defs)
  obtain m where m: "encode_response ?r [] = Inr m" using plain_encodes(2) [of ?r] by (auto simp: new_response_def control_method_defs)
  obtain io c' where io: "control_call io ?rq cc = (Inr ?r, cc\<lparr>cc_client := c'\<rparr>)" "ic_socket c' = ic_socket (cc_client cc)"
    by (rule answered_call [OF assms q m]) (simp_all add: new_response_def make_create_context_request_def int32_def)
  have "decode_object_identity 0x0100000001000000 = Some \<lparr>oip_type = 1, oip_generation = 1, oip_slot = 0\<rparr>" by code_simp
  then show thesis using io by (intro that [of io c']) (simp_all add: cc_create_context_def new_response_def)
qed

theorem client_handles_consistent_witness:
  "\<exists>env1 env2. let rt = runtime_run [Get_device_list env1] new_runtime;
       rt' = runtime_run ([Get_device_list env1] @ [Open_device env2 (Some 0), Free_device_list (Some 0)]) new_runtime
     in map ud_live (cr_devices rt) = [True] \<and> map ud_live (cr_devices rt') = [False] \<and>
        map ux_daemon_identity (cr_contexts rt') = [0x0100000001000000] \<and> runtime_inv rt' \<and> evolves rt rt'"
proof -
  let ?cc = "\<lparr>cc_client = \<lparr>ic_socket = 3, ic_next_request_id = 1\<rparr>, cc_epoch = 1\<rparr>"
  obtain io1 c1 where l: "cc_list_devices io1 ?cc = (Inr [demo_device], ?cc\<lparr>cc_client := c1\<rparr>)" "ic_socket c1 = 3"
    using demo_list_devices [of ?cc] by auto
  obtain io2 c2 where o: "cc_create_context io2 1 (?cc\<lparr>cc_client := c1\<rparr>) = (Inr 0x0100000001000000, ?cc\<lparr>cc_client := c2\<rparr>)" "ic_socket c2 = 3"
    using demo_create_context [of "?cc\<lparr>cc_client := c1\<rparr>"] l(2) by auto
  let ?e1 = "answer_env io1" and ?e2 = "answer_env io2"
  define rt where "rt = runtime_run [Get_device_list ?e1] new_runtime"
  define rt' where "rt' = runtime_run ([Get_device_list ?e1] @ [Open_device ?e2 (Some 0), Free_device_list (Some 0)]) new_runtime"
  have connect: "ensure_connected ?e1 new_runtime = (Some OK, new_runtime\<lparr>cr_client := ?cc\<rparr>)"
    by (simp add: ensure_connected_def new_runtime_def new_control_client_def new_client_def client_connected_def answer_env_def
        control_connect_def client_connect_def kDefaultDaemonSocket_def)
  have rt: "rt = new_runtime\<lparr>cr_client := ?cc\<lparr>cc_client := c1\<rparr>,
      cr_devices := [\<lparr>ud_catalog_identity = 1, ud_connection_epoch = 1, ud_live = True\<rparr>], cr_lists := [\<lparr>dl_devices = [0], dl_live = True\<rparr>]\<rparr>"
    using connect l(1) by (simp add: rt_def runtime_run_def c_function_defs get_device_list_def Let_def catch_pointer_def status_of_def
        answer_env_def demo_device_def new_runtime_def)
  have rt': "rt' = rt\<lparr>cr_client := ?cc\<lparr>cc_client := c2\<rparr>, cr_devices := [\<lparr>ud_catalog_identity = 1, ud_connection_epoch = 1, ud_live = False\<rparr>],
      cr_contexts := [\<lparr>ux_daemon_identity = 0x0100000001000000, ux_connection_epoch = 1, ux_live = True\<rparr>],
      cr_lists := [\<lparr>dl_devices = [0], dl_live = False\<rparr>]\<rparr>"
  proof -
    have "rt' = snd (runtime_call (Free_device_list (Some 0)) (snd (runtime_call (Open_device ?e2 (Some 0)) rt)))"
      by (simp add: rt'_def rt_def runtime_run_def)
    also have "snd (runtime_call (Open_device ?e2 (Some 0)) rt) = rt\<lparr>cr_client := ?cc\<lparr>cc_client := c2\<rparr>,
        cr_contexts := [\<lparr>ux_daemon_identity = 0x0100000001000000, ux_connection_epoch = 1, ux_live = True\<rparr>]\<rparr>"
      using l(2) o(1) by (simp add: rt new_runtime_def c_function_defs open_device_def enter_device_def enter_handle_def registered_def
          ensure_connected_def client_connected_def answer_env_def Let_def)
    finally show ?thesis by (simp add: rt new_runtime_def c_function_defs free_device_list_def registered_def)
  qed
  have "list_all call_ok ([Get_device_list ?e1] @ [Open_device ?e2 (Some 0), Free_device_list (Some 0)])" by simp
  from client_handles_consistent [OF this rt_def rt'_def] have "runtime_inv rt'" "evolves rt rt'" by simp_all
  moreover have "map ud_live (cr_devices rt) = [True]" "map ud_live (cr_devices rt') = [False]"
    "map ux_daemon_identity (cr_contexts rt') = [0x0100000001000000]" by (simp_all add: rt rt')
  ultimately show ?thesis unfolding rt_def rt'_def Let_def by (intro exI [of _ ?e1] exI [of _ ?e2] conjI)
qed

text \<open>The connection in which the context was opened was lost, another one has been made since.\<close>

definition reconnected_demo :: client_runtime where
  "reconnected_demo = new_runtime\<lparr>cr_client := \<lparr>cc_client = \<lparr>ic_socket = 3, ic_next_request_id = 1\<rparr>, cc_epoch = 2\<rparr>,
     cr_contexts := [\<lparr>ux_daemon_identity = 0x0100000001000000, ux_connection_epoch = 1, ux_live = True\<rparr>]\<rparr>"

theorem stale_proxy_never_reaches_daemon_witness:
  "let rt = runtime_run [Free_device_list None] reconnected_demo; c = Alloc_pd (answer_env (full_send, Recv_eof)) (Some 0)
   in fst (runtime_call c rt) \<noteq> OK \<and> cr_client (snd (runtime_call c rt)) = cr_client rt"
proof -
  let ?env = "answer_env (full_send, Recv_eof)"
  let ?rt = "runtime_run [Free_device_list None] reconnected_demo"
  have e: "names_proxy (Alloc_pd ?env (Some 0)) 1 reconnected_demo"
    by (simp add: proxy_epoch_def registered_def reconnected_demo_def)
  have b: "unat (1 :: u64) < unat (runtime_epoch reconnected_demo)"
    "unat (runtime_epoch reconnected_demo) + length [Free_device_list None] + 1 < 18446744073709551616"
    by (simp_all add: reconnected_demo_def)
  have "ensure_connected ?env ?rt = (Some OK, ?rt)"
    by (simp add: ensure_connected_def client_connected_def reconnected_demo_def runtime_run_def c_function_defs free_device_list_def registered_def)
  then show ?thesis
    using stale_proxy_never_reaches_daemon [of "[Free_device_list None]" ?rt reconnected_demo, OF _ refl e b] by (auto simp: Let_def)
qed

end
