(* ===== verification/Spec2Isabelle.thy ===== *)
theory Spec2Isabelle
  imports Wr_Posting Completion_Queue Control_Service Data_Path Copy_Path Pipeline_Run Static_Run Dynamic_Run Warp_Kernel Client_Runs
begin

text \<open>
  \<^bold>\<open>ugdr\<close> moves data between GPU memories of processes on one host behind an interface in the style of RDMA verbs.
  This development models its C++ and CUDA code and proves what its parts promise each other.

  \<^bold>\<open>The program.\<close> A client links the library behind \<^verbatim>\<open>ugdr/api.hpp\<close>. Objects (contexts, protection domains, memory regions,
  completion queues, queue pairs) live in a daemon; the library keeps a proxy for each and reaches the daemon by requests over a Unix
  socket. Work requests and completions do not use the socket: they travel through rings in shared memory whose file
  descriptors the daemon sends along with its responses. A loop worker on each side of a connection takes work requests from the send ring, cuts
  them into datagrams, has the payloads copied by a copy backend, and puts completions into the completion rings. The copy backend
  gives the copies as tasks to a kernel that stays resident on the GPU, through queues in memory both sides map.

  \<^bold>\<open>Conventions\<close> (\<open>Ugdr_Prelude\<close>). Machine integers are words of their width, so that wrap-around is what the code does; a status is an
  \<open>int\<close>, 0 or an errno value; a function that fills an output or fails returns \<open>int + 'a\<close>; an exception the code lets through
  is \<open>None\<close>. State is a record passed along. What the code asks of the system (sockets, \<open>mmap\<close>, file descriptors, the CUDA driver, the
  clock, the allocations whose failure the code handles) is an argument: a record of answers, over which every theorem quantifies. A driver call
  whose answer only goes into a report is left out. Records of the source are records here with the prefix of
  the type on each field, and functions have the names of the source, with a prefix where two of them clash.

  \<^bold>\<open>Identities and registries\<close> (\<open>Object_Registry\<close>: \<^verbatim>\<open>control/object_identity\<close>, \<^verbatim>\<open>control/object_registry.hpp\<close>). Identities carry a type, a
  generation and a slot. The registry is shown to be a finite map from identities to owned records; an erased identity is never
  issued again and resolves for nobody. \<open>Session_Objects\<close> adds what the services need: the listing of a session and counts over the table.

  \<^bold>\<open>The shared ring\<close> (\<open>Shared_Ring\<close>, \<open>Ring_System\<close>, \<open>Ring_Clients\<close>, \<open>Ring_Ports\<close>, \<open>Ring_Mapping\<close>: \<^verbatim>\<open>queue/shared_ring\<close>). The ring is a step relation of a
  producer and a consumer, each with its cached view of the other; it refines a FIFO queue under every interleaving, its batches are disjoint
  and inside the mapping, and its statuses are exact. \<open>Ring_Clients\<close> and \<open>Ring_Ports\<close> are the contracts its users rely on, as locales.
  \<open>Ring_Mapping\<close> creates, checks and maps the memory and releases it on every failing path. \<open>Descriptors\<close> (\<^verbatim>\<open>queue/descriptors.hpp\<close>) has the entries;
  \<open>Wr_Posting\<close> (\<^verbatim>\<open>api/wr_posting.cpp\<close>) posts chains of work requests; \<open>Completion_Queue\<close> (\<^verbatim>\<open>queue/completion_queue.cpp\<close>, \<open>poll_cq\<close>) passes
  completions from the worker to the client.

  \<^bold>\<open>Messages\<close> (\<open>Wire\<close>, \<open>Ipc_Protocol\<close>, \<open>Ipc_Adapter\<close>, \<open>Queue_Codec\<close>, \<open>Ipc_Session\<close>: \<^verbatim>\<open>ipc/*.cpp\<close>, \<^verbatim>\<open>control/ipc_adapter.cpp\<close>, \<^verbatim>\<open>control/queue_descriptor.hpp\<close>).
  Scalars in network order, frames, control requests and responses and the list of queue descriptors, each with its round trip and
  with what its decoder refuses; client and server sessions with their sockets, and that descriptors are closed exactly once.

  \<^bold>\<open>The control service\<close> (\<open>Device_Context\<close>, \<open>Pd_Mr_Cq\<close>, \<open>Qp\<close>: the classes of \<^verbatim>\<open>control/device_context.cpp\<close>, \<^verbatim>\<open>control/pd_mr_cq.cpp\<close> and \<^verbatim>\<open>control/qp.cpp\<close>,
  whose records extend each other as the classes do). \<open>Control_Objects\<close> and \<open>Qp_Objects\<close> have the invariant of all tables and that
  every handler keeps it; \<open>Control_Run\<close> defines runs of requests and disconnects; \<open>Control_Service\<close> has the
  properties of runs: consistency, isolation of sessions, failure atomicity, release on disconnect, the queue pair state machine, when
  destruction succeeds, and that a key leads only into the region it was issued for. \<open>Daemon\<close> (\<^verbatim>\<open>apps/daemon/main.cpp\<close>) composes service, adapter and
  server into the process: it ends with nothing left, and a call through the socket is the call of the service.

  \<^bold>\<open>The client library\<close> (\<open>Client_Runtime\<close>, \<open>Client_Handles\<close>, \<open>Client_Runs\<close>: \<^verbatim>\<open>api/api.cpp\<close>). Every method and every C function; the six tables of
  proxies meet one contract, a locale. A proxy of an earlier connection never leads to a request again (posting and polling, which make none, do not look at the connection), and the proxies stay consistent. \<open>Cuda_Memory\<close>
  (\<^verbatim>\<open>gpu/cuda_ipc_memory.cu\<close>, \<^verbatim>\<open>gpu/gpudirect_visibility.cu\<close>) exports, opens and fills device memory and has the gate that makes remote writes visible.

  \<^bold>\<open>The worker\<close> (\<open>Local_Transport\<close>, \<open>Worker\<close>: \<^verbatim>\<open>worker/*.cpp\<close>). \<open>Worker_Send\<close> relates the requester to a reference segmentation, \<open>Worker_Respond\<close> has the
  invariant of the responder, \<open>Worker_Delivery\<close> puts both together over \<open>Memory_Copy\<close>, \<open>Worker_Loop\<close> has runs and termination, \<open>Worker_Reports\<close> ties the parents to what
  the backend reported in a run, \<open>Worker_Transfer\<close> follows one send through a run, \<open>Worker_Demo\<close> is an evaluated
  scenario, and \<open>Data_Path\<close> has the properties: a write of any number of datagrams arrives byte for byte, copies stay inside granted regions, answers are true, once and in
  order. A requester whose next request identifier is still in flight keeps the peeked entry and is stuck; the properties of the requester include this state.

  \<^bold>\<open>The copy backend\<close> (\<^verbatim>\<open>gpu/persistent_copy_backend.cu\<close>, \<^verbatim>\<open>gpu/persistent_copy.cu\<close>). \<open>Copy_Host\<close> and \<open>Copy_Host_Inv\<close> are the tasks on the host, \<open>Copy_Backend\<close> the states of
  the backend, \<open>Copy_Run\<close> its runs: every accepted request is completed exactly once whatever queue, gate and clock do. \<open>Copy_Config\<close> validates
  configurations and computes sizes with the overflow checks of the code. \<open>Copy_Queues\<close> is the host side of the four queues, \<open>Copy_Rings\<close> and \<open>Copy_Lanes\<close> their
  contracts. \<open>Word_Masks\<close> and \<open>Warp_Copy\<close> are the copy that the 32 lanes of a warp do together; \<open>Copy_Path\<close> connects requests to it.

  \<^bold>\<open>The pipeline kernel\<close> (\<open>Copy_Pipeline\<close>, \<open>Copy_Channels\<close>, \<open>Copy_Pipeline_Inv\<close>, \<open>Pipeline_Copiers\<close>, \<open>Pipeline_Egress\<close>, \<open>Pipeline_Run\<close>). The kernel the backend
  launches, as a machine whose warps and lanes interleave with the host. Its shared slots are channels with a contract; under every schedule the host polls
  the completions of its own tasks in order, each after its copy. \<open>Kernel_Copies\<close> has what the kernels share: the accesses of a task and the bytes they move.

  \<^bold>\<open>The other kernels\<close>, each interleaved with the host at its queue. \<open>Static_Kernel\<close> and \<open>Static_Run\<close>: warps own the indices of their residue; the host polls the
  completions in the order of submission. \<open>Dynamic_Kernel\<close> and \<open>Dynamic_Run\<close>: a warp serves a lane of its own; every submitted task is completed at most once and after its
  copy. \<open>Direct_Kernel\<close>: warps compete for the head of one ring; claiming a task and reserving its completion are two steps, and a run shows
  that a task can be lost. \<open>Warp_Kernel\<close>: the predecessor of the pipeline kernel, whose copy warps claim from a queue in shared memory; one run delivers, and another, in
  which the copy warp decides to stop on an old count, never ends.

  \<^bold>\<open>Bounds and fuel.\<close> Loops over data are structural recursions; the others have termination proofs by measures. Runs are lists of events or
  steps, over which the theorems quantify, so no fuel is involved. A property of a counter
  that the code never resets assumes that it is below 18446744073709551616, which it says; everything else about widths is computed.

  \<^bold>\<open>Not modelled.\<close> Memory orders: a load or store with acquire or release is one step of a sequentially consistent machine, which is what
  these operations give programs without data races. Allocations that fail where no handler of the code expects it (an exception from the insertion of
  a memory region into its registry, or from a growing response, which the server answers with \<open>EIO\<close>) are left out. Locks: the methods of the client are atomic, as its mutexes make them. The
  payload buffer and \<^verbatim>\<open>CudaPersistentCopyRuntime\<close> only pass calls to the driver and to the queue. The remaining
  programs (\<^verbatim>\<open>apps/client/main.cpp\<close>, the benchmarks, the tests), the Python tools and the build files are not part of the library.
\<close>

end
